(* ===== verification/Prelude.thy ===== *)
theory Prelude
  imports Main "HOL-Library.Word" "HOL-Library.Monad_Syntax"
begin

unbundle bit_operations_syntax

text \<open>
  Shared vocabulary of the development: the machine types of the driver, the status codes that
  several components return, the collections of rewrite rules the component theories fill, and the
  generic facts on lists, options and words that more than one component uses.
\<close>

section \<open>Machine types\<close>

type_synonym u8 = "8 word"
type_synonym u16 = "16 word"
type_synonym u32 = "32 word"
type_synonym u64 = "64 word"
type_synonym addr = nat \<comment> \<open>the address of an object in memory\<close>
abbreviation NULL :: addr where "NULL \<equiv> 0"
type_synonym mac = "u8 list" \<comment> \<open>a MAC address: six bytes\<close>

section \<open>Status codes\<close>

text \<open>The enumeration of vos_status.h, constructor by constructor.\<close>

datatype VOS_STATUS =
    VOS_STATUS_SUCCESS
  | VOS_STATUS_E_RESOURCES
  | VOS_STATUS_E_NOMEM
  | VOS_STATUS_E_AGAIN
  | VOS_STATUS_E_INVAL
  | VOS_STATUS_E_FAULT
  | VOS_STATUS_E_ALREADY
  | VOS_STATUS_E_BADMSG
  | VOS_STATUS_E_BUSY
  | VOS_STATUS_E_CANCELED
  | VOS_STATUS_E_ABORTED
  | VOS_STATUS_E_NOSUPPORT
  | VOS_STATUS_E_PERM
  | VOS_STATUS_E_EMPTY
  | VOS_STATUS_E_EXISTS
  | VOS_STATUS_E_TIMEOUT
  | VOS_STATUS_E_FAILURE

text \<open>The values of \<^verbatim>\<open>tSirRetStatus\<close> that the modelled functions of the MAC return.\<close>

datatype tSirRetStatus = eSIR_SUCCESS | eSIR_FAILURE | eSIR_CFG_INVALID_ID | eSIR_CFG_INVALID_LEN

section \<open>Collections of rewrite rules\<close>

named_theorems guard_simps \<open>which branch of an operation's guards is taken\<close>
named_theorems heap_simps \<open>reading a link field after a write\<close>
named_theorems inv_intros \<open>an operation keeps its component's invariant\<close>

section \<open>Arrays\<close>

text \<open>
  Reading and writing an array of the driver. An access outside the array is undefined behaviour in
  C: its value is \<open>None\<close>.
\<close>

definition rd :: "'a list \<Rightarrow> nat \<Rightarrow> 'a option" where
  "rd xs i = (if i < length xs then Some (xs ! i) else None)"

definition wr :: "'a list \<Rightarrow> nat \<Rightarrow> 'a \<Rightarrow> 'a list option" where
  "wr xs i v = (if i < length xs then Some (xs[i := v]) else None)"

lemma rd_in [simp]: "i < length xs \<Longrightarrow> rd xs i = Some (xs ! i)"
  by (simp add: rd_def)

lemma wr_in [simp]: "i < length xs \<Longrightarrow> wr xs i v = Some (xs[i := v])"
  by (simp add: wr_def)

lemma rd_SomeD: "rd xs i = Some v \<Longrightarrow> i < length xs \<and> xs ! i = v"
  by (auto simp: rd_def split: if_splits)

text \<open>A counting loop over an array: the body runs for each index, an undefined access ends it.\<close>

primrec for_each :: "'i list \<Rightarrow> ('i \<Rightarrow> 's \<Rightarrow> 's option) \<Rightarrow> 's \<Rightarrow> 's option" where
  "for_each [] body s = Some s"
| "for_each (i # is) body s = do { s \<leftarrow> body i s; for_each is body s }"

lemma for_each_append:
  "for_each (is @ js) body s = do { s \<leftarrow> for_each is body s; for_each js body s }"
  by (induction "is" arbitrary: s) auto

text \<open>A loop that keeps a property, or a property of the indices that are left, returns and ends with it.\<close>

lemma for_each_rest:
  assumes "\<And>i is s. I (i # is) s \<Longrightarrow> \<exists>s'. body i s = Some s' \<and> I is s'" and "I is s"
  shows "\<exists>s'. for_each is body s = Some s' \<and> I [] s'"
  using assms(2)
proof (induction "is" arbitrary: s)
  case (Cons i "is")
  from assms(1) [OF Cons.prems] obtain s1 where "body i s = Some s1" "I is s1" by blast
  with Cons.IH [of s1] show ?case by auto
qed simp

lemma for_each_keeps:
  assumes "\<And>i s. i \<in> set is \<Longrightarrow> I s \<Longrightarrow> \<exists>s'. body i s = Some s' \<and> I s'" and "I s"
  shows "\<exists>s'. for_each is body s = Some s' \<and> I s'"
  using assms
proof (induction "is" arbitrary: s)
  case (Cons i "is")
  from Cons.prems(1) [of i s] Cons.prems(2) obtain s1 where "body i s = Some s1" "I s1" by auto
  with Cons.IH [of s1] Cons.prems(1) show ?case by auto
qed simp

lemma for_each_update:
  "n \<le> length xs \<Longrightarrow> for_each [0..<n] (\<lambda>i xs. do { v \<leftarrow> rd xs i; wr xs i (f i v) }) xs =
     Some (map (\<lambda>i. if i < n then f i (xs ! i) else xs ! i) [0..<length xs])"
proof (induction n)
  case 0
  then show ?case by (simp add: map_nth)
next
  case (Suc n)
  have e: "(map (\<lambda>i. if i < n then f i (xs ! i) else xs ! i) [0..<length xs])[n := f n (xs ! n)]
      = map (\<lambda>i. if i < Suc n then f i (xs ! i) else xs ! i) [0..<length xs]"
    using Suc.prems by (intro nth_equalityI) (auto simp: nth_list_update)
  with Suc show ?case by (simp add: for_each_append)
qed

section \<open>Words\<close>

lemma unat_and_mask_le: "unat (x AND m) \<le> unat m" for x m :: "'a::len word"
  by (metis word_and_le1 word_le_nat_alt)

lemma unat_and_mask_less: "unat m < n \<Longrightarrow> unat (x AND m) < n" for x m :: "'a::len word"
  using unat_and_mask_le [of x m] by simp

lemma unat_inc: "unat x < 2 ^ LENGTH('a) - 1 \<Longrightarrow> unat (x + 1) = Suc (unat x)"
  for x :: "'a::len word"
  by (simp add: unat_word_ariths)

lemma unat_inc_le: "unat (x + 1) \<le> Suc (unat x)" for x :: "'a::len word"
  by (simp add: unat_word_ariths mod_less_eq_dividend)

lemma unat_dec: "x \<noteq> 0 \<Longrightarrow> unat (x - 1) = unat x - 1" for x :: "'a::len word"
  by (simp add: unat_minus_one)

lemma unat_word_of_nat: "m < 2 ^ LENGTH('a) \<Longrightarrow> unat (word_of_nat m :: 'a::len word) = m"
  by (simp add: unat_of_nat take_bit_nat_eq_self)

lemma unat_inject [simp]: "unat x = unat y \<longleftrightarrow> x = y" for x y :: "'a::len word"
  by (simp add: word_unat_eq_iff)

lemma unat_u8: "unat (x :: u8) < 256"
  using unsigned_less [of x, where 'a = nat] by simp

lemma unat_u16: "unat (x :: u16) < 65536"
  using unsigned_less [of x, where 'a = nat] by simp

lemma ucast_u8_u16 [simp]: "(ucast (ucast (x :: u8) :: u16) :: u8) = x"
  by (rule unat_inject [THEN iffD1])
    (simp add: unsigned_ucast_eq take_bit_word_eq_self take_bit_nat_eq_self unat_u8)

section \<open>Lists\<close>

lemma set_update_same: "i < length xs \<Longrightarrow> xs[i := v] ! i = v"
  by simp

lemma last_Cons_append: "last (h # xs @ y # ys) = last (y # ys)"
  by simp

text \<open>Masking by a power of two less one is the remainder.\<close>

lemma unat_and_window:
  fixes x w :: "'a::len word"
  assumes "unat w = 2 ^ k - 1"
  shows "unat (x AND w) = unat x mod 2 ^ k"
proof -
  have "unat (x AND w) = unat x AND (2 ^ k - 1)" using assms by (simp add: unsigned_and_eq)
  also have "\<dots> = take_bit k (unat x)" by (simp add: take_bit_eq_mask mask_eq_exp_minus_1)
  finally show ?thesis by (simp add: take_bit_eq_mod)
qed

lemma unat_ucast_u8_u32: "unat (ucast (w :: u8) :: u32) = unat w"
  using unat_u8 [of w] by (simp add: unsigned_ucast_eq take_bit_nat_eq_self)

end
