(* ===== verification/Link_Memory.thy ===== *)
theory Link_Memory
  imports Prelude
begin

text \<open>
  Circular doubly linked lists in memory. Two components of the driver are built on them: the vOSS
  list (\<^verbatim>\<open>struct list_head\<close> of the kernel, vos_list.c) and the SME link list (\<^verbatim>\<open>tListElem\<close>,
  csrLinkList.c). This theory holds the memory they mutate, the predicate that says which sequence
  of nodes a list head represents, and the contract of the four link primitives as a locale.
\<close>

section \<open>Link fields\<close>

text \<open>
  The memory of link nodes: \<open>nxt\<close> is the field \<^verbatim>\<open>next\<close>, \<open>prv\<close> the field \<^verbatim>\<open>prev\<close> of
  \<^verbatim>\<open>struct list_head\<close> (\<^verbatim>\<open>last\<close> of \<^verbatim>\<open>tListElem\<close>), of the node at each address. A list head
  (\<^verbatim>\<open>anchor\<close>, \<^verbatim>\<open>ListHead\<close>) is a node too.
\<close>

record links =
  nxt :: "addr \<Rightarrow> addr"
  prv :: "addr \<Rightarrow> addr"

definition set_nxt :: "addr \<Rightarrow> addr \<Rightarrow> links \<Rightarrow> links" where
  "set_nxt a v l = l\<lparr>nxt := (nxt l)(a := v)\<rparr>"

definition set_prv :: "addr \<Rightarrow> addr \<Rightarrow> links \<Rightarrow> links" where
  "set_prv a v l = l\<lparr>prv := (prv l)(a := v)\<rparr>"

lemma nxt_set_nxt [heap_simps]: "nxt (set_nxt a v l) b = (if b = a then v else nxt l b)"
  by (simp add: set_nxt_def)

lemma prv_set_nxt [heap_simps]: "prv (set_nxt a v l) = prv l"
  by (simp add: set_nxt_def)

lemma nxt_set_prv [heap_simps]: "nxt (set_prv a v l) = nxt l"
  by (simp add: set_prv_def)

lemma prv_set_prv [heap_simps]: "prv (set_prv a v l) b = (if b = a then v else prv l b)"
  by (simp add: set_prv_def)

section \<open>The sequence a list head represents\<close>

text \<open>
  \<open>seg l a xs b\<close>: following \<open>nxt\<close> from \<open>a\<close> visits exactly \<open>xs\<close> and then \<open>b\<close>, and \<open>prv\<close> leads
  back the same way. \<open>dll l h xs\<close>: the circular list with head \<open>h\<close> holds the nodes \<open>xs\<close>.
\<close>

fun seg :: "links \<Rightarrow> addr \<Rightarrow> addr list \<Rightarrow> addr \<Rightarrow> bool" where
  "seg l a [] b \<longleftrightarrow> nxt l a = b \<and> prv l b = a"
| "seg l a (x # xs) b \<longleftrightarrow> nxt l a = x \<and> prv l x = a \<and> seg l x xs b"

definition dll :: "links \<Rightarrow> addr \<Rightarrow> addr list \<Rightarrow> bool" where
  "dll l h xs \<longleftrightarrow> distinct (h # xs) \<and> seg l h xs h"

lemma seg_append: "seg l a (xs @ y # ys) b \<longleftrightarrow> seg l a xs y \<and> seg l y ys b"
  by (induction xs arbitrary: a) auto

lemma seg_cong:
  assumes "\<And>x. x \<in> set (a # xs) \<Longrightarrow> nxt l' x = nxt l x"
    and "\<And>x. x \<in> set (xs @ [b]) \<Longrightarrow> prv l' x = prv l x"
  shows "seg l' a xs b = seg l a xs b"
  using assms by (induction xs arbitrary: a) auto

lemma seg_nxt_hd: "seg l a xs b \<Longrightarrow> nxt l a = hd (xs @ [b])"
  by (cases xs) auto

lemma seg_prv_last: "seg l a xs b \<Longrightarrow> prv l b = last (a # xs)"
  by (induction xs arbitrary: a) auto

lemma seg_snocI:
  "seg l a xs y \<Longrightarrow> nxt l y = b \<Longrightarrow> prv l b = y \<Longrightarrow> seg l a (xs @ [y]) b"
  by (simp add: seg_append)

lemma dll_distinct: "dll l h xs \<Longrightarrow> distinct (h # xs)"
  by (simp add: dll_def)

lemma dll_nxt_head: "dll l h xs \<Longrightarrow> nxt l h = hd (xs @ [h])"
  by (auto simp: dll_def dest: seg_nxt_hd)

lemma dll_prv_head: "dll l h xs \<Longrightarrow> prv l h = last (h # xs)"
  by (auto simp: dll_def dest: seg_prv_last)

lemma dll_nxt_node: "dll l h (xs @ n # ys) \<Longrightarrow> nxt l n = hd (ys @ [h])"
  by (auto simp: dll_def seg_append dest: seg_nxt_hd)

lemma dll_prv_node: "dll l h (xs @ n # ys) \<Longrightarrow> prv l n = last (h # xs)"
  by (auto simp: dll_def seg_append dest: seg_prv_last)

lemma dll_empty_iff: "dll l h xs \<Longrightarrow> nxt l h = h \<longleftrightarrow> xs = []"
  by (cases xs) (auto simp: dll_def)

text \<open>A list is unaffected by writes that stay off its head and its nodes.\<close>

lemma dll_frame:
  assumes "dll l h xs" and "\<And>a. a \<in> set (h # xs) \<Longrightarrow> nxt l' a = nxt l a \<and> prv l' a = prv l a"
  shows "dll l' h xs"
proof -
  have "seg l' h xs h = seg l h xs h"
    by (rule seg_cong) (use assms(2) in auto)
  then show ?thesis using assms(1) by (simp add: dll_def)
qed

text \<open>The represented sequence is unique.\<close>

lemma seg_unique:
  "seg l a xs h \<Longrightarrow> seg l a ys h \<Longrightarrow> h \<notin> set xs \<Longrightarrow> h \<notin> set ys \<Longrightarrow> xs = ys"
proof (induction xs arbitrary: a ys)
  case Nil
  then show ?case by (cases ys) auto
next
  case (Cons x xs)
  then show ?case by (cases ys) auto
qed

lemma dll_unique: "dll l h xs \<Longrightarrow> dll l h ys \<Longrightarrow> xs = ys"
  by (rule seg_unique) (auto simp: dll_def)

section \<open>Linking and unlinking\<close>

text \<open>
  The two memory effects every primitive comes down to: linking a new node \<open>n\<close> between two
  adjacent nodes, and joining the neighbours of a node. Both are stated for a memory \<open>l'\<close> that
  agrees with \<open>l\<close> outside the fields that must change.
\<close>

lemma seg_split:
  "seg l a (xs @ ys) b \<longleftrightarrow> seg l a xs (hd (ys @ [b])) \<and> seg l (last (a # xs)) ys b"
proof (induction xs arbitrary: a)
  case Nil
  then show ?case by (cases ys) auto
next
  case (Cons x xs)
  then show ?case by simp
qed

lemma seg_retarget_end:
  assumes "seg l a xs b" and "nxt l' (last (a # xs)) = c" and "prv l' c = last (a # xs)"
    and "\<And>x. x \<in> set (butlast (a # xs)) \<Longrightarrow> nxt l' x = nxt l x"
    and "\<And>x. x \<in> set xs \<Longrightarrow> prv l' x = prv l x"
  shows "seg l' a xs c"
  using assms
proof (induction xs arbitrary: a)
  case Nil
  then show ?case by simp
next
  case (Cons x xs)
  have "seg l' x xs c"
    by (rule Cons.IH) (use Cons.prems in auto)
  then show ?case using Cons.prems by simp
qed

lemma seg_retarget_start:
  assumes "seg l a xs b" and "nxt l' c = hd (xs @ [b])" and "prv l' (hd (xs @ [b])) = c"
    and "\<And>x. x \<in> set xs \<Longrightarrow> nxt l' x = nxt l x"
    and "\<And>x. x \<in> set (tl (xs @ [b])) \<Longrightarrow> prv l' x = prv l x"
  shows "seg l' c xs b"
proof (cases xs)
  case Nil
  then show ?thesis using assms by simp
next
  case (Cons y ys)
  have "seg l' y ys b = seg l y ys b"
    by (rule seg_cong) (use assms(4,5) Cons in auto)
  then show ?thesis using assms Cons by simp
qed

lemma last_notin_butlast: "distinct xs \<Longrightarrow> xs \<noteq> [] \<Longrightarrow> last xs \<notin> set (butlast xs)"
  by (metis append_butlast_last_id distinct_butlast not_distinct_conv_prefix)

lemma hd_notin_tl: "distinct xs \<Longrightarrow> xs \<noteq> [] \<Longrightarrow> hd xs \<notin> set (tl xs)"
  by (cases xs) auto

text \<open>
  The position between \<open>xs\<close> and \<open>ys\<close> of a duplicate-free circular list: which nodes are neither
  neighbour of the gap, nor the node \<open>n\<close> that goes into it or comes out of it.
\<close>

lemma gap_facts:
  assumes "distinct (h # xs @ ys)" and "n \<notin> set (h # xs @ ys)"
    and p: "p = last (h # xs)" and q: "q = hd (ys @ [h])"
  shows "x \<in> set (butlast (h # xs)) \<Longrightarrow> x \<noteq> p \<and> x \<noteq> n"
    and "x \<in> set ys \<Longrightarrow> x \<noteq> p \<and> x \<noteq> n"
    and "x \<in> set (tl (ys @ [h])) \<Longrightarrow> x \<noteq> q \<and> x \<noteq> n"
    and "x \<in> set xs \<Longrightarrow> x \<noteq> q \<and> x \<noteq> n"
proof -
  have d: "distinct (h # xs)" "distinct (ys @ [h])" "set xs \<inter> set ys = {}" "h \<notin> set ys" "h \<notin> set xs"
    using assms(1) by auto
  have pin: "p \<in> set (h # xs)" unfolding p by (rule last_in_set) simp
  have qin: "q \<in> set (ys @ [h])" unfolding q by (rule hd_in_set) simp
  show "x \<noteq> p \<and> x \<noteq> n" if "x \<in> set (butlast (h # xs))"
  proof -
    have "p \<notin> set (butlast (h # xs))" using d(1) unfolding p by (intro last_notin_butlast) auto
    with that in_set_butlastD [OF that] show ?thesis using assms(2) by fastforce
  qed
  show "x \<noteq> q \<and> x \<noteq> n" if "x \<in> set (tl (ys @ [h]))"
  proof -
    have "q \<notin> set (tl (ys @ [h]))" using d(2) unfolding q by (intro hd_notin_tl) auto
    moreover have "x \<in> set (ys @ [h])" using that by (rule list.set_sel(2) [rotated]) simp
    ultimately show ?thesis using that assms(2) by fastforce
  qed
  show "x \<noteq> p \<and> x \<noteq> n" if "x \<in> set ys" using that pin d(3,4) assms(2) by auto
  show "x \<noteq> q \<and> x \<noteq> n" if "x \<in> set xs" using that qin d(3,5) assms(2) by auto
qed

lemma dll_gap:
  assumes "dll l h (xs @ ys)" and p: "p = last (h # xs)" and q: "q = hd (ys @ [h])"
  shows "nxt l p = q" and "prv l q = p" and "p \<in> set (h # xs @ ys)" and "q \<in> set (h # xs @ ys)"
proof -
  have "seg l h xs q" and "seg l p ys h" using assms by (auto simp: dll_def seg_split)
  then show "nxt l p = q" and "prv l q = p"
    using p q by (auto dest: seg_nxt_hd seg_prv_last)
  show "p \<in> set (h # xs @ ys)" unfolding p using last_in_set [of "h # xs"] by auto
  show "q \<in> set (h # xs @ ys)" unfolding q using hd_in_set [of "ys @ [h]"] by auto
qed

lemma dll_node_gap:
  assumes "dll l h (xs @ n # ys)" and p: "p = last (h # xs)" and q: "q = hd (ys @ [h])"
  shows "prv l n = p" and "nxt l n = q" and "p \<noteq> n" and "q \<noteq> n"
    and "p \<in> set (h # xs @ ys)" and "q \<in> set (h # xs @ ys)"
proof -
  show "prv l n = p" using assms(1) p by (simp add: dll_prv_node)
  show "nxt l n = q" using assms(1) q by (simp add: dll_nxt_node)
  have n: "n \<notin> set (h # xs @ ys)" using assms(1) by (auto simp: dll_def)
  show "p \<in> set (h # xs @ ys)" unfolding p using last_in_set [of "h # xs"] by auto
  show "q \<in> set (h # xs @ ys)" unfolding q using hd_in_set [of "ys @ [h]"] by auto
  then show "p \<noteq> n" and "q \<noteq> n" using n \<open>p \<in> set (h # xs @ ys)\<close> by metis+
qed

lemma dll_nxt_closed: "dll l h xs \<Longrightarrow> p \<in> set (h # xs) \<Longrightarrow> nxt l p \<in> set (h # xs)"
proof -
  assume d: "dll l h xs" and p: "p \<in> set (h # xs)"
  show ?thesis
  proof (cases "p = h")
    case True
    then show ?thesis using d dll_gap [of l h "[]" xs h] by auto
  next
    case False
    then obtain us vs where xs: "xs = us @ p # vs" using p by (auto dest: split_list)
    then show ?thesis using d dll_node_gap(2,6) [of l h us p vs] by auto
  qed
qed

lemma dll_prv_closed: "dll l h xs \<Longrightarrow> p \<in> set (h # xs) \<Longrightarrow> prv l p \<in> set (h # xs)"
proof -
  assume d: "dll l h xs" and p: "p \<in> set (h # xs)"
  show ?thesis
  proof (cases "p = h")
    case True
    then show ?thesis using d dll_gap [of l h xs "[]"] by auto
  next
    case False
    then obtain us vs where xs: "xs = us @ p # vs" using p by (auto dest: split_list)
    then show ?thesis using d dll_node_gap(1,5) [of l h us p vs] by auto
  qed
qed

lemma dll_link:
  assumes "dll l h (xs @ ys)" and n: "n \<notin> set (h # xs @ ys)"
    and p: "p = last (h # xs)" and q: "q = hd (ys @ [h])"
    and new: "nxt l' p = n" "nxt l' n = q" "prv l' n = p" "prv l' q = n"
    and nx: "\<And>a. a \<noteq> p \<Longrightarrow> a \<noteq> n \<Longrightarrow> nxt l' a = nxt l a"
    and pv: "\<And>a. a \<noteq> q \<Longrightarrow> a \<noteq> n \<Longrightarrow> prv l' a = prv l a"
  shows "dll l' h (xs @ n # ys)"
proof -
  have d: "distinct (h # xs @ ys)" and s: "seg l h xs q" "seg l p ys h"
    using assms(1) by (auto simp: dll_def seg_split p q)
  note g = gap_facts [OF d n p q]
  have "seg l' h xs n"
    by (rule seg_retarget_end [OF s(1)]) (use new p g nx pv in metis)+
  moreover have "seg l' n ys h"
    by (rule seg_retarget_start [OF s(2)]) (use new q g nx pv in metis)+
  ultimately show ?thesis
    using d n by (auto simp: dll_def seg_append)
qed

lemma dll_unlink:
  assumes "dll l h (xs @ n # ys)"
    and p: "p = last (h # xs)" and q: "q = hd (ys @ [h])"
    and new: "nxt l' p = q" "prv l' q = p"
    and nx: "\<And>a. a \<noteq> p \<Longrightarrow> a \<noteq> n \<Longrightarrow> nxt l' a = nxt l a"
    and pv: "\<And>a. a \<noteq> q \<Longrightarrow> a \<noteq> n \<Longrightarrow> prv l' a = prv l a"
  shows "dll l' h (xs @ ys)"
proof -
  have d: "distinct (h # xs @ ys)" and n: "n \<notin> set (h # xs @ ys)"
    and s: "seg l h xs n" "seg l n ys h"
    using assms(1) by (auto simp: dll_def seg_append)
  note g = gap_facts [OF d n p q]
  have "seg l' h xs q"
    by (rule seg_retarget_end [OF s(1)]) (use new p g nx pv in metis)+
  moreover have "seg l' p ys h"
    by (rule seg_retarget_start [OF s(2)]) (use new q g nx pv in metis)+
  ultimately show ?thesis
    using d by (simp add: dll_def seg_split p q)
qed

section \<open>Walking a list\<close>

text \<open>
  The search \<^verbatim>\<open>list_for_each (p, h) if (P (p)) { found = 1; break; }\<close>, started at the node \<open>p\<close>; \<open>None\<close>
  when neither a hit nor the head ever comes up, that is, when the walk does not end.
\<close>

partial_function (option) list_search :: "links \<Rightarrow> addr \<Rightarrow> (addr \<Rightarrow> bool) \<Rightarrow> addr \<Rightarrow> bool option" where
  "list_search l h P p =
     (if p = h then Some False else if P p then Some True else list_search l h P (nxt l p))"

lemma list_search_seg:
  "seg l a xs h \<Longrightarrow> h \<notin> set xs \<Longrightarrow> list_search l h P (nxt l a) = Some (\<exists>x \<in> set xs. P x)"
proof (induction xs arbitrary: a)
  case Nil
  then show ?case by (simp add: list_search.simps)
next
  case (Cons x xs)
  then show ?case by (auto simp: list_search.simps [of l h P x])
qed

lemma list_search_dll: "dll l h xs \<Longrightarrow> list_search l h P (nxt l h) = Some (\<exists>x \<in> set xs. P x)"
  by (rule list_search_seg) (auto simp: dll_def)

section \<open>The contract of the link primitives\<close>

text \<open>
  What vos_list.c relies on of the kernel's \<^verbatim>\<open>INIT_LIST_HEAD\<close>, \<^verbatim>\<open>list_add\<close>, \<^verbatim>\<open>list_add_tail\<close>,
  \<^verbatim>\<open>list_del\<close>, \<^verbatim>\<open>list_empty\<close> and \<^verbatim>\<open>list_for_each\<close>, and what csrLinkList.c implements itself:
  \<open>add n p\<close> puts the node \<open>n\<close> right after \<open>p\<close>, \<open>add_tail n p\<close> right before \<open>p\<close>, \<open>del n\<close> takes \<open>n\<close>
  out, \<open>search h P\<close> looks for a node satisfying \<open>P\<close>, and none of them writes to a node that is not
  on the list.
\<close>

locale link_prims =
  fixes init :: "addr \<Rightarrow> links \<Rightarrow> links"
    and add :: "addr \<Rightarrow> addr \<Rightarrow> links \<Rightarrow> links"
    and add_tail :: "addr \<Rightarrow> addr \<Rightarrow> links \<Rightarrow> links"
    and del :: "addr \<Rightarrow> links \<Rightarrow> links"
    and is_empty :: "links \<Rightarrow> addr \<Rightarrow> bool"
    and search :: "links \<Rightarrow> addr \<Rightarrow> (addr \<Rightarrow> bool) \<Rightarrow> bool option"
  assumes init: "dll (init h l) h []"
    and add: "dll l h (xs @ ys) \<Longrightarrow> n \<notin> set (h # xs @ ys) \<Longrightarrow> p = last (h # xs) \<Longrightarrow>
       dll (add n p l) h (xs @ n # ys)"
    and add_tail: "dll l h (xs @ ys) \<Longrightarrow> n \<notin> set (h # xs @ ys) \<Longrightarrow> p = hd (ys @ [h]) \<Longrightarrow>
       dll (add_tail n p l) h (xs @ n # ys)"
    and del: "dll l h (xs @ n # ys) \<Longrightarrow> dll (del n l) h (xs @ ys)"
    and init_frame: "a \<noteq> h \<Longrightarrow> nxt (init h l) a = nxt l a \<and> prv (init h l) a = prv l a"
    and add_frame: "dll l h xs \<Longrightarrow> p \<in> set (h # xs) \<Longrightarrow> a \<notin> set (n # h # xs) \<Longrightarrow>
       nxt (add n p l) a = nxt l a \<and> prv (add n p l) a = prv l a"
    and add_tail_frame: "dll l h xs \<Longrightarrow> p \<in> set (h # xs) \<Longrightarrow> a \<notin> set (n # h # xs) \<Longrightarrow>
       nxt (add_tail n p l) a = nxt l a \<and> prv (add_tail n p l) a = prv l a"
    and del_frame: "dll l h xs \<Longrightarrow> n \<in> set xs \<Longrightarrow> a \<notin> set (h # xs) \<Longrightarrow>
       nxt (del n l) a = nxt l a \<and> prv (del n l) a = prv l a"
    and is_empty: "dll l h xs \<Longrightarrow> is_empty l h \<longleftrightarrow> xs = []"
    and search: "dll l h xs \<Longrightarrow> search l h P = Some (\<exists>x \<in> set xs. P x)"
begin

text \<open>Stack and queue behaviour at the head, and the first and last node coming out again.\<close>

lemma add_front: "dll l h xs \<Longrightarrow> n \<notin> set (h # xs) \<Longrightarrow> dll (add n h l) h (n # xs)"
  using add [where xs = "[]"] by simp

lemma add_back: "dll l h xs \<Longrightarrow> n \<notin> set (h # xs) \<Longrightarrow> dll (add_tail n h l) h (xs @ [n])"
  using add_tail [where ys = "[]"] by simp

lemma add_after_node:
  "dll l h (xs @ m # ys) \<Longrightarrow> n \<notin> set (h # xs @ m # ys) \<Longrightarrow> dll (add n m l) h (xs @ m # n # ys)"
  using add [where xs = "xs @ [m]"] by simp

lemma add_before_node:
  "dll l h (xs @ m # ys) \<Longrightarrow> n \<notin> set (h # xs @ m # ys) \<Longrightarrow> dll (add_tail n m l) h (xs @ n # m # ys)"
  using add_tail [where ys = "m # ys"] by simp

lemma del_front: "dll l h (x # xs) \<Longrightarrow> dll (del (nxt l h) l) h xs"
  using del [where xs = "[]"] dll_nxt_head [of l h "x # xs"] by simp

lemma del_back: "dll l h (xs @ [x]) \<Longrightarrow> dll (del (prv l h) l) h xs"
  using del [where ys = "[]"] dll_prv_head [of l h "xs @ [x]"] by simp

lemma del_member: "dll l h xs \<Longrightarrow> n \<in> set xs \<Longrightarrow> dll (del n l) h (remove1 n xs)"
proof -
  assume "dll l h xs" and "n \<in> set xs"
  then obtain us vs where xs: "xs = us @ n # vs" and "n \<notin> set us"
    by (meson split_list_first)
  then show ?thesis using del [of l h us n vs] \<open>dll l h xs\<close> by (simp add: remove1_append)
qed

text \<open>A second list that shares no node with the first is not disturbed.\<close>

lemma add_tail_other:
  assumes "dll l h xs" and "dll l k ys" and "p \<in> set (h # xs)"
    and "set (k # ys) \<inter> set (n # h # xs) = {}"
  shows "dll (add_tail n p l) k ys"
  by (rule dll_frame [OF assms(2)]) (use add_tail_frame [OF assms(1,3)] assms(4) in blast)

lemma add_other:
  assumes "dll l h xs" and "dll l k ys" and "p \<in> set (h # xs)"
    and "set (k # ys) \<inter> set (n # h # xs) = {}"
  shows "dll (add n p l) k ys"
  by (rule dll_frame [OF assms(2)]) (use add_frame [OF assms(1,3)] assms(4) in blast)

lemma del_other:
  assumes "dll l h xs" and "dll l k ys" and "n \<in> set xs" and "set (k # ys) \<inter> set (h # xs) = {}"
  shows "dll (del n l) k ys"
  by (rule dll_frame [OF assms(2)]) (use del_frame [OF assms(1,3)] assms(4) in blast)

end

section \<open>The contract of a node list with two ends\<close>

text \<open>
  What the clients of the two list services use: nodes go in and come out at either end. \<open>rep s xs\<close>
  says that the state \<open>s\<close> holds the sequence \<open>xs\<close>, \<open>avail s n\<close> that \<open>n\<close> is an address the list may
  take as a node. A result \<open>None\<close> would be a call that does not return; an empty list pops \<open>NULL\<close>.
\<close>

primrec push_all :: "(addr \<Rightarrow> 's \<Rightarrow> 's option) \<Rightarrow> addr list \<Rightarrow> 's \<Rightarrow> 's option" where
  "push_all push [] s = Some s"
| "push_all push (n # ns) s = (case push n s of None \<Rightarrow> None | Some t \<Rightarrow> push_all push ns t)"

primrec pop_all :: "('s \<Rightarrow> (addr \<times> 's) option) \<Rightarrow> nat \<Rightarrow> 's \<Rightarrow> (addr list \<times> 's) option" where
  "pop_all pop 0 s = Some ([], s)"
| "pop_all pop (Suc k) s = (case pop s of None \<Rightarrow> None
   | Some (n, t) \<Rightarrow> (case pop_all pop k t of None \<Rightarrow> None | Some (ns, u) \<Rightarrow> Some (n # ns, u)))"

locale node_deque =
  fixes rep :: "'s \<Rightarrow> addr list \<Rightarrow> bool"
    and avail :: "'s \<Rightarrow> addr \<Rightarrow> bool"
    and push_front :: "addr \<Rightarrow> 's \<Rightarrow> 's option"
    and push_back :: "addr \<Rightarrow> 's \<Rightarrow> 's option"
    and pop_front :: "'s \<Rightarrow> (addr \<times> 's) option"
    and pop_back :: "'s \<Rightarrow> (addr \<times> 's) option"
  assumes push_front: "rep s xs \<Longrightarrow> avail s n \<Longrightarrow> n \<notin> set xs \<Longrightarrow>
      \<exists>t. push_front n s = Some t \<and> rep t (n # xs) \<and> avail t = avail s"
    and push_back: "rep s xs \<Longrightarrow> avail s n \<Longrightarrow> n \<notin> set xs \<Longrightarrow>
      \<exists>t. push_back n s = Some t \<and> rep t (xs @ [n]) \<and> avail t = avail s"
    and pop_front: "rep s (x # xs) \<Longrightarrow> \<exists>t. pop_front s = Some (x, t) \<and> rep t xs \<and> avail t = avail s"
    and pop_back: "rep s (xs @ [x]) \<Longrightarrow> \<exists>t. pop_back s = Some (x, t) \<and> rep t xs \<and> avail t = avail s"
    and pop_front_empty: "rep s [] \<Longrightarrow> pop_front s = Some (NULL, s)"
    and pop_back_empty: "rep s [] \<Longrightarrow> pop_back s = Some (NULL, s)"
begin

lemma push_back_all:
  "rep s xs \<Longrightarrow> \<forall>n \<in> set ns. avail s n \<Longrightarrow> distinct (xs @ ns) \<Longrightarrow>
     \<exists>t. push_all push_back ns s = Some t \<and> rep t (xs @ ns)"
proof (induction ns arbitrary: s xs)
  case Nil
  then show ?case by simp
next
  case (Cons n ns)
  then obtain t where t: "push_back n s = Some t" "rep t (xs @ [n])" "avail t = avail s"
    using push_back [of s xs n] by auto
  then have "\<exists>u. push_all push_back ns t = Some u \<and> rep u ((xs @ [n]) @ ns)"
    using Cons.prems by (intro Cons.IH) auto
  then show ?case using t by simp
qed

lemma push_front_all:
  "rep s xs \<Longrightarrow> \<forall>n \<in> set ns. avail s n \<Longrightarrow> distinct (rev ns @ xs) \<Longrightarrow>
     \<exists>t. push_all push_front ns s = Some t \<and> rep t (rev ns @ xs)"
proof (induction ns arbitrary: s xs)
  case Nil
  then show ?case by simp
next
  case (Cons n ns)
  then obtain t where t: "push_front n s = Some t" "rep t (n # xs)" "avail t = avail s"
    using push_front [of s xs n] by auto
  then have "\<exists>u. push_all push_front ns t = Some u \<and> rep u (rev ns @ (n # xs))"
    using Cons.prems by (intro Cons.IH) auto
  then show ?case using t by simp
qed

lemma pop_front_all: "rep s xs \<Longrightarrow> \<exists>t. pop_all pop_front (length xs) s = Some (xs, t) \<and> rep t []"
proof (induction xs arbitrary: s)
  case Nil
  then show ?case by simp
next
  case (Cons x xs)
  then obtain t where "pop_front s = Some (x, t)" "rep t xs" using pop_front by blast
  then show ?case using Cons.IH [of t] by auto
qed

lemma pop_back_all: "rep s xs \<Longrightarrow> \<exists>t. pop_all pop_back (length xs) s = Some (rev xs, t) \<and> rep t []"
proof (induction xs arbitrary: s rule: rev_induct)
  case Nil
  then show ?case by simp
next
  case (snoc x xs)
  then obtain t where "pop_back s = Some (x, t)" "rep t xs" using pop_back by blast
  then show ?case using snoc.IH [of t] by auto
qed

text \<open>First in, first out; last in, first out.\<close>

lemma fifo:
  assumes "rep s xs" and "\<forall>n \<in> set ns. avail s n" and "distinct (xs @ ns)"
  shows "\<exists>t u. push_all push_back ns s = Some t \<and>
    pop_all pop_front (length (xs @ ns)) t = Some (xs @ ns, u) \<and> rep u []"
  using push_back_all [OF assms] pop_front_all by blast

lemma lifo:
  assumes "rep s xs" and "\<forall>n \<in> set ns. avail s n" and "distinct (rev ns @ xs)"
  shows "\<exists>t u. push_all push_front ns s = Some t \<and>
    pop_all pop_front (length (rev ns @ xs)) t = Some (rev ns @ xs, u) \<and> rep u []"
  using push_front_all [OF assms] pop_front_all by blast

lemma fifo_back:
  assumes "rep s xs" and "\<forall>n \<in> set ns. avail s n" and "distinct (rev ns @ xs)"
  shows "\<exists>t u. push_all push_front ns s = Some t \<and>
    pop_all pop_back (length (rev ns @ xs)) t = Some (rev xs @ ns, u) \<and> rep u []"
proof -
  obtain t where t: "push_all push_front ns s = Some t" "rep t (rev ns @ xs)"
    using push_front_all [OF assms] by blast
  then show ?thesis using pop_back_all [of t "rev ns @ xs"] by auto
qed

end

end
