(* ===== verification/Vos_Lock.thy ===== *)
theory Vos_Lock
  imports Prelude
begin

text \<open>
  The vOSS lock (VOSS/src/vos_lock.c): a mutex that its owner may acquire again, with the nesting
  depth counted in the 8-bit field \<^verbatim>\<open>refcount\<close>. The first part translates the four operations.
  The second part is the lock as several threads use it: a step relation in which a thread may wait
  for the mutex between the two halves of \<^verbatim>\<open>vos_lock_acquire\<close>, and the proof that no two threads
  own the lock as long as no thread nests more than 255 deep.
\<close>

section \<open>The lock object\<close>

text \<open>\<^verbatim>\<open>vos_lock_t\<close> of i_vos_lock.h. Of the kernel mutex the owner is kept: \<open>None\<close> when it is free.\<close>

record vos_lock =
  m_lock :: "int option"
  lock_cookie :: u32
  processID :: int
  lock_state :: u32
  refcount :: u8

definition LINUX_LOCK_COOKIE :: u32 where "LINUX_LOCK_COOKIE = 0x12345678"
definition LOCK_RELEASED :: u32 where "LOCK_RELEASED = 0x11223344"
definition LOCK_ACQUIRED :: u32 where "LOCK_ACQUIRED = LOCK_RELEASED + 1"
definition LOCK_DESTROYED :: u32 where "LOCK_DESTROYED = LOCK_ACQUIRED + 1"

lemmas lock_consts = LINUX_LOCK_COOKIE_def LOCK_RELEASED_def LOCK_ACQUIRED_def LOCK_DESTROYED_def

section \<open>Operations\<close>

text \<open>
  A lock pointer is \<open>None\<close> when it is \<^verbatim>\<open>NULL\<close>. \<open>irq\<close> is the value of \<^verbatim>\<open>in_interrupt()\<close>, \<open>pid\<close> is
  \<^verbatim>\<open>current->pid\<close>. The trace calls and the \<^verbatim>\<open>VOS_ASSERT(0)\<close> beside them (a warning in debug builds,
  nothing otherwise) change no state.
\<close>

definition vos_lock_init :: "bool \<Rightarrow> vos_lock option \<Rightarrow> VOS_STATUS \<times> vos_lock option" where
  "vos_lock_init irq lock = (case lock of
     None \<Rightarrow> (VOS_STATUS_E_FAULT, None)
   | Some L \<Rightarrow>
       if LINUX_LOCK_COOKIE = lock_cookie L then (VOS_STATUS_E_BUSY, Some L)
       else if irq then (VOS_STATUS_E_FAULT, Some L)
       else (VOS_STATUS_SUCCESS,
             Some (L\<lparr>m_lock := None, lock_cookie := LINUX_LOCK_COOKIE, lock_state := LOCK_RELEASED,
                     processID := 0, refcount := 0\<rparr>)))"

text \<open>
  \<^verbatim>\<open>vos_lock_acquire\<close> up to the call of \<^verbatim>\<open>mutex_lock\<close>: the call returns at once, with a status and
  the lock, or goes on to the mutex.
\<close>

datatype lock_entry = Returned VOS_STATUS "vos_lock option" | To_mutex

definition vos_lock_acquire_enter :: "bool \<Rightarrow> int \<Rightarrow> vos_lock option \<Rightarrow> lock_entry" where
  "vos_lock_acquire_enter irq pid lock = (case lock of
     None \<Rightarrow> Returned VOS_STATUS_E_FAULT None
   | Some L \<Rightarrow>
       if LINUX_LOCK_COOKIE \<noteq> lock_cookie L then Returned VOS_STATUS_E_INVAL (Some L)
       else if irq then Returned VOS_STATUS_E_FAULT (Some L)
       else if processID L = pid \<and> lock_state L = LOCK_ACQUIRED
         then Returned VOS_STATUS_SUCCESS (Some (L\<lparr>refcount := refcount L + 1\<rparr>))
       else To_mutex)"

text \<open>\<^verbatim>\<open>vos_lock_acquire\<close> from the moment \<^verbatim>\<open>mutex_lock\<close> got the mutex.\<close>

definition vos_lock_acquire_locked :: "int \<Rightarrow> vos_lock \<Rightarrow> VOS_STATUS \<times> vos_lock" where
  "vos_lock_acquire_locked pid L0 =
     (let L = L0\<lparr>m_lock := Some pid\<rparr> in
      if m_lock L = None then (VOS_STATUS_E_FAILURE, L)
      else if LOCK_DESTROYED \<noteq> lock_state L then
        (VOS_STATUS_SUCCESS,
         L\<lparr>processID := pid, refcount := refcount L + 1, lock_state := LOCK_ACQUIRED\<rparr>)
      else (VOS_STATUS_E_FAILURE, L\<lparr>m_lock := None\<rparr>))"

text \<open>The whole call, for a caller that is alone: \<open>None\<close> when it blocks on the mutex for ever.\<close>

definition vos_lock_acquire ::
  "bool \<Rightarrow> int \<Rightarrow> vos_lock option \<Rightarrow> (VOS_STATUS \<times> vos_lock option) option" where
  "vos_lock_acquire irq pid lock = (case vos_lock_acquire_enter irq pid lock of
     Returned st L \<Rightarrow> Some (st, L)
   | To_mutex \<Rightarrow> (case lock of
       None \<Rightarrow> None
     | Some L \<Rightarrow> if m_lock L \<noteq> None then None
               else (case vos_lock_acquire_locked pid L of (st, L') \<Rightarrow> Some (st, Some L'))))"

definition vos_lock_release :: "bool \<Rightarrow> int \<Rightarrow> vos_lock option \<Rightarrow> VOS_STATUS \<times> vos_lock option" where
  "vos_lock_release irq pid lock = (case lock of
     None \<Rightarrow> (VOS_STATUS_E_FAULT, None)
   | Some L \<Rightarrow>
       if LINUX_LOCK_COOKIE \<noteq> lock_cookie L then (VOS_STATUS_E_INVAL, Some L)
       else if irq then (VOS_STATUS_E_FAULT, Some L)
       else if processID L \<noteq> pid then (VOS_STATUS_E_PERM, Some L)
       else
         let L1 = (if processID L = pid \<and> lock_state L = LOCK_ACQUIRED
                   then (if refcount L > 0 then L\<lparr>refcount := refcount L - 1\<rparr> else L) else L)
         in if refcount L1 \<noteq> 0 then (VOS_STATUS_SUCCESS, Some L1)
            else (VOS_STATUS_SUCCESS,
                  Some (L1\<lparr>processID := 0, refcount := 0, lock_state := LOCK_RELEASED,
                           m_lock := None\<rparr>)))"

definition vos_lock_destroy :: "bool \<Rightarrow> vos_lock option \<Rightarrow> VOS_STATUS \<times> vos_lock option" where
  "vos_lock_destroy irq lock = (case lock of
     None \<Rightarrow> (VOS_STATUS_E_FAULT, None)
   | Some L \<Rightarrow>
       if LINUX_LOCK_COOKIE \<noteq> lock_cookie L then (VOS_STATUS_E_INVAL, Some L)
       else if irq then (VOS_STATUS_E_FAULT, Some L)
       else if m_lock L \<noteq> None then (VOS_STATUS_E_BUSY, Some L)
       else (VOS_STATUS_SUCCESS,
             Some (L\<lparr>lock_cookie := 0, lock_state := LOCK_DESTROYED, processID := 0,
                     refcount := 0, m_lock := None\<rparr>)))"

lemmas vos_lock_defs = vos_lock_init_def vos_lock_acquire_enter_def vos_lock_acquire_locked_def
  vos_lock_acquire_def vos_lock_release_def vos_lock_destroy_def

section \<open>Threads sharing one lock\<close>

text \<open>
  The lock, the threads that passed the checks of \<^verbatim>\<open>vos_lock_acquire\<close> and wait in \<^verbatim>\<open>mutex_lock\<close>, and
  for each thread how many of its successful acquisitions it has not released yet.
\<close>

record lock_sys =
  lk :: vos_lock
  waiting :: "int set"
  depth :: "int \<Rightarrow> nat"

definition lock_start :: "vos_lock \<Rightarrow> lock_sys" where
  "lock_start L = \<lparr>lk = L, waiting = {}, depth = (\<lambda>_. 0)\<rparr>"

definition count_acquire :: "VOS_STATUS \<Rightarrow> int \<Rightarrow> (int \<Rightarrow> nat) \<Rightarrow> int \<Rightarrow> nat" where
  "count_acquire st pid d = (if st = VOS_STATUS_SUCCESS then d(pid := Suc (d pid)) else d)"

definition count_release :: "VOS_STATUS \<Rightarrow> int \<Rightarrow> (int \<Rightarrow> nat) \<Rightarrow> int \<Rightarrow> nat" where
  "count_release st pid d = (if st = VOS_STATUS_SUCCESS then d(pid := d pid - 1) else d)"

text \<open>
  One step of one thread, in a system whose threads nest at most \<open>N\<close> deep. No thread has pid 0:
  that is the idle task, which never sleeps on a mutex.
\<close>

inductive lock_step :: "nat \<Rightarrow> lock_sys \<Rightarrow> lock_sys \<Rightarrow> bool" for N :: nat where
  enter: "pid \<noteq> 0 \<Longrightarrow> pid \<notin> waiting s \<Longrightarrow> depth s pid < N \<Longrightarrow>
     vos_lock_acquire_enter irq pid (Some (lk s)) = Returned st (Some L) \<Longrightarrow>
     lock_step N s (s\<lparr>lk := L, depth := count_acquire st pid (depth s)\<rparr>)"
| wait: "pid \<noteq> 0 \<Longrightarrow> pid \<notin> waiting s \<Longrightarrow> depth s pid < N \<Longrightarrow>
     vos_lock_acquire_enter irq pid (Some (lk s)) = To_mutex \<Longrightarrow>
     lock_step N s (s\<lparr>waiting := insert pid (waiting s)\<rparr>)"
| got: "pid \<in> waiting s \<Longrightarrow> m_lock (lk s) = None \<Longrightarrow>
     vos_lock_acquire_locked pid (lk s) = (st, L) \<Longrightarrow>
     lock_step N s (s\<lparr>lk := L, waiting := waiting s - {pid}, depth := count_acquire st pid (depth s)\<rparr>)"
| release: "pid \<noteq> 0 \<Longrightarrow> pid \<notin> waiting s \<Longrightarrow>
     vos_lock_release irq pid (Some (lk s)) = (st, Some L) \<Longrightarrow>
     lock_step N s (s\<lparr>lk := L, depth := count_release st pid (depth s)\<rparr>)"
| destroy: "vos_lock_destroy irq (Some (lk s)) = (st, Some L) \<Longrightarrow> lock_step N s (s\<lparr>lk := L\<rparr>)"
| reinit: "vos_lock_init irq (Some (lk s)) = (st, Some L) \<Longrightarrow> lock_step N s (s\<lparr>lk := L\<rparr>)"

inductive lock_reachable :: "nat \<Rightarrow> lock_sys \<Rightarrow> bool" for N :: nat where
  start: "vos_lock_init False (Some L0) = (VOS_STATUS_SUCCESS, Some L) \<Longrightarrow>
     lock_reachable N (lock_start L)"
| step: "lock_reachable N s \<Longrightarrow> lock_step N s t \<Longrightarrow> lock_reachable N t"

subsection \<open>The invariant\<close>

text \<open>
  The fields agree with each other and with the threads: an acquired lock names the thread that
  holds the mutex, its \<open>refcount\<close> is that thread's depth and no other thread has any; a lock that
  is not acquired is held by nobody.
\<close>

definition lock_inv :: "nat \<Rightarrow> lock_sys \<Rightarrow> bool" where
  "lock_inv N s \<longleftrightarrow>
     (if lock_state (lk s) = LOCK_ACQUIRED then
        lock_cookie (lk s) = LINUX_LOCK_COOKIE \<and> processID (lk s) \<noteq> 0 \<and>
        m_lock (lk s) = Some (processID (lk s)) \<and>
        depth s (processID (lk s)) = unat (refcount (lk s)) \<and> refcount (lk s) \<noteq> 0 \<and>
        (\<forall>p. p \<noteq> processID (lk s) \<longrightarrow> depth s p = 0)
      else m_lock (lk s) = None \<and> processID (lk s) = 0 \<and> refcount (lk s) = 0 \<and> (\<forall>p. depth s p = 0))
     \<and> (lock_state (lk s) = LOCK_DESTROYED \<or> lock_cookie (lk s) = LINUX_LOCK_COOKIE)
     \<and> (\<forall>p. depth s p \<le> N)
     \<and> (\<forall>p \<in> waiting s. p \<noteq> 0 \<and> depth s p = 0 \<and> 0 < N)"

lemma lock_inv_start:
  "vos_lock_init False (Some L0) = (VOS_STATUS_SUCCESS, Some L) \<Longrightarrow> lock_inv N (lock_start L)"
  by (auto simp: vos_lock_init_def lock_inv_def lock_start_def lock_consts split: if_splits)

lemma lock_states_differ [simp]:
  "LOCK_RELEASED \<noteq> LOCK_ACQUIRED" "LOCK_DESTROYED \<noteq> LOCK_ACQUIRED" "LOCK_ACQUIRED \<noteq> LOCK_DESTROYED"
  "LINUX_LOCK_COOKIE \<noteq> 0"
  by (simp_all add: lock_consts)

lemma lock_inv_enter:
  assumes "lock_inv N s" and "N \<le> 255" and "depth s pid < N" and "pid \<notin> waiting s"
    and "vos_lock_acquire_enter irq pid (Some (lk s)) = Returned st (Some L)"
  shows "lock_inv N (s\<lparr>lk := L, depth := count_acquire st pid (depth s)\<rparr>)"
proof (cases "st = VOS_STATUS_SUCCESS")
  case True
  then have pid: "processID (lk s) = pid" "lock_state (lk s) = LOCK_ACQUIRED"
    and L: "L = (lk s)\<lparr>refcount := refcount (lk s) + 1\<rparr>"
    using assms(5) by (auto simp: vos_lock_acquire_enter_def split: if_splits)
  have "depth s pid = unat (refcount (lk s))" using assms(1) pid by (auto simp: lock_inv_def)
  then have u: "unat (refcount (lk s) + 1) = Suc (depth s pid)"
    using assms(2,3) by (simp add: unat_inc)
  then have "refcount (lk s) + 1 \<noteq> 0" by (metis nat.distinct(1) unat_0)
  then show ?thesis
    using assms(1,3,4) pid u True unfolding L lock_inv_def count_acquire_def by auto
next
  case False
  then have "L = lk s"
    using assms(5) by (auto simp: vos_lock_acquire_enter_def split: if_splits)
  then show ?thesis using assms(1) False by (simp add: lock_inv_def count_acquire_def)
qed

lemma lock_inv_wait:
  assumes "lock_inv N s" and "pid \<noteq> 0" and "depth s pid < N"
    and "vos_lock_acquire_enter irq pid (Some (lk s)) = To_mutex"
  shows "lock_inv N (s\<lparr>waiting := insert pid (waiting s)\<rparr>)"
proof -
  have "processID (lk s) \<noteq> pid \<or> lock_state (lk s) \<noteq> LOCK_ACQUIRED"
    using assms(4) by (auto simp: vos_lock_acquire_enter_def split: if_splits)
  then have "depth s pid = 0" using assms(1) by (auto simp: lock_inv_def split: if_splits)
  then show ?thesis using assms(1-3) by (auto simp: lock_inv_def)
qed

lemma lock_inv_got:
  assumes "lock_inv N s" and "pid \<in> waiting s" and "m_lock (lk s) = None"
    and "vos_lock_acquire_locked pid (lk s) = (st, L)"
  shows "lock_inv N (s\<lparr>lk := L, waiting := waiting s - {pid},
                      depth := count_acquire st pid (depth s)\<rparr>)"
proof -
  have free: "lock_state (lk s) \<noteq> LOCK_ACQUIRED" "refcount (lk s) = 0" "processID (lk s) = 0"
      "\<forall>p. depth s p = 0"
    and w: "pid \<noteq> 0" "0 < N"
    using assms(1-3) by (auto simp: lock_inv_def split: if_splits)
  show ?thesis
  proof (cases "lock_state (lk s) = LOCK_DESTROYED")
    case True
    then have "st = VOS_STATUS_E_FAILURE" "L = (lk s)\<lparr>m_lock := None\<rparr>"
      using assms(4) by (auto simp: vos_lock_acquire_locked_def Let_def)
    then show ?thesis
      using assms(1) free unfolding lock_inv_def count_acquire_def by auto
  next
    case False
    then have "st = VOS_STATUS_SUCCESS" "L = (lk s)\<lparr>m_lock := Some pid, processID := pid,
        refcount := refcount (lk s) + 1, lock_state := LOCK_ACQUIRED\<rparr>"
      using assms(4) by (auto simp: vos_lock_acquire_locked_def Let_def)
    then show ?thesis
      using assms(1) False free w unfolding lock_inv_def count_acquire_def by auto
  qed
qed

lemma lock_inv_release:
  assumes "lock_inv N s" and "pid \<noteq> 0" and "vos_lock_release irq pid (Some (lk s)) = (st, Some L)"
  shows "lock_inv N (s\<lparr>lk := L, depth := count_release st pid (depth s)\<rparr>)"
proof (cases "st = VOS_STATUS_SUCCESS")
  case False
  then have "L = lk s"
    using assms(3) by (auto simp: vos_lock_release_def Let_def split: if_splits)
  then show ?thesis using assms(1) False by (simp add: lock_inv_def count_release_def)
next
  case True
  then have pid: "processID (lk s) = pid"
    using assms(3) by (auto simp: vos_lock_release_def split: if_splits)
  then have acq: "lock_state (lk s) = LOCK_ACQUIRED" "refcount (lk s) \<noteq> 0"
      "depth s pid = unat (refcount (lk s))" "\<forall>p. p \<noteq> pid \<longrightarrow> depth s p = 0"
    using assms(1,2) by (auto simp: lock_inv_def split: if_splits)
  have u: "unat (refcount (lk s) - 1) = depth s pid - 1"
    using acq(2,3) by (simp add: unat_dec)
  have L: "L = (if refcount (lk s) - 1 \<noteq> 0 then (lk s)\<lparr>refcount := refcount (lk s) - 1\<rparr>
                else (lk s)\<lparr>processID := 0, refcount := 0, lock_state := LOCK_RELEASED, m_lock := None\<rparr>)"
    using assms(3) True pid acq(1,2)
    by (auto simp: vos_lock_release_def Let_def word_gt_0 split: if_splits)
  show ?thesis
  proof (cases "refcount (lk s) - 1 = 0")
    case zero: True
    then have "depth s pid - 1 = 0" using u by simp
    then show ?thesis
      using assms(1) True acq zero pid L unfolding lock_inv_def count_release_def by auto
  next
    case more: False
    have "depth s pid \<le> N" using assms(1) by (auto simp: lock_inv_def)
    then show ?thesis
      using assms(1) True acq more pid L u unfolding lock_inv_def count_release_def by auto
  qed
qed

lemma lock_inv_destroy:
  assumes "lock_inv N s" and "vos_lock_destroy irq (Some (lk s)) = (st, Some L)"
  shows "lock_inv N (s\<lparr>lk := L\<rparr>)"
  using assms by (auto simp: vos_lock_destroy_def lock_inv_def split: if_splits)

lemma lock_inv_reinit:
  assumes "lock_inv N s" and "vos_lock_init irq (Some (lk s)) = (st, Some L)"
  shows "lock_inv N (s\<lparr>lk := L\<rparr>)"
  using assms by (auto simp: vos_lock_init_def lock_inv_def split: if_splits)

lemmas lock_inv_steps = lock_inv_enter lock_inv_wait lock_inv_got lock_inv_release
  lock_inv_destroy lock_inv_reinit

lemma lock_step_inv: "lock_step N s t \<Longrightarrow> N \<le> 255 \<Longrightarrow> lock_inv N s \<Longrightarrow> lock_inv N t"
  by (induction rule: lock_step.induct) (auto intro: lock_inv_steps)

lemma lock_reachable_inv: "lock_reachable N s \<Longrightarrow> N \<le> 255 \<Longrightarrow> lock_inv N s"
proof (induction rule: lock_reachable.induct)
  case (start L0 L)
  then show ?case by (blast intro: lock_inv_start)
next
  case (step s t)
  then show ?case by (blast intro: lock_step_inv)
qed

lemma lock_inv_owner:
  "lock_inv N s \<Longrightarrow> 0 < depth s q \<Longrightarrow> m_lock (lk s) = Some q \<and> processID (lk s) = q"
  by (cases "q = processID (lk s)") (auto simp: lock_inv_def split: if_splits)

section \<open>Properties\<close>

text \<open>
  C5: mutual exclusion. However the threads' calls interleave, two different threads never both
  have an acquisition they have not released, provided none nests more than 255 deep; and the one
  that has is the owner of the mutex.
\<close>

theorem vos_lock_mutual_exclusion:
  assumes "lock_reachable N s" and "N \<le> 255" and "0 < depth s p"
  shows "m_lock (lk s) = Some p \<and> (\<forall>q. 0 < depth s q \<longrightarrow> q = p)"
proof -
  have "lock_inv N s" using assms(1,2) by (rule lock_reachable_inv)
  then show ?thesis using assms(3) by (auto dest: lock_inv_owner)
qed

definition sample_lock :: vos_lock where
  "sample_lock = \<lparr>m_lock = None, lock_cookie = LINUX_LOCK_COOKIE, processID = 0,
     lock_state = LOCK_RELEASED, refcount = 0\<rparr>"

lemma sample_lock_reachable: "lock_reachable N (lock_start sample_lock)"
proof (rule lock_reachable.start)
  show "vos_lock_init False (Some (sample_lock\<lparr>lock_cookie := 0\<rparr>)) = (VOS_STATUS_SUCCESS, Some sample_lock)"
    by (simp add: vos_lock_init_def sample_lock_def)
qed

lemma sample_lock_wait: "lock_reachable 255 ((lock_start sample_lock)\<lparr>waiting := {7}\<rparr>)"
proof -
  have "lock_step 255 (lock_start sample_lock)
      ((lock_start sample_lock)\<lparr>waiting := insert 7 (waiting (lock_start sample_lock))\<rparr>)"
    by (rule lock_step.wait [where irq = False])
      (simp_all add: lock_start_def vos_lock_acquire_enter_def sample_lock_def)
  then show ?thesis
    using sample_lock_reachable lock_reachable.step by (simp add: lock_start_def) blast
qed

theorem vos_lock_mutual_exclusion_witness:
  "\<exists>s. lock_reachable 255 s \<and> depth s 7 = 1 \<and> m_lock (lk s) = Some 7 \<and> depth s 8 = 0"
proof -
  let ?s = "(lock_start sample_lock)\<lparr>waiting := {7}\<rparr>"
  let ?L = "sample_lock\<lparr>m_lock := Some 7, processID := 7, refcount := 1, lock_state := LOCK_ACQUIRED\<rparr>"
  let ?t = "?s\<lparr>lk := ?L, waiting := waiting ?s - {7},
              depth := count_acquire VOS_STATUS_SUCCESS 7 (depth ?s)\<rparr>"
  have "lock_step 255 ?s ?t"
    by (rule lock_step.got)
      (simp_all add: lock_start_def vos_lock_acquire_locked_def sample_lock_def lock_consts)
  with sample_lock_wait have r: "lock_reachable 255 ?t" by (rule lock_reachable.step)
  have d: "depth ?t 7 = 1" "0 < depth ?t 7" by (simp_all add: count_acquire_def lock_start_def)
  have "m_lock (lk ?t) = Some 7 \<and> (\<forall>q. 0 < depth ?t q \<longrightarrow> q = 7)"
    by (rule vos_lock_mutual_exclusion [OF r _ d(2)]) simp
  then have "m_lock (lk ?t) = Some 7 \<and> depth ?t 8 = 0" by fastforce
  then show ?thesis using r d by blast
qed

text \<open>
  The clients of the nesting theorems: \<open>n\<close> acquisitions by one thread, then \<open>k\<close> releases.
\<close>

primrec acquire_times :: "nat \<Rightarrow> int \<Rightarrow> vos_lock \<Rightarrow> vos_lock option" where
  "acquire_times 0 pid L = Some L"
| "acquire_times (Suc n) pid L = (case acquire_times n pid L of
     None \<Rightarrow> None
   | Some L' \<Rightarrow> (case vos_lock_acquire False pid (Some L') of
       Some (VOS_STATUS_SUCCESS, L'') \<Rightarrow> L'' | _ \<Rightarrow> None))"

primrec release_times :: "nat \<Rightarrow> int \<Rightarrow> vos_lock \<Rightarrow> vos_lock option" where
  "release_times 0 pid L = Some L"
| "release_times (Suc n) pid L = (case release_times n pid L of
     None \<Rightarrow> None
   | Some L' \<Rightarrow> (case vos_lock_release False pid (Some L') of
       (VOS_STATUS_SUCCESS, L'') \<Rightarrow> L'' | _ \<Rightarrow> None))"

definition fresh_lock :: "vos_lock \<Rightarrow> bool" where
  "fresh_lock L \<longleftrightarrow> m_lock L = None \<and> lock_cookie L = LINUX_LOCK_COOKIE \<and>
     lock_state L = LOCK_RELEASED \<and> processID L = 0 \<and> refcount L = 0"

definition held_lock :: "int \<Rightarrow> u8 \<Rightarrow> vos_lock \<Rightarrow> vos_lock" where
  "held_lock pid r L = L\<lparr>m_lock := Some pid, processID := pid, refcount := r, lock_state := LOCK_ACQUIRED\<rparr>"

lemma acquire_times_held:
  "fresh_lock L \<Longrightarrow> acquire_times (Suc n) pid L = Some (held_lock pid (of_nat (Suc n)) L)"
proof (induction n)
  case 0
  then show ?case
    by (auto simp: fresh_lock_def held_lock_def vos_lock_acquire_def vos_lock_acquire_enter_def
        vos_lock_acquire_locked_def lock_consts)
next
  case (Suc n)
  then have "acquire_times (Suc n) pid L = Some (held_lock pid (of_nat (Suc n)) L)"
    by simp
  then show ?case using Suc.prems
    by (subst acquire_times.simps(2))
      (simp add: fresh_lock_def held_lock_def vos_lock_acquire_def vos_lock_acquire_enter_def)
qed

lemma release_held:
  "fresh_lock L \<Longrightarrow> r \<noteq> 0 \<Longrightarrow> vos_lock_release False pid (Some (held_lock pid r L)) =
     (VOS_STATUS_SUCCESS, Some (if r = 1 then L else held_lock pid (r - 1) L))"
  by (auto simp: fresh_lock_def held_lock_def vos_lock_release_def word_gt_0)

lemma release_times_held:
  assumes "fresh_lock L" and "n \<le> 255" and "k < n"
  shows "release_times k pid (held_lock pid (of_nat n) L) = Some (held_lock pid (of_nat (n - k)) L)"
  using assms(3)
proof (induction k)
  case 0
  then show ?case by simp
next
  case (Suc k)
  have "unat (of_nat (n - k) :: u8) = n - k"
    using assms(2) by (intro unat_word_of_nat) simp
  then have nz: "(of_nat (n - k) :: u8) \<noteq> 0" "(of_nat (n - k) :: u8) \<noteq> 1"
    using Suc.prems by (auto simp del: of_nat_diff)
  have "(of_nat (n - k) :: u8) - 1 = of_nat (n - Suc k)"
    using Suc.prems by (simp add: of_nat_diff)
  then show ?case using Suc nz release_held [OF assms(1) nz(1), of pid]
    by (simp add: algebra_simps)
qed

text \<open>
  nesting. After \<open>n\<close> acquisitions by a thread (at most 255), fewer than \<open>n\<close> releases leave the
  mutex with the thread, and the \<open>n\<close>-th gives the lock back exactly as it was found.
\<close>

theorem vos_lock_nesting:
  assumes "fresh_lock L" and "0 < n" and "n \<le> 255" and "k < n"
  shows "\<exists>L1 L2. acquire_times n pid L = Some L1 \<and> release_times k pid L1 = Some L2 \<and>
    m_lock L2 = Some pid \<and> release_times n pid L1 = Some L"
proof -
  obtain m where n: "n = Suc m" using assms(2) by (cases n) auto
  let ?L1 = "held_lock pid (of_nat n) L"
  have a: "acquire_times n pid L = Some ?L1" using acquire_times_held [OF assms(1)] n by simp
  have "release_times m pid ?L1 = Some (held_lock pid (of_nat (n - m)) L)"
    using assms(1,3) n by (intro release_times_held) auto
  then have "release_times n pid ?L1 = Some L"
    using release_held [OF assms(1), of 1 pid] n by simp
  moreover have "release_times k pid ?L1 = Some (held_lock pid (of_nat (n - k)) L)"
    using assms by (intro release_times_held) auto
  ultimately show ?thesis using a by (auto simp: held_lock_def)
qed

theorem vos_lock_nesting_witness:
  "\<exists>L1 L2. acquire_times 3 7 sample_lock = Some L1 \<and> release_times 2 7 L1 = Some L2 \<and>
     m_lock L2 = Some 7 \<and> release_times 3 7 L1 = Some sample_lock"
  by (rule vos_lock_nesting) (simp_all add: fresh_lock_def sample_lock_def)

text \<open>
  The 8-bit counter bounds the nesting. After 256 nested acquisitions the counter is back at 0,
  and the first release frees the mutex while the thread still has 255 acquisitions to release.
\<close>

theorem vos_lock_wraps_at_256:
  assumes "fresh_lock L"
  shows "\<exists>L1. acquire_times 256 pid L = Some L1 \<and> refcount L1 = 0 \<and> m_lock L1 = Some pid \<and>
    vos_lock_release False pid (Some L1) = (VOS_STATUS_SUCCESS, Some L)"
proof -
  have "acquire_times 256 pid L = Some (held_lock pid (of_nat (Suc 255)) L)"
    using acquire_times_held [OF assms, of 255] by simp
  then show ?thesis
    using assms by (auto simp: fresh_lock_def held_lock_def vos_lock_release_def)
qed

theorem vos_lock_wraps_at_256_witness:
  "\<exists>L1. acquire_times 256 7 sample_lock = Some L1 \<and> refcount L1 = 0 \<and> m_lock L1 = Some 7 \<and>
    vos_lock_release False 7 (Some L1) = (VOS_STATUS_SUCCESS, Some sample_lock)"
  by (rule vos_lock_wraps_at_256) (simp add: fresh_lock_def sample_lock_def)

end
