(* ===== verification/Csr_LinkList.thy ===== *)
theory Csr_LinkList
  imports Link_Memory Vos_Lock
begin

text \<open>
  The link list of the station management entity (SME/src/csr/csrLinkList.c): the link primitives,
  which satisfy the contract of \<open>link_prims\<close>, and the interlocked operations on \<^verbatim>\<open>tDblLinkList\<close>,
  whose lock is a vOSS lock. An operation's result is \<open>None\<close> when the call does not return: it blocks
  on the lock for ever, or walks a corrupted list for ever.
\<close>

section \<open>Link primitives\<close>

definition csrListInit :: "addr \<Rightarrow> links \<Rightarrow> links" where
  "csrListInit pList l = set_prv pList pList (set_nxt pList pList l)"

definition csrListRemoveEntry :: "addr \<Rightarrow> links \<Rightarrow> links" where
  "csrListRemoveEntry pEntry l =
     (let pLast = prv l pEntry; pNext = nxt l pEntry
      in set_prv pNext pLast (set_nxt pLast pNext l))"

definition csrListRemoveHead :: "addr \<Rightarrow> links \<Rightarrow> addr \<times> links" where
  "csrListRemoveHead pHead l =
     (let pEntry = nxt l pHead; pNext = nxt l pEntry
      in (pEntry, set_prv pNext pHead (set_nxt pHead pNext l)))"

definition csrListRemoveTail :: "addr \<Rightarrow> links \<Rightarrow> addr \<times> links" where
  "csrListRemoveTail pHead l =
     (let pEntry = prv l pHead; pLast = prv l pEntry
      in (pEntry, set_nxt pLast pHead (set_prv pHead pLast l)))"

definition csrListInsertTail :: "addr \<Rightarrow> addr \<Rightarrow> links \<Rightarrow> links" where
  "csrListInsertTail pHead pEntry l =
     (let pLast = prv l pHead
      in set_prv pHead pEntry (set_nxt pLast pEntry (set_nxt pEntry pHead (set_prv pEntry pLast l))))"

definition csrListInsertHead :: "addr \<Rightarrow> addr \<Rightarrow> links \<Rightarrow> links" where
  "csrListInsertHead pHead pEntry l =
     (let pNext = nxt l pHead
      in set_nxt pHead pEntry (set_prv pNext pEntry (set_prv pEntry pHead (set_nxt pEntry pNext l))))"

definition csrListInsertEntry :: "addr \<Rightarrow> addr \<Rightarrow> links \<Rightarrow> links" where
  "csrListInsertEntry pEntry pNewEntry l =
     (if pEntry = NULL then l
      else let pLast = prv l pEntry
           in set_prv pNewEntry pLast (set_nxt pNewEntry pEntry
                (set_prv pEntry pNewEntry (set_nxt pLast pNewEntry l))))"

definition csrIsListEmpty :: "links \<Rightarrow> addr \<Rightarrow> bool" where
  "csrIsListEmpty l pHead \<longleftrightarrow> nxt l pHead = pHead"

lemmas csr_prim_defs = csrListInit_def csrListRemoveEntry_def csrListRemoveHead_def
  csrListRemoveTail_def csrListInsertTail_def csrListInsertHead_def csrListInsertEntry_def
  csrIsListEmpty_def Let_def

subsection \<open>The primitives keep the contract\<close>

lemma csrListInit_dll: "dll (csrListInit h l) h []"
  by (simp add: dll_def csrListInit_def heap_simps)

lemma csrListInsertHead_dll:
  assumes "dll l h (xs @ ys)" and "n \<notin> set (h # xs @ ys)" and "p = last (h # xs)"
  shows "dll (csrListInsertHead p n l) h (xs @ n # ys)"
proof -
  define q where "q = hd (ys @ [h])"
  note g = dll_gap [OF assms(1,3) q_def]
  have "p \<noteq> n" "q \<noteq> n" using g(3,4) assms(2) by metis+
  then show ?thesis
    by (intro dll_link [OF assms(1,2,3) q_def])
      (auto simp: csrListInsertHead_def Let_def heap_simps g(1,2))
qed

lemma csrListInsertTail_dll:
  assumes "dll l h (xs @ ys)" and "n \<notin> set (h # xs @ ys)" and "q = hd (ys @ [h])"
  shows "dll (csrListInsertTail q n l) h (xs @ n # ys)"
proof -
  define p where "p = last (h # xs)"
  note g = dll_gap [OF assms(1) p_def assms(3)]
  have "p \<noteq> n" "q \<noteq> n" using g(3,4) assms(2) by metis+
  then show ?thesis
    by (intro dll_link [OF assms(1,2) p_def assms(3)])
      (auto simp: csrListInsertTail_def Let_def heap_simps g(1,2))
qed

lemma csrListInsertEntry_eq:
  "pEntry \<noteq> NULL \<Longrightarrow> pEntry \<noteq> n \<Longrightarrow> prv l pEntry \<noteq> n \<Longrightarrow>
     csrListInsertEntry pEntry n l = csrListInsertTail pEntry n l"
  by (simp add: csrListInsertEntry_def csrListInsertTail_def Let_def set_nxt_def set_prv_def
      fun_upd_twist)

lemma csrListRemoveEntry_dll:
  assumes "dll l h (xs @ n # ys)"
  shows "dll (csrListRemoveEntry n l) h (xs @ ys)"
proof -
  define p q where "p = last (h # xs)" and "q = hd (ys @ [h])"
  note g = dll_node_gap [OF assms p_def q_def]
  show ?thesis
    by (intro dll_unlink [OF assms p_def q_def])
      (auto simp: csrListRemoveEntry_def Let_def heap_simps g(1,2))
qed

lemma csrListRemoveHead_eq:
  "dll l h (x # xs) \<Longrightarrow> csrListRemoveHead h l = (x, csrListRemoveEntry x l)"
  using dll_nxt_head [of l h "x # xs"] dll_prv_node [of l h "[]" x xs]
  by (simp add: csrListRemoveHead_def csrListRemoveEntry_def Let_def)

lemma csrListRemoveTail_eq:
  "dll l h (xs @ [x]) \<Longrightarrow> csrListRemoveTail h l = (x, csrListRemoveEntry x l)"
  using dll_prv_head [of l h "xs @ [x]"] dll_nxt_node [of l h xs x "[]"]
  by (simp add: csrListRemoveTail_def csrListRemoveEntry_def Let_def set_nxt_def set_prv_def)

interpretation csr: link_prims csrListInit "\<lambda>n p. csrListInsertHead p n"
  "\<lambda>n p. csrListInsertTail p n" csrListRemoveEntry csrIsListEmpty "\<lambda>l h P. list_search l h P (nxt l h)"
proof (unfold_locales, goal_cases)
  case (1 h l)
  then show ?case by (rule csrListInit_dll)
next
  case (2 l h xs ys n p)
  then show ?case by (rule csrListInsertHead_dll)
next
  case (3 l h xs ys n p)
  then show ?case by (rule csrListInsertTail_dll)
next
  case (4 l h xs n ys)
  then show ?case by (rule csrListRemoveEntry_dll)
next
  case (5 a h l)
  then show ?case by (simp add: csrListInit_def heap_simps)
next
  case (6 l h xs p a n)
  then have "nxt l p \<in> set (h # xs)" by (blast intro: dll_nxt_closed)
  with 6 show ?case by (auto simp: csrListInsertHead_def Let_def heap_simps)
next
  case (7 l h xs p a n)
  then have "prv l p \<in> set (h # xs)" by (blast intro: dll_prv_closed)
  with 7 show ?case by (auto simp: csrListInsertTail_def Let_def heap_simps)
next
  case (8 l h xs n a)
  have "nxt l n \<in> set (h # xs)" "prv l n \<in> set (h # xs)"
    using 8 dll_nxt_closed [of l h xs n] dll_prv_closed [of l h xs n] by auto
  with 8 show ?case by (auto simp: csrListRemoveEntry_def Let_def heap_simps)
next
  case (9 l h xs)
  then show ?case by (simp add: csrIsListEmpty_def dll_empty_iff)
next
  case (10 l h xs P)
  then show ?case by (rule list_search_dll)
qed

section \<open>The list object and its operations\<close>

text \<open>
  \<^verbatim>\<open>tDblLinkList\<close> of csrLinkList.h. The calls an operation makes to the timer service (vos_timer.c)
  are recorded in the order they are made, in \<open>timer_calls\<close> of the memory.
\<close>

record csr_list =
  ListHead :: addr
  Lock :: vos_lock
  Count :: u32
  hHdd :: addr
  Flag :: u32
  cmdTimeoutDuration :: u32
  cmdTimeoutTimer :: addr

datatype timer_call = Timer_start addr u32 | Timer_stop addr

record csr_mem =
  mlinks :: links
  timer_calls :: "timer_call list"

datatype eHalStatus = eHAL_STATUS_SUCCESS | eHAL_STATUS_FAILURE

definition LIST_FLAG_CLOSE :: u32 where "LIST_FLAG_CLOSE = 0"
definition LIST_FLAG_OPEN :: u32 where "LIST_FLAG_OPEN = 0xa1b2c4d7"

text \<open>The calling context: \<^verbatim>\<open>in_interrupt()\<close> and \<^verbatim>\<open>current->pid\<close>.\<close>

type_synonym ctx = "bool \<times> int"

type_synonym 'r csr_res = "('r \<times> csr_list option \<times> csr_mem) option"

definition csrLLCount :: "csr_list option \<Rightarrow> u32" where
  "csrLLCount pList = (case pList of
     None \<Rightarrow> 0
   | Some L \<Rightarrow> if LIST_FLAG_OPEN = Flag L then Count L else 0)"

text \<open>The status of \<^verbatim>\<open>vos_lock_acquire\<close> is ignored by the code.\<close>

definition csrLLLock :: "ctx \<Rightarrow> csr_list \<Rightarrow> csr_list option" where
  "csrLLLock c L =
     (if LIST_FLAG_OPEN = Flag L then
        (case vos_lock_acquire (fst c) (snd c) (Some (Lock L)) of
           Some (_, Some L') \<Rightarrow> Some (L\<lparr>Lock := L'\<rparr>)
         | _ \<Rightarrow> None)
      else Some L)"

definition csrLLUnlock :: "ctx \<Rightarrow> csr_list \<Rightarrow> csr_list" where
  "csrLLUnlock c L =
     (if LIST_FLAG_OPEN = Flag L then
        (case vos_lock_release (fst c) (snd c) (Some (Lock L)) of
           (_, Some L') \<Rightarrow> L\<lparr>Lock := L'\<rparr>
         | (_, None) \<Rightarrow> L)
      else L)"

text \<open>
  The two frames every operation shares. \<open>csr_open\<close>: a \<^verbatim>\<open>NULL\<close> list or one whose flag is not
  \<^verbatim>\<open>LIST_FLAG_OPEN\<close> gives the default result and changes nothing. \<open>csr_interlocked\<close>: the body runs
  between \<^verbatim>\<open>csrLLLock\<close> and \<^verbatim>\<open>csrLLUnlock\<close> when \<^verbatim>\<open>fInterlocked\<close> is set.
\<close>

definition csr_open :: "csr_list option \<Rightarrow> csr_mem \<Rightarrow> 'r \<Rightarrow> (csr_list \<Rightarrow> ('r \<times> csr_list \<times> csr_mem) option)
    \<Rightarrow> 'r csr_res" where
  "csr_open pList m dflt body = (case pList of
     None \<Rightarrow> Some (dflt, None, m)
   | Some L \<Rightarrow>
       if LIST_FLAG_OPEN = Flag L
       then map_option (\<lambda>(r, L', m'). (r, Some L', m')) (body L)
       else Some (dflt, Some L, m))"

definition csr_interlocked :: "ctx \<Rightarrow> bool \<Rightarrow> (csr_list \<Rightarrow> ('r \<times> csr_list \<times> csr_mem) option) \<Rightarrow> csr_list
    \<Rightarrow> ('r \<times> csr_list \<times> csr_mem) option" where
  "csr_interlocked c fInterlocked body L =
     (case (if fInterlocked then csrLLLock c L else Some L) of
        None \<Rightarrow> None
      | Some L1 \<Rightarrow> map_option (\<lambda>(r, L2, m). (r, if fInterlocked then csrLLUnlock c L2 else L2, m)) (body L1))"

definition csrLLIsListEmpty :: "ctx \<Rightarrow> csr_list option \<Rightarrow> bool \<Rightarrow> csr_mem \<Rightarrow> bool csr_res" where
  "csrLLIsListEmpty c pList fInterlocked m =
     csr_open pList m True (csr_interlocked c fInterlocked
       (\<lambda>L. Some (csrIsListEmpty (mlinks m) (ListHead L), L, m)))"

definition csrLLPeekHead :: "ctx \<Rightarrow> csr_list option \<Rightarrow> bool \<Rightarrow> csr_mem \<Rightarrow> addr csr_res" where
  "csrLLPeekHead c pList fInterlocked m =
     csr_open pList m NULL (csr_interlocked c fInterlocked
       (\<lambda>L. Some (if \<not> csrIsListEmpty (mlinks m) (ListHead L) then nxt (mlinks m) (ListHead L) else NULL,
                  L, m)))"

definition csrLLPeekTail :: "ctx \<Rightarrow> csr_list option \<Rightarrow> bool \<Rightarrow> csr_mem \<Rightarrow> addr csr_res" where
  "csrLLPeekTail c pList fInterlocked m =
     csr_open pList m NULL (csr_interlocked c fInterlocked
       (\<lambda>L. Some (if \<not> csrIsListEmpty (mlinks m) (ListHead L) then prv (mlinks m) (ListHead L) else NULL,
                  L, m)))"

text \<open>The search loop of \<^verbatim>\<open>csrLLFindEntry\<close>: \<open>None\<close> when the walk never comes back to the head.\<close>

partial_function (option) csrLLFindEntry_loop :: "links \<Rightarrow> addr \<Rightarrow> addr \<Rightarrow> addr \<Rightarrow> bool option" where
  "csrLLFindEntry_loop l pHead pEntryToFind pEntry =
     (if pEntry \<noteq> NULL \<and> pEntry \<noteq> pHead
      then if pEntry = pEntryToFind then Some True
           else csrLLFindEntry_loop l pHead pEntryToFind (nxt l pEntry)
      else Some False)"

definition csrLLFindEntry :: "ctx \<Rightarrow> csr_list option \<Rightarrow> addr \<Rightarrow> csr_mem \<Rightarrow> bool csr_res" where
  "csrLLFindEntry c pList pEntryToFind m =
     csr_open pList m False (\<lambda>L.
       case csrLLPeekHead c (Some L) False m of
         Some (pEntry, Some L1, m1) \<Rightarrow>
           map_option (\<lambda>fFound. (fFound, L1, m1))
             (csrLLFindEntry_loop (mlinks m1) (ListHead L1) pEntryToFind pEntry)
       | _ \<Rightarrow> None)"

definition csrLLOpen :: "bool \<Rightarrow> addr \<Rightarrow> csr_list option \<Rightarrow> csr_mem \<Rightarrow> eHalStatus \<times> csr_list option \<times> csr_mem" where
  "csrLLOpen irq hdd pList m = (case pList of
     None \<Rightarrow> (eHAL_STATUS_FAILURE, None, m)
   | Some L \<Rightarrow>
       if LIST_FLAG_OPEN \<noteq> Flag L then
         let L1 = L\<lparr>Count := 0, cmdTimeoutTimer := NULL\<rparr> in
         (case vos_lock_init irq (Some (Lock L1)) of
            (vosStatus, lock') \<Rightarrow>
              let L2 = (case lock' of Some K \<Rightarrow> L1\<lparr>Lock := K\<rparr> | None \<Rightarrow> L1) in
              if vosStatus = VOS_STATUS_SUCCESS then
                (eHAL_STATUS_SUCCESS, Some (L2\<lparr>Flag := LIST_FLAG_OPEN, hHdd := hdd\<rparr>),
                 m\<lparr>mlinks := csrListInit (ListHead L2) (mlinks m)\<rparr>)
              else (eHAL_STATUS_FAILURE, Some L2, m))
       else (eHAL_STATUS_SUCCESS, Some L, m))"

definition csrLLInsertTail :: "ctx \<Rightarrow> csr_list option \<Rightarrow> addr \<Rightarrow> bool \<Rightarrow> csr_mem \<Rightarrow> unit csr_res" where
  "csrLLInsertTail c pList pEntry fInterlocked m =
     csr_open pList m () (csr_interlocked c fInterlocked
       (\<lambda>L. Some ((), L\<lparr>Count := Count L + 1\<rparr>,
                  m\<lparr>mlinks := csrListInsertTail (ListHead L) pEntry (mlinks m)\<rparr>)))"

text \<open>The timer is started after the lock is released, so outside the interlocked part.\<close>

definition csrLLInsertHead :: "ctx \<Rightarrow> csr_list option \<Rightarrow> addr \<Rightarrow> bool \<Rightarrow> csr_mem \<Rightarrow> unit csr_res" where
  "csrLLInsertHead c pList pEntry fInterlocked m =
     csr_open pList m () (\<lambda>L0.
       map_option (\<lambda>(r, L, m1).
           (r, L, if cmdTimeoutTimer L \<noteq> NULL \<and> cmdTimeoutDuration L \<noteq> 0
                  then m1\<lparr>timer_calls := timer_calls m1 @ [Timer_start (cmdTimeoutTimer L) (cmdTimeoutDuration L)]\<rparr>
                  else m1))
         (csr_interlocked c fInterlocked
           (\<lambda>L. Some ((), L\<lparr>Count := Count L + 1\<rparr>,
                      m\<lparr>mlinks := csrListInsertHead (ListHead L) pEntry (mlinks m)\<rparr>)) L0))"

definition csrLLInsertEntry :: "ctx \<Rightarrow> csr_list option \<Rightarrow> addr \<Rightarrow> addr \<Rightarrow> bool \<Rightarrow> csr_mem \<Rightarrow> unit csr_res" where
  "csrLLInsertEntry c pList pEntry pNewEntry fInterlocked m =
     csr_open pList m () (csr_interlocked c fInterlocked
       (\<lambda>L. Some ((), L\<lparr>Count := Count L + 1\<rparr>,
                  m\<lparr>mlinks := csrListInsertEntry pEntry pNewEntry (mlinks m)\<rparr>)))"

definition csrLLRemoveTail :: "ctx \<Rightarrow> csr_list option \<Rightarrow> bool \<Rightarrow> csr_mem \<Rightarrow> addr csr_res" where
  "csrLLRemoveTail c pList fInterlocked m =
     csr_open pList m NULL (csr_interlocked c fInterlocked
       (\<lambda>L. if \<not> csrIsListEmpty (mlinks m) (ListHead L)
            then (case csrListRemoveTail (ListHead L) (mlinks m) of
                    (pEntry, l) \<Rightarrow> Some (pEntry, L\<lparr>Count := Count L - 1\<rparr>, m\<lparr>mlinks := l\<rparr>))
            else Some (NULL, L, m)))"

definition csrLLRemoveHead :: "ctx \<Rightarrow> csr_list option \<Rightarrow> bool \<Rightarrow> csr_mem \<Rightarrow> addr csr_res" where
  "csrLLRemoveHead c pList fInterlocked m =
     csr_open pList m NULL (csr_interlocked c fInterlocked
       (\<lambda>L. if \<not> csrIsListEmpty (mlinks m) (ListHead L)
            then (case csrListRemoveHead (ListHead L) (mlinks m) of
                    (pEntry, l) \<Rightarrow> Some (pEntry, L\<lparr>Count := Count L - 1\<rparr>, m\<lparr>mlinks := l\<rparr>))
            else Some (NULL, L, m)))"

text \<open>The loop of \<^verbatim>\<open>csrLLPurge\<close>: \<open>None\<close> when it never finds the list empty.\<close>

partial_function (option) csrLLPurge_loop :: "ctx \<Rightarrow> csr_list \<Rightarrow> csr_mem \<Rightarrow> (csr_list \<times> csr_mem) option" where
  "csrLLPurge_loop c L m = (case csrLLRemoveHead c (Some L) False m of
     Some (pEntry, Some L1, m1) \<Rightarrow> if pEntry \<noteq> NULL then csrLLPurge_loop c L1 m1 else Some (L1, m1)
   | _ \<Rightarrow> None)"

definition csrLLPurge :: "ctx \<Rightarrow> csr_list option \<Rightarrow> bool \<Rightarrow> csr_mem \<Rightarrow> unit csr_res" where
  "csrLLPurge c pList fInterlocked m =
     csr_open pList m () (csr_interlocked c fInterlocked
       (\<lambda>L. map_option (\<lambda>(L1, m1). ((), L1, m1)) (csrLLPurge_loop c L m)))"

definition csrLLClose :: "ctx \<Rightarrow> csr_list option \<Rightarrow> csr_mem \<Rightarrow> unit csr_res" where
  "csrLLClose c pList m =
     csr_open pList m () (\<lambda>L.
       case csrLLPurge c (Some L) True m of
         Some (_, Some L1, m1) \<Rightarrow>
           (case vos_lock_destroy (fst c) (Some (Lock L1)) of
              (_, Some K) \<Rightarrow> Some ((), L1\<lparr>Lock := K, Flag := LIST_FLAG_CLOSE\<rparr>, m1)
            | (_, None) \<Rightarrow> None)
       | _ \<Rightarrow> None)"

text \<open>The search and removal loop of \<^verbatim>\<open>csrLLRemoveEntry\<close>.\<close>

partial_function (option) csrLLRemoveEntry_loop ::
  "addr \<Rightarrow> addr \<Rightarrow> csr_list \<Rightarrow> csr_mem \<Rightarrow> (bool \<times> csr_list \<times> csr_mem) option" where
  "csrLLRemoveEntry_loop pEntryToRemove pEntry L m =
     (if pEntry \<noteq> NULL \<and> pEntry \<noteq> ListHead L
      then if pEntry = pEntryToRemove
           then Some (True, L\<lparr>Count := Count L - 1\<rparr>, m\<lparr>mlinks := csrListRemoveEntry pEntry (mlinks m)\<rparr>)
           else csrLLRemoveEntry_loop pEntryToRemove (nxt (mlinks m) pEntry) L m
      else Some (False, L, m))"

definition csrLLRemoveEntry :: "ctx \<Rightarrow> csr_list option \<Rightarrow> addr \<Rightarrow> bool \<Rightarrow> csr_mem \<Rightarrow> bool csr_res" where
  "csrLLRemoveEntry c pList pEntryToRemove fInterlocked m =
     csr_open pList m False (\<lambda>L0.
       map_option (\<lambda>(fFound, L, m1).
           (fFound, L, if cmdTimeoutTimer L \<noteq> NULL
                       then m1\<lparr>timer_calls := timer_calls m1 @ [Timer_stop (cmdTimeoutTimer L)]\<rparr> else m1))
         (csr_interlocked c fInterlocked
           (\<lambda>L. case csrLLPeekHead c (Some L) False m of
                  Some (pEntry, Some L1, m1) \<Rightarrow> csrLLRemoveEntry_loop pEntryToRemove pEntry L1 m1
                | _ \<Rightarrow> None) L0))"

text \<open>
  \<^verbatim>\<open>csrLLNext\<close> and \<^verbatim>\<open>csrLLPrevious\<close> differ in the link they follow. \<^verbatim>\<open>csrLLFindEntry\<close> is evaluated only
  on a list that is not empty.
\<close>

definition csrLLNext :: "ctx \<Rightarrow> csr_list option \<Rightarrow> addr \<Rightarrow> bool \<Rightarrow> csr_mem \<Rightarrow> addr csr_res" where
  "csrLLNext c pList pEntry fInterlocked m =
     csr_open pList m NULL (csr_interlocked c fInterlocked
       (\<lambda>L. if csrIsListEmpty (mlinks m) (ListHead L) then Some (NULL, L, m)
            else case csrLLFindEntry c (Some L) pEntry m of
                   Some (fFound, Some L1, m1) \<Rightarrow>
                     Some (if fFound \<and> nxt (mlinks m1) pEntry \<noteq> ListHead L1
                           then nxt (mlinks m1) pEntry else NULL, L1, m1)
                 | _ \<Rightarrow> None))"

definition csrLLPrevious :: "ctx \<Rightarrow> csr_list option \<Rightarrow> addr \<Rightarrow> bool \<Rightarrow> csr_mem \<Rightarrow> addr csr_res" where
  "csrLLPrevious c pList pEntry fInterlocked m =
     csr_open pList m NULL (csr_interlocked c fInterlocked
       (\<lambda>L. if csrIsListEmpty (mlinks m) (ListHead L) then Some (NULL, L, m)
            else case csrLLFindEntry c (Some L) pEntry m of
                   Some (fFound, Some L1, m1) \<Rightarrow>
                     Some (if fFound \<and> prv (mlinks m1) pEntry \<noteq> ListHead L1
                           then prv (mlinks m1) pEntry else NULL, L1, m1)
                 | _ \<Rightarrow> None))"

section \<open>What the list represents\<close>

text \<open>
  An open list holds the nodes \<open>xs\<close>: the links form the circular list, the counter is its length
  modulo \<open>2 ^ 32\<close>, and no node is the null pointer.
\<close>

definition csr_rep :: "csr_list \<Rightarrow> csr_mem \<Rightarrow> addr list \<Rightarrow> bool" where
  "csr_rep L m xs \<longleftrightarrow> Flag L = LIST_FLAG_OPEN \<and> dll (mlinks m) (ListHead L) xs \<and>
     NULL \<notin> set (ListHead L # xs) \<and> Count L = of_nat (length xs)"

text \<open>The lock can be taken: the caller is not in interrupt context and nobody holds it.\<close>

definition csr_free :: "ctx \<Rightarrow> csr_list \<Rightarrow> bool" where
  "csr_free c L \<longleftrightarrow> \<not> fst c \<and> fresh_lock (Lock L)"

lemma csrLLLock_free:
  assumes "csr_free c L" and "Flag L = LIST_FLAG_OPEN"
  shows "csrLLLock c L = Some (L\<lparr>Lock := held_lock (snd c) 1 (Lock L)\<rparr>)"
  using acquire_times_held [of "Lock L" 0 "snd c"] assms
  by (auto simp: csrLLLock_def csr_free_def split: option.splits prod.splits VOS_STATUS.splits)

lemma csrLLUnlock_held:
  assumes "csr_free c L" and "Flag L' = LIST_FLAG_OPEN" and "Lock L' = held_lock (snd c) 1 (Lock L)"
  shows "csrLLUnlock c L' = L'\<lparr>Lock := Lock L\<rparr>"
  using release_held [of "Lock L" 1 "snd c"] assms
  by (simp add: csrLLUnlock_def csr_free_def)

text \<open>
  An interlocked body that leaves lock and flag alone acts on the list as if there were no lock.
\<close>

lemma csr_interlocked_free:
  assumes "f \<Longrightarrow> csr_free c L" and "Flag L = LIST_FLAG_OPEN"
    and "\<And>K. body (L\<lparr>Lock := K\<rparr>) = Some (r, L2\<lparr>Lock := K\<rparr>, m)"
    and "Lock L2 = Lock L" and "Flag L2 = LIST_FLAG_OPEN"
  shows "csr_interlocked c f body L = Some (r, L2, m)"
proof (cases f)
  case True
  have "csrLLUnlock c (L2\<lparr>Lock := held_lock (snd c) 1 (Lock L)\<rparr>) = L2"
    using csrLLUnlock_held [of c L "L2\<lparr>Lock := held_lock (snd c) 1 (Lock L)\<rparr>"] assms True
    by simp
  then show ?thesis
    using assms True csrLLLock_free [of c L] by (simp add: csr_interlocked_def)
next
  case False
  have "body L = Some (r, L2, m)" using assms(3) [of "Lock L"] assms(4) by simp
  then show ?thesis using False by (simp add: csr_interlocked_def)
qed

section \<open>The operations on a represented list\<close>

text \<open>\<open>csr_may c f L\<close>: a call with \<^verbatim>\<open>fInterlocked = f\<close> does not block.\<close>

definition csr_may :: "ctx \<Rightarrow> bool \<Rightarrow> csr_list \<Rightarrow> bool" where
  "csr_may c f L \<longleftrightarrow> (f \<longrightarrow> csr_free c L)"

lemma csr_open_interlocked:
  assumes "csr_rep L m xs" and "csr_may c f L"
    and "\<And>K. body (L\<lparr>Lock := K\<rparr>) = Some (r, L2\<lparr>Lock := K\<rparr>, m2)"
    and "Lock L2 = Lock L" and "Flag L2 = Flag L"
  shows "csr_open (Some L) m d (csr_interlocked c f body) = Some (r, Some L2, m2)"
proof -
  have "Flag L = LIST_FLAG_OPEN" using assms(1) by (simp add: csr_rep_def)
  moreover from this have "csr_interlocked c f body L = Some (r, L2, m2)"
    using assms by (intro csr_interlocked_free) (auto simp: csr_may_def)
  ultimately show ?thesis by (simp add: csr_open_def)
qed

lemma csrLLInsertTail_eq:
  assumes "csr_rep L m xs" and "csr_may c f L"
  shows "csrLLInsertTail c (Some L) e f m =
     Some ((), Some (L\<lparr>Count := Count L + 1\<rparr>), m\<lparr>mlinks := csrListInsertTail (ListHead L) e (mlinks m)\<rparr>)"
  unfolding csrLLInsertTail_def by (rule csr_open_interlocked [OF assms]) simp_all

lemma csrLLRemoveHead_eq:
  assumes "csr_rep L m xs" and "csr_may c f L"
  shows "csrLLRemoveHead c (Some L) f m = (case xs of
     [] \<Rightarrow> Some (NULL, Some L, m)
   | x # _ \<Rightarrow> Some (x, Some (L\<lparr>Count := Count L - 1\<rparr>), m\<lparr>mlinks := csrListRemoveEntry x (mlinks m)\<rparr>))"
proof -
  have d: "dll (mlinks m) (ListHead L) xs" using assms(1) by (simp add: csr_rep_def)
  show ?thesis
  proof (cases xs)
    case Nil
    then show ?thesis unfolding csrLLRemoveHead_def using csr.is_empty [OF d]
      by (simp, intro csr_open_interlocked [OF assms]) simp_all
  next
    case (Cons x ys)
    then show ?thesis unfolding csrLLRemoveHead_def
      using csr.is_empty [OF d] csrListRemoveHead_eq [of "mlinks m" "ListHead L" x ys] d
      by (simp, intro csr_open_interlocked [OF assms]) simp_all
  qed
qed

lemma csr_rep_dll: "csr_rep L m xs \<Longrightarrow> dll (mlinks m) (ListHead L) xs"
  by (simp add: csr_rep_def)

lemma csr_rep_lock: "csr_rep (L\<lparr>Lock := K\<rparr>) m xs = csr_rep L m xs"
  by (simp add: csr_rep_def)

lemma csrLLRemoveTail_eq:
  assumes "csr_rep L m xs" and "csr_may c f L"
  shows "csrLLRemoveTail c (Some L) f m =
     (if xs = [] then Some (NULL, Some L, m)
      else Some (last xs, Some (L\<lparr>Count := Count L - 1\<rparr>),
                 m\<lparr>mlinks := csrListRemoveEntry (last xs) (mlinks m)\<rparr>))"
proof (cases xs rule: rev_cases)
  case Nil
  then show ?thesis unfolding csrLLRemoveTail_def using csr.is_empty [OF csr_rep_dll [OF assms(1)]]
    by (simp, intro csr_open_interlocked [OF assms]) simp_all
next
  case (snoc ys x)
  then show ?thesis unfolding csrLLRemoveTail_def
    using csr.is_empty [OF csr_rep_dll [OF assms(1)]]
      csrListRemoveTail_eq [of "mlinks m" "ListHead L" ys x] csr_rep_dll [OF assms(1)]
    by (simp, intro csr_open_interlocked [OF assms]) simp_all
qed

lemma csrLLInsertEntry_eq:
  assumes "csr_rep L m xs" and "csr_may c f L"
  shows "csrLLInsertEntry c (Some L) e n f m =
     Some ((), Some (L\<lparr>Count := Count L + 1\<rparr>), m\<lparr>mlinks := csrListInsertEntry e n (mlinks m)\<rparr>)"
  unfolding csrLLInsertEntry_def by (rule csr_open_interlocked [OF assms]) simp_all

lemma csr_interlocked_rep:
  assumes "csr_rep L m xs" and "csr_may c f L"
    and "\<And>K. body (L\<lparr>Lock := K\<rparr>) = Some (r, L2\<lparr>Lock := K\<rparr>, m2)"
    and "Lock L2 = Lock L" and "Flag L2 = Flag L"
  shows "csr_interlocked c f body L = Some (r, L2, m2)"
  using assms by (intro csr_interlocked_free) (auto simp: csr_may_def csr_rep_def)

text \<open>The timer a list head insertion starts, the one a removal stops.\<close>

definition csr_started :: "csr_list \<Rightarrow> timer_call list" where
  "csr_started L = (if cmdTimeoutTimer L \<noteq> NULL \<and> cmdTimeoutDuration L \<noteq> 0
     then [Timer_start (cmdTimeoutTimer L) (cmdTimeoutDuration L)] else [])"

definition csr_stopped :: "csr_list \<Rightarrow> timer_call list" where
  "csr_stopped L = (if cmdTimeoutTimer L \<noteq> NULL then [Timer_stop (cmdTimeoutTimer L)] else [])"

lemma csrLLInsertHead_eq:
  assumes "csr_rep L m xs" and "csr_may c f L"
  shows "csrLLInsertHead c (Some L) e f m = Some ((), Some (L\<lparr>Count := Count L + 1\<rparr>),
     m\<lparr>mlinks := csrListInsertHead (ListHead L) e (mlinks m), timer_calls := timer_calls m @ csr_started L\<rparr>)"
proof -
  have "csr_interlocked c f (\<lambda>L. Some ((), L\<lparr>Count := Count L + 1\<rparr>,
      m\<lparr>mlinks := csrListInsertHead (ListHead L) e (mlinks m)\<rparr>)) L =
    Some ((), L\<lparr>Count := Count L + 1\<rparr>, m\<lparr>mlinks := csrListInsertHead (ListHead L) e (mlinks m)\<rparr>)"
    by (rule csr_interlocked_rep [OF assms]) simp_all
  then show ?thesis using assms(1)
    by (simp add: csrLLInsertHead_def csr_open_def csr_rep_def csr_started_def)
qed

lemma csrLLPeekHead_eq:
  assumes "csr_rep L m xs" and "csr_may c f L"
  shows "csrLLPeekHead c (Some L) f m = Some (if xs = [] then NULL else hd xs, Some L, m)"
  unfolding csrLLPeekHead_def
  by (rule csr_open_interlocked [OF assms])
    (use csr.is_empty [OF csr_rep_dll [OF assms(1)]] dll_nxt_head [OF csr_rep_dll [OF assms(1)]] in auto)

lemma csrLLPeekTail_eq:
  assumes "csr_rep L m xs" and "csr_may c f L"
  shows "csrLLPeekTail c (Some L) f m = Some (if xs = [] then NULL else last xs, Some L, m)"
  unfolding csrLLPeekTail_def
  by (rule csr_open_interlocked [OF assms])
    (use csr.is_empty [OF csr_rep_dll [OF assms(1)]] dll_prv_head [OF csr_rep_dll [OF assms(1)]] in auto)

lemma csrLLIsListEmpty_eq:
  assumes "csr_rep L m xs" and "csr_may c f L"
  shows "csrLLIsListEmpty c (Some L) f m = Some (xs = [], Some L, m)"
  unfolding csrLLIsListEmpty_def
  by (rule csr_open_interlocked [OF assms]) (use csr.is_empty [OF csr_rep_dll [OF assms(1)]] in auto)

lemma csr_may_nolock [simp]: "csr_may c False L"
  by (simp add: csr_may_def)

lemma csrLLFindEntry_loop_eq:
  "seg l a xs h \<Longrightarrow> h \<notin> set xs \<Longrightarrow> NULL \<notin> set xs \<Longrightarrow>
     csrLLFindEntry_loop l h e (nxt l a) = Some (e \<in> set xs)"
proof (induction xs arbitrary: a)
  case Nil
  then show ?case by (simp add: csrLLFindEntry_loop.simps)
next
  case (Cons x xs)
  then show ?case by (auto simp: csrLLFindEntry_loop.simps [of l h e x])
qed

lemma csrLLFindEntry_loop_NULL: "csrLLFindEntry_loop l h e NULL = Some False"
  by (simp add: csrLLFindEntry_loop.simps)

lemma csrLLFindEntry_eq:
  assumes "csr_rep L m xs"
  shows "csrLLFindEntry c (Some L) e m = Some (e \<in> set xs, Some L, m)"
proof -
  have d: "dll (mlinks m) (ListHead L) xs" "NULL \<notin> set xs" "Flag L = LIST_FLAG_OPEN"
    using assms by (auto simp: csr_rep_def)
  have "csrLLFindEntry_loop (mlinks m) (ListHead L) e (if xs = [] then NULL else hd xs) = Some (e \<in> set xs)"
    using csrLLFindEntry_loop_eq [of "mlinks m" "ListHead L" xs "ListHead L" e] d
      dll_nxt_head [OF d(1)] by (auto simp: dll_def csrLLFindEntry_loop_NULL)
  then show ?thesis
    using csrLLPeekHead_eq [OF assms csr_may_nolock] d(3) by (simp add: csrLLFindEntry_def csr_open_def)
qed

lemma csrLLNext_eq:
  assumes "csr_rep L m (us @ e # vs)" and "csr_may c f L"
  shows "csrLLNext c (Some L) e f m = Some (if vs = [] then NULL else hd vs, Some L, m)"
proof -
  have d: "dll (mlinks m) (ListHead L) (us @ e # vs)" using assms(1) by (simp add: csr_rep_def)
  have n: "nxt (mlinks m) e = hd (vs @ [ListHead L])" by (rule dll_nxt_node [OF d])
  have v: "vs \<noteq> [] \<Longrightarrow> hd vs \<noteq> ListHead L" using dll_distinct [OF d] by (cases vs) auto
  show ?thesis unfolding csrLLNext_def
    by (rule csr_open_interlocked [OF assms])
      (use csr.is_empty [OF d] csrLLFindEntry_eq [of "L\<lparr>Lock := _\<rparr>" m "us @ e # vs" c e] assms(1) n v
        in \<open>auto simp: csr_rep_lock\<close>)
qed

lemma csrLLPrevious_eq:
  assumes "csr_rep L m (us @ e # vs)" and "csr_may c f L"
  shows "csrLLPrevious c (Some L) e f m = Some (if us = [] then NULL else last us, Some L, m)"
proof -
  have d: "dll (mlinks m) (ListHead L) (us @ e # vs)" using assms(1) by (simp add: csr_rep_def)
  have n: "prv (mlinks m) e = last (ListHead L # us)" by (rule dll_prv_node [OF d])
  have "ListHead L \<notin> set us" using dll_distinct [OF d] by simp
  then have v: "us \<noteq> [] \<Longrightarrow> last us \<noteq> ListHead L" by (metis last_in_set)
  show ?thesis unfolding csrLLPrevious_def
    by (rule csr_open_interlocked [OF assms])
      (use csr.is_empty [OF d] csrLLFindEntry_eq [of "L\<lparr>Lock := _\<rparr>" m "us @ e # vs" c e] assms(1) n v
        in \<open>auto simp: csr_rep_lock\<close>)
qed

lemma csrLLNext_missing:
  assumes "csr_rep L m xs" and "csr_may c f L" and "e \<notin> set xs"
  shows "csrLLNext c (Some L) e f m = Some (NULL, Some L, m)"
    and "csrLLPrevious c (Some L) e f m = Some (NULL, Some L, m)"
  unfolding csrLLNext_def csrLLPrevious_def
  by (rule csr_open_interlocked [OF assms(1,2)],
      use csrLLFindEntry_eq [of "L\<lparr>Lock := _\<rparr>" m xs c e] assms(1,3) in \<open>auto simp: csr_rep_lock\<close>)+


section \<open>The represented sequence after each operation\<close>

lemma csr_rep_insert_tail:
  assumes "csr_rep L m xs" and "n \<notin> set (NULL # ListHead L # xs)"
  shows "csr_rep (L\<lparr>Count := Count L + 1\<rparr>) (m\<lparr>mlinks := csrListInsertTail (ListHead L) n (mlinks m)\<rparr>)
           (xs @ [n])"
  using assms csr.add_back [of "mlinks m" "ListHead L" xs n] by (auto simp: csr_rep_def)

lemma csr_rep_insert_head:
  assumes "csr_rep L m xs" and "n \<notin> set (NULL # ListHead L # xs)"
  shows "csr_rep (L\<lparr>Count := Count L + 1\<rparr>)
    (m\<lparr>mlinks := csrListInsertHead (ListHead L) n (mlinks m), timer_calls := ts\<rparr>) (n # xs)"
  using assms csr.add_front [of "mlinks m" "ListHead L" xs n] by (auto simp: csr_rep_def)

lemma csr_rep_insert_entry:
  assumes "csr_rep L m (us @ e # vs)" and "n \<notin> set (NULL # ListHead L # us @ e # vs)"
  shows "csr_rep (L\<lparr>Count := Count L + 1\<rparr>) (m\<lparr>mlinks := csrListInsertEntry e n (mlinks m)\<rparr>)
           (us @ n # e # vs)"
proof -
  have d: "dll (mlinks m) (ListHead L) (us @ e # vs)" and z: "e \<noteq> NULL"
    using assms(1) by (auto simp: csr_rep_def)
  have "prv (mlinks m) e \<noteq> n"
    using dll_prv_closed [OF d, of e] assms(2) by auto
  then have "csrListInsertEntry e n (mlinks m) = csrListInsertTail e n (mlinks m)"
    using assms(2) z by (intro csrListInsertEntry_eq) auto
  then show ?thesis
    using assms csr.add_before_node [OF d, of n] by (auto simp: csr_rep_def)
qed

lemma csr_rep_remove:
  assumes "csr_rep L m xs" and "n \<in> set xs"
  shows "csr_rep (L\<lparr>Count := Count L - 1\<rparr>) (m\<lparr>mlinks := csrListRemoveEntry n (mlinks m), timer_calls := ts\<rparr>)
           (remove1 n xs)"
proof -
  have "of_nat (length xs - 1) = of_nat (length xs) - (1 :: u32)"
    using length_pos_if_in_set [OF assms(2)] by (simp add: of_nat_diff Suc_leI)
  then show ?thesis
    using assms csr.del_member [of "mlinks m" "ListHead L" xs n] set_remove1_subset [of n xs]
    by (auto simp: csr_rep_def length_remove1)
qed

lemma csr_rep_remove_front:
  assumes "csr_rep L m (x # xs)"
  shows "csr_rep (L\<lparr>Count := Count L - 1\<rparr>) (m\<lparr>mlinks := csrListRemoveEntry x (mlinks m)\<rparr>) xs"
  using csr_rep_remove [OF assms, of x "timer_calls m"] by simp

lemma csr_rep_remove_back:
  assumes "csr_rep L m (xs @ [x])"
  shows "csr_rep (L\<lparr>Count := Count L - 1\<rparr>) (m\<lparr>mlinks := csrListRemoveEntry x (mlinks m)\<rparr>) xs"
proof -
  have "x \<notin> set xs" using assms by (auto simp: csr_rep_def dll_def)
  then show ?thesis
    using csr_rep_remove [OF assms, of x "timer_calls m"] by (simp add: remove1_append)
qed

text \<open>The link memory after every node of \<open>xs\<close> has been taken out, first to last.\<close>

definition unlink_all :: "addr list \<Rightarrow> links \<Rightarrow> links" where
  "unlink_all = fold csrListRemoveEntry"

lemma csrLLPurge_loop_eq:
  "csr_rep L m xs \<Longrightarrow>
     csrLLPurge_loop c L m = Some (L\<lparr>Count := 0\<rparr>, m\<lparr>mlinks := unlink_all xs (mlinks m)\<rparr>) \<and>
     csr_rep (L\<lparr>Count := 0\<rparr>) (m\<lparr>mlinks := unlink_all xs (mlinks m)\<rparr>) []"
proof (induction xs arbitrary: L m)
  case Nil
  then have "L\<lparr>Count := 0\<rparr> = L" by (simp add: csr_rep_def)
  then show ?case using Nil
    by (simp add: csrLLPurge_loop.simps [of c L m] csrLLRemoveHead_eq [OF Nil csr_may_nolock] unlink_all_def)
next
  case (Cons x xs)
  let ?L = "L\<lparr>Count := Count L - 1\<rparr>" and ?m = "m\<lparr>mlinks := csrListRemoveEntry x (mlinks m)\<rparr>"
  have "x \<noteq> NULL" using Cons.prems by (auto simp: csr_rep_def)
  then have "csrLLPurge_loop c L m = csrLLPurge_loop c ?L ?m"
    by (simp add: csrLLPurge_loop.simps [of c L m] csrLLRemoveHead_eq [OF Cons.prems csr_may_nolock])
  then show ?case using Cons.IH [OF csr_rep_remove_front [OF Cons.prems]] by (simp add: unlink_all_def)
qed

lemma csrLLRemoveEntry_loop_eq:
  "seg (mlinks m) a xs (ListHead L) \<Longrightarrow> ListHead L \<notin> set xs \<Longrightarrow> NULL \<notin> set xs \<Longrightarrow>
     csrLLRemoveEntry_loop e (nxt (mlinks m) a) L m =
       Some (if e \<in> set xs then (True, L\<lparr>Count := Count L - 1\<rparr>, m\<lparr>mlinks := csrListRemoveEntry e (mlinks m)\<rparr>)
             else (False, L, m))"
proof (induction xs arbitrary: a)
  case Nil
  then show ?case by (simp add: csrLLRemoveEntry_loop.simps)
next
  case (Cons x xs)
  then show ?case by (auto simp: csrLLRemoveEntry_loop.simps [of e x])
qed

lemma csrLLRemoveEntry_body:
  assumes "csr_rep L m xs"
  shows "csrLLRemoveEntry_loop e (if xs = [] then NULL else hd xs) L m =
       Some (if e \<in> set xs then (True, L\<lparr>Count := Count L - 1\<rparr>, m\<lparr>mlinks := csrListRemoveEntry e (mlinks m)\<rparr>)
             else (False, L, m))"
proof (cases "xs = []")
  case True
  then show ?thesis by (simp add: csrLLRemoveEntry_loop.simps)
next
  case False
  have "dll (mlinks m) (ListHead L) xs" "NULL \<notin> set xs" using assms by (auto simp: csr_rep_def)
  then show ?thesis
    using csrLLRemoveEntry_loop_eq [of m "ListHead L" xs L e] False dll_nxt_head [of "mlinks m" "ListHead L" xs]
    by (auto simp: dll_def)
qed

lemma csrLLRemoveEntry_eq:
  assumes "csr_rep L m xs" and "csr_may c f L"
  shows "csrLLRemoveEntry c (Some L) e f m = Some
    (if e \<in> set xs
     then (True, Some (L\<lparr>Count := Count L - 1\<rparr>),
           m\<lparr>mlinks := csrListRemoveEntry e (mlinks m), timer_calls := timer_calls m @ csr_stopped L\<rparr>)
     else (False, Some L, m\<lparr>timer_calls := timer_calls m @ csr_stopped L\<rparr>))"
proof -
  define body where "body = (\<lambda>L. case csrLLPeekHead c (Some L) False m of
    Some (pEntry, Some L1, m1) \<Rightarrow> csrLLRemoveEntry_loop e pEntry L1 m1 | _ \<Rightarrow> None)"
  let ?r = "if e \<in> set xs then (True, L\<lparr>Count := Count L - 1\<rparr>, m\<lparr>mlinks := csrListRemoveEntry e (mlinks m)\<rparr>)
            else (False, L, m)"
  have "body (L\<lparr>Lock := K\<rparr>) = Some (fst ?r, (fst (snd ?r))\<lparr>Lock := K\<rparr>, snd (snd ?r))" for K
  proof -
    have rep: "csr_rep (L\<lparr>Lock := K\<rparr>) m xs" using assms(1) by (simp add: csr_rep_lock)
    show ?thesis
      using csrLLPeekHead_eq [OF rep csr_may_nolock] csrLLRemoveEntry_body [OF rep] unfolding body_def
      by (simp del: if_split)
  qed
  then have "csr_interlocked c f body L = Some (fst ?r, fst (snd ?r), snd (snd ?r))"
    by (rule csr_interlocked_rep [OF assms]) simp_all
  then show ?thesis using assms(1)
    by (simp add: csrLLRemoveEntry_def csr_open_def csr_rep_def csr_stopped_def body_def)
qed

lemma csrLLPurge_eq:
  assumes "csr_rep L m xs" and "csr_may c f L"
  shows "csrLLPurge c (Some L) f m =
     Some ((), Some (L\<lparr>Count := 0\<rparr>), m\<lparr>mlinks := unlink_all xs (mlinks m)\<rparr>)"
  unfolding csrLLPurge_def
  by (rule csr_open_interlocked [OF assms])
    (use csrLLPurge_loop_eq [of "L\<lparr>Lock := _\<rparr>" m xs c] assms(1) in \<open>simp_all add: csr_rep_lock\<close>)

lemma csr_rep_purged:
  "csr_rep L m xs \<Longrightarrow> csr_rep (L\<lparr>Count := 0\<rparr>) (m\<lparr>mlinks := unlink_all xs (mlinks m)\<rparr>) []"
  by (rule csrLLPurge_loop_eq [THEN conjunct2])

section \<open>The list as a two-ended queue\<close>

text \<open>
  The four end operations as a client sees them: the state is the list object with the memory, a
  call that does not return is \<open>None\<close>.
\<close>

type_synonym csr_state = "csr_list \<times> csr_mem"

definition csr_put :: "(csr_list option \<Rightarrow> addr \<Rightarrow> bool \<Rightarrow> csr_mem \<Rightarrow> unit csr_res) \<Rightarrow> bool
    \<Rightarrow> addr \<Rightarrow> csr_state \<Rightarrow> csr_state option" where
  "csr_put ins f n s = (case ins (Some (fst s)) n f (snd s) of
     Some (_, Some L, m) \<Rightarrow> Some (L, m) | _ \<Rightarrow> None)"

definition csr_get :: "(csr_list option \<Rightarrow> bool \<Rightarrow> csr_mem \<Rightarrow> addr csr_res) \<Rightarrow> bool
    \<Rightarrow> csr_state \<Rightarrow> (addr \<times> csr_state) option" where
  "csr_get rem f s = (case rem (Some (fst s)) f (snd s) of
     Some (n, Some L, m) \<Rightarrow> Some (n, L, m) | _ \<Rightarrow> None)"

definition csr_queue :: "ctx \<Rightarrow> bool \<Rightarrow> csr_state \<Rightarrow> addr list \<Rightarrow> bool" where
  "csr_queue c f s xs \<longleftrightarrow> csr_rep (fst s) (snd s) xs \<and> csr_may c f (fst s)"

definition csr_avail :: "csr_state \<Rightarrow> addr \<Rightarrow> bool" where
  "csr_avail s n \<longleftrightarrow> n \<noteq> NULL \<and> n \<noteq> ListHead (fst s)"

lemma csr_may_Count [simp]: "csr_may c f (L\<lparr>Count := k\<rparr>) = csr_may c f L"
  by (simp add: csr_may_def csr_free_def)

lemmas csr_deque_defs = csr_put_def csr_get_def csr_queue_def csr_avail_def

interpretation csrq: node_deque "csr_queue c f" csr_avail
  "csr_put (csrLLInsertHead c) f" "csr_put (csrLLInsertTail c) f"
  "csr_get (csrLLRemoveHead c) f" "csr_get (csrLLRemoveTail c) f" for c f
proof (unfold_locales, goal_cases)
  case (1 s xs n)
  obtain L m where s: "s = (L, m)" by (cases s)
  with 1 have a: "csr_rep L m xs" "csr_may c f L" "n \<notin> set (NULL # ListHead L # xs)"
    by (simp_all add: csr_deque_defs)
  show ?case
    using csrLLInsertHead_eq [OF a(1,2), of n] csr_rep_insert_head [OF a(1,3)] a(2)
    by (simp add: csr_deque_defs s fun_eq_iff)
next
  case (2 s xs n)
  obtain L m where s: "s = (L, m)" by (cases s)
  with 2 have a: "csr_rep L m xs" "csr_may c f L" "n \<notin> set (NULL # ListHead L # xs)"
    by (simp_all add: csr_deque_defs)
  show ?case
    using csrLLInsertTail_eq [OF a(1,2), of n] csr_rep_insert_tail [OF a(1,3)] a(2)
    by (simp add: csr_deque_defs s fun_eq_iff)
next
  case (3 s x xs)
  obtain L m where s: "s = (L, m)" by (cases s)
  with 3 have a: "csr_rep L m (x # xs)" "csr_may c f L" by (simp_all add: csr_deque_defs)
  show ?case
    using csrLLRemoveHead_eq [OF a] csr_rep_remove_front [OF a(1)] a(2)
    by (simp add: csr_deque_defs s fun_eq_iff)
next
  case (4 s xs x)
  obtain L m where s: "s = (L, m)" by (cases s)
  with 4 have a: "csr_rep L m (xs @ [x])" "csr_may c f L" by (simp_all add: csr_deque_defs)
  show ?case
    using csrLLRemoveTail_eq [OF a] csr_rep_remove_back [OF a(1)] a(2)
    by (simp add: csr_deque_defs s fun_eq_iff)
next
  case (5 s)
  then show ?case using csrLLRemoveHead_eq [of "fst s" "snd s" "[]" c f] by (simp add: csr_deque_defs)
next
  case (6 s)
  then show ?case using csrLLRemoveTail_eq [of "fst s" "snd s" "[]" c f] by (simp add: csr_deque_defs)
qed

text \<open>Opening a closed list makes it an empty one with a free lock; closing it empties it.\<close>

lemma csrLLOpen_eq:
  assumes "Flag L \<noteq> LIST_FLAG_OPEN" and "lock_cookie (Lock L) \<noteq> LINUX_LOCK_COOKIE" and "ListHead L \<noteq> NULL"
  shows "\<exists>L1 m1. csrLLOpen False hdd (Some L) m = (eHAL_STATUS_SUCCESS, Some L1, m1) \<and>
     csr_rep L1 m1 [] \<and> fresh_lock (Lock L1) \<and> ListHead L1 = ListHead L"
  using assms csr.init [of "ListHead L" "mlinks m"]
  by (simp add: csrLLOpen_def vos_lock_init_def csr_rep_def fresh_lock_def)

lemma csrLLClose_eq:
  assumes "csr_rep L m xs" and "csr_free c L"
  shows "\<exists>L1. csrLLClose c (Some L) m = Some ((), Some L1, m\<lparr>mlinks := unlink_all xs (mlinks m)\<rparr>) \<and>
     Flag L1 = LIST_FLAG_CLOSE \<and> Count L1 = 0 \<and> lock_state (Lock L1) = LOCK_DESTROYED \<and>
     lock_cookie (Lock L1) = 0 \<and> ListHead L1 = ListHead L"
  using assms csrLLPurge_eq [OF assms(1), of c True]
  by (simp add: csrLLClose_def csr_open_def csr_rep_def csr_may_def csr_free_def fresh_lock_def vos_lock_destroy_def)

section \<open>Properties\<close>

text \<open>A lock that another thread holds, however deep, and the calls that wait for it.\<close>

definition held_by_other :: "ctx \<Rightarrow> csr_list \<Rightarrow> bool" where
  "held_by_other c L \<longleftrightarrow> (\<exists>q r K. q \<noteq> snd c \<and> fresh_lock K \<and> Lock L = held_lock q r K)"

lemma csrLLLock_blocks:
  assumes "\<not> fst c" and "Flag L = LIST_FLAG_OPEN" and "held_by_other c L"
  shows "csrLLLock c L = None"
  using assms by (auto simp: held_by_other_def csrLLLock_def held_lock_def fresh_lock_def vos_lock_acquire_def vos_lock_acquire_enter_def)

lemma interlocked_blocks:
  assumes "\<not> fst c" and "Flag L = LIST_FLAG_OPEN" and "held_by_other c L"
  shows "csr_open (Some L) m d (csr_interlocked c True body) = None"
  using csrLLLock_blocks [OF assms] assms(2) by (simp add: csr_open_def csr_interlocked_def)

text \<open>The body of an interlocked call sees the lock held by the caller.\<close>

lemma interlocked_under_lock:
  assumes "csr_free c L" and "Flag L = LIST_FLAG_OPEN"
  shows "csr_interlocked c True body L =
    csr_interlocked c True (\<lambda>L1. if Lock L1 = held_lock (snd c) 1 (Lock L) then body L1 else None) L"
  using csrLLLock_free [OF assms] by (simp add: csr_interlocked_def)

text \<open>
  C6: the list is a queue under its lock. Whatever it holds, the nodes put at its tail come out at its head in the order
  they were put, after the ones that were there, and at the end the list is empty. With \<^verbatim>\<open>fInterlocked\<close> set, the lock
  is free again after the calls; what a call does to the list it does while its thread holds the lock; and while another
  thread holds it, the calls wait and do not return. Without \<^verbatim>\<open>fInterlocked\<close> the calls need no free lock.
\<close>

theorem csr_list_fifo:
  fixes body :: "csr_list \<Rightarrow> ('r \<times> csr_list \<times> csr_mem) option"
  assumes "csr_queue c f s xs" and "\<forall>n \<in> set ns. csr_avail s n" and "distinct (xs @ ns)"
  shows "(\<exists>t u. push_all (csr_put (csrLLInsertTail c) f) ns s = Some t \<and>
      pop_all (csr_get (csrLLRemoveHead c) f) (length (xs @ ns)) t = Some (xs @ ns, u) \<and> csr_queue c f u [] \<and>
      (f \<longrightarrow> fresh_lock (Lock (fst u)))) \<and>
    (csr_free c (fst s) \<longrightarrow> csr_interlocked c True body (fst s) =
       csr_interlocked c True (\<lambda>L. if Lock L = held_lock (snd c) 1 (Lock (fst s)) then body L else None) (fst s)) \<and>
    (\<forall>L m n. \<not> fst c \<longrightarrow> Flag L = LIST_FLAG_OPEN \<longrightarrow> held_by_other c L \<longrightarrow>
       csrLLInsertTail c (Some L) n True m = None \<and> csrLLRemoveHead c (Some L) True m = None)"
proof (intro conjI allI impI)
  show "\<exists>t u. push_all (csr_put (csrLLInsertTail c) f) ns s = Some t \<and>
      pop_all (csr_get (csrLLRemoveHead c) f) (length (xs @ ns)) t = Some (xs @ ns, u) \<and> csr_queue c f u [] \<and>
      (f \<longrightarrow> fresh_lock (Lock (fst u)))"
    using csrq.fifo [OF assms] by (fastforce simp: csr_queue_def csr_may_def csr_free_def)
  show "csr_interlocked c True body (fst s) =
      csr_interlocked c True (\<lambda>L. if Lock L = held_lock (snd c) 1 (Lock (fst s)) then body L else None) (fst s)"
    if "csr_free c (fst s)"
    by (rule interlocked_under_lock [OF that]) (use assms(1) in \<open>simp add: csr_queue_def csr_rep_def\<close>)
qed (simp_all add: csrLLInsertTail_def csrLLRemoveHead_def interlocked_blocks)

definition sample_list :: csr_list where
  "sample_list = \<lparr>ListHead = 1, Lock = sample_lock, Count = 0, hHdd = 0, Flag = LIST_FLAG_OPEN,
     cmdTimeoutDuration = 30000, cmdTimeoutTimer = 99\<rparr>"

definition sample_mem :: csr_mem where
  "sample_mem = \<lparr>mlinks = csrListInit 1 \<lparr>nxt = (\<lambda>_. 0), prv = (\<lambda>_. 0)\<rparr>, timer_calls = []\<rparr>"

lemma sample_queue: "csr_queue (False, 7) True (sample_list, sample_mem) []"
  by (simp add: csr_queue_def csr_rep_def csr_may_def csr_free_def fresh_lock_def sample_list_def
      sample_mem_def sample_lock_def csrListInit_dll)

theorem csr_list_fifo_witness:
  "(\<exists>t u. push_all (csr_put (csrLLInsertTail (False, 7)) True) [10, 20, 30] (sample_list, sample_mem) = Some t \<and>
      pop_all (csr_get (csrLLRemoveHead (False, 7)) True) 3 t = Some ([10, 20, 30], u) \<and>
      csr_queue (False, 7) True u []) \<and>
    csrLLInsertTail (False, 7) (Some (sample_list\<lparr>Lock := held_lock 8 2 sample_lock\<rparr>)) 10 True sample_mem = None"
proof -
  let ?L = "sample_list\<lparr>Lock := held_lock 8 2 sample_lock\<rparr>"
  have "Flag ?L = LIST_FLAG_OPEN" "held_by_other (False, 7) ?L"
    unfolding held_by_other_def
    by (simp add: sample_list_def)
      (rule exI [of _ 8], simp, rule exI [of _ 2], rule exI [of _ sample_lock],
       simp add: fresh_lock_def sample_lock_def)
  moreover have "\<forall>n \<in> set [10, 20, 30]. csr_avail (sample_list, sample_mem) n" "distinct ([] @ [10, 20, 30 :: addr])"
    by (simp_all add: csr_avail_def sample_list_def)
  note a = csr_list_fifo [OF sample_queue this, of "\<lambda>L. Some ((), L, sample_mem)"]
  have "length ([] @ [10, 20, 30 :: addr]) = 3" by simp
  with conjunct1 [OF a] have "\<exists>t u. push_all (csr_put (csrLLInsertTail (False, 7)) True) [10, 20, 30] (sample_list, sample_mem) = Some t \<and>
      pop_all (csr_get (csrLLRemoveHead (False, 7)) True) 3 t = Some ([10, 20, 30], u) \<and> csr_queue (False, 7) True u []"
    unfolding append_Nil by metis
  ultimately show ?thesis using conjunct2 [OF conjunct2 [OF a]] by simp
qed

text \<open>
  The list is a stack at its head, and reversing the end it is emptied from makes it a queue
  again: nodes put at the head come out at the head newest first and at the tail oldest first.
\<close>

lemma csr_list_lifo:
  assumes "csr_queue c f s xs" and "\<forall>n \<in> set ns. csr_avail s n" and "distinct (rev ns @ xs)"
  shows "\<exists>t u v. push_all (csr_put (csrLLInsertHead c) f) ns s = Some t \<and>
    pop_all (csr_get (csrLLRemoveHead c) f) (length (rev ns @ xs)) t = Some (rev ns @ xs, u) \<and> csr_queue c f u [] \<and>
    pop_all (csr_get (csrLLRemoveTail c) f) (length (rev ns @ xs)) t = Some (rev xs @ ns, v) \<and> csr_queue c f v []"
  using csrq.lifo [OF assms] csrq.fifo_back [OF assms] by force

lemma csr_list_lifo_witness:
  "\<exists>t u v. push_all (csr_put (csrLLInsertHead (False, 7)) True) [10, 20, 30] (sample_list, sample_mem) = Some t \<and>
    pop_all (csr_get (csrLLRemoveHead (False, 7)) True) 3 t = Some ([30, 20, 10], u) \<and>
    csr_queue (False, 7) True u [] \<and>
    pop_all (csr_get (csrLLRemoveTail (False, 7)) True) 3 t = Some ([10, 20, 30], v) \<and>
    csr_queue (False, 7) True v []"
  using csr_list_lifo [OF sample_queue, of "[10, 20, 30]"]
  by (simp add: csr_avail_def sample_list_def numeral_3_eq_3 del: push_all.simps pop_all.simps split_paired_Ex)

text \<open>
  Removal. \<^verbatim>\<open>csrLLRemoveEntry\<close> returns, says whether the node was on the list, takes exactly
  that node out, keeps the order of the others, counts, and stops the command timer of the list if
  it has one, also when the node was not found.
\<close>

theorem csrLLRemoveEntry_correct:
  assumes "csr_rep L m xs" and "csr_may c f L"
  shows "\<exists>L1 m1. csrLLRemoveEntry c (Some L) e f m = Some (e \<in> set xs, Some L1, m1) \<and>
    csr_rep L1 m1 (remove1 e xs) \<and> Lock L1 = Lock L \<and>
    timer_calls m1 = timer_calls m @ (if cmdTimeoutTimer L \<noteq> NULL then [Timer_stop (cmdTimeoutTimer L)] else [])"
proof (cases "e \<in> set xs")
  case True
  then show ?thesis
    using csrLLRemoveEntry_eq [OF assms] csr_rep_remove [OF assms(1) True] by (simp add: csr_stopped_def)
next
  case False
  then show ?thesis
    using csrLLRemoveEntry_eq [OF assms] assms(1) by (simp add: csr_stopped_def remove1_idem csr_rep_def)
qed

definition sample_full :: csr_mem where
  "sample_full = sample_mem\<lparr>mlinks := csrListInsertTail 1 20 (csrListInsertTail 1 10 (mlinks sample_mem))\<rparr>"

lemma sample_full_rep: "csr_rep (sample_list\<lparr>Count := 2\<rparr>) sample_full [10, 20]"
proof -
  have "dll (csrListInsertTail 1 10 (mlinks sample_mem)) 1 [10]"
    using csr.add_back [of "mlinks sample_mem" 1 "[]" 10] by (simp add: sample_mem_def csrListInit_dll)
  then have "dll (csrListInsertTail 1 20 (csrListInsertTail 1 10 (mlinks sample_mem))) 1 [10, 20]"
    using csr.add_back [of _ 1 "[10]" 20] by simp
  then show ?thesis by (simp add: csr_rep_def sample_full_def sample_list_def)
qed

lemma sample_may: "csr_may (False, 7) True (sample_list\<lparr>Count := k\<rparr>)"
  by (simp add: csr_may_def csr_free_def fresh_lock_def sample_list_def sample_lock_def)

theorem csrLLRemoveEntry_correct_witness:
  "\<exists>L1 m1. csrLLRemoveEntry (False, 7) (Some (sample_list\<lparr>Count := 2\<rparr>)) 10 True sample_full =
      Some (True, Some L1, m1) \<and> csr_rep L1 m1 [20] \<and> timer_calls m1 = [Timer_stop 99]"
  using csrLLRemoveEntry_correct [OF sample_full_rep sample_may, of 10]
  by (auto simp: sample_list_def sample_full_def sample_mem_def)

text \<open>
  the interior operations. \<^verbatim>\<open>csrLLInsertEntry\<close> puts the new node right before the given one,
  and afterwards \<^verbatim>\<open>csrLLNext\<close> of the new node is the given node, and \<^verbatim>\<open>csrLLPrevious\<close> of the given
  node the new one.
\<close>

theorem csrLLInsertEntry_neighbours:
  assumes "csr_rep L m (us @ e # vs)" and "csr_may c f L" and "n \<notin> set (NULL # ListHead L # us @ e # vs)"
  shows "\<exists>L1 m1. csrLLInsertEntry c (Some L) e n f m = Some ((), Some L1, m1) \<and>
    csr_rep L1 m1 (us @ n # e # vs) \<and>
    csrLLNext c (Some L1) n f m1 = Some (e, Some L1, m1) \<and>
    csrLLPrevious c (Some L1) e f m1 = Some (n, Some L1, m1) \<and>
    csrLLFindEntry c (Some L1) n m1 = Some (True, Some L1, m1)"
proof -
  let ?L = "L\<lparr>Count := Count L + 1\<rparr>" and ?m = "m\<lparr>mlinks := csrListInsertEntry e n (mlinks m)\<rparr>"
  have r: "csr_rep ?L ?m (us @ n # e # vs)" by (rule csr_rep_insert_entry [OF assms(1,3)])
  then have r': "csr_rep ?L ?m ((us @ [n]) @ e # vs)" by simp
  have f: "csr_may c f ?L" using assms(2) by simp
  show ?thesis
    using csrLLInsertEntry_eq [OF assms(1,2)] r csrLLNext_eq [OF r f] csrLLPrevious_eq [OF r' f]
      csrLLFindEntry_eq [OF r] by simp
qed

theorem csrLLInsertEntry_neighbours_witness:
  "\<exists>L1 m1. csrLLInsertEntry (False, 7) (Some (sample_list\<lparr>Count := 2\<rparr>)) 20 15 True sample_full =
      Some ((), Some L1, m1) \<and> csr_rep L1 m1 [10, 15, 20] \<and>
    csrLLPrevious (False, 7) (Some L1) 20 True m1 = Some (15, Some L1, m1)"
  using csrLLInsertEntry_neighbours [of "sample_list\<lparr>Count := 2\<rparr>" sample_full "[10]" 20 "[]" "(False, 7)" True 15]
    sample_full_rep sample_may [of 2]
  by (simp add: sample_list_def) blast

text \<open>
  C7: purging and closing end. On any open list whose lock is free the loop of \<^verbatim>\<open>csrLLPurge\<close> comes to
  an end with the list empty and the lock free, and \<^verbatim>\<open>csrLLClose\<close> leaves it closed with its lock
  destroyed, so that \<^verbatim>\<open>csrLLOpen\<close> makes a new empty list of it.
\<close>

theorem csrLLPurge_Close_reopen:
  assumes "csr_rep L m xs" and "csr_free c L"
  shows "(\<exists>m1. csrLLPurge c (Some L) True m = Some ((), Some (L\<lparr>Count := 0\<rparr>), m1) \<and>
      csr_rep (L\<lparr>Count := 0\<rparr>) m1 []) \<and>
    (\<exists>L1 m1 L2 m2. csrLLClose c (Some L) m = Some ((), Some L1, m1) \<and> Flag L1 = LIST_FLAG_CLOSE \<and>
      csrLLOpen False hdd (Some L1) m1 = (eHAL_STATUS_SUCCESS, Some L2, m2) \<and> csr_rep L2 m2 [] \<and>
      csr_free c L2)"
proof
  show "\<exists>m1. csrLLPurge c (Some L) True m = Some ((), Some (L\<lparr>Count := 0\<rparr>), m1) \<and>
      csr_rep (L\<lparr>Count := 0\<rparr>) m1 []"
    using csrLLPurge_eq [OF assms(1), of c True] csr_rep_purged [OF assms(1)] assms(2)
    by (simp add: csr_may_def)
next
  let ?m = "m\<lparr>mlinks := unlink_all xs (mlinks m)\<rparr>"
  obtain L1 where L1: "csrLLClose c (Some L) m = Some ((), Some L1, ?m)" "Flag L1 = LIST_FLAG_CLOSE"
      "lock_cookie (Lock L1) = 0" "ListHead L1 = ListHead L"
    using csrLLClose_eq [OF assms] by blast
  have "ListHead L1 \<noteq> NULL" using assms(1) L1(4) by (auto simp: csr_rep_def)
  then obtain L2 m2 where "csrLLOpen False hdd (Some L1) ?m = (eHAL_STATUS_SUCCESS, Some L2, m2)"
      "csr_rep L2 m2 []" "fresh_lock (Lock L2)"
    using csrLLOpen_eq [of L1 hdd ?m] L1(2,3) by (auto simp: LIST_FLAG_CLOSE_def LIST_FLAG_OPEN_def)
  then show "\<exists>L1 m1 L2 m2. csrLLClose c (Some L) m = Some ((), Some L1, m1) \<and> Flag L1 = LIST_FLAG_CLOSE \<and>
      csrLLOpen False hdd (Some L1) m1 = (eHAL_STATUS_SUCCESS, Some L2, m2) \<and> csr_rep L2 m2 [] \<and>
      csr_free c L2"
    using L1 assms(2) by (auto simp: csr_free_def)
qed

theorem csrLLPurge_Close_reopen_witness:
  "\<exists>L1 m1 L2 m2. csrLLClose (False, 7) (Some (sample_list\<lparr>Count := 2\<rparr>)) sample_full = Some ((), Some L1, m1) \<and>
     csrLLOpen False 0 (Some L1) m1 = (eHAL_STATUS_SUCCESS, Some L2, m2) \<and> csr_rep L2 m2 []"
  using csrLLPurge_Close_reopen [OF sample_full_rep, of "(False, 7)" 0] sample_may [of 2]
  by (simp add: csr_may_def) blast

end
