(* ===== verification/Vos_List.thy ===== *)
theory Vos_List
  imports Csr_LinkList
begin

text \<open>
  The vOSS list service (VOSS/src/vos_list.c), a locked list on the kernel's \<^verbatim>\<open>struct list_head\<close>. The
  kernel's list functions are not part of the driver: they are the parameter \<open>K\<close> of every operation,
  and the theorems assume of them the contract \<open>link_prims\<close>. A result \<open>None\<close> is a call that does not
  return.
\<close>

section \<open>The kernel interface\<close>

text \<open>
  The functions and macros of linux/list.h that vos_list.c calls; \<open>list_for_each K l h P\<close> is the loop
  \<^verbatim>\<open>list_for_each (tmp, h)\<close> that stops at the first node satisfying \<open>P\<close> and says whether there is one.
\<close>

record list_api =
  INIT_LIST_HEAD :: "addr \<Rightarrow> links \<Rightarrow> links"
  list_add :: "addr \<Rightarrow> addr \<Rightarrow> links \<Rightarrow> links"
  list_add_tail :: "addr \<Rightarrow> addr \<Rightarrow> links \<Rightarrow> links"
  list_del :: "addr \<Rightarrow> links \<Rightarrow> links"
  list_empty :: "links \<Rightarrow> addr \<Rightarrow> bool"
  list_for_each :: "links \<Rightarrow> addr \<Rightarrow> (addr \<Rightarrow> bool) \<Rightarrow> bool option"

section \<open>State and operations\<close>

text \<open>\<^verbatim>\<open>struct vos_linux_list_s\<close>: \<open>anchor\<close> is the address of the list head, \<open>mutex\<close> whether the lock is held.\<close>

record vos_list =
  anchor :: addr
  vcount :: u32
  mutex :: bool
  cookie :: u32

definition VOS_LIST_COOKIE :: u32 where "VOS_LIST_COOKIE = 0xabadfeed"

type_synonym 'o vos_res = "(VOS_STATUS \<times> 'o \<times> vos_list option \<times> links) option"

text \<open>
  The checks every operation starts with: the pointers (\<open>ok\<close>: none of the other pointer arguments is
  null), the cookie, and \<^verbatim>\<open>mutex_lock_interruptible\<close>, which returns \<open>rc\<close>. With \<open>rc = 0\<close> the caller has
  waited for the mutex, so a mutex that nobody releases means the call does not return.
\<close>

definition vos_list_enter :: "int \<Rightarrow> vos_list option \<Rightarrow> bool \<Rightarrow> 'o \<Rightarrow> links \<Rightarrow> (vos_list \<Rightarrow> 'o vos_res) \<Rightarrow> 'o vos_res" where
  "vos_list_enter rc pList ok out l body = (case pList of
     None \<Rightarrow> Some (VOS_STATUS_E_FAULT, out, None, l)
   | Some L \<Rightarrow>
       if \<not> ok then Some (VOS_STATUS_E_FAULT, out, Some L, l)
       else if cookie L \<noteq> VOS_LIST_COOKIE then Some (VOS_STATUS_E_INVAL, out, Some L, l)
       else if rc \<noteq> 0 then Some (VOS_STATUS_E_FAULT, out, Some L, l)
       else if mutex L then None
       else body (L\<lparr>mutex := True\<rparr>))"

definition mutex_unlock :: "vos_list \<Rightarrow> vos_list" where
  "mutex_unlock L = L\<lparr>mutex := False\<rparr>"

definition vos_list_init :: "list_api \<Rightarrow> vos_list option \<Rightarrow> links \<Rightarrow> VOS_STATUS \<times> vos_list option \<times> links" where
  "vos_list_init K pList l = (case pList of
     None \<Rightarrow> (VOS_STATUS_E_FAULT, None, l)
   | Some L \<Rightarrow>
       if cookie L = VOS_LIST_COOKIE then (VOS_STATUS_E_BUSY, Some L, l)
       else (VOS_STATUS_SUCCESS, Some (L\<lparr>mutex := False, vcount := 0, cookie := VOS_LIST_COOKIE\<rparr>),
             INIT_LIST_HEAD K (anchor L) l))"

definition vos_list_destroy :: "int \<Rightarrow> vos_list option \<Rightarrow> links \<Rightarrow> unit vos_res" where
  "vos_list_destroy rc pList l = vos_list_enter rc pList True () l (\<lambda>L.
     if vcount L \<noteq> 0 then Some (VOS_STATUS_E_BUSY, (), Some (mutex_unlock L), l)
     else Some (VOS_STATUS_SUCCESS, (), Some (mutex_unlock (L\<lparr>cookie := 0\<rparr>)), l))"

definition vos_list_insert_front :: "list_api \<Rightarrow> int \<Rightarrow> vos_list option \<Rightarrow> addr \<Rightarrow> links \<Rightarrow> unit vos_res" where
  "vos_list_insert_front K rc pList pNode l = vos_list_enter rc pList (pNode \<noteq> NULL) () l (\<lambda>L.
     Some (VOS_STATUS_SUCCESS, (), Some (mutex_unlock (L\<lparr>vcount := vcount L + 1\<rparr>)),
           list_add K pNode (anchor L) l))"

definition vos_list_insert_back :: "list_api \<Rightarrow> int \<Rightarrow> vos_list option \<Rightarrow> addr \<Rightarrow> links \<Rightarrow> unit vos_res" where
  "vos_list_insert_back K rc pList pNode l = vos_list_enter rc pList (pNode \<noteq> NULL) () l (\<lambda>L.
     Some (VOS_STATUS_SUCCESS, (), Some (mutex_unlock (L\<lparr>vcount := vcount L + 1\<rparr>)),
           list_add_tail K pNode (anchor L) l))"

text \<open>
  An out parameter is an optional cell: \<open>None\<close> is a null pointer, \<open>Some v\<close> a cell holding \<open>v\<close>.
\<close>

definition vos_list_insert_back_size ::
  "list_api \<Rightarrow> int \<Rightarrow> vos_list option \<Rightarrow> addr \<Rightarrow> u32 option \<Rightarrow> links \<Rightarrow> u32 option vos_res" where
  "vos_list_insert_back_size K rc pList pNode pSize l =
     vos_list_enter rc pList (pNode \<noteq> NULL \<and> pSize \<noteq> None) pSize l (\<lambda>L.
       let L1 = L\<lparr>vcount := vcount L + 1\<rparr> in
       Some (VOS_STATUS_SUCCESS, Some (vcount L1), Some (mutex_unlock L1),
             list_add_tail K pNode (anchor L) l))"

definition vos_list_remove_front ::
  "list_api \<Rightarrow> int \<Rightarrow> vos_list option \<Rightarrow> addr option \<Rightarrow> links \<Rightarrow> addr option vos_res" where
  "vos_list_remove_front K rc pList ppNode l = vos_list_enter rc pList (ppNode \<noteq> None) ppNode l (\<lambda>L.
     if list_empty K l (anchor L) then Some (VOS_STATUS_E_EMPTY, ppNode, Some (mutex_unlock L), l)
     else let listptr = nxt l (anchor L) in
       Some (VOS_STATUS_SUCCESS, Some listptr, Some (mutex_unlock (L\<lparr>vcount := vcount L - 1\<rparr>)),
             list_del K (nxt l (anchor L)) l))"

definition vos_list_remove_back ::
  "list_api \<Rightarrow> int \<Rightarrow> vos_list option \<Rightarrow> addr option \<Rightarrow> links \<Rightarrow> addr option vos_res" where
  "vos_list_remove_back K rc pList ppNode l = vos_list_enter rc pList (ppNode \<noteq> None) ppNode l (\<lambda>L.
     if list_empty K l (anchor L) then Some (VOS_STATUS_E_EMPTY, ppNode, Some (mutex_unlock L), l)
     else let listptr = prv l (anchor L) in
       Some (VOS_STATUS_SUCCESS, Some listptr, Some (mutex_unlock (L\<lparr>vcount := vcount L - 1\<rparr>)),
             list_del K (prv l (anchor L)) l))"

definition vos_list_size :: "int \<Rightarrow> vos_list option \<Rightarrow> u32 option \<Rightarrow> links \<Rightarrow> u32 option vos_res" where
  "vos_list_size rc pList pSize l = vos_list_enter rc pList (pSize \<noteq> None) pSize l (\<lambda>L.
     Some (VOS_STATUS_SUCCESS, Some (vcount L), Some (mutex_unlock L), l))"

definition vos_list_peek_front ::
  "list_api \<Rightarrow> int \<Rightarrow> vos_list option \<Rightarrow> addr option \<Rightarrow> links \<Rightarrow> addr option vos_res" where
  "vos_list_peek_front K rc pList ppNode l = vos_list_enter rc pList (ppNode \<noteq> None) ppNode l (\<lambda>L.
     if list_empty K l (anchor L) then Some (VOS_STATUS_E_EMPTY, ppNode, Some (mutex_unlock L), l)
     else Some (VOS_STATUS_SUCCESS, Some (nxt l (anchor L)), Some (mutex_unlock L), l))"

definition vos_list_peek_back ::
  "list_api \<Rightarrow> int \<Rightarrow> vos_list option \<Rightarrow> addr option \<Rightarrow> links \<Rightarrow> addr option vos_res" where
  "vos_list_peek_back K rc pList ppNode l = vos_list_enter rc pList (ppNode \<noteq> None) ppNode l (\<lambda>L.
     if list_empty K l (anchor L) then Some (VOS_STATUS_E_EMPTY, ppNode, Some (mutex_unlock L), l)
     else Some (VOS_STATUS_SUCCESS, Some (prv l (anchor L)), Some (mutex_unlock L), l))"

text \<open>
  The part that the operations on a given node share: the empty list, then the search for the node.
  The return for a node that is not found leaves the mutex locked, as in the code.
\<close>

definition vos_list_locate ::
  "list_api \<Rightarrow> vos_list \<Rightarrow> addr \<Rightarrow> 'o \<Rightarrow> links \<Rightarrow> 'o vos_res \<Rightarrow> 'o vos_res" where
  "vos_list_locate K L pNode out l found_body =
     (if list_empty K l (anchor L) then Some (VOS_STATUS_E_EMPTY, out, Some (mutex_unlock L), l)
      else case list_for_each K l (anchor L) (\<lambda>tmp. tmp = pNode) of
        None \<Rightarrow> None
      | Some found \<Rightarrow> if \<not> found then Some (VOS_STATUS_E_INVAL, out, Some L, l) else found_body)"

definition vos_list_peek_next ::
  "list_api \<Rightarrow> int \<Rightarrow> vos_list option \<Rightarrow> addr \<Rightarrow> addr option \<Rightarrow> links \<Rightarrow> addr option vos_res" where
  "vos_list_peek_next K rc pList pNode ppNode l =
     vos_list_enter rc pList (pNode \<noteq> NULL \<and> ppNode \<noteq> None) ppNode l (\<lambda>L.
       vos_list_locate K L pNode ppNode l
         (let listptr = nxt l pNode in
          if listptr = anchor L then Some (VOS_STATUS_E_EMPTY, ppNode, Some (mutex_unlock L), l)
          else Some (VOS_STATUS_SUCCESS, Some listptr, Some (mutex_unlock L), l)))"

definition vos_list_peek_prev ::
  "list_api \<Rightarrow> int \<Rightarrow> vos_list option \<Rightarrow> addr \<Rightarrow> addr option \<Rightarrow> links \<Rightarrow> addr option vos_res" where
  "vos_list_peek_prev K rc pList pNode ppNode l =
     vos_list_enter rc pList (pNode \<noteq> NULL \<and> ppNode \<noteq> None) ppNode l (\<lambda>L.
       vos_list_locate K L pNode ppNode l
         (let listptr = prv l pNode in
          if listptr = anchor L then Some (VOS_STATUS_E_EMPTY, ppNode, Some (mutex_unlock L), l)
          else Some (VOS_STATUS_SUCCESS, Some listptr, Some (mutex_unlock L), l)))"

definition vos_list_insert_before ::
  "list_api \<Rightarrow> int \<Rightarrow> vos_list option \<Rightarrow> addr \<Rightarrow> addr \<Rightarrow> links \<Rightarrow> unit vos_res" where
  "vos_list_insert_before K rc pList pNodeToInsert pNode l =
     vos_list_enter rc pList (pNode \<noteq> NULL \<and> pNodeToInsert \<noteq> NULL) () l (\<lambda>L.
       vos_list_locate K L pNode () l
         (Some (VOS_STATUS_SUCCESS, (), Some (mutex_unlock (L\<lparr>vcount := vcount L + 1\<rparr>)),
                list_add K pNodeToInsert pNode l)))"

definition vos_list_insert_after ::
  "list_api \<Rightarrow> int \<Rightarrow> vos_list option \<Rightarrow> addr \<Rightarrow> addr \<Rightarrow> links \<Rightarrow> unit vos_res" where
  "vos_list_insert_after K rc pList pNodeToInsert pNode l =
     vos_list_enter rc pList (pNode \<noteq> NULL \<and> pNodeToInsert \<noteq> NULL) () l (\<lambda>L.
       vos_list_locate K L pNode () l
         (Some (VOS_STATUS_SUCCESS, (), Some (mutex_unlock (L\<lparr>vcount := vcount L + 1\<rparr>)),
                list_add_tail K pNodeToInsert pNode l)))"

definition vos_list_remove_node ::
  "list_api \<Rightarrow> int \<Rightarrow> vos_list option \<Rightarrow> addr \<Rightarrow> links \<Rightarrow> unit vos_res" where
  "vos_list_remove_node K rc pList pNodeToRemove l =
     vos_list_enter rc pList (pNodeToRemove \<noteq> NULL) () l (\<lambda>L.
       vos_list_locate K L pNodeToRemove () l
         (Some (VOS_STATUS_SUCCESS, (), Some (mutex_unlock (L\<lparr>vcount := vcount L - 1\<rparr>)),
                list_del K pNodeToRemove l)))"

lemmas vos_list_op_defs = vos_list_destroy_def vos_list_insert_front_def vos_list_insert_back_def
  vos_list_insert_back_size_def vos_list_remove_front_def vos_list_remove_back_def vos_list_size_def
  vos_list_peek_front_def vos_list_peek_back_def vos_list_peek_next_def vos_list_peek_prev_def
  vos_list_insert_before_def vos_list_insert_after_def vos_list_remove_node_def

section \<open>What the list represents\<close>

definition vos_rep :: "vos_list \<Rightarrow> links \<Rightarrow> addr list \<Rightarrow> bool" where
  "vos_rep L l xs \<longleftrightarrow> cookie L = VOS_LIST_COOKIE \<and> \<not> mutex L \<and> dll l (anchor L) xs \<and>
     NULL \<notin> set (anchor L # xs) \<and> vcount L = of_nat (length xs)"

lemma vos_rep_dll: "vos_rep L l xs \<Longrightarrow> dll l (anchor L) xs"
  by (simp add: vos_rep_def)

lemma vos_list_enter_rep [guard_simps]:
  "vos_rep L l xs \<Longrightarrow> ok \<Longrightarrow> vos_list_enter 0 (Some L) ok out l body = body (L\<lparr>mutex := True\<rparr>)"
  by (simp add: vos_list_enter_def vos_rep_def)

lemma vos_rep_null: "vos_rep L l xs \<Longrightarrow> n \<in> set xs \<Longrightarrow> n \<noteq> NULL"
  by (metis vos_rep_def list.set_intros(2))

lemma vos_rep_count: "vos_rep L l xs \<Longrightarrow> vcount L = of_nat (length xs)"
  by (simp add: vos_rep_def)

text \<open>An operation that returns with the mutex released, a new sequence in memory and its count.\<close>

lemma vos_rep_result:
  assumes "vos_rep L l xs" and "dll l' (anchor L) ys" and "\<forall>y \<in> set ys. y \<noteq> NULL"
    and "r = Some (st, out, Some (mutex_unlock (L\<lparr>mutex := True, vcount := n\<rparr>)), l')"
    and "n = of_nat (length ys)"
  shows "\<exists>L1 l1. r = Some (st, out, Some L1, l1) \<and> vos_rep L1 l1 ys \<and> anchor L1 = anchor L"
  using assms by (auto simp: vos_rep_def mutex_unlock_def)

lemma mutex_unlock_rep [simp]: "vos_rep L l xs \<Longrightarrow> mutex_unlock (L\<lparr>mutex := b\<rparr>) = L"
  by (simp add: vos_rep_def mutex_unlock_def)

text \<open>
  The client's view: the kernel functions keep their contract, and the lists built on them behave as
  two-ended queues.
\<close>

locale vos_kernel =
  link_prims "INIT_LIST_HEAD K" "list_add K" "list_add_tail K" "list_del K" "list_empty K" "list_for_each K"
  for K :: list_api
begin

lemma insert_front_rep:
  assumes "vos_rep L l xs" and "n \<notin> set (NULL # anchor L # xs)"
  shows "\<exists>L1 l1. vos_list_insert_front K 0 (Some L) n l = Some (VOS_STATUS_SUCCESS, (), Some L1, l1) \<and>
    vos_rep L1 l1 (n # xs) \<and> anchor L1 = anchor L"
proof (rule vos_rep_result [OF assms(1)])
  show "dll (list_add K n (anchor L) l) (anchor L) (n # xs)"
    using assms by (intro add_front vos_rep_dll) auto
qed (use assms in \<open>auto simp: vos_list_insert_front_def guard_simps vos_rep_count add.commute dest: vos_rep_null\<close>)

lemma insert_back_rep:
  assumes "vos_rep L l xs" and "n \<notin> set (NULL # anchor L # xs)"
  shows "\<exists>L1 l1. vos_list_insert_back K 0 (Some L) n l = Some (VOS_STATUS_SUCCESS, (), Some L1, l1) \<and>
    vos_rep L1 l1 (xs @ [n]) \<and> anchor L1 = anchor L"
proof (rule vos_rep_result [OF assms(1)])
  show "dll (list_add_tail K n (anchor L) l) (anchor L) (xs @ [n])"
    using assms by (intro add_back vos_rep_dll) auto
qed (use assms in \<open>auto simp: vos_list_insert_back_def guard_simps vos_rep_count add.commute dest: vos_rep_null\<close>)

lemma remove_front_rep:
  assumes "vos_rep L l (x # xs)"
  shows "\<exists>L1 l1. vos_list_remove_front K 0 (Some L) (Some p) l = Some (VOS_STATUS_SUCCESS, Some x, Some L1, l1) \<and>
    vos_rep L1 l1 xs \<and> anchor L1 = anchor L"
proof (rule vos_rep_result [OF assms])
  show "dll (list_del K (nxt l (anchor L)) l) (anchor L) xs"
    using assms by (intro del_front vos_rep_dll)
qed (use assms is_empty [OF vos_rep_dll [OF assms]] dll_nxt_head [OF vos_rep_dll [OF assms]]
      in \<open>auto simp: vos_list_remove_front_def guard_simps vos_rep_count add.commute dest: vos_rep_null\<close>)

lemma remove_back_rep:
  assumes "vos_rep L l (xs @ [x])"
  shows "\<exists>L1 l1. vos_list_remove_back K 0 (Some L) (Some p) l = Some (VOS_STATUS_SUCCESS, Some x, Some L1, l1) \<and>
    vos_rep L1 l1 xs \<and> anchor L1 = anchor L"
proof (rule vos_rep_result [OF assms])
  show "dll (list_del K (prv l (anchor L)) l) (anchor L) xs"
    using assms by (intro del_back vos_rep_dll)
qed (use assms is_empty [OF vos_rep_dll [OF assms]] dll_prv_head [OF vos_rep_dll [OF assms]]
      in \<open>auto simp: vos_list_remove_back_def guard_simps vos_rep_count add.commute dest: vos_rep_null\<close>)

lemma empty_rep:
  assumes "vos_rep L l []"
  shows "vos_list_remove_front K 0 (Some L) p l = Some (if p = None then VOS_STATUS_E_FAULT else VOS_STATUS_E_EMPTY, p, Some L, l)"
    and "vos_list_remove_back K 0 (Some L) p l = Some (if p = None then VOS_STATUS_E_FAULT else VOS_STATUS_E_EMPTY, p, Some L, l)"
    and "vos_list_peek_front K 0 (Some L) p l = Some (if p = None then VOS_STATUS_E_FAULT else VOS_STATUS_E_EMPTY, p, Some L, l)"
    and "vos_list_peek_back K 0 (Some L) p l = Some (if p = None then VOS_STATUS_E_FAULT else VOS_STATUS_E_EMPTY, p, Some L, l)"
  using assms is_empty [OF vos_rep_dll [OF assms]]
  by (auto simp: vos_list_op_defs vos_list_enter_def mutex_unlock_def vos_rep_def)

text \<open>The search of the operations on a given node: found, or \<^verbatim>\<open>E_INVAL\<close> with the mutex still held.\<close>

lemma locate_rep:
  assumes "vos_rep L l xs"
  shows "vos_list_locate K (L\<lparr>mutex := True\<rparr>) n out l body =
    (if xs = [] then Some (VOS_STATUS_E_EMPTY, out, Some L, l)
     else if n \<in> set xs then body else Some (VOS_STATUS_E_INVAL, out, Some (L\<lparr>mutex := True\<rparr>), l))"
  using is_empty [OF vos_rep_dll [OF assms]] search [OF vos_rep_dll [OF assms], of "\<lambda>x. x = n"] assms
  by (auto simp: vos_list_locate_def)

lemma peek_next_rep:
  assumes "vos_rep L l (us @ e # vs)"
  shows "vos_list_peek_next K 0 (Some L) e (Some p) l =
    Some (if vs = [] then (VOS_STATUS_E_EMPTY, Some p, Some L, l) else (VOS_STATUS_SUCCESS, Some (hd vs), Some L, l))"
proof -
  have "e \<noteq> NULL" using assms by (auto simp: vos_rep_def)
  moreover have "vs \<noteq> [] \<Longrightarrow> hd vs \<noteq> anchor L"
    using dll_distinct [OF vos_rep_dll [OF assms]] by (cases vs) auto
  ultimately show ?thesis
    using assms dll_nxt_node [OF vos_rep_dll [OF assms]]
    by (auto simp: vos_list_peek_next_def guard_simps locate_rep)
qed

lemma peek_prev_rep:
  assumes "vos_rep L l (us @ e # vs)"
  shows "vos_list_peek_prev K 0 (Some L) e (Some p) l =
    Some (if us = [] then (VOS_STATUS_E_EMPTY, Some p, Some L, l) else (VOS_STATUS_SUCCESS, Some (last us), Some L, l))"
proof -
  have "e \<noteq> NULL" using assms by (auto simp: vos_rep_def)
  moreover have "anchor L \<notin> set us" using dll_distinct [OF vos_rep_dll [OF assms]] by simp
  then have "us \<noteq> [] \<Longrightarrow> last us \<noteq> anchor L" by (metis last_in_set)
  ultimately show ?thesis
    using assms dll_prv_node [OF vos_rep_dll [OF assms]]
    by (auto simp: vos_list_peek_prev_def guard_simps locate_rep)
qed

lemma insert_before_rep:
  assumes "vos_rep L l (us @ e # vs)" and "n \<notin> set (NULL # anchor L # us @ e # vs)"
  shows "\<exists>L1 l1. vos_list_insert_before K 0 (Some L) n e l = Some (VOS_STATUS_SUCCESS, (), Some L1, l1) \<and>
    vos_rep L1 l1 (us @ e # n # vs) \<and> anchor L1 = anchor L"
proof (rule vos_rep_result [OF assms(1)])
  show "dll (list_add K n e l) (anchor L) (us @ e # n # vs)"
    using assms by (intro add_after_node vos_rep_dll) auto
qed (use assms vos_rep_null [OF assms(1)]
      in \<open>auto simp: vos_list_insert_before_def guard_simps locate_rep vos_rep_count add.commute\<close>)

lemma insert_after_rep:
  assumes "vos_rep L l (us @ e # vs)" and "n \<notin> set (NULL # anchor L # us @ e # vs)"
  shows "\<exists>L1 l1. vos_list_insert_after K 0 (Some L) n e l = Some (VOS_STATUS_SUCCESS, (), Some L1, l1) \<and>
    vos_rep L1 l1 (us @ n # e # vs) \<and> anchor L1 = anchor L"
proof (rule vos_rep_result [OF assms(1)])
  show "dll (list_add_tail K n e l) (anchor L) (us @ n # e # vs)"
    using assms by (intro add_before_node vos_rep_dll) auto
qed (use assms vos_rep_null [OF assms(1)]
      in \<open>auto simp: vos_list_insert_after_def guard_simps locate_rep vos_rep_count add.commute\<close>)

lemma remove_node_rep:
  assumes "vos_rep L l xs" and "n \<in> set xs"
  shows "\<exists>L1 l1. vos_list_remove_node K 0 (Some L) n l = Some (VOS_STATUS_SUCCESS, (), Some L1, l1) \<and>
    vos_rep L1 l1 (remove1 n xs) \<and> anchor L1 = anchor L"
proof (rule vos_rep_result [OF assms(1)])
  show "dll (list_del K n l) (anchor L) (remove1 n xs)"
    using assms by (intro del_member vos_rep_dll)
  show "vcount L - 1 = of_nat (length (remove1 n xs))"
    using length_pos_if_in_set [OF assms(2)]
    by (simp add: vos_rep_count [OF assms(1)] length_remove1 assms(2) of_nat_diff Suc_leI)
  have "xs \<noteq> []" using assms(2) by auto
  then show "vos_list_remove_node K 0 (Some L) n l = Some (VOS_STATUS_SUCCESS, (),
      Some (mutex_unlock (L\<lparr>mutex := True, vcount := vcount L - 1\<rparr>)), list_del K n l)"
    using assms vos_rep_null [OF assms]
    by (simp add: vos_list_remove_node_def guard_simps locate_rep)
qed (use vos_rep_null [OF assms(1)] set_remove1_subset [of n xs] in blast)

end

section \<open>The list as a two-ended queue\<close>

type_synonym vos_state = "vos_list \<times> links"

definition vos_put :: "(vos_list option \<Rightarrow> addr \<Rightarrow> links \<Rightarrow> unit vos_res) \<Rightarrow> addr \<Rightarrow> vos_state \<Rightarrow> vos_state option" where
  "vos_put ins n s = (case ins (Some (fst s)) n (snd s) of
     Some (VOS_STATUS_SUCCESS, _, Some L, l) \<Rightarrow> Some (L, l) | _ \<Rightarrow> None)"

text \<open>The cell the removed node is stored in is initialised with the null pointer by the caller.\<close>

definition vos_get :: "(vos_list option \<Rightarrow> addr option \<Rightarrow> links \<Rightarrow> addr option vos_res) \<Rightarrow> vos_state
    \<Rightarrow> (addr \<times> vos_state) option" where
  "vos_get rem s = (case rem (Some (fst s)) (Some NULL) (snd s) of
     Some (_, Some n, Some L, l) \<Rightarrow> Some (n, L, l) | _ \<Rightarrow> None)"

definition vos_queue :: "vos_state \<Rightarrow> addr list \<Rightarrow> bool" where
  "vos_queue s xs \<longleftrightarrow> vos_rep (fst s) (snd s) xs"

definition vos_avail :: "vos_state \<Rightarrow> addr \<Rightarrow> bool" where
  "vos_avail s n \<longleftrightarrow> n \<noteq> NULL \<and> n \<noteq> anchor (fst s)"

lemmas vos_deque_defs = vos_put_def vos_get_def vos_queue_def vos_avail_def

sublocale vos_kernel \<subseteq> vosq: node_deque vos_queue vos_avail
  "vos_put (vos_list_insert_front K 0)" "vos_put (vos_list_insert_back K 0)"
  "vos_get (vos_list_remove_front K 0)" "vos_get (vos_list_remove_back K 0)"
proof (unfold_locales, goal_cases)
  case (1 s xs n)
  then show ?case using insert_front_rep [of "fst s" "snd s" xs n] by (auto simp: vos_deque_defs fun_eq_iff)
next
  case (2 s xs n)
  then show ?case using insert_back_rep [of "fst s" "snd s" xs n] by (auto simp: vos_deque_defs fun_eq_iff)
next
  case (3 s x xs)
  then show ?case using remove_front_rep [of "fst s" "snd s" x xs NULL] by (auto simp: vos_deque_defs fun_eq_iff)
next
  case (4 s xs x)
  then show ?case using remove_back_rep [of "fst s" "snd s" xs x NULL] by (auto simp: vos_deque_defs fun_eq_iff)
next
  case (5 s)
  then show ?case using empty_rep(1) [of "fst s" "snd s" "Some NULL"] by (simp add: vos_deque_defs)
next
  case (6 s)
  then show ?case using empty_rep(2) [of "fst s" "snd s" "Some NULL"] by (simp add: vos_deque_defs)
qed

context vos_kernel
begin

lemmas queue_fifo = vosq.fifo
lemmas queue_lifo = vosq.lifo

end

text \<open>
  The link primitives of csrLinkList.c keep the same contract, so they can stand for the kernel's.
\<close>

definition csr_api :: list_api where
  "csr_api = \<lparr>INIT_LIST_HEAD = csrListInit, list_add = (\<lambda>n p. csrListInsertHead p n),
     list_add_tail = (\<lambda>n p. csrListInsertTail p n), list_del = csrListRemoveEntry,
     list_empty = csrIsListEmpty, list_for_each = (\<lambda>l h P. list_search l h P (nxt l h))\<rparr>"

lemma csr_api_kernel: "vos_kernel csr_api"
  unfolding vos_kernel_def csr_api_def list_api.simps by (rule csr.link_prims_axioms)

interpretation csr_kernel: vos_kernel csr_api
  by (rule csr_api_kernel)

section \<open>Properties\<close>

text \<open>
  C8: the vOSS list is a queue and a stack. For any kernel list functions that keep their contract,
  nodes inserted at the back leave at the front in the order of insertion, and nodes inserted at
  the front leave there in the reverse order.
\<close>

theorem vos_list_fifo_lifo:
  assumes "vos_kernel K" and "vos_queue s xs" and "\<forall>n \<in> set ns. vos_avail s n" and "distinct (xs @ ns)"
  shows "(\<exists>t u. push_all (vos_put (vos_list_insert_back K 0)) ns s = Some t \<and>
      pop_all (vos_get (vos_list_remove_front K 0)) (length (xs @ ns)) t = Some (xs @ ns, u) \<and> vos_queue u []) \<and>
    (\<exists>t u. push_all (vos_put (vos_list_insert_front K 0)) ns s = Some t \<and>
      pop_all (vos_get (vos_list_remove_front K 0)) (length (rev ns @ xs)) t = Some (rev ns @ xs, u) \<and> vos_queue u [])"
proof -
  have "distinct (rev ns @ xs)" using assms(4) by (simp add: Int_commute)
  then show ?thesis
    using vos_kernel.queue_fifo [OF assms] vos_kernel.queue_lifo [OF assms(1-3)] by blast
qed

definition sample_vos :: "vos_list \<times> links" where
  "sample_vos = (\<lparr>anchor = 1, vcount = 0, mutex = False, cookie = VOS_LIST_COOKIE\<rparr>,
     csrListInit 1 \<lparr>nxt = (\<lambda>_. 0), prv = (\<lambda>_. 0)\<rparr>)"

lemma sample_vos_queue: "vos_queue sample_vos []"
  by (simp add: vos_queue_def vos_rep_def sample_vos_def csrListInit_dll)

theorem vos_list_fifo_lifo_witness:
  "\<exists>t u. push_all (vos_put (vos_list_insert_back csr_api 0)) [10, 20, 30] sample_vos = Some t \<and>
     pop_all (vos_get (vos_list_remove_front csr_api 0)) 3 t = Some ([10, 20, 30], u) \<and> vos_queue u []"
  using vos_list_fifo_lifo [OF csr_api_kernel sample_vos_queue, of "[10, 20, 30]"]
  by (simp add: vos_avail_def sample_vos_def numeral_3_eq_3 del: push_all.simps pop_all.simps split_paired_Ex)

text \<open>
  Removal of a given node. A node of the list is taken out, the others keep their order and the
  count goes down by one.
\<close>

theorem vos_list_remove_node_correct:
  assumes "vos_kernel K" and "vos_rep L l xs" and "n \<in> set xs"
  shows "\<exists>L1 l1. vos_list_remove_node K 0 (Some L) n l = Some (VOS_STATUS_SUCCESS, (), Some L1, l1) \<and>
    vos_rep L1 l1 (remove1 n xs)"
  using vos_kernel.remove_node_rep [OF assms] by blast

definition sample_vos_full :: "vos_list \<times> links" where
  "sample_vos_full = ((fst sample_vos)\<lparr>vcount := 2\<rparr>, mlinks sample_full)"

lemma sample_vos_full_rep: "vos_rep (fst sample_vos_full) (snd sample_vos_full) [10, 20]"
  using sample_full_rep by (simp add: vos_rep_def csr_rep_def sample_vos_full_def sample_vos_def sample_list_def)

theorem vos_list_remove_node_correct_witness:
  "\<exists>L1 l1. vos_list_remove_node csr_api 0 (Some (fst sample_vos_full)) 10 (snd sample_vos_full) =
     Some (VOS_STATUS_SUCCESS, (), Some L1, l1) \<and> vos_rep L1 l1 [20]"
  using vos_list_remove_node_correct [OF csr_api_kernel sample_vos_full_rep, of 10] by simp

text \<open>
  C9: a node that is not on the list. The five operations on a given node answer \<^verbatim>\<open>E_INVAL\<close> for a node
  that is not on a non-empty list, and return with the mutex still locked: no later call that waits
  for the mutex returns.
\<close>

theorem vos_list_missing_node_leaves_mutex_locked:
  assumes "vos_kernel K" and "vos_rep L l xs" and "xs \<noteq> []" and "n \<notin> set xs" and "n \<noteq> NULL" and "k \<noteq> NULL"
  shows "\<exists>L1. mutex L1 \<and>
    vos_list_remove_node K 0 (Some L) n l = Some (VOS_STATUS_E_INVAL, (), Some L1, l) \<and>
    vos_list_insert_before K 0 (Some L) k n l = Some (VOS_STATUS_E_INVAL, (), Some L1, l) \<and>
    vos_list_insert_after K 0 (Some L) k n l = Some (VOS_STATUS_E_INVAL, (), Some L1, l) \<and>
    vos_list_peek_next K 0 (Some L) n (Some p) l = Some (VOS_STATUS_E_INVAL, Some p, Some L1, l) \<and>
    vos_list_peek_prev K 0 (Some L) n (Some p) l = Some (VOS_STATUS_E_INVAL, Some p, Some L1, l) \<and>
    vos_list_size 0 (Some L1) (Some v) l = None \<and> vos_list_insert_back K 0 (Some L1) k l = None \<and>
    vos_list_remove_front K 0 (Some L1) (Some p) l = None"
proof -
  have "cookie L = VOS_LIST_COOKIE" using assms(2) by (simp add: vos_rep_def)
  then show ?thesis
    using assms(2-)
    by (intro exI [of _ "L\<lparr>mutex := True\<rparr>"])
      (simp add: vos_list_op_defs vos_list_enter_rep [OF assms(2)] vos_kernel.locate_rep [OF assms(1,2)],
       simp add: vos_list_enter_def)
qed

theorem vos_list_missing_node_leaves_mutex_locked_witness:
  "\<exists>L1. vos_list_remove_node csr_api 0 (Some (fst sample_vos_full)) 30 (snd sample_vos_full) =
     Some (VOS_STATUS_E_INVAL, (), Some L1, snd sample_vos_full) \<and>
     vos_list_insert_back csr_api 0 (Some L1) 40 (snd sample_vos_full) = None"
  using vos_list_missing_node_leaves_mutex_locked [OF csr_api_kernel sample_vos_full_rep, of 30 40 0 0]
  by auto

text \<open>
  Where \<^verbatim>\<open>vos_list_insert_before\<close> and \<^verbatim>\<open>vos_list_insert_after\<close> put the new node. \<^verbatim>\<open>insert_before\<close> calls
  \<^verbatim>\<open>list_add\<close> on the given node and the new node ends up behind it, \<^verbatim>\<open>insert_after\<close> calls
  \<^verbatim>\<open>list_add_tail\<close> and the new node ends up in front of it, as the two peek operations confirm.
\<close>

theorem vos_list_insert_before_after_swapped:
  assumes "vos_kernel K" and "vos_rep L l (us @ e # vs)" and "n \<notin> set (NULL # anchor L # us @ e # vs)"
  shows "(\<exists>L1 l1. vos_list_insert_before K 0 (Some L) n e l = Some (VOS_STATUS_SUCCESS, (), Some L1, l1) \<and>
      vos_rep L1 l1 (us @ e # n # vs) \<and>
      vos_list_peek_next K 0 (Some L1) e (Some p) l1 = Some (VOS_STATUS_SUCCESS, Some n, Some L1, l1)) \<and>
    (\<exists>L1 l1. vos_list_insert_after K 0 (Some L) n e l = Some (VOS_STATUS_SUCCESS, (), Some L1, l1) \<and>
      vos_rep L1 l1 (us @ n # e # vs) \<and>
      vos_list_peek_prev K 0 (Some L1) e (Some p) l1 = Some (VOS_STATUS_SUCCESS, Some n, Some L1, l1))"
proof
  obtain L1 l1 where r: "vos_list_insert_before K 0 (Some L) n e l = Some (VOS_STATUS_SUCCESS, (), Some L1, l1)"
      "vos_rep L1 l1 (us @ e # n # vs)"
    using vos_kernel.insert_before_rep [OF assms] by blast
  then show "\<exists>L1 l1. vos_list_insert_before K 0 (Some L) n e l = Some (VOS_STATUS_SUCCESS, (), Some L1, l1) \<and>
      vos_rep L1 l1 (us @ e # n # vs) \<and>
      vos_list_peek_next K 0 (Some L1) e (Some p) l1 = Some (VOS_STATUS_SUCCESS, Some n, Some L1, l1)"
    using vos_kernel.peek_next_rep [OF assms(1) r(2)] by simp
next
  obtain L1 l1 where r: "vos_list_insert_after K 0 (Some L) n e l = Some (VOS_STATUS_SUCCESS, (), Some L1, l1)"
      "vos_rep L1 l1 (us @ n # e # vs)"
    using vos_kernel.insert_after_rep [OF assms] by blast
  then show "\<exists>L1 l1. vos_list_insert_after K 0 (Some L) n e l = Some (VOS_STATUS_SUCCESS, (), Some L1, l1) \<and>
      vos_rep L1 l1 (us @ n # e # vs) \<and>
      vos_list_peek_prev K 0 (Some L1) e (Some p) l1 = Some (VOS_STATUS_SUCCESS, Some n, Some L1, l1)"
    using vos_kernel.peek_prev_rep [OF assms(1), of L1 l1 "us @ [n]" e vs] by simp
qed

theorem vos_list_insert_before_after_swapped_witness:
  "\<exists>L1 l1. vos_list_insert_before csr_api 0 (Some (fst sample_vos_full)) 15 10 (snd sample_vos_full) =
     Some (VOS_STATUS_SUCCESS, (), Some L1, l1) \<and> vos_rep L1 l1 [10, 15, 20]"
  using vos_list_insert_before_after_swapped
    [of csr_api "fst sample_vos_full" "snd sample_vos_full" "[]" 10 "[20]" 15 0, OF csr_api_kernel]
    sample_vos_full_rep
  by (simp add: sample_vos_full_def sample_vos_def) blast

text \<open>
  the life of a list. Initialising an object that is not a list makes it an empty one; destroying
  is refused while nodes are on it and otherwise clears the cookie, after which every operation is
  refused with \<^verbatim>\<open>E_INVAL\<close>; initialising a live list is refused.
\<close>

theorem vos_list_lifecycle:
  assumes "vos_kernel K" and "cookie L0 \<noteq> VOS_LIST_COOKIE" and "anchor L0 \<noteq> NULL"
    and "vos_rep L l xs" and "length xs < 2 ^ 32"
  shows "(\<exists>L1 l1. vos_list_init K (Some L0) l0 = (VOS_STATUS_SUCCESS, Some L1, l1) \<and> vos_rep L1 l1 []) \<and>
    vos_list_init K (Some L) l = (VOS_STATUS_E_BUSY, Some L, l) \<and>
    (\<exists>L2. vos_list_destroy 0 (Some L) l =
        Some (if xs = [] then VOS_STATUS_SUCCESS else VOS_STATUS_E_BUSY, (), Some L2, l) \<and>
      (if xs = [] then vos_list_insert_back K 0 (Some L2) 5 l = Some (VOS_STATUS_E_INVAL, (), Some L2, l) \<and>
         vos_list_remove_front K 0 (Some L2) (Some p) l = Some (VOS_STATUS_E_INVAL, Some p, Some L2, l)
       else L2 = L))"
proof (intro conjI)
  have "dll (INIT_LIST_HEAD K (anchor L0) l0) (anchor L0) []"
    using assms(1) unfolding vos_kernel_def by (rule link_prims.init)
  then show "\<exists>L1 l1. vos_list_init K (Some L0) l0 = (VOS_STATUS_SUCCESS, Some L1, l1) \<and> vos_rep L1 l1 []"
    using assms(2,3) by (simp add: vos_list_init_def vos_rep_def)
  have c: "cookie L = VOS_LIST_COOKIE" "vcount L = 0 \<longleftrightarrow> xs = []"
    using assms(4,5) unat_word_of_nat [of "length xs", where 'a = 32]
    by (auto simp: vos_rep_def)
  then show "vos_list_init K (Some L) l = (VOS_STATUS_E_BUSY, Some L, l)"
    by (simp add: vos_list_init_def)
  show "\<exists>L2. vos_list_destroy 0 (Some L) l =
        Some (if xs = [] then VOS_STATUS_SUCCESS else VOS_STATUS_E_BUSY, (), Some L2, l) \<and>
      (if xs = [] then vos_list_insert_back K 0 (Some L2) 5 l = Some (VOS_STATUS_E_INVAL, (), Some L2, l) \<and>
         vos_list_remove_front K 0 (Some L2) (Some p) l = Some (VOS_STATUS_E_INVAL, Some p, Some L2, l)
       else L2 = L)"
    using c mutex_unlock_rep [OF assms(4)]
    by (auto simp: vos_list_destroy_def vos_list_enter_rep [OF assms(4)])
      (simp_all add: vos_list_op_defs vos_list_enter_def mutex_unlock_def VOS_LIST_COOKIE_def)
qed

theorem vos_list_lifecycle_witness:
  "\<exists>L1 l1 L2. vos_list_init csr_api (Some ((fst sample_vos)\<lparr>cookie := 0\<rparr>)) (snd sample_vos) =
      (VOS_STATUS_SUCCESS, Some L1, l1) \<and> vos_rep L1 l1 [] \<and>
    vos_list_destroy 0 (Some (fst sample_vos_full)) (snd sample_vos_full) =
      Some (VOS_STATUS_E_BUSY, (), Some L2, snd sample_vos_full)"
  using vos_list_lifecycle [OF csr_api_kernel, of "(fst sample_vos)\<lparr>cookie := 0\<rparr>" "fst sample_vos_full"
      "snd sample_vos_full" "[10, 20]" "snd sample_vos" 0] sample_vos_full_rep
  by (simp add: VOS_LIST_COOKIE_def sample_vos_def)

end
