(* ===== verification/Id_Pool.thy ===== *)
theory Id_Pool
  imports Prelude
begin

text \<open>
  The contract of a pool of identifiers that are handed out and given back: the association
  identifiers of the MAC layer (limAIDmgmt.c) and the transmit descriptors of the data path
  (ol_tx_desc.c) are such pools.
\<close>

section \<open>The contract\<close>

text \<open>
  \<open>free s xs\<close>: in the state \<open>s\<close> the identifiers \<open>xs\<close> are free, in some order of the implementation's
  choice. \<open>alloc\<close> refuses with \<open>None\<close> inside the outer \<open>Some\<close>; the outer \<open>None\<close> would be an access outside
  an array.
\<close>

locale id_pool =
  fixes free :: "'s \<Rightarrow> 'i list \<Rightarrow> bool"
    and ok :: "'s \<Rightarrow> 'i \<Rightarrow> bool"
    and alloc :: "'s \<Rightarrow> ('i option \<times> 's) option"
    and release :: "'i \<Rightarrow> 's \<Rightarrow> 's option"
  assumes free_distinct: "free s xs \<Longrightarrow> distinct xs"
    and free_ok: "free s xs \<Longrightarrow> x \<in> set xs \<Longrightarrow> ok s x"
    and alloc: "free s xs \<Longrightarrow>
      (\<exists>t. alloc s = Some (None, t) \<and> free t xs \<and> ok t = ok s) \<or>
      (\<exists>x t. alloc s = Some (Some x, t) \<and> x \<in> set xs \<and> free t (remove1 x xs) \<and> ok t = ok s)"
    and release: "free s xs \<Longrightarrow> ok s x \<Longrightarrow> x \<notin> set xs \<Longrightarrow>
      \<exists>t ys. release x s = Some t \<and> free t ys \<and> set ys = insert x (set xs) \<and> ok t = ok s"
begin

text \<open>
  The clients' requests in any order; \<open>used\<close> is the set of identifiers handed out and not yet given
  back. A client gives back only what it was handed.
\<close>

inductive pool_run :: "'s \<Rightarrow> 's \<Rightarrow> 'i set \<Rightarrow> bool" for s0 where
  start: "pool_run s0 s0 {}"
| refused: "pool_run s0 s used \<Longrightarrow> alloc s = Some (None, t) \<Longrightarrow> pool_run s0 t used"
| handed: "pool_run s0 s used \<Longrightarrow> alloc s = Some (Some x, t) \<Longrightarrow> pool_run s0 t (insert x used)"
| given_back: "pool_run s0 s used \<Longrightarrow> x \<in> used \<Longrightarrow> release x s = Some t \<Longrightarrow> pool_run s0 t (used - {x})"

text \<open>The free and the used identifiers always partition the ones the pool started with.\<close>

lemma run_partition:
  assumes "pool_run s0 s used" and "free s0 xs0"
  shows "\<exists>xs. free s xs \<and> set xs \<inter> used = {} \<and> set xs \<union> used = set xs0 \<and> ok s = ok s0"
  using assms
proof (induction rule: pool_run.induct)
  case start
  then show ?case by auto
next
  case (refused s used t)
  then obtain xs where xs: "free s xs" "set xs \<inter> used = {}" "set xs \<union> used = set xs0" "ok s = ok s0"
    by blast
  with alloc [OF xs(1)] refused.hyps(2) show ?case by auto
next
  case (handed s used x t)
  then obtain xs where xs: "free s xs" "set xs \<inter> used = {}" "set xs \<union> used = set xs0" "ok s = ok s0"
    by blast
  with alloc [OF xs(1)] handed.hyps(2)
  have t: "x \<in> set xs" "free t (remove1 x xs)" "ok t = ok s" by auto
  have "set (remove1 x xs) = set xs - {x}" using free_distinct [OF xs(1)] by simp
  with xs t show ?case by (intro exI [of _ "remove1 x xs"]) auto
next
  case (given_back s used x t)
  then obtain xs where xs: "free s xs" "set xs \<inter> used = {}" "set xs \<union> used = set xs0" "ok s = ok s0"
    by blast
  have "ok s x" using free_ok [OF given_back.prems, of x] given_back.hyps(2) xs by auto
  moreover have "x \<notin> set xs" using given_back.hyps(2) xs by auto
  ultimately obtain ys where "free t ys" "set ys = insert x (set xs)" "ok t = ok s"
    using release [OF xs(1)] given_back.hyps(3) by fastforce
  with xs given_back.hyps(2) show ?case by (intro exI [of _ ys]) auto
qed

text \<open>So an identifier is never handed out while somebody still holds it.\<close>

lemma no_double_alloc:
  assumes "pool_run s0 s used" and "free s0 xs0" and "alloc s = Some (Some x, t)"
  shows "x \<in> set xs0 \<and> x \<notin> used"
proof -
  obtain xs where xs: "free s xs" "set xs \<inter> used = {}" "set xs \<union> used = set xs0"
    using run_partition [OF assms(1,2)] by blast
  then show ?thesis using alloc [OF xs(1)] assms(3) by auto
qed

text \<open>No request, in any order, reads or writes outside the pool's memory.\<close>

lemma no_fault:
  assumes "pool_run s0 s used" and "free s0 xs0"
  shows "alloc s \<noteq> None" and "x \<in> used \<Longrightarrow> release x s \<noteq> None"
proof -
  obtain xs where xs: "free s xs" "set xs \<inter> used = {}" "set xs \<union> used = set xs0" "ok s = ok s0"
    using run_partition [OF assms] by blast
  show "alloc s \<noteq> None" using alloc [OF xs(1)] by auto
  show "release x s \<noteq> None" if "x \<in> used"
  proof -
    have "ok s x" using free_ok [OF assms(2), of x] that xs by auto
    moreover have "x \<notin> set xs" using that xs by auto
    ultimately show ?thesis using release [OF xs(1)] by fastforce
  qed
qed

end

end
