(* ===== verification/Lim_Aid.thy ===== *)
theory Lim_Aid
  imports Id_Pool
begin

text \<open>
  The association identifiers of the MAC layer (MAC/src/pe/lim/limAIDmgmt.c): a first-in first-out
  list of free identifiers threaded through a byte array of the session, and the station count over
  all sessions (limSessionUtils.c) that bounds it.
\<close>

section \<open>State\<close>

datatype tLimSystemRole = eLIM_UNKNOWN_ROLE | eLIM_AP_ROLE | eLIM_STA_IN_IBSS_ROLE | eLIM_STA_ROLE
  | eLIM_BT_AMP_STA_ROLE | eLIM_BT_AMP_AP_ROLE | eLIM_P2P_DEVICE_ROLE | eLIM_P2P_DEVICE_GO
  | eLIM_P2P_DEVICE_CLIENT

text \<open>The fields of \<^verbatim>\<open>tPESession\<close> and of \<^verbatim>\<open>pMac->lim\<close> that the identifier management reads and writes.\<close>

record tPESession =
  session_valid :: bool
  limSystemRole :: tLimSystemRole
  gpLimPeerIdxpool :: "u8 list"
  freePeerIdxHead :: u8
  freePeerIdxTail :: u8
  gLimNumOfCurrentSTAs :: u16

record tAniSirLim =
  gLimAssocStaLimit :: u16
  gLimIbssStaLimit :: u8
  gpSession :: "tPESession list"

definition DPH_STA_HASH_INDEX_PEER :: u8 where "DPH_STA_HASH_INDEX_PEER = 1"
definition LIM_START_PEER_IDX :: u8 where "LIM_START_PEER_IDX = 1"

section \<open>Operations\<close>

text \<open>The sum of the 16-bit station counts of the valid sessions, kept in 8 bits.\<close>

definition peGetCurrentSTAsCount :: "tAniSirLim \<Rightarrow> u8" where
  "peGetCurrentSTAsCount lim =
     foldl (\<lambda>staCount S. if session_valid S then staCount + ucast (gLimNumOfCurrentSTAs S) else staCount)
       0 (gpSession lim)"

text \<open>The loop of \<^verbatim>\<open>limInitPeerIdxpool\<close>: every index points to its successor.\<close>

function limInitPeerIdxpool_loop :: "u8 \<Rightarrow> u8 \<Rightarrow> u8 list \<Rightarrow> (u8 \<times> u8 list) option" where
  "limInitPeerIdxpool_loop i maxAssocSta pool =
     (if i < maxAssocSta
      then do { pool \<leftarrow> wr pool (unat i) (i + 1); limInitPeerIdxpool_loop (i + 1) maxAssocSta pool }
      else Some (i, pool))"
  by pat_completeness auto
termination
proof (relation "measure (\<lambda>(i, m, _). unat m - unat i)", goal_cases)
  case 1
  then show ?case by simp
next
  case (2 i m pool pool')
  then have "unat i < unat m" by (simp add: word_less_nat_alt)
  moreover have "unat m < 256" using unat_u8 .
  ultimately show ?case using unat_inc [of i] by simp
qed

declare limInitPeerIdxpool_loop.simps [simp del]

definition limInitPeerIdxpool :: "tAniSirLim \<Rightarrow> tPESession \<Rightarrow> tPESession option" where
  "limInitPeerIdxpool lim S = do {
     pool0 \<leftarrow> wr (gpLimPeerIdxpool S) 0 0;
     let head = (if limSystemRole S = eLIM_STA_ROLE then DPH_STA_HASH_INDEX_PEER + 1
                 else LIM_START_PEER_IDX);
     let maxAssocSta = (if limSystemRole S = eLIM_STA_IN_IBSS_ROLE then gLimIbssStaLimit lim
                        else ucast (gLimAssocStaLimit lim));
     (i, pool) \<leftarrow> limInitPeerIdxpool_loop head maxAssocSta pool0;
     pool \<leftarrow> wr pool (unat i) 0;
     Some (S\<lparr>gpLimPeerIdxpool := pool, freePeerIdxHead := head, freePeerIdxTail := i\<rparr>) }"

text \<open>The two list operations on the session, then the operations with the check of the limit.\<close>

definition limAssignPeerIdx_session :: "tPESession \<Rightarrow> (u16 \<times> tPESession) option" where
  "limAssignPeerIdx_session S =
     (if freePeerIdxHead S \<noteq> 0 then do {
        let peerId = ucast (freePeerIdxHead S);
        head \<leftarrow> rd (gpLimPeerIdxpool S) (unat (freePeerIdxHead S));
        Some (peerId, S\<lparr>freePeerIdxHead := head,
                        freePeerIdxTail := (if head = 0 then 0 else freePeerIdxTail S),
                        gLimNumOfCurrentSTAs := gLimNumOfCurrentSTAs S + 1\<rparr>) }
      else Some (0, S))"

definition limAssignPeerIdx :: "tAniSirLim \<Rightarrow> nat \<Rightarrow> (u16 \<times> tAniSirLim) option" where
  "limAssignPeerIdx lim n =
     (if ucast (peGetCurrentSTAsCount lim) \<ge> gLimAssocStaLimit lim then Some (0, lim)
      else do {
        S \<leftarrow> rd (gpSession lim) n;
        (peerId, S) \<leftarrow> limAssignPeerIdx_session S;
        Some (peerId, lim\<lparr>gpSession := (gpSession lim)[n := S]\<rparr>) })"

definition limReleasePeerIdx :: "u16 \<Rightarrow> tPESession \<Rightarrow> tPESession option" where
  "limReleasePeerIdx peerIdx S = do {
     let S = S\<lparr>gLimNumOfCurrentSTAs := gLimNumOfCurrentSTAs S - 1\<rparr>;
     let p = (ucast peerIdx :: u8);
     S \<leftarrow> (if freePeerIdxTail S \<noteq> 0 then do {
              pool \<leftarrow> wr (gpLimPeerIdxpool S) (unat (freePeerIdxTail S)) p;
              Some (S\<lparr>gpLimPeerIdxpool := pool, freePeerIdxTail := p\<rparr>) }
           else Some (S\<lparr>freePeerIdxTail := p, freePeerIdxHead := p\<rparr>));
     pool \<leftarrow> wr (gpLimPeerIdxpool S) (unat p) 0;
     Some (S\<lparr>gpLimPeerIdxpool := pool\<rparr>) }"

section \<open>The list of free identifiers\<close>

text \<open>
  \<open>chain pool h xs\<close>: starting from \<open>h\<close> and following the array, the indices \<open>xs\<close> come up and then 0.
\<close>

fun chain :: "u8 list \<Rightarrow> u8 \<Rightarrow> u8 list \<Rightarrow> bool" where
  "chain pool h [] \<longleftrightarrow> h = 0"
| "chain pool h (x # xs) \<longleftrightarrow> h = x \<and> x \<noteq> 0 \<and> unat x < length pool \<and> chain pool (pool ! unat x) xs"

definition idx_free :: "tPESession \<Rightarrow> u8 list \<Rightarrow> bool" where
  "idx_free S xs \<longleftrightarrow> distinct xs \<and> chain (gpLimPeerIdxpool S) (freePeerIdxHead S) xs \<and>
     freePeerIdxTail S = (if xs = [] then 0 else last xs)"

lemma chain_nonzero: "chain pool h xs \<Longrightarrow> x \<in> set xs \<Longrightarrow> x \<noteq> 0 \<and> unat x < length pool"
  by (induction xs arbitrary: h) auto

lemma chain_update:
  "chain pool h xs \<Longrightarrow> k \<notin> set xs \<Longrightarrow> chain (pool[unat k := v]) h xs"
proof (induction xs arbitrary: h)
  case (Cons x xs)
  then have "unat k \<noteq> unat x" by auto
  with Cons show ?case by simp
qed simp

lemma chain_snoc:
  assumes "chain pool h (xs @ [t])" and "distinct (xs @ [t])" and "p \<notin> set (0 # xs @ [t])"
    and "unat p < length pool"
  shows "chain (pool[unat t := p, unat p := 0]) h (xs @ [t, p])"
  using assms
proof (induction xs arbitrary: h)
  case Nil
  then have "unat p \<noteq> unat t" by simp
  with Nil show ?case by simp
next
  case (Cons x xs)
  then have "unat p \<noteq> unat x" "unat t \<noteq> unat x" by auto
  with Cons show ?case by simp
qed

text \<open>Handing out takes the first free identifier, giving back appends at the end.\<close>

lemma limAssignPeerIdx_session_eq:
  assumes "idx_free S (x # xs)"
  shows "\<exists>S1. limAssignPeerIdx_session S = Some (ucast x, S1) \<and> idx_free S1 xs \<and>
    length (gpLimPeerIdxpool S1) = length (gpLimPeerIdxpool S) \<and> session_valid S1 = session_valid S \<and>
    gLimNumOfCurrentSTAs S1 = gLimNumOfCurrentSTAs S + 1"
proof -
  have "gpLimPeerIdxpool S ! unat x = 0 \<longleftrightarrow> xs = []"
    using assms by (cases xs) (auto simp: idx_free_def)
  then show ?thesis using assms by (auto simp: idx_free_def limAssignPeerIdx_session_def)
qed

lemma limAssignPeerIdx_session_empty: "idx_free S [] \<Longrightarrow> limAssignPeerIdx_session S = Some (0, S)"
  by (simp add: idx_free_def limAssignPeerIdx_session_def)

lemma limReleasePeerIdx_eq:
  assumes "idx_free S xs" and "x \<notin> set (0 # xs)" and "unat x < length (gpLimPeerIdxpool S)"
  shows "\<exists>S1. limReleasePeerIdx (ucast x) S = Some S1 \<and> idx_free S1 (xs @ [x]) \<and>
    length (gpLimPeerIdxpool S1) = length (gpLimPeerIdxpool S) \<and> session_valid S1 = session_valid S \<and>
    gLimNumOfCurrentSTAs S1 = gLimNumOfCurrentSTAs S - 1"
proof (cases xs rule: rev_cases)
  case Nil
  then show ?thesis using assms by (auto simp: idx_free_def limReleasePeerIdx_def Let_def)
next
  case (snoc ys t)
  have "t \<noteq> 0 \<and> unat t < length (gpLimPeerIdxpool S)"
    using assms(1) snoc chain_nonzero [of "gpLimPeerIdxpool S" _ xs t] by (auto simp: idx_free_def)
  moreover have "chain ((gpLimPeerIdxpool S)[unat t := x, unat x := 0]) (freePeerIdxHead S) (ys @ [t, x])"
    using assms snoc by (intro chain_snoc) (auto simp: idx_free_def)
  ultimately show ?thesis using assms snoc by (auto simp: idx_free_def limReleasePeerIdx_def Let_def)
qed

text \<open>The initial list: the identifiers from the start index to the limit.\<close>

definition upto_u8 :: "u8 \<Rightarrow> u8 \<Rightarrow> u8 list" where
  "upto_u8 a b = map of_nat [unat a..<Suc (unat b)]"

lemma upto_u8_Cons:
  assumes "i < m" shows "upto_u8 i m = i # upto_u8 (i + 1) m"
proof -
  have "unat i < unat m" "unat (i + 1) = Suc (unat i)"
    using assms unat_u8 [of m] by (auto simp: word_less_nat_alt unat_inc)
  then show ?thesis by (simp add: upto_u8_def upt_conv_Cons)
qed

lemma upto_u8_self: "upto_u8 i i = [i]"
  by (simp add: upto_u8_def)

lemma set_upto_u8: "set (upto_u8 a b) = {a..b}"
proof -
  have "x \<in> set (upto_u8 a b) \<longleftrightarrow> a \<le> x \<and> x \<le> b" for x
  proof
    assume "x \<in> set (upto_u8 a b)"
    then obtain k where k: "x = of_nat k" "unat a \<le> k" "k \<le> unat b" by (auto simp: upto_u8_def)
    then have "unat x = k" using unat_u8 [of b] by (simp add: unat_word_of_nat)
    with k show "a \<le> x \<and> x \<le> b" by (simp add: word_le_nat_alt)
  next
    assume "a \<le> x \<and> x \<le> b"
    then have "unat x \<in> set [unat a..<Suc (unat b)]" by (auto simp: word_le_nat_alt)
    then have "of_nat (unat x) \<in> set (upto_u8 a b)" unfolding upto_u8_def set_map by (rule imageI)
    then show "x \<in> set (upto_u8 a b)" by simp
  qed
  then show ?thesis by (simp add: set_eq_iff)
qed

lemma distinct_upto_u8: "distinct (upto_u8 a b)"
proof -
  have "inj_on (of_nat :: nat \<Rightarrow> u8) {unat a..<Suc (unat b)}"
  proof (rule inj_onI)
    fix j k
    assume "j \<in> {unat a..<Suc (unat b)}" "k \<in> {unat a..<Suc (unat b)}" and e: "(of_nat j :: u8) = of_nat k"
    then have "j < 256" "k < 256" using unat_u8 [of b] by auto
    then have "unat (of_nat j :: u8) = j" "unat (of_nat k :: u8) = k"
      by (auto intro!: unat_word_of_nat)
    with e show "j = k" by metis
  qed
  then show ?thesis by (simp add: upto_u8_def distinct_map del: upt_Suc)
qed

lemma limInitPeerIdxpool_loop_eq:
  assumes "i \<le> m" and "i \<noteq> 0" and "unat m < length pool"
  shows "\<exists>pool'. limInitPeerIdxpool_loop i m pool = Some (m, pool') \<and> length pool' = length pool \<and>
    chain (pool'[unat m := 0]) i (upto_u8 i m) \<and> (\<forall>j < unat i. pool' ! j = pool ! j)"
  using assms
proof (induction i m pool rule: limInitPeerIdxpool_loop.induct)
  case (1 i m pool)
  show ?case
  proof (cases "i < m")
    case False
    then have "i = m" using "1.prems"(1) by simp
    then show ?thesis using "1.prems" by (simp add: limInitPeerIdxpool_loop.simps upto_u8_self)
  next
    case True
    let ?pool = "pool[unat i := i + 1]"
    have u: "unat i < unat m" "unat (i + 1) = Suc (unat i)"
      using True unat_u8 [of m] by (auto simp: word_less_nat_alt unat_inc)
    then have w: "wr pool (unat i) (i + 1) = Some ?pool" using "1.prems"(3) by simp
    have "i + 1 \<le> m" "i + 1 \<noteq> 0" using u by (auto simp: word_le_nat_alt word_unat_eq_iff)
    then obtain pool' where p: "limInitPeerIdxpool_loop (i + 1) m ?pool = Some (m, pool')"
        "length pool' = length pool" "chain (pool'[unat m := 0]) (i + 1) (upto_u8 (i + 1) m)"
        "\<forall>j < Suc (unat i). pool' ! j = ?pool ! j"
      using "1.IH" [OF True w] "1.prems"(3) u by auto
    then have "pool' ! unat i = i + 1" using "1.prems"(3) u by simp
    then show ?thesis
      using p u w True "1.prems" by (simp add: limInitPeerIdxpool_loop.simps [of i m pool] upto_u8_Cons)
  qed
qed

text \<open>The range of identifiers of a session, by its role and the limits.\<close>

definition first_idx :: "tPESession \<Rightarrow> u8" where
  "first_idx S = (if limSystemRole S = eLIM_STA_ROLE then 2 else 1)"

definition last_idx :: "tAniSirLim \<Rightarrow> tPESession \<Rightarrow> u8" where
  "last_idx lim S = (if limSystemRole S = eLIM_STA_IN_IBSS_ROLE then gLimIbssStaLimit lim
     else ucast (gLimAssocStaLimit lim))"

lemma limInitPeerIdxpool_eq:
  assumes "first_idx S \<le> last_idx lim S" and "unat (last_idx lim S) < length (gpLimPeerIdxpool S)"
  shows "\<exists>S1. limInitPeerIdxpool lim S = Some S1 \<and> idx_free S1 (upto_u8 (first_idx S) (last_idx lim S)) \<and>
    length (gpLimPeerIdxpool S1) = length (gpLimPeerIdxpool S) \<and> session_valid S1 = session_valid S \<and>
    gLimNumOfCurrentSTAs S1 = gLimNumOfCurrentSTAs S"
proof -
  let ?pool = "(gpLimPeerIdxpool S)[0 := 0]" and ?f = "first_idx S" and ?l = "last_idx lim S"
  have "?f \<noteq> 0" by (simp add: first_idx_def)
  then obtain pool' where p: "limInitPeerIdxpool_loop ?f ?l ?pool = Some (?l, pool')"
      "length pool' = length (gpLimPeerIdxpool S)" "chain (pool'[unat ?l := 0]) ?f (upto_u8 ?f ?l)"
    using limInitPeerIdxpool_loop_eq [OF assms(1), of ?pool] assms(2) by auto
  have w: "wr (gpLimPeerIdxpool S) 0 0 = Some ?pool" using assms(2) by (intro wr_in) linarith
  have l: "upto_u8 ?f ?l \<noteq> []" "last (upto_u8 ?f ?l) = ?l"
    using assms(1) by (auto simp: upto_u8_def word_le_nat_alt last_map)
  have "limInitPeerIdxpool lim S = Some (S\<lparr>gpLimPeerIdxpool := pool'[unat ?l := 0],
      freePeerIdxHead := ?f, freePeerIdxTail := ?l\<rparr>)"
    using p(1,2) w assms(2) unfolding limInitPeerIdxpool_def first_idx_def last_idx_def
    by (auto simp: DPH_STA_HASH_INDEX_PEER_def LIM_START_PEER_IDX_def Let_def split: if_splits)
  then show ?thesis using p l distinct_upto_u8 by (simp add: idx_free_def)
qed

section \<open>The identifiers of a session as a pool\<close>

definition aid_alloc :: "nat \<Rightarrow> tAniSirLim \<Rightarrow> (u8 option \<times> tAniSirLim) option" where
  "aid_alloc n lim = do {
     (p, lim) \<leftarrow> limAssignPeerIdx lim n;
     Some (if p = 0 then None else Some (ucast p), lim) }"

definition aid_release :: "nat \<Rightarrow> u8 \<Rightarrow> tAniSirLim \<Rightarrow> tAniSirLim option" where
  "aid_release n x lim = do {
     S \<leftarrow> rd (gpSession lim) n;
     S \<leftarrow> limReleasePeerIdx (ucast x) S;
     Some (lim\<lparr>gpSession := (gpSession lim)[n := S]\<rparr>) }"

definition aid_free :: "nat \<Rightarrow> tAniSirLim \<Rightarrow> u8 list \<Rightarrow> bool" where
  "aid_free n lim xs \<longleftrightarrow> n < length (gpSession lim) \<and> idx_free (gpSession lim ! n) xs"

definition aid_ok :: "nat \<Rightarrow> tAniSirLim \<Rightarrow> u8 \<Rightarrow> bool" where
  "aid_ok n lim x \<longleftrightarrow> x \<noteq> 0 \<and> n < length (gpSession lim) \<and> unat x < length (gpLimPeerIdxpool (gpSession lim ! n))"

lemma ucast_u8_zero: "(ucast (x :: u8) :: u16) = 0 \<longleftrightarrow> x = 0"
  by (metis ucast_u8_u16 unsigned_0)

lemma aid_alloc_eq:
  assumes "aid_free n lim xs"
  shows "(\<exists>t. aid_alloc n lim = Some (None, t) \<and> aid_free n t xs \<and> aid_ok n t = aid_ok n lim) \<or>
    (\<exists>x t. aid_alloc n lim = Some (Some x, t) \<and> x \<in> set xs \<and> aid_free n t (remove1 x xs) \<and> aid_ok n t = aid_ok n lim)"
proof (cases "gLimAssocStaLimit lim \<le> ucast (peGetCurrentSTAsCount lim)")
  case True
  then show ?thesis using assms by (simp add: aid_alloc_def limAssignPeerIdx_def)
next
  case False
  have n: "n < length (gpSession lim)" "idx_free (gpSession lim ! n) xs"
    using assms by (auto simp: aid_free_def)
  show ?thesis
  proof (cases xs)
    case Nil
    then show ?thesis
      using False n limAssignPeerIdx_session_empty [of "gpSession lim ! n"] assms
      by (simp add: aid_alloc_def limAssignPeerIdx_def)
  next
    case (Cons x ys)
    then have x: "x \<noteq> 0" using n(2) by (auto simp: idx_free_def)
    obtain S1 where "limAssignPeerIdx_session (gpSession lim ! n) = Some (ucast x, S1)" "idx_free S1 ys"
        "length (gpLimPeerIdxpool S1) = length (gpLimPeerIdxpool (gpSession lim ! n))"
      using limAssignPeerIdx_session_eq n(2) Cons by blast
    then show ?thesis
      using False n Cons x
      by (simp add: aid_alloc_def limAssignPeerIdx_def ucast_u8_zero aid_free_def aid_ok_def fun_eq_iff)
  qed
qed

lemma aid_release_eq:
  assumes "aid_free n lim xs" and "aid_ok n lim x" and "x \<notin> set xs"
  shows "\<exists>t. aid_release n x lim = Some t \<and> aid_free n t (xs @ [x]) \<and> aid_ok n t = aid_ok n lim"
proof -
  have n: "n < length (gpSession lim)" using assms(1) by (simp add: aid_free_def)
  obtain S1 where "limReleasePeerIdx (ucast x) (gpSession lim ! n) = Some S1" "idx_free S1 (xs @ [x])"
      "length (gpLimPeerIdxpool S1) = length (gpLimPeerIdxpool (gpSession lim ! n))"
    using limReleasePeerIdx_eq [of "gpSession lim ! n" xs x] assms by (auto simp: aid_free_def aid_ok_def)
  then show ?thesis using n by (simp add: aid_release_def aid_free_def aid_ok_def fun_eq_iff)
qed

interpretation aid: id_pool "aid_free n" "aid_ok n" "aid_alloc n" "aid_release n" for n
proof (unfold_locales, goal_cases)
  case (1 s xs)
  then show ?case by (simp add: aid_free_def idx_free_def)
next
  case (2 s xs x)
  then show ?case by (auto simp: aid_free_def idx_free_def aid_ok_def dest: chain_nonzero)
next
  case (3 s xs)
  then show ?case by (rule aid_alloc_eq)
next
  case (4 s xs x)
  then show ?case using aid_release_eq [of n s xs x] by fastforce
qed

section \<open>The number of stations\<close>

text \<open>The stations of all valid sessions, as a number.\<close>

definition sta_of :: "tPESession \<Rightarrow> nat" where
  "sta_of S = (if session_valid S then unat (gLimNumOfCurrentSTAs S) else 0)"

definition sta_total :: "tPESession list \<Rightarrow> nat" where
  "sta_total Ss = sum_list (map sta_of Ss)"

lemma peGetCurrentSTAsCount_foldl:
  "foldl (\<lambda>c S. if session_valid S then c + ucast (gLimNumOfCurrentSTAs S) else c) (of_nat k) Ss
     = (of_nat (k + sta_total Ss) :: u8)"
proof (induction Ss arbitrary: k)
  case Nil
  then show ?case by (simp add: sta_total_def)
next
  case (Cons S Ss)
  have "(ucast w :: u8) = of_nat (unat w)" for w :: u16 by simp
  then show ?case
    using Cons [of "k + unat (gLimNumOfCurrentSTAs S)"] Cons [of k]
    by (simp add: sta_total_def sta_of_def add.assoc)
qed

lemma peGetCurrentSTAsCount_total: "peGetCurrentSTAsCount lim = of_nat (sta_total (gpSession lim))"
  using peGetCurrentSTAsCount_foldl [of 0 "gpSession lim"] by (simp add: peGetCurrentSTAsCount_def)

lemma sta_total_update:
  "n < length Ss \<Longrightarrow> sta_total (Ss[n := S]) + sta_of (Ss ! n) = sta_total Ss + sta_of S"
proof (induction Ss arbitrary: n)
  case (Cons T Ss)
  then show ?case by (cases n) (fastforce simp: sta_total_def)+
qed simp

section \<open>Properties\<close>

text \<open>
  C10: no identifier is handed out twice, and no request leaves the array. Start from a session whose pool
  \<^verbatim>\<open>limInitPeerIdxpool\<close> has set up. In whatever order identifiers are then assigned and those in use given back, the next
  assignment returns and so does the next release of any identifier in use, so that no such sequence ever ends in an
  access outside the array; and an identifier that is assigned lies between the first index of the role and the station
  limit and is not in use.
\<close>

theorem lim_peer_idx_unique:
  assumes "limInitPeerIdxpool lim S = Some S1" and "first_idx S \<le> last_idx lim S"
    and "unat (last_idx lim S) < length (gpLimPeerIdxpool S)"
    and "n < length (gpSession lim0)" and "gpSession lim0 ! n = S1"
    and "aid.pool_run n lim0 lim1 used"
  shows "aid_alloc n lim1 \<noteq> None \<and> (\<forall>x \<in> used. aid_release n x lim1 \<noteq> None) \<and>
    (\<forall>x lim2. aid_alloc n lim1 = Some (Some x, lim2) \<longrightarrow> first_idx S \<le> x \<and> x \<le> last_idx lim S \<and> x \<notin> used)"
proof -
  have f: "aid_free n lim0 (upto_u8 (first_idx S) (last_idx lim S))"
    using limInitPeerIdxpool_eq [OF assms(2,3)] assms(1,4,5) by (simp add: aid_free_def)
  show ?thesis
    using aid.no_fault [OF assms(6) f] aid.no_double_alloc [OF assms(6) f]
    by (auto simp: set_upto_u8)
qed

definition sample_session :: tPESession where
  "sample_session = \<lparr>session_valid = True, limSystemRole = eLIM_AP_ROLE, gpLimPeerIdxpool = [0, 0, 0, 0],
     freePeerIdxHead = 0, freePeerIdxTail = 0, gLimNumOfCurrentSTAs = 0\<rparr>"

definition sample_session_init :: tPESession where
  "sample_session_init = sample_session\<lparr>gpLimPeerIdxpool := [0, 2, 3, 0], freePeerIdxHead := 1, freePeerIdxTail := 3\<rparr>"

definition sample_lim :: tAniSirLim where
  "sample_lim = \<lparr>gLimAssocStaLimit = 3, gLimIbssStaLimit = 3, gpSession = [sample_session_init]\<rparr>"

lemma sample_init: "limInitPeerIdxpool sample_lim sample_session = Some sample_session_init"
  by (simp add: limInitPeerIdxpool_def sample_lim_def sample_session_def sample_session_init_def
      limInitPeerIdxpool_loop.simps LIM_START_PEER_IDX_def wr_def)

theorem lim_peer_idx_unique_witness:
  "\<exists>lim1. aid.pool_run 0 sample_lim lim1 {1} \<and> aid_release 0 1 lim1 \<noteq> None \<and> (\<exists>x lim2. aid_alloc 0 lim1 = Some (Some x, lim2) \<and> x \<notin> {1} \<and> x \<le> 3)"
proof -
  let ?l = "sample_lim\<lparr>gpSession := [sample_session_init\<lparr>freePeerIdxHead := 2, gLimNumOfCurrentSTAs := 1\<rparr>]\<rparr>"
  have a: "aid_alloc 0 sample_lim = Some (Some 1, ?l)"
    by (simp add: aid_alloc_def limAssignPeerIdx_def limAssignPeerIdx_session_def peGetCurrentSTAsCount_def
        sample_lim_def sample_session_init_def sample_session_def)
  have r: "aid.pool_run 0 sample_lim ?l {1}" by (rule aid.pool_run.handed [OF aid.pool_run.start a])
  have b: "\<exists>lim2. aid_alloc 0 ?l = Some (Some 2, lim2)"
    by (simp add: aid_alloc_def limAssignPeerIdx_def limAssignPeerIdx_session_def peGetCurrentSTAsCount_def
        sample_lim_def sample_session_init_def sample_session_def word_le_nat_alt)
  have "(\<forall>x \<in> {1}. aid_release 0 x ?l \<noteq> None) \<and> (\<forall>x lim2. aid_alloc 0 ?l = Some (Some x, lim2) \<longrightarrow>
      first_idx sample_session \<le> x \<and> x \<le> last_idx sample_lim sample_session \<and> x \<notin> {1})"
    by (rule lim_peer_idx_unique [OF sample_init _ _ _ _ r, THEN conjunct2])
      (simp_all add: first_idx_def last_idx_def sample_session_def sample_lim_def)
  then show ?thesis using r b by (fastforce simp: last_idx_def sample_session_def sample_lim_def)
qed

text \<open>
  identifiers are reused in the order in which they were given back, after all the ones that
  have never been used: with the free list \<open>xs\<close>, giving back \<open>x\<close> puts it last, and assigning takes
  the first, counting the station.
\<close>

theorem lim_peer_idx_fifo:
  assumes "idx_free S (y # xs)" and "x \<notin> set (0 # y # xs)" and "unat x < length (gpLimPeerIdxpool S)"
  shows "\<exists>S1 S2. limReleasePeerIdx (ucast x) S = Some S1 \<and> idx_free S1 (y # xs @ [x]) \<and>
    gLimNumOfCurrentSTAs S1 = gLimNumOfCurrentSTAs S - 1 \<and>
    limAssignPeerIdx_session S1 = Some (ucast y, S2) \<and> idx_free S2 (xs @ [x]) \<and>
    gLimNumOfCurrentSTAs S2 = gLimNumOfCurrentSTAs S"
proof -
  obtain S1 where S1: "limReleasePeerIdx (ucast x) S = Some S1" "idx_free S1 (y # xs @ [x])"
      "gLimNumOfCurrentSTAs S1 = gLimNumOfCurrentSTAs S - 1"
    using limReleasePeerIdx_eq [OF assms] by auto
  then show ?thesis using limAssignPeerIdx_session_eq [OF S1(2)] by auto
qed

theorem lim_peer_idx_fifo_witness:
  "\<exists>S1 S2. limReleasePeerIdx 1 (sample_session_init\<lparr>freePeerIdxHead := 2, gLimNumOfCurrentSTAs := 1\<rparr>) = Some S1 \<and>
    limAssignPeerIdx_session S1 = Some (2, S2) \<and> idx_free S2 [3, 1]"
  using lim_peer_idx_fifo [of "sample_session_init\<lparr>freePeerIdxHead := 2, gLimNumOfCurrentSTAs := 1\<rparr>" 2 "[3]" 1]
  by (auto simp: idx_free_def sample_session_init_def sample_session_def)

text \<open>
  The limit on stations. As long as the 8-bit sum over the sessions does not wrap, an assignment
  that succeeds leaves no more stations on all sessions together than the configured limit.
\<close>

theorem lim_assoc_limit:
  assumes "limAssignPeerIdx lim n = Some (p, lim1)" and "p \<noteq> 0" and "sta_total (gpSession lim) < 256"
  shows "sta_total (gpSession lim1) \<le> unat (gLimAssocStaLimit lim)"
proof -
  let ?c = "peGetCurrentSTAsCount lim"
  have "\<not> gLimAssocStaLimit lim \<le> ucast ?c"
    using assms(1,2) by (auto simp: limAssignPeerIdx_def split: if_splits)
  moreover have "take_bit 16 (sta_total (gpSession lim)) = sta_total (gpSession lim)"
    using assms(3) by (intro take_bit_nat_eq_self) simp
  moreover have "unat ?c = sta_total (gpSession lim)"
    using assms(3) by (simp add: peGetCurrentSTAsCount_total unat_word_of_nat)
  ultimately have l: "sta_total (gpSession lim) < unat (gLimAssocStaLimit lim)"
    by (simp add: word_le_nat_alt unsigned_ucast_eq take_bit_word_eq_self)
  obtain S S1 where S: "n < length (gpSession lim)" "S = gpSession lim ! n"
      "limAssignPeerIdx_session S = Some (p, S1)" "gpSession lim1 = (gpSession lim)[n := S1]"
    using assms(1,2) by (auto simp: limAssignPeerIdx_def rd_def split: if_splits bind_splits)
  then have "session_valid S1 = session_valid S" "gLimNumOfCurrentSTAs S1 = gLimNumOfCurrentSTAs S + 1"
    using assms(2) by (auto simp: limAssignPeerIdx_session_def Let_def split: if_splits bind_splits)
  moreover have "unat (gLimNumOfCurrentSTAs S + 1) \<le> Suc (unat (gLimNumOfCurrentSTAs S))"
    by (rule unat_inc_le)
  ultimately show ?thesis
    using sta_total_update [OF S(1), of S1] S(2,4) l by (simp add: sta_of_def split: if_splits)
qed

theorem lim_assoc_limit_witness:
  "\<exists>lim1. limAssignPeerIdx sample_lim 0 = Some (1, lim1) \<and> sta_total (gpSession lim1) \<le> 3"
proof -
  let ?l = "sample_lim\<lparr>gpSession := [sample_session_init\<lparr>freePeerIdxHead := 2, gLimNumOfCurrentSTAs := 1\<rparr>]\<rparr>"
  have a: "limAssignPeerIdx sample_lim 0 = Some (1, ?l)"
    by (simp add: limAssignPeerIdx_def limAssignPeerIdx_session_def peGetCurrentSTAsCount_def
        sample_lim_def sample_session_init_def sample_session_def)
  have "sta_total (gpSession ?l) \<le> unat (gLimAssocStaLimit sample_lim)"
    by (rule lim_assoc_limit [OF a]) (simp_all add: sta_total_def sta_of_def sample_lim_def sample_session_init_def sample_session_def)
  with a show ?thesis by (simp add: sample_lim_def)
qed

end
