(* ===== verification/Key_Table.thy ===== *)
theory Key_Table
  imports Prelude
begin

text \<open>
  The contract of a table that finds an object of the driver by its MAC address: the station table
  of the MAC layer (dphHashTable.c) keeps it.
\<close>

section \<open>The contract\<close>

text \<open>
  \<open>abs s\<close> is the map the table represents; \<open>vok s v\<close> says that \<open>v\<close> names an entry of the table. The
  outer \<open>None\<close> of a result is an access outside an array or a call that does not return; \<open>add\<close> and
  \<open>del\<close> say whether they succeeded.
\<close>

locale key_table =
  fixes inv :: "'s \<Rightarrow> bool"
    and abs :: "'s \<Rightarrow> 'k \<rightharpoonup> 'v"
    and kok :: "'k \<Rightarrow> bool"
    and vok :: "'s \<Rightarrow> 'v \<Rightarrow> bool"
    and lookup :: "'k \<Rightarrow> 's \<Rightarrow> 'v option option"
    and add :: "'k \<Rightarrow> 'v \<Rightarrow> 's \<Rightarrow> (bool \<times> 's) option"
    and del :: "'k \<Rightarrow> 'v \<Rightarrow> 's \<Rightarrow> (bool \<times> 's) option"
  assumes lookup: "inv s \<Longrightarrow> kok k \<Longrightarrow> lookup k s = Some (abs s k)"
    and add: "inv s \<Longrightarrow> kok k \<Longrightarrow> b = (vok s v \<and> v \<notin> ran (abs s) \<and> abs s k = None) \<Longrightarrow>
      \<exists>t. add k v s = Some (b, t) \<and> inv t \<and> vok t = vok s \<and> abs t = (if b then (abs s)(k \<mapsto> v) else abs s)"
    and del: "inv s \<Longrightarrow> kok k \<Longrightarrow> b = (v \<in> ran (abs s) \<and> abs s k \<noteq> None) \<Longrightarrow>
      \<exists>t. del k v s = Some (b, t) \<and> inv t \<and> vok t = vok s \<and> abs t = (if b then (abs s)(k := None) else abs s)"
begin

lemma lookup_after_add:
  assumes "inv s" and "kok k" and "kok j" and "vok s v" and "v \<notin> ran (abs s)" and "abs s k = None"
  shows "\<exists>t. add k v s = Some (True, t) \<and> inv t \<and> lookup j t = Some (if j = k then Some v else abs s j)"
proof -
  obtain t where "add k v s = Some (True, t)" "inv t" "abs t = (abs s)(k \<mapsto> v)"
    using add [OF assms(1,2), of True v] assms by auto
  then show ?thesis using lookup [of t j] assms(3) by simp
qed

lemma lookup_after_del:
  assumes "inv s" and "kok k" and "kok j" and "v \<in> ran (abs s)" and "abs s k \<noteq> None"
  shows "\<exists>t. del k v s = Some (True, t) \<and> inv t \<and> lookup j t = Some (if j = k then None else abs s j)"
proof -
  obtain t where "del k v s = Some (True, t)" "inv t" "abs t = (abs s)(k := None)"
    using del [OF assms(1,2), of True v] assms by auto
  then show ?thesis using lookup [of t j] assms(3) by simp
qed

text \<open>Adding and deleting a key leaves the map as it was.\<close>

lemma add_del_roundtrip:
  assumes "inv s" and "kok k" and "vok s v" and "v \<notin> ran (abs s)" and "abs s k = None"
  shows "\<exists>t u. add k v s = Some (True, t) \<and> del k v t = Some (True, u) \<and> inv u \<and> abs u = abs s"
proof -
  obtain t where t: "add k v s = Some (True, t)" "inv t" "abs t = (abs s)(k \<mapsto> v)"
    using add [OF assms(1,2), of True v] assms by auto
  then have "v \<in> ran (abs t)" "abs t k \<noteq> None" by (auto simp: ran_def)
  then obtain u where "del k v t = Some (True, u)" "inv u" "abs u = (abs t)(k := None)"
    using del [OF t(2) assms(2), of True v] by auto
  with t assms(5) show ?thesis by (simp add: fun_upd_idem)
qed

end

end
