(* ===== verification/Dph_Hash.thy ===== *)
theory Dph_Hash
  imports Key_Table
begin

text \<open>
  The station table of the MAC layer (MAC/src/dph/dphHashTable.c): an array of station nodes,
  indexed by association identifier, with the ones in use linked into hash chains by MAC address. A
  node pointer is \<open>None\<close> (null) or the index of the node. An outer \<open>None\<close> of a result is an access
  outside an array, a division by zero, or a loop that does not end.
\<close>

section \<open>State\<close>

text \<open>
  \<^verbatim>\<open>tDphHashNode\<close>, the fields that dphHashTable.c reads or writes by name, in the order of the
  structure. The fields in front of \<open>nextp\<close> that are left out are only ever set to zero here.
\<close>

record tDphHashNode =
  valid :: bool
  encPolicy :: u8
  added :: bool
  fragSize :: u16
  assocId :: u16
  staIndex :: u16
  staAddr :: mac
  last_assoc_received_time :: u32
  isDisassocDeauthInProgress :: u8
  nextp :: "nat option"
  del_sta_ctx_rssi :: u8

record dphHashTableClass =
  pHashTable :: "nat option list"
  pDphNodeArray :: "tDphHashNode list"
  dsize :: u16

definition HAL_STA_INVALID_IDX :: u16 where "HAL_STA_INVALID_IDX = 0xFF"
definition HAL_ENC_POLICY_NULL :: u8 where "HAL_ENC_POLICY_NULL = 0"

section \<open>Operations\<close>

definition dphCompareMacAddr :: "mac \<Rightarrow> mac \<Rightarrow> bool" where
  "dphCompareMacAddr addr1 addr2 \<longleftrightarrow>
     addr1 ! 0 = addr2 ! 0 \<and> addr1 ! 1 = addr2 ! 1 \<and> addr1 ! 2 = addr2 ! 2 \<and>
     addr1 ! 3 = addr2 ! 3 \<and> addr1 ! 4 = addr2 ! 4 \<and> addr1 ! 5 = addr2 ! 5"

definition dphHashTableClassInit :: "dphHashTableClass \<Rightarrow> dphHashTableClass option" where
  "dphHashTableClassInit T = do {
     h \<leftarrow> for_each [0..<unat (dsize T)] (\<lambda>i h. do { v \<leftarrow> rd h i; wr h i None }) (pHashTable T);
     ns \<leftarrow> for_each [0..<unat (dsize T)]
            (\<lambda>i ns. do { nd \<leftarrow> rd ns i; wr ns i (nd\<lparr>valid := False, added := False, assocId := of_nat i\<rparr>) })
            (pDphNodeArray T);
     Some (T\<lparr>pHashTable := h, pDphNodeArray := ns\<rparr>) }"

definition hashFunction :: "mac \<Rightarrow> u16 \<Rightarrow> u16 option" where
  "hashFunction addr numSta =
     (let sum = foldl (\<lambda>sum i. sum + ucast (addr ! i)) (0 :: u16) [0..<6]
      in if numSta = 0 then None else Some (sum mod numSta))"

partial_function (option) dphLookupHashEntry_loop :: "tDphHashNode list \<Rightarrow> mac \<Rightarrow> nat option \<Rightarrow> nat option option" where
  "dphLookupHashEntry_loop ns a ptr =
     (if ptr = None then Some None
      else do {
        nd \<leftarrow> rd ns (the ptr);
        if dphCompareMacAddr a (staAddr nd) then Some ptr
        else dphLookupHashEntry_loop ns a (nextp nd) })"

text \<open>The second component is the content of \<^verbatim>\<open>*pAssocId\<close> after the call.\<close>

definition dphLookupHashEntry :: "mac \<Rightarrow> u16 \<Rightarrow> dphHashTableClass \<Rightarrow> (nat option \<times> u16) option" where
  "dphLookupHashEntry a pAssocId T = do {
     index \<leftarrow> hashFunction a (dsize T);
     head \<leftarrow> rd (pHashTable T) (unat index);
     ptr \<leftarrow> dphLookupHashEntry_loop (pDphNodeArray T) a head;
     Some (ptr, case ptr of None \<Rightarrow> pAssocId | Some i \<Rightarrow> assocId (pDphNodeArray T ! i)) }"

definition dphGetHashEntry :: "u16 \<Rightarrow> dphHashTableClass \<Rightarrow> nat option option" where
  "dphGetHashEntry peerIdx T =
     (if peerIdx < dsize T
      then do { nd \<leftarrow> rd (pDphNodeArray T) (unat peerIdx);
                Some (if added nd then Some (unat peerIdx) else None) }
      else Some None)"

definition getNode :: "u8 \<Rightarrow> nat" where
  "getNode aid = unat aid"

text \<open>The loop of \<^verbatim>\<open>dphLookupAssocId\<close> counts in 8 bits.\<close>

partial_function (option) dphLookupAssocId_loop :: "dphHashTableClass \<Rightarrow> u16 \<Rightarrow> u16 \<Rightarrow> u8 \<Rightarrow> (u8 \<times> u16) option" where
  "dphLookupAssocId_loop T staIdx aid i =
     (if unat i < unat (dsize T)
      then do {
        nd \<leftarrow> rd (pDphNodeArray T) (unat i);
        if added nd \<and> staIndex nd = staIdx then Some (i, ucast i)
        else dphLookupAssocId_loop T staIdx aid (i + 1) }
      else Some (i, aid))"

definition dphLookupAssocId :: "u16 \<Rightarrow> u16 \<Rightarrow> dphHashTableClass \<Rightarrow> (nat option \<times> u16) option" where
  "dphLookupAssocId staIdx aid T = do {
     (i, aid) \<leftarrow> dphLookupAssocId_loop T staIdx aid 0;
     Some (if unat i = unat (dsize T) then None else Some (unat i), aid) }"

text \<open>
  \<^verbatim>\<open>vos_mem_set\<close> over \<^verbatim>\<open>sizeof (tDphHashNode) - sizeof (tpDphHashNode)\<close> bytes. Behind the pointer \<^verbatim>\<open>next\<close>
  the structure has the byte \<^verbatim>\<open>del_sta_ctx_rssi\<close>, which alignment pads to the size of a pointer, so
  the bytes that are left out are that byte and its padding: \<^verbatim>\<open>next\<close> is cleared.
\<close>

definition clear_node :: "tDphHashNode \<Rightarrow> tDphHashNode" where
  "clear_node nd = nd\<lparr>valid := False, encPolicy := 0, added := False, fragSize := 0, assocId := 0,
     staIndex := 0, staAddr := replicate 6 0, last_assoc_received_time := 0,
     isDisassocDeauthInProgress := 0, nextp := None\<rparr>"

text \<open>\<open>cfg_frag\<close>: what \<^verbatim>\<open>wlan_cfgGetInt\<close> gives for the fragmentation threshold, \<open>None\<close> when it fails.\<close>

definition dphInitStaState :: "u32 option \<Rightarrow> mac \<Rightarrow> u16 \<Rightarrow> bool \<Rightarrow> dphHashTableClass
    \<Rightarrow> (nat option \<times> dphHashTableClass) option" where
  "dphInitStaState cfg_frag a aid validStaIdx T =
     (if aid \<ge> dsize T then Some (None, T)
      else do {
        let i = getNode (ucast aid);
        nd0 \<leftarrow> rd (pDphNodeArray T) i;
        let nd = (clear_node nd0)\<lparr>assocId := aid,
                    staIndex := (if validStaIdx then staIndex nd0 else HAL_STA_INVALID_IDX),
                    staAddr := a\<rparr>;
        let nd = (case cfg_frag of None \<Rightarrow> nd | Some val \<Rightarrow> nd\<lparr>fragSize := ucast val\<rparr>);
        let nd = nd\<lparr>added := True, encPolicy := HAL_ENC_POLICY_NULL, isDisassocDeauthInProgress := 0,
                    last_assoc_received_time := 0, valid := True\<rparr>;
        Some (Some i, T\<lparr>pDphNodeArray := (pDphNodeArray T)[i := nd]\<rparr>) })"

text \<open>The duplicate scan of \<^verbatim>\<open>dphAddHashEntry\<close>: whether there is a hit, or \<open>Inl\<close> for a node linked to itself.\<close>

partial_function (option) dphAddHashEntry_loop ::
  "tDphHashNode list \<Rightarrow> mac \<Rightarrow> u16 \<Rightarrow> nat option \<Rightarrow> (unit + bool) option" where
  "dphAddHashEntry_loop ns a aid ptr =
     (if ptr = None then Some (Inr False)
      else do {
        nd \<leftarrow> rd ns (the ptr);
        if nextp nd = ptr then Some (Inl ())
        else if dphCompareMacAddr a (staAddr nd) \<or> assocId nd = aid then Some (Inr True)
        else dphAddHashEntry_loop ns a aid (nextp nd) })"

definition dphAddHashEntry :: "u32 option \<Rightarrow> mac \<Rightarrow> u16 \<Rightarrow> dphHashTableClass
    \<Rightarrow> (nat option \<times> dphHashTableClass) option" where
  "dphAddHashEntry cfg_frag a aid T = do {
     index \<leftarrow> hashFunction a (dsize T);
     if aid \<ge> dsize T then Some (None, T)
     else do {
       nd \<leftarrow> rd (pDphNodeArray T) (unat aid);
       if added nd then Some (None, T)
       else do {
         head \<leftarrow> rd (pHashTable T) (unat index);
         r \<leftarrow> dphAddHashEntry_loop (pDphNodeArray T) a aid head;
         case r of
           Inl _ \<Rightarrow> Some (None, T)
         | Inr True \<Rightarrow> Some (None, T)
         | Inr False \<Rightarrow> do {
             (p, T) \<leftarrow> dphInitStaState cfg_frag a aid False T;
             case p of
               None \<Rightarrow> Some (None, T)
             | Some _ \<Rightarrow> do {
                 nd \<leftarrow> rd (pDphNodeArray T) (unat aid);
                 head \<leftarrow> rd (pHashTable T) (unat index);
                 Some (Some (unat aid),
                   T\<lparr>pDphNodeArray := (pDphNodeArray T)[unat aid := nd\<lparr>nextp := head\<rparr>],
                     pHashTable := (pHashTable T)[unat index := Some (unat aid)]\<rparr>) } } } } }"

text \<open>The search of \<^verbatim>\<open>dphDeleteHashEntry\<close>: the predecessor and the node, or \<open>Inl\<close> when it loops.\<close>

partial_function (option) dphDeleteHashEntry_loop ::
  "tDphHashNode list \<Rightarrow> mac \<Rightarrow> nat option \<Rightarrow> nat option \<Rightarrow> (unit + (nat option \<times> nat option)) option" where
  "dphDeleteHashEntry_loop ns a prev ptr =
     (if ptr = None then Some (Inr (prev, None))
      else do {
        nd \<leftarrow> rd ns (the ptr);
        if dphCompareMacAddr a (staAddr nd) then Some (Inr (prev, ptr))
        else if prev = ptr then Some (Inl ())
        else dphDeleteHashEntry_loop ns a ptr (nextp nd) })"

definition dphDeleteHashEntry :: "mac \<Rightarrow> u16 \<Rightarrow> dphHashTableClass \<Rightarrow> (tSirRetStatus \<times> dphHashTableClass) option" where
  "dphDeleteHashEntry a aid T = do {
     index \<leftarrow> hashFunction a (dsize T);
     if aid \<ge> dsize T then Some (eSIR_FAILURE, T)
     else do {
       nd \<leftarrow> rd (pDphNodeArray T) (unat aid);
       if \<not> added nd then Some (eSIR_FAILURE, T)
       else do {
         head \<leftarrow> rd (pHashTable T) (unat index);
         r \<leftarrow> dphDeleteHashEntry_loop (pDphNodeArray T) a None head;
         case r of
           Inl _ \<Rightarrow> Some (eSIR_FAILURE, T)
         | Inr (_, None) \<Rightarrow> Some (eSIR_FAILURE, T)
         | Inr (prev, Some i) \<Rightarrow> do {
             nd \<leftarrow> rd (pDphNodeArray T) i;
             let ns = (pDphNodeArray T)[i := nd\<lparr>valid := False, staAddr := replicate 6 0\<rparr>];
             (h, ns) \<leftarrow> (case prev of
                 None \<Rightarrow> Some ((pHashTable T)[unat index := nextp nd], ns)
               | Some p \<Rightarrow> do { pn \<leftarrow> rd ns p; Some (pHashTable T, ns[p := pn\<lparr>nextp := nextp nd\<rparr>]) });
             nd \<leftarrow> rd ns i;
             Some (eSIR_SUCCESS, T\<lparr>pHashTable := h,
               pDphNodeArray := ns[i := nd\<lparr>added := False, isDisassocDeauthInProgress := 0,
                                          last_assoc_received_time := 0, nextp := None\<rparr>]\<rparr>) } } } }"

definition dph_entry_exist :: "mac \<Rightarrow> u16 \<Rightarrow> dphHashTableClass \<Rightarrow> bool option" where
  "dph_entry_exist a aid T = do {
     index \<leftarrow> hashFunction a (dsize T);
     if aid \<ge> dsize T then Some False
     else do {
       nd \<leftarrow> rd (pDphNodeArray T) (unat aid);
       if added nd then Some True
       else do { (ptr, _) \<leftarrow> dphLookupHashEntry a 0 T; Some (ptr \<noteq> None) } } }"

section \<open>The invariant\<close>

fun nchain :: "tDphHashNode list \<Rightarrow> nat option \<Rightarrow> nat list \<Rightarrow> bool" where
  "nchain ns p [] \<longleftrightarrow> p = None"
| "nchain ns p (x # xs) \<longleftrightarrow> p = Some x \<and> x < length ns \<and> nchain ns (nextp (ns ! x)) xs"

definition bucket :: "dphHashTableClass \<Rightarrow> mac \<Rightarrow> nat" where
  "bucket T a = unat (foldl (\<lambda>sum i. sum + ucast (a ! i)) (0 :: u16) [0..<6] mod dsize T)"

text \<open>
  \<open>ch b\<close> is the chain of bucket \<open>b\<close>: the chains hold exactly the nodes that are marked as added, each
  in the bucket of its address, and no two of them have the same address. A table of more than 256
  entries is excluded: \<^verbatim>\<open>getNode\<close> takes an 8-bit index.
\<close>

definition in_use :: "dphHashTableClass \<Rightarrow> nat \<Rightarrow> bool" where
  "in_use T i \<longleftrightarrow> i < unat (dsize T) \<and> added (pDphNodeArray T ! i)"

definition addr_of :: "dphHashTableClass \<Rightarrow> nat \<Rightarrow> mac" where
  "addr_of T i = staAddr (pDphNodeArray T ! i)"

definition dph_shape :: "dphHashTableClass \<Rightarrow> bool" where
  "dph_shape T \<longleftrightarrow> 0 < unat (dsize T) \<and> unat (dsize T) \<le> 256 \<and> unat (dsize T) \<le> length (pHashTable T) \<and>
     unat (dsize T) \<le> length (pDphNodeArray T) \<and>
     (\<forall>i < unat (dsize T). assocId (pDphNodeArray T ! i) = of_nat i)"

definition dph_inv :: "dphHashTableClass \<Rightarrow> (nat \<Rightarrow> nat list) \<Rightarrow> bool" where
  "dph_inv T ch \<longleftrightarrow> dph_shape T \<and>
     (\<forall>b < unat (dsize T). nchain (pDphNodeArray T) (pHashTable T ! b) (ch b) \<and> distinct (ch b) \<and>
        set (ch b) = {i. in_use T i \<and> bucket T (addr_of T i) = b}) \<and>
     (\<forall>i. in_use T i \<longrightarrow> length (addr_of T i) = 6) \<and>
     (\<forall>i j. in_use T i \<longrightarrow> in_use T j \<longrightarrow> addr_of T i = addr_of T j \<longrightarrow> i = j)"

definition dph_ok :: "dphHashTableClass \<Rightarrow> bool" where
  "dph_ok T \<longleftrightarrow> (\<exists>ch. dph_inv T ch)"

text \<open>The table as a map from addresses to association identifiers.\<close>

definition dph_map :: "dphHashTableClass \<Rightarrow> mac \<rightharpoonup> u16" where
  "dph_map T a = map_option of_nat (List.find (\<lambda>i. added (pDphNodeArray T ! i) \<and> addr_of T i = a) [0..<unat (dsize T)])"

lemma find_unique: "i \<in> set xs \<Longrightarrow> P i \<Longrightarrow> (\<And>j. j \<in> set xs \<Longrightarrow> P j \<Longrightarrow> j = i) \<Longrightarrow> List.find P xs = Some i"
proof (induction xs)
  case (Cons x xs)
  show ?case
  proof (cases "P x")
    case True
    then have "x = i" by (intro Cons.prems(3)) simp_all
    with True show ?thesis by simp
  next
    case False
    then have "i \<in> set xs" using Cons.prems(1,2) by auto
    then have "List.find P xs = Some i" using Cons.prems by (intro Cons.IH) simp_all
    with False show ?thesis by simp
  qed
qed simp

lemma dph_map_None: "dph_map T a = None \<longleftrightarrow> (\<forall>i. in_use T i \<longrightarrow> addr_of T i \<noteq> a)"
  by (auto simp: dph_map_def find_None_iff in_use_def)

lemma dph_map_Some:
  assumes "dph_inv T ch" and "in_use T i" and "addr_of T i = a"
  shows "dph_map T a = Some (of_nat i)"
proof -
  have "List.find (\<lambda>i. added (pDphNodeArray T ! i) \<and> addr_of T i = a) [0..<unat (dsize T)] = Some i"
    using assms by (intro find_unique) (auto simp: dph_inv_def in_use_def)
  then show ?thesis by (simp add: dph_map_def)
qed

lemma dph_ran:
  assumes "dph_inv T ch"
  shows "v \<in> ran (dph_map T) \<longleftrightarrow> in_use T (unat v)"
proof
  assume "v \<in> ran (dph_map T)"
  then obtain a i where "List.find (\<lambda>i. added (pDphNodeArray T ! i) \<and> addr_of T i = a) [0..<unat (dsize T)] = Some i"
      "v = of_nat i"
    by (auto simp: ran_def dph_map_def)
  then have "i < unat (dsize T)" "added (pDphNodeArray T ! i)" "v = of_nat i"
    by (auto simp: find_Some_iff)
  moreover from this have "unat v = i" using unat_u16 [of "dsize T"] by (simp add: unat_word_of_nat)
  ultimately show "in_use T (unat v)" by (simp add: in_use_def)
next
  assume "in_use T (unat v)"
  then show "v \<in> ran (dph_map T)"
    using dph_map_Some [OF assms _ refl, of "unat v"] by (auto simp: ran_def)
qed

lemma dphCompareMacAddr_eq:
  "length a = 6 \<Longrightarrow> length b = 6 \<Longrightarrow> dphCompareMacAddr a b \<longleftrightarrow> a = b"
  by (auto simp: dphCompareMacAddr_def numeral_eq_Suc length_Suc_conv)

lemma hashFunction_bucket:
  "dph_shape T \<Longrightarrow> \<exists>w. hashFunction a (dsize T) = Some w \<and> unat w = bucket T a \<and> bucket T a < unat (dsize T)"
  by (auto simp: hashFunction_def bucket_def dph_shape_def Let_def unat_mod)

section \<open>The operations under the invariant\<close>

lemma nchain_frame:
  "nchain ns p xs \<Longrightarrow> length ns' = length ns \<Longrightarrow> (\<And>x. x \<in> set xs \<Longrightarrow> nextp (ns' ! x) = nextp (ns ! x)) \<Longrightarrow>
     nchain ns' p xs"
  by (induction xs arbitrary: p) auto

lemma lookup_loop_chain:
  "nchain ns p xs \<Longrightarrow> dphLookupHashEntry_loop ns a p = Some (List.find (\<lambda>i. dphCompareMacAddr a (staAddr (ns ! i))) xs)"
  by (induction xs arbitrary: p) (auto simp: dphLookupHashEntry_loop.simps)

lemma add_loop_chain:
  "nchain ns p xs \<Longrightarrow> distinct xs \<Longrightarrow> dphAddHashEntry_loop ns a aid p =
     Some (Inr (\<exists>i \<in> set xs. dphCompareMacAddr a (staAddr (ns ! i)) \<or> assocId (ns ! i) = aid))"
proof (induction xs arbitrary: p)
  case Nil
  then show ?case by (simp add: dphAddHashEntry_loop.simps)
next
  case (Cons x xs)
  then have "nextp (ns ! x) \<noteq> Some x" by (cases xs) auto
  then show ?case using Cons by (auto simp: dphAddHashEntry_loop.simps [of ns a aid "Some x"])
qed

lemma delete_loop_miss:
  "nchain ns p xs \<Longrightarrow> distinct xs \<Longrightarrow> (\<forall>x \<in> set xs. prev \<noteq> Some x) \<Longrightarrow>
     (\<forall>x \<in> set xs. \<not> dphCompareMacAddr a (staAddr (ns ! x))) \<Longrightarrow>
     dphDeleteHashEntry_loop ns a prev p = Some (Inr (if xs = [] then prev else Some (last xs), None))"
proof (induction xs arbitrary: p prev)
  case Nil
  then show ?case by (simp add: dphDeleteHashEntry_loop.simps)
next
  case (Cons x xs)
  have "dphDeleteHashEntry_loop ns a (Some x) (nextp (ns ! x)) =
      Some (Inr (if xs = [] then Some x else Some (last xs), None))"
    by (rule Cons.IH) (use Cons.prems in auto)
  with Cons.prems show ?case by (simp add: dphDeleteHashEntry_loop.simps [of ns a prev "Some x"])
qed

lemma delete_loop_hit:
  "nchain ns p (us @ i # vs) \<Longrightarrow> distinct (us @ i # vs) \<Longrightarrow> (\<forall>x \<in> set us. prev \<noteq> Some x) \<Longrightarrow>
     (\<forall>x \<in> set us. \<not> dphCompareMacAddr a (staAddr (ns ! x))) \<Longrightarrow> dphCompareMacAddr a (staAddr (ns ! i)) \<Longrightarrow>
     dphDeleteHashEntry_loop ns a prev p = Some (Inr (if us = [] then prev else Some (last us), Some i))"
proof (induction us arbitrary: p prev)
  case Nil
  then show ?case by (simp add: dphDeleteHashEntry_loop.simps)
next
  case (Cons x us)
  have "dphDeleteHashEntry_loop ns a (Some x) (nextp (ns ! x)) =
      Some (Inr (if us = [] then Some x else Some (last us), Some i))"
    by (rule Cons.IH) (use Cons.prems in auto)
  with Cons.prems show ?case by (simp add: dphDeleteHashEntry_loop.simps [of ns a prev "Some x"])
qed

lemma nchain_unlink:
  "nchain ns p (us @ i # vs) \<Longrightarrow> us \<noteq> [] \<Longrightarrow> length ns' = length ns \<Longrightarrow> distinct (us @ i # vs) \<Longrightarrow>
     nextp (ns' ! last us) = nextp (ns ! i) \<Longrightarrow>
     (\<And>x. x \<in> set (us @ vs) \<Longrightarrow> x \<noteq> last us \<Longrightarrow> nextp (ns' ! x) = nextp (ns ! x)) \<Longrightarrow> nchain ns' p (us @ vs)"
proof (induction us arbitrary: p)
  case (Cons x us)
  show ?case
  proof (cases us)
    case Nil
    have "nchain ns' (nextp (ns ! i)) vs"
      by (rule nchain_frame [of ns]) (use Cons.prems Nil in auto)
    then show ?thesis using Cons.prems Nil by simp
  next
    case (Cons y ys)
    then have "x \<noteq> last us" using Cons.prems(4) by (metis append_Cons distinct.simps(2) in_set_conv_decomp last_in_set list.distinct(1) set_append UnCI)
    then have "nextp (ns' ! x) = nextp (ns ! x)" using Cons.prems(6) [of x] Cons by auto
    moreover have "nchain ns' (nextp (ns ! x)) (us @ vs)"
      by (rule Cons.IH) (use Cons.prems Cons in auto)
    ultimately show ?thesis using Cons.prems by simp
  qed
qed simp

lemma dph_inv_shape: "dph_inv T ch \<Longrightarrow> dph_shape T"
  by (simp add: dph_inv_def)

lemma dph_inv_chain:
  assumes "dph_inv T ch" and "b < unat (dsize T)"
  shows "nchain (pDphNodeArray T) (pHashTable T ! b) (ch b)" and "distinct (ch b)"
    and "i \<in> set (ch b) \<longleftrightarrow> in_use T i \<and> bucket T (addr_of T i) = b"
  using assms by (auto simp: dph_inv_def)

lemma dph_inv_addr:
  assumes "dph_inv T ch" and "in_use T i"
  shows "length (addr_of T i) = 6" and "in_use T j \<Longrightarrow> addr_of T i = addr_of T j \<Longrightarrow> i = j"
  using assms by (auto simp: dph_inv_def)

text \<open>A chain of the bucket of \<open>a\<close> has a node with that address exactly when the table has.\<close>

lemma chain_match:
  assumes "dph_inv T ch" and "length a = 6" and "i \<in> set (ch (bucket T a))"
  shows "dphCompareMacAddr a (staAddr (pDphNodeArray T ! i)) \<longleftrightarrow> addr_of T i = a"
proof -
  have "bucket T a < unat (dsize T)" using hashFunction_bucket [OF dph_inv_shape [OF assms(1)], of a] by blast
  then have "in_use T i" using assms by (auto simp: dph_inv_chain)
  then have "length (addr_of T i) = 6" using dph_inv_addr(1) [OF assms(1)] by blast
  then show ?thesis using assms(2) by (auto simp: dphCompareMacAddr_eq addr_of_def)
qed

lemma dphLookupHashEntry_eq:
  assumes "dph_inv T ch" and "length a = 6"
  shows "dphLookupHashEntry a v T = Some (map_option unat (dph_map T a), case dph_map T a of None \<Rightarrow> v | Some w \<Rightarrow> w)"
proof -
  obtain w where w: "hashFunction a (dsize T) = Some w" "unat w = bucket T a" "bucket T a < unat (dsize T)"
    using hashFunction_bucket [OF dph_inv_shape [OF assms(1)], of a] by blast
  have sh: "unat (dsize T) \<le> length (pHashTable T)" "\<forall>i < unat (dsize T). assocId (pDphNodeArray T ! i) = of_nat i"
    using assms(1) by (auto simp: dph_inv_def dph_shape_def)
  let ?P = "\<lambda>i. dphCompareMacAddr a (staAddr (pDphNodeArray T ! i))"
  have r: "dphLookupHashEntry a v T = (let ptr = List.find ?P (ch (bucket T a)) in
      Some (ptr, case ptr of None \<Rightarrow> v | Some i \<Rightarrow> assocId (pDphNodeArray T ! i)))"
    using w sh(1) lookup_loop_chain [OF dph_inv_chain(1) [OF assms(1) w(3)]]
    by (simp add: dphLookupHashEntry_def Let_def)
  show ?thesis
  proof (cases "dph_map T a")
    case None
    then have "List.find ?P (ch (bucket T a)) = None"
      using chain_match [OF assms] dph_inv_chain(3) [OF assms(1) w(3)]
      by (auto simp: find_None_iff dph_map_None)
    with r None show ?thesis by simp
  next
    case (Some u)
    then obtain i where i: "in_use T i" "addr_of T i = a" by (metis dph_map_None option.distinct(1))
    then have u: "u = of_nat i" using dph_map_Some [OF assms(1) i] Some by simp
    have lt: "i < unat (dsize T)" using i by (simp add: in_use_def)
    then have "unat u = i" using u unat_u16 [of "dsize T"] by (simp add: unat_word_of_nat)
    moreover have "List.find ?P (ch (bucket T a)) = Some i"
    proof (rule find_unique)
      show "i \<in> set (ch (bucket T a))" using i by (simp add: dph_inv_chain(3) [OF assms(1) w(3)])
      then show "?P i" using i chain_match [OF assms] by blast
      show "j = i" if "j \<in> set (ch (bucket T a))" "?P j" for j
        using that i chain_match [OF assms, of j] dph_inv_chain(3) [OF assms(1) w(3), of j]
          dph_inv_addr(2) [OF assms(1), of j i] by auto
    qed
    ultimately show ?thesis using r Some u lt sh(2) by simp
  qed
qed

subsection \<open>Linking a node\<close>

lemma dph_map_iff:
  assumes "dph_inv T ch"
  shows "dph_map T x = Some w \<longleftrightarrow> in_use T (unat w) \<and> addr_of T (unat w) = x"
proof
  assume "in_use T (unat w) \<and> addr_of T (unat w) = x"
  then show "dph_map T x = Some w" using dph_map_Some [OF assms, of "unat w" x] by simp
next
  assume w: "dph_map T x = Some w"
  then obtain i where i: "in_use T i" "addr_of T i = x" by (metis dph_map_None option.distinct(1))
  then have "w = of_nat i" using dph_map_Some [OF assms i] w by simp
  moreover have "unat (of_nat i :: u16) = i"
    using i(1) unat_u16 [of "dsize T"] by (intro unat_word_of_nat) (simp add: in_use_def)
  ultimately show "in_use T (unat w) \<and> addr_of T (unat w) = x" using i by simp
qed

lemma map_eqI: "(\<And>x w. f x = Some w \<longleftrightarrow> g x = Some w) \<Longrightarrow> f = g"
  by (rule ext) (metis not_None_eq)

lemma dph_inv_link:
  assumes "dph_inv T ch" and "unat v < unat (dsize T)" and "\<not> in_use T (unat v)" and "length a = 6"
    and "dph_map T a = None" and "b = bucket T a"
    and "nextp nd = pHashTable T ! b" and "added nd" and "staAddr nd = a" and "assocId nd = v"
    and T': "T' = T\<lparr>pDphNodeArray := (pDphNodeArray T)[unat v := nd], pHashTable := (pHashTable T)[b := Some (unat v)]\<rparr>"
  shows "dph_inv T' (ch(b := unat v # ch b)) \<and> dph_map T' = (dph_map T)(a \<mapsto> v)"
proof -
  have sh: "unat (dsize T) \<le> length (pHashTable T)" "unat (dsize T) \<le> length (pDphNodeArray T)"
    using assms(1) by (auto simp: dph_inv_def dph_shape_def)
  have b: "b < unat (dsize T)"
    using hashFunction_bucket [OF dph_inv_shape [OF assms(1)], of a] assms(6) by blast
  have use: "in_use T' i \<longleftrightarrow> in_use T i \<or> i = unat v" for i
    using assms(2,3,8) sh(2) by (auto simp: T' in_use_def nth_list_update)
  have ad: "addr_of T' i = (if i = unat v then a else addr_of T i)" for i
    using assms(2,9) sh(2) by (simp add: T' addr_of_def nth_list_update)
  have bu: "bucket T' x = bucket T x" and sz: "dsize T' = dsize T" for x
    by (simp_all add: T' bucket_def)
  have hd: "pHashTable T' ! c = (if c = b then Some (unat v) else pHashTable T ! c)" for c
    using b sh(1) by (simp add: T' nth_list_update)
  have nx: "nextp (pDphNodeArray T' ! x) = (if x = unat v then pHashTable T ! b else nextp (pDphNodeArray T ! x))"
    and len: "length (pDphNodeArray T') = length (pDphNodeArray T)" for x
    using assms(2,7) sh(2) by (simp_all add: T' nth_list_update)
  have notin: "unat v \<notin> set (ch c)" if "c < unat (dsize T)" for c
    using dph_inv_chain(3) [OF assms(1) that] assms(3) by blast
  have chain: "nchain (pDphNodeArray T') (pHashTable T ! c) (ch c)" if "c < unat (dsize T)" for c
    by (rule nchain_frame [OF dph_inv_chain(1) [OF assms(1) that]]) (use notin [OF that] nx len in auto)
  have "nchain (pDphNodeArray T') (pHashTable T' ! c) ((ch(b := unat v # ch b)) c) \<and> distinct ((ch(b := unat v # ch b)) c)"
    if "c < unat (dsize T)" for c
    using chain [OF that] notin [OF that] dph_inv_chain(2) [OF assms(1) that] assms(2) sh(2)
    by (auto simp: hd nx len)
  moreover have "set ((ch(b := unat v # ch b)) c) = {i. in_use T' i \<and> bucket T' (addr_of T' i) = c}"
    if "c < unat (dsize T)" for c
    using dph_inv_chain(3) [OF assms(1) that] assms(3,6) by (auto simp: use ad bu)
  moreover have "dph_shape T'" using assms(1,2,10) sh(2) by (auto simp: dph_inv_def dph_shape_def T' nth_list_update)
  moreover have none: "\<forall>i. in_use T i \<longrightarrow> addr_of T i \<noteq> a" using assms(5) by (simp add: dph_map_None)
  ultimately have inv: "dph_inv T' (ch(b := unat v # ch b))"
    using assms(4) dph_inv_addr [OF assms(1)] unfolding dph_inv_def sz use ad by auto
  have "dph_map T' = (dph_map T)(a \<mapsto> v)"
    by (rule map_eqI) (use none assms(3) in \<open>auto simp: dph_map_iff [OF inv] dph_map_iff [OF assms(1)] use ad\<close>)
  then show ?thesis using inv by simp
qed

lemma ucast_small: "unat (v :: u16) < 256 \<Longrightarrow> unat (ucast v :: u8) = unat v"
  by (simp add: unsigned_ucast_eq take_bit_nat_eq_self)

text \<open>The scan for duplicates finds the address; the identifier is caught before.\<close>

lemma add_scan:
  assumes "dph_inv T ch" and "length a = 6" and "unat v < unat (dsize T)" and "\<not> in_use T (unat v)"
  shows "dphAddHashEntry_loop (pDphNodeArray T) a v (pHashTable T ! bucket T a) = Some (Inr (dph_map T a \<noteq> None))"
proof -
  have b: "bucket T a < unat (dsize T)"
    using hashFunction_bucket [OF dph_inv_shape [OF assms(1)], of a] by blast
  have aid: "assocId (pDphNodeArray T ! i) \<noteq> v" if "i \<in> set (ch (bucket T a))" for i
  proof
    assume e: "assocId (pDphNodeArray T ! i) = v"
    have i: "in_use T i" using that dph_inv_chain(3) [OF assms(1) b] by blast
    then have "of_nat i = v" using e assms(1) by (auto simp: dph_inv_def dph_shape_def in_use_def)
    moreover have "unat (of_nat i :: u16) = i"
      using i unat_u16 [of "dsize T"] by (intro unat_word_of_nat) (simp add: in_use_def)
    ultimately show False using i assms(4) by auto
  qed
  have "(\<exists>i \<in> set (ch (bucket T a)). dphCompareMacAddr a (staAddr (pDphNodeArray T ! i)) \<or>
      assocId (pDphNodeArray T ! i) = v) \<longleftrightarrow> dph_map T a \<noteq> None"
    using chain_match [OF assms(1,2)] aid dph_inv_chain(3) [OF assms(1) b] by (auto simp: dph_map_None)
  then show ?thesis
    using add_loop_chain [OF dph_inv_chain(1,2) [OF assms(1) b]] by simp
qed

lemma dphAddHashEntry_eq:
  assumes "dph_inv T ch" and "length a = 6"
  shows "if v < dsize T \<and> v \<notin> ran (dph_map T) \<and> dph_map T a = None
    then \<exists>T' ch'. dphAddHashEntry cf a v T = Some (Some (unat v), T') \<and> dph_inv T' ch' \<and> dsize T' = dsize T \<and>
           dph_map T' = (dph_map T)(a \<mapsto> v)
    else dphAddHashEntry cf a v T = Some (None, T)"
proof -
  have sh: "unat (dsize T) \<le> length (pHashTable T)" "unat (dsize T) \<le> length (pDphNodeArray T)" "unat (dsize T) \<le> 256"
    using assms(1) by (auto simp: dph_inv_def dph_shape_def)
  obtain w where w: "hashFunction a (dsize T) = Some w" "unat w = bucket T a" "bucket T a < unat (dsize T)"
    using hashFunction_bucket [OF dph_inv_shape [OF assms(1)], of a] by blast
  show ?thesis
  proof (cases "v < dsize T \<and> v \<notin> ran (dph_map T)")
    case False
    then show ?thesis
      using w sh by (auto simp: dphAddHashEntry_def dph_ran [OF assms(1)] in_use_def word_less_nat_alt word_le_nat_alt)
  next
    case True
    then have v: "unat v < unat (dsize T)" "\<not> in_use T (unat v)" "\<not> dsize T \<le> v"
      by (auto simp: dph_ran [OF assms(1)] word_less_nat_alt word_le_nat_alt)
    then have na: "\<not> added (pDphNodeArray T ! unat v)" by (simp add: in_use_def)
    note scan = add_scan [OF assms v(1,2)]
    show ?thesis
    proof (cases "dph_map T a")
      case (Some u)
      then show ?thesis using True v na w sh scan by (simp add: dphAddHashEntry_def)
    next
      case None
      define nd0 where "nd0 = (clear_node (pDphNodeArray T ! unat v))\<lparr>assocId := v, staIndex := HAL_STA_INVALID_IDX, staAddr := a\<rparr>"
      define nd1 where "nd1 = (case cf of None \<Rightarrow> nd0 | Some val \<Rightarrow> nd0\<lparr>fragSize := ucast val\<rparr>)"
      define nd where "nd = nd1\<lparr>added := True, encPolicy := HAL_ENC_POLICY_NULL, isDisassocDeauthInProgress := 0,
        last_assoc_received_time := 0, valid := True, nextp := pHashTable T ! bucket T a\<rparr>"
      have g: "getNode (ucast v) = unat v" using v(1) sh(3) by (simp add: getNode_def ucast_small)
      have nd: "nextp nd = pHashTable T ! bucket T a" "added nd" "staAddr nd = a" "assocId nd = v"
        by (auto simp: nd_def nd1_def nd0_def split: option.splits)
      have "dphAddHashEntry cf a v T = Some (Some (unat v), T\<lparr>pDphNodeArray := (pDphNodeArray T)[unat v := nd],
          pHashTable := (pHashTable T)[bucket T a := Some (unat v)]\<rparr>)"
        using None v na w sh scan
        by (cases cf) (simp_all add: dphAddHashEntry_def dphInitStaState_def g nd_def nd1_def nd0_def Let_def)
      then show ?thesis
        using dph_inv_link [OF assms(1) v(1,2) assms(2) None refl nd refl] True None
        by (auto intro!: exI)
    qed
  qed
qed

subsection \<open>Unlinking a node\<close>

lemma dph_inv_unlink:
  assumes "dph_inv T ch" and b: "b < unat (dsize T)" and "ch b = us @ i # vs"
    and sz: "dsize T' = dsize T" and len: "length (pDphNodeArray T') = length (pDphNodeArray T)"
      "length (pHashTable T') = length (pHashTable T)"
    and hd: "\<And>c. pHashTable T' ! c = (if c = b \<and> us = [] then nextp (pDphNodeArray T ! i) else pHashTable T ! c)"
    and nx: "\<And>x. x \<noteq> i \<Longrightarrow> nextp (pDphNodeArray T' ! x) =
        (if us \<noteq> [] \<and> x = last us then nextp (pDphNodeArray T ! i) else nextp (pDphNodeArray T ! x))"
    and use: "\<And>j. in_use T' j \<longleftrightarrow> in_use T j \<and> j \<noteq> i"
    and ad: "\<And>j. j \<noteq> i \<Longrightarrow> addr_of T' j = addr_of T j"
    and aid: "\<And>j. assocId (pDphNodeArray T' ! j) = assocId (pDphNodeArray T ! j)"
  shows "dph_inv T' (ch(b := us @ vs)) \<and> dph_map T' = (dph_map T)(addr_of T i := None)"
proof -
  have bu: "bucket T' x = bucket T x" for x using sz by (simp add: bucket_def)
  have d: "distinct (us @ i # vs)" and n: "nchain (pDphNodeArray T) (pHashTable T ! b) (us @ i # vs)"
    using dph_inv_chain(1,2) [OF assms(1) b] assms(3) by auto
  have inu: "x \<in> set (us @ i # vs) \<longleftrightarrow> in_use T x \<and> bucket T (addr_of T x) = b" for x
    using dph_inv_chain(3) [OF assms(1) b] assms(3) by simp
  have nb: "nchain (pDphNodeArray T') (pHashTable T' ! b) (us @ vs)"
  proof (cases "us = []")
    case True
    have "nchain (pDphNodeArray T') (nextp (pDphNodeArray T ! i)) vs"
    proof (rule nchain_frame [of "pDphNodeArray T"])
      show "nextp (pDphNodeArray T' ! x) = nextp (pDphNodeArray T ! x)" if "x \<in> set vs" for x
        using nx [of x] that d True by auto
    qed (use n True len in auto)
    then show ?thesis using True hd by simp
  next
    case False
    have "last us \<noteq> i" using False d by (metis disjoint_iff distinct_append last_in_set list.set_intros(1))
    moreover have ne: "x \<noteq> i" if "x \<in> set (us @ vs)" for x using that d by auto
    ultimately have "nchain (pDphNodeArray T') (pHashTable T ! b) (us @ vs)"
      by (intro nchain_unlink [OF n False len(1) d]) (use nx [OF ne] nx [of "last us"] False in simp_all)
    then show ?thesis using False hd by simp
  qed
  have nc: "nchain (pDphNodeArray T') (pHashTable T' ! c) (ch c)" if c: "c < unat (dsize T)" "c \<noteq> b" for c
  proof -
    have "x \<notin> set (us @ i # vs)" if "x \<in> set (ch c)" for x
      using that c(2) dph_inv_chain(3) [OF assms(1) c(1), of x] inu [of x] by auto
    then have "x \<noteq> i \<and> x \<notin> set us" if "x \<in> set (ch c)" for x
      using that by auto
    then have "x \<noteq> i \<and> (us \<noteq> [] \<longrightarrow> x \<noteq> last us)" if "x \<in> set (ch c)" for x
      using that last_in_set by metis
    then have "nchain (pDphNodeArray T') (pHashTable T ! c) (ch c)"
      by (intro nchain_frame [OF dph_inv_chain(1) [OF assms(1) c(1)] len(1)]) (metis nx)
    then show ?thesis using c hd by simp
  qed
  have "set ((ch(b := us @ vs)) c) = {j. in_use T' j \<and> bucket T' (addr_of T' j) = c}" if c: "c < unat (dsize T)" for c
  proof (cases "c = b")
    case True
    have "x \<in> set (us @ vs) \<longleftrightarrow> in_use T' x \<and> bucket T' (addr_of T' x) = b" for x
      using inu [of x] d by (cases "x = i") (auto simp: use ad bu)
    then show ?thesis using True by (simp add: set_eq_iff)
  next
    case False
    have "i \<notin> set (ch c)" using False inu [of i] dph_inv_chain(3) [OF assms(1) c, of i] by simp
    then have "x \<in> set (ch c) \<longleftrightarrow> in_use T' x \<and> bucket T' (addr_of T' x) = c" for x
      using dph_inv_chain(3) [OF assms(1) c, of x] by (cases "x = i") (simp_all add: use ad bu)
    then show ?thesis using False by (simp add: set_eq_iff)
  qed
  moreover have "nchain (pDphNodeArray T') (pHashTable T' ! c) ((ch(b := us @ vs)) c) \<and> distinct ((ch(b := us @ vs)) c)"
    if "c < unat (dsize T)" for c
    using nb nc [OF that] d dph_inv_chain(2) [OF assms(1) that] by auto
  moreover have "dph_shape T'" using assms(1) sz len aid by (auto simp: dph_inv_def dph_shape_def)
  ultimately have inv: "dph_inv T' (ch(b := us @ vs))"
    using dph_inv_addr [OF assms(1)] unfolding dph_inv_def sz use by (simp add: ad)
  have "in_use T i" using inu [of i] by simp
  then have "dph_map T' x = Some w \<longleftrightarrow> ((dph_map T)(addr_of T i := None)) x = Some w" for x w
    using dph_inv_addr(2) [OF assms(1), of "unat w" i]
    by (cases "unat w = i") (auto simp: dph_map_iff [OF inv] dph_map_iff [OF assms(1)] use ad)
  then have "dph_map T' = (dph_map T)(addr_of T i := None)" by (rule map_eqI)
  then show ?thesis using inv by simp
qed

lemma split_first:
  assumes "i \<in> set xs" and "P i" and "\<And>j. j \<in> set xs \<Longrightarrow> P j \<Longrightarrow> j = i"
  shows "\<exists>us vs. xs = us @ i # vs \<and> (\<forall>x \<in> set us. \<not> P x)"
proof -
  obtain us vs where xs: "xs = us @ i # vs" "i \<notin> set us" using split_list_first [OF assms(1)] by blast
  have "\<not> P x" if "x \<in> set us" for x
    using assms(3) [of x] that xs by auto
  with xs show ?thesis by blast
qed

text \<open>The table after the entry \<open>i\<close> behind \<open>prev\<close> in the bucket \<open>b\<close> has been deleted.\<close>

definition deleted :: "nat \<Rightarrow> nat option \<Rightarrow> nat \<Rightarrow> dphHashTableClass \<Rightarrow> dphHashTableClass" where
  "deleted b prev i T = (let nd = pDphNodeArray T ! i;
       ns = (case prev of None \<Rightarrow> pDphNodeArray T
             | Some p \<Rightarrow> (pDphNodeArray T)[p := (pDphNodeArray T ! p)\<lparr>nextp := nextp nd\<rparr>])
     in T\<lparr>pHashTable := (if prev = None then (pHashTable T)[b := nextp nd] else pHashTable T),
          pDphNodeArray := ns[i := nd\<lparr>valid := False, staAddr := replicate 6 0, added := False,
            isDisassocDeauthInProgress := 0, last_assoc_received_time := 0, nextp := None\<rparr>]\<rparr>)"

lemma dphDeleteHashEntry_found:
  assumes "dph_inv T ch" and "length a = 6" and "in_use T (unat v)" and "in_use T i" and "addr_of T i = a"
  shows "\<exists>us vs. ch (bucket T a) = us @ i # vs \<and> dphDeleteHashEntry a v T =
    Some (eSIR_SUCCESS, deleted (bucket T a) (if us = [] then None else Some (last us)) i T)"
proof -
  have sh: "unat (dsize T) \<le> length (pHashTable T)" "unat (dsize T) \<le> length (pDphNodeArray T)"
    using assms(1) by (auto simp: dph_inv_def dph_shape_def)
  obtain w where w: "hashFunction a (dsize T) = Some w" "unat w = bucket T a" "bucket T a < unat (dsize T)"
    using hashFunction_bucket [OF dph_inv_shape [OF assms(1)], of a] by blast
  let ?b = "bucket T a" and ?P = "\<lambda>x. dphCompareMacAddr a (staAddr (pDphNodeArray T ! x))"
  have iin: "i \<in> set (ch ?b)" using assms(4,5) by (simp add: dph_inv_chain(3) [OF assms(1) w(3)])
  have "\<exists>us vs. ch ?b = us @ i # vs \<and> (\<forall>x \<in> set us. \<not> ?P x)"
  proof (rule split_first [OF iin])
    show "?P i" using chain_match [OF assms(1,2) iin] assms(5) by blast
    show "j = i" if "j \<in> set (ch ?b)" "?P j" for j
      using that chain_match [OF assms(1,2), of j] dph_inv_chain(3) [OF assms(1) w(3), of j]
        dph_inv_addr(2) [OF assms(1), of j i] assms(4,5) by auto
  qed
  then obtain us vs where us: "ch ?b = us @ i # vs" "\<forall>x \<in> set us. \<not> ?P x" by blast
  have c: "nchain (pDphNodeArray T) (pHashTable T ! ?b) (us @ i # vs)" "distinct (us @ i # vs)"
    using dph_inv_chain(1,2) [OF assms(1) w(3)] us(1) by auto
  have loop: "dphDeleteHashEntry_loop (pDphNodeArray T) a None (pHashTable T ! ?b) =
      Some (Inr (if us = [] then None else Some (last us), Some i))"
    by (rule delete_loop_hit [OF c]) (use us(2) chain_match [OF assms(1,2) iin] assms(5) in auto)
  have v: "\<not> dsize T \<le> v" "unat v < length (pDphNodeArray T)" "added (pDphNodeArray T ! unat v)"
      "i < length (pDphNodeArray T)"
    using assms(3,4) sh by (auto simp: in_use_def word_le_nat_alt)
  show ?thesis
  proof (cases "us = []")
    case True
    then show ?thesis using us loop v w sh
      by (intro exI [of _ us] exI [of _ vs]) (simp add: dphDeleteHashEntry_def deleted_def Let_def)
  next
    case False
    then have l: "last us \<in> set (ch ?b)" "last us \<noteq> i" using us(1) c(2) last_in_set [of us] by auto
    then have "last us < length (pDphNodeArray T)"
      using dph_inv_chain(3) [OF assms(1) w(3), of "last us"] sh by (auto simp: in_use_def)
    then show ?thesis using us loop v w sh False l(2)
      by (intro exI [of _ us] exI [of _ vs])
        (simp add: dphDeleteHashEntry_def deleted_def Let_def list_update_swap)
  qed
qed

lemma dphDeleteHashEntry_eq:
  assumes "dph_inv T ch" and "length a = 6"
  shows "if v \<in> ran (dph_map T) \<and> dph_map T a \<noteq> None
    then \<exists>T' ch'. dphDeleteHashEntry a v T = Some (eSIR_SUCCESS, T') \<and> dph_inv T' ch' \<and> dsize T' = dsize T \<and>
           dph_map T' = (dph_map T)(a := None)
    else dphDeleteHashEntry a v T = Some (eSIR_FAILURE, T)"
proof -
  have sh: "unat (dsize T) \<le> length (pHashTable T)" "unat (dsize T) \<le> length (pDphNodeArray T)"
    using assms(1) by (auto simp: dph_inv_def dph_shape_def)
  obtain w where w: "hashFunction a (dsize T) = Some w" "unat w = bucket T a" "bucket T a < unat (dsize T)"
    using hashFunction_bucket [OF dph_inv_shape [OF assms(1)], of a] by blast
  show ?thesis
  proof (cases "v \<in> ran (dph_map T)")
    case False
    then show ?thesis
      using w sh by (auto simp: dphDeleteHashEntry_def dph_ran [OF assms(1)] in_use_def word_le_nat_alt)
  next
    case True
    then have v: "in_use T (unat v)" by (simp add: dph_ran [OF assms(1)])
    show ?thesis
    proof (cases "dph_map T a")
      case None
      have "dphDeleteHashEntry_loop (pDphNodeArray T) a None (pHashTable T ! bucket T a) =
          Some (Inr (if ch (bucket T a) = [] then None else Some (last (ch (bucket T a))), None))"
        by (rule delete_loop_miss [OF dph_inv_chain(1,2) [OF assms(1) w(3)]])
          (use None chain_match [OF assms] dph_inv_chain(3) [OF assms(1) w(3)] in \<open>auto simp: dph_map_None\<close>)
      then show ?thesis using True None v w sh
        by (auto simp: dphDeleteHashEntry_def in_use_def word_le_nat_alt)
    next
      case (Some u)
      then obtain i where i: "in_use T i" "addr_of T i = a" by (metis dph_map_None option.distinct(1))
      obtain us vs where us: "ch (bucket T a) = us @ i # vs" "dphDeleteHashEntry a v T =
          Some (eSIR_SUCCESS, deleted (bucket T a) (if us = [] then None else Some (last us)) i T)"
        using dphDeleteHashEntry_found [OF assms v i] by blast
      let ?T = "deleted (bucket T a) (if us = [] then None else Some (last us)) i T"
      have il: "i < length (pDphNodeArray T)" "bucket T a < length (pHashTable T)"
        using i sh w(3) by (auto simp: in_use_def)
      have ll: "us \<noteq> [] \<Longrightarrow> last us < length (pDphNodeArray T) \<and> last us \<noteq> i"
      proof -
        assume "us \<noteq> []"
        then have "last us \<in> set us" by simp
        moreover have "i \<notin> set us" using dph_inv_chain(2) [OF assms(1) w(3)] us(1) by auto
        moreover have "last us \<in> set (ch (bucket T a))" using \<open>last us \<in> set us\<close> us(1) by simp
        then have "in_use T (last us)" using dph_inv_chain(3) [OF assms(1) w(3)] by blast
        ultimately show ?thesis using sh by (auto simp: in_use_def)
      qed
      have "dph_inv ?T (ch(bucket T a := us @ vs)) \<and> dph_map ?T = (dph_map T)(addr_of T i := None)"
        by (rule dph_inv_unlink [OF assms(1) w(3) us(1)])
          (use il ll in \<open>auto simp: deleted_def Let_def in_use_def addr_of_def nth_list_update split: if_splits\<close>)
      moreover have "dsize ?T = dsize T" by (simp add: deleted_def Let_def)
      ultimately show ?thesis using us(2) True Some i(2) by auto
    qed
  qed
qed

section \<open>The table keeps its contract\<close>

definition dph_lookup :: "mac \<Rightarrow> dphHashTableClass \<Rightarrow> u16 option option" where
  "dph_lookup a T = do { (ptr, aid) \<leftarrow> dphLookupHashEntry a 0 T; Some (case ptr of None \<Rightarrow> None | Some _ \<Rightarrow> Some aid) }"

definition dph_add :: "u32 option \<Rightarrow> mac \<Rightarrow> u16 \<Rightarrow> dphHashTableClass \<Rightarrow> (bool \<times> dphHashTableClass) option" where
  "dph_add cf a v T = do { (ptr, T) \<leftarrow> dphAddHashEntry cf a v T; Some (ptr \<noteq> None, T) }"

definition dph_del :: "mac \<Rightarrow> u16 \<Rightarrow> dphHashTableClass \<Rightarrow> (bool \<times> dphHashTableClass) option" where
  "dph_del a v T = do { (st, T) \<leftarrow> dphDeleteHashEntry a v T; Some (st = eSIR_SUCCESS, T) }"

interpretation dph: key_table dph_ok dph_map "\<lambda>a. length a = 6" "\<lambda>T v. v < dsize T"
  dph_lookup "dph_add cf" dph_del for cf
proof (unfold_locales, goal_cases)
  case (1 T a)
  then show ?case using dphLookupHashEntry_eq [of T _ a 0]
    by (auto simp: dph_ok_def dph_lookup_def split: option.splits)
next
  case (2 T a b v)
  then obtain ch where "dph_inv T ch" by (auto simp: dph_ok_def)
  with 2 show ?case using dphAddHashEntry_eq [of T ch a v cf]
    by (auto simp: dph_ok_def dph_add_def split: if_splits)
next
  case (3 T a b v)
  then obtain ch where "dph_inv T ch" by (auto simp: dph_ok_def)
  with 3 show ?case using dphDeleteHashEntry_eq [of T ch a v]
    by (auto simp: dph_ok_def dph_del_def split: if_splits)
qed

text \<open>Initialising the table makes it empty.\<close>

lemma dphHashTableClassInit_eq:
  assumes "0 < unat (dsize T)" and "unat (dsize T) \<le> 256" and "unat (dsize T) \<le> length (pHashTable T)"
    and "unat (dsize T) \<le> length (pDphNodeArray T)"
  shows "\<exists>T'. dphHashTableClassInit T = Some T' \<and> dph_inv T' (\<lambda>_. []) \<and> dph_map T' = Map.empty \<and> dsize T' = dsize T"
proof -
  let ?n = "unat (dsize T)"
  let ?h = "map (\<lambda>i. if i < ?n then None else pHashTable T ! i) [0..<length (pHashTable T)]"
  let ?f = "\<lambda>i nd. nd\<lparr>valid := False, added := False, assocId := of_nat i\<rparr>"
  let ?ns = "map (\<lambda>i. if i < ?n then ?f i (pDphNodeArray T ! i) else pDphNodeArray T ! i) [0..<length (pDphNodeArray T)]"
  let ?T = "T\<lparr>pHashTable := ?h, pDphNodeArray := ?ns\<rparr>"
  have e: "dphHashTableClassInit T = Some ?T"
    using for_each_update [OF assms(3), of "\<lambda>_ _. None"] for_each_update [OF assms(4), of ?f]
    by (simp add: dphHashTableClassInit_def)
  have u: "\<not> in_use ?T i" for i using assms(4) by (auto simp: in_use_def)
  have "dph_inv ?T (\<lambda>_. [])"
    using assms u by (auto simp: dph_inv_def dph_shape_def)
  moreover have "dph_map ?T = Map.empty" using u by (intro ext) (simp add: dph_map_None)
  ultimately show ?thesis using e by auto
qed

section \<open>Properties\<close>

text \<open>
  C11: the station table is a map. On a table that is well formed, looking up an address finds exactly
  the station added under it; adding a station makes its address, and no other, resolve to its
  identifier, keeps the table well formed, and is refused exactly when the identifier is out of
  range or in use or the address is known; deleting removes exactly that address.
\<close>

theorem dph_table_is_map:
  assumes "dph_ok T" and "length a = 6"
  shows "dph_lookup a T = Some (dph_map T a) \<and>
    (\<exists>T1. dph_add cf a v T = Some (v < dsize T \<and> v \<notin> ran (dph_map T) \<and> dph_map T a = None, T1) \<and> dph_ok T1 \<and>
       dph_map T1 = (if v < dsize T \<and> v \<notin> ran (dph_map T) \<and> dph_map T a = None
                     then (dph_map T)(a \<mapsto> v) else dph_map T)) \<and>
    (\<exists>T2. dph_del a v T = Some (v \<in> ran (dph_map T) \<and> dph_map T a \<noteq> None, T2) \<and> dph_ok T2 \<and>
       dph_map T2 = (if v \<in> ran (dph_map T) \<and> dph_map T a \<noteq> None then (dph_map T)(a := None) else dph_map T))"
  using dph.lookup [OF assms] dph.add [OF assms refl, of cf v] dph.del [OF assms refl, of v] by blast

definition sample_node :: "nat \<Rightarrow> tDphHashNode" where
  "sample_node i = \<lparr>valid = False, encPolicy = 0, added = False, fragSize = 0, assocId = of_nat i, staIndex = 0,
     staAddr = [], last_assoc_received_time = 0, isDisassocDeauthInProgress = 0, nextp = None, del_sta_ctx_rssi = 0\<rparr>"

definition sample_table :: dphHashTableClass where
  "sample_table = \<lparr>pHashTable = [None, None, None], pDphNodeArray = [sample_node 0, sample_node 1, sample_node 2], dsize = 3\<rparr>"

lemma below_3: "i < (3 :: nat) \<longleftrightarrow> i = 0 \<or> i = 1 \<or> i = 2"
  by auto

lemma sample_not_in_use: "\<not> in_use sample_table i"
proof
  assume u: "in_use sample_table i"
  then have "i < 3" by (simp add: in_use_def sample_table_def)
  then have "i = 0 \<or> i = 1 \<or> i = 2" by (simp add: below_3)
  then show False using u by (elim disjE) (simp_all add: in_use_def sample_table_def sample_node_def)
qed

lemma sample_table_ok: "dph_ok sample_table" "dph_map sample_table = Map.empty"
proof -
  have "dph_inv sample_table (\<lambda>_. [])"
    using sample_not_in_use
    by (auto simp: dph_inv_def dph_shape_def sample_table_def sample_node_def below_3)
  then show "dph_ok sample_table" by (auto simp: dph_ok_def)
  show "dph_map sample_table = Map.empty" using sample_not_in_use by (intro ext) (simp add: dph_map_None)
qed

theorem dph_table_is_map_witness:
  "\<exists>T1. dph_add (Some 2346) [1, 2, 3, 4, 5, 6] 2 sample_table = Some (True, T1) \<and>
     dph_map T1 = [[1, 2, 3, 4, 5, 6] \<mapsto> 2]"
proof -
  have "2 < dsize sample_table" by (simp add: sample_table_def)
  then show ?thesis
    using dph_table_is_map [OF sample_table_ok(1), of "[1, 2, 3, 4, 5, 6]" "Some 2346" 2]
    by (auto simp: sample_table_ok(2))
qed

text \<open>
  the station table from start to end of an association. After \<^verbatim>\<open>dphHashTableClassInit\<close> the table is
  empty; a station that is added and deleted again leaves the map it found, and while it is there it
  is found under its address.
\<close>

theorem dph_add_delete_roundtrip:
  assumes "0 < unat (dsize T0)" and "unat (dsize T0) \<le> 256" and "unat (dsize T0) \<le> length (pHashTable T0)"
    and "unat (dsize T0) \<le> length (pDphNodeArray T0)" and "length a = 6" and "v < dsize T0"
  shows "\<exists>T1 T2 T3. dphHashTableClassInit T0 = Some T1 \<and> dph_map T1 = Map.empty \<and>
    dph_add cf a v T1 = Some (True, T2) \<and> dph_lookup a T2 = Some (Some v) \<and>
    dph_del a v T2 = Some (True, T3) \<and> dph_ok T3 \<and> dph_map T3 = Map.empty"
proof -
  obtain T1 where T1: "dphHashTableClassInit T0 = Some T1" "dph_ok T1" "dph_map T1 = Map.empty" "dsize T1 = dsize T0"
    using dphHashTableClassInit_eq [OF assms(1-4)] by (auto simp: dph_ok_def)
  then obtain T2 T3 where T2: "dph_add cf a v T1 = Some (True, T2)" "dph_del a v T2 = Some (True, T3)"
      "dph_ok T3" "dph_map T3 = dph_map T1"
    using dph.add_del_roundtrip [of T1 a v cf] assms(5,6) by auto
  moreover have "dph_lookup a T2 = Some (Some v)"
    using dph.lookup_after_add [of T1 a a v cf] T1 T2(1) assms(5,6) by auto
  ultimately show ?thesis using T1 by auto
qed

theorem dph_add_delete_roundtrip_witness:
  "\<exists>T1 T2. dphHashTableClassInit sample_table = Some T1 \<and> dph_add None [1, 2, 3, 4, 5, 6] 1 T1 = Some (True, T2) \<and>
     dph_lookup [1, 2, 3, 4, 5, 6] T2 = Some (Some 1)"
  using dph_add_delete_roundtrip [of sample_table "[1, 2, 3, 4, 5, 6]" 1 None]
  by (auto simp: sample_table_def)

lemma init_node:
  assumes "unat v < unat (dsize T)" and "unat (dsize T) \<le> length (pDphNodeArray T)" and "unat (dsize T) \<le> 256"
  shows "\<exists>nd. dphInitStaState cf a v keep T = Some (Some (unat v), T\<lparr>pDphNodeArray := (pDphNodeArray T)[unat v := nd]\<rparr>) \<and>
    nextp nd = None \<and> staAddr nd = a"
  using assms ucast_small [of v]
  by (cases cf) (auto simp: dphInitStaState_def getNode_def Let_def clear_node_def word_le_nat_alt)

lemma nchain_cut:
  "nchain ns p (us @ i # rest) \<Longrightarrow> length ns' = length ns \<Longrightarrow> nextp (ns' ! i) = None \<Longrightarrow>
     (\<And>x. x \<in> set us \<Longrightarrow> nextp (ns' ! x) = nextp (ns ! x)) \<Longrightarrow> nchain ns' p (us @ [i])"
  by (induction us arbitrary: p) auto

text \<open>
  Resetting a station cuts its chain. \<^verbatim>\<open>dphInitStaState\<close> on a station that is already in the table
  clears its \<^verbatim>\<open>next\<close> pointer with the rest of the node, so that a station behind it in the same hash
  chain is no longer found although its node is still marked as added.
\<close>

theorem dphInitStaState_cuts_chain:
  assumes "dph_inv T ch" and "bucket T a = b" and "length a = 6" and "addr_of T (unat v) = a"
    and "ch b = us @ unat v # ws @ j # vs" and "addr_of T j = c"
  shows "\<exists>T'. dphInitStaState cf a v keep T = Some (Some (unat v), T') \<and>
    dphLookupHashEntry c 0 T' = Some (None, 0) \<and> added (pDphNodeArray T' ! j)"
proof -
  have b: "b < unat (dsize T)" and sh: "unat (dsize T) \<le> length (pHashTable T)"
      "unat (dsize T) \<le> length (pDphNodeArray T)" "unat (dsize T) \<le> 256"
    using hashFunction_bucket [OF dph_inv_shape [OF assms(1)], of a] assms(1,2)
    by (auto simp: dph_inv_def dph_shape_def)
  have ch: "x \<in> set (us @ unat v # ws @ j # vs) \<longleftrightarrow> in_use T x \<and> bucket T (addr_of T x) = b" for x
    using dph_inv_chain(3) [OF assms(1) b] assms(5) by simp
  have n: "nchain (pDphNodeArray T) (pHashTable T ! b) (us @ unat v # ws @ j # vs)"
      "distinct (us @ unat v # ws @ j # vs)"
    using dph_inv_chain(1,2) [OF assms(1) b] assms(5) by auto
  have v: "unat v < unat (dsize T)" and j: "in_use T j" "bucket T c = b" "length c = 6"
    using ch [of "unat v"] ch [of j] assms(6) dph_inv_addr(1) [OF assms(1), of j] by (auto simp: in_use_def)
  obtain nd where nd: "dphInitStaState cf a v keep T = Some (Some (unat v), T\<lparr>pDphNodeArray := (pDphNodeArray T)[unat v := nd]\<rparr>)"
      "nextp nd = None" "staAddr nd = a"
    using init_node [OF v sh(2,3)] by blast
  let ?T = "T\<lparr>pDphNodeArray := (pDphNodeArray T)[unat v := nd]\<rparr>"
  have "nchain (pDphNodeArray ?T) (pHashTable T ! b) (us @ [unat v])"
  proof (rule nchain_cut [OF n(1)])
    show "nextp (pDphNodeArray ?T ! x) = nextp (pDphNodeArray T ! x)" if "x \<in> set us" for x
      using that n(2) by (cases "x = unat v") auto
  qed (use nd(2) v sh(2) in auto)
  then have loop: "dphLookupHashEntry_loop (pDphNodeArray ?T) c (pHashTable T ! b) =
      Some (List.find (\<lambda>i. dphCompareMacAddr c (staAddr (pDphNodeArray ?T ! i))) (us @ [unat v]))"
    by (rule lookup_loop_chain)
  have "\<not> dphCompareMacAddr c (staAddr (pDphNodeArray ?T ! x))" if x: "x \<in> set (us @ [unat v])" for x
  proof -
    have "in_use T x" "x \<noteq> j" using x ch [of x] n(2) by auto
    then have "length (addr_of T x) = 6" "addr_of T x \<noteq> c"
      using dph_inv_addr [OF assms(1), of x] j(1) assms(6) by auto
    moreover have "staAddr (pDphNodeArray ?T ! x) = addr_of T x"
      using nd(3) assms(4) v sh(2) by (auto simp: addr_of_def nth_list_update)
    ultimately show ?thesis using j(3) dphCompareMacAddr_eq by metis
  qed
  then have "List.find (\<lambda>i. dphCompareMacAddr c (staAddr (pDphNodeArray ?T ! i))) (us @ [unat v]) = None"
    by (simp add: find_None_iff del: set_append)
  moreover obtain w where "hashFunction c (dsize T) = Some w" "unat w = b"
    using hashFunction_bucket [OF dph_inv_shape [OF assms(1)], of c] j(2) by auto
  ultimately have "dphLookupHashEntry c 0 ?T = Some (None, 0)"
    using loop b sh(1) by (simp add: dphLookupHashEntry_def)
  moreover have "added (pDphNodeArray ?T ! j)" using j(1) n(2) by (auto simp: in_use_def)
  ultimately show ?thesis using nd(1) by blast
qed

definition sample_chain :: dphHashTableClass where
  "sample_chain = \<lparr>pHashTable = [None, Some 1, None],
     pDphNodeArray = [sample_node 0,
       (sample_node 1)\<lparr>added := True, staAddr := [0, 0, 0, 0, 0, 1], nextp := Some 2\<rparr>,
       (sample_node 2)\<lparr>added := True, staAddr := [0, 0, 0, 0, 1, 0]\<rparr>], dsize = 3\<rparr>"

lemma sample_chain_facts [simp]:
  "addr_of sample_chain (Suc 0) = [0, 0, 0, 0, 0, 1]" "addr_of sample_chain 2 = [0, 0, 0, 0, 1, 0]"
  "bucket sample_chain [0, 0, 0, 0, 0, 1] = 1" "bucket sample_chain [0, 0, 0, 0, 1, 0] = 1"
  by (simp_all add: addr_of_def bucket_def sample_chain_def upt_rec)

lemma sample_chain_use: "in_use sample_chain i \<longleftrightarrow> i = 1 \<or> i = 2"
proof (cases "i < 3")
  case True
  then have "i = 0 \<or> i = 1 \<or> i = 2" by (simp add: below_3)
  then show ?thesis by (elim disjE) (simp_all add: in_use_def sample_chain_def sample_node_def)
next
  case False
  then show ?thesis by (auto simp: in_use_def sample_chain_def)
qed

lemma sample_chain_inv: "dph_inv sample_chain (\<lambda>b. if b = 1 then [1, 2] else [])"
proof -
  have "nchain (pDphNodeArray sample_chain) (pHashTable sample_chain ! b) (if b = 1 then [1, 2] else [])"
    if "b < 3" for b
  proof -
    have "b = 0 \<or> b = 1 \<or> b = 2" using that by (simp add: below_3)
    then show ?thesis by (elim disjE) (simp_all add: sample_chain_def sample_node_def)
  qed
  moreover have "dph_shape sample_chain"
    by (auto simp: dph_shape_def sample_chain_def sample_node_def below_3)
  moreover have "unat (dsize sample_chain) = 3" by (simp add: sample_chain_def)
  ultimately show ?thesis unfolding dph_inv_def sample_chain_use by auto
qed

lemma sample_chain_map: "dph_map sample_chain [0, 0, 0, 0, 1, 0] = Some 2"
  using dph_map_Some [OF sample_chain_inv, of 2] by (simp add: sample_chain_use)

theorem dphInitStaState_cuts_chain_witness:
  "dphLookupHashEntry [0, 0, 0, 0, 1, 0] 0 sample_chain = Some (Some 2, 2) \<and>
   (\<exists>T'. dphInitStaState None [0, 0, 0, 0, 0, 1] 1 True sample_chain = Some (Some 1, T') \<and>
      dphLookupHashEntry [0, 0, 0, 0, 1, 0] 0 T' = Some (None, 0) \<and> added (pDphNodeArray T' ! 2))"
proof
  show "dphLookupHashEntry [0, 0, 0, 0, 1, 0] 0 sample_chain = Some (Some 2, 2)"
    using dphLookupHashEntry_eq [OF sample_chain_inv, of "[0, 0, 0, 0, 1, 0]" 0]
    by (simp add: sample_chain_map)
  show "\<exists>T'. dphInitStaState None [0, 0, 0, 0, 0, 1] 1 True sample_chain = Some (Some 1, T') \<and>
      dphLookupHashEntry [0, 0, 0, 0, 1, 0] 0 T' = Some (None, 0) \<and> added (pDphNodeArray T' ! 2)"
    using dphInitStaState_cuts_chain [OF sample_chain_inv, of "[0, 0, 0, 0, 0, 1]" 1 1 "[]" "[]" 2 "[]"
        "[0, 0, 0, 0, 1, 0]" None True]
    by simp
qed

end
