(* ===== verification/Nbuf.thy ===== *)
theory Nbuf
  imports Prelude "HOL-Library.Multiset"
begin

text \<open>
  Network buffers linked through their \<^verbatim>\<open>next\<close> field, the currency of the receive path: the memory
  of the field, null-terminated lists, and runs of linked buffers known by their first and last one.
\<close>

section \<open>Linked buffers\<close>

text \<open>\<open>m a\<close> is \<^verbatim>\<open>adf_nbuf_next (a)\<close>; \<^verbatim>\<open>adf_nbuf_set_next (a, b)\<close> is the update \<open>m(a := b)\<close>.\<close>

type_synonym nbufs = "addr \<Rightarrow> addr"

fun nlist :: "nbufs \<Rightarrow> addr \<Rightarrow> addr list \<Rightarrow> bool" where
  "nlist m p [] \<longleftrightarrow> p = NULL"
| "nlist m p (x # xs) \<longleftrightarrow> p = x \<and> x \<noteq> NULL \<and> nlist m (m x) xs"

fun linked :: "nbufs \<Rightarrow> addr list \<Rightarrow> bool" where
  "linked m [] \<longleftrightarrow> True"
| "linked m [x] \<longleftrightarrow> True"
| "linked m (x # y # xs) \<longleftrightarrow> m x = y \<and> linked m (y # xs)"

lemma linked_Cons: "linked m (x # xs) \<longleftrightarrow> (xs \<noteq> [] \<longrightarrow> m x = hd xs) \<and> linked m xs"
  by (cases xs) auto

lemma linked_append:
  "linked m (xs @ ys) \<longleftrightarrow> linked m xs \<and> linked m ys \<and> (xs \<noteq> [] \<longrightarrow> ys \<noteq> [] \<longrightarrow> m (last xs) = hd ys)"
proof (induction xs)
  case (Cons x xs)
  then show ?case by (cases xs) (auto simp: linked_Cons)
qed simp

lemma linked_cong: "(\<And>x. x \<in> set (butlast xs) \<Longrightarrow> m' x = m x) \<Longrightarrow> linked m' xs = linked m xs"
proof (induction xs)
  case (Cons x xs)
  then show ?case by (cases xs) (auto simp: linked_Cons)
qed simp

lemma linked_update: "x \<notin> set (butlast xs) \<Longrightarrow> linked (m(x := v)) xs = linked m xs"
  by (rule linked_cong) auto

lemma last_notin_butlast_distinct: "distinct xs \<Longrightarrow> xs \<noteq> [] \<Longrightarrow> last xs \<notin> set (butlast xs)"
  by (metis append_butlast_last_id distinct_butlast not_distinct_conv_prefix)

lemma notin_butlast: "x \<notin> set xs \<Longrightarrow> x \<notin> set (butlast xs)"
  by (meson in_set_butlastD)

text \<open>Joining two runs, and terminating a run.\<close>

lemma linked_join:
  assumes "linked m xs" and "linked m ys" and "distinct (xs @ ys)" and "xs \<noteq> []" and "ys \<noteq> []"
  shows "linked (m(last xs := hd ys)) (xs @ ys)"
proof -
  have "last xs \<notin> set (butlast xs)" using assms(3,4) by (intro last_notin_butlast_distinct) auto
  moreover have "last xs \<notin> set (butlast ys)"
    using assms(3,4) by (intro notin_butlast) (metis disjoint_iff distinct_append last_in_set)
  ultimately show ?thesis using assms(1,2) by (simp add: linked_append linked_update)
qed

lemma nlist_linked: "nlist m p xs \<longleftrightarrow> (if xs = [] then p = NULL
    else p = hd xs \<and> linked m xs \<and> NULL \<notin> set xs \<and> m (last xs) = NULL)"
proof (induction xs arbitrary: p)
  case (Cons x xs)
  then show ?case by (cases xs) (auto simp: linked_Cons)
qed simp

lemma nlist_terminate:
  assumes "linked m xs" and "distinct xs" and "xs \<noteq> []" and "NULL \<notin> set xs"
  shows "nlist (m(last xs := NULL)) (hd xs) xs"
  using assms by (simp add: nlist_linked linked_update last_notin_butlast_distinct)

section \<open>Rings of runs\<close>

text \<open>
  A slot of a reorder array: the first and last buffer of a run, or two null pointers. \<open>ring_inv\<close>: the
  array \<open>a\<close> holds in slot \<open>i\<close> the run \<open>qs ! i\<close>, beside a run \<open>acc\<close> that is in no slot, and no buffer is in
  two places.
\<close>

definition slot :: "nbufs \<Rightarrow> addr \<times> addr \<Rightarrow> addr list \<Rightarrow> bool" where
  "slot m e xs \<longleftrightarrow> e = (if xs = [] then (NULL, NULL) else (hd xs, last xs)) \<and> linked m xs"

definition ring_inv :: "nbufs \<Rightarrow> (addr \<times> addr) list \<Rightarrow> addr list \<Rightarrow> addr list list \<Rightarrow> bool" where
  "ring_inv m a acc qs \<longleftrightarrow> length qs = length a \<and> (\<forall>i < length a. slot m (a ! i) (qs ! i)) \<and> linked m acc \<and>
     distinct (acc @ concat qs) \<and> NULL \<notin> set (acc @ concat qs)"

lemma mset_concat_update:
  "i < length qs \<Longrightarrow> mset (concat (qs[i := ys])) + mset (qs ! i) = mset (concat qs) + mset ys"
proof (induction qs arbitrary: i)
  case (Cons q qs)
  then show ?case by (cases i) (auto simp: ac_simps)
qed simp

lemma set_mset_concat_update:
  assumes "i < length qs"
  shows "mset (qs ! i @ concat (qs[i := []])) = mset (concat qs)"
  using mset_concat_update [OF assms, of "[]"] by (simp add: add.commute)

lemma ring_inv_run:
  assumes "ring_inv m a acc qs" and "i < length a"
  shows "distinct (qs ! i @ concat (qs[i := []]))" and "set (qs ! i) \<subseteq> set (concat qs)"
    and "set acc \<inter> set (qs ! i) = {}" and "distinct (qs ! i)"
proof -
  have d: "distinct (acc @ concat qs)" and l: "length qs = length a" using assms(1) by (auto simp: ring_inv_def)
  have m: "mset (qs ! i @ concat (qs[i := []])) = mset (concat qs)"
    using assms(2) l by (intro set_mset_concat_update) simp
  show "distinct (qs ! i @ concat (qs[i := []]))" using d m by (metis distinct_append mset_eq_imp_distinct_iff)
  then show "distinct (qs ! i)" by simp
  show "set (qs ! i) \<subseteq> set (concat qs)" using assms(2) l by (auto intro!: bexI [of _ "qs ! i"])
  then show "set acc \<inter> set (qs ! i) = {}" using d by auto
qed

lemma ring_inv_sub:
  assumes "ring_inv m a acc qs" and "i < length a" and "j < length a" and "i \<noteq> j"
  shows "set (qs ! i) \<inter> set (qs ! j) = {}"
proof -
  have "length qs = length a" using assms(1) by (simp add: ring_inv_def)
  then have "qs ! j \<in> set (qs[i := []])"
    using assms(3,4) by (metis length_list_update nth_list_update_neq nth_mem)
  then show ?thesis using ring_inv_run(1) [OF assms(1,2)] by auto
qed

text \<open>Taking the run of a slot and appending it to the collected run.\<close>

definition take_slot :: "nat \<Rightarrow> nbufs \<Rightarrow> addr list \<Rightarrow> addr list list \<Rightarrow> nbufs" where
  "take_slot i m acc qs = (if acc \<noteq> [] \<and> qs ! i \<noteq> [] then m(last acc := hd (qs ! i)) else m)"

lemma ring_inv_take:
  assumes "ring_inv m a acc qs" and "i < length a"
  shows "ring_inv (take_slot i m acc qs) (a[i := (NULL, NULL)]) (acc @ qs ! i) (qs[i := []])"
proof -
  have l: "length qs = length a" and d: "distinct (acc @ concat qs)" and n: "NULL \<notin> set (acc @ concat qs)"
    and s: "\<And>j. j < length a \<Longrightarrow> slot m (a ! j) (qs ! j)" and la: "linked m acc"
    using assms(1) by (auto simp: ring_inv_def)
  have m: "mset ((acc @ qs ! i) @ concat (qs[i := []])) = mset (acc @ concat qs)"
    using set_mset_concat_update [of i qs] assms(2) l by (simp add: add.assoc)
  have d': "distinct ((acc @ qs ! i) @ concat (qs[i := []]))"
    using d m by (metis mset_eq_imp_distinct_iff)
  have n': "NULL \<notin> set ((acc @ qs ! i) @ concat (qs[i := []]))"
    using n m by (metis mset_eq_setD)
  have "linked (take_slot i m acc qs) (acc @ qs ! i)"
  proof (cases "acc \<noteq> [] \<and> qs ! i \<noteq> []")
    case True
    have "linked m (qs ! i)" using s [OF assms(2)] by (simp add: slot_def)
    moreover have "distinct (acc @ qs ! i)" using d' by (metis distinct_append)
    ultimately show ?thesis using linked_join [OF la] True by (simp add: take_slot_def)
  next
    case False
    then show ?thesis using la s [OF assms(2)] by (auto simp: take_slot_def slot_def)
  qed
  moreover have "slot (take_slot i m acc qs) (a[i := (NULL, NULL)] ! j) (qs[i := []] ! j)" if "j < length a" for j
  proof (cases "j = i")
    case True
    then show ?thesis using that l by (simp add: slot_def)
  next
    case False
    have "acc \<noteq> [] \<Longrightarrow> last acc \<notin> set (qs ! j)"
      using ring_inv_run(3) [OF assms(1) that] last_in_set [of acc] by blast
    then have "linked (take_slot i m acc qs) (qs ! j) = linked m (qs ! j)"
      by (simp add: take_slot_def linked_update notin_butlast)
    then show ?thesis using s [OF that] False l that by (simp add: slot_def)
  qed
  ultimately show ?thesis using l d' n' by (simp add: ring_inv_def)
qed

text \<open>Taking a sequence of slots collects their runs in that order.\<close>

fun take_slots :: "nat list \<Rightarrow> nbufs \<Rightarrow> addr list \<Rightarrow> addr list list \<Rightarrow> nbufs" where
  "take_slots [] m acc qs = m"
| "take_slots (i # is) m acc qs = take_slots is (take_slot i m acc qs) (acc @ qs ! i) (qs[i := []])"

definition clear_slots :: "nat list \<Rightarrow> 'a \<Rightarrow> 'a list \<Rightarrow> 'a list" where
  "clear_slots is e xs = foldl (\<lambda>xs i. xs[i := e]) xs is"

definition runs :: "nat list \<Rightarrow> addr list list \<Rightarrow> addr list" where
  "runs is qs = concat (map (\<lambda>i. qs ! i) is)"

lemma runs_update: "i \<notin> set is \<Longrightarrow> runs is (qs[i := v]) = runs is qs"
  by (induction "is") (auto simp: runs_def)

lemma clear_slots_simps [simp]:
  "clear_slots [] e xs = xs" "clear_slots (i # is) e xs = clear_slots is e (xs[i := e])"
  "length (clear_slots is e xs) = length xs"
  by (simp_all add: clear_slots_def) (induction "is" arbitrary: xs, auto)

lemma clear_slots_nth:
  "j < length xs \<Longrightarrow> clear_slots is e xs ! j = (if j \<in> set is then e else xs ! j)"
proof (induction "is" arbitrary: xs)
  case (Cons i "is")
  then show ?case by (cases "j = i") auto
qed simp

lemma ring_inv_take_slots:
  "ring_inv m a acc qs \<Longrightarrow> distinct is \<Longrightarrow> (\<forall>i \<in> set is. i < length a) \<Longrightarrow>
     ring_inv (take_slots is m acc qs) (clear_slots is (NULL, NULL) a) (acc @ runs is qs) (clear_slots is [] qs)"
proof (induction "is" arbitrary: m a acc qs)
  case Nil
  then show ?case by (simp add: runs_def)
next
  case (Cons i "is")
  have "ring_inv (take_slot i m acc qs) (a[i := (NULL, NULL)]) (acc @ qs ! i) (qs[i := []])"
    using Cons.prems by (intro ring_inv_take) auto
  from Cons.IH [OF this] Cons.prems show ?case by (simp add: runs_update runs_def [of "i # is"] runs_def [of "is"])
    (simp add: runs_update [unfolded runs_def])
qed

end
