(* ===== verification/Txrx_Types.thy ===== *)
theory Txrx_Types
  imports Prelude
begin

text \<open>
  The enumerations that the receive path, the transmit path and the table of peers share (ol_txrx_ctrl_api.h,
  htt_common.h, wdi_out.h).
\<close>

datatype wlan_op_mode =
    wlan_op_mode_unknown
  | wlan_op_mode_ap
  | wlan_op_mode_ibss
  | wlan_op_mode_sta
  | wlan_op_mode_monitor
  | wlan_op_mode_ocb

datatype htt_sec_type =
    htt_sec_type_none
  | htt_sec_type_wep128
  | htt_sec_type_wep104
  | htt_sec_type_wep40
  | htt_sec_type_tkip
  | htt_sec_type_tkip_nomic
  | htt_sec_type_aes_ccmp
  | htt_sec_type_wapi

datatype ol_txrx_peer_state =
    ol_txrx_peer_state_invalid | ol_txrx_peer_state_disc | ol_txrx_peer_state_conn | ol_txrx_peer_state_auth

datatype wlan_frm_fmt =
    wlan_frm_fmt_unknown | wlan_frm_fmt_raw | wlan_frm_fmt_native_wifi | wlan_frm_fmt_802_3

end
