(* ===== verification/Rx_Reorder.thy ===== *)
theory Rx_Reorder
  imports Nbuf Txrx_Types
begin

text \<open>
  Block-ack reordering of received frames (CLD_TXRX/TXRX/ol_rx_reorder.c). Frames wait in the slots of
  a power-of-two array per traffic identifier until the target tells the host to release or flush a
  range of slots. An access outside an array, or a loop that does not end, gives \<open>None\<close>.
\<close>

section \<open>State\<close>

text \<open>
  \<^verbatim>\<open>struct ol_rx_reorder_t\<close>: \<open>array\<close> is the array the pointer \<^verbatim>\<open>array\<close> points to, which is the single
  element \<^verbatim>\<open>base\<close> when \<open>array_is_base\<close>; a slot is the pair of its head and tail.
\<close>

record ol_rx_reorder_t =
  win_sz :: u8
  win_sz_mask :: u8
  num_mpdus :: u8
  array_is_base :: bool
  array :: "(addr \<times> addr) list"
  defrag_timeout_ms :: u32
  reorder_tid :: u16

text \<open>\<^verbatim>\<open>struct ol_rx_reorder_record\<close>, \<^verbatim>\<open>struct ol_rx_reorder_history\<close>.\<close>

record ol_rx_reorder_record =
  msg_type :: u8
  rec_tid :: u8
  rec_peer_id :: u16
  start_seq :: u8
  end_seq :: u8
  reorder_idx :: u8

record ol_rx_reorder_history =
  curr_index :: u8
  wrap_around :: u8
  history :: "ol_rx_reorder_record list"

text \<open>\<^verbatim>\<open>union htt_rx_pn_t\<close> as its two 64-bit words, \<open>pn128[0]\<close> and \<open>pn128[1]\<close>.\<close>

type_synonym htt_rx_pn_t = "u64 \<times> u64"

text \<open>The elements of the array \<^verbatim>\<open>security\<close> of a peer, indexed by \<^verbatim>\<open>txrx_sec_mcast\<close> and \<^verbatim>\<open>txrx_sec_ucast\<close>.\<close>

record peer_security =
  sec_type :: htt_sec_type
  michael_key :: "u32 \<times> u32"

definition txrx_sec_mcast :: nat where "txrx_sec_mcast = 0"
definition txrx_sec_ucast :: nat where "txrx_sec_ucast = 1"

text \<open>The fields of \<^verbatim>\<open>struct ol_txrx_peer_t\<close> the receive path works on, one array per kind of data.\<close>

record ol_txrx_peer_t =
  local_id :: u16
  tids_rx_reorder :: "ol_rx_reorder_t list"
  tids_last_pn :: "htt_rx_pn_t list"
  tids_last_pn_valid :: "bool list"
  tids_next_rel_idx :: "u16 list"
  tids_last_seq :: "u16 list"
  tids_mcast_last_seq :: "u16 list"
  fw_pn_check :: bool
  security :: "peer_security list"
  keyinstalled :: u8
  reorder_history :: "ol_rx_reorder_history option"

text \<open>What the HTT accessors read from the receive descriptor of a buffer.\<close>

record rx_desc =
  desc_seq_num :: u16
  desc_tid :: u16
  desc_retry :: bool
  desc_is_frag :: bool
  desc_is_mcast :: bool
  desc_encrypted :: bool
  desc_last_msdu :: bool
  desc_pn :: htt_rx_pn_t

text \<open>
  The calls to other parts of the driver, in order: delivery of a list of buffers to \<^verbatim>\<open>rx_opt_proc\<close>,
  to the forwarding check or to the operating system, the return of a buffer, the error report to the control path, and the two timers.
\<close>

datatype rx_call =
    Rx_opt_proc nat addr
  | Frame_free addr
  | Rx_err_pn addr
  | Defrag_waitlist_remove nat
  | Reorder_timeout_remove nat
  | Reorder_timeout_update nat
  | Reorder_timeout_peer_cleanup
  | Addba_complete u8 bool
  | Rx_fwd_check nat addr
  | Rx_deliver nat addr

record rx_state =
  rx_peer :: ol_txrx_peer_t
  nbuf_next :: nbufs
  rx_calls :: "rx_call list"

datatype htt_rx_status = htt_rx_status_ok | htt_rx_status_err_replay

datatype htt_rx_flush_action = htt_rx_flush_release | htt_rx_flush_discard

definition IEEE80211_SEQ_MAX :: nat where "IEEE80211_SEQ_MAX = 4096"
definition OL_TXRX_NUM_EXT_TIDS :: nat where "OL_TXRX_NUM_EXT_TIDS = 19"
definition OL_RX_MCAST_TID :: u8 where "OL_RX_MCAST_TID = 18"
definition OL_MAX_RX_REORDER_HISTORY :: u8 where "OL_MAX_RX_REORDER_HISTORY = 50"

definition rx_log :: "rx_call \<Rightarrow> rx_state \<Rightarrow> rx_state" where
  "rx_log c s = s\<lparr>rx_calls := rx_calls s @ [c]\<rparr>"

section \<open>Operations\<close>

definition g_log2ceil :: "u8 list" where
  "g_log2ceil = [1, 1, 2] @ replicate 2 4 @ replicate 4 8 @ replicate 8 16 @ replicate 16 32 @ replicate 32 64"

definition ol_rx_reorder_init :: "u8 \<Rightarrow> ol_rx_reorder_t \<Rightarrow> ol_rx_reorder_t" where
  "ol_rx_reorder_init tid R = R\<lparr>win_sz := 1, win_sz_mask := 0, array_is_base := True,
     array := [(NULL, NULL)], reorder_tid := ucast tid, defrag_timeout_ms := 0\<rparr>"

definition ol_rx_reorder_update_history ::
  "u8 \<Rightarrow> u8 \<Rightarrow> u8 \<Rightarrow> u8 \<Rightarrow> u8 \<Rightarrow> ol_txrx_peer_t \<Rightarrow> ol_txrx_peer_t option" where
  "ol_rx_reorder_update_history mt tid ss es ri P = (case reorder_history P of
     None \<Rightarrow> Some P
   | Some H \<Rightarrow> do {
       let index = curr_index H;
       let H = H\<lparr>curr_index := curr_index H + 1\<rparr>;
       rs \<leftarrow> wr (history H) (unat index) \<lparr>msg_type = mt, rec_tid = tid, rec_peer_id = local_id P,
               start_seq = ss, end_seq = es, reorder_idx = ri\<rparr>;
       let H = H\<lparr>history := rs\<rparr>;
       Some (P\<lparr>reorder_history := Some
         (if curr_index H \<ge> OL_MAX_RX_REORDER_HISTORY then H\<lparr>curr_index := 0, wrap_around := 1\<rparr> else H)\<rparr>) })"

text \<open>
  \<^verbatim>\<open>tids_last_seq\<close> is promoted to \<^verbatim>\<open>unsigned\<close>, so the difference is taken modulo \<open>2 ^ 32\<close> before the
  mask.
\<close>

definition ol_rx_reorder_seq_num_check :: "nat \<Rightarrow> u32 \<Rightarrow> ol_txrx_peer_t \<Rightarrow> htt_rx_status option" where
  "ol_rx_reorder_seq_num_check tid seq_num P = do {
     last_seq \<leftarrow> rd (tids_last_seq P) tid;
     if last_seq = of_nat IEEE80211_SEQ_MAX then Some htt_rx_status_ok
     else let seq_num_delta = (seq_num - 1 - ucast last_seq) AND (of_nat IEEE80211_SEQ_MAX - 1)
          in Some (if unat seq_num_delta > IEEE80211_SEQ_MAX div 2 then htt_rx_status_err_replay
                   else htt_rx_status_ok) }"

definition ol_rx_seq_num_check :: "u8 \<Rightarrow> rx_desc \<Rightarrow> ol_txrx_peer_t \<Rightarrow> (htt_rx_status \<times> ol_txrx_peer_t) option" where
  "ol_rx_seq_num_check tid d P =
     (let seq_num = desc_seq_num d in
      if tid = OL_RX_MCAST_TID then
        (let pkt_tid = desc_tid d in
         if unat pkt_tid \<ge> OL_TXRX_NUM_EXT_TIDS then Some (htt_rx_status_ok, P)
         else do {
           last \<leftarrow> rd (tids_mcast_last_seq P) (unat pkt_tid);
           if desc_retry d \<and> seq_num = last then Some (htt_rx_status_err_replay, P)
           else Some (htt_rx_status_ok,
                  P\<lparr>tids_mcast_last_seq := (tids_mcast_last_seq P)[unat pkt_tid := seq_num]\<rparr>) })
      else do { st \<leftarrow> ol_rx_reorder_seq_num_check (unat tid) (ucast seq_num) P; Some (st, P) })"

definition set_array :: "nat \<Rightarrow> (addr \<times> addr) list \<Rightarrow> rx_state \<Rightarrow> rx_state" where
  "set_array tid a s = s\<lparr>rx_peer := (rx_peer s)\<lparr>tids_rx_reorder :=
     (tids_rx_reorder (rx_peer s))[tid := (tids_rx_reorder (rx_peer s) ! tid)\<lparr>array := a\<rparr>]\<rparr>\<rparr>"

definition ol_rx_reorder_store :: "nat \<Rightarrow> u32 \<Rightarrow> addr \<Rightarrow> addr \<Rightarrow> rx_state \<Rightarrow> rx_state option" where
  "ol_rx_reorder_store tid idx head_msdu tail_msdu s = do {
     R \<leftarrow> rd (tids_rx_reorder (rx_peer s)) tid;
     let i = unat (idx AND ucast (win_sz_mask R));
     (h, t) \<leftarrow> rd (array R) i;
     let s = (if h \<noteq> NULL then s\<lparr>nbuf_next := (nbuf_next s)(t := head_msdu)\<rparr> else s);
     Some (set_array tid ((array R)[i := (if h \<noteq> NULL then h else head_msdu, tail_msdu)]) s) }"

text \<open>The loop of \<^verbatim>\<open>ol_rx_reorder_release\<close> over the slots behind the first.\<close>

partial_function (option) ol_rx_reorder_release_loop ::
  "u32 \<Rightarrow> u32 \<Rightarrow> u32 \<Rightarrow> (addr \<times> addr) list \<Rightarrow> addr \<Rightarrow> nbufs \<Rightarrow> ((addr \<times> addr) list \<times> addr \<times> nbufs) option" where
  "ol_rx_reorder_release_loop wmask idx_end idx a tail_msdu m =
     (if idx \<noteq> idx_end then do {
        e \<leftarrow> rd a (unat idx);
        ol_rx_reorder_release_loop wmask idx_end ((idx + 1) AND wmask) (a[unat idx := (NULL, NULL)])
          (if fst e \<noteq> NULL then snd e else tail_msdu)
          (if fst e \<noteq> NULL \<and> tail_msdu \<noteq> NULL then m(tail_msdu := fst e) else m) }
      else Some (a, tail_msdu, m))"

definition ol_rx_reorder_release ::
  "(addr \<Rightarrow> rx_desc) \<Rightarrow> nat \<Rightarrow> u32 \<Rightarrow> u32 \<Rightarrow> rx_state \<Rightarrow> rx_state option" where
  "ol_rx_reorder_release D tid idx_start idx_end s = do {
     rel \<leftarrow> wr (tids_next_rel_idx (rx_peer s)) tid (ucast idx_end);
     let s = s\<lparr>rx_peer := (rx_peer s)\<lparr>tids_next_rel_idx := rel\<rparr>\<rparr>;
     R \<leftarrow> rd (tids_rx_reorder (rx_peer s)) tid;
     let wmask = ucast (win_sz_mask R);
     let idx_start = idx_start AND wmask;
     let idx_end = idx_end AND wmask;
     (head_msdu, tail_msdu) \<leftarrow> rd (array R) (unat idx_start);
     (a, tail_msdu, m) \<leftarrow> ol_rx_reorder_release_loop wmask idx_end ((idx_start + 1) AND wmask)
        ((array R)[unat idx_start := (NULL, NULL)]) tail_msdu (nbuf_next s);
     let s = (set_array tid a s)\<lparr>nbuf_next := m\<rparr>;
     s \<leftarrow> (if head_msdu \<noteq> NULL then do {
             ls \<leftarrow> wr (tids_last_seq (rx_peer s)) tid (desc_seq_num (D head_msdu));
             Some (rx_log (Rx_opt_proc tid head_msdu)
               (s\<lparr>rx_peer := (rx_peer s)\<lparr>tids_last_seq := ls\<rparr>, nbuf_next := m(tail_msdu := NULL)\<rparr>)) }
           else Some s);
     Some (rx_log (Reorder_timeout_remove tid) s) }"

text \<open>The two loops of \<^verbatim>\<open>ol_rx_reorder_flush\<close>: collecting the slots, and freeing a list of buffers.\<close>

partial_function (option) ol_rx_reorder_flush_loop ::
  "u32 \<Rightarrow> u32 \<Rightarrow> u32 \<Rightarrow> (addr \<times> addr) list \<Rightarrow> addr \<Rightarrow> addr \<Rightarrow> nbufs
     \<Rightarrow> ((addr \<times> addr) list \<times> addr \<times> addr \<times> nbufs) option" where
  "ol_rx_reorder_flush_loop wmask idx_end idx a head_msdu tail_msdu m = do {
     e \<leftarrow> rd a (unat idx);
     let idx' = (idx + 1) AND wmask;
     let a' = (if fst e \<noteq> NULL then a[unat idx := (NULL, NULL)] else a);
     let h' = (if fst e \<noteq> NULL \<and> head_msdu = NULL then fst e else head_msdu);
     let t' = (if fst e \<noteq> NULL then snd e else tail_msdu);
     let m' = (if fst e \<noteq> NULL \<and> head_msdu \<noteq> NULL then m(tail_msdu := fst e) else m);
     if idx' \<noteq> idx_end then ol_rx_reorder_flush_loop wmask idx_end idx' a' h' t' m'
     else Some (a', h', t', m') }"

partial_function (option) frames_free_loop :: "nbufs \<Rightarrow> addr \<Rightarrow> rx_call list \<Rightarrow> rx_call list option" where
  "frames_free_loop m head_msdu calls =
     (if m head_msdu \<noteq> NULL then frames_free_loop m (m head_msdu) (calls @ [Frame_free head_msdu])
      else Some (calls @ [Frame_free head_msdu]))"

definition ol_rx_reorder_flush ::
  "(addr \<Rightarrow> rx_desc) \<Rightarrow> nat \<Rightarrow> u32 \<Rightarrow> u32 \<Rightarrow> htt_rx_flush_action \<Rightarrow> rx_state \<Rightarrow> rx_state option" where
  "ol_rx_reorder_flush D tid idx_start idx_end action s = do {
     R \<leftarrow> rd (tids_rx_reorder (rx_peer s)) tid;
     let wmask = ucast (win_sz_mask R);
     rel \<leftarrow> wr (tids_next_rel_idx (rx_peer s)) tid (if idx_end = 0xffff then 0 else ucast idx_end);
     let s = s\<lparr>rx_peer := (rx_peer s)\<lparr>tids_next_rel_idx := rel\<rparr>\<rparr>;
     let idx_end = (if idx_end = 0xffff then idx_start else idx_end) AND wmask;
     let idx_start = idx_start AND wmask;
     (a, head_msdu, tail_msdu, m) \<leftarrow> ol_rx_reorder_flush_loop wmask idx_end idx_start (array R) NULL NULL (nbuf_next s);
     let s = rx_log (Defrag_waitlist_remove tid) ((set_array tid a s)\<lparr>nbuf_next := m\<rparr>);
     s \<leftarrow> (if head_msdu \<noteq> NULL then do {
             ls \<leftarrow> wr (tids_last_seq (rx_peer s)) tid (desc_seq_num (D head_msdu));
             let m = m(tail_msdu := NULL);
             let s = s\<lparr>rx_peer := (rx_peer s)\<lparr>tids_last_seq := ls\<rparr>, nbuf_next := m\<rparr>;
             if action = htt_rx_flush_release then Some (rx_log (Rx_opt_proc tid head_msdu) s)
             else do { cs \<leftarrow> frames_free_loop m head_msdu (rx_calls s); Some (s\<lparr>rx_calls := cs\<rparr>) } }
           else Some s);
     Some (rx_log (Reorder_timeout_remove tid) s) }"

text \<open>The two scans of \<^verbatim>\<open>ol_rx_reorder_first_hole\<close>: over slots that are empty, then over slots that are not.\<close>

partial_function (option) first_hole_loop :: "u32 \<Rightarrow> u32 \<Rightarrow> (addr \<times> addr) list \<Rightarrow> bool \<Rightarrow> u32 \<Rightarrow> u32 option" where
  "first_hole_loop wmask idx_start a present tmp_idx =
     (if tmp_idx \<noteq> idx_start then do {
        e \<leftarrow> rd a (unat tmp_idx);
        if (fst e \<noteq> NULL) = present then first_hole_loop wmask idx_start a present ((tmp_idx + 1) AND wmask)
        else Some tmp_idx }
      else Some tmp_idx)"

definition ol_rx_reorder_first_hole :: "nat \<Rightarrow> ol_txrx_peer_t \<Rightarrow> u32 option" where
  "ol_rx_reorder_first_hole tid P = do {
     R \<leftarrow> rd (tids_rx_reorder P) tid;
     let wmask = ucast (win_sz_mask R);
     tmp_idx \<leftarrow> first_hole_loop wmask 0 (array R) False (1 AND wmask);
     first_hole_loop wmask 0 (array R) True tmp_idx }"

definition ol_rx_reorder_peer_cleanup :: "(addr \<Rightarrow> rx_desc) \<Rightarrow> rx_state \<Rightarrow> rx_state option" where
  "ol_rx_reorder_peer_cleanup D s = do {
     s \<leftarrow> for_each [0..<OL_TXRX_NUM_EXT_TIDS] (\<lambda>tid s. ol_rx_reorder_flush D tid 0 0 htt_rx_flush_discard s) s;
     Some (rx_log Reorder_timeout_peer_cleanup s) }"

text \<open>
  The handlers of target messages, for a peer that \<^verbatim>\<open>ol_txrx_peer_find_by_id\<close> finds (for another peer
  they return at once). \<open>host_addba\<close> is a flag of the configuration; the allocation succeeds or the
  kernel stops at the assertion. The reorder table is addressed before the window size is checked by
  anything but a debug assertion, so a window above 64 reads outside it.
\<close>

definition ol_rx_addba_handler :: "bool \<Rightarrow> u8 \<Rightarrow> u8 \<Rightarrow> bool \<Rightarrow> rx_state \<Rightarrow> rx_state option" where
  "ol_rx_addba_handler host_addba tid wsz failed s = do {
     let s = (if host_addba then rx_log (Addba_complete tid failed) s else s);
     if failed then Some s
     else do {
       ls \<leftarrow> wr (tids_last_seq (rx_peer s)) (unat tid) (of_nat IEEE80211_SEQ_MAX);
       R \<leftarrow> rd (tids_rx_reorder (rx_peer s)) (unat tid);
       round_pwr2_win_sz \<leftarrow> rd g_log2ceil (unat wsz);
       let R = R\<lparr>win_sz := wsz, array := replicate (unat round_pwr2_win_sz) (NULL, NULL), array_is_base := False,
                 win_sz_mask := round_pwr2_win_sz - 1, num_mpdus := 0\<rparr>;
       rel \<leftarrow> wr (tids_next_rel_idx (rx_peer s)) (unat tid) 0;
       Some (s\<lparr>rx_peer := (rx_peer s)\<lparr>tids_last_seq := ls,
         tids_rx_reorder := (tids_rx_reorder (rx_peer s))[unat tid := R], tids_next_rel_idx := rel\<rparr>\<rparr>) } }"

definition ol_rx_delba_handler :: "u8 \<Rightarrow> rx_state \<Rightarrow> rx_state option" where
  "ol_rx_delba_handler tid s = do {
     rel \<leftarrow> wr (tids_next_rel_idx (rx_peer s)) (unat tid) 0xffff;
     R \<leftarrow> rd (tids_rx_reorder (rx_peer s)) (unat tid);
     Some (s\<lparr>rx_peer := (rx_peer s)\<lparr>tids_next_rel_idx := rel,
       tids_rx_reorder := (tids_rx_reorder (rx_peer s))[unat tid := ol_rx_reorder_init tid R]\<rparr>\<rparr>) }"

text \<open>\<^verbatim>\<open>ol_rx_frames_free\<close> of ol_rx.c, and \<^verbatim>\<open>ol_rx_reorder_flush_frag\<close> of ol_rx_defrag.c.\<close>

partial_function (option) ol_rx_frames_free :: "nbufs \<Rightarrow> addr \<Rightarrow> rx_call list \<Rightarrow> rx_call list option" where
  "ol_rx_frames_free m frag calls =
     (if frag \<noteq> NULL then ol_rx_frames_free m (m frag) (calls @ [Frame_free frag]) else Some calls)"

definition ol_rx_reorder_flush_frag :: "nat \<Rightarrow> u32 \<Rightarrow> rx_state \<Rightarrow> rx_state option" where
  "ol_rx_reorder_flush_frag tid seq_num s = do {
     R \<leftarrow> rd (tids_rx_reorder (rx_peer s)) tid;
     let i = unat (seq_num AND ucast (win_sz_mask R));
     (h, t) \<leftarrow> rd (array R) i;
     if h \<noteq> NULL then do {
       cs \<leftarrow> ol_rx_frames_free (nbuf_next s) h (rx_calls s);
       Some (set_array tid ((array R)[i := (NULL, NULL)]) (s\<lparr>rx_calls := cs\<rparr>)) }
     else Some s }"

definition ol_rx_flush_handler ::
  "(addr \<Rightarrow> rx_desc) \<Rightarrow> u8 \<Rightarrow> u16 \<Rightarrow> u16 \<Rightarrow> htt_rx_flush_action \<Rightarrow> rx_state \<Rightarrow> rx_state option" where
  "ol_rx_flush_handler D tid idx_start idx_end action s = do {
     R \<leftarrow> rd (tids_rx_reorder (rx_peer s)) (unat tid);
     (h, t) \<leftarrow> rd (array R) (unat (idx_start AND ucast (win_sz_mask R)));
     if h \<noteq> NULL \<and> desc_is_frag (D h) then ol_rx_reorder_flush_frag (unat tid) (ucast idx_start) s
     else do {
       s \<leftarrow> ol_rx_reorder_flush D (unat tid) (ucast idx_start) (ucast idx_end) action s;
       Some (rx_log (Reorder_timeout_update (unat tid)) s) } }"

text \<open>
  The loop of \<^verbatim>\<open>ol_rx_pn_ind_handler\<close> over the slots: a slot the target lists in \<open>pn_ie\<close> failed its packet
  number check and is freed, the others are collected. \<open>i\<close> counts the listed slots met so far.
\<close>

partial_function (option) pn_ind_free_loop :: "nbufs \<Rightarrow> addr \<Rightarrow> addr \<Rightarrow> rx_call list \<Rightarrow> rx_call list option" where
  "pn_ind_free_loop m msdu mpdu_tail calls =
     (if msdu = mpdu_tail then Some (calls @ [Frame_free msdu])
      else pn_ind_free_loop m (m msdu) mpdu_tail (calls @ [Frame_free msdu]))"

partial_function (option) ol_rx_pn_ind_loop ::
  "u32 \<Rightarrow> u32 \<Rightarrow> u8 list \<Rightarrow> u32 \<Rightarrow> u8 \<Rightarrow> nat \<Rightarrow> (addr \<times> addr) list \<Rightarrow> addr \<Rightarrow> addr \<Rightarrow> nbufs \<Rightarrow> rx_call list
     \<Rightarrow> ((addr \<times> addr) list \<times> addr \<times> addr \<times> nbufs \<times> rx_call list) option" where
  "ol_rx_pn_ind_loop wmask seq_num_end pn_ie seq_num pn_ie_cnt i a head_msdu tail_msdu m calls = do {
     e \<leftarrow> rd a (unat seq_num);
     bad \<leftarrow> (if fst e \<noteq> NULL \<and> pn_ie_cnt \<noteq> 0 then do { v \<leftarrow> rd pn_ie i; Some (ucast v = seq_num) }
             else Some False);
     cs \<leftarrow> (if bad then pn_ind_free_loop m (fst e) (snd e) (calls @ [Rx_err_pn (fst e)]) else Some calls);
     let good = (fst e \<noteq> NULL \<and> \<not> bad);
     let a' = (if fst e \<noteq> NULL then a[unat seq_num := (NULL, NULL)] else a);
     let h' = (if good \<and> head_msdu = NULL then fst e else head_msdu);
     let t' = (if good then snd e else tail_msdu);
     let m' = (if good \<and> head_msdu \<noteq> NULL then m(tail_msdu := fst e) else m);
     let cnt' = (if bad then pn_ie_cnt - 1 else pn_ie_cnt);
     let i' = (if bad then i + 1 else i);
     let seq_num' = (seq_num + 1) AND wmask;
     if seq_num' \<noteq> seq_num_end then ol_rx_pn_ind_loop wmask seq_num_end pn_ie seq_num' cnt' i' a' h' t' m' cs
     else Some (a', h', t', m', cs) }"

definition ol_rx_pn_ind_handler :: "u8 \<Rightarrow> u32 \<Rightarrow> u32 \<Rightarrow> u8 \<Rightarrow> u8 list \<Rightarrow> rx_state \<Rightarrow> rx_state option" where
  "ol_rx_pn_ind_handler tid seq_num_start seq_num_end pn_ie_cnt pn_ie s = do {
     let s = s\<lparr>rx_peer := (rx_peer s)\<lparr>fw_pn_check := True\<rparr>\<rparr>;
     R \<leftarrow> rd (tids_rx_reorder (rx_peer s)) (unat tid);
     let wmask = ucast (win_sz_mask R);
     let seq_num_start = seq_num_start AND wmask;
     let seq_num_end = seq_num_end AND wmask;
     (a, head_msdu, tail_msdu, m, cs) \<leftarrow> ol_rx_pn_ind_loop wmask seq_num_end pn_ie seq_num_start pn_ie_cnt 0
        (array R) NULL NULL (nbuf_next s) (rx_calls s);
     let s = (set_array (unat tid) a s)\<lparr>nbuf_next := m, rx_calls := cs\<rparr>;
     Some (if head_msdu \<noteq> NULL
           then rx_log (Rx_opt_proc (unat tid) head_msdu) (s\<lparr>nbuf_next := m(tail_msdu := NULL)\<rparr>) else s) }"

end
