(* ===== verification/Rx_Window.thy ===== *)
theory Rx_Window
  imports Rx_Reorder
begin

text \<open>
  The reorder windows of the receive path, proved: which slots a request covers, what the loops of
  ol_rx_reorder.c collect from them, and the properties of store, release, flush and of the
  block-ack handlers.
\<close>

section \<open>The slots a range visits\<close>

text \<open>
  The \<open>n\<close> slots from \<open>i\<close> on, around an array of \<open>W\<close> slots, and the number of slots from \<open>s\<close> up to but not
  including \<open>e\<close>, where a range from a slot to itself is the whole array.
\<close>

definition visits :: "nat \<Rightarrow> nat \<Rightarrow> nat \<Rightarrow> nat list" where
  "visits W i n = map (\<lambda>k. (i + k) mod W) [0..<n]"

definition range_len :: "nat \<Rightarrow> nat \<Rightarrow> nat \<Rightarrow> nat" where
  "range_len W s e = (e + W - s - 1) mod W + 1"

lemma visits_0 [simp]: "visits W i 0 = []"
  by (simp add: visits_def)

lemma visits_Suc: "i < W \<Longrightarrow> visits W i (Suc n) = i # visits W ((i + 1) mod W) n"
proof -
  assume "i < W"
  have "map (\<lambda>k. (i + k) mod W) [0..<Suc n] = (i + 0) mod W # map (\<lambda>k. (i + Suc k) mod W) [0..<n]"
    by (simp add: upt_conv_Cons map_Suc_upt [symmetric] del: upt_Suc)
  then show ?thesis using \<open>i < W\<close> by (simp add: visits_def mod_simps del: upt_Suc)
qed

lemma visits_in: "0 < W \<Longrightarrow> j \<in> set (visits W i n) \<Longrightarrow> j < W"
  by (auto simp: visits_def)

lemma distinct_visits:
  assumes "n \<le> W" shows "distinct (visits W i n)"
proof -
  have "inj_on (\<lambda>k. (i + k) mod W) {0..<n}"
  proof (rule inj_onI)
    fix x y assume "x \<in> {0..<n}" "y \<in> {0..<n}" and e: "(i + x) mod W = (i + y) mod W"
    then have W: "x < W" "y < W" using assms by auto
    have "u = v" if "u \<le> v" "v < W" "(i + u) mod W = (i + v) mod W" for u v
    proof -
      have "W dvd (i + v) - (i + u)" using that by (subst mod_eq_dvd_iff_nat [symmetric]) auto
      then have "W dvd v - u" by simp
      then show ?thesis using that by (cases "v - u = 0") (auto dest: dvd_imp_le)
    qed
    then show "x = y" using e W by (metis nat_le_linear)
  qed
  then show ?thesis by (simp add: visits_def distinct_map)
qed

lemma range_len_facts:
  assumes "s < W" and "e < W"
  shows "0 < range_len W s e" and "range_len W s e \<le> W" and "(s + range_len W s e) mod W = e"
    and "0 < k \<Longrightarrow> k < range_len W s e \<Longrightarrow> (s + k) mod W \<noteq> e"
proof -
  have small: "x mod W = (if x < W then x else x - W)" if "x < 2 * W" for x
    using that by (simp add: le_mod_geq)
  have r: "range_len W s e = (if s < e then e - s else e + W - s)"
    using assms by (auto simp: range_len_def small)
  show "0 < range_len W s e" and "range_len W s e \<le> W" using assms by (auto simp: r)
  show "(s + range_len W s e) mod W = e" using assms by (simp add: r small)
  show "(s + k) mod W \<noteq> e" if "0 < k" "k < range_len W s e"
  proof -
    have "s + k < 2 * W" using that assms r by (auto split: if_splits)
    then show ?thesis using that assms r by (auto simp: small split: if_splits)
  qed
qed

lemma unat_next:
  fixes idx w :: u32
  assumes "unat w = 2 ^ k - 1" and "unat idx < 2 ^ k" and "2 ^ k \<le> (256 :: nat)"
  shows "unat ((idx + 1) AND w) = (unat idx + 1) mod 2 ^ k"
proof -
  have "unat (idx + 1) = Suc (unat idx)" using assms by (intro unat_inc) simp
  then show ?thesis using unat_and_window [OF assms(1), of "idx + 1"] by simp
qed

section \<open>The loops under the invariant\<close>

definition run_ends :: "addr list \<Rightarrow> addr \<times> addr" where
  "run_ends xs = (if xs = [] then (NULL, NULL) else (hd xs, last xs))"

lemma ring_slot: "ring_inv m a acc qs \<Longrightarrow> i < length a \<Longrightarrow> a ! i = run_ends (qs ! i)"
  by (simp add: ring_inv_def slot_def run_ends_def)

lemma run_ends_null:
  assumes "NULL \<notin> set xs" shows "fst (run_ends xs) = NULL \<longleftrightarrow> xs = []" "snd (run_ends xs) = NULL \<longleftrightarrow> xs = []"
proof -
  have "xs \<noteq> [] \<Longrightarrow> hd xs \<noteq> NULL" "xs \<noteq> [] \<Longrightarrow> last xs \<noteq> NULL"
    using assms by (metis hd_in_set, metis last_in_set)
  then show "fst (run_ends xs) = NULL \<longleftrightarrow> xs = []" "snd (run_ends xs) = NULL \<longleftrightarrow> xs = []"
    by (auto simp: run_ends_def)
qed

lemma ring_null: "ring_inv m a acc qs \<Longrightarrow> NULL \<notin> set acc" "ring_inv m a acc qs \<Longrightarrow> i < length a \<Longrightarrow> NULL \<notin> set (qs ! i)"
  by (auto simp: ring_inv_def)

lemma release_loop_eq:
  assumes "W = 2 ^ k" and "unat w = W - 1" and "W \<le> 256"
  shows "ring_inv m a acc qs \<Longrightarrow> length a = W \<Longrightarrow> unat idx < W \<Longrightarrow> (unat idx + n) mod W = unat idx_end \<Longrightarrow>
    (\<forall>j < n. (unat idx + j) mod W \<noteq> unat idx_end) \<Longrightarrow> n \<le> W \<Longrightarrow> unat idx_end < W \<Longrightarrow>
    ol_rx_reorder_release_loop w idx_end idx a (snd (run_ends acc)) m =
      Some (clear_slots (visits W (unat idx) n) (NULL, NULL) a,
            snd (run_ends (acc @ runs (visits W (unat idx) n) qs)), take_slots (visits W (unat idx) n) m acc qs)"
proof (induction n arbitrary: idx a acc qs m)
  case 0
  then have "idx = idx_end" by simp
  then show ?case by (simp add: ol_rx_reorder_release_loop.simps runs_def)
next
  case (Suc n)
  let ?i = "unat idx" and ?idx = "(idx + 1) AND w"
  have ne: "idx \<noteq> idx_end" using Suc.prems(3,5) by force
  have i': "unat ?idx = (?i + 1) mod W" using unat_next [of w k idx] assms Suc.prems(3) by simp
  have v: "visits W ?i (Suc n) = ?i # visits W (unat ?idx) n" using Suc.prems(3) i' by (simp add: visits_Suc)
  have dv: "?i \<notin> set (visits W (unat ?idx) n)"
    using distinct_visits [OF Suc.prems(6), of ?i] v by simp
  have e: "a ! ?i = run_ends (qs ! ?i)" using ring_slot [OF Suc.prems(1)] Suc.prems(2,3) by simp
  have n1: "NULL \<notin> set acc" "NULL \<notin> set (qs ! ?i)" using ring_null [OF Suc.prems(1)] Suc.prems(2,3) by auto
  let ?a = "a[?i := (NULL, NULL)]" and ?m = "take_slot ?i m acc qs"
  have step: "ol_rx_reorder_release_loop w idx_end idx a (snd (run_ends acc)) m =
      ol_rx_reorder_release_loop w idx_end ?idx ?a (snd (run_ends (acc @ qs ! ?i))) ?m"
    using ne Suc.prems(2,3) run_ends_null [OF n1(1)] run_ends_null [OF n1(2)]
    by (subst ol_rx_reorder_release_loop.simps) (auto simp: e take_slot_def run_ends_def)
  have "ol_rx_reorder_release_loop w idx_end ?idx ?a (snd (run_ends (acc @ qs ! ?i))) ?m =
      Some (clear_slots (visits W (unat ?idx) n) (NULL, NULL) ?a,
        snd (run_ends ((acc @ qs ! ?i) @ runs (visits W (unat ?idx) n) (qs[?i := []]))),
        take_slots (visits W (unat ?idx) n) ?m (acc @ qs ! ?i) (qs[?i := []]))"
  proof (rule Suc.IH)
    show "ring_inv ?m ?a (acc @ qs ! ?i) (qs[?i := []])"
      using Suc.prems by (intro ring_inv_take) auto
    show "(unat ?idx + n) mod W = unat idx_end" using Suc.prems(4) i' by (simp add: mod_simps)
    show "\<forall>j<n. (unat ?idx + j) mod W \<noteq> unat idx_end"
    proof (intro allI impI)
      fix j assume "j < n"
      then have "(?i + Suc j) mod W \<noteq> unat idx_end" using Suc.prems(5) by blast
      then show "(unat ?idx + j) mod W \<noteq> unat idx_end" using i' by (simp add: mod_simps)
    qed
  qed (use Suc.prems i' assms(1) in auto)
  then show ?case using step v dv by (simp add: runs_update) (simp add: runs_def)
qed

text \<open>One turn of the collecting loops, on the first and last buffer of the collected run.\<close>

lemma flush_step:
  assumes "ring_inv m a acc qs" and "i < length a"
  shows "rd a i = Some (run_ends (qs ! i))"
    and "(if fst (run_ends (qs ! i)) \<noteq> NULL then a[i := (NULL, NULL)] else a) = a[i := (NULL, NULL)]"
    and "(if fst (run_ends (qs ! i)) \<noteq> NULL \<and> fst (run_ends acc) = NULL then fst (run_ends (qs ! i))
          else fst (run_ends acc)) = fst (run_ends (acc @ qs ! i))"
    and "(if fst (run_ends (qs ! i)) \<noteq> NULL then snd (run_ends (qs ! i)) else snd (run_ends acc)) =
          snd (run_ends (acc @ qs ! i))"
    and "(if fst (run_ends (qs ! i)) \<noteq> NULL \<and> fst (run_ends acc) \<noteq> NULL
          then m(snd (run_ends acc) := fst (run_ends (qs ! i))) else m) = take_slot i m acc qs"
proof -
  have n: "NULL \<notin> set acc" "NULL \<notin> set (qs ! i)" using ring_null [OF assms(1)] assms(2) by auto
  note e = run_ends_null [OF n(1)] run_ends_null [OF n(2)]
  have s: "a ! i = run_ends (qs ! i)" by (rule ring_slot [OF assms])
  then show "rd a i = Some (run_ends (qs ! i))" using assms(2) by simp
  have "qs ! i = [] \<Longrightarrow> a[i := (NULL, NULL)] = a" using s by (metis list_update_id run_ends_def)
  then show "(if fst (run_ends (qs ! i)) \<noteq> NULL then a[i := (NULL, NULL)] else a) = a[i := (NULL, NULL)]"
    using e by simp
  show "(if fst (run_ends (qs ! i)) \<noteq> NULL \<and> fst (run_ends acc) = NULL then fst (run_ends (qs ! i))
          else fst (run_ends acc)) = fst (run_ends (acc @ qs ! i))"
    using e by (auto simp: run_ends_def split: if_splits)
  show "(if fst (run_ends (qs ! i)) \<noteq> NULL then snd (run_ends (qs ! i)) else snd (run_ends acc)) =
          snd (run_ends (acc @ qs ! i))"
    using e by (auto simp: run_ends_def split: if_splits)
  show "(if fst (run_ends (qs ! i)) \<noteq> NULL \<and> fst (run_ends acc) \<noteq> NULL
          then m(snd (run_ends acc) := fst (run_ends (qs ! i))) else m) = take_slot i m acc qs"
    using e by (auto simp: run_ends_def take_slot_def split: if_splits)
qed

lemma flush_loop_eq:
  assumes "W = 2 ^ k" and "unat w = W - 1" and "W \<le> 256"
  shows "ring_inv m a acc qs \<Longrightarrow> length a = W \<Longrightarrow> unat idx < W \<Longrightarrow> (unat idx + Suc n) mod W = unat idx_end \<Longrightarrow>
    (\<forall>j \<le> n. 0 < j \<longrightarrow> (unat idx + j) mod W \<noteq> unat idx_end) \<Longrightarrow> Suc n \<le> W \<Longrightarrow> unat idx_end < W \<Longrightarrow>
    ol_rx_reorder_flush_loop w idx_end idx a (fst (run_ends acc)) (snd (run_ends acc)) m =
      (let vs = visits W (unat idx) (Suc n) in
      Some (clear_slots vs (NULL, NULL) a, fst (run_ends (acc @ runs vs qs)),
            snd (run_ends (acc @ runs vs qs)), take_slots vs m acc qs))"
proof (induction n arbitrary: idx a acc qs m)
  case 0
  let ?i = "unat idx" and ?idx = "(idx + 1) AND w"
  have i': "unat ?idx = (?i + 1) mod W" using unat_next [of w k idx] assms 0(3) by simp
  then have "unat ?idx = unat idx_end" using 0(4) by simp
  then have e: "?idx = idx_end" by simp
  have il: "?i < length a" using 0 by simp
  have "ol_rx_reorder_flush_loop w idx_end idx a (fst (run_ends acc)) (snd (run_ends acc)) m =
      Some (a[?i := (NULL, NULL)], fst (run_ends (acc @ qs ! ?i)), snd (run_ends (acc @ qs ! ?i)), take_slot ?i m acc qs)"
    by (subst ol_rx_reorder_flush_loop.simps)
      (simp only: flush_step [OF 0(1) il] Let_def bind.simps e, simp)
  then show ?case using 0(3) by (simp add: Let_def visits_Suc runs_def)
next
  case (Suc n)
  let ?i = "unat idx" and ?idx = "(idx + 1) AND w"
  have i': "unat ?idx = (?i + 1) mod W" using unat_next [of w k idx] assms Suc.prems(3) by simp
  then have ne: "?idx \<noteq> idx_end" using Suc.prems(5) by force
  have il: "?i < length a" using Suc.prems by simp
  have v: "visits W ?i (Suc (Suc n)) = ?i # visits W (unat ?idx) (Suc n)"
    using Suc.prems(3) i' visits_Suc [of ?i W "Suc n"] by simp
  have dv: "?i \<notin> set (visits W (unat ?idx) (Suc n))"
    using distinct_visits [OF Suc.prems(6), of ?i] v by simp
  let ?a = "a[?i := (NULL, NULL)]" and ?m = "take_slot ?i m acc qs" and ?vs = "visits W (unat ?idx) (Suc n)"
  have step: "ol_rx_reorder_flush_loop w idx_end idx a (fst (run_ends acc)) (snd (run_ends acc)) m =
      ol_rx_reorder_flush_loop w idx_end ?idx ?a (fst (run_ends (acc @ qs ! ?i))) (snd (run_ends (acc @ qs ! ?i))) ?m"
    by (subst ol_rx_reorder_flush_loop.simps)
      (simp only: flush_step [OF Suc.prems(1) il] Let_def bind.simps ne not_False_eq_True if_True)
  have "ol_rx_reorder_flush_loop w idx_end ?idx ?a (fst (run_ends (acc @ qs ! ?i))) (snd (run_ends (acc @ qs ! ?i))) ?m =
      (let vs = ?vs in Some (clear_slots vs (NULL, NULL) ?a, fst (run_ends ((acc @ qs ! ?i) @ runs vs (qs[?i := []]))),
            snd (run_ends ((acc @ qs ! ?i) @ runs vs (qs[?i := []]))), take_slots vs ?m (acc @ qs ! ?i) (qs[?i := []])))"
  proof (rule Suc.IH)
    show "ring_inv ?m ?a (acc @ qs ! ?i) (qs[?i := []])" by (rule ring_inv_take [OF Suc.prems(1) il])
    show "(unat ?idx + Suc n) mod W = unat idx_end"
      using Suc.prems(4) i' mod_add_left_eq [of "?i + 1" W "Suc n"] by simp
    show "\<forall>j\<le>n. 0 < j \<longrightarrow> (unat ?idx + j) mod W \<noteq> unat idx_end"
    proof (intro allI impI)
      fix j assume "j \<le> n" "0 < j"
      then have "(?i + Suc j) mod W \<noteq> unat idx_end" using Suc.prems(5) by auto
      then show "(unat ?idx + j) mod W \<noteq> unat idx_end" using i' by (simp add: mod_simps)
    qed
  qed (use Suc.prems i' assms(1) in auto)
  then show ?case using step v dv
    by (simp add: Let_def runs_update) (simp add: runs_def)
qed

lemma frames_free_loop_eq:
  "nlist m h xs \<Longrightarrow> xs \<noteq> [] \<Longrightarrow> frames_free_loop m h cs = Some (cs @ map Frame_free xs)"
proof (induction xs arbitrary: h cs)
  case (Cons x xs)
  show ?case
  proof (cases xs)
    case Nil
    then show ?thesis using Cons.prems by (subst frames_free_loop.simps) simp
  next
    case (Cons y ys)
    then have "m x \<noteq> NULL" using Cons.prems by simp
    moreover have "frames_free_loop m (m x) (cs @ [Frame_free x]) = Some ((cs @ [Frame_free x]) @ map Frame_free xs)"
      using Cons.prems Cons by (intro Cons.IH) auto
    ultimately show ?thesis using Cons.prems by (subst frames_free_loop.simps) simp
  qed
qed simp

section \<open>The operations under the invariant\<close>

text \<open>
  \<open>win\<close>: the window of a traffic identifier is well formed; \<open>tid_rep\<close>: its slots hold the runs \<open>qs\<close>.
\<close>

definition win :: "ol_rx_reorder_t \<Rightarrow> nat \<Rightarrow> bool" where
  "win R k \<longleftrightarrow> 2 ^ k \<le> (256 :: nat) \<and> unat (win_sz_mask R) = 2 ^ k - 1 \<and> length (array R) = 2 ^ k"

definition tid_rep :: "nat \<Rightarrow> rx_state \<Rightarrow> nat \<Rightarrow> addr list list \<Rightarrow> bool" where
  "tid_rep tid s k qs \<longleftrightarrow> tid < length (tids_rx_reorder (rx_peer s)) \<and> tid < length (tids_next_rel_idx (rx_peer s)) \<and>
     tid < length (tids_last_seq (rx_peer s)) \<and> win (tids_rx_reorder (rx_peer s) ! tid) k \<and>
     ring_inv (nbuf_next s) (array (tids_rx_reorder (rx_peer s) ! tid)) [] qs"

text \<open>The slots a request for \<open>idx_start\<close> up to \<open>idx_end\<close> covers, and the frames in them.\<close>

definition covered :: "nat \<Rightarrow> u32 \<Rightarrow> u32 \<Rightarrow> nat list" where
  "covered k a b = (let W = 2 ^ k; s = unat a mod W; e = unat b mod W in visits W s (range_len W s e))"

lemma set_array_simps [simp]:
  "tid < length (tids_rx_reorder (rx_peer s)) \<Longrightarrow>
     tids_rx_reorder (rx_peer (set_array tid a s)) ! tid = (tids_rx_reorder (rx_peer s) ! tid)\<lparr>array := a\<rparr>"
  "length (tids_rx_reorder (rx_peer (set_array tid a s))) = length (tids_rx_reorder (rx_peer s))"
  "j \<noteq> tid \<Longrightarrow> tids_rx_reorder (rx_peer (set_array tid a s)) ! j = tids_rx_reorder (rx_peer s) ! j"
  "tids_next_rel_idx (rx_peer (set_array tid a s)) = tids_next_rel_idx (rx_peer s)"
  "tids_last_seq (rx_peer (set_array tid a s)) = tids_last_seq (rx_peer s)"
  "nbuf_next (set_array tid a s) = nbuf_next s"
  "rx_calls (set_array tid a s) = rx_calls s"
  by (simp_all add: set_array_def)

lemma rx_log_simps [simp]:
  "rx_peer (rx_log c s) = rx_peer s" "nbuf_next (rx_log c s) = nbuf_next s" "rx_calls (rx_log c s) = rx_calls s @ [c]"
  by (simp_all add: rx_log_def)

lemma covered_facts:
  assumes "2 ^ k \<le> (256 :: nat)"
  shows "distinct (covered k a b)" and "i \<in> set (covered k a b) \<Longrightarrow> i < 2 ^ k"
    and "covered k a b = (unat a mod 2 ^ k) # tl (covered k a b)"
    and "covered k a b = visits (2 ^ k) (unat a mod 2 ^ k) (range_len (2 ^ k) (unat a mod 2 ^ k) (unat b mod 2 ^ k))"
proof -
  let ?s = "unat a mod 2 ^ k" and ?e = "unat b mod 2 ^ k"
  have se: "?s < 2 ^ k" "?e < 2 ^ k" by simp_all
  show c: "covered k a b = visits (2 ^ k) ?s (range_len (2 ^ k) ?s ?e)" by (simp add: covered_def Let_def)
  show "distinct (covered k a b)" unfolding c using range_len_facts(2) [OF se] by (intro distinct_visits)
  show "i < 2 ^ k" if "i \<in> set (covered k a b)" using that visits_in [of "2 ^ k"] unfolding c by simp
  obtain n where "range_len (2 ^ k) ?s ?e = Suc n" using range_len_facts(1) [OF se] by (cases "range_len (2 ^ k) ?s ?e") auto
  then show "covered k a b = ?s # tl (covered k a b)" unfolding c using visits_Suc [OF se(1), of n] by simp
qed

text \<open>Handing the collected run to somebody else leaves the slots as they are.\<close>

lemma ring_inv_drop:
  assumes "ring_inv m a acc qs" and "x \<in> set acc"
  shows "ring_inv (m(x := v)) a [] qs"
proof -
  have "slot (m(x := v)) (a ! i) (qs ! i)" if "i < length a" for i
  proof -
    have "length qs = length a" "distinct (acc @ concat qs)" using assms(1) by (auto simp: ring_inv_def)
    then have "x \<notin> set (concat qs)" "qs ! i \<in> set qs" using assms(2) that nth_mem [of i qs] by auto
    then have "x \<notin> set (qs ! i)" by auto
    then show ?thesis using assms(1) that by (auto simp: ring_inv_def slot_def linked_update notin_butlast)
  qed
  then show ?thesis using assms(1) by (auto simp: ring_inv_def)
qed

lemma ring_inv_drop_all: "ring_inv m a acc qs \<Longrightarrow> ring_inv m a [] qs"
  by (auto simp: ring_inv_def)

lemma ring_inv_nlist:
  assumes "ring_inv m a acc qs" and "acc \<noteq> []"
  shows "nlist (m(last acc := NULL)) (hd acc) acc"
  using assms by (intro nlist_terminate) (auto simp: ring_inv_def)

lemma release_collect:
  assumes "ring_inv m a [] qs" and "W = 2 ^ k" and "unat w = W - 1" and "W \<le> 256" and "length a = W"
    and "unat i < W" and "unat e < W"
  shows "let vs = visits W (unat i) (range_len W (unat i) (unat e)) in
    ol_rx_reorder_release_loop w e ((i + 1) AND w) (a[unat i := (NULL, NULL)]) (snd (a ! unat i)) m =
      Some (clear_slots vs (NULL, NULL) a, snd (run_ends (runs vs qs)), take_slots vs m [] qs)"
proof -
  let ?i = "unat i" and ?j = "unat ((i + 1) AND w)"
  note r = range_len_facts [OF assms(6,7)]
  obtain n where n: "range_len W ?i (unat e) = Suc n" using r(1) by (cases "range_len W ?i (unat e)") auto
  have j: "?j = (?i + 1) mod W" using unat_next [of w k i] assms by simp
  have v: "visits W ?i (Suc n) = ?i # visits W ?j n" using visits_Suc [OF assms(6)] j by simp
  have dv: "?i \<notin> set (visits W ?j n)" using distinct_visits [of "Suc n" W ?i] r(2) v n by simp
  have t: "take_slot ?i m [] qs = m" by (simp add: take_slot_def)
  have inv: "ring_inv m (a[?i := (NULL, NULL)]) (qs ! ?i) (qs[?i := []])"
    using ring_inv_take [OF assms(1), of ?i] assms(5,6) t by simp
  have "ol_rx_reorder_release_loop w e ((i + 1) AND w) (a[?i := (NULL, NULL)]) (snd (run_ends (qs ! ?i))) m =
      Some (clear_slots (visits W ?j n) (NULL, NULL) (a[?i := (NULL, NULL)]),
            snd (run_ends (qs ! ?i @ runs (visits W ?j n) (qs[?i := []]))),
            take_slots (visits W ?j n) m (qs ! ?i) (qs[?i := []]))"
  proof (rule release_loop_eq [OF assms(2,3,4) inv])
    show "(?j + n) mod W = unat e" using r(3) n j by (simp add: mod_simps)
    show "\<forall>l<n. (?j + l) mod W \<noteq> unat e"
    proof (intro allI impI)
      fix l assume "l < n"
      then have "(?i + Suc l) mod W \<noteq> unat e" using r(4) [of "Suc l"] n by simp
      then show "(?j + l) mod W \<noteq> unat e" using j by (simp add: mod_simps)
    qed
  qed (use assms r(2) n j in auto)
  moreover have "a ! ?i = run_ends (qs ! ?i)" using ring_slot [OF assms(1)] assms(5,6) by simp
  ultimately show ?thesis using n v dv t by (simp add: Let_def runs_update) (simp add: runs_def)
qed

lemma flush_collect:
  assumes "ring_inv m a [] qs" and "W = 2 ^ k" and "unat w = W - 1" and "W \<le> 256" and "length a = W"
    and "unat i < W" and "unat e < W"
  shows "let vs = visits W (unat i) (range_len W (unat i) (unat e)) in
    ol_rx_reorder_flush_loop w e i a NULL NULL m =
      Some (clear_slots vs (NULL, NULL) a, fst (run_ends (runs vs qs)), snd (run_ends (runs vs qs)), take_slots vs m [] qs)"
proof -
  note r = range_len_facts [OF assms(6,7)]
  obtain n where n: "range_len W (unat i) (unat e) = Suc n" using r(1) by (cases "range_len W (unat i) (unat e)") auto
  have "ol_rx_reorder_flush_loop w e i a (fst (run_ends [])) (snd (run_ends [])) m =
      (let vs = visits W (unat i) (Suc n) in
      Some (clear_slots vs (NULL, NULL) a, fst (run_ends ([] @ runs vs qs)),
            snd (run_ends ([] @ runs vs qs)), take_slots vs m [] qs))"
    by (rule flush_loop_eq [OF assms(2,3,4,1)]) (use assms r n in \<open>auto simp: less_Suc_eq_le\<close>)
  then show ?thesis by (simp add: n run_ends_def)
qed

lemma tid_repD:
  assumes "tid_rep tid s k qs"
  defines "R \<equiv> tids_rx_reorder (rx_peer s) ! tid"
  shows "tid < length (tids_rx_reorder (rx_peer s))" "tid < length (tids_next_rel_idx (rx_peer s))"
    "tid < length (tids_last_seq (rx_peer s))" "(2 :: nat) ^ k \<le> 256"
    "unat (ucast (win_sz_mask R) :: u32) = 2 ^ k - 1" "length (array R) = 2 ^ k"
    "ring_inv (nbuf_next s) (array R) [] qs" "length qs = 2 ^ k"
  using assms by (auto simp: tid_rep_def win_def unat_ucast_u8_u32 ring_inv_def)

lemma tid_rep_intro:
  assumes "tid_rep tid s k qs" and "ring_inv (nbuf_next s') a [] qs'"
    and "tids_rx_reorder (rx_peer s') = (tids_rx_reorder (rx_peer s))[tid := (tids_rx_reorder (rx_peer s) ! tid)\<lparr>array := a\<rparr>]"
    and "length (tids_next_rel_idx (rx_peer s')) = length (tids_next_rel_idx (rx_peer s))"
    and "length (tids_last_seq (rx_peer s')) = length (tids_last_seq (rx_peer s))" and "length a = 2 ^ k"
  shows "tid_rep tid s' k qs'"
  using assms by (auto simp: tid_rep_def win_def)

lemma first_run:
  assumes "tid_rep tid s k qs"
  shows "runs (covered k a b) qs = qs ! (unat a mod 2 ^ k) @ runs (tl (covered k a b)) qs"
  using covered_facts(3) [OF tid_repD(4) [OF assms], of a b] by (simp add: runs_def) (metis concat.simps(2) list.simps(9))

lemma release_eq:
  fixes a b :: u32
  assumes "tid_rep tid s k qs"
  defines "vs \<equiv> covered k a b"
  shows "\<exists>s'. ol_rx_reorder_release D tid a b s = Some s' \<and> tid_rep tid s' k (clear_slots vs [] qs) \<and>
    tids_next_rel_idx (rx_peer s') ! tid = ucast b \<and>
    (if qs ! (unat a mod 2 ^ k) = [] then rx_calls s' = rx_calls s @ [Reorder_timeout_remove tid]
     else rx_calls s' = rx_calls s @ [Rx_opt_proc tid (hd (runs vs qs)), Reorder_timeout_remove tid] \<and>
       nlist (nbuf_next s') (hd (runs vs qs)) (runs vs qs) \<and>
       tids_last_seq (rx_peer s') ! tid = desc_seq_num (D (hd (runs vs qs))))"
proof -
  let ?R = "tids_rx_reorder (rx_peer s) ! tid" and ?L = "runs vs qs"
  let ?w = "ucast (win_sz_mask ?R) :: u32"
  let ?i = "a AND ?w" and ?e = "b AND ?w"
  note d = tid_repD [OF assms(1)]
  have ie: "unat ?i = unat a mod 2 ^ k" "unat ?e = unat b mod 2 ^ k" using unat_and_window [OF d(5)] by simp_all
  have vs: "vs = visits (2 ^ k) (unat ?i) (range_len (2 ^ k) (unat ?i) (unat ?e))"
    unfolding vs_def ie by (rule covered_facts(4) [OF d(4)])
  let ?a = "clear_slots vs (NULL, NULL) (array ?R)" and ?m = "take_slots vs (nbuf_next s) [] qs"
  have loop: "ol_rx_reorder_release_loop ?w ?e ((?i + 1) AND ?w) ((array ?R)[unat ?i := (NULL, NULL)]) (snd (array ?R ! unat ?i)) (nbuf_next s) =
      Some (?a, snd (run_ends ?L), ?m)"
    using release_collect [OF d(7) refl d(5,4,6), of ?i ?e] ie vs by (simp add: Let_def)
  have inv: "ring_inv ?m ?a ?L (clear_slots vs [] qs)"
    using ring_inv_take_slots [OF d(7), of vs] covered_facts(1,2) [OF d(4), where a = a and b = b] d(6) by (simp add: vs_def)
  have il: "unat ?i < length (array ?R)" using ie d(6) by simp
  have e: "array ?R ! unat ?i = run_ends (qs ! (unat a mod 2 ^ k))" using ring_slot [OF d(7) il] ie by simp
  have nn: "NULL \<notin> set (qs ! (unat a mod 2 ^ k))" using ring_null(2) [OF d(7) il] ie by simp
  have L: "?L = qs ! (unat a mod 2 ^ k) @ runs (tl vs) qs" unfolding vs_def by (rule first_run [OF assms(1)])
  let ?s1 = "(set_array tid ?a (s\<lparr>rx_peer := (rx_peer s)\<lparr>tids_next_rel_idx := (tids_next_rel_idx (rx_peer s))[tid := ucast b]\<rparr>\<rparr>))\<lparr>nbuf_next := ?m\<rparr>"
  show ?thesis
  proof (cases "qs ! (unat a mod 2 ^ k) = []")
    case True
    have "ol_rx_reorder_release D tid a b s = Some (rx_log (Reorder_timeout_remove tid) ?s1)"
      using d(1,2) il e True loop by (simp add: ol_rx_reorder_release_def Let_def run_ends_def)
    moreover have "tid_rep tid (rx_log (Reorder_timeout_remove tid) ?s1) k (clear_slots vs [] qs)"
      by (rule tid_rep_intro [OF assms(1), of _ ?a]) (use inv d(6) in \<open>auto simp: ring_inv_drop_all set_array_def\<close>)
    ultimately show ?thesis using True d(2) by simp
  next
    case False
    then have Ln: "?L \<noteq> []" "hd ?L = hd (qs ! (unat a mod 2 ^ k))" using L by auto
    have hn: "hd (qs ! (unat a mod 2 ^ k)) \<noteq> NULL" using False nn by (metis hd_in_set)
    let ?s2 = "rx_log (Rx_opt_proc tid (hd ?L)) (?s1\<lparr>rx_peer := (rx_peer ?s1)\<lparr>tids_last_seq := (tids_last_seq (rx_peer s))[tid := desc_seq_num (D (hd ?L))]\<rparr>,
        nbuf_next := ?m(last ?L := NULL)\<rparr>)"
    have "ol_rx_reorder_release D tid a b s = Some (rx_log (Reorder_timeout_remove tid) ?s2)"
      using d(1,2,3) il e False loop hn Ln by (simp add: ol_rx_reorder_release_def Let_def run_ends_def)
    moreover have "tid_rep tid (rx_log (Reorder_timeout_remove tid) ?s2) k (clear_slots vs [] qs)"
      by (rule tid_rep_intro [OF assms(1), of _ ?a]) (use inv d(6) Ln in \<open>auto simp: ring_inv_drop set_array_def\<close>)
    ultimately show ?thesis using False d(2,3) ring_inv_nlist [OF inv Ln(1)] by simp
  qed
qed

lemma flush_eq:
  fixes a b :: u32
  assumes "tid_rep tid s k qs"
  defines "vs \<equiv> covered k a (if b = 0xffff then a else b)"
  shows "\<exists>s'. ol_rx_reorder_flush D tid a b action s = Some s' \<and> tid_rep tid s' k (clear_slots vs [] qs) \<and>
    rx_calls s' = rx_calls s @ Defrag_waitlist_remove tid # (if runs vs qs = [] then []
       else if action = htt_rx_flush_release then [Rx_opt_proc tid (hd (runs vs qs))]
       else map Frame_free (runs vs qs)) @ [Reorder_timeout_remove tid] \<and>
    (runs vs qs \<noteq> [] \<longrightarrow> nlist (nbuf_next s') (hd (runs vs qs)) (runs vs qs) \<and>
       tids_last_seq (rx_peer s') ! tid = desc_seq_num (D (hd (runs vs qs))))"
proof -
  let ?R = "tids_rx_reorder (rx_peer s) ! tid" and ?L = "runs vs qs"
  let ?w = "ucast (win_sz_mask ?R) :: u32" and ?b = "if b = 0xffff then a else b"
  let ?i = "a AND ?w" and ?e = "?b AND ?w"
  note d = tid_repD [OF assms(1)]
  have ie: "unat ?i = unat a mod 2 ^ k" "unat ?e = unat ?b mod 2 ^ k" using unat_and_window [OF d(5)] by blast+
  have vs: "vs = visits (2 ^ k) (unat ?i) (range_len (2 ^ k) (unat ?i) (unat ?e))"
    unfolding vs_def ie by (rule covered_facts(4) [OF d(4)])
  let ?a = "clear_slots vs (NULL, NULL) (array ?R)" and ?m = "take_slots vs (nbuf_next s) [] qs"
  have "unat ?i < 2 ^ k" "unat ?e < 2 ^ k" unfolding ie by simp_all
  then have loop: "ol_rx_reorder_flush_loop ?w ?e ?i (array ?R) NULL NULL (nbuf_next s) =
      Some (?a, fst (run_ends ?L), snd (run_ends ?L), ?m)"
    using flush_collect [OF d(7) refl d(5,4,6), of ?i ?e] vs by (simp add: Let_def)
  have inv: "ring_inv ?m ?a ?L (clear_slots vs [] qs)"
    using ring_inv_take_slots [OF d(7), of vs] covered_facts(1,2) [OF d(4), where a = a and b = ?b] d(6)
    by (simp add: vs_def)
  let ?r = "if b = 0xffff then 0 else ucast b"
  let ?s1 = "rx_log (Defrag_waitlist_remove tid) ((set_array tid ?a (s\<lparr>rx_peer := (rx_peer s)\<lparr>tids_next_rel_idx :=
      (tids_next_rel_idx (rx_peer s))[tid := ?r]\<rparr>\<rparr>))\<lparr>nbuf_next := ?m\<rparr>)"
  have ops: "ol_rx_reorder_flush D tid a b action s = do {
     s \<leftarrow> (if fst (run_ends ?L) \<noteq> NULL then do {
             ls \<leftarrow> wr (tids_last_seq (rx_peer ?s1)) tid (desc_seq_num (D (fst (run_ends ?L))));
             let m = ?m(snd (run_ends ?L) := NULL);
             let s = ?s1\<lparr>rx_peer := (rx_peer ?s1)\<lparr>tids_last_seq := ls\<rparr>, nbuf_next := m\<rparr>;
             if action = htt_rx_flush_release then Some (rx_log (Rx_opt_proc tid (fst (run_ends ?L))) s)
             else do { cs \<leftarrow> frames_free_loop m (fst (run_ends ?L)) (rx_calls s); Some (s\<lparr>rx_calls := cs\<rparr>) } }
           else Some ?s1);
     Some (rx_log (Reorder_timeout_remove tid) s) }"
    using d(1,2) loop by (simp add: ol_rx_reorder_flush_def)
  show ?thesis
  proof (cases "?L = []")
    case True
    moreover have "tid_rep tid (rx_log (Reorder_timeout_remove tid) ?s1) k (clear_slots vs [] qs)"
      by (rule tid_rep_intro [OF assms(1), of _ ?a]) (use inv d(6) in \<open>auto simp: ring_inv_drop_all set_array_def\<close>)
    ultimately show ?thesis using ops by (simp add: run_ends_def)
  next
    case False
    then have hn: "hd ?L \<noteq> NULL" using ring_null(1) [OF inv] by (metis hd_in_set)
    let ?m2 = "?m(last ?L := NULL)"
    let ?s2 = "?s1\<lparr>rx_peer := (rx_peer ?s1)\<lparr>tids_last_seq := (tids_last_seq (rx_peer s))[tid := desc_seq_num (D (hd ?L))]\<rparr>,
        nbuf_next := ?m2\<rparr>"
    let ?cs = "rx_calls ?s1 @ (if action = htt_rx_flush_release then [Rx_opt_proc tid (hd ?L)] else map Frame_free ?L)"
    have nl: "nlist ?m2 (hd ?L) ?L" by (rule ring_inv_nlist [OF inv False])
    have "ol_rx_reorder_flush D tid a b action s = Some (rx_log (Reorder_timeout_remove tid) (?s2\<lparr>rx_calls := ?cs\<rparr>))"
      using ops hn False d(3) frames_free_loop_eq [OF nl False] by (simp add: run_ends_def Let_def rx_log_def)
    moreover have "tid_rep tid (rx_log (Reorder_timeout_remove tid) (?s2\<lparr>rx_calls := ?cs\<rparr>)) k (clear_slots vs [] qs)"
      by (rule tid_rep_intro [OF assms(1), of _ ?a]) (use inv d(6) False in \<open>auto simp: ring_inv_drop set_array_def\<close>)
    ultimately show ?thesis using False nl d(3) by simp
  qed
qed

text \<open>Storing an MPDU appends its buffers to the run of its slot.\<close>

lemma ring_inv_store:
  assumes "ring_inv m a [] qs" and "i < length a" and "linked m xs" and "xs \<noteq> []"
    and "distinct (xs @ concat qs)" and "NULL \<notin> set xs"
  shows "ring_inv (if qs ! i \<noteq> [] then m(last (qs ! i) := hd xs) else m)
    (a[i := (if qs ! i \<noteq> [] then hd (qs ! i) else hd xs, last xs)]) [] (qs[i := qs ! i @ xs])"
proof -
  have l: "length qs = length a" and d: "distinct (concat qs)" and n: "NULL \<notin> set (concat qs)"
    and s: "\<And>j. j < length a \<Longrightarrow> slot m (a ! j) (qs ! j)"
    using assms(1) by (auto simp: ring_inv_def)
  let ?m = "if qs ! i \<noteq> [] then m(last (qs ! i) := hd xs) else m"
  have ms: "mset (concat (qs[i := qs ! i @ xs])) = mset (concat qs @ xs)"
    using mset_concat_update [of i qs "qs ! i @ xs"] assms(2) l by (simp add: add.commute add.left_commute)
  have d': "distinct (concat (qs[i := qs ! i @ xs]))"
    using ms assms(5) by (metis distinct_append mset_eq_imp_distinct_iff inf_commute)
  have n': "NULL \<notin> set (concat (qs[i := qs ! i @ xs]))"
    using mset_eq_setD [OF ms] n assms(6) by (metis Un_iff set_append)
  have di: "distinct (qs ! i @ xs)"
    using ring_inv_run(2,4) [OF assms(1,2)] assms(5) by auto
  have "slot ?m (a[i := (if qs ! i \<noteq> [] then hd (qs ! i) else hd xs, last xs)] ! j) (qs[i := qs ! i @ xs] ! j)"
    if "j < length a" for j
  proof (cases "j = i")
    case True
    have "linked ?m (qs ! i @ xs)"
      using linked_join [of m "qs ! i" xs] assms(3,4) di s [OF assms(2)] by (auto simp: slot_def)
    then show ?thesis using True that l assms(4) by (simp add: slot_def hd_append)
  next
    case False
    have "qs ! i \<noteq> [] \<Longrightarrow> last (qs ! i) \<notin> set (qs ! j)"
      using ring_inv_sub [OF assms(1,2) that] False last_in_set [of "qs ! i"] by blast
    then have "linked ?m (qs ! j) = linked m (qs ! j)" by (simp add: linked_update notin_butlast)
    then show ?thesis using s [OF that] False that l by (simp add: slot_def)
  qed
  then show ?thesis using l d' n' by (simp add: ring_inv_def)
qed

lemma store_eq:
  assumes "tid_rep tid s k qs" and "linked (nbuf_next s) xs" and "xs \<noteq> []" and "distinct (xs @ concat qs)"
    and "NULL \<notin> set xs" and i: "i = unat idx mod 2 ^ k"
  shows "\<exists>s'. ol_rx_reorder_store tid idx (hd xs) (last xs) s = Some s' \<and> tid_rep tid s' k (qs[i := qs ! i @ xs]) \<and>
    rx_calls s' = rx_calls s"
proof -
  let ?R = "tids_rx_reorder (rx_peer s) ! tid"
  note d = tid_repD [OF assms(1)]
  have ii: "unat (idx AND ucast (win_sz_mask ?R)) = i" using unat_and_window [OF d(5)] i by simp
  have il: "i < length (array ?R)" using i d(6) by simp
  have e: "array ?R ! i = run_ends (qs ! i)" by (rule ring_slot [OF d(7) il])
  have nn: "fst (run_ends (qs ! i)) = NULL \<longleftrightarrow> qs ! i = []" using run_ends_null(1) [OF ring_null(2) [OF d(7) il]] .
  let ?m = "if qs ! i \<noteq> [] then (nbuf_next s)(last (qs ! i) := hd xs) else nbuf_next s"
  let ?a = "(array ?R)[i := (if qs ! i \<noteq> [] then hd (qs ! i) else hd xs, last xs)]"
  have "ol_rx_reorder_store tid idx (hd xs) (last xs) s = Some (set_array tid ?a (s\<lparr>nbuf_next := ?m\<rparr>))"
    using d(1) il ii e nn by (cases "qs ! i = []") (simp_all add: ol_rx_reorder_store_def Let_def run_ends_def)
  moreover have "tid_rep tid (set_array tid ?a (s\<lparr>nbuf_next := ?m\<rparr>)) k (qs[i := qs ! i @ xs])"
    by (rule tid_rep_intro [OF assms(1), of _ ?a])
      (use ring_inv_store [OF d(7) il assms(2-5)] d(6) in \<open>auto simp: set_array_def\<close>)
  ultimately show ?thesis by simp
qed

section \<open>Opening and closing a block-ack window\<close>

lemma g_log2ceil_pow2:
  "n \<le> 64 \<Longrightarrow> \<exists>k. k \<le> 6 \<and> rd g_log2ceil n = Some (2 ^ k) \<and> n \<le> 2 ^ k"
proof -
  have t: "list_all (\<lambda>n. \<exists>k \<in> set [0..<7]. g_log2ceil ! n = 2 ^ k \<and> n \<le> 2 ^ k) [0..<65]"
    by code_simp
  assume n: "n \<le> 64"
  have "n \<in> set [0..<65]" using n by simp
  with t obtain k where "k \<in> set [0..<7]" "g_log2ceil ! n = 2 ^ k" "n \<le> 2 ^ k"
    unfolding list_all_iff by blast
  moreover have "length g_log2ceil = 65" by code_simp
  ultimately show ?thesis using n by (intro exI [of _ k]) auto
qed

lemma ring_inv_empty: "ring_inv m (replicate n (NULL, NULL)) [] (replicate n [])"
  by (auto simp: ring_inv_def slot_def)

lemma addba_eq:
  assumes "unat tid < length (tids_rx_reorder (rx_peer s))" and "unat tid < length (tids_next_rel_idx (rx_peer s))"
    and "unat tid < length (tids_last_seq (rx_peer s))" and "unat wsz \<le> 64"
  shows "\<exists>k s'. ol_rx_addba_handler h tid wsz False s = Some s' \<and> unat wsz \<le> 2 ^ k \<and>
    tid_rep (unat tid) s' k (replicate (2 ^ k) []) \<and> tids_last_seq (rx_peer s') ! unat tid = 4096 \<and>
    tids_next_rel_idx (rx_peer s') ! unat tid = 0"
proof -
  obtain k where k: "k \<le> 6" "rd g_log2ceil (unat wsz) = Some (2 ^ k)" "unat wsz \<le> 2 ^ k"
    using g_log2ceil_pow2 [OF assms(4)] by blast
  have p: "(2 :: nat) ^ k \<le> 2 ^ 6" using k(1) by (intro power_increasing) auto
  then have "unat (of_nat (2 ^ k) :: u8) = 2 ^ k" by (intro unat_word_of_nat) simp
  then have u: "unat (2 ^ k :: u8) = 2 ^ k" by simp
  have "(2 ^ k :: u8) \<noteq> 0"
  proof
    assume "(2 ^ k :: u8) = 0"
    then have "unat (2 ^ k :: u8) = 0" by (simp only: unat_0)
    then show False using u by simp
  qed
  then have u1: "unat (2 ^ k - 1 :: u8) = 2 ^ k - 1" using u by (simp add: unat_dec)
  show ?thesis using k assms(1-3) p u u1
    by (intro exI [of _ k])
      (auto simp: ol_rx_addba_handler_def Let_def tid_rep_def win_def ring_inv_empty IEEE80211_SEQ_MAX_def)
qed

text \<open>A request from a slot to itself covers the whole window.\<close>

lemma covered_whole:
  assumes "2 ^ k \<le> (256 :: nat)" shows "set (covered k a a) = {0..<2 ^ k}"
proof (rule card_subset_eq)
  show "set (covered k a a) \<subseteq> {0..<2 ^ k}" using covered_facts(2) [OF assms] by auto
  let ?s = "unat a mod 2 ^ k"
  have "range_len (2 ^ k) ?s ?s = 2 ^ k" by (simp add: range_len_def)
  then have "length (covered k a a) = 2 ^ k" unfolding covered_facts(4) [OF assms] by (simp add: visits_def)
  then show "card (set (covered k a a)) = card {0..<2 ^ k :: nat}"
    using distinct_card [OF covered_facts(1) [OF assms, of a a]] by simp
qed simp

lemma mset_concat_map_cong: "mset is = mset js \<Longrightarrow> mset (concat (map f is)) = mset (concat (map f js))"
proof -
  assume "mset is = mset js"
  then have "mset (map (mset \<circ> f) is) = mset (map (mset \<circ> f) js)" by simp
  then have "sum_mset (mset (map (mset \<circ> f) is)) = sum_mset (mset (map (mset \<circ> f) js))" by (rule arg_cong)
  then show ?thesis by (simp only: sum_mset_sum_list mset_concat map_map)
qed

section \<open>Properties\<close>

text \<open>
  C12: release in order. When the first slot of the range holds a frame, \<^verbatim>\<open>ol_rx_reorder_release\<close>
  delivers, in one null-terminated list, exactly the buffers of the covered slots in window order,
  each once, empties those slots, leaves the others as they are, and remembers the sequence number
  of the first frame.
\<close>

theorem rx_reorder_release_in_order:
  assumes "tid_rep tid s k qs" and "qs ! (unat a mod 2 ^ k) \<noteq> []"
  shows "\<exists>s' L. ol_rx_reorder_release D tid a b s = Some s' \<and> L = runs (covered k a b) qs \<and> distinct L \<and>
    rx_calls s' = rx_calls s @ [Rx_opt_proc tid (hd L), Reorder_timeout_remove tid] \<and>
    nlist (nbuf_next s') (hd L) L \<and> tid_rep tid s' k (clear_slots (covered k a b) [] qs) \<and>
    tids_last_seq (rx_peer s') ! tid = desc_seq_num (D (hd L)) \<and> tids_next_rel_idx (rx_peer s') ! tid = ucast b"
proof -
  note d = tid_repD [OF assms(1)]
  have "ring_inv (take_slots (covered k a b) (nbuf_next s) [] qs)
      (clear_slots (covered k a b) (NULL, NULL) (array (tids_rx_reorder (rx_peer s) ! tid)))
      ([] @ runs (covered k a b) qs) (clear_slots (covered k a b) [] qs)"
    using covered_facts(1,2) [OF d(4), where a = a and b = b] d(6) by (intro ring_inv_take_slots [OF d(7)]) auto
  then have "distinct (runs (covered k a b) qs)" by (simp add: ring_inv_def)
  then show ?thesis using release_eq [OF assms(1), where D = D and a = a and b = b] assms(2) by auto
qed

definition sample_rx :: "nbufs \<Rightarrow> (addr \<times> addr) list \<Rightarrow> rx_state" where
  "sample_rx m a = \<lparr>rx_peer = \<lparr>local_id = 1,
       tids_rx_reorder = [\<lparr>win_sz = 4, win_sz_mask = 3, num_mpdus = 0, array_is_base = False, array = a,
         defrag_timeout_ms = 0, reorder_tid = 0\<rparr>],
       tids_last_pn = [(0, 0)], tids_last_pn_valid = [False], tids_next_rel_idx = [0], tids_last_seq = [7],
       tids_mcast_last_seq = [0], fw_pn_check = False,
       security = replicate 2 \<lparr>sec_type = htt_sec_type_aes_ccmp, michael_key = (0, 0)\<rparr>, keyinstalled = 1, reorder_history = None\<rparr>,
     nbuf_next = m, rx_calls = []\<rparr>"

definition sample_desc :: "addr \<Rightarrow> rx_desc" where
  "sample_desc p = \<lparr>desc_seq_num = of_nat p, desc_tid = 0, desc_retry = False, desc_is_frag = False,
     desc_is_mcast = False, desc_encrypted = True, desc_last_msdu = True, desc_pn = (of_nat p, 0)\<rparr>"

lemma below_4: "i < (4 :: nat) \<longleftrightarrow> i = 0 \<or> i = 1 \<or> i = 2 \<or> i = 3"
  by auto

lemma sample_rx_rep:
  "tid_rep 0 (sample_rx (\<lambda>_. 0) [(30, 30), (NULL, NULL), (10, 10), (20, 20)]) 2 [[30], [], [10], [20]]"
proof -
  have "slot (\<lambda>_. 0) ([(30, 30), (NULL, NULL), (10, 10), (20, 20)] ! i) ([[30], [], [10], [20]] ! i)" if "i < 4" for i
    using that [unfolded below_4] by (elim disjE) (simp_all add: slot_def numeral_2_eq_2 numeral_3_eq_3)
  then show ?thesis by (simp add: tid_rep_def win_def sample_rx_def ring_inv_def)
qed

lemma sample_covered: "covered 2 2 1 = [2, 3, 0]"
  by (simp add: covered_def visits_def range_len_def upt_rec Let_def)

theorem rx_reorder_release_in_order_witness:
  "\<exists>s'. ol_rx_reorder_release sample_desc 0 2 1 (sample_rx (\<lambda>_. 0) [(30, 30), (NULL, NULL), (10, 10), (20, 20)]) = Some s' \<and>
     rx_calls s' = [Rx_opt_proc 0 10, Reorder_timeout_remove 0] \<and> nlist (nbuf_next s') 10 [10, 20, 30]"
  using rx_reorder_release_in_order [OF sample_rx_rep, of 2 sample_desc 1]
  by (simp add: sample_covered runs_def) (auto simp: sample_rx_def)

text \<open>
  C13: a hole at the start of the range. When the first slot of the range is empty, \<^verbatim>\<open>ol_rx_reorder_release\<close>
  empties the covered slots all the same but delivers none of the buffers they held: frames behind
  the hole are lost.
\<close>

theorem rx_reorder_release_hole_loses_frames:
  assumes "tid_rep tid s k qs" and "qs ! (unat a mod 2 ^ k) = []" and "i \<in> set (covered k a b)"
    and "x \<in> set (qs ! i)"
  shows "\<exists>s'. ol_rx_reorder_release D tid a b s = Some s' \<and>
    rx_calls s' = rx_calls s @ [Reorder_timeout_remove tid] \<and>
    tid_rep tid s' k (clear_slots (covered k a b) [] qs) \<and> x \<notin> set (concat (clear_slots (covered k a b) [] qs))"
proof -
  note d = tid_repD [OF assms(1)]
  have il: "i < 2 ^ k" using covered_facts(2) [OF d(4) assms(3)] .
  have "x \<notin> set (clear_slots (covered k a b) [] qs ! j)" if "j < length qs" for j
  proof
    assume "x \<in> set (clear_slots (covered k a b) [] qs ! j)"
    then have "j \<notin> set (covered k a b)" "x \<in> set (qs ! j)" using that by (auto simp: clear_slots_nth split: if_splits)
    moreover from this have "i \<noteq> j" using assms(3) by auto
    ultimately show False using ring_inv_sub [OF d(7), of i j] assms(4) il that d(6,8) by auto
  qed
  then have "x \<notin> set (concat (clear_slots (covered k a b) [] qs))"
    by (auto simp: in_set_conv_nth [where xs = "clear_slots (covered k a b) [] qs"])
  then show ?thesis using release_eq [OF assms(1), where D = D and a = a and b = b] assms(2) by auto
qed

theorem rx_reorder_release_hole_loses_frames_witness:
  "\<exists>s'. ol_rx_reorder_release sample_desc 0 1 3 (sample_rx (\<lambda>_. 0) [(30, 30), (NULL, NULL), (10, 10), (20, 20)]) = Some s' \<and>
     rx_calls s' = [Reorder_timeout_remove 0] \<and> tid_rep 0 s' 2 [[30], [], [], [20]]"
proof -
  have c: "covered 2 1 3 = [1, 2]" by (simp add: covered_def visits_def range_len_def upt_rec Let_def)
  show ?thesis
    using rx_reorder_release_hole_loses_frames [OF sample_rx_rep, of 1 2 3 10 sample_desc]
    by (simp add: c) (auto simp: sample_rx_def)
qed

text \<open>
  C14: flush. \<^verbatim>\<open>ol_rx_reorder_flush\<close> takes all the buffers out of the covered slots (the whole window when
  the end is \<^verbatim>\<open>0xffff\<close>), in window order and also behind holes, and delivers them in one list or
  frees each of them once; a flush of the whole window leaves no buffer behind.
\<close>

theorem rx_reorder_flush_complete:
  assumes "tid_rep tid s k qs"
  shows "\<exists>s' L. ol_rx_reorder_flush D tid a b action s = Some s' \<and> L = runs (covered k a (if b = 0xffff then a else b)) qs \<and>
    rx_calls s' = rx_calls s @ Defrag_waitlist_remove tid # (if L = [] then []
       else if action = htt_rx_flush_release then [Rx_opt_proc tid (hd L)] else map Frame_free L) @
       [Reorder_timeout_remove tid] \<and>
    nlist (nbuf_next s') (if L = [] then NULL else hd L) L \<and>
    tid_rep tid s' k (clear_slots (covered k a (if b = 0xffff then a else b)) [] qs) \<and>
    (b = 0xffff \<longrightarrow> clear_slots (covered k a (if b = 0xffff then a else b)) [] qs = replicate (2 ^ k) [] \<and>
       mset L = mset (concat qs))"
proof -
  note d = tid_repD [OF assms(1)]
  have whole: "clear_slots (covered k a a) [] qs = replicate (2 ^ k) [] \<and> mset (runs (covered k a a) qs) = mset (concat qs)"
  proof -
    have "set (covered k a a) = {0..<2 ^ k}" by (rule covered_whole [OF d(4)])
    then have p: "mset (covered k a a) = mset [0..<length qs]"
      using covered_facts(1) [OF d(4), of a a] d(8)
        set_eq_iff_mset_eq_distinct [of "covered k a a" "[0..<length qs]"] by simp
    have "clear_slots (covered k a a) [] qs = replicate (2 ^ k) []"
      using \<open>set (covered k a a) = {0..<2 ^ k}\<close> d(8) by (intro nth_equalityI) (auto simp: clear_slots_nth)
    moreover have "mset (runs (covered k a a) qs) = mset (runs [0..<length qs] qs)"
      unfolding runs_def by (rule mset_concat_map_cong [OF p])
    ultimately show ?thesis by (simp add: runs_def map_nth)
  qed
  show ?thesis using flush_eq [OF assms(1), where D = D and a = a and b = b and action = action] whole
    by (cases "b = 0xffff"; cases "runs (covered k a (if b = 0xffff then a else b)) qs = []") auto
qed

theorem rx_reorder_flush_complete_witness:
  "\<exists>s'. ol_rx_reorder_flush sample_desc 0 1 0xffff htt_rx_flush_discard
       (sample_rx (\<lambda>_. 0) [(30, 30), (NULL, NULL), (10, 10), (20, 20)]) = Some s' \<and>
     rx_calls s' = [Defrag_waitlist_remove 0, Frame_free 10, Frame_free 20, Frame_free 30, Reorder_timeout_remove 0] \<and>
     tid_rep 0 s' 2 [[], [], [], []]"
proof -
  have c: "covered 2 1 1 = [1, 2, 3, 0]" by (simp add: covered_def visits_def range_len_def upt_rec Let_def)
  show ?thesis
    using rx_reorder_flush_complete [OF sample_rx_rep, of sample_desc 1 "0xffff" htt_rx_flush_discard]
    by (simp add: c runs_def) (auto simp: sample_rx_def)
qed

text \<open>
  store then release. An MPDU that is stored in a slot is linked behind the frames the slot
  already has, and a release of a range whose first slot is the MPDU's delivers it: the delivered list
  begins with the slot's earlier frames followed by the stored ones in their order.
\<close>

theorem rx_reorder_store_release:
  assumes "tid_rep tid s k qs" and "linked (nbuf_next s) xs" and "xs \<noteq> []" and "distinct (xs @ concat qs)"
    and "NULL \<notin> set xs"
  shows "\<exists>s1 s2 rest. ol_rx_reorder_store tid idx (hd xs) (last xs) s = Some s1 \<and>
    tid_rep tid s1 k (qs[unat idx mod 2 ^ k := qs ! (unat idx mod 2 ^ k) @ xs]) \<and>
    ol_rx_reorder_release D tid idx e s1 = Some s2 \<and>
    (let L = qs ! (unat idx mod 2 ^ k) @ xs @ rest in nlist (nbuf_next s2) (hd L) L \<and>
       rx_calls s2 = rx_calls s @ [Rx_opt_proc tid (hd L), Reorder_timeout_remove tid])"
proof -
  let ?i = "unat idx mod 2 ^ k"
  obtain s1 where s1: "ol_rx_reorder_store tid idx (hd xs) (last xs) s = Some s1"
      "tid_rep tid s1 k (qs[?i := qs ! ?i @ xs])" "rx_calls s1 = rx_calls s"
    using store_eq [OF assms refl] by blast
  have "?i < length qs" using tid_repD(8) [OF assms(1)] by simp
  then have q: "qs[?i := qs ! ?i @ xs] ! ?i = qs ! ?i @ xs" by simp
  note f = first_run [OF s1(2), of idx e, unfolded q append_assoc]
  show ?thesis using release_eq [OF s1(2), where a = idx and D = D and b = e] s1 assms(3) unfolding q f Let_def by auto
qed

theorem rx_reorder_store_release_witness:
  "\<exists>s1 s2. ol_rx_reorder_store 0 5 40 41 (sample_rx ((\<lambda>_. 0)(40 := 41)) [(30, 30), (50, 50), (10, 10), (20, 20)]) = Some s1 \<and>
     ol_rx_reorder_release sample_desc 0 5 2 s1 = Some s2 \<and>
     (\<exists>rest. nlist (nbuf_next s2) 50 ([50, 40, 41] @ rest))"
proof -
  have "slot ((\<lambda>_. 0)(40 := 41)) ([(30, 30), (50, 50), (10, 10), (20, 20)] ! i) ([[30], [50], [10], [20]] ! i)" if "i < 4" for i
    using that [unfolded below_4] by (elim disjE) (simp_all add: slot_def numeral_2_eq_2 numeral_3_eq_3)
  then have r: "tid_rep 0 (sample_rx ((\<lambda>_. 0)(40 := 41)) [(30, 30), (50, 50), (10, 10), (20, 20)]) 2 [[30], [50], [10], [20]]"
    by (simp add: tid_rep_def win_def sample_rx_def ring_inv_def)
  show ?thesis using rx_reorder_store_release [OF r, of "[40, 41]" 5 sample_desc 2]
    by (simp add: Let_def) (auto simp: sample_rx_def)
qed

text \<open>
  C15: the duplicate filter of unicast frames. With a valid last sequence number, a frame that is \<open>d\<close>
  ahead of it modulo 4096 is accepted exactly when \<open>d\<close> is between 1 and 2049: a repetition of the last
  frame and the older half of the sequence space are dropped. Before any frame was released, all are
  accepted.
\<close>

lemma unat_seq_delta:
  fixes q l :: u32
  shows "unat ((q - 1 - l) AND 4095) = nat ((uint q - 1 - uint l) mod 4096)"
proof -
  have "unat ((q - 1 - l) AND 4095) = unat (q - 1 - l) mod 2 ^ 12" by (rule unat_and_window) simp
  also have "int \<dots> = uint (q - 1 - l) mod 4096" by (simp add: zmod_int)
  also have "\<dots> = (uint q - 1 - uint l) mod 4096"
    by (simp add: uint_word_ariths mod_simps mod_mod_cancel)
  finally show ?thesis by linarith
qed

lemma mod_4096_delta:
  fixes l d :: int
  assumes "0 \<le> d" and "d < 4096"
  shows "((l + d) mod 4096 - 1 - l) mod 4096 = (if d = 0 then 4095 else d - 1)"
proof -
  have "((l + d) mod 4096 - 1 - l) mod 4096 = (l + d - (1 + l)) mod 4096"
    by (subst diff_diff_eq) (rule mod_diff_left_eq)
  then have "((l + d) mod 4096 - 1 - l) mod 4096 = (d - 1) mod 4096" by simp
  then show ?thesis using assms by (auto simp: zmod_minus1)
qed

theorem seq_num_check_window:
  fixes P :: ol_txrx_peer_t and tid :: nat
  defines "l \<equiv> tids_last_seq P ! tid"
  assumes "tid < length (tids_last_seq P)" and "unat l < 4096" and "d < 4096"
    and "unat q = (unat l + d) mod 4096"
  shows "ol_rx_reorder_seq_num_check tid q P =
    Some (if 1 \<le> d \<and> d \<le> 2049 then htt_rx_status_ok else htt_rx_status_err_replay)"
proof -
  have uq: "uint q = (uint (ucast l :: u32) + int d) mod 4096"
  proof -
    have "unat (ucast l :: u32) = unat l" using unat_u16 [of l] by (simp add: unsigned_ucast_eq take_bit_nat_eq_self)
    then have "int (unat q) = (int (unat (ucast l :: u32)) + int d) mod int 4096"
      unfolding assms(5) by (simp only: zmod_int of_nat_add)
    then show ?thesis by simp
  qed
  have "l \<noteq> 4096" using assms(3) by auto
  moreover have "unat ((q - 1 - ucast l) AND 4095) = (if d = 0 then 4095 else d - 1)"
    unfolding unat_seq_delta uq using mod_4096_delta [of "int d" "uint (ucast l :: u32)"] assms(4) by auto
  ultimately show ?thesis using assms(2)
    by (auto simp: ol_rx_reorder_seq_num_check_def l_def IEEE80211_SEQ_MAX_def Let_def)
qed

theorem seq_num_check_window_witness:
  "ol_rx_reorder_seq_num_check 0 7 (rx_peer (sample_rx (\<lambda>_. 0) [])) = Some htt_rx_status_err_replay \<and>
   ol_rx_reorder_seq_num_check 0 8 (rx_peer (sample_rx (\<lambda>_. 0) [])) = Some htt_rx_status_ok"
  using seq_num_check_window [of 0 "rx_peer (sample_rx (\<lambda>_. 0) [])" 0 7]
    seq_num_check_window [of 0 "rx_peer (sample_rx (\<lambda>_. 0) [])" 1 8]
  by (simp add: sample_rx_def)

text \<open>
  C16: opening a block-ack window. For a window of at most 64 frames \<^verbatim>\<open>ol_rx_addba_handler\<close> gives the
  traffic identifier an empty array whose size is a power of two that is no less than the window, with
  the mask that belongs to it, so that the operations above apply, and forgets the last sequence
  number. For a larger window (a release build does not check it) the handler reads outside the
  table of powers of two.
\<close>

theorem addba_window:
  assumes "unat tid < length (tids_rx_reorder (rx_peer s))" and "unat tid < length (tids_next_rel_idx (rx_peer s))"
    and "unat tid < length (tids_last_seq (rx_peer s))"
  shows "if unat wsz \<le> 64
    then \<exists>k s'. ol_rx_addba_handler h tid wsz False s = Some s' \<and> unat wsz \<le> 2 ^ k \<and>
      tid_rep (unat tid) s' k (replicate (2 ^ k) []) \<and>
      ol_rx_reorder_seq_num_check (unat tid) q (rx_peer s') = Some htt_rx_status_ok
    else ol_rx_addba_handler h tid wsz False s = None"
proof (cases "unat wsz \<le> 64")
  case True
  then obtain k s' where "ol_rx_addba_handler h tid wsz False s = Some s'" "unat wsz \<le> 2 ^ k"
      "tid_rep (unat tid) s' k (replicate (2 ^ k) [])" "tids_last_seq (rx_peer s') ! unat tid = 4096"
    using addba_eq [OF assms] by blast
  moreover from this have "ol_rx_reorder_seq_num_check (unat tid) q (rx_peer s') = Some htt_rx_status_ok"
    using tid_repD(3) by (simp add: ol_rx_reorder_seq_num_check_def IEEE80211_SEQ_MAX_def)
  ultimately show ?thesis using True by auto
next
  case False
  moreover have "length g_log2ceil = 65" by code_simp
  ultimately have "rd g_log2ceil (unat wsz) = None" by (simp add: rd_def)
  then show ?thesis using assms False by (simp add: ol_rx_addba_handler_def)
qed

theorem addba_window_witness:
  "(\<exists>k s'. ol_rx_addba_handler False 0 33 False (sample_rx (\<lambda>_. 0) []) = Some s' \<and> 33 \<le> (2 :: nat) ^ k \<and>
     tid_rep 0 s' k (replicate (2 ^ k) [])) \<and>
   ol_rx_addba_handler False 0 65 False (sample_rx (\<lambda>_. 0) []) = None"
  using addba_window [of 0 "sample_rx (\<lambda>_. 0) []" 33 False] addba_window [of 0 "sample_rx (\<lambda>_. 0) []" 65 False]
  by (simp add: sample_rx_def) blast

end
