(* ===== verification/Rx_Pn.thy ===== *)
theory Rx_Pn
  imports Rx_Window "HOL-Library.Sublist"
begin

text \<open>
  Replay protection of received frames (CLD_TXRX/TXRX/ol_rx_pn.c) and the security state of a peer
  (the peer and security handlers of CLD_TXRX/TXRX/ol_rx.c): the packet numbers of encrypted frames are
  compared with the last accepted one of the traffic identifier, and frames that do not advance it are
  dropped.
\<close>

section \<open>Packet numbers\<close>

text \<open>
  The members \<^verbatim>\<open>pn24\<close> and \<^verbatim>\<open>pn48\<close> of the union share the low bytes of \<open>pn128[0]\<close> on a little-endian
  host.
\<close>

definition ol_rx_pn_cmp24 :: "htt_rx_pn_t \<Rightarrow> htt_rx_pn_t \<Rightarrow> bool \<Rightarrow> wlan_op_mode \<Rightarrow> bool" where
  "ol_rx_pn_cmp24 new_pn old_pn is_unicast opmode \<longleftrightarrow>
     ((ucast (fst new_pn) :: u32) AND 0xffffff) \<le> ((ucast (fst old_pn) :: u32) AND 0xffffff)"

definition ol_rx_pn_cmp48 :: "htt_rx_pn_t \<Rightarrow> htt_rx_pn_t \<Rightarrow> bool \<Rightarrow> wlan_op_mode \<Rightarrow> bool" where
  "ol_rx_pn_cmp48 new_pn old_pn is_unicast opmode \<longleftrightarrow>
     (fst new_pn AND 0xffffffffffff) \<le> (fst old_pn AND 0xffffffffffff)"

definition ol_rx_pn_wapi_cmp :: "htt_rx_pn_t \<Rightarrow> htt_rx_pn_t \<Rightarrow> bool \<Rightarrow> wlan_op_mode \<Rightarrow> bool" where
  "ol_rx_pn_wapi_cmp new_pn old_pn is_unicast opmode =
     (let pn_is_replay = (if snd new_pn = snd old_pn then fst new_pn \<le> fst old_pn else snd new_pn < snd old_pn)
      in if is_unicast
         then if opmode = wlan_op_mode_ap then pn_is_replay \<or> (fst new_pn AND 1) \<noteq> 0
              else pn_is_replay \<or> (fst new_pn AND 1) \<noteq> 1
         else pn_is_replay)"

text \<open>The table \<^verbatim>\<open>rx_pn\<close> as \<^verbatim>\<open>ol_txrx_pdev_attach\<close> fills it: the length and the comparison, or zero and a null pointer.\<close>

type_synonym pn_cmp = "htt_rx_pn_t \<Rightarrow> htt_rx_pn_t \<Rightarrow> bool \<Rightarrow> wlan_op_mode \<Rightarrow> bool"

fun rx_pn :: "htt_sec_type \<Rightarrow> nat \<times> pn_cmp option" where
  "rx_pn htt_sec_type_tkip = (48, Some ol_rx_pn_cmp48)"
| "rx_pn htt_sec_type_tkip_nomic = (48, Some ol_rx_pn_cmp48)"
| "rx_pn htt_sec_type_aes_ccmp = (48, Some ol_rx_pn_cmp48)"
| "rx_pn htt_sec_type_wapi = (128, Some ol_rx_pn_wapi_cmp)"
| "rx_pn _ = (0, None)"

section \<open>The check\<close>

text \<open>
  \<^verbatim>\<open>ol_rx_mpdu_list_next\<close> (ol_txrx_internal.h): the last buffer of the MPDU that begins with \<open>msdu\<close>, and the
  buffer behind it. Running off the list reads the descriptor of a null pointer: \<open>None\<close>.
\<close>

partial_function (option) ol_rx_mpdu_list_next :: "(addr \<Rightarrow> rx_desc) \<Rightarrow> nbufs \<Rightarrow> addr \<Rightarrow> (addr \<times> addr) option" where
  "ol_rx_mpdu_list_next D m msdu =
     (if msdu = NULL then None
      else if desc_last_msdu (D msdu) then Some (msdu, m msdu)
      else ol_rx_mpdu_list_next D m (m msdu))"

text \<open>
  The loop of \<^verbatim>\<open>ol_rx_pn_check_base\<close>; \<open>cmp\<close> is the comparison with its two last arguments. The result is the
  validity and value of the last packet number, the first and last buffer of the good frames, the links
  and the log.
\<close>

partial_function (option) ol_rx_pn_check_loop ::
  "(addr \<Rightarrow> rx_desc) \<Rightarrow> (htt_rx_pn_t \<Rightarrow> htt_rx_pn_t \<Rightarrow> bool) \<Rightarrow> addr \<Rightarrow> bool \<Rightarrow> htt_rx_pn_t \<Rightarrow> addr \<Rightarrow> addr \<Rightarrow> nbufs
     \<Rightarrow> rx_call list \<Rightarrow> (bool \<times> htt_rx_pn_t \<times> addr \<times> addr \<times> nbufs \<times> rx_call list) option" where
  "ol_rx_pn_check_loop D cmp mpdu last_pn_valid last_pn out_list_head out_list_tail m calls =
     (if mpdu = NULL then Some (last_pn_valid, last_pn, out_list_head, out_list_tail, m, calls)
      else do {
        e \<leftarrow> ol_rx_mpdu_list_next D m mpdu;
        let m' = (if out_list_head = NULL then m else m(out_list_tail := mpdu));
        let h' = (if out_list_head = NULL then mpdu else out_list_head);
        if \<not> desc_encrypted (D mpdu)
        then ol_rx_pn_check_loop D cmp (snd e) last_pn_valid last_pn h' (fst e) m' calls
        else if last_pn_valid \<and> cmp (desc_pn (D mpdu)) last_pn
        then do {
          cs \<leftarrow> pn_ind_free_loop m mpdu (fst e) (calls @ [Rx_err_pn mpdu]);
          ol_rx_pn_check_loop D cmp (snd e) last_pn_valid last_pn out_list_head out_list_tail m cs }
        else ol_rx_pn_check_loop D cmp (snd e) True (desc_pn (D mpdu)) h' (fst e) m' calls })"

definition ol_rx_pn_check_base ::
  "(addr \<Rightarrow> rx_desc) \<Rightarrow> wlan_op_mode \<Rightarrow> nat \<Rightarrow> addr \<Rightarrow> rx_state \<Rightarrow> (addr \<times> rx_state) option" where
  "ol_rx_pn_check_base D opmode tid msdu_list s =
     (if fw_pn_check (rx_peer s) \<or> opmode = wlan_op_mode_ibss then Some (msdu_list, s)
      else if msdu_list = NULL then None
      else do {
        let index = (if desc_is_mcast (D msdu_list) then txrx_sec_mcast else txrx_sec_ucast);
        sec \<leftarrow> rd (security (rx_peer s)) index;
        if fst (rx_pn (sec_type sec)) = 0 then Some (msdu_list, s)
        else do {
          cmp \<leftarrow> snd (rx_pn (sec_type sec));
          valid \<leftarrow> rd (tids_last_pn_valid (rx_peer s)) tid;
          pn \<leftarrow> rd (tids_last_pn (rx_peer s)) tid;
          (valid', pn', head, tail, m, cs) \<leftarrow> ol_rx_pn_check_loop D
             (\<lambda>new_pn last_pn. cmp new_pn last_pn (index = txrx_sec_ucast) opmode) msdu_list valid pn NULL NULL
             (nbuf_next s) (rx_calls s);
          Some (head, s\<lparr>rx_peer := (rx_peer s)\<lparr>tids_last_pn_valid := (tids_last_pn_valid (rx_peer s))[tid := valid'],
                     tids_last_pn := (tids_last_pn (rx_peer s))[tid := pn']\<rparr>,
                   nbuf_next := (if tail \<noteq> NULL then m(tail := NULL) else m), rx_calls := cs\<rparr>) } })"

definition ol_rx_pn_check :: "(addr \<Rightarrow> rx_desc) \<Rightarrow> wlan_op_mode \<Rightarrow> nat \<Rightarrow> addr \<Rightarrow> rx_state \<Rightarrow> rx_state option" where
  "ol_rx_pn_check D opmode tid msdu_list s = do {
     (l, s) \<leftarrow> ol_rx_pn_check_base D opmode tid msdu_list s;
     Some (rx_log (Rx_fwd_check tid l) s) }"

definition ol_rx_pn_check_only :: "(addr \<Rightarrow> rx_desc) \<Rightarrow> wlan_op_mode \<Rightarrow> nat \<Rightarrow> addr \<Rightarrow> rx_state \<Rightarrow> rx_state option" where
  "ol_rx_pn_check_only D opmode tid msdu_list s = do {
     (l, s) \<leftarrow> ol_rx_pn_check_base D opmode tid msdu_list s;
     Some (rx_log (Rx_deliver tid l) s) }"

section \<open>The security state of a peer\<close>

definition ol_rx_peer_init :: "ol_txrx_peer_t \<Rightarrow> ol_txrx_peer_t option" where
  "ol_rx_peer_init P = do {
     P \<leftarrow> for_each [0..<OL_TXRX_NUM_EXT_TIDS] (\<lambda>tid P. do {
            R \<leftarrow> rd (tids_rx_reorder P) tid;
            ls \<leftarrow> wr (tids_last_seq P) tid (of_nat IEEE80211_SEQ_MAX);
            Some (P\<lparr>tids_rx_reorder := (tids_rx_reorder P)[tid := ol_rx_reorder_init (of_nat tid) R],
                    tids_last_seq := ls\<rparr>) }) P;
     m \<leftarrow> rd (security P) txrx_sec_mcast;
     u \<leftarrow> rd (security P) txrx_sec_ucast;
     Some (P\<lparr>security := (security P)[txrx_sec_mcast := m\<lparr>sec_type := htt_sec_type_none\<rparr>,
                                     txrx_sec_ucast := u\<lparr>sec_type := htt_sec_type_none\<rparr>],
            keyinstalled := 0, fw_pn_check := False\<rparr>) }"

definition ol_rx_peer_cleanup :: "(addr \<Rightarrow> rx_desc) \<Rightarrow> rx_state \<Rightarrow> rx_state option" where
  "ol_rx_peer_cleanup D s = do {
     s \<leftarrow> ol_rx_reorder_peer_cleanup D (s\<lparr>rx_peer := (rx_peer s)\<lparr>keyinstalled := 0\<rparr>\<rparr>);
     Some (s\<lparr>rx_peer := (rx_peer s)\<lparr>reorder_history := None\<rparr>\<rparr>) }"

text \<open>
  For a peer that is found. \<open>rx_pn_words\<close> are the two 64-bit words of the packet number in the message; the
  conversions to little endian are the identity on a little-endian host.
\<close>

definition ol_rx_sec_ind_handler ::
  "htt_sec_type \<Rightarrow> bool \<Rightarrow> u32 \<times> u32 \<Rightarrow> htt_rx_pn_t \<Rightarrow> ol_txrx_peer_t \<Rightarrow> ol_txrx_peer_t option" where
  "ol_rx_sec_ind_handler st is_unicast key rx_pn_words P = do {
     let sec_index = (if is_unicast then txrx_sec_ucast else txrx_sec_mcast);
     sec \<leftarrow> wr (security P) sec_index \<lparr>sec_type = st, michael_key = key\<rparr>;
     let P = P\<lparr>security := sec\<rparr>;
     if st \<noteq> htt_sec_type_wapi
     then for_each [0..<OL_TXRX_NUM_EXT_TIDS] (\<lambda>i P. do {
            v \<leftarrow> wr (tids_last_pn_valid P) i False;
            Some (P\<lparr>tids_last_pn_valid := v\<rparr>) }) P
     else do {
     v0 \<leftarrow> rd (tids_last_pn_valid P) 0;
     if sec_index = txrx_sec_mcast \<or> v0
     then for_each [0..<OL_TXRX_NUM_EXT_TIDS] (\<lambda>i P. do {
            v \<leftarrow> wr (tids_last_pn_valid P) i True;
            pn \<leftarrow> wr (tids_last_pn P) i rx_pn_words;
            Some (P\<lparr>tids_last_pn_valid := v, tids_last_pn := pn\<rparr>) }) P
     else Some P } }"

section \<open>What the check keeps\<close>

text \<open>
  MPDUs in a flat list of buffers, and the abstract check on them: the state is the validity and value of
  the last packet number.
\<close>

definition is_mpdu :: "(addr \<Rightarrow> rx_desc) \<Rightarrow> addr list \<Rightarrow> bool" where
  "is_mpdu D xs \<longleftrightarrow> xs \<noteq> [] \<and> desc_last_msdu (D (last xs)) \<and> (\<forall>x \<in> set (butlast xs). \<not> desc_last_msdu (D x))"

type_synonym pn_st = "bool \<times> htt_rx_pn_t"

definition pn_bad :: "(addr \<Rightarrow> rx_desc) \<Rightarrow> (htt_rx_pn_t \<Rightarrow> htt_rx_pn_t \<Rightarrow> bool) \<Rightarrow> pn_st \<Rightarrow> addr list \<Rightarrow> bool" where
  "pn_bad D cmp st xs \<longleftrightarrow> desc_encrypted (D (hd xs)) \<and> fst st \<and> cmp (desc_pn (D (hd xs))) (snd st)"

definition pn_next :: "(addr \<Rightarrow> rx_desc) \<Rightarrow> (htt_rx_pn_t \<Rightarrow> htt_rx_pn_t \<Rightarrow> bool) \<Rightarrow> pn_st \<Rightarrow> addr list \<Rightarrow> pn_st" where
  "pn_next D cmp st xs = (if desc_encrypted (D (hd xs)) \<and> \<not> pn_bad D cmp st xs then (True, desc_pn (D (hd xs))) else st)"

fun pn_kept :: "(addr \<Rightarrow> rx_desc) \<Rightarrow> (htt_rx_pn_t \<Rightarrow> htt_rx_pn_t \<Rightarrow> bool) \<Rightarrow> pn_st \<Rightarrow> addr list list \<Rightarrow> addr list list" where
  "pn_kept D cmp st [] = []"
| "pn_kept D cmp st (xs # ms) = (if pn_bad D cmp st xs then [] else [xs]) @ pn_kept D cmp (pn_next D cmp st xs) ms"

fun pn_drops :: "(addr \<Rightarrow> rx_desc) \<Rightarrow> (htt_rx_pn_t \<Rightarrow> htt_rx_pn_t \<Rightarrow> bool) \<Rightarrow> pn_st \<Rightarrow> addr list list \<Rightarrow> rx_call list" where
  "pn_drops D cmp st [] = []"
| "pn_drops D cmp st (xs # ms) = (if pn_bad D cmp st xs then Rx_err_pn (hd xs) # map Frame_free xs else []) @
     pn_drops D cmp (pn_next D cmp st xs) ms"

definition pn_final :: "(addr \<Rightarrow> rx_desc) \<Rightarrow> (htt_rx_pn_t \<Rightarrow> htt_rx_pn_t \<Rightarrow> bool) \<Rightarrow> pn_st \<Rightarrow> addr list list \<Rightarrow> pn_st" where
  "pn_final D cmp st ms = foldl (pn_next D cmp) st ms"

lemma mpdu_list_next_eq:
  "is_mpdu D xs \<Longrightarrow> nlist m p (xs @ ys) \<Longrightarrow>
     ol_rx_mpdu_list_next D m p = Some (last xs, fst (run_ends ys))"
proof (induction xs arbitrary: p)
  case (Cons x xs)
  show ?case
  proof (cases xs)
    case Nil
    then show ?thesis using Cons.prems
      by (subst ol_rx_mpdu_list_next.simps) (cases ys, auto simp: is_mpdu_def run_ends_def)
  next
    case c: (Cons z zs)
    then have "is_mpdu D xs" "\<not> desc_last_msdu (D x)" using Cons.prems(1) by (auto simp: is_mpdu_def split: if_splits)
    then show ?thesis using Cons c by (subst ol_rx_mpdu_list_next.simps) auto
  qed
qed (simp add: is_mpdu_def)

lemma free_loop_eq:
  "nlist m p (xs @ ys) \<Longrightarrow> xs \<noteq> [] \<Longrightarrow> distinct xs \<Longrightarrow>
     pn_ind_free_loop m p (last xs) cs = Some (cs @ map Frame_free xs)"
proof (induction xs arbitrary: p cs)
  case (Cons x xs)
  show ?case
  proof (cases xs)
    case Nil
    then show ?thesis using Cons.prems by (subst pn_ind_free_loop.simps) simp
  next
    case c: (Cons z zs)
    then have "x \<noteq> last xs" using Cons.prems(3) by (metis distinct.simps(2) last_in_set list.discI)
    then show ?thesis using Cons c by (subst pn_ind_free_loop.simps) auto
  qed
qed simp

lemma nlist_update: "x \<notin> set xs \<Longrightarrow> nlist (m(x := v)) p xs = nlist m p xs"
  by (induction xs arbitrary: p) auto

lemma nlist_suffix: "nlist m p (xs @ ys) \<Longrightarrow> nlist m (fst (run_ends ys)) ys"
proof (induction xs arbitrary: p)
  case Nil
  then show ?case by (cases ys) (auto simp: run_ends_def)
qed auto

lemma nlist_prefix_linked: "nlist m p (xs @ ys) \<Longrightarrow> linked m xs"
  using nlist_linked [of m p "xs @ ys"] by (auto simp: linked_append split: if_splits)

lemma nlist_close:
  assumes "linked m xs" and "distinct xs" and "NULL \<notin> set xs"
  shows "nlist (if snd (run_ends xs) \<noteq> NULL then m(snd (run_ends xs) := NULL) else m) (fst (run_ends xs)) xs"
  using nlist_terminate [OF assms(1,2) _ assms(3)] run_ends_null [OF assms(3)]
  by (cases "xs = []") (auto simp: run_ends_def)

text \<open>One MPDU joins the run of good frames, or is left out.\<close>

definition pn_inv :: "nbufs \<Rightarrow> addr list \<Rightarrow> addr list \<Rightarrow> bool" where
  "pn_inv m acc rest \<longleftrightarrow> linked m acc \<and> nlist m (fst (run_ends rest)) rest \<and> distinct (acc @ rest) \<and> NULL \<notin> set (acc @ rest)"

lemma pn_inv_keep:
  assumes "pn_inv m acc (xs @ ys)" and "xs \<noteq> []"
  shows "pn_inv (if acc = [] then m else m(last acc := hd xs)) (acc @ xs) ys"
proof -
  let ?m = "if acc = [] then m else m(last acc := hd xs)"
  have n: "nlist m (fst (run_ends (xs @ ys))) (xs @ ys)" and d: "distinct (acc @ xs @ ys)" and la: "linked m acc"
    using assms(1) by (auto simp: pn_inv_def)
  have lx: "linked m xs" by (rule nlist_prefix_linked [OF n])
  have "linked ?m (acc @ xs)" using linked_join [OF la lx] d lx assms(2) by auto
  moreover have "acc \<noteq> [] \<Longrightarrow> last acc \<notin> set ys" using d last_in_set [of acc] by (fastforce simp: disjoint_iff)
  then have "nlist ?m (fst (run_ends ys)) ys" using nlist_suffix [OF n] by (simp add: nlist_update)
  ultimately show ?thesis using assms(1) by (auto simp: pn_inv_def)
qed

lemma pn_inv_drop: "pn_inv m acc (xs @ ys) \<Longrightarrow> pn_inv m acc ys"
  by (auto simp: pn_inv_def dest: nlist_suffix)

lemma pn_check_loop_eq:
  "pn_inv m acc (concat ms) \<Longrightarrow> (\<forall>xs \<in> set ms. is_mpdu D xs) \<Longrightarrow>
   \<exists>m'. ol_rx_pn_check_loop D cmp (fst (run_ends (concat ms))) (fst st) (snd st) (fst (run_ends acc)) (snd (run_ends acc)) m cs =
       Some (fst (pn_final D cmp st ms), snd (pn_final D cmp st ms), fst (run_ends (acc @ concat (pn_kept D cmp st ms))),
         snd (run_ends (acc @ concat (pn_kept D cmp st ms))), m', cs @ pn_drops D cmp st ms) \<and>
     linked m' (acc @ concat (pn_kept D cmp st ms)) \<and> distinct (acc @ concat (pn_kept D cmp st ms)) \<and>
     NULL \<notin> set (acc @ concat (pn_kept D cmp st ms))"
proof (induction ms arbitrary: m acc st cs)
  case Nil
  then show ?case by (subst ol_rx_pn_check_loop.simps) (simp add: run_ends_def pn_final_def pn_inv_def)
next
  case (Cons xs ms)
  have xs: "is_mpdu D xs" "xs \<noteq> []" using Cons.prems(2) by (auto simp: is_mpdu_def)
  let ?r = "concat (xs # ms)" and ?st = "pn_next D cmp st xs"
  have inv: "pn_inv m acc (xs @ concat ms)" using Cons.prems(1) by simp
  then have nl: "nlist m (fst (run_ends ?r)) (xs @ concat ms)" and nn: "NULL \<notin> set acc" "NULL \<notin> set xs" and dx: "distinct xs"
    by (auto simp: pn_inv_def)
  have hx: "fst (run_ends ?r) = hd xs" using xs(2) by (simp add: run_ends_def)
  have hn: "hd xs \<noteq> NULL" using xs(2) nn(2) by (metis hd_in_set)
  have nx: "ol_rx_mpdu_list_next D m (hd xs) = Some (last xs, fst (run_ends (concat ms)))"
    using mpdu_list_next_eq [OF xs(1) nl] hx by simp
  note e = run_ends_null [OF nn(1)]
  show ?case
  proof (cases "pn_bad D cmp st xs")
    case True
    have "pn_ind_free_loop m (hd xs) (last xs) (cs @ [Rx_err_pn (hd xs)]) = Some ((cs @ [Rx_err_pn (hd xs)]) @ map Frame_free xs)"
      using free_loop_eq [OF nl xs(2) dx] hx by simp
    moreover have "?st = st" using True by (simp add: pn_next_def)
    moreover note Cons.IH [OF pn_inv_drop [OF inv], of st "(cs @ [Rx_err_pn (hd xs)]) @ map Frame_free xs"]
    ultimately show ?thesis using True hx hn nx Cons.prems(2)
      by (subst ol_rx_pn_check_loop.simps) (auto simp: pn_bad_def pn_final_def)
  next
    case False
    let ?m = "if acc = [] then m else m(last acc := hd xs)"
    have "ol_rx_pn_check_loop D cmp (fst (run_ends ?r)) (fst st) (snd st) (fst (run_ends acc)) (snd (run_ends acc)) m cs =
      ol_rx_pn_check_loop D cmp (fst (run_ends (concat ms))) (fst ?st) (snd ?st) (fst (run_ends (acc @ xs))) (snd (run_ends (acc @ xs))) ?m cs"
      using False hx hn nx e xs(2) by (subst ol_rx_pn_check_loop.simps)
        (auto simp: pn_bad_def pn_next_def Let_def run_ends_def)
    then show ?thesis using Cons.IH [OF pn_inv_keep [OF inv xs(2)], of ?st cs] Cons.prems(2) False
      by (simp add: pn_final_def)
  qed
qed


lemma pn_check_base_eq:
  fixes D :: "addr \<Rightarrow> rx_desc" and s :: rx_state and ms :: "addr list list" and opmode :: wlan_op_mode and tid :: nat
  defines "P \<equiv> rx_peer s" and "i \<equiv> (if desc_is_mcast (D (hd (concat ms))) then txrx_sec_mcast else txrx_sec_ucast)"
  defines "cmp \<equiv> \<lambda>x y. the (snd (rx_pn (sec_type (security P ! i)))) x y (i = txrx_sec_ucast) opmode"
    and "st \<equiv> (tids_last_pn_valid P ! tid, tids_last_pn P ! tid)"
  assumes "nlist (nbuf_next s) (hd (concat ms)) (concat ms)" and "distinct (concat ms)" and "ms \<noteq> []"
    and "\<forall>xs \<in> set ms. is_mpdu D xs" and "\<not> fw_pn_check P" and "opmode \<noteq> wlan_op_mode_ibss" and "length (security P) = 2"
    and "tid < length (tids_last_pn P)" and "tid < length (tids_last_pn_valid P)"
    and "fst (rx_pn (sec_type (security P ! i))) \<noteq> 0"
  shows "\<exists>p s'. ol_rx_pn_check_base D opmode tid (hd (concat ms)) s = Some (p, s') \<and>
    nlist (nbuf_next s') p (concat (pn_kept D cmp st ms)) \<and>
    rx_calls s' = rx_calls s @ pn_drops D cmp st ms \<and>
    (tids_last_pn_valid (rx_peer s') ! tid, tids_last_pn (rx_peer s') ! tid) = pn_final D cmp st ms"
proof -
  let ?K = "concat (pn_kept D cmp st ms)" and ?c = "concat ms"
  have cn: "?c \<noteq> []" using assms(7,8) by (cases ms) (auto simp: is_mpdu_def)
  have nn: "NULL \<notin> set ?c" using assms(5) nlist_linked [of _ _ ?c] cn by (auto split: if_splits)
  then have hn: "hd ?c \<noteq> NULL" using hd_in_set [OF cn] by metis
  have inv: "pn_inv (nbuf_next s) [] ?c" using assms(5,6) cn nn by (auto simp: pn_inv_def run_ends_def)
  obtain m' where loop: "ol_rx_pn_check_loop D cmp (hd ?c) (fst st) (snd st) NULL NULL (nbuf_next s) (rx_calls s) =
      Some (fst (pn_final D cmp st ms), snd (pn_final D cmp st ms), fst (run_ends ?K), snd (run_ends ?K), m',
        rx_calls s @ pn_drops D cmp st ms)" and K: "linked m' ?K" "distinct ?K" "NULL \<notin> set ?K"
  proof -
    have "fst (run_ends ?c) = hd ?c" "run_ends [] = (NULL, NULL)" unfolding run_ends_def using cn by (simp_all del: concat_eq_Nil_conv)
    then show thesis
      using pn_check_loop_eq [OF inv assms(8), of cmp st "rx_calls s"] that unfolding append_Nil by (metis fst_conv snd_conv)
  qed
  obtain f where f: "snd (rx_pn (sec_type (security P ! i))) = Some f"
    using assms(14) by (cases "sec_type (security P ! i)") auto
  have il: "i < length (security P)" using assms(11) by (simp add: i_def txrx_sec_mcast_def txrx_sec_ucast_def)
  have cmp: "(\<lambda>x y. f x y (i = txrx_sec_ucast) opmode) = cmp" by (simp add: cmp_def f)
  let ?m = "if snd (run_ends ?K) \<noteq> NULL then m'(snd (run_ends ?K) := NULL) else m'"
  have "nlist ?m (fst (run_ends ?K)) ?K" by (rule nlist_close [OF K])
  moreover have "ol_rx_pn_check_base D opmode tid (hd ?c) s = Some (fst (run_ends ?K),
      s\<lparr>rx_peer := P\<lparr>tids_last_pn_valid := (tids_last_pn_valid P)[tid := fst (pn_final D cmp st ms)],
           tids_last_pn := (tids_last_pn P)[tid := snd (pn_final D cmp st ms)]\<rparr>,
        nbuf_next := ?m, rx_calls := rx_calls s @ pn_drops D cmp st ms\<rparr>)"
    using assms(9,10,12,13,14) hn il f loop
    unfolding ol_rx_pn_check_base_def P_def [symmetric] i_def [symmetric] Let_def
    by (simp add: cmp st_def)
  ultimately show ?thesis using assms(12,13) by simp
qed

section \<open>Properties\<close>

text \<open>The 48-bit packet number of an MPDU.\<close>

definition pn48 :: "(addr \<Rightarrow> rx_desc) \<Rightarrow> addr list \<Rightarrow> u64" where
  "pn48 D xs = fst (desc_pn (D (hd xs))) AND 0xffffffffffff"

definition encrypted :: "(addr \<Rightarrow> rx_desc) \<Rightarrow> addr list \<Rightarrow> bool" where
  "encrypted D xs \<longleftrightarrow> desc_encrypted (D (hd xs))"

lemma kept_increasing:
  assumes "\<And>x y. cmp x y \<longleftrightarrow> (fst x AND 0xffffffffffff) \<le> (fst y AND 0xffffffffffff)"
  shows "sorted_wrt (<) ((if fst st then [fst (snd st) AND 0xffffffffffff] else []) @
    map (pn48 D) (filter (encrypted D) (pn_kept D cmp st ms)))"
proof (induction ms arbitrary: st)
  case (Cons xs ms)
  have t: "sorted_wrt (<) (a # b # zs) \<longleftrightarrow> a < b \<and> sorted_wrt (<) (b # zs)" for a b :: u64 and zs
    by (auto intro: less_trans)
  show ?case
    using Cons.IH [of "pn_next D cmp st xs"]
    by (auto simp: pn_next_def pn_bad_def encrypted_def pn48_def assms not_le t simp del: sorted_wrt.simps(2))
qed simp

lemma kept_subseq: "subseq (pn_kept D cmp st ms) ms"
proof (induction ms arbitrary: st)
  case (Cons xs ms)
  show ?case using Cons.IH [of "pn_next D cmp st xs"] by auto
qed simp

lemma kept_plain: "\<not> encrypted D xs \<Longrightarrow> xs \<in> set ms \<Longrightarrow> xs \<in> set (pn_kept D cmp st ms)"
proof (induction ms arbitrary: st)
  case (Cons ys ms)
  then show ?case using Cons.IH [of "pn_next D cmp st ys"]
    by (cases "xs = ys") (simp_all add: pn_bad_def encrypted_def)
qed simp

lemma dropped_reported:
  "xs \<in> set ms \<Longrightarrow> xs \<notin> set (pn_kept D cmp st ms) \<Longrightarrow>
     Rx_err_pn (hd xs) \<in> set (pn_drops D cmp st ms) \<and> Frame_free ` set xs \<subseteq> set (pn_drops D cmp st ms)"
proof (induction ms arbitrary: st)
  case (Cons ys ms)
  show ?case
  proof (cases "xs = ys \<and> pn_bad D cmp st ys")
    case False
    then have "xs \<in> set ms" "xs \<notin> set (pn_kept D cmp (pn_next D cmp st ys) ms)" using Cons.prems by (auto split: if_splits)
    from Cons.IH [OF this] show ?thesis by auto
  qed auto
qed simp

text \<open>
  C17: replay protection. For a list of MPDUs of a peer with a 48-bit cipher, \<^verbatim>\<open>ol_rx_pn_check_base\<close>
  returns a null-terminated list of whole MPDUs in which the packet numbers of the encrypted ones
  strictly increase and exceed the last one accepted before; the other MPDUs are reported and freed,
  and every buffer is either in the returned list or freed.
\<close>

theorem pn_check_no_replay:
  fixes D :: "addr \<Rightarrow> rx_desc" and s :: rx_state and ms :: "addr list list" and opmode :: wlan_op_mode and tid :: nat
  defines "P \<equiv> rx_peer s" and "i \<equiv> (if desc_is_mcast (D (hd (concat ms))) then txrx_sec_mcast else txrx_sec_ucast)"
  assumes "nlist (nbuf_next s) (hd (concat ms)) (concat ms)" and "distinct (concat ms)" and "ms \<noteq> []"
    and "\<forall>xs \<in> set ms. is_mpdu D xs" and "\<not> fw_pn_check P" and "opmode \<noteq> wlan_op_mode_ibss" and "length (security P) = 2"
    and "tid < length (tids_last_pn P)" and "tid < length (tids_last_pn_valid P)"
    and "sec_type (security P ! i) \<in> {htt_sec_type_tkip, htt_sec_type_tkip_nomic, htt_sec_type_aes_ccmp}"
  shows "\<exists>p s' kept. ol_rx_pn_check_base D opmode tid (hd (concat ms)) s = Some (p, s') \<and>
    nlist (nbuf_next s') p (concat kept) \<and> subseq kept ms \<and>
    sorted_wrt (<) ((if tids_last_pn_valid P ! tid then [fst (tids_last_pn P ! tid) AND 0xffffffffffff] else []) @
      map (pn48 D) (filter (encrypted D) kept)) \<and>
    (\<forall>xs \<in> set ms. \<not> encrypted D xs \<longrightarrow> xs \<in> set kept) \<and>
    (\<forall>xs \<in> set ms. xs \<notin> set kept \<longrightarrow> Rx_err_pn (hd xs) \<in> set (rx_calls s') \<and> (\<forall>x \<in> set xs. Frame_free x \<in> set (rx_calls s')))"
proof -
  define cmp where "cmp = (\<lambda>x y. the (snd (rx_pn (sec_type (security P ! i)))) x y (i = txrx_sec_ucast) opmode)"
  define st where "st = (tids_last_pn_valid P ! tid, tids_last_pn P ! tid)"
  have c: "\<And>x y. cmp x y \<longleftrightarrow> (fst x AND 0xffffffffffff) \<le> (fst y AND 0xffffffffffff)"
    using assms(12) by (auto simp: cmp_def ol_rx_pn_cmp48_def)
  have f: "fst (rx_pn (sec_type (security P ! i))) \<noteq> 0" using assms(12) by auto
  obtain p s' where r: "ol_rx_pn_check_base D opmode tid (hd (concat ms)) s = Some (p, s')"
      "nlist (nbuf_next s') p (concat (pn_kept D cmp st ms))" "rx_calls s' = rx_calls s @ pn_drops D cmp st ms"
    using pn_check_base_eq [OF assms(3-6) assms(7-11) [unfolded P_def] f [unfolded P_def i_def]]
    unfolding cmp_def st_def P_def i_def by blast
  have "\<forall>xs \<in> set ms. \<not> encrypted D xs \<longrightarrow> xs \<in> set (pn_kept D cmp st ms)" using kept_plain by blast
  moreover have "\<forall>xs \<in> set ms. xs \<notin> set (pn_kept D cmp st ms) \<longrightarrow>
      Rx_err_pn (hd xs) \<in> set (rx_calls s') \<and> (\<forall>x \<in> set xs. Frame_free x \<in> set (rx_calls s'))"
    using dropped_reported [of _ ms D cmp st] unfolding r(3) set_append by blast
  ultimately show ?thesis using r(1,2) kept_increasing [of cmp st D ms, OF c] kept_subseq [of D cmp st ms]
    unfolding st_def fst_conv snd_conv by blast
qed

definition sample_pn_desc :: "addr \<Rightarrow> rx_desc" where
  "sample_pn_desc p = \<lparr>desc_seq_num = 9, desc_tid = 0, desc_retry = False, desc_is_frag = False, desc_is_mcast = False,
     desc_encrypted = True, desc_last_msdu = (p \<noteq> 10), desc_pn = (if p = 20 then 3 else if p = 30 then 9 else 5, 0)\<rparr>"

theorem pn_check_no_replay_witness:
  "\<exists>p s' kept. ol_rx_pn_check_base sample_pn_desc wlan_op_mode_sta 0 10
       (sample_rx ((\<lambda>_. 0)(10 := 11, 11 := 20, 20 := 30)) []) = Some (p, s') \<and>
     nlist (nbuf_next s') p (concat kept) \<and> sorted_wrt (<) (map (pn48 sample_pn_desc) (filter (encrypted sample_pn_desc) kept))"
  using pn_check_no_replay [of "sample_rx ((\<lambda>_. 0)(10 := 11, 11 := 20, 20 := 30)) []" "[[10, 11], [20], [30]]"
      sample_pn_desc wlan_op_mode_sta 0]
  by (simp add: sample_rx_def sample_pn_desc_def is_mpdu_def txrx_sec_ucast_def) blast

text \<open>
  C18: WAPI packet numbers. The comparison for WAPI takes the packet number as one number of 128 bits, and
  in the unicast direction also drops the numbers of the other direction's parity: an access point
  accepts only even numbers, the other modes only odd ones.
\<close>

definition pn128 :: "htt_rx_pn_t \<Rightarrow> nat" where
  "pn128 p = unat (snd p) * 2 ^ 64 + unat (fst p)"

theorem wapi_cmp_128:
  "ol_rx_pn_wapi_cmp new_pn old_pn is_unicast opmode \<longleftrightarrow> pn128 new_pn \<le> pn128 old_pn \<or>
     (is_unicast \<and> (if opmode = wlan_op_mode_ap then odd (pn128 new_pn) else even (pn128 new_pn)))"
proof -
  have lex: "a * 2 ^ 64 + b \<le> c * 2 ^ 64 + d \<longleftrightarrow> (if a = c then b \<le> d else a < c)"
    if "b < 2 ^ 64" "d < 2 ^ 64" for a b c d :: nat using that by (auto simp: not_less)
  have bnd: "unat (x :: u64) < 2 ^ 64" for x using unsigned_less [of x, where 'a = nat] by simp
  have par: "(x AND 1) \<noteq> 0 \<longleftrightarrow> odd (unat x)" "(x AND 1) \<noteq> 1 \<longleftrightarrow> even (unat x)" for x :: u64
    using bit_unsigned_iff [of x 0, where 'a = nat] by (auto simp: and_one_eq bit_0 mod_2_eq_odd)
  show ?thesis
    unfolding ol_rx_pn_wapi_cmp_def pn128_def lex [OF bnd bnd] par
    by (auto simp: word_le_nat_alt word_less_nat_alt Let_def)
qed

text \<open>The packet numbers of all traffic identifiers are forgotten together.\<close>

lemma forget_all_eq:
  "n \<le> length (tids_last_pn_valid P) \<Longrightarrow>
   for_each [0..<n] (\<lambda>i P. do { v \<leftarrow> wr (tids_last_pn_valid P) i False; Some (P\<lparr>tids_last_pn_valid := v\<rparr>) }) P =
     Some (P\<lparr>tids_last_pn_valid := replicate n False @ drop n (tids_last_pn_valid P)\<rparr>)"
proof (induction n)
  case (Suc n)
  then show ?case by (simp add: for_each_append Cons_nth_drop_Suc [symmetric] list_update_append replicate_append_same)
qed simp

text \<open>
  A group key resets unicast replay protection. A security indication for the multicast key leaves
  the unicast key as it is but forgets the last packet numbers of all traffic identifiers: the next
  unicast frame is accepted whatever its packet number, a copy of an old frame included.
\<close>

theorem mcast_key_forgets_unicast_pn:
  assumes "st \<noteq> htt_sec_type_wapi" and "length (security P) = 2" and "OL_TXRX_NUM_EXT_TIDS \<le> length (tids_last_pn_valid P)"
    and "tid < OL_TXRX_NUM_EXT_TIDS" and "tid < length (tids_last_pn P)"
    and "\<not> desc_is_mcast (D x)" and "desc_encrypted (D x)" and "desc_last_msdu (D x)" and "x \<noteq> NULL"
  shows "\<exists>P'. ol_rx_sec_ind_handler st False key w P = Some P' \<and> security P' ! txrx_sec_ucast = security P ! txrx_sec_ucast \<and>
    (\<exists>s'. ol_rx_pn_check_base D opmode tid x \<lparr>rx_peer = P', nbuf_next = (\<lambda>_. NULL), rx_calls = []\<rparr> = Some (x, s') \<and>
       rx_calls s' = [])"
proof -
  let ?v = "replicate OL_TXRX_NUM_EXT_TIDS False @ drop OL_TXRX_NUM_EXT_TIDS (tids_last_pn_valid P)"
  let ?P = "P\<lparr>security := (security P)[txrx_sec_mcast := \<lparr>sec_type = st, michael_key = key\<rparr>], tids_last_pn_valid := ?v\<rparr>"
  have h: "ol_rx_sec_ind_handler st False key w P = Some ?P"
    using assms(1-3) forget_all_eq [of OL_TXRX_NUM_EXT_TIDS "P\<lparr>security := (security P)[txrx_sec_mcast := \<lparr>sec_type = st, michael_key = key\<rparr>]\<rparr>"]
    by (simp add: ol_rx_sec_ind_handler_def txrx_sec_mcast_def)
  have v: "\<not> ?v ! tid" "tid < length ?v" using assms(3,4) by (auto simp: nth_append)
  have nx: "ol_rx_mpdu_list_next D (\<lambda>_. NULL) x = Some (x, NULL)"
    using assms(8,9) by (subst ol_rx_mpdu_list_next.simps) simp
  have loop: "ol_rx_pn_check_loop D cmp x False pn NULL NULL (\<lambda>_. NULL) [] = Some (True, desc_pn (D x), x, x, \<lambda>_. NULL, [])" for cmp pn
    using assms(7,9) nx by (subst ol_rx_pn_check_loop.simps, subst ol_rx_pn_check_loop.simps) simp
  obtain n c where rp: "rx_pn (sec_type (security P ! 1)) = (n, c)" "n = 0 \<or> c \<noteq> None"
    by (cases "sec_type (security P ! 1)") auto
  have "\<exists>s'. ol_rx_pn_check_base D opmode tid x \<lparr>rx_peer = ?P, nbuf_next = (\<lambda>_. NULL), rx_calls = []\<rparr> = Some (x, s') \<and> rx_calls s' = []"
    using assms(2,5,6,9) rp v loop
    by (auto simp: ol_rx_pn_check_base_def txrx_sec_ucast_def txrx_sec_mcast_def Let_def)
  then show ?thesis using h by (simp add: txrx_sec_ucast_def txrx_sec_mcast_def)
qed

theorem mcast_key_forgets_unicast_pn_witness:
  "\<exists>P'. ol_rx_sec_ind_handler htt_sec_type_aes_ccmp False (0, 0) (0, 0)
      ((rx_peer (sample_rx (\<lambda>_. 0) []))\<lparr>tids_last_pn_valid := replicate 19 True, tids_last_pn := replicate 19 (5, 0)\<rparr>) = Some P' \<and>
    (\<exists>s'. ol_rx_pn_check_base sample_pn_desc wlan_op_mode_sta 0 20 \<lparr>rx_peer = P', nbuf_next = (\<lambda>_. NULL), rx_calls = []\<rparr> = Some (20, s') \<and>
       rx_calls s' = [])"
  using mcast_key_forgets_unicast_pn [of htt_sec_type_aes_ccmp
      "(rx_peer (sample_rx (\<lambda>_. 0) []))\<lparr>tids_last_pn_valid := replicate 19 True, tids_last_pn := replicate 19 (5, 0)\<rparr>"
      0 sample_pn_desc 20 "(0, 0)" "(0, 0)" wlan_op_mode_sta]
  by (simp add: sample_pn_desc_def OL_TXRX_NUM_EXT_TIDS_def sample_rx_def) blast

end
