(* ===== verification/Cfg.thy ===== *)
theory Cfg
  imports Prelude Lim_Aid
begin

text \<open>
  The configuration store of the MAC (MAC/src/cfg/cfgApi.c): integer and string parameters, addressed
  through a table of control words. The low twelve bits of a control word are the parameter's index in
  the buffer of integers or of strings, the high bits say what the parameter is and whom to notify of a
  change. An access outside a buffer gives \<open>None\<close>.
\<close>

section \<open>State\<close>

definition CFG_PARAM_MAX_NUM :: nat where "CFG_PARAM_MAX_NUM = 298"
definition CFG_STA_IBUF_MAX_SIZE :: nat where "CFG_STA_IBUF_MAX_SIZE = 241"
definition CFG_STA_SBUF_MAX_SIZE :: nat where "CFG_STA_SBUF_MAX_SIZE = 3199"
definition CFG_MAX_STR_LEN :: nat where "CFG_MAX_STR_LEN = 256"

definition CFG_CTL_VALID :: u32 where "CFG_CTL_VALID = 0x00010000"
definition CFG_CTL_RE :: u32 where "CFG_CTL_RE = 0x00020000"
definition CFG_CTL_WE :: u32 where "CFG_CTL_WE = 0x00040000"
definition CFG_CTL_INT :: u32 where "CFG_CTL_INT = 0x00080000"
definition CFG_CTL_RESTART :: u32 where "CFG_CTL_RESTART = 0x00200000"
definition CFG_CTL_RELOAD :: u32 where "CFG_CTL_RELOAD = 0x00400000"
definition CFG_CTL_NTF_HAL :: u32 where "CFG_CTL_NTF_HAL = 0x04000000"
definition CFG_CTL_NTF_SCH :: u32 where "CFG_CTL_NTF_SCH = 0x20000000"
definition CFG_CTL_NTF_LIM :: u32 where "CFG_CTL_NTF_LIM = 0x40000000"
definition CFG_CTL_NTF_MASK :: u32 where "CFG_CTL_NTF_MASK = 0xFFE00000"
definition CFG_BUF_INDX_MASK :: u32 where "CFG_BUF_INDX_MASK = 0x00000fff"

datatype cfg_status = CFG_INCOMPLETE | CFG_SUCCESS | CFG_FAILURE

text \<open>The messages the store sends: a parameter changed, to the three modules that can be told; a message to the host with its parameters and data.\<close>

datatype cfg_msg =
    Sch_param_update u16
  | Lim_param_update u16
  | Wda_param_update u16
  | Host_msg u16 "u32 list" "u8 list"
  | Wda_download_complete

text \<open>
  \<^verbatim>\<open>tAniSirCfg\<close> with the static arrays its pointers are set to. \<^verbatim>\<open>cfgInit\<close> and \<^verbatim>\<open>cfgDeInit\<close> set and clear all the
  pointers together: \<open>cfg_attached\<close> says that they are not null.
\<close>

record tAniSirCfg =
  gCfgStatus :: cfg_status
  cfg_attached :: bool
  gCfgEntry :: "u32 list"
  gCfgIBufMin :: "u32 list"
  gCfgIBufMax :: "u32 list"
  gCfgIBuf :: "u32 list"
  gCfgSBuf :: "u8 list"
  gCfgMaxSBufSize :: u16
  gSBuffer :: "u8 list"
  gLogLevel :: u32
  cfg_msgs :: "cfg_msg list"

text \<open>Copying \<open>n\<close> bytes one after the other, from offset \<open>si\<close> of an array to offset \<open>di\<close> of another one.\<close>

primrec copy_bytes :: "nat \<Rightarrow> u8 list \<Rightarrow> nat \<Rightarrow> u8 list \<Rightarrow> nat \<Rightarrow> u8 list option" where
  "copy_bytes 0 src si dst di = Some dst"
| "copy_bytes (Suc n) src si dst di = do {
     v \<leftarrow> rd src si;
     dst \<leftarrow> wr dst di v;
     copy_bytes n src (si + 1) dst (di + 1) }"

section \<open>Parameters\<close>

definition cfgNeedRestart :: "u16 \<Rightarrow> tAniSirCfg \<Rightarrow> bool option" where
  "cfgNeedRestart cfgId C = (if \<not> cfg_attached C then Some False
     else do { control \<leftarrow> rd (gCfgEntry C) (unat cfgId); Some (control AND CFG_CTL_RESTART \<noteq> 0) })"

definition cfgNeedReload :: "u16 \<Rightarrow> tAniSirCfg \<Rightarrow> bool option" where
  "cfgNeedReload cfgId C = (if \<not> cfg_attached C then Some False
     else do { control \<leftarrow> rd (gCfgEntry C) (unat cfgId); Some (control AND CFG_CTL_RELOAD \<noteq> 0) })"

definition cfgDeInit :: "tAniSirCfg \<Rightarrow> tAniSirCfg" where
  "cfgDeInit C = C\<lparr>cfg_attached := False\<rparr>"

definition cfgCleanup :: "tAniSirCfg \<Rightarrow> tAniSirCfg" where
  "cfgCleanup C = C\<lparr>gCfgStatus := CFG_INCOMPLETE\<rparr>"

definition Notify :: "u16 \<Rightarrow> u32 \<Rightarrow> tAniSirCfg \<Rightarrow> tAniSirCfg" where
  "Notify cfgId ntfMask C = C\<lparr>cfg_msgs := cfg_msgs C
     @ (if ntfMask AND CFG_CTL_NTF_SCH \<noteq> 0 then [Sch_param_update cfgId] else [])
     @ (if ntfMask AND CFG_CTL_NTF_LIM \<noteq> 0 then [Lim_param_update cfgId] else [])
     @ (if ntfMask AND CFG_CTL_NTF_HAL \<noteq> 0 then [Wda_param_update cfgId] else [])\<rparr>"

definition cfgSetInt :: "u16 \<Rightarrow> u32 \<Rightarrow> tAniSirCfg \<Rightarrow> (tSirRetStatus \<times> tAniSirCfg) option" where
  "cfgSetInt cfgId value C =
     (if unat cfgId \<ge> CFG_PARAM_MAX_NUM then Some (eSIR_CFG_INVALID_ID, C)
      else if \<not> cfg_attached C then Some (eSIR_CFG_INVALID_ID, C)
      else do {
        control \<leftarrow> rd (gCfgEntry C) (unat cfgId);
        let index = unat (control AND CFG_BUF_INDX_MASK);
        if index \<ge> CFG_STA_IBUF_MAX_SIZE then Some (eSIR_CFG_INVALID_ID, C)
        else if control AND CFG_CTL_VALID = 0 then Some (eSIR_CFG_INVALID_ID, C)
        else do {
          mn \<leftarrow> rd (gCfgIBufMin C) index;
          mx \<leftarrow> rd (gCfgIBufMax C) index;
          if mn > value \<or> mx < value then Some (eSIR_CFG_INVALID_ID, C)
          else do {
            ib \<leftarrow> wr (gCfgIBuf C) index value;
            let C = C\<lparr>gCfgIBuf := ib\<rparr>;
            let ntf = control AND CFG_CTL_NTF_MASK;
            Some (eSIR_SUCCESS, if ntf AND CFG_CTL_NTF_MASK \<noteq> 0 then Notify cfgId ntf C else C) } } })"

definition cfgCheckValid :: "u16 \<Rightarrow> tAniSirCfg \<Rightarrow> tSirRetStatus option" where
  "cfgCheckValid cfgId C =
     (if unat cfgId \<ge> CFG_PARAM_MAX_NUM then Some eSIR_CFG_INVALID_ID
      else if \<not> cfg_attached C then Some eSIR_CFG_INVALID_ID
      else do {
        control \<leftarrow> rd (gCfgEntry C) (unat cfgId);
        Some (if control AND CFG_CTL_VALID = 0 then eSIR_CFG_INVALID_ID else eSIR_SUCCESS) })"

text \<open>The functions that return a value take what the caller's variable holds and return what it holds afterwards.\<close>

definition wlan_cfgGetInt :: "u16 \<Rightarrow> u32 \<Rightarrow> tAniSirCfg \<Rightarrow> (tSirRetStatus \<times> u32) option" where
  "wlan_cfgGetInt cfgId pValue C =
     (if unat cfgId \<ge> CFG_PARAM_MAX_NUM then Some (eSIR_CFG_INVALID_ID, pValue)
      else if \<not> cfg_attached C then Some (eSIR_CFG_INVALID_ID, pValue)
      else do {
        control \<leftarrow> rd (gCfgEntry C) (unat cfgId);
        let index = unat (control AND CFG_BUF_INDX_MASK);
        if index \<ge> CFG_STA_IBUF_MAX_SIZE then Some (eSIR_CFG_INVALID_ID, pValue)
        else if control AND CFG_CTL_VALID = 0 then Some (eSIR_CFG_INVALID_ID, pValue)
        else do { v \<leftarrow> rd (gCfgIBuf C) index; Some (eSIR_SUCCESS, v) } })"

text \<open>A string parameter is its maximal length, its length, and its bytes.\<close>

definition cfgSetStrNotify :: "u16 \<Rightarrow> u8 list \<Rightarrow> u32 \<Rightarrow> bool \<Rightarrow> tAniSirCfg \<Rightarrow> (tSirRetStatus \<times> tAniSirCfg) option" where
  "cfgSetStrNotify cfgId pStr len notifyMod C =
     (if unat cfgId \<ge> CFG_PARAM_MAX_NUM then Some (eSIR_CFG_INVALID_ID, C)
      else if \<not> cfg_attached C then Some (eSIR_CFG_INVALID_ID, C)
      else do {
        control \<leftarrow> rd (gCfgEntry C) (unat cfgId);
        let index = unat (control AND CFG_BUF_INDX_MASK);
        if control AND CFG_CTL_VALID = 0 then Some (eSIR_CFG_INVALID_ID, C)
        else if index \<ge> CFG_STA_SBUF_MAX_SIZE then Some (eSIR_CFG_INVALID_ID, C)
        else do {
          paramLen \<leftarrow> rd (gCfgSBuf C) index;
          if len > ucast paramLen then Some (eSIR_CFG_INVALID_LEN, C)
          else do {
            sb \<leftarrow> wr (gCfgSBuf C) (index + 1) (ucast len);
            sb \<leftarrow> copy_bytes (unat len) pStr 0 sb (index + 2);
            let C = C\<lparr>gCfgSBuf := sb\<rparr>;
            let ntf = control AND CFG_CTL_NTF_MASK;
            Some (eSIR_SUCCESS, if notifyMod \<and> ntf AND CFG_CTL_NTF_MASK \<noteq> 0 then Notify cfgId ntf C else C) } } })"

definition cfgSetStr :: "u16 \<Rightarrow> u8 list \<Rightarrow> u32 \<Rightarrow> tAniSirCfg \<Rightarrow> (tSirRetStatus \<times> tAniSirCfg) option" where
  "cfgSetStr cfgId pStr len C = cfgSetStrNotify cfgId pStr len True C"

definition wlan_cfgGetStr :: "u16 \<Rightarrow> u8 list \<Rightarrow> u32 \<Rightarrow> tAniSirCfg \<Rightarrow> (tSirRetStatus \<times> u8 list \<times> u32) option" where
  "wlan_cfgGetStr cfgId pBuf pLength C =
     (if unat cfgId \<ge> CFG_PARAM_MAX_NUM then Some (eSIR_CFG_INVALID_ID, pBuf, pLength)
      else if \<not> cfg_attached C then Some (eSIR_CFG_INVALID_ID, pBuf, pLength)
      else do {
        control \<leftarrow> rd (gCfgEntry C) (unat cfgId);
        let index = unat (control AND CFG_BUF_INDX_MASK);
        if index \<ge> CFG_STA_SBUF_MAX_SIZE then Some (eSIR_CFG_INVALID_ID, pBuf, pLength)
        else if control AND CFG_CTL_VALID = 0 then Some (eSIR_CFG_INVALID_ID, pBuf, pLength)
        else do {
          l \<leftarrow> rd (gCfgSBuf C) (index + 1);
          if pLength < ucast l then Some (eSIR_CFG_INVALID_LEN, pBuf, pLength)
          else do {
            buf \<leftarrow> copy_bytes (unat l) (gCfgSBuf C) (index + 2) pBuf 0;
            Some (eSIR_SUCCESS, buf, ucast l) } } })"

text \<open>
  The two length queries go on after an identifier out of range: they only set a return value that is
  overwritten.
\<close>

definition wlan_cfgGetStrMaxLen :: "u16 \<Rightarrow> u32 \<Rightarrow> tAniSirCfg \<Rightarrow> (tSirRetStatus \<times> u32) option" where
  "wlan_cfgGetStrMaxLen cfgId pLength C =
     (if \<not> cfg_attached C then Some (eSIR_CFG_INVALID_ID, pLength)
      else do {
        control \<leftarrow> rd (gCfgEntry C) (unat cfgId);
        let index = unat (control AND CFG_BUF_INDX_MASK);
        if index \<ge> CFG_STA_SBUF_MAX_SIZE then Some (eSIR_CFG_INVALID_ID, pLength)
        else if control AND CFG_CTL_VALID = 0 then Some (eSIR_CFG_INVALID_ID, pLength)
        else do { l \<leftarrow> rd (gCfgSBuf C) index; Some (eSIR_SUCCESS, ucast l) } })"

definition wlan_cfgGetStrLen :: "u16 \<Rightarrow> u32 \<Rightarrow> tAniSirCfg \<Rightarrow> (tSirRetStatus \<times> u32) option" where
  "wlan_cfgGetStrLen cfgId pLength C =
     (if \<not> cfg_attached C then Some (eSIR_CFG_INVALID_ID, pLength)
      else do {
        control \<leftarrow> rd (gCfgEntry C) (unat cfgId);
        let index = unat (control AND CFG_BUF_INDX_MASK);
        if index \<ge> CFG_STA_SBUF_MAX_SIZE - 1 then Some (eSIR_CFG_INVALID_ID, pLength)
        else if control AND CFG_CTL_VALID = 0 then Some (eSIR_CFG_INVALID_ID, pLength)
        else do { l \<leftarrow> rd (gCfgSBuf C) (index + 1); Some (eSIR_SUCCESS, ucast l) } })"

section \<open>Transmit power and capabilities\<close>

definition WDA_MAX_TXPOWER_INVALID :: u8 where "WDA_MAX_TXPOWER_INVALID = 127"
definition SIR_11A_CHANNEL_BEGIN :: u8 where "SIR_11A_CHANNEL_BEGIN = 34"
definition SIR_11A_CHANNEL_END :: u8 where "SIR_11A_CHANNEL_END = 165"
definition WNI_CFG_MAX_TX_POWER_2_4 :: u16 where "WNI_CFG_MAX_TX_POWER_2_4 = 77"
definition WNI_CFG_MAX_TX_POWER_5 :: u16 where "WNI_CFG_MAX_TX_POWER_5 = 78"

text \<open>
  The loop over the triplets of first channel, number of channels and power. \<open>count\<close> is a byte, the bound
  is the difference of two 32-bit numbers; the sum of two bytes is an \<^verbatim>\<open>int\<close>.
\<close>

partial_function (option) dot11d_loop :: "u8 list \<Rightarrow> u32 \<Rightarrow> u8 \<Rightarrow> u8 \<Rightarrow> u8 \<Rightarrow> u8 option" where
  "dot11d_loop pCountryInfo cfgLength channel count maxTxPwr =
     (if (ucast count :: u32) \<le> cfgLength - 3 then do {
        firstChannel \<leftarrow> rd pCountryInfo (unat count);
        maxChannels \<leftarrow> rd pCountryInfo (unat (count + 1));
        pwr \<leftarrow> rd pCountryInfo (unat (count + 2));
        if channel \<ge> firstChannel \<and> unat channel < unat firstChannel + unat maxChannels then Some pwr
        else dot11d_loop pCountryInfo cfgLength channel (count + 3) pwr }
      else Some maxTxPwr)"

text \<open>\<open>alloc\<close> is the buffer \<^verbatim>\<open>vos_mem_malloc\<close> returns, or \<open>None\<close> for a null pointer.\<close>

definition cfgGetDot11dTransmitPower :: "(nat \<Rightarrow> u8 list option) \<Rightarrow> u16 \<Rightarrow> u32 \<Rightarrow> u8 \<Rightarrow> tAniSirCfg \<Rightarrow> u8 option" where
  "cfgGetDot11dTransmitPower alloc cfgId cfgLength channel C =
     (if cfgLength < 3 then Some WDA_MAX_TXPOWER_INVALID
      else case alloc (unat cfgLength) of
        None \<Rightarrow> Some WDA_MAX_TXPOWER_INVALID
      | Some buf \<Rightarrow> do {
          (st, buf, cfgLength) \<leftarrow> wlan_cfgGetStr cfgId buf cfgLength C;
          if st \<noteq> eSIR_SUCCESS then Some WDA_MAX_TXPOWER_INVALID
          else dot11d_loop buf cfgLength channel 0 WDA_MAX_TXPOWER_INVALID })"

definition cfgGetRegulatoryMaxTransmitPower :: "(nat \<Rightarrow> u8 list option) \<Rightarrow> u8 \<Rightarrow> tAniSirCfg \<Rightarrow> u8 option" where
  "cfgGetRegulatoryMaxTransmitPower alloc channel C =
     (if channel \<ge> SIR_11A_CHANNEL_BEGIN \<and> channel \<le> SIR_11A_CHANNEL_END
      then cfgGetDot11dTransmitPower alloc WNI_CFG_MAX_TX_POWER_5 128 channel C
      else cfgGetDot11dTransmitPower alloc WNI_CFG_MAX_TX_POWER_2_4 128 channel C)"

text \<open>\<^verbatim>\<open>tSirMacCapabilityInfo\<close>, and the fields of the session and of the MAC that \<^verbatim>\<open>cfgGetCapabilityInfo\<close> reads.\<close>

record tSirMacCapabilityInfo =
  ess :: bool
  ibss :: bool
  privacy :: bool
  shortPreamble :: bool
  pbcc :: bool
  channelAgility :: bool
  spectrumMgt :: bool
  qos :: bool
  shortSlotTime :: bool
  apsd :: bool
  rrm :: bool
  delayedBA :: bool
  immediateBA :: bool

record cap_session =
  cap_role :: tLimSystemRole
  cap_privacy :: bool
  cap_dot11b :: bool
  cap_shortSlotTimeSupported :: bool
  cap_lim11hEnable :: bool

definition WNI_CFG_PRIVACY_ENABLED :: u16 where "WNI_CFG_PRIVACY_ENABLED = 57"
definition WNI_CFG_SHORT_PREAMBLE :: u16 where "WNI_CFG_SHORT_PREAMBLE = 58"
definition WNI_CFG_11G_SHORT_SLOT_TIME_ENABLED :: u16 where "WNI_CFG_11G_SHORT_SLOT_TIME_ENABLED = 98"
definition WNI_CFG_11H_ENABLED :: u16 where "WNI_CFG_11H_ENABLED = 88"
definition WNI_CFG_QOS_ENABLED :: u16 where "WNI_CFG_QOS_ENABLED = 61"
definition WNI_CFG_APSD_ENABLED :: u16 where "WNI_CFG_APSD_ENABLED = 52"
definition WNI_CFG_BLOCK_ACK_ENABLED :: u16 where "WNI_CFG_BLOCK_ACK_ENABLED = 139"

text \<open>A read that must succeed: otherwise the function returns \<^verbatim>\<open>eSIR_FAILURE\<close> with what it has filled in so far.\<close>

definition cap_int :: "u16 \<Rightarrow> tAniSirCfg \<Rightarrow> tSirMacCapabilityInfo \<Rightarrow>
    (u32 \<Rightarrow> (tSirRetStatus \<times> tSirMacCapabilityInfo) option) \<Rightarrow> (tSirRetStatus \<times> tSirMacCapabilityInfo) option" where
  "cap_int cfgId C cap k = do {
     (st, val) \<leftarrow> wlan_cfgGetInt cfgId 0 C;
     if st \<noteq> eSIR_SUCCESS then Some (eSIR_FAILURE, cap) else k val }"

definition cap_none :: tSirMacCapabilityInfo where
  "cap_none = \<lparr>ess = False, ibss = False, privacy = False, shortPreamble = False, pbcc = False, channelAgility = False,
     spectrumMgt = False, qos = False, shortSlotTime = False, apsd = False, rrm = False, delayedBA = False,
     immediateBA = False\<rparr>"

text \<open>\<open>auth_offload\<close>: authentication offload of the access point is on; \<open>rrm_enabled\<close> is the flag of the radio resource management.\<close>

definition cfgGetCapabilityInfo ::
  "bool \<Rightarrow> bool \<Rightarrow> cap_session \<Rightarrow> tAniSirCfg \<Rightarrow> (tSirRetStatus \<times> tSirMacCapabilityInfo) option" where
  "cfgGetCapabilityInfo auth_offload rrm_enabled S C =
     (let ap = (cap_role S = eLIM_AP_ROLE);
          cap = (if cap_role S = eLIM_STA_IN_IBSS_ROLE then cap_none\<lparr>ibss := True\<rparr>
                 else if cap_role S \<in> {eLIM_AP_ROLE, eLIM_BT_AMP_AP_ROLE, eLIM_BT_AMP_STA_ROLE, eLIM_STA_ROLE}
                 then cap_none\<lparr>ess := True\<rparr> else cap_none);
          priv = (\<lambda>k. if ap then k (if auth_offload \<or> cap_privacy S then 1 else 0)
                      else cap_int WNI_CFG_PRIVACY_ENABLED C cap k);
          slot = (\<lambda>cap k. if ap then k (cap\<lparr>shortSlotTime := cap_shortSlotTimeSupported S\<rparr>)
                      else cap_int WNI_CFG_11G_SHORT_SLOT_TIME_ENABLED C cap (\<lambda>val.
                        k (if val \<noteq> 0 then cap\<lparr>shortSlotTime := cap_shortSlotTimeSupported S\<rparr> else cap)));
          spec = (\<lambda>cap k. if cap_role S \<noteq> eLIM_STA_IN_IBSS_ROLE \<and> cap_lim11hEnable S
                      then cap_int WNI_CFG_11H_ENABLED C cap (\<lambda>val. k (if val \<noteq> 0 then cap\<lparr>spectrumMgt := True\<rparr> else cap))
                      else k cap)
      in priv (\<lambda>val. let cap = (if val \<noteq> (0 :: u32) then cap\<lparr>privacy := True\<rparr> else cap) in
         cap_int WNI_CFG_SHORT_PREAMBLE C cap (\<lambda>val. let cap = (if val \<noteq> 0 then cap\<lparr>shortPreamble := True\<rparr> else cap) in
         if cap_dot11b S then Some (eSIR_SUCCESS, cap)
         else slot cap (\<lambda>cap. spec cap (\<lambda>cap.
           cap_int WNI_CFG_QOS_ENABLED C cap (\<lambda>val. let cap = (if val \<noteq> 0 then cap\<lparr>qos := True\<rparr> else cap) in
           cap_int WNI_CFG_APSD_ENABLED C cap (\<lambda>val. let cap = (if val \<noteq> 0 then cap\<lparr>apsd := True\<rparr> else cap) in
           let cap = cap\<lparr>rrm := rrm_enabled\<rparr> in
           cap_int WNI_CFG_BLOCK_ACK_ENABLED C cap (\<lambda>val.
             Some (eSIR_SUCCESS, cap\<lparr>delayedBA := (val AND 1 \<noteq> 0), immediateBA := (drop_bit 1 val AND 1 \<noteq> 0)\<rparr>)))))))))"

text \<open>
  \<^verbatim>\<open>cfg_get_vendor_ie_ptr_from_oui\<close>: the offset of the first vendor element with the given identifier in the
  buffer \<open>ie\<close>, \<open>Some None\<close> for the null pointer. \<open>memcmp\<close> reads \<open>oui_size\<close> bytes behind the header of the
  element, whatever its length; reading outside the buffer is \<open>None\<close>. \<open>left\<close> is a signed number that never
  becomes negative.
\<close>

definition SIR_MAC_EID_VENDOR :: u8 where "SIR_MAC_EID_VENDOR = 221"

definition mem_eq :: "u8 list \<Rightarrow> u8 list \<Rightarrow> nat \<Rightarrow> bool option" where
  "mem_eq xs buf i = (if i + length xs \<le> length buf then Some (take (length xs) (drop i buf) = xs) else None)"

function vendor_ie_loop :: "u8 list \<Rightarrow> u8 list \<Rightarrow> nat \<Rightarrow> nat \<Rightarrow> nat option option" where
  "vendor_ie_loop oui ie left ptr =
     (if left \<ge> 2 then do {
        elem_id \<leftarrow> rd ie ptr;
        elem_len \<leftarrow> rd ie (ptr + 1);
        let left' = left - 2;
        if unat elem_len > left' then Some None
        else do {
          eq \<leftarrow> (if elem_id = SIR_MAC_EID_VENDOR then mem_eq oui ie (ptr + 2) else Some False);
          if eq then Some (Some ptr)
          else vendor_ie_loop oui ie (left' - unat elem_len) (ptr + unat elem_len + 2) } }
      else Some None)"
  by pat_completeness auto
termination by (relation "measure (\<lambda>(_, _, left, _). left)") auto

definition cfg_get_vendor_ie_ptr_from_oui :: "u8 list \<Rightarrow> u8 list \<Rightarrow> u16 \<Rightarrow> nat option option" where
  "cfg_get_vendor_ie_ptr_from_oui oui ie ie_len = vendor_ie_loop oui ie (unat ie_len) 0"

end
