(* ===== verification/Cfg_Msg.thy ===== *)
theory Cfg_Msg
  imports Cfg
begin

text \<open>
  Filling the configuration store from the table of defaults, and the messages of the host that read and
  write it (MAC/src/cfg/cfgProcMsg.c and cfgSendMsg.c).
\<close>

section \<open>The table of defaults\<close>

text \<open>\<^verbatim>\<open>struct cfgstatic_string\<close> and \<^verbatim>\<open>struct cgstatic\<close>; \<open>p_str_data\<close> is an index of the table of strings, or null.\<close>

record cfgstatic_string =
  str_cfg_id :: u16
  max_len :: u8
  str_length :: u8
  str_data :: "u8 list"

record cgstatic =
  st_cfg_id :: u16
  control :: u32
  cfg_imin :: u32
  cfg_imax :: u32
  cfg_ival :: u32
  p_str_data :: "nat option"

definition CFG_MAX_STATIC_STRING :: nat where "CFG_MAX_STATIC_STRING = 70"
definition WNI_CFG_LOG_LEVEL :: u16 where "WNI_CFG_LOG_LEVEL = 92"

text \<open>\<^verbatim>\<open>cfg_get_str_index\<close> and \<^verbatim>\<open>cfgInit\<close> of cfgApi.c, on the two tables.\<close>

definition str_index_step :: "cfgstatic_string list \<Rightarrow> u16 \<Rightarrow> nat \<Rightarrow> nat option \<Rightarrow> nat option option" where
  "str_index_step strs cfg_id i found = do {
     s \<leftarrow> rd strs i;
     Some (if found = None \<and> cfg_id = str_cfg_id s then Some i else found) }"

definition cfg_get_str_index :: "cfgstatic_string list \<Rightarrow> u16 \<Rightarrow> cgstatic list \<Rightarrow> cgstatic list option" where
  "cfg_get_str_index strs cfg_id cfg_static = do {
     found \<leftarrow> for_each [0..<CFG_MAX_STATIC_STRING] (str_index_step strs cfg_id) None;
     e \<leftarrow> rd cfg_static (unat cfg_id);
     wr cfg_static (unat cfg_id) (e\<lparr>p_str_data := found\<rparr>) }"

definition cfgInit :: "cfgstatic_string list \<Rightarrow> cgstatic list \<Rightarrow> tAniSirCfg \<Rightarrow> (cgstatic list \<times> tAniSirCfg) option" where
  "cfgInit strs cfg_static C = do {
     cfg_static \<leftarrow> for_each [0..<CFG_PARAM_MAX_NUM] (\<lambda>i t. do {
         e \<leftarrow> rd t i;
         if control e AND CFG_CTL_INT = 0 then cfg_get_str_index strs (of_nat i) t
         else wr t i (e\<lparr>p_str_data := None\<rparr>) }) cfg_static;
     Some (cfg_static, C\<lparr>cfg_attached := True\<rparr>) }"

section \<open>Filling the store\<close>

text \<open>
  The three loops of \<^verbatim>\<open>processCfgDownloadReq\<close>. First, each parameter gets its place: \<open>icount\<close> and \<open>scount\<close> are
  the number of integers and the size of the strings so far.
\<close>

definition dnld_place :: "cfgstatic_string list \<Rightarrow> cgstatic list \<Rightarrow> nat \<Rightarrow> u32 \<times> u32 \<times> u32 list \<Rightarrow> (u32 \<times> u32 \<times> u32 list) option" where
  "dnld_place strs cfg_static i st = (case st of (icount, scount, entries) \<Rightarrow> do {
     e \<leftarrow> rd cfg_static i;
     if control e AND CFG_CTL_VALID \<noteq> 0 then
       if control e AND CFG_CTL_INT = 0 then (case p_str_data e of
           None \<Rightarrow> Some st
         | Some k \<Rightarrow> do {
             s \<leftarrow> rd strs k;
             es \<leftarrow> wr entries i (control e OR (scount AND CFG_BUF_INDX_MASK));
             Some (icount, scount + ucast (max_len s) + 1 + 1, es) })
       else do {
         es \<leftarrow> wr entries i (control e OR (icount AND CFG_BUF_INDX_MASK));
         Some (icount + 1, scount, es) }
     else do { es \<leftarrow> wr entries i (control e OR 0); Some (icount, scount, es) } })"

text \<open>Then, from the last to the first, the room each string has up to the next one.\<close>

definition dnld_room :: "u32 list \<Rightarrow> nat \<Rightarrow> u32 \<times> u8 list \<Rightarrow> (u32 \<times> u8 list) option" where
  "dnld_room entries i st = (case st of (buf_end, sb) \<Rightarrow> do {
     c \<leftarrow> rd entries i;
     if c AND CFG_CTL_INT \<noteq> 0 then Some st
     else if c AND CFG_CTL_VALID = 0 then Some st
     else do {
       let buf_start = c AND CFG_BUF_INDX_MASK;
       sb \<leftarrow> wr sb (unat buf_start) (ucast (buf_end - buf_start - 2));
       Some (buf_start, sb) } })"

text \<open>
  Then the defaults. A null \<open>p_str_data\<close> is skipped: the address of its \<^verbatim>\<open>data\<close> member is computed, but the
  pointer is checked before it is used.
\<close>

definition dnld_default :: "cfgstatic_string list \<Rightarrow> cgstatic list \<Rightarrow> nat \<Rightarrow> tAniSirCfg \<Rightarrow> tAniSirCfg option" where
  "dnld_default strs cfg_static i C = do {
     c \<leftarrow> rd (gCfgEntry C) i;
     e \<leftarrow> rd cfg_static i;
     let index = unat (c AND CFG_BUF_INDX_MASK);
     if c AND CFG_CTL_INT \<noteq> 0 then do {
       mn \<leftarrow> wr (gCfgIBufMin C) index (cfg_imin e);
       mx \<leftarrow> wr (gCfgIBufMax C) index (cfg_imax e);
       ib \<leftarrow> wr (gCfgIBuf C) index (cfg_ival e);
       Some (C\<lparr>gCfgIBufMin := mn, gCfgIBufMax := mx, gCfgIBuf := ib\<rparr>) }
     else if c AND CFG_CTL_VALID = 0 then Some C
     else if index \<ge> CFG_STA_SBUF_MAX_SIZE then Some C
     else (case p_str_data e of
         None \<Rightarrow> Some C
       | Some k \<Rightarrow> do {
           s \<leftarrow> rd strs k;
           max_saved_len \<leftarrow> rd (gCfgSBuf C) index;
           if str_length s > max_saved_len then Some C
           else do {
             sb \<leftarrow> wr (gCfgSBuf C) index (max_len s);
             sb \<leftarrow> wr sb (index + 1) (str_length s);
             sb \<leftarrow> copy_bytes (unat (str_length s)) (str_data s) 0 sb (index + 2);
             Some (C\<lparr>gCfgSBuf := sb\<rparr>) } }) }"

text \<open>\<open>junk\<close> is what the local variable for the log level holds when it is not set.\<close>

definition processCfgDownloadReq ::
  "cfgstatic_string list \<Rightarrow> cgstatic list \<Rightarrow> u32 \<Rightarrow> tAniSirCfg \<Rightarrow> tAniSirCfg option" where
  "processCfgDownloadReq strs cfg_static junk C = do {
     (icount, scount, entries) \<leftarrow> for_each [0..<CFG_PARAM_MAX_NUM] (dnld_place strs cfg_static) (0, 0, gCfgEntry C);
     let C = C\<lparr>gCfgEntry := entries\<rparr>;
     (buf_end, sb) \<leftarrow> for_each (rev [0..<CFG_PARAM_MAX_NUM]) (dnld_room entries) (ucast (gCfgMaxSBufSize C), gCfgSBuf C);
     let C = C\<lparr>gCfgSBuf := sb\<rparr>;
     C \<leftarrow> for_each [0..<CFG_PARAM_MAX_NUM] (dnld_default strs cfg_static) C;
     (st, log_level) \<leftarrow> wlan_cfgGetInt WNI_CFG_LOG_LEVEL junk C;
     Some (C\<lparr>gLogLevel := log_level, gCfgStatus := CFG_SUCCESS\<rparr>) }"

section \<open>Messages of the host\<close>

definition WNI_CFG_SUCCESS :: u32 where "WNI_CFG_SUCCESS = 1"
definition WNI_CFG_NOT_READY :: u32 where "WNI_CFG_NOT_READY = 2"
definition WNI_CFG_INVALID_PID :: u32 where "WNI_CFG_INVALID_PID = 3"
definition WNI_CFG_INVALID_LEN :: u32 where "WNI_CFG_INVALID_LEN = 4"
definition WNI_CFG_RO_PARAM :: u32 where "WNI_CFG_RO_PARAM = 5"
definition WNI_CFG_WO_PARAM :: u32 where "WNI_CFG_WO_PARAM = 6"
definition WNI_CFG_OTHER_ERROR :: u32 where "WNI_CFG_OTHER_ERROR = 8"
definition WNI_CFG_NEED_RESTART :: u32 where "WNI_CFG_NEED_RESTART = 9"
definition WNI_CFG_NEED_RELOAD :: u32 where "WNI_CFG_NEED_RELOAD = 10"

text \<open>
  The words of a message as bytes, least significant first. \<open>ptr_size\<close> is the size of a pointer in bytes: the
  get handler takes \<^verbatim>\<open>sizeof\<close> of the pointer \<^verbatim>\<open>gSBuffer\<close> for the size of the buffer.
\<close>

definition word_bytes :: "u32 \<Rightarrow> u8 list" where
  "word_bytes w = [ucast w, ucast (drop_bit 8 w), ucast (drop_bit 16 w), ucast (drop_bit 24 w)]"

definition bytes_of :: "u32 list \<Rightarrow> u8 list" where
  "bytes_of ws = concat (map word_bytes ws)"

text \<open>\<^verbatim>\<open>cfgSendHostMsg\<close>: the message is delivered when the buffer for it can be had.\<close>

definition host_send :: "bool \<Rightarrow> u16 \<Rightarrow> u32 list \<Rightarrow> u8 list \<Rightarrow> tAniSirCfg \<Rightarrow> tAniSirCfg" where
  "host_send mem t params data C = (if mem then C\<lparr>cfg_msgs := cfg_msgs C @ [Host_msg t params data]\<rparr> else C)"

definition CheckParam :: "u16 \<Rightarrow> u32 \<Rightarrow> u32 \<Rightarrow> u32 \<Rightarrow> tAniSirCfg \<Rightarrow> (bool \<times> u32) option" where
  "CheckParam cfgId flag failedResult pResult C =
     (if unat cfgId \<ge> CFG_PARAM_MAX_NUM then Some (False, WNI_CFG_INVALID_PID)
      else do {
        c \<leftarrow> rd (gCfgEntry C) (unat cfgId);
        Some (if c AND CFG_CTL_VALID = 0 then (False, WNI_CFG_INVALID_PID)
              else if c AND flag = 0 then (False, failedResult)
              else (True, pResult)) })"

definition GetStrValue :: "u8 list \<Rightarrow> u8 list \<Rightarrow> u16 \<Rightarrow> u8 list option" where
  "GetStrValue pBuf pValue len = copy_bytes (unat len) pBuf 0 pValue 0"

text \<open>The message numbers of the two responses, and the result of a write that succeeded.\<close>

definition WNI_CFG_GET_RSP :: u16 where "WNI_CFG_GET_RSP = 0x1203"
definition WNI_CFG_SET_CNF :: u16 where "WNI_CFG_SET_CNF = 0x1204"

definition set_result :: "u16 \<Rightarrow> tSirRetStatus \<Rightarrow> tAniSirCfg \<Rightarrow> u32 option" where
  "set_result cfgId st C =
     (if st \<noteq> eSIR_SUCCESS then Some WNI_CFG_OTHER_ERROR
      else do {
        rs \<leftarrow> cfgNeedRestart cfgId C;
        rl \<leftarrow> cfgNeedReload cfgId C;
        Some (if rs then WNI_CFG_NEED_RESTART else if rl then WNI_CFG_NEED_RELOAD else WNI_CFG_SUCCESS) })"

text \<open>One record of \<^verbatim>\<open>ProcSetReqInternal\<close>: \<open>len\<close> is what is left of the message behind the header of the record.\<close>

definition set_one :: "u16 \<Rightarrow> u16 \<Rightarrow> u16 \<Rightarrow> u16 \<Rightarrow> u32 list \<Rightarrow> tAniSirCfg \<Rightarrow> (u32 \<times> tAniSirCfg) option" where
  "set_one cfgId valueLen rounded len ps C = do {
     (ok, _) \<leftarrow> CheckParam cfgId CFG_CTL_WE WNI_CFG_RO_PARAM 0 C;
     if \<not> ok then Some (WNI_CFG_INVALID_LEN, C)
     else do {
       c \<leftarrow> rd (gCfgEntry C) (unat cfgId);
       if c AND CFG_CTL_INT \<noteq> 0 then
         (if valueLen \<noteq> 4 then Some (WNI_CFG_INVALID_LEN, C)
          else do {
            value \<leftarrow> rd ps 0;
            (st, C) \<leftarrow> cfgSetInt cfgId value C;
            r \<leftarrow> set_result cfgId st C;
            Some (r, C) })
       else if rounded > len then Some (WNI_CFG_INVALID_LEN, C)
       else do {
         sb \<leftarrow> GetStrValue (bytes_of ps) (gSBuffer C) valueLen;
         let C = C\<lparr>gSBuffer := sb\<rparr>;
         (st, C) \<leftarrow> cfgSetStr cfgId sb (ucast valueLen) C;
         r \<leftarrow> set_result cfgId st C;
         Some (r, C) } } }"

partial_function (option) set_req_loop :: "bool \<Rightarrow> bool \<Rightarrow> u16 \<Rightarrow> u32 list \<Rightarrow> tAniSirCfg \<Rightarrow> tAniSirCfg option" where
  "set_req_loop mem fRsp len ps C =
     (if len \<ge> 8 then do {
        w0 \<leftarrow> rd ps 0;
        w1 \<leftarrow> rd ps 1;
        let cfgId = ucast w0;
        let valueLen = (ucast w1 :: u16);
        let len' = len - 8;
        let rounded = (of_nat ((unat valueLen + 3) div 4 * 4) :: u16);
        x \<leftarrow> set_one cfgId valueLen rounded len' (drop 2 ps) C;
        let C' = (if fRsp then host_send mem WNI_CFG_SET_CNF [fst x, ucast cfgId] [] (snd x) else snd x);
        if rounded > len' then set_req_loop mem fRsp 0 (drop 2 ps) C'
        else set_req_loop mem fRsp (len' - rounded) (drop (unat rounded div 4) (drop 2 ps)) C' }
      else Some C)"

text \<open>The identifier in a message that comes too early is read as a 32-bit number in network order.\<close>

definition first_id :: "u32 list \<Rightarrow> u16 option" where
  "first_id ps = do {
     w \<leftarrow> rd ps 0;
     let b = word_bytes w;
     Some (push_bit 8 (ucast (b ! 2)) OR ucast (b ! 3)) }"

definition ProcSetReqInternal :: "bool \<Rightarrow> u16 \<Rightarrow> u32 list \<Rightarrow> bool \<Rightarrow> tAniSirCfg \<Rightarrow> tAniSirCfg option" where
  "ProcSetReqInternal mem len ps fRsp C =
     (if gCfgStatus C = CFG_INCOMPLETE then do {
        cfgId \<leftarrow> first_id ps;
        Some (if fRsp then host_send mem WNI_CFG_SET_CNF [WNI_CFG_NOT_READY, ucast cfgId] [] C else C) }
      else set_req_loop mem fRsp len ps C)"

definition ProcSetReq :: "bool \<Rightarrow> u16 \<Rightarrow> u32 list \<Rightarrow> tAniSirCfg \<Rightarrow> tAniSirCfg option" where
  "ProcSetReq mem len ps C = ProcSetReqInternal mem len ps True C"

definition ProcSetReqNoRsp :: "bool \<Rightarrow> u16 \<Rightarrow> u32 list \<Rightarrow> tAniSirCfg \<Rightarrow> tAniSirCfg option" where
  "ProcSetReqNoRsp mem len ps C = ProcSetReqInternal mem len ps False C"

text \<open>
  One identifier of \<^verbatim>\<open>ProcGetReq\<close>: the result, the length and the bytes of the value, the buffer. The response
  carries the value rounded up to whole words; \<open>junk\<close> is what the local variable for an integer holds when it
  is not set.
\<close>

definition get_one :: "nat \<Rightarrow> u32 \<Rightarrow> u16 \<Rightarrow> tAniSirCfg \<Rightarrow> (u32 \<times> u32 \<times> u8 list \<times> tAniSirCfg) option" where
  "get_one ptr_size junk cfgId C = do {
     (ok, _) \<leftarrow> CheckParam cfgId CFG_CTL_RE WNI_CFG_WO_PARAM 0 C;
     if \<not> ok then Some (WNI_CFG_INVALID_LEN, 0, [], C)
     else do {
       c \<leftarrow> rd (gCfgEntry C) (unat cfgId);
       if c AND CFG_CTL_INT \<noteq> 0 then do {
         (st, v) \<leftarrow> wlan_cfgGetInt cfgId junk C;
         Some (if st = eSIR_SUCCESS then WNI_CFG_SUCCESS else WNI_CFG_OTHER_ERROR, 4, word_bytes v, C) }
       else do {
         (st, sb, valueLen) \<leftarrow> wlan_cfgGetStr cfgId (gSBuffer C) (of_nat ptr_size) C;
         Some (if st = eSIR_SUCCESS then WNI_CFG_SUCCESS else WNI_CFG_OTHER_ERROR, valueLen,
               take ((unat valueLen + 3) div 4 * 4) sb, C\<lparr>gSBuffer := sb\<rparr>) } } }"

partial_function (option) get_req_loop :: "bool \<Rightarrow> nat \<Rightarrow> u32 \<Rightarrow> u16 \<Rightarrow> u32 list \<Rightarrow> tAniSirCfg \<Rightarrow> tAniSirCfg option" where
  "get_req_loop mem ptr_size junk len ps C =
     (if len \<ge> 4 then do {
        w \<leftarrow> rd ps 0;
        x \<leftarrow> get_one ptr_size junk (ucast w) C;
        get_req_loop mem ptr_size junk (len - 4) (drop 1 ps)
          (host_send mem WNI_CFG_GET_RSP [fst x, ucast (ucast w :: u16), fst (snd x)] (fst (snd (snd x))) (snd (snd (snd x)))) }
      else Some C)"

definition ProcGetReq :: "bool \<Rightarrow> nat \<Rightarrow> u32 \<Rightarrow> u16 \<Rightarrow> u32 list \<Rightarrow> tAniSirCfg \<Rightarrow> tAniSirCfg option" where
  "ProcGetReq mem ptr_size junk len ps C =
     (if gCfgStatus C = CFG_INCOMPLETE then do {
        cfgId \<leftarrow> first_id ps;
        Some (host_send mem WNI_CFG_GET_RSP [WNI_CFG_NOT_READY, ucast cfgId, 0] [] C) }
      else get_req_loop mem ptr_size junk len ps C)"

end
