(* ===== verification/Cfg_Store.thy ===== *)
theory Cfg_Store
  imports Cfg_Msg
begin

text \<open>
  The configuration store as a map from parameters to values: the layout invariant of its buffers, what
  the accessors of cfgApi.c return under it, and that writing a parameter keeps it and changes no other
  parameter.
\<close>

section \<open>Reading what was copied\<close>

lemma copy_bytes_Some:
  "si + n \<le> length src \<Longrightarrow> di + n \<le> length dst \<Longrightarrow>
     \<exists>d. copy_bytes n src si dst di = Some d \<and> length d = length dst \<and>
       (\<forall>j < length dst. d ! j = (if di \<le> j \<and> j < di + n then src ! (si + (j - di)) else dst ! j))"
proof (induction n arbitrary: si dst di)
  case (Suc n)
  obtain d where d: "copy_bytes n src (si + 1) (dst[di := src ! si]) (di + 1) = Some d" "length d = length dst"
      "\<And>j. j < length dst \<Longrightarrow>
         d ! j = (if di + 1 \<le> j \<and> j < di + 1 + n then src ! (si + 1 + (j - (di + 1))) else dst[di := src ! si] ! j)"
    using Suc.IH [of "si + 1" "di + 1" "dst[di := src ! si]"] Suc.prems by auto
  have "d ! j = (if di \<le> j \<and> j < di + Suc n then src ! (si + (j - di)) else dst ! j)" if "j < length dst" for j
  proof (cases "j = di")
    case False
    then show ?thesis using d(3) [OF that] by (auto simp: Suc_diff_Suc)
  qed (use d(3) [OF that] that in simp)
  then show ?case using d Suc.prems by auto
qed auto

lemma copy_bytes_None:
  "0 < n \<Longrightarrow> length src < si + n \<or> length dst < di + n \<Longrightarrow> copy_bytes n src si dst di = None"
proof (induction n arbitrary: si dst di)
  case (Suc n)
  show ?case
  proof (cases "si < length src \<and> di < length dst \<and> 0 < n")
    case True
    then show ?thesis using Suc.IH [of "si + 1" "dst[di := src ! si]" "di + 1"] Suc.prems by auto
  next
    case False
    then show ?thesis using Suc.prems by (auto simp: rd_def wr_def)
  qed
qed simp

section \<open>The store as a map\<close>

text \<open>The control word and the place of a parameter, what kind it is, and its value.\<close>

definition ctl :: "tAniSirCfg \<Rightarrow> u16 \<Rightarrow> u32" where "ctl C p = gCfgEntry C ! unat p"
definition place :: "tAniSirCfg \<Rightarrow> u16 \<Rightarrow> nat" where "place C p = unat (ctl C p AND CFG_BUF_INDX_MASK)"
definition int_param :: "tAniSirCfg \<Rightarrow> u16 \<Rightarrow> bool" where
  "int_param C p \<longleftrightarrow> unat p < CFG_PARAM_MAX_NUM \<and> ctl C p AND CFG_CTL_VALID \<noteq> 0 \<and> ctl C p AND CFG_CTL_INT \<noteq> 0"
definition str_param :: "tAniSirCfg \<Rightarrow> u16 \<Rightarrow> bool" where
  "str_param C p \<longleftrightarrow> unat p < CFG_PARAM_MAX_NUM \<and> ctl C p AND CFG_CTL_VALID \<noteq> 0 \<and> ctl C p AND CFG_CTL_INT = 0"

definition int_val :: "tAniSirCfg \<Rightarrow> u16 \<Rightarrow> u32" where "int_val C p = gCfgIBuf C ! place C p"
definition int_min :: "tAniSirCfg \<Rightarrow> u16 \<Rightarrow> u32" where "int_min C p = gCfgIBufMin C ! place C p"
definition int_max :: "tAniSirCfg \<Rightarrow> u16 \<Rightarrow> u32" where "int_max C p = gCfgIBufMax C ! place C p"
definition str_max :: "tAniSirCfg \<Rightarrow> u16 \<Rightarrow> nat" where "str_max C p = unat (gCfgSBuf C ! place C p)"
definition str_len :: "tAniSirCfg \<Rightarrow> u16 \<Rightarrow> nat" where "str_len C p = unat (gCfgSBuf C ! (place C p + 1))"
definition str_val :: "tAniSirCfg \<Rightarrow> u16 \<Rightarrow> u8 list" where
  "str_val C p = take (str_len C p) (drop (place C p + 2) (gCfgSBuf C))"

text \<open>
  The layout invariant: the buffers have their sizes, integers have places of their own, and each string
  has room for its maximal length before any other string begins.
\<close>

definition sizes_ok :: "tAniSirCfg \<Rightarrow> bool" where
  "sizes_ok C \<longleftrightarrow> cfg_attached C \<and> length (gCfgEntry C) = CFG_PARAM_MAX_NUM \<and> length (gCfgIBuf C) = CFG_STA_IBUF_MAX_SIZE \<and>
     length (gCfgIBufMin C) = CFG_STA_IBUF_MAX_SIZE \<and> length (gCfgIBufMax C) = CFG_STA_IBUF_MAX_SIZE \<and>
     length (gCfgSBuf C) = CFG_STA_SBUF_MAX_SIZE \<and> length (gSBuffer C) = CFG_MAX_STR_LEN"

definition cfg_inv :: "tAniSirCfg \<Rightarrow> bool" where
  "cfg_inv C \<longleftrightarrow> sizes_ok C \<and>
     (\<forall>p. int_param C p \<longrightarrow> place C p < CFG_STA_IBUF_MAX_SIZE) \<and>
     (\<forall>p q. int_param C p \<longrightarrow> int_param C q \<longrightarrow> p \<noteq> q \<longrightarrow> place C p \<noteq> place C q) \<and>
     (\<forall>p. str_param C p \<longrightarrow> place C p + 2 + str_max C p \<le> CFG_STA_SBUF_MAX_SIZE \<and> str_len C p \<le> str_max C p) \<and>
     (\<forall>p q. str_param C p \<longrightarrow> str_param C q \<longrightarrow> p \<noteq> q \<longrightarrow>
        place C p + 2 + str_max C p \<le> place C q \<or> place C q + 2 + str_max C q \<le> place C p)"

lemmas view_defs = ctl_def place_def int_param_def str_param_def int_val_def int_min_def int_max_def
  str_max_def str_len_def str_val_def

lemma Notify_simps [simp]:
  "gCfgEntry (Notify p m C) = gCfgEntry C" "gCfgIBuf (Notify p m C) = gCfgIBuf C"
  "gCfgIBufMin (Notify p m C) = gCfgIBufMin C" "gCfgIBufMax (Notify p m C) = gCfgIBufMax C"
  "gCfgSBuf (Notify p m C) = gCfgSBuf C" "gSBuffer (Notify p m C) = gSBuffer C"
  "cfg_attached (Notify p m C) = cfg_attached C" "gCfgStatus (Notify p m C) = gCfgStatus C"
  by (simp_all add: Notify_def)

lemma notified: "\<exists>ms. (if b then Notify p m D else D) = D\<lparr>cfg_msgs := cfg_msgs D @ ms\<rparr>"
proof (cases b)
  case True
  then show ?thesis unfolding Notify_def by (simp only: if_True) blast
next
  case False
  then show ?thesis by (intro exI [of _ "[]"]) simp
qed

text \<open>What the views say depends on the buffers alone.\<close>

lemma view_cong:
  assumes "gCfgEntry C' = gCfgEntry C"
  shows "ctl C' = ctl C" "place C' = place C" "int_param C' = int_param C" "str_param C' = str_param C"
    "gCfgIBuf C' = gCfgIBuf C \<Longrightarrow> int_val C' = int_val C" "gCfgIBufMin C' = gCfgIBufMin C \<Longrightarrow> int_min C' = int_min C"
    "gCfgIBufMax C' = gCfgIBufMax C \<Longrightarrow> int_max C' = int_max C"
    "gCfgSBuf C' = gCfgSBuf C \<Longrightarrow> str_max C' = str_max C" "gCfgSBuf C' = gCfgSBuf C \<Longrightarrow> str_len C' = str_len C"
    "gCfgSBuf C' = gCfgSBuf C \<Longrightarrow> str_val C' = str_val C"
  using assms by (auto simp: view_defs fun_eq_iff)

lemma ctl_rd: "sizes_ok C \<Longrightarrow> unat p < CFG_PARAM_MAX_NUM \<Longrightarrow> rd (gCfgEntry C) (unat p) = Some (ctl C p)"
  by (simp add: sizes_ok_def ctl_def)

lemma cfg_get_int: 
  assumes "cfg_inv C" and "int_param C p"
  shows "wlan_cfgGetInt p v C = Some (eSIR_SUCCESS, int_val C p)"
proof -
  have s: "sizes_ok C" and pl: "place C p < CFG_STA_IBUF_MAX_SIZE" using assms by (auto simp: cfg_inv_def)
  moreover have "unat p < CFG_PARAM_MAX_NUM" "ctl C p AND CFG_CTL_VALID \<noteq> 0" using assms(2) by (auto simp: int_param_def)
  ultimately show ?thesis
    by (simp add: wlan_cfgGetInt_def ctl_rd place_def [symmetric] int_val_def Let_def) (simp add: sizes_ok_def)
qed

lemma set_int_eq:
  assumes "cfg_inv C" and "int_param C p"
  shows "\<exists>ms. cfgSetInt p v C = Some (if int_min C p \<le> v \<and> v \<le> int_max C p
     then (eSIR_SUCCESS, C\<lparr>gCfgIBuf := (gCfgIBuf C)[place C p := v], cfg_msgs := cfg_msgs C @ ms\<rparr>)
     else (eSIR_CFG_INVALID_ID, C))"
proof -
  have s: "sizes_ok C" and pl: "place C p < CFG_STA_IBUF_MAX_SIZE" using assms by (auto simp: cfg_inv_def)
  obtain ms where ms: "(if (ctl C p AND CFG_CTL_NTF_MASK) AND CFG_CTL_NTF_MASK \<noteq> 0
        then Notify p (ctl C p AND CFG_CTL_NTF_MASK) (C\<lparr>gCfgIBuf := (gCfgIBuf C)[place C p := v]\<rparr>)
        else C\<lparr>gCfgIBuf := (gCfgIBuf C)[place C p := v]\<rparr>) = C\<lparr>gCfgIBuf := (gCfgIBuf C)[place C p := v], cfg_msgs := cfg_msgs C @ ms\<rparr>"
    using notified [of "(ctl C p AND CFG_CTL_NTF_MASK) AND CFG_CTL_NTF_MASK \<noteq> 0" p "ctl C p AND CFG_CTL_NTF_MASK" "C\<lparr>gCfgIBuf := (gCfgIBuf C)[place C p := v]\<rparr>"]
    by auto
  have "unat p < CFG_PARAM_MAX_NUM" "ctl C p AND CFG_CTL_VALID \<noteq> 0" using assms(2) by (auto simp: int_param_def)
  moreover have "cfg_attached C" "place C p < length (gCfgIBufMin C)" "place C p < length (gCfgIBufMax C)"
      "place C p < length (gCfgIBuf C)" using s pl by (auto simp: sizes_ok_def)
  ultimately have "cfgSetInt p v C = Some (if int_min C p \<le> v \<and> v \<le> int_max C p
     then (eSIR_SUCCESS, if (ctl C p AND CFG_CTL_NTF_MASK) AND CFG_CTL_NTF_MASK \<noteq> 0
        then Notify p (ctl C p AND CFG_CTL_NTF_MASK) (C\<lparr>gCfgIBuf := (gCfgIBuf C)[place C p := v]\<rparr>)
        else C\<lparr>gCfgIBuf := (gCfgIBuf C)[place C p := v]\<rparr>) else (eSIR_CFG_INVALID_ID, C))"
    using s pl by (auto simp: cfgSetInt_def ctl_rd place_def [symmetric] int_min_def int_max_def Let_def not_less)
  then show ?thesis unfolding ms by blast
qed


lemma get_str_eq:
  assumes "cfg_inv C" and "str_param C p"
  shows "length (str_val C p) = str_len C p" and "wlan_cfgGetStrLen p l C = Some (eSIR_SUCCESS, of_nat (str_len C p))"
    and "wlan_cfgGetStrMaxLen p l C = Some (eSIR_SUCCESS, of_nat (str_max C p))"
    and "unat l < str_len C p \<Longrightarrow> wlan_cfgGetStr p buf l C = Some (eSIR_CFG_INVALID_LEN, buf, l)"
    and "str_len C p \<le> unat l \<Longrightarrow> str_len C p \<le> length buf \<Longrightarrow>
      \<exists>b. wlan_cfgGetStr p buf l C = Some (eSIR_SUCCESS, b, of_nat (str_len C p)) \<and> take (str_len C p) b = str_val C p \<and>
        length b = length buf"
proof -
  have s: "sizes_ok C" and r: "place C p + 2 + str_max C p \<le> CFG_STA_SBUF_MAX_SIZE" "str_len C p \<le> str_max C p"
    using assms by (auto simp: cfg_inv_def)
  have v: "unat p < CFG_PARAM_MAX_NUM" "ctl C p AND CFG_CTL_VALID \<noteq> 0" using assms(2) by (auto simp: str_param_def)
  have ls: "length (gCfgSBuf C) = CFG_STA_SBUF_MAX_SIZE" and at: "cfg_attached C" using s by (auto simp: sizes_ok_def)
  have i: "place C p < CFG_STA_SBUF_MAX_SIZE - 1" using r by linarith
  have uc: "(ucast x :: u32) = of_nat (unat x)" for x :: u8 by simp
  show "length (str_val C p) = str_len C p" using r ls by (simp add: str_val_def)
  show "wlan_cfgGetStrLen p l C = Some (eSIR_SUCCESS, of_nat (str_len C p))"
    using s v i ls at by (simp add: wlan_cfgGetStrLen_def ctl_rd place_def [symmetric] str_len_def Let_def)
  show "wlan_cfgGetStrMaxLen p l C = Some (eSIR_SUCCESS, of_nat (str_max C p))"
    using s v i ls at by (simp add: wlan_cfgGetStrMaxLen_def ctl_rd place_def [symmetric] str_max_def Let_def)
  have lt: "l < (ucast (gCfgSBuf C ! (place C p + 1)) :: u32) \<longleftrightarrow> unat l < str_len C p"
    by (simp add: word_less_nat_alt unat_ucast_u8_u32 str_len_def)
  show "wlan_cfgGetStr p buf l C = Some (eSIR_CFG_INVALID_LEN, buf, l)" if "unat l < str_len C p"
    using s v i ls at that lt by (simp add: wlan_cfgGetStr_def ctl_rd place_def [symmetric] Let_def)
  show "\<exists>b. wlan_cfgGetStr p buf l C = Some (eSIR_SUCCESS, b, of_nat (str_len C p)) \<and> take (str_len C p) b = str_val C p \<and>
        length b = length buf" if h: "str_len C p \<le> unat l" "str_len C p \<le> length buf"
  proof -
    obtain b where b: "copy_bytes (str_len C p) (gCfgSBuf C) (place C p + 2) buf 0 = Some b" "length b = length buf"
        "\<And>j. j < length buf \<Longrightarrow> b ! j = (if j < str_len C p then gCfgSBuf C ! (place C p + 2 + j) else buf ! j)"
      using copy_bytes_Some [of "place C p + 2" "str_len C p" "gCfgSBuf C" 0 buf] r ls h by auto
    have "take (str_len C p) b = str_val C p"
      using b(2,3) h r ls by (intro nth_equalityI) (auto simp: str_val_def)
    then show ?thesis using s v i ls at h lt b(1,2)
      by (simp add: wlan_cfgGetStr_def ctl_rd place_def [symmetric] Let_def str_len_def)
  qed
qed


lemma set_str_long:
  assumes "cfg_inv C" and "str_param C p" and "str_max C p < unat l"
  shows "cfgSetStrNotify p xs l n C = Some (eSIR_CFG_INVALID_LEN, C)"
proof -
  have s: "sizes_ok C" and r: "place C p + 2 + str_max C p \<le> CFG_STA_SBUF_MAX_SIZE"
    using assms by (auto simp: cfg_inv_def)
  have "unat p < CFG_PARAM_MAX_NUM" "ctl C p AND CFG_CTL_VALID \<noteq> 0" using assms(2) by (auto simp: str_param_def)
  moreover have "length (gCfgSBuf C) = CFG_STA_SBUF_MAX_SIZE" "cfg_attached C" using s by (auto simp: sizes_ok_def)
  moreover have "(ucast (gCfgSBuf C ! place C p) :: u32) < l"
    using assms(3) by (simp add: word_less_nat_alt unat_ucast_u8_u32 str_max_def)
  ultimately show ?thesis using s r
    by (simp add: cfgSetStrNotify_def ctl_rd place_def [symmetric] Let_def)
qed

lemma set_str_eq:
  assumes "cfg_inv C" and "str_param C p" and "unat l \<le> str_max C p" and "unat l \<le> length xs"
  shows "\<exists>sb ms. cfgSetStrNotify p xs l n C = Some (eSIR_SUCCESS, C\<lparr>gCfgSBuf := sb, cfg_msgs := cfg_msgs C @ ms\<rparr>) \<and>
    length sb = length (gCfgSBuf C) \<and> (\<forall>j < length sb. sb ! j = (if j = place C p + 1 then ucast l
      else if place C p + 2 \<le> j \<and> j < place C p + 2 + unat l then xs ! (j - place C p - 2) else gCfgSBuf C ! j))"
proof -
  let ?i = "place C p"
  have s: "sizes_ok C" and r: "?i + 2 + str_max C p \<le> CFG_STA_SBUF_MAX_SIZE"
    using assms(1,2) by (auto simp: cfg_inv_def)
  have v: "unat p < CFG_PARAM_MAX_NUM" "ctl C p AND CFG_CTL_VALID \<noteq> 0" using assms(2) by (auto simp: str_param_def)
  have ls: "length (gCfgSBuf C) = CFG_STA_SBUF_MAX_SIZE" "cfg_attached C" using s by (auto simp: sizes_ok_def)
  have le: "\<not> (ucast (gCfgSBuf C ! ?i) :: u32) < l"
    using assms(3) by (simp add: word_less_nat_alt unat_ucast_u8_u32 str_max_def)
  let ?sb = "(gCfgSBuf C)[?i + 1 := ucast l]"
  obtain sb where sb: "copy_bytes (unat l) xs 0 ?sb (?i + 2) = Some sb" "length sb = length (gCfgSBuf C)"
      "\<forall>j < length (gCfgSBuf C). sb ! j = (if ?i + 2 \<le> j \<and> j < ?i + 2 + unat l then xs ! (0 + (j - (?i + 2))) else ?sb ! j)"
    using copy_bytes_Some [of 0 "unat l" xs "?i + 2" ?sb] r ls assms(3,4) by auto
  define D where "D = C\<lparr>gCfgSBuf := sb\<rparr>"
  obtain ms where ms: "(if n \<and> (ctl C p AND CFG_CTL_NTF_MASK) AND CFG_CTL_NTF_MASK \<noteq> 0
      then Notify p (ctl C p AND CFG_CTL_NTF_MASK) D else D) = D\<lparr>cfg_msgs := cfg_msgs D @ ms\<rparr>"
    using notified by blast
  have "cfgSetStrNotify p xs l n C = Some (eSIR_SUCCESS, if n \<and> (ctl C p AND CFG_CTL_NTF_MASK) AND CFG_CTL_NTF_MASK \<noteq> 0
      then Notify p (ctl C p AND CFG_CTL_NTF_MASK) D else D)"
    using s v ls le r sb(1) by (simp add: cfgSetStrNotify_def ctl_rd place_def [symmetric] Let_def D_def)
  then show ?thesis unfolding ms using sb ls r by (intro exI [of _ sb] exI [of _ ms]) (auto simp: D_def)
qed

text \<open>Writing a parameter keeps the layout.\<close>

lemma cfg_inv_set_int:
  assumes "cfg_inv C" shows "cfg_inv (C\<lparr>gCfgIBuf := (gCfgIBuf C)[i := v], cfg_msgs := ms\<rparr>)"
proof -
  let ?C = "C\<lparr>gCfgIBuf := (gCfgIBuf C)[i := v], cfg_msgs := ms\<rparr>"
  have "gCfgEntry ?C = gCfgEntry C" "gCfgSBuf ?C = gCfgSBuf C" by simp_all
  note view_cong(2-4) [OF this(1)] view_cong(8,9) [OF this]
  moreover have "sizes_ok ?C" using assms by (simp add: cfg_inv_def sizes_ok_def)
  ultimately show ?thesis using assms unfolding cfg_inv_def by simp
qed

lemma cfg_inv_set_str:
  fixes C :: tAniSirCfg and sb :: "u8 list" and ms :: "cfg_msg list"
  assumes "cfg_inv C" and "str_param C p" and "unat l \<le> str_max C p" and "length sb = length (gCfgSBuf C)"
    and "\<forall>j < length sb. sb ! j = (if j = place C p + 1 then ucast l
      else if place C p + 2 \<le> j \<and> j < place C p + 2 + unat l then xs ! (j - place C p - 2) else gCfgSBuf C ! j)"
    and "unat l \<le> length xs"
  defines "C' \<equiv> C\<lparr>gCfgSBuf := sb, cfg_msgs := ms\<rparr>"
  shows "cfg_inv C'" and "str_val C' p = take (unat l) xs" and "str_len C' p = unat l"
    and "str_param C q \<Longrightarrow> str_max C' q = str_max C q"
    and "str_param C q \<Longrightarrow> q \<noteq> p \<Longrightarrow> str_val C' q = str_val C q"
proof -
  have s: "sizes_ok C" using assms(1) by (simp add: cfg_inv_def)
  have e: "gCfgEntry C' = gCfgEntry C" by (simp add: C'_def)
  have sb': "gCfgSBuf C' = sb" by (simp add: C'_def)
  note v = view_cong(1-4) [OF e]
  have room: "place C q + 2 + str_max C q \<le> length sb" "str_len C q \<le> str_max C q" if "str_param C q" for q
    using assms(1,4) s that by (auto simp: cfg_inv_def sizes_ok_def)
  have apart: "place C p + 2 + str_max C p \<le> place C q \<or> place C q + 2 + str_max C q \<le> place C p"
    if "str_param C q" "q \<noteq> p" for q using assms(1,2) that unfolding cfg_inv_def by blast
  have keep: "sb ! j = gCfgSBuf C ! j" if "str_param C q" "q \<noteq> p" "place C q \<le> j" "j < place C q + 2 + str_max C q" for q j
  proof -
    have "j < length sb" using room [OF that(1)] that by linarith
    then show ?thesis using assms(3,5) apart [OF that(1,2)] that(3,4) by auto
  qed
  have pm: "sb ! place C p = gCfgSBuf C ! place C p" using assms(5) room [OF assms(2)] by simp
  have bl: "unat l < 256" using assms(3) unat_u8 [of "gCfgSBuf C ! place C p"] by (simp add: str_max_def)
  have "unat (ucast l :: u8) = unat l" using bl by (simp add: unsigned_ucast_eq take_bit_nat_eq_self)
  then show lp: "str_len C' p = unat l" using assms(5) room [OF assms(2)] by (simp add: str_len_def v sb')
  show mx: "str_max C' q = str_max C q" if "str_param C q" for q
    using keep [OF that] pm by (cases "q = p") (auto simp: str_max_def v sb')
  have lq: "str_len C' q = str_len C q" if "str_param C q" "q \<noteq> p" for q
    using keep [OF that, of "place C q + 1"] by (simp add: str_len_def v sb')
  show "str_val C' q = str_val C q" if "str_param C q" "q \<noteq> p"
  proof -
    have "take (str_len C q) (drop (place C q + 2) sb) = take (str_len C q) (drop (place C q + 2) (gCfgSBuf C))"
      using keep [OF that] room [OF that(1)] assms(4) by (intro nth_equalityI) auto
    then show ?thesis using lq [OF that] by (simp add: str_val_def v sb')
  qed
  have "take (unat l) (drop (place C p + 2) sb) = take (unat l) xs"
    using assms(3,5,6) room [OF assms(2)] by (intro nth_equalityI) auto
  then show "str_val C' p = take (unat l) xs" using lp by (simp add: str_val_def v sb')
  have "sizes_ok C'" using s assms(4) by (simp add: sizes_ok_def C'_def)
  moreover have "str_len C' q \<le> str_max C' q" if "str_param C q" for q
    using mx [OF that] lq [OF that] lp room(2) [OF that] assms(3) by (cases "q = p") auto
  ultimately show "cfg_inv C'" using assms(1) mx unfolding cfg_inv_def v by auto
qed

end
