(* ===== verification/Cfg_Download.thy ===== *)
theory Cfg_Download
  imports Cfg_Store
begin

text \<open>
  \<^verbatim>\<open>processCfgDownloadReq\<close> proved: its three loops, each with its invariant, and the store they leave.
\<close>

section \<open>The table of defaults\<close>

text \<open>Entries for integers and for strings, the room of a string, and where a parameter is placed.\<close>

definition vint :: "cgstatic \<Rightarrow> bool" where
  "vint e \<longleftrightarrow> control e AND CFG_CTL_VALID \<noteq> 0 \<and> control e AND CFG_CTL_INT \<noteq> 0"
definition vstr :: "cgstatic \<Rightarrow> bool" where
  "vstr e \<longleftrightarrow> control e AND CFG_CTL_VALID \<noteq> 0 \<and> control e AND CFG_CTL_INT = 0"
definition str_of :: "cfgstatic_string list \<Rightarrow> cgstatic \<Rightarrow> cfgstatic_string" where
  "str_of strs e = strs ! the (p_str_data e)"
definition ints_before :: "cgstatic list \<Rightarrow> nat \<Rightarrow> nat" where
  "ints_before cg i = length (filter vint (take i cg))"
definition strs_before :: "cfgstatic_string list \<Rightarrow> cgstatic list \<Rightarrow> nat \<Rightarrow> nat" where
  "strs_before strs cg i = sum_list (map (\<lambda>e. unat (max_len (str_of strs e)) + 2) (filter vstr (take i cg)))"
definition offset :: "cfgstatic_string list \<Rightarrow> cgstatic list \<Rightarrow> nat \<Rightarrow> nat" where
  "offset strs cg i = (if vint (cg ! i) then ints_before cg i else if vstr (cg ! i) then strs_before strs cg i else 0)"

text \<open>
  The room a string is found to have: up to the next string, or for the last one up to the end the store
  was told.
\<close>

definition later_str :: "cgstatic list \<Rightarrow> nat \<Rightarrow> bool" where
  "later_str cg i \<longleftrightarrow> (\<exists>j. i \<le> j \<and> j < CFG_PARAM_MAX_NUM \<and> vstr (cg ! j))"
definition str_end :: "cfgstatic_string list \<Rightarrow> cgstatic list \<Rightarrow> u32 \<Rightarrow> nat \<Rightarrow> u32" where
  "str_end strs cg be i = (if later_str cg i then of_nat (strs_before strs cg i) else be)"
definition room_found :: "cfgstatic_string list \<Rightarrow> cgstatic list \<Rightarrow> u32 \<Rightarrow> nat \<Rightarrow> u8" where
  "room_found strs cg be i = ucast (str_end strs cg be (Suc i) - of_nat (strs_before strs cg i) - 2)"

definition table_ok :: "cfgstatic_string list \<Rightarrow> cgstatic list \<Rightarrow> u32 \<Rightarrow> bool" where
  "table_ok strs cg be \<longleftrightarrow> length cg = CFG_PARAM_MAX_NUM \<and> (\<forall>e \<in> set cg. control e AND CFG_BUF_INDX_MASK = 0) \<and>
     ints_before cg CFG_PARAM_MAX_NUM \<le> CFG_STA_IBUF_MAX_SIZE \<and> strs_before strs cg CFG_PARAM_MAX_NUM \<le> CFG_STA_SBUF_MAX_SIZE \<and>
     (\<forall>e \<in> set cg. vstr e \<longrightarrow> (\<exists>k < length strs. p_str_data e = Some k) \<and> str_length (str_of strs e) \<le> max_len (str_of strs e) \<and>
        unat (str_length (str_of strs e)) \<le> length (str_data (str_of strs e))) \<and>
     (\<forall>i < CFG_PARAM_MAX_NUM. vstr (cg ! i) \<longrightarrow> str_length (str_of strs (cg ! i)) \<le> room_found strs cg be i)"

lemma counts_Suc:
  assumes "i < length cg"
  shows "ints_before cg (Suc i) = ints_before cg i + (if vint (cg ! i) then 1 else 0)"
    and "strs_before strs cg (Suc i) = strs_before strs cg i + (if vstr (cg ! i) then unat (max_len (str_of strs (cg ! i))) + 2 else 0)"
  using assms by (simp_all add: ints_before_def strs_before_def take_Suc_conv_app_nth)

lemma counts_mono:
  assumes "i \<le> j"
  shows "ints_before cg i \<le> ints_before cg j" and "strs_before strs cg i \<le> strs_before strs cg j"
proof -
  have "take j cg = take i cg @ take (j - i) (drop i cg)" using assms by (metis le_add_diff_inverse take_add)
  then show "ints_before cg i \<le> ints_before cg j" and "strs_before strs cg i \<le> strs_before strs cg j"
    by (simp_all add: ints_before_def strs_before_def)
qed

lemma counts_less:
  assumes "i < j" and "j \<le> length cg"
  shows "vint (cg ! i) \<Longrightarrow> ints_before cg i < ints_before cg j"
    and "vstr (cg ! i) \<Longrightarrow> strs_before strs cg i + 2 + unat (max_len (str_of strs (cg ! i))) \<le> strs_before strs cg j"
  using counts_Suc [where i = i and cg = cg] counts_mono [where i = "Suc i" and j = j and cg = cg] assms by fastforce+

lemma counts_bound:
  assumes "table_ok strs cg be" and "n \<le> CFG_PARAM_MAX_NUM"
  shows "ints_before cg n \<le> CFG_STA_IBUF_MAX_SIZE" and "strs_before strs cg n \<le> CFG_STA_SBUF_MAX_SIZE"
  using assms(1) counts_mono(1) [OF assms(2), of cg] counts_mono(2) [OF assms(2), of strs cg]
  unfolding table_ok_def by linarith+

text \<open>The place in the low bits of a control word does not disturb the flags above it.\<close>

lemma ctl_or:
  fixes c :: u32
  assumes "c AND CFG_BUF_INDX_MASK = 0" and "n < 4096"
  shows "unat ((c OR of_nat n) AND CFG_BUF_INDX_MASK) = n" and "(c OR of_nat n) AND CFG_CTL_VALID = c AND CFG_CTL_VALID"
    and "(c OR of_nat n) AND CFG_CTL_INT = c AND CFG_CTL_INT" and "of_nat n AND CFG_BUF_INDX_MASK = (of_nat n :: u32)"
proof -
  have u: "unat (of_nat n :: u32) = n" using assms(2) by (intro unat_word_of_nat) simp
  have "unat (of_nat n AND CFG_BUF_INDX_MASK :: u32) = unat (of_nat n :: u32) mod 2 ^ 12"
    unfolding CFG_BUF_INDX_MASK_def by (rule unat_and_window) simp
  then have "unat (of_nat n AND CFG_BUF_INDX_MASK :: u32) = unat (of_nat n :: u32)" using u assms(2) by simp
  then show m: "of_nat n AND CFG_BUF_INDX_MASK = (of_nat n :: u32)" by (simp only: unat_inject)
  have "of_nat n AND CFG_CTL_VALID = (of_nat n AND CFG_BUF_INDX_MASK) AND (CFG_CTL_VALID :: u32)" using m by simp
  also have "\<dots> = 0" by (simp only: and.assoc) (simp add: CFG_BUF_INDX_MASK_def CFG_CTL_VALID_def)
  finally have a: "of_nat n AND CFG_CTL_VALID = (0 :: u32)" .
  have "of_nat n AND CFG_CTL_INT = (of_nat n AND CFG_BUF_INDX_MASK) AND (CFG_CTL_INT :: u32)" using m by simp
  also have "\<dots> = 0" by (simp only: and.assoc) (simp add: CFG_BUF_INDX_MASK_def CFG_CTL_INT_def)
  finally have b: "of_nat n AND CFG_CTL_INT = (0 :: u32)" .
  show "(c OR of_nat n) AND CFG_CTL_VALID = c AND CFG_CTL_VALID" "(c OR of_nat n) AND CFG_CTL_INT = c AND CFG_CTL_INT"
    by (simp_all add: bit.conj_disj_distrib2 a b)
  show "unat ((c OR of_nat n) AND CFG_BUF_INDX_MASK) = n" by (simp add: bit.conj_disj_distrib2 assms(1) m u)
qed

section \<open>The first loop\<close>

definition entries_upto :: "cfgstatic_string list \<Rightarrow> cgstatic list \<Rightarrow> nat \<Rightarrow> u32 list \<Rightarrow> bool" where
  "entries_upto strs cg n es \<longleftrightarrow> length es = CFG_PARAM_MAX_NUM \<and>
     (\<forall>i < n. es ! i = control (cg ! i) OR of_nat (offset strs cg i))"

lemma place_loop:
  assumes "table_ok strs cg be" and "length es0 = CFG_PARAM_MAX_NUM"
  shows "n \<le> CFG_PARAM_MAX_NUM \<Longrightarrow> \<exists>es. for_each [0..<n] (dnld_place strs cg) (0, 0, es0) =
    Some (of_nat (ints_before cg n), of_nat (strs_before strs cg n), es) \<and> entries_upto strs cg n es"
proof (induction n)
  case 0
  then show ?case using assms(2) by (simp add: entries_upto_def ints_before_def strs_before_def)
next
  case (Suc n)
  then obtain es where es: "for_each [0..<n] (dnld_place strs cg) (0, 0, es0) =
      Some (of_nat (ints_before cg n), of_nat (strs_before strs cg n), es)" "entries_upto strs cg n es" by auto
  let ?e = "cg ! n"
  have l: "n < length cg" "n < length es" "length cg = CFG_PARAM_MAX_NUM" "?e \<in> set cg"
    using assms(1) Suc.prems es(2) by (auto simp: table_ok_def entries_upto_def)
  have c: "control ?e AND CFG_BUF_INDX_MASK = 0" using assms(1) l(4) by (simp add: table_ok_def)
  have b: "ints_before cg n < 4096" "strs_before strs cg n < 4096"
    using counts_bound [OF assms(1) Suc_leD [OF Suc.prems]] by (simp_all add: CFG_STA_IBUF_MAX_SIZE_def CFG_STA_SBUF_MAX_SIZE_def)
  have step: "dnld_place strs cg n (of_nat (ints_before cg n), of_nat (strs_before strs cg n), es) =
    Some (of_nat (ints_before cg (Suc n)), of_nat (strs_before strs cg (Suc n)), es[n := control ?e OR of_nat (offset strs cg n)])"
  proof (cases "vstr ?e")
    case True
    then obtain k where k: "k < length strs" "p_str_data ?e = Some k" using assms(1) l(4) by (auto simp: table_ok_def)
    have "(ucast (max_len (strs ! k)) :: u32) = of_nat (unat (max_len (strs ! k)))" by simp
    then show ?thesis using True l k ctl_or(4) [OF c b(2)]
      by (simp add: dnld_place_def counts_Suc vstr_def vint_def offset_def str_of_def add.assoc)
  next
    case False
    then show ?thesis using l ctl_or(4) [OF c b(1)]
      by (auto simp: dnld_place_def counts_Suc vstr_def vint_def offset_def)
  qed
  have "entries_upto strs cg (Suc n) (es[n := control ?e OR of_nat (offset strs cg n)])"
    using es(2) l(2) by (auto simp: entries_upto_def nth_list_update less_Suc_eq)
  then show ?case using es(1) step by (simp add: for_each_append)
qed

lemma entry_facts:
  assumes "table_ok strs cg be" and "entries_upto strs cg CFG_PARAM_MAX_NUM es" and "i < CFG_PARAM_MAX_NUM"
  shows "unat (es ! i AND CFG_BUF_INDX_MASK) = offset strs cg i" and "es ! i AND CFG_CTL_VALID = control (cg ! i) AND CFG_CTL_VALID"
    and "es ! i AND CFG_CTL_INT = control (cg ! i) AND CFG_CTL_INT" and "i < length es" and "i < length cg"
    and "es ! i AND CFG_BUF_INDX_MASK = of_nat (offset strs cg i)"
proof -
  have l: "i < length cg" "length es = CFG_PARAM_MAX_NUM" "es ! i = control (cg ! i) OR of_nat (offset strs cg i)"
    using assms by (auto simp: table_ok_def entries_upto_def)
  have c: "control (cg ! i) AND CFG_BUF_INDX_MASK = 0" using assms(1) l(1) by (simp add: table_ok_def)
  have "offset strs cg i < 4096"
    using counts_bound [OF assms(1) less_imp_le [OF assms(3)]]
    by (auto simp: offset_def CFG_STA_IBUF_MAX_SIZE_def CFG_STA_SBUF_MAX_SIZE_def)
  note o = ctl_or [OF c this]
  show u: "unat (es ! i AND CFG_BUF_INDX_MASK) = offset strs cg i" using o(1) l(3) by simp
  show "es ! i AND CFG_BUF_INDX_MASK = of_nat (offset strs cg i)" by (simp flip: u)
  show "es ! i AND CFG_CTL_VALID = control (cg ! i) AND CFG_CTL_VALID"
    "es ! i AND CFG_CTL_INT = control (cg ! i) AND CFG_CTL_INT" "i < length es" "i < length cg"
    using o(2,3) l assms(3) by simp_all
qed

lemma str_place:
  assumes "table_ok strs cg be" and "i < CFG_PARAM_MAX_NUM" and "vstr (cg ! i)"
  shows "strs_before strs cg i + 2 + unat (max_len (str_of strs (cg ! i))) \<le> CFG_STA_SBUF_MAX_SIZE"
  using counts_less(2) [of i CFG_PARAM_MAX_NUM cg strs] assms counts_bound(2) [OF assms(1) order_refl]
  by (auto simp: table_ok_def)

section \<open>The second loop\<close>

lemma room_loop:
  assumes "table_ok strs cg be" and "entries_upto strs cg CFG_PARAM_MAX_NUM es" and "length sb0 = CFG_STA_SBUF_MAX_SIZE"
    and "k \<le> CFG_PARAM_MAX_NUM"
  shows "\<exists>sb. for_each (rev [k..<CFG_PARAM_MAX_NUM]) (dnld_room es) (be, sb0) = Some (str_end strs cg be k, sb) \<and>
    length sb = CFG_STA_SBUF_MAX_SIZE \<and>
    (\<forall>i. k \<le> i \<longrightarrow> i < CFG_PARAM_MAX_NUM \<longrightarrow> vstr (cg ! i) \<longrightarrow> sb ! strs_before strs cg i = room_found strs cg be i)"
  using assms(4)
proof (induction rule: inc_induct)
  case base
  then show ?case using assms(3) by (auto simp: str_end_def later_str_def)
next
  case (step k)
  then obtain sb where sb: "for_each (rev [Suc k..<CFG_PARAM_MAX_NUM]) (dnld_room es) (be, sb0) = Some (str_end strs cg be (Suc k), sb)"
      "length sb = CFG_STA_SBUF_MAX_SIZE"
      "\<forall>i. Suc k \<le> i \<longrightarrow> i < CFG_PARAM_MAX_NUM \<longrightarrow> vstr (cg ! i) \<longrightarrow> sb ! strs_before strs cg i = room_found strs cg be i"
    by blast
  have kl: "k < CFG_PARAM_MAX_NUM" using step by simp
  note e = entry_facts [OF assms(1,2) kl]
  have r: "rev [k..<CFG_PARAM_MAX_NUM] = rev [Suc k..<CFG_PARAM_MAX_NUM] @ [k]" using kl by (simp add: upt_conv_Cons)
  show ?case
  proof (cases "vstr (cg ! k)")
    case True
    let ?p = "strs_before strs cg k"
    have o: "offset strs cg k = ?p" using True by (simp add: offset_def vint_def vstr_def)
    have "?p < length sb" using str_place [OF assms(1) kl True] sb(2) by simp
    then have "dnld_room es k (str_end strs cg be (Suc k), sb) = Some (of_nat ?p, sb[?p := room_found strs cg be k])"
      using True e o by (simp add: dnld_room_def vstr_def room_found_def Let_def)
    moreover have "str_end strs cg be k = of_nat ?p" using True kl by (auto simp: str_end_def later_str_def)
    moreover have "sb[?p := room_found strs cg be k] ! strs_before strs cg i = room_found strs cg be i"
      if "k \<le> i" "i < CFG_PARAM_MAX_NUM" "vstr (cg ! i)" for i
    proof (cases "i = k")
      case False
      then have "?p < strs_before strs cg i" using counts_less(2) [of k i cg strs] that True e(5) assms(1) by (auto simp: table_ok_def)
      then show ?thesis using sb(3) that False by simp
    qed (use \<open>?p < length sb\<close> in simp)
    ultimately show ?thesis using sb(1,2) by (simp add: r for_each_append)
  next
    case False
    then have "dnld_room es k (str_end strs cg be (Suc k), sb) = Some (str_end strs cg be (Suc k), sb)"
      using e by (auto simp: dnld_room_def vstr_def)
    moreover have "later_str cg k = later_str cg (Suc k)"
      using False unfolding later_str_def by (metis Suc_leD Suc_leI le_neq_implies_less)
    then have "str_end strs cg be k = str_end strs cg be (Suc k)"
      using False counts_Suc(2) [OF e(5), of strs] by (simp add: str_end_def)
    moreover have "\<forall>i. k \<le> i \<longrightarrow> i < CFG_PARAM_MAX_NUM \<longrightarrow> vstr (cg ! i) \<longrightarrow> sb ! strs_before strs cg i = room_found strs cg be i"
      using sb(3) False by (metis Suc_leI le_neq_implies_less)
    ultimately show ?thesis using sb(1,2) by (simp add: r for_each_append)
  qed
qed

section \<open>The third loop\<close>

text \<open>
  An entry that is marked as an integer but not valid is placed at 0: its limits and default go to the
  first integer parameter. \<open>ghosts_ok\<close>: they are the ones that belong there.
\<close>

definition limits :: "cgstatic \<Rightarrow> u32 \<times> u32 \<times> u32" where
  "limits e = (cfg_imin e, cfg_imax e, cfg_ival e)"

definition ghosts_ok :: "cgstatic list \<Rightarrow> bool" where
  "ghosts_ok cg \<longleftrightarrow> (\<forall>i < CFG_PARAM_MAX_NUM. \<forall>j < CFG_PARAM_MAX_NUM. control (cg ! i) AND CFG_CTL_INT \<noteq> 0 \<longrightarrow> \<not> vint (cg ! i) \<longrightarrow>
     vint (cg ! j) \<longrightarrow> ints_before cg j = 0 \<longrightarrow> limits (cg ! i) = limits (cg ! j))"

definition str_at :: "cfgstatic_string \<Rightarrow> nat \<Rightarrow> u8 list \<Rightarrow> bool" where
  "str_at s p sb \<longleftrightarrow> sb ! p = max_len s \<and> sb ! (p + 1) = str_length s \<and>
     (\<forall>j < unat (str_length s). sb ! (p + 2 + j) = str_data s ! j)"

definition dnld_inv :: "cfgstatic_string list \<Rightarrow> cgstatic list \<Rightarrow> u32 \<Rightarrow> nat \<Rightarrow> tAniSirCfg \<Rightarrow> bool" where
  "dnld_inv strs cg be n C \<longleftrightarrow> sizes_ok C \<and> entries_upto strs cg CFG_PARAM_MAX_NUM (gCfgEntry C) \<and>
     (\<forall>i < n. vint (cg ! i) \<longrightarrow> (gCfgIBufMin C ! ints_before cg i, gCfgIBufMax C ! ints_before cg i, gCfgIBuf C ! ints_before cg i) = limits (cg ! i)) \<and>
     (\<forall>i < n. vstr (cg ! i) \<longrightarrow> str_at (str_of strs (cg ! i)) (strs_before strs cg i) (gCfgSBuf C)) \<and>
     (\<forall>i. n \<le> i \<longrightarrow> i < CFG_PARAM_MAX_NUM \<longrightarrow> vstr (cg ! i) \<longrightarrow> gCfgSBuf C ! strs_before strs cg i = room_found strs cg be i)"

lemma dnld_int_step:
  assumes "table_ok strs cg be" and "ghosts_ok cg" and "dnld_inv strs cg be n C" and "n < CFG_PARAM_MAX_NUM"
    and "control (cg ! n) AND CFG_CTL_INT \<noteq> 0"
  shows "\<exists>C'. dnld_default strs cg n C = Some C' \<and> dnld_inv strs cg be (Suc n) C'"
proof -
  have s: "sizes_ok C" and es: "entries_upto strs cg CFG_PARAM_MAX_NUM (gCfgEntry C)" using assms(3) by (auto simp: dnld_inv_def)
  note e = entry_facts [OF assms(1) es assms(4)]
  let ?o = "offset strs cg n"
  have nv: "\<not> vstr (cg ! n)" using assms(5) by (simp add: vstr_def)
  have ol: "?o < CFG_STA_IBUF_MAX_SIZE"
  proof (cases "vint (cg ! n)")
    case True
    then show ?thesis using counts_less(1) [OF assms(4), of cg] e(5) counts_bound(1) [OF assms(1) order_refl] assms(1)
      by (simp add: offset_def table_ok_def)
  qed (simp add: offset_def nv CFG_STA_IBUF_MAX_SIZE_def)
  let ?C = "C\<lparr>gCfgIBufMin := (gCfgIBufMin C)[?o := cfg_imin (cg ! n)], gCfgIBufMax := (gCfgIBufMax C)[?o := cfg_imax (cg ! n)],
      gCfgIBuf := (gCfgIBuf C)[?o := cfg_ival (cg ! n)]\<rparr>"
  have ls: "?o < length (gCfgIBufMin C)" "?o < length (gCfgIBufMax C)" "?o < length (gCfgIBuf C)"
    using s ol by (auto simp: sizes_ok_def)
  have "dnld_default strs cg n C = Some ?C"
    using e assms(5) ls by (simp add: dnld_default_def Let_def)
  moreover have "(gCfgIBufMin ?C ! ints_before cg i, gCfgIBufMax ?C ! ints_before cg i, gCfgIBuf ?C ! ints_before cg i) = limits (cg ! i)"
    if "i < Suc n" "vint (cg ! i)" for i
  proof (cases "ints_before cg i = ?o")
    case True
    have "limits (cg ! n) = limits (cg ! i)"
    proof (cases "vint (cg ! n)")
      case True
      then have "i = n" using counts_less(1) [of i n cg] that \<open>ints_before cg i = ?o\<close> e(5) by (cases "i = n") (auto simp: offset_def)
      then show ?thesis by simp
    next
      case False
      then have "?o = 0" using nv by (simp add: offset_def)
      then show ?thesis using assms(2,4,5) False that \<open>ints_before cg i = ?o\<close> by (auto simp: ghosts_ok_def)
    qed
    then show ?thesis using True ls by (simp add: limits_def)
  next
    case False
    then have "i \<noteq> n" using that by (auto simp: offset_def)
    then show ?thesis using False that assms(3) by (simp add: dnld_inv_def less_Suc_eq)
  qed
  then have "dnld_inv strs cg be (Suc n) ?C"
    using assms(3) nv s unfolding dnld_inv_def by (auto simp: sizes_ok_def less_Suc_eq)
  ultimately show ?thesis by blast
qed

lemma dnld_str_step:
  assumes "table_ok strs cg be" and "dnld_inv strs cg be n C" and "n < CFG_PARAM_MAX_NUM" and "vstr (cg ! n)"
  shows "\<exists>C'. dnld_default strs cg n C = Some C' \<and> dnld_inv strs cg be (Suc n) C'"
proof -
  let ?s = "str_of strs (cg ! n)" and ?p = "strs_before strs cg n"
  have s: "sizes_ok C" and es: "entries_upto strs cg CFG_PARAM_MAX_NUM (gCfgEntry C)" using assms(2) by (auto simp: dnld_inv_def)
  note e = entry_facts [OF assms(1) es assms(3)]
  have o: "offset strs cg n = ?p" using assms(4) by (simp add: offset_def vint_def vstr_def)
  have pl: "?p + 2 + unat (max_len ?s) \<le> length (gCfgSBuf C)"
    using str_place [OF assms(1,3,4)] s by (simp add: sizes_ok_def)
  have t: "str_length ?s \<le> max_len ?s" "unat (str_length ?s) \<le> length (str_data ?s)" "str_length ?s \<le> room_found strs cg be n"
      "\<exists>k < length strs. p_str_data (cg ! n) = Some k"
    using assms(1,3,4) e(5) nth_mem [OF e(5)] by (auto simp: table_ok_def)
  then obtain k where k: "k < length strs" "p_str_data (cg ! n) = Some k" "?s = strs ! k" by (auto simp: str_of_def)
  have lm: "unat (str_length ?s) \<le> unat (max_len ?s)" using t(1) by (simp add: word_le_nat_alt)
  have room: "gCfgSBuf C ! ?p = room_found strs cg be n" using assms(2-4) by (simp add: dnld_inv_def)
  let ?sb0 = "(gCfgSBuf C)[?p := max_len ?s, ?p + 1 := str_length ?s]"
  obtain sb where sb: "copy_bytes (unat (str_length ?s)) (str_data ?s) 0 ?sb0 (?p + 2) = Some sb" "length sb = length (gCfgSBuf C)"
      "\<And>j. j < length (gCfgSBuf C) \<Longrightarrow> sb ! j = (if ?p + 2 \<le> j \<and> j < ?p + 2 + unat (str_length ?s) then str_data ?s ! (j - (?p + 2)) else ?sb0 ! j)"
    using copy_bytes_Some [of 0 "unat (str_length ?s)" "str_data ?s" "?p + 2" ?sb0] t(2) lm pl by auto
  have st: "dnld_default strs cg n C = Some (C\<lparr>gCfgSBuf := sb\<rparr>)"
    using e assms(4) o pl k room t(3) sb(1) s
    by (simp add: dnld_default_def Let_def vstr_def sizes_ok_def not_less [symmetric])
  have keep: "sb ! j = gCfgSBuf C ! j" if "j < length (gCfgSBuf C)" "j < ?p \<or> ?p + 2 + unat (str_length ?s) \<le> j" for j
    using sb(3) [OF that(1)] that(2) by auto
  have own: "str_at ?s ?p sb" using sb(3) pl lm by (auto simp: str_at_def)
  have others: "str_at (str_of strs (cg ! i)) (strs_before strs cg i) sb" if "i < n" "vstr (cg ! i)" for i
  proof -
    let ?t = "str_of strs (cg ! i)"
    have "strs_before strs cg i + 2 + unat (max_len ?t) \<le> ?p" using counts_less(2) [of i n cg strs] that e(5) by simp
    moreover have "cg ! i \<in> set cg" using that e(5) by simp
    then have "unat (str_length ?t) \<le> unat (max_len ?t)" using assms(1) that by (auto simp: table_ok_def word_le_nat_alt)
    moreover have "str_at ?t (strs_before strs cg i) (gCfgSBuf C)" using assms(2) that by (simp add: dnld_inv_def)
    ultimately show ?thesis using keep pl by (auto simp: str_at_def)
  qed
  have rest: "sb ! strs_before strs cg i = room_found strs cg be i" if "Suc n \<le> i" "i < CFG_PARAM_MAX_NUM" "vstr (cg ! i)" for i
  proof -
    have "?p + 2 + unat (max_len ?s) \<le> strs_before strs cg i"
      using counts_less(2) [of n i cg strs] that assms(1,4) by (auto simp: table_ok_def)
    moreover have "strs_before strs cg i < length (gCfgSBuf C)" using str_place [OF assms(1) that(2,3)] s by (simp add: sizes_ok_def)
    ultimately show ?thesis using keep lm assms(2) that by (simp add: dnld_inv_def)
  qed
  have "\<not> vint (cg ! n)" using assms(4) by (simp add: vint_def vstr_def)
  then have "dnld_inv strs cg be (Suc n) (C\<lparr>gCfgSBuf := sb\<rparr>)"
    using assms(2) s sb(2) own others rest unfolding dnld_inv_def by (auto simp: sizes_ok_def less_Suc_eq)
  then show ?thesis using st by blast
qed

lemma default_loop:
  assumes "table_ok strs cg be" and "ghosts_ok cg" and "dnld_inv strs cg be 0 C"
  shows "n \<le> CFG_PARAM_MAX_NUM \<Longrightarrow> \<exists>C'. for_each [0..<n] (dnld_default strs cg) C = Some C' \<and> dnld_inv strs cg be n C'"
proof (induction n)
  case (Suc n)
  then obtain C1 where C1: "for_each [0..<n] (dnld_default strs cg) C = Some C1" "dnld_inv strs cg be n C1" by auto
  have n: "n < CFG_PARAM_MAX_NUM" using Suc.prems by simp
  have "\<exists>C'. dnld_default strs cg n C1 = Some C' \<and> dnld_inv strs cg be (Suc n) C'"
  proof (cases "control (cg ! n) AND CFG_CTL_INT \<noteq> 0 \<or> vstr (cg ! n)")
    case True
    then show ?thesis using dnld_int_step [OF assms(1,2) C1(2) n] dnld_str_step [OF assms(1) C1(2) n] by blast
  next
    case False
    have es: "entries_upto strs cg CFG_PARAM_MAX_NUM (gCfgEntry C1)" using C1(2) by (simp add: dnld_inv_def)
    note e = entry_facts [OF assms(1) es n]
    have "dnld_default strs cg n C1 = Some C1" using e False by (auto simp: dnld_default_def Let_def vstr_def)
    moreover have "dnld_inv strs cg be (Suc n) C1" using C1(2) False by (auto simp: dnld_inv_def less_Suc_eq vint_def vstr_def)
    ultimately show ?thesis by blast
  qed
  then show ?case using C1(1) by (auto simp: for_each_append)
qed (use assms(3) in simp)

section \<open>The store after the download\<close>

lemma dnld_views:
  assumes "table_ok strs cg be" and "dnld_inv strs cg be CFG_PARAM_MAX_NUM C"
  shows "int_param C p \<longleftrightarrow> unat p < CFG_PARAM_MAX_NUM \<and> vint (cg ! unat p)"
    and "str_param C p \<longleftrightarrow> unat p < CFG_PARAM_MAX_NUM \<and> vstr (cg ! unat p)"
    and "int_param C p \<Longrightarrow> place C p = ints_before cg (unat p)"
    and "str_param C p \<Longrightarrow> place C p = strs_before strs cg (unat p)"
    and "str_param C p \<Longrightarrow> str_max C p = unat (max_len (str_of strs (cg ! unat p)))"
    and "str_param C p \<Longrightarrow> str_len C p = unat (str_length (str_of strs (cg ! unat p)))"
proof -
  have es: "entries_upto strs cg CFG_PARAM_MAX_NUM (gCfgEntry C)" using assms(2) by (simp add: dnld_inv_def)
  show i: "int_param C p \<longleftrightarrow> unat p < CFG_PARAM_MAX_NUM \<and> vint (cg ! unat p)"
    and t: "str_param C p \<longleftrightarrow> unat p < CFG_PARAM_MAX_NUM \<and> vstr (cg ! unat p)"
    using entry_facts(2,3) [OF assms(1) es] by (auto simp: int_param_def str_param_def ctl_def vint_def vstr_def)
  show pi: "place C p = ints_before cg (unat p)" if "int_param C p"
    using that [unfolded i] entry_facts(1) [OF assms(1) es, of "unat p"] by (simp add: place_def ctl_def offset_def)
  have n: "vstr e \<Longrightarrow> \<not> vint e" for e by (simp add: vint_def vstr_def)
  show ps: "place C p = strs_before strs cg (unat p)" if "str_param C p"
    using that [unfolded t] entry_facts(1) [OF assms(1) es, of "unat p"] n by (simp add: place_def ctl_def offset_def)
  show "str_max C p = unat (max_len (str_of strs (cg ! unat p)))" "str_len C p = unat (str_length (str_of strs (cg ! unat p)))"
    if "str_param C p" for p
  proof -
    have "unat p < CFG_PARAM_MAX_NUM" "vstr (cg ! unat p)" using that entry_facts(2,3) [OF assms(1) es]
      by (auto simp: str_param_def ctl_def vstr_def)
    then have "str_at (str_of strs (cg ! unat p)) (strs_before strs cg (unat p)) (gCfgSBuf C)"
        "place C p = strs_before strs cg (unat p)"
      using assms(2) entry_facts(1) [OF assms(1) es, of "unat p"] n by (auto simp: dnld_inv_def place_def ctl_def offset_def)
    then show "str_max C p = unat (max_len (str_of strs (cg ! unat p)))" "str_len C p = unat (str_length (str_of strs (cg ! unat p)))"
      by (simp_all add: str_at_def str_max_def str_len_def)
  qed
qed

lemma dnld_cfg_inv:
  assumes "table_ok strs cg be" and "dnld_inv strs cg be CFG_PARAM_MAX_NUM C"
  shows "cfg_inv C"
proof -
  note v = dnld_views [OF assms]
  have lc: "length cg = CFG_PARAM_MAX_NUM" using assms(1) by (simp add: table_ok_def)
  have il: "place C p < CFG_STA_IBUF_MAX_SIZE" if "int_param C p" for p
    using counts_less(1) [of "unat p" CFG_PARAM_MAX_NUM cg] that v(1,3) lc counts_bound(1) [OF assms(1) order_refl] by auto
  have id: "place C p \<noteq> place C q" if "int_param C p" "int_param C q" "p \<noteq> q" for p q
  proof -
    have "unat p < unat q \<or> unat q < unat p" using that(3) by (metis unat_inject nat_neq_iff)
    then show ?thesis using counts_less(1) [of "unat p" "unat q" cg] counts_less(1) [of "unat q" "unat p" cg] that v(1,3) lc
      by auto
  qed
  have sl: "place C p + 2 + str_max C p \<le> CFG_STA_SBUF_MAX_SIZE" "str_len C p \<le> str_max C p" if "str_param C p" for p
  proof -
    have p: "unat p < CFG_PARAM_MAX_NUM" "vstr (cg ! unat p)" using that v(2) by auto
    show "place C p + 2 + str_max C p \<le> CFG_STA_SBUF_MAX_SIZE" using str_place [OF assms(1) p] v(4,5) [OF that] by simp
    have "cg ! unat p \<in> set cg" using p lc by simp
    then show "str_len C p \<le> str_max C p" using assms(1) p(2) v(5,6) [OF that] by (auto simp: table_ok_def word_le_nat_alt)
  qed
  have sd: "place C p + 2 + str_max C p \<le> place C q \<or> place C q + 2 + str_max C q \<le> place C p"
    if "str_param C p" "str_param C q" "p \<noteq> q" for p q
  proof -
    have "unat p < unat q \<or> unat q < unat p" using that(3) by (metis unat_inject nat_neq_iff)
    then show ?thesis using counts_less(2) [of "unat p" "unat q" cg strs] counts_less(2) [of "unat q" "unat p" cg strs]
        v(4,5) [OF that(1)] v(4,5) [OF that(2)] that v(2) lc
      by auto
  qed
  show ?thesis using assms(2) il id sl sd unfolding cfg_inv_def dnld_inv_def by blast
qed

lemma get_int_total: "sizes_ok C \<Longrightarrow> \<exists>r. wlan_cfgGetInt p v C = Some r"
  by (cases "unat p < CFG_PARAM_MAX_NUM") (auto simp: wlan_cfgGetInt_def Let_def ctl_rd sizes_ok_def)

lemma download_eq:
  assumes "sizes_ok C" and "table_ok strs cg (ucast (gCfgMaxSBufSize C))" and "ghosts_ok cg"
  shows "\<exists>C'. processCfgDownloadReq strs cg junk C = Some C' \<and> dnld_inv strs cg (ucast (gCfgMaxSBufSize C)) CFG_PARAM_MAX_NUM C' \<and>
    gCfgStatus C' = CFG_SUCCESS"
proof -
  let ?be = "ucast (gCfgMaxSBufSize C) :: u32" and ?N = CFG_PARAM_MAX_NUM
  have l: "length (gCfgEntry C) = ?N" "length (gCfgSBuf C) = CFG_STA_SBUF_MAX_SIZE" using assms(1) by (auto simp: sizes_ok_def)
  obtain es where es: "for_each [0..<?N] (dnld_place strs cg) (0, 0, gCfgEntry C) =
      Some (of_nat (ints_before cg ?N), of_nat (strs_before strs cg ?N), es)" "entries_upto strs cg ?N es"
    using place_loop [OF assms(2) l(1) order_refl] by blast
  obtain sb where sb: "for_each (rev [0..<?N]) (dnld_room es) (?be, gCfgSBuf C) = Some (str_end strs cg ?be 0, sb)"
      "length sb = CFG_STA_SBUF_MAX_SIZE"
      "\<forall>i. 0 \<le> i \<longrightarrow> i < ?N \<longrightarrow> vstr (cg ! i) \<longrightarrow> sb ! strs_before strs cg i = room_found strs cg ?be i"
    using room_loop [OF assms(2) es(2) l(2) zero_le] by blast
  let ?C = "C\<lparr>gCfgEntry := es, gCfgSBuf := sb\<rparr>"
  have "dnld_inv strs cg ?be 0 ?C"
    using assms(1) es(2) sb(2,3) by (simp add: dnld_inv_def sizes_ok_def entries_upto_def)
  then obtain C1 where C1: "for_each [0..<?N] (dnld_default strs cg) ?C = Some C1" "dnld_inv strs cg ?be ?N C1"
    using default_loop [OF assms(2,3) _ order_refl] by blast
  obtain st lv where lv: "wlan_cfgGetInt WNI_CFG_LOG_LEVEL junk C1 = Some (st, lv)"
    using get_int_total [of C1 WNI_CFG_LOG_LEVEL junk] C1(2) by (auto simp: dnld_inv_def)
  let ?D = "C1\<lparr>gLogLevel := lv, gCfgStatus := CFG_SUCCESS\<rparr>"
  have "processCfgDownloadReq strs cg junk C = Some ?D"
    using es(1) sb(1) C1(1) lv by (simp add: processCfgDownloadReq_def)
  moreover have "dnld_inv strs cg ?be ?N ?D" using C1(2) by (simp add: dnld_inv_def sizes_ok_def)
  ultimately show ?thesis by (intro exI [of _ ?D]) simp
qed

section \<open>Properties\<close>

text \<open>
  C19: the download fills the store. For a table of defaults whose integers and strings fit the buffers
  (and whose invalid integer entries repeat the limits of the first integer, where they end up),
  \<^verbatim>\<open>processCfgDownloadReq\<close> stays inside all buffers, marks the store ready and leaves it well formed: no two
  parameters overlap, every integer has its default and limits, and every string its default and its
  maximal length.
\<close>

theorem cfg_download_fills_store:
  assumes "sizes_ok C" and "table_ok strs cg (ucast (gCfgMaxSBufSize C))" and "ghosts_ok cg"
  shows "\<exists>C'. processCfgDownloadReq strs cg junk C = Some C' \<and> gCfgStatus C' = CFG_SUCCESS \<and> cfg_inv C' \<and>
    (\<forall>p. unat p < CFG_PARAM_MAX_NUM \<longrightarrow> vint (cg ! unat p) \<longrightarrow> int_param C' p \<and>
       (int_min C' p, int_max C' p, int_val C' p) = limits (cg ! unat p)) \<and>
    (\<forall>p. unat p < CFG_PARAM_MAX_NUM \<longrightarrow> vstr (cg ! unat p) \<longrightarrow> str_param C' p \<and>
       str_max C' p = unat (max_len (str_of strs (cg ! unat p))) \<and>
       str_val C' p = take (unat (str_length (str_of strs (cg ! unat p)))) (str_data (str_of strs (cg ! unat p))))"
proof -
  let ?be = "ucast (gCfgMaxSBufSize C) :: u32"
  obtain C' where C': "processCfgDownloadReq strs cg junk C = Some C'" "dnld_inv strs cg ?be CFG_PARAM_MAX_NUM C'"
      "gCfgStatus C' = CFG_SUCCESS"
    using download_eq [OF assms, of junk] by blast
  note v = dnld_views [OF assms(2) C'(2)] and inv = dnld_cfg_inv [OF assms(2) C'(2)]
  have ints: "int_param C' p \<and> (int_min C' p, int_max C' p, int_val C' p) = limits (cg ! unat p)"
    if "unat p < CFG_PARAM_MAX_NUM" "vint (cg ! unat p)" for p
    using that v(1,3) C'(2) by (simp add: int_min_def int_max_def int_val_def dnld_inv_def)
  have strs: "str_param C' p \<and> str_max C' p = unat (max_len (str_of strs (cg ! unat p))) \<and>
       str_val C' p = take (unat (str_length (str_of strs (cg ! unat p)))) (str_data (str_of strs (cg ! unat p)))"
    if "unat p < CFG_PARAM_MAX_NUM" "vstr (cg ! unat p)" for p
  proof -
    let ?s = "str_of strs (cg ! unat p)"
    have sp: "str_param C' p" using that v(2) by simp
    have at: "str_at ?s (place C' p) (gCfgSBuf C')" using C'(2) that v(4) [OF sp] by (simp add: dnld_inv_def)
    have "cg ! unat p \<in> set cg" using that assms(2) by (simp add: table_ok_def)
    then have ld: "unat (str_length ?s) \<le> length (str_data ?s)" using assms(2) that by (auto simp: table_ok_def)
    have "length (str_val C' p) = str_len C' p" by (rule get_str_eq(1) [OF inv sp])
    then have "str_val C' p = take (unat (str_length ?s)) (str_data ?s)"
      using at ld v(6) [OF sp] by (intro nth_equalityI) (auto simp: str_at_def str_val_def)
    then show ?thesis using sp v(5) by simp
  qed
  show ?thesis using C'(1,3) inv ints strs by (intro exI [of _ C']) blast
qed

definition sample_cg :: "cgstatic list" where
  "sample_cg = [\<lparr>st_cfg_id = 0, control = 0x000F0000, cfg_imin = 0, cfg_imax = 255, cfg_ival = 1, p_str_data = None\<rparr>,
      \<lparr>st_cfg_id = 1, control = 0x00070000, cfg_imin = 0, cfg_imax = 255, cfg_ival = 1, p_str_data = Some 0\<rparr>] @
     replicate 296 \<lparr>st_cfg_id = 2, control = 0, cfg_imin = 0, cfg_imax = 0, cfg_ival = 0, p_str_data = None\<rparr>"

definition sample_strs :: "cfgstatic_string list" where
  "sample_strs = [\<lparr>str_cfg_id = 1, max_len = 6, str_length = 2, str_data = 34 # 68 # replicate 253 0\<rparr>]"

definition sample_cfg :: tAniSirCfg where
  "sample_cfg = \<lparr>gCfgStatus = CFG_INCOMPLETE, cfg_attached = True, gCfgEntry = replicate 298 0, gCfgIBufMin = replicate 241 0,
     gCfgIBufMax = replicate 241 0, gCfgIBuf = replicate 241 0, gCfgSBuf = replicate 3199 0, gCfgMaxSBufSize = 3199,
     gSBuffer = replicate 256 0, gLogLevel = 0, cfg_msgs = []\<rparr>"

lemma sample_sizes: "sizes_ok sample_cfg"
  by (simp add: sizes_ok_def sample_cfg_def CFG_PARAM_MAX_NUM_def CFG_STA_IBUF_MAX_SIZE_def CFG_STA_SBUF_MAX_SIZE_def CFG_MAX_STR_LEN_def)

lemma sample_entry: "sample_cg ! i = (if i = 0 then sample_cg ! 0 else if i = 1 then sample_cg ! 1 else sample_cg ! 2)" if "i < 298"
  using that by (cases i; cases "i - 1") (auto simp: sample_cg_def)

lemma sample_kinds:
  "i < 298 \<Longrightarrow> vint (sample_cg ! i) \<longleftrightarrow> i = 0" "i < 298 \<Longrightarrow> vstr (sample_cg ! i) \<longleftrightarrow> i = 1"
  "i < 298 \<Longrightarrow> control (sample_cg ! i) AND CFG_CTL_INT \<noteq> 0 \<longleftrightarrow> i = 0"
  using sample_entry [of i]
  by (simp_all add: vint_def vstr_def CFG_CTL_VALID_def CFG_CTL_INT_def) (simp_all add: sample_cg_def)

lemma sample_table: "table_ok sample_strs sample_cg 3199"
proof -
  have l: "length sample_cg = 298" by (simp add: sample_cg_def)
  have e: "e \<in> set sample_cg \<Longrightarrow> \<exists>i < 298. e = sample_cg ! i" for e using l by (metis in_set_conv_nth)
  have v: "\<not> vstr (sample_cg ! j)" if "2 \<le> j" "j < 298" for j using sample_kinds(2) that by simp
  have c: "control e AND CFG_BUF_INDX_MASK = 0" if "e \<in> set sample_cg" for e
    using that by (auto simp: sample_cg_def CFG_BUF_INDX_MASK_def)
  have s: "str_of sample_strs (sample_cg ! 1) = sample_strs ! 0" "p_str_data (sample_cg ! 1) = Some 0"
    by (simp_all add: str_of_def sample_cg_def)
  have "\<not> later_str sample_cg (Suc (Suc 0))" using v by (auto simp: later_str_def CFG_PARAM_MAX_NUM_def)
  moreover have "strs_before sample_strs sample_cg 1 = 0"
    by (simp add: strs_before_def sample_cg_def vstr_def CFG_CTL_INT_def)
  ultimately have r: "room_found sample_strs sample_cg 3199 1 = 125"
    by (simp add: room_found_def str_end_def)
  have t: "take 298 sample_cg = sample_cg" using l by simp
  have "ints_before sample_cg 298 = 1" "strs_before sample_strs sample_cg 298 = 8"
    unfolding ints_before_def strs_before_def t
    by (simp_all add: sample_cg_def vint_def vstr_def CFG_CTL_VALID_def CFG_CTL_INT_def str_of_def sample_strs_def)
  moreover have "vstr e \<Longrightarrow> e \<in> set sample_cg \<Longrightarrow> e = sample_cg ! 1" for e using e [of e] sample_kinds(2) by auto
  ultimately show ?thesis using l c s r sample_kinds(2)
    by (auto simp: table_ok_def CFG_PARAM_MAX_NUM_def CFG_STA_IBUF_MAX_SIZE_def CFG_STA_SBUF_MAX_SIZE_def sample_strs_def)
qed

lemma sample_ghosts: "ghosts_ok sample_cg"
  using sample_kinds by (simp add: ghosts_ok_def CFG_PARAM_MAX_NUM_def)

theorem cfg_download_fills_store_witness:
  "\<exists>C'. processCfgDownloadReq sample_strs sample_cg 0 sample_cfg = Some C' \<and> gCfgStatus C' = CFG_SUCCESS \<and> cfg_inv C' \<and>
     int_val C' 0 = 1 \<and> str_val C' 1 = [34, 68] \<and> str_max C' 1 = 6"
proof -
  have b: "ucast (gCfgMaxSBufSize sample_cfg) = (3199 :: u32)" by (simp add: sample_cfg_def)
  obtain C' where C': "processCfgDownloadReq sample_strs sample_cg 0 sample_cfg = Some C'" "gCfgStatus C' = CFG_SUCCESS" "cfg_inv C'"
    and i: "unat (0 :: u16) < CFG_PARAM_MAX_NUM \<Longrightarrow> vint (sample_cg ! unat (0 :: u16)) \<Longrightarrow>
       (int_min C' 0, int_max C' 0, int_val C' 0) = limits (sample_cg ! unat (0 :: u16))"
    and t: "unat (1 :: u16) < CFG_PARAM_MAX_NUM \<Longrightarrow> vstr (sample_cg ! unat (1 :: u16)) \<Longrightarrow>
       str_max C' 1 = unat (max_len (str_of sample_strs (sample_cg ! unat (1 :: u16)))) \<and>
       str_val C' 1 = take (unat (str_length (str_of sample_strs (sample_cg ! unat (1 :: u16))))) (str_data (str_of sample_strs (sample_cg ! unat (1 :: u16))))"
    using cfg_download_fills_store [OF sample_sizes _ sample_ghosts, of sample_strs 0, unfolded b, OF sample_table] by blast
  have "int_val C' 0 = 1" using i sample_kinds(1) [of 0] by (simp add: CFG_PARAM_MAX_NUM_def limits_def sample_cg_def)
  moreover have "str_val C' 1 = [34, 68] \<and> str_max C' 1 = 6"
    using t sample_kinds(2) [of 1] by (simp add: CFG_PARAM_MAX_NUM_def str_of_def sample_strs_def) (simp add: sample_cg_def)
  ultimately show ?thesis using C' by blast
qed

end
