(* ===== verification/Cfg_Request.thy ===== *)
theory Cfg_Request
  imports Cfg_Download
begin

text \<open>
  The configuration store in use: the round trips of its accessors, the decoding of the host's read and
  write requests (cfgProcMsg.c), and the transmit power read from the country strings.
\<close>

section \<open>Values after a write\<close>

lemma set_int_view:
  assumes "cfg_inv C" and "int_param C p" and "C' = C\<lparr>gCfgIBuf := (gCfgIBuf C)[place C p := v], cfg_msgs := ms\<rparr>"
  shows "cfg_inv C'" and "int_param C q \<Longrightarrow> int_val C' q = (if q = p then v else int_val C q)"
    and "str_val C' = str_val C" and "str_max C' = str_max C" and "int_min C' = int_min C" and "int_max C' = int_max C"
    and "int_param C' = int_param C" and "str_param C' = str_param C"
proof -
  show "cfg_inv C'" using cfg_inv_set_int [OF assms(1)] assms(3) by simp
  have e: "gCfgEntry C' = gCfgEntry C" "gCfgSBuf C' = gCfgSBuf C" "gCfgIBufMin C' = gCfgIBufMin C" "gCfgIBufMax C' = gCfgIBufMax C"
    using assms(3) by simp_all
  show "str_val C' = str_val C" "str_max C' = str_max C" "int_min C' = int_min C" "int_max C' = int_max C"
    "int_param C' = int_param C" "str_param C' = str_param C" using view_cong [OF e(1)] e by simp_all
  have l: "length (gCfgIBuf C) = CFG_STA_IBUF_MAX_SIZE" using assms(1) by (simp add: cfg_inv_def sizes_ok_def)
  show "int_val C' q = (if q = p then v else int_val C q)" if "int_param C q"
  proof -
    have "place C p < CFG_STA_IBUF_MAX_SIZE" "q \<noteq> p \<Longrightarrow> place C q \<noteq> place C p"
      using assms(1,2) that by (auto simp: cfg_inv_def)
    then show ?thesis using l assms(3) view_cong(2) [OF e(1)] by (auto simp: int_val_def)
  qed
qed

lemma set_str_view:
  assumes "cfg_inv C" and "str_param C p" and "unat l \<le> str_max C p" and "unat l \<le> length xs"
  shows "\<exists>C'. cfgSetStrNotify p xs l n C = Some (eSIR_SUCCESS, C') \<and> cfg_inv C' \<and> str_val C' p = take (unat l) xs \<and>
    str_len C' p = unat l \<and> (\<forall>q. str_param C q \<longrightarrow> str_max C' q = str_max C q) \<and>
    (\<forall>q. str_param C q \<longrightarrow> q \<noteq> p \<longrightarrow> str_val C' q = str_val C q) \<and>
    int_val C' = int_val C \<and> int_min C' = int_min C \<and> int_max C' = int_max C \<and> int_param C' = int_param C \<and>
    str_param C' = str_param C \<and> ctl C' = ctl C \<and> gCfgStatus C' = gCfgStatus C"
proof -
  obtain sb ms where sb: "cfgSetStrNotify p xs l n C = Some (eSIR_SUCCESS, C\<lparr>gCfgSBuf := sb, cfg_msgs := cfg_msgs C @ ms\<rparr>)"
      "length sb = length (gCfgSBuf C)"
      "\<forall>j < length sb. sb ! j = (if j = place C p + 1 then ucast l
        else if place C p + 2 \<le> j \<and> j < place C p + 2 + unat l then xs ! (j - place C p - 2) else gCfgSBuf C ! j)"
    using set_str_eq [OF assms, of n] by blast
  note k = cfg_inv_set_str [OF assms(1-3) sb(2,3) assms(4), where ms = "cfg_msgs C @ ms"]
  let ?C = "C\<lparr>gCfgSBuf := sb, cfg_msgs := cfg_msgs C @ ms\<rparr>"
  have e: "gCfgEntry ?C = gCfgEntry C" "gCfgIBuf ?C = gCfgIBuf C" "gCfgIBufMin ?C = gCfgIBufMin C"
    "gCfgIBufMax ?C = gCfgIBufMax C" "gCfgStatus ?C = gCfgStatus C" by simp_all
  note v = view_cong(1,3,4) [OF e(1)] view_cong(5) [OF e(1,2)] view_cong(6) [OF e(1,3)] view_cong(7) [OF e(1,4)]
  show ?thesis using sb(1) k v e(5) by (intro exI [of _ ?C]) blast
qed

section \<open>Requests of the host\<close>

text \<open>A request sets an integer or a string; its record is the identifier, the length in bytes and the value in whole words.\<close>

datatype cfg_req = Set_int u16 u32 | Set_str u16 "u8 list"

definition bytes_word :: "u8 list \<Rightarrow> u32" where
  "bytes_word bs = ucast (bs ! 0) OR push_bit 8 (ucast (bs ! 1)) OR push_bit 16 (ucast (bs ! 2)) OR push_bit 24 (ucast (bs ! 3))"

fun words_of :: "u8 list \<Rightarrow> u32 list" where
  "words_of [] = []"
| "words_of (b # bs) = bytes_word (take 4 (b # bs @ [0, 0, 0])) # words_of (drop 3 bs)"

fun enc_req :: "cfg_req \<Rightarrow> u32 list" where
  "enc_req (Set_int p v) = [ucast p, 4, v]"
| "enc_req (Set_str p bs) = [ucast p, of_nat (length bs)] @ words_of bs"

lemma word_bytes_word: "word_bytes (bytes_word [a, b, c, d]) = [a, b, c, d]"
proof -
  have n: "\<not> bit x (8 + n)" "\<not> bit x (16 + n)" "\<not> bit x (24 + n)" for x :: u8 and n
    using bit_imp_le_length [of x "8 + n"] bit_imp_le_length [of x "16 + n"] bit_imp_le_length [of x "24 + n"] by auto
  show ?thesis by (auto simp: word_bytes_def bytes_word_def bit_simps n intro!: bit_word_eqI)
qed

lemma length_words_of: "length (words_of bs) = (length bs + 3) div 4"
proof (induction bs rule: words_of.induct)
  case (2 b bs)
  then show ?case by (cases "length bs \<le> 3") (auto simp: div_eq_0_iff)
qed simp

lemma take4: "length xs \<ge> 4 \<Longrightarrow> take 4 xs = [xs ! 0, xs ! 1, xs ! 2, xs ! 3]"
  by (intro nth_equalityI) (auto simp: less_Suc_eq numeral_eq_Suc)

lemma bytes_of_words_of: "take (length bs) (bytes_of (words_of bs)) = bs"
proof (induction bs rule: words_of.induct)
  case (2 b bs)
  let ?x = "take 4 (b # bs @ [0, 0, 0])"
  have "length (b # bs @ [0, 0, 0]) \<ge> 4" by simp
  then have w: "word_bytes (bytes_word ?x) = ?x" using take4 word_bytes_word by metis
  show ?case
  proof (cases "length bs \<le> 3")
    case True
    then show ?thesis using w by (simp add: bytes_of_def)
  next
    case False
    then show ?thesis using w 2 by (simp add: bytes_of_def)
  qed
qed (simp add: bytes_of_def)


text \<open>The values after a sequence of requests: each one that is in range replaces the value.\<close>

type_synonym cfg_vals = "(u16 \<Rightarrow> u32) \<times> (u16 \<Rightarrow> u8 list)"

definition vals :: "tAniSirCfg \<Rightarrow> cfg_vals" where "vals C = (int_val C, str_val C)"

fun req_vals :: "tAniSirCfg \<Rightarrow> cfg_vals \<Rightarrow> cfg_req \<Rightarrow> cfg_vals" where
  "req_vals C (iv, sv) (Set_int p v) = (if int_min C p \<le> v \<and> v \<le> int_max C p then iv(p := v) else iv, sv)"
| "req_vals C (iv, sv) (Set_str p bs) = (iv, if length bs \<le> str_max C p then sv(p := bs) else sv)"

text \<open>Requests for parameters of the right kind that the host may write, with strings no longer than the buffer for them.\<close>

fun req_ok :: "tAniSirCfg \<Rightarrow> cfg_req \<Rightarrow> bool" where
  "req_ok C (Set_int p v) \<longleftrightarrow> int_param C p \<and> ctl C p AND CFG_CTL_WE \<noteq> 0"
| "req_ok C (Set_str p bs) \<longleftrightarrow> str_param C p \<and> ctl C p AND CFG_CTL_WE \<noteq> 0 \<and> length bs \<le> CFG_MAX_STR_LEN"

text \<open>Two stores agree on what a request may do, and on the values of the parameters there are.\<close>

definition same_params :: "tAniSirCfg \<Rightarrow> tAniSirCfg \<Rightarrow> bool" where
  "same_params C C' \<longleftrightarrow> ctl C' = ctl C \<and> int_param C' = int_param C \<and> str_param C' = str_param C \<and> int_min C' = int_min C \<and>
     int_max C' = int_max C \<and> (\<forall>q. str_param C q \<longrightarrow> str_max C' q = str_max C q) \<and> gCfgStatus C' = gCfgStatus C"

definition vals_eq :: "tAniSirCfg \<Rightarrow> cfg_vals \<Rightarrow> cfg_vals \<Rightarrow> bool" where
  "vals_eq C x y \<longleftrightarrow> (\<forall>p. int_param C p \<longrightarrow> fst x p = fst y p) \<and> (\<forall>p. str_param C p \<longrightarrow> snd x p = snd y p)"

lemma same_params_refl: "same_params C C" and same_params_trans: "same_params A B \<Longrightarrow> same_params B C \<Longrightarrow> same_params A C"
  by (auto simp: same_params_def)

lemma req_ok_same: "same_params C C' \<Longrightarrow> req_ok C' r = req_ok C r"
  by (cases r) (auto simp: same_params_def)

lemma req_vals_same:
  "same_params C C' \<Longrightarrow> req_ok C r \<Longrightarrow> vals_eq C x y \<Longrightarrow> vals_eq C (req_vals C' x r) (req_vals C y r)"
  by (cases r; cases x; cases y) (auto simp: same_params_def vals_eq_def)

lemma foldl_vals_same:
  "same_params C C' \<Longrightarrow> \<forall>r \<in> set rs. req_ok C r \<Longrightarrow> vals_eq C x y \<Longrightarrow> vals_eq C (foldl (req_vals C') x rs) (foldl (req_vals C) y rs)"
  by (induction rs arbitrary: x y) (auto simp: req_vals_same)

text \<open>Logging messages and using the scratch buffer changes nothing of it.\<close>

lemma host_send_eq: "\<exists>ms. host_send mem t ps d C = C\<lparr>cfg_msgs := cfg_msgs C @ ms\<rparr>"
proof (cases mem)
  case False
  then show ?thesis by (intro exI [of _ "[]"]) (simp add: host_send_def)
qed (auto simp: host_send_def)

lemma frame_msgs:
  assumes "cfg_inv C" and "length sb = CFG_MAX_STR_LEN"
  shows "cfg_inv (C\<lparr>cfg_msgs := ms\<rparr>)" "same_params C (C\<lparr>cfg_msgs := ms\<rparr>)" "vals (C\<lparr>cfg_msgs := ms\<rparr>) = vals C"
    "cfg_inv (C\<lparr>gSBuffer := sb\<rparr>)" "same_params C (C\<lparr>gSBuffer := sb\<rparr>)" "vals (C\<lparr>gSBuffer := sb\<rparr>) = vals C"
proof -
  let ?C = "C\<lparr>cfg_msgs := ms\<rparr>" and ?D = "C\<lparr>gSBuffer := sb\<rparr>"
  have c: "gCfgEntry ?C = gCfgEntry C" "gCfgSBuf ?C = gCfgSBuf C" "gCfgIBuf ?C = gCfgIBuf C" "gCfgIBufMin ?C = gCfgIBufMin C"
    "gCfgIBufMax ?C = gCfgIBufMax C" by simp_all
  have d: "gCfgEntry ?D = gCfgEntry C" "gCfgSBuf ?D = gCfgSBuf C" "gCfgIBuf ?D = gCfgIBuf C" "gCfgIBufMin ?D = gCfgIBufMin C"
    "gCfgIBufMax ?D = gCfgIBufMax C" by simp_all
  note vc = view_cong(1-4) [OF c(1)] view_cong(5) [OF c(1,3)] view_cong(6) [OF c(1,4)] view_cong(7) [OF c(1,5)] view_cong(8,9,10) [OF c(1,2)]
  note vd = view_cong(1-4) [OF d(1)] view_cong(5) [OF d(1,3)] view_cong(6) [OF d(1,4)] view_cong(7) [OF d(1,5)] view_cong(8,9,10) [OF d(1,2)]
  have "sizes_ok C" using assms(1) by (simp add: cfg_inv_def)
  then have "sizes_ok ?C" "sizes_ok ?D" using assms(2) by (simp_all add: sizes_ok_def)
  then show "cfg_inv ?C" "cfg_inv ?D" using assms(1) unfolding cfg_inv_def vc vd by blast+
  show "same_params C ?C" "same_params C ?D" by (simp_all add: same_params_def vc vd)
  show "vals ?C = vals C" "vals ?D = vals C" by (simp_all add: vals_def vc vd)
qed

text \<open>One request, once its record is decoded.\<close>

lemma set_result_total: "cfg_inv C \<Longrightarrow> unat p < CFG_PARAM_MAX_NUM \<Longrightarrow> \<exists>r. set_result p st C = Some r"
  by (auto simp: set_result_def cfgNeedRestart_def cfgNeedReload_def cfg_inv_def ctl_rd sizes_ok_def)

lemma set_one_int:
  assumes "cfg_inv C" and "req_ok C (Set_int p v)" and "rd ps 0 = Some v"
  shows "\<exists>r C'. set_one p 4 n len ps C = Some (r, C') \<and> cfg_inv C' \<and> same_params C C' \<and>
    vals_eq C (vals C') (req_vals C (vals C) (Set_int p v))"
proof -
  have ip: "int_param C p" "ctl C p AND CFG_CTL_WE \<noteq> 0" using assms(2) by auto
  then have v: "unat p < CFG_PARAM_MAX_NUM" "ctl C p AND CFG_CTL_VALID \<noteq> 0" "ctl C p AND CFG_CTL_INT \<noteq> 0"
    by (auto simp: int_param_def)
  have s: "sizes_ok C" using assms(1) by (simp add: cfg_inv_def)
  have "\<exists>st C'. cfgSetInt p v C = Some (st, C') \<and> cfg_inv C' \<and> same_params C C' \<and>
    vals_eq C (vals C') (req_vals C (vals C) (Set_int p v))"
  proof -
    obtain ms where e: "cfgSetInt p v C = Some (if int_min C p \<le> v \<and> v \<le> int_max C p
     then (eSIR_SUCCESS, C\<lparr>gCfgIBuf := (gCfgIBuf C)[place C p := v], cfg_msgs := cfg_msgs C @ ms\<rparr>)
     else (eSIR_CFG_INVALID_ID, C))" using set_int_eq [OF assms(1) ip(1)] by blast
    show ?thesis
    proof (cases "int_min C p \<le> v \<and> v \<le> int_max C p")
      case True
      define C' where "C' = C\<lparr>gCfgIBuf := (gCfgIBuf C)[place C p := v], cfg_msgs := cfg_msgs C @ ms\<rparr>"
      note k = set_int_view [OF assms(1) ip(1) C'_def]
      have "ctl C' = ctl C" "gCfgStatus C' = gCfgStatus C" by (simp_all add: C'_def ctl_def fun_eq_iff)
      then show ?thesis using e True k
        by (intro exI [of _ eSIR_SUCCESS] exI [of _ C']) (auto simp: C'_def [symmetric] same_params_def vals_eq_def vals_def)
    next
      case False
      then show ?thesis using e assms(1) same_params_refl by (auto simp: vals_eq_def vals_def)
    qed
  qed
  then obtain st C' where C': "cfgSetInt p v C = Some (st, C')" "cfg_inv C'" "same_params C C'"
    "vals_eq C (vals C') (req_vals C (vals C) (Set_int p v))" by blast
  obtain r where "set_result p st C' = Some r" using set_result_total [OF C'(2) v(1)] by blast
  then have "set_one p 4 n len ps C = Some (r, C')"
    using s v ip C'(1) assms(3) by (simp add: set_one_def CheckParam_def ctl_rd)
  then show ?thesis using C' by blast
qed

lemma set_one_str:
  assumes "cfg_inv C" and "req_ok C (Set_str p bs)" and "take (length bs) (bytes_of ps) = bs" and "n \<le> len"
  shows "\<exists>r C'. set_one p (of_nat (length bs)) n len ps C = Some (r, C') \<and> cfg_inv C' \<and> same_params C C' \<and>
    vals_eq C (vals C') (req_vals C (vals C) (Set_str p bs))"
proof -
  have ip: "str_param C p" "ctl C p AND CFG_CTL_WE \<noteq> 0" and lb: "length bs \<le> 256" using assms(2) by (auto simp: CFG_MAX_STR_LEN_def)
  then have v: "unat p < CFG_PARAM_MAX_NUM" "ctl C p AND CFG_CTL_VALID \<noteq> 0" "ctl C p AND CFG_CTL_INT = 0"
    by (auto simp: str_param_def)
  have s: "sizes_ok C" using assms(1) by (simp add: cfg_inv_def)
  then have lg: "length (gSBuffer C) = 256" by (simp add: sizes_ok_def CFG_MAX_STR_LEN_def)
  have u: "unat (of_nat (length bs) :: u16) = length bs" "unat (of_nat (length bs) :: u32) = length bs"
    using lb by (auto intro!: unat_word_of_nat)
  have "length bs \<le> length (bytes_of ps)" using assms(3) by (metis length_take min.cobounded1 nat_le_linear take_all min.absorb2)
  then obtain sb where sb: "copy_bytes (length bs) (bytes_of ps) 0 (gSBuffer C) 0 = Some sb" "length sb = 256"
      "\<And>j. j < 256 \<Longrightarrow> sb ! j = (if j < length bs then bytes_of ps ! j else gSBuffer C ! j)"
    using copy_bytes_Some [of 0 "length bs" "bytes_of ps" 0 "gSBuffer C"] lb lg by auto
  have tb: "take (length bs) sb = bs"
  proof (rule nth_equalityI)
    fix i assume "i < length (take (length bs) sb)"
    then show "take (length bs) sb ! i = bs ! i" using sb(2,3) lb assms(3) by (metis (no_types) length_take min_less_iff_conj nth_take)
  qed (use sb(2) lb in simp)
  define D where "D = C\<lparr>gSBuffer := sb\<rparr>"
  have fd: "cfg_inv D" "same_params C D" "vals D = vals C"
    using frame_msgs(4-6) [OF assms(1), of sb] sb(2) by (simp_all add: D_def CFG_MAX_STR_LEN_def)
  have pd: "str_param D p" "str_max D p = str_max C p" using fd(2) ip by (auto simp: same_params_def)
  have "\<exists>st C'. cfgSetStr p sb (of_nat (length bs)) D = Some (st, C') \<and> cfg_inv C' \<and> same_params D C' \<and>
    vals_eq C (vals C') (req_vals C (vals C) (Set_str p bs))"
  proof (cases "length bs \<le> str_max C p")
    case True
    then obtain C' where C': "cfgSetStrNotify p sb (of_nat (length bs)) True D = Some (eSIR_SUCCESS, C')" "cfg_inv C'"
        "str_val C' p = take (length bs) sb" "\<forall>q. str_param D q \<longrightarrow> str_max C' q = str_max D q"
        "\<forall>q. str_param D q \<longrightarrow> q \<noteq> p \<longrightarrow> str_val C' q = str_val D q" "int_val C' = int_val D" "int_min C' = int_min D"
        "int_max C' = int_max D" "int_param C' = int_param D" "str_param C' = str_param D" "ctl C' = ctl D" "gCfgStatus C' = gCfgStatus D"
      using set_str_view [OF fd(1) pd(1), of "of_nat (length bs)" sb True] pd(2) u(2) sb(2) lb by auto
    have "str_param D = str_param C" "int_val D = int_val C" "str_val D = str_val C"
      using fd(2,3) by (auto simp: same_params_def vals_def)
    then show ?thesis using C' True tb
      by (intro exI [of _ eSIR_SUCCESS] exI [of _ C']) (auto simp: cfgSetStr_def same_params_def vals_eq_def vals_def)
  next
    case False
    then have "cfgSetStr p sb (of_nat (length bs)) D = Some (eSIR_CFG_INVALID_LEN, D)"
      using set_str_long [OF fd(1) pd(1)] pd(2) u(2) by (simp add: cfgSetStr_def)
    then show ?thesis using fd same_params_refl False by (auto simp: vals_eq_def vals_def)
  qed
  then obtain st C' where C': "cfgSetStr p sb (of_nat (length bs)) D = Some (st, C')" "cfg_inv C'" "same_params D C'"
    "vals_eq C (vals C') (req_vals C (vals C) (Set_str p bs))" by blast
  obtain r where "set_result p st C' = Some r" using set_result_total [OF C'(2) v(1)] by blast
  moreover have "(ucast (of_nat (length bs) :: u16) :: u32) = of_nat (length bs)"
  proof -
    have "unat (ucast (of_nat (length bs) :: u16) :: u32) = length bs"
      using u(1) lb by (simp only: unsigned_ucast_eq) (simp add: take_bit_nat_eq_self)
    then show ?thesis using u(2) by (metis unat_inject)
  qed
  ultimately have "set_one p (of_nat (length bs)) n len ps C = Some (r, C')"
    using s v ip C'(1) assms(4) sb(1) u(1) by (simp add: set_one_def CheckParam_def ctl_rd GetStrValue_def D_def not_less [symmetric])
  then show ?thesis using C' same_params_trans [OF fd(2) C'(3)] by blast
qed


text \<open>The record of one request at the head of a message.\<close>

lemma set_req_step:
  assumes "cfg_inv C" and "req_ok C r" and "4 * length (enc_req r @ rest) < 65536"
  shows "\<exists>C'. set_req_loop mem fRsp (of_nat (4 * length (enc_req r @ rest))) (enc_req r @ rest) C =
      set_req_loop mem fRsp (of_nat (4 * length rest)) rest C' \<and> cfg_inv C' \<and> same_params C C' \<and>
    vals_eq C (vals C') (req_vals C (vals C) r)"
proof -
  define p where "p = (case r of Set_int p v \<Rightarrow> p | Set_str p bs \<Rightarrow> p)"
  define vl :: nat where "vl = (case r of Set_int p v \<Rightarrow> 4 | Set_str p bs \<Rightarrow> length bs)"
  define ws where "ws = drop 2 (enc_req r)"
  have lw: "length ws = (vl + 3) div 4" and e: "enc_req r = [ucast p, of_nat vl] @ ws" and vl: "vl \<le> 256"
    using assms(2) by (cases r; simp add: p_def vl_def ws_def length_words_of CFG_MAX_STR_LEN_def)+
  define n :: nat where "n = 4 * length (enc_req r @ rest)"
  have n: "n = 8 + (vl + 3) div 4 * 4 + 4 * length rest" using lw e by (simp add: n_def)
  define len rounded :: u16 where "len = of_nat n" and "rounded = of_nat ((vl + 3) div 4 * 4)"
  have u: "unat len = n" "unat (of_nat vl :: u16) = vl" "unat rounded = (vl + 3) div 4 * 4"
    unfolding len_def rounded_def by (rule unat_word_of_nat; use assms(3) vl in \<open>simp add: n_def\<close>)+
  have ge: "len \<ge> 8" using u(1) n by (simp add: word_le_nat_alt)
  have l8: "unat (len - 8) = (vl + 3) div 4 * 4 + 4 * length rest" using ge u(1) n by (simp add: unat_sub word_le_nat_alt)
  have nr: "\<not> rounded > len - 8" using l8 u(3) by (simp add: word_less_nat_alt)
  have "unat (len - 8 - rounded) = 4 * length rest"
    using nr l8 u(3) by (subst unat_sub) (auto simp: word_le_nat_alt)
  moreover have "unat (of_nat (4 * length rest) :: u16) = 4 * length rest" using assms(3) by (intro unat_word_of_nat) simp
  ultimately have lr: "len - 8 - rounded = of_nat (4 * length rest)" by (metis unat_inject)
  have id: "(ucast (ucast p :: u32) :: u16) = p" "(ucast (of_nat vl :: u32) :: u16) = of_nat vl"
  proof -
    show "(ucast (ucast p :: u32) :: u16) = p" by (rule bit_word_eqI) (auto simp: bit_simps)
    have "unat (of_nat vl :: u32) = vl" by (rule unat_word_of_nat) (use vl in simp)
    then have "unat (ucast (of_nat vl :: u32) :: u16) = unat (of_nat vl :: u16)"
      using vl u(2) by (simp only: unsigned_ucast_eq) (simp add: take_bit_nat_eq_self)
    then show "(ucast (of_nat vl :: u32) :: u16) = of_nat vl" by (simp only: unat_inject)
  qed
  have "\<exists>x C1. set_one p (of_nat vl) rounded (len - 8) (ws @ rest) C = Some (x, C1) \<and> cfg_inv C1 \<and> same_params C C1 \<and>
      vals_eq C (vals C1) (req_vals C (vals C) r)"
  proof (cases r)
    case (Set_int q v)
    then show ?thesis using set_one_int [OF assms(1), of q v "ws @ rest" rounded "len - 8"] assms(2)
      by (simp add: p_def vl_def ws_def)
  next
    case (Set_str q bs)
    have "take (length bs) (bytes_of (words_of bs @ rest)) = bs"
    proof -
      have "length bs \<le> length (bytes_of (words_of bs))" by (metis bytes_of_words_of length_take min.cobounded2 min_def nat_le_linear)
      then show ?thesis using bytes_of_words_of [of bs] by (simp add: bytes_of_def)
    qed
    then show ?thesis using set_one_str [OF assms(1), of q bs "ws @ rest" rounded "len - 8"] assms(2) Set_str nr
      by (simp add: p_def vl_def ws_def not_less)
  qed
  then obtain x C1 where C1: "set_one p (of_nat vl) rounded (len - 8) (ws @ rest) C = Some (x, C1)" "cfg_inv C1" "same_params C C1"
      "vals_eq C (vals C1) (req_vals C (vals C) r)" by blast
  define C2 where "C2 = (if fRsp then host_send mem WNI_CFG_SET_CNF [x, ucast p] [] C1 else C1)"
  obtain ms where "C2 = C1\<lparr>cfg_msgs := ms\<rparr>"
  proof (cases fRsp)
    case True
    then show thesis using that host_send_eq [of mem WNI_CFG_SET_CNF "[x, ucast p]" "[]" C1] by (auto simp: C2_def)
  next
    case False
    then show thesis using that [of "cfg_msgs C1"] by (simp add: C2_def)
  qed
  then have k: "cfg_inv C2" "same_params C1 C2" "vals C2 = vals C1"
    using frame_msgs(1-3) [OF C1(2), of "gSBuffer C1" ms] C1(2) by (auto simp: cfg_inv_def sizes_ok_def)
  have "set_req_loop mem fRsp len (enc_req r @ rest) C = set_req_loop mem fRsp (of_nat (4 * length rest)) rest C2"
    using ge C1(1) nr lr u(2,3) lw
    by (subst set_req_loop.simps) (simp add: e id Let_def C2_def rounded_def [symmetric] del: of_nat_mult of_nat_add)
  then show ?thesis unfolding len_def n_def using k C1 same_params_trans [OF C1(3) k(2)] by auto
qed

lemma set_req_all:
  "cfg_inv C \<Longrightarrow> \<forall>r \<in> set rs. req_ok C r \<Longrightarrow> 4 * length (concat (map enc_req rs)) < 65536 \<Longrightarrow>
   \<exists>C'. set_req_loop mem fRsp (of_nat (4 * length (concat (map enc_req rs)))) (concat (map enc_req rs)) C = Some C' \<and> cfg_inv C' \<and>
     same_params C C' \<and> vals_eq C (vals C') (foldl (req_vals C) (vals C) rs)"
proof (induction rs arbitrary: C)
  case Nil
  then show ?case using same_params_refl by (subst set_req_loop.simps) (auto simp: vals_eq_def)
next
  case (Cons r rs)
  obtain C1 where C1: "set_req_loop mem fRsp (of_nat (4 * length (concat (map enc_req (r # rs))))) (concat (map enc_req (r # rs))) C =
      set_req_loop mem fRsp (of_nat (4 * length (concat (map enc_req rs)))) (concat (map enc_req rs)) C1"
      "cfg_inv C1" "same_params C C1" "vals_eq C (vals C1) (req_vals C (vals C) r)"
    using set_req_step [OF Cons.prems(1), of r "concat (map enc_req rs)" mem fRsp] Cons.prems(2,3) by auto
  have ok: "\<forall>r \<in> set rs. req_ok C1 r" "\<forall>r \<in> set rs. req_ok C r" using Cons.prems(2) req_ok_same [OF C1(3)] by auto
  obtain C' where C': "set_req_loop mem fRsp (of_nat (4 * length (concat (map enc_req rs)))) (concat (map enc_req rs)) C1 = Some C'"
      "cfg_inv C'" "same_params C1 C'" "vals_eq C1 (vals C') (foldl (req_vals C1) (vals C1) rs)"
    using Cons.IH [OF C1(2) ok(1)] Cons.prems(3) by auto
  have "vals_eq C (vals C') (foldl (req_vals C1) (vals C1) rs)" using C'(4) C1(3) by (simp add: vals_eq_def same_params_def)
  moreover have "vals_eq C (foldl (req_vals C1) (vals C1) rs) (foldl (req_vals C) (req_vals C (vals C) r) rs)"
    by (rule foldl_vals_same [OF C1(3) ok(2) C1(4)])
  ultimately have "vals_eq C (vals C') (foldl (req_vals C) (vals C) (r # rs))" by (simp add: vals_eq_def)
  then show ?case using C1(1) C'(1,2) same_params_trans [OF C1(3) C'(3)] by auto
qed


section \<open>Regulatory transmit power\<close>

text \<open>A country string is a sequence of triplets: the first channel, the number of channels, the power.\<close>

type_synonym triplet = "u8 \<times> u8 \<times> u8"

definition tri_bytes :: "triplet \<Rightarrow> u8 list" where "tri_bytes t = [fst t, fst (snd t), snd (snd t)]"
definition covers :: "u8 \<Rightarrow> triplet \<Rightarrow> bool" where
  "covers ch t \<longleftrightarrow> fst t \<le> ch \<and> unat ch < unat (fst t) + unat (fst (snd t))"
definition tri_power :: "triplet \<Rightarrow> u8" where "tri_power t = snd (snd t)"

text \<open>The power of the first triplet that covers the channel, or that of the last one.\<close>

definition power_for :: "u8 \<Rightarrow> triplet list \<Rightarrow> u8 \<Rightarrow> u8" where
  "power_for ch ts d = (case find (covers ch) ts of Some t \<Rightarrow> tri_power t | None \<Rightarrow> if ts = [] then d else tri_power (last ts))"

lemma power_for_Cons: "power_for ch (t # ts) d = (if covers ch t then tri_power t else power_for ch ts (tri_power t))"
  by (auto simp: power_for_def split: option.splits)

lemma length_tri [simp]: "length (tri_bytes t) = 3"
  by (simp add: tri_bytes_def)

lemma length_triplets: "length (concat (map tri_bytes ts)) = 3 * length ts"
  by (induction ts) auto

lemma dot11d_loop_eq:
  "length pre + 3 * length ts = n \<Longrightarrow> 3 \<le> n \<Longrightarrow> n \<le> 255 \<Longrightarrow> n \<le> length (pre @ concat (map tri_bytes ts) @ junk) \<Longrightarrow>
   dot11d_loop (pre @ concat (map tri_bytes ts) @ junk) (of_nat n) ch (of_nat (length pre)) pw = Some (power_for ch ts pw)"
proof (induction ts arbitrary: pre pw)
  case Nil
  have u: "unat (of_nat n :: u32) = n" "unat (of_nat (length pre) :: u8) = length pre" using Nil by (auto intro!: unat_word_of_nat)
  have "unat ((of_nat n :: u32) - 3) = n - 3" using u Nil by (subst unat_sub) (auto simp: word_le_nat_alt)
  then have "\<not> (ucast (of_nat (length pre) :: u8) :: u32) \<le> of_nat n - 3"
    using u Nil by (simp add: word_le_nat_alt unat_ucast_u8_u32 del: of_nat_unat)
  then show ?case by (subst dot11d_loop.simps) (simp add: power_for_def)
next
  case (Cons t ts)
  let ?c = "of_nat (length pre) :: u8" and ?buf = "pre @ concat (map tri_bytes (t # ts)) @ junk"
  have u: "unat (of_nat n :: u32) = n" "unat ?c = length pre" "unat (of_nat (length pre + 1) :: u8) = length pre + 1"
      "unat (of_nat (length pre + 2) :: u8) = length pre + 2"
    by (rule unat_word_of_nat; use Cons.prems in simp)+
  have "unat ((of_nat n :: u32) - 3) = n - 3" using u Cons.prems by (subst unat_sub) (auto simp: word_le_nat_alt)
  then have le: "(ucast ?c :: u32) \<le> of_nat n - 3"
    using u Cons.prems by (simp add: word_le_nat_alt unat_ucast_u8_u32)
  have c: "?c + 1 = of_nat (length pre + 1)" "?c + 2 = of_nat (length pre + 2)" "?c + 3 = of_nat (length (pre @ tri_bytes t))"
    by (simp_all add: tri_bytes_def)
  have r: "rd ?buf (unat ?c) = Some (fst t)" "rd ?buf (unat (?c + 1)) = Some (fst (snd t))" "rd ?buf (unat (?c + 2)) = Some (snd (snd t))"
    unfolding c u by (simp_all add: rd_def tri_bytes_def nth_append)
  have IH: "dot11d_loop ?buf (of_nat n) ch (?c + 3) (tri_power t) = Some (power_for ch ts (tri_power t))"
    unfolding c using Cons.IH [of "pre @ tri_bytes t" "tri_power t"] Cons.prems by simp
  show ?case using le r IH
    by (subst dot11d_loop.simps) (auto simp: power_for_Cons covers_def tri_power_def)
qed

lemma dot11d_loop_overrun:
  assumes "0 < ch" and "i \<le> 42"
  shows "dot11d_loop (replicate 128 0) (0xFFFFFFFD + 3) ch (of_nat (3 * i)) pw = None"
  using assms(2)
proof (induction arbitrary: pw rule: inc_induct)
  case base
  show ?case by (subst dot11d_loop.simps) (simp add: rd_def)
next
  case (step i)
  have u: "unat (of_nat (3 * i) :: u8) = 3 * i" "unat (of_nat (3 * i + 1) :: u8) = 3 * i + 1" "unat (of_nat (3 * i + 2) :: u8) = 3 * i + 2"
    by (rule unat_word_of_nat; use step in simp)+
  have c: "(of_nat (3 * i) :: u8) + 1 = of_nat (3 * i + 1)" "(of_nat (3 * i) :: u8) + 2 = of_nat (3 * i + 2)"
      "(of_nat (3 * i) :: u8) + 3 = of_nat (3 * Suc i)" by simp_all
  have "(ucast (of_nat (3 * i) :: u8) :: u32) \<le> 0xFFFFFFFD"
    using u(1) step by (simp add: word_le_nat_alt unat_ucast_u8_u32)
  then show ?case using step u
    by (subst dot11d_loop.simps, unfold c) (simp add: rd_def word_less_nat_alt)
qed


section \<open>Properties\<close>

text \<open>The sample store: the sample table downloaded. Parameter 0 is an integer between 0 and 255, parameter 1 a string of at most 6 bytes.\<close>

lemma sample_store:
  obtains C where "processCfgDownloadReq sample_strs sample_cg 0 sample_cfg = Some C" "cfg_inv C" "int_param C 0" "str_param C 1"
    "int_min C 0 = 0" "int_max C 0 = 255" "int_val C 0 = 1" "str_max C 1 = 6" "str_len C 1 = 2" "ctl C 0 = 0xF0000" "ctl C 1 = 0x70000"
    "gCfgStatus C = CFG_SUCCESS"
proof -
  have b: "ucast (gCfgMaxSBufSize sample_cfg) = (3199 :: u32)" by (simp add: sample_cfg_def)
  obtain C where C: "processCfgDownloadReq sample_strs sample_cg 0 sample_cfg = Some C"
      "dnld_inv sample_strs sample_cg 3199 CFG_PARAM_MAX_NUM C" "gCfgStatus C = CFG_SUCCESS"
    using download_eq [OF sample_sizes _ sample_ghosts, of sample_strs 0, unfolded b, OF sample_table] by blast
  note v = dnld_views [OF sample_table C(2)]
  have ip: "int_param C 0" "str_param C 1" using v(1,2) sample_kinds by (simp_all add: CFG_PARAM_MAX_NUM_def)
  have e: "gCfgEntry C ! i = control (sample_cg ! i) OR of_nat (offset sample_strs sample_cg i)" if "i < 298" for i
    using C(2) that by (simp add: dnld_inv_def entries_upto_def CFG_PARAM_MAX_NUM_def)
  have o: "offset sample_strs sample_cg 0 = 0" "offset sample_strs sample_cg 1 = 0"
    using sample_kinds(1,2) [of 0] sample_kinds(1,2) [of 1]
    by (simp_all add: offset_def ints_before_def strs_before_def) (simp add: sample_cg_def vstr_def CFG_CTL_INT_def)
  have c: "control (sample_cg ! 0) = 0xF0000" "control (sample_cg ! 1) = 0x70000" by (simp_all add: sample_cg_def)
  have cc: "ctl C 0 = 0xF0000" "ctl C 1 = 0x70000" using e [of 0] e [of 1] o c by (simp_all add: ctl_def)
  have "limits (sample_cg ! 0) = (0, 255, 1)" by (simp add: limits_def sample_cg_def)
  moreover have "(gCfgIBufMin C ! ints_before sample_cg 0, gCfgIBufMax C ! ints_before sample_cg 0, gCfgIBuf C ! ints_before sample_cg 0) =
      limits (sample_cg ! 0)"
    using C(2) sample_kinds(1) [of 0] unfolding dnld_inv_def CFG_PARAM_MAX_NUM_def by simp
  ultimately have "int_min C 0 = 0" "int_max C 0 = 255" "int_val C 0 = 1"
    using v(3) [OF ip(1)] by (simp_all add: int_min_def int_max_def int_val_def)
  moreover have "str_max C 1 = 6" "str_len C 1 = 2"
    using v(5,6) [OF ip(2)] by (simp_all add: str_of_def sample_strs_def) (simp_all add: sample_cg_def)
  ultimately show thesis using that C(1,3) dnld_cfg_inv [OF sample_table C(2)] ip cc by blast
qed

text \<open>
  C20: setting and getting an integer. In a well-formed store \<^verbatim>\<open>cfgSetInt\<close> accepts exactly the values between the
  parameter's limits. An accepted value is what \<^verbatim>\<open>wlan_cfgGetInt\<close> returns afterwards; every other integer and
  every string reads as before, and the store stays well formed. A refused value changes nothing.
\<close>

theorem cfg_int_roundtrip:
  assumes "cfg_inv C" and "int_param C p"
  shows "if int_min C p \<le> v \<and> v \<le> int_max C p
    then \<exists>C'. cfgSetInt p v C = Some (eSIR_SUCCESS, C') \<and> cfg_inv C' \<and> str_val C' = str_val C \<and>
      (\<forall>q x. int_param C q \<longrightarrow> wlan_cfgGetInt q x C' = Some (eSIR_SUCCESS, if q = p then v else int_val C q))
    else cfgSetInt p v C = Some (eSIR_CFG_INVALID_ID, C)"
proof -
  obtain ms where e: "cfgSetInt p v C = Some (if int_min C p \<le> v \<and> v \<le> int_max C p
     then (eSIR_SUCCESS, C\<lparr>gCfgIBuf := (gCfgIBuf C)[place C p := v], cfg_msgs := cfg_msgs C @ ms\<rparr>)
     else (eSIR_CFG_INVALID_ID, C))" using set_int_eq [OF assms] by blast
  define C' where "C' = C\<lparr>gCfgIBuf := (gCfgIBuf C)[place C p := v], cfg_msgs := cfg_msgs C @ ms\<rparr>"
  note k = set_int_view [OF assms C'_def]
  have "wlan_cfgGetInt q x C' = Some (eSIR_SUCCESS, if q = p then v else int_val C q)" if "int_param C q" for q x
    using cfg_get_int [OF k(1), of q x] k(2,7) that by simp
  then show ?thesis using e k(1,3) by (auto simp: C'_def [symmetric])
qed

theorem cfg_int_roundtrip_witness:
  "\<exists>C C'. processCfgDownloadReq sample_strs sample_cg 0 sample_cfg = Some C \<and> cfgSetInt 0 200 C = Some (eSIR_SUCCESS, C') \<and>
     wlan_cfgGetInt 0 0 C' = Some (eSIR_SUCCESS, 200) \<and> cfgSetInt 0 256 C = Some (eSIR_CFG_INVALID_ID, C)"
proof -
  obtain C where C: "processCfgDownloadReq sample_strs sample_cg 0 sample_cfg = Some C" "cfg_inv C" "int_param C 0"
    "int_min C 0 = 0" "int_max C 0 = 255" by (rule sample_store)
  then show ?thesis using cfg_int_roundtrip [OF C(2,3), of 200] cfg_int_roundtrip [OF C(2,3), of 256] by auto
qed

text \<open>
  Setting and getting a string. \<^verbatim>\<open>cfgSetStr\<close> accepts exactly the strings that are no longer than the
  parameter's maximal length. Afterwards the length query gives the length, \<^verbatim>\<open>wlan_cfgGetStr\<close> with a large enough
  buffer gives the bytes back, all other parameters are as before, and the store stays well formed.
\<close>

theorem cfg_str_roundtrip:
  assumes "cfg_inv C" and "str_param C p" and "unat l \<le> length xs"
  shows "if unat l \<le> str_max C p
    then \<exists>C'. cfgSetStr p xs l C = Some (eSIR_SUCCESS, C') \<and> cfg_inv C' \<and> int_val C' = int_val C \<and>
      (\<forall>q. str_param C q \<longrightarrow> q \<noteq> p \<longrightarrow> str_val C' q = str_val C q) \<and>
      wlan_cfgGetStrLen p x C' = Some (eSIR_SUCCESS, l) \<and>
      (\<forall>buf n. l \<le> n \<longrightarrow> unat l \<le> length buf \<longrightarrow>
         (\<exists>b. wlan_cfgGetStr p buf n C' = Some (eSIR_SUCCESS, b, l) \<and> take (unat l) b = take (unat l) xs))
    else cfgSetStr p xs l C = Some (eSIR_CFG_INVALID_LEN, C)"
proof (cases "unat l \<le> str_max C p")
  case True
  then obtain C' where C': "cfgSetStrNotify p xs l True C = Some (eSIR_SUCCESS, C')" "cfg_inv C'" "str_val C' p = take (unat l) xs"
      "str_len C' p = unat l" "\<forall>q. str_param C q \<longrightarrow> q \<noteq> p \<longrightarrow> str_val C' q = str_val C q" "int_val C' = int_val C"
      "str_param C' = str_param C"
    using set_str_view [OF assms(1,2) True assms(3), of True] by blast
  have sp: "str_param C' p" using C'(7) assms(2) by simp
  have "\<exists>b. wlan_cfgGetStr p buf n C' = Some (eSIR_SUCCESS, b, l) \<and> take (unat l) b = take (unat l) xs"
    if "l \<le> n" "unat l \<le> length buf" for buf n
    using get_str_eq(5) [OF C'(2) sp, of n buf] that C'(3,4) by (auto simp: word_le_nat_alt)
  moreover have "wlan_cfgGetStrLen p x C' = Some (eSIR_SUCCESS, l)" using get_str_eq(2) [OF C'(2) sp] C'(4) by simp
  ultimately show ?thesis using True C' by (simp add: cfgSetStr_def)
next
  case False
  then show ?thesis using set_str_long [OF assms(1,2)] by (simp add: cfgSetStr_def)
qed

theorem cfg_str_roundtrip_witness:
  "\<exists>C C' b. processCfgDownloadReq sample_strs sample_cg 0 sample_cfg = Some C \<and> cfgSetStr 1 [7, 8, 9] 3 C = Some (eSIR_SUCCESS, C') \<and>
     wlan_cfgGetStr 1 [0, 0, 0, 0] 4 C' = Some (eSIR_SUCCESS, b, 3) \<and> take 3 b = [7, 8, 9] \<and>
     cfgSetStr 1 [1, 2, 3, 4, 5, 6, 7] 7 C = Some (eSIR_CFG_INVALID_LEN, C)"
proof -
  obtain C where C: "processCfgDownloadReq sample_strs sample_cg 0 sample_cfg = Some C" "cfg_inv C" "str_param C 1" "str_max C 1 = 6"
    by (rule sample_store)
  obtain C' where C': "cfgSetStr 1 [7, 8, 9] 3 C = Some (eSIR_SUCCESS, C')"
      "\<forall>buf n. 3 \<le> n \<longrightarrow> unat (3 :: u32) \<le> length buf \<longrightarrow> (\<exists>b. wlan_cfgGetStr 1 buf n C' = Some (eSIR_SUCCESS, b, 3) \<and> take (unat (3 :: u32)) b = take (unat (3 :: u32)) [7, 8, 9])"
    using cfg_str_roundtrip [OF C(2,3), of 3 "[7, 8, 9]" 0] C(4) by auto
  obtain b where "wlan_cfgGetStr 1 [0, 0, 0, 0] 4 C' = Some (eSIR_SUCCESS, b, 3)" "take 3 b = [7, 8, 9]"
    using C'(2) [rule_format, of 4 "[0, 0, 0, 0]"] by auto
  then show ?thesis using C C'(1) cfg_str_roundtrip [OF C(2,3), of 7 "[1, 2, 3, 4, 5, 6, 7]" 0] by auto
qed

text \<open>
  C21: write requests are decoded. For a message that is the encoding of a sequence of requests to
  parameters the host may write, \<^verbatim>\<open>ProcSetReqInternal\<close> ends, keeps the store well formed, and leaves exactly the
  values that executing the requests one after the other gives: each request in range replaces the value
  of its parameter, the others and all other parameters are unaffected.
\<close>

theorem cfg_set_req_decodes:
  assumes "cfg_inv C" and "gCfgStatus C \<noteq> CFG_INCOMPLETE" and "\<forall>r \<in> set rs. req_ok C r"
    and "4 * length (concat (map enc_req rs)) < 65536"
  shows "\<exists>C'. ProcSetReqInternal mem (of_nat (4 * length (concat (map enc_req rs)))) (concat (map enc_req rs)) fRsp C = Some C' \<and>
    cfg_inv C' \<and> (\<forall>p. int_param C p \<longrightarrow> int_val C' p = fst (foldl (req_vals C) (int_val C, str_val C) rs) p) \<and>
    (\<forall>p. str_param C p \<longrightarrow> str_val C' p = snd (foldl (req_vals C) (int_val C, str_val C) rs) p)"
proof -
  obtain C' where "set_req_loop mem fRsp (of_nat (4 * length (concat (map enc_req rs)))) (concat (map enc_req rs)) C = Some C'"
      "cfg_inv C'" "vals_eq C (vals C') (foldl (req_vals C) (vals C) rs)"
    using set_req_all [OF assms(1,3,4)] by blast
  then show ?thesis using assms(2) by (auto simp: ProcSetReqInternal_def vals_eq_def vals_def)
qed

theorem cfg_set_req_decodes_witness:
  "\<exists>C C'. processCfgDownloadReq sample_strs sample_cg 0 sample_cfg = Some C \<and>
     ProcSetReqInternal True 24 [0, 4, 77, 1, 3, 0x00030201] True C = Some C' \<and> int_val C' 0 = 77 \<and> str_val C' 1 = [1, 2, 3]"
proof -
  obtain C where C: "processCfgDownloadReq sample_strs sample_cg 0 sample_cfg = Some C" "cfg_inv C" "int_param C 0" "str_param C 1"
    "int_min C 0 = 0" "int_max C 0 = 255" "str_max C 1 = 6" "ctl C 0 = 0xF0000" "ctl C 1 = 0x70000" "gCfgStatus C = CFG_SUCCESS"
    by (rule sample_store)
  let ?rs = "[Set_int 0 77, Set_str 1 [1, 2, 3]]"
  have e: "concat (map enc_req ?rs) = [0, 4, 77, 1, 3, 0x00030201]" by (simp add: bytes_word_def)
  have "\<forall>r \<in> set ?rs. req_ok C r" using C by (simp add: CFG_CTL_WE_def CFG_MAX_STR_LEN_def)
  then obtain C' where "ProcSetReqInternal True (of_nat (4 * length (concat (map enc_req ?rs)))) (concat (map enc_req ?rs)) True C = Some C'"
      "int_val C' 0 = fst (foldl (req_vals C) (int_val C, str_val C) ?rs) 0"
      "str_val C' 1 = snd (foldl (req_vals C) (int_val C, str_val C) ?rs) 1"
    using cfg_set_req_decodes [OF C(2), of ?rs True True] C(3,4,10) unfolding e by auto
  then show ?thesis unfolding e using C by auto
qed

text \<open>
  An overlong string overruns the scratch buffer. A write request for a string parameter whose length
  field exceeds the 256 bytes of \<^verbatim>\<open>gSBuffer\<close> is copied there before any check: the handler writes outside the
  buffer.
\<close>

theorem cfg_set_req_overrun:
  assumes "cfg_inv C" and "gCfgStatus C \<noteq> CFG_INCOMPLETE" and "str_param C p" and "ctl C p AND CFG_CTL_WE \<noteq> 0"
    and "256 < n" and "length ws = (n + 3) div 4" and "n < 65000"
  shows "ProcSetReqInternal mem (of_nat (8 + 4 * length ws)) ([ucast p, of_nat n] @ ws) fRsp C = None"
proof -
  define len rounded :: u16 where "len = of_nat (8 + 4 * length ws)" and "rounded = of_nat ((n + 3) div 4 * 4)"
  have u: "unat len = 8 + 4 * length ws" "unat rounded = (n + 3) div 4 * 4" "unat (of_nat n :: u16) = n" "unat (of_nat n :: u32) = n"
    unfolding len_def rounded_def by (rule unat_word_of_nat; use assms(6,7) in simp)+
  have v: "unat p < CFG_PARAM_MAX_NUM" "ctl C p AND CFG_CTL_VALID \<noteq> 0" "ctl C p AND CFG_CTL_INT = 0"
    using assms(3) by (auto simp: str_param_def)
  have s: "sizes_ok C" using assms(1) by (simp add: cfg_inv_def)
  have ge: "len \<ge> 8" using u(1) by (simp add: word_le_nat_alt)
  have nr: "\<not> rounded > len - 8" using ge u assms(6) by (simp add: word_less_nat_alt unat_sub word_le_nat_alt)
  have id: "(ucast (ucast p :: u32) :: u16) = p" "(ucast (of_nat n :: u32) :: u16) = of_nat n"
  proof -
    show "(ucast (ucast p :: u32) :: u16) = p" by (rule bit_word_eqI) (auto simp: bit_simps)
    have "unat (ucast (of_nat n :: u32) :: u16) = unat (of_nat n :: u16)"
      using assms(7) u(3,4) by (simp only: unsigned_ucast_eq) (simp add: take_bit_nat_eq_self)
    then show "(ucast (of_nat n :: u32) :: u16) = of_nat n" by (simp only: unat_inject)
  qed
  have "GetStrValue (bytes_of ws) (gSBuffer C) (of_nat n) = None"
    unfolding GetStrValue_def u(3) using assms(5) s by (intro copy_bytes_None) (auto simp: sizes_ok_def CFG_MAX_STR_LEN_def)
  then have "set_one p (of_nat n) rounded (len - 8) ws C = None"
    using s v assms(4) nr by (simp add: set_one_def CheckParam_def ctl_rd)
  then have "set_req_loop mem fRsp len ([ucast p, of_nat n] @ ws) C = None"
    using ge by (subst set_req_loop.simps) (simp add: id Let_def u(3) rounded_def [symmetric] del: of_nat_mult of_nat_add)
  then show ?thesis using assms(2) by (simp add: ProcSetReqInternal_def len_def)
qed

theorem cfg_set_req_overrun_witness:
  "\<exists>C. processCfgDownloadReq sample_strs sample_cg 0 sample_cfg = Some C \<and>
     ProcSetReqInternal True 268 ([1, 257] @ replicate 65 0) True C = None"
proof -
  obtain C where C: "processCfgDownloadReq sample_strs sample_cg 0 sample_cfg = Some C" "cfg_inv C" "str_param C 1"
    "ctl C 1 = 0x70000" "gCfgStatus C = CFG_SUCCESS" by (rule sample_store)
  have "ctl C 1 AND CFG_CTL_WE \<noteq> 0" using C by (simp add: CFG_CTL_WE_def)
  then show ?thesis using C cfg_set_req_overrun [OF C(2) _ C(3), of 257 "replicate 65 0" True True] by (intro exI [of _ C]) simp
qed

text \<open>
  reading a string through a message. \<^verbatim>\<open>ProcGetReq\<close> answers a request for a readable string parameter with the
  string only if it is no longer than a pointer: the handler passes \<^verbatim>\<open>sizeof\<close> of the pointer \<^verbatim>\<open>gSBuffer\<close> as the size
  of the buffer, and longer strings are answered with \<^verbatim>\<open>WNI_CFG_OTHER_ERROR\<close>.
\<close>

theorem cfg_get_req_string:
  assumes "cfg_inv C" and "gCfgStatus C \<noteq> CFG_INCOMPLETE" and "str_param C p" and "ctl C p AND CFG_CTL_RE \<noteq> 0"
    and "ptr_size \<le> 8"
  shows "\<exists>C' d. ProcGetReq True ptr_size junk 4 [ucast p] C = Some C' \<and>
    (if str_len C p \<le> ptr_size
     then cfg_msgs C' = cfg_msgs C @ [Host_msg WNI_CFG_GET_RSP [WNI_CFG_SUCCESS, ucast p, of_nat (str_len C p)] d] \<and>
       take (str_len C p) d = str_val C p
     else cfg_msgs C' = cfg_msgs C @ [Host_msg WNI_CFG_GET_RSP [WNI_CFG_OTHER_ERROR, ucast p, of_nat ptr_size] d])"
proof -
  have v: "unat p < CFG_PARAM_MAX_NUM" "ctl C p AND CFG_CTL_VALID \<noteq> 0" "ctl C p AND CFG_CTL_INT = 0"
    using assms(3) by (auto simp: str_param_def)
  have s: "sizes_ok C" using assms(1) by (simp add: cfg_inv_def)
  have lg: "length (gSBuffer C) = 256" using s by (simp add: sizes_ok_def CFG_MAX_STR_LEN_def)
  have u: "unat (of_nat ptr_size :: u32) = ptr_size" by (rule unat_word_of_nat) (use assms(5) in simp)
  have id: "(ucast (ucast p :: u32) :: u16) = p" by (rule bit_word_eqI) (auto simp: bit_simps)
  have get: "ProcGetReq True ptr_size junk 4 [ucast p] C = do { x \<leftarrow> get_one ptr_size junk p C;
      Some (host_send True WNI_CFG_GET_RSP [fst x, ucast p, fst (snd x)] (fst (snd (snd x))) (snd (snd (snd x)))) }"
    using assms(2) unfolding ProcGetReq_def
    by (subst get_req_loop.simps, subst get_req_loop.simps) (simp add: id rd_def)
  have one: "get_one ptr_size junk p C = do {
         (st, sb, valueLen) \<leftarrow> wlan_cfgGetStr p (gSBuffer C) (of_nat ptr_size) C;
         Some (if st = eSIR_SUCCESS then WNI_CFG_SUCCESS else WNI_CFG_OTHER_ERROR, valueLen,
               take ((unat valueLen + 3) div 4 * 4) sb, C\<lparr>gSBuffer := sb\<rparr>) }"
    using s v assms(4) by (simp add: get_one_def CheckParam_def ctl_rd)
  show ?thesis
  proof (cases "str_len C p \<le> ptr_size")
    case True
    obtain b where b: "wlan_cfgGetStr p (gSBuffer C) (of_nat ptr_size) C = Some (eSIR_SUCCESS, b, of_nat (str_len C p))"
        "take (str_len C p) b = str_val C p"
      using get_str_eq(5) [OF assms(1,3), of "of_nat ptr_size" "gSBuffer C"] True u lg assms(5) by auto
    have "unat (of_nat (str_len C p) :: u32) = str_len C p" by (rule unat_word_of_nat) (use True assms(5) in simp)
    moreover have "str_len C p \<le> (str_len C p + 3) div 4 * 4" by presburger
    ultimately show ?thesis using get one b True by (auto simp: host_send_def min_def)
  next
    case False
    then have "wlan_cfgGetStr p (gSBuffer C) (of_nat ptr_size) C = Some (eSIR_CFG_INVALID_LEN, gSBuffer C, of_nat ptr_size)"
      using get_str_eq(4) [OF assms(1,3), of "of_nat ptr_size" "gSBuffer C"] u by simp
    then show ?thesis using get one False by (auto simp: host_send_def)
  qed
qed

theorem cfg_get_req_string_witness:
  "\<exists>C C' d. processCfgDownloadReq sample_strs sample_cg 0 sample_cfg = Some C \<and> ProcGetReq True 8 0 4 [1] C = Some C' \<and>
     cfg_msgs C' = cfg_msgs C @ [Host_msg WNI_CFG_GET_RSP [WNI_CFG_SUCCESS, 1, 2] d] \<and> take 2 d = str_val C 1"
proof -
  obtain C where C: "processCfgDownloadReq sample_strs sample_cg 0 sample_cfg = Some C" "cfg_inv C" "str_param C 1"
    "str_len C 1 = 2" "ctl C 1 = 0x70000" "gCfgStatus C = CFG_SUCCESS" by (rule sample_store)
  have "ctl C 1 AND CFG_CTL_RE \<noteq> 0" using C by (simp add: CFG_CTL_RE_def)
  then show ?thesis using C cfg_get_req_string [OF C(2) _ C(3), of 8 0] by auto
qed

text \<open>
  regulatory transmit power. When the country string of the channel's band is a non-empty sequence of
  triplets, \<^verbatim>\<open>cfgGetRegulatoryMaxTransmitPower\<close> returns the power of the first triplet that covers the channel; for a
  channel that no triplet covers it returns the power of the last triplet rather than the invalid power.
\<close>

theorem regulatory_power:
  fixes C :: tAniSirCfg and ch :: u8
  defines "p \<equiv> (if SIR_11A_CHANNEL_BEGIN \<le> ch \<and> ch \<le> SIR_11A_CHANNEL_END then WNI_CFG_MAX_TX_POWER_5 else WNI_CFG_MAX_TX_POWER_2_4)"
  assumes "cfg_inv C" and "str_param C p" and "str_val C p = concat (map tri_bytes ts)" and "ts \<noteq> []" and "length ts \<le> 42"
    and "alloc 128 = Some buf" and "length buf = 128"
  shows "cfgGetRegulatoryMaxTransmitPower alloc ch C = Some (case find (covers ch) ts of Some t \<Rightarrow> tri_power t | None \<Rightarrow> tri_power (last ts))"
proof -
  have l: "str_len C p = 3 * length ts" using get_str_eq(1) [OF assms(2,3)] assms(4) by (simp add: length_triplets)
  obtain b where b: "wlan_cfgGetStr p buf 128 C = Some (eSIR_SUCCESS, b, of_nat (str_len C p))" "take (str_len C p) b = str_val C p"
      "length b = 128"
    using get_str_eq(5) [OF assms(2,3), of 128 buf] l assms(6,8) by auto
  have "b = [] @ concat (map tri_bytes ts) @ drop (3 * length ts) b" using b(2) l assms(4) by (metis append_Nil append_take_drop_id)
  then have "dot11d_loop b (of_nat (3 * length ts)) ch 0 WDA_MAX_TXPOWER_INVALID = Some (power_for ch ts WDA_MAX_TXPOWER_INVALID)"
    using dot11d_loop_eq [of "[]" ts "3 * length ts" "drop (3 * length ts) b" ch WDA_MAX_TXPOWER_INVALID] assms(5,6) b(3)
    by (cases ts) auto
  then have "cfgGetDot11dTransmitPower alloc p 128 ch C = Some (power_for ch ts WDA_MAX_TXPOWER_INVALID)"
    using b(1) l assms(7) by (simp add: cfgGetDot11dTransmitPower_def)
  then show ?thesis using assms(5) by (auto simp: cfgGetRegulatoryMaxTransmitPower_def p_def power_for_def)
qed

definition power_cfg :: tAniSirCfg where
  "power_cfg = sample_cfg\<lparr>gCfgEntry := (replicate 298 0)[77 := 0x70000], gCfgSBuf := [6, 6, 1, 11, 20, 12, 2, 15] @ replicate 3191 0\<rparr>"

lemma power_cfg_inv: "cfg_inv power_cfg" "str_param power_cfg 77" "str_val power_cfg 77 = concat (map tri_bytes [(1, 11, 20), (12, 2, 15)])"
proof -
  have c: "ctl power_cfg q = (if q = 77 then 0x70000 else 0)" if "unat q < 298" for q
  proof -
    have "unat q = 77 \<longleftrightarrow> q = 77" using unat_inject [of q 77] by simp
    then show ?thesis using that by (auto simp: ctl_def power_cfg_def nth_list_update)
  qed
  have n: "\<not> int_param power_cfg q" "str_param power_cfg q \<longleftrightarrow> q = 77" for q
    using c [of q] c [of 77] by (auto simp: int_param_def str_param_def CFG_PARAM_MAX_NUM_def CFG_CTL_VALID_def CFG_CTL_INT_def split: if_splits)
  have p: "place power_cfg 77 = 0" using c [of 77] by (simp add: place_def CFG_BUF_INDX_MASK_def)
  have m: "str_max power_cfg 77 = 6" "str_len power_cfg 77 = 6" by (simp_all add: str_max_def str_len_def p) (simp_all add: power_cfg_def)
  have "sizes_ok power_cfg" using sample_sizes by (simp add: power_cfg_def sizes_ok_def CFG_PARAM_MAX_NUM_def CFG_STA_SBUF_MAX_SIZE_def)
  then show "cfg_inv power_cfg" by (simp add: cfg_inv_def n p m CFG_STA_SBUF_MAX_SIZE_def)
  show "str_param power_cfg 77" using n by simp
  show "str_val power_cfg 77 = concat (map tri_bytes [(1, 11, 20), (12, 2, 15)])"
    by (simp add: str_val_def m p tri_bytes_def) (simp add: power_cfg_def)
qed

theorem regulatory_power_witness:
  "cfgGetRegulatoryMaxTransmitPower (\<lambda>_. Some (replicate 128 0)) 12 power_cfg = Some 15 \<and>
   cfgGetRegulatoryMaxTransmitPower (\<lambda>_. Some (replicate 128 0)) 14 power_cfg = Some 15"
  using regulatory_power [of power_cfg 12 "[(1, 11, 20), (12, 2, 15)]" "\<lambda>_. Some (replicate 128 0)" "replicate 128 0"]
    regulatory_power [of power_cfg 14 "[(1, 11, 20), (12, 2, 15)]" "\<lambda>_. Some (replicate 128 0)" "replicate 128 0"] power_cfg_inv
  by (simp add: SIR_11A_CHANNEL_BEGIN_def SIR_11A_CHANNEL_END_def WNI_CFG_MAX_TX_POWER_2_4_def covers_def tri_power_def)

end
