(* ===== verification/Peer_Table.thy ===== *)
theory Peer_Table
  imports Txrx_Types Id_Pool
begin

text \<open>
  The table of peers of the data path (CLD_TXRX/TXRX/ol_txrx_peer_find.c and the local identifiers of ol_txrx.c): the
  peer objects, the hash table that finds them by MAC address, the map from the identifiers of the target, and the
  pool of local identifiers. A peer object is known by its address; \<open>None\<close> in \<open>peer_objs\<close> is memory that is not
  allocated, and reading it gives \<open>None\<close>. \<^verbatim>\<open>QCA_SUPPORT_TXRX_LOCAL_PEER_ID\<close> is defined.
\<close>

section \<open>Data\<close>

text \<open>
  The fields of \<^verbatim>\<open>struct ol_txrx_peer_t\<close> that the table of peers and the transmit path use; the virtual device is
  given by its identifier, \<^verbatim>\<open>security\<close> by the types for multicast and for unicast frames. The queues of the peer are
  in the map of queues of the device.
\<close>

record tx_peer_t =
  peer_vdev :: u8
  ref_cnt :: int
  delete_in_progress :: bool
  peer_state :: ol_txrx_peer_state
  peer_ids :: "u16 list"
  peer_local_id :: u16
  peer_mac :: mac
  sec_mcast :: htt_sec_type
  sec_ucast :: htt_sec_type
  bss_peer :: bool
  peer_valid :: bool
  qos_capable :: bool
  uapsd_mask :: u8

text \<open>
  The members \<^verbatim>\<open>peer_hash\<close>, \<^verbatim>\<open>peer_id_to_obj_map\<close> and \<^verbatim>\<open>local_peer_ids\<close> of the physical device, with the objects
  and the configured \<^verbatim>\<open>max_peer_id\<close>.
\<close>

record peer_db =
  peer_objs :: "nat \<Rightarrow> tx_peer_t option"
  max_peer_id :: u16
  hash_bins :: "nat list list"
  hash_mask :: u32
  hash_idx_bits :: nat
  peer_id_to_obj_map :: "nat option list"
  lid_pool :: "u8 list"
  lid_freelist :: u8
  lid_map :: "nat option list"

definition HTT_INVALID_PEER :: u16 where
  "HTT_INVALID_PEER = 0xffff"

definition MAX_NUM_PEER_ID_PER_PEER :: nat where
  "MAX_NUM_PEER_ID_PER_PEER = 8"

text \<open>A change of a peer object; the object must be allocated.\<close>

definition upd_peer :: "nat \<Rightarrow> (tx_peer_t \<Rightarrow> tx_peer_t) \<Rightarrow> peer_db \<Rightarrow> peer_db option" where
  "upd_peer h f D = do { p \<leftarrow> peer_objs D h; Some (D\<lparr>peer_objs := (peer_objs D)(h \<mapsto> f p)\<rparr>) }"

definition inc_ref :: "nat \<Rightarrow> peer_db \<Rightarrow> peer_db option" where
  "inc_ref h = upd_peer h (\<lambda>p. p\<lparr>ref_cnt := ref_cnt p + 1\<rparr>)"

definition dec_ref :: "nat \<Rightarrow> peer_db \<Rightarrow> peer_db option" where
  "dec_ref h = upd_peer h (\<lambda>p. p\<lparr>ref_cnt := ref_cnt p - 1\<rparr>)"

section \<open>The size of the hash table\<close>

function log2_loop :: "u32 \<Rightarrow> int \<Rightarrow> int" where
  "log2_loop tmp log2 = (if tmp = 0 then log2 else log2_loop (drop_bit 1 tmp) (log2 + 1))"
  by auto

termination
proof (relation "measure (\<lambda>(tmp, log2). unat tmp)", simp)
  fix tmp :: u32 and l :: int
  assume "tmp \<noteq> 0"
  then have "0 < unat tmp" by (simp add: unat_gt_0)
  then show "((drop_bit 1 tmp, l + 1), tmp, l) \<in> measure (\<lambda>(tmp, log2). unat tmp)"
    by (simp add: drop_bit_eq_div unat_div)
qed

declare log2_loop.simps [simp del]

definition ol_txrx_log2_ceil :: "u32 \<Rightarrow> int" where
  "ol_txrx_log2_ceil value =
     (if value = 0 then 0
      else let log2 = log2_loop value (-1) in if push_bit (nat log2) 1 \<noteq> value then log2 + 1 else log2)"

definition TXRX_PEER_HASH_LOAD_MULT :: u32 where
  "TXRX_PEER_HASH_LOAD_MULT = 2"

definition TXRX_PEER_HASH_LOAD_SHIFT :: nat where
  "TXRX_PEER_HASH_LOAD_SHIFT = 0"

text \<open>\<open>mem_ok\<close> tells that the memory is granted; the first component of the result is the C function's return value.\<close>

definition ol_txrx_peer_find_hash_attach :: "bool \<Rightarrow> peer_db \<Rightarrow> int \<times> peer_db" where
  "ol_txrx_peer_find_hash_attach mem_ok D =
     (let hash_elems = ucast (max_peer_id D) + 1;
          hash_elems = drop_bit TXRX_PEER_HASH_LOAD_SHIFT (hash_elems * TXRX_PEER_HASH_LOAD_MULT);
          log2 = nat (ol_txrx_log2_ceil hash_elems);
          hash_elems = push_bit log2 1;
          D = D\<lparr>hash_mask := hash_elems - 1, hash_idx_bits := log2\<rparr>
      in if \<not> mem_ok then (1, D) else (0, D\<lparr>hash_bins := replicate (unat hash_elems) []\<rparr>))"

definition ol_txrx_peer_find_map_attach :: "bool \<Rightarrow> peer_db \<Rightarrow> int \<times> peer_db" where
  "ol_txrx_peer_find_map_attach mem_ok D =
     (if \<not> mem_ok then (1, D) else (0, D\<lparr>peer_id_to_obj_map := replicate (unat (max_peer_id D) + 1) None\<rparr>))"

definition ol_txrx_peer_find_attach :: "bool \<Rightarrow> bool \<Rightarrow> peer_db \<Rightarrow> int \<times> peer_db" where
  "ol_txrx_peer_find_attach map_ok hash_ok D =
     (case ol_txrx_peer_find_map_attach map_ok D of
        (r, D) \<Rightarrow> if r \<noteq> 0 then (1, D)
          else case ol_txrx_peer_find_hash_attach hash_ok D of
            (r, D) \<Rightarrow> if r \<noteq> 0 then (1, D\<lparr>peer_id_to_obj_map := []\<rparr>) else (0, D))"

section \<open>The hash table\<close>

text \<open>The views of the union \<^verbatim>\<open>ol_txrx_align_mac_addr_t\<close> on a little-endian host.\<close>

definition bytes2 :: "u8 \<Rightarrow> u8 \<Rightarrow> u16" where
  "bytes2 a b = ucast a OR push_bit 8 (ucast b)"

definition bytes_abcd :: "mac \<Rightarrow> u32" where
  "bytes_abcd m = ucast (bytes2 (m ! 0) (m ! 1)) OR push_bit 16 (ucast (bytes2 (m ! 2) (m ! 3)))"

definition ol_txrx_peer_find_mac_addr_cmp :: "mac \<Rightarrow> mac \<Rightarrow> bool" where
  "ol_txrx_peer_find_mac_addr_cmp a b \<longleftrightarrow>
     \<not> (bytes_abcd a = bytes_abcd b \<and> bytes2 (a ! 4) (a ! 5) = bytes2 (b ! 4) (b ! 5))"

definition ol_txrx_peer_find_hash_index :: "peer_db \<Rightarrow> mac \<Rightarrow> u32" where
  "ol_txrx_peer_find_hash_index D m =
     (let index = ucast (bytes2 (m ! 0) (m ! 1) XOR bytes2 (m ! 2) (m ! 3) XOR bytes2 (m ! 4) (m ! 5));
          index = index XOR drop_bit (hash_idx_bits D) index
      in index AND hash_mask D)"

definition ol_txrx_peer_find_hash_add :: "nat \<Rightarrow> peer_db \<Rightarrow> peer_db option" where
  "ol_txrx_peer_find_hash_add h D = do {
     p \<leftarrow> peer_objs D h;
     let index = unat (ol_txrx_peer_find_hash_index D (peer_mac p));
     bin \<leftarrow> rd (hash_bins D) index;
     bins \<leftarrow> wr (hash_bins D) index (bin @ [h]);
     Some (D\<lparr>hash_bins := bins\<rparr>) }"

text \<open>The search of one bin from its head, which reads the objects on its way.\<close>

fun find_in_bin :: "(nat \<Rightarrow> tx_peer_t option) \<Rightarrow> (tx_peer_t \<Rightarrow> bool) \<Rightarrow> nat list \<Rightarrow> nat option option" where
  "find_in_bin objs match [] = Some None"
| "find_in_bin objs match (h # hs) = do { p \<leftarrow> objs h; if match p then Some (Some h) else find_in_bin objs match hs }"

text \<open>The peer that is found is returned with a reference more.\<close>

definition hash_search :: "mac \<Rightarrow> (tx_peer_t \<Rightarrow> bool) \<Rightarrow> peer_db \<Rightarrow> (nat option \<times> peer_db) option" where
  "hash_search m match D = do {
     bin \<leftarrow> rd (hash_bins D) (unat (ol_txrx_peer_find_hash_index D m));
     r \<leftarrow> find_in_bin (peer_objs D) (\<lambda>p. \<not> ol_txrx_peer_find_mac_addr_cmp m (peer_mac p) \<and> match p) bin;
     case r of None \<Rightarrow> Some (None, D) | Some h \<Rightarrow> do { D \<leftarrow> inc_ref h D; Some (Some h, D) } }"

definition ol_txrx_peer_find_hash_find :: "mac \<Rightarrow> bool \<Rightarrow> peer_db \<Rightarrow> (nat option \<times> peer_db) option" where
  "ol_txrx_peer_find_hash_find m check_valid = hash_search m (\<lambda>p. \<not> check_valid \<or> peer_valid p)"

definition ol_txrx_peer_vdev_find_hash :: "u8 \<Rightarrow> mac \<Rightarrow> bool \<Rightarrow> peer_db \<Rightarrow> (nat option \<times> peer_db) option" where
  "ol_txrx_peer_vdev_find_hash vdev m check_valid =
     hash_search m (\<lambda>p. (\<not> check_valid \<or> peer_valid p) \<and> peer_vdev p = vdev)"

definition ol_txrx_peer_find_hash_remove :: "nat \<Rightarrow> peer_db \<Rightarrow> peer_db option" where
  "ol_txrx_peer_find_hash_remove h D = do {
     p \<leftarrow> peer_objs D h;
     let index = unat (ol_txrx_peer_find_hash_index D (peer_mac p));
     bin \<leftarrow> rd (hash_bins D) index;
     if h \<notin> set bin then None
     else do {
       bins \<leftarrow> wr (hash_bins D) index (remove1 h bin);
       Some (D\<lparr>hash_bins := bins\<rparr>) } }"

section \<open>The identifiers of the target\<close>

definition ol_txrx_peer_find_by_id :: "peer_db \<Rightarrow> u16 \<Rightarrow> nat option option" where
  "ol_txrx_peer_find_by_id D peer_id = do {
     peer \<leftarrow> (if peer_id > max_peer_id D then Some None else rd (peer_id_to_obj_map D) (unat peer_id));
     case peer of None \<Rightarrow> Some None
     | Some h \<Rightarrow> do { p \<leftarrow> peer_objs D h; Some (if peer_valid p then Some h else None) } }"

text \<open>The first free element of the peer's identifiers takes the new one.\<close>

fun first_free_id :: "u16 list \<Rightarrow> nat option" where
  "first_free_id [] = None"
| "first_free_id (x # xs) = (if x = HTT_INVALID_PEER then Some 0 else map_option Suc (first_free_id xs))"

definition ol_txrx_peer_find_add_id_to_obj :: "nat \<Rightarrow> u16 \<Rightarrow> peer_db \<Rightarrow> (int \<times> peer_db) option" where
  "ol_txrx_peer_find_add_id_to_obj h peer_id D = do {
     p \<leftarrow> peer_objs D h;
     case first_free_id (peer_ids p) of
       None \<Rightarrow> Some (1, D)
     | Some i \<Rightarrow> do { D \<leftarrow> upd_peer h (\<lambda>p. p\<lparr>peer_ids := (peer_ids p)[i := peer_id]\<rparr>) D; Some (0, D) } }"

section \<open>Local identifiers\<close>

definition OL_TXRX_NUM_LOCAL_PEER_IDS :: nat where
  "OL_TXRX_NUM_LOCAL_PEER_IDS = 33"

definition OL_TXRX_INVALID_LOCAL_PEER_ID :: u16 where
  "OL_TXRX_INVALID_LOCAL_PEER_ID = 0xffff"

definition OL_TXRX_LOCAL_PEER_ID_POOL_INIT :: "peer_db \<Rightarrow> peer_db" where
  "OL_TXRX_LOCAL_PEER_ID_POOL_INIT D =
     D\<lparr>lid_pool := map (\<lambda>i. of_nat (i + 1)) [0..<OL_TXRX_NUM_LOCAL_PEER_IDS] @ [of_nat OL_TXRX_NUM_LOCAL_PEER_IDS],
       lid_freelist := 0, lid_map := replicate OL_TXRX_NUM_LOCAL_PEER_IDS None\<rparr>"

definition OL_TXRX_LOCAL_PEER_ID_ALLOC :: "nat \<Rightarrow> peer_db \<Rightarrow> peer_db option" where
  "OL_TXRX_LOCAL_PEER_ID_ALLOC h D = do {
     let i = unat (lid_freelist D);
     link \<leftarrow> rd (lid_pool D) i;
     if link = lid_freelist D then upd_peer h (\<lambda>p. p\<lparr>peer_local_id := OL_TXRX_INVALID_LOCAL_PEER_ID\<rparr>) D
     else do {
       D \<leftarrow> upd_peer h (\<lambda>p. p\<lparr>peer_local_id := of_nat i\<rparr>) D;
       m \<leftarrow> wr (lid_map D) i (Some h);
       Some (D\<lparr>lid_freelist := link, lid_map := m\<rparr>) } }"

definition OL_TXRX_LOCAL_PEER_ID_FREE :: "nat \<Rightarrow> peer_db \<Rightarrow> peer_db option" where
  "OL_TXRX_LOCAL_PEER_ID_FREE h D = do {
     p \<leftarrow> peer_objs D h;
     let i = unat (peer_local_id p);
     if peer_local_id p = OL_TXRX_INVALID_LOCAL_PEER_ID \<or> i \<ge> OL_TXRX_NUM_LOCAL_PEER_IDS then Some D
     else do {
       pool \<leftarrow> wr (lid_pool D) i (lid_freelist D);
       m \<leftarrow> wr (lid_map D) i None;
       Some (D\<lparr>lid_pool := pool, lid_freelist := of_nat i, lid_map := m\<rparr>) } }"

definition ol_txrx_peer_find_by_local_id :: "peer_db \<Rightarrow> u8 \<Rightarrow> nat option option" where
  "ol_txrx_peer_find_by_local_id D local_peer_id =
     (if ucast local_peer_id = OL_TXRX_INVALID_LOCAL_PEER_ID \<or> unat local_peer_id \<ge> OL_TXRX_NUM_LOCAL_PEER_IDS then Some None
      else rd (lid_map D) (unat local_peer_id))"

text \<open>A search whose reference is given back at once; the result has the local identifier too.\<close>

definition ol_txrx_find_peer_by_addr :: "mac \<Rightarrow> peer_db \<Rightarrow> ((nat \<times> u8) option \<times> peer_db) option" where
  "ol_txrx_find_peer_by_addr m D = do {
     (peer, D) \<leftarrow> ol_txrx_peer_find_hash_find m True D;
     case peer of None \<Rightarrow> Some (None, D)
     | Some h \<Rightarrow> do { p \<leftarrow> peer_objs D h; D \<leftarrow> dec_ref h D; Some (Some (h, ucast (peer_local_id p)), D) } }"

definition ol_txrx_find_peer_by_addr_and_vdev :: "u8 \<Rightarrow> mac \<Rightarrow> peer_db \<Rightarrow> ((nat \<times> u8) option \<times> peer_db) option" where
  "ol_txrx_find_peer_by_addr_and_vdev vdev m D = do {
     (peer, D) \<leftarrow> ol_txrx_peer_vdev_find_hash vdev m True D;
     case peer of None \<Rightarrow> Some (None, D)
     | Some h \<Rightarrow> do { p \<leftarrow> peer_objs D h; D \<leftarrow> dec_ref h D; Some (Some (h, ucast (peer_local_id p)), D) } }"

end
