(* ===== verification/Peer_Inv.thy ===== *)
theory Peer_Inv
  imports Peer_Table
begin

text \<open>
  The invariant of the table of peers - the bins of the hash table have exactly the allocated peers, each in the bin of
  its address - and what the searches find on such a table.
\<close>

section \<open>Addresses\<close>

lemma bytes2_parts: "ucast (bytes2 a b) = a" "ucast (drop_bit 8 (bytes2 a b)) = b"
  unfolding bytes2_def by (rule bit_word_eqI; auto simp: bit_simps dest: bit_imp_le_length)+

lemma bytes2_inject [simp]: "bytes2 a b = bytes2 c d \<longleftrightarrow> a = c \<and> b = d"
  using bytes2_parts [of a b] bytes2_parts [of c d] by auto

lemma bytes_abcd_parts:
  "ucast (bytes_abcd m) = bytes2 (m ! 0) (m ! 1)" "ucast (drop_bit 16 (bytes_abcd m)) = bytes2 (m ! 2) (m ! 3)"
  unfolding bytes_abcd_def by (rule bit_word_eqI; auto simp: bit_simps dest: bit_imp_le_length)+

lemma six_bytes: "length m = 6 \<Longrightarrow> m = [m ! 0, m ! 1, m ! 2, m ! 3, m ! 4, m ! 5]"
  by (auto simp: list_eq_iff_nth_eq less_Suc_eq eval_nat_numeral)

lemma mac_addr_cmp_iff:
  assumes "length a = 6" and "length b = 6"
  shows "ol_txrx_peer_find_mac_addr_cmp a b \<longleftrightarrow> a \<noteq> b"
proof -
  have "bytes_abcd a = bytes_abcd b \<longleftrightarrow> a ! 0 = b ! 0 \<and> a ! 1 = b ! 1 \<and> a ! 2 = b ! 2 \<and> a ! 3 = b ! 3"
    using bytes_abcd_parts [of a] bytes_abcd_parts [of b] bytes2_inject unfolding bytes_abcd_def by metis
  then show ?thesis using six_bytes [OF assms(1)] six_bytes [OF assms(2)]
    by (auto simp: ol_txrx_peer_find_mac_addr_cmp_def)
qed

section \<open>The invariant\<close>

definition bin_of :: "peer_db \<Rightarrow> mac \<Rightarrow> nat" where
  "bin_of D m = unat (ol_txrx_peer_find_hash_index D m)"

definition peer_ok :: "tx_peer_t \<Rightarrow> bool" where
  "peer_ok p \<longleftrightarrow> 0 < ref_cnt p \<and> length (peer_ids p) = MAX_NUM_PEER_ID_PER_PEER \<and> length (peer_mac p) = 6"

definition peers_ok :: "peer_db \<Rightarrow> bool" where
  "peers_ok D \<longleftrightarrow> unat (hash_mask D) < length (hash_bins D) \<and>
     (\<forall>i<length (hash_bins D). distinct (hash_bins D ! i) \<and>
        set (hash_bins D ! i) = {h. \<exists>p. peer_objs D h = Some p \<and> bin_of D (peer_mac p) = i}) \<and>
     (\<forall>h p. peer_objs D h = Some p \<longrightarrow> peer_ok p)"

lemma bin_of_cong [simp]:
  "bin_of (D\<lparr>peer_objs := a\<rparr>) m = bin_of D m" "bin_of (D\<lparr>hash_bins := b\<rparr>) m = bin_of D m"
  "bin_of (D\<lparr>peer_id_to_obj_map := c\<rparr>) m = bin_of D m"
  by (simp_all add: bin_of_def ol_txrx_peer_find_hash_index_def Let_def)

lemma bin_of_less: "peers_ok D \<Longrightarrow> bin_of D m < length (hash_bins D)"
  unfolding bin_of_def ol_txrx_peer_find_hash_index_def Let_def peers_ok_def by (intro unat_and_mask_less) blast

lemma in_bin:
  assumes "peers_ok D"
  shows "h \<in> set (hash_bins D ! bin_of D m) \<longleftrightarrow> (\<exists>p. peer_objs D h = Some p \<and> bin_of D (peer_mac p) = bin_of D m)"
  using assms bin_of_less [OF assms, of m] by (simp add: peers_ok_def)

lemma peer_okD: "peers_ok D \<Longrightarrow> peer_objs D h = Some p \<Longrightarrow> peer_ok p"
  by (simp add: peers_ok_def)

text \<open>A change of peers that keeps their addresses keeps the table.\<close>

lemma peers_ok_upd:
  assumes "peers_ok D" and "\<And>p. peer_objs D h = Some p \<Longrightarrow> peer_mac (f p) = peer_mac p \<and> peer_ok (f p)"
    and "upd_peer h f D = Some D'"
  shows "peers_ok D'"
proof -
  obtain p where p: "peer_objs D h = Some p" and D': "D' = D\<lparr>peer_objs := (peer_objs D)(h \<mapsto> f p)\<rparr>"
    using assms(3) by (auto simp: upd_peer_def bind_eq_Some_conv)
  have "(\<exists>q. ((peer_objs D)(h \<mapsto> f p)) h' = Some q \<and> bin_of D (peer_mac q) = i) \<longleftrightarrow>
    (\<exists>q. peer_objs D h' = Some q \<and> bin_of D (peer_mac q) = i)" for h' i
    using p assms(2) [OF p] by auto
  then show ?thesis using assms(1) assms(2) [OF p] unfolding D' by (auto simp: peers_ok_def)
qed

section \<open>References\<close>

text \<open>One reference more.\<close>

definition held :: "nat \<Rightarrow> peer_db \<Rightarrow> peer_db" where
  "held h D = D\<lparr>peer_objs := (peer_objs D)(h := map_option (\<lambda>p. p\<lparr>ref_cnt := ref_cnt p + 1\<rparr>) (peer_objs D h))\<rparr>"

lemma inc_ref_held: "peer_objs D h = Some p \<Longrightarrow> inc_ref h D = Some (held h D)"
  by (simp add: inc_ref_def upd_peer_def held_def)

lemma held_obj [simp]: "peer_objs (held h D) h = map_option (\<lambda>p. p\<lparr>ref_cnt := ref_cnt p + 1\<rparr>) (peer_objs D h)"
  by (simp add: held_def)

lemma dec_ref_held: "peer_objs D h = Some p \<Longrightarrow> dec_ref h (held h D) = Some D"
  by (cases D) (auto simp: dec_ref_def upd_peer_def held_def fun_upd_idem)

section \<open>Searching\<close>

text \<open>The first peer of a bin that matches.\<close>

definition first_peer :: "peer_db \<Rightarrow> mac \<Rightarrow> (tx_peer_t \<Rightarrow> bool) \<Rightarrow> nat option" where
  "first_peer D m match =
     find (\<lambda>h. case peer_objs D h of None \<Rightarrow> False | Some p \<Rightarrow> peer_mac p = m \<and> match p) (hash_bins D ! bin_of D m)"

lemma find_in_bin_find:
  "\<forall>h\<in>set hs. objs h \<noteq> None \<Longrightarrow>
   find_in_bin objs match hs = Some (find (\<lambda>h. case objs h of None \<Rightarrow> False | Some p \<Rightarrow> match p) hs)"
  by (induction hs) auto

lemma find_SomeD: "find Q xs = Some x \<Longrightarrow> x \<in> set xs \<and> Q x"
  by (auto simp: find_Some_iff)

lemma hash_search_first:
  assumes "peers_ok D" and "length m = 6"
  shows "hash_search m match D =
    Some (case first_peer D m match of None \<Rightarrow> (None, D) | Some h \<Rightarrow> (Some h, held h D))"
proof -
  let ?bin = "hash_bins D ! bin_of D m"
  have bin: "rd (hash_bins D) (unat (ol_txrx_peer_find_hash_index D m)) = Some ?bin"
    using bin_of_less [OF assms(1), of m] by (simp add: bin_of_def)
  have all: "\<forall>h\<in>set ?bin. peer_objs D h \<noteq> None" using in_bin [OF assms(1)] by auto
  have "find_in_bin (peer_objs D) (\<lambda>p. \<not> ol_txrx_peer_find_mac_addr_cmp m (peer_mac p) \<and> match p) ?bin = Some (first_peer D m match)"
    unfolding find_in_bin_find [OF all] first_peer_def
    using peer_okD [OF assms(1)] mac_addr_cmp_iff [OF assms(2)]
    by (auto intro!: find_cong simp: peer_ok_def split: option.splits)
  then show ?thesis using bin
    by (auto simp: hash_search_def first_peer_def inc_ref_held dest!: find_SomeD split: option.splits)
qed

lemma first_peer_Some:
  assumes "peers_ok D" and "first_peer D m match = Some h"
  obtains p where "peer_objs D h = Some p" "peer_mac p = m" "match p"
  using assms(2) that by (auto simp: first_peer_def dest!: find_SomeD split: option.splits)

lemma first_peer_None:
  assumes "peers_ok D"
  shows "first_peer D m match = None \<longleftrightarrow> (\<forall>h p. peer_objs D h = Some p \<longrightarrow> peer_mac p = m \<longrightarrow> \<not> match p)"
  using in_bin [OF assms, of _ m] by (fastforce simp: first_peer_def find_None_iff split: option.splits)

end
