(* ===== verification/Tx_Queue.thy ===== *)
theory Tx_Queue
  imports Peer_Table
begin

text \<open>
  The transmit queues of the high-latency data path (CLD_TXRX/TXRX/ol_tx_queue.c, ol_txrx_types.h), in the
  configuration of the SDIO build: \<^verbatim>\<open>CONFIG_HL_SUPPORT\<close> and
  \<^verbatim>\<open>FEATURE_HL_GROUP_CREDIT_FLOW_CONTROL\<close> are defined, \<^verbatim>\<open>QCA_BAD_PEER_TX_FLOW_CL\<close>,
  \<^verbatim>\<open>CONFIG_PER_VDEV_TX_DESC_POOL\<close>, \<^verbatim>\<open>DEBUG_HL_LOGGING\<close> and \<^verbatim>\<open>ADF_OS_DEBUG\<close> are not. This theory has
  the data of the queues and of the scheduler and the operations on one queue.

  A \<^verbatim>\<open>TAILQ\<close> of queue.h is a list. Removing an element that is not in the list follows stale links in C and
  has the value \<open>None\<close> here, as has every access through a null pointer or outside an array. The counters
  that C keeps in atomic or unsigned integers are words of their width; a word is compared as a signed number
  with \<open>sint\<close> where the C type is signed.
\<close>

section \<open>Data\<close>

text \<open>
  A transmit descriptor: its number, the length of its network buffer, the virtual device it is for and the type of
  the frame. The members that change while the frame is on its way are in the pool of descriptors below.
\<close>

record ol_tx_desc_t =
  desc_id :: u16
  netbuf_len :: u32
  desc_vdev :: u8
  pkt_type :: u8

datatype ol_tx_queue_status = ol_tx_queue_empty | ol_tx_queue_active | ol_tx_queue_paused

text \<open>
  A queue is the member \<^verbatim>\<open>txqs[tid]\<close> of a peer or the member \<^verbatim>\<open>txqs[i]\<close> of a virtual device: its address
  is given by the peer or device and the index.
\<close>

datatype txq_ref = PeerTxq nat nat | VdevTxq u8 nat

definition OL_TX_MAX_GROUPS_PER_QUEUE :: nat where
  "OL_TX_MAX_GROUPS_PER_QUEUE = 1"

definition OL_TX_MAX_TXQ_GROUPS :: nat where
  "OL_TX_MAX_TXQ_GROUPS = 2"

definition OL_TX_NUM_TIDS :: nat where
  "OL_TX_NUM_TIDS = 18"

definition OL_TX_NUM_QOS_TIDS :: nat where
  "OL_TX_NUM_QOS_TIDS = 16"

definition OL_TX_MGMT_TID :: nat where
  "OL_TX_MGMT_TID = 17"

definition OL_TX_VDEV_NUM_QUEUES :: nat where
  "OL_TX_VDEV_NUM_QUEUES = 2"

definition OL_TX_VDEV_MCAST_BCAST :: nat where
  "OL_TX_VDEV_MCAST_BCAST = 0"

definition OL_TX_VDEV_DEFAULT_MGMT :: nat where
  "OL_TX_VDEV_DEFAULT_MGMT = 1"

definition HTT_TX_EXT_TID_NON_QOS_MCAST_BCAST :: nat where
  "HTT_TX_EXT_TID_NON_QOS_MCAST_BCAST = 16"

definition HTT_TX_EXT_TID_MGMT :: nat where
  "HTT_TX_EXT_TID_MGMT = 17"

record ol_tx_frms_queue_t =
  paused_count_total :: u8
  q_frms :: u16
  q_bytes :: u32
  q_head :: "ol_tx_desc_t list"
  q_flag :: ol_tx_queue_status
  group_ptrs :: "nat option list" \<comment> \<open>indices into \<^verbatim>\<open>txq_grps\<close>, or a null pointer\<close>

record ol_tx_queue_group_t =
  grp_credit :: u32
  membership :: u32

text \<open>The members \<^verbatim>\<open>specs\<close> and \<^verbatim>\<open>state\<close> of a traffic category of the scheduler.\<close>

record wrr_adv_specs =
  wrr_skip_weight :: int
  credit_threshold :: u32
  send_limit :: u16
  credit_reserve :: int
  discard_weight :: int

record ol_tx_sched_wrr_adv_category_info_t =
  specs :: wrr_adv_specs
  wrr_count :: int
  c_frms :: int
  c_bytes :: u32
  c_head :: "txq_ref list"
  c_active :: bool

record ol_tx_sched_wrr_adv_t =
  order :: "nat list"
  index :: nat
  categories :: "ol_tx_sched_wrr_adv_category_info_t list"

datatype ol_tx_scheduler_status = ol_tx_scheduler_idle | ol_tx_scheduler_running

record ol_txrx_vdev_t =
  vdev_id :: u8
  peer_list :: "nat list"
  hl_paused_reason :: u32
  opmode :: wlan_op_mode
  vdev_mac_addr :: mac
  last_real_peer :: "nat option"
  hlTdlsFlag :: bool
  hl_tdls_ap_mac_addr :: mac
  wait_on_peer_id :: u16

text \<open>
  The part of the physical device that the transmit queues use. The queues of all peers and virtual devices
  are one map from their addresses. The pool of descriptors is a map from their numbers to their contents
  (\<open>desc_mem\<close>), reference counters, states of completion, virtual devices (a null pointer while the descriptor is
  free) and the links of the free list, all of \<^verbatim>\<open>tx_desc\<close>; a null link is \<open>None\<close>. \<open>downloaded\<close> are the frames given
  to the target so far, \<open>freed\<close> the frames given back - freed or passed to a callback - with their error flag.
\<close>

record ol_txrx_pdev_t =
  tx_queues :: "txq_ref \<Rightarrow> ol_tx_frms_queue_t"
  scheduler :: "ol_tx_sched_wrr_adv_t option"
  last_used_txq :: "txq_ref option"
  tx_sched_status :: ol_tx_scheduler_status
  tid_to_ac :: "nat list"
  target_tx_credit :: u32
  txq_grps :: "ol_tx_queue_group_t list"
  rsrc_cnt :: u32
  rsrc_threshold_lo :: u16
  rsrc_threshold_hi :: u16
  desc_pool_size :: u16
  vdev_list :: "ol_txrx_vdev_t list"
  tx_throttle_is_paused :: bool
  desc_mem :: "u16 \<Rightarrow> ol_tx_desc_t"
  desc_ref :: "u16 \<Rightarrow> int"
  desc_status :: "u16 \<Rightarrow> u8"
  desc_owner :: "u16 \<Rightarrow> u8 option"
  desc_next :: "u16 \<Rightarrow> u16 option"
  freelist :: "u16 option"
  num_free :: u16
  frame_format :: wlan_frm_fmt
  peer_tab :: peer_db
  downloaded :: "ol_tx_desc_t list"
  freed :: "(ol_tx_desc_t \<times> bool) list"

definition tailq_remove :: "'a \<Rightarrow> 'a list \<Rightarrow> 'a list option" where
  "tailq_remove x xs = (if x \<in> set xs then Some (remove1 x xs) else None)"

definition upd_txq :: "txq_ref \<Rightarrow> (ol_tx_frms_queue_t \<Rightarrow> ol_tx_frms_queue_t) \<Rightarrow> ol_txrx_pdev_t \<Rightarrow> ol_txrx_pdev_t" where
  "upd_txq r f P = P\<lparr>tx_queues := (tx_queues P)(r := f (tx_queues P r))\<rparr>"

section \<open>Taking frames from a queue\<close>

text \<open>\<^verbatim>\<open>htt_tx_msdu_credit\<close> (ol_htt_tx_api.h): every frame costs one credit.\<close>

definition htt_tx_msdu_credit :: "ol_tx_desc_t \<Rightarrow> u32" where
  "htt_tx_msdu_credit msdu = 1"

text \<open>
  The loop of \<^verbatim>\<open>ol_tx_dequeue\<close> for the \<open>n\<close> frames that are left of the limit: the frames taken, those
  left in the queue, and the sums of the credits and bytes.
\<close>

fun dequeue_loop :: "nat \<Rightarrow> u32 \<Rightarrow> u32 \<Rightarrow> u32 \<Rightarrow> ol_tx_desc_t list
    \<Rightarrow> (ol_tx_desc_t list \<times> ol_tx_desc_t list \<times> u32 \<times> u32) option" where
  "dequeue_loop 0 credit credit_sum bytes_sum q = Some ([], q, credit_sum, bytes_sum)"
| "dequeue_loop (Suc n) credit credit_sum bytes_sum [] = None"
| "dequeue_loop (Suc n) credit credit_sum bytes_sum (tx_desc # q) =
     (let frame_credit = htt_tx_msdu_credit tx_desc in
      if credit_sum + frame_credit > credit then Some ([], tx_desc # q, credit_sum, bytes_sum)
      else do {
        (out, rest, c, b) \<leftarrow> dequeue_loop n credit (credit_sum + frame_credit)
                                (bytes_sum + netbuf_len tx_desc) q;
        Some (tx_desc # out, rest, c, b) })"

text \<open>The result: the queue, the frames appended to \<^verbatim>\<open>head\<close>, the frames' number, credits and bytes.\<close>

definition ol_tx_dequeue :: "ol_tx_frms_queue_t \<Rightarrow> u16 \<Rightarrow> u32
    \<Rightarrow> (ol_tx_frms_queue_t \<times> ol_tx_desc_t list \<times> u16 \<times> u32 \<times> u32) option" where
  "ol_tx_dequeue txq max_frames credit = do {
     let max_frames = (if q_frms txq < max_frames then q_frms txq else max_frames);
     (out, rest, credit_sum, bytes_sum) \<leftarrow> dequeue_loop (unat max_frames) credit 0 0 (q_head txq);
     let num_frames = (of_nat (length out) :: u16);
     let frms = q_frms txq - num_frames;
     Some (txq\<lparr>q_head := rest, q_frms := frms, q_bytes := q_bytes txq - bytes_sum,
               q_flag := (if frms = 0 \<and> q_flag txq = ol_tx_queue_active then ol_tx_queue_empty
                          else q_flag txq)\<rparr>,
           out, num_frames, credit_sum, bytes_sum) }"

section \<open>Credits of queue groups\<close>

text \<open>\<^verbatim>\<open>ol_txrx_update_group_credit\<close> of ol_txrx.c.\<close>

definition ol_txrx_update_group_credit :: "ol_tx_queue_group_t \<Rightarrow> u32 \<Rightarrow> bool \<Rightarrow> ol_tx_queue_group_t" where
  "ol_txrx_update_group_credit grp credit absolute =
     grp\<lparr>grp_credit := (if absolute then credit else grp_credit grp + credit)\<rparr>"

definition ol_tx_txq_group_credit_limit :: "ol_txrx_pdev_t \<Rightarrow> ol_tx_frms_queue_t \<Rightarrow> u32 \<Rightarrow> u32 option" where
  "ol_tx_txq_group_credit_limit P txq credit = do {
     updated_credit \<leftarrow> for_each [0..<OL_TX_MAX_GROUPS_PER_QUEUE] (\<lambda>i updated_credit. do {
       g \<leftarrow> rd (group_ptrs txq) i;
       (case g of None \<Rightarrow> Some updated_credit
        | Some g \<Rightarrow> do { grp \<leftarrow> rd (txq_grps P) g; Some (min updated_credit (sint (grp_credit grp))) }) })
       (sint credit);
     Some (if updated_credit < 0 then 0 else word_of_int updated_credit) }"

definition ol_tx_txq_group_credit_update :: "ol_tx_frms_queue_t \<Rightarrow> u32 \<Rightarrow> bool \<Rightarrow> ol_txrx_pdev_t \<Rightarrow> ol_txrx_pdev_t option" where
  "ol_tx_txq_group_credit_update txq credit absolute P =
     for_each [0..<OL_TX_MAX_GROUPS_PER_QUEUE] (\<lambda>i P. do {
       g \<leftarrow> rd (group_ptrs txq) i;
       (case g of None \<Rightarrow> Some P
        | Some g \<Rightarrow> do {
            grp \<leftarrow> rd (txq_grps P) g;
            gs \<leftarrow> wr (txq_grps P) g (ol_txrx_update_group_credit grp credit absolute);
            Some (P\<lparr>txq_grps := gs\<rparr>) }) }) P"

definition OL_TXQ_GROUP_VDEV_ID_MASK_GET :: "u32 \<Rightarrow> u32" where
  "OL_TXQ_GROUP_VDEV_ID_MASK_GET m = drop_bit 16 (m AND 0xffff0000)"

definition OL_TXQ_GROUP_AC_MASK_GET :: "u32 \<Rightarrow> u32" where
  "OL_TXQ_GROUP_AC_MASK_GET m = m AND 0x0000ffff"

text \<open>The macros \<^verbatim>\<open>OL_TXQ_GROUP_VDEV_ID_BIT_MASK_GET\<close> and \<^verbatim>\<open>OL_TXQ_GROUP_AC_BIT_MASK_GET\<close>: one bit of a mask.\<close>

definition group_bit_get :: "u32 \<Rightarrow> nat \<Rightarrow> u32" where
  "group_bit_get m i = drop_bit i m AND 1"

definition OL_TXQ_GROUP_MEMBERSHIP_GET :: "u32 \<Rightarrow> u32 \<Rightarrow> u32" where
  "OL_TXQ_GROUP_MEMBERSHIP_GET vdev_mask ac_mask = push_bit 16 vdev_mask OR ac_mask"

definition ol_tx_vdev_has_tx_queue_group :: "ol_tx_queue_group_t \<Rightarrow> u8 \<Rightarrow> bool" where
  "ol_tx_vdev_has_tx_queue_group grp vdev =
     (group_bit_get (OL_TXQ_GROUP_VDEV_ID_MASK_GET (membership grp)) (unat vdev) \<noteq> 0)"

definition ol_tx_ac_has_tx_queue_group :: "ol_tx_queue_group_t \<Rightarrow> nat \<Rightarrow> bool" where
  "ol_tx_ac_has_tx_queue_group grp ac =
     (group_bit_get (OL_TXQ_GROUP_AC_MASK_GET (membership grp)) ac \<noteq> 0)"

text \<open>\<^verbatim>\<open>TXRX_TID_TO_WMM_AC\<close> (ol_txrx_types.h), with the numbers of \<^verbatim>\<open>enum\<close> \<open>BE, BK, VI, VO\<close>.\<close>

definition TXRX_TID_TO_WMM_AC :: "nat \<Rightarrow> nat" where
  "TXRX_TID_TO_WMM_AC tid =
     (if drop_bit 1 tid = 3 then 3
      else if drop_bit 1 tid = 2 then 2
      else if ((tid XOR drop_bit 1 tid) AND 1) \<noteq> 0 then 1
      else 0)"

definition ol_tx_txq_set_group_ptr :: "ol_tx_frms_queue_t \<Rightarrow> nat option \<Rightarrow> ol_tx_frms_queue_t option" where
  "ol_tx_txq_set_group_ptr txq grp_ptr =
     for_each [0..<OL_TX_MAX_GROUPS_PER_QUEUE] (\<lambda>i txq. do {
       gs \<leftarrow> wr (group_ptrs txq) i grp_ptr;
       Some (txq\<lparr>group_ptrs := gs\<rparr>) }) txq"

text \<open>Setting the pointers of one queue of the device.\<close>

definition set_txq_group_ptr :: "nat option \<Rightarrow> txq_ref \<Rightarrow> ol_txrx_pdev_t \<Rightarrow> ol_txrx_pdev_t option" where
  "set_txq_group_ptr grp_ptr r P = do {
     txq \<leftarrow> ol_tx_txq_set_group_ptr (tx_queues P r) grp_ptr;
     Some (upd_txq r (\<lambda>_. txq) P) }"

definition peer_txqs :: "nat \<Rightarrow> txq_ref list" where
  "peer_txqs peer = map (PeerTxq peer) [0..<OL_TX_NUM_TIDS]"

definition vdev_txqs :: "u8 \<Rightarrow> txq_ref list" where
  "vdev_txqs vdev = map (VdevTxq vdev) [0..<OL_TX_VDEV_NUM_QUEUES]"

definition ol_tx_set_vdev_group_ptr :: "u8 \<Rightarrow> nat option \<Rightarrow> ol_txrx_pdev_t \<Rightarrow> ol_txrx_pdev_t option" where
  "ol_tx_set_vdev_group_ptr vdev grp_ptr P =
     (case find (\<lambda>v. vdev_id v = vdev) (vdev_list P) of
        None \<Rightarrow> Some P
      | Some v \<Rightarrow> do {
          P \<leftarrow> for_each (vdev_txqs vdev) (set_txq_group_ptr grp_ptr) P;
          for_each (peer_list v) (\<lambda>peer. for_each (peer_txqs peer) (set_txq_group_ptr grp_ptr)) P })"

text \<open>
  \<^verbatim>\<open>ol_tx_set_peer_group_ptr\<close>: the groups that have the queue's virtual device (and access category) as member
  are entered from the first on, until the queue's pointers are used up.
\<close>

fun set_peer_group_loop :: "u8 \<Rightarrow> nat \<Rightarrow> txq_ref \<Rightarrow> nat list \<Rightarrow> nat \<Rightarrow> ol_txrx_pdev_t \<Rightarrow> ol_txrx_pdev_t option" where
  "set_peer_group_loop vdev tid r [] j P = Some P"
| "set_peer_group_loop vdev tid r (i # is) j P = do {
     grp \<leftarrow> rd (txq_grps P) i;
     let member = ol_tx_vdev_has_tx_queue_group grp vdev
                  \<and> (tid < OL_TX_NUM_QOS_TIDS \<longrightarrow> ol_tx_ac_has_tx_queue_group grp (TXRX_TID_TO_WMM_AC tid));
     (P, j) \<leftarrow> (if member then do {
                   gs \<leftarrow> wr (group_ptrs (tx_queues P r)) j (Some i);
                   Some (upd_txq r (\<lambda>txq. txq\<lparr>group_ptrs := gs\<rparr>) P, Suc j) }
                 else Some (P, j));
     if j \<ge> OL_TX_MAX_GROUPS_PER_QUEUE then Some P else set_peer_group_loop vdev tid r is j P }"

definition ol_tx_set_peer_group_ptr :: "nat \<Rightarrow> u8 \<Rightarrow> nat \<Rightarrow> ol_txrx_pdev_t \<Rightarrow> ol_txrx_pdev_t option" where
  "ol_tx_set_peer_group_ptr peer vdev tid P = do {
     P \<leftarrow> set_txq_group_ptr None (PeerTxq peer tid) P;
     set_peer_group_loop vdev tid (PeerTxq peer tid) [0..<OL_TX_MAX_TXQ_GROUPS] 0 P }"

text \<open>\<^verbatim>\<open>ol_txrx_update_tx_queue_groups\<close> of ol_txrx.c.\<close>

definition ol_txrx_update_tx_queue_groups :: "nat \<Rightarrow> u32 \<Rightarrow> bool \<Rightarrow> u32 \<Rightarrow> u32 \<Rightarrow> ol_txrx_pdev_t \<Rightarrow> ol_txrx_pdev_t option" where
  "ol_txrx_update_tx_queue_groups group_id credit absolute vdev_id_mask ac_mask P = do {
     grp \<leftarrow> rd (txq_grps P) group_id;
     let mem = OL_TXQ_GROUP_MEMBERSHIP_GET vdev_id_mask ac_mask;
     P \<leftarrow> (if membership grp = mem then Some P
           else do {
             let group_vdev_id_mask = OL_TXQ_GROUP_VDEV_ID_MASK_GET (membership grp);
             P \<leftarrow> for_each (vdev_list P) (\<lambda>vdev P.
               let group_vdev_bit_mask = group_bit_get group_vdev_id_mask (unat (vdev_id vdev));
                   vdev_bit_mask = group_bit_get vdev_id_mask (unat (vdev_id vdev))
               in if group_vdev_bit_mask \<noteq> vdev_bit_mask
                  then ol_tx_set_vdev_group_ptr (vdev_id vdev)
                         (if vdev_bit_mask = 0 then None else Some group_id) P
                  else Some P) P;
             Some (P\<lparr>txq_grps := (txq_grps P)[group_id := grp\<lparr>membership := mem\<rparr>]\<rparr>) });
     grp \<leftarrow> rd (txq_grps P) group_id;
     gs \<leftarrow> wr (txq_grps P) group_id (ol_txrx_update_group_credit grp credit absolute);
     Some (P\<lparr>txq_grps := gs\<rparr>) }"

section \<open>What dequeueing does\<close>

text \<open>The frames leave in order, each for one credit; the loop stays in the queue when it has the frames it counts.\<close>

lemma dequeue_loop_takes:
  assumes "n \<le> length q" and "unat credit_sum \<le> unat credit" and "unat credit_sum + n < 2 ^ 32"
  shows "dequeue_loop n credit credit_sum bytes_sum q =
    (let k = min n (unat credit - unat credit_sum) in
     Some (take k q, drop k q, credit_sum + of_nat k, bytes_sum + sum_list (map netbuf_len (take k q))))"
  using assms
proof (induction n credit credit_sum bytes_sum q rule: dequeue_loop.induct)
  case (3 n credit credit_sum bytes_sum d q)
  have inc: "unat (credit_sum + 1) = Suc (unat credit_sum)"
    using "3.prems"(3) by (intro unat_inc) simp
  have stop: "credit_sum + 1 > credit \<longleftrightarrow> unat credit_sum = unat credit"
    using "3.prems"(2) inc by (auto simp add: word_less_nat_alt less_Suc_eq del: unat_inject)
  show ?case
  proof (cases "unat credit_sum = unat credit")
    case True
    then show ?thesis using stop by (simp add: htt_tx_msdu_credit_def)
  next
    case False
    with "3.prems" inc have le: "unat (credit_sum + 1) \<le> unat credit" by linarith
    from False stop have go: "\<not> credit_sum + 1 > credit" by blast
    define k where "k = min n (unat credit - unat (credit_sum + 1))"
    have ih: "dequeue_loop n credit (credit_sum + 1) (bytes_sum + netbuf_len d) q =
      Some (take k q, drop k q, credit_sum + 1 + of_nat k, bytes_sum + netbuf_len d + sum_list (map netbuf_len (take k q)))"
      using "3.IH" [of 1] "3.prems" go le inc by (simp add: htt_tx_msdu_credit_def k_def Let_def)
    have k: "min (Suc n) (unat credit - unat credit_sum) = Suc k" using le inc by (auto simp: k_def)
    from ih go k show ?thesis by (simp add: htt_tx_msdu_credit_def add.assoc)
  qed
qed simp_all

end
