(* ===== verification/Tx_Sched.thy ===== *)
theory Tx_Sched
  imports Tx_Queue
begin

text \<open>
  The weighted round-robin scheduler of the high-latency transmit path (CLD_TXRX/TXRX/ol_tx_sched.c with
  \<^verbatim>\<open>OL_TX_SCHED\<close> = \<^verbatim>\<open>OL_TX_SCHED_WRR_ADV\<close>) and the queue operations that call it (the rest of
  CLD_TXRX/TXRX/ol_tx_queue.c). The spin locks protect every operation from the others, so that an execution is
  a sequence of operations.
\<close>

section \<open>Categories\<close>

definition OL_TX_SCHED_WRR_ADV_NUM_CATEGORIES :: nat where
  "OL_TX_SCHED_WRR_ADV_NUM_CATEGORIES = 8"

text \<open>
  The specifications of the categories for \<^verbatim>\<open>HIF_SDIO\<close> with \<^verbatim>\<open>MSM8976_TCP_PERF\<close>, in the order of the
  enumeration: BE, BK, VI, VO, NON_QOS_DATA, UCAST_MGMT, MCAST_DATA, MCAST_MGMT.
\<close>

definition wrr_adv_cfg_specs :: "wrr_adv_specs list" where
  "wrr_adv_cfg_specs =
    [\<lparr>wrr_skip_weight = 10, credit_threshold = 9, send_limit = 8, credit_reserve = 1, discard_weight = 8\<rparr>,
     \<lparr>wrr_skip_weight = 12, credit_threshold = 6, send_limit = 6, credit_reserve = 1, discard_weight = 8\<rparr>,
     \<lparr>wrr_skip_weight = 3, credit_threshold = 17, send_limit = 16, credit_reserve = 1, discard_weight = 4\<rparr>,
     \<lparr>wrr_skip_weight = 1, credit_threshold = 17, send_limit = 24, credit_reserve = 0, discard_weight = 1\<rparr>,
     \<lparr>wrr_skip_weight = 12, credit_threshold = 6, send_limit = 4, credit_reserve = 1, discard_weight = 8\<rparr>,
     \<lparr>wrr_skip_weight = 1, credit_threshold = 1, send_limit = 4, credit_reserve = 0, discard_weight = 1\<rparr>,
     \<lparr>wrr_skip_weight = 10, credit_threshold = 17, send_limit = 4, credit_reserve = 1, discard_weight = 4\<rparr>,
     \<lparr>wrr_skip_weight = 1, credit_threshold = 1, send_limit = 4, credit_reserve = 0, discard_weight = 1\<rparr>]"

definition ol_tx_sched_init_wrr_adv :: "bool \<Rightarrow> ol_tx_sched_wrr_adv_t option" where
  "ol_tx_sched_init_wrr_adv mem =
     (if mem then
        Some \<lparr>order = [0..<OL_TX_SCHED_WRR_ADV_NUM_CATEGORIES], index = 0,
              categories = map (\<lambda>sp. \<lparr>specs = sp, wrr_count = wrr_skip_weight sp - 1, c_frms = 0, c_bytes = 0,
                                     c_head = [], c_active = False\<rparr>) wrr_adv_cfg_specs\<rparr>
      else None)"

definition ol_tx_sched_attach :: "bool \<Rightarrow> ol_txrx_pdev_t \<Rightarrow> ol_txrx_pdev_t" where
  "ol_tx_sched_attach mem P =
     P\<lparr>tx_sched_status := ol_tx_scheduler_idle, scheduler := ol_tx_sched_init_wrr_adv mem\<rparr>"

definition ol_tx_sched_detach :: "ol_txrx_pdev_t \<Rightarrow> ol_txrx_pdev_t" where
  "ol_tx_sched_detach P = P\<lparr>scheduler := None\<rparr>"

definition upd_category :: "nat \<Rightarrow> (ol_tx_sched_wrr_adv_category_info_t \<Rightarrow> ol_tx_sched_wrr_adv_category_info_t)
    \<Rightarrow> ol_tx_sched_wrr_adv_t \<Rightarrow> ol_tx_sched_wrr_adv_t" where
  "upd_category c f S = S\<lparr>categories := (categories S)[c := f (categories S ! c)]\<rparr>"

text \<open>The access parameters of an association choose, for each of the four access categories, one of the default specifications.\<close>

definition default_edca :: "nat list" where
  "default_edca = [3 + 15, 7 + 15, 2 + 7, 2 + 3]"

definition wmm_ac_selected :: "u32 \<Rightarrow> nat" where
  "wmm_ac_selected weight =
     (if of_nat (default_edca ! 3) \<ge> weight then 3
      else if of_nat (default_edca ! 2) \<ge> weight then 2
      else if of_nat (default_edca ! 0) \<ge> weight then 0
      else 1)"

definition ol_txrx_set_wmm_param :: "(u32 \<times> u32) list \<Rightarrow> ol_txrx_pdev_t \<Rightarrow> ol_txrx_pdev_t option" where
  "ol_txrx_set_wmm_param ac P = do {
     S \<leftarrow> scheduler P;
     S \<leftarrow> for_each [0..<4] (\<lambda>i S. do {
       (aifs, cwmin) \<leftarrow> rd ac i;
       _ \<leftarrow> rd (categories S) i;
       Some (upd_category i (\<lambda>c. c\<lparr>specs := wrr_adv_cfg_specs ! wmm_ac_selected (aifs + cwmin)\<rparr>) S) }) S;
     Some (P\<lparr>scheduler := Some S\<rparr>) }"

section \<open>Selecting the next frames\<close>

definition ol_tx_sched_select_init_wrr_adv :: "ol_txrx_pdev_t \<Rightarrow> ol_txrx_pdev_t option" where
  "ol_tx_sched_select_init_wrr_adv P = do {
     S \<leftarrow> scheduler P;
     Some (P\<lparr>scheduler := Some (S\<lparr>index := 0\<rparr>), last_used_txq := None\<rparr>) }"

text \<open>
  \<^verbatim>\<open>ol_tx_sched_wrr_adv_rotate_order_list_tail\<close>: the elements behind position \<open>idx\<close> move up, one after the
  other, and the element itself goes to the end.
\<close>

fun rotate_loop :: "nat \<Rightarrow> nat \<Rightarrow> nat list \<Rightarrow> nat list option" where
  "rotate_loop n idx xs =
     (if n = 0 then Some xs
      else do { x \<leftarrow> rd xs (idx + 1); xs \<leftarrow> wr xs idx x; rotate_loop (n - 1) (idx + 1) xs })"

definition ol_tx_sched_wrr_adv_rotate_order_list_tail :: "nat \<Rightarrow> ol_tx_sched_wrr_adv_t \<Rightarrow> ol_tx_sched_wrr_adv_t option" where
  "ol_tx_sched_wrr_adv_rotate_order_list_tail idx S = do {
     v \<leftarrow> rd (order S) idx;
     xs \<leftarrow> rotate_loop (OL_TX_SCHED_WRR_ADV_NUM_CATEGORIES - 1 - idx) idx (order S);
     xs \<leftarrow> wr xs (max idx (OL_TX_SCHED_WRR_ADV_NUM_CATEGORIES - 1)) v;
     Some (S\<lparr>order := xs\<rparr>) }"

text \<open>The rounds a category must still be passed over, summed up: the loop below lowers it with each rotation.\<close>

definition skips_left :: "ol_tx_sched_wrr_adv_category_info_t \<Rightarrow> nat" where
  "skips_left c = nat (wrr_skip_weight (specs c) - wrr_count c)"

definition total_skips :: "ol_tx_sched_wrr_adv_t \<Rightarrow> nat" where
  "total_skips S = sum_list (map skips_left (categories S))"

lemma total_skips_dec:
  assumes "c < length (categories S)" and "wrr_count (categories S ! c) + 1 < wrr_skip_weight (specs (categories S ! c))"
  shows "total_skips (upd_category c (\<lambda>c. c\<lparr>wrr_count := wrr_count c + 1\<rparr>) S) < total_skips S"
proof -
  let ?c = "categories S ! c"
  have split: "sum_list (map skips_left ((categories S)[c := x])) + skips_left ?c
      = total_skips S + skips_left x" for x
  proof -
    have "sum_list (map skips_left ((categories S)[c := x])) + (map skips_left (categories S)) ! c
        = sum_list (map skips_left (categories S)) + skips_left x"
      using assms(1) member_le_sum_list [of "map skips_left (categories S) ! c" "map skips_left (categories S)"]
      by (simp add: map_update sum_list_update)
    then show ?thesis using assms(1) by (simp add: total_skips_def)
  qed
  have "skips_left (?c\<lparr>wrr_count := wrr_count ?c + 1\<rparr>) < skips_left ?c"
    using assms(2) by (simp add: skips_left_def)
  with split [of "?c\<lparr>wrr_count := wrr_count ?c + 1\<rparr>"] show ?thesis
    by (simp add: total_skips_def upd_category_def)
qed

lemma rotate_categories:
  "ol_tx_sched_wrr_adv_rotate_order_list_tail idx S = Some S' \<Longrightarrow> categories S' = categories S \<and> index S' = index S"
  by (auto simp: ol_tx_sched_wrr_adv_rotate_order_list_tail_def bind_eq_Some_conv)

text \<open>
  The loop that chooses the category: the position in the order list where an active category has its turn, or
  the number of categories.
\<close>

function select_loop :: "nat \<Rightarrow> ol_tx_sched_wrr_adv_t \<Rightarrow> (nat \<times> ol_tx_sched_wrr_adv_t) option" where
  "select_loop i S =
     (if i < OL_TX_SCHED_WRR_ADV_NUM_CATEGORIES then do {
        c \<leftarrow> rd (order S) i;
        category \<leftarrow> rd (categories S) c;
        if \<not> c_active category then select_loop (i + 1) S
        else do {
          let S1 = upd_category c (\<lambda>c. c\<lparr>wrr_count := wrr_count c + 1\<rparr>) S;
          if wrr_count category + 1 < wrr_skip_weight (specs category) then do {
            S2 \<leftarrow> ol_tx_sched_wrr_adv_rotate_order_list_tail i S1;
            select_loop i S2 }
          else Some (i, S1) } }
      else Some (i, S))"
  by pat_completeness auto
termination
proof (relation "measures [\<lambda>(i, S). total_skips S, \<lambda>(i, S). OL_TX_SCHED_WRR_ADV_NUM_CATEGORIES - i]", goal_cases)
  case 1
  then show ?case by simp
next
  case (2 i S c category)
  then show ?case by simp
next
  case (3 i S c category S1 S2)
  then have "total_skips S2 = total_skips S1"
    using rotate_categories [of i S1 S2] by (simp add: total_skips_def)
  moreover have "total_skips S1 < total_skips S"
    using 3 total_skips_dec [of c S] by (auto dest: rd_SomeD)
  ultimately show ?case by simp
qed

declare select_loop.simps [simp del]

text \<open>
  Serving a category: the first of its queues gives frames, as many as the credits left of the reserve and the
  limit of the category allow. The result has the frames that \<^verbatim>\<open>sctx\<close> receives and the credits used.
\<close>

definition serve_category :: "nat \<Rightarrow> u32 \<Rightarrow> ol_txrx_pdev_t \<Rightarrow> (ol_txrx_pdev_t \<times> ol_tx_desc_t list \<times> u32) option" where
  "serve_category c credit P = do {
     S \<leftarrow> scheduler P;
     category \<leftarrow> rd (categories S) c;
     (case c_head category of
        [] \<Rightarrow> Some (P, [], 0)
      | txq # rest \<Rightarrow> do {
          let q = tx_queues P txq;
          credit \<leftarrow> ol_tx_txq_group_credit_limit P q credit;
          let reserve = word_of_int (credit_reserve (specs category));
          if credit > reserve then do {
            (q', out, frames, used, bytes) \<leftarrow> ol_tx_dequeue q (send_limit (specs category)) (credit - reserve);
            let frms = c_frms category - uint frames;
            let category' = category\<lparr>c_frms := frms, c_bytes := c_bytes category - bytes,
                  c_head := (if q_frms q' > 0 then rest @ [txq] else rest),
                  c_active := (if q_frms q' > 0 then c_active category
                               else if frms = 0 then False else c_active category)\<rparr>;
            P \<leftarrow> ol_tx_txq_group_credit_update q' (- used) False
                  (upd_txq txq (\<lambda>_. q') (P\<lparr>scheduler := Some (upd_category c (\<lambda>_. category') S),
                                            last_used_txq := Some txq\<rparr>));
            Some (P, out, used) }
          else if last_used_txq P = Some txq then Some (P, [], 0)
          else Some (P\<lparr>scheduler := Some (upd_category c (\<lambda>c. c\<lparr>c_head := rest @ [txq]\<rparr>) S),
                        last_used_txq := (if last_used_txq P = None then Some txq else last_used_txq P)\<rparr>, [], 0) }) }"

definition ol_tx_sched_select_batch_wrr_adv :: "u32 \<Rightarrow> ol_txrx_pdev_t
    \<Rightarrow> (ol_txrx_pdev_t \<times> ol_tx_desc_t list \<times> u32) option" where
  "ol_tx_sched_select_batch_wrr_adv credit P = do {
     S \<leftarrow> scheduler P;
     (i, S) \<leftarrow> select_loop (index S) S;
     if i \<ge> OL_TX_SCHED_WRR_ADV_NUM_CATEGORIES then Some (P\<lparr>scheduler := Some S\<rparr>, [], 0)
     else do {
       c \<leftarrow> rd (order S) i;
       category \<leftarrow> rd (categories S) c;
       if credit < credit_threshold (specs category)
       then Some (P\<lparr>scheduler := Some (upd_category c (\<lambda>c. c\<lparr>wrr_count := wrr_count c - 1\<rparr>) S)\<rparr>, [], 0)
       else do {
         S \<leftarrow> ol_tx_sched_wrr_adv_rotate_order_list_tail i (upd_category c (\<lambda>c. c\<lparr>wrr_count := 0\<rparr>) S);
         serve_category c credit (P\<lparr>scheduler := Some (S\<lparr>index := i\<rparr>)\<rparr>) } } }"

section \<open>Notifications\<close>

definition ol_tx_sched_txq_enqueue_wrr_adv :: "txq_ref \<Rightarrow> nat \<Rightarrow> int \<Rightarrow> u32 \<Rightarrow> ol_txrx_pdev_t \<Rightarrow> ol_txrx_pdev_t option" where
  "ol_tx_sched_txq_enqueue_wrr_adv txq tid frms bytes P = do {
     S \<leftarrow> scheduler P;
     c \<leftarrow> rd (tid_to_ac P) tid;
     _ \<leftarrow> rd (categories S) c;
     Some (P\<lparr>scheduler := Some (upd_category c (\<lambda>c.
       let c = c\<lparr>c_frms := c_frms c + frms, c_bytes := c_bytes c + bytes\<rparr>
       in if q_flag (tx_queues P txq) \<noteq> ol_tx_queue_active
          then c\<lparr>c_head := c_head c @ [txq], c_active := True\<rparr> else c) S)\<rparr>) }"

definition ol_tx_sched_txq_deactivate_wrr_adv :: "txq_ref \<Rightarrow> nat \<Rightarrow> ol_txrx_pdev_t \<Rightarrow> ol_txrx_pdev_t option" where
  "ol_tx_sched_txq_deactivate_wrr_adv txq tid P = do {
     S \<leftarrow> scheduler P;
     c \<leftarrow> rd (tid_to_ac P) tid;
     category \<leftarrow> rd (categories S) c;
     let frms = c_frms category - uint (q_frms (tx_queues P txq));
     hd' \<leftarrow> tailq_remove txq (c_head category);
     Some (P\<lparr>scheduler := Some (upd_category c (\<lambda>_. category\<lparr>c_frms := frms,
              c_bytes := c_bytes category - q_bytes (tx_queues P txq), c_head := hd',
              c_active := (if frms = 0 \<and> c_active category then False else c_active category)\<rparr>) S)\<rparr>) }"

definition ol_tx_sched_txq_discard_wrr_adv :: "txq_ref \<Rightarrow> nat \<Rightarrow> int \<Rightarrow> u32 \<Rightarrow> ol_txrx_pdev_t \<Rightarrow> ol_txrx_pdev_t option" where
  "ol_tx_sched_txq_discard_wrr_adv txq cat frames bytes P = do {
     S \<leftarrow> scheduler P;
     category \<leftarrow> rd (categories S) cat;
     hd' \<leftarrow> (if q_frms (tx_queues P txq) = 0 then tailq_remove txq (c_head category) else Some (c_head category));
     let frms = c_frms category - frames;
     Some (P\<lparr>scheduler := Some (upd_category cat (\<lambda>_. category\<lparr>c_frms := frms,
              c_bytes := c_bytes category - bytes, c_head := hd',
              c_active := (if frms = 0 then False else c_active category)\<rparr>) S)\<rparr>) }"

datatype ol_tx_queue_action =
    OL_TX_ENQUEUE_FRAME nat u32 \<comment> \<open>the extended TID and the bytes\<close>
  | OL_TX_DELETE_QUEUE nat
  | OL_TX_PAUSE_QUEUE nat
  | OL_TX_UNPAUSE_QUEUE nat
  | OL_TX_DISCARD_FRAMES nat int u32 \<comment> \<open>the category, the frames and the bytes\<close>

fun ol_tx_sched_notify :: "txq_ref \<Rightarrow> ol_tx_queue_action \<Rightarrow> ol_txrx_pdev_t \<Rightarrow> ol_txrx_pdev_t option" where
  "ol_tx_sched_notify txq event P =
     (if scheduler P = None then Some P
      else case event of
        OL_TX_ENQUEUE_FRAME tid bytes \<Rightarrow> ol_tx_sched_txq_enqueue_wrr_adv txq tid 1 bytes P
      | OL_TX_DELETE_QUEUE tid \<Rightarrow>
          (if q_flag (tx_queues P txq) = ol_tx_queue_active then ol_tx_sched_txq_deactivate_wrr_adv txq tid P
           else Some P)
      | OL_TX_PAUSE_QUEUE tid \<Rightarrow>
          (if q_flag (tx_queues P txq) = ol_tx_queue_active then ol_tx_sched_txq_deactivate_wrr_adv txq tid P
           else Some P)
      | OL_TX_UNPAUSE_QUEUE tid \<Rightarrow>
          (if q_frms (tx_queues P txq) \<noteq> 0
           then ol_tx_sched_txq_enqueue_wrr_adv txq tid (uint (q_frms (tx_queues P txq))) (q_bytes (tx_queues P txq)) P
           else Some P)
      | OL_TX_DISCARD_FRAMES cat frames bytes \<Rightarrow> ol_tx_sched_txq_discard_wrr_adv txq cat frames bytes P)"

declare ol_tx_sched_notify.simps [simp del]

section \<open>Discarding frames\<close>

fun discard_category_loop :: "ol_tx_sched_wrr_adv_category_info_t list \<Rightarrow> nat \<Rightarrow> nat \<Rightarrow> int \<Rightarrow> nat" where
  "discard_category_loop [] i cat max_score = cat"
| "discard_category_loop (c # cs) i cat max_score =
     (let score = c_frms c * discard_weight (specs c) in
      if max_score = 0 \<or> score > max_score then discard_category_loop cs (Suc i) i score
      else discard_category_loop cs (Suc i) cat max_score)"

definition ol_tx_sched_discard_select_category_wrr_adv :: "ol_tx_sched_wrr_adv_t \<Rightarrow> nat" where
  "ol_tx_sched_discard_select_category_wrr_adv S = discard_category_loop (categories S) 0 0 0"

fun discard_txq_loop :: "(txq_ref \<Rightarrow> ol_tx_frms_queue_t) \<Rightarrow> txq_ref list \<Rightarrow> int \<Rightarrow> txq_ref option \<Rightarrow> txq_ref option" where
  "discard_txq_loop qs [] max_frms selected = selected"
| "discard_txq_loop qs (txq # txqs) max_frms selected =
     (if uint (q_frms (qs txq)) > max_frms then discard_txq_loop qs txqs (uint (q_frms (qs txq))) (Some txq)
      else discard_txq_loop qs txqs max_frms selected)"

definition ol_tx_sched_discard_select_txq :: "ol_txrx_pdev_t \<Rightarrow> txq_ref list \<Rightarrow> txq_ref option" where
  "ol_tx_sched_discard_select_txq P tx_queue_list = discard_txq_loop (tx_queues P) tx_queue_list 0 None"

definition OL_TX_DISCARD_QUANTUM :: u16 where
  "OL_TX_DISCARD_QUANTUM = 10"

text \<open>The number of frames to discard from a queue.\<close>

definition discard_frms :: "bool \<Rightarrow> u16 \<Rightarrow> u16 \<Rightarrow> u16" where
  "discard_frms force frms q =
     (if force then frms
      else let frms = (if OL_TX_DISCARD_QUANTUM < frms then OL_TX_DISCARD_QUANTUM else frms)
           in if q > 1 \<and> frms \<ge> drop_bit 1 q then drop_bit 1 q else frms)"

definition ol_tx_sched_discard_select :: "u16 \<Rightarrow> bool \<Rightarrow> ol_txrx_pdev_t
    \<Rightarrow> (ol_txrx_pdev_t \<times> ol_tx_desc_t list \<times> u16) option" where
  "ol_tx_sched_discard_select frms force P = do {
     S \<leftarrow> scheduler P;
     let cat = ol_tx_sched_discard_select_category_wrr_adv S;
     category \<leftarrow> rd (categories S) cat;
     (case ol_tx_sched_discard_select_txq P (c_head category) of
        None \<Rightarrow> Some (P, [], 0)
      | Some txq \<Rightarrow> do {
          let frms = discard_frms force frms (q_frms (tx_queues P txq));
          (q', out, frms, credit, bytes) \<leftarrow> ol_tx_dequeue (tx_queues P txq) frms 10000;
          P \<leftarrow> ol_tx_sched_notify txq (OL_TX_DISCARD_FRAMES cat (uint frms) bytes) (upd_txq txq (\<lambda>_. q') P);
          Some (P, out, frms) }) }"

end
