(* ===== verification/Tx_Desc.thy ===== *)
theory Tx_Desc
  imports Tx_Queue
begin

text \<open>
  The pool of transmit descriptors (CLD_TXRX/TXRX/ol_tx_desc.c): a free list threaded through the array of
  descriptors. The configuration is that of the queues; \<^verbatim>\<open>QCA_SUPPORT_TXDESC_SANITY_CHECKS\<close> and
  \<^verbatim>\<open>QCA_COMPUTE_TX_DELAY\<close> are not defined.
\<close>

section \<open>The free list\<close>

text \<open>The free list that \<^verbatim>\<open>ol_txrx_pdev_attach\<close> makes of all descriptors.\<close>

definition tx_desc_init :: "ol_txrx_pdev_t \<Rightarrow> ol_txrx_pdev_t" where
  "tx_desc_init P = P\<lparr>num_free := desc_pool_size P, freelist := Some 0,
     desc_next := (\<lambda>i. if uint i < uint (desc_pool_size P) - 1 then Some (i + 1)
                        else if uint i = uint (desc_pool_size P) - 1 then None else desc_next P i)\<rparr>"

definition ol_tx_desc_alloc :: "u8 \<Rightarrow> ol_txrx_pdev_t \<Rightarrow> ol_txrx_pdev_t \<times> u16 option" where
  "ol_tx_desc_alloc vdev P =
     (case freelist P of
        None \<Rightarrow> (P, None)
      | Some i \<Rightarrow> (P\<lparr>num_free := num_free P - 1, freelist := desc_next P i,
                    desc_owner := (desc_owner P)(i := Some vdev)\<rparr>, Some i))"

definition ol_tx_desc_alloc_hl :: "u8 \<Rightarrow> ol_txrx_pdev_t \<Rightarrow> ol_txrx_pdev_t \<times> u16 option" where
  "ol_tx_desc_alloc_hl vdev P =
     (case ol_tx_desc_alloc vdev P of
        (P, None) \<Rightarrow> (P, None)
      | (P, Some i) \<Rightarrow> (P\<lparr>rsrc_cnt := rsrc_cnt P - 1\<rparr>, Some i))"

definition ol_tx_frm_std :: u8 where
  "ol_tx_frm_std = 0"

text \<open>A descriptor for a frame of the given length.\<close>

definition ol_tx_desc_hl :: "u8 \<Rightarrow> u32 \<Rightarrow> ol_txrx_pdev_t \<Rightarrow> ol_txrx_pdev_t \<times> ol_tx_desc_t option" where
  "ol_tx_desc_hl vdev len P =
     (case ol_tx_desc_alloc_hl vdev P of
        (P, None) \<Rightarrow> (P, None)
      | (P, Some i) \<Rightarrow>
          let d = \<lparr>desc_id = i, netbuf_len = len, desc_vdev = vdev, pkt_type = ol_tx_frm_std\<rparr>
          in (P\<lparr>desc_mem := (desc_mem P)(i := d)\<rparr>, Some d))"

definition ol_tx_desc_find :: "u16 \<Rightarrow> ol_txrx_pdev_t \<Rightarrow> ol_tx_desc_t option" where
  "ol_tx_desc_find i P = (if i < desc_pool_size P then Some (desc_mem P i) else None)"

definition ol_tx_desc_free :: "u16 \<Rightarrow> ol_txrx_pdev_t \<Rightarrow> ol_txrx_pdev_t" where
  "ol_tx_desc_free i P = P\<lparr>desc_next := (desc_next P)(i := freelist P), freelist := Some i,
     num_free := num_free P + 1, desc_owner := (desc_owner P)(i := None)\<rparr>"

section \<open>Giving frames back\<close>

definition clear_ref :: "u16 \<Rightarrow> ol_txrx_pdev_t \<Rightarrow> ol_txrx_pdev_t" where
  "clear_ref i P = P\<lparr>desc_ref := (desc_ref P)(i := 0)\<rparr>"

text \<open>
  The type of the frame decides whether its buffer is freed or goes to a callback; in each case the driver gives it
  up together with the error flag, and the descriptor returns to the pool.
\<close>

definition ol_tx_desc_frame_free_nonstd :: "bool \<Rightarrow> ol_tx_desc_t \<Rightarrow> ol_txrx_pdev_t \<Rightarrow> ol_txrx_pdev_t" where
  "ol_tx_desc_frame_free_nonstd had_error d P =
     (let P = clear_ref (desc_id d) P;
          P = P\<lparr>freed := freed P @ [(d, had_error)]\<rparr>
      in ol_tx_desc_free (desc_id d) P)"

text \<open>The descriptors are freed one after the other, the buffers then together, the last first.\<close>

definition ol_tx_desc_frame_list_free :: "bool \<Rightarrow> ol_tx_desc_t list \<Rightarrow> ol_txrx_pdev_t \<Rightarrow> ol_txrx_pdev_t" where
  "ol_tx_desc_frame_list_free had_error ds P =
     (let P = fold (\<lambda>d P. ol_tx_desc_free (desc_id d) (clear_ref (desc_id d) P)) ds P
      in P\<lparr>freed := freed P @ map (\<lambda>d. (d, had_error)) (rev ds)\<rparr>)"

section \<open>What freeing leaves alone\<close>

lemma ol_tx_desc_free_simps [simp]:
  "tx_queues (ol_tx_desc_free i P) = tx_queues P" "scheduler (ol_tx_desc_free i P) = scheduler P"
  "tid_to_ac (ol_tx_desc_free i P) = tid_to_ac P" "txq_grps (ol_tx_desc_free i P) = txq_grps P"
  "vdev_list (ol_tx_desc_free i P) = vdev_list P" "tx_sched_status (ol_tx_desc_free i P) = tx_sched_status P"
  "target_tx_credit (ol_tx_desc_free i P) = target_tx_credit P" "rsrc_cnt (ol_tx_desc_free i P) = rsrc_cnt P"
  "downloaded (ol_tx_desc_free i P) = downloaded P" "freed (ol_tx_desc_free i P) = freed P"
  "desc_ref (ol_tx_desc_free i P) = desc_ref P" "desc_mem (ol_tx_desc_free i P) = desc_mem P"
  "desc_pool_size (ol_tx_desc_free i P) = desc_pool_size P"
  by (simp_all add: ol_tx_desc_free_def)

lemma clear_ref_simps [simp]:
  "tx_queues (clear_ref i P) = tx_queues P" "scheduler (clear_ref i P) = scheduler P"
  "tid_to_ac (clear_ref i P) = tid_to_ac P" "txq_grps (clear_ref i P) = txq_grps P"
  "vdev_list (clear_ref i P) = vdev_list P" "tx_sched_status (clear_ref i P) = tx_sched_status P"
  "target_tx_credit (clear_ref i P) = target_tx_credit P" "rsrc_cnt (clear_ref i P) = rsrc_cnt P"
  "downloaded (clear_ref i P) = downloaded P" "freed (clear_ref i P) = freed P"
  "desc_mem (clear_ref i P) = desc_mem P" "desc_pool_size (clear_ref i P) = desc_pool_size P"
  by (simp_all add: clear_ref_def)

lemma frame_free_simps [simp]:
  "tx_queues (ol_tx_desc_frame_free_nonstd e d P) = tx_queues P"
  "scheduler (ol_tx_desc_frame_free_nonstd e d P) = scheduler P"
  "tid_to_ac (ol_tx_desc_frame_free_nonstd e d P) = tid_to_ac P"
  "txq_grps (ol_tx_desc_frame_free_nonstd e d P) = txq_grps P"
  "vdev_list (ol_tx_desc_frame_free_nonstd e d P) = vdev_list P"
  "tx_sched_status (ol_tx_desc_frame_free_nonstd e d P) = tx_sched_status P"
  "target_tx_credit (ol_tx_desc_frame_free_nonstd e d P) = target_tx_credit P"
  "rsrc_cnt (ol_tx_desc_frame_free_nonstd e d P) = rsrc_cnt P"
  "downloaded (ol_tx_desc_frame_free_nonstd e d P) = downloaded P"
  "freed (ol_tx_desc_frame_free_nonstd e d P) = freed P @ [(d, e)]"
  "desc_mem (ol_tx_desc_frame_free_nonstd e d P) = desc_mem P"
  "desc_pool_size (ol_tx_desc_frame_free_nonstd e d P) = desc_pool_size P"
  by (simp_all add: ol_tx_desc_frame_free_nonstd_def)

lemma free_list_frame:
  fixes ds P
  defines "P' \<equiv> fold (\<lambda>d P. ol_tx_desc_free (desc_id d) (clear_ref (desc_id d) P)) ds P"
  shows "tx_queues P' = tx_queues P \<and> scheduler P' = scheduler P \<and> tid_to_ac P' = tid_to_ac P \<and>
    txq_grps P' = txq_grps P \<and> vdev_list P' = vdev_list P \<and> tx_sched_status P' = tx_sched_status P \<and>
    downloaded P' = downloaded P \<and> target_tx_credit P' = target_tx_credit P \<and> rsrc_cnt P' = rsrc_cnt P \<and>
    freed P' = freed P \<and> desc_pool_size P' = desc_pool_size P \<and> desc_mem P' = desc_mem P"
  unfolding P'_def by (induction ds arbitrary: P) simp_all

lemma frame_list_free_simps [simp]:
  "tx_queues (ol_tx_desc_frame_list_free e ds P) = tx_queues P"
  "scheduler (ol_tx_desc_frame_list_free e ds P) = scheduler P"
  "tid_to_ac (ol_tx_desc_frame_list_free e ds P) = tid_to_ac P"
  "txq_grps (ol_tx_desc_frame_list_free e ds P) = txq_grps P"
  "vdev_list (ol_tx_desc_frame_list_free e ds P) = vdev_list P"
  "tx_sched_status (ol_tx_desc_frame_list_free e ds P) = tx_sched_status P"
  "downloaded (ol_tx_desc_frame_list_free e ds P) = downloaded P"
  "target_tx_credit (ol_tx_desc_frame_list_free e ds P) = target_tx_credit P"
  "rsrc_cnt (ol_tx_desc_frame_list_free e ds P) = rsrc_cnt P"
  "freed (ol_tx_desc_frame_list_free e ds P) = freed P @ map (\<lambda>d. (d, e)) (rev ds)"
  "desc_pool_size (ol_tx_desc_frame_list_free e ds P) = desc_pool_size P"
  "desc_mem (ol_tx_desc_frame_list_free e ds P) = desc_mem P"
  using free_list_frame [of ds P] by (simp_all add: ol_tx_desc_frame_list_free_def Let_def)

end
