(* ===== verification/Tx_Flow.thy ===== *)
theory Tx_Flow
  imports Tx_Sched Tx_Desc
begin

text \<open>
  The operations that drive the transmit scheduler: a scheduling run with the download of the chosen frames
  (CLD_TXRX/TXRX/ol_tx_sched.c, ol_tx_send.c and HTT/htt_tx.c), queueing, discarding and freeing frames, and
  pausing and unpausing queues (CLD_TXRX/TXRX/ol_tx_queue.c).

  What lies below the download is an argument: \<open>rejects d\<close> tells that \<^verbatim>\<open>htt_tx_send_base\<close> or
  \<^verbatim>\<open>htt_tx_send_std\<close> refuses the frame, \<open>no_id_storage d\<close> that its buffer has no room for the descriptor's
  number, so that it cannot be sent in a batch.
\<close>

record tx_env =
  rejects :: "ol_tx_desc_t \<Rightarrow> bool"
  no_id_storage :: "ol_tx_desc_t \<Rightarrow> bool"

section \<open>Download\<close>

text \<open>\<^verbatim>\<open>htt_tx_send_batch\<close> of htt_tx.c: the frames accepted and, last first, those rejected.\<close>

fun htt_tx_send_batch :: "tx_env \<Rightarrow> nat \<Rightarrow> ol_tx_desc_t list \<Rightarrow> ol_tx_desc_t list
    \<Rightarrow> (ol_tx_desc_t list \<times> ol_tx_desc_t list) option" where
  "htt_tx_send_batch H 0 msdus rejected = Some ([], rejected)"
| "htt_tx_send_batch H (Suc num_msdus) [] rejected = None"
| "htt_tx_send_batch H (Suc num_msdus) (msdu # next_msdu) rejected =
     (if rejects H msdu then htt_tx_send_batch H num_msdus next_msdu (msdu # rejected)
      else do { (sent, rejected) \<leftarrow> htt_tx_send_batch H num_msdus next_msdu rejected; Some (msdu # sent, rejected) })"

definition reject_frame :: "ol_tx_desc_t \<Rightarrow> ol_txrx_pdev_t \<Rightarrow> ol_txrx_pdev_t" where
  "reject_frame d P = ol_tx_desc_frame_free_nonstd True d (P\<lparr>target_tx_credit := target_tx_credit P + htt_tx_msdu_credit d\<rparr>)"

definition ol_tx_send_batch :: "tx_env \<Rightarrow> ol_tx_desc_t list \<Rightarrow> nat \<Rightarrow> ol_txrx_pdev_t \<Rightarrow> ol_txrx_pdev_t option" where
  "ol_tx_send_batch H msdus num_msdus P = do {
     (sent, rejected) \<leftarrow> htt_tx_send_batch H num_msdus msdus [];
     Some (fold reject_frame rejected (P\<lparr>downloaded := downloaded P @ sent\<rparr>)) }"

text \<open>
  \<^verbatim>\<open>ol_tx_sched_dispatch\<close>: \<open>chain\<close> are the buffers from \<^verbatim>\<open>head_msdu\<close> to \<^verbatim>\<open>prev\<close>. A frame without room
  for its number is linked behind the chain before the chain is sent, but not counted.
\<close>

fun dispatch_loop :: "tx_env \<Rightarrow> int \<Rightarrow> ol_tx_desc_t list \<Rightarrow> ol_tx_desc_t list \<Rightarrow> nat \<Rightarrow> ol_txrx_pdev_t
    \<Rightarrow> (ol_txrx_pdev_t \<times> ol_tx_desc_t list \<times> nat) option" where
  "dispatch_loop H frms [] chain num_msdus P = Some (P, chain, num_msdus)"
| "dispatch_loop H frms (d # ds) chain num_msdus P =
     (if frms = 0 then Some (P, chain, num_msdus)
      else let chain = chain @ [d]; P = P\<lparr>desc_ref := (desc_ref P)(desc_id d := 2)\<rparr> in
      if no_id_storage H d then do {
        P \<leftarrow> ol_tx_send_batch H chain num_msdus P;
        let P = (if rejects H d then reject_frame d P else P\<lparr>downloaded := downloaded P @ [d]\<rparr>);
        dispatch_loop H (frms - 1) ds [] 0 P }
      else dispatch_loop H (frms - 1) ds chain (num_msdus + 1) P)"

definition ol_tx_sched_dispatch :: "tx_env \<Rightarrow> ol_tx_desc_t list \<Rightarrow> int \<Rightarrow> ol_txrx_pdev_t \<Rightarrow> ol_txrx_pdev_t option" where
  "ol_tx_sched_dispatch H descs frms P = do {
     (P, chain, num_msdus) \<leftarrow> dispatch_loop H frms descs [] 0 P;
     if chain \<noteq> [] then ol_tx_send_batch H chain num_msdus P else Some P }"

section \<open>A scheduling run\<close>

text \<open>The selection never uses more credits than it is given and leaves the device's credits to its caller.\<close>

lemma dequeue_loop_credit:
  "dequeue_loop n credit credit_sum bytes_sum q = Some (out, rest, c, b) \<Longrightarrow> credit_sum \<le> credit \<Longrightarrow> c \<le> credit"
proof (induction n credit credit_sum bytes_sum q arbitrary: out rule: dequeue_loop.induct)
  case (3 n credit credit_sum bytes_sum d q)
  show ?case
  proof (cases "credit_sum + htt_tx_msdu_credit d > credit")
    case True
    with "3.prems" show ?thesis by (simp add: Let_def)
  next
    case False
    with "3.prems" obtain out' where
      "dequeue_loop n credit (credit_sum + htt_tx_msdu_credit d) (bytes_sum + netbuf_len d) q = Some (out', rest, c, b)"
      by (auto simp: Let_def bind_eq_Some_conv)
    from "3.IH" [OF refl False this] False show ?thesis by simp
  qed
qed auto

lemma sint_nonneg_uint: "0 \<le> sint w \<Longrightarrow> sint w = uint w" for w :: u32
  using sint_less [of w] by (simp add: uint_sint take_bit_int_eq_self)

lemma word_of_int_le:
  assumes "x \<le> sint w" and "0 \<le> sint w"
  shows "(if x < 0 then 0 else word_of_int x) \<le> (w :: u32)"
proof (cases "x < 0")
  case False
  have s: "sint w = uint w" using assms(2) by (rule sint_nonneg_uint)
  have "x < 2 ^ 32" using assms(1) s uint_lt2p [of w] by simp
  then have "uint (word_of_int x :: u32) = x" using False by (simp add: uint_word_of_int)
  then show ?thesis using assms(1) s False by (simp add: word_le_def)
qed simp

lemma group_credit_limit_le:
  assumes "ol_tx_txq_group_credit_limit P txq credit = Some c" and "0 \<le> sint credit"
  shows "c \<le> credit"
proof -
  obtain g where g: "rd (group_ptrs txq) 0 = Some g"
    using assms(1) by (auto simp: ol_tx_txq_group_credit_limit_def OL_TX_MAX_GROUPS_PER_QUEUE_def bind_eq_Some_conv)
  obtain x where x: "x \<le> sint credit" and c: "c = (if x < 0 then 0 else word_of_int x)"
  proof (cases g)
    case None
    with assms(1) g that [of "sint credit"] show ?thesis
      by (simp add: ol_tx_txq_group_credit_limit_def OL_TX_MAX_GROUPS_PER_QUEUE_def)
  next
    case (Some i)
    then obtain grp where "rd (txq_grps P) i = Some grp"
      using assms(1) g
      by (auto simp: ol_tx_txq_group_credit_limit_def OL_TX_MAX_GROUPS_PER_QUEUE_def bind_eq_Some_conv)
    with assms(1) g Some that [of "min (sint credit) (sint (grp_credit grp))"] show ?thesis
      by (simp add: ol_tx_txq_group_credit_limit_def OL_TX_MAX_GROUPS_PER_QUEUE_def)
  qed
  show ?thesis unfolding c using x assms(2) by (rule word_of_int_le)
qed

lemma group_credit_update_frame:
  "ol_tx_txq_group_credit_update txq credit absolute P = Some P' \<Longrightarrow>
   \<exists>gs. length gs = length (txq_grps P) \<and> P' = P\<lparr>txq_grps := gs\<rparr>"
proof -
  assume h: "ol_tx_txq_group_credit_update txq credit absolute P = Some P'"
  then obtain g where g: "rd (group_ptrs txq) 0 = Some g"
    by (auto simp: ol_tx_txq_group_credit_update_def OL_TX_MAX_GROUPS_PER_QUEUE_def bind_eq_Some_conv)
  show ?thesis
  proof (cases g)
    case None
    with h g have "P' = P" by (simp add: ol_tx_txq_group_credit_update_def OL_TX_MAX_GROUPS_PER_QUEUE_def)
    then show ?thesis by (intro exI [of _ "txq_grps P"]) simp
  next
    case (Some i)
    with h g have "P' = P\<lparr>txq_grps := (txq_grps P)[i := ol_txrx_update_group_credit (txq_grps P ! i) credit absolute]\<rparr>"
      by (auto simp: ol_tx_txq_group_credit_update_def OL_TX_MAX_GROUPS_PER_QUEUE_def bind_eq_Some_conv wr_def
          dest: rd_SomeD split: if_splits)
    then show ?thesis
      by (intro exI [of _ "(txq_grps P)[i := ol_txrx_update_group_credit (txq_grps P ! i) credit absolute]"]) simp
  qed
qed

lemma serve_category_credit:
  assumes "serve_category c credit P = Some (P', out, used)" and "0 \<le> sint credit"
  shows "used \<le> credit \<and> target_tx_credit P' = target_tx_credit P"
proof -
  obtain S cat where S: "scheduler P = Some S" and cat: "rd (categories S) c = Some cat"
    using assms(1) by (auto simp: serve_category_def bind_eq_Some_conv)
  show ?thesis
  proof (cases "c_head cat")
    case Nil
    with assms(1) S cat show ?thesis by (simp add: serve_category_def)
  next
    case (Cons txq rest)
    obtain cr where cr: "ol_tx_txq_group_credit_limit P (tx_queues P txq) credit = Some cr"
      using assms(1) by (auto simp: serve_category_def S cat Cons bind_eq_Some_conv Let_def)
    have crle: "cr \<le> credit" using cr assms(2) by (rule group_credit_limit_le)
    show ?thesis
    proof (cases "cr > word_of_int (credit_reserve (specs cat))")
      case False
      with assms(1) show ?thesis
        by (auto simp: serve_category_def S cat Cons cr split: if_splits)
    next
      case True
      define lim where "lim = cr - word_of_int (credit_reserve (specs cat))"
      from assms(1) True obtain q' frames bytes P1 where
        dq: "ol_tx_dequeue (tx_queues P txq) (send_limit (specs cat)) lim = Some (q', out, frames, used, bytes)" and
        up: "ol_tx_txq_group_credit_update q' (- used) False P1 = Some P'" and
        P1: "target_tx_credit P1 = target_tx_credit P"
        by (auto simp: serve_category_def S cat Cons cr bind_eq_Some_conv Let_def lim_def upd_txq_def)
      from dq have "used \<le> lim"
        by (auto simp: ol_tx_dequeue_def Let_def bind_eq_Some_conv dest: dequeue_loop_credit)
      moreover have "lim \<le> cr" using True by (auto simp: lim_def word_sub_le)
      moreover have "target_tx_credit P' = target_tx_credit P1"
        using group_credit_update_frame [OF up] by auto
      ultimately show ?thesis using crle P1 by auto
    qed
  qed
qed

lemma select_batch_credit:
  assumes "ol_tx_sched_select_batch_wrr_adv credit P = Some (P', out, used)" and "0 \<le> sint credit"
  shows "used \<le> credit \<and> target_tx_credit P' = target_tx_credit P"
  using assms
  by (auto simp: ol_tx_sched_select_batch_wrr_adv_def bind_eq_Some_conv Let_def split: if_splits
      dest!: serve_category_credit)

lemma sint_pos_le:
  assumes "n \<noteq> 0" and "n \<le> w" and "sint w > 0"
  shows "sint (n :: u32) > 0"
proof -
  have w: "uint w < 2 ^ 31" using sint_nonneg_uint [of w] assms(3) sint_less [of w] by simp
  have n: "uint n < 2 ^ 31" using assms(2) w by (simp add: word_le_def)
  have "sint n = uint n" unfolding sint_uint
    by (rule signed_take_bit_int_eq_self) (rule order_trans [OF _ uint_ge_0], simp, use n in simp)
  moreover have "uint n \<noteq> 0" using assms(1) by (simp add: uint_0_iff)
  ultimately show ?thesis using uint_ge_0 [of n] by linarith
qed

text \<open>
  The loop of \<^verbatim>\<open>ol_tx_sched\<close>: it selects frames as long as there are credits and the last selection used some.
\<close>

function sched_loop :: "ol_tx_desc_t list \<Rightarrow> int \<Rightarrow> ol_txrx_pdev_t \<Rightarrow> (ol_txrx_pdev_t \<times> ol_tx_desc_t list \<times> int) option" where
  "sched_loop acc frms P =
     (if sint (target_tx_credit P) > 0 then do {
        (P, out, num_credits) \<leftarrow> ol_tx_sched_select_batch_wrr_adv (target_tx_credit P) P;
        let P = (if sint num_credits > 0 then P\<lparr>target_tx_credit := target_tx_credit P - num_credits\<rparr> else P);
        if num_credits = 0 then Some (P, acc @ out, frms + int (length out))
        else sched_loop (acc @ out) (frms + int (length out)) P }
      else Some (P, acc, frms))"
  by pat_completeness auto
termination
proof (relation "measure (\<lambda>(acc, frms, P). unat (target_tx_credit P))", goal_cases)
  case 1
  then show ?case by simp
next
  case (2 acc frms P z P1 y out num P2)
  then have h: "num \<le> target_tx_credit P" and t: "target_tx_credit P1 = target_tx_credit P"
    using select_batch_credit [of "target_tx_credit P" P P1 out num] by auto
  have pos: "sint num > 0" by (rule sint_pos_le) (use 2 h in auto)
  have "unat num \<noteq> 0" using 2 by (simp add: unat_eq_0)
  then have "unat (target_tx_credit P - num) < unat (target_tx_credit P)"
    using h by (simp add: unat_sub word_le_nat_alt)
  then show ?case using 2 pos t by simp
qed

declare sched_loop.simps [simp del]

definition ol_tx_sched :: "tx_env \<Rightarrow> ol_txrx_pdev_t \<Rightarrow> ol_txrx_pdev_t option" where
  "ol_tx_sched H P =
     (if tx_sched_status P \<noteq> ol_tx_scheduler_idle then Some P
      else do {
        P \<leftarrow> ol_tx_sched_select_init_wrr_adv (P\<lparr>tx_sched_status := ol_tx_scheduler_running\<rparr>);
        (P, descs, frms) \<leftarrow> sched_loop [] 0 P;
        P \<leftarrow> ol_tx_sched_dispatch H descs frms P;
        Some (P\<lparr>tx_sched_status := ol_tx_scheduler_idle\<rparr>) })"

definition ol_tx_target_credit_update :: "u32 \<Rightarrow> ol_txrx_pdev_t \<Rightarrow> ol_txrx_pdev_t" where
  "ol_tx_target_credit_update credit_delta P = P\<lparr>target_tx_credit := target_tx_credit P + credit_delta\<rparr>"

definition ol_tx_credit_completion_handler :: "tx_env \<Rightarrow> u32 \<Rightarrow> ol_txrx_pdev_t \<Rightarrow> ol_txrx_pdev_t option" where
  "ol_tx_credit_completion_handler H credits P = ol_tx_sched H (ol_tx_target_credit_update credits P)"

section \<open>Freeing, discarding and queueing frames\<close>

text \<open>The bytes of the counted frames of a queue that is freed.\<close>

fun free_bytes :: "nat \<Rightarrow> ol_tx_desc_t list \<Rightarrow> u32 option" where
  "free_bytes 0 ds = Some 0"
| "free_bytes (Suc n) [] = None"
| "free_bytes (Suc n) (d # ds) = do { b \<leftarrow> free_bytes n ds; Some (netbuf_len d + b) }"

definition ol_tx_queue_free :: "txq_ref \<Rightarrow> nat \<Rightarrow> ol_txrx_pdev_t \<Rightarrow> ol_txrx_pdev_t option" where
  "ol_tx_queue_free txq tid P = do {
     P \<leftarrow> ol_tx_sched_notify txq (OL_TX_DELETE_QUEUE tid) P;
     let q = tx_queues P txq;
     let frms = q_frms q;
     bytes \<leftarrow> free_bytes (unat frms) (q_head q);
     let P = upd_txq txq (\<lambda>q. q\<lparr>q_frms := 0, q_bytes := q_bytes q - bytes, q_flag := ol_tx_queue_empty, q_head := []\<rparr>) P;
     Some (fold (ol_tx_desc_frame_free_nonstd False) (take (unat frms) (q_head q)) (P\<lparr>rsrc_cnt := rsrc_cnt P + ucast frms\<rparr>)) }"

definition PEER_ARRAY_COUNT :: nat where
  "PEER_ARRAY_COUNT = 10"

definition peer_has_frms :: "ol_txrx_pdev_t \<Rightarrow> nat \<Rightarrow> bool" where
  "peer_has_frms P peer \<longleftrightarrow> (\<exists>r\<in>set (peer_txqs peer). q_frms (tx_queues P r) \<noteq> 0)"

text \<open>One round of the flush of the peers' queues: at most ten peers that have frames.\<close>

definition flush_peer :: "nat \<Rightarrow> ol_txrx_pdev_t \<Rightarrow> ol_txrx_pdev_t option" where
  "flush_peer peer P = for_each [0..<OL_TX_NUM_TIDS] (\<lambda>j P.
     if q_frms (tx_queues P (PeerTxq peer j)) \<noteq> 0 then ol_tx_queue_free (PeerTxq peer j) j P else Some P) P"

partial_function (option) flush_peers :: "nat list \<Rightarrow> ol_txrx_pdev_t \<Rightarrow> ol_txrx_pdev_t option" where
  "flush_peers peers P =
     Option.bind (for_each (take PEER_ARRAY_COUNT (filter (peer_has_frms P) peers)) flush_peer P)
       (\<lambda>P'. if length (take PEER_ARRAY_COUNT (filter (peer_has_frms P) peers)) \<ge> PEER_ARRAY_COUNT
             then flush_peers peers P' else Some P')"

declare flush_peers.simps [code]

definition ol_tx_queue_vdev_flush :: "nat \<Rightarrow> ol_txrx_pdev_t \<Rightarrow> ol_txrx_pdev_t option" where
  "ol_tx_queue_vdev_flush v P = do {
     vdev \<leftarrow> rd (vdev_list P) v;
     P \<leftarrow> for_each [0..<OL_TX_VDEV_NUM_QUEUES] (\<lambda>i. ol_tx_queue_free (VdevTxq (vdev_id vdev) i) (i + OL_TX_NUM_TIDS)) P;
     flush_peers (peer_list vdev) P }"

definition ol_tx_queue_flush :: "ol_txrx_pdev_t \<Rightarrow> ol_txrx_pdev_t option" where
  "ol_tx_queue_flush P = for_each [0..<length (vdev_list P)] ol_tx_queue_vdev_flush P"

text \<open>The loop of \<^verbatim>\<open>ol_tx_queue_discard\<close>: the number left to discard, the frames taken and their count.\<close>

lemma dequeue_loop_length:
  "dequeue_loop n credit credit_sum bytes_sum q = Some (out, rest, c, b) \<Longrightarrow> length out \<le> n"
  by (induction n credit credit_sum bytes_sum q arbitrary: out rule: dequeue_loop.induct)
    (auto simp: Let_def bind_eq_Some_conv split: if_splits)

lemma ol_tx_dequeue_count:
  assumes "ol_tx_dequeue q frms credit = Some (q', out, num, used, bytes)"
  shows "num \<le> frms"
proof -
  define m where "m = (if q_frms q < frms then q_frms q else frms)"
  have m: "m \<le> frms" by (auto simp: m_def)
  have "length out \<le> unat m"
    using assms by (auto simp: ol_tx_dequeue_def Let_def bind_eq_Some_conv m_def [symmetric] dest: dequeue_loop_length)
  moreover have "num = of_nat (length out)"
    using assms by (auto simp: ol_tx_dequeue_def Let_def bind_eq_Some_conv)
  moreover have "unat (of_nat (length out) :: u16) \<le> length out"
    by (simp add: unat_of_nat take_bit_nat_less_eq_self)
  ultimately show ?thesis using m by (simp add: word_le_nat_alt)
qed

lemma discard_frms_le: "discard_frms force frms q \<le> frms"
  by (auto simp: discard_frms_def Let_def)

lemma discard_select_count:
  "ol_tx_sched_discard_select frms force P = Some (P', out, num) \<Longrightarrow> num \<le> frms"
  by (auto simp: ol_tx_sched_discard_select_def Let_def bind_eq_Some_conv split: option.splits
      dest!: ol_tx_dequeue_count intro: order_trans [OF _ discard_frms_le])

function discard_loop :: "u16 \<Rightarrow> bool \<Rightarrow> ol_tx_desc_t list \<Rightarrow> u16 \<Rightarrow> ol_txrx_pdev_t
    \<Rightarrow> (ol_txrx_pdev_t \<times> ol_tx_desc_t list \<times> u16 \<times> u16) option" where
  "discard_loop num force tx_descs actual_discarded P =
     (if num > 0 then do {
        (P, out, discarded) \<leftarrow> ol_tx_sched_discard_select num force P;
        if discarded = 0 then Some (P, tx_descs @ out, num, actual_discarded)
        else discard_loop (num - discarded) force (tx_descs @ out) (actual_discarded + discarded) P }
      else Some (P, tx_descs, num, actual_discarded))"
  by pat_completeness auto
termination
proof (relation "measure (\<lambda>(num, force, tx_descs, actual_discarded, P). unat num)", goal_cases)
  case 1
  then show ?case by simp
next
  case (2 num force tx_descs actual P z P1 y out discarded)
  then have "discarded \<le> num" using discard_select_count by auto
  moreover have "unat discarded \<noteq> 0" using 2 by (simp add: unat_eq_0)
  ultimately show ?case by (simp add: unat_sub word_le_nat_alt)
qed

declare discard_loop.simps [simp del]

definition ol_tx_queue_discard :: "bool \<Rightarrow> ol_txrx_pdev_t \<Rightarrow> (ol_txrx_pdev_t \<times> ol_tx_desc_t list) option" where
  "ol_tx_queue_discard flush_all P = do {
     let num = (if flush_all then ucast (ucast (desc_pool_size P) - rsrc_cnt P)
                else rsrc_threshold_hi P - rsrc_threshold_lo P);
     (P, tx_descs, num, actual_discarded) \<leftarrow> discard_loop num flush_all [] 0 P;
     let P = P\<lparr>rsrc_cnt := rsrc_cnt P + ucast actual_discarded\<rparr>;
     P \<leftarrow> (if flush_all \<and> num > 0 then ol_tx_queue_flush P else Some P);
     Some (P, tx_descs) }"

text \<open>The frame \<open>d\<close> is queued under the extended TID that its classification chose.\<close>

definition ol_tx_enqueue :: "txq_ref \<Rightarrow> ol_tx_desc_t \<Rightarrow> nat \<Rightarrow> ol_txrx_pdev_t \<Rightarrow> ol_txrx_pdev_t option" where
  "ol_tx_enqueue txq d tid P = do {
     P \<leftarrow> (if sint (rsrc_cnt P) \<le> uint (rsrc_threshold_lo P) then do {
              (P, tx_descs) \<leftarrow> ol_tx_queue_discard False P;
              Some (ol_tx_desc_frame_list_free True tx_descs P) }
           else Some P);
     let P = upd_txq txq (\<lambda>q. q\<lparr>q_head := q_head q @ [d], q_frms := q_frms q + 1, q_bytes := q_bytes q + netbuf_len d\<rparr>) P;
     if q_flag (tx_queues P txq) \<noteq> ol_tx_queue_paused then do {
       P \<leftarrow> ol_tx_sched_notify txq (OL_TX_ENQUEUE_FRAME tid (netbuf_len d)) P;
       Some (upd_txq txq (\<lambda>q. q\<lparr>q_flag := ol_tx_queue_active\<rparr>) P) }
     else Some P }"

section \<open>Pausing queues\<close>

definition ol_txrx_peer_tid_pause_base :: "nat \<Rightarrow> nat \<Rightarrow> ol_txrx_pdev_t \<Rightarrow> ol_txrx_pdev_t option" where
  "ol_txrx_peer_tid_pause_base peer tid P = do {
     let txq = PeerTxq peer tid;
     let total = paused_count_total (tx_queues P txq);
     let P = upd_txq txq (\<lambda>q. q\<lparr>paused_count_total := total + 1\<rparr>) P;
     if total = 0 then do {
       P \<leftarrow> ol_tx_sched_notify txq (OL_TX_PAUSE_QUEUE tid) P;
       Some (upd_txq txq (\<lambda>q. q\<lparr>q_flag := ol_tx_queue_paused\<rparr>) P) }
     else Some P }"

definition ol_txrx_peer_pause_but_no_mgmt_q_base :: "nat \<Rightarrow> ol_txrx_pdev_t \<Rightarrow> ol_txrx_pdev_t option" where
  "ol_txrx_peer_pause_but_no_mgmt_q_base peer P = for_each [0..<OL_TX_MGMT_TID] (ol_txrx_peer_tid_pause_base peer) P"

definition ol_txrx_peer_pause_base :: "nat \<Rightarrow> ol_txrx_pdev_t \<Rightarrow> ol_txrx_pdev_t option" where
  "ol_txrx_peer_pause_base peer P = for_each [0..<OL_TX_NUM_TIDS] (ol_txrx_peer_tid_pause_base peer) P"

definition ol_txrx_peer_tid_unpause_base :: "tx_env \<Rightarrow> nat \<Rightarrow> nat \<Rightarrow> ol_txrx_pdev_t \<Rightarrow> ol_txrx_pdev_t option" where
  "ol_txrx_peer_tid_unpause_base H peer tid P = (
     let txq = PeerTxq peer tid;
         total = paused_count_total (tx_queues P txq)
     in if total = 0 then Some P
        else let P = upd_txq txq (\<lambda>q. q\<lparr>paused_count_total := total - 1\<rparr>) P in
        if total - 1 = 0 then do {
          P \<leftarrow> ol_tx_sched_notify txq (OL_TX_UNPAUSE_QUEUE tid) P;
          if q_frms (tx_queues P txq) = 0 then Some (upd_txq txq (\<lambda>q. q\<lparr>q_flag := ol_tx_queue_empty\<rparr>) P)
          else ol_tx_sched H (upd_txq txq (\<lambda>q. q\<lparr>q_flag := ol_tx_queue_active\<rparr>) P) }
        else Some P)"

definition ol_txrx_peer_unpause_but_no_mgmt_q_base :: "tx_env \<Rightarrow> nat \<Rightarrow> ol_txrx_pdev_t \<Rightarrow> ol_txrx_pdev_t option" where
  "ol_txrx_peer_unpause_but_no_mgmt_q_base H peer P =
     for_each [0..<OL_TX_MGMT_TID] (ol_txrx_peer_tid_unpause_base H peer) P"

text \<open>The identifier -1 stands for all queues of the peer.\<close>

definition ol_txrx_peer_tid_unpause :: "tx_env \<Rightarrow> nat \<Rightarrow> int \<Rightarrow> ol_txrx_pdev_t \<Rightarrow> ol_txrx_pdev_t option" where
  "ol_txrx_peer_tid_unpause H peer tid P =
     (if tid = -1 then for_each [0..<OL_TX_NUM_TIDS] (ol_txrx_peer_tid_unpause_base H peer) P
      else ol_txrx_peer_tid_unpause_base H peer (nat tid) P)"

definition upd_vdev :: "nat \<Rightarrow> (ol_txrx_vdev_t \<Rightarrow> ol_txrx_vdev_t) \<Rightarrow> ol_txrx_pdev_t \<Rightarrow> ol_txrx_pdev_t" where
  "upd_vdev v f P = P\<lparr>vdev_list := (vdev_list P)[v := f (vdev_list P ! v)]\<rparr>"

text \<open>The virtual devices are named by their position in the device's list.\<close>

definition ol_txrx_vdev_pause :: "u32 \<Rightarrow> nat \<Rightarrow> ol_txrx_pdev_t \<Rightarrow> ol_txrx_pdev_t option" where
  "ol_txrx_vdev_pause reason v P = do {
     vdev \<leftarrow> rd (vdev_list P) v;
     if (hl_paused_reason vdev AND reason) = 0
     then for_each (peer_list vdev) ol_txrx_peer_pause_base
            (upd_vdev v (\<lambda>vdev. vdev\<lparr>hl_paused_reason := hl_paused_reason vdev OR reason\<rparr>) P)
     else Some P }"

definition ol_txrx_vdev_unpause :: "tx_env \<Rightarrow> u32 \<Rightarrow> nat \<Rightarrow> ol_txrx_pdev_t \<Rightarrow> ol_txrx_pdev_t option" where
  "ol_txrx_vdev_unpause H reason v P = do {
     vdev \<leftarrow> rd (vdev_list P) v;
     if (hl_paused_reason vdev AND reason) \<noteq> 0
     then for_each (peer_list vdev)
            (\<lambda>peer. for_each [0..<OL_TX_NUM_TIDS] (ol_txrx_peer_tid_unpause_base H peer))
            (upd_vdev v (\<lambda>vdev. vdev\<lparr>hl_paused_reason := hl_paused_reason vdev AND NOT reason\<rparr>) P)
     else Some P }"

definition ol_txrx_vdev_flush :: "nat \<Rightarrow> ol_txrx_pdev_t \<Rightarrow> ol_txrx_pdev_t option" where
  "ol_txrx_vdev_flush v P = ol_tx_queue_vdev_flush v P"

definition ol_txrx_pdev_pause :: "u32 \<Rightarrow> ol_txrx_pdev_t \<Rightarrow> ol_txrx_pdev_t option" where
  "ol_txrx_pdev_pause reason P = for_each [0..<length (vdev_list P)] (ol_txrx_vdev_pause reason) P"

definition ol_txrx_pdev_unpause :: "tx_env \<Rightarrow> u32 \<Rightarrow> ol_txrx_pdev_t \<Rightarrow> ol_txrx_pdev_t option" where
  "ol_txrx_pdev_unpause H reason P = for_each [0..<length (vdev_list P)] (ol_txrx_vdev_unpause H reason) P"

definition ol_txrx_pdev_pause_other_vdev :: "u32 \<Rightarrow> u32 \<Rightarrow> ol_txrx_pdev_t \<Rightarrow> ol_txrx_pdev_t option" where
  "ol_txrx_pdev_pause_other_vdev reason current_id P =
     for_each [0..<length (vdev_list P)] (\<lambda>v P. do {
       vdev \<leftarrow> rd (vdev_list P) v;
       if ucast (vdev_id vdev) \<noteq> current_id then ol_txrx_vdev_pause reason v P else Some P }) P"

definition ol_txrx_pdev_unpause_other_vdev :: "tx_env \<Rightarrow> u32 \<Rightarrow> u32 \<Rightarrow> ol_txrx_pdev_t \<Rightarrow> ol_txrx_pdev_t option" where
  "ol_txrx_pdev_unpause_other_vdev H reason current_id P =
     for_each [0..<length (vdev_list P)] (\<lambda>v P. do {
       vdev \<leftarrow> rd (vdev_list P) v;
       if ucast (vdev_id vdev) \<noteq> current_id then ol_txrx_vdev_unpause H reason v P else Some P }) P"

definition OL_TXQ_PAUSE_REASON_THROTTLE :: u32 where
  "OL_TXQ_PAUSE_REASON_THROTTLE = push_bit 6 1"

definition OL_TXQ_PAUSE_REASON_VDEV_STOP :: u32 where
  "OL_TXQ_PAUSE_REASON_VDEV_STOP = push_bit 3 1"

definition ol_txrx_throttle_pause :: "ol_txrx_pdev_t \<Rightarrow> ol_txrx_pdev_t option" where
  "ol_txrx_throttle_pause P =
     (if tx_throttle_is_paused P then Some P
      else ol_txrx_pdev_pause OL_TXQ_PAUSE_REASON_THROTTLE (P\<lparr>tx_throttle_is_paused := True\<rparr>))"

definition ol_txrx_throttle_unpause :: "tx_env \<Rightarrow> ol_txrx_pdev_t \<Rightarrow> ol_txrx_pdev_t option" where
  "ol_txrx_throttle_unpause H P =
     (if \<not> tx_throttle_is_paused P then Some P
      else ol_txrx_pdev_unpause H OL_TXQ_PAUSE_REASON_THROTTLE (P\<lparr>tx_throttle_is_paused := False\<rparr>))"

end
