(* ===== verification/Peer_Life.thy ===== *)
theory Peer_Life
  imports Tx_Flow
begin

text \<open>
  The life of a peer (CLD_TXRX/TXRX/ol_txrx.c and the message handlers of ol_txrx_peer_find.c): attaching and
  detaching it, the messages of the target that map and unmap its identifiers, and the release of references, the
  last of which deletes it. The receive state of a peer, the deletion of virtual devices and the descriptors of the
  target (\<^verbatim>\<open>ol_tx_queue_decs_reinit\<close>) are left out.
  \<^verbatim>\<open>ol_txrx_peer_pause\<close> is an empty macro (ol_txrx_ctrl_api.h).
\<close>

section \<open>References\<close>

definition upd_vdev_id :: "u8 \<Rightarrow> (ol_txrx_vdev_t \<Rightarrow> ol_txrx_vdev_t) \<Rightarrow> ol_txrx_pdev_t \<Rightarrow> ol_txrx_pdev_t" where
  "upd_vdev_id v f P = P\<lparr>vdev_list := map (\<lambda>vdev. if vdev_id vdev = v then f vdev else vdev) (vdev_list P)\<rparr>"

definition find_vdev :: "u8 \<Rightarrow> ol_txrx_pdev_t \<Rightarrow> ol_txrx_vdev_t option" where
  "find_vdev v P = find (\<lambda>vdev. vdev_id vdev = v) (vdev_list P)"

text \<open>A function on the table of peers as one on the device.\<close>

definition on_peers :: "(peer_db \<Rightarrow> peer_db option) \<Rightarrow> ol_txrx_pdev_t \<Rightarrow> ol_txrx_pdev_t option" where
  "on_peers f P = do { D \<leftarrow> f (peer_tab P); Some (P\<lparr>peer_tab := D\<rparr>) }"

definition get_peer :: "ol_txrx_pdev_t \<Rightarrow> nat \<Rightarrow> tx_peer_t option" where
  "get_peer P h = peer_objs (peer_tab P) h"

text \<open>The branch of \<^verbatim>\<open>ol_txrx_peer_unref_delete\<close> for the last reference.\<close>

definition delete_peer :: "nat \<Rightarrow> ol_txrx_pdev_t \<Rightarrow> ol_txrx_pdev_t option" where
  "delete_peer h P = do {
     p \<leftarrow> get_peer P h;
     vdev \<leftarrow> find_vdev (peer_vdev p) P;
     P \<leftarrow> on_peers (ol_txrx_peer_find_hash_remove h) P;
     P \<leftarrow> (if h \<in> set (peer_list vdev) then Some (upd_vdev_id (peer_vdev p) (\<lambda>v. v\<lparr>peer_list := remove1 h (peer_list v)\<rparr>) P) else None);
     P \<leftarrow> on_peers (upd_peer h (\<lambda>p. p\<lparr>delete_in_progress := False\<rparr>)) P;
     let P = (if peer_local_id p = wait_on_peer_id vdev
              then upd_vdev_id (peer_vdev p) (\<lambda>v. v\<lparr>wait_on_peer_id := OL_TXRX_INVALID_LOCAL_PEER_ID\<rparr>) P else P);
     P \<leftarrow> for_each [0..<OL_TX_NUM_TIDS] (\<lambda>i. ol_tx_queue_free (PeerTxq h i) i) P;
     on_peers (\<lambda>D. Some (D\<lparr>peer_objs := (peer_objs D)(h := None)\<rparr>)) P }"

definition ol_txrx_peer_unref_delete :: "nat \<Rightarrow> ol_txrx_pdev_t \<Rightarrow> ol_txrx_pdev_t option" where
  "ol_txrx_peer_unref_delete h P = do {
     p \<leftarrow> get_peer P h;
     if ref_cnt p = 0 then Some P
     else do {
       P \<leftarrow> on_peers (dec_ref h) P;
       if ref_cnt p - 1 = 0 then delete_peer h P else Some P } }"

definition ol_txrx_peer_find_by_addr :: "mac \<Rightarrow> ol_txrx_pdev_t \<Rightarrow> (nat option \<times> ol_txrx_pdev_t) option" where
  "ol_txrx_peer_find_by_addr m P = do {
     (peer, D) \<leftarrow> ol_txrx_peer_find_hash_find m False (peer_tab P);
     let P = P\<lparr>peer_tab := D\<rparr>;
     case peer of None \<Rightarrow> Some (None, P) | Some h \<Rightarrow> do { P \<leftarrow> ol_txrx_peer_unref_delete h P; Some (Some h, P) } }"

text \<open>The peer that a virtual device in station mode is associated with.\<close>

definition ol_txrx_assoc_peer_find :: "ol_txrx_vdev_t \<Rightarrow> peer_db \<Rightarrow> (nat option \<times> peer_db) option" where
  "ol_txrx_assoc_peer_find vdev D =
     (case last_real_peer vdev of
        None \<Rightarrow> Some (None, D)
      | Some h \<Rightarrow> do {
          p \<leftarrow> peer_objs D h;
          id \<leftarrow> rd (peer_ids p) 0;
          if id \<noteq> HTT_INVALID_PEER then do { D \<leftarrow> inc_ref h D; Some (Some h, D) } else Some (None, D) })"

section \<open>Attaching\<close>

text \<open>
  The state of a peer and, if the host negotiates aggregation, the queues: \<^verbatim>\<open>host_addba\<close> is an argument, as it is a
  setting of the device.
\<close>

definition ol_txrx_peer_state_update :: "tx_env \<Rightarrow> bool \<Rightarrow> mac \<Rightarrow> ol_txrx_peer_state \<Rightarrow> ol_txrx_pdev_t \<Rightarrow> ol_txrx_pdev_t option" where
  "ol_txrx_peer_state_update H host_addba m state P = do {
     (peer, D) \<leftarrow> ol_txrx_peer_find_hash_find m True (peer_tab P);
     let P = P\<lparr>peer_tab := D\<rparr>;
     case peer of
       None \<Rightarrow> Some P
     | Some h \<Rightarrow> do {
         p \<leftarrow> get_peer P h;
         if peer_state p = state then on_peers (dec_ref h) P
         else do {
           P \<leftarrow> (if host_addba \<and> state = ol_txrx_peer_state_auth
                 then for_each [OL_TX_NUM_QOS_TIDS..<OL_TX_NUM_TIDS] (\<lambda>tid. ol_txrx_peer_tid_unpause H h (int tid)) P
                 else Some P);
           P \<leftarrow> on_peers (dec_ref h) P;
           on_peers (upd_peer h (\<lambda>p. p\<lparr>peer_state := state\<rparr>)) P } } }"

text \<open>An object filled with zeros.\<close>

definition zero_peer :: tx_peer_t where
  "zero_peer = \<lparr>peer_vdev = 0, ref_cnt = 0, delete_in_progress = False, peer_state = ol_txrx_peer_state_invalid,
     peer_ids = replicate MAX_NUM_PEER_ID_PER_PEER 0, peer_local_id = 0, peer_mac = replicate 6 0,
     sec_mcast = htt_sec_type_none, sec_ucast = htt_sec_type_none, bss_peer = False, peer_valid = False,
     qos_capable = False, uapsd_mask = 0\<rparr>"

definition zero_txq :: ol_tx_frms_queue_t where
  "zero_txq = \<lparr>paused_count_total = 0, q_frms = 0, q_bytes = 0, q_head = [], q_flag = ol_tx_queue_empty,
     group_ptrs = replicate OL_TX_MAX_GROUPS_PER_QUEUE None\<rparr>"

text \<open>
  The search for an existing peer of the virtual device with the same address: one that is being deleted is to be
  waited for, another ends the search. The result has the local identifier to wait for, if any, and tells whether the
  search came to its end.
\<close>

fun dup_loop :: "(nat \<Rightarrow> tx_peer_t option) \<Rightarrow> mac \<Rightarrow> nat list \<Rightarrow> u16 option \<Rightarrow> (bool \<times> u16 option) option" where
  "dup_loop objs m [] w = Some (True, w)"
| "dup_loop objs m (h # hs) w = do {
     p \<leftarrow> objs h;
     if \<not> ol_txrx_peer_find_mac_addr_cmp (peer_mac p) m
     then if delete_in_progress p then dup_loop objs m hs (Some (peer_local_id p)) else Some (False, w)
     else dup_loop objs m hs w }"

definition set_wait :: "u8 \<Rightarrow> u16 \<Rightarrow> ol_txrx_pdev_t \<Rightarrow> ol_txrx_pdev_t" where
  "set_wait v lid = upd_vdev_id v (\<lambda>vdev. vdev\<lparr>wait_on_peer_id := lid\<rparr>)"

text \<open>The new object with its queues.\<close>

definition init_peer :: "nat \<Rightarrow> u8 \<Rightarrow> mac \<Rightarrow> ol_txrx_pdev_t \<Rightarrow> ol_txrx_pdev_t option" where
  "init_peer h v m P = do {
     P \<leftarrow> on_peers (\<lambda>D. Some (D\<lparr>peer_objs := (peer_objs D)(h \<mapsto> zero_peer\<lparr>peer_vdev := v, peer_mac := m\<rparr>)\<rparr>)) P;
     for_each [0..<OL_TX_NUM_TIDS] (\<lambda>i P. ol_tx_set_peer_group_ptr h v i (upd_txq (PeerTxq h i) (\<lambda>_. zero_txq) P)) P }"

text \<open>The object enters the lists and the hash table, with two references, and becomes ready.\<close>

definition attach_new :: "tx_env \<Rightarrow> bool \<Rightarrow> nat \<Rightarrow> u8 \<Rightarrow> mac \<Rightarrow> ol_txrx_pdev_t \<Rightarrow> ol_txrx_pdev_t option" where
  "attach_new H host_addba h v m P = do {
     P \<leftarrow> init_peer h v m P;
     let P = upd_vdev_id v (\<lambda>vdev. vdev\<lparr>peer_list := peer_list vdev @ [h]\<rparr>) P;
     vdev \<leftarrow> find_vdev v P;
     let P = (if ol_txrx_peer_find_mac_addr_cmp (vdev_mac_addr vdev) m
              then upd_vdev_id v (\<lambda>vdev. vdev\<lparr>last_real_peer := Some h\<rparr>) P else P);
     P \<leftarrow> on_peers (upd_peer h (\<lambda>p. p\<lparr>peer_ids := replicate MAX_NUM_PEER_ID_PER_PEER HTT_INVALID_PEER,
            ref_cnt := 2, peer_valid := True\<rparr>)) P;
     P \<leftarrow> on_peers (ol_txrx_peer_find_hash_add h) P;
     P \<leftarrow> on_peers (upd_peer h (\<lambda>p. p\<lparr>bss_peer := (m = vdev_mac_addr vdev), peer_state := ol_txrx_peer_state_invalid\<rparr>)) P;
     P \<leftarrow> ol_txrx_peer_state_update H host_addba m ol_txrx_peer_state_disc P;
     on_peers (OL_TXRX_LOCAL_PEER_ID_ALLOC h) P }"

text \<open>
  \<open>mem\<close> is the address of the new object, or nothing. \<open>wait\<close> is what happens to the device while the call waits for
  the deletion of the old peer, and whether that ends before the timeout. The result has the new peer.
\<close>

definition ol_txrx_peer_attach :: "tx_env \<Rightarrow> bool \<Rightarrow> nat option \<Rightarrow> (ol_txrx_pdev_t \<Rightarrow> bool \<times> ol_txrx_pdev_t)
    \<Rightarrow> u8 \<Rightarrow> mac \<Rightarrow> ol_txrx_pdev_t \<Rightarrow> (nat option \<times> ol_txrx_pdev_t) option" where
  "ol_txrx_peer_attach H host_addba mem wait v m P = do {
     vdev \<leftarrow> find_vdev v P;
     dup \<leftarrow> dup_loop (peer_objs (peer_tab P)) m (peer_list vdev) None;
     case dup of
       (False, w) \<Rightarrow> Some (None, case w of None \<Rightarrow> P | Some lid \<Rightarrow> set_wait v lid P)
     | (True, w) \<Rightarrow>
         let (go, P) = (case w of
             None \<Rightarrow> (True, P)
           | Some lid \<Rightarrow>
               let (rc, P) = wait (set_wait v lid P)
               in (rc, if rc then P else set_wait v OL_TXRX_INVALID_LOCAL_PEER_ID P))
         in if \<not> go then Some (None, P)
         else (case mem of None \<Rightarrow> Some (None, P) | Some h \<Rightarrow> do { P \<leftarrow> attach_new H host_addba h v m P; Some (Some h, P) }) }"

definition ol_txrx_peer_detach :: "nat \<Rightarrow> ol_txrx_pdev_t \<Rightarrow> ol_txrx_pdev_t option" where
  "ol_txrx_peer_detach h P = do {
     P \<leftarrow> on_peers (upd_peer h (\<lambda>p. p\<lparr>peer_valid := False\<rparr>)) P;
     P \<leftarrow> on_peers (OL_TXRX_LOCAL_PEER_ID_FREE h) P;
     p \<leftarrow> get_peer P h;
     let P = upd_vdev_id (peer_vdev p) (\<lambda>v. if last_real_peer v = Some h then v\<lparr>last_real_peer := None\<rparr> else v) P;
     P \<leftarrow> on_peers (upd_peer h (\<lambda>p. p\<lparr>delete_in_progress := True\<rparr>)) P;
     ol_txrx_peer_unref_delete h P }"

section \<open>Messages of the target\<close>

definition ol_txrx_peer_find_add_id :: "mac \<Rightarrow> u16 \<Rightarrow> ol_txrx_pdev_t \<Rightarrow> ol_txrx_pdev_t option" where
  "ol_txrx_peer_find_add_id m peer_id P = do {
     (peer, D) \<leftarrow> ol_txrx_peer_find_hash_find m False (peer_tab P);
     let P = P\<lparr>peer_tab := D\<rparr>;
     case peer of
       None \<Rightarrow> Some P
     | Some h \<Rightarrow> do {
         map' \<leftarrow> wr (peer_id_to_obj_map D) (unat peer_id) (Some h);
         let P = P\<lparr>peer_tab := D\<lparr>peer_id_to_obj_map := map'\<rparr>\<rparr>;
         p \<leftarrow> get_peer P h;
         id0 \<leftarrow> rd (peer_ids p) 0;
         P \<leftarrow> (if id0 = HTT_INVALID_PEER then ol_txrx_peer_unref_delete h P else Some P);
         (_, D) \<leftarrow> ol_txrx_peer_find_add_id_to_obj h peer_id (peer_tab P);
         Some (P\<lparr>peer_tab := D\<rparr>) } }"

definition ol_rx_peer_map_handler :: "tx_env \<Rightarrow> u16 \<Rightarrow> mac \<Rightarrow> bool \<Rightarrow> ol_txrx_pdev_t \<Rightarrow> ol_txrx_pdev_t option" where
  "ol_rx_peer_map_handler H peer_id m tx_ready P = do {
     P \<leftarrow> ol_txrx_peer_find_add_id m peer_id P;
     if tx_ready then Some P
     else do {
       peer \<leftarrow> ol_txrx_peer_find_by_id (peer_tab P) peer_id;
       case peer of None \<Rightarrow> Some P | Some h \<Rightarrow> ol_txrx_peer_tid_unpause H h (int OL_TX_MGMT_TID) P } }"

definition ol_txrx_peer_tx_ready_handler :: "tx_env \<Rightarrow> u16 \<Rightarrow> ol_txrx_pdev_t \<Rightarrow> ol_txrx_pdev_t option" where
  "ol_txrx_peer_tx_ready_handler H peer_id P = do {
     peer \<leftarrow> ol_txrx_peer_find_by_id (peer_tab P) peer_id;
     case peer of
       None \<Rightarrow> Some P
     | Some h \<Rightarrow> for_each [0..<OL_TX_NUM_TIDS] (\<lambda>i P. if i = OL_TX_MGMT_TID then Some P else ol_txrx_peer_tid_unpause H h (int i) P) P }"

definition ol_rx_peer_unmap_handler :: "u16 \<Rightarrow> ol_txrx_pdev_t \<Rightarrow> ol_txrx_pdev_t option" where
  "ol_rx_peer_unmap_handler peer_id P = do {
     peer \<leftarrow> (if peer_id = HTT_INVALID_PEER then Some None else rd (peer_id_to_obj_map (peer_tab P)) (unat peer_id));
     map' \<leftarrow> wr (peer_id_to_obj_map (peer_tab P)) (unat peer_id) None;
     let P = P\<lparr>peer_tab := (peer_tab P)\<lparr>peer_id_to_obj_map := map'\<rparr>\<rparr>;
     case peer of None \<Rightarrow> Some P | Some h \<Rightarrow> ol_txrx_peer_unref_delete h P }"

section \<open>Properties of a peer\<close>

datatype ol_sec_type =
    ol_sec_type_none
  | ol_sec_type_wep128
  | ol_sec_type_wep104
  | ol_sec_type_wep40
  | ol_sec_type_tkip
  | ol_sec_type_tkip_nomic
  | ol_sec_type_aes_ccmp
  | ol_sec_type_wapi
  | ol_sec_type_types

fun peer_sec_type :: "ol_sec_type \<Rightarrow> htt_sec_type" where
  "peer_sec_type ol_sec_type_none = htt_sec_type_none"
| "peer_sec_type ol_sec_type_wep128 = htt_sec_type_wep128"
| "peer_sec_type ol_sec_type_wep104 = htt_sec_type_wep104"
| "peer_sec_type ol_sec_type_wep40 = htt_sec_type_wep40"
| "peer_sec_type ol_sec_type_tkip = htt_sec_type_tkip"
| "peer_sec_type ol_sec_type_tkip_nomic = htt_sec_type_tkip_nomic"
| "peer_sec_type ol_sec_type_aes_ccmp = htt_sec_type_aes_ccmp"
| "peer_sec_type ol_sec_type_wapi = htt_sec_type_wapi"
| "peer_sec_type ol_sec_type_types = htt_sec_type_none"

datatype ol_txrx_peer_update_param =
    qos_capable_param bool
  | uapsd_mask_param u8
  | sec_type_param ol_sec_type

definition ol_txrx_peer_update :: "mac \<Rightarrow> ol_txrx_peer_update_param \<Rightarrow> ol_txrx_pdev_t \<Rightarrow> ol_txrx_pdev_t option" where
  "ol_txrx_peer_update m param P = do {
     (peer, D) \<leftarrow> ol_txrx_peer_find_hash_find m True (peer_tab P);
     let P = P\<lparr>peer_tab := D\<rparr>;
     case peer of
       None \<Rightarrow> Some P
     | Some h \<Rightarrow> do {
         P \<leftarrow> on_peers (upd_peer h (\<lambda>p. case param of
             qos_capable_param q \<Rightarrow> p\<lparr>qos_capable := q\<rparr>
           | uapsd_mask_param u \<Rightarrow> p\<lparr>uapsd_mask := u\<rparr>
           | sec_type_param s \<Rightarrow> p\<lparr>sec_mcast := peer_sec_type s, sec_ucast := peer_sec_type s\<rparr>)) P;
         on_peers (dec_ref h) P } }"

definition ol_txrx_peer_uapsdmask_get :: "u16 \<Rightarrow> ol_txrx_pdev_t \<Rightarrow> u8 option" where
  "ol_txrx_peer_uapsdmask_get peer_id P = do {
     peer \<leftarrow> ol_txrx_peer_find_by_id (peer_tab P) peer_id;
     case peer of None \<Rightarrow> Some 0 | Some h \<Rightarrow> do { p \<leftarrow> get_peer P h; Some (uapsd_mask p) } }"

definition ol_txrx_peer_qoscapable_get :: "u16 \<Rightarrow> ol_txrx_pdev_t \<Rightarrow> bool option" where
  "ol_txrx_peer_qoscapable_get peer_id P = do {
     peer \<leftarrow> ol_txrx_peer_find_by_id (peer_tab P) peer_id;
     case peer of None \<Rightarrow> Some False | Some h \<Rightarrow> do { p \<leftarrow> get_peer P h; Some (qos_capable p) } }"

text \<open>When the device is detached, all peers are deleted, whoever refers to them.\<close>

definition erase_one :: "nat \<Rightarrow> ol_txrx_pdev_t \<Rightarrow> ol_txrx_pdev_t option" where
  "erase_one h P = do { P \<leftarrow> on_peers (upd_peer h (\<lambda>p. p\<lparr>ref_cnt := 1\<rparr>)) P; ol_txrx_peer_unref_delete h P }"

definition ol_txrx_peer_find_hash_erase :: "ol_txrx_pdev_t \<Rightarrow> ol_txrx_pdev_t option" where
  "ol_txrx_peer_find_hash_erase P =
     for_each [0..<unat (hash_mask (peer_tab P)) + 1] (\<lambda>i P. do {
       bin \<leftarrow> rd (hash_bins (peer_tab P)) i;
       for_each bin erase_one P }) P"

end
