(* ===== verification/Tx_Classify.thy ===== *)
theory Tx_Classify
  imports Peer_Life
begin

text \<open>
  The classification of frames (CLD_TXRX/TXRX/ol_tx_classify.c, adf_nbuf.c): the peer, the queue and the traffic
  identifier of a frame, from its bytes and the table of peers. Reading behind the end of a frame gives \<open>None\<close>.
  \<^verbatim>\<open>ATH_SUPPORT_WAPI\<close> and \<^verbatim>\<open>FEATURE_WLAN_TDLS\<close> are defined, \<^verbatim>\<open>QCA_TX_HTT2_SUPPORT\<close> and \<^verbatim>\<open>ADF_OS_DEBUG\<close> are not, and
  the classification extensions are empty macros.
\<close>

section \<open>Frames\<close>

text \<open>
  A frame of the network stack: its bytes, the priority that the stack has set, and whether it is exempt from
  encryption. \<open>tx_msdu_info\<close> are the members of \<^verbatim>\<open>struct ol_txrx_msdu_info_t\<close> that the classification reads or writes.
\<close>

record tx_msdu =
  msdu_data :: "u8 list"
  msdu_tid :: u8
  msdu_exempt :: bool

record tx_msdu_info =
  mi_peer :: "nat option"
  ethertype :: u16
  mi_peer_id :: u16
  ext_tid :: u8
  is_unicast :: bool
  l3_hdr_offset :: u8
  do_encrypt :: bool

datatype htt_pkt_type = htt_pkt_type_raw | htt_pkt_type_native_wifi | htt_pkt_type_ethernet

definition ETHERTYPE_IPV4 :: u16 where "ETHERTYPE_IPV4 = 0x0800"
definition ETHERTYPE_ARP :: u16 where "ETHERTYPE_ARP = 0x0806"
definition ETHERTYPE_VLAN :: u16 where "ETHERTYPE_VLAN = 0x8100"
definition ETHERTYPE_IPV6 :: u16 where "ETHERTYPE_IPV6 = 0x86DD"
definition ETHERTYPE_PAE :: u16 where "ETHERTYPE_PAE = 0x888E"
definition ETHERTYPE_WAI :: u16 where "ETHERTYPE_WAI = 0x88B4"

definition IS_ETHERTYPE :: "u16 \<Rightarrow> bool" where
  "IS_ETHERTYPE t \<longleftrightarrow> t \<ge> 0x0600"

definition ETHERTYPE_IS_EAPOL_WAPI :: "u16 \<Rightarrow> bool" where
  "ETHERTYPE_IS_EAPOL_WAPI t \<longleftrightarrow> t = ETHERTYPE_PAE \<or> t = ETHERTYPE_WAI"

text \<open>Two bytes in network order.\<close>

definition be16 :: "u8 \<Rightarrow> u8 \<Rightarrow> u16" where
  "be16 a b = push_bit 8 (ucast a) OR ucast b"

definition rd16 :: "u8 list \<Rightarrow> nat \<Rightarrow> u16 option" where
  "rd16 data i = do { a \<leftarrow> rd data i; b \<leftarrow> rd data (i + 1); Some (be16 a b) }"

definition adf_nbuf_is_dhcp_pkt :: "u8 list \<Rightarrow> bool option" where
  "adf_nbuf_is_dhcp_pkt data = do {
     SPort \<leftarrow> rd16 data (14 + 20);
     DPort \<leftarrow> rd16 data (14 + 20 + 2);
     Some (67 = SPort \<and> 68 = DPort \<or> 68 = SPort \<and> 67 = DPort) }"

definition adf_nbuf_is_eapol_pkt :: "u8 list \<Rightarrow> bool option" where
  "adf_nbuf_is_eapol_pkt data = do { ether_type \<leftarrow> rd16 data 12; Some (0x888E = ether_type) }"

text \<open>The address bytes at a position.\<close>

definition addr_at :: "u8 list \<Rightarrow> nat \<Rightarrow> mac option" where
  "addr_at data i = (if i + 6 \<le> length data then Some (take 6 (drop i data)) else None)"

definition ol_tx_dest_addr_find :: "wlan_frm_fmt \<Rightarrow> u8 list \<Rightarrow> mac option" where
  "ol_tx_dest_addr_find fmt data =
     (case fmt of
        wlan_frm_fmt_raw \<Rightarrow> addr_at data 4
      | wlan_frm_fmt_native_wifi \<Rightarrow> addr_at data 4
      | wlan_frm_fmt_802_3 \<Rightarrow> addr_at data 0
      | wlan_frm_fmt_unknown \<Rightarrow> None)"

definition IEEE80211_IS_MULTICAST :: "mac \<Rightarrow> bool" where
  "IEEE80211_IS_MULTICAST a \<longleftrightarrow> hd a AND 1 \<noteq> 0"

section \<open>The traffic identifier\<close>

definition TX_DHCP_TID :: u8 where "TX_DHCP_TID = 6"
definition TX_EAPOL_TID :: u8 where "TX_EAPOL_TID = 6"
definition TX_ARP_TID :: u8 where "TX_ARP_TID = 6"
definition TX_DEFAULT_TID :: u8 where "TX_DEFAULT_TID = 0"
definition OL_TX_NON_QOS_TID :: u8 where "OL_TX_NON_QOS_TID = 16"
definition HTT_NON_QOS_TID :: u8 where "HTT_NON_QOS_TID = 16"
definition HTT_TX_EXT_TID_INVALID :: u8 where "HTT_TX_EXT_TID_INVALID = 31"
definition ADF_NBUF_TX_EXT_TID_INVALID :: u8 where "ADF_NBUF_TX_EXT_TID_INVALID = 0x1f"

definition IEEE80211_FC0_TYPE_MASK :: u8 where "IEEE80211_FC0_TYPE_MASK = 0x0c"
definition IEEE80211_FC0_TYPE_DATA :: u8 where "IEEE80211_FC0_TYPE_DATA = 0x08"
definition IEEE80211_FC0_SUBTYPE_QOS :: u8 where "IEEE80211_FC0_SUBTYPE_QOS = 0x80"
definition IEEE80211_QOS_TID :: u8 where "IEEE80211_QOS_TID = 0x0f"

text \<open>\<open>pkt\<close> is the position of the IP header.\<close>

definition ol_tx_tid_by_ipv4 :: "u8 list \<Rightarrow> nat \<Rightarrow> u8 option" where
  "ol_tx_tid_by_ipv4 data pkt = do {
     tos \<leftarrow> rd data (pkt + 1);
     let ipPri = drop_bit 5 tos;
     Some (ipPri AND 0x7) }"

definition IPV6_TRAFFIC_CLASS :: "u8 list \<Rightarrow> nat \<Rightarrow> u8 option" where
  "IPV6_TRAFFIC_CLASS data pkt = do {
     hi \<leftarrow> rd16 data pkt;
     lo \<leftarrow> rd16 data (pkt + 2);
     let ver_tclass_flowlabel = (push_bit 16 (ucast hi) OR ucast lo :: u32);
     Some (ucast (drop_bit 20 (ver_tclass_flowlabel AND 0x0FF00000))) }"

definition ol_tx_tid_by_ipv6 :: "u8 list \<Rightarrow> nat \<Rightarrow> u8 option" where
  "ol_tx_tid_by_ipv6 data pkt = do { tc \<leftarrow> IPV6_TRAFFIC_CLASS data pkt; Some (drop_bit 5 tc AND 0x7) }"

definition ol_tx_set_ether_type :: "htt_pkt_type \<Rightarrow> u8 list \<Rightarrow> tx_msdu_info \<Rightarrow> tx_msdu_info option" where
  "ol_tx_set_ether_type l2_hdr_type data mi =
     (case l2_hdr_type of
        htt_pkt_type_raw \<Rightarrow> do {
          fc0 \<leftarrow> rd data 0;
          if fc0 AND IEEE80211_FC0_TYPE_MASK = IEEE80211_FC0_TYPE_DATA then do {
            let off = (if fc0 AND IEEE80211_FC0_SUBTYPE_QOS \<noteq> 0 then 26 else 24);
            t \<leftarrow> rd16 data (off + 6);
            Some (mi\<lparr>l3_hdr_offset := of_nat off, ethertype := t\<rparr>) }
          else Some mi }
      | htt_pkt_type_ethernet \<Rightarrow> do {
          typeorlength \<leftarrow> rd16 data 12;
          let l3 = 14;
          (typeorlength, l3) \<leftarrow> (if typeorlength = ETHERTYPE_VLAN
                                  then do { t \<leftarrow> rd16 data (12 + 4); Some (t, l3 + 4) }
                                  else Some (typeorlength, l3));
          (typeorlength, l3) \<leftarrow> (if \<not> IS_ETHERTYPE typeorlength
                                  then do { t \<leftarrow> rd16 data (l3 + 6); Some (t, l3 + 8) }
                                  else Some (typeorlength, l3));
          Some (mi\<lparr>l3_hdr_offset := of_nat l3, ethertype := typeorlength\<rparr>) }
      | htt_pkt_type_native_wifi \<Rightarrow> Some mi)"

definition ol_tx_tid_by_ether_type :: "u8 list \<Rightarrow> tx_msdu_info \<Rightarrow> u8 option" where
  "ol_tx_tid_by_ether_type data mi =
     (if ethertype mi = ETHERTYPE_IPV4 then ol_tx_tid_by_ipv4 data (unat (l3_hdr_offset mi))
      else if ethertype mi = ETHERTYPE_IPV6 then ol_tx_tid_by_ipv6 data (unat (l3_hdr_offset mi))
      else if ETHERTYPE_IS_EAPOL_WAPI (ethertype mi) then Some TX_EAPOL_TID
      else if ethertype mi = ETHERTYPE_ARP then Some TX_ARP_TID
      else Some TX_DEFAULT_TID)"

definition ol_tx_tid_by_raw_type :: "u8 list \<Rightarrow> u8 option" where
  "ol_tx_tid_by_raw_type data = do {
     fc0 \<leftarrow> rd data 0;
     if fc0 AND IEEE80211_FC0_TYPE_MASK = IEEE80211_FC0_TYPE_DATA then
       if fc0 AND IEEE80211_FC0_SUBTYPE_QOS \<noteq> 0 then do { q \<leftarrow> rd data 24; Some (q AND IEEE80211_QOS_TID) }
       else Some HTT_NON_QOS_TID
     else Some (of_nat HTT_TX_EXT_TID_NON_QOS_MCAST_BCAST) }"

definition ol_tx_tid :: "wlan_frm_fmt \<Rightarrow> u8 list \<Rightarrow> tx_msdu_info \<Rightarrow> (u8 \<times> tx_msdu_info) option" where
  "ol_tx_tid fmt data mi =
     (case fmt of
        wlan_frm_fmt_raw \<Rightarrow> do {
          mi \<leftarrow> ol_tx_set_ether_type htt_pkt_type_raw data mi;
          tid \<leftarrow> (if ext_tid mi = ADF_NBUF_TX_EXT_TID_INVALID then ol_tx_tid_by_raw_type data else Some (ext_tid mi));
          Some (tid, mi) }
      | wlan_frm_fmt_802_3 \<Rightarrow> do {
          mi \<leftarrow> ol_tx_set_ether_type htt_pkt_type_ethernet data mi;
          tid \<leftarrow> (if ext_tid mi = ADF_NBUF_TX_EXT_TID_INVALID then ol_tx_tid_by_ether_type data mi else Some (ext_tid mi));
          Some (tid, mi) }
      | wlan_frm_fmt_native_wifi \<Rightarrow> do {
          t \<leftarrow> rd16 data (24 + 6);
          Some (ext_tid mi, mi\<lparr>l3_hdr_offset := 24, ethertype := t\<rparr>) }
      | wlan_frm_fmt_unknown \<Rightarrow> Some (HTT_TX_EXT_TID_INVALID, mi))"

section \<open>The queue of a data frame\<close>

definition with_peers :: "(peer_db \<Rightarrow> ('a \<times> peer_db) option) \<Rightarrow> ol_txrx_pdev_t \<Rightarrow> ('a \<times> ol_txrx_pdev_t) option" where
  "with_peers f P = do { (x, D) \<leftarrow> f (peer_tab P); Some (x, P\<lparr>peer_tab := D\<rparr>) }"

definition peer_id0 :: "tx_peer_t \<Rightarrow> u16 option" where
  "peer_id0 p = rd (peer_ids p) 0"

text \<open>
  The branch for multicast frames and for OCB mode. The result has the queue (a null pointer ends the
  classification) and the peer.
\<close>

definition classify_mcast :: "ol_txrx_vdev_t \<Rightarrow> u8 list \<Rightarrow> tx_msdu_info \<Rightarrow> ol_txrx_pdev_t
    \<Rightarrow> ((txq_ref \<times> nat option) option \<times> tx_msdu_info \<times> ol_txrx_pdev_t) option" where
  "classify_mcast vdev data mi P = (
     let txq = VdevTxq (vdev_id vdev) OL_TX_VDEV_MCAST_BCAST;
         mi = mi\<lparr>ext_tid := of_nat HTT_TX_EXT_TID_NON_QOS_MCAST_BCAST\<rparr>
     in if opmode vdev = wlan_op_mode_sta then do {
          (peer, P) \<leftarrow> with_peers (ol_txrx_assoc_peer_find vdev) P;
          case peer of
            None \<Rightarrow> Some (None, mi, P)
          | Some h \<Rightarrow> do {
              p \<leftarrow> get_peer P h;
              dhcp \<leftarrow> (if sec_mcast p \<noteq> htt_sec_type_wapi then adf_nbuf_is_dhcp_pkt data else Some False);
              let (txq, mi) = (if dhcp then (PeerTxq h (unat TX_DHCP_TID), mi\<lparr>ext_tid := TX_DHCP_TID\<rparr>) else (txq, mi));
              id \<leftarrow> peer_id0 p;
              Some (Some (txq, Some h), mi\<lparr>mi_peer_id := id, is_unicast := False\<rparr>, P) } }
        else if opmode vdev = wlan_op_mode_ocb then
          Some (Some (txq, None), mi\<lparr>mi_peer_id := HTT_INVALID_PEER, is_unicast := False\<rparr>, P)
        else do {
          let mi = mi\<lparr>mi_peer_id := HTT_INVALID_PEER\<rparr>;
          (peer, P) \<leftarrow> with_peers (ol_txrx_peer_find_hash_find (vdev_mac_addr vdev) True) P;
          case peer of
            None \<Rightarrow> Some (None, mi, P)
          | Some h \<Rightarrow> Some (Some (txq, Some h), mi\<lparr>is_unicast := False\<rparr>, P) })"

text \<open>The peer of a unicast frame of a station: the access point of a TDLS link, or the one it is associated with.\<close>

definition sta_peer :: "ol_txrx_vdev_t \<Rightarrow> peer_db \<Rightarrow> (nat option \<times> peer_db) option" where
  "sta_peer vdev D = do {
     (peer, D) \<leftarrow> (if hlTdlsFlag vdev then do {
          (found, D) \<leftarrow> ol_txrx_find_peer_by_addr (hl_tdls_ap_mac_addr vdev) D;
          case found of
            None \<Rightarrow> Some (None, D)
          | Some (h, _) \<Rightarrow> do {
              p \<leftarrow> peer_objs D h;
              id \<leftarrow> peer_id0 p;
              if id = HTT_INVALID_PEER then Some (None, D) else do { D \<leftarrow> inc_ref h D; Some (Some h, D) } } }
        else Some (None, D));
     if peer = None then ol_txrx_assoc_peer_find vdev D else Some (peer, D) }"

definition classify_ucast :: "ol_txrx_vdev_t \<Rightarrow> mac \<Rightarrow> u8 list \<Rightarrow> tx_msdu_info \<Rightarrow> ol_txrx_pdev_t
    \<Rightarrow> ((txq_ref \<times> nat option) option \<times> tx_msdu_info \<times> ol_txrx_pdev_t) option" where
  "classify_ucast vdev dest_addr data mi P = do {
     (tid, mi) \<leftarrow> ol_tx_tid (frame_format P) data mi;
     if tid = HTT_TX_EXT_TID_INVALID \<or> unat tid \<ge> OL_TX_NUM_TIDS then Some (None, mi, P)
     else do {
       let mi = (if ethertype mi = ETHERTYPE_WAI then mi\<lparr>do_encrypt := False\<rparr> else mi);
       (peer, P) \<leftarrow> with_peers (if opmode vdev = wlan_op_mode_sta then sta_peer vdev
                               else ol_txrx_peer_find_hash_find dest_addr True) P;
       let mi = mi\<lparr>is_unicast := True\<rparr>;
       case peer of
         None \<Rightarrow> Some (None, mi, P)
       | Some h \<Rightarrow> do {
           p \<leftarrow> get_peer P h;
           tid \<leftarrow> (if \<not> qos_capable p then Some OL_TX_NON_QOS_TID
                   else if sec_ucast p \<noteq> htt_sec_type_wapi
                   then do { dhcp \<leftarrow> adf_nbuf_is_dhcp_pkt data; Some (if dhcp then TX_DHCP_TID else tid) }
                   else Some tid);
           let mi = (if peer_state p \<noteq> ol_txrx_peer_state_auth then mi\<lparr>do_encrypt := False\<rparr> else mi);
           id \<leftarrow> peer_id0 p;
           let mi = mi\<lparr>mi_peer_id := id, ext_tid := tid\<rparr>;
           if id = HTT_INVALID_PEER then do {
             P \<leftarrow> ol_txrx_peer_unref_delete h P;
             Some (None, mi\<lparr>mi_peer := None\<rparr>, P) }
           else Some (Some (PeerTxq h (unat tid), Some h), mi, P) } } }"

definition ol_tx_classify :: "ol_txrx_vdev_t \<Rightarrow> u8 list \<Rightarrow> tx_msdu_info \<Rightarrow> ol_txrx_pdev_t
    \<Rightarrow> (txq_ref option \<times> tx_msdu_info \<times> ol_txrx_pdev_t) option" where
  "ol_tx_classify vdev data mi P = do {
     dest_addr \<leftarrow> ol_tx_dest_addr_find (frame_format P) data;
     (res, mi, P) \<leftarrow> (if IEEE80211_IS_MULTICAST dest_addr \<or> opmode vdev = wlan_op_mode_ocb
                      then classify_mcast vdev data mi P else classify_ucast vdev dest_addr data mi P);
     case res of
       None \<Rightarrow> Some (None, mi, P)
     | Some (txq, peer) \<Rightarrow>
         let mi = mi\<lparr>mi_peer := peer\<rparr> in
         (case peer of
            Some h \<Rightarrow>
              if IEEE80211_IS_MULTICAST dest_addr \<and> opmode vdev \<noteq> wlan_op_mode_sta then do {
                P \<leftarrow> ol_txrx_peer_unref_delete h P;
                Some (Some txq, mi\<lparr>mi_peer := None\<rparr>, P) }
              else Some (Some txq, mi, P)
          | None \<Rightarrow> Some (Some txq, mi, P)) }"

section \<open>The queue of a management frame\<close>

definition mgmt_peer :: "ol_txrx_vdev_t \<Rightarrow> mac \<Rightarrow> peer_db \<Rightarrow> (nat option \<times> peer_db) option" where
  "mgmt_peer vdev dest_addr D =
     (if opmode vdev = wlan_op_mode_sta then do {
        (peer, D) \<leftarrow> ol_txrx_assoc_peer_find vdev D;
        case peer of
          None \<Rightarrow> Some (None, D)
        | Some h \<Rightarrow> do {
            p \<leftarrow> peer_objs D h;
            if ol_txrx_peer_find_mac_addr_cmp dest_addr (peer_mac p) then do { D \<leftarrow> dec_ref h D; Some (None, D) }
            else Some (Some h, D) } }
      else ol_txrx_peer_find_hash_find dest_addr True D)"

definition ol_tx_classify_mgmt :: "ol_txrx_vdev_t \<Rightarrow> u8 list \<Rightarrow> tx_msdu_info \<Rightarrow> ol_txrx_pdev_t
    \<Rightarrow> (txq_ref \<times> tx_msdu_info \<times> ol_txrx_pdev_t) option" where
  "ol_tx_classify_mgmt vdev data mi P = do {
     dest_addr \<leftarrow> ol_tx_dest_addr_find (frame_format P) data;
     if IEEE80211_IS_MULTICAST dest_addr then
       Some (VdevTxq (vdev_id vdev) OL_TX_VDEV_DEFAULT_MGMT,
             mi\<lparr>mi_peer_id := HTT_INVALID_PEER, mi_peer := None, is_unicast := False\<rparr>, P)
     else do {
       (peer, P) \<leftarrow> with_peers (mgmt_peer vdev dest_addr) P;
       let mi = mi\<lparr>mi_peer := peer\<rparr>;
       case peer of
         None \<Rightarrow> Some (VdevTxq (vdev_id vdev) OL_TX_VDEV_DEFAULT_MGMT,
                        mi\<lparr>mi_peer_id := HTT_INVALID_PEER, is_unicast := True\<rparr>, P)
       | Some h \<Rightarrow> do {
           p \<leftarrow> get_peer P h;
           id \<leftarrow> peer_id0 p;
           Some (PeerTxq h HTT_TX_EXT_TID_MGMT,
                 mi\<lparr>ext_tid := of_nat HTT_TX_EXT_TID_MGMT, mi_peer_id := id, is_unicast := True\<rparr>, P) } } }"

end
