(* ===== verification/Tx_Inv.thy ===== *)
theory Tx_Inv
  imports Tx_Flow
begin

text \<open>
  Consistency of the transmit queues and the scheduler: the counters of a queue match its frames, the scheduler
  lists exactly the active queues, each once and under its category, and the counters of a category are the sums
  over its queues. Every operation returns and keeps this, as long as no paused queue is freed.
\<close>

section \<open>The invariant\<close>

fun txq_valid :: "txq_ref \<Rightarrow> bool" where
  "txq_valid (PeerTxq peer tid) \<longleftrightarrow> tid < OL_TX_NUM_TIDS"
| "txq_valid (VdevTxq vdev i) \<longleftrightarrow> i < OL_TX_VDEV_NUM_QUEUES"

text \<open>
  The identifier under which the frames of a queue are announced to the scheduler. For the queues of a virtual
  device it is not the one of the queue, but the one that the classification of the frames sets
  (\<^verbatim>\<open>ol_tx_classify\<close> and \<^verbatim>\<open>ol_txrx_mgmt_send\<close>).
\<close>

fun ref_tid :: "txq_ref \<Rightarrow> nat" where
  "ref_tid (PeerTxq peer tid) = tid"
| "ref_tid (VdevTxq vdev i) =
     (if i = OL_TX_VDEV_MCAST_BCAST then HTT_TX_EXT_TID_NON_QOS_MCAST_BCAST else HTT_TX_EXT_TID_MGMT)"

definition queue_ok :: "nat \<Rightarrow> ol_tx_frms_queue_t \<Rightarrow> bool" where
  "queue_ok ngrps q \<longleftrightarrow>
     unat (q_frms q) = length (q_head q) \<and>
     q_bytes q = sum_list (map netbuf_len (q_head q)) \<and>
     (q_flag q = ol_tx_queue_active \<longrightarrow> q_head q \<noteq> []) \<and>
     (q_flag q = ol_tx_queue_empty \<longrightarrow> q_head q = []) \<and>
     (q_flag q = ol_tx_queue_paused \<longleftrightarrow> paused_count_total q \<noteq> 0) \<and>
     length (group_ptrs q) = OL_TX_MAX_GROUPS_PER_QUEUE \<and>
     list_all (\<lambda>g. case g of None \<Rightarrow> True | Some i \<Rightarrow> i < ngrps) (group_ptrs q)"

definition frms_sum :: "(txq_ref \<Rightarrow> ol_tx_frms_queue_t) \<Rightarrow> txq_ref list \<Rightarrow> int" where
  "frms_sum qs rs = sum_list (map (\<lambda>r. uint (q_frms (qs r))) rs)"

definition bytes_sum :: "(txq_ref \<Rightarrow> ol_tx_frms_queue_t) \<Rightarrow> txq_ref list \<Rightarrow> u32" where
  "bytes_sum qs rs = sum_list (map (\<lambda>r. q_bytes (qs r)) rs)"

definition lists_active :: "(txq_ref \<Rightarrow> ol_tx_frms_queue_t) \<Rightarrow> nat list \<Rightarrow> nat \<Rightarrow> txq_ref list \<Rightarrow> bool" where
  "lists_active qs ac c rs \<longleftrightarrow> distinct rs \<and>
     (\<forall>r. r \<in> set rs \<longleftrightarrow> txq_valid r \<and> q_flag (qs r) = ol_tx_queue_active \<and> ac ! ref_tid r = c)"

definition category_ok :: "(txq_ref \<Rightarrow> ol_tx_frms_queue_t) \<Rightarrow> nat list \<Rightarrow> nat
    \<Rightarrow> ol_tx_sched_wrr_adv_category_info_t \<Rightarrow> bool" where
  "category_ok qs ac c cat \<longleftrightarrow>
     lists_active qs ac c (c_head cat) \<and>
     c_frms cat = frms_sum qs (c_head cat) \<and>
     c_bytes cat = bytes_sum qs (c_head cat) \<and>
     (c_active cat \<longleftrightarrow> c_head cat \<noteq> [])"

definition order_ok :: "ol_tx_sched_wrr_adv_t \<Rightarrow> bool" where
  "order_ok S \<longleftrightarrow> distinct (order S) \<and> set (order S) = {..<OL_TX_SCHED_WRR_ADV_NUM_CATEGORIES} \<and>
     length (categories S) = OL_TX_SCHED_WRR_ADV_NUM_CATEGORIES"

definition sched_ok :: "(txq_ref \<Rightarrow> ol_tx_frms_queue_t) \<Rightarrow> nat list \<Rightarrow> ol_tx_sched_wrr_adv_t \<Rightarrow> bool" where
  "sched_ok qs ac S \<longleftrightarrow> order_ok S \<and>
     (\<forall>c<OL_TX_SCHED_WRR_ADV_NUM_CATEGORIES. category_ok qs ac c (categories S ! c))"

definition ac_ok :: "nat list \<Rightarrow> bool" where
  "ac_ok ac \<longleftrightarrow> length ac = OL_TX_NUM_TIDS + OL_TX_VDEV_NUM_QUEUES \<and>
     list_all (\<lambda>c. c < OL_TX_SCHED_WRR_ADV_NUM_CATEGORIES) ac"

definition tx_inv :: "ol_txrx_pdev_t \<Rightarrow> bool" where
  "tx_inv P \<longleftrightarrow> ac_ok (tid_to_ac P) \<and>
     (\<forall>r. txq_valid r \<longrightarrow> queue_ok (length (txq_grps P)) (tx_queues P r)) \<and>
     (\<exists>S. scheduler P = Some S \<and> sched_ok (tx_queues P) (tid_to_ac P) S)"

section \<open>Changing one queue and its category\<close>

lemma ref_tid_ac:
  assumes "ac_ok ac" and "txq_valid r"
  shows "ref_tid r < length ac" and "ac ! ref_tid r < OL_TX_SCHED_WRR_ADV_NUM_CATEGORIES"
proof -
  show l: "ref_tid r < length ac" using assms by (cases r) (auto simp: ac_ok_def HTT_TX_EXT_TID_MGMT_def HTT_TX_EXT_TID_NON_QOS_MCAST_BCAST_def OL_TX_NUM_TIDS_def OL_TX_VDEV_NUM_QUEUES_def)
  with assms(1) show "ac ! ref_tid r < OL_TX_SCHED_WRR_ADV_NUM_CATEGORIES"
    by (simp add: ac_ok_def list_all_length)
qed

lemma sum_other [simp]:
  "r \<notin> set rs \<Longrightarrow> frms_sum (qs(r := q)) rs = frms_sum qs rs"
  "r \<notin> set rs \<Longrightarrow> bytes_sum (qs(r := q)) rs = bytes_sum qs rs"
  by (auto simp: frms_sum_def bytes_sum_def intro!: arg_cong [where f = sum_list])

lemma sum_append [simp]:
  "frms_sum qs (rs @ rs') = frms_sum qs rs + frms_sum qs rs'"
  "bytes_sum qs (rs @ rs') = bytes_sum qs rs + bytes_sum qs rs'"
  by (auto simp: frms_sum_def bytes_sum_def)

lemma sum_Cons [simp]:
  "frms_sum qs (r # rs) = uint (q_frms (qs r)) + frms_sum qs rs"
  "bytes_sum qs (r # rs) = q_bytes (qs r) + bytes_sum qs rs"
  "frms_sum qs [] = 0" "bytes_sum qs [] = 0"
  by (auto simp: frms_sum_def bytes_sum_def)

lemma sum_remove1:
  assumes "r \<in> set rs"
  shows "frms_sum qs (remove1 r rs) = frms_sum qs rs - uint (q_frms (qs r))"
    and "bytes_sum qs (remove1 r rs) = bytes_sum qs rs - q_bytes (qs r)"
  using assms by (auto simp: frms_sum_def bytes_sum_def sum_list_map_remove1)

lemma frms_sum_nonneg: "0 \<le> frms_sum qs rs"
  unfolding frms_sum_def by (rule sum_list_nonneg) auto

lemma frms_sum_0:
  assumes "\<And>r. r \<in> set rs \<Longrightarrow> q_frms (qs r) \<noteq> 0"
  shows "frms_sum qs rs = 0 \<longleftrightarrow> rs = []"
proof (cases rs)
  case (Cons r rs')
  then have "0 < uint (q_frms (qs r))"
    using assms [of r] by (simp add: uint_0_iff order_less_le)
  then show ?thesis using Cons frms_sum_nonneg [of qs rs'] by simp
qed simp

text \<open>Other categories do not notice.\<close>

lemma category_ok_other:
  assumes "category_ok qs ac c cat" and "ac ! ref_tid r \<noteq> c"
  shows "category_ok (qs(r := q)) ac c cat"
proof -
  have "r \<notin> set (c_head cat)" using assms by (auto simp: category_ok_def lists_active_def)
  then show ?thesis using assms by (auto simp: category_ok_def lists_active_def)
qed

text \<open>A queue that is inactive before and after.\<close>

lemma category_ok_idle:
  assumes "category_ok qs ac c cat" and "q_flag (qs r) \<noteq> ol_tx_queue_active" and "q_flag q \<noteq> ol_tx_queue_active"
  shows "category_ok (qs(r := q)) ac c cat"
proof -
  have "r \<notin> set (c_head cat)" using assms by (auto simp: category_ok_def lists_active_def)
  then show ?thesis using assms by (auto simp: category_ok_def lists_active_def)
qed

text \<open>A queue that becomes active.\<close>

lemma category_ok_activate:
  assumes "category_ok qs ac c cat" and "q_flag (qs r) \<noteq> ol_tx_queue_active"
    and "q_flag q = ol_tx_queue_active" and "txq_valid r" and "ac ! ref_tid r = c"
  shows "category_ok (qs(r := q)) ac c
    (cat\<lparr>c_frms := c_frms cat + uint (q_frms q), c_bytes := c_bytes cat + q_bytes q,
         c_head := c_head cat @ [r], c_active := True\<rparr>)"
proof -
  have "r \<notin> set (c_head cat)" using assms by (auto simp: category_ok_def lists_active_def)
  then show ?thesis using assms by (auto simp: category_ok_def lists_active_def)
qed

text \<open>An active queue whose frames change; its place in the list may change too.\<close>

lemma category_ok_change:
  assumes "category_ok qs ac c cat" and "r \<in> set (c_head cat)" and "q_flag q = ol_tx_queue_active"
    and "distinct rs" and "set rs = set (c_head cat)"
    and "f = c_frms cat + uint (q_frms q) - uint (q_frms (qs r))" and "b = c_bytes cat + q_bytes q - q_bytes (qs r)"
  shows "category_ok (qs(r := q)) ac c (cat\<lparr>c_frms := f, c_bytes := b, c_head := rs\<rparr>)"
proof -
  have perm: "frms_sum qs' rs = frms_sum qs' (c_head cat)" "bytes_sum qs' rs = bytes_sum qs' (c_head cat)" for qs'
  proof -
    have "distinct (c_head cat)" using assms(1) by (simp add: category_ok_def lists_active_def)
    then show "frms_sum qs' rs = frms_sum qs' (c_head cat)" "bytes_sum qs' rs = bytes_sum qs' (c_head cat)"
      using assms(4,5) by (simp_all add: frms_sum_def bytes_sum_def sum_list_distinct_conv_sum_set)
  qed
  have split: "frms_sum (qs(r := q)) (c_head cat) = frms_sum qs (c_head cat) + uint (q_frms q) - uint (q_frms (qs r))"
    "bytes_sum (qs(r := q)) (c_head cat) = bytes_sum qs (c_head cat) + q_bytes q - q_bytes (qs r)"
  proof -
    have "r \<notin> set (remove1 r (c_head cat))" using assms(1) by (simp add: category_ok_def lists_active_def)
    then have
      "frms_sum (qs(r := q)) (c_head cat) = frms_sum qs (remove1 r (c_head cat)) + uint (q_frms q)"
      "bytes_sum (qs(r := q)) (c_head cat) = bytes_sum qs (remove1 r (c_head cat)) + q_bytes q"
      "frms_sum qs (c_head cat) = frms_sum qs (remove1 r (c_head cat)) + uint (q_frms (qs r))"
      "bytes_sum qs (c_head cat) = bytes_sum qs (remove1 r (c_head cat)) + q_bytes (qs r)"
      using sum_remove1 [OF assms(2), of qs] sum_remove1 [OF assms(2), of "qs(r := q)"]
      by (simp_all add: algebra_simps)
    then show "frms_sum (qs(r := q)) (c_head cat) = frms_sum qs (c_head cat) + uint (q_frms q) - uint (q_frms (qs r))"
      "bytes_sum (qs(r := q)) (c_head cat) = bytes_sum qs (c_head cat) + q_bytes q - q_bytes (qs r)"
      by simp_all
  qed
  have "rs = [] \<longleftrightarrow> c_head cat = []" using assms(5) by (metis set_empty)
  then show ?thesis using assms(1-4,6,7) perm split assms(5)
    by (auto simp: category_ok_def lists_active_def)
qed

text \<open>A queue that leaves the list.\<close>

lemma category_ok_remove:
  assumes "category_ok qs ac c cat" and "r \<in> set (c_head cat)" and "q_flag q \<noteq> ol_tx_queue_active"
    and f: "f = c_frms cat - uint (q_frms (qs r))" and "b = c_bytes cat - q_bytes (qs r)"
    and nz: "\<And>r. r \<in> set (c_head cat) \<Longrightarrow> q_frms (qs r) \<noteq> 0"
    and act: "a = (if f = 0 then False else c_active cat)"
  shows "category_ok (qs(r := q)) ac c (cat\<lparr>c_frms := f, c_bytes := b, c_head := remove1 r (c_head cat), c_active := a\<rparr>)"
proof -
  have d: "distinct (c_head cat)" and fr: "c_frms cat = frms_sum qs (c_head cat)"
    using assms(1) by (auto simp: category_ok_def lists_active_def)
  have "f = 0 \<longleftrightarrow> remove1 r (c_head cat) = []"
    using frms_sum_0 [of "remove1 r (c_head cat)" qs] nz notin_set_remove1
    by (metis f fr sum_remove1(1) assms(2) set_remove1_subset subsetD)
  moreover have "c_active cat" using assms(1,2) by (auto simp: category_ok_def)
  ultimately show ?thesis using assms(1-5) d sum_remove1 [OF assms(2), of qs] act
    by (auto simp: category_ok_def lists_active_def set_remove1_eq)
qed

text \<open>The device after one queue and its category changed.\<close>

lemma tx_inv_update:
  assumes "tx_inv P" and "txq_valid r" and "scheduler P = Some S" and "c = tid_to_ac P ! ref_tid r"
    and "queue_ok (length (txq_grps P)) q"
    and "category_ok ((tx_queues P)(r := q)) (tid_to_ac P) c cat"
    and "scheduler P' = Some (upd_category c (\<lambda>_. cat) S)" and "tx_queues P' = (tx_queues P)(r := q)"
    and "tid_to_ac P' = tid_to_ac P" and "length (txq_grps P') = length (txq_grps P)"
  shows "tx_inv P'"
proof -
  have S: "order_ok S" "\<And>d. d < OL_TX_SCHED_WRR_ADV_NUM_CATEGORIES \<Longrightarrow> category_ok (tx_queues P) (tid_to_ac P) d (categories S ! d)"
    using assms(1,3) by (auto simp: tx_inv_def sched_ok_def)
  have "category_ok ((tx_queues P)(r := q)) (tid_to_ac P) d ((categories S)[c := cat] ! d)"
    if "d < OL_TX_SCHED_WRR_ADV_NUM_CATEGORIES" for d
    using that assms(4,6) S category_ok_other [of "tx_queues P" "tid_to_ac P" d "categories S ! d" r]
    by (cases "d = c") (auto simp: order_ok_def)
  then have "sched_ok ((tx_queues P)(r := q)) (tid_to_ac P) (upd_category c (\<lambda>_. cat) S)"
    using S(1) by (auto simp: sched_ok_def order_ok_def upd_category_def)
  then show ?thesis using assms by (auto simp: tx_inv_def)
qed

lemma upd_category_id:
  "length (categories S) = OL_TX_SCHED_WRR_ADV_NUM_CATEGORIES \<Longrightarrow> upd_category c (\<lambda>_. categories S ! c) S = S"
  by (simp add: upd_category_def)

text \<open>A queue that is not active before and after leaves the scheduler alone.\<close>

lemma tx_inv_idle:
  assumes "tx_inv P" and "txq_valid r" and "q_flag (tx_queues P r) \<noteq> ol_tx_queue_active"
    and "q_flag q \<noteq> ol_tx_queue_active" and "queue_ok (length (txq_grps P)) q"
    and "scheduler P' = scheduler P" and "tx_queues P' = (tx_queues P)(r := q)"
    and "tid_to_ac P' = tid_to_ac P" and "length (txq_grps P') = length (txq_grps P)"
  shows "tx_inv P'"
proof -
  obtain S where S: "scheduler P = Some S" "sched_ok (tx_queues P) (tid_to_ac P) S"
    using assms(1) by (auto simp: tx_inv_def)
  then have "sched_ok ((tx_queues P)(r := q)) (tid_to_ac P) S"
    using assms(3,4) by (auto simp: sched_ok_def intro: category_ok_idle)
  then show ?thesis using assms S by (auto simp: tx_inv_def)
qed

text \<open>What the invariant says of a queue and its category.\<close>

lemma tx_inv_category:
  assumes "tx_inv P" and "txq_valid r" and "scheduler P = Some S"
  obtains c where "rd (tid_to_ac P) (ref_tid r) = Some c" "c = tid_to_ac P ! ref_tid r"
    "c < OL_TX_SCHED_WRR_ADV_NUM_CATEGORIES" "rd (categories S) c = Some (categories S ! c)"
    "category_ok (tx_queues P) (tid_to_ac P) c (categories S ! c)"
proof -
  have ac: "ac_ok (tid_to_ac P)" and S: "sched_ok (tx_queues P) (tid_to_ac P) S"
    using assms(1,3) by (auto simp: tx_inv_def)
  show ?thesis
    by (rule that [of "tid_to_ac P ! ref_tid r"])
      (use ref_tid_ac [OF ac assms(2)] S in \<open>auto simp: sched_ok_def order_ok_def\<close>)
qed

lemma tx_inv_scheduler:
  assumes "tx_inv P"
  obtains S where "scheduler P = Some S" "sched_ok (tx_queues P) (tid_to_ac P) S"
  using assms by (auto simp: tx_inv_def)

lemma tx_inv_queue: "tx_inv P \<Longrightarrow> txq_valid r \<Longrightarrow> queue_ok (length (txq_grps P)) (tx_queues P r)"
  by (simp add: tx_inv_def)

lemma queue_ok_frms:
  assumes "queue_ok n q"
  shows "q_frms q = 0 \<longleftrightarrow> q_head q = []" and "length (q_head q) < 65536"
  using assms unat_u16 [of "q_frms q"] by (auto simp: queue_ok_def unat_eq_0 [symmetric] simp del: unat_eq_0)

lemma listed_nonempty:
  assumes "tx_inv P" and "category_ok (tx_queues P) ac c cat" and "r \<in> set (c_head cat)"
  shows "q_frms (tx_queues P r) \<noteq> 0" and "txq_valid r"
proof -
  show v: "txq_valid r" using assms(2,3) by (auto simp: category_ok_def lists_active_def)
  have "q_flag (tx_queues P r) = ol_tx_queue_active"
    using assms(2,3) by (auto simp: category_ok_def lists_active_def)
  then show "q_frms (tx_queues P r) \<noteq> 0"
    using tx_inv_queue [OF assms(1) v] queue_ok_frms(1) [of "length (txq_grps P)" "tx_queues P r"]
    by (auto simp: queue_ok_def)
qed

section \<open>Taking frames from a queue\<close>

lemma frms_sub:
  assumes "unat w = n" and "k \<le> n"
  shows "unat (w - of_nat k :: u16) = n - k" and "uint w - uint (w - of_nat k :: u16) = int k"
    and "uint (of_nat k :: u16) = int k"
proof -
  have k: "unat (of_nat k :: u16) = k" using assms unat_u16 [of w] by (intro unat_word_of_nat) simp
  have le: "of_nat k \<le> w" using k assms by (simp add: word_le_nat_alt)
  show u: "unat (w - of_nat k :: u16) = n - k" using unat_sub [OF le] k assms by simp
  show uk: "uint (of_nat k :: u16) = int k" using k by (metis uint_nat)
  show "uint w - uint (w - of_nat k :: u16) = int k"
    using uint_minus_simple_alt le uk by (metis add_diff_cancel_left' diff_add_cancel)
qed

text \<open>The number of frames \<^verbatim>\<open>ol_tx_dequeue\<close> takes.\<close>

definition batch_size :: "ol_tx_frms_queue_t \<Rightarrow> u16 \<Rightarrow> u32 \<Rightarrow> nat" where
  "batch_size q max_frames credit = min (min (length (q_head q)) (unat max_frames)) (unat credit)"

lemma ol_tx_dequeue_takes:
  assumes "queue_ok n q"
  shows "ol_tx_dequeue q max_frames credit = (let k = batch_size q max_frames credit in
    Some (q\<lparr>q_head := drop k (q_head q), q_frms := q_frms q - of_nat k,
            q_bytes := q_bytes q - sum_list (map netbuf_len (take k (q_head q))),
            q_flag := (if k = length (q_head q) \<and> q_flag q = ol_tx_queue_active then ol_tx_queue_empty else q_flag q)\<rparr>,
          take k (q_head q), of_nat k, of_nat k, sum_list (map netbuf_len (take k (q_head q)))))"
proof -
  define m where "m = (if q_frms q < max_frames then q_frms q else max_frames)"
  define k where "k = batch_size q max_frames credit"
  have len: "unat (q_frms q) = length (q_head q)" using assms by (simp add: queue_ok_def)
  have m: "unat m = min (length (q_head q)) (unat max_frames)"
    using len by (auto simp: m_def word_less_nat_alt min_def)
  have k: "k = min (unat m) (unat credit)" by (simp add: k_def batch_size_def m)
  have loop: "dequeue_loop (unat m) credit 0 0 (q_head q) =
      Some (take k (q_head q), drop k (q_head q), of_nat k, sum_list (map netbuf_len (take k (q_head q))))"
    using dequeue_loop_takes [of "unat m" "q_head q" 0 credit 0] m unat_u16 [of m] by (simp add: k Let_def)
  have kl: "k \<le> length (q_head q)" "k < 65536" using m k unat_u16 [of m] by auto
  have z: "q_frms q - of_nat k = 0 \<longleftrightarrow> k = length (q_head q)"
    using frms_sub(1) [OF len kl(1)] kl(1) by (auto simp: unat_eq_0 [symmetric] simp del: unat_eq_0)
  show ?thesis
    using loop kl z by (simp add: ol_tx_dequeue_def m_def [symmetric] k_def [symmetric] Let_def)
qed

lemma drop_sum: "sum_list (map f (drop k xs)) = sum_list (map f xs) - sum_list (map f (take k xs))" for f :: "'b \<Rightarrow> u32"
  by (metis add_diff_cancel_left' append_take_drop_id map_append sum_list.append)

text \<open>The queue that is left, and what a category has to account for.\<close>

lemma dequeue_queue_ok:
  assumes "queue_ok n q" and "k \<le> length (q_head q)" and "q_flag q = ol_tx_queue_active"
  shows "queue_ok n (q\<lparr>q_head := drop k (q_head q), q_frms := q_frms q - of_nat k,
            q_bytes := q_bytes q - sum_list (map netbuf_len (take k (q_head q))),
            q_flag := (if k = length (q_head q) then ol_tx_queue_empty else ol_tx_queue_active)\<rparr>)"
  using assms frms_sub(1) [of "q_frms q" "length (q_head q)" k]
  by (auto simp: queue_ok_def drop_sum)

text \<open>
  Taking \<open>k\<close> frames from a listed queue: the category with the counters lowered, where the queue is gone when it
  is empty and may have moved otherwise.
\<close>

lemma category_ok_take:
  assumes inv: "tx_inv P" and cat: "category_ok (tx_queues P) ac c cat" and r: "r \<in> set (c_head cat)"
    and q: "q = tx_queues P r" and k: "k \<le> length (q_head q)"
    and q': "q' = q\<lparr>q_head := drop k (q_head q), q_frms := q_frms q - of_nat k,
            q_bytes := q_bytes q - sum_list (map netbuf_len (take k (q_head q))),
            q_flag := (if k = length (q_head q) then ol_tx_queue_empty else ol_tx_queue_active)\<rparr>"
    and f: "f = c_frms cat - int k" and b: "b = c_bytes cat - sum_list (map netbuf_len (take k (q_head q)))"
    and rs: "rs = (if k = length (q_head q) then remove1 r (c_head cat) else rs')"
    and rs': "distinct rs'" "set rs' = set (c_head cat)"
    and a: "a = (if k = length (q_head q) then (if f = 0 then False else c_active cat) else c_active cat)"
  shows "category_ok ((tx_queues P)(r := q')) ac c (cat\<lparr>c_frms := f, c_bytes := b, c_head := rs, c_active := a\<rparr>)"
proof -
  have qok: "queue_ok (length (txq_grps P)) q"
    using tx_inv_queue [OF inv listed_nonempty(2) [OF inv cat r]] q by simp
  then have len: "unat (q_frms q) = length (q_head q)" by (simp add: queue_ok_def)
  have bytes: "q_bytes q = sum_list (map netbuf_len (q_head q))" using qok by (simp add: queue_ok_def)
  show ?thesis
  proof (cases "k = length (q_head q)")
    case True
    have "uint (q_frms q) = int k" using len True by (metis uint_nat)
    then show ?thesis
      using category_ok_remove [OF cat r, of q' f b a] listed_nonempty(1) [OF inv cat] True f b rs a q' q bytes
      by simp
  next
    case False
    have "f = c_frms cat + uint (q_frms q') - uint (q_frms q)"
      using frms_sub(2) [OF len k] by (simp add: f q')
    moreover have "b = c_bytes cat + q_bytes q' - q_bytes q" by (simp add: b q')
    ultimately have "category_ok ((tx_queues P)(r := q')) ac c (cat\<lparr>c_frms := f, c_bytes := b, c_head := rs'\<rparr>)"
      using category_ok_change [OF cat r, of q' rs' f b] rs' False q q' by simp
    then show ?thesis using False rs a by simp
  qed
qed

end
