(* ===== verification/Peer_Class.thy ===== *)
theory Peer_Class
  imports Tx_Classify Peer_Inv Tx_Inv
begin

text \<open>
  What the classification of a frame does on a consistent table of peers: it returns, chooses a queue together with
  the identifier that the queue has for the scheduler, and holds one reference on the peer that it reports.
\<close>

section \<open>Peers that are found\<close>

definition took_ref :: "ol_txrx_pdev_t \<Rightarrow> nat option \<Rightarrow> ol_txrx_pdev_t \<Rightarrow> bool" where
  "took_ref P peer P' \<longleftrightarrow> (case peer of None \<Rightarrow> P' = P
     | Some h \<Rightarrow> peer_objs (peer_tab P) h \<noteq> None \<and> P' = P\<lparr>peer_tab := held h (peer_tab P)\<rparr>)"

definition finds :: "(peer_db \<Rightarrow> (nat option \<times> peer_db) option) \<Rightarrow> peer_db \<Rightarrow> bool" where
  "finds f D \<longleftrightarrow> f D = Some (None, D) \<or> (\<exists>h p. peer_objs D h = Some p \<and> f D = Some (Some h, held h D))"

lemma finds_with_peers:
  assumes "finds f (peer_tab P)"
  obtains peer P' where "with_peers f P = Some (peer, P')" "took_ref P peer P'"
proof -
  have "f (peer_tab P) = Some (None, peer_tab P) \<Longrightarrow> with_peers f P = Some (None, P)" by (simp add: with_peers_def)
  then show thesis using assms that unfolding finds_def took_ref_def with_peers_def by fastforce
qed

lemma hash_find_finds:
  assumes "peers_ok D" and "length m = 6"
  shows "finds (ol_txrx_peer_find_hash_find m v) D"
  unfolding ol_txrx_peer_find_hash_find_def finds_def hash_search_first [OF assms]
  by (auto elim: first_peer_Some [OF assms(1)] split: option.splits)

lemma assoc_find_finds:
  assumes "peers_ok D" and "\<And>h. last_real_peer vdev = Some h \<Longrightarrow> peer_objs D h \<noteq> None"
  shows "finds (ol_txrx_assoc_peer_find vdev) D"
proof (cases "last_real_peer vdev")
  case (Some h)
  then obtain p where p: "peer_objs D h = Some p" using assms(2) by blast
  then have "0 < length (peer_ids p)" using peer_okD [OF assms(1)] by (simp add: peer_ok_def MAX_NUM_PEER_ID_PER_PEER_def)
  then show ?thesis using Some p by (simp add: finds_def ol_txrx_assoc_peer_find_def inc_ref_held)
qed (simp add: finds_def ol_txrx_assoc_peer_find_def)

lemma find_by_addr_found:
  assumes "peers_ok D" and "length m = 6"
  shows "ol_txrx_find_peer_by_addr m D = Some (None, D) \<or>
    (\<exists>h p. peer_objs D h = Some p \<and> ol_txrx_find_peer_by_addr m D = Some (Some (h, ucast (peer_local_id p)), D))"
  using hash_find_finds [OF assms, of True] by (auto simp: finds_def ol_txrx_find_peer_by_addr_def dec_ref_held)

definition sender_ok :: "ol_txrx_vdev_t \<Rightarrow> ol_txrx_pdev_t \<Rightarrow> bool" where
  "sender_ok vdev P \<longleftrightarrow> length (vdev_mac_addr vdev) = 6 \<and> length (hl_tdls_ap_mac_addr vdev) = 6 \<and>
     (\<forall>h. last_real_peer vdev = Some h \<longrightarrow> peer_objs (peer_tab P) h \<noteq> None)"

lemma sta_peer_finds:
  assumes "peers_ok (peer_tab P)" and "sender_ok vdev P"
  shows "finds (sta_peer vdev) (peer_tab P)"
proof -
  let ?D = "peer_tab P"
  have a: "finds (ol_txrx_assoc_peer_find vdev) ?D"
    by (rule assoc_find_finds [OF assms(1)]) (use assms(2) in \<open>simp add: sender_ok_def\<close>)
  have f: "ol_txrx_find_peer_by_addr (hl_tdls_ap_mac_addr vdev) ?D = Some (None, ?D) \<or>
    (\<exists>h p. peer_objs ?D h = Some p \<and> ol_txrx_find_peer_by_addr (hl_tdls_ap_mac_addr vdev) ?D = Some (Some (h, ucast (peer_local_id p)), ?D))"
    by (rule find_by_addr_found [OF assms(1)]) (use assms(2) in \<open>simp add: sender_ok_def\<close>)
  have ids: "0 < length (peer_ids p)" if "peer_objs ?D h = Some p" for h p
    using peer_okD [OF assms(1) that] by (simp add: peer_ok_def MAX_NUM_PEER_ID_PER_PEER_def)
  show ?thesis using f
  proof
    assume "ol_txrx_find_peer_by_addr (hl_tdls_ap_mac_addr vdev) ?D = Some (None, ?D)"
    then show ?thesis using a by (auto simp: finds_def sta_peer_def)
  next
    assume "\<exists>h p. peer_objs ?D h = Some p \<and> ol_txrx_find_peer_by_addr (hl_tdls_ap_mac_addr vdev) ?D = Some (Some (h, ucast (peer_local_id p)), ?D)"
    then obtain h p where h: "peer_objs ?D h = Some p"
      "ol_txrx_find_peer_by_addr (hl_tdls_ap_mac_addr vdev) ?D = Some (Some (h, ucast (peer_local_id p)), ?D)" by blast
    then show ?thesis using a ids [OF h(1)] inc_ref_held [OF h(1)]
      by (cases "peer_ids p ! 0 = HTT_INVALID_PEER") (auto simp: finds_def sta_peer_def peer_id0_def)
  qed
qed

lemma mgmt_peer_finds:
  assumes "peers_ok (peer_tab P)" and "sender_ok vdev P" and "length m = 6"
  shows "finds (mgmt_peer vdev m) (peer_tab P)"
proof (cases "opmode vdev = wlan_op_mode_sta")
  case True
  have a: "finds (ol_txrx_assoc_peer_find vdev) (peer_tab P)"
    by (rule assoc_find_finds [OF assms(1)]) (use assms(2) in \<open>simp add: sender_ok_def\<close>)
  then show ?thesis
  proof (cases "ol_txrx_assoc_peer_find vdev (peer_tab P) = Some (None, peer_tab P)")
    case False
    then obtain h p where "peer_objs (peer_tab P) h = Some p" "ol_txrx_assoc_peer_find vdev (peer_tab P) = Some (Some h, held h (peer_tab P))"
      using a by (auto simp: finds_def)
    then show ?thesis using True
      by (cases "ol_txrx_peer_find_mac_addr_cmp m (peer_mac p)") (auto simp: finds_def mgmt_peer_def dec_ref_held)
  qed (use True in \<open>simp add: finds_def mgmt_peer_def\<close>)
next
  case False
  then show ?thesis using hash_find_finds [OF assms(1,3), of True] by (simp add: finds_def mgmt_peer_def)
qed

text \<open>A reference that was taken on a peer of the table is given back without deleting the peer.\<close>

lemma unref_held:
  assumes "peers_ok D" and "peer_objs D h \<noteq> None" and "peer_tab Q = held h D"
  shows "ol_txrx_peer_unref_delete h Q = Some (Q\<lparr>peer_tab := D\<rparr>)"
proof -
  obtain p where p: "peer_objs D h = Some p" using assms(2) by blast
  have pos: "0 < ref_cnt p" using peer_okD [OF assms(1) p] by (simp add: peer_ok_def)
  show ?thesis using p pos assms(3)
    by (simp add: ol_txrx_peer_unref_delete_def get_peer_def on_peers_def dec_ref_held)
qed

lemma unref_took:
  assumes "peers_ok (peer_tab P)" and "took_ref P peer P'" and "peer_tab Q = peer_tab P'"
  shows "(case peer of None \<Rightarrow> Some Q | Some h \<Rightarrow> ol_txrx_peer_unref_delete h Q) = Some (Q\<lparr>peer_tab := peer_tab P\<rparr>)"
  using assms unref_held [OF assms(1)] by (cases peer) (auto simp: took_ref_def)

section \<open>Long frames\<close>

definition long_enough :: "u8 list \<Rightarrow> bool" where
  "long_enough data \<longleftrightarrow> 38 \<le> length data"

lemma rd_long: "long_enough data \<Longrightarrow> i < 38 \<Longrightarrow> \<exists>x. rd data i = Some x"
  by (simp add: long_enough_def)

lemma rd16_long: "long_enough data \<Longrightarrow> i < 37 \<Longrightarrow> \<exists>x. rd16 data i = Some x"
  by (simp add: long_enough_def rd16_def)

lemma addr_long: "long_enough data \<Longrightarrow> fmt \<noteq> wlan_frm_fmt_unknown \<Longrightarrow> \<exists>m. ol_tx_dest_addr_find fmt data = Some m \<and> length m = 6"
  by (cases fmt) (auto simp: long_enough_def ol_tx_dest_addr_find_def addr_at_def)

lemma dhcp_long: "long_enough data \<Longrightarrow> \<exists>b. adf_nbuf_is_dhcp_pkt data = Some b"
  using rd16_long [of data 34] rd16_long [of data 36] by (auto simp: adf_nbuf_is_dhcp_pkt_def)

lemma eapol_long: "long_enough data \<Longrightarrow> \<exists>b. adf_nbuf_is_eapol_pkt data = Some b"
  using rd16_long [of data 12] by (auto simp: adf_nbuf_is_eapol_pkt_def)

lemma set_ether_type_long:
  assumes "long_enough data"
  shows "\<exists>mi'. ol_tx_set_ether_type t data mi = Some mi' \<and> mi_peer mi' = mi_peer mi \<and>
    (t = htt_pkt_type_ethernet \<longrightarrow> unat (l3_hdr_offset mi') \<le> 26)"
proof (cases t)
  case htt_pkt_type_raw
  then show ?thesis using rd_long [OF assms, of 0] rd16_long [OF assms, of 32] rd16_long [OF assms, of 30]
    by (auto simp: ol_tx_set_ether_type_def)
next
  case htt_pkt_type_ethernet
  obtain t1 where t1: "rd16 data 12 = Some t1" using rd16_long [OF assms, of 12] by auto
  obtain t2 l3 where t2: "(if t1 = ETHERTYPE_VLAN then do { t \<leftarrow> rd16 data (12 + 4); Some (t, 14 + 4) } else Some (t1, 14)) = Some (t2, l3)"
    and l3: "l3 = 14 \<or> l3 = (18 :: nat)"
    using rd16_long [OF assms, of 16] by (cases "t1 = ETHERTYPE_VLAN") auto
  obtain t3 l4 where "(if \<not> IS_ETHERTYPE t2 then do { t \<leftarrow> rd16 data (l3 + 6); Some (t, l3 + 8) } else Some (t2, l3)) = Some (t3, l4)"
    and "l4 \<in> {14, 18, 22, 26 :: nat}"
    using rd16_long [OF assms, of "l3 + 6"] l3 by (cases "IS_ETHERTYPE t2") auto
  then show ?thesis using t1 t2 htt_pkt_type_ethernet by (auto simp: ol_tx_set_ether_type_def)
qed (simp add: ol_tx_set_ether_type_def)

lemma tid_by_ether_type_long:
  assumes "long_enough data" and "unat (l3_hdr_offset mi) \<le> 26"
  shows "\<exists>tid. ol_tx_tid_by_ether_type data mi = Some tid"
  using rd_long [OF assms(1), of "unat (l3_hdr_offset mi) + 1"] rd16_long [OF assms(1), of "unat (l3_hdr_offset mi)"]
    rd16_long [OF assms(1), of "unat (l3_hdr_offset mi) + 2"] assms(2)
  by (auto simp: ol_tx_tid_by_ether_type_def ol_tx_tid_by_ipv4_def ol_tx_tid_by_ipv6_def IPV6_TRAFFIC_CLASS_def Let_def)

lemma tid_by_raw_long: "long_enough data \<Longrightarrow> \<exists>tid. ol_tx_tid_by_raw_type data = Some tid"
  using rd_long [of data 0] rd_long [of data 24] by (auto simp: ol_tx_tid_by_raw_type_def)

lemma ol_tx_tid_long:
  assumes "long_enough data"
  shows "\<exists>tid mi'. ol_tx_tid fmt data mi = Some (tid, mi') \<and> mi_peer mi' = mi_peer mi"
proof (cases fmt)
  case wlan_frm_fmt_raw
  then show ?thesis using set_ether_type_long [OF assms, of htt_pkt_type_raw mi] tid_by_raw_long [OF assms]
    by (auto simp: ol_tx_tid_def)
next
  case wlan_frm_fmt_802_3
  obtain mi' where mi': "ol_tx_set_ether_type htt_pkt_type_ethernet data mi = Some mi'" "mi_peer mi' = mi_peer mi" "unat (l3_hdr_offset mi') \<le> 26"
    using set_ether_type_long [OF assms, of htt_pkt_type_ethernet mi] by auto
  then show ?thesis using wlan_frm_fmt_802_3 tid_by_ether_type_long [OF assms mi'(3)] by (auto simp: ol_tx_tid_def)
next
  case wlan_frm_fmt_native_wifi
  then show ?thesis using rd16_long [OF assms, of 30] by (auto simp: ol_tx_tid_def)
qed (simp add: ol_tx_tid_def)

section \<open>Classification\<close>

definition chose :: "ol_txrx_pdev_t \<Rightarrow> txq_ref \<Rightarrow> nat option \<Rightarrow> tx_msdu_info \<Rightarrow> ol_txrx_pdev_t \<Rightarrow> bool" where
  "chose P txq peer mi P' \<longleftrightarrow> took_ref P peer P' \<and> txq_valid txq \<and> unat (ext_tid mi) = ref_tid txq \<and>
     (\<forall>h t. txq = PeerTxq h t \<longrightarrow> peer_objs (peer_tab P) h \<noteq> None)"

lemma took_ref_obj:
  assumes "took_ref P (Some h) P'"
  obtains p where "get_peer P' h = Some (p\<lparr>ref_cnt := ref_cnt p + 1\<rparr>)" "peer_objs (peer_tab P) h = Some p"
  using assms that by (auto simp: took_ref_def get_peer_def)

lemma peer_id0_some: "peers_ok (peer_tab P) \<Longrightarrow> peer_objs (peer_tab P) h = Some p \<Longrightarrow> \<exists>id. peer_id0 p = Some id"
  using peer_okD [of "peer_tab P" h p] by (auto simp: peer_ok_def peer_id0_def MAX_NUM_PEER_ID_PER_PEER_def)

lemma classify_mcast_ok:
  assumes "peers_ok (peer_tab P)" and "sender_ok vdev P" and "long_enough data"
  shows "\<exists>res mi' P'. classify_mcast vdev data mi P = Some (res, mi', P') \<and> mi_peer mi' = mi_peer mi \<and>
    (case res of None \<Rightarrow> P' = P | Some (txq, peer) \<Rightarrow> chose P txq peer mi' P')"
proof -
  note q = chose_def HTT_TX_EXT_TID_NON_QOS_MCAST_BCAST_def TX_DHCP_TID_def OL_TX_VDEV_MCAST_BCAST_def OL_TX_VDEV_NUM_QUEUES_def OL_TX_NUM_TIDS_def
  consider "opmode vdev = wlan_op_mode_sta" | "opmode vdev = wlan_op_mode_ocb"
    | "opmode vdev \<noteq> wlan_op_mode_sta" "opmode vdev \<noteq> wlan_op_mode_ocb" by blast
  then show ?thesis
  proof cases
    case 1
    have "finds (ol_txrx_assoc_peer_find vdev) (peer_tab P)"
      by (rule assoc_find_finds [OF assms(1)]) (use assms(2) in \<open>simp add: sender_ok_def\<close>)
    then obtain peer P' where f: "with_peers (ol_txrx_assoc_peer_find vdev) P = Some (peer, P')" "took_ref P peer P'"
      by (rule finds_with_peers)
    show ?thesis
    proof (cases peer)
      case None
      then show ?thesis using 1 f by (simp add: classify_mcast_def Let_def took_ref_def)
    next
      case (Some h)
      then obtain p where p: "get_peer P' h = Some (p\<lparr>ref_cnt := ref_cnt p + 1\<rparr>)" "peer_objs (peer_tab P) h = Some p"
        using f(2) took_ref_obj by blast
      obtain id where "peer_id0 p = Some id" using peer_id0_some [OF assms(1) p(2)] by blast
      then have "peer_id0 (p\<lparr>ref_cnt := ref_cnt p + 1\<rparr>) = Some id" by (simp add: peer_id0_def)
      moreover obtain b where "adf_nbuf_is_dhcp_pkt data = Some b" using dhcp_long [OF assms(3)] by blast
      ultimately show ?thesis using 1 f p Some by (auto simp: classify_mcast_def q Let_def)
    qed
  next
    case 2
    then show ?thesis by (auto simp: classify_mcast_def q took_ref_def Let_def)
  next
    case 3
    have "finds (ol_txrx_peer_find_hash_find (vdev_mac_addr vdev) True) (peer_tab P)"
      by (rule hash_find_finds [OF assms(1)]) (use assms(2) in \<open>simp add: sender_ok_def\<close>)
    then obtain peer P' where f: "with_peers (ol_txrx_peer_find_hash_find (vdev_mac_addr vdev) True) P = Some (peer, P')" "took_ref P peer P'"
      by (rule finds_with_peers)
    then show ?thesis using 3 by (cases peer) (auto simp: classify_mcast_def q took_ref_def Let_def)
  qed
qed

lemma classify_ucast_ok:
  assumes "peers_ok (peer_tab P)" and "sender_ok vdev P" and "long_enough data" and "length m = 6"
  shows "\<exists>res mi' P'. classify_ucast vdev m data mi P = Some (res, mi', P') \<and>
    (case res of None \<Rightarrow> P' = P \<and> (mi_peer mi' = mi_peer mi \<or> mi_peer mi' = None)
     | Some (txq, peer) \<Rightarrow> chose P txq peer mi' P')"
proof -
  obtain tid mi1 where tid: "ol_tx_tid (frame_format P) data mi = Some (tid, mi1)" "mi_peer mi1 = mi_peer mi"
    using ol_tx_tid_long [OF assms(3)] by blast
  show ?thesis
  proof (cases "tid = HTT_TX_EXT_TID_INVALID \<or> unat tid \<ge> OL_TX_NUM_TIDS")
    case True
    then show ?thesis using tid by (auto simp: classify_ucast_def)
  next
    case False
    let ?f = "if opmode vdev = wlan_op_mode_sta then sta_peer vdev else ol_txrx_peer_find_hash_find m True"
    have "finds ?f (peer_tab P)" using sta_peer_finds [OF assms(1,2)] hash_find_finds [OF assms(1,4)] by simp
    then obtain peer P1 where f: "with_peers ?f P = Some (peer, P1)" "took_ref P peer P1" by (rule finds_with_peers)
    show ?thesis
    proof (cases peer)
      case None
      then show ?thesis using tid False f by (auto simp: classify_ucast_def took_ref_def)
    next
      case (Some h)
      then obtain p where p: "get_peer P1 h = Some (p\<lparr>ref_cnt := ref_cnt p + 1\<rparr>)" "peer_objs (peer_tab P) h = Some p"
        using f(2) took_ref_obj by blast
      obtain id where id: "peer_id0 (p\<lparr>ref_cnt := ref_cnt p + 1\<rparr>) = Some id"
        using peer_id0_some [OF assms(1) p(2)] by (auto simp: peer_id0_def)
      obtain b where b: "adf_nbuf_is_dhcp_pkt data = Some b" using dhcp_long [OF assms(3)] by blast
      define t where "t = (if \<not> qos_capable p then OL_TX_NON_QOS_TID
          else if sec_ucast p \<noteq> htt_sec_type_wapi then if b then TX_DHCP_TID else tid else tid)"
      have t: "unat t < OL_TX_NUM_TIDS" using False
        by (auto simp: t_def OL_TX_NON_QOS_TID_def TX_DHCP_TID_def OL_TX_NUM_TIDS_def)
      define mi2 where "mi2 = (if ethertype mi1 = ETHERTYPE_WAI then mi1\<lparr>do_encrypt := False\<rparr> else mi1)\<lparr>is_unicast := True\<rparr>"
      define mi3 where "mi3 = (if peer_state p \<noteq> ol_txrx_peer_state_auth then mi2\<lparr>do_encrypt := False\<rparr> else mi2)\<lparr>mi_peer_id := id, ext_tid := t\<rparr>"
      have e: "ext_tid mi3 = t" by (simp add: mi3_def)
      have u: "ol_txrx_peer_unref_delete h P1 = Some (P1\<lparr>peer_tab := peer_tab P\<rparr>)"
        using unref_took [OF assms(1) f(2), of P1] Some by simp
      have same: "P1\<lparr>peer_tab := peer_tab P\<rparr> = P" using f(2) Some by (auto simp: took_ref_def)
      have "classify_ucast vdev m data mi P =
        (if id = HTT_INVALID_PEER then Some (None, mi3\<lparr>mi_peer := None\<rparr>, P)
         else Some (Some (PeerTxq h (unat t), Some h), mi3, P1))"
        using tid(1) False f(1) p(1) id b u same Some
        by (simp add: classify_ucast_def Let_def mi3_def mi2_def t_def)
      then show ?thesis using t e f(2) Some p(2) by (auto simp: chose_def)
    qed
  qed
qed

lemma ol_tx_classify_ok:
  assumes "peers_ok (peer_tab P)" and "sender_ok vdev P" and "long_enough data" and "frame_format P \<noteq> wlan_frm_fmt_unknown"
  shows "\<exists>r mi' P'. ol_tx_classify vdev data mi P = Some (r, mi', P') \<and>
    (case r of None \<Rightarrow> P' = P \<and> (mi_peer mi' = mi_peer mi \<or> mi_peer mi' = None)
     | Some txq \<Rightarrow> chose P txq (mi_peer mi') mi' P')"
proof -
  obtain m where m: "ol_tx_dest_addr_find (frame_format P) data = Some m" "length m = 6" using addr_long [OF assms(3,4)] by blast
  let ?res = "if IEEE80211_IS_MULTICAST m \<or> opmode vdev = wlan_op_mode_ocb then classify_mcast vdev data mi P else classify_ucast vdev m data mi P"
  obtain res mi1 P1 where r: "?res = Some (res, mi1, P1)"
    and c: "case res of None \<Rightarrow> P1 = P \<and> (mi_peer mi1 = mi_peer mi \<or> mi_peer mi1 = None) | Some (txq, peer) \<Rightarrow> chose P txq peer mi1 P1"
  proof (cases "IEEE80211_IS_MULTICAST m \<or> opmode vdev = wlan_op_mode_ocb")
    case True
    obtain res mi1 P1 where "classify_mcast vdev data mi P = Some (res, mi1, P1)" "mi_peer mi1 = mi_peer mi"
      "case res of None \<Rightarrow> P1 = P | Some (txq, peer) \<Rightarrow> chose P txq peer mi1 P1"
      using classify_mcast_ok [OF assms(1-3), of mi] by blast
    then show ?thesis using that [of res mi1 P1] True by (auto split: option.splits)
  next
    case False
    then show ?thesis using that classify_ucast_ok [OF assms(1-3) m(2), of mi] by auto
  qed
  show ?thesis
  proof (cases res)
    case None
    then show ?thesis using m(1) r c by (simp add: ol_tx_classify_def)
  next
    case (Some tp)
    obtain txq peer where tp: "tp = (txq, peer)" by (cases tp)
    then have ch: "chose P txq peer mi1 P1" using c Some by simp
    then have t: "took_ref P peer P1" by (simp add: chose_def)
    have u: "ol_txrx_peer_unref_delete h P1 = Some P" if "peer = Some h" for h
      using unref_took [OF assms(1) t, of P1] t that by (auto simp: took_ref_def)
    have ch': "chose P txq None (mi1\<lparr>mi_peer := None\<rparr>) P" "chose P txq peer (mi1\<lparr>mi_peer := peer\<rparr>) P1"
      using ch by (simp_all add: chose_def took_ref_def)
    show ?thesis
    proof (cases peer)
      case None
      then have "ol_tx_classify vdev data mi P = Some (Some txq, mi1\<lparr>mi_peer := peer\<rparr>, P1)"
        using m(1) r Some tp by (simp add: ol_tx_classify_def)
      then show ?thesis using ch'(2) by simp
    next
      case h: (Some h)
      show ?thesis
      proof (cases "IEEE80211_IS_MULTICAST m \<and> opmode vdev \<noteq> wlan_op_mode_sta")
        case True
        then have "ol_tx_classify vdev data mi P = Some (Some txq, mi1\<lparr>mi_peer := None\<rparr>, P)"
          using m(1) r Some tp h u [OF h] by (simp add: ol_tx_classify_def)
        then show ?thesis using ch'(1) by simp
      next
        case False
        then have "ol_tx_classify vdev data mi P = Some (Some txq, mi1\<lparr>mi_peer := peer\<rparr>, P1)"
          using m(1) r Some tp h by (auto simp: ol_tx_classify_def)
        then show ?thesis using ch'(2) by simp
      qed
    qed
  qed
qed

lemma ol_tx_classify_mgmt_ok:
  assumes "peers_ok (peer_tab P)" and "sender_ok vdev P" and "long_enough data" and "frame_format P \<noteq> wlan_frm_fmt_unknown"
    and "ext_tid mi = of_nat HTT_TX_EXT_TID_MGMT"
  shows "\<exists>txq mi' P'. ol_tx_classify_mgmt vdev data mi P = Some (txq, mi', P') \<and> chose P txq (mi_peer mi') mi' P'"
proof -
  note q = chose_def HTT_TX_EXT_TID_MGMT_def OL_TX_VDEV_DEFAULT_MGMT_def OL_TX_VDEV_MCAST_BCAST_def OL_TX_VDEV_NUM_QUEUES_def OL_TX_NUM_TIDS_def
  obtain m where m: "ol_tx_dest_addr_find (frame_format P) data = Some m" "length m = 6" using addr_long [OF assms(3,4)] by blast
  obtain peer P1 where f: "with_peers (mgmt_peer vdev m) P = Some (peer, P1)" "took_ref P peer P1"
    using mgmt_peer_finds [OF assms(1,2) m(2)] by (rule finds_with_peers)
  show ?thesis
  proof (cases "IEEE80211_IS_MULTICAST m")
    case True
    then show ?thesis using m(1) assms(5) by (auto simp: ol_tx_classify_mgmt_def q took_ref_def)
  next
    case False
    show ?thesis
    proof (cases peer)
      case None
      then show ?thesis using False m(1) assms(5) f by (auto simp: ol_tx_classify_mgmt_def q took_ref_def Let_def)
    next
      case (Some h)
      then obtain p where p: "get_peer P1 h = Some (p\<lparr>ref_cnt := ref_cnt p + 1\<rparr>)" "peer_objs (peer_tab P) h = Some p"
        using f(2) took_ref_obj by blast
      obtain id where id: "peer_id0 (p\<lparr>ref_cnt := ref_cnt p + 1\<rparr>) = Some id"
        using peer_id0_some [OF assms(1) p(2)] by (auto simp: peer_id0_def)
      then show ?thesis using False m(1) f p Some by (auto simp: ol_tx_classify_mgmt_def q Let_def)
    qed
  qed
qed

end
