(* ===== verification/Tx_Path.thy ===== *)
theory Tx_Path
  imports Tx_Classify
begin

text \<open>
  The transmit path around the queues: frames from the network stack get a descriptor, are classified and queued
  (CLD_TXRX/TXRX/ol_tx.c, high-latency branch), and the end of the download and the completion by the target give
  the descriptors back (CLD_TXRX/TXRX/ol_tx_send.c). \<^verbatim>\<open>ATH_11AC_TXCOMPACT\<close> is not defined, so descriptors are
  reference-counted; \<^verbatim>\<open>QCA_TX_SINGLE_COMPLETIONS\<close> is not defined, so completed frames are freed as a batch;
  \<^verbatim>\<open>CONFIG_TX_DESC_HI_PRIO_RESERVE\<close> and \<^verbatim>\<open>FEATURE_WLAN_TDLS\<close> are. Locks, statistics and the fields of the
  hardware descriptor are left out.
\<close>

section \<open>Frames from the network stack\<close>

text \<open>
  What the functions below take from outside: the target interface, and what the local variable \<^verbatim>\<open>tx_msdu_info\<close>,
  which is not initialised but for its peer, contains at the start.
\<close>

record tx_hl_env =
  download_env :: tx_env
  stack_msdu_info :: tx_msdu_info

definition TXRX_HL_TX_DESC_HI_PRIO_RESERVED :: int where
  "TXRX_HL_TX_DESC_HI_PRIO_RESERVED = 20"

definition ol_tx_spec_tso :: u8 where
  "ol_tx_spec_tso = 8"

definition ol_tx_spec_no_free :: u8 where
  "ol_tx_spec_no_free = 0x20"

definition ol_tx_frm_tso :: u8 where
  "ol_tx_frm_tso = 1"

definition ol_tx_frm_no_free :: u8 where
  "ol_tx_frm_no_free = 3"

definition OL_TXRX_MGMT_TYPE_BASE :: u8 where
  "OL_TXRX_MGMT_TYPE_BASE = 4"

text \<open>The content of a descriptor is changed.\<close>

definition set_desc :: "(ol_tx_desc_t \<Rightarrow> ol_tx_desc_t) \<Rightarrow> ol_tx_desc_t \<Rightarrow> ol_txrx_pdev_t \<Rightarrow> ol_txrx_pdev_t \<times> ol_tx_desc_t" where
  "set_desc f d P = (let d = f d in (P\<lparr>desc_mem := (desc_mem P)(desc_id d := d)\<rparr>, d))"

abbreviation set_pkt_type :: "u8 \<Rightarrow> ol_tx_desc_t \<Rightarrow> ol_txrx_pdev_t \<Rightarrow> ol_txrx_pdev_t \<times> ol_tx_desc_t" where
  "set_pkt_type t \<equiv> set_desc (\<lambda>d. d\<lparr>pkt_type := t\<rparr>)"

definition spec_pkt_type :: "u8 \<Rightarrow> ol_tx_desc_t \<Rightarrow> ol_txrx_pdev_t \<Rightarrow> ol_txrx_pdev_t \<times> ol_tx_desc_t" where
  "spec_pkt_type tx_spec d P =
     (if tx_spec AND ol_tx_spec_no_free \<noteq> 0 then set_pkt_type ol_tx_frm_no_free d P
      else if tx_spec AND ol_tx_spec_tso \<noteq> 0 then set_pkt_type ol_tx_frm_tso d P
      else (P, d))"

text \<open>
  A descriptor is taken unless the reserve for DHCP and EAPOL packets is reached; with the descriptor, the frame's
  exemption decides the encryption.
\<close>

definition ol_tx_desc_hl_info :: "u8 \<Rightarrow> tx_msdu \<Rightarrow> tx_msdu_info \<Rightarrow> ol_txrx_pdev_t
    \<Rightarrow> ol_tx_desc_t option \<times> tx_msdu_info \<times> ol_txrx_pdev_t" where
  "ol_tx_desc_hl_info vdev m mi P =
     (case ol_tx_desc_hl vdev (of_nat (length (msdu_data m))) P of
        (P, d) \<Rightarrow> (d, mi\<lparr>do_encrypt := \<not> msdu_exempt m\<rparr>, P))"

definition hl_desc :: "u8 \<Rightarrow> tx_msdu \<Rightarrow> tx_msdu_info \<Rightarrow> ol_txrx_pdev_t
    \<Rightarrow> (ol_tx_desc_t option \<times> tx_msdu_info \<times> ol_txrx_pdev_t) option" where
  "hl_desc vdev m mi P =
     (if sint (rsrc_cnt P) > TXRX_HL_TX_DESC_HI_PRIO_RESERVED then Some (ol_tx_desc_hl_info vdev m mi P)
      else do {
        dhcp \<leftarrow> adf_nbuf_is_dhcp_pkt (msdu_data m);
        prio \<leftarrow> (if dhcp then Some True else adf_nbuf_is_eapol_pkt (msdu_data m));
        Some (if prio then ol_tx_desc_hl_info vdev m mi P else (None, mi, P)) })"

definition ETHERTYPE_OCB_TX :: u16 where
  "ETHERTYPE_OCB_TX = 0x8151"

definition OCB_HEADER_VERSION :: u16 where
  "OCB_HEADER_VERSION = 1"

text \<open>
  The control header of frames in OCB mode: the result tells whether it parses, and has the bytes that are left. The
  fields are read in the order of the host; more bytes than there are cannot be taken off.
\<close>

definition adf_nbuf_pull_head :: "nat \<Rightarrow> u8 list \<Rightarrow> u8 list" where
  "adf_nbuf_pull_head n data = (if n > length data then data else drop n data)"

definition parse_ocb_tx_header :: "u8 list \<Rightarrow> (bool \<times> u8 list) option" where
  "parse_ocb_tx_header data = do {
     ether_type \<leftarrow> rd16 data 12;
     if ether_type \<noteq> ETHERTYPE_OCB_TX then Some (True, data)
     else do {
       let data = adf_nbuf_pull_head 14 data;
       v0 \<leftarrow> rd data 0; v1 \<leftarrow> rd data 1; l0 \<leftarrow> rd data 2; l1 \<leftarrow> rd data 3;
       if bytes2 v0 v1 = OCB_HEADER_VERSION then Some (True, adf_nbuf_pull_head (unat (bytes2 l0 l1)) data)
       else Some (False, data) } }"

text \<open>The frame as the loop sees it behind the control header, with its descriptor.\<close>

definition hl_ocb :: "ol_txrx_vdev_t \<Rightarrow> u8 list \<Rightarrow> ol_tx_desc_t \<Rightarrow> ol_txrx_pdev_t
    \<Rightarrow> (bool \<times> u8 list \<times> ol_tx_desc_t \<times> ol_txrx_pdev_t) option" where
  "hl_ocb vdev data d P =
     (if opmode vdev = wlan_op_mode_ocb then do {
        (ok, data) \<leftarrow> parse_ocb_tx_header data;
        let (P, d) = set_desc (\<lambda>d. d\<lparr>netbuf_len := of_nat (length data)\<rparr>) d P;
        Some (ok, data, d, P) }
      else Some (True, data, d, P))"

definition drop_frame :: "ol_tx_desc_t \<Rightarrow> ol_txrx_pdev_t \<Rightarrow> ol_txrx_pdev_t" where
  "drop_frame d P = ol_tx_desc_frame_free_nonstd True d (P\<lparr>rsrc_cnt := rsrc_cnt P + 1\<rparr>)"

text \<open>The reference that the classification may have left.\<close>

definition unref_msdu_peer :: "tx_msdu_info \<Rightarrow> ol_txrx_pdev_t \<Rightarrow> ol_txrx_pdev_t option" where
  "unref_msdu_peer mi P = (case mi_peer mi of None \<Rightarrow> Some P | Some h \<Rightarrow> ol_txrx_peer_unref_delete h P)"

text \<open>Frames for a peer that is not authenticated are dropped, unless they are part of the authentication.\<close>

definition peer_drops :: "tx_msdu_info \<Rightarrow> ol_txrx_pdev_t \<Rightarrow> bool option" where
  "peer_drops mi P =
     (case mi_peer mi of
        None \<Rightarrow> Some False
      | Some h \<Rightarrow> do {
          p \<leftarrow> get_peer P h;
          Some (peer_state p = ol_txrx_peer_state_disc \<or>
                peer_state p \<noteq> ol_txrx_peer_state_auth \<and> ethertype mi \<noteq> ETHERTYPE_PAE \<and> ethertype mi \<noteq> ETHERTYPE_WAI) })"

text \<open>One turn of the loop for a frame that has a descriptor.\<close>

definition hl_frame :: "ol_txrx_vdev_t \<Rightarrow> u8 \<Rightarrow> tx_msdu \<Rightarrow> ol_tx_desc_t \<Rightarrow> tx_msdu_info \<Rightarrow> ol_txrx_pdev_t
    \<Rightarrow> (tx_msdu_info \<times> ol_txrx_pdev_t) option" where
  "hl_frame vdev tx_spec m d mi P = do {
     let (P, d) = spec_pkt_type tx_spec d P;
     let mi = mi\<lparr>ext_tid := msdu_tid m\<rparr>;
     (ok, data, d, P) \<leftarrow> hl_ocb vdev (msdu_data m) d P;
     if \<not> ok then Some (mi, P)
     else do {
       (txq, mi, P) \<leftarrow> ol_tx_classify vdev data mi P;
       case txq of
         None \<Rightarrow> do { P \<leftarrow> unref_msdu_peer mi (drop_frame d P); Some (mi, P) }
       | Some txq \<Rightarrow> do {
           bad \<leftarrow> peer_drops mi P;
           P \<leftarrow> (if bad then Some (drop_frame d P) else ol_tx_enqueue txq d (unat (ext_tid mi)) P);
           P \<leftarrow> unref_msdu_peer mi P;
           Some (mi, P) } } }"

text \<open>The result has the frames that were not accepted.\<close>

fun hl_loop :: "tx_hl_env \<Rightarrow> ol_txrx_vdev_t \<Rightarrow> u8 \<Rightarrow> tx_msdu list \<Rightarrow> tx_msdu_info \<Rightarrow> ol_txrx_pdev_t
    \<Rightarrow> (ol_txrx_pdev_t \<times> tx_msdu list) option" where
  "hl_loop E vdev tx_spec [] mi P = do { P \<leftarrow> ol_tx_sched (download_env E) P; Some (P, []) }"
| "hl_loop E vdev tx_spec (m # ms) mi P = do {
     (d, mi, P) \<leftarrow> hl_desc (vdev_id vdev) m mi P;
     case d of
       None \<Rightarrow> Some (P, m # ms)
     | Some d \<Rightarrow> do { (mi, P) \<leftarrow> hl_frame vdev tx_spec m d mi P; hl_loop E vdev tx_spec ms mi P } }"

definition ol_tx_hl_base :: "tx_hl_env \<Rightarrow> ol_txrx_vdev_t \<Rightarrow> u8 \<Rightarrow> tx_msdu list \<Rightarrow> ol_txrx_pdev_t \<Rightarrow> (ol_txrx_pdev_t \<times> tx_msdu list) option" where
  "ol_tx_hl_base E vdev tx_spec msdu_list P = hl_loop E vdev tx_spec msdu_list ((stack_msdu_info E)\<lparr>mi_peer := None\<rparr>) P"

definition ol_tx_hl :: "tx_hl_env \<Rightarrow> ol_txrx_vdev_t \<Rightarrow> tx_msdu list \<Rightarrow> ol_txrx_pdev_t \<Rightarrow> (ol_txrx_pdev_t \<times> tx_msdu list) option" where
  "ol_tx_hl E vdev msdu_list P = ol_tx_hl_base E vdev 0 msdu_list P"

definition ol_tx_non_std_hl :: "tx_hl_env \<Rightarrow> ol_txrx_vdev_t \<Rightarrow> u8 \<Rightarrow> tx_msdu list \<Rightarrow> ol_txrx_pdev_t \<Rightarrow> (ol_txrx_pdev_t \<times> tx_msdu list) option" where
  "ol_tx_non_std_hl E vdev tx_spec msdu_list P = ol_tx_hl_base E vdev tx_spec msdu_list P"

text \<open>A management frame; the result tells whether it was accepted.\<close>

definition ol_txrx_mgmt_send :: "tx_hl_env \<Rightarrow> ol_txrx_vdev_t \<Rightarrow> tx_msdu \<Rightarrow> u8 \<Rightarrow> ol_txrx_pdev_t \<Rightarrow> (ol_txrx_pdev_t \<times> bool) option" where
  "ol_txrx_mgmt_send E vdev m type P = (
     let mi = (stack_msdu_info E)\<lparr>ext_tid := of_nat HTT_TX_EXT_TID_MGMT, mi_peer := None\<rparr>
     in case ol_tx_desc_hl_info (vdev_id vdev) m mi P of
        (None, mi, P) \<Rightarrow> Some (P, False)
      | (Some d, mi, P) \<Rightarrow> do {
          let (P, d) = set_pkt_type (type + OL_TXRX_MGMT_TYPE_BASE) d P;
          (txq, mi, P) \<leftarrow> ol_tx_classify_mgmt vdev (msdu_data m) mi P;
          P \<leftarrow> ol_tx_enqueue txq d (unat (ext_tid mi)) P;
          P \<leftarrow> unref_msdu_peer mi P;
          P \<leftarrow> ol_tx_sched (download_env E) P;
          Some (P, True) })"

section \<open>The end of the download\<close>

text \<open>\<^verbatim>\<open>OL_TX_DESC_NO_REFS\<close>: one reference less; was it the last?\<close>

definition OL_TX_DESC_NO_REFS :: "u16 \<Rightarrow> ol_txrx_pdev_t \<Rightarrow> bool \<times> ol_txrx_pdev_t" where
  "OL_TX_DESC_NO_REFS i P =
     (desc_ref P i - 1 = 0, P\<lparr>desc_ref := (desc_ref P)(i := desc_ref P i - 1)\<rparr>)"

definition htt_tx_status_ok :: u8 where
  "htt_tx_status_ok = 0"

definition ol_tx_download_done_base :: "bool \<Rightarrow> u16 \<Rightarrow> ol_txrx_pdev_t \<Rightarrow> ol_txrx_pdev_t option" where
  "ol_tx_download_done_base status_ok msdu_id P = do {
     d \<leftarrow> ol_tx_desc_find msdu_id P;
     if \<not> status_ok then
       Some (ol_tx_desc_frame_free_nonstd True d (P\<lparr>target_tx_credit := target_tx_credit P + htt_tx_msdu_credit d\<rparr>))
     else
       let (lst, P) = OL_TX_DESC_NO_REFS msdu_id P in
       Some (if lst then ol_tx_desc_frame_free_nonstd (desc_status P msdu_id \<noteq> htt_tx_status_ok) d P else P) }"

definition ol_tx_download_done_hl_retain :: "bool \<Rightarrow> u16 \<Rightarrow> ol_txrx_pdev_t \<Rightarrow> ol_txrx_pdev_t option" where
  "ol_tx_download_done_hl_retain status_ok msdu_id P = ol_tx_download_done_base status_ok msdu_id P"

definition ol_tx_download_done_hl_free :: "bool \<Rightarrow> u16 \<Rightarrow> ol_txrx_pdev_t \<Rightarrow> ol_txrx_pdev_t option" where
  "ol_tx_download_done_hl_free status_ok msdu_id P = do {
     d \<leftarrow> ol_tx_desc_find msdu_id P;
     P \<leftarrow> ol_tx_download_done_base status_ok msdu_id P;
     Some (if pkt_type d \<noteq> ol_tx_frm_no_free \<and> pkt_type d < OL_TXRX_MGMT_TYPE_BASE
           then ol_tx_desc_frame_free_nonstd (\<not> status_ok) d (P\<lparr>rsrc_cnt := rsrc_cnt P + 1\<rparr>) else P) }"

section \<open>Completion by the target\<close>

text \<open>
  \<^verbatim>\<open>ol_tx_desc_update_group_credit\<close>: the first group that has the virtual device of the frame as member.
\<close>

fun group_credit_loop :: "nat list \<Rightarrow> u8 \<Rightarrow> u32 \<Rightarrow> bool \<Rightarrow> ol_txrx_pdev_t \<Rightarrow> ol_txrx_pdev_t option" where
  "group_credit_loop [] vdev credit absolute P = Some P"
| "group_credit_loop (i # is) vdev credit absolute P = do {
     grp \<leftarrow> rd (txq_grps P) i;
     if group_bit_get (OL_TXQ_GROUP_VDEV_ID_MASK_GET (membership grp)) (unat vdev) \<noteq> 0
     then Some (P\<lparr>txq_grps := (txq_grps P)[i := ol_txrx_update_group_credit grp credit absolute]\<rparr>)
     else group_credit_loop is vdev credit absolute P }"

definition ol_tx_desc_update_group_credit :: "u16 \<Rightarrow> u32 \<Rightarrow> bool \<Rightarrow> ol_txrx_pdev_t \<Rightarrow> ol_txrx_pdev_t option" where
  "ol_tx_desc_update_group_credit tx_desc_id credit absolute P = do {
     _ \<leftarrow> ol_tx_desc_find tx_desc_id P;
     vdev \<leftarrow> desc_owner P tx_desc_id;
     group_credit_loop [0..<OL_TX_MAX_TXQ_GROUPS] vdev credit absolute P }"

text \<open>One completed frame: a standard frame joins the batch, another is freed at once.\<close>

definition ol_tx_msdu_complete :: "ol_tx_desc_t \<Rightarrow> bool \<Rightarrow> ol_tx_desc_t list \<times> ol_txrx_pdev_t \<Rightarrow> ol_tx_desc_t list \<times> ol_txrx_pdev_t" where
  "ol_tx_msdu_complete d had_error = (\<lambda>(tx_descs, P).
     if pkt_type d = ol_tx_frm_std then (tx_descs @ [d], P)
     else (tx_descs, ol_tx_desc_frame_free_nonstd had_error d P))"

definition complete_one :: "u8 \<Rightarrow> u16 \<Rightarrow> ol_tx_desc_t list \<times> ol_txrx_pdev_t \<Rightarrow> (ol_tx_desc_t list \<times> ol_txrx_pdev_t) option" where
  "complete_one status tx_desc_id = (\<lambda>(tx_descs, P). do {
     d \<leftarrow> ol_tx_desc_find tx_desc_id P;
     let P = P\<lparr>desc_status := (desc_status P)(tx_desc_id := status)\<rparr>;
     P \<leftarrow> ol_tx_desc_update_group_credit tx_desc_id 1 False P;
     let (lst, P) = OL_TX_DESC_NO_REFS tx_desc_id P;
     Some (if lst then ol_tx_msdu_complete d (status \<noteq> htt_tx_status_ok) (tx_descs, P) else (tx_descs, P)) })"

definition ol_tx_completion_handler :: "tx_env \<Rightarrow> u8 \<Rightarrow> u16 list \<Rightarrow> ol_txrx_pdev_t \<Rightarrow> ol_txrx_pdev_t option" where
  "ol_tx_completion_handler H status desc_ids P = do {
     (tx_descs, P) \<leftarrow> for_each desc_ids (complete_one status) ([], P);
     let P = ol_tx_desc_frame_list_free (status \<noteq> htt_tx_status_ok) tx_descs P;
     ol_tx_sched H (P\<lparr>rsrc_cnt := rsrc_cnt P + of_nat (length desc_ids)\<rparr>) }"

definition ol_tx_single_completion_handler :: "tx_env \<Rightarrow> u8 \<Rightarrow> u16 \<Rightarrow> ol_txrx_pdev_t \<Rightarrow> ol_txrx_pdev_t option" where
  "ol_tx_single_completion_handler H status tx_desc_id P = do {
     d \<leftarrow> ol_tx_desc_find tx_desc_id P;
     let P = P\<lparr>desc_status := (desc_status P)(tx_desc_id := status)\<rparr>;
     let (lst, P) = OL_TX_DESC_NO_REFS tx_desc_id P;
     let P = (if lst then ol_tx_desc_frame_free_nonstd (status \<noteq> htt_tx_status_ok) d P else P);
     ol_tx_sched H (P\<lparr>rsrc_cnt := rsrc_cnt P + 1\<rparr>) }"

definition inspect_one :: "u16 \<Rightarrow> ol_tx_desc_t list \<times> ol_txrx_pdev_t \<Rightarrow> (ol_tx_desc_t list \<times> ol_txrx_pdev_t) option" where
  "inspect_one tx_desc_id = (\<lambda>(tx_descs, P). do {
     d \<leftarrow> ol_tx_desc_find tx_desc_id P;
     let (lst, P) = OL_TX_DESC_NO_REFS tx_desc_id P;
     Some (if lst then ol_tx_msdu_complete d False (tx_descs, P) else (tx_descs, P)) })"

text \<open>The batch is freed with \<^verbatim>\<open>htt_tx_status_discard\<close>, which is not 0, as error flag.\<close>

definition ol_tx_inspect_handler :: "tx_env \<Rightarrow> u16 list \<Rightarrow> ol_txrx_pdev_t \<Rightarrow> ol_txrx_pdev_t option" where
  "ol_tx_inspect_handler H desc_ids P = do {
     (tx_descs, P) \<leftarrow> for_each desc_ids inspect_one ([], P);
     ol_tx_sched H (ol_tx_desc_frame_list_free True tx_descs P) }"

text \<open>All frames that the target has not answered for are freed.\<close>

definition ol_tx_discard_target_frms :: "ol_txrx_pdev_t \<Rightarrow> ol_txrx_pdev_t option" where
  "ol_tx_discard_target_frms P =
     for_each (map of_nat [0..<unat (desc_pool_size P)]) (\<lambda>i P. do {
       d \<leftarrow> ol_tx_desc_find i P;
       Some (if desc_ref P i \<noteq> 0 then ol_tx_desc_frame_free_nonstd True d P else P) }) P"

end
