(* ===== verification/Tx_Own.thy ===== *)
theory Tx_Own
  imports Id_Pool Tx_Path
begin

text \<open>
  Where the transmit descriptors are: every descriptor of the pool is in exactly one place - in the free list, in
  one queue, on its way between two places, or with the target - and how the elementary steps of the transmit path
  move it.
\<close>

section \<open>The free list\<close>

fun free_chain :: "(u16 \<Rightarrow> u16 option) \<Rightarrow> u16 option \<Rightarrow> u16 list \<Rightarrow> bool" where
  "free_chain nx p [] \<longleftrightarrow> p = None"
| "free_chain nx p (x # xs) \<longleftrightarrow> p = Some x \<and> free_chain nx (nx x) xs"

lemma free_chain_upd [simp]: "x \<notin> set xs \<Longrightarrow> free_chain (nx(x := v)) p xs = free_chain nx p xs"
  by (induction nx p xs rule: free_chain.induct) auto

definition desc_free_list :: "ol_txrx_pdev_t \<Rightarrow> u16 list \<Rightarrow> bool" where
  "desc_free_list P xs \<longleftrightarrow> free_chain (desc_next P) (freelist P) xs \<and> distinct xs \<and>
     unat (num_free P) = length xs \<and> (\<forall>x\<in>set xs. x < desc_pool_size P)"

lemma distinct_u16_bound:
  assumes "distinct xs" and "\<forall>x\<in>set xs. x < (n :: u16)"
  shows "length xs \<le> unat n"
proof -
  have "inj_on unat (set xs)" by (auto simp: inj_on_def)
  moreover have "unat ` set xs \<subseteq> {..<unat n}" using assms(2) by (auto simp: word_less_nat_alt)
  ultimately have "card (set xs) \<le> card {..<unat n}" by (intro card_inj_on_le [of unat]) auto
  then show ?thesis using assms(1) by (simp add: distinct_card)
qed

lemma desc_alloc_list:
  assumes "desc_free_list P xs"
  shows "ol_tx_desc_alloc vdev P =
    (case xs of [] \<Rightarrow> (P, None)
     | x # xs' \<Rightarrow> (P\<lparr>num_free := num_free P - 1, freelist := desc_next P x,
                    desc_owner := (desc_owner P)(x := Some vdev)\<rparr>, Some x))"
    and "xs = x # xs' \<Longrightarrow> desc_free_list (fst (ol_tx_desc_alloc vdev P)) xs'"
proof -
  show "ol_tx_desc_alloc vdev P =
    (case xs of [] \<Rightarrow> (P, None)
     | x # xs' \<Rightarrow> (P\<lparr>num_free := num_free P - 1, freelist := desc_next P x,
                    desc_owner := (desc_owner P)(x := Some vdev)\<rparr>, Some x))"
    using assms by (auto simp: desc_free_list_def ol_tx_desc_alloc_def split: list.splits)
  assume x: "xs = x # xs'"
  then have "num_free P \<noteq> 0" using assms by (auto simp: desc_free_list_def)
  then show "desc_free_list (fst (ol_tx_desc_alloc vdev P)) xs'"
    using assms x unat_dec [of "num_free P"] by (auto simp: desc_free_list_def ol_tx_desc_alloc_def)
qed

lemma desc_free_list_release:
  assumes "desc_free_list P xs" and "x < desc_pool_size P" and "x \<notin> set xs"
  shows "desc_free_list (ol_tx_desc_free x P) (x # xs)"
proof -
  have "length (x # xs) \<le> unat (desc_pool_size P)"
    using assms by (intro distinct_u16_bound) (auto simp: desc_free_list_def)
  then have "unat (num_free P) < 65535" using assms(1) unat_u16 [of "desc_pool_size P"] by (simp add: desc_free_list_def)
  then show ?thesis using assms unat_inc [of "num_free P"]
    by (simp add: desc_free_list_def ol_tx_desc_free_def)
qed

interpretation txd: id_pool desc_free_list "\<lambda>P x. x < desc_pool_size P"
  "\<lambda>P. Some (prod.swap (ol_tx_desc_alloc vdev P))" "\<lambda>x P. Some (ol_tx_desc_free x P)" for vdev
proof (unfold_locales, goal_cases)
  case (1 P xs)
  then show ?case by (simp add: desc_free_list_def)
next
  case (2 P xs x)
  then show ?case by (simp add: desc_free_list_def)
next
  case (3 P xs)
  then show ?case
  proof (cases xs)
    case Nil
    then show ?thesis using 3 desc_alloc_list(1) [OF 3, of vdev] by simp
  next
    case (Cons x xs')
    then show ?thesis using desc_alloc_list(1) [OF 3, of vdev] desc_alloc_list(2) [OF 3 Cons, of vdev] by (simp add: fun_eq_iff)
  qed
next
  case (4 P xs x)
  then show ?case using desc_free_list_release [of P xs x] by (intro exI [of _ "x # xs"] exI) (auto simp: fun_eq_iff)
qed

section \<open>Places\<close>

datatype place = Free | Queued txq_ref | Transit | Target

definition queued_ids :: "ol_txrx_pdev_t \<Rightarrow> txq_ref \<Rightarrow> u16 set" where
  "queued_ids P r = desc_id ` set (q_head (tx_queues P r))"

text \<open>\<open>T\<close> are the descriptors that a running operation has in its hands.\<close>

definition owned :: "u16 list \<Rightarrow> (u16 \<Rightarrow> place) \<Rightarrow> ol_tx_desc_t list \<Rightarrow> ol_txrx_pdev_t \<Rightarrow> bool" where
  "owned fl pl T P \<longleftrightarrow>
     desc_free_list P fl \<and> distinct (map desc_id T) \<and> (\<forall>r. distinct (map desc_id (q_head (tx_queues P r)))) \<and>
     (\<forall>i. i \<in> set fl \<longleftrightarrow> i < desc_pool_size P \<and> pl i = Free) \<and>
     (\<forall>r i. i \<in> queued_ids P r \<longleftrightarrow> i < desc_pool_size P \<and> pl i = Queued r) \<and>
     (\<forall>i. i \<in> desc_id ` set T \<longleftrightarrow> i < desc_pool_size P \<and> pl i = Transit) \<and>
     (\<forall>i. desc_ref P i \<noteq> 0 \<longleftrightarrow> i < desc_pool_size P \<and> pl i = Target) \<and>
     (\<forall>i. i < desc_pool_size P \<and> pl i \<noteq> Free \<longrightarrow> desc_owner P i \<noteq> None) \<and>
     (\<forall>i. desc_id (desc_mem P i) = i) \<and>
     (\<forall>d\<in>set T. desc_mem P (desc_id d) = d) \<and>
     (\<forall>r. \<forall>d\<in>set (q_head (tx_queues P r)). desc_mem P (desc_id d) = d) \<and>
     length (txq_grps P) = OL_TX_MAX_TXQ_GROUPS"

definition descs_ok :: "ol_tx_desc_t list \<Rightarrow> ol_txrx_pdev_t \<Rightarrow> bool" where
  "descs_ok T P \<longleftrightarrow> (\<exists>fl pl. owned fl pl T P)"

text \<open>Steps that change neither the frames in the queues nor the pool.\<close>

definition same_descs :: "ol_txrx_pdev_t \<Rightarrow> ol_txrx_pdev_t \<Rightarrow> bool" where
  "same_descs P P' \<longleftrightarrow> (\<forall>r. q_head (tx_queues P' r) = q_head (tx_queues P r)) \<and> desc_mem P' = desc_mem P \<and>
     desc_ref P' = desc_ref P \<and> desc_owner P' = desc_owner P \<and> desc_next P' = desc_next P \<and> freelist P' = freelist P \<and>
     num_free P' = num_free P \<and> desc_pool_size P' = desc_pool_size P \<and> length (txq_grps P') = length (txq_grps P)"

lemma same_descs_refl [simp]: "same_descs P P"
  by (simp add: same_descs_def)

lemma same_descs_trans: "same_descs P P1 \<Longrightarrow> same_descs P1 P2 \<Longrightarrow> same_descs P P2"
  by (simp add: same_descs_def)

lemma descs_ok_same: "same_descs P P' \<Longrightarrow> descs_ok T P \<Longrightarrow> descs_ok T P'"
  unfolding descs_ok_def owned_def same_descs_def desc_free_list_def queued_ids_def by (elim exE conjE) auto

section \<open>Moves\<close>

text \<open>The first frames of a queue are taken out, all in one step.\<close>

definition takes_front :: "txq_ref \<Rightarrow> ol_tx_desc_t list \<Rightarrow> ol_txrx_pdev_t \<Rightarrow> ol_txrx_pdev_t \<Rightarrow> bool" where
  "takes_front r out P P' \<longleftrightarrow> q_head (tx_queues P r) = out @ q_head (tx_queues P' r) \<and>
     (\<forall>r'. r' \<noteq> r \<longrightarrow> q_head (tx_queues P' r') = q_head (tx_queues P r')) \<and> desc_mem P' = desc_mem P \<and>
     desc_ref P' = desc_ref P \<and> desc_owner P' = desc_owner P \<and> desc_next P' = desc_next P \<and> freelist P' = freelist P \<and>
     num_free P' = num_free P \<and> desc_pool_size P' = desc_pool_size P \<and> length (txq_grps P') = length (txq_grps P)"

lemma owned_facts:
  assumes "owned fl pl T P"
  shows "desc_free_list P fl" and "distinct (map desc_id T)" and "\<And>r. distinct (map desc_id (q_head (tx_queues P r)))"
    and "\<And>i. i \<in> set fl \<longleftrightarrow> i < desc_pool_size P \<and> pl i = Free"
    and "\<And>i r. i \<in> queued_ids P r \<longleftrightarrow> i < desc_pool_size P \<and> pl i = Queued r"
    and "\<And>i. i \<in> desc_id ` set T \<longleftrightarrow> i < desc_pool_size P \<and> pl i = Transit"
    and "\<And>i. desc_ref P i \<noteq> 0 \<longleftrightarrow> i < desc_pool_size P \<and> pl i = Target"
    and "\<And>i. i < desc_pool_size P \<Longrightarrow> pl i \<noteq> Free \<Longrightarrow> desc_owner P i \<noteq> None"
    and "\<And>i. desc_id (desc_mem P i) = i" and "\<And>d. d \<in> set T \<Longrightarrow> desc_mem P (desc_id d) = d"
    and "\<And>d r. d \<in> set (q_head (tx_queues P r)) \<Longrightarrow> desc_mem P (desc_id d) = d"
    and "length (txq_grps P) = OL_TX_MAX_TXQ_GROUPS"
  using assms by (simp_all add: owned_def)

lemma ownedI:
  assumes "desc_free_list P fl" and "distinct (map desc_id T)" and "\<And>r. distinct (map desc_id (q_head (tx_queues P r)))"
    and "\<And>i. i \<in> set fl \<longleftrightarrow> i < desc_pool_size P \<and> pl i = Free"
    and "\<And>i r. i \<in> queued_ids P r \<longleftrightarrow> i < desc_pool_size P \<and> pl i = Queued r"
    and "\<And>i. i \<in> desc_id ` set T \<longleftrightarrow> i < desc_pool_size P \<and> pl i = Transit"
    and "\<And>i. desc_ref P i \<noteq> 0 \<longleftrightarrow> i < desc_pool_size P \<and> pl i = Target"
    and "\<And>i. i < desc_pool_size P \<Longrightarrow> pl i \<noteq> Free \<Longrightarrow> desc_owner P i \<noteq> None"
    and "\<And>i. desc_id (desc_mem P i) = i" and "\<And>d. d \<in> set T \<Longrightarrow> desc_mem P (desc_id d) = d"
    and "\<And>d r. d \<in> set (q_head (tx_queues P r)) \<Longrightarrow> desc_mem P (desc_id d) = d"
    and "length (txq_grps P) = OL_TX_MAX_TXQ_GROUPS"
  shows "owned fl pl T P"
  using assms by (simp add: owned_def)

lemma descs_ok_take:
  assumes "takes_front r out P P'" and "descs_ok T P"
  shows "descs_ok (T @ out) P'"
proof -
  obtain fl pl where o: "owned fl pl T P" using assms(2) by (auto simp: descs_ok_def)
  note o = owned_facts [OF o]
  define pl' where "pl' = (\<lambda>i. if i \<in> desc_id ` set out then Transit else pl i)"
  have q: "q_head (tx_queues P r) = out @ q_head (tx_queues P' r)"
    "\<And>r'. r' \<noteq> r \<Longrightarrow> q_head (tx_queues P' r') = q_head (tx_queues P r')"
    and same: "desc_mem P' = desc_mem P" "desc_ref P' = desc_ref P" "desc_owner P' = desc_owner P" "desc_next P' = desc_next P"
      "freelist P' = freelist P" "num_free P' = num_free P" "desc_pool_size P' = desc_pool_size P"
      "length (txq_grps P') = length (txq_grps P)"
    using assms(1) by (auto simp: takes_front_def)
  have out: "i < desc_pool_size P \<and> pl i = Queued r" if "i \<in> desc_id ` set out" for i
    using o(5) [of i r] q(1) that by (auto simp: queued_ids_def)
  have dr: "distinct (map desc_id (out @ q_head (tx_queues P' r)))" using o(3) [of r] q(1) by metis
  have qi: "queued_ids P' r' = (if r' = r then queued_ids P r - desc_id ` set out else queued_ids P r')" for r'
    using q dr unfolding queued_ids_def by auto
  have old: "d \<in> set (q_head (tx_queues P' r')) \<Longrightarrow> d \<in> set (q_head (tx_queues P r'))" for d r'
    using q by (cases "r' = r") auto
  have "owned fl pl' (T @ out) P'"
  proof (rule ownedI)
    show "desc_free_list P' fl" using o(1) same by (simp add: desc_free_list_def)
    have "i \<notin> desc_id ` set out" if "i \<in> desc_id ` set T" for i
      using o(6) [of i] out [of i] that by (metis place.distinct(7))
    then show "distinct (map desc_id (T @ out))" using o(2) dr by auto
    show "distinct (map desc_id (q_head (tx_queues P' r')))" for r' using o(3) [of r'] q dr by (cases "r' = r") auto
    show "i \<in> set fl \<longleftrightarrow> i < desc_pool_size P' \<and> pl' i = Free" for i using o(4) out [of i] same by (auto simp: pl'_def)
    show "i \<in> queued_ids P' r' \<longleftrightarrow> i < desc_pool_size P' \<and> pl' i = Queued r'" for i r'
      using o(5) [of i r'] out [of i] same(7) by (auto simp: pl'_def qi)
    show "i \<in> desc_id ` set (T @ out) \<longleftrightarrow> i < desc_pool_size P' \<and> pl' i = Transit" for i
      using o(6) [of i] out [of i] same(7) by (auto simp: pl'_def image_Un)
    show "desc_ref P' i \<noteq> 0 \<longleftrightarrow> i < desc_pool_size P' \<and> pl' i = Target" for i
      using o(7) [of i] out [of i] same by (auto simp: pl'_def)
    show "desc_owner P' i \<noteq> None" if "i < desc_pool_size P'" "pl' i \<noteq> Free" for i
      using o(8) [of i] out [of i] same that by (auto simp: pl'_def split: if_splits)
    show "desc_id (desc_mem P' i) = i" for i using o(9) same by simp
    show "desc_mem P' (desc_id d) = d" if "d \<in> set (T @ out)" for d
      using o(10) [of d] o(11) [of d r] q(1) same that by auto
    show "desc_mem P' (desc_id d) = d" if "d \<in> set (q_head (tx_queues P' r'))" for r' d
      using o(11) [OF old [OF that]] same by simp
  qed (use o(12) same in simp)
  then show ?thesis by (auto simp: descs_ok_def)
qed

text \<open>A descriptor in hand is put at the end of a queue.\<close>

definition puts_back :: "txq_ref \<Rightarrow> ol_tx_desc_t \<Rightarrow> ol_txrx_pdev_t \<Rightarrow> ol_txrx_pdev_t \<Rightarrow> bool" where
  "puts_back r d P P' \<longleftrightarrow> q_head (tx_queues P' r) = q_head (tx_queues P r) @ [d] \<and>
     (\<forall>r'. r' \<noteq> r \<longrightarrow> q_head (tx_queues P' r') = q_head (tx_queues P r')) \<and> desc_mem P' = desc_mem P \<and>
     desc_ref P' = desc_ref P \<and> desc_owner P' = desc_owner P \<and> desc_next P' = desc_next P \<and> freelist P' = freelist P \<and>
     num_free P' = num_free P \<and> desc_pool_size P' = desc_pool_size P \<and> length (txq_grps P') = length (txq_grps P)"

lemma in_hand_id:
  assumes "owned fl pl (T1 @ d # T2) P"
  shows "desc_id d < desc_pool_size P" and "pl (desc_id d) = Transit" and "desc_ref P (desc_id d) = 0"
    and "desc_id d \<notin> desc_id ` set (T1 @ T2)" and "desc_id d \<notin> set fl" and "desc_mem P (desc_id d) = d"
proof -
  have "desc_id d \<in> desc_id ` set (T1 @ d # T2)" by simp
  then show p: "desc_id d < desc_pool_size P" "pl (desc_id d) = Transit" using owned_facts(6) [OF assms, of "desc_id d"] by blast+
  then show "desc_ref P (desc_id d) = 0" "desc_id d \<notin> set fl"
    using owned_facts(7) [OF assms, of "desc_id d"] owned_facts(4) [OF assms, of "desc_id d"] by auto
  show "desc_id d \<notin> desc_id ` set (T1 @ T2)" using owned_facts(2) [OF assms] by auto
  show "desc_mem P (desc_id d) = d" by (rule owned_facts(10) [OF assms]) simp
qed

lemma in_hand_rest:
  assumes "owned fl pl (T1 @ d # T2) P"
  shows "distinct (map desc_id (T1 @ T2))"
    and "i \<in> desc_id ` set (T1 @ T2) \<longleftrightarrow> i < desc_pool_size P \<and> pl i = Transit \<and> i \<noteq> desc_id d"
proof -
  show "distinct (map desc_id (T1 @ T2))" using owned_facts(2) [OF assms] by auto
  have "desc_id ` set (T1 @ d # T2) = insert (desc_id d) (desc_id ` set (T1 @ T2))" by auto
  then show "i \<in> desc_id ` set (T1 @ T2) \<longleftrightarrow> i < desc_pool_size P \<and> pl i = Transit \<and> i \<noteq> desc_id d"
    using owned_facts(6) [OF assms, of i] in_hand_id(4) [OF assms] by auto
qed

lemma descs_ok_put:
  assumes "puts_back r d P P'" and "descs_ok (T1 @ d # T2) P"
  shows "descs_ok (T1 @ T2) P'"
proof -
  obtain fl pl where ow: "owned fl pl (T1 @ d # T2) P" using assms(2) by (auto simp: descs_ok_def)
  note o = owned_facts [OF ow] and h = in_hand_id [OF ow] and hr = in_hand_rest [OF ow]
  define pl' where "pl' = pl(desc_id d := Queued r)"
  have q: "q_head (tx_queues P' r) = q_head (tx_queues P r) @ [d]"
    "\<And>r'. r' \<noteq> r \<Longrightarrow> q_head (tx_queues P' r') = q_head (tx_queues P r')"
    and same: "desc_mem P' = desc_mem P" "desc_ref P' = desc_ref P" "desc_owner P' = desc_owner P" "desc_next P' = desc_next P"
      "freelist P' = freelist P" "num_free P' = num_free P" "desc_pool_size P' = desc_pool_size P"
      "length (txq_grps P') = length (txq_grps P)"
    using assms(1) by (auto simp: puts_back_def)
  have qi: "queued_ids P' r' = (if r' = r then insert (desc_id d) (queued_ids P r) else queued_ids P r')" for r'
    using q unfolding queued_ids_def by auto
  have nq: "desc_id d \<notin> queued_ids P r'" for r' using o(5) [of "desc_id d" r'] h(2) by simp
  have "owned fl pl' (T1 @ T2) P'"
  proof (rule ownedI)
    show "desc_free_list P' fl" using o(1) same by (simp add: desc_free_list_def)
    show "distinct (map desc_id (T1 @ T2))" by (rule hr(1))
    show "distinct (map desc_id (q_head (tx_queues P' r')))" for r'
      using o(3) [of r'] q nq [of r] by (cases "r' = r") (auto simp: queued_ids_def)
    show "i \<in> set fl \<longleftrightarrow> i < desc_pool_size P' \<and> pl' i = Free" for i using o(4) [of i] h same(7) by (auto simp: pl'_def)
    show "i \<in> queued_ids P' r' \<longleftrightarrow> i < desc_pool_size P' \<and> pl' i = Queued r'" for i r'
      using o(5) [of i r'] h(1) nq [of r'] same(7) by (auto simp: pl'_def qi)
    show "i \<in> desc_id ` set (T1 @ T2) \<longleftrightarrow> i < desc_pool_size P' \<and> pl' i = Transit" for i
      using hr(2) [of i] same(7) by (simp add: pl'_def)
    show "desc_ref P' i \<noteq> 0 \<longleftrightarrow> i < desc_pool_size P' \<and> pl' i = Target" for i
      using o(7) [of i] h(2) same by (auto simp: pl'_def)
    show "desc_owner P' i \<noteq> None" if "i < desc_pool_size P'" "pl' i \<noteq> Free" for i
      using o(8) [of i] h(2) same that by (auto simp: pl'_def split: if_splits)
    show "desc_id (desc_mem P' i) = i" for i using o(9) same by simp
    show "desc_mem P' (desc_id d') = d'" if "d' \<in> set (T1 @ T2)" for d' using o(10) [of d'] same that by auto
    show "desc_mem P' (desc_id d') = d'" if "d' \<in> set (q_head (tx_queues P' r'))" for r' d'
      using o(11) [of d' r'] h(6) q same that by (cases "r' = r") auto
  qed (use o(12) same in simp)
  then show ?thesis by (auto simp: descs_ok_def)
qed

text \<open>A descriptor leaves the hands of the driver, or the target, for the free list.\<close>

lemma owned_free:
  assumes ow: "owned fl pl T P" and i: "i < desc_pool_size P" "pl i = Transit \<or> pl i = Target"
    and T': "distinct (map desc_id T')" "set T' \<subseteq> set T" "\<And>j. j \<in> desc_id ` set T' \<longleftrightarrow> j < desc_pool_size P \<and> pl j = Transit \<and> j \<noteq> i"
  shows "owned (i # fl) (pl(i := Free)) T' (ol_tx_desc_free i (clear_ref i P))"
proof -
  note o = owned_facts [OF ow]
  let ?P = "ol_tx_desc_free i (clear_ref i P)"
  have nf: "i \<notin> set fl" using o(4) [of i] i by auto
  have fl: "desc_free_list (clear_ref i P) fl" using o(1) by (simp add: desc_free_list_def clear_ref_def)
  have qi: "queued_ids ?P r = queued_ids P r" for r by (simp add: queued_ids_def)
  show ?thesis
  proof (rule ownedI)
    show "desc_free_list ?P (i # fl)" by (rule desc_free_list_release [OF fl]) (use i nf in simp_all)
    show "distinct (map desc_id T')" by (rule T'(1))
    show "distinct (map desc_id (q_head (tx_queues ?P r)))" for r using o(3) by simp
    show "j \<in> set (i # fl) \<longleftrightarrow> j < desc_pool_size ?P \<and> (pl(i := Free)) j = Free" for j using o(4) [of j] i by auto
    show "j \<in> queued_ids ?P r \<longleftrightarrow> j < desc_pool_size ?P \<and> (pl(i := Free)) j = Queued r" for j r
      using o(5) [of j r] i(2) by (auto simp: qi)
    show "j \<in> desc_id ` set T' \<longleftrightarrow> j < desc_pool_size ?P \<and> (pl(i := Free)) j = Transit" for j
      using T'(3) [of j] by simp
    show "desc_ref ?P j \<noteq> 0 \<longleftrightarrow> j < desc_pool_size ?P \<and> (pl(i := Free)) j = Target" for j
      using o(7) [of j] by (auto simp: clear_ref_def)
    show "desc_owner ?P j \<noteq> None" if "j < desc_pool_size ?P" "(pl(i := Free)) j \<noteq> Free" for j
      using o(8) [of j] that by (auto simp: ol_tx_desc_free_def clear_ref_def split: if_splits)
    show "desc_id (desc_mem ?P j) = j" for j using o(9) by simp
    show "desc_mem ?P (desc_id d') = d'" if "d' \<in> set T'" for d' using o(10) [of d'] T'(2) that by auto
    show "desc_mem ?P (desc_id d') = d'" if "d' \<in> set (q_head (tx_queues ?P r))" for r d' using o(11) [of d' r] that by simp
  qed (use o(12) in simp)
qed

lemma descs_ok_free_hand:
  assumes "descs_ok (T1 @ d # T2) P"
  shows "descs_ok (T1 @ T2) (ol_tx_desc_free (desc_id d) (clear_ref (desc_id d) P))"
proof -
  obtain fl pl where ow: "owned fl pl (T1 @ d # T2) P" using assms by (auto simp: descs_ok_def)
  note h = in_hand_id [OF ow] and hr = in_hand_rest [OF ow]
  have "owned (desc_id d # fl) (pl(desc_id d := Free)) (T1 @ T2) (ol_tx_desc_free (desc_id d) (clear_ref (desc_id d) P))"
    by (rule owned_free [OF ow h(1) _ hr(1) _ hr(2)]) (use h(2) in auto)
  then show ?thesis by (auto simp: descs_ok_def)
qed

lemma descs_ok_free_target:
  assumes "descs_ok T P" and "desc_ref P i \<noteq> 0"
  shows "descs_ok T (ol_tx_desc_free i (clear_ref i P))"
proof -
  obtain fl pl where ow: "owned fl pl T P" using assms by (auto simp: descs_ok_def)
  note o = owned_facts [OF ow]
  have i: "i < desc_pool_size P" "pl i = Target" using o(7) [of i] assms(2) by auto
  have "owned (i # fl) (pl(i := Free)) T (ol_tx_desc_free i (clear_ref i P))"
    by (rule owned_free [OF ow i(1) _ o(2)]) (use i o(6) in \<open>auto simp del: image_iff\<close>)
  then show ?thesis by (auto simp: descs_ok_def)
qed

text \<open>Logging and other fields do not matter.\<close>

lemma same_descs_freed [simp]: "same_descs P (P\<lparr>freed := x\<rparr>)" "same_descs P (P\<lparr>downloaded := x'\<rparr>)"
  "same_descs P (P\<lparr>rsrc_cnt := y\<rparr>)" "same_descs P (P\<lparr>target_tx_credit := y\<rparr>)" "same_descs P (P\<lparr>scheduler := z\<rparr>)"
  "same_descs P (P\<lparr>tx_sched_status := u\<rparr>)" "same_descs P (P\<lparr>vdev_list := w\<rparr>)" "length v = length (txq_grps P) \<Longrightarrow> same_descs P (P\<lparr>txq_grps := v\<rparr>)"
  "same_descs P (P\<lparr>desc_status := t\<rparr>)" "same_descs P (P\<lparr>last_used_txq := q\<rparr>)"
  by (simp_all add: same_descs_def)

lemma frame_free_pool:
  "ol_tx_desc_frame_free_nonstd e d P =
     (ol_tx_desc_free (desc_id d) (clear_ref (desc_id d) P))\<lparr>freed := freed P @ [(d, e)]\<rparr>"
  by (simp add: ol_tx_desc_frame_free_nonstd_def ol_tx_desc_free_def clear_ref_def Let_def)

lemma frame_free_hand: "descs_ok (T1 @ d # T2) P \<Longrightarrow> descs_ok (T1 @ T2) (ol_tx_desc_frame_free_nonstd e d P)"
  unfolding frame_free_pool by (rule descs_ok_same [OF same_descs_freed(1) descs_ok_free_hand])

lemma frame_free_target:
  "descs_ok T P \<Longrightarrow> desc_ref P (desc_id d) \<noteq> 0 \<Longrightarrow> descs_ok T (ol_tx_desc_frame_free_nonstd e d P)"
  unfolding frame_free_pool by (rule descs_ok_same [OF same_descs_freed(1) descs_ok_free_target])

lemma frame_free_ref:
  "desc_ref (ol_tx_desc_frame_free_nonstd e d P) = (desc_ref P)(desc_id d := 0)"
  by (simp add: ol_tx_desc_frame_free_nonstd_def ol_tx_desc_free_def clear_ref_def Let_def)

lemma frame_list_free_hand: "descs_ok (T @ ds) P \<Longrightarrow> descs_ok T (ol_tx_desc_frame_list_free e ds P)"
proof -
  have "descs_ok T (fold (\<lambda>d P. ol_tx_desc_free (desc_id d) (clear_ref (desc_id d) P)) ds P)" if "descs_ok (T @ ds) P"
    using that
  proof (induction ds arbitrary: P)
    case (Cons d ds)
    then show ?case using descs_ok_free_hand [of T d ds P] by simp
  qed simp
  then show "descs_ok (T @ ds) P \<Longrightarrow> descs_ok T (ol_tx_desc_frame_list_free e ds P)"
    unfolding ol_tx_desc_frame_list_free_def Let_def by (intro descs_ok_same [OF same_descs_freed(1)])
qed

lemma fold_frame_free_hand: "descs_ok (T @ ds) P \<Longrightarrow> descs_ok T (fold (ol_tx_desc_frame_free_nonstd e) ds P)"
  by (induction ds arbitrary: P) (auto dest: frame_free_hand)

text \<open>Changes of the reference counter: to the target and back into the hand.\<close>

lemma owned_ref:
  assumes ow: "owned fl pl T P" and i: "i < desc_pool_size P" "pl i \<noteq> Free" "p \<noteq> Free" "\<And>r. pl i \<noteq> Queued r" "\<And>r. p \<noteq> Queued r"
    and n: "n \<noteq> 0 \<longleftrightarrow> p = Target"
    and T': "distinct (map desc_id T')" "\<And>j. j \<in> desc_id ` set T' \<longleftrightarrow> j < desc_pool_size P \<and> (pl(i := p)) j = Transit"
      "\<And>d. d \<in> set T' \<Longrightarrow> desc_mem P (desc_id d) = d"
  shows "owned fl (pl(i := p)) T' (P\<lparr>desc_ref := (desc_ref P)(i := n)\<rparr>)"
proof -
  note o = owned_facts [OF ow]
  let ?P = "P\<lparr>desc_ref := (desc_ref P)(i := n)\<rparr>"
  have qi: "queued_ids ?P r = queued_ids P r" for r by (simp add: queued_ids_def)
  show ?thesis
  proof (rule ownedI)
    show "desc_free_list ?P fl" using o(1) by (simp add: desc_free_list_def)
    show "j \<in> set fl \<longleftrightarrow> j < desc_pool_size ?P \<and> (pl(i := p)) j = Free" for j using o(4) [of j] i by auto
    show "j \<in> queued_ids ?P r \<longleftrightarrow> j < desc_pool_size ?P \<and> (pl(i := p)) j = Queued r" for j r
      using o(5) [of j r] i(4,5) by (auto simp: qi)
    show "desc_ref ?P j \<noteq> 0 \<longleftrightarrow> j < desc_pool_size ?P \<and> (pl(i := p)) j = Target" for j using o(7) [of j] i(1) n by auto
    show "desc_owner ?P j \<noteq> None" if "j < desc_pool_size ?P" "(pl(i := p)) j \<noteq> Free" for j
      using o(8) [of j] i(2) that by (auto split: if_splits)
  qed (use o T' in simp_all)
qed

lemma descs_ok_to_target:
  assumes "descs_ok (T1 @ d # T2) P" and "n \<noteq> 0"
  shows "descs_ok (T1 @ T2) (P\<lparr>desc_ref := (desc_ref P)(desc_id d := n)\<rparr>)"
proof -
  obtain fl pl where ow: "owned fl pl (T1 @ d # T2) P" using assms by (auto simp: descs_ok_def)
  note h = in_hand_id [OF ow] and hr = in_hand_rest [OF ow]
  have "owned fl (pl(desc_id d := Target)) (T1 @ T2) (P\<lparr>desc_ref := (desc_ref P)(desc_id d := n)\<rparr>)"
    by (rule owned_ref [OF ow h(1)]) (use h(2) hr assms(2) owned_facts(10) [OF ow] in auto)
  then show ?thesis by (auto simp: descs_ok_def)
qed

lemma descs_ok_from_target:
  assumes "descs_ok T P" and "desc_ref P i \<noteq> 0"
  shows "descs_ok (T @ [desc_mem P i]) (P\<lparr>desc_ref := (desc_ref P)(i := 0)\<rparr>)"
proof -
  obtain fl pl where ow: "owned fl pl T P" using assms by (auto simp: descs_ok_def)
  note o = owned_facts [OF ow]
  have i: "i < desc_pool_size P" "pl i = Target" using o(7) [of i] assms(2) by auto
  have nT: "i \<notin> desc_id ` set T" using o(6) [of i] i by simp
  have "owned fl (pl(i := Transit)) (T @ [desc_mem P i]) (P\<lparr>desc_ref := (desc_ref P)(i := 0)\<rparr>)"
  proof (rule owned_ref [OF ow i(1)])
    show "distinct (map desc_id (T @ [desc_mem P i]))" using o(2,9) nT by auto
    show "j \<in> desc_id ` set (T @ [desc_mem P i]) \<longleftrightarrow> j < desc_pool_size P \<and> (pl(i := Transit)) j = Transit" for j
      using o(6) [of j] o(9) [of i] i(1) by (auto simp: image_iff)
    show "desc_mem P (desc_id d) = d" if "d \<in> set (T @ [desc_mem P i])" for d using o(9,10) that by auto
  qed (use i in simp_all)
  then show ?thesis by (auto simp: descs_ok_def)
qed

lemma descs_ok_keep_target:
  assumes "descs_ok T P" and "desc_ref P i \<noteq> 0" and "n \<noteq> 0"
  shows "descs_ok T (P\<lparr>desc_ref := (desc_ref P)(i := n)\<rparr>)"
proof -
  obtain fl pl where ow: "owned fl pl T P" using assms by (auto simp: descs_ok_def)
  note o = owned_facts [OF ow]
  have i: "i < desc_pool_size P" "pl i = Target" using o(7) [of i] assms(2) by auto
  have e: "pl = pl(i := Target)" using i(2) by auto
  have "owned fl (pl(i := Target)) T (P\<lparr>desc_ref := (desc_ref P)(i := n)\<rparr>)"
  proof (rule owned_ref [OF ow i(1)])
    show "j \<in> desc_id ` set T \<longleftrightarrow> j < desc_pool_size P \<and> (pl(i := Target)) j = Transit" for j
      using o(6) [of j] e by metis
  qed (use i assms(3) o in simp_all)
  then show ?thesis by (auto simp: descs_ok_def)
qed

text \<open>A new descriptor, and a change of its type.\<close>

lemma descs_ok_alloc:
  assumes "descs_ok T P" and "ol_tx_desc_hl vdev len P = (P', Some d)"
  shows "descs_ok (T @ [d]) P'"
proof -
  obtain fl pl where ow: "owned fl pl T P" using assms by (auto simp: descs_ok_def)
  note o = owned_facts [OF ow]
  obtain x fl' where fl: "fl = x # fl'"
    using assms(2) desc_alloc_list(1) [OF o(1), of vdev] by (cases fl) (auto simp: ol_tx_desc_hl_def ol_tx_desc_alloc_hl_def)
  have P': "P' = P\<lparr>num_free := num_free P - 1, freelist := desc_next P x, desc_owner := (desc_owner P)(x := Some vdev),
      rsrc_cnt := rsrc_cnt P - 1, desc_mem := (desc_mem P)(x := d)\<rparr>" and d: "desc_id d = x"
    using assms(2) desc_alloc_list(1) [OF o(1), of vdev] fl by (auto simp: ol_tx_desc_hl_def ol_tx_desc_alloc_hl_def Let_def)
  have x: "x < desc_pool_size P" "pl x = Free" "x \<notin> set fl'" using o(4) [of x] o(1) fl by (auto simp: desc_free_list_def)
  have nT: "x \<notin> desc_id ` set T" and nQ: "x \<notin> queued_ids P r" for r using o(6) [of x] o(5) [of x r] x by auto
  have qi: "queued_ids P' r = queued_ids P r" for r by (simp add: queued_ids_def P')
  have sz: "desc_pool_size P' = desc_pool_size P" by (simp add: P')
  have fl1: "desc_free_list P' fl'"
    using desc_alloc_list(2) [OF o(1) fl, of vdev] desc_alloc_list(1) [OF o(1), of vdev] fl by (simp add: desc_free_list_def P')
  have "owned fl' (pl(x := Transit)) (T @ [d]) P'"
  proof (rule ownedI)
    show "desc_free_list P' fl'" by (rule fl1)
    show "distinct (map desc_id (T @ [d]))" using o(2) nT d by auto
    show "distinct (map desc_id (q_head (tx_queues P' r)))" for r using o(3) by (simp add: P')
    show "j \<in> set fl' \<longleftrightarrow> j < desc_pool_size P' \<and> (pl(x := Transit)) j = Free" for j using o(4) [of j] x(3) by (auto simp: P' fl)
    show "j \<in> queued_ids P' r \<longleftrightarrow> j < desc_pool_size P' \<and> (pl(x := Transit)) j = Queued r" for j r
      using o(5) [of j r] x(2) by (auto simp: qi sz)
    show "j \<in> desc_id ` set (T @ [d]) \<longleftrightarrow> j < desc_pool_size P' \<and> (pl(x := Transit)) j = Transit" for j
      using o(6) [of j] x(1) d by (auto simp: P' image_iff)
    show "desc_ref P' j \<noteq> 0 \<longleftrightarrow> j < desc_pool_size P' \<and> (pl(x := Transit)) j = Target" for j
      using o(7) [of j] x(2) by (auto simp: P')
    show "desc_owner P' j \<noteq> None" if "j < desc_pool_size P'" "(pl(x := Transit)) j \<noteq> Free" for j
      using o(8) [of j] that by (auto simp: P' split: if_splits)
    show "desc_id (desc_mem P' j) = j" for j using o(9) d by (simp add: P')
    show "desc_mem P' (desc_id d') = d'" if "d' \<in> set (T @ [d])" for d'
      using o(10) [of d'] nT d that by (auto simp: P' image_iff)
    show "desc_mem P' (desc_id d') = d'" if "d' \<in> set (q_head (tx_queues P' r))" for r d'
    proof -
      have "desc_id d' \<in> queued_ids P r" using that by (auto simp: queued_ids_def P')
      then have "desc_id d' \<noteq> x" using nQ [of r] by metis
      then show ?thesis using o(11) [of d' r] that by (simp add: P')
    qed
  qed (use o(12) in \<open>simp add: P'\<close>)
  then show ?thesis by (auto simp: descs_ok_def)
qed

lemma descs_ok_set_desc:
  assumes "descs_ok (T @ [d]) P" and "set_desc f d P = (P', d')" and "desc_id (f d) = desc_id d"
  shows "descs_ok (T @ [d']) P'"
proof -
  obtain fl pl where ow: "owned fl pl (T @ [d]) P" using assms by (auto simp: descs_ok_def)
  note o = owned_facts [OF ow] and h = in_hand_id [OF ow]
  have e: "d' = f d" "P' = P\<lparr>desc_mem := (desc_mem P)(desc_id d := d')\<rparr>"
    using assms(2,3) by (auto simp: set_desc_def Let_def)
  have i: "desc_id d' = desc_id d" using assms(3) by (simp add: e(1))
  have qi: "queued_ids P' r = queued_ids P r" for r by (simp add: queued_ids_def e(2))
  have sz: "desc_pool_size P' = desc_pool_size P" by (simp add: e(2))
  have nQ: "desc_id d \<notin> queued_ids P r" for r using o(5) [of "desc_id d" r] h(2) by simp
  have "owned fl pl (T @ [d']) P'"
  proof (rule ownedI)
    show "desc_free_list P' fl" using o(1) by (simp add: desc_free_list_def e(2))
    show "j \<in> queued_ids P' r \<longleftrightarrow> j < desc_pool_size P' \<and> pl j = Queued r" for j r using o(5) [of j r] by (simp add: qi sz)
    show "j \<in> desc_id ` set (T @ [d']) \<longleftrightarrow> j < desc_pool_size P' \<and> pl j = Transit" for j using o(6) [of j] i by (simp add: e(2))
    show "desc_id (desc_mem P' j) = j" for j using o(9) i by (simp add: e(2))
    show "desc_mem P' (desc_id c) = c" if "c \<in> set (T @ [d'])" for c
      using o(10) [of c] h(4) i that by (auto simp: e(2) image_iff)
    show "desc_mem P' (desc_id c) = c" if "c \<in> set (q_head (tx_queues P' r))" for r c
    proof -
      have "desc_id c \<in> queued_ids P r" using that by (auto simp: queued_ids_def e(2))
      then have "desc_id c \<noteq> desc_id d" using nQ [of r] by metis
      then show ?thesis using o(11) [of c r] that by (simp add: e(2))
    qed
  qed (use o i in \<open>simp_all add: e(2)\<close>)
  then show ?thesis by (auto simp: descs_ok_def)
qed

end
