(* ===== verification/Tx_Moves.thy ===== *)
theory Tx_Moves
  imports Tx_Own
begin

text \<open>
  What the operations of the transmit path do to the descriptors, whenever they return: they keep every descriptor in
  exactly one place.
\<close>

definition keeps_descs :: "ol_txrx_pdev_t \<Rightarrow> ol_txrx_pdev_t \<Rightarrow> bool" where
  "keeps_descs P P' \<longleftrightarrow> (\<forall>T. descs_ok T P \<longrightarrow> descs_ok T P')"

lemma keeps_descs_refl [simp]: "keeps_descs P P"
  by (simp add: keeps_descs_def)

lemma keeps_descs_trans: "keeps_descs P P1 \<Longrightarrow> keeps_descs P1 P2 \<Longrightarrow> keeps_descs P P2"
  by (simp add: keeps_descs_def)

lemma same_keeps: "same_descs P P' \<Longrightarrow> keeps_descs P P'"
  using descs_ok_same by (auto simp: keeps_descs_def)

section \<open>Notifications\<close>

lemma notify_same: "ol_tx_sched_notify r ev P = Some P' \<Longrightarrow> same_descs P P' \<and> tx_queues P' = tx_queues P"
  by (auto simp: ol_tx_sched_notify.simps ol_tx_sched_txq_enqueue_wrr_adv_def ol_tx_sched_txq_deactivate_wrr_adv_def
      ol_tx_sched_txq_discard_wrr_adv_def bind_eq_Some_conv Let_def split: if_splits ol_tx_queue_action.splits)

section \<open>A scheduling run\<close>

lemma dequeue_loop_split:
  "dequeue_loop n credit credit_sum bytes_sum q = Some (out, rest, c, b) \<Longrightarrow> q = out @ rest"
  by (induction n credit credit_sum bytes_sum q arbitrary: out rule: dequeue_loop.induct)
    (auto simp: Let_def bind_eq_Some_conv split: if_splits)

lemma ol_tx_dequeue_split:
  "ol_tx_dequeue q m credit = Some (q', out, n, u, b) \<Longrightarrow> q_head q = out @ q_head q'"
  by (auto simp: ol_tx_dequeue_def Let_def bind_eq_Some_conv dest!: dequeue_loop_split)

lemma takes_none: "same_descs P P' \<Longrightarrow> takes_front r [] P P'"
  by (simp add: takes_front_def same_descs_def)

lemma takes_upd:
  assumes "q_head (tx_queues P r) = out @ q_head q'" and "same_descs (upd_txq r (\<lambda>_. q') P) P'"
  shows "takes_front r out P P'"
  using assms by (simp add: takes_front_def same_descs_def upd_txq_def)

lemma serve_category_takes:
  assumes "serve_category c credit P = Some (P', out, used)"
  shows "\<exists>r. takes_front r out P P'"
proof -
  obtain S cat where S: "scheduler P = Some S" and cat: "rd (categories S) c = Some cat"
    using assms by (auto simp: serve_category_def bind_eq_Some_conv)
  show ?thesis
  proof (cases "c_head cat")
    case Nil
    with assms S cat show ?thesis using takes_none [OF same_descs_refl] by (auto simp: serve_category_def)
  next
    case (Cons txq rest)
    obtain cr where cr: "ol_tx_txq_group_credit_limit P (tx_queues P txq) credit = Some cr"
      using assms by (auto simp: serve_category_def S cat Cons bind_eq_Some_conv Let_def)
    show ?thesis
    proof (cases "cr > word_of_int (credit_reserve (specs cat))")
      case False
      then have "out = [] \<and> same_descs P P'" using assms
        by (auto simp: serve_category_def S cat Cons cr same_descs_def split: if_splits)
      then show ?thesis using takes_none by auto
    next
      case True
      define lim where "lim = cr - word_of_int (credit_reserve (specs cat))"
      from assms True obtain q' frames bytes S' where
        dq: "ol_tx_dequeue (tx_queues P txq) (send_limit (specs cat)) lim = Some (q', out, frames, used, bytes)" and
        up: "ol_tx_txq_group_credit_update q' (- used) False
          (upd_txq txq (\<lambda>_. q') (P\<lparr>scheduler := S', last_used_txq := Some txq\<rparr>)) = Some P'"
        by (auto simp: serve_category_def S cat Cons cr bind_eq_Some_conv Let_def lim_def)
      have "same_descs (upd_txq txq (\<lambda>_. q') P) P'"
        using group_credit_update_frame [OF up] by (auto simp: same_descs_def upd_txq_def)
      then show ?thesis using takes_upd [OF ol_tx_dequeue_split [OF dq]] by blast
    qed
  qed
qed

lemma select_batch_takes:
  assumes "ol_tx_sched_select_batch_wrr_adv credit P = Some (P', out, used)"
  shows "\<exists>r. takes_front r out P P'"
proof -
  have "takes_front r [] P (P\<lparr>scheduler := S\<rparr>)" for r S by (rule takes_none) simp
  moreover have "takes_front r out P P'" if "takes_front r out (P\<lparr>scheduler := S\<rparr>) P'" for r S
    using that by (simp add: takes_front_def)
  ultimately show ?thesis using assms
    by (fastforce simp: ol_tx_sched_select_batch_wrr_adv_def bind_eq_Some_conv Let_def split: if_splits
        dest!: serve_category_takes)
qed

lemma sched_loop_takes:
  "sched_loop acc frms P = Some (P', acc', frms') \<Longrightarrow> descs_ok (T @ acc) P \<Longrightarrow>
   descs_ok (T @ acc') P' \<and> frms' = frms + int (length acc') - int (length acc)"
proof (induction acc frms P rule: sched_loop.induct)
  case (1 acc frms P)
  show ?case
  proof (cases "sint (target_tx_credit P) > 0")
    case False
    then show ?thesis using "1.prems" by (simp add: sched_loop.simps [of acc frms P])
  next
    case True
    obtain P1 out num where sel: "ol_tx_sched_select_batch_wrr_adv (target_tx_credit P) P = Some (P1, out, num)"
      using "1.prems"(1) True by (auto simp: sched_loop.simps [of acc frms P] bind_eq_Some_conv)
    define P2 where "P2 = (if sint num > 0 then P1\<lparr>target_tx_credit := target_tx_credit P1 - num\<rparr> else P1)"
    obtain r where "takes_front r out P P1" using select_batch_takes [OF sel] by blast
    then have "descs_ok (T @ acc @ out) P1" using descs_ok_take [of r out P P1 "T @ acc"] "1.prems"(2) by simp
    then have d2: "descs_ok (T @ acc @ out) P2" unfolding P2_def by (auto intro: descs_ok_same [OF same_descs_freed(4)])
    show ?thesis
    proof (cases "num = 0")
      case z: True
      then show ?thesis using "1.prems"(1) True sel d2
        by (auto simp: sched_loop.simps [of acc frms P] P2_def Let_def)
    next
      case False
      then have "sched_loop (acc @ out) (frms + int (length out)) P2 = Some (P', acc', frms')"
        using "1.prems"(1) True sel by (simp add: sched_loop.simps [of acc frms P] P2_def Let_def)
      from "1.IH" [OF True sel refl refl P2_def False this] d2 show ?thesis by simp
    qed
  qed
qed

section \<open>The download\<close>

text \<open>
  Frames of a chain have two references; those that the target rejects are freed.
\<close>

lemma reject_frame_ref: "desc_ref (reject_frame d P) = (desc_ref P)(desc_id d := 0)"
  by (simp add: reject_frame_def frame_free_ref)

lemma reject_frame_keeps: "descs_ok T P \<Longrightarrow> desc_ref P (desc_id d) \<noteq> 0 \<Longrightarrow> descs_ok T (reject_frame d P)"
  unfolding reject_frame_def by (intro frame_free_target descs_ok_same [OF same_descs_freed(4)]) simp_all

lemma fold_reject_keeps:
  "descs_ok T P \<Longrightarrow> distinct (map desc_id ds) \<Longrightarrow> \<forall>d\<in>set ds. desc_ref P (desc_id d) \<noteq> 0 \<Longrightarrow>
   descs_ok T (fold reject_frame ds P) \<and> (\<forall>i. i \<notin> desc_id ` set ds \<longrightarrow> desc_ref (fold reject_frame ds P) i = desc_ref P i)"
proof (induction ds arbitrary: P)
  case (Cons d ds)
  have "\<forall>d'\<in>set ds. desc_ref (reject_frame d P) (desc_id d') \<noteq> 0"
    using Cons.prems(2,3) by (auto simp: reject_frame_ref image_iff)
  then show ?case using Cons.IH [of "reject_frame d P"] Cons.prems reject_frame_keeps [of T P d]
    by (auto simp: reject_frame_ref)
qed simp

lemma send_batch_frames:
  "htt_tx_send_batch H n msdus rejected = Some (sent, rej) \<Longrightarrow> rej = rev (filter (rejects H) (take n msdus)) @ rejected"
  by (induction H n msdus rejected arbitrary: sent rule: htt_tx_send_batch.induct)
    (auto simp: bind_eq_Some_conv split: if_splits)

lemma send_batch_keeps:
  assumes "ol_tx_send_batch H msdus n P = Some P'" and "descs_ok T P" and "distinct (map desc_id msdus)"
    and "\<forall>d\<in>set msdus. desc_ref P (desc_id d) \<noteq> 0"
  shows "descs_ok T P' \<and> (\<forall>i. i \<notin> desc_id ` set (take n msdus) \<longrightarrow> desc_ref P' i = desc_ref P i)"
proof -
  obtain sent rej where b: "htt_tx_send_batch H n msdus [] = Some (sent, rej)"
    and P': "P' = fold reject_frame rej (P\<lparr>downloaded := downloaded P @ sent\<rparr>)"
    using assms(1) by (auto simp: ol_tx_send_batch_def bind_eq_Some_conv)
  have rej: "rej = rev (filter (rejects H) (take n msdus))" using send_batch_frames [OF b] by simp
  have st: "set rej \<subseteq> set (take n msdus)" by (auto simp: rej)
  have sub: "set rej \<subseteq> set msdus" using st set_take_subset [of n msdus] by blast
  have "distinct (map desc_id (filter (rejects H) (take n msdus)))"
    using assms(3) by (intro distinct_map_filter) (metis distinct_take take_map)
  then have d: "distinct (map desc_id rej)" by (simp add: rej rev_map [symmetric])
  have "descs_ok T (P\<lparr>downloaded := downloaded P @ sent\<rparr>)" using assms(2) by (rule descs_ok_same [OF same_descs_freed(2)])
  moreover have "\<forall>d\<in>set rej. desc_ref (P\<lparr>downloaded := downloaded P @ sent\<rparr>) (desc_id d) \<noteq> 0" using sub assms(4) by auto
  ultimately have k: "descs_ok T P'" "\<And>i. i \<notin> desc_id ` set rej \<Longrightarrow> desc_ref P' i = desc_ref P i"
    using fold_reject_keeps [OF _ d] by (auto simp: P')
  moreover have "i \<notin> desc_id ` set rej" if "i \<notin> desc_id ` set (take n msdus)" for i
    using that image_mono [OF st, of desc_id] by blast
  ultimately show ?thesis by blast
qed

lemma dispatch_loop_keeps:
  assumes "dispatch_loop H (int (length ds)) ds chain (length chain) P = Some (P', chain', n')" and "descs_ok (T @ ds) P"
    and "distinct (map desc_id chain)" and "\<forall>d\<in>set chain. desc_ref P (desc_id d) \<noteq> 0"
  shows "descs_ok T P' \<and> distinct (map desc_id chain') \<and> (\<forall>d\<in>set chain'. desc_ref P' (desc_id d) \<noteq> 0)"
  using assms
proof (induction ds arbitrary: chain P)
  case Nil
  then show ?case by simp
next
  case (Cons d ds)
  define P1 where "P1 = P\<lparr>desc_ref := (desc_ref P)(desc_id d := 2)\<rparr>"
  have z: "desc_ref P (desc_id d) = 0" using Cons.prems(2) in_hand_id(3) by (auto simp: descs_ok_def)
  have d1: "descs_ok (T @ ds) P1" using descs_ok_to_target [of T d ds P 2] Cons.prems(2) by (simp add: P1_def)
  have ch: "distinct (map desc_id (chain @ [d]))" "\<forall>c\<in>set (chain @ [d]). desc_ref P1 (desc_id c) \<noteq> 0"
    using Cons.prems(3,4) z by (auto simp: P1_def image_iff)
  show ?case
  proof (cases "no_id_storage H d")
    case False
    then have "dispatch_loop H (int (length ds)) ds (chain @ [d]) (length (chain @ [d])) P1 = Some (P', chain', n')"
      using Cons.prems(1) by (simp add: P1_def Let_def)
    then show ?thesis using Cons.IH d1 ch by blast
  next
    case True
    obtain P2 where b: "ol_tx_send_batch H (chain @ [d]) (length chain) P1 = Some P2"
      using Cons.prems(1) True by (auto simp: P1_def Let_def bind_eq_Some_conv)
    define P3 where "P3 = (if rejects H d then reject_frame d P2 else P2\<lparr>downloaded := downloaded P2 @ [d]\<rparr>)"
    have d2: "descs_ok (T @ ds) P2" and r2: "desc_ref P2 (desc_id d) = desc_ref P1 (desc_id d)"
      using send_batch_keeps [OF b d1 ch] ch(1) by auto
    then have "desc_ref P2 (desc_id d) \<noteq> 0" by (simp add: P1_def)
    then have d3: "descs_ok (T @ ds) P3"
      using reject_frame_keeps [OF d2] descs_ok_same [OF same_descs_freed(2) d2] by (auto simp: P3_def)
    have "dispatch_loop H (int (length ds)) ds [] (length ([] :: ol_tx_desc_t list)) P3 = Some (P', chain', n')"
      using Cons.prems(1) True b by (simp add: P1_def [symmetric] P3_def Let_def)
    from Cons.IH [OF this d3] show ?thesis by simp
  qed
qed

lemma dispatch_keeps:
  assumes "ol_tx_sched_dispatch H ds (int (length ds)) P = Some P'" and "descs_ok (T @ ds) P"
  shows "descs_ok T P'"
proof -
  obtain P1 chain n where l: "dispatch_loop H (int (length ds)) ds [] 0 P = Some (P1, chain, n)"
    and e: "(if chain \<noteq> [] then ol_tx_send_batch H chain n P1 else Some P1) = Some P'"
    using assms(1) by (auto simp: ol_tx_sched_dispatch_def bind_eq_Some_conv)
  have "descs_ok T P1 \<and> distinct (map desc_id chain) \<and> (\<forall>d\<in>set chain. desc_ref P1 (desc_id d) \<noteq> 0)"
    by (rule dispatch_loop_keeps [of H ds "[]" P]) (use l assms(2) in simp_all)
  then show ?thesis using e send_batch_keeps [of H chain n P1 P' T] by (auto split: if_splits)
qed

lemma ol_tx_sched_keeps: "ol_tx_sched H P = Some P' \<Longrightarrow> keeps_descs P P'"
proof (cases "tx_sched_status P = ol_tx_scheduler_idle")
  case False
  then show "ol_tx_sched H P = Some P' \<Longrightarrow> ?thesis" by (simp add: ol_tx_sched_def)
next
  case True
  assume "ol_tx_sched H P = Some P'"
  then obtain P1 P2 P3 ds frms where i: "ol_tx_sched_select_init_wrr_adv (P\<lparr>tx_sched_status := ol_tx_scheduler_running\<rparr>) = Some P1"
    and l: "sched_loop [] 0 P1 = Some (P2, ds, frms)" and d: "ol_tx_sched_dispatch H ds frms P2 = Some P3"
    and P': "P' = P3\<lparr>tx_sched_status := ol_tx_scheduler_idle\<rparr>"
    using True by (auto simp: ol_tx_sched_def bind_eq_Some_conv)
  have s1: "same_descs P P1" using i by (auto simp: ol_tx_sched_select_init_wrr_adv_def bind_eq_Some_conv same_descs_def)
  have "descs_ok T P'" if "descs_ok T P" for T
  proof -
    have "descs_ok (T @ ds) P2 \<and> frms = int (length ds)"
      using sched_loop_takes [OF l, of T] descs_ok_same [OF s1 that] by simp
    then have "descs_ok T P3" using dispatch_keeps [of H ds P2 P3 T] d by auto
    then show ?thesis unfolding P' by (rule descs_ok_same [OF same_descs_freed(6)])
  qed
  then show ?thesis by (simp add: keeps_descs_def)
qed

section \<open>Discarding and queueing\<close>

lemma discard_select_takes:
  assumes "ol_tx_sched_discard_select frms force P = Some (P', out, num)"
  shows "\<exists>r. takes_front r out P P'"
proof -
  obtain S category where S: "scheduler P = Some S" "rd (categories S) (ol_tx_sched_discard_select_category_wrr_adv S) = Some category"
    using assms by (auto simp: ol_tx_sched_discard_select_def bind_eq_Some_conv Let_def)
  show ?thesis
  proof (cases "ol_tx_sched_discard_select_txq P (c_head category)")
    case None
    then show ?thesis using assms S takes_none [OF same_descs_refl] by (auto simp: ol_tx_sched_discard_select_def)
  next
    case (Some txq)
    then obtain q' n cr b ev where
      dq: "ol_tx_dequeue (tx_queues P txq) (discard_frms force frms (q_frms (tx_queues P txq))) 10000 = Some (q', out, n, cr, b)"
      and nt: "ol_tx_sched_notify txq ev (upd_txq txq (\<lambda>_. q') P) = Some P'"
      using assms S by (auto simp: ol_tx_sched_discard_select_def bind_eq_Some_conv Let_def)
    then show ?thesis using takes_upd [OF ol_tx_dequeue_split [OF dq]] notify_same [OF nt] by blast
  qed
qed

lemma discard_loop_takes:
  "discard_loop num force tx_descs act P = Some (P', tx_descs', num', act') \<Longrightarrow> descs_ok (T @ tx_descs) P \<Longrightarrow> descs_ok (T @ tx_descs') P'"
proof (induction num force tx_descs act P rule: discard_loop.induct)
  case (1 num force tx_descs act P)
  show ?case
  proof (cases "num > 0")
    case False
    then show ?thesis using "1.prems" by (simp add: discard_loop.simps [of num])
  next
    case True
    obtain P1 out n where sel: "ol_tx_sched_discard_select num force P = Some (P1, out, n)"
      using "1.prems"(1) True by (auto simp: discard_loop.simps [of num] bind_eq_Some_conv)
    obtain r where "takes_front r out P P1" using discard_select_takes [OF sel] by blast
    then have d1: "descs_ok (T @ tx_descs @ out) P1" using descs_ok_take [of r out P P1 "T @ tx_descs"] "1.prems"(2) by simp
    show ?thesis
    proof (cases "n = 0")
      case z: True
      then show ?thesis using "1.prems"(1) True sel d1 by (simp add: discard_loop.simps [of num])
    next
      case False
      then have "discard_loop (num - n) force (tx_descs @ out) (act + n) P1 = Some (P', tx_descs', num', act')"
        using "1.prems"(1) True sel by (simp add: discard_loop.simps [of num])
      from "1.IH" [OF True sel refl refl False this] d1 show ?thesis by simp
    qed
  qed
qed

lemma queue_discard_takes:
  assumes "ol_tx_queue_discard False P = Some (P', tx_descs)" and "descs_ok T P"
  shows "descs_ok (T @ tx_descs) P'"
proof -
  obtain P1 num act where l: "discard_loop (rsrc_threshold_hi P - rsrc_threshold_lo P) False [] 0 P = Some (P1, tx_descs, num, act)"
    and P': "P' = P1\<lparr>rsrc_cnt := rsrc_cnt P1 + ucast act\<rparr>"
    using assms(1) by (auto simp: ol_tx_queue_discard_def bind_eq_Some_conv Let_def)
  have "descs_ok (T @ tx_descs) P1" using discard_loop_takes [OF l, of T] assms(2) by simp
  then show ?thesis unfolding P' by (rule descs_ok_same [OF same_descs_freed(3)])
qed

lemma discard_keeps:
  "ol_tx_queue_discard False P = Some (P1, ds) \<Longrightarrow> keeps_descs P (ol_tx_desc_frame_list_free e ds P1)"
  using queue_discard_takes frame_list_free_hand by (auto simp: keeps_descs_def)

lemma enqueue_puts:
  assumes "ol_tx_enqueue r d tid P = Some P'" and "descs_ok (T1 @ d # T2) P"
  shows "descs_ok (T1 @ T2) P'"
proof -
  obtain P1 where room: "(if sint (rsrc_cnt P) \<le> uint (rsrc_threshold_lo P) then do {
              (P, tx_descs) \<leftarrow> ol_tx_queue_discard False P;
              Some (ol_tx_desc_frame_list_free True tx_descs P) }
           else Some P) = Some P1"
    and rest: "(let P = upd_txq r (\<lambda>q. q\<lparr>q_head := q_head q @ [d], q_frms := q_frms q + 1, q_bytes := q_bytes q + netbuf_len d\<rparr>) P1
      in if q_flag (tx_queues P r) \<noteq> ol_tx_queue_paused then do {
       P \<leftarrow> ol_tx_sched_notify r (OL_TX_ENQUEUE_FRAME tid (netbuf_len d)) P;
       Some (upd_txq r (\<lambda>q. q\<lparr>q_flag := ol_tx_queue_active\<rparr>) P) }
     else Some P) = Some P'"
    using assms(1) unfolding ol_tx_enqueue_def bind_eq_Some_conv by auto
  have "keeps_descs P P1" using room discard_keeps by (auto simp: bind_eq_Some_conv split: if_splits)
  then have d1: "descs_ok (T1 @ d # T2) P1" using assms(2) by (simp add: keeps_descs_def)
  have "puts_back r d P1 P'"
    using rest notify_same by (fastforce simp: Let_def bind_eq_Some_conv puts_back_def same_descs_def upd_txq_def split: if_splits)
  then show ?thesis using d1 by (rule descs_ok_put)
qed

section \<open>Pausing, unpausing and freeing queues\<close>

lemma upd_txq_same [simp]: "(\<And>q. q_head (f q) = q_head q) \<Longrightarrow> same_descs P (upd_txq r f P)"
  by (simp add: same_descs_def upd_txq_def)

lemma peer_tid_pause_same: "ol_txrx_peer_tid_pause_base peer tid P = Some P' \<Longrightarrow> same_descs P P'"
  by (fastforce simp: ol_txrx_peer_tid_pause_base_def Let_def bind_eq_Some_conv same_descs_def upd_txq_def split: if_splits
      dest!: notify_same)

lemma peer_tid_unpause_keeps:
  assumes "ol_txrx_peer_tid_unpause_base H peer tid P = Some P'"
  shows "keeps_descs P P'"
proof -
  let ?r = "PeerTxq peer tid"
  define n where "n = paused_count_total (tx_queues P ?r)"
  define P0 where "P0 = upd_txq ?r (\<lambda>q. q\<lparr>paused_count_total := n - 1\<rparr>) P"
  have s0: "same_descs P P0" by (simp add: P0_def)
  consider "P' = P" | "P' = P0"
    | P1 where "ol_tx_sched_notify ?r (OL_TX_UNPAUSE_QUEUE tid) P0 = Some P1"
      "P' = upd_txq ?r (\<lambda>q. q\<lparr>q_flag := ol_tx_queue_empty\<rparr>) P1 \<or>
       ol_tx_sched H (upd_txq ?r (\<lambda>q. q\<lparr>q_flag := ol_tx_queue_active\<rparr>) P1) = Some P'"
    using assms by (auto simp: ol_txrx_peer_tid_unpause_base_def n_def P0_def Let_def bind_eq_Some_conv split: if_splits)
  then show ?thesis
  proof cases
    case 3
    have s1: "same_descs P P1" using same_descs_trans [OF s0] notify_same [OF 3(1)] by blast
    have s2: "same_descs P (upd_txq ?r (\<lambda>q. q\<lparr>q_flag := f\<rparr>) P1)" for f by (rule same_descs_trans [OF s1]) simp
    show ?thesis using 3(2)
    proof
      assume "P' = upd_txq ?r (\<lambda>q. q\<lparr>q_flag := ol_tx_queue_empty\<rparr>) P1"
      then show ?thesis using same_keeps [OF s2] by simp
    next
      assume "ol_tx_sched H (upd_txq ?r (\<lambda>q. q\<lparr>q_flag := ol_tx_queue_active\<rparr>) P1) = Some P'"
      then show ?thesis using keeps_descs_trans [OF same_keeps [OF s2] ol_tx_sched_keeps] by blast
    qed
  qed (use s0 same_keeps in auto)
qed

lemma for_each_relates:
  assumes "for_each is body s = Some s'" and "\<And>i s s'. i \<in> set is \<Longrightarrow> body i s = Some s' \<Longrightarrow> R s s'"
    and "\<And>s. R s s" and "\<And>s t u. R s t \<Longrightarrow> R t u \<Longrightarrow> R s u"
  shows "R s s'"
  using assms(1,2)
proof (induction "is" arbitrary: s)
  case Nil
  then show ?case using assms(3) by simp
next
  case (Cons i "is")
  then obtain s1 where "body i s = Some s1" "for_each is body s1 = Some s'" by (auto simp: bind_eq_Some_conv)
  then show ?case using Cons.IH [of s1] Cons.prems(2) assms(4) by (metis list.set_intros)
qed

lemma vdev_pause_keeps:
  assumes "ol_txrx_vdev_pause reason v P = Some P'"
  shows "keeps_descs P P'"
proof -
  have peer: "same_descs P1 P2" if "ol_txrx_peer_pause_base peer P1 = Some P2" for peer P1 P2
    using that unfolding ol_txrx_peer_pause_base_def
    by (rule for_each_relates) (use peer_tid_pause_same same_descs_trans in auto)
  obtain vdev where v: "rd (vdev_list P) v = Some vdev" using assms by (auto simp: ol_txrx_vdev_pause_def bind_eq_Some_conv)
  show ?thesis
  proof (cases "hl_paused_reason vdev AND reason = 0")
    case False
    then show ?thesis using assms v by (simp add: ol_txrx_vdev_pause_def)
  next
    case True
    define P0 where "P0 = upd_vdev v (\<lambda>vdev. vdev\<lparr>hl_paused_reason := hl_paused_reason vdev OR reason\<rparr>) P"
    have s0: "same_descs P P0" by (simp add: P0_def upd_vdev_def same_descs_def)
    have "for_each (peer_list vdev) ol_txrx_peer_pause_base P0 = Some P'"
      using assms v True by (simp add: ol_txrx_vdev_pause_def P0_def)
    then have "same_descs P0 P'" by (rule for_each_relates) (use peer same_descs_trans in auto)
    then show ?thesis using same_descs_trans [OF s0] same_keeps by blast
  qed
qed

lemma vdev_unpause_keeps:
  assumes "ol_txrx_vdev_unpause H reason v P = Some P'"
  shows "keeps_descs P P'"
proof -
  have peer: "keeps_descs P1 P2" if "for_each [0..<OL_TX_NUM_TIDS] (ol_txrx_peer_tid_unpause_base H peer) P1 = Some P2" for peer P1 P2
    using that by (rule for_each_relates) (use peer_tid_unpause_keeps keeps_descs_trans in auto)
  obtain vdev where v: "rd (vdev_list P) v = Some vdev" using assms by (auto simp: ol_txrx_vdev_unpause_def bind_eq_Some_conv)
  show ?thesis
  proof (cases "hl_paused_reason vdev AND reason = 0")
    case True
    then show ?thesis using assms v by (simp add: ol_txrx_vdev_unpause_def)
  next
    case False
    define P0 where "P0 = upd_vdev v (\<lambda>vdev. vdev\<lparr>hl_paused_reason := hl_paused_reason vdev AND NOT reason\<rparr>) P"
    have s0: "same_descs P P0" by (simp add: P0_def upd_vdev_def same_descs_def)
    have "for_each (peer_list vdev) (\<lambda>peer. for_each [0..<OL_TX_NUM_TIDS] (ol_txrx_peer_tid_unpause_base H peer)) P0 = Some P'"
      using assms v False by (simp add: ol_txrx_vdev_unpause_def P0_def)
    then have "keeps_descs P0 P'" by (rule for_each_relates) (use peer keeps_descs_trans in auto)
    then show ?thesis using keeps_descs_trans [OF same_keeps [OF s0]] by blast
  qed
qed

text \<open>A queue that counts all its frames loses none of them when it is freed.\<close>

lemma queue_free_keeps:
  assumes "ol_tx_queue_free r tid P = Some P'" and "unat (q_frms (tx_queues P r)) = length (q_head (tx_queues P r))"
  shows "keeps_descs P P'"
proof -
  let ?q = "tx_queues P r"
  obtain P1 b where n: "ol_tx_sched_notify r (OL_TX_DELETE_QUEUE tid) P = Some P1"
    and P': "P' = fold (ol_tx_desc_frame_free_nonstd False) (take (unat (q_frms (tx_queues P1 r))) (q_head (tx_queues P1 r)))
      ((upd_txq r (\<lambda>q. q\<lparr>q_frms := 0, q_bytes := q_bytes q - b, q_flag := ol_tx_queue_empty, q_head := []\<rparr>) P1)
        \<lparr>rsrc_cnt := rsrc_cnt P1 + ucast (q_frms (tx_queues P1 r))\<rparr>)"
    using assms(1) by (auto simp: ol_tx_queue_free_def bind_eq_Some_conv Let_def upd_txq_def)
  define P2 where "P2 = (upd_txq r (\<lambda>q. q\<lparr>q_frms := 0, q_bytes := q_bytes q - b, q_flag := ol_tx_queue_empty, q_head := []\<rparr>) P1)
        \<lparr>rsrc_cnt := rsrc_cnt P1 + ucast (q_frms (tx_queues P1 r))\<rparr>"
  have s1: "same_descs P P1" and q1: "tx_queues P1 = tx_queues P" using notify_same [OF n] by auto
  have "takes_front r (q_head ?q) P P2"
    using s1 q1 by (simp add: takes_front_def same_descs_def P2_def upd_txq_def)
  then have "descs_ok (T @ q_head ?q) P2" if "descs_ok T P" for T using that by (rule descs_ok_take)
  moreover have "P' = fold (ol_tx_desc_frame_free_nonstd False) (q_head ?q) P2"
    using assms(2) by (simp add: P' P2_def q1)
  ultimately show ?thesis using fold_frame_free_hand by (simp add: keeps_descs_def)
qed

end
