(* ===== verification/Tx_Select.thy ===== *)
theory Tx_Select
  imports Tx_Inv
begin

text \<open>
  The selection of a category by the transmit scheduler: it always ends with an answer, keeps the order list a
  permutation of the categories and changes nothing but the order and the turns.
\<close>

lemma rotate_loop_shift:
  "idx + n < length xs \<Longrightarrow> rotate_loop n idx xs = Some (take idx xs @ take n (drop (Suc idx) xs) @ drop (idx + n) xs)"
proof (induction n idx xs rule: rotate_loop.induct)
  case (1 n idx xs)
  show ?case
  proof (cases n)
    case 0
    then show ?thesis by simp
  next
    case (Suc m)
    have l: "Suc idx < length xs" using "1.prems" Suc by simp
    have "rotate_loop m (Suc idx) (xs[idx := xs ! Suc idx]) =
        Some (take (Suc idx) (xs[idx := xs ! Suc idx]) @ take m (drop (Suc (Suc idx)) (xs[idx := xs ! Suc idx]))
              @ drop (Suc idx + m) (xs[idx := xs ! Suc idx]))"
      using "1.IH" [of "xs ! Suc idx" "xs[idx := xs ! Suc idx]"] "1.prems" Suc l by simp
    moreover have "take (Suc idx) (xs[idx := xs ! Suc idx]) = take idx xs @ [xs ! Suc idx]"
      using l by (simp add: take_Suc_conv_app_nth)
    moreover have "take (Suc m) (drop (Suc idx) xs) = xs ! Suc idx # take m (drop (Suc (Suc idx)) xs)"
      using l by (simp add: Cons_nth_drop_Suc [symmetric])
    ultimately show ?thesis using Suc l by simp
  qed
qed

definition rotated :: "nat \<Rightarrow> 'a list \<Rightarrow> 'a list" where
  "rotated i xs = take i xs @ drop (Suc i) xs @ [xs ! i]"

lemma order_ok_length: "order_ok S \<Longrightarrow> length (order S) = OL_TX_SCHED_WRR_ADV_NUM_CATEGORIES"
  unfolding order_ok_def using distinct_card [of "order S"] by simp

lemma rotate_order:
  assumes "order_ok S" and "i < OL_TX_SCHED_WRR_ADV_NUM_CATEGORIES"
  shows "ol_tx_sched_wrr_adv_rotate_order_list_tail i S = Some (S\<lparr>order := rotated i (order S)\<rparr>)"
proof -
  let ?xs = "order S"
  have l: "length ?xs = 8" "i < 8" using order_ok_length [OF assms(1)] assms(2) by (simp_all add: OL_TX_SCHED_WRR_ADV_NUM_CATEGORIES_def)
  have "rotate_loop (7 - i) i ?xs = Some (take i ?xs @ take (7 - i) (drop (Suc i) ?xs) @ drop 7 ?xs)"
    using rotate_loop_shift [of i "7 - i" ?xs] l by simp
  moreover have "take (7 - i) (drop (Suc i) ?xs) = drop (Suc i) ?xs" using l by simp
  moreover have "drop 7 ?xs = [?xs ! 7]" using Cons_nth_drop_Suc [of 7 ?xs] l by simp
  ultimately have "rotate_loop (7 - i) i ?xs = Some ((take i ?xs @ drop (Suc i) ?xs) @ [?xs ! 7])" by simp
  moreover have "length (take i ?xs @ drop (Suc i) ?xs) = 7" using l by simp
  ultimately show ?thesis
    using l by (simp add: ol_tx_sched_wrr_adv_rotate_order_list_tail_def OL_TX_SCHED_WRR_ADV_NUM_CATEGORIES_def
        rotated_def list_update_append max_def)
qed

lemma rotated_perm:
  assumes "i < length xs"
  shows "set (rotated i xs) = set xs" and "distinct (rotated i xs) \<longleftrightarrow> distinct xs" and "length (rotated i xs) = length xs"
proof -
  obtain A x B where r: "rotated i xs = A @ B @ [x]" and xs: "xs = A @ x # B"
    using that [OF rotated_def id_take_nth_drop [OF assms]] .
  show "set (rotated i xs) = set xs" unfolding r by (subst xs) auto
  show "distinct (rotated i xs) \<longleftrightarrow> distinct xs" unfolding r by (subst xs) auto
  show "length (rotated i xs) = length xs" unfolding r by (subst xs) simp
qed

text \<open>The selection changes the order and the counters of turns only.\<close>

definition same_but_turns :: "ol_tx_sched_wrr_adv_t \<Rightarrow> ol_tx_sched_wrr_adv_t \<Rightarrow> bool" where
  "same_but_turns S S' \<longleftrightarrow>
     map (\<lambda>c. c\<lparr>wrr_count := 0\<rparr>) (categories S') = map (\<lambda>c. c\<lparr>wrr_count := 0\<rparr>) (categories S)"

lemma same_but_turns_trans: "same_but_turns S S' \<Longrightarrow> same_but_turns S' S'' \<Longrightarrow> same_but_turns S S''"
  by (simp add: same_but_turns_def)

lemma same_but_turns_upd:
  "c < length (categories S) \<Longrightarrow> same_but_turns S (upd_category c (\<lambda>c. c\<lparr>wrr_count := f c\<rparr>) S)"
  by (auto simp: same_but_turns_def upd_category_def list_eq_iff_nth_eq nth_list_update)

lemma turns_only: "a\<lparr>wrr_count := 0\<rparr> = b\<lparr>wrr_count := 0\<rparr> \<Longrightarrow> a = b\<lparr>wrr_count := wrr_count a\<rparr>"
  for a b :: ol_tx_sched_wrr_adv_category_info_t
  by (cases a, cases b) simp

lemma same_but_turns_category:
  assumes "same_but_turns S S'" and "c < length (categories S)"
  shows "categories S' ! c = (categories S ! c)\<lparr>wrr_count := wrr_count (categories S' ! c)\<rparr>"
proof -
  let ?z = "\<lambda>c. c\<lparr>wrr_count := 0\<rparr>"
  have m: "map ?z (categories S') = map ?z (categories S)" using assms(1) by (simp add: same_but_turns_def)
  then have "length (categories S') = length (categories S)" by (rule map_eq_imp_length_eq)
  moreover have "map ?z (categories S') ! c = map ?z (categories S) ! c" by (simp only: m)
  ultimately have "?z (categories S' ! c) = ?z (categories S ! c)" using assms(2) by simp
  then show ?thesis by (rule turns_only)
qed

lemma category_ok_turns [simp]: "category_ok qs ac c (cat\<lparr>wrr_count := n\<rparr>) = category_ok qs ac c cat"
  by (simp add: category_ok_def)

lemma sched_ok_turns:
  assumes "sched_ok qs ac S" and "same_but_turns S S'" and "order_ok S'"
  shows "sched_ok qs ac S'"
proof -
  have "category_ok qs ac c (categories S' ! c)" if "c < OL_TX_SCHED_WRR_ADV_NUM_CATEGORIES" for c
  proof -
    have "categories S' ! c = (categories S ! c)\<lparr>wrr_count := wrr_count (categories S' ! c)\<rparr>"
      using same_but_turns_category [OF assms(2), of c] assms(1) that by (simp add: sched_ok_def order_ok_def)
    moreover have "category_ok qs ac c (categories S ! c)" using assms(1) that by (simp add: sched_ok_def)
    ultimately show ?thesis by (metis category_ok_turns)
  qed
  then show ?thesis using assms(3) by (simp add: sched_ok_def)
qed

lemma order_upd [simp]: "order (upd_category c f S) = order S" "index (upd_category c f S) = index S"
  by (simp_all add: upd_category_def)

lemma order_ok_upd [simp]: "order_ok (upd_category c f S) = order_ok S"
  by (simp add: order_ok_def upd_category_def)

lemma order_ok_rotated:
  "order_ok S \<Longrightarrow> i < OL_TX_SCHED_WRR_ADV_NUM_CATEGORIES \<Longrightarrow> order_ok (S\<lparr>order := rotated i (order S)\<rparr>)"
  using order_ok_length [of S] rotated_perm [of i "order S"] by (simp add: order_ok_def)

lemma order_ok_nth:
  assumes "order_ok S" and "i < OL_TX_SCHED_WRR_ADV_NUM_CATEGORIES"
  shows "order S ! i < OL_TX_SCHED_WRR_ADV_NUM_CATEGORIES" and "order S ! i < length (categories S)"
proof -
  have "order S ! i \<in> set (order S)" using assms order_ok_length [of S] by simp
  then show "order S ! i < OL_TX_SCHED_WRR_ADV_NUM_CATEGORIES" "order S ! i < length (categories S)"
    using assms(1) by (auto simp: order_ok_def)
qed

text \<open>One round of the selection loop.\<close>

lemma select_loop_step:
  assumes "order_ok S" and "i < OL_TX_SCHED_WRR_ADV_NUM_CATEGORIES"
  shows "select_loop i S =
    (let c = order S ! i; cat = categories S ! c;
         S1 = upd_category c (\<lambda>c. c\<lparr>wrr_count := wrr_count c + 1\<rparr>) S
     in if \<not> c_active cat then select_loop (i + 1) S
        else if wrr_count cat + 1 < wrr_skip_weight (specs cat)
             then select_loop i (S1\<lparr>order := rotated i (order S)\<rparr>)
        else Some (i, S1))"
proof -
  have c: "rd (order S) i = Some (order S ! i)" "rd (categories S) (order S ! i) = Some (categories S ! (order S ! i))"
    using order_ok_length [OF assms(1)] order_ok_nth [OF assms] assms(2) by simp_all
  have rot: "ol_tx_sched_wrr_adv_rotate_order_list_tail i (upd_category c f S)
      = Some ((upd_category c f S)\<lparr>order := rotated i (order S)\<rparr>)" for c f
    using rotate_order [of "upd_category c f S" i] assms by (simp add: order_upd)
  show ?thesis by (subst select_loop.simps) (simp add: c rot assms(2) Let_def)
qed

lemma select_loop_end: "\<not> i < OL_TX_SCHED_WRR_ADV_NUM_CATEGORIES \<Longrightarrow> select_loop i S = Some (i, S)"
  by (subst select_loop.simps) simp

lemma select_loop_ok:
  assumes "order_ok S"
  obtains i' S' where "select_loop i S = Some (i', S')" "order_ok S'" "same_but_turns S S'" "index S' = index S"
    "i' < OL_TX_SCHED_WRR_ADV_NUM_CATEGORIES \<longrightarrow> c_active (categories S' ! (order S' ! i'))"
proof -
  have "\<exists>i' S'. select_loop i S = Some (i', S') \<and> order_ok S' \<and> same_but_turns S S' \<and> index S' = index S \<and>
    (i' < OL_TX_SCHED_WRR_ADV_NUM_CATEGORIES \<longrightarrow> c_active (categories S' ! (order S' ! i')))"
    using assms
  proof (induction "(total_skips S, OL_TX_SCHED_WRR_ADV_NUM_CATEGORIES - i)" arbitrary: i S
      rule: wf_induct_rule [OF wf_lex_prod [OF wf_less_than wf_less_than]])
    case (1 i S)
    show ?case
    proof (cases "i < OL_TX_SCHED_WRR_ADV_NUM_CATEGORIES")
      case False
      then show ?thesis using "1.prems" by (simp add: select_loop_end same_but_turns_def)
    next
      case True
      define c where "c = order S ! i"
      define S1 where "S1 = upd_category c (\<lambda>c. c\<lparr>wrr_count := wrr_count c + 1\<rparr>) S"
      have c: "c < length (categories S)" using order_ok_nth [OF "1.prems" True] by (simp add: c_def)
      have step: "select_loop i S = (if \<not> c_active (categories S ! c) then select_loop (i + 1) S
        else if wrr_count (categories S ! c) + 1 < wrr_skip_weight (specs (categories S ! c))
             then select_loop i (S1\<lparr>order := rotated i (order S)\<rparr>)
        else Some (i, S1))"
        using select_loop_step [OF "1.prems" True] by (simp add: c_def S1_def Let_def)
      consider (idle) "\<not> c_active (categories S ! c)"
        | (skip) "c_active (categories S ! c)" "wrr_count (categories S ! c) + 1 < wrr_skip_weight (specs (categories S ! c))"
        | (turn) "c_active (categories S ! c)" "\<not> wrr_count (categories S ! c) + 1 < wrr_skip_weight (specs (categories S ! c))"
        by blast
      then show ?thesis
      proof cases
        case idle
        then show ?thesis using "1.hyps" [of S "i + 1"] "1.prems" True step by simp
      next
        case skip
        define S2 where "S2 = S1\<lparr>order := rotated i (order S)\<rparr>"
        have "order_ok S2" using order_ok_rotated [of S1 i] "1.prems" True by (simp add: S2_def S1_def upd_category_def order_ok_def)
        moreover have "total_skips S2 < total_skips S"
          using total_skips_dec [OF c skip(2)] by (simp add: S2_def S1_def total_skips_def)
        moreover have "same_but_turns S S2" using same_but_turns_upd [OF c] by (simp add: S2_def S1_def same_but_turns_def)
        moreover have "index S2 = index S" by (simp add: S2_def S1_def upd_category_def)
        moreover have "select_loop i S = select_loop i S2" using step skip by (simp add: S2_def)
        ultimately show ?thesis using "1.hyps" [of S2 i] by (auto intro: same_but_turns_trans)
      next
        case turn
        moreover have "same_but_turns S S1" using same_but_turns_upd [OF c] by (simp add: S1_def)
        ultimately show ?thesis using "1.prems" step c
          by (simp add: S1_def) (simp add: upd_category_def c_def [symmetric])
      qed
    qed
  qed
  then show ?thesis using that by blast
qed

end
