(* ===== verification/Tx_Run.thy ===== *)
theory Tx_Run
  imports Tx_Select
begin

text \<open>
  A run of the transmit scheduler and the download: it returns, keeps the queues and the scheduler consistent,
  takes the frames from the fronts of the queues and spends one credit for each frame that the target takes.
\<close>

section \<open>Serving a category\<close>

lemma tx_inv_cong:
  assumes "tx_queues P' = tx_queues P" and "scheduler P' = scheduler P" and "tid_to_ac P' = tid_to_ac P"
    and "length (txq_grps P') = length (txq_grps P)"
  shows "tx_inv P' = tx_inv P"
  using assms by (simp add: tx_inv_def)

lemma tx_inv_scheduler_only:
  assumes "tx_inv P" and "scheduler P' = Some S" and "sched_ok (tx_queues P) (tid_to_ac P) S"
    and "tx_queues P' = tx_queues P" and "tid_to_ac P' = tid_to_ac P" and "length (txq_grps P') = length (txq_grps P)"
  shows "tx_inv P'"
  using assms by (simp add: tx_inv_def)

lemma queue_ok_group:
  assumes "queue_ok n q"
  obtains g where "rd (group_ptrs q) 0 = Some g" "\<And>i. g = Some i \<Longrightarrow> i < n"
proof (rule that)
  have l: "length (group_ptrs q) = 1" using assms by (simp add: queue_ok_def OL_TX_MAX_GROUPS_PER_QUEUE_def)
  then show "rd (group_ptrs q) 0 = Some (group_ptrs q ! 0)" by simp
  have "case group_ptrs q ! 0 of None \<Rightarrow> True | Some i \<Rightarrow> i < n"
    using assms l by (simp add: queue_ok_def list_all_length)
  then show "i < n" if "group_ptrs q ! 0 = Some i" for i using that by simp
qed

lemma group_credit_limit_returns:
  assumes "queue_ok (length (txq_grps P)) q"
  obtains cr where "ol_tx_txq_group_credit_limit P q credit = Some cr"
proof -
  obtain g where g: "rd (group_ptrs q) 0 = Some g" "\<And>i. g = Some i \<Longrightarrow> i < length (txq_grps P)"
    using queue_ok_group [OF assms] by blast
  then show ?thesis
    by (cases g) (auto simp: ol_tx_txq_group_credit_limit_def OL_TX_MAX_GROUPS_PER_QUEUE_def intro!: that)
qed

lemma group_credit_update_returns:
  assumes "queue_ok (length (txq_grps P)) q"
  obtains gs where "ol_tx_txq_group_credit_update q credit absolute P = Some (P\<lparr>txq_grps := gs\<rparr>)"
    "length gs = length (txq_grps P)"
proof -
  obtain g where g: "rd (group_ptrs q) 0 = Some g" "\<And>i. g = Some i \<Longrightarrow> i < length (txq_grps P)"
    using queue_ok_group [OF assms] by blast
  show ?thesis
  proof (cases g)
    case None
    then show ?thesis using g
      by (intro that [of "txq_grps P"]) (simp_all add: ol_tx_txq_group_credit_update_def OL_TX_MAX_GROUPS_PER_QUEUE_def)
  next
    case (Some i)
    then show ?thesis using g
      by (intro that [of "(txq_grps P)[i := ol_txrx_update_group_credit (txq_grps P ! i) credit absolute]"])
        (simp_all add: ol_tx_txq_group_credit_update_def OL_TX_MAX_GROUPS_PER_QUEUE_def)
  qed
qed

text \<open>What a selection does to the device: some frames leave one queue from its front, for one credit each.\<close>

definition gives_frames :: "ol_txrx_pdev_t \<Rightarrow> ol_tx_desc_t list \<Rightarrow> u32 \<Rightarrow> ol_txrx_pdev_t \<Rightarrow> bool" where
  "gives_frames P out used P' \<longleftrightarrow>
     (\<exists>r k. k \<le> length (q_head (tx_queues P r)) \<and> k < 65536 \<and>
        out = take k (q_head (tx_queues P r)) \<and> used = of_nat k \<and>
        (\<forall>r'. q_head (tx_queues P' r') = (if r' = r then drop k (q_head (tx_queues P r)) else q_head (tx_queues P r')))) \<and>
     target_tx_credit P' = target_tx_credit P \<and> tx_sched_status P' = tx_sched_status P \<and>
     vdev_list P' = vdev_list P \<and> downloaded P' = downloaded P \<and> freed P' = freed P \<and> rsrc_cnt P' = rsrc_cnt P"

lemma gives_none:
  assumes "\<And>r. q_head (tx_queues P' r) = q_head (tx_queues P r)"
    and "target_tx_credit P' = target_tx_credit P" and "tx_sched_status P' = tx_sched_status P"
    and "vdev_list P' = vdev_list P" and "downloaded P' = downloaded P" and "freed P' = freed P" and "rsrc_cnt P' = rsrc_cnt P"
  shows "gives_frames P [] 0 P'"
  unfolding gives_frames_def using assms by (auto intro!: exI [of _ 0])

lemma serve_category_ok:
  assumes inv: "tx_inv P" and c: "c < OL_TX_SCHED_WRR_ADV_NUM_CATEGORIES"
  obtains P' out used where "serve_category c credit P = Some (P', out, used)" "tx_inv P'" "gives_frames P out used P'"
proof -
  obtain S where S: "scheduler P = Some S" and sok: "sched_ok (tx_queues P) (tid_to_ac P) S"
    using tx_inv_scheduler [OF inv] .
  define cat where "cat = categories S ! c"
  have cl: "c < length (categories S)" using sok c by (simp add: sched_ok_def order_ok_def)
  have rdc: "rd (categories S) c = Some cat" using cl by (simp add: cat_def)
  have cok: "category_ok (tx_queues P) (tid_to_ac P) c cat" using sok c by (simp add: sched_ok_def cat_def)
  show ?thesis
  proof (cases "c_head cat")
    case Nil
    have "serve_category c credit P = Some (P, [], 0)" by (simp add: serve_category_def S rdc Nil)
    then show ?thesis using inv by (auto intro!: that gives_none)
  next
    case (Cons txq rest)
    have r: "txq \<in> set (c_head cat)" by (simp add: Cons)
    have v: "txq_valid txq" by (rule listed_nonempty(2) [OF inv cok r])
    have act: "q_flag (tx_queues P txq) = ol_tx_queue_active" and ac: "c = tid_to_ac P ! ref_tid txq"
      and d: "distinct (txq # rest)"
      using cok r Cons by (auto simp: category_ok_def lists_active_def)
    define q where "q = tx_queues P txq"
    have qok: "queue_ok (length (txq_grps P)) q" using tx_inv_queue [OF inv v] by (simp add: q_def)
    obtain cr where cr: "ol_tx_txq_group_credit_limit P q credit = Some cr"
      using group_credit_limit_returns [OF qok] .
    define reserve where "reserve = (word_of_int (credit_reserve (specs cat)) :: u32)"
    show ?thesis
    proof (cases "cr > reserve")
      case False
      define P' where "P' = (if last_used_txq P = Some txq then P
         else P\<lparr>scheduler := Some (upd_category c (\<lambda>c. c\<lparr>c_head := rest @ [txq]\<rparr>) S),
                last_used_txq := (if last_used_txq P = None then Some txq else last_used_txq P)\<rparr>)"
      have run: "serve_category c credit P = Some (P', [], 0)"
        using False by (simp add: serve_category_def S rdc Cons q_def [symmetric] cr reserve_def [symmetric] P'_def)
      have "category_ok (tx_queues P) (tid_to_ac P) c (cat\<lparr>c_head := rest @ [txq]\<rparr>)"
        using category_ok_change [OF cok r, of "tx_queues P txq" "rest @ [txq]" "c_frms cat" "c_bytes cat"] act d Cons
        by (simp add: fun_upd_idem)
      then have moved: "category_ok ((tx_queues P)(txq := q)) (tid_to_ac P) c (cat\<lparr>c_head := rest @ [txq]\<rparr>)"
        by (simp add: q_def)
      have "tx_inv P'"
      proof (cases "last_used_txq P = Some txq")
        case True
        then show ?thesis using inv by (simp add: P'_def)
      next
        case False
        show ?thesis
          by (rule tx_inv_update [OF inv v S ac qok moved])
            (use False in \<open>simp_all add: P'_def cat_def upd_category_def q_def\<close>)
      qed
      then show ?thesis using run by (auto simp: P'_def intro!: that gives_none)
    next
      case True
      define k where "k = batch_size q (send_limit (specs cat)) (cr - reserve)"
      define out where "out = take k (q_head q)"
      define q' where "q' = q\<lparr>q_head := drop k (q_head q), q_frms := q_frms q - of_nat k,
            q_bytes := q_bytes q - sum_list (map netbuf_len (take k (q_head q))),
            q_flag := (if k = length (q_head q) then ol_tx_queue_empty else ol_tx_queue_active)\<rparr>"
      have k: "k \<le> length (q_head q)" by (simp add: k_def batch_size_def)
      have actq: "q_flag q = ol_tx_queue_active" using act by (simp add: q_def)
      have k16: "k < 65536" using k queue_ok_frms(2) [OF qok] by simp
      have deq: "ol_tx_dequeue q (send_limit (specs cat)) (cr - reserve) =
          Some (q', out, of_nat k, of_nat k, sum_list (map netbuf_len out))"
        using ol_tx_dequeue_takes [OF qok, of "send_limit (specs cat)" "cr - reserve"] actq
        by (simp add: k_def [symmetric] out_def q'_def Let_def)
      have q'ok: "queue_ok (length (txq_grps P)) q'"
        using dequeue_queue_ok [OF qok k] act by (simp add: q'_def q_def)
      have empty: "q_frms q' > 0 \<longleftrightarrow> k \<noteq> length (q_head q)"
      proof -
        have "unat (q_frms q') = length (q_head q) - k" using q'ok by (simp add: queue_ok_def q'_def)
        then show ?thesis using k by (auto simp: word_less_nat_alt)
      qed
      have ku: "uint (of_nat k :: u16) = int k"
        by (rule frms_sub(3) [of "q_frms q" "length (q_head q)"]) (use qok k in \<open>simp_all add: queue_ok_def\<close>)
      define cat' where "cat' = cat\<lparr>c_frms := c_frms cat - int k, c_bytes := c_bytes cat - sum_list (map netbuf_len out),
            c_head := (if k = length (q_head q) then remove1 txq (c_head cat) else rest @ [txq]),
            c_active := (if k = length (q_head q) then (if c_frms cat - int k = 0 then False else c_active cat) else c_active cat)\<rparr>"
      have cat'ok: "category_ok ((tx_queues P)(txq := q')) (tid_to_ac P) c cat'"
        unfolding cat'_def
        by (rule category_ok_take [OF inv cok r q_def k q'_def refl, where rs' = "rest @ [txq]"])
          (use d Cons in \<open>auto simp: out_def\<close>)
      define P1 where "P1 = upd_txq txq (\<lambda>_. q') (P\<lparr>scheduler := Some (upd_category c (\<lambda>_. cat') S), last_used_txq := Some txq\<rparr>)"
      have P1: "txq_grps P1 = txq_grps P" "tx_queues P1 = (tx_queues P)(txq := q')" by (simp_all add: P1_def upd_txq_def)
      obtain gs where up: "ol_tx_txq_group_credit_update q' (- of_nat k) False P1 = Some (P1\<lparr>txq_grps := gs\<rparr>)"
        and gl: "length gs = length (txq_grps P)"
        using group_credit_update_returns [of P1 q' "- of_nat k" False] q'ok P1 by auto
      have cat'e: "cat\<lparr>c_frms := c_frms cat - uint (of_nat k :: u16), c_bytes := c_bytes cat - sum_list (map netbuf_len out),
                  c_head := (if q_frms q' > 0 then rest @ [txq] else rest),
                  c_active := (if q_frms q' > 0 then c_active cat
                               else if c_frms cat - uint (of_nat k :: u16) = 0 then False else c_active cat)\<rparr> = cat'"
        unfolding ku cat'_def using empty Cons by simp
      have run: "serve_category c credit P = Some (P1\<lparr>txq_grps := gs\<rparr>, out, of_nat k)"
        using True by (simp add: serve_category_def S rdc Cons q_def [symmetric] cr reserve_def [symmetric] deq
            Let_def cat'e P1_def [symmetric] up)
      have "tx_inv (P1\<lparr>txq_grps := gs\<rparr>)"
        by (rule tx_inv_update [OF inv v S ac q'ok cat'ok]) (simp_all add: P1_def upd_txq_def gl)
      moreover have "gives_frames P out (of_nat k) (P1\<lparr>txq_grps := gs\<rparr>)"
        unfolding gives_frames_def using k k16
        by (auto intro!: exI [of _ txq] exI [of _ k] simp: P1_def upd_txq_def out_def q'_def q_def)
      ultimately show ?thesis using run by (rule that [rotated])
    qed
  qed
qed

lemma select_batch_ok:
  assumes inv: "tx_inv P"
  obtains P' out used where "ol_tx_sched_select_batch_wrr_adv credit P = Some (P', out, used)" "tx_inv P'"
    "gives_frames P out used P'"
proof -
  obtain S where S: "scheduler P = Some S" and sok: "sched_ok (tx_queues P) (tid_to_ac P) S"
    using tx_inv_scheduler [OF inv] .
  have ook: "order_ok S" using sok by (simp add: sched_ok_def)
  obtain i S1 where sel: "select_loop (index S) S = Some (i, S1)" and o1: "order_ok S1" and t1: "same_but_turns S S1"
    using select_loop_ok [OF ook] .
  have keep: "sched_ok (tx_queues P) (tid_to_ac P) S2" if "same_but_turns S1 S2" "order_ok S2" for S2
    using sched_ok_turns [OF sok same_but_turns_trans [OF t1 that(1)] that(2)] .
  show ?thesis
  proof (cases "i < OL_TX_SCHED_WRR_ADV_NUM_CATEGORIES")
    case False
    then have "ol_tx_sched_select_batch_wrr_adv credit P = Some (P\<lparr>scheduler := Some S1\<rparr>, [], 0)"
      by (simp add: ol_tx_sched_select_batch_wrr_adv_def S sel)
    moreover have "tx_inv (P\<lparr>scheduler := Some S1\<rparr>)"
      by (rule tx_inv_scheduler_only [OF inv _ keep [of S1]]) (simp_all add: same_but_turns_def o1)
    ultimately show ?thesis by (rule that) (simp add: gives_none)
  next
    case True
    define c where "c = order S1 ! i"
    have c: "c < OL_TX_SCHED_WRR_ADV_NUM_CATEGORIES" "c < length (categories S1)"
      using order_ok_nth [OF o1 True] by (simp_all add: c_def)
    have rdo: "rd (order S1) i = Some c" using order_ok_length [OF o1] True by (simp add: c_def)
    show ?thesis
    proof (cases "credit < credit_threshold (specs (categories S1 ! c))")
      case short: True
      define S2 where "S2 = upd_category c (\<lambda>c. c\<lparr>wrr_count := wrr_count c - 1\<rparr>) S1"
      have "ol_tx_sched_select_batch_wrr_adv credit P = Some (P\<lparr>scheduler := Some S2\<rparr>, [], 0)"
        using True short c by (simp add: ol_tx_sched_select_batch_wrr_adv_def S sel rdo S2_def)
      moreover have "tx_inv (P\<lparr>scheduler := Some S2\<rparr>)"
        by (rule tx_inv_scheduler_only [OF inv _ keep [of S2]]) (simp_all add: S2_def o1 same_but_turns_upd c)
      ultimately show ?thesis by (rule that) (simp add: gives_none)
    next
      case enough: False
      define S2 where "S2 = (upd_category c (\<lambda>c. c\<lparr>wrr_count := 0\<rparr>) S1)\<lparr>order := rotated i (order S1), index := i\<rparr>"
      define P2 where "P2 = P\<lparr>scheduler := Some S2\<rparr>"
      have "ol_tx_sched_select_batch_wrr_adv credit P = serve_category c credit P2"
        using True enough c rotate_order [of "upd_category c (\<lambda>c. c\<lparr>wrr_count := 0\<rparr>) S1" i] o1
        by (simp add: ol_tx_sched_select_batch_wrr_adv_def S sel rdo S2_def P2_def)
      moreover have ok2: "order_ok S2"
        using order_ok_rotated [OF o1 True] by (simp add: S2_def order_ok_def upd_category_def)
      have "same_but_turns S1 S2"
        using same_but_turns_upd [OF c(2), of "\<lambda>_. 0"] by (simp add: S2_def same_but_turns_def)
      then have "tx_inv P2"
        by (intro tx_inv_scheduler_only [OF inv _ keep [of S2]]) (simp_all add: P2_def ok2)
      then obtain P' out used where "serve_category c credit P2 = Some (P', out, used)" "tx_inv P'" "gives_frames P2 out used P'"
        using serve_category_ok [OF _ c(1)] by blast
      moreover have "gives_frames P out used P'" using \<open>gives_frames P2 out used P'\<close>
        by (simp add: gives_frames_def P2_def split del: if_split cong del: if_weak_cong)
      ultimately show ?thesis by (auto intro: that)
    qed
  qed
qed

text \<open>
  A run of the selection takes frames from the fronts of the queues: together with what is left, the frames of a
  queue are those it had, in their order, and each frame cost one credit.
\<close>

definition disjoint_queues :: "ol_txrx_pdev_t \<Rightarrow> bool" where
  "disjoint_queues P \<longleftrightarrow>
     (\<forall>r. distinct (q_head (tx_queues P r))) \<and>
     (\<forall>r r'. r \<noteq> r' \<longrightarrow> set (q_head (tx_queues P r)) \<inter> set (q_head (tx_queues P r')) = {})"

definition frames_leave :: "ol_txrx_pdev_t \<Rightarrow> ol_tx_desc_t list \<Rightarrow> ol_txrx_pdev_t \<Rightarrow> bool" where
  "frames_leave P out P' \<longleftrightarrow>
     (\<forall>r. q_head (tx_queues P r) =
        filter (\<lambda>d. d \<in> set (q_head (tx_queues P r))) out @ q_head (tx_queues P' r))"

lemma gives_frames_leave:
  assumes "gives_frames P out used P'" and "disjoint_queues P"
  shows "frames_leave P out P'" and "disjoint_queues P'"
proof -
  obtain r k where k: "k \<le> length (q_head (tx_queues P r))" and out: "out = take k (q_head (tx_queues P r))"
    and rest: "\<And>r'. q_head (tx_queues P' r') = (if r' = r then drop k (q_head (tx_queues P r)) else q_head (tx_queues P r'))"
    using assms(1) by (auto simp: gives_frames_def)
  have "filter (\<lambda>d. d \<in> set (q_head (tx_queues P r'))) out = (if r' = r then out else [])" for r'
  proof (cases "r' = r")
    case True
    then show ?thesis using out by (auto intro!: filter_True dest: in_set_takeD)
  next
    case False
    have "set out \<subseteq> set (q_head (tx_queues P r))" unfolding out by (rule set_take_subset)
    moreover have "set (q_head (tx_queues P r)) \<inter> set (q_head (tx_queues P r')) = {}"
      using assms(2) False unfolding disjoint_queues_def by metis
    ultimately show ?thesis using False by (auto intro!: filter_False)
  qed
  then show "frames_leave P out P'" using out rest by (auto simp: frames_leave_def)
  show "disjoint_queues P'" using assms(2) rest set_drop_subset [of k "q_head (tx_queues P r)"]
    unfolding disjoint_queues_def by (auto 4 4 split: if_splits)
qed

lemma frames_leave_trans:
  assumes "frames_leave P out P1" and "frames_leave P1 out' P2" and "disjoint_queues P"
    and "set out' \<subseteq> (\<Union>r. set (q_head (tx_queues P1 r)))"
  shows "frames_leave P (out @ out') P2"
  unfolding frames_leave_def
proof
  fix r
  have a: "q_head (tx_queues P r) = filter (\<lambda>d. d \<in> set (q_head (tx_queues P r))) out @ q_head (tx_queues P1 r)"
    and b: "q_head (tx_queues P1 r) = filter (\<lambda>d. d \<in> set (q_head (tx_queues P1 r))) out' @ q_head (tx_queues P2 r)"
    using assms(1,2) by (auto simp: frames_leave_def)
  have sub: "set (q_head (tx_queues P1 r')) \<subseteq> set (q_head (tx_queues P r'))" for r'
    using assms(1) unfolding frames_leave_def by (metis Un_upper2 set_append)
  have "d \<in> set (q_head (tx_queues P1 r)) \<longleftrightarrow> d \<in> set (q_head (tx_queues P r))" if h: "d \<in> set out'" for d
  proof -
    obtain r' where "d \<in> set (q_head (tx_queues P1 r'))" using assms(4) h by blast
    then show ?thesis using sub assms(3) unfolding disjoint_queues_def by (metis disjoint_iff subsetD)
  qed
  then have "filter (\<lambda>d. d \<in> set (q_head (tx_queues P1 r))) out' = filter (\<lambda>d. d \<in> set (q_head (tx_queues P r))) out'"
    by (intro filter_cong) auto
  with a b show "q_head (tx_queues P r) = filter (\<lambda>d. d \<in> set (q_head (tx_queues P r))) (out @ out') @ q_head (tx_queues P2 r)"
    by (metis append.assoc filter_append)
qed

lemma sint_small: "uint w < 2 ^ 31 \<Longrightarrow> sint w = uint w" for w :: u32
  unfolding sint_uint by (rule signed_take_bit_int_eq_self) (rule order_trans [OF _ uint_ge_0], simp, simp)

lemma sint_sub_le:
  assumes "u \<le> t" and "0 \<le> sint t"
  shows "sint (t - u :: u32) = sint t - uint u" and "0 \<le> sint (t - u)"
proof -
  have t: "sint t = uint t" using assms(2) by (rule sint_nonneg_uint)
  have d: "uint (t - u) = uint t - uint u" using assms(1) by (rule uint_minus_simple_alt [THEN iffD1])
  moreover have "uint t < 2 ^ 31" using t sint_less [of t] by simp
  ultimately have "uint (t - u) < 2 ^ 31" using uint_ge_0 [of u] by linarith
  then have s: "sint (t - u) = uint (t - u)" by (rule sint_small)
  then show "sint (t - u) = sint t - uint u" using t d by simp
  show "0 \<le> sint (t - u)" unfolding s by (rule uint_ge_0)
qed

lemma uint_word_of_nat_small: "n < 65536 \<Longrightarrow> uint (word_of_nat n :: u32) = int n"
  using unat_word_of_nat [of n, where 'a = 32] by (simp add: uint_nat)

lemma sched_loop_ok:
  assumes "tx_inv P" and "disjoint_queues P"
  shows "\<exists>P' out. sched_loop acc frms P = Some (P', acc @ out, frms + int (length out)) \<and> tx_inv P' \<and>
    frames_leave P out P' \<and> disjoint_queues P' \<and> set out \<subseteq> (\<Union>r. set (q_head (tx_queues P r))) \<and>
    target_tx_credit P' = target_tx_credit P - of_nat (length out) \<and>
    int (length out) \<le> max 0 (sint (target_tx_credit P)) \<and>
    tx_sched_status P' = tx_sched_status P \<and> vdev_list P' = vdev_list P \<and>
    downloaded P' = downloaded P \<and> freed P' = freed P \<and> rsrc_cnt P' = rsrc_cnt P"
  using assms
proof (induction acc frms P rule: sched_loop.induct)
  case (1 acc frms P)
  show ?case
  proof (cases "sint (target_tx_credit P) > 0")
    case False
    then have "sched_loop acc frms P = Some (P, acc, frms)" by (subst sched_loop.simps) simp
    then show ?thesis using "1.prems" False by (intro exI [of _ P] exI [of _ "[]"]) (auto simp: frames_leave_def)
  next
    case True
    let ?t = "target_tx_credit P"
    obtain P1 out1 used where sel: "ol_tx_sched_select_batch_wrr_adv ?t P = Some (P1, out1, used)"
      and inv1: "tx_inv P1" and g: "gives_frames P out1 used P1"
      using select_batch_ok [OF "1.prems"(1)] .
    have le: "used \<le> ?t" using select_batch_credit [OF sel] True by simp
    have used: "used = of_nat (length out1)" and l16: "length out1 < 65536"
      and sub1: "set out1 \<subseteq> (\<Union>r. set (q_head (tx_queues P r)))"
      using g by (auto simp: gives_frames_def dest: in_set_takeD)
    have fl: "frames_leave P out1 P1" and dj: "disjoint_queues P1" using gives_frames_leave [OF g "1.prems"(2)] by auto
    have same: "target_tx_credit P1 = ?t" "tx_sched_status P1 = tx_sched_status P" "vdev_list P1 = vdev_list P"
      "downloaded P1 = downloaded P" "freed P1 = freed P" "rsrc_cnt P1 = rsrc_cnt P"
      using g by (auto simp: gives_frames_def)
    show ?thesis
    proof (cases "used = 0")
      case z: True
      have "unat used = length out1" unfolding used using l16 by (intro unat_word_of_nat) simp
      then have nil: "out1 = []" using z by simp
      have "sched_loop acc frms P = Some (P1, acc, frms)"
        using True z nil by (subst sched_loop.simps) (simp add: sel)
      then show ?thesis using inv1 dj fl same nil True by (intro exI [of _ P1] exI [of _ "[]"]) auto
    next
      case nz: False
      have pos: "sint used > 0" using sint_pos_le [OF nz le True] .
      define P2 where "P2 = P1\<lparr>target_tx_credit := ?t - used\<rparr>"
      have P2eq: "P2 = (if sint used > 0 then P1\<lparr>target_tx_credit := target_tx_credit P1 - used\<rparr> else P1)"
        using pos same(1) by (simp add: P2_def)
      have step: "sched_loop acc frms P = sched_loop (acc @ out1) (frms + int (length out1)) P2"
        using True pos nz same(1) by (subst sched_loop.simps) (simp add: sel P2_def)
      have inv2: "tx_inv P2" using inv1 by (subst tx_inv_cong [where P = P1]) (simp_all add: P2_def)
      have dj2: "disjoint_queues P2" using dj by (simp add: disjoint_queues_def P2_def)
      obtain P' out2 where run: "sched_loop (acc @ out1) (frms + int (length out1)) P2
            = Some (P', (acc @ out1) @ out2, frms + int (length out1) + int (length out2))"
        and inv': "tx_inv P'" and fl2: "frames_leave P2 out2 P'" and dj': "disjoint_queues P'"
        and sub2: "set out2 \<subseteq> (\<Union>r. set (q_head (tx_queues P2 r)))"
        and t': "target_tx_credit P' = target_tx_credit P2 - of_nat (length out2)"
        and b': "int (length out2) \<le> max 0 (sint (target_tx_credit P2))"
        and same': "tx_sched_status P' = tx_sched_status P2" "vdev_list P' = vdev_list P2"
          "downloaded P' = downloaded P2" "freed P' = freed P2" "rsrc_cnt P' = rsrc_cnt P2"
        using "1.IH" [OF True sel refl refl P2eq nz inv2 dj2] by blast
      have sub12: "set (q_head (tx_queues P1 r)) \<subseteq> set (q_head (tx_queues P r))" for r
        using fl unfolding frames_leave_def by (metis Un_upper2 set_append)
      have sub2': "set out2 \<subseteq> (\<Union>r. set (q_head (tx_queues P1 r)))" using sub2 by (simp add: P2_def)
      have "frames_leave P1 out2 P'" using fl2 by (simp add: frames_leave_def P2_def)
      then have leave: "frames_leave P (out1 @ out2) P'" using frames_leave_trans [OF fl _ "1.prems"(2) sub2'] by blast
      have "uint used = int (length out1)" unfolding used using l16 by (simp add: uint_word_of_nat_small)
      then have left: "sint (target_tx_credit P2) = sint ?t - int (length out1)" "0 \<le> sint (target_tx_credit P2)"
        using sint_sub_le [OF le] True by (simp_all add: P2_def)
      have "target_tx_credit P' = ?t - of_nat (length (out1 @ out2))" using t' used by (simp add: P2_def)
      moreover have "int (length (out1 @ out2)) \<le> max 0 (sint ?t)" using b' left by simp
      moreover have "set (out1 @ out2) \<subseteq> (\<Union>r. set (q_head (tx_queues P r)))" 
        using sub1 order_trans [OF sub2' UN_mono [OF order_refl sub12]] by simp
      ultimately show ?thesis using step run inv' leave dj' same same'
        by (intro exI [of _ P'] exI [of _ "out1 @ out2"]) (simp add: P2_def)
    qed
  qed
qed

section \<open>Download\<close>

lemma htt_tx_send_batch_all:
  "n \<le> length msdus \<Longrightarrow> htt_tx_send_batch H n msdus rejected =
     Some (filter (\<lambda>d. \<not> rejects H d) (take n msdus), rev (filter (rejects H) (take n msdus)) @ rejected)"
  by (induction H n msdus rejected rule: htt_tx_send_batch.induct) auto

text \<open>What the download does to the device.\<close>

definition downloads :: "tx_env \<Rightarrow> ol_txrx_pdev_t \<Rightarrow> ol_tx_desc_t list \<Rightarrow> ol_txrx_pdev_t \<Rightarrow> bool" where
  "downloads H P ds P' \<longleftrightarrow>
     downloaded P' = downloaded P @ filter (\<lambda>d. \<not> rejects H d) ds \<and>
     set (freed P') = set (freed P) \<union> (\<lambda>d. (d, True)) ` {d \<in> set ds. rejects H d} \<and>
     target_tx_credit P' = target_tx_credit P + of_nat (length (filter (rejects H) ds)) \<and>
     tx_queues P' = tx_queues P \<and> scheduler P' = scheduler P \<and> tid_to_ac P' = tid_to_ac P \<and>
     txq_grps P' = txq_grps P \<and> vdev_list P' = vdev_list P \<and> rsrc_cnt P' = rsrc_cnt P"

lemma downloads_trans: "downloads H P ds P1 \<Longrightarrow> downloads H P1 ds' P' \<Longrightarrow> downloads H P (ds @ ds') P'"
  by (auto simp: downloads_def)

lemma fold_reject_frame:
  "downloaded (fold reject_frame ds P) = downloaded P \<and>
   set (freed (fold reject_frame ds P)) = set (freed P) \<union> (\<lambda>d. (d, True)) ` set ds \<and>
   target_tx_credit (fold reject_frame ds P) = target_tx_credit P + of_nat (length ds) \<and>
   tx_queues (fold reject_frame ds P) = tx_queues P \<and> scheduler (fold reject_frame ds P) = scheduler P \<and>
   tid_to_ac (fold reject_frame ds P) = tid_to_ac P \<and> txq_grps (fold reject_frame ds P) = txq_grps P \<and>
   vdev_list (fold reject_frame ds P) = vdev_list P \<and> rsrc_cnt (fold reject_frame ds P) = rsrc_cnt P"
  by (induction ds arbitrary: P) (auto simp: reject_frame_def htt_tx_msdu_credit_def)

lemma ol_tx_send_batch_downloads:
  assumes "n \<le> length msdus"
  obtains P' where "ol_tx_send_batch H msdus n P = Some P'" "downloads H P (take n msdus) P'"
proof (rule that)
  show "ol_tx_send_batch H msdus n P = Some (fold reject_frame (rev (filter (rejects H) (take n msdus)))
      (P\<lparr>downloaded := downloaded P @ filter (\<lambda>d. \<not> rejects H d) (take n msdus)\<rparr>))"
    using htt_tx_send_batch_all [OF assms] by (simp add: ol_tx_send_batch_def)
  show "downloads H P (take n msdus) (fold reject_frame (rev (filter (rejects H) (take n msdus)))
      (P\<lparr>downloaded := downloaded P @ filter (\<lambda>d. \<not> rejects H d) (take n msdus)\<rparr>))"
    unfolding downloads_def
    using fold_reject_frame [of "rev (filter (rejects H) (take n msdus))"
        "P\<lparr>downloaded := downloaded P @ filter (\<lambda>d. \<not> rejects H d) (take n msdus)\<rparr>"]
    by simp
qed

lemma downloads_single:
  "downloads H P [d] (if rejects H d then reject_frame d P else P\<lparr>downloaded := downloaded P @ [d]\<rparr>)"
  by (auto simp: downloads_def reject_frame_def htt_tx_msdu_credit_def)

lemma downloads_ref: "downloads H (P\<lparr>desc_ref := x\<rparr>) ds P' = downloads H P ds P'"
  by (simp add: downloads_def)

lemma dispatch_loop_downloads:
  "\<exists>P' chain' sent. dispatch_loop H (int (length ds)) ds chain (length chain) P = Some (P', chain', length chain') \<and>
     chain @ ds = sent @ chain' \<and> downloads H P sent P'"
proof (induction ds arbitrary: chain P)
  case Nil
  then show ?case by (intro exI [of _ P] exI [of _ chain] exI [of _ "[]"]) (simp add: downloads_def)
next
  case (Cons d ds)
  define P1 where "P1 = P\<lparr>desc_ref := (desc_ref P)(desc_id d := 2)\<rparr>"
  show ?case
  proof (cases "no_id_storage H d")
    case True
    obtain P2 where b: "ol_tx_send_batch H (chain @ [d]) (length chain) P1 = Some P2" "downloads H P1 chain P2"
      using ol_tx_send_batch_downloads [of "length chain" "chain @ [d]" H P1] by auto
    define P3 where "P3 = (if rejects H d then reject_frame d P2 else P2\<lparr>downloaded := downloaded P2 @ [d]\<rparr>)"
    have d3: "downloads H P (chain @ [d]) P3"
      using downloads_trans [OF b(2) downloads_single] by (simp add: P3_def P1_def downloads_ref)
    obtain P' chain' sent where ih: "dispatch_loop H (int (length ds)) ds [] 0 P3 = Some (P', chain', length chain')"
      "ds = sent @ chain'" "downloads H P3 sent P'"
      using Cons.IH [of "[]" P3] by auto
    have "dispatch_loop H (int (length (d # ds))) (d # ds) chain (length chain) P = Some (P', chain', length chain')"
      using True b(1) ih(1) by (simp add: P1_def [symmetric] P3_def)
    moreover have "chain @ d # ds = ((chain @ [d]) @ sent) @ chain'" using ih(2) by simp
    ultimately show ?thesis using downloads_trans [OF d3 ih(3)] by blast
  next
    case False
    obtain P' chain' sent where ih: "dispatch_loop H (int (length ds)) ds (chain @ [d]) (length (chain @ [d])) P1 = Some (P', chain', length chain')"
      "(chain @ [d]) @ ds = sent @ chain'" "downloads H P1 sent P'"
      using Cons.IH [of "chain @ [d]" P1] by auto
    have "dispatch_loop H (int (length (d # ds))) (d # ds) chain (length chain) P = Some (P', chain', length chain')"
      using False ih(1) by (simp add: P1_def [symmetric])
    then show ?thesis using ih(2,3) by (auto simp: P1_def downloads_ref)
  qed
qed

lemma ol_tx_sched_dispatch_downloads:
  obtains P' where "ol_tx_sched_dispatch H ds (int (length ds)) P = Some P'" "downloads H P ds P'"
proof -
  obtain P1 chain sent where l: "dispatch_loop H (int (length ds)) ds [] 0 P = Some (P1, chain, length chain)"
    "ds = sent @ chain" "downloads H P sent P1"
    using dispatch_loop_downloads [of H ds "[]" P] by auto
  obtain P2 where b: "ol_tx_send_batch H chain (length chain) P1 = Some P2" "downloads H P1 chain P2"
    using ol_tx_send_batch_downloads [of "length chain" chain H P1] by auto
  show ?thesis
  proof (cases "chain = []")
    case True
    then show ?thesis using l by (intro that [of P1]) (simp_all add: ol_tx_sched_dispatch_def)
  next
    case False
    then show ?thesis using l b downloads_trans [OF l(3) b(2)]
      by (intro that [of P2]) (simp_all add: ol_tx_sched_dispatch_def)
  qed
qed

section \<open>The scheduler's run\<close>

lemma disjoint_queues_cong: "tx_queues P' = tx_queues P \<Longrightarrow> disjoint_queues P' = disjoint_queues P"
  by (simp add: disjoint_queues_def)

lemma credit_accounting:
  "(t - of_nat (length xs) + of_nat (length (filter p xs)) :: u32) = t - of_nat (length (filter (\<lambda>x. \<not> p x) xs))"
proof -
  have "length xs = length (filter p xs) + length (filter (\<lambda>x. \<not> p x) xs)" by (simp add: sum_length_filter_compl)
  then have "(of_nat (length xs) :: u32) = of_nat (length (filter p xs)) + of_nat (length (filter (\<lambda>x. \<not> p x) xs))"
    by (metis of_nat_add)
  then show ?thesis by simp
qed

lemma ol_tx_sched_runs:
  assumes inv: "tx_inv P" and dj: "disjoint_queues P" and idle: "tx_sched_status P = ol_tx_scheduler_idle"
  obtains P' out where "ol_tx_sched H P = Some P'" "tx_inv P'" "disjoint_queues P'"
    "frames_leave P out P'" "set out \<subseteq> (\<Union>r. set (q_head (tx_queues P r)))"
    "int (length out) \<le> max 0 (sint (target_tx_credit P))"
    "downloaded P' = downloaded P @ filter (\<lambda>d. \<not> rejects H d) out"
    "set (freed P') = set (freed P) \<union> (\<lambda>d. (d, True)) ` {d \<in> set out. rejects H d}"
    "target_tx_credit P' = target_tx_credit P - of_nat (length (filter (\<lambda>d. \<not> rejects H d) out))"
    "tx_sched_status P' = ol_tx_scheduler_idle" "vdev_list P' = vdev_list P" "rsrc_cnt P' = rsrc_cnt P"
proof -
  obtain S where S: "scheduler P = Some S" and sok: "sched_ok (tx_queues P) (tid_to_ac P) S"
    using tx_inv_scheduler [OF inv] .
  define P1 where "P1 = P\<lparr>tx_sched_status := ol_tx_scheduler_running, scheduler := Some (S\<lparr>index := 0\<rparr>), last_used_txq := None\<rparr>"
  have init: "ol_tx_sched_select_init_wrr_adv (P\<lparr>tx_sched_status := ol_tx_scheduler_running\<rparr>) = Some P1"
    by (simp add: ol_tx_sched_select_init_wrr_adv_def S P1_def)
  have "sched_ok (tx_queues P) (tid_to_ac P) (S\<lparr>index := 0\<rparr>)" using sok by (simp add: sched_ok_def order_ok_def)
  then have inv1: "tx_inv P1" by (intro tx_inv_scheduler_only [OF inv]) (simp_all add: P1_def)
  have dj1: "disjoint_queues P1" using dj by (simp add: disjoint_queues_def P1_def)
  obtain P2 out where loop: "sched_loop [] 0 P1 = Some (P2, out, int (length out))" and inv2: "tx_inv P2"
    and fl: "frames_leave P1 out P2" and dj2: "disjoint_queues P2"
    and sub: "set out \<subseteq> (\<Union>r. set (q_head (tx_queues P1 r)))"
    and t2: "target_tx_credit P2 = target_tx_credit P1 - of_nat (length out)"
    and b: "int (length out) \<le> max 0 (sint (target_tx_credit P1))"
    and same: "vdev_list P2 = vdev_list P1" "downloaded P2 = downloaded P1" "freed P2 = freed P1" "rsrc_cnt P2 = rsrc_cnt P1"
    using sched_loop_ok [OF inv1 dj1, of "[]" 0] by auto
  obtain P3 where disp: "ol_tx_sched_dispatch H out (int (length out)) P2 = Some P3" and d: "downloads H P2 out P3"
    using ol_tx_sched_dispatch_downloads .
  define P' where "P' = P3\<lparr>tx_sched_status := ol_tx_scheduler_idle\<rparr>"
  show ?thesis
  proof (rule that [of P' out])
    show "ol_tx_sched H P = Some P'" by (simp add: ol_tx_sched_def idle init loop disp P'_def)
    show "tx_inv P'" using inv2 d by (subst tx_inv_cong [of _ P2]) (simp_all add: P'_def downloads_def)
    show "disjoint_queues P'" using dj2 d by (subst disjoint_queues_cong [of _ P2]) (simp_all add: P'_def downloads_def)
    show "frames_leave P out P'" using fl d by (simp add: frames_leave_def P1_def P'_def downloads_def)
    show "set out \<subseteq> (\<Union>r. set (q_head (tx_queues P r)))" using sub by (simp add: P1_def)
    show "int (length out) \<le> max 0 (sint (target_tx_credit P))" using b by (simp add: P1_def)
    show "target_tx_credit P' = target_tx_credit P - of_nat (length (filter (\<lambda>d. \<not> rejects H d) out))"
      using d t2 credit_accounting [of "target_tx_credit P" out "rejects H"] by (simp add: P1_def P'_def downloads_def)
  qed (use d same in \<open>auto simp: P1_def P'_def downloads_def\<close>)
qed

end
