(* ===== verification/Tx_Ops.thy ===== *)
theory Tx_Ops
  imports Tx_Run
begin

text \<open>
  The operations on single queues - queueing and freeing frames, pausing, unpausing, discarding - return and keep
  the queues and the scheduler consistent.
\<close>

section \<open>Queueing a frame\<close>

definition tx_ready :: "ol_txrx_pdev_t \<Rightarrow> bool" where
  "tx_ready P \<longleftrightarrow> tx_inv P \<and> disjoint_queues P \<and> tx_sched_status P = ol_tx_scheduler_idle"

lemma upd_txq_simps [simp]:
  "tx_queues (upd_txq r f P) = (tx_queues P)(r := f (tx_queues P r))"
  "scheduler (upd_txq r f P) = scheduler P" "tid_to_ac (upd_txq r f P) = tid_to_ac P"
  "txq_grps (upd_txq r f P) = txq_grps P" "vdev_list (upd_txq r f P) = vdev_list P"
  "tx_sched_status (upd_txq r f P) = tx_sched_status P" "downloaded (upd_txq r f P) = downloaded P"
  "freed (upd_txq r f P) = freed P" "target_tx_credit (upd_txq r f P) = target_tx_credit P"
  "rsrc_cnt (upd_txq r f P) = rsrc_cnt P" "last_used_txq (upd_txq r f P) = last_used_txq P"
  by (simp_all add: upd_txq_def)

definition queue_frame :: "txq_ref \<Rightarrow> ol_tx_desc_t \<Rightarrow> nat \<Rightarrow> ol_txrx_pdev_t \<Rightarrow> ol_txrx_pdev_t option" where
  "queue_frame txq d tid P = do {
     let P = upd_txq txq (\<lambda>q. q\<lparr>q_head := q_head q @ [d], q_frms := q_frms q + 1, q_bytes := q_bytes q + netbuf_len d\<rparr>) P;
     if q_flag (tx_queues P txq) \<noteq> ol_tx_queue_paused then do {
       P \<leftarrow> ol_tx_sched_notify txq (OL_TX_ENQUEUE_FRAME tid (netbuf_len d)) P;
       Some (upd_txq txq (\<lambda>q. q\<lparr>q_flag := ol_tx_queue_active\<rparr>) P) }
     else Some P }"

lemma uint_inc: "unat x < 2 ^ LENGTH('a) - 1 \<Longrightarrow> uint (x + 1) = uint x + 1" for x :: "'a::len word"
  using unat_inc [of x] by (metis uint_nat of_nat_Suc add.commute)

lemma queue_ok_append:
  assumes "queue_ok n q" and "unat (q_frms q) < 65535"
  shows "queue_ok n (q\<lparr>q_head := q_head q @ [d], q_frms := q_frms q + 1, q_bytes := q_bytes q + netbuf_len d,
     q_flag := (if q_flag q = ol_tx_queue_paused then ol_tx_queue_paused else ol_tx_queue_active)\<rparr>)"
proof -
  have "unat (q_frms q + 1) = Suc (length (q_head q))" using assms unat_inc [of "q_frms q"] by (simp add: queue_ok_def)
  then show ?thesis using assms by (auto simp: queue_ok_def)
qed

lemma category_ok_enqueue:
  assumes cok: "category_ok qs ac c cat" and v: "txq_valid r" and ac: "ac ! ref_tid r = c"
    and np: "q_flag (qs r) \<noteq> ol_tx_queue_paused" and qok: "queue_ok n (qs r)" and lim: "unat (q_frms (qs r)) < 65535"
    and q': "q' = (qs r)\<lparr>q_head := q_head (qs r) @ [d], q_frms := q_frms (qs r) + 1,
               q_bytes := q_bytes (qs r) + netbuf_len d, q_flag := ol_tx_queue_active\<rparr>"
    and cat': "cat' = (let c = cat\<lparr>c_frms := c_frms cat + 1, c_bytes := c_bytes cat + netbuf_len d\<rparr>
       in if q_flag (qs r) \<noteq> ol_tx_queue_active then c\<lparr>c_head := c_head c @ [r], c_active := True\<rparr> else c)"
  shows "category_ok (qs(r := q')) ac c cat'"
proof (cases "q_flag (qs r) = ol_tx_queue_active")
  case True
  have r: "r \<in> set (c_head cat)" using cok v ac True by (auto simp: category_ok_def lists_active_def)
  have "uint (q_frms (qs r) + 1) = uint (q_frms (qs r)) + 1"
    using lim by (intro uint_inc) simp
  moreover have "distinct (c_head cat)" using cok by (simp add: category_ok_def lists_active_def)
  ultimately show ?thesis
    using category_ok_change [OF cok r, of q' "c_head cat" "c_frms cat + 1" "c_bytes cat + netbuf_len d"] True
    by (simp add: q' cat')
next
  case False
  then have "q_flag (qs r) = ol_tx_queue_empty" using np by (cases "q_flag (qs r)") auto
  then have "q_head (qs r) = []" and "q_frms (qs r) = 0" "q_bytes (qs r) = 0"
    using qok by (auto simp: queue_ok_def unat_eq_0)
  then show ?thesis using category_ok_activate [OF cok False, of q'] v ac False by (simp add: q' cat' Let_def)
qed

lemma queue_frame_ok:
  assumes inv: "tx_inv P" and v: "txq_valid r" and lim: "unat (q_frms (tx_queues P r)) < 65535"
  obtains P' where "queue_frame r d (ref_tid r) P = Some P'" "tx_inv P'"
    "\<And>r'. q_head (tx_queues P' r') = (if r' = r then q_head (tx_queues P r) @ [d] else q_head (tx_queues P r'))"
    "tx_sched_status P' = tx_sched_status P" "vdev_list P' = vdev_list P" "target_tx_credit P' = target_tx_credit P"
proof -
  define q where "q = tx_queues P r"
  have qok: "queue_ok (length (txq_grps P)) q" using tx_inv_queue [OF inv v] by (simp add: q_def)
  define q1 where "q1 = q\<lparr>q_head := q_head q @ [d], q_frms := q_frms q + 1, q_bytes := q_bytes q + netbuf_len d\<rparr>"
  have q1f: "q_flag q1 = q_flag q" by (simp add: q1_def)
  obtain S where S: "scheduler P = Some S" using tx_inv_scheduler [OF inv] .
  obtain c where c: "rd (tid_to_ac P) (ref_tid r) = Some c" "c = tid_to_ac P ! ref_tid r"
    "rd (categories S) c = Some (categories S ! c)" "category_ok (tx_queues P) (tid_to_ac P) c (categories S ! c)"
    using tx_inv_category [OF inv v S] by metis
  show ?thesis
  proof (cases "q_flag q = ol_tx_queue_paused")
    case True
    have e: "q1 = q1\<lparr>q_flag := ol_tx_queue_paused\<rparr>" using True q1f by (cases q1) simp
    have "queue_ok (length (txq_grps P)) (q1\<lparr>q_flag := ol_tx_queue_paused\<rparr>)"
      using True queue_ok_append [OF qok, of d] lim by (simp add: q_def [symmetric] q1_def)
    then have "queue_ok (length (txq_grps P)) q1" by (subst e)
    then have "tx_inv (upd_txq r (\<lambda>_. q1) P)"
      by (intro tx_inv_idle [OF inv v, of q1]) (use True in \<open>simp_all add: q_def [symmetric] q1f\<close>)
    moreover have "queue_frame r d (ref_tid r) P = Some (upd_txq r (\<lambda>_. q1) P)"
      using True by (simp add: queue_frame_def q1_def q_def [symmetric] upd_txq_def)
    ultimately show ?thesis by (intro that [of "upd_txq r (\<lambda>_. q1) P"]) (auto simp: q1_def q_def)
  next
    case False
    define q2 where "q2 = q1\<lparr>q_flag := ol_tx_queue_active\<rparr>"
    define cat' where "cat' = (let c = (categories S ! c)\<lparr>c_frms := c_frms (categories S ! c) + 1,
        c_bytes := c_bytes (categories S ! c) + netbuf_len d\<rparr>
       in if q_flag q \<noteq> ol_tx_queue_active then c\<lparr>c_head := c_head c @ [r], c_active := True\<rparr> else c)"
    define P' where "P' = upd_txq r (\<lambda>_. q2) (P\<lparr>scheduler := Some (upd_category c (\<lambda>_. cat') S)\<rparr>)"
    have "queue_frame r d (ref_tid r) P = Some P'"
      using False by (simp add: queue_frame_def ol_tx_sched_notify.simps ol_tx_sched_txq_enqueue_wrr_adv_def S c(1,3)
          q_def [symmetric] q1_def [symmetric] q1f P'_def cat'_def q2_def upd_txq_def upd_category_def)
    moreover have "category_ok ((tx_queues P)(r := q2)) (tid_to_ac P) c cat'"
      by (rule category_ok_enqueue [OF c(4) v c(2) [symmetric], where n = "length (txq_grps P)" and d = d])
        (use False qok lim in \<open>simp_all add: q_def [symmetric] q2_def q1_def cat'_def\<close>)
    moreover have "queue_ok (length (txq_grps P)) q2"
      using queue_ok_append [OF qok, of d] lim False by (simp add: q2_def q1_def q_def)
    then have "tx_inv P'"
      by (rule tx_inv_update [OF inv v S c(2) _ calculation(2)]) (simp_all add: P'_def)
    ultimately show ?thesis by (intro that [of P']) (auto simp: P'_def q2_def q1_def q_def)
  qed
qed

section \<open>Taking a queue out of the scheduler\<close>

text \<open>A queue that is paused or freed: the scheduler is told, and the queue gets the record \<open>q'\<close>.\<close>

lemma remove_queue:
  assumes inv: "tx_inv P" and v: "txq_valid r" and ev: "ev = OL_TX_PAUSE_QUEUE (ref_tid r) \<or> ev = OL_TX_DELETE_QUEUE (ref_tid r)"
    and q': "q_flag q' \<noteq> ol_tx_queue_active" "queue_ok (length (txq_grps P)) q'"
    and P0: "P0 = P\<lparr>tx_queues := (tx_queues P)(r := q0)\<rparr>" "q_flag q0 = q_flag (tx_queues P r)"
      "q_frms q0 = q_frms (tx_queues P r)" "q_bytes q0 = q_bytes (tx_queues P r)"
  obtains S' where "ol_tx_sched_notify r ev P0 = Some (P0\<lparr>scheduler := Some S'\<rparr>)"
    "tx_inv (P\<lparr>tx_queues := (tx_queues P)(r := q'), scheduler := Some S'\<rparr>)"
proof -
  obtain S where S: "scheduler P = Some S" using tx_inv_scheduler [OF inv] .
  have S0: "scheduler P0 = Some S" "tid_to_ac P0 = tid_to_ac P" "tx_queues P0 r = q0" by (simp_all add: P0 S)
  obtain c where c: "rd (tid_to_ac P) (ref_tid r) = Some c" "c = tid_to_ac P ! ref_tid r"
    "rd (categories S) c = Some (categories S ! c)" "category_ok (tx_queues P) (tid_to_ac P) c (categories S ! c)"
    using tx_inv_category [OF inv v S] by metis
  let ?cat = "categories S ! c"
  show ?thesis
  proof (cases "q_flag (tx_queues P r) = ol_tx_queue_active")
    case False
    have "ol_tx_sched_notify r ev P0 = Some (P0\<lparr>scheduler := Some S\<rparr>)"
      using ev False P0(2) S0 by (auto simp: ol_tx_sched_notify.simps)
    moreover have "tx_inv (P\<lparr>tx_queues := (tx_queues P)(r := q'), scheduler := Some S\<rparr>)"
      by (rule tx_inv_idle [OF inv v False q']) (simp_all add: S)
    ultimately show ?thesis by (rule that)
  next
    case True
    have r: "r \<in> set (c_head ?cat)" using c(4) v True c(2) by (auto simp: category_ok_def lists_active_def)
    have act: "c_active ?cat" using c(4) r by (auto simp: category_ok_def)
    define f where "f = c_frms ?cat - uint (q_frms (tx_queues P r))"
    define cat' where "cat' = ?cat\<lparr>c_frms := f, c_bytes := c_bytes ?cat - q_bytes (tx_queues P r),
        c_head := remove1 r (c_head ?cat), c_active := (if f = 0 then False else c_active ?cat)\<rparr>"
    have "ol_tx_sched_notify r ev P0 = Some (P0\<lparr>scheduler := Some (upd_category c (\<lambda>_. cat') S)\<rparr>)"
      using ev True P0(2-4) r act
      by (auto simp: ol_tx_sched_notify.simps ol_tx_sched_txq_deactivate_wrr_adv_def S0 c(1,3) tailq_remove_def
          cat'_def f_def Let_def)
    moreover have "category_ok ((tx_queues P)(r := q')) (tid_to_ac P) c cat'"
      unfolding cat'_def
      by (rule category_ok_remove [OF c(4) r q'(1) f_def refl listed_nonempty(1) [OF inv c(4)] refl])
    then have "tx_inv (P\<lparr>tx_queues := (tx_queues P)(r := q'), scheduler := Some (upd_category c (\<lambda>_. cat') S)\<rparr>)"
      by (intro tx_inv_update [OF inv v S c(2) q'(2)]) simp_all
    ultimately show ?thesis by (rule that)
  qed
qed

section \<open>Freeing a queue\<close>

lemma free_bytes_all: "n = length ds \<Longrightarrow> free_bytes n ds = Some (sum_list (map netbuf_len ds))"
  by (induction n ds rule: free_bytes.induct) auto

lemma fold_frame_free:
  "tx_queues (fold (ol_tx_desc_frame_free_nonstd e) ds P) = tx_queues P \<and> scheduler (fold (ol_tx_desc_frame_free_nonstd e) ds P) = scheduler P \<and>
   tid_to_ac (fold (ol_tx_desc_frame_free_nonstd e) ds P) = tid_to_ac P \<and> txq_grps (fold (ol_tx_desc_frame_free_nonstd e) ds P) = txq_grps P \<and>
   vdev_list (fold (ol_tx_desc_frame_free_nonstd e) ds P) = vdev_list P \<and> tx_sched_status (fold (ol_tx_desc_frame_free_nonstd e) ds P) = tx_sched_status P \<and>
   target_tx_credit (fold (ol_tx_desc_frame_free_nonstd e) ds P) = target_tx_credit P \<and> rsrc_cnt (fold (ol_tx_desc_frame_free_nonstd e) ds P) = rsrc_cnt P \<and>
   downloaded (fold (ol_tx_desc_frame_free_nonstd e) ds P) = downloaded P \<and>
   freed (fold (ol_tx_desc_frame_free_nonstd e) ds P) = freed P @ map (\<lambda>d. (d, e)) ds"
  by (induction ds arbitrary: P) simp_all

lemma disjoint_queues_sub:
  assumes "disjoint_queues P" and "\<And>r. distinct (q_head (tx_queues P' r))"
    and "\<And>r. set (q_head (tx_queues P' r)) \<subseteq> set (q_head (tx_queues P r))"
  shows "disjoint_queues P'"
  unfolding disjoint_queues_def
proof (intro conjI allI impI)
  show "distinct (q_head (tx_queues P' r))" for r by (rule assms(2))
  fix r r' :: txq_ref
  assume "r \<noteq> r'"
  then have "set (q_head (tx_queues P r)) \<inter> set (q_head (tx_queues P r')) = {}"
    using assms(1) unfolding disjoint_queues_def by metis
  then show "set (q_head (tx_queues P' r)) \<inter> set (q_head (tx_queues P' r')) = {}"
    using assms(3) [of r] assms(3) [of r'] by blast
qed

lemma ol_tx_queue_free_ok:
  assumes rdy: "tx_ready P" and v: "txq_valid r" and np: "q_flag (tx_queues P r) \<noteq> ol_tx_queue_paused"
  obtains P' where "ol_tx_queue_free r (ref_tid r) P = Some P'" "tx_ready P'"
    "tx_queues P' = (tx_queues P)(r := (tx_queues P r)\<lparr>q_frms := 0, q_bytes := 0, q_flag := ol_tx_queue_empty, q_head := []\<rparr>)"
    "freed P' = freed P @ map (\<lambda>d. (d, False)) (q_head (tx_queues P r))"
    "vdev_list P' = vdev_list P" "rsrc_cnt P' = rsrc_cnt P + of_nat (length (q_head (tx_queues P r)))"
proof -
  have inv: "tx_inv P" and dj: "disjoint_queues P" using rdy by (auto simp: tx_ready_def)
  define q where "q = tx_queues P r"
  have qok: "queue_ok (length (txq_grps P)) q" using tx_inv_queue [OF inv v] by (simp add: q_def)
  define q' where "q' = q\<lparr>q_frms := 0, q_bytes := 0, q_flag := ol_tx_queue_empty, q_head := []\<rparr>"
  have q'ok: "queue_ok (length (txq_grps P)) q'" "q_flag q' \<noteq> ol_tx_queue_active"
    using qok np by (auto simp: q'_def queue_ok_def q_def)
  have P0: "P = P\<lparr>tx_queues := (tx_queues P)(r := q)\<rparr>" by (simp add: q_def)
  obtain S' where n: "ol_tx_sched_notify r (OL_TX_DELETE_QUEUE (ref_tid r)) P = Some (P\<lparr>scheduler := Some S'\<rparr>)"
    and i1: "tx_inv (P\<lparr>tx_queues := (tx_queues P)(r := q'), scheduler := Some S'\<rparr>)"
    using remove_queue [OF inv v _ q'ok(2,1) P0, of "OL_TX_DELETE_QUEUE (ref_tid r)"] by (auto simp: q_def)
  have len: "unat (q_frms q) = length (q_head q)" and b: "q_bytes q = sum_list (map netbuf_len (q_head q))"
    using qok by (auto simp: queue_ok_def)
  define P1 where "P1 = P\<lparr>scheduler := Some S', tx_queues := (tx_queues P)(r := q'), rsrc_cnt := rsrc_cnt P + ucast (q_frms q)\<rparr>"
  define P' where "P' = fold (ol_tx_desc_frame_free_nonstd False) (q_head q) P1"
  have "ol_tx_queue_free r (ref_tid r) P = Some P'"
    using n free_bytes_all [OF len] len b
    by (simp add: ol_tx_queue_free_def q_def [symmetric] P'_def P1_def upd_txq_def q'_def)
  moreover have "tx_inv P'" using i1 fold_frame_free [of False "q_head q" P1]
    by (subst tx_inv_cong [of _ "P\<lparr>tx_queues := (tx_queues P)(r := q'), scheduler := Some S'\<rparr>"])
      (simp_all add: P'_def P1_def)
  moreover have "disjoint_queues P'"
    by (rule disjoint_queues_sub [OF dj])
      (use dj fold_frame_free [of False "q_head q" P1] in \<open>auto simp: P'_def P1_def q'_def disjoint_queues_def\<close>)
  moreover have "ucast (q_frms q) = (of_nat (length (q_head q)) :: u32)" using len by (metis of_nat_unat)
  ultimately show ?thesis
    using fold_frame_free [of False "q_head q" P1] rdy
    by (intro that [of P']) (simp_all add: tx_ready_def P'_def P1_def q'_def q_def)
qed

section \<open>Pausing and unpausing\<close>

lemma peer_tid_pause_ok:
  assumes rdy: "tx_ready P" and t: "tid < OL_TX_NUM_TIDS"
    and lim: "unat (paused_count_total (tx_queues P (PeerTxq peer tid))) < 255"
  obtains P' where "ol_txrx_peer_tid_pause_base peer tid P = Some P'" "tx_ready P'"
    "\<And>r'. r' \<noteq> PeerTxq peer tid \<Longrightarrow> tx_queues P' r' = tx_queues P r'"
    "\<And>r'. q_head (tx_queues P' r') = q_head (tx_queues P r')"
    "q_flag (tx_queues P' (PeerTxq peer tid)) = ol_tx_queue_paused"
    "paused_count_total (tx_queues P' (PeerTxq peer tid)) = paused_count_total (tx_queues P (PeerTxq peer tid)) + 1"
    "vdev_list P' = vdev_list P"
proof -
  define r where "r = PeerTxq peer tid"
  have v: "txq_valid r" and rt: "ref_tid r = tid" using t by (simp_all add: r_def)
  have inv: "tx_inv P" and dj: "disjoint_queues P" using rdy by (auto simp: tx_ready_def)
  define q where "q = tx_queues P r"
  have qok: "queue_ok (length (txq_grps P)) q" using tx_inv_queue [OF inv v] by (simp add: q_def)
  have nz: "paused_count_total q + 1 \<noteq> 0"
    using lim unat_inc [of "paused_count_total q"] by (auto simp: q_def r_def)
  define q0 where "q0 = q\<lparr>paused_count_total := paused_count_total q + 1\<rparr>"
  define q' where "q' = q0\<lparr>q_flag := ol_tx_queue_paused\<rparr>"
  have q'ok: "queue_ok (length (txq_grps P)) q'" using qok nz by (auto simp: queue_ok_def q'_def q0_def)
  show ?thesis
  proof (cases "paused_count_total q = 0")
    case False
    have fl: "q_flag q = ol_tx_queue_paused" using qok False by (simp add: queue_ok_def)
    then have e: "q0 = q'" by (simp add: q'_def q0_def)
    have "ol_txrx_peer_tid_pause_base peer tid P = Some (upd_txq r (\<lambda>_. q') P)"
      using False by (simp add: ol_txrx_peer_tid_pause_base_def r_def [symmetric] q_def [symmetric] Let_def upd_txq_def
          q0_def [symmetric] e)
    moreover have "tx_inv (upd_txq r (\<lambda>_. q') P)"
      by (rule tx_inv_idle [OF inv v _ _ q'ok]) (use fl in \<open>simp_all add: q_def [symmetric] q'_def\<close>)
    ultimately show ?thesis using rdy dj
      by (intro that [of "upd_txq r (\<lambda>_. q') P"])
        (auto simp: tx_ready_def disjoint_queues_def r_def [symmetric] q'_def q0_def q_def)
  next
    case True
    define P0 where "P0 = P\<lparr>tx_queues := (tx_queues P)(r := q0)\<rparr>"
    obtain S' where n: "ol_tx_sched_notify r (OL_TX_PAUSE_QUEUE (ref_tid r)) P0 = Some (P0\<lparr>scheduler := Some S'\<rparr>)"
      and i1: "tx_inv (P\<lparr>tx_queues := (tx_queues P)(r := q'), scheduler := Some S'\<rparr>)"
      using remove_queue [OF inv v _ _ q'ok P0_def, of "OL_TX_PAUSE_QUEUE (ref_tid r)"] by (auto simp: q'_def q0_def q_def)
    define P' where "P' = P\<lparr>scheduler := Some S', tx_queues := (tx_queues P)(r := q')\<rparr>"
    have q0e: "q\<lparr>paused_count_total := 1\<rparr> = q0" using True by (simp add: q0_def)
    have "tx_inv P'" using i1 by (subst tx_inv_cong [of _ "P\<lparr>tx_queues := (tx_queues P)(r := q'), scheduler := Some S'\<rparr>"])
        (simp_all add: P'_def)
    moreover have "ol_txrx_peer_tid_pause_base peer tid P = Some P'"
      using True n by (simp add: ol_txrx_peer_tid_pause_base_def r_def [symmetric] q_def [symmetric] Let_def upd_txq_def
          q0e P0_def rt P'_def q'_def)
    ultimately show ?thesis using rdy dj
      by (intro that [of P']) (auto simp: tx_ready_def disjoint_queues_def r_def [symmetric] P'_def q'_def q0_def q_def)
  qed
qed

lemma ol_tx_sched_ready:
  assumes "tx_ready P"
  shows "\<exists>P'. ol_tx_sched H P = Some P' \<and> tx_ready P' \<and> vdev_list P' = vdev_list P"
proof -
  have p: "tx_inv P" "disjoint_queues P" "tx_sched_status P = ol_tx_scheduler_idle" using assms by (auto simp: tx_ready_def)
  show ?thesis by (rule ol_tx_sched_runs [OF p, of H]) (auto simp: tx_ready_def)
qed

text \<open>The queue that is unpaused enters the scheduler when it has frames, and the scheduler runs.\<close>

lemma peer_tid_unpause_ok:
  assumes rdy: "tx_ready P" and t: "tid < OL_TX_NUM_TIDS"
  obtains P' where "ol_txrx_peer_tid_unpause_base H peer tid P = Some P'" "tx_ready P'" "vdev_list P' = vdev_list P"
proof -
  define r where "r = PeerTxq peer tid"
  have v: "txq_valid r" and rt: "ref_tid r = tid" using t by (simp_all add: r_def)
  have inv: "tx_inv P" and dj: "disjoint_queues P" using rdy by (auto simp: tx_ready_def)
  define q where "q = tx_queues P r"
  have qok: "queue_ok (length (txq_grps P)) q" using tx_inv_queue [OF inv v] by (simp add: q_def)
  define n where "n = paused_count_total q"
  show ?thesis
  proof (cases "n = 0")
    case True
    then have "ol_txrx_peer_tid_unpause_base H peer tid P = Some P"
      by (simp add: ol_txrx_peer_tid_unpause_base_def r_def [symmetric] q_def [symmetric] n_def [symmetric])
    then show ?thesis using rdy by (rule that) simp
  next
    case nz: False
    have fl: "q_flag q = ol_tx_queue_paused" using qok nz by (simp add: queue_ok_def n_def)
    define q0 where "q0 = q\<lparr>paused_count_total := n - 1\<rparr>"
    define P0 where "P0 = P\<lparr>tx_queues := (tx_queues P)(r := q0)\<rparr>"
    have base: "ol_txrx_peer_tid_unpause_base H peer tid P = (if n - 1 = 0 then do {
          P \<leftarrow> ol_tx_sched_notify r (OL_TX_UNPAUSE_QUEUE tid) P0;
          if q_frms (tx_queues P r) = 0 then Some (upd_txq r (\<lambda>q. q\<lparr>q_flag := ol_tx_queue_empty\<rparr>) P)
          else ol_tx_sched H (upd_txq r (\<lambda>q. q\<lparr>q_flag := ol_tx_queue_active\<rparr>) P) }
        else Some P0)"
      using nz by (simp add: ol_txrx_peer_tid_unpause_base_def r_def [symmetric] q_def [symmetric] n_def [symmetric]
          Let_def upd_txq_def q0_def [symmetric] P0_def)
    show ?thesis
    proof (cases "n - 1 = 0")
      case more: False
      have q0ok: "queue_ok (length (txq_grps P)) q0" using qok fl more by (auto simp: queue_ok_def q0_def)
      have "tx_inv P0"
        by (rule tx_inv_idle [OF inv v _ _ q0ok]) (use fl in \<open>simp_all add: q_def [symmetric] q0_def P0_def\<close>)
      then show ?thesis using base more rdy dj
        by (intro that [of P0]) (auto simp: tx_ready_def disjoint_queues_def P0_def q0_def q_def)
    next
      case last: True
      show ?thesis
      proof (cases "q_frms q = 0")
        case empty: True
        define q' where "q' = q0\<lparr>q_flag := ol_tx_queue_empty\<rparr>"
        have q'ok: "queue_ok (length (txq_grps P)) q'"
          using qok empty last queue_ok_frms(1) [OF qok] by (auto simp: queue_ok_def q'_def q0_def)
        define P' where "P' = P\<lparr>tx_queues := (tx_queues P)(r := q')\<rparr>"
        have "ol_tx_sched_notify r (OL_TX_UNPAUSE_QUEUE tid) P0 = Some P0"
          using empty by (simp add: ol_tx_sched_notify.simps P0_def q0_def)
        then have "ol_txrx_peer_tid_unpause_base H peer tid P = Some P'"
          using base last empty by (simp add: P0_def q0_def P'_def q'_def upd_txq_def)
        moreover have "tx_inv P'"
          by (rule tx_inv_idle [OF inv v _ _ q'ok]) (use fl in \<open>simp_all add: q_def [symmetric] q'_def P'_def\<close>)
        ultimately show ?thesis using rdy dj
          by (intro that [of P']) (auto simp: tx_ready_def disjoint_queues_def P'_def q'_def q0_def q_def)
      next
        case frms: False
        define q' where "q' = q0\<lparr>q_flag := ol_tx_queue_active\<rparr>"
        have q'ok: "queue_ok (length (txq_grps P)) q'"
          using qok frms last queue_ok_frms(1) [OF qok] by (auto simp: queue_ok_def q'_def q0_def)
        obtain S where S: "scheduler P = Some S" using tx_inv_scheduler [OF inv] .
        obtain c where c: "rd (tid_to_ac P) (ref_tid r) = Some c" "c = tid_to_ac P ! ref_tid r"
          "rd (categories S) c = Some (categories S ! c)" "category_ok (tx_queues P) (tid_to_ac P) c (categories S ! c)"
          using tx_inv_category [OF inv v S] by metis
        define cat' where "cat' = (categories S ! c)\<lparr>c_frms := c_frms (categories S ! c) + uint (q_frms q'),
           c_bytes := c_bytes (categories S ! c) + q_bytes q', c_head := c_head (categories S ! c) @ [r], c_active := True\<rparr>"
        have cok: "category_ok ((tx_queues P)(r := q')) (tid_to_ac P) c cat'"
          unfolding cat'_def
          by (rule category_ok_activate [OF c(4) _ _ v c(2) [symmetric]]) (use fl in \<open>simp_all add: q_def [symmetric] q'_def\<close>)
        define P1 where "P1 = P\<lparr>scheduler := Some (upd_category c (\<lambda>_. cat') S), tx_queues := (tx_queues P)(r := q')\<rparr>"
        have inv1: "tx_inv P1" by (rule tx_inv_update [OF inv v S c(2) q'ok cok]) (simp_all add: P1_def)
        have dj1: "disjoint_queues P1" using dj by (auto simp: disjoint_queues_def P1_def q'_def q0_def q_def)
        have run: "ol_txrx_peer_tid_unpause_base H peer tid P = ol_tx_sched H P1"
          using base last frms fl
          by (simp add: ol_tx_sched_notify.simps ol_tx_sched_txq_enqueue_wrr_adv_def P0_def S c(1,3) rt [symmetric]
              q0_def P1_def cat'_def q'_def upd_txq_def upd_category_def Let_def)
        have "tx_ready P1" using inv1 dj1 rdy by (simp add: tx_ready_def P1_def)
        then obtain P' where "ol_tx_sched H P1 = Some P'" "tx_ready P'" "vdev_list P' = vdev_list P1"
          using ol_tx_sched_ready by blast
        then show ?thesis using run by (intro that [of P']) (simp_all add: P1_def)
      qed
    qed
  qed
qed

section \<open>Discarding\<close>

lemma discard_category_bound:
  "cat < i + length cs \<Longrightarrow> discard_category_loop cs i cat m < i + length cs"
  by (induction cs i cat m rule: discard_category_loop.induct) (auto simp: Let_def)

lemma discard_txq_member:
  "discard_txq_loop qs rs m sel = Some r \<Longrightarrow> sel \<noteq> Some r \<Longrightarrow> r \<in> set rs"
  by (induction qs rs m sel rule: discard_txq_loop.induct) (auto split: if_splits)

lemma discard_select_ok:
  assumes rdy: "tx_ready P"
  obtains P' out num where "ol_tx_sched_discard_select frms force P = Some (P', out, num)" "tx_ready P'"
    "vdev_list P' = vdev_list P" "\<And>r. set (q_head (tx_queues P' r)) \<subseteq> set (q_head (tx_queues P r))"
    "\<And>r. q_flag (tx_queues P' r) = ol_tx_queue_paused \<longleftrightarrow> q_flag (tx_queues P r) = ol_tx_queue_paused"
    "\<And>r. q_frms (tx_queues P' r) \<le> q_frms (tx_queues P r)"
    "\<And>r. q_flag (tx_queues P r) = ol_tx_queue_paused \<Longrightarrow> tx_queues P' r = tx_queues P r"
proof -
  have inv: "tx_inv P" and dj: "disjoint_queues P" using rdy by (auto simp: tx_ready_def)
  obtain S where S: "scheduler P = Some S" and sok: "sched_ok (tx_queues P) (tid_to_ac P) S"
    using tx_inv_scheduler [OF inv] .
  define c where "c = ol_tx_sched_discard_select_category_wrr_adv S"
  define cat where "cat = categories S ! c"
  have len: "length (categories S) = OL_TX_SCHED_WRR_ADV_NUM_CATEGORIES" using sok by (simp add: sched_ok_def order_ok_def)
  have cl: "c < length (categories S)"
    using discard_category_bound [of 0 0 "categories S" 0] len
    by (simp add: c_def ol_tx_sched_discard_select_category_wrr_adv_def OL_TX_SCHED_WRR_ADV_NUM_CATEGORIES_def)
  have cok: "category_ok (tx_queues P) (tid_to_ac P) c cat" using sok cl len by (simp add: sched_ok_def cat_def)
  show ?thesis
  proof (cases "ol_tx_sched_discard_select_txq P (c_head cat)")
    case None
    have "ol_tx_sched_discard_select frms force P = Some (P, [], 0)"
      using None cl by (simp add: ol_tx_sched_discard_select_def S c_def [symmetric] cat_def)
    then show ?thesis using rdy by (intro that [of P]) auto
  next
    case (Some r)
    have r: "r \<in> set (c_head cat)"
      using Some discard_txq_member by (auto simp: ol_tx_sched_discard_select_txq_def)
    have v: "txq_valid r" by (rule listed_nonempty(2) [OF inv cok r])
    have act: "q_flag (tx_queues P r) = ol_tx_queue_active" and ac: "c = tid_to_ac P ! ref_tid r"
      and d: "distinct (c_head cat)"
      using cok r by (auto simp: category_ok_def lists_active_def)
    define q where "q = tx_queues P r"
    have qok: "queue_ok (length (txq_grps P)) q" using tx_inv_queue [OF inv v] by (simp add: q_def)
    have actq: "q_flag q = ol_tx_queue_active" using act by (simp add: q_def)
    define lim where "lim = discard_frms force frms (q_frms q)"
    define k where "k = batch_size q lim 10000"
    define out where "out = take k (q_head q)"
    define q' where "q' = q\<lparr>q_head := drop k (q_head q), q_frms := q_frms q - of_nat k,
          q_bytes := q_bytes q - sum_list (map netbuf_len (take k (q_head q))),
          q_flag := (if k = length (q_head q) then ol_tx_queue_empty else ol_tx_queue_active)\<rparr>"
    have k: "k \<le> length (q_head q)" by (simp add: k_def batch_size_def)
    have deq: "ol_tx_dequeue q lim 10000 = Some (q', out, of_nat k, of_nat k, sum_list (map netbuf_len out))"
      using ol_tx_dequeue_takes [OF qok, of lim 10000] actq by (simp add: k_def [symmetric] out_def q'_def Let_def)
    have q'ok: "queue_ok (length (txq_grps P)) q'" using dequeue_queue_ok [OF qok k actq] by (simp add: q'_def)
    have u: "unat (q_frms q') = length (q_head q) - k" using q'ok by (simp add: queue_ok_def q'_def)
    have empty: "q_frms q' = 0 \<longleftrightarrow> k = length (q_head q)" using u k by (auto simp: unat_eq_0 [symmetric] simp del: unat_eq_0)
    have ku: "uint (of_nat k :: u16) = int k"
      by (rule frms_sub(3) [of "q_frms q" "length (q_head q)"]) (use qok k in \<open>simp_all add: queue_ok_def\<close>)
    define f where "f = c_frms cat - int k"
    define hd' where "hd' = (if k = length (q_head q) then remove1 r (c_head cat) else c_head cat)"
    have actc: "c_active cat" using cok r by (auto simp: category_ok_def)
    define cat' where "cat' = cat\<lparr>c_frms := f, c_bytes := c_bytes cat - sum_list (map netbuf_len out), c_head := hd',
        c_active := (if f = 0 then False else c_active cat)\<rparr>"
    have fpos: "k \<noteq> length (q_head q) \<Longrightarrow> f \<noteq> 0"
    proof -
      assume "k \<noteq> length (q_head q)"
      have "c_frms cat = frms_sum (tx_queues P) (c_head cat)" using cok by (simp add: category_ok_def)
      also have "\<dots> \<ge> uint (q_frms q)"
        using sum_remove1(1) [OF r, of "tx_queues P"] frms_sum_nonneg [of "tx_queues P" "remove1 r (c_head cat)"] by (simp add: q_def)
      also have "uint (q_frms q) = int (length (q_head q))" using qok by (metis queue_ok_def uint_nat)
      finally show "f \<noteq> 0" using k \<open>k \<noteq> length (q_head q)\<close> by (simp add: f_def)
    qed
    have cat'ok: "category_ok ((tx_queues P)(r := q')) (tid_to_ac P) c cat'"
      unfolding cat'_def
      by (rule category_ok_take [OF inv cok r q_def k q'_def f_def, where rs' = "c_head cat"])
        (use d fpos in \<open>auto simp: out_def hd'_def\<close>)
    define P' where "P' = P\<lparr>tx_queues := (tx_queues P)(r := q'), scheduler := Some (upd_category c (\<lambda>_. cat') S)\<rparr>"
    have told: "ol_tx_sched_notify r (OL_TX_DISCARD_FRAMES c (uint (of_nat k :: u16)) (sum_list (map netbuf_len out)))
        (upd_txq r (\<lambda>_. q') P) = Some P'"
      using empty r cl
      by (simp add: ol_tx_sched_notify.simps ol_tx_sched_txq_discard_wrr_adv_def upd_txq_def S cat_def [symmetric]
          tailq_remove_def ku P'_def cat'_def hd'_def f_def)
    have run: "ol_tx_sched_discard_select frms force P = Some (P', out, of_nat k)"
      using cl by (simp add: ol_tx_sched_discard_select_def S c_def [symmetric] cat_def [symmetric] Some
          q_def [symmetric] lim_def [symmetric] deq told)
    have "tx_inv P'" by (rule tx_inv_update [OF inv v S ac q'ok cat'ok]) (simp_all add: P'_def)
    moreover have sub: "set (q_head (tx_queues P' r')) \<subseteq> set (q_head (tx_queues P r'))" for r'
      using set_drop_subset [of k "q_head q"] by (auto simp: P'_def q'_def q_def)
    moreover have "disjoint_queues P'"
      by (rule disjoint_queues_sub [OF dj _ sub]) (use dj in \<open>auto simp: disjoint_queues_def P'_def q'_def q_def\<close>)
    moreover have "q_frms q' \<le> q_frms q" using u qok by (simp add: word_le_nat_alt queue_ok_def)
    ultimately show ?thesis using run rdy act
      by (intro that [of P' out "of_nat k"]) (auto simp: tx_ready_def P'_def q'_def q_def)
  qed
qed

end
