(* ===== verification/Tx_Seq.thy ===== *)
theory Tx_Seq
  imports Tx_Ops Tx_Moves
begin

text \<open>
  Sequences of operations on the transmit queues: discarding, queueing, flushing and pausing whole virtual
  devices. Every sequence whose operations meet their conditions runs and keeps the queues and the scheduler
  consistent.
\<close>

section \<open>Discarding to make room\<close>

text \<open>What discarding leaves alone.\<close>

definition only_fewer :: "ol_txrx_pdev_t \<Rightarrow> ol_txrx_pdev_t \<Rightarrow> bool" where
  "only_fewer P P' \<longleftrightarrow> vdev_list P' = vdev_list P \<and>
     (\<forall>r. set (q_head (tx_queues P' r)) \<subseteq> set (q_head (tx_queues P r)) \<and>
          q_frms (tx_queues P' r) \<le> q_frms (tx_queues P r) \<and>
          (q_flag (tx_queues P' r) = ol_tx_queue_paused \<longleftrightarrow> q_flag (tx_queues P r) = ol_tx_queue_paused) \<and>
          (q_flag (tx_queues P r) = ol_tx_queue_paused \<longrightarrow> tx_queues P' r = tx_queues P r))"

lemma only_fewer_refl: "only_fewer P P"
  by (simp add: only_fewer_def)

lemma only_fewer_trans: "only_fewer P P1 \<Longrightarrow> only_fewer P1 P2 \<Longrightarrow> only_fewer P P2"
  unfolding only_fewer_def by (metis (no_types, opaque_lifting) order_trans)

lemma discard_loop_ok:
  assumes "tx_ready P"
  shows "\<exists>P' out num' act'. discard_loop num force tx_descs act P = Some (P', out, num', act') \<and> tx_ready P' \<and> only_fewer P P'"
  using assms
proof (induction num force tx_descs act P rule: discard_loop.induct)
  case (1 num force tx_descs act P)
  show ?case
  proof (cases "num > 0")
    case False
    then show ?thesis using "1.prems" only_fewer_refl [of P]
      by (subst discard_loop.simps) simp
  next
    case True
    obtain P1 out n where sel: "ol_tx_sched_discard_select num force P = Some (P1, out, n)" and r1: "tx_ready P1"
      and f1: "only_fewer P P1"
      by (rule discard_select_ok [OF "1.prems", of num force]) (auto simp: only_fewer_def)
    show ?thesis
    proof (cases "n = 0")
      case z: True
      then show ?thesis using True sel r1 f1 by (subst discard_loop.simps) simp
    next
      case nz: False
      then have "discard_loop num force tx_descs act P = discard_loop (num - n) force (tx_descs @ out) (act + n) P1"
        using True sel by (subst discard_loop.simps) simp
      then show ?thesis using "1.IH" [OF True sel refl refl nz r1] only_fewer_trans [OF f1] by fastforce
    qed
  qed
qed

lemma tx_ready_cong:
  assumes "tx_queues P' = tx_queues P" "scheduler P' = scheduler P" "tid_to_ac P' = tid_to_ac P"
    "length (txq_grps P') = length (txq_grps P)" "tx_sched_status P' = tx_sched_status P"
  shows "tx_ready P' = tx_ready P"
  using tx_inv_cong [OF assms(1-4)] disjoint_queues_cong [OF assms(1)] assms(5) by (simp add: tx_ready_def)

lemma make_room_ok:
  assumes "tx_ready P"
  obtains P' tx_descs where "ol_tx_queue_discard False P = Some (P', tx_descs)" "tx_ready P'" "only_fewer P P'"
proof -
  obtain P1 out num act where l: "discard_loop (rsrc_threshold_hi P - rsrc_threshold_lo P) False [] 0 P = Some (P1, out, num, act)"
    and r: "tx_ready P1" "only_fewer P P1"
    using discard_loop_ok [OF assms] by blast
  show ?thesis
  proof (rule that)
    show "ol_tx_queue_discard False P = Some (P1\<lparr>rsrc_cnt := rsrc_cnt P1 + ucast act\<rparr>, out)"
      by (simp add: ol_tx_queue_discard_def l)
    show "tx_ready (P1\<lparr>rsrc_cnt := rsrc_cnt P1 + ucast act\<rparr>)" using r(1) by (subst tx_ready_cong [of _ P1]) simp_all
    show "only_fewer P (P1\<lparr>rsrc_cnt := rsrc_cnt P1 + ucast act\<rparr>)" using r(2) by (simp add: only_fewer_def)
  qed
qed

lemma ol_tx_enqueue_ok:
  assumes rdy: "tx_ready P" and v: "txq_valid r" and lim: "unat (q_frms (tx_queues P r)) < 65535"
    and new: "\<And>r'. d \<notin> set (q_head (tx_queues P r'))"
  shows "\<exists>P'. ol_tx_enqueue r d (ref_tid r) P = Some P' \<and> tx_ready P' \<and> vdev_list P' = vdev_list P \<and>
    (\<exists>left. q_head (tx_queues P' r) = left @ [d] \<and> set left \<subseteq> set (q_head (tx_queues P r)))"
proof -
  obtain P1 where room: "(if sint (rsrc_cnt P) \<le> uint (rsrc_threshold_lo P) then do {
              (P, tx_descs) \<leftarrow> ol_tx_queue_discard False P;
              Some (ol_tx_desc_frame_list_free True tx_descs P) }
           else Some P) = Some P1" and r1: "tx_ready P1" and f1: "only_fewer P P1"
  proof (cases "sint (rsrc_cnt P) \<le> uint (rsrc_threshold_lo P)")
    case False
    then show ?thesis using rdy only_fewer_refl by (intro that [of P]) auto
  next
    case True
    obtain P2 ds where d: "ol_tx_queue_discard False P = Some (P2, ds)" "tx_ready P2" "only_fewer P P2"
      using make_room_ok [OF rdy] .
    show ?thesis
    proof (rule that [of "ol_tx_desc_frame_list_free True ds P2"])
      show "tx_ready (ol_tx_desc_frame_list_free True ds P2)"
        using d(2) by (subst tx_ready_cong [of _ P2]) simp_all
      show "only_fewer P (ol_tx_desc_frame_list_free True ds P2)" using d(3) by (simp add: only_fewer_def)
    qed (use True d in simp)
  qed
  have lim1: "unat (q_frms (tx_queues P1 r)) < 65535" using f1 lim by (auto simp: only_fewer_def word_le_nat_alt intro: le_less_trans)
  obtain P' where qf: "queue_frame r d (ref_tid r) P1 = Some P'" and inv': "tx_inv P'"
    and hd': "\<And>r'. q_head (tx_queues P' r') = (if r' = r then q_head (tx_queues P1 r) @ [d] else q_head (tx_queues P1 r'))"
    and same: "tx_sched_status P' = tx_sched_status P1" "vdev_list P' = vdev_list P1"
    using queue_frame_ok [OF _ v lim1] r1 unfolding tx_ready_def by metis
  have new1: "d \<notin> set (q_head (tx_queues P1 r'))" for r' using new f1 by (auto simp: only_fewer_def)
  have dj: "distinct (q_head (tx_queues P1 a))" "a \<noteq> b \<Longrightarrow> set (q_head (tx_queues P1 a)) \<inter> set (q_head (tx_queues P1 b)) = {}" for a b
    using r1 unfolding tx_ready_def disjoint_queues_def by metis+
  have "disjoint_queues P'"
    unfolding disjoint_queues_def
  proof (intro conjI allI impI)
    show "distinct (q_head (tx_queues P' a))" for a using dj(1) new1 by (simp add: hd')
    show "set (q_head (tx_queues P' a)) \<inter> set (q_head (tx_queues P' b)) = {}" if "a \<noteq> b" for a b
      using dj(2) [OF that] new1 that by (cases "a = r"; cases "b = r") (simp_all add: hd')
  qed
  then have rd': "tx_ready P'" using inv' same r1 by (simp add: tx_ready_def)
  have e: "ol_tx_enqueue r d (ref_tid r) P = queue_frame r d (ref_tid r) P1"
    using room by (simp add: ol_tx_enqueue_def queue_frame_def)
  have "q_head (tx_queues P' r) = q_head (tx_queues P1 r) @ [d]" "set (q_head (tx_queues P1 r)) \<subseteq> set (q_head (tx_queues P r))"
    using hd' f1 by (auto simp: only_fewer_def)
  moreover have "vdev_list P' = vdev_list P" using same f1 by (simp add: only_fewer_def)
  ultimately show ?thesis using e qf rd'
    by (intro exI [of _ P'] conjI exI [of _ "q_head (tx_queues P1 r)"]) simp_all
qed

section \<open>Flushing\<close>

text \<open>
  Queues may be flushed when no frames are in a paused queue and none in the queues of the virtual device, which the
  scheduler has under another category than the one that flushing names.
\<close>

definition flushable :: "ol_txrx_vdev_t \<Rightarrow> ol_txrx_pdev_t \<Rightarrow> bool" where
  "flushable vdev P \<longleftrightarrow>
     (\<forall>i<OL_TX_VDEV_NUM_QUEUES. q_flag (tx_queues P (VdevTxq (vdev_id vdev) i)) = ol_tx_queue_empty) \<and>
     (\<forall>peer\<in>set (peer_list vdev). \<forall>t<OL_TX_NUM_TIDS.
        q_flag (tx_queues P (PeerTxq peer t)) = ol_tx_queue_paused \<longrightarrow> q_head (tx_queues P (PeerTxq peer t)) = [])"

text \<open>What flushing does to the queues: some are emptied, the others are as they were, and no descriptor is lost.\<close>

definition some_emptied :: "ol_txrx_pdev_t \<Rightarrow> ol_txrx_pdev_t \<Rightarrow> bool" where
  "some_emptied P P' \<longleftrightarrow> vdev_list P' = vdev_list P \<and> keeps_descs P P' \<and>
     (\<forall>r. tx_queues P' r = tx_queues P r \<or>
        q_head (tx_queues P' r) = [] \<and> q_frms (tx_queues P' r) = 0 \<and> q_flag (tx_queues P' r) = ol_tx_queue_empty)"

lemma some_emptied_refl: "some_emptied P P"
  by (simp add: some_emptied_def)

lemma some_emptied_trans: "some_emptied P P1 \<Longrightarrow> some_emptied P1 P2 \<Longrightarrow> some_emptied P P2"
  unfolding some_emptied_def by (metis (no_types) keeps_descs_trans)

lemma some_emptied_flushable: "some_emptied P P' \<Longrightarrow> flushable vdev P \<Longrightarrow> flushable vdev P'"
  unfolding some_emptied_def flushable_def by (metis ol_tx_queue_status.distinct(3))

lemma free_some_emptied:
  assumes "tx_ready P" and "txq_valid r" and "q_flag (tx_queues P r) \<noteq> ol_tx_queue_paused"
  shows "\<exists>P'. ol_tx_queue_free r (ref_tid r) P = Some P' \<and> tx_ready P' \<and> some_emptied P P' \<and> q_frms (tx_queues P' r) = 0"
proof -
  have inv: "tx_inv P" using assms(1) by (simp add: tx_ready_def)
  have len: "unat (q_frms (tx_queues P r)) = length (q_head (tx_queues P r))"
    using tx_inv_queue [OF inv assms(2)] by (simp add: queue_ok_def)
  show ?thesis
    by (rule ol_tx_queue_free_ok [OF assms]) (use queue_free_keeps [OF _ len] in \<open>auto simp: some_emptied_def\<close>)
qed

text \<open>The identifier does not matter for a queue that the scheduler does not know.\<close>

lemma free_inactive: "q_flag (tx_queues P r) \<noteq> ol_tx_queue_active \<Longrightarrow> ol_tx_queue_free r t P = ol_tx_queue_free r t' P"
  by (simp add: ol_tx_queue_free_def ol_tx_sched_notify.simps)

lemma flush_peer_ok:
  assumes "tx_ready P" and "flushable vdev P" and "peer \<in> set (peer_list vdev)"
  shows "\<exists>P'. flush_peer peer P = Some P' \<and> tx_ready P' \<and> some_emptied P P' \<and> \<not> peer_has_frms P' peer"
proof -
  let ?I = "\<lambda>is P'. tx_ready P' \<and> some_emptied P P' \<and> set is \<subseteq> {..<OL_TX_NUM_TIDS} \<and>
    (\<forall>t<OL_TX_NUM_TIDS. t \<notin> set is \<longrightarrow> q_frms (tx_queues P' (PeerTxq peer t)) = 0)"
  have "\<exists>P'. flush_peer peer P = Some P' \<and> ?I [] P'"
    unfolding flush_peer_def
  proof (rule for_each_rest [where I = ?I])
    fix j js P1
    assume I: "?I (j # js) P1"
    show "\<exists>s'. (if q_frms (tx_queues P1 (PeerTxq peer j)) \<noteq> 0 then ol_tx_queue_free (PeerTxq peer j) j P1 else Some P1) = Some s' \<and> ?I js s'"
    proof (cases "q_frms (tx_queues P1 (PeerTxq peer j)) = 0")
      case True
      then show ?thesis using I by auto
    next
      case False
      have "flushable vdev P1" using some_emptied_flushable [of P P1] I assms(2) by blast
      moreover have ok: "txq_valid (PeerTxq peer j)" using I by simp
      moreover have "q_head (tx_queues P1 (PeerTxq peer j)) \<noteq> []"
        using False queue_ok_frms(1) [OF tx_inv_queue [OF _ ok, of P1]] I by (simp add: tx_ready_def)
      ultimately have "q_flag (tx_queues P1 (PeerTxq peer j)) \<noteq> ol_tx_queue_paused"
        using assms(3) unfolding flushable_def by auto
      then obtain P2 where P2: "ol_tx_queue_free (PeerTxq peer j) j P1 = Some P2" "tx_ready P2" "some_emptied P1 P2"
        "q_frms (tx_queues P2 (PeerTxq peer j)) = 0"
        using free_some_emptied [of P1 "PeerTxq peer j"] ok I by auto
      have "q_frms (tx_queues P2 (PeerTxq peer t)) = 0" if "t < OL_TX_NUM_TIDS" "t \<notin> set js" for t
        using that P2(3,4) I unfolding some_emptied_def by (metis set_ConsD)
      then show ?thesis using False P2 I some_emptied_trans [of P P1 P2] by auto
    qed
  qed (use assms(1) some_emptied_refl in auto)
  then show ?thesis by (auto simp: peer_has_frms_def peer_txqs_def)
qed

lemma some_emptied_frms: "some_emptied P P' \<Longrightarrow> \<not> peer_has_frms P peer \<Longrightarrow> \<not> peer_has_frms P' peer"
  unfolding some_emptied_def peer_has_frms_def by metis

lemma flush_round_ok:
  assumes "tx_ready P" and "flushable vdev P" and "set ps \<subseteq> set (peer_list vdev)"
  shows "\<exists>P'. for_each ps flush_peer P = Some P' \<and> tx_ready P' \<and> some_emptied P P' \<and> (\<forall>peer\<in>set ps. \<not> peer_has_frms P' peer)"
  using assms
proof (induction ps arbitrary: P)
  case Nil
  then show ?case using some_emptied_refl by auto
next
  case (Cons peer ps)
  obtain P1 where P1: "flush_peer peer P = Some P1" "tx_ready P1" "some_emptied P P1" "\<not> peer_has_frms P1 peer"
    using flush_peer_ok [OF Cons.prems(1,2)] Cons.prems(3) by auto
  obtain P2 where P2: "for_each ps flush_peer P1 = Some P2" "tx_ready P2" "some_emptied P1 P2"
    "\<forall>peer\<in>set ps. \<not> peer_has_frms P2 peer"
    using Cons.IH [OF P1(2) some_emptied_flushable [OF P1(3) Cons.prems(2)]] Cons.prems(3) by auto
  show ?case using P1 P2 some_emptied_trans [OF P1(3) P2(3)] some_emptied_frms [OF P2(3) P1(4)] by auto
qed

text \<open>The rounds of ten peers end, with all frames gone.\<close>

lemma flush_peers_ok:
  assumes "tx_ready P" and "flushable vdev P" and "set peers \<subseteq> set (peer_list vdev)"
  shows "\<exists>P'. flush_peers peers P = Some P' \<and> tx_ready P' \<and> some_emptied P P' \<and> (\<forall>peer\<in>set peers. \<not> peer_has_frms P' peer)"
  using assms
proof (induction "length (filter (peer_has_frms P) peers)" arbitrary: P rule: less_induct)
  case less
  define cand where "cand = filter (peer_has_frms P) peers"
  obtain P1 where P1: "for_each (take PEER_ARRAY_COUNT cand) flush_peer P = Some P1" "tx_ready P1" "some_emptied P P1"
    "\<forall>peer\<in>set (take PEER_ARRAY_COUNT cand). \<not> peer_has_frms P1 peer"
    using flush_round_ok [OF less.prems(1,2), of "take PEER_ARRAY_COUNT cand"] less.prems(3)
      set_take_subset [of PEER_ARRAY_COUNT cand] by (auto simp: cand_def)
  show ?case
  proof (cases "length cand \<ge> PEER_ARRAY_COUNT")
    case False
    then have "flush_peers peers P = Some P1" using P1(1) by (subst flush_peers.simps) (simp add: cand_def)
    moreover have "\<not> peer_has_frms P1 peer" if "peer \<in> set peers" for peer
      using False P1(3,4) some_emptied_frms that by (cases "peer_has_frms P peer") (auto simp: cand_def)
    ultimately show ?thesis using P1 by blast
  next
    case True
    have step: "flush_peers peers P = flush_peers peers P1"
      using P1(1) True by (subst flush_peers.simps) (simp add: cand_def PEER_ARRAY_COUNT_def)
    have sub: "filter (peer_has_frms P1) peers = filter (peer_has_frms P1) cand"
      unfolding cand_def filter_filter using some_emptied_frms [OF P1(3)] by (intro filter_cong) auto
    have "cand \<noteq> []" using True by (auto simp: PEER_ARRAY_COUNT_def)
    then have h: "hd cand \<in> set (take PEER_ARRAY_COUNT cand)" by (cases cand) (simp_all add: PEER_ARRAY_COUNT_def)
    have "length (filter (peer_has_frms P1) cand) < length cand"
      using P1(4) h \<open>cand \<noteq> []\<close> by (intro length_filter_less [of "hd cand"]) auto
    then have dec: "length (filter (peer_has_frms P1) peers) < length (filter (peer_has_frms P) peers)"
      using sub by (simp add: cand_def)
    show ?thesis
      using less.hyps [OF dec P1(2) some_emptied_flushable [OF P1(3) less.prems(2)] less.prems(3)] step
        some_emptied_trans [OF P1(3)] by auto
  qed
qed

lemma vdev_flush_ok:
  assumes rdy: "tx_ready P" and i: "i < length (vdev_list P)" and fl: "flushable (vdev_list P ! i) P"
  shows "\<exists>P'. ol_tx_queue_vdev_flush i P = Some P' \<and> tx_ready P' \<and> some_emptied P P' \<and>
    (\<forall>peer\<in>set (peer_list (vdev_list P ! i)). \<not> peer_has_frms P' peer)"
proof -
  let ?v = "vdev_list P ! i"
  have "\<exists>P1. for_each [0..<OL_TX_VDEV_NUM_QUEUES] (\<lambda>i. ol_tx_queue_free (VdevTxq (vdev_id ?v) i) (i + OL_TX_NUM_TIDS)) P = Some P1
      \<and> tx_ready P1 \<and> some_emptied P P1"
  proof (rule for_each_keeps [where I = "\<lambda>P1. tx_ready P1 \<and> some_emptied P P1"])
    fix j P1
    assume j: "j \<in> set [0..<OL_TX_VDEV_NUM_QUEUES]" and I: "tx_ready P1 \<and> some_emptied P P1"
    have e: "q_flag (tx_queues P1 (VdevTxq (vdev_id ?v) j)) = ol_tx_queue_empty"
      using some_emptied_flushable [of P P1 ?v] I fl j by (auto simp: flushable_def)
    then show "\<exists>s'. ol_tx_queue_free (VdevTxq (vdev_id ?v) j) (j + OL_TX_NUM_TIDS) P1 = Some s' \<and> tx_ready s' \<and> some_emptied P s'"
      using free_some_emptied [of P1 "VdevTxq (vdev_id ?v) j"] I j some_emptied_trans [of P P1]
        free_inactive [of P1 "VdevTxq (vdev_id ?v) j" "j + OL_TX_NUM_TIDS" "ref_tid (VdevTxq (vdev_id ?v) j)"] by auto
  qed (use rdy some_emptied_refl in auto)
  then obtain P1 where P1: "for_each [0..<OL_TX_VDEV_NUM_QUEUES] (\<lambda>i. ol_tx_queue_free (VdevTxq (vdev_id ?v) i) (i + OL_TX_NUM_TIDS)) P = Some P1"
    "tx_ready P1" "some_emptied P P1" by blast
  obtain P2 where P2: "flush_peers (peer_list ?v) P1 = Some P2" "tx_ready P2" "some_emptied P1 P2"
    "\<forall>peer\<in>set (peer_list ?v). \<not> peer_has_frms P2 peer"
    using flush_peers_ok [OF P1(2) some_emptied_flushable [OF P1(3) fl]] by auto
  then show ?thesis using P1 i some_emptied_trans [OF P1(3) P2(3)] by (auto simp: ol_tx_queue_vdev_flush_def)
qed

section \<open>Virtual devices\<close>

definition may_pause :: "nat \<Rightarrow> ol_txrx_pdev_t \<Rightarrow> bool" where
  "may_pause peer P \<longleftrightarrow> (\<forall>t<OL_TX_NUM_TIDS. unat (paused_count_total (tx_queues P (PeerTxq peer t))) < 255)"

lemma peer_pause_ok:
  assumes "tx_ready P" and "may_pause peer P"
  shows "\<exists>P'. ol_txrx_peer_pause_base peer P = Some P' \<and> tx_ready P' \<and> vdev_list P' = vdev_list P \<and>
    (\<forall>peer' t. peer' \<noteq> peer \<longrightarrow> tx_queues P' (PeerTxq peer' t) = tx_queues P (PeerTxq peer' t))"
proof -
  let ?I = "\<lambda>is P'. tx_ready P' \<and> vdev_list P' = vdev_list P \<and> distinct is \<and> set is \<subseteq> {..<OL_TX_NUM_TIDS} \<and>
    (\<forall>t\<in>set is. unat (paused_count_total (tx_queues P' (PeerTxq peer t))) < 255) \<and>
    (\<forall>peer' t. peer' \<noteq> peer \<longrightarrow> tx_queues P' (PeerTxq peer' t) = tx_queues P (PeerTxq peer' t))"
  have "\<exists>P'. ol_txrx_peer_pause_base peer P = Some P' \<and> ?I [] P'"
    unfolding ol_txrx_peer_pause_base_def
  proof (rule for_each_rest [where I = ?I])
    fix t ts P1
    assume I: "?I (t # ts) P1"
    then have rdy: "tx_ready P1" and t: "t < OL_TX_NUM_TIDS"
      and lim: "unat (paused_count_total (tx_queues P1 (PeerTxq peer t))) < 255" and d: "t \<notin> set ts" by auto
    obtain P2 where P2: "ol_txrx_peer_tid_pause_base peer t P1 = Some P2" "tx_ready P2" "vdev_list P2 = vdev_list P1"
      and other: "\<And>r'. r' \<noteq> PeerTxq peer t \<Longrightarrow> tx_queues P2 r' = tx_queues P1 r'"
      by (rule peer_tid_pause_ok [OF rdy t lim]) blast
    have "tx_queues P2 (PeerTxq peer t') = tx_queues P1 (PeerTxq peer t')" if "t' \<in> set ts" for t'
      using other [of "PeerTxq peer t'"] that d by auto
    then show "\<exists>s'. ol_txrx_peer_tid_pause_base peer t P1 = Some s' \<and> ?I ts s'"
      using P2 I other by auto
  qed (use assms in \<open>auto simp: may_pause_def\<close>)
  then show ?thesis by auto
qed

lemma vdev_pause_ok:
  assumes rdy: "tx_ready P" and i: "i < length (vdev_list P)" and d: "distinct (peer_list (vdev_list P ! i))"
    and lim: "\<forall>peer\<in>set (peer_list (vdev_list P ! i)). may_pause peer P"
  shows "\<exists>P'. ol_txrx_vdev_pause reason i P = Some P' \<and> tx_ready P'"
proof (cases "hl_paused_reason (vdev_list P ! i) AND reason = 0")
  case False
  then show ?thesis using rdy i by (simp add: ol_txrx_vdev_pause_def)
next
  case True
  let ?I = "\<lambda>ps P'. tx_ready P' \<and> distinct ps \<and> (\<forall>peer\<in>set ps. may_pause peer P')"
  define P0 where "P0 = upd_vdev i (\<lambda>vdev. vdev\<lparr>hl_paused_reason := hl_paused_reason vdev OR reason\<rparr>) P"
  have r0: "tx_ready P0" using rdy by (subst tx_ready_cong [of _ P]) (simp_all add: P0_def upd_vdev_def)
  have "\<exists>P'. for_each (peer_list (vdev_list P ! i)) ol_txrx_peer_pause_base P0 = Some P' \<and> ?I [] P'"
  proof (rule for_each_rest [where I = ?I])
    fix peer ps P1
    assume I: "?I (peer # ps) P1"
    then obtain P2 where P2: "ol_txrx_peer_pause_base peer P1 = Some P2" "tx_ready P2"
      "\<forall>peer' t. peer' \<noteq> peer \<longrightarrow> tx_queues P2 (PeerTxq peer' t) = tx_queues P1 (PeerTxq peer' t)"
      using peer_pause_ok [of P1 peer] by auto
    have "may_pause peer' P2" if "peer' \<in> set ps" for peer'
    proof -
      have "peer' \<noteq> peer" "may_pause peer' P1" using that I by auto
      then show ?thesis using P2(3) by (simp add: may_pause_def)
    qed
    then show "\<exists>s'. ol_txrx_peer_pause_base peer P1 = Some s' \<and> ?I ps s'" using P2 I by auto
  qed (use r0 d lim in \<open>auto simp: may_pause_def P0_def upd_vdev_def\<close>)
  then show ?thesis using True i by (auto simp: ol_txrx_vdev_pause_def P0_def)
qed

lemma vdev_unpause_ok:
  assumes rdy: "tx_ready P" and i: "i < length (vdev_list P)"
  shows "\<exists>P'. ol_txrx_vdev_unpause H reason i P = Some P' \<and> tx_ready P'"
proof (cases "hl_paused_reason (vdev_list P ! i) AND reason = 0")
  case True
  then show ?thesis using rdy i by (simp add: ol_txrx_vdev_unpause_def)
next
  case False
  define P0 where "P0 = upd_vdev i (\<lambda>vdev. vdev\<lparr>hl_paused_reason := hl_paused_reason vdev AND NOT reason\<rparr>) P"
  have r0: "tx_ready P0" using rdy by (subst tx_ready_cong [of _ P]) (simp_all add: P0_def upd_vdev_def)
  have tid: "\<exists>P2. ol_txrx_peer_tid_unpause_base H peer t P1 = Some P2 \<and> tx_ready P2"
    if t: "t \<in> set [0..<OL_TX_NUM_TIDS]" and r: "tx_ready P1" for peer t P1
    by (rule peer_tid_unpause_ok [OF r, of t H peer]) (use t in auto)
  have peers: "\<exists>P2. for_each [0..<OL_TX_NUM_TIDS] (ol_txrx_peer_tid_unpause_base H peer) P1 = Some P2 \<and> tx_ready P2"
    if r: "tx_ready P1" for peer P1
    using tid r by (rule for_each_keeps)
  have "\<exists>P'. for_each (peer_list (vdev_list P ! i))
      (\<lambda>peer. for_each [0..<OL_TX_NUM_TIDS] (ol_txrx_peer_tid_unpause_base H peer)) P0 = Some P' \<and> tx_ready P'"
    by (rule for_each_keeps [where I = tx_ready]) (use peers r0 in blast)+
  then show ?thesis using False i by (simp add: ol_txrx_vdev_unpause_def P0_def)
qed

section \<open>Sequences of operations\<close>

text \<open>The operations of the transmit path on the device, with the conditions under which its callers use them.\<close>

datatype tx_op =
    Enqueue txq_ref ol_tx_desc_t
  | Schedule
  | Credits u32
  | Pause u32 nat
  | Unpause u32 nat
  | UnpauseTid nat nat
  | Flush nat
  | Discard

fun tx_exec :: "tx_env \<Rightarrow> tx_op \<Rightarrow> ol_txrx_pdev_t \<Rightarrow> ol_txrx_pdev_t option" where
  "tx_exec H (Enqueue r d) P = ol_tx_enqueue r d (ref_tid r) P"
| "tx_exec H Schedule P = ol_tx_sched H P"
| "tx_exec H (Credits n) P = ol_tx_credit_completion_handler H n P"
| "tx_exec H (Pause reason v) P = ol_txrx_vdev_pause reason v P"
| "tx_exec H (Unpause reason v) P = ol_txrx_vdev_unpause H reason v P"
| "tx_exec H (UnpauseTid peer tid) P = ol_txrx_peer_tid_unpause H peer (int tid) P"
| "tx_exec H (Flush v) P = ol_txrx_vdev_flush v P"
| "tx_exec H Discard P = do { (P, tx_descs) \<leftarrow> ol_tx_queue_discard False P; Some (ol_tx_desc_frame_list_free True tx_descs P) }"

fun tx_may :: "tx_op \<Rightarrow> ol_txrx_pdev_t \<Rightarrow> bool" where
  "tx_may (Enqueue r d) P \<longleftrightarrow> txq_valid r \<and> unat (q_frms (tx_queues P r)) < 65535 \<and>
     (\<forall>r'. d \<notin> set (q_head (tx_queues P r')))"
| "tx_may (Pause reason v) P \<longleftrightarrow> v < length (vdev_list P) \<and> distinct (peer_list (vdev_list P ! v)) \<and>
     (\<forall>peer\<in>set (peer_list (vdev_list P ! v)). may_pause peer P)"
| "tx_may (Unpause reason v) P \<longleftrightarrow> v < length (vdev_list P)"
| "tx_may (UnpauseTid peer tid) P \<longleftrightarrow> tid < OL_TX_NUM_TIDS"
| "tx_may (Flush v) P \<longleftrightarrow> v < length (vdev_list P) \<and> flushable (vdev_list P ! v) P"
| "tx_may _ P \<longleftrightarrow> True"

lemma tx_exec_ok:
  assumes "tx_ready P" and "tx_may op P"
  shows "\<exists>P'. tx_exec H op P = Some P' \<and> tx_ready P'"
proof (cases op)
  case (Enqueue r d)
  have v: "txq_valid r" and lim: "unat (q_frms (tx_queues P r)) < 65535" and new: "\<And>r'. d \<notin> set (q_head (tx_queues P r'))"
    using assms(2) Enqueue by auto
  show ?thesis using ol_tx_enqueue_ok [OF assms(1) v lim new] Enqueue by auto
next
  case Schedule
  then show ?thesis using ol_tx_sched_ready [OF assms(1)] by auto
next
  case (Credits n)
  have "tx_ready (ol_tx_target_credit_update n P)"
    using assms(1) by (subst tx_ready_cong [of _ P]) (simp_all add: ol_tx_target_credit_update_def)
  then show ?thesis using ol_tx_sched_ready Credits by (auto simp: ol_tx_credit_completion_handler_def)
next
  case (Pause reason v)
  then show ?thesis using vdev_pause_ok [of P v reason] assms by auto
next
  case (Unpause reason v)
  then show ?thesis using vdev_unpause_ok [of P v H reason] assms by auto
next
  case (UnpauseTid peer tid)
  have "\<exists>P'. ol_txrx_peer_tid_unpause_base H peer tid P = Some P' \<and> tx_ready P'"
    by (rule peer_tid_unpause_ok [OF assms(1), of tid H peer]) (use assms(2) UnpauseTid in auto)
  then show ?thesis using UnpauseTid by (simp add: ol_txrx_peer_tid_unpause_def)
next
  case (Flush v)
  then show ?thesis using vdev_flush_ok [of P v] assms by (auto simp: ol_txrx_vdev_flush_def)
next
  case Discard
  obtain P1 ds where "ol_tx_queue_discard False P = Some (P1, ds)" "tx_ready P1" using make_room_ok [OF assms(1)] .
  then show ?thesis using Discard tx_ready_cong [of "ol_tx_desc_frame_list_free True ds P1" P1] by simp
qed

inductive tx_run :: "tx_env \<Rightarrow> ol_txrx_pdev_t \<Rightarrow> tx_op list \<Rightarrow> ol_txrx_pdev_t \<Rightarrow> bool" for H where
  run_none: "tx_run H P [] P"
| run_op: "tx_may op P \<Longrightarrow> tx_exec H op P = Some P1 \<Longrightarrow> tx_run H P1 ops P' \<Longrightarrow> tx_run H P (op # ops) P'"

lemma tx_run_ready: "tx_run H P ops P' \<Longrightarrow> tx_ready P \<Longrightarrow> tx_ready P'"
proof (induction rule: tx_run.induct)
  case (run_op op P P1 ops P')
  then show ?case using tx_exec_ok [of P op H] by auto
qed

text \<open>All operations but the queueing of a new frame keep the descriptors in their places; the latter takes one.\<close>

lemma tx_exec_keeps:
  assumes "tx_exec H op P = Some P'" and "tx_ready P" and "tx_may op P" and "\<And>r d. op \<noteq> Enqueue r d"
  shows "keeps_descs P P'"
proof (cases op)
  case (Enqueue r d)
  then show ?thesis using assms(4) by blast
next
  case Schedule
  then show ?thesis using assms(1) ol_tx_sched_keeps by simp
next
  case (Credits n)
  have "same_descs P (ol_tx_target_credit_update n P)" by (simp add: ol_tx_target_credit_update_def)
  then show ?thesis using assms(1) Credits keeps_descs_trans [OF same_keeps ol_tx_sched_keeps]
    by (auto simp: ol_tx_credit_completion_handler_def)
next
  case (Pause reason v)
  then show ?thesis using assms(1) vdev_pause_keeps by simp
next
  case (Unpause reason v)
  then show ?thesis using assms(1) vdev_unpause_keeps by simp
next
  case (UnpauseTid peer tid)
  then show ?thesis using assms(1) peer_tid_unpause_keeps by (simp add: ol_txrx_peer_tid_unpause_def)
next
  case (Flush v)
  then show ?thesis using assms vdev_flush_ok [of P v] by (auto simp: ol_txrx_vdev_flush_def some_emptied_def)
next
  case Discard
  then show ?thesis using assms(1) discard_keeps by (auto simp: bind_eq_Some_conv)
qed

end
