(* ===== verification/Tx_Frame.thy ===== *)
theory Tx_Frame
  imports Tx_Moves Tx_Seq
begin

text \<open>
  The operations of the transmit queues leave the table of peers and the virtual devices alone, but for the reasons of
  a pause: what the classification finds before a frame is queued is still there when its reference is given back.
\<close>

definition vdevs_of :: "ol_txrx_pdev_t \<Rightarrow> ol_txrx_vdev_t list" where
  "vdevs_of P = map (\<lambda>vdev. vdev\<lparr>hl_paused_reason := 0\<rparr>) (vdev_list P)"

definition peers_of :: "ol_txrx_pdev_t \<Rightarrow> peer_db \<times> wlan_frm_fmt \<times> ol_txrx_vdev_t list" where
  "peers_of P = (peer_tab P, frame_format P, vdevs_of P)"

lemma peers_of_upd [simp]:
  "peers_of (P\<lparr>tx_queues := a\<rparr>) = peers_of P" "peers_of (P\<lparr>scheduler := b\<rparr>) = peers_of P"
  "peers_of (P\<lparr>last_used_txq := c\<rparr>) = peers_of P" "peers_of (P\<lparr>tx_sched_status := d\<rparr>) = peers_of P"
  "peers_of (P\<lparr>target_tx_credit := e\<rparr>) = peers_of P" "peers_of (P\<lparr>txq_grps := f\<rparr>) = peers_of P"
  "peers_of (P\<lparr>rsrc_cnt := g\<rparr>) = peers_of P"
  "peers_of (P\<lparr>desc_mem := i\<rparr>) = peers_of P" "peers_of (P\<lparr>desc_ref := j\<rparr>) = peers_of P"
  "peers_of (P\<lparr>desc_status := k\<rparr>) = peers_of P" "peers_of (P\<lparr>desc_owner := l\<rparr>) = peers_of P"
  "peers_of (P\<lparr>desc_next := m\<rparr>) = peers_of P" "peers_of (P\<lparr>freelist := n\<rparr>) = peers_of P"
  "peers_of (P\<lparr>num_free := q\<rparr>) = peers_of P" "peers_of (P\<lparr>downloaded := r\<rparr>) = peers_of P"
  "peers_of (P\<lparr>freed := s\<rparr>) = peers_of P" "peers_of (upd_txq t u P) = peers_of P"
  by (simp_all add: peers_of_def vdevs_of_def upd_txq_def)

lemma peers_of_free [simp]:
  "peers_of (ol_tx_desc_free i P) = peers_of P" "peers_of (clear_ref i P) = peers_of P"
  "peers_of (ol_tx_desc_frame_free_nonstd e d P) = peers_of P" "peers_of (reject_frame d P) = peers_of P"
  by (simp_all add: ol_tx_desc_free_def clear_ref_def ol_tx_desc_frame_free_nonstd_def reject_frame_def Let_def)

lemma peers_of_fold [simp]:
  "(\<And>x P. peers_of (f x P) = peers_of P) \<Longrightarrow> peers_of (fold f xs P) = peers_of P"
  by (induction xs arbitrary: P) simp_all

lemma peers_of_list_free [simp]: "peers_of (ol_tx_desc_frame_list_free e ds P) = peers_of P"
  by (simp add: ol_tx_desc_frame_list_free_def Let_def)

lemma peers_of_for_each:
  "for_each is body P = Some P' \<Longrightarrow> (\<And>i P P'. body i P = Some P' \<Longrightarrow> peers_of P' = peers_of P) \<Longrightarrow> peers_of P' = peers_of P"
  by (rule for_each_relates [where R = "\<lambda>P P'. peers_of P' = peers_of P"]) auto

lemma notify_peers: "ol_tx_sched_notify r ev P = Some P' \<Longrightarrow> peers_of P' = peers_of P"
  by (auto simp: ol_tx_sched_notify.simps ol_tx_sched_txq_enqueue_wrr_adv_def ol_tx_sched_txq_deactivate_wrr_adv_def
      ol_tx_sched_txq_discard_wrr_adv_def bind_eq_Some_conv Let_def split: if_splits ol_tx_queue_action.splits)

section \<open>A scheduling run\<close>

lemma group_credit_peers: "ol_tx_txq_group_credit_update q c a P = Some P' \<Longrightarrow> peers_of P' = peers_of P"
  by (auto dest!: group_credit_update_frame)

lemma serve_category_peers:
  assumes "serve_category c credit P = Some (P', out, used)"
  shows "peers_of P' = peers_of P"
proof -
  obtain S cat where S: "scheduler P = Some S" "rd (categories S) c = Some cat"
    using assms by (auto simp: serve_category_def bind_eq_Some_conv)
  show ?thesis
  proof (cases "c_head cat")
    case (Cons txq rest)
    obtain cr where cr: "ol_tx_txq_group_credit_limit P (tx_queues P txq) credit = Some cr"
      using assms by (auto simp: serve_category_def S Cons bind_eq_Some_conv Let_def)
    then show ?thesis
    proof (cases "cr > word_of_int (credit_reserve (specs cat))")
      case False
      then show ?thesis using assms by (auto simp: serve_category_def S Cons cr split: if_splits)
    next
      case True
      then obtain q' S' where "ol_tx_txq_group_credit_update q' (- used) False
          (upd_txq txq (\<lambda>_. q') (P\<lparr>scheduler := S', last_used_txq := Some txq\<rparr>)) = Some P'"
        using assms by (auto simp: serve_category_def S Cons cr bind_eq_Some_conv Let_def)
      from group_credit_peers [OF this] show ?thesis by simp
    qed
  qed (use assms S in \<open>auto simp: serve_category_def\<close>)
qed

lemma select_batch_peers: "ol_tx_sched_select_batch_wrr_adv credit P = Some (P', out, used) \<Longrightarrow> peers_of P' = peers_of P"
  by (auto simp: ol_tx_sched_select_batch_wrr_adv_def bind_eq_Some_conv Let_def split: if_splits dest!: serve_category_peers)

lemma sched_loop_peers: "sched_loop acc frms P = Some (P', acc', frms') \<Longrightarrow> peers_of P' = peers_of P"
proof (induction acc frms P rule: sched_loop.induct)
  case (1 acc frms P)
  then show ?case
    by (subst (asm) (2) sched_loop.simps)
      (fastforce simp: bind_eq_Some_conv Let_def dest: select_batch_peers split: if_splits)
qed

lemma send_batch_peers: "ol_tx_send_batch H msdus n P = Some P' \<Longrightarrow> peers_of P' = peers_of P"
  by (auto simp: ol_tx_send_batch_def bind_eq_Some_conv)

lemma dispatch_loop_peers: "dispatch_loop H frms ds chain n P = Some (P', chain', n') \<Longrightarrow> peers_of P' = peers_of P"
proof (induction H frms ds chain n P rule: dispatch_loop.induct)
  case (2 H frms d ds chain n P)
  show ?case
  proof (cases "frms = 0 \<or> \<not> no_id_storage H d")
    case True
    then show ?thesis using "2.prems" "2.IH"(2) by (auto simp: Let_def split: if_splits)
  next
    case False
    then obtain P1 where b: "ol_tx_send_batch H (chain @ [d]) n (P\<lparr>desc_ref := (desc_ref P)(desc_id d := 2)\<rparr>) = Some P1"
      using "2.prems" by (auto simp: Let_def bind_eq_Some_conv)
    then show ?thesis using "2.prems" "2.IH"(1) [OF _ refl refl _ b refl] False send_batch_peers [OF b]
      by (auto simp: Let_def split: if_splits)
  qed
qed simp

lemma dispatch_peers: "ol_tx_sched_dispatch H ds frms P = Some P' \<Longrightarrow> peers_of P' = peers_of P"
  by (auto simp: ol_tx_sched_dispatch_def bind_eq_Some_conv dest!: dispatch_loop_peers send_batch_peers split: if_splits)

lemma ol_tx_sched_peers: "ol_tx_sched H P = Some P' \<Longrightarrow> peers_of P' = peers_of P"
  by (auto simp: ol_tx_sched_def ol_tx_sched_select_init_wrr_adv_def bind_eq_Some_conv
      dest!: sched_loop_peers dispatch_peers split: if_splits)

section \<open>Queues\<close>

lemma queue_free_peers: "ol_tx_queue_free r tid P = Some P' \<Longrightarrow> peers_of P' = peers_of P"
  by (auto simp: ol_tx_queue_free_def bind_eq_Some_conv Let_def dest!: notify_peers)

lemma flush_peer_peers: "flush_peer p P = Some P' \<Longrightarrow> peers_of P' = peers_of P"
  unfolding flush_peer_def by (erule peers_of_for_each) (auto dest: queue_free_peers split: if_splits)

lemma flush_peers_peers:
  assumes "flush_peers ps P = Some P'"
  shows "peers_of P' = peers_of P"
proof -
  let ?R = "\<lambda>x P'. peers_of P' = peers_of (snd x)"
  have "?R (ps, P) P'"
  proof (rule flush_peers.raw_induct [where Pa = ?R, OF _ assms])
    fix f ps P P'
    assume ih: "\<And>ps P P'. f ps P = Some P' \<Longrightarrow> ?R (ps, P) P'"
      and step: "Option.bind (for_each (take PEER_ARRAY_COUNT (filter (peer_has_frms P) ps)) flush_peer P)
         (\<lambda>P'. if length (take PEER_ARRAY_COUNT (filter (peer_has_frms P) ps)) \<ge> PEER_ARRAY_COUNT then f ps P' else Some P') = Some P'"
    then obtain P1 where b: "for_each (take PEER_ARRAY_COUNT (filter (peer_has_frms P) ps)) flush_peer P = Some P1"
      and e: "f ps P1 = Some P' \<or> P' = P1"
      by (auto simp: bind_eq_Some_conv split: if_splits)
    have "peers_of P1 = peers_of P" using b by (rule peers_of_for_each) (rule flush_peer_peers)
    then show "?R (ps, P) P'" using e ih [of ps P1] by auto
  qed
  then show ?thesis by simp
qed

lemma vdev_flush_peers: "ol_tx_queue_vdev_flush v P = Some P' \<Longrightarrow> peers_of P' = peers_of P"
  by (auto simp: ol_tx_queue_vdev_flush_def bind_eq_Some_conv dest!: flush_peers_peers peers_of_for_each [OF _ queue_free_peers])

lemma discard_select_peers: "ol_tx_sched_discard_select frms force P = Some (P', out, n) \<Longrightarrow> peers_of P' = peers_of P"
  by (auto simp: ol_tx_sched_discard_select_def bind_eq_Some_conv Let_def dest!: notify_peers split: option.splits)

lemma discard_loop_peers: "discard_loop num force ds act P = Some (P', ds', num', act') \<Longrightarrow> peers_of P' = peers_of P"
proof (induction num force ds act P rule: discard_loop.induct)
  case (1 num force ds act P)
  then show ?case
    by (subst (asm) (2) discard_loop.simps)
      (fastforce simp: bind_eq_Some_conv Let_def dest: discard_select_peers split: if_splits)
qed

lemma discard_peers: "ol_tx_queue_discard force P = Some (P', ds) \<Longrightarrow> peers_of P' = peers_of P"
  by (auto simp: ol_tx_queue_discard_def ol_tx_queue_flush_def bind_eq_Some_conv Let_def
      dest!: discard_loop_peers peers_of_for_each [where body = ol_tx_queue_vdev_flush, OF _ vdev_flush_peers] split: if_splits)

lemma enqueue_peers:
  assumes "ol_tx_enqueue r d tid P = Some P'"
  shows "peers_of P' = peers_of P"
proof -
  obtain P1 where room: "(if sint (rsrc_cnt P) \<le> uint (rsrc_threshold_lo P) then do {
              (P, tx_descs) \<leftarrow> ol_tx_queue_discard False P;
              Some (ol_tx_desc_frame_list_free True tx_descs P) }
           else Some P) = Some P1"
    and rest: "(let P = upd_txq r (\<lambda>q. q\<lparr>q_head := q_head q @ [d], q_frms := q_frms q + 1, q_bytes := q_bytes q + netbuf_len d\<rparr>) P1
      in if q_flag (tx_queues P r) \<noteq> ol_tx_queue_paused then do {
       P \<leftarrow> ol_tx_sched_notify r (OL_TX_ENQUEUE_FRAME tid (netbuf_len d)) P;
       Some (upd_txq r (\<lambda>q. q\<lparr>q_flag := ol_tx_queue_active\<rparr>) P) }
     else Some P) = Some P'"
    using assms unfolding ol_tx_enqueue_def bind_eq_Some_conv by auto
  have "peers_of P1 = peers_of P" using room by (auto simp: bind_eq_Some_conv dest: discard_peers split: if_splits)
  then show ?thesis using rest by (auto simp: Let_def bind_eq_Some_conv dest: notify_peers split: if_splits)
qed

lemma tid_pause_peers: "ol_txrx_peer_tid_pause_base peer tid P = Some P' \<Longrightarrow> peers_of P' = peers_of P"
  by (auto simp: ol_txrx_peer_tid_pause_base_def bind_eq_Some_conv Let_def dest!: notify_peers split: if_splits)

lemma tid_unpause_base_peers: "ol_txrx_peer_tid_unpause_base H peer tid P = Some P' \<Longrightarrow> peers_of P' = peers_of P"
  by (auto simp: ol_txrx_peer_tid_unpause_base_def bind_eq_Some_conv Let_def dest!: notify_peers ol_tx_sched_peers split: if_splits)

lemma tid_unpause_peers: "ol_txrx_peer_tid_unpause H peer tid P = Some P' \<Longrightarrow> peers_of P' = peers_of P"
  by (auto simp: ol_txrx_peer_tid_unpause_def dest: peers_of_for_each [OF _ tid_unpause_base_peers] tid_unpause_base_peers split: if_splits)

lemma peers_of_upd_vdev [simp]:
  assumes "\<And>vdev. (f vdev)\<lparr>hl_paused_reason := 0\<rparr> = vdev\<lparr>hl_paused_reason := 0\<rparr>"
  shows "peers_of (upd_vdev v f P) = peers_of P"
proof -
  have "map (\<lambda>vdev. vdev\<lparr>hl_paused_reason := 0\<rparr>) ((vdev_list P)[v := f (vdev_list P ! v)]) = map (\<lambda>vdev. vdev\<lparr>hl_paused_reason := 0\<rparr>) (vdev_list P)"
    by (cases "v < length (vdev_list P)") (auto simp: map_update assms list_update_same_conv list_update_beyond)
  then show ?thesis by (simp add: upd_vdev_def peers_of_def vdevs_of_def)
qed

lemma vdev_pause_peers: "ol_txrx_vdev_pause reason v P = Some P' \<Longrightarrow> peers_of P' = peers_of P"
proof -
  have peer: "ol_txrx_peer_pause_base peer Q = Some Q' \<Longrightarrow> peers_of Q' = peers_of Q" for peer Q Q'
    unfolding ol_txrx_peer_pause_base_def by (erule peers_of_for_each) (rule tid_pause_peers)
  show "ol_txrx_vdev_pause reason v P = Some P' \<Longrightarrow> peers_of P' = peers_of P"
    by (auto simp: ol_txrx_vdev_pause_def bind_eq_Some_conv dest!: peers_of_for_each [OF _ peer] split: if_splits)
qed

lemma vdev_unpause_peers:
  assumes "ol_txrx_vdev_unpause H reason v P = Some P'"
  shows "peers_of P' = peers_of P"
proof -
  have peer: "for_each [0..<OL_TX_NUM_TIDS] (ol_txrx_peer_tid_unpause_base H peer) Q = Some Q' \<Longrightarrow> peers_of Q' = peers_of Q" for peer Q Q'
    by (erule peers_of_for_each) (rule tid_unpause_base_peers)
  define P0 where "P0 = upd_vdev v (\<lambda>vdev. vdev\<lparr>hl_paused_reason := hl_paused_reason vdev AND NOT reason\<rparr>) P"
  have p0: "peers_of P0 = peers_of P" by (simp add: P0_def)
  obtain vdev where v: "rd (vdev_list P) v = Some vdev" using assms by (auto simp: ol_txrx_vdev_unpause_def bind_eq_Some_conv)
  then have "P' = P \<or> for_each (peer_list vdev) (\<lambda>peer. for_each [0..<OL_TX_NUM_TIDS] (ol_txrx_peer_tid_unpause_base H peer)) P0 = Some P'"
    using assms by (auto simp: ol_txrx_vdev_unpause_def P0_def split: if_splits)
  moreover have "peers_of P' = peers_of P0"
    if "for_each (peer_list vdev) (\<lambda>peer. for_each [0..<OL_TX_NUM_TIDS] (ol_txrx_peer_tid_unpause_base H peer)) P0 = Some P'"
    using that by (rule peers_of_for_each) (rule peer)
  ultimately show ?thesis using p0 by auto
qed

lemma tx_exec_peers: "tx_exec H op P = Some P' \<Longrightarrow> peers_of P' = peers_of P"
  by (cases op) (auto simp: ol_tx_credit_completion_handler_def ol_tx_target_credit_update_def ol_txrx_vdev_flush_def
      bind_eq_Some_conv dest!: enqueue_peers ol_tx_sched_peers vdev_pause_peers vdev_unpause_peers tid_unpause_peers
      vdev_flush_peers discard_peers)

end
