(* ===== verification/Tx_Wait.thy ===== *)
theory Tx_Wait
  imports Tx_Run
begin

text \<open>
  How long a category of the transmit scheduler waits: every call of the selection that serves another category
  brings an active category nearer to its service.
\<close>

section \<open>Positions in the order list\<close>

definition pos :: "'a list \<Rightarrow> 'a \<Rightarrow> nat" where
  "pos xs c = length (takeWhile (\<lambda>x. x \<noteq> c) xs)"

lemma pos_nth: "c \<in> set xs \<Longrightarrow> pos xs c < length xs \<and> xs ! pos xs c = c"
  unfolding pos_def by (induction xs) auto

lemma pos_eq: "distinct xs \<Longrightarrow> i < length xs \<Longrightarrow> xs ! i = c \<Longrightarrow> pos xs c = i"
  using pos_nth [of c xs] nth_eq_iff_index_eq [of xs "pos xs c" i] nth_mem [of i xs] by auto

lemma rotated_nth:
  assumes "i < length xs" and "j < length xs"
  shows "rotated i xs ! j = (if j < i then xs ! j else if j < length xs - 1 then xs ! Suc j else xs ! i)"
  using assms by (auto simp: rotated_def nth_append min_def)

lemma pos_rotated:
  assumes "distinct xs" and "c \<in> set xs" and "i \<le> pos xs c"
  shows "pos (rotated i xs) c = (if pos xs c = i then length xs - 1 else pos xs c - 1)"
proof -
  have p: "pos xs c < length xs" "xs ! pos xs c = c" using pos_nth [OF assms(2)] by auto
  have i: "i < length xs" using assms(3) p by simp
  have d: "distinct (rotated i xs)" "length (rotated i xs) = length xs" using rotated_perm [OF i] assms(1) by auto
  show ?thesis
  proof (cases "pos xs c = i")
    case True
    then show ?thesis using p i d rotated_nth [OF i, of "length xs - 1"]
      by (auto intro!: pos_eq)
  next
    case False
    then obtain m where m: "pos xs c = Suc m" "i \<le> m" using assms(3) by (cases "pos xs c") auto
    have ml: "m < length xs - 1" using p m by simp
    then have "rotated i xs ! m = c" using p m rotated_nth [OF i, of m] by simp
    then show ?thesis using pos_eq [OF d(1), of m c] d(2) p m by simp
  qed
qed

section \<open>How long a category waits\<close>

text \<open>The turns a category is still passed over, and the number of visits before it is served.\<close>

definition turns_left :: "nat \<Rightarrow> ol_tx_sched_wrr_adv_t \<Rightarrow> nat" where
  "turns_left c S = nat (wrr_skip_weight (specs (categories S ! c)) - 1 - wrr_count (categories S ! c))"

definition waiting :: "nat \<Rightarrow> ol_tx_sched_wrr_adv_t \<Rightarrow> nat" where
  "waiting c S = turns_left c S * OL_TX_SCHED_WRR_ADV_NUM_CATEGORIES + pos (order S) c"

lemma order_ok_pos:
  "order_ok S \<Longrightarrow> c < OL_TX_SCHED_WRR_ADV_NUM_CATEGORIES \<Longrightarrow>
   c \<in> set (order S) \<and> pos (order S) c < OL_TX_SCHED_WRR_ADV_NUM_CATEGORIES \<and> order S ! pos (order S) c = c"
  using pos_nth [of c "order S"] order_ok_length [of S] by (simp add: order_ok_def)

lemma select_loop_progress:
  assumes "order_ok S" and "c < OL_TX_SCHED_WRR_ADV_NUM_CATEGORIES" and "c_active (categories S ! c)" and "i \<le> pos (order S) c"
  shows "\<exists>i' S'. select_loop i S = Some (i', S') \<and> order_ok S' \<and> same_but_turns S S' \<and> i' < OL_TX_SCHED_WRR_ADV_NUM_CATEGORIES \<and>
    (order S' ! i' \<noteq> c \<longrightarrow> i' < pos (order S') c \<and> waiting c S' \<le> waiting c S)"
  using assms(1,3,4)
proof (induction "(total_skips S, OL_TX_SCHED_WRR_ADV_NUM_CATEGORIES - i)" arbitrary: i S
    rule: wf_induct_rule [OF wf_lex_prod [OF wf_less_than wf_less_than]])
  case (1 i S)
  have pc: "c \<in> set (order S)" "pos (order S) c < OL_TX_SCHED_WRR_ADV_NUM_CATEGORIES" "order S ! pos (order S) c = c"
    using order_ok_pos [OF "1.prems"(1) assms(2)] by auto
  have i: "i < OL_TX_SCHED_WRR_ADV_NUM_CATEGORIES" using "1.prems"(3) pc(2) by simp
  have dist: "distinct (order S)" and len: "length (order S) = OL_TX_SCHED_WRR_ADV_NUM_CATEGORIES"
    using "1.prems"(1) order_ok_length by (auto simp: order_ok_def)
  define e where "e = order S ! i"
  have ec: "e = c \<longleftrightarrow> pos (order S) c = i" using pos_eq [OF dist, of i c] i len pc(3) by (auto simp: e_def)
  define S1 where "S1 = upd_category e (\<lambda>c. c\<lparr>wrr_count := wrr_count c + 1\<rparr>) S"
  have el: "e < length (categories S)" using order_ok_nth [OF "1.prems"(1) i] by (simp add: e_def)
  have cl: "c < length (categories S)" using "1.prems"(1) assms(2) by (simp add: order_ok_def)
  have step: "select_loop i S = (if \<not> c_active (categories S ! e) then select_loop (i + 1) S
      else if wrr_count (categories S ! e) + 1 < wrr_skip_weight (specs (categories S ! e))
           then select_loop i (S1\<lparr>order := rotated i (order S)\<rparr>)
      else Some (i, S1))"
    using select_loop_step [OF "1.prems"(1) i] by (simp add: e_def S1_def Let_def)
  have turns: "turns_left c S1 = (if e = c then turns_left c S - 1 else turns_left c S)"
    using el cl by (auto simp: turns_left_def S1_def upd_category_def)
  consider (idle) "\<not> c_active (categories S ! e)"
    | (skip) "c_active (categories S ! e)" "wrr_count (categories S ! e) + 1 < wrr_skip_weight (specs (categories S ! e))"
    | (turn) "c_active (categories S ! e)" "\<not> wrr_count (categories S ! e) + 1 < wrr_skip_weight (specs (categories S ! e))"
    by blast
  then show ?case
  proof cases
    case idle
    then have "e \<noteq> c" using "1.prems"(2) by auto
    then have "i + 1 \<le> pos (order S) c" using ec "1.prems"(3) by simp
    then show ?thesis using "1.hyps" [of S "i + 1"] "1.prems" idle step i by simp
  next
    case skip
    define S2 where "S2 = S1\<lparr>order := rotated i (order S)\<rparr>"
    have o2: "order_ok S2" using order_ok_rotated [of S1 i] "1.prems"(1) i by (simp add: S2_def S1_def order_ok_def upd_category_def)
    have less: "total_skips S2 < total_skips S" using total_skips_dec [OF el skip(2)] by (simp add: S2_def S1_def total_skips_def)
    have same: "same_but_turns S S2" using same_but_turns_upd [OF el] by (simp add: S2_def S1_def same_but_turns_def)
    have act: "c_active (categories S2 ! c)" using "1.prems"(2) cl by (cases "c = e") (simp_all add: S2_def S1_def upd_category_def)
    have p2: "pos (order S2) c = (if e = c then OL_TX_SCHED_WRR_ADV_NUM_CATEGORIES - 1 else pos (order S) c - 1)"
      using pos_rotated [OF dist pc(1) "1.prems"(3)] len ec by (simp add: S2_def)
    have le: "i \<le> pos (order S2) c" using p2 "1.prems"(3) ec i by auto
    have t2: "turns_left c S2 = turns_left c S1" by (simp add: S2_def turns_left_def)
    have w: "waiting c S2 \<le> waiting c S"
    proof (cases "e = c")
      case True
      have "turns_left c S > 0" using skip(2) True by (simp add: turns_left_def)
      then obtain m where "turns_left c S = Suc m" by (cases "turns_left c S") auto
      then show ?thesis using True p2 t2 turns by (simp add: waiting_def)
    next
      case False
      then show ?thesis using p2 t2 turns by (simp add: waiting_def)
    qed
    obtain i' S' where ih: "select_loop i S2 = Some (i', S')" "order_ok S'" "same_but_turns S2 S'"
      "i' < OL_TX_SCHED_WRR_ADV_NUM_CATEGORIES"
      "order S' ! i' \<noteq> c \<longrightarrow> i' < pos (order S') c \<and> waiting c S' \<le> waiting c S2"
      using "1.hyps" [of S2 i] less o2 act le by auto
    have "select_loop i S = Some (i', S')" using step skip ih(1) by (simp add: S2_def)
    then show ?thesis using ih w same_but_turns_trans [OF same ih(3)] by (intro exI [of _ i'] exI [of _ S']) auto
  next
    case turn
    have "select_loop i S = Some (i, S1)" using step turn by simp
    moreover have "order_ok S1" "same_but_turns S S1" "order S1 = order S"
      using "1.prems"(1) same_but_turns_upd [OF el] by (simp_all add: S1_def)
    moreover have "i < pos (order S) c" if "e \<noteq> c" using that ec "1.prems"(3) by simp
    ultimately show ?thesis using i turns by (intro exI [of _ i] exI [of _ S1]) (auto simp: e_def [symmetric] waiting_def)
  qed
qed

section \<open>Service\<close>

text \<open>The selection, called with \<open>credit\<close>, chooses category \<open>c\<close> and has the credits for it.\<close>

definition serves :: "nat \<Rightarrow> u32 \<Rightarrow> ol_txrx_pdev_t \<Rightarrow> bool" where
  "serves c credit P \<longleftrightarrow>
     (\<exists>S i S1. scheduler P = Some S \<and> select_loop (index S) S = Some (i, S1) \<and>
        i < OL_TX_SCHED_WRR_ADV_NUM_CATEGORIES \<and> order S1 ! i = c \<and>
        credit_threshold (specs (categories S1 ! c)) \<le> credit)"

text \<open>What the service of one category leaves of the scheduler: the order and the other categories.\<close>

lemma serve_category_scheduler:
  assumes "serve_category e credit P = Some (P', out, used)" and "scheduler P = Some S"
  obtains cat where "scheduler P' = Some (upd_category e (\<lambda>_. cat) S)"
    "wrr_count cat = wrr_count (categories S ! e)" "specs cat = specs (categories S ! e)"
proof -
  obtain cat where rdc: "rd (categories S) e = Some cat" using assms by (auto simp: serve_category_def bind_eq_Some_conv)
  then have cat: "cat = categories S ! e" and el: "e < length (categories S)" by (auto dest: rd_SomeD)
  note found = that
  have idle: ?thesis if h: "scheduler P' = Some S"
    by (rule found [of cat]) (simp_all add: h cat upd_category_def)
  show ?thesis
  proof (cases "c_head cat")
    case Nil
    then have "P' = P" using assms rdc by (simp add: serve_category_def)
    then show ?thesis using idle assms(2) by simp
  next
    case (Cons txq rest)
    obtain cr where cr: "ol_tx_txq_group_credit_limit P (tx_queues P txq) credit = Some cr"
      using assms by (auto simp: serve_category_def rdc Cons bind_eq_Some_conv Let_def)
    show ?thesis
    proof (cases "cr > word_of_int (credit_reserve (specs cat))")
      case False
      show ?thesis
      proof (cases "last_used_txq P = Some txq")
        case True
        then have "P' = P" using assms rdc Cons cr False by (simp add: serve_category_def)
        then show ?thesis using idle assms(2) by simp
      next
        case nl: False
        then have "scheduler P' = Some (upd_category e (\<lambda>c. c\<lparr>c_head := rest @ [txq]\<rparr>) S)"
          using assms rdc Cons cr False by (auto simp: serve_category_def)
        then show ?thesis by (intro that [of "cat\<lparr>c_head := rest @ [txq]\<rparr>"]) (simp_all add: cat upd_category_def)
      qed
    next
      case True
      from assms True obtain q' frames bytes P1 cat' where
        up: "ol_tx_txq_group_credit_update q' (- used) False P1 = Some P'" and
        P1: "scheduler P1 = Some (upd_category e (\<lambda>_. cat') S)" "wrr_count cat' = wrr_count cat" "specs cat' = specs cat"
        by (auto simp: serve_category_def rdc Cons cr bind_eq_Some_conv Let_def upd_txq_def)
      have "scheduler P' = scheduler P1" using group_credit_update_frame [OF up] by auto
      then show ?thesis using P1 that [of cat'] cat by simp
    qed
  qed
qed

text \<open>A call that does not serve category \<open>c\<close> brings its service nearer.\<close>

lemma select_batch_progress:
  assumes inv: "tx_inv P" and S: "scheduler P = Some S" and c: "c < OL_TX_SCHED_WRR_ADV_NUM_CATEGORIES"
    and act: "c_active (categories S ! c)" and idx: "index S \<le> pos (order S) c"
    and cr: "\<forall>cat\<in>set (categories S). credit_threshold (specs cat) \<le> credit"
    and call: "ol_tx_sched_select_batch_wrr_adv credit P = Some (P', out, used)" and ns: "\<not> serves c credit P"
  obtains S' where "scheduler P' = Some S'" "waiting c S' < waiting c S" "index S' \<le> pos (order S') c"
proof -
  have ook: "order_ok S" using inv S by (auto simp: tx_inv_def sched_ok_def)
  obtain i S1 where sel: "select_loop (index S) S = Some (i, S1)" and o1: "order_ok S1" and t1: "same_but_turns S S1"
    and i: "i < OL_TX_SCHED_WRR_ADV_NUM_CATEGORIES"
    and prog: "order S1 ! i \<noteq> c \<longrightarrow> i < pos (order S1) c \<and> waiting c S1 \<le> waiting c S"
    using select_loop_progress [OF ook c act idx] by blast
  define e where "e = order S1 ! i"
  have el: "e < length (categories S1)" and eS: "e < length (categories S)"
    using order_ok_nth [OF o1 i] ook by (auto simp: e_def order_ok_def)
  have "specs (categories S1 ! e) = specs (categories S ! e)"
    using same_but_turns_category [OF t1 eS] by (metis ol_tx_sched_wrr_adv_category_info_t.select_convs(1) ol_tx_sched_wrr_adv_category_info_t.surjective ol_tx_sched_wrr_adv_category_info_t.update_convs(2))
  then have enough: "credit_threshold (specs (categories S1 ! e)) \<le> credit" using cr eS by (metis nth_mem)
  then have nshort: "\<not> credit < credit_threshold (specs (categories S1 ! e))" by simp
  have ne: "e \<noteq> c" using ns S sel i enough by (auto simp: serves_def e_def)
  then have lt: "i < pos (order S1) c" and w1: "waiting c S1 \<le> waiting c S" using prog by (auto simp: e_def)
  define S2 where "S2 = (upd_category e (\<lambda>c. c\<lparr>wrr_count := 0\<rparr>) S1)\<lparr>order := rotated i (order S1), index := i\<rparr>"
  have rdo: "rd (order S1) i = Some e" using order_ok_length [OF o1] i by (simp add: e_def)
  have "serve_category e credit (P\<lparr>scheduler := Some S2\<rparr>) = Some (P', out, used)"
    using call i nshort el rotate_order [of "upd_category e (\<lambda>c. c\<lparr>wrr_count := 0\<rparr>) S1" i] o1
    by (simp add: ol_tx_sched_select_batch_wrr_adv_def S sel rdo S2_def)
  then obtain cat where S': "scheduler P' = Some (upd_category e (\<lambda>_. cat) S2)"
    by (rule serve_category_scheduler) auto
  have pc: "c \<in> set (order S1)" "distinct (order S1)" using order_ok_pos [OF o1 c] o1 by (auto simp: order_ok_def)
  have p2: "pos (order S2) c = pos (order S1) c - 1"
    using pos_rotated [OF pc(2,1), of i] lt by (simp add: S2_def)
  have "turns_left c (upd_category e (\<lambda>_. cat) S2) = turns_left c S1"
    using ne by (simp add: turns_left_def S2_def upd_category_def)
  then have "waiting c (upd_category e (\<lambda>_. cat) S2) < waiting c S1" using p2 lt by (simp add: waiting_def)
  then show ?thesis using that [OF S'] w1 p2 lt by (simp add: S2_def upd_category_def)
qed

text \<open>
  What may happen between two calls: everything but a change of the order, the turns and the specifications; a
  new run of the scheduler starts again at the front of the order list.
\<close>

definition turns_kept :: "ol_txrx_pdev_t \<Rightarrow> ol_txrx_pdev_t \<Rightarrow> bool" where
  "turns_kept P P' \<longleftrightarrow> (\<exists>S S'. scheduler P = Some S \<and> scheduler P' = Some S' \<and> order S' = order S \<and>
     map wrr_count (categories S') = map wrr_count (categories S) \<and> map specs (categories S') = map specs (categories S) \<and>
     (index S' = index S \<or> index S' = 0))"

lemma turns_kept_waiting:
  assumes "turns_kept P P'" and "scheduler P = Some S" and "scheduler P' = Some S'" and "c < length (categories S)"
    and "index S \<le> pos (order S) c"
  shows "waiting c S' = waiting c S" and "index S' \<le> pos (order S') c"
proof -
  have m: "order S' = order S" "map wrr_count (categories S') = map wrr_count (categories S)"
    "map specs (categories S') = map specs (categories S)" "index S' = index S \<or> index S' = 0"
    using assms(1-3) by (auto simp: turns_kept_def)
  then have "c < length (categories S')" using assms(4) by (metis length_map)
  then have "wrr_count (categories S' ! c) = wrr_count (categories S ! c)" "specs (categories S' ! c) = specs (categories S ! c)"
    using m(2,3) assms(4) by (metis nth_map)+
  then show "waiting c S' = waiting c S" using m(1) by (simp add: waiting_def turns_left_def)
  show "index S' \<le> pos (order S') c" using m(1,4) assms(5) by auto
qed

text \<open>
  The setting of the theorem: a sequence of calls of the selection, with anything that keeps the turns in between,
  during which category \<open>c\<close> stays active and the credits suffice for every category.
\<close>

definition calls :: "nat \<Rightarrow> (nat \<Rightarrow> u32) \<Rightarrow> (nat \<Rightarrow> ol_txrx_pdev_t) \<Rightarrow> bool" where
  "calls c credit P \<longleftrightarrow> (\<forall>k. tx_inv (P k) \<and>
     (\<exists>S. scheduler (P k) = Some S \<and> c_active (categories S ! c) \<and>
        (\<forall>cat\<in>set (categories S). credit_threshold (specs cat) \<le> credit k)) \<and>
     (\<exists>P' out used. ol_tx_sched_select_batch_wrr_adv (credit k) (P k) = Some (P', out, used) \<and> turns_kept P' (P (Suc k))))"

lemma waiting_decreases:
  assumes calls: "calls c credit P" and c: "c < OL_TX_SCHED_WRR_ADV_NUM_CATEGORIES" and S0: "scheduler (P 0) = Some S0" "index S0 = 0"
    and ns: "\<forall>k<n. \<not> serves c (credit k) (P k)"
  shows "\<exists>S. scheduler (P n) = Some S \<and> waiting c S + n \<le> waiting c S0 \<and> index S \<le> pos (order S) c"
  using ns
proof (induction n)
  case 0
  then show ?case using S0 by simp
next
  case (Suc n)
  then obtain S where S: "scheduler (P n) = Some S" "waiting c S + n \<le> waiting c S0" "index S \<le> pos (order S) c" by auto
  obtain P' out used where call: "ol_tx_sched_select_batch_wrr_adv (credit n) (P n) = Some (P', out, used)"
    and kept: "turns_kept P' (P (Suc n))" and inv: "tx_inv (P n)" and inv': "tx_inv (P (Suc n))"
    and act: "c_active (categories S ! c)" and cr: "\<forall>cat\<in>set (categories S). credit_threshold (specs cat) \<le> credit n"
    using calls S(1) unfolding calls_def by (metis option.inject)
  obtain S' where S': "scheduler P' = Some S'" "waiting c S' < waiting c S" "index S' \<le> pos (order S') c"
    using select_batch_progress [OF inv S(1) c act S(3) cr call] Suc.prems by blast
  obtain S2 where S2: "scheduler (P (Suc n)) = Some S2" and ok2: "sched_ok (tx_queues (P (Suc n))) (tid_to_ac (P (Suc n))) S2"
    using tx_inv_scheduler [OF inv'] .
  have "length (categories S') = length (categories S2)"
    using kept S'(1) S2 unfolding turns_kept_def by (metis length_map option.inject)
  then have "c < length (categories S')" using ok2 c by (simp add: sched_ok_def order_ok_def)
  from turns_kept_waiting [OF kept S'(1) S2 this S'(3)] show ?case using S'(2) S(2) S2 by auto
qed

lemma served_in_time:
  assumes "calls c credit P" and "c < OL_TX_SCHED_WRR_ADV_NUM_CATEGORIES" and "scheduler (P 0) = Some S0" and "index S0 = 0"
  shows "\<exists>k < OL_TX_SCHED_WRR_ADV_NUM_CATEGORIES * (turns_left c S0 + 1). serves c (credit k) (P k)"
proof (rule ccontr)
  assume "\<not> ?thesis"
  then have "\<exists>S. scheduler (P (OL_TX_SCHED_WRR_ADV_NUM_CATEGORIES * (turns_left c S0 + 1))) = Some S \<and>
      waiting c S + OL_TX_SCHED_WRR_ADV_NUM_CATEGORIES * (turns_left c S0 + 1) \<le> waiting c S0"
    using waiting_decreases [OF assms, of "OL_TX_SCHED_WRR_ADV_NUM_CATEGORIES * (turns_left c S0 + 1)"] by blast
  moreover have "tx_inv (P 0)" using assms(1) by (simp add: calls_def)
  then have "order_ok S0" using assms(3) by (auto simp: tx_inv_def sched_ok_def)
  then have "waiting c S0 < OL_TX_SCHED_WRR_ADV_NUM_CATEGORIES * (turns_left c S0 + 1)"
    using order_ok_pos [of S0 c] assms(2) by (simp add: waiting_def)
  ultimately show False by auto
qed

end
