(* ===== verification/Tx_Correct.thy ===== *)
theory Tx_Correct
  imports Tx_Seq Tx_Wait
begin

text \<open>
  The properties of the transmit queues and their scheduler: consistency under every sequence of operations, the
  order of the frames and the credits of a scheduling run, the time a category waits, and what happens when the
  frames of a paused queue are freed.
\<close>

section \<open>The initial device\<close>

text \<open>The table \<^verbatim>\<open>tid_to_ac\<close> that \<^verbatim>\<open>ol_txrx_pdev_attach\<close> fills.\<close>

definition tid_to_ac_init :: "nat list" where
  "tid_to_ac_init = map TXRX_TID_TO_WMM_AC [0..<OL_TX_NUM_QOS_TIDS] @ [4, 5, 6, 7]"

text \<open>A queue as \<^verbatim>\<open>ol_txrx_vdev_attach\<close> and \<^verbatim>\<open>ol_txrx_peer_attach\<close> initialise it, outside every group.\<close>

definition fresh_queue :: ol_tx_frms_queue_t where
  "fresh_queue = \<lparr>paused_count_total = 0, q_frms = 0, q_bytes = 0, q_head = [], q_flag = ol_tx_queue_empty,
     group_ptrs = [None]\<rparr>"

definition fresh_pdev :: "ol_txrx_pdev_t \<Rightarrow> bool" where
  "fresh_pdev P \<longleftrightarrow> tid_to_ac P = tid_to_ac_init \<and> (\<forall>r. tx_queues P r = fresh_queue)"

lemma attach_ready:
  assumes "fresh_pdev P"
  shows "tx_ready (ol_tx_sched_attach True P)"
proof -
  have ac: "ac_ok tid_to_ac_init" by code_simp
  have q: "queue_ok n fresh_queue" for n by (simp add: queue_ok_def fresh_queue_def OL_TX_MAX_GROUPS_PER_QUEUE_def)
  obtain S where S: "ol_tx_sched_init_wrr_adv True = Some S" by (simp add: ol_tx_sched_init_wrr_adv_def)
  have len: "length (categories S) = OL_TX_SCHED_WRR_ADV_NUM_CATEGORIES" and ord: "order S = [0..<OL_TX_SCHED_WRR_ADV_NUM_CATEGORIES]"
    and cats: "list_all (\<lambda>c. c_head c = [] \<and> c_frms c = 0 \<and> c_bytes c = 0 \<and> \<not> c_active c) (categories S)"
    using S by (auto simp: ol_tx_sched_init_wrr_adv_def wrr_adv_cfg_specs_def OL_TX_SCHED_WRR_ADV_NUM_CATEGORIES_def)
  have "category_ok (tx_queues P) tid_to_ac_init c (categories S ! c)" if "c < OL_TX_SCHED_WRR_ADV_NUM_CATEGORIES" for c
    using cats assms that len
    by (auto simp: category_ok_def lists_active_def list_all_length fresh_pdev_def fresh_queue_def)
  then have "sched_ok (tx_queues P) tid_to_ac_init S"
    using len ord by (auto simp: sched_ok_def order_ok_def)
  then show ?thesis using assms ac q S
    by (auto simp: tx_ready_def tx_inv_def disjoint_queues_def ol_tx_sched_attach_def fresh_pdev_def fresh_queue_def)
qed

text \<open>
  An example: an access point with one station, which is peer 1 and authenticated; peer 2 stands for the access point
  itself. The table has eight bins.
\<close>

definition sample_peer :: "mac \<Rightarrow> u16 \<Rightarrow> tx_peer_t" where
  "sample_peer m n = \<lparr>peer_vdev = 0, ref_cnt = 1, delete_in_progress = False, peer_state = ol_txrx_peer_state_auth,
     peer_ids = n # replicate 7 HTT_INVALID_PEER, peer_local_id = n, peer_mac = m, sec_mcast = htt_sec_type_aes_ccmp,
     sec_ucast = htt_sec_type_aes_ccmp, bss_peer = False, peer_valid = True, qos_capable = True, uapsd_mask = 0\<rparr>"

definition sample_peers :: peer_db where
  "sample_peers = \<lparr>peer_objs = [1 \<mapsto> sample_peer [2, 0, 0, 0, 0, 5] 0, 2 \<mapsto> sample_peer [2, 0, 0, 0, 0, 1] 1],
     max_peer_id = 3, hash_bins = [[], [], [2, 1], [], [], [], [], []], hash_mask = 7, hash_idx_bits = 3,
     peer_id_to_obj_map = [Some 1, Some 2, None, None],
     lid_pool = map of_nat [1..<34] @ [33], lid_freelist = 2, lid_map = Some 1 # Some 2 # replicate 31 None\<rparr>"

definition sample_vdev :: ol_txrx_vdev_t where
  "sample_vdev = \<lparr>vdev_id = 0, peer_list = [1], hl_paused_reason = 0, opmode = wlan_op_mode_ap,
     vdev_mac_addr = [2, 0, 0, 0, 0, 1], last_real_peer = None, hlTdlsFlag = False, hl_tdls_ap_mac_addr = replicate 6 0,
     wait_on_peer_id = OL_TXRX_INVALID_LOCAL_PEER_ID\<rparr>"

definition sample_pdev :: "u32 \<Rightarrow> ol_txrx_pdev_t" where
  "sample_pdev credit =
    \<lparr>tx_queues = \<lambda>_. fresh_queue, scheduler = None, last_used_txq = None, tx_sched_status = ol_tx_scheduler_idle,
     tid_to_ac = tid_to_ac_init, target_tx_credit = credit,
     txq_grps = [\<lparr>grp_credit = 0, membership = 0\<rparr>, \<lparr>grp_credit = 0, membership = 0\<rparr>],
     rsrc_cnt = 100, rsrc_threshold_lo = 10, rsrc_threshold_hi = 20, desc_pool_size = 100,
     vdev_list = [sample_vdev], tx_throttle_is_paused = False,
     desc_mem = \<lambda>i. \<lparr>desc_id = i, netbuf_len = 0, desc_vdev = 0, pkt_type = 0\<rparr>, desc_ref = \<lambda>_. 0, desc_status = \<lambda>_. 0,
     desc_owner = \<lambda>_. None, desc_next = \<lambda>_. None, freelist = None, num_free = 0,
     frame_format = wlan_frm_fmt_802_3, peer_tab = sample_peers, downloaded = [], freed = []\<rparr>"

definition sample_env :: tx_env where
  "sample_env = \<lparr>rejects = \<lambda>_. False, no_id_storage = \<lambda>_. False\<rparr>"

definition frame_a :: ol_tx_desc_t where
  "frame_a = \<lparr>desc_id = 1, netbuf_len = 100, desc_vdev = 0, pkt_type = 0\<rparr>"

definition frame_b :: ol_tx_desc_t where
  "frame_b = \<lparr>desc_id = 2, netbuf_len = 200, desc_vdev = 0, pkt_type = 0\<rparr>"

lemma sample_fresh: "fresh_pdev (sample_pdev credit)"
  by (simp add: fresh_pdev_def sample_pdev_def)

lemma sample_enqueue:
  assumes "r = PeerTxq 1 t" and "t < OL_TX_NUM_TIDS"
  obtains P1 where "tx_run H (ol_tx_sched_attach True (sample_pdev credit)) [Enqueue r frame_a] P1" "tx_ready P1"
proof -
  let ?P = "ol_tx_sched_attach True (sample_pdev credit)"
  have may: "tx_may (Enqueue r frame_a) ?P"
    using assms by (simp add: ol_tx_sched_attach_def sample_pdev_def fresh_queue_def)
  obtain P1 where "tx_exec H (Enqueue r frame_a) ?P = Some P1" "tx_ready P1"
    using tx_exec_ok [OF attach_ready [OF sample_fresh] may] by blast
  then show ?thesis using may by (intro that [of P1]) (auto intro: tx_run.intros)
qed

section \<open>Consistency\<close>

lemma category_counts_frames:
  assumes "tx_inv P" and "category_ok (tx_queues P) (tid_to_ac P) c cat"
  shows "c_frms cat = (\<Sum>r\<leftarrow>c_head cat. int (length (q_head (tx_queues P r))))"
proof -
  have "uint (q_frms (tx_queues P r)) = int (length (q_head (tx_queues P r)))" if "r \<in> set (c_head cat)" for r
    using tx_inv_queue [OF assms(1) listed_nonempty(2) [OF assms(1,2) that]] by (metis queue_ok_def uint_nat)
  then show ?thesis using assms(2) unfolding category_ok_def frms_sum_def by (metis (no_types, lifting) map_eq_conv)
qed

text \<open>
  C22: After every sequence of operations - queueing frames, scheduling runs, new credits, pausing, unpausing, discarding,
  flushing - from the attached device in which each operation met its condition (\<open>tx_may\<close>), the scheduler lists each active
  queue exactly once, under its category, and no other queue; a category is active exactly when it has such queues; its
  counter is the number of frames in them; the counter of each queue is the number of its frames, and a queue is active or
  empty according to its frames unless it is paused. And every further operation that meets its condition returns. The
  conditions are not checked by the code: a queued frame is new and its queue has fewer than 65535 frames; a virtual device
  that is paused has each peer once in its list, and no 8-bit counter of pauses is at its limit; and a virtual device is
  flushed only when its own queues are empty and not paused and the paused queues of its peers hold no frames. The
  condition on flushing cannot be dropped: flushing a paused queue with frames, which the driver does before it unpauses
  (wma.c:2199), makes the scheduler count a later frame twice (\<open>flush_paused_counts_twice\<close>, ol_tx_queue.c:345), and
  flushing an active queue of a virtual device changes the counts of a wrong category (ol_tx_queue.c:113).
\<close>

theorem tx_queues_consistent:
  assumes "fresh_pdev P" and "tx_run H (ol_tx_sched_attach True P) ops P'"
  shows "(\<exists>S. scheduler P' = Some S \<and>
      (\<forall>c<OL_TX_SCHED_WRR_ADV_NUM_CATEGORIES.
         distinct (c_head (categories S ! c)) \<and>
         set (c_head (categories S ! c)) =
           {r. txq_valid r \<and> q_flag (tx_queues P' r) = ol_tx_queue_active \<and> tid_to_ac P' ! ref_tid r = c} \<and>
         (c_active (categories S ! c) \<longleftrightarrow> c_head (categories S ! c) \<noteq> []) \<and>
         c_frms (categories S ! c) = (\<Sum>r\<leftarrow>c_head (categories S ! c). int (length (q_head (tx_queues P' r)))))) \<and>
    (\<forall>r. txq_valid r \<longrightarrow> unat (q_frms (tx_queues P' r)) = length (q_head (tx_queues P' r)) \<and>
       q_flag (tx_queues P' r) =
         (if paused_count_total (tx_queues P' r) \<noteq> 0 then ol_tx_queue_paused
          else if q_head (tx_queues P' r) = [] then ol_tx_queue_empty else ol_tx_queue_active)) \<and>
    (\<forall>op. tx_may op P' \<longrightarrow> (\<exists>P''. tx_exec H op P' = Some P''))"
proof (intro conjI allI impI)
  have rdy: "tx_ready P'" using tx_run_ready [OF assms(2) attach_ready [OF assms(1)]] .
  then have inv: "tx_inv P'" by (simp add: tx_ready_def)
  obtain S where S: "scheduler P' = Some S" and sok: "sched_ok (tx_queues P') (tid_to_ac P') S"
    using tx_inv_scheduler [OF inv] .
  have frms: "c_frms (categories S ! c) = (\<Sum>r\<leftarrow>c_head (categories S ! c). int (length (q_head (tx_queues P' r))))"
    if "c < OL_TX_SCHED_WRR_ADV_NUM_CATEGORIES" for c
    by (rule category_counts_frames [OF inv, of c]) (use sok that in \<open>simp add: sched_ok_def\<close>)
  show "\<exists>S. scheduler P' = Some S \<and>
      (\<forall>c<OL_TX_SCHED_WRR_ADV_NUM_CATEGORIES.
         distinct (c_head (categories S ! c)) \<and>
         set (c_head (categories S ! c)) =
           {r. txq_valid r \<and> q_flag (tx_queues P' r) = ol_tx_queue_active \<and> tid_to_ac P' ! ref_tid r = c} \<and>
         (c_active (categories S ! c) \<longleftrightarrow> c_head (categories S ! c) \<noteq> []) \<and>
         c_frms (categories S ! c) = (\<Sum>r\<leftarrow>c_head (categories S ! c). int (length (q_head (tx_queues P' r)))))"
    using S sok frms by (intro exI [of _ S]) (auto simp: sched_ok_def category_ok_def lists_active_def)
  fix r assume v: "txq_valid r"
  show "unat (q_frms (tx_queues P' r)) = length (q_head (tx_queues P' r))"
    using tx_inv_queue [OF inv v] by (simp add: queue_ok_def)
  show "q_flag (tx_queues P' r) =
      (if paused_count_total (tx_queues P' r) \<noteq> 0 then ol_tx_queue_paused
       else if q_head (tx_queues P' r) = [] then ol_tx_queue_empty else ol_tx_queue_active)"
    using tx_inv_queue [OF inv v] by (cases "q_flag (tx_queues P' r)") (auto simp: queue_ok_def)
next
  fix op assume "tx_may op P'"
  then show "\<exists>P''. tx_exec H op P' = Some P''"
    using tx_exec_ok [OF tx_run_ready [OF assms(2) attach_ready [OF assms(1)]]] by blast
qed

theorem tx_queues_consistent_witness:
  "\<exists>P'. tx_run sample_env (ol_tx_sched_attach True (sample_pdev 17)) [Enqueue (PeerTxq 1 0) frame_a] P' \<and>
     unat (q_frms (tx_queues P' (PeerTxq 1 0))) = length (q_head (tx_queues P' (PeerTxq 1 0))) \<and>
     (\<exists>P''. tx_exec sample_env Schedule P' = Some P'')"
proof -
  obtain P1 where run: "tx_run sample_env (ol_tx_sched_attach True (sample_pdev 17)) [Enqueue (PeerTxq 1 0) frame_a] P1"
    by (rule sample_enqueue [of "PeerTxq 1 0" 0 sample_env 17]) (simp_all add: OL_TX_NUM_TIDS_def)
  have "txq_valid (PeerTxq 1 0)" "tx_may Schedule P1" by (simp_all add: OL_TX_NUM_TIDS_def)
  then show ?thesis using tx_queues_consistent [OF sample_fresh run] run by blast
qed

section \<open>A scheduling run\<close>

text \<open>
  C23: A scheduling run on a consistent device returns. The frames it takes leave the queues from their fronts and
  in their order: what a queue had is what it gave followed by what it has left. They are no more than the target
  has credits; each frame the target accepts is downloaded in the order taken and costs one credit; a frame the
  target rejects is freed with an error and costs nothing.
\<close>

theorem tx_sched_run_fifo:
  assumes "tx_inv P" and "disjoint_queues P" and "tx_sched_status P = ol_tx_scheduler_idle"
  shows "\<exists>P' out. ol_tx_sched H P = Some P' \<and> tx_inv P' \<and>
    (\<forall>r. q_head (tx_queues P r) = filter (\<lambda>d. d \<in> set (q_head (tx_queues P r))) out @ q_head (tx_queues P' r)) \<and>
    set out \<subseteq> (\<Union>r. set (q_head (tx_queues P r))) \<and>
    int (length out) \<le> max 0 (sint (target_tx_credit P)) \<and>
    downloaded P' = downloaded P @ filter (\<lambda>d. \<not> rejects H d) out \<and>
    set (freed P') = set (freed P) \<union> {(d, True) | d. d \<in> set out \<and> rejects H d} \<and>
    target_tx_credit P' = target_tx_credit P - of_nat (length (filter (\<lambda>d. \<not> rejects H d) out))"
proof -
  obtain P' out where P': "ol_tx_sched H P = Some P'" "tx_inv P'" "frames_leave P out P'"
    "set out \<subseteq> (\<Union>r. set (q_head (tx_queues P r)))" "int (length out) \<le> max 0 (sint (target_tx_credit P))"
    "downloaded P' = downloaded P @ filter (\<lambda>d. \<not> rejects H d) out"
    "set (freed P') = set (freed P) \<union> (\<lambda>d. (d, True)) ` {d \<in> set out. rejects H d}"
    "target_tx_credit P' = target_tx_credit P - of_nat (length (filter (\<lambda>d. \<not> rejects H d) out))"
    by (rule ol_tx_sched_runs [OF assms, of H]) blast
  moreover have "(\<lambda>d. (d, True)) ` {d \<in> set out. rejects H d} = {(d, True) | d. d \<in> set out \<and> rejects H d}" by auto
  ultimately show ?thesis by (intro exI [of _ P'] exI [of _ out]) (simp add: frames_leave_def)
qed

theorem tx_sched_run_fifo_witness:
  "\<exists>P P' out. tx_run sample_env (ol_tx_sched_attach True (sample_pdev 17)) [Enqueue (PeerTxq 1 0) frame_a] P \<and>
     ol_tx_sched sample_env P = Some P' \<and> downloaded P' = downloaded P @ out \<and>
     q_head (tx_queues P (PeerTxq 1 0)) =
       filter (\<lambda>d. d \<in> set (q_head (tx_queues P (PeerTxq 1 0)))) out @ q_head (tx_queues P' (PeerTxq 1 0))"
proof -
  obtain P where run: "tx_run sample_env (ol_tx_sched_attach True (sample_pdev 17)) [Enqueue (PeerTxq 1 0) frame_a] P"
    and rdy: "tx_ready P"
    by (rule sample_enqueue [of "PeerTxq 1 0" 0 sample_env 17]) (simp_all add: OL_TX_NUM_TIDS_def)
  have h: "tx_inv P" "disjoint_queues P" "tx_sched_status P = ol_tx_scheduler_idle" using rdy by (auto simp: tx_ready_def)
  show ?thesis using tx_sched_run_fifo [OF h, of sample_env] run
    by (auto simp: sample_env_def)
qed

section \<open>Waiting\<close>

text \<open>
  C24: No category starves. Whatever happens between the calls of the selection - frames are queued, queues are
  paused or discarded, a run starts anew - as long as a category stays active and the credits reach the threshold
  of every category, it is served after at most eight calls for each turn it still has to let pass, and one more.
\<close>

theorem wrr_no_starvation:
  assumes "calls c credit P" and "c < OL_TX_SCHED_WRR_ADV_NUM_CATEGORIES" and "scheduler (P 0) = Some S" and "index S = 0"
  shows "\<exists>k < OL_TX_SCHED_WRR_ADV_NUM_CATEGORIES *
      (nat (wrr_skip_weight (specs (categories S ! c)) - 1 - wrr_count (categories S ! c)) + 1).
    serves c (credit k) (P k)"
  using served_in_time [OF assms] by (simp add: turns_left_def)

text \<open>
  An example: the category of management frames to a peer, the last of the order list, is active in every call.
\<close>

definition waiting_pdev :: ol_txrx_pdev_t where
  "waiting_pdev = (let P = ol_tx_sched_attach True (sample_pdev 17) in
     P\<lparr>scheduler := map_option (\<lambda>S. S\<lparr>order := [0, 1, 2, 3, 4, 6, 7, 5]\<rparr>) (scheduler P)\<rparr>)"

lemma waiting_pdev_ready: "tx_ready waiting_pdev"
proof -
  let ?P = "ol_tx_sched_attach True (sample_pdev 17)"
  have rdy: "tx_ready ?P" by (rule attach_ready [OF sample_fresh])
  then have inv: "tx_inv ?P" by (simp add: tx_ready_def)
  obtain S where S: "scheduler ?P = Some S" and sok: "sched_ok (tx_queues ?P) (tid_to_ac ?P) S"
    using tx_inv_scheduler [OF inv] .
  have W: "waiting_pdev = ?P\<lparr>scheduler := Some (S\<lparr>order := [0, 1, 2, 3, 4, 6, 7, 5]\<rparr>)\<rparr>"
    by (simp add: waiting_pdev_def S)
  have "sched_ok (tx_queues ?P) (tid_to_ac ?P) (S\<lparr>order := [0, 1, 2, 3, 4, 6, 7, 5]\<rparr>)"
    using sok by (auto simp: sched_ok_def order_ok_def OL_TX_SCHED_WRR_ADV_NUM_CATEGORIES_def)
  then have "tx_inv waiting_pdev" by (intro tx_inv_scheduler_only [OF inv]) (simp_all add: W)
  then show ?thesis using rdy by (simp add: tx_ready_def W disjoint_queues_def)
qed

lemma waiting_pdev_run:
  "do { P \<leftarrow> tx_exec sample_env (Enqueue (PeerTxq 1 17) frame_a) waiting_pdev;
        S \<leftarrow> scheduler P;
        (P', out, used) \<leftarrow> ol_tx_sched_select_batch_wrr_adv 17 P;
        S' \<leftarrow> scheduler P';
        Some (index S = 0 \<and> c_active (categories S ! 5) \<and>
              list_all (\<lambda>cat. credit_threshold (specs cat) \<le> 17) (categories S) \<and>
              wrr_skip_weight (specs (categories S ! 5)) - 1 - wrr_count (categories S ! 5) = 0 \<and> order S = order S' \<and>
              map wrr_count (categories S) = map wrr_count (categories S') \<and>
              map specs (categories S) = map specs (categories S')) } = Some True"
  by code_simp

theorem wrr_no_starvation_witness:
  "\<exists>P. tx_exec sample_env (Enqueue (PeerTxq 1 17) frame_a) waiting_pdev = Some P \<and> serves 5 17 P"
proof -
  have "tx_may (Enqueue (PeerTxq 1 17) frame_a) waiting_pdev"
    by (simp add: waiting_pdev_def ol_tx_sched_attach_def sample_pdev_def fresh_queue_def OL_TX_NUM_TIDS_def)
  then obtain P where P: "tx_exec sample_env (Enqueue (PeerTxq 1 17) frame_a) waiting_pdev = Some P" and "tx_ready P"
    using tx_exec_ok [OF waiting_pdev_ready] by blast
  then have inv: "tx_inv P" by (simp add: tx_ready_def)
  obtain S P' out used S' where S: "scheduler P = Some S" "ol_tx_sched_select_batch_wrr_adv 17 P = Some (P', out, used)"
    "scheduler P' = Some S'" and S0: "index S = 0" "c_active (categories S ! 5)"
    "\<forall>cat\<in>set (categories S). credit_threshold (specs cat) \<le> 17"
    "nat (wrr_skip_weight (specs (categories S ! 5)) - 1 - wrr_count (categories S ! 5)) = 0"
    "order S = order S'" "map wrr_count (categories S) = map wrr_count (categories S')"
    "map specs (categories S) = map specs (categories S')"
    using waiting_pdev_run unfolding P by (auto simp: bind_eq_Some_conv list_all_iff)
  have "calls 5 (\<lambda>_. 17) (\<lambda>_. P)" using S S0 inv by (auto simp: calls_def turns_kept_def)
  then have "\<exists>k < OL_TX_SCHED_WRR_ADV_NUM_CATEGORIES *
      (nat (wrr_skip_weight (specs (categories S ! 5)) - 1 - wrr_count (categories S ! 5)) + 1). serves 5 17 P"
    by (rule wrr_no_starvation [of 5 "\<lambda>_. 17" "\<lambda>_. P" S])
      (use S(1) S0(1) in \<open>simp_all add: OL_TX_SCHED_WRR_ADV_NUM_CATEGORIES_def\<close>)
  then show ?thesis using P by blast
qed

section \<open>Frames of a paused queue\<close>

text \<open>
  Freeing the frames of a paused queue makes it an unpaused one whose pause is still counted: a frame queued
  then makes the queue active, and the end of the pause counts the frames of the queue a second time. After a
  pause, a flush, a new frame and the end of the pause, as when a virtual device is stopped, the category counts
  two frames where its only queue has one; when that frame is downloaded the category stays active although it
  has no queue, and the scheduler keeps selecting it in vain.
\<close>

fun tx_execs :: "tx_env \<Rightarrow> tx_op list \<Rightarrow> ol_txrx_pdev_t \<Rightarrow> ol_txrx_pdev_t option" where
  "tx_execs H [] P = Some P"
| "tx_execs H (op # ops) P = do { P \<leftarrow> tx_exec H op P; tx_execs H ops P }"

definition category_state :: "nat \<Rightarrow> ol_txrx_pdev_t \<Rightarrow> (int \<times> txq_ref list \<times> bool) option" where
  "category_state c P = map_option (\<lambda>S. (c_frms (categories S ! c), c_head (categories S ! c), c_active (categories S ! c))) (scheduler P)"

definition stop_ops :: "tx_op list" where
  "stop_ops = [Enqueue (PeerTxq 1 0) frame_a, Pause OL_TXQ_PAUSE_REASON_VDEV_STOP 0, Flush 0,
     Enqueue (PeerTxq 1 0) frame_b, Unpause OL_TXQ_PAUSE_REASON_VDEV_STOP 0]"

theorem flush_paused_counts_twice:
  "map_option (\<lambda>P. (category_state 0 P, q_head (tx_queues P (PeerTxq 1 0))))
     (tx_execs sample_env stop_ops (ol_tx_sched_attach True (sample_pdev 0)))
     = Some (Some (2, [PeerTxq 1 0], True), [frame_b]) \<and>
   map_option (\<lambda>P. (category_state 0 P, q_head (tx_queues P (PeerTxq 1 0)), downloaded P))
     (tx_execs sample_env (stop_ops @ [Credits 20]) (ol_tx_sched_attach True (sample_pdev 0)))
     = Some (Some (1, [], True), [], [frame_b])"
  by code_simp

end
