(* ===== verification/Tx_Quiet.thy ===== *)
theory Tx_Quiet
  imports Tx_Moves Tx_Seq
begin

text \<open>
  No operation of the transmit queues puts frames into a queue but the queueing of a frame: an empty queue stays
  empty, and so do the queues of peers that do not exist.
\<close>

definition drains :: "ol_txrx_pdev_t \<Rightarrow> ol_txrx_pdev_t \<Rightarrow> bool" where
  "drains P P' \<longleftrightarrow> (\<forall>r. q_head (tx_queues P r) = [] \<longrightarrow> q_head (tx_queues P' r) = [])"

lemma drains_refl [simp]: "drains P P"
  by (simp add: drains_def)

lemma drains_trans: "drains P P1 \<Longrightarrow> drains P1 P2 \<Longrightarrow> drains P P2"
  by (simp add: drains_def)

lemma drains_queues: "tx_queues P' = tx_queues P \<Longrightarrow> drains P P'"
  by (simp add: drains_def)

lemma drains_same: "same_descs P P' \<Longrightarrow> drains P P'"
  by (simp add: drains_def same_descs_def)

lemma drains_takes: "takes_front r out P P' \<Longrightarrow> drains P P'"
  unfolding drains_def takes_front_def by (metis append_is_Nil_conv)

lemma drains_for_each:
  "for_each is body P = Some P' \<Longrightarrow> (\<And>i P P'. body i P = Some P' \<Longrightarrow> drains P P') \<Longrightarrow> drains P P'"
  by (rule for_each_relates [where R = drains]) (auto intro: drains_trans)

section \<open>Scheduling\<close>

lemma sched_loop_drains:
  "sched_loop acc frms P = Some (P', acc', frms') \<Longrightarrow> drains P P' \<and> frms' = frms + int (length acc') - int (length acc)"
proof (induction acc frms P rule: sched_loop.induct)
  case (1 acc frms P)
  show ?case
  proof (cases "sint (target_tx_credit P) > 0")
    case False
    then show ?thesis using "1.prems" by (simp add: sched_loop.simps [of acc frms P])
  next
    case True
    obtain P1 out num where sel: "ol_tx_sched_select_batch_wrr_adv (target_tx_credit P) P = Some (P1, out, num)"
      using "1.prems"(1) True by (auto simp: sched_loop.simps [of acc frms P] bind_eq_Some_conv)
    define P2 where "P2 = (if sint num > 0 then P1\<lparr>target_tx_credit := target_tx_credit P1 - num\<rparr> else P1)"
    have "drains P P1" using select_batch_takes [OF sel] drains_takes by blast
    then have d2: "drains P P2" by (simp add: drains_def P2_def)
    show ?thesis
    proof (cases "num = 0")
      case z: True
      then show ?thesis using "1.prems"(1) True sel d2
        by (auto simp: sched_loop.simps [of acc frms P] P2_def Let_def)
    next
      case False
      then have "sched_loop (acc @ out) (frms + int (length out)) P2 = Some (P', acc', frms')"
        using "1.prems"(1) True sel by (simp add: sched_loop.simps [of acc frms P] P2_def Let_def)
      from "1.IH" [OF True sel refl refl P2_def False this] d2 show ?thesis using drains_trans by simp
    qed
  qed
qed

lemma sched_drains:
  assumes "ol_tx_sched H P = Some P'"
  shows "drains P P'"
proof (cases "tx_sched_status P = ol_tx_scheduler_idle")
  case False
  then show ?thesis using assms by (simp add: ol_tx_sched_def)
next
  case True
  then obtain P1 P2 P3 ds frms where i: "ol_tx_sched_select_init_wrr_adv (P\<lparr>tx_sched_status := ol_tx_scheduler_running\<rparr>) = Some P1"
    and l: "sched_loop [] 0 P1 = Some (P2, ds, frms)" and d: "ol_tx_sched_dispatch H ds frms P2 = Some P3"
    and P': "P' = P3\<lparr>tx_sched_status := ol_tx_scheduler_idle\<rparr>"
    using assms by (auto simp: ol_tx_sched_def bind_eq_Some_conv)
  have "tx_queues P1 = tx_queues P" using i by (auto simp: ol_tx_sched_select_init_wrr_adv_def bind_eq_Some_conv)
  moreover have "tx_queues P' = tx_queues P2"
    using ol_tx_sched_dispatch_downloads [of H ds P2] d sched_loop_drains [OF l] by (auto simp: P' downloads_def)
  ultimately show ?thesis using sched_loop_drains [OF l] by (simp add: drains_def)
qed

section \<open>The other operations\<close>

lemma queue_free_drains:
  assumes "ol_tx_queue_free r tid P = Some P'"
  shows "drains P P'"
proof -
  obtain P1 P2 ds where n: "ol_tx_sched_notify r (OL_TX_DELETE_QUEUE tid) P = Some P1"
    and P': "P' = fold (ol_tx_desc_frame_free_nonstd False) ds P2"
    and q: "\<And>r'. q_head (tx_queues P2 r') = (if r' = r then [] else q_head (tx_queues P1 r'))"
    using assms by (auto simp: ol_tx_queue_free_def bind_eq_Some_conv Let_def upd_txq_def)
  show ?thesis using notify_same [OF n] q fold_frame_free [of False ds P2] by (simp add: drains_def P')
qed

lemma flush_peer_drains: "flush_peer p P = Some P' \<Longrightarrow> drains P P'"
  unfolding flush_peer_def by (erule drains_for_each) (auto dest: queue_free_drains split: if_splits)

lemma discard_loop_drains: "discard_loop num force ds act P = Some (P', ds', num', act') \<Longrightarrow> drains P P'"
proof (induction num force ds act P rule: discard_loop.induct)
  case (1 num force ds act P)
  then show ?case
    by (subst (asm) (2) discard_loop.simps)
      (fastforce simp: bind_eq_Some_conv Let_def dest: discard_select_takes drains_takes intro: drains_trans split: if_splits)
qed

lemma discard_drains: "ol_tx_queue_discard False P = Some (P1, ds) \<Longrightarrow> drains P (ol_tx_desc_frame_list_free e ds P1)"
  by (auto simp: ol_tx_queue_discard_def bind_eq_Some_conv Let_def drains_def dest!: discard_loop_drains)

lemma tid_unpause_base_drains:
  assumes "ol_txrx_peer_tid_unpause_base H peer tid P = Some P'"
  shows "drains P P'"
proof -
  show ?thesis using assms
    by (auto simp: ol_txrx_peer_tid_unpause_base_def Let_def bind_eq_Some_conv drains_def split: if_splits
        dest!: notify_same sched_drains)
qed

lemma tid_unpause_drains: "ol_txrx_peer_tid_unpause H peer tid P = Some P' \<Longrightarrow> drains P P'"
  by (auto simp: ol_txrx_peer_tid_unpause_def dest: drains_for_each [OF _ tid_unpause_base_drains] tid_unpause_base_drains split: if_splits)

lemma vdev_pause_drains:
  assumes "ol_txrx_vdev_pause reason v P = Some P'"
  shows "drains P P'"
proof -
  have peer: "drains Q Q'" if "ol_txrx_peer_pause_base peer Q = Some Q'" for peer Q Q'
    using that unfolding ol_txrx_peer_pause_base_def by (rule drains_for_each) (rule drains_same [OF peer_tid_pause_same])
  define Q where "Q = upd_vdev v (\<lambda>vdev. vdev\<lparr>hl_paused_reason := hl_paused_reason vdev OR reason\<rparr>) P"
  have "drains P Q" by (simp add: Q_def upd_vdev_def drains_def)
  moreover obtain ps where "P' = P \<or> for_each ps ol_txrx_peer_pause_base Q = Some P'"
    using assms by (auto simp: ol_txrx_vdev_pause_def Q_def bind_eq_Some_conv split: if_splits)
  moreover have "drains Q P'" if "for_each ps ol_txrx_peer_pause_base Q = Some P'"
    using that by (rule drains_for_each) (rule peer)
  ultimately show ?thesis using drains_trans by auto
qed

lemma vdev_unpause_drains:
  assumes "ol_txrx_vdev_unpause H reason v P = Some P'"
  shows "drains P P'"
proof -
  have peer: "drains Q Q'" if "for_each [0..<OL_TX_NUM_TIDS] (ol_txrx_peer_tid_unpause_base H peer) Q = Some Q'" for peer Q Q'
    using that by (rule drains_for_each) (rule tid_unpause_base_drains)
  define Q where "Q = upd_vdev v (\<lambda>vdev. vdev\<lparr>hl_paused_reason := hl_paused_reason vdev AND NOT reason\<rparr>) P"
  have "drains P Q" by (simp add: Q_def upd_vdev_def drains_def)
  moreover obtain ps where
    "P' = P \<or> for_each ps (\<lambda>peer. for_each [0..<OL_TX_NUM_TIDS] (ol_txrx_peer_tid_unpause_base H peer)) Q = Some P'"
    using assms by (auto simp: ol_txrx_vdev_unpause_def Q_def bind_eq_Some_conv split: if_splits)
  moreover have "drains Q P'"
    if "for_each ps (\<lambda>peer. for_each [0..<OL_TX_NUM_TIDS] (ol_txrx_peer_tid_unpause_base H peer)) Q = Some P'"
    using that by (rule drains_for_each) (rule peer)
  ultimately show ?thesis using drains_trans by auto
qed

lemma some_emptied_drains: "some_emptied P P' \<Longrightarrow> drains P P'"
  unfolding some_emptied_def drains_def by metis

lemma tx_exec_drains:
  assumes "tx_exec H op P = Some P'" and "tx_ready P" and "tx_may op P" and "\<And>r d. op \<noteq> Enqueue r d"
  shows "drains P P'"
proof (cases op)
  case (Enqueue r d)
  then show ?thesis using assms(4) by blast
next
  case (Credits n)
  have "drains P (ol_tx_target_credit_update n P)" by (simp add: ol_tx_target_credit_update_def drains_def)
  then show ?thesis using assms(1) Credits sched_drains drains_trans by (auto simp: ol_tx_credit_completion_handler_def)
next
  case (Flush v)
  then show ?thesis using assms vdev_flush_ok [of P v] some_emptied_drains by (auto simp: ol_txrx_vdev_flush_def)
next
  case Discard
  then show ?thesis using assms(1) discard_drains by (auto simp: bind_eq_Some_conv)
qed (use assms(1) in \<open>auto dest: sched_drains vdev_pause_drains vdev_unpause_drains tid_unpause_drains\<close>)

section \<open>The queues of peers that do not exist\<close>

definition only_live :: "(nat \<Rightarrow> 'p option) \<Rightarrow> ol_txrx_pdev_t \<Rightarrow> ol_txrx_pdev_t \<Rightarrow> bool" where
  "only_live objs P P' \<longleftrightarrow> (\<forall>h t. objs h = None \<longrightarrow> q_head (tx_queues P (PeerTxq h t)) = [] \<longrightarrow> q_head (tx_queues P' (PeerTxq h t)) = [])"

lemma only_live_trans: "only_live objs P P1 \<Longrightarrow> only_live objs P1 P2 \<Longrightarrow> only_live objs P P2"
  by (simp add: only_live_def)

lemma drains_live: "drains P P' \<Longrightarrow> only_live objs P P'"
  by (simp add: drains_def only_live_def)

lemma queues_live: "tx_queues P' = tx_queues P \<Longrightarrow> only_live objs P P'"
  by (simp add: only_live_def)

lemma enqueue_live:
  assumes "ol_tx_enqueue r d tid P = Some P'" and "\<And>h t. r = PeerTxq h t \<Longrightarrow> objs h \<noteq> None"
  shows "only_live objs P P'"
proof -
  obtain P1 where room: "(if sint (rsrc_cnt P) \<le> uint (rsrc_threshold_lo P) then do {
              (P, tx_descs) \<leftarrow> ol_tx_queue_discard False P;
              Some (ol_tx_desc_frame_list_free True tx_descs P) }
           else Some P) = Some P1"
    and rest: "(let P = upd_txq r (\<lambda>q. q\<lparr>q_head := q_head q @ [d], q_frms := q_frms q + 1, q_bytes := q_bytes q + netbuf_len d\<rparr>) P1
      in if q_flag (tx_queues P r) \<noteq> ol_tx_queue_paused then do {
       P \<leftarrow> ol_tx_sched_notify r (OL_TX_ENQUEUE_FRAME tid (netbuf_len d)) P;
       Some (upd_txq r (\<lambda>q. q\<lparr>q_flag := ol_tx_queue_active\<rparr>) P) }
     else Some P) = Some P'"
    using assms(1) unfolding ol_tx_enqueue_def bind_eq_Some_conv by auto
  have "drains P P1" using room discard_drains by (auto simp: bind_eq_Some_conv split: if_splits)
  moreover have "q_head (tx_queues P' r') = q_head (tx_queues P1 r')" if "r' \<noteq> r" for r'
    using rest that by (auto simp: Let_def bind_eq_Some_conv dest!: notify_same split: if_splits)
  ultimately show ?thesis using assms(2) unfolding only_live_def drains_def by metis
qed

end
