(* ===== verification/Tx_Complete.thy ===== *)
theory Tx_Complete
  imports Tx_Frame Tx_Quiet Peer_Class
begin

text \<open>
  The whole life of transmit descriptors: from the free list over the queues to the target and back. Every operation of
  the transmit path returns and keeps each descriptor in exactly one place.
\<close>

section \<open>Sending\<close>

definition path_ok :: "ol_tx_desc_t list \<Rightarrow> ol_txrx_pdev_t \<Rightarrow> bool" where
  "path_ok T P \<longleftrightarrow> tx_ready P \<and> descs_ok T P"

lemma tx_ready_pool:
  "tx_ready (P\<lparr>rsrc_cnt := a\<rparr>) = tx_ready P" "tx_ready (P\<lparr>desc_mem := b\<rparr>) = tx_ready P"
  "tx_ready (P\<lparr>desc_ref := c\<rparr>) = tx_ready P" "tx_ready (P\<lparr>desc_status := e\<rparr>) = tx_ready P"
  "tx_ready (P\<lparr>target_tx_credit := f\<rparr>) = tx_ready P"
  "tx_ready (ol_tx_desc_frame_free_nonstd g d P) = tx_ready P"
  "tx_ready (ol_tx_desc_frame_list_free g ds P) = tx_ready P"
  "length gs = length (txq_grps P) \<Longrightarrow> tx_ready (P\<lparr>txq_grps := gs\<rparr>) = tx_ready P"
  by (rule tx_ready_cong; simp)+

lemma sched_path_ok:
  assumes "path_ok T P"
  shows "\<exists>P'. ol_tx_sched H P = Some P' \<and> path_ok T P'"
proof -
  obtain P' where P': "ol_tx_sched H P = Some P'" "tx_ready P'" using ol_tx_sched_ready assms by (auto simp: path_ok_def)
  then show ?thesis using ol_tx_sched_keeps [OF P'(1)] assms by (auto simp: path_ok_def keeps_descs_def)
qed

lemma desc_hl_path_ok:
  assumes "path_ok T P" and "ol_tx_desc_hl vdev len P = (P', r)"
  shows "case r of None \<Rightarrow> P' = P | Some d \<Rightarrow> path_ok (T @ [d]) P'"
proof -
  have "tx_ready P'" using assms by (subst tx_ready_cong [of _ P])
    (auto simp: path_ok_def ol_tx_desc_hl_def ol_tx_desc_alloc_hl_def ol_tx_desc_alloc_def Let_def split: option.splits)
  moreover have "r = None \<Longrightarrow> P' = P" using assms(2)
    by (auto simp: ol_tx_desc_hl_def ol_tx_desc_alloc_hl_def ol_tx_desc_alloc_def Let_def split: option.splits)
  ultimately show ?thesis using descs_ok_alloc [of T P vdev len P'] assms by (auto simp: path_ok_def split: option.splits)
qed

lemma set_desc_path_ok:
  assumes "path_ok (T @ [d]) P" and "set_desc f d P = (P', d')" and "\<And>d. desc_id (f d) = desc_id d"
  shows "path_ok (T @ [d']) P'"
  using assms descs_ok_set_desc [of T d P f P' d'] by (auto simp: path_ok_def set_desc_def Let_def tx_ready_pool)

lemma spec_pkt_type_path_ok:
  assumes "path_ok (T @ [d]) P" and "spec_pkt_type tx_spec d P = (P', d')"
  shows "path_ok (T @ [d']) P'"
  using assms set_desc_path_ok [OF assms(1)] by (auto simp: spec_pkt_type_def split: if_splits)

text \<open>The table of peers is another part of the device.\<close>

lemma path_ok_peers [simp]: "path_ok T (P\<lparr>peer_tab := D\<rparr>) \<longleftrightarrow> path_ok T P"
proof -
  have "same_descs (P\<lparr>peer_tab := D\<rparr>) P" "same_descs P (P\<lparr>peer_tab := D\<rparr>)" by (simp_all add: same_descs_def)
  then have "descs_ok T (P\<lparr>peer_tab := D\<rparr>) \<longleftrightarrow> descs_ok T P" using descs_ok_same by blast
  moreover have "tx_ready (P\<lparr>peer_tab := D\<rparr>) = tx_ready P" by (rule tx_ready_cong) simp_all
  ultimately show ?thesis by (simp add: path_ok_def)
qed

lemma drop_frame_path_ok: "path_ok (T @ [d]) P \<Longrightarrow> path_ok T (drop_frame d P)"
  using frame_free_hand [of T d "[]" "P\<lparr>rsrc_cnt := rsrc_cnt P + 1\<rparr>" True] descs_ok_same [OF same_descs_freed(3), of "T @ [d]" P]
  by (auto simp: path_ok_def drop_frame_def tx_ready_pool)

text \<open>A descriptor in hand is in no queue, and no queue has all descriptors.\<close>

lemma in_hand_fresh:
  assumes "descs_ok (T1 @ d # T2) P"
  shows "d \<notin> set (q_head (tx_queues P r))" and "length (q_head (tx_queues P r)) < 65535"
proof -
  obtain fl pl where ow: "owned fl pl (T1 @ d # T2) P" using assms by (auto simp: descs_ok_def)
  note o = owned_facts [OF ow] and h = in_hand_id [OF ow]
  have nq: "desc_id d \<notin> queued_ids P r" using o(5) [of "desc_id d" r] h(2) by simp
  then show "d \<notin> set (q_head (tx_queues P r))" by (auto simp: queued_ids_def)
  have "distinct (desc_id d # map desc_id (q_head (tx_queues P r)))" using o(3) [of r] nq by (simp add: queued_ids_def)
  moreover have "\<forall>i\<in>set (desc_id d # map desc_id (q_head (tx_queues P r))). i < desc_pool_size P"
    using o(5) [of _ r] h(1) by (auto simp: queued_ids_def)
  ultimately have "length (desc_id d # map desc_id (q_head (tx_queues P r))) \<le> unat (desc_pool_size P)"
    by (rule distinct_u16_bound)
  then show "length (q_head (tx_queues P r)) < 65535" using unat_u16 [of "desc_pool_size P"] by simp
qed

lemma enqueue_path_ok:
  assumes "path_ok (T @ [d]) P" and "txq_valid r"
  shows "\<exists>P'. ol_tx_enqueue r d (ref_tid r) P = Some P' \<and> path_ok T P'"
proof -
  have rdy: "tx_ready P" and d: "descs_ok (T @ [d]) P" using assms(1) by (auto simp: path_ok_def)
  have "unat (q_frms (tx_queues P r)) = length (q_head (tx_queues P r))"
    using tx_inv_queue [of P r] rdy assms(2) by (simp add: tx_ready_def queue_ok_def)
  then have lim: "unat (q_frms (tx_queues P r)) < 65535" using in_hand_fresh(2) [OF d] by simp
  obtain P' where P': "ol_tx_enqueue r d (ref_tid r) P = Some P'" "tx_ready P'"
    using ol_tx_enqueue_ok [OF rdy assms(2) lim in_hand_fresh(1) [OF d]] by blast
  then show ?thesis using enqueue_puts [OF P'(1), of T "[]"] d by (auto simp: path_ok_def)
qed

section \<open>Frames from the network stack\<close>

definition peers_ready :: "ol_txrx_pdev_t \<Rightarrow> bool" where
  "peers_ready P \<longleftrightarrow> peers_ok (peer_tab P) \<and> frame_format P \<noteq> wlan_frm_fmt_unknown"

lemma peers_ready_same: "peers_of P' = peers_of P \<Longrightarrow> peers_ready P' \<longleftrightarrow> peers_ready P"
  by (simp add: peers_ready_def peers_of_def)

lemma sender_ok_same: "peers_of P' = peers_of P \<Longrightarrow> sender_ok vdev P' \<longleftrightarrow> sender_ok vdev P"
  by (simp add: sender_ok_def peers_of_def)

text \<open>The bytes of a frame that are classified: those behind the control header, in OCB mode.\<close>

definition frame_data :: "ol_txrx_vdev_t \<Rightarrow> tx_msdu \<Rightarrow> u8 list option" where
  "frame_data vdev m =
     (if opmode vdev = wlan_op_mode_ocb
      then case parse_ocb_tx_header (msdu_data m) of Some (True, data) \<Rightarrow> Some data | _ \<Rightarrow> None
      else Some (msdu_data m))"

definition frame_may :: "ol_txrx_vdev_t \<Rightarrow> tx_msdu \<Rightarrow> bool" where
  "frame_may vdev m \<longleftrightarrow> long_enough (msdu_data m) \<and> (case frame_data vdev m of None \<Rightarrow> False | Some data \<Rightarrow> long_enough data)"

text \<open>The peers that the device has suffice to classify the frame.\<close>

definition classified :: "ol_txrx_vdev_t \<Rightarrow> tx_msdu \<Rightarrow> ol_txrx_pdev_t \<Rightarrow> bool" where
  "classified vdev m P \<longleftrightarrow> (\<forall>data mi Q. frame_data vdev m = Some data \<longrightarrow> ext_tid mi = msdu_tid m \<longrightarrow> peers_of Q = peers_of P \<longrightarrow>
     (\<exists>txq mi' Q'. ol_tx_classify vdev data mi Q = Some (Some txq, mi', Q')))"

lemma classified_same: "peers_of P' = peers_of P \<Longrightarrow> classified vdev m P' \<longleftrightarrow> classified vdev m P"
  by (simp add: classified_def)

lemma hl_ocb_ok:
  assumes "path_ok (T @ [d]) P" and "frame_data vdev m = Some data"
  shows "\<exists>d' P'. hl_ocb vdev (msdu_data m) d P = Some (True, data, d', P') \<and> path_ok (T @ [d']) P' \<and> peers_of P' = peers_of P \<and>
    tx_queues P' = tx_queues P"
proof (cases "opmode vdev = wlan_op_mode_ocb")
  case True
  then have "parse_ocb_tx_header (msdu_data m) = Some (True, data)"
    using assms(2) by (auto simp: frame_data_def split: option.splits prod.splits bool.splits)
  moreover obtain P' d' where sd: "set_desc (\<lambda>d. d\<lparr>netbuf_len := of_nat (length data)\<rparr>) d P = (P', d')" by (meson surj_pair)
  moreover have "path_ok (T @ [d']) P'" by (rule set_desc_path_ok [OF assms(1) sd]) simp
  moreover have "peers_of P' = peers_of P" "tx_queues P' = tx_queues P" using sd by (auto simp: set_desc_def Let_def)
  ultimately show ?thesis using True by (simp add: hl_ocb_def)
qed (use assms in \<open>simp add: hl_ocb_def frame_data_def\<close>)

lemma desc_hl_peers: "ol_tx_desc_hl vdev len P = (P', r) \<Longrightarrow> peers_of P' = peers_of P"
  by (auto simp: ol_tx_desc_hl_def ol_tx_desc_alloc_hl_def ol_tx_desc_alloc_def Let_def split: option.splits)

lemma spec_pkt_type_peers: "spec_pkt_type s d P = (P', d') \<Longrightarrow> peers_of P' = peers_of P"
  by (auto simp: spec_pkt_type_def set_desc_def Let_def split: if_splits)

lemma drop_frame_peers: "peers_of (drop_frame d P) = peers_of P"
  by (simp add: drop_frame_def)

text \<open>Descriptors are taken, changed and given back without a change of the queues.\<close>

lemma desc_queues:
  "ol_tx_desc_hl vdev len P = (P', r) \<Longrightarrow> tx_queues P' = tx_queues P"
  "spec_pkt_type s d P = (P', d') \<Longrightarrow> tx_queues P' = tx_queues P"
  "set_desc f d P = (P', d') \<Longrightarrow> tx_queues P' = tx_queues P" "tx_queues (drop_frame d P) = tx_queues P"
  by (auto simp: ol_tx_desc_hl_def ol_tx_desc_alloc_hl_def ol_tx_desc_alloc_def Let_def spec_pkt_type_def set_desc_def drop_frame_def
      split: option.splits if_splits)

text \<open>The reference of the classification is given back, and the table of peers is the one from before.\<close>

lemma unref_restores:
  assumes "peers_ok (peer_tab P)" and "took_ref P (mi_peer mi) P1" and "peers_of P2 = peers_of P1" and "path_ok T P2"
  shows "\<exists>P3. unref_msdu_peer mi P2 = Some P3 \<and> path_ok T P3 \<and> peers_of P3 = peers_of P \<and> tx_queues P3 = tx_queues P2"
proof -
  have "unref_msdu_peer mi P2 = Some (P2\<lparr>peer_tab := peer_tab P\<rparr>)"
    using unref_took [OF assms(1,2), of P2] assms(3) by (simp add: unref_msdu_peer_def peers_of_def)
  moreover have "frame_format P2 = frame_format P" "vdevs_of P2 = vdevs_of P" using assms(2,3)
    by (auto simp: peers_of_def vdevs_of_def took_ref_def split: option.splits)
  ultimately show ?thesis using assms(4) by (simp add: peers_of_def vdevs_of_def)
qed

lemma peer_drops_ok:
  assumes "took_ref P (mi_peer mi) P1"
  shows "\<exists>b. peer_drops mi P1 = Some b"
  using assms by (cases "mi_peer mi") (auto simp: peer_drops_def elim: took_ref_obj)

lemma hl_frame_path_ok:
  assumes "path_ok (T @ [d]) P" and "peers_ready P" and "sender_ok vdev P" and "frame_may vdev m"
    and "mi_peer mi = None \<or> classified vdev m P"
  shows "\<exists>mi' P'. hl_frame vdev tx_spec m d mi P = Some (mi', P') \<and> path_ok T P' \<and> peers_of P' = peers_of P \<and>
    only_live (peer_objs (peer_tab P)) P P'"
proof -
  obtain data where data: "frame_data vdev m = Some data" "long_enough data"
    using assms(4) by (auto simp: frame_may_def split: option.splits)
  obtain P1 d1 where sp: "spec_pkt_type tx_spec d P = (P1, d1)" by (meson surj_pair)
  obtain d2 P2 where oc: "hl_ocb vdev (msdu_data m) d1 P1 = Some (True, data, d2, P2)" "path_ok (T @ [d2]) P2" "peers_of P2 = peers_of P1"
      "tx_queues P2 = tx_queues P1"
    using hl_ocb_ok [OF spec_pkt_type_path_ok [OF assms(1) sp] data(1)] by blast
  have pe: "peers_of P2 = peers_of P" using oc(3) spec_pkt_type_peers [OF sp] by simp
  then have pt: "peer_objs (peer_tab P2) = peer_objs (peer_tab P)" by (simp add: peers_of_def)
  have qe: "tx_queues P2 = tx_queues P" using oc(4) desc_queues(2) [OF sp] by simp
  have rdy: "peers_ok (peer_tab P2)" "frame_format P2 \<noteq> wlan_frm_fmt_unknown" "sender_ok vdev P2"
    using assms(2,3) peers_ready_same [OF pe] sender_ok_same [OF pe] by (auto simp: peers_ready_def)
  let ?mi = "mi\<lparr>ext_tid := msdu_tid m\<rparr>"
  obtain r mi' P3 where cl: "ol_tx_classify vdev data ?mi P2 = Some (r, mi', P3)"
    and c: "case r of None \<Rightarrow> P3 = P2 \<and> (mi_peer mi' = mi_peer ?mi \<or> mi_peer mi' = None) | Some txq \<Rightarrow> chose P2 txq (mi_peer mi') mi' P3"
    using ol_tx_classify_ok [OF rdy(1,3) data(2) rdy(2), of ?mi] by blast
  show ?thesis
  proof (cases r)
    case None
    have "mi_peer mi = None" using assms(5)
    proof
      assume "classified vdev m P"
      then obtain txq mi'' Q where "ol_tx_classify vdev data ?mi P2 = Some (Some txq, mi'', Q)"
        unfolding classified_def using data(1) pe by (metis tx_msdu_info.select_convs(4) tx_msdu_info.update_convs(4) tx_msdu_info.surjective)
      then show ?thesis using cl None by simp
    qed
    then have "took_ref P2 (mi_peer mi') P2" using c None by (auto simp: took_ref_def)
    from unref_restores [OF rdy(1) this drop_frame_peers drop_frame_path_ok [OF oc(2)]]
    show ?thesis using None c sp oc(1) cl pe qe by (auto simp: hl_frame_def desc_queues(4) intro: queues_live)
  next
    case (Some txq)
    then have t: "took_ref P2 (mi_peer mi') P3" "txq_valid txq" "unat (ext_tid mi') = ref_tid txq"
      and lv: "\<And>h t. txq = PeerTxq h t \<Longrightarrow> peer_objs (peer_tab P) h \<noteq> None" using c pt by (auto simp: chose_def)
    have q3: "tx_queues P3 = tx_queues P" using t(1) qe by (auto simp: took_ref_def split: option.splits)
    have p3: "path_ok (T @ [d2]) P3" using oc(2) t(1) by (auto simp: took_ref_def split: option.splits)
    obtain bad where bad: "peer_drops mi' P3 = Some bad" using peer_drops_ok [OF t(1)] by blast
    obtain P4 where P4: "(if bad then Some (drop_frame d2 P3) else ol_tx_enqueue txq d2 (unat (ext_tid mi')) P3) = Some P4"
      "path_ok T P4" "peers_of P4 = peers_of P3" "only_live (peer_objs (peer_tab P)) P3 P4"
    proof (cases bad)
      case True
      then show ?thesis using that drop_frame_path_ok [OF p3] drop_frame_peers by (simp add: queues_live desc_queues(4))
    next
      case False
      obtain P4 where P4: "ol_tx_enqueue txq d2 (ref_tid txq) P3 = Some P4" "path_ok T P4"
        using enqueue_path_ok [OF p3 t(2)] by blast
      then show ?thesis using that False t(3) enqueue_peers enqueue_live [OF P4(1) lv] by simp
    qed
    obtain P5 where P5: "unref_msdu_peer mi' P4 = Some P5" "path_ok T P5" "peers_of P5 = peers_of P2" "tx_queues P5 = tx_queues P4"
      using unref_restores [OF rdy(1) t(1) P4(3,2)] by blast
    have "only_live (peer_objs (peer_tab P)) P P5" using P4(4) P5(4) q3 by (simp add: only_live_def)
    then show ?thesis using Some sp oc(1) cl bad P4(1) P5 pe by (auto simp: hl_frame_def)
  qed
qed

lemma hl_desc_path_ok:
  assumes "path_ok T P" and "frame_may vdev m"
  shows "\<exists>r mi' P'. hl_desc v m mi P = Some (r, mi', P') \<and> mi_peer mi' = mi_peer mi \<and> peers_of P' = peers_of P \<and>
    tx_queues P' = tx_queues P \<and> (case r of None \<Rightarrow> path_ok T P' | Some d \<Rightarrow> path_ok (T @ [d]) P')"
proof -
  obtain P1 r where h: "ol_tx_desc_hl v (of_nat (length (msdu_data m))) P = (P1, r)" by (meson surj_pair)
  have ok: "case r of None \<Rightarrow> path_ok T P1 | Some d \<Rightarrow> path_ok (T @ [d]) P1"
    using desc_hl_path_ok [OF assms(1) h] assms(1) by (auto split: option.splits)
  obtain a b where "adf_nbuf_is_dhcp_pkt (msdu_data m) = Some a" "adf_nbuf_is_eapol_pkt (msdu_data m) = Some b"
    using dhcp_long [of "msdu_data m"] eapol_long [of "msdu_data m"] assms(2) by (auto simp: frame_may_def)
  then show ?thesis using h ok desc_hl_peers [OF h] desc_queues(1) [OF h] assms(1)
    by (cases "a \<or> b") (auto simp: hl_desc_def ol_tx_desc_hl_info_def)
qed

lemma hl_loop_path_ok:
  assumes "path_ok T P" and "peers_ready P" and "sender_ok vdev P" and "\<forall>m\<in>set ms. frame_may vdev m"
    and "mi_peer mi = None \<and> (\<forall>m\<in>set (tl ms). classified vdev m P) \<or> (\<forall>m\<in>set ms. classified vdev m P)"
  shows "\<exists>P' rest. hl_loop E vdev tx_spec ms mi P = Some (P', rest) \<and> path_ok T P' \<and> peers_of P' = peers_of P \<and>
    only_live (peer_objs (peer_tab P)) P P'"
  using assms
proof (induction ms arbitrary: mi P)
  case Nil
  then show ?case using sched_path_ok [of T P "download_env E"] ol_tx_sched_peers drains_live [OF sched_drains] by fastforce
next
  case (Cons m ms)
  obtain r mi1 P1 where h: "hl_desc (vdev_id vdev) m mi P = Some (r, mi1, P1)" "mi_peer mi1 = mi_peer mi" "peers_of P1 = peers_of P"
    "tx_queues P1 = tx_queues P" "case r of None \<Rightarrow> path_ok T P1 | Some d \<Rightarrow> path_ok (T @ [d]) P1"
    using hl_desc_path_ok [OF Cons.prems(1), of vdev m "vdev_id vdev" mi] Cons.prems(4) by auto
  show ?case
  proof (cases r)
    case None
    then show ?thesis using h by (simp add: queues_live)
  next
    case (Some d)
    have "mi_peer mi1 = None \<or> classified vdev m P1" using Cons.prems(5) h(2) classified_same [OF h(3)] by auto
    then obtain mi2 P2 where f: "hl_frame vdev tx_spec m d mi1 P1 = Some (mi2, P2)" "path_ok T P2" "peers_of P2 = peers_of P1"
      "only_live (peer_objs (peer_tab P1)) P1 P2"
      using hl_frame_path_ok [of T d P1 vdev m mi1 tx_spec] h(3,5) Some Cons.prems(2-4) peers_ready_same [OF h(3)] sender_ok_same [OF h(3)]
      by auto
    have pe: "peers_of P2 = peers_of P" using f(3) h(3) by simp
    have objs: "peer_objs (peer_tab P2) = peer_objs (peer_tab P)" "peer_objs (peer_tab P1) = peer_objs (peer_tab P)"
      using pe h(3) by (simp_all add: peers_of_def)
    have lv: "only_live (peer_objs (peer_tab P)) P P2" using f(4) h(4) by (simp add: objs only_live_def)
    have "\<exists>P' rest. hl_loop E vdev tx_spec ms mi2 P2 = Some (P', rest) \<and> path_ok T P' \<and> peers_of P' = peers_of P2 \<and>
      only_live (peer_objs (peer_tab P2)) P2 P'"
      by (rule Cons.IH [OF f(2)]) (use Cons.prems(2-5) peers_ready_same [OF pe] sender_ok_same [OF pe] classified_same [OF pe] in auto)
    then show ?thesis using h(1) Some f(1) pe only_live_trans [OF lv] by (auto simp: objs)
  qed
qed

lemma mgmt_send_path_ok:
  assumes "path_ok T P" and "peers_ready P" and "sender_ok vdev P" and "long_enough (msdu_data m)"
  shows "\<exists>P' ok. ol_txrx_mgmt_send E vdev m type P = Some (P', ok) \<and> path_ok T P' \<and> peers_of P' = peers_of P \<and>
    only_live (peer_objs (peer_tab P)) P P'"
proof -
  obtain P1 r where h: "ol_tx_desc_hl (vdev_id vdev) (of_nat (length (msdu_data m))) P = (P1, r)" by (meson surj_pair)
  let ?mi = "(stack_msdu_info E)\<lparr>ext_tid := of_nat HTT_TX_EXT_TID_MGMT, mi_peer := None, do_encrypt := \<not> msdu_exempt m\<rparr>"
  show ?thesis
  proof (cases r)
    case None
    then have "ol_txrx_mgmt_send E vdev m type P = Some (P1, False)" using h by (simp add: ol_txrx_mgmt_send_def ol_tx_desc_hl_info_def)
    then show ?thesis using desc_hl_path_ok [OF assms(1) h] None assms(1) desc_hl_peers [OF h] queues_live [OF desc_queues(1) [OF h]]
      by auto
  next
    case (Some d)
    then have p1: "path_ok (T @ [d]) P1" using desc_hl_path_ok [OF assms(1) h] by simp
    obtain P2 d2 where sp: "set_pkt_type (type + OL_TXRX_MGMT_TYPE_BASE) d P1 = (P2, d2)" by (meson surj_pair)
    have p2: "path_ok (T @ [d2]) P2" by (rule set_desc_path_ok [OF p1 sp]) simp
    have pe: "peers_of P2 = peers_of P" using sp desc_hl_peers [OF h] by (auto simp: set_desc_def Let_def)
    have rdy: "peers_ok (peer_tab P2)" "frame_format P2 \<noteq> wlan_frm_fmt_unknown" "sender_ok vdev P2"
      using assms(2,3) peers_ready_same [OF pe] sender_ok_same [OF pe] by (auto simp: peers_ready_def)
    obtain txq mi' P3 where cl: "ol_tx_classify_mgmt vdev (msdu_data m) ?mi P2 = Some (txq, mi', P3)"
      and ch: "chose P2 txq (mi_peer mi') mi' P3"
      using ol_tx_classify_mgmt_ok [OF rdy(1,3) assms(4) rdy(2), of ?mi] by auto
    have t: "took_ref P2 (mi_peer mi') P3" "txq_valid txq" "unat (ext_tid mi') = ref_tid txq"
      and lv: "\<And>h t. txq = PeerTxq h t \<Longrightarrow> peer_objs (peer_tab P) h \<noteq> None" using ch pe by (auto simp: chose_def peers_of_def)
    have q3: "tx_queues P3 = tx_queues P" using t(1) desc_queues(3) [OF sp] desc_queues(1) [OF h]
      by (auto simp: took_ref_def split: option.splits)
    have p3: "path_ok (T @ [d2]) P3" using p2 t(1) by (auto simp: took_ref_def split: option.splits)
    obtain P4 where P4: "ol_tx_enqueue txq d2 (ref_tid txq) P3 = Some P4" "path_ok T P4" using enqueue_path_ok [OF p3 t(2)] by blast
    obtain P5 where P5: "unref_msdu_peer mi' P4 = Some P5" "path_ok T P5" "peers_of P5 = peers_of P2"
      "tx_queues P5 = tx_queues P4"
      using unref_restores [OF rdy(1) t(1) enqueue_peers [OF P4(1)] P4(2)] by blast
    obtain P6 where P6: "ol_tx_sched (download_env E) P5 = Some P6" "path_ok T P6" using sched_path_ok [OF P5(2)] by blast
    have "ol_txrx_mgmt_send E vdev m type P = Some (P6, True)"
      using h Some sp cl t(3) P4(1) P5(1) P6(1) by (simp add: ol_txrx_mgmt_send_def ol_tx_desc_hl_info_def)
    moreover have "only_live (peer_objs (peer_tab P)) P P6"
    proof (rule only_live_trans)
      show "only_live (peer_objs (peer_tab P)) P P5" using enqueue_live [OF P4(1) lv] q3 P5(4) by (simp add: only_live_def)
      show "only_live (peer_objs (peer_tab P)) P5 P6" by (rule drains_live [OF sched_drains [OF P6(1)]])
    qed
    ultimately show ?thesis using P6 ol_tx_sched_peers [OF P6(1)] P5(3) pe by auto
  qed
qed

section \<open>The end of a frame\<close>

lemma target_desc:
  assumes "path_ok T P" and "desc_ref P i \<noteq> 0"
  shows "ol_tx_desc_find i P = Some (desc_mem P i)" and "desc_id (desc_mem P i) = i"
    and "\<exists>v. desc_owner P i = Some v" and "length (txq_grps P) = OL_TX_MAX_TXQ_GROUPS"
proof -
  obtain fl pl where ow: "owned fl pl T P" using assms(1) by (auto simp: path_ok_def descs_ok_def)
  note o = owned_facts [OF ow]
  have i: "i < desc_pool_size P" "pl i = Target" using o(7) [of i] assms(2) by auto
  then show "ol_tx_desc_find i P = Some (desc_mem P i)" "\<exists>v. desc_owner P i = Some v" using o(8) [of i] by (auto simp: ol_tx_desc_find_def)
  show "desc_id (desc_mem P i) = i" "length (txq_grps P) = OL_TX_MAX_TXQ_GROUPS" by (rule o(9), rule o(12))
qed

text \<open>One reference less.\<close>

lemma no_refs_path_ok:
  assumes "path_ok T P" and "desc_ref P i \<noteq> 0" and "OL_TX_DESC_NO_REFS i P = (lst, P')"
  shows "path_ok (T @ (if lst then [desc_mem P i] else [])) P'" and "desc_mem P' = desc_mem P"
    and "\<And>j. j \<noteq> i \<Longrightarrow> desc_ref P' j = desc_ref P j"
proof -
  have e: "lst = (desc_ref P i - 1 = 0)" "P' = P\<lparr>desc_ref := (desc_ref P)(i := desc_ref P i - 1)\<rparr>"
    using assms(3) by (auto simp: OL_TX_DESC_NO_REFS_def)
  have z: "descs_ok T P" using assms(1) by (simp add: path_ok_def)
  show "path_ok (T @ (if lst then [desc_mem P i] else [])) P'"
    using assms(1) descs_ok_from_target [OF z assms(2)] descs_ok_keep_target [OF z assms(2), of "desc_ref P i - 1"]
    by (auto simp: path_ok_def e tx_ready_pool)
qed (use assms(3) in \<open>auto simp: OL_TX_DESC_NO_REFS_def\<close>)

lemma frame_free_path_ok: "path_ok (T @ [d]) P \<Longrightarrow> path_ok T (ol_tx_desc_frame_free_nonstd e d P)"
  using frame_free_hand [of T d "[]" P e] by (auto simp: path_ok_def tx_ready_pool)

lemma download_done_path_ok:
  assumes "path_ok T P" and "desc_ref P i \<noteq> 0"
  shows "\<exists>P'. ol_tx_download_done_base ok i P = Some P' \<and> path_ok T P'"
proof (cases ok)
  case False
  define P1 where "P1 = P\<lparr>target_tx_credit := target_tx_credit P + htt_tx_msdu_credit (desc_mem P i)\<rparr>"
  have "descs_ok T P1" using assms(1) unfolding P1_def by (auto simp: path_ok_def intro: descs_ok_same [OF same_descs_freed(4)])
  then have "descs_ok T (ol_tx_desc_frame_free_nonstd True (desc_mem P i) P1)"
    by (rule frame_free_target) (use assms target_desc(2) [OF assms] in \<open>simp add: P1_def\<close>)
  then show ?thesis using False assms(1) target_desc(1) [OF assms]
    by (simp add: ol_tx_download_done_base_def path_ok_def tx_ready_pool P1_def)
next
  case True
  obtain lst P1 where n: "OL_TX_DESC_NO_REFS i P = (lst, P1)" by (cases "OL_TX_DESC_NO_REFS i P")
  show ?thesis
    using no_refs_path_ok(1) [OF assms n] True target_desc(1) [OF assms] n frame_free_path_ok
    by (auto simp: ol_tx_download_done_base_def)
qed

lemma group_credit_path_ok:
  assumes "path_ok T P" and "desc_ref P i \<noteq> 0"
  shows "\<exists>gs. ol_tx_desc_update_group_credit i c a P = Some (P\<lparr>txq_grps := gs\<rparr>) \<and> length gs = length (txq_grps P)"
proof -
  have g: "length (txq_grps P) = 2" using target_desc(4) [OF assms] by (simp add: OL_TX_MAX_TXQ_GROUPS_def)
  obtain v where v: "desc_owner P i = Some v" using target_desc(3) [OF assms] by blast
  have "\<exists>gs. group_credit_loop is v c a P = Some (P\<lparr>txq_grps := gs\<rparr>) \<and> length gs = length (txq_grps P)" if "set is \<subseteq> {..<2}" for "is"
    using that
  proof (induction "is")
    case Nil
    then show ?case by (intro exI [of _ "txq_grps P"]) simp
  next
    case (Cons k "is")
    then have r: "rd (txq_grps P) k = Some (txq_grps P ! k)" using g by simp
    show ?case using Cons r by auto
  qed
  from this [of "[0..<2]"] show ?thesis using target_desc(1) [OF assms] v
    by (simp add: ol_tx_desc_update_group_credit_def OL_TX_MAX_TXQ_GROUPS_def lessThan_atLeast0)
qed

lemma msdu_complete_path_ok:
  assumes "path_ok (T @ ds @ [d]) P" and "ol_tx_msdu_complete d e (ds, P) = (ds', P')"
  shows "path_ok (T @ ds') P'" and "\<And>j. j \<noteq> desc_id d \<Longrightarrow> desc_ref P' j = desc_ref P j"
  using assms frame_free_path_ok [of "T @ ds" d P e] by (auto simp: ol_tx_msdu_complete_def frame_free_ref split: if_splits)

lemma release_ref_path_ok:
  assumes "path_ok (T @ ds) P" and "desc_ref P i \<noteq> 0" and n: "OL_TX_DESC_NO_REFS i P = (lst, P1)"
    and "(if lst then ol_tx_msdu_complete (desc_mem P i) e (ds, P1) else (ds, P1)) = (ds', P')"
  shows "path_ok (T @ ds') P' \<and> (\<forall>j. j \<noteq> i \<longrightarrow> desc_ref P' j = desc_ref P j)"
proof (cases lst)
  case False
  then show ?thesis using no_refs_path_ok(1,3) [OF assms(1,2) n] assms(4) by auto
next
  case True
  have "path_ok (T @ ds @ [desc_mem P i]) P1" using no_refs_path_ok(1) [OF assms(1,2) n] True by simp
  moreover have "ol_tx_msdu_complete (desc_mem P i) e (ds, P1) = (ds', P')" using assms(4) True by simp
  ultimately show ?thesis
    using msdu_complete_path_ok [of T ds "desc_mem P i" P1 e ds' P'] no_refs_path_ok(3) [OF assms(1,2) n] target_desc(2) [OF assms(1,2)]
    by metis
qed

lemma complete_one_path_ok:
  assumes "path_ok (T @ ds) P" and "desc_ref P i \<noteq> 0"
  shows "\<exists>ds' P'. complete_one st i (ds, P) = Some (ds', P') \<and> path_ok (T @ ds') P' \<and> (\<forall>j. j \<noteq> i \<longrightarrow> desc_ref P' j = desc_ref P j)"
proof -
  define P0 where "P0 = P\<lparr>desc_status := (desc_status P)(i := st)\<rparr>"
  have p0: "path_ok (T @ ds) P0" "desc_ref P0 i \<noteq> 0"
    using assms descs_ok_same [OF same_descs_freed(9)] by (auto simp: path_ok_def P0_def tx_ready_pool)
  obtain gs where g: "ol_tx_desc_update_group_credit i 1 False P0 = Some (P0\<lparr>txq_grps := gs\<rparr>)" "length gs = length (txq_grps P0)"
    using group_credit_path_ok [OF p0] by blast
  define P1 where "P1 = P0\<lparr>txq_grps := gs\<rparr>"
  have p1: "path_ok (T @ ds) P1" "desc_ref P1 i \<noteq> 0"
    using p0 descs_ok_same [OF same_descs_freed(8)] g(2) by (auto simp: path_ok_def P1_def tx_ready_pool)
  obtain lst P2 where n: "OL_TX_DESC_NO_REFS i P1 = (lst, P2)" by (cases "OL_TX_DESC_NO_REFS i P1")
  obtain ds' P' where c: "(if lst then ol_tx_msdu_complete (desc_mem P1 i) (st \<noteq> htt_tx_status_ok) (ds, P2) else (ds, P2)) = (ds', P')"
    by (cases "if lst then ol_tx_msdu_complete (desc_mem P1 i) (st \<noteq> htt_tx_status_ok) (ds, P2) else (ds, P2)")
  have m1: "desc_mem P i = desc_mem P1 i" by (simp add: P1_def P0_def)
  have "complete_one st i (ds, P) = Some (ds', P')"
    using target_desc(1) [OF assms] g(1) n c
    by (simp add: complete_one_def P0_def [symmetric] P1_def [symmetric] m1 cong: if_cong)
  moreover have "desc_ref P1 = desc_ref P" by (simp add: P1_def P0_def)
  ultimately show ?thesis using release_ref_path_ok [OF p1 n c] by auto
qed

lemma inspect_one_path_ok:
  assumes "path_ok (T @ ds) P" and "desc_ref P i \<noteq> 0"
  shows "\<exists>ds' P'. inspect_one i (ds, P) = Some (ds', P') \<and> path_ok (T @ ds') P' \<and> (\<forall>j. j \<noteq> i \<longrightarrow> desc_ref P' j = desc_ref P j)"
proof -
  obtain lst P2 where n: "OL_TX_DESC_NO_REFS i P = (lst, P2)" by (cases "OL_TX_DESC_NO_REFS i P")
  obtain ds' P' where c: "(if lst then ol_tx_msdu_complete (desc_mem P i) False (ds, P2) else (ds, P2)) = (ds', P')"
    by (cases "if lst then ol_tx_msdu_complete (desc_mem P i) False (ds, P2) else (ds, P2)")
  have "inspect_one i (ds, P) = Some (ds', P')"
    using target_desc(1) [OF assms] n c by (simp add: inspect_one_def)
  then show ?thesis using release_ref_path_ok [OF assms n c] by auto
qed

lemma complete_all_path_ok:
  assumes one: "\<And>i ds P. path_ok (T @ ds) P \<Longrightarrow> desc_ref P i \<noteq> 0 \<Longrightarrow>
      \<exists>ds' P'. body i (ds, P) = Some (ds', P') \<and> path_ok (T @ ds') P' \<and> (\<forall>j. j \<noteq> i \<longrightarrow> desc_ref P' j = desc_ref P j)"
    and "path_ok T P" and "distinct ids" and "\<forall>i\<in>set ids. desc_ref P i \<noteq> 0"
  shows "\<exists>ds P'. for_each ids body ([], P) = Some (ds, P') \<and> path_ok (T @ ds) P'"
proof -
  have "\<exists>s'. for_each ids body ([], P) = Some s' \<and> (case s' of (ds, P') \<Rightarrow> path_ok (T @ ds) P')"
  proof -
    let ?I = "\<lambda>is s. distinct is \<and> (case s of (ds, P') \<Rightarrow> path_ok (T @ ds) P' \<and> (\<forall>i\<in>set is. desc_ref P' i \<noteq> 0))"
    have "\<exists>s'. for_each ids body ([], P) = Some s' \<and> ?I [] s'"
    proof (rule for_each_rest [where I = ?I])
      fix i "is" s
      assume I: "?I (i # is) s"
      obtain ds P1 where s: "s = (ds, P1)" by (cases s)
      obtain ds' P2 where "body i (ds, P1) = Some (ds', P2)" "path_ok (T @ ds') P2" "\<forall>j. j \<noteq> i \<longrightarrow> desc_ref P2 j = desc_ref P1 j"
        using one [of ds P1 i] I s by auto
      moreover from this(3) have "\<forall>j\<in>set is. desc_ref P2 j \<noteq> 0" using I s by auto
      ultimately show "\<exists>s'. body i s = Some s' \<and> ?I is s'" using s I by auto
    qed (use assms in simp)
    then show ?thesis by auto
  qed
  then show ?thesis by auto
qed

lemma list_free_path_ok: "path_ok (T @ ds) P \<Longrightarrow> path_ok T (ol_tx_desc_frame_list_free e ds P)"
  using frame_list_free_hand by (auto simp: path_ok_def tx_ready_pool)

lemma path_ok_rsrc: "path_ok T (P\<lparr>rsrc_cnt := n\<rparr>) \<longleftrightarrow> path_ok T P"
proof -
  have "same_descs (P\<lparr>rsrc_cnt := n\<rparr>) P" "same_descs P (P\<lparr>rsrc_cnt := n\<rparr>)" by (simp_all add: same_descs_def)
  then have "descs_ok T (P\<lparr>rsrc_cnt := n\<rparr>) \<longleftrightarrow> descs_ok T P" using descs_ok_same by blast
  then show ?thesis by (simp add: path_ok_def tx_ready_pool)
qed

lemma completion_path_ok:
  assumes "path_ok T P" and "distinct ids" and "\<forall>i\<in>set ids. desc_ref P i \<noteq> 0"
  shows "\<exists>P'. ol_tx_completion_handler H st ids P = Some P' \<and> path_ok T P'"
    and "\<exists>P'. ol_tx_inspect_handler H ids P = Some P' \<and> path_ok T P'"
proof -
  obtain ds P1 where P1: "for_each ids (complete_one st) ([], P) = Some (ds, P1)" "path_ok (T @ ds) P1"
    using complete_all_path_ok [of T "complete_one st", OF complete_one_path_ok assms] by blast
  define P2 where "P2 = ol_tx_desc_frame_list_free (st \<noteq> htt_tx_status_ok) ds P1"
  have "path_ok T (P2\<lparr>rsrc_cnt := rsrc_cnt P2 + of_nat (length ids)\<rparr>)"
    using list_free_path_ok [OF P1(2)] by (simp add: path_ok_rsrc P2_def)
  then show "\<exists>P'. ol_tx_completion_handler H st ids P = Some P' \<and> path_ok T P'"
    using sched_path_ok P1(1) by (simp add: ol_tx_completion_handler_def P2_def Let_def)
  obtain ds' P3 where P3: "for_each ids inspect_one ([], P) = Some (ds', P3)" "path_ok (T @ ds') P3"
    using complete_all_path_ok [of T inspect_one, OF inspect_one_path_ok assms] by blast
  then show "\<exists>P'. ol_tx_inspect_handler H ids P = Some P' \<and> path_ok T P'"
    using sched_path_ok [OF list_free_path_ok [OF P3(2)]] by (simp add: ol_tx_inspect_handler_def)
qed

lemma single_completion_path_ok:
  assumes "path_ok T P" and "desc_ref P i \<noteq> 0"
  shows "\<exists>P'. ol_tx_single_completion_handler H st i P = Some P' \<and> path_ok T P'"
proof -
  define P0 where "P0 = P\<lparr>desc_status := (desc_status P)(i := st)\<rparr>"
  have p0: "path_ok T P0" "desc_ref P0 i \<noteq> 0"
    using assms descs_ok_same [OF same_descs_freed(9)] by (auto simp: path_ok_def P0_def tx_ready_pool)
  obtain lst P1 where n: "OL_TX_DESC_NO_REFS i P0 = (lst, P1)" by (cases "OL_TX_DESC_NO_REFS i P0")
  define P2 where "P2 = (if lst then ol_tx_desc_frame_free_nonstd (st \<noteq> htt_tx_status_ok) (desc_mem P i) P1 else P1)"
  have "path_ok T P2"
    using no_refs_path_ok(1) [OF p0 n] frame_free_path_ok by (auto simp: P2_def P0_def split: if_splits)
  then have "path_ok T (P2\<lparr>rsrc_cnt := rsrc_cnt P2 + 1\<rparr>)" by (simp add: path_ok_rsrc)
  from sched_path_ok [OF this] show ?thesis using target_desc(1) [OF assms] n
    by (simp add: ol_tx_single_completion_handler_def P0_def [symmetric] P2_def Let_def)
qed

section \<open>The peers stay\<close>

text \<open>What the handlers leave alone until they call the scheduler.\<close>

definition view :: "ol_txrx_pdev_t \<Rightarrow> (peer_db \<times> wlan_frm_fmt \<times> ol_txrx_vdev_t list) \<times> (txq_ref \<Rightarrow> ol_tx_frms_queue_t)" where
  "view P = (peers_of P, tx_queues P)"

lemma view_upd [simp]:
  "view (P\<lparr>desc_status := a\<rparr>) = view P" "view (P\<lparr>desc_ref := b\<rparr>) = view P" "view (P\<lparr>txq_grps := c\<rparr>) = view P"
  "view (P\<lparr>rsrc_cnt := d\<rparr>) = view P" "view (P\<lparr>target_tx_credit := e\<rparr>) = view P"
  "view (ol_tx_desc_frame_free_nonstd f x P) = view P" "view (ol_tx_desc_frame_list_free f xs P) = view P"
  by (simp_all add: view_def)

lemma view_peers: "view P' = view P \<Longrightarrow> peers_of P' = peers_of P \<and> drains P P'"
  by (simp add: view_def drains_queues)

lemma view_sched: "ol_tx_sched H P1 = Some P' \<Longrightarrow> view P1 = view P \<Longrightarrow> peers_of P' = peers_of P \<and> drains P P'"
  using ol_tx_sched_peers [of H P1 P'] sched_drains [of H P1 P'] by (auto simp: view_def drains_def)

lemma no_refs_view: "OL_TX_DESC_NO_REFS i P = (b, P') \<Longrightarrow> view P' = view P"
  by (auto simp: OL_TX_DESC_NO_REFS_def)

lemma download_done_view: "ol_tx_download_done_base ok i P = Some P' \<Longrightarrow> view P' = view P"
  by (auto simp: ol_tx_download_done_base_def bind_eq_Some_conv dest: no_refs_view split: prod.splits if_splits)

lemma group_credit_loop_view: "group_credit_loop is v c a P = Some P' \<Longrightarrow> view P' = view P"
  by (induction "is" v c a P rule: group_credit_loop.induct) (auto simp: bind_eq_Some_conv split: if_splits)

lemma msdu_complete_view: "ol_tx_msdu_complete d e (ds, P) = (ds', P') \<Longrightarrow> view P' = view P"
  by (auto simp: ol_tx_msdu_complete_def split: if_splits)

lemma release_ref_view:
  "OL_TX_DESC_NO_REFS i P = (lst, P1) \<Longrightarrow> (if lst then ol_tx_msdu_complete d e (ds, P1) else (ds, P1)) = (ds', P') \<Longrightarrow>
   view P' = view P"
  using msdu_complete_view no_refs_view by (fastforce split: if_splits)

lemma complete_one_view:
  assumes "complete_one st i (ds, P) = Some (ds', P')"
  shows "view P' = view P"
proof -
  obtain d P1 where P1: "ol_tx_desc_update_group_credit i 1 False (P\<lparr>desc_status := (desc_status P)(i := st)\<rparr>) = Some P1"
    and c: "(case OL_TX_DESC_NO_REFS i P1 of (lst, P) \<Rightarrow>
       Some (if lst then ol_tx_msdu_complete d (st \<noteq> htt_tx_status_ok) (ds, P) else (ds, P))) = Some (ds', P')"
    using assms by (auto simp: complete_one_def bind_eq_Some_conv)
  obtain lst P2 where n: "OL_TX_DESC_NO_REFS i P1 = (lst, P2)" by (meson surj_pair)
  have "view P1 = view P" using P1
    by (auto simp: ol_tx_desc_update_group_credit_def bind_eq_Some_conv dest!: group_credit_loop_view)
  then show ?thesis using release_ref_view [OF n, of d "st \<noteq> htt_tx_status_ok" ds ds' P'] c n by simp
qed

lemma inspect_one_view:
  assumes "inspect_one i (ds, P) = Some (ds', P')"
  shows "view P' = view P"
proof -
  obtain d lst P2 where n: "OL_TX_DESC_NO_REFS i P = (lst, P2)"
    and c: "(if lst then ol_tx_msdu_complete d False (ds, P2) else (ds, P2)) = (ds', P')"
    using assms by (cases "OL_TX_DESC_NO_REFS i P") (auto simp: inspect_one_def bind_eq_Some_conv)
  then show ?thesis using release_ref_view by blast
qed

lemma for_each_view:
  assumes "for_each is body s = Some s'" and "\<And>i ds P ds' P'. body i (ds, P) = Some (ds', P') \<Longrightarrow> view P' = view P"
  shows "view (snd s') = view (snd s)"
  by (rule for_each_relates [where R = "\<lambda>s s'. view (snd s') = view (snd s)", OF assms(1)])
    (metis assms(2) prod.collapse, simp_all)

lemma completion_peers:
  assumes "ol_tx_completion_handler H st ids P = Some P'"
  shows "peers_of P' = peers_of P \<and> drains P P'"
proof -
  obtain ds P1 where P1: "for_each ids (complete_one st) ([], P) = Some (ds, P1)"
    and s: "ol_tx_sched H ((ol_tx_desc_frame_list_free (st \<noteq> htt_tx_status_ok) ds P1)
       \<lparr>rsrc_cnt := rsrc_cnt (ol_tx_desc_frame_list_free (st \<noteq> htt_tx_status_ok) ds P1) + of_nat (length ids)\<rparr>) = Some P'"
    using assms by (auto simp: ol_tx_completion_handler_def bind_eq_Some_conv Let_def)
  have "view P1 = view P" using for_each_view [OF P1 complete_one_view] by simp
  then show ?thesis by (intro view_sched [OF s]) simp
qed

lemma inspect_peers:
  assumes "ol_tx_inspect_handler H ids P = Some P'"
  shows "peers_of P' = peers_of P \<and> drains P P'"
proof -
  obtain ds P1 where P1: "for_each ids inspect_one ([], P) = Some (ds, P1)"
    and s: "ol_tx_sched H (ol_tx_desc_frame_list_free True ds P1) = Some P'"
    using assms by (auto simp: ol_tx_inspect_handler_def bind_eq_Some_conv Let_def)
  have "view P1 = view P" using for_each_view [OF P1 inspect_one_view] by simp
  then show ?thesis by (intro view_sched [OF s]) simp
qed

lemma single_completion_peers:
  assumes "ol_tx_single_completion_handler H st i P = Some P'"
  shows "peers_of P' = peers_of P \<and> drains P P'"
proof -
  obtain P1 where "ol_tx_sched H P1 = Some P'" "view P1 = view P"
    using assms by (auto simp: ol_tx_single_completion_handler_def bind_eq_Some_conv Let_def OL_TX_DESC_NO_REFS_def)
  then show ?thesis by (rule view_sched)
qed

section \<open>Runs of the transmit path\<close>

text \<open>The virtual devices are named by their position in the device's list.\<close>

datatype path_op =
    Send nat u8 "tx_msdu list"
  | SendMgmt nat tx_msdu u8
  | DownloadDone bool u16
  | Complete u8 "u16 list"
  | CompleteOne u8 u16
  | Inspect "u16 list"
  | Queue_op tx_op

fun path_exec :: "tx_hl_env \<Rightarrow> path_op \<Rightarrow> ol_txrx_pdev_t \<Rightarrow> ol_txrx_pdev_t option" where
  "path_exec E (Send v tx_spec ms) P = do { vdev \<leftarrow> rd (vdev_list P) v; map_option fst (ol_tx_hl_base E vdev tx_spec ms P) }"
| "path_exec E (SendMgmt v m type) P = do { vdev \<leftarrow> rd (vdev_list P) v; map_option fst (ol_txrx_mgmt_send E vdev m type P) }"
| "path_exec E (DownloadDone status_ok i) P = ol_tx_download_done_hl_retain status_ok i P"
| "path_exec E (Complete status ids) P = ol_tx_completion_handler (download_env E) status ids P"
| "path_exec E (CompleteOne status i) P = ol_tx_single_completion_handler (download_env E) status i P"
| "path_exec E (Inspect ids) P = ol_tx_inspect_handler (download_env E) ids P"
| "path_exec E (Queue_op op) P = tx_exec (download_env E) op P"

text \<open>
  The conditions: frames have at least 38 bytes, the control headers of OCB frames parse, and the frames of a list behind
  the first one can be classified; the target answers only for descriptors that it has; frames enter the queues only by
  the send functions.
\<close>

fun path_may :: "path_op \<Rightarrow> ol_txrx_pdev_t \<Rightarrow> bool" where
  "path_may (Send v tx_spec ms) P \<longleftrightarrow> v < length (vdev_list P) \<and> sender_ok (vdev_list P ! v) P \<and>
     (\<forall>m\<in>set ms. frame_may (vdev_list P ! v) m) \<and> (\<forall>m\<in>set (tl ms). classified (vdev_list P ! v) m P)"
| "path_may (SendMgmt v m type) P \<longleftrightarrow> v < length (vdev_list P) \<and> sender_ok (vdev_list P ! v) P \<and> long_enough (msdu_data m)"
| "path_may (DownloadDone status_ok i) P \<longleftrightarrow> desc_ref P i \<noteq> 0"
| "path_may (Complete status ids) P \<longleftrightarrow> distinct ids \<and> (\<forall>i\<in>set ids. desc_ref P i \<noteq> 0)"
| "path_may (CompleteOne status i) P \<longleftrightarrow> desc_ref P i \<noteq> 0"
| "path_may (Inspect ids) P \<longleftrightarrow> distinct ids \<and> (\<forall>i\<in>set ids. desc_ref P i \<noteq> 0)"
| "path_may (Queue_op op) P \<longleftrightarrow> tx_may op P \<and> (case op of Enqueue r d \<Rightarrow> False | _ \<Rightarrow> True)"

lemma path_exec_ok:
  assumes "path_ok [] P" and "peers_ready P" and "path_may op P"
  shows "\<exists>P'. path_exec E op P = Some P' \<and> path_ok [] P' \<and> peers_of P' = peers_of P \<and> only_live (peer_objs (peer_tab P)) P P'"
proof (cases op)
  case (Send v tx_spec ms)
  then have "\<exists>P' rest. ol_tx_hl_base E (vdev_list P ! v) tx_spec ms P = Some (P', rest) \<and> path_ok [] P' \<and> peers_of P' = peers_of P \<and>
      only_live (peer_objs (peer_tab P)) P P'"
    unfolding ol_tx_hl_base_def using assms(3) by (intro hl_loop_path_ok [OF assms(1,2)]) auto
  then show ?thesis using Send assms(3) by auto
next
  case (SendMgmt v m type)
  then have "\<exists>P' ok. ol_txrx_mgmt_send E (vdev_list P ! v) m type P = Some (P', ok) \<and> path_ok [] P' \<and> peers_of P' = peers_of P \<and>
      only_live (peer_objs (peer_tab P)) P P'"
    using assms(3) by (intro mgmt_send_path_ok [OF assms(1,2)]) auto
  then show ?thesis using SendMgmt assms(3) by auto
next
  case (DownloadDone status_ok i)
  then show ?thesis using download_done_path_ok [OF assms(1), of i status_ok] assms(3) view_peers [OF download_done_view] drains_live
    by (fastforce simp: ol_tx_download_done_hl_retain_def)
next
  case (Complete status ids)
  then show ?thesis using completion_path_ok(1) [OF assms(1)] assms(3) completion_peers drains_live by fastforce
next
  case (CompleteOne status i)
  then show ?thesis using single_completion_path_ok [OF assms(1)] assms(3) single_completion_peers drains_live by fastforce
next
  case (Inspect ids)
  then show ?thesis using completion_path_ok(2) [OF assms(1)] assms(3) inspect_peers drains_live by fastforce
next
  case (Queue_op qop)
  have rdy: "tx_ready P" and d: "descs_ok [] P" using assms(1) by (auto simp: path_ok_def)
  have may: "tx_may qop P" and ne: "\<And>r d. qop \<noteq> Enqueue r d" using assms(3) Queue_op by auto
  obtain P' where P': "tx_exec (download_env E) qop P = Some P'" "tx_ready P'" using tx_exec_ok [OF rdy may] by blast
  then show ?thesis using tx_exec_keeps [OF P'(1) rdy may ne] d Queue_op tx_exec_peers [OF P'(1)]
      drains_live [OF tx_exec_drains [OF P'(1) rdy may ne]] by (auto simp: path_ok_def keeps_descs_def)
qed

inductive path_run :: "tx_hl_env \<Rightarrow> ol_txrx_pdev_t \<Rightarrow> path_op list \<Rightarrow> ol_txrx_pdev_t \<Rightarrow> bool" for E where
  path_none: "path_run E P [] P"
| path_step: "path_may op P \<Longrightarrow> path_exec E op P = Some P1 \<Longrightarrow> path_run E P1 ops P' \<Longrightarrow> path_run E P (op # ops) P'"

lemma path_run_ok: "path_run E P ops P' \<Longrightarrow> path_ok [] P \<Longrightarrow> peers_ready P \<Longrightarrow> path_ok [] P' \<and> peers_of P' = peers_of P"
proof (induction rule: path_run.induct)
  case (path_step op P P1 ops P')
  then show ?case using path_exec_ok [of P op E] peers_ready_same [of P1 P] by auto
qed simp

end
