(* ===== verification/Tx_Life.thy ===== *)
theory Tx_Life
  imports Tx_Correct Tx_Complete
begin

text \<open>
  The properties of the transmit path as a whole: no descriptor is lost or used twice, and what happens when a download
  fails on a target that frees frames at their download.
\<close>

section \<open>Conservation of descriptors\<close>

definition fresh_pool :: "ol_txrx_pdev_t \<Rightarrow> bool" where
  "fresh_pool P \<longleftrightarrow> desc_pool_size P \<noteq> 0 \<and> desc_ref P = (\<lambda>_. 0) \<and> (\<forall>i. desc_id (desc_mem P i) = i) \<and>
     length (txq_grps P) = OL_TX_MAX_TXQ_GROUPS"

lemma unat_of_nat_u16: "k < 65536 \<Longrightarrow> unat (of_nat k :: u16) = k"
  by (simp add: unat_of_nat take_bit_nat_eq_self)

lemma init_free_chain:
  fixes n :: u16
  assumes "k \<le> unat n" and "n \<noteq> 0" and "nx = (\<lambda>i :: u16. if uint i < uint n - 1 then Some (i + 1) else if uint i = uint n - 1 then None else f i)"
  shows "free_chain nx (if k = unat n then None else Some (of_nat k)) (map of_nat [k..<unat n])"
  using assms(1)
proof (induction "unat n - k" arbitrary: k)
  case 0
  then show ?case by simp
next
  case (Suc m)
  then have k: "k < unat n" "m = unat n - Suc k" by auto
  have "k < 65536" using k(1) unat_u16 [of n] by simp
  then have u: "uint (of_nat k :: u16) = int k" using unat_of_nat_u16 [of k] by (metis uint_nat)
  have c: "int k < uint n - 1 \<longleftrightarrow> Suc k < unat n" "int k = uint n - 1 \<longleftrightarrow> Suc k = unat n"
    using uint_nat [of n] by linarith+
  have "nx (of_nat k) = (if Suc k = unat n then None else Some (of_nat (Suc k)))"
    using k(1) by (simp add: assms(3) u c add.commute)
  moreover have "[k..<unat n] = k # [Suc k..<unat n]" using k(1) by (simp add: upt_rec)
  ultimately show ?case using Suc.hyps(1) [OF k(2)] k(1) by auto
qed

lemma init_desc_free_list:
  assumes "desc_pool_size P \<noteq> 0"
  shows "desc_free_list (tx_desc_init P) (map of_nat [0..<unat (desc_pool_size P)])"
proof -
  let ?n = "desc_pool_size P"
  have small: "k < 65536" if "k < unat ?n" for k using that unat_u16 [of ?n] by simp
  have inj: "inj_on (of_nat :: nat \<Rightarrow> u16) {0..<unat ?n}"
  proof (rule inj_onI)
    fix a b :: nat
    assume "a \<in> {0..<unat ?n}" "b \<in> {0..<unat ?n}" and e: "(of_nat a :: u16) = of_nat b"
    then show "a = b" using small unat_of_nat_u16 [of a] unat_of_nat_u16 [of b] by (metis atLeastLessThan_iff)
  qed
  have "of_nat k < ?n" if "k < unat ?n" for k
    using that unat_of_nat_u16 [OF small [OF that]] by (simp add: word_less_nat_alt)
  then show ?thesis
    using init_free_chain [of 0 ?n "desc_next (tx_desc_init P)" "desc_next P"] assms inj
    by (auto simp: desc_free_list_def tx_desc_init_def distinct_map unat_eq_0)
qed

lemma attach_path_ok:
  assumes "fresh_pdev P" and "fresh_pool P"
  shows "path_ok [] (tx_desc_init (ol_tx_sched_attach True P))"
proof -
  let ?P = "tx_desc_init (ol_tx_sched_attach True P)"
  let ?fl = "map of_nat [0..<unat (desc_pool_size P)] :: u16 list"
  have n: "desc_pool_size P \<noteq> 0" using assms(2) by (simp add: fresh_pool_def)
  have rdy: "tx_ready ?P"
    using attach_ready [OF assms(1)] by (subst tx_ready_cong [of _ "ol_tx_sched_attach True P"]) (simp_all add: tx_desc_init_def)
  have fl: "desc_free_list ?P ?fl"
    using init_desc_free_list [of "ol_tx_sched_attach True P"] n by (simp add: ol_tx_sched_attach_def)
  have all: "i \<in> set ?fl \<longleftrightarrow> i < desc_pool_size P" for i
  proof
    assume "i < desc_pool_size P"
    then show "i \<in> set ?fl" by (auto simp: image_iff word_less_nat_alt intro!: bexI [of _ "unat i"])
  qed (use init_desc_free_list [OF n] in \<open>auto simp: desc_free_list_def tx_desc_init_def\<close>)
  have q: "q_head (tx_queues ?P r) = []" for r
    using assms(1) by (simp add: tx_desc_init_def ol_tx_sched_attach_def fresh_pdev_def fresh_queue_def)
  have "owned ?fl (\<lambda>_. Free) [] ?P"
  proof (rule ownedI)
    show "i \<in> set ?fl \<longleftrightarrow> i < desc_pool_size ?P \<and> Free = Free" for i
      using all [of i] by (simp add: tx_desc_init_def ol_tx_sched_attach_def)
  qed (use fl assms(2) q in \<open>simp_all add: fresh_pool_def tx_desc_init_def ol_tx_sched_attach_def queued_ids_def\<close>)
  then show ?thesis using rdy by (auto simp: path_ok_def descs_ok_def)
qed

lemma attach_peers: "peers_of (tx_desc_init (ol_tx_sched_attach True P)) = peers_of P"
  by (simp add: peers_of_def vdevs_of_def tx_desc_init_def ol_tx_sched_attach_def)

lemma attached_run_ok:
  assumes "fresh_pdev P" and "fresh_pool P" and "peers_ready P"
    and "path_run E (tx_desc_init (ol_tx_sched_attach True P)) ops P'"
  shows "path_ok [] P'" and "peers_ready P'" and "peers_of P' = peers_of P"
proof -
  have "peers_ready (tx_desc_init (ol_tx_sched_attach True P))" using assms(3) peers_ready_same [OF attach_peers] by simp
  from path_run_ok [OF assms(4) attach_path_ok [OF assms(1,2)] this]
  show "path_ok [] P'" "peers_of P' = peers_of P" by (simp_all add: attach_peers)
  then show "peers_ready P'" using assms(3) peers_ready_same by blast
qed

text \<open>
  C3: On the attached device with a consistent table of peers, after any sequence of the operations of the transmit path
  that each met its condition (\<open>path_may\<close>) - frames sent, downloads that end well or badly, completions, inspections, new
  credits, pauses, discards, flushes - every descriptor of the pool is in exactly one place: in the free list, in one queue,
  or with the target; the counter of free descriptors is the length of the free list, no descriptor is twice in a queue, and
  each further operation that meets its condition returns. The conditions are not checked by the code: frames have at least
  38 bytes; a frame of an OCB device has a control header that parses (one that does not parse loses its descriptor,
  ol_tx.c:643); the frames of a list behind the first one can be classified (ol_tx.c:656); the sender's
  addresses have six bytes and the peer that it remembers exists; the target answers only for descriptors it has, each once in a message; no 8-bit counter of pauses is at
  its limit; and a virtual device is flushed only when its own queues are empty and not paused and the paused queues of
  its peers hold no frames. Flushing its own queues while they are active, or paused queues with frames, is left out
  because it breaks the counts of the scheduler (ol_tx_queue.c:113 and 345; \<open>flush_paused_counts_twice\<close>).
\<close>

theorem tx_descriptors_conserved:
  assumes "fresh_pdev P" and "fresh_pool P" and "peers_ready P"
    and "path_run E (tx_desc_init (ol_tx_sched_attach True P)) ops P'"
  shows "\<exists>fl. free_chain (desc_next P') (freelist P') fl \<and> distinct fl \<and> length fl = unat (num_free P') \<and>
    (\<forall>i. i < desc_pool_size P' \<longrightarrow>
       i \<in> set fl \<and> (\<forall>r. i \<notin> queued_ids P' r) \<and> desc_ref P' i = 0 \<or>
       i \<notin> set fl \<and> (\<exists>!r. i \<in> queued_ids P' r) \<and> desc_ref P' i = 0 \<or>
       i \<notin> set fl \<and> (\<forall>r. i \<notin> queued_ids P' r) \<and> desc_ref P' i \<noteq> 0) \<and>
    (\<forall>r. distinct (map desc_id (q_head (tx_queues P' r)))) \<and>
    (\<forall>op. path_may op P' \<longrightarrow> (\<exists>P''. path_exec E op P' = Some P''))"
proof -
  note ok = attached_run_ok [OF assms]
  obtain fl pl where ow: "owned fl pl [] P'" using ok(1) by (auto simp: path_ok_def descs_ok_def)
  note o = owned_facts [OF ow]
  have "i \<in> set fl \<and> (\<forall>r. i \<notin> queued_ids P' r) \<and> desc_ref P' i = 0 \<or>
       i \<notin> set fl \<and> (\<exists>!r. i \<in> queued_ids P' r) \<and> desc_ref P' i = 0 \<or>
       i \<notin> set fl \<and> (\<forall>r. i \<notin> queued_ids P' r) \<and> desc_ref P' i \<noteq> 0" if "i < desc_pool_size P'" for i
    using that o(4) [of i] o(5) [of i] o(6) [of i] o(7) [of i] by (cases "pl i") auto
  moreover have "\<forall>op. path_may op P' \<longrightarrow> (\<exists>P''. path_exec E op P' = Some P'')"
    using path_exec_ok [OF ok(1,2)] by blast
  ultimately show ?thesis using o(1,3)
    by (intro exI [of _ fl]) (simp add: desc_free_list_def)
qed

section \<open>A device with two peers\<close>

lemma sample_peers_ok: "peers_ok sample_peers"
proof -
  have b: "bin_of sample_peers [2, 0, 0, 0, 0, 5] = 2" "bin_of sample_peers [2, 0, 0, 0, 0, 1] = 2" by code_simp+
  have len: "length (hash_bins sample_peers) = 8" "unat (hash_mask sample_peers) = 7" by (simp_all add: sample_peers_def)
  have bins: "hash_bins sample_peers ! i = (if i = 2 then [2, 1] else [])" if "i < 8" for i
    using that by (auto simp: sample_peers_def less_Suc_eq eval_nat_numeral)
  have objs: "peer_objs sample_peers = [1 \<mapsto> sample_peer [2, 0, 0, 0, 0, 5] 0, 2 \<mapsto> sample_peer [2, 0, 0, 0, 0, 1] 1]"
    by (simp add: sample_peers_def)
  have p: "peer_mac (sample_peer m n) = m" "length m = 6 \<Longrightarrow> peer_ok (sample_peer m n)" for m n
    by (simp_all add: sample_peer_def peer_ok_def MAX_NUM_PEER_ID_PER_PEER_def)
  have e: "{h. \<exists>q. peer_objs sample_peers h = Some q \<and> bin_of sample_peers (peer_mac q) = i} = (if i = 2 then {2, 1} else {})" for i
    using b by (auto simp: objs p(1))
  have "peer_ok q" if "peer_objs sample_peers h = Some q" for h q using that p(2) by (auto simp: objs split: if_splits)
  then show ?thesis by (auto simp: peers_ok_def len bins e)
qed

definition sample_hl :: tx_hl_env where
  "sample_hl = \<lparr>download_env = sample_env,
     stack_msdu_info = \<lparr>mi_peer = None, ethertype = 0, mi_peer_id = 0, ext_tid = 0, is_unicast = False,
       l3_hdr_offset = 0, do_encrypt = False\<rparr>\<rparr>"

text \<open>A unicast IPv4 frame for the station.\<close>

definition sample_msdu :: tx_msdu where
  "sample_msdu = \<lparr>msdu_data = [2, 0, 0, 0, 0, 5, 2, 0, 0, 0, 0, 9, 8, 0, 69] @ replicate 25 0,
     msdu_tid = ADF_NBUF_TX_EXT_TID_INVALID, msdu_exempt = False\<rparr>"

lemma sample_pool: "fresh_pool (sample_pdev credit)"
  by (simp add: fresh_pool_def sample_pdev_def OL_TX_MAX_TXQ_GROUPS_def)

lemma sample_peers_ready: "peers_ready (sample_pdev credit)"
  by (simp add: peers_ready_def sample_pdev_def sample_peers_ok)

lemma sample_send:
  obtains P where "path_run sample_hl (tx_desc_init (ol_tx_sched_attach True (sample_pdev credit))) [Send 0 0 [sample_msdu]] P"
    "path_exec sample_hl (Send 0 0 [sample_msdu]) (tx_desc_init (ol_tx_sched_attach True (sample_pdev credit))) = Some P"
    "path_ok [] P"
proof -
  let ?P = "tx_desc_init (ol_tx_sched_attach True (sample_pdev credit))"
  have "frame_may sample_vdev sample_msdu" by code_simp
  moreover have "vdev_list ?P = [sample_vdev]" by (simp add: sample_pdev_def tx_desc_init_def ol_tx_sched_attach_def)
  ultimately have may: "path_may (Send 0 0 [sample_msdu]) ?P" by (simp add: sender_ok_def sample_vdev_def)
  have "peers_ready ?P" using sample_peers_ready peers_ready_same [OF attach_peers] by simp
  then show ?thesis
    using path_exec_ok [OF attach_path_ok [OF sample_fresh sample_pool] _ may] that may by (meson path_none path_step)
qed

theorem tx_descriptors_conserved_witness:
  "\<exists>P. path_run sample_hl (tx_desc_init (ol_tx_sched_attach True (sample_pdev 17))) [Send 0 0 [sample_msdu]] P \<and>
     (\<exists>fl. free_chain (desc_next P) (freelist P) fl \<and> length fl = unat (num_free P))"
proof -
  obtain P where run: "path_run sample_hl (tx_desc_init (ol_tx_sched_attach True (sample_pdev 17))) [Send 0 0 [sample_msdu]] P"
    using sample_send .
  then show ?thesis using tx_descriptors_conserved [OF sample_fresh sample_pool sample_peers_ready run] by blast
qed

text \<open>
  The transmit path gives back every reference that it takes on a peer: on the attached device with a consistent
  table of peers, after any sequence of operations of the transmit path the table is the one from before, with the same
  reference counters. Dropped frames, frames that cannot be classified and frames for peers that are not authenticated
  are included.
\<close>

theorem tx_path_returns_references:
  assumes "fresh_pdev P" and "fresh_pool P" and "peers_ready P"
    and "path_run E (tx_desc_init (ol_tx_sched_attach True P)) ops P'"
  shows "peer_tab P' = peer_tab P"
  using attached_run_ok(3) [OF assms] by (simp add: peers_of_def)

theorem tx_path_returns_references_witness:
  "\<exists>P. path_run sample_hl (tx_desc_init (ol_tx_sched_attach True (sample_pdev 5))) [Send 0 0 [sample_msdu]] P \<and>
     peer_tab P = sample_peers"
proof -
  obtain P where run: "path_run sample_hl (tx_desc_init (ol_tx_sched_attach True (sample_pdev 5))) [Send 0 0 [sample_msdu]] P"
    using sample_send .
  from tx_path_returns_references [OF sample_fresh sample_pool sample_peers_ready run]
  show ?thesis using run by (auto simp: sample_pdev_def)
qed

section \<open>A failed download\<close>

text \<open>Allocating from a free list whose first descriptor is linked to itself.\<close>

lemma alloc_self:
  assumes "freelist Q = Some i" and "desc_next Q i = Some i"
  shows "fst (ol_tx_desc_alloc v Q) = Q\<lparr>num_free := num_free Q - 1, desc_owner := (desc_owner Q)(i := Some v)\<rparr>"
  using assms by (cases Q) (simp add: ol_tx_desc_alloc_def)

text \<open>
  C25: On a target that frees frames at their download, a download that fails frees the frame of an ordinary descriptor
  twice: the descriptor is linked to itself at the head of the free list, and from then on every allocation returns
  this same descriptor, however many frames hold it.
\<close>

theorem download_error_frees_twice:
  assumes "path_ok [] P" and "desc_ref P i \<noteq> 0" and "pkt_type (desc_mem P i) = ol_tx_frm_std"
  shows "\<exists>P'. ol_tx_download_done_hl_free False i P = Some P' \<and>
    freed P' = freed P @ [(desc_mem P i, True), (desc_mem P i, True)] \<and> num_free P' = num_free P + 2 \<and>
    ((\<lambda>Q. fst (ol_tx_desc_alloc vdev Q)) ^^ n) P' = P'\<lparr>num_free := num_free P' - of_nat n,
       desc_owner := (desc_owner P')(i := if n = 0 then None else Some vdev)\<rparr> \<and>
    snd (ol_tx_desc_alloc vdev (((\<lambda>Q. fst (ol_tx_desc_alloc vdev Q)) ^^ n) P')) = Some i"
proof -
  have f: "ol_tx_desc_find i P = Some (desc_mem P i)" "desc_id (desc_mem P i) = i" using target_desc [OF assms(1,2)] by auto
  define d where "d = desc_mem P i"
  have di: "desc_id d = i" and dt: "pkt_type d = ol_tx_frm_std" using f(2) assms(3) by (simp_all add: d_def)
  define P1 where "P1 = ol_tx_desc_frame_free_nonstd True d (P\<lparr>target_tx_credit := target_tx_credit P + htt_tx_msdu_credit d\<rparr>)"
  define P' where "P' = ol_tx_desc_frame_free_nonstd True d (P1\<lparr>rsrc_cnt := rsrc_cnt P1 + 1\<rparr>)"
  have dn: "ol_tx_download_done_hl_free False i P = Some P'"
    using f(1) dt by (simp add: ol_tx_download_done_hl_free_def ol_tx_download_done_base_def d_def [symmetric] P1_def P'_def
        ol_tx_frm_std_def ol_tx_frm_no_free_def OL_TXRX_MGMT_TYPE_BASE_def)
  have loop: "freelist P' = Some i" "desc_next P' i = Some i" "desc_owner P' i = None"
    and two: "freed P' = freed P @ [(d, True), (d, True)]" "num_free P' = num_free P + 2"
    using di by (simp_all add: P'_def P1_def ol_tx_desc_frame_free_nonstd_def ol_tx_desc_free_def clear_ref_def Let_def)
  have "((\<lambda>Q. fst (ol_tx_desc_alloc vdev Q)) ^^ n) P' = P'\<lparr>num_free := num_free P' - of_nat n,
       desc_owner := (desc_owner P')(i := if n = 0 then None else Some vdev)\<rparr>" for n
  proof (induction n)
    case 0
    have "(desc_owner P')(i := None) = desc_owner P'" using loop(3) by auto
    then show ?case by simp
  next
    case (Suc n)
    show ?case unfolding funpow.simps comp_def Suc by (subst alloc_self [of _ i]) (simp_all add: loop diff_diff_eq add.commute)
  qed
  then show ?thesis using dn two loop(1) by (simp add: d_def [symmetric] ol_tx_desc_alloc_def)
qed

theorem download_error_frees_twice_witness:
  "\<exists>P P'. path_run sample_hl (tx_desc_init (ol_tx_sched_attach True (sample_pdev 17))) [Send 0 0 [sample_msdu]] P \<and>
     ol_tx_download_done_hl_free False 0 P = Some P' \<and> num_free P' = num_free P + 2 \<and>
     snd (ol_tx_desc_alloc 0 P') = Some 0"
proof -
  obtain P where run: "path_run sample_hl (tx_desc_init (ol_tx_sched_attach True (sample_pdev 17))) [Send 0 0 [sample_msdu]] P"
    and e: "path_exec sample_hl (Send 0 0 [sample_msdu]) (tx_desc_init (ol_tx_sched_attach True (sample_pdev 17))) = Some P"
    and ok: "path_ok [] P"
    using sample_send .
  have "map_option (\<lambda>P. desc_ref P 0 = 2 \<and> pkt_type (desc_mem P 0) = 0)
      (path_exec sample_hl (Send 0 0 [sample_msdu]) (tx_desc_init (ol_tx_sched_attach True (sample_pdev 17)))) = Some True"
    by code_simp
  then have "desc_ref P 0 \<noteq> 0" "pkt_type (desc_mem P 0) = ol_tx_frm_std" unfolding e by (simp_all add: ol_tx_frm_std_def)
  from download_error_frees_twice [OF ok this, of 0 0] show ?thesis using run by auto
qed

end
