(* ===== verification/Local_Ids.thy ===== *)
theory Local_Ids
  imports Peer_Inv
begin

text \<open>
  The pool of local identifiers: the free ones are a list that is linked through the pool and ends at the element
  behind the last identifier, and the others are those of the peers that are attached. \<open>X\<close> are peers that are being
  attached or detached.
\<close>

fun lid_chain :: "u8 list \<Rightarrow> u8 \<Rightarrow> u8 list \<Rightarrow> bool" where
  "lid_chain pool x [] \<longleftrightarrow> x = of_nat OL_TXRX_NUM_LOCAL_PEER_IDS"
| "lid_chain pool x (i # is) \<longleftrightarrow> x = i \<and> lid_chain pool (pool ! unat i) is"

definition lid_list :: "peer_db \<Rightarrow> u8 list \<Rightarrow> bool" where
  "lid_list D fs \<longleftrightarrow> length (lid_pool D) = OL_TXRX_NUM_LOCAL_PEER_IDS + 1 \<and>
     lid_pool D ! OL_TXRX_NUM_LOCAL_PEER_IDS = of_nat OL_TXRX_NUM_LOCAL_PEER_IDS \<and>
     length (lid_map D) = OL_TXRX_NUM_LOCAL_PEER_IDS \<and> lid_chain (lid_pool D) (lid_freelist D) fs \<and> distinct fs \<and>
     (\<forall>i\<in>set fs. unat i < OL_TXRX_NUM_LOCAL_PEER_IDS) \<and>
     (\<forall>i. unat i < OL_TXRX_NUM_LOCAL_PEER_IDS \<longrightarrow> (i \<in> set fs \<longleftrightarrow> lid_map D ! unat i = None))"

definition has_lid :: "peer_db \<Rightarrow> nat \<Rightarrow> u16 \<Rightarrow> bool" where
  "has_lid D h l \<longleftrightarrow> l = OL_TXRX_INVALID_LOCAL_PEER_ID \<or>
     unat l < OL_TXRX_NUM_LOCAL_PEER_IDS \<and> lid_map D ! unat l = Some h"

definition lids_ok :: "nat set \<Rightarrow> peer_db \<Rightarrow> bool" where
  "lids_ok X D \<longleftrightarrow> (\<exists>fs. lid_list D fs) \<and>
     (\<forall>h p. h \<notin> X \<longrightarrow> peer_objs D h = Some p \<longrightarrow> \<not> delete_in_progress p \<longrightarrow> has_lid D h (peer_local_id p)) \<and>
     (\<forall>i<OL_TXRX_NUM_LOCAL_PEER_IDS. \<forall>h. lid_map D ! i = Some h \<longrightarrow>
        h \<notin> X \<and> (\<exists>p. peer_objs D h = Some p \<and> \<not> delete_in_progress p \<and> peer_local_id p = of_nat i))"

lemma lid_chain_upd: "lid_chain pool x is \<Longrightarrow> i \<notin> set is \<Longrightarrow> lid_chain (pool[unat i := y]) x is"
  by (induction pool x "is" rule: lid_chain.induct) auto

lemma num_lids: "unat (of_nat OL_TXRX_NUM_LOCAL_PEER_IDS :: u8) = OL_TXRX_NUM_LOCAL_PEER_IDS"
  by (simp add: OL_TXRX_NUM_LOCAL_PEER_IDS_def)

text \<open>Nothing else in the table matters.\<close>

lemma lids_ok_cong:
  assumes "lids_ok X D" and "lid_pool D' = lid_pool D" "lid_freelist D' = lid_freelist D" "lid_map D' = lid_map D"
    and "\<And>h p'. peer_objs D' h = Some p' \<Longrightarrow> h \<in> X \<or>
      (\<exists>p. peer_objs D h = Some p \<and> peer_local_id p' = peer_local_id p \<and> (delete_in_progress p \<longrightarrow> delete_in_progress p'))"
    and "\<And>h p. peer_objs D h = Some p \<Longrightarrow> h \<notin> X \<Longrightarrow> \<not> delete_in_progress p \<Longrightarrow>
      (\<exists>p'. peer_objs D' h = Some p' \<and> peer_local_id p' = peer_local_id p \<and> \<not> delete_in_progress p')"
  shows "lids_ok X D'"
  using assms(1) unfolding lids_ok_def lid_list_def has_lid_def assms(2-4)
proof (elim conjE, intro conjI allI impI, goal_cases)
  case (2 h p)
  then show ?case using assms(5) [of h p] by metis
next
  case (4 i h)
  then obtain p where p: "h \<notin> X" "peer_objs D h = Some p" "\<not> delete_in_progress p" "peer_local_id p = of_nat i" by blast
  then show ?case using assms(6) [OF p(2,1,3)] by auto
qed auto

lemma pool_init_ok:
  assumes "peer_objs D = Map.empty"
  shows "lids_ok X (OL_TXRX_LOCAL_PEER_ID_POOL_INIT D)"
proof -
  let ?D = "OL_TXRX_LOCAL_PEER_ID_POOL_INIT D"
  let ?fs = "map of_nat [0..<OL_TXRX_NUM_LOCAL_PEER_IDS] :: u8 list"
  let ?pool = "map (\<lambda>i. of_nat (i + 1)) [0..<OL_TXRX_NUM_LOCAL_PEER_IDS] @ [of_nat OL_TXRX_NUM_LOCAL_PEER_IDS] :: u8 list"
  have c: "lid_chain ?pool 0 ?fs" and d: "distinct ?fs"
    by code_simp+
  have s: "i \<in> set ?fs" if "unat i < OL_TXRX_NUM_LOCAL_PEER_IDS" for i
    using that by (auto simp: image_iff intro!: bexI [of _ "unat i"])
  have l: "unat i < OL_TXRX_NUM_LOCAL_PEER_IDS" if "i \<in> set ?fs" for i
    using that by (auto simp: OL_TXRX_NUM_LOCAL_PEER_IDS_def unat_of_nat)
  have "lid_list ?D ?fs" using c d s l
    by (auto simp: lid_list_def OL_TXRX_LOCAL_PEER_ID_POOL_INIT_def nth_append)
  then show ?thesis using assms by (auto simp: lids_ok_def OL_TXRX_LOCAL_PEER_ID_POOL_INIT_def)
qed

text \<open>The new peer gets an identifier that is not in use, or none.\<close>

lemma lid_alloc_ok:
  assumes ok: "lids_ok {h} D" and p: "peer_objs D h = Some p" "\<not> delete_in_progress p"
  shows "\<exists>D' l. OL_TXRX_LOCAL_PEER_ID_ALLOC h D = Some D' \<and> lids_ok {} D' \<and>
    peer_objs D' = (peer_objs D)(h \<mapsto> p\<lparr>peer_local_id := l\<rparr>) \<and> peer_id_to_obj_map D' = peer_id_to_obj_map D \<and>
    hash_bins D' = hash_bins D \<and> hash_mask D' = hash_mask D \<and> hash_idx_bits D' = hash_idx_bits D \<and> max_peer_id D' = max_peer_id D"
proof -
  obtain fs where fs: "lid_list D fs" using ok by (auto simp: lids_ok_def)
  have none: "lid_map D ! i \<noteq> Some h" if "i < OL_TXRX_NUM_LOCAL_PEER_IDS" for i using ok that by (auto simp: lids_ok_def)
  show ?thesis
  proof (cases fs)
    case Nil
    then have f: "lid_freelist D = of_nat OL_TXRX_NUM_LOCAL_PEER_IDS" using fs by (simp add: lid_list_def)
    define D' where "D' = D\<lparr>peer_objs := (peer_objs D)(h \<mapsto> p\<lparr>peer_local_id := OL_TXRX_INVALID_LOCAL_PEER_ID\<rparr>)\<rparr>"
    have e: "OL_TXRX_LOCAL_PEER_ID_ALLOC h D = Some D'"
      using fs p(1) num_lids by (simp add: OL_TXRX_LOCAL_PEER_ID_ALLOC_def f lid_list_def upd_peer_def D'_def)
    have "lids_ok {} D'" using ok none unfolding lids_ok_def lid_list_def has_lid_def
      by (auto simp: D'_def)
    then show ?thesis using e by (intro exI [of _ D'] exI [of _ OL_TXRX_INVALID_LOCAL_PEER_ID]) (simp add: D'_def)
  next
    case (Cons i fs')
    have f: "lid_freelist D = i" and i: "unat i < OL_TXRX_NUM_LOCAL_PEER_IDS"
      and c: "lid_chain (lid_pool D) (lid_pool D ! unat i) fs'" and d: "distinct fs" and len: "length (lid_pool D) = OL_TXRX_NUM_LOCAL_PEER_IDS + 1"
        "length (lid_map D) = OL_TXRX_NUM_LOCAL_PEER_IDS"
      using fs Cons by (auto simp: lid_list_def)
    have ne: "lid_pool D ! unat i \<noteq> i"
    proof (cases fs')
      case Nil
      then show ?thesis using c i num_lids by auto
    next
      case (Cons j js)
      then show ?thesis using c d \<open>fs = i # fs'\<close> by auto
    qed
    define D' where "D' = D\<lparr>peer_objs := (peer_objs D)(h \<mapsto> p\<lparr>peer_local_id := of_nat (unat i)\<rparr>),
       lid_freelist := lid_pool D ! unat i, lid_map := (lid_map D)[unat i := Some h]\<rparr>"
    have e: "OL_TXRX_LOCAL_PEER_ID_ALLOC h D = Some D'"
      using p(1) i ne len by (simp add: OL_TXRX_LOCAL_PEER_ID_ALLOC_def f Let_def upd_peer_def D'_def)
    have mi: "lid_map D ! unat i = None" using fs i Cons by (auto simp: lid_list_def)
    have "lid_list D' fs'" using fs c d len Cons
      by (auto simp: lid_list_def D'_def nth_list_update)
    moreover have u: "unat (of_nat (unat i) :: u16) = unat i"
      by (rule unat_word_of_nat) (use i in \<open>simp add: OL_TXRX_NUM_LOCAL_PEER_IDS_def\<close>)
    have "has_lid D' h' (peer_local_id q)" if "peer_objs D' h' = Some q" "\<not> delete_in_progress q" for h' q
    proof (cases "h' = h")
      case True
      then show ?thesis using that i len u by (auto simp: has_lid_def D'_def)
    next
      case False
      then have "has_lid D h' (peer_local_id q)" using ok that by (auto simp: lids_ok_def D'_def)
      then show ?thesis using mi i len by (auto simp: has_lid_def D'_def nth_list_update)
    qed
    moreover have "\<exists>q. peer_objs D' h' = Some q \<and> \<not> delete_in_progress q \<and> peer_local_id q = of_nat j"
      if "j < OL_TXRX_NUM_LOCAL_PEER_IDS" "lid_map D' ! j = Some h'" for j h'
    proof (cases "j = unat i")
      case True
      then show ?thesis using that len p(2) by (auto simp: D'_def)
    next
      case False
      then show ?thesis using that ok none by (auto simp: D'_def lids_ok_def)
    qed
    ultimately have "lids_ok {} D'" unfolding lids_ok_def by blast
    then show ?thesis using e by (intro exI [of _ D'] exI [of _ "of_nat (unat i)"]) (simp add: D'_def)
  qed
qed

text \<open>An attached peer gives its identifier back.\<close>

lemma lid_free_ok:
  assumes ok: "lids_ok {} D" and p: "peer_objs D h = Some p" "\<not> delete_in_progress p"
  shows "\<exists>D'. OL_TXRX_LOCAL_PEER_ID_FREE h D = Some D' \<and> lids_ok {h} D' \<and> peer_objs D' = peer_objs D \<and>
    peer_id_to_obj_map D' = peer_id_to_obj_map D \<and>
    hash_bins D' = hash_bins D \<and> hash_mask D' = hash_mask D \<and> hash_idx_bits D' = hash_idx_bits D \<and> max_peer_id D' = max_peer_id D"
proof -
  obtain fs where fs: "lid_list D fs" using ok by (auto simp: lids_ok_def)
  have only: "j = unat (peer_local_id p)" if "j < OL_TXRX_NUM_LOCAL_PEER_IDS" "lid_map D ! j = Some h" for j
  proof -
    have "peer_local_id p = of_nat j" using ok that p by (auto simp: lids_ok_def)
    then show ?thesis using that(1) by (simp add: unat_of_nat take_bit_nat_eq_self OL_TXRX_NUM_LOCAL_PEER_IDS_def)
  qed
  have inv: "unat OL_TXRX_INVALID_LOCAL_PEER_ID = 65535" by (simp add: OL_TXRX_INVALID_LOCAL_PEER_ID_def)
  have h: "has_lid D h (peer_local_id p)" using ok p by (auto simp: lids_ok_def)
  show ?thesis
  proof (cases "peer_local_id p = OL_TXRX_INVALID_LOCAL_PEER_ID")
    case True
    then have "OL_TXRX_LOCAL_PEER_ID_FREE h D = Some D" using p(1) by (simp add: OL_TXRX_LOCAL_PEER_ID_FREE_def)
    moreover have "lids_ok {h} D"
      using ok only True inv unfolding lids_ok_def by (auto simp: OL_TXRX_NUM_LOCAL_PEER_IDS_def)
    ultimately show ?thesis by auto
  next
    case False
    define i where "i = unat (peer_local_id p)"
    have i: "i < OL_TXRX_NUM_LOCAL_PEER_IDS" "lid_map D ! i = Some h" using h False by (auto simp: has_lid_def i_def)
    have len: "length (lid_pool D) = OL_TXRX_NUM_LOCAL_PEER_IDS + 1" "length (lid_map D) = OL_TXRX_NUM_LOCAL_PEER_IDS"
      using fs by (auto simp: lid_list_def)
    have u: "unat (of_nat i :: u8) = i" using i(1) by (simp add: unat_of_nat take_bit_nat_eq_self OL_TXRX_NUM_LOCAL_PEER_IDS_def)
    define D' where "D' = D\<lparr>lid_pool := (lid_pool D)[i := lid_freelist D], lid_freelist := of_nat i, lid_map := (lid_map D)[i := None]\<rparr>"
    have e: "OL_TXRX_LOCAL_PEER_ID_FREE h D = Some D'"
      using p(1) i(1) len False by (simp add: OL_TXRX_LOCAL_PEER_ID_FREE_def Let_def i_def D'_def)
    have nf: "of_nat i \<notin> set fs" using fs i u unfolding lid_list_def by (metis option.distinct(1))
    have "lid_chain ((lid_pool D)[i := lid_freelist D]) (lid_freelist D) fs"
      using fs lid_chain_upd [OF _ nf] by (simp add: lid_list_def u)
    moreover have "x \<in> set (of_nat i # fs) \<longleftrightarrow> lid_map D' ! unat x = None" if "unat x < OL_TXRX_NUM_LOCAL_PEER_IDS" for x
    proof (cases "unat x = i")
      case True
      then show ?thesis using i(1) len u by (auto simp: D'_def)
    next
      case False
      then have "x \<noteq> of_nat i" using u by auto
      then show ?thesis using False fs that len by (simp add: D'_def lid_list_def)
    qed
    ultimately have l: "lid_list D' (of_nat i # fs)" using fs nf i(1) len u
      by (simp add: lid_list_def D'_def)
    have "lids_ok {h} D'" unfolding lids_ok_def
    proof (intro conjI allI impI)
      show "\<exists>fs. lid_list D' fs" using l by blast
      show "has_lid D' h' (peer_local_id q)" if "h' \<notin> {h}" "peer_objs D' h' = Some q" "\<not> delete_in_progress q" for h' q
      proof -
        have "has_lid D h' (peer_local_id q)" using ok that by (auto simp: lids_ok_def D'_def)
        then show ?thesis using i len that(1) by (auto simp: has_lid_def D'_def nth_list_update)
      qed
      fix j h'
      assume j: "j < OL_TXRX_NUM_LOCAL_PEER_IDS" "lid_map D' ! j = Some h'"
      then have "(lid_map D)[i := None] ! j = Some h'" by (simp add: D'_def)
      then have "lid_map D ! j = Some h' \<and> j \<noteq> i" using len j(1) by (cases "j = i") simp_all
      then have jm: "lid_map D ! j = Some h'" "j \<noteq> i" by auto

      then show "h' \<notin> {h}" using only [OF j(1)] by (auto simp: i_def)
      have "\<exists>q. peer_objs D h' = Some q \<and> \<not> delete_in_progress q \<and> peer_local_id q = of_nat j"
        using ok j(1) jm(1) by (simp add: lids_ok_def)
      then show "\<exists>q. peer_objs D' h' = Some q \<and> \<not> delete_in_progress q \<and> peer_local_id q = of_nat j" by (simp add: D'_def)
    qed
    then show ?thesis using e by (intro exI [of _ D']) (simp add: D'_def)
  qed
qed

end
