(* ===== verification/Peer_Refs.thy ===== *)
theory Peer_Refs
  imports Local_Ids Peer_Class Tx_Frame
begin

text \<open>
  Why the counters of references are right: a peer is referred to by its user, until it is detached, by the first
  identifier that it waits for, and by each identifier that it has. \<open>e\<close> counts the references that a running operation
  holds or owes. The table agrees with the lists of peers of the virtual devices.
\<close>

section \<open>References\<close>

definition refs_of :: "peer_db \<Rightarrow> nat \<Rightarrow> tx_peer_t \<Rightarrow> int" where
  "refs_of D h p = (if delete_in_progress p then 0 else 1) + (if peer_ids p ! 0 = HTT_INVALID_PEER then 1 else 0) +
     int (count_list (peer_id_to_obj_map D) (Some h))"

definition refs_ok :: "(nat \<Rightarrow> int) \<Rightarrow> peer_db \<Rightarrow> bool" where
  "refs_ok e D \<longleftrightarrow> peers_ok D \<and> unat (max_peer_id D) < 65535 \<and>
     length (peer_id_to_obj_map D) = unat (max_peer_id D) + 1 \<and>
     (\<forall>h. Some h \<in> set (peer_id_to_obj_map D) \<longrightarrow> peer_objs D h \<noteq> None) \<and>
     (\<forall>h p. peer_objs D h = Some p \<longrightarrow> ref_cnt p = refs_of D h p + e h \<and> (peer_valid p \<longleftrightarrow> \<not> delete_in_progress p))"

lemma refs_okD:
  assumes "refs_ok e D"
  shows "peers_ok D" and "unat (max_peer_id D) < 65535" and "length (peer_id_to_obj_map D) = unat (max_peer_id D) + 1"
    and "Some h \<in> set (peer_id_to_obj_map D) \<Longrightarrow> \<exists>p. peer_objs D h = Some p"
    and "peer_objs D h = Some p \<Longrightarrow> ref_cnt p = refs_of D h p + e h"
    and "peer_objs D h = Some p \<Longrightarrow> peer_valid p \<longleftrightarrow> \<not> delete_in_progress p"
    and "peer_objs D h = Some p \<Longrightarrow> peer_ok p"
  using assms peer_okD [of D h p] by (auto simp: refs_ok_def)

lemma refs_of_cong [simp]:
  "refs_of (D\<lparr>peer_objs := a\<rparr>) h p = refs_of D h p" "refs_of (D\<lparr>hash_bins := b\<rparr>) h p = refs_of D h p"
  by (simp_all add: refs_of_def)

lemma refs_ok_none: "refs_ok (\<lambda>_. 0) D \<Longrightarrow> refs_ok (\<lambda>h'. if h' = h then 0 else 0) D"
  by simp

lemma count_list_update:
  "i < length xs \<Longrightarrow> int (count_list (xs[i := y]) x) =
     int (count_list xs x) + (if y = x then 1 else 0) - (if xs ! i = x then 1 else 0)"
proof (induction xs arbitrary: i)
  case (Cons a xs)
  show ?case
  proof (cases i)
    case (Suc n)
    have "int (count_list (xs[n := y]) x) = int (count_list xs x) + (if y = x then 1 else 0) - (if xs ! n = x then 1 else 0)"
      using Cons Suc by simp
    then show ?thesis using Suc by (cases "y = x"; cases "xs ! n = x"; simp)
  qed simp
qed simp

lemma refs_ok_obj:
  assumes ok: "refs_ok e D" and p: "peer_objs D h = Some p" and "peer_mac p' = peer_mac p" "peer_ok p'"
    and "ref_cnt p' = refs_of D h p' + e' h" "peer_valid p' \<longleftrightarrow> \<not> delete_in_progress p'" "\<And>h'. h' \<noteq> h \<Longrightarrow> e' h' = e h'"
  shows "refs_ok e' (D\<lparr>peer_objs := (peer_objs D)(h \<mapsto> p')\<rparr>)"
proof -
  have "peers_ok (D\<lparr>peer_objs := (peer_objs D)(h \<mapsto> p')\<rparr>)"
    by (rule peers_ok_upd [OF refs_okD(1) [OF ok], of h "\<lambda>_. p'"]) (use assms in \<open>simp_all add: upd_peer_def\<close>)
  then show ?thesis using assms by (simp add: refs_ok_def)
qed

lemma refs_ok_slot:
  assumes ok: "refs_ok e D" and i: "i < length (peer_id_to_obj_map D)" and s: "\<And>h. s = Some h \<Longrightarrow> peer_objs D h \<noteq> None"
    and e': "\<And>h. e' h = e h + (if peer_id_to_obj_map D ! i = Some h then 1 else 0) - (if s = Some h then 1 else 0)"
  shows "refs_ok e' (D\<lparr>peer_id_to_obj_map := (peer_id_to_obj_map D)[i := s]\<rparr>)"
proof -
  let ?D = "D\<lparr>peer_id_to_obj_map := (peer_id_to_obj_map D)[i := s]\<rparr>"
  have "peers_ok ?D" using refs_okD(1) [OF ok] by (simp add: peers_ok_def)
  moreover have "refs_of ?D h p + e' h = refs_of D h p + e h" for h p
    using count_list_update [OF i, of s "Some h"] by (simp add: refs_of_def e')
  moreover have "peer_objs D h \<noteq> None" if "Some h \<in> set ((peer_id_to_obj_map D)[i := s])" for h
    using set_update_subset_insert [of "peer_id_to_obj_map D" i s] that s refs_okD(4) [OF ok, of h] by auto
  ultimately show ?thesis using ok by (simp add: refs_ok_def)
qed

lemma refs_ok_held:
  assumes "refs_ok e D" and "peer_objs D h = Some p"
  shows "refs_ok (e(h := e h + 1)) (held h D)"
proof -
  have "refs_ok (e(h := e h + 1)) (D\<lparr>peer_objs := (peer_objs D)(h \<mapsto> p\<lparr>ref_cnt := ref_cnt p + 1\<rparr>)\<rparr>)"
    by (rule refs_ok_obj [OF assms])
      (use refs_okD(5,6,7) [OF assms(1,2)] in \<open>simp_all add: peer_ok_def refs_of_def\<close>)
  then show ?thesis using assms(2) by (simp add: held_def)
qed

section \<open>New and deleted peers\<close>

lemma peers_ok_add:
  assumes ok: "peers_ok D" and new: "peer_objs D h = None" and p: "peer_ok p"
  shows "peers_ok (D\<lparr>peer_objs := (peer_objs D)(h \<mapsto> p),
    hash_bins := (hash_bins D)[bin_of D (peer_mac p) := hash_bins D ! bin_of D (peer_mac p) @ [h]]\<rparr>)"
proof -
  let ?b = "bin_of D (peer_mac p)"
  have b: "?b < length (hash_bins D)" by (rule bin_of_less [OF ok])
  have d: "distinct (hash_bins D ! i)" and s: "set (hash_bins D ! i) = {h. \<exists>q. peer_objs D h = Some q \<and> bin_of D (peer_mac q) = i}"
    if "i < length (hash_bins D)" for i using ok that by (simp_all add: peers_ok_def)
  have n: "h \<notin> set (hash_bins D ! ?b)" using new s [OF b] by simp
  have e: "{h'. \<exists>q. ((peer_objs D)(h \<mapsto> p)) h' = Some q \<and> bin_of D (peer_mac q) = i} =
    (if i = ?b then insert h else id) {h. \<exists>q. peer_objs D h = Some q \<and> bin_of D (peer_mac q) = i}" for i
    using new by auto
  show ?thesis unfolding peers_ok_def
  proof (intro conjI allI impI)
    fix i assume "i < length (hash_bins (D\<lparr>peer_objs := (peer_objs D)(h \<mapsto> p), hash_bins := (hash_bins D)[?b := hash_bins D ! ?b @ [h]]\<rparr>))"
    then have i: "i < length (hash_bins D)" by simp
    show "distinct (hash_bins (D\<lparr>peer_objs := (peer_objs D)(h \<mapsto> p), hash_bins := (hash_bins D)[?b := hash_bins D ! ?b @ [h]]\<rparr>) ! i)"
      using d [OF i] n b i by (cases "i = ?b") auto
    show "set (hash_bins (D\<lparr>peer_objs := (peer_objs D)(h \<mapsto> p), hash_bins := (hash_bins D)[?b := hash_bins D ! ?b @ [h]]\<rparr>) ! i) =
      {h'. \<exists>q. peer_objs (D\<lparr>peer_objs := (peer_objs D)(h \<mapsto> p), hash_bins := (hash_bins D)[?b := hash_bins D ! ?b @ [h]]\<rparr>) h' = Some q \<and>
         bin_of (D\<lparr>peer_objs := (peer_objs D)(h \<mapsto> p), hash_bins := (hash_bins D)[?b := hash_bins D ! ?b @ [h]]\<rparr>) (peer_mac q) = i}"
      using s [OF i] e [of i] b i by (cases "i = ?b") simp_all
  qed (use ok p peer_okD [OF ok] in \<open>auto simp: peers_ok_def split: if_splits\<close>)
qed

lemma refs_ok_add:
  assumes ok: "refs_ok e D" and new: "peer_objs D h = None" and p: "peer_ok p" "peer_valid p" "\<not> delete_in_progress p"
    "ref_cnt p = 2" "peer_ids p ! 0 = HTT_INVALID_PEER" and e: "e h = 0"
  shows "refs_ok e (D\<lparr>peer_objs := (peer_objs D)(h \<mapsto> p),
    hash_bins := (hash_bins D)[bin_of D (peer_mac p) := hash_bins D ! bin_of D (peer_mac p) @ [h]]\<rparr>)"
proof -
  have "Some h \<notin> set (peer_id_to_obj_map D)" using refs_okD(4) [OF ok, of h] new by auto
  then have "refs_of D h p = 2" using p by (simp add: refs_of_def count_list_0_iff)
  then show ?thesis using ok p peers_ok_add [OF refs_okD(1) [OF ok] new p(1)] e by (simp add: refs_ok_def)
qed

lemma hash_add_eq:
  assumes "peers_ok D" and "hash_bins D' = hash_bins D" "hash_mask D' = hash_mask D" "hash_idx_bits D' = hash_idx_bits D"
    and "peer_objs D' h = Some p"
  shows "ol_txrx_peer_find_hash_add h D' = Some (D'\<lparr>hash_bins := (hash_bins D)[bin_of D (peer_mac p) := hash_bins D ! bin_of D (peer_mac p) @ [h]]\<rparr>)"
proof -
  have "unat (ol_txrx_peer_find_hash_index D' (peer_mac p)) = bin_of D (peer_mac p)"
    using assms(3,4) by (simp add: bin_of_def ol_txrx_peer_find_hash_index_def)
  then show ?thesis using assms bin_of_less [OF assms(1), of "peer_mac p"] by (simp add: ol_txrx_peer_find_hash_add_def Let_def)
qed

lemma peers_ok_remove:
  assumes ok: "peers_ok D" and p: "peer_objs D h = Some p"
  shows "peers_ok (D\<lparr>peer_objs := (peer_objs D)(h := None),
    hash_bins := (hash_bins D)[bin_of D (peer_mac p) := remove1 h (hash_bins D ! bin_of D (peer_mac p))]\<rparr>)"
proof -
  let ?b = "bin_of D (peer_mac p)"
  let ?D = "D\<lparr>peer_objs := (peer_objs D)(h := None), hash_bins := (hash_bins D)[?b := remove1 h (hash_bins D ! ?b)]\<rparr>"
  have b: "?b < length (hash_bins D)" by (rule bin_of_less [OF ok])
  have d: "distinct (hash_bins D ! i)" and s: "set (hash_bins D ! i) = {h. \<exists>q. peer_objs D h = Some q \<and> bin_of D (peer_mac q) = i}"
    if "i < length (hash_bins D)" for i using ok that by (simp_all add: peers_ok_def)
  have e: "{h'. \<exists>q. ((peer_objs D)(h := None)) h' = Some q \<and> bin_of D (peer_mac q) = i} =
    {h. \<exists>q. peer_objs D h = Some q \<and> bin_of D (peer_mac q) = i} - {h}" for i by auto
  show ?thesis unfolding peers_ok_def
  proof (intro conjI allI impI)
    fix i assume "i < length (hash_bins ?D)"
    then have i: "i < length (hash_bins D)" by simp
    show "distinct (hash_bins ?D ! i)" using d [OF i] b i by (cases "i = ?b") auto
    have "i \<noteq> ?b \<Longrightarrow> h \<notin> set (hash_bins D ! i)" using s [OF i] p by auto
    then show "set (hash_bins ?D ! i) = {h'. \<exists>q. peer_objs ?D h' = Some q \<and> bin_of ?D (peer_mac q) = i}"
      using s [OF i] d [OF i] e [of i] b i by (cases "i = ?b") simp_all
  qed (use ok peer_okD [OF ok] in \<open>auto simp: peers_ok_def split: if_splits\<close>)
qed

lemma refs_ok_remove:
  assumes ok: "refs_ok e D" and p: "peer_objs D h = Some p" "Some h \<notin> set (peer_id_to_obj_map D)" and e: "\<And>h'. h' \<noteq> h \<Longrightarrow> e' h' = e h'"
  shows "refs_ok e' (D\<lparr>peer_objs := (peer_objs D)(h := None),
    hash_bins := (hash_bins D)[bin_of D (peer_mac p) := remove1 h (hash_bins D ! bin_of D (peer_mac p))]\<rparr>)"
  using ok p e peers_ok_remove [OF refs_okD(1) [OF ok] p(1)] by (auto simp: refs_ok_def)

lemma hash_remove_eq:
  assumes "peers_ok D" and "hash_bins D' = hash_bins D" "hash_mask D' = hash_mask D" "hash_idx_bits D' = hash_idx_bits D"
    and "peer_objs D h = Some p" and "peer_objs D' h = Some p'" and "peer_mac p' = peer_mac p"
  shows "ol_txrx_peer_find_hash_remove h D' = Some (D'\<lparr>hash_bins := (hash_bins D)[bin_of D (peer_mac p) := remove1 h (hash_bins D ! bin_of D (peer_mac p))]\<rparr>)"
proof -
  have "unat (ol_txrx_peer_find_hash_index D' (peer_mac p)) = bin_of D (peer_mac p)"
    using assms(3,4) by (simp add: bin_of_def ol_txrx_peer_find_hash_index_def)
  moreover have "h \<in> set (hash_bins D ! bin_of D (peer_mac p))" using in_bin [OF assms(1), of h "peer_mac p"] assms(5) by auto
  ultimately show ?thesis using assms bin_of_less [OF assms(1), of "peer_mac p"] by (simp add: ol_txrx_peer_find_hash_remove_def Let_def)
qed

section \<open>The virtual devices\<close>

definition vdev_ok :: "peer_db \<Rightarrow> ol_txrx_vdev_t \<Rightarrow> bool" where
  "vdev_ok D vdev \<longleftrightarrow> distinct (peer_list vdev) \<and>
     (\<forall>h. h \<in> set (peer_list vdev) \<longleftrightarrow> (\<exists>p. peer_objs D h = Some p \<and> peer_vdev p = vdev_id vdev)) \<and>
     (\<forall>h. last_real_peer vdev = Some h \<longrightarrow>
        (\<exists>p. peer_objs D h = Some p \<and> peer_vdev p = vdev_id vdev \<and> \<not> delete_in_progress p)) \<and>
     length (vdev_mac_addr vdev) = 6 \<and> length (hl_tdls_ap_mac_addr vdev) = 6"

definition vdevs_ok :: "peer_db \<Rightarrow> ol_txrx_vdev_t list \<Rightarrow> bool" where
  "vdevs_ok D V \<longleftrightarrow> distinct (map vdev_id V) \<and> (\<forall>vdev\<in>set V. vdev_ok D vdev) \<and>
     (\<forall>h p. peer_objs D h = Some p \<longrightarrow> peer_vdev p \<in> vdev_id ` set V)"

text \<open>A peer's part in this is its virtual device, and whether it is being deleted.\<close>

definition vdev_part :: "peer_db \<Rightarrow> nat \<Rightarrow> (u8 \<times> bool) option" where
  "vdev_part D h = map_option (\<lambda>p. (peer_vdev p, delete_in_progress p)) (peer_objs D h)"

lemma vdev_ok_part:
  "vdev_ok D vdev \<longleftrightarrow> distinct (peer_list vdev) \<and>
     (\<forall>h. h \<in> set (peer_list vdev) \<longleftrightarrow> (\<exists>d. vdev_part D h = Some (vdev_id vdev, d))) \<and>
     (\<forall>h. last_real_peer vdev = Some h \<longrightarrow> vdev_part D h = Some (vdev_id vdev, False)) \<and>
     length (vdev_mac_addr vdev) = 6 \<and> length (hl_tdls_ap_mac_addr vdev) = 6"
  unfolding vdev_ok_def vdev_part_def by (intro arg_cong2 [where f = "(\<and>)"]) auto

lemma vdevs_ok_part:
  "vdevs_ok D V \<longleftrightarrow> distinct (map vdev_id V) \<and> (\<forall>vdev\<in>set V. vdev_ok D vdev) \<and>
     (\<forall>h v d. vdev_part D h = Some (v, d) \<longrightarrow> v \<in> vdev_id ` set V)"
  by (fastforce simp: vdevs_ok_def vdev_part_def)

lemma vdevs_ok_cong: "vdev_part D' = vdev_part D \<Longrightarrow> vdevs_ok D V \<Longrightarrow> vdevs_ok D' V"
  by (simp add: vdevs_ok_part vdev_ok_part)

text \<open>The reasons of a pause and the identifier that is waited for do not matter.\<close>

lemma vdev_ok_free [simp]:
  "vdev_ok D (vdev\<lparr>hl_paused_reason := n\<rparr>) = vdev_ok D vdev" "vdev_ok D (vdev\<lparr>wait_on_peer_id := l\<rparr>) = vdev_ok D vdev"
  by (simp_all add: vdev_ok_def)

lemma vdevs_ok_map:
  assumes "\<And>vdev. vdev \<in> set V \<Longrightarrow> vdev_id (f vdev) = vdev_id vdev" and "\<And>vdev. vdev \<in> set V \<Longrightarrow> vdev_ok D' (f vdev)"
    and "\<And>h v d. vdev_part D' h = Some (v, d) \<Longrightarrow> v \<in> vdev_id ` set V" and "distinct (map vdev_id V)"
  shows "vdevs_ok D' (map f V)"
proof -
  have m: "map vdev_id (map f V) = map vdev_id V" using assms(1) by simp
  then have s: "vdev_id ` set (map f V) = vdev_id ` set V" by (metis set_map)
  show ?thesis unfolding vdevs_ok_part m s using assms by auto
qed

lemma vdevs_of_ok: "vdevs_ok D (vdevs_of P) \<longleftrightarrow> vdevs_ok D (vdev_list P)"
  by (simp add: vdevs_ok_def vdevs_of_def comp_def image_image)

lemma find_vdev_some:
  assumes "vdevs_ok D (vdev_list P)" and "v \<in> vdev_id ` set (vdev_list P)"
  obtains vdev where "find_vdev v P = Some vdev" "vdev \<in> set (vdev_list P)" "vdev_id vdev = v"
proof -
  have "find_vdev v P \<noteq> None" using assms(2) by (auto simp: find_vdev_def find_None_iff)
  then obtain vdev where "find_vdev v P = Some vdev" by blast
  then show ?thesis using that by (auto simp: find_vdev_def dest!: find_SomeD)
qed

end
