(* ===== verification/Peer_Unref.thy ===== *)
theory Peer_Unref
  imports Peer_Refs Tx_Complete
begin

text \<open>
  The device with its peers is consistent - queues, descriptors, references, virtual devices, local identifiers - and
  stays so when a reference is given back: the last one deletes the peer, with its frames, and nothing else refers to it.
\<close>

section \<open>The virtual devices after a change\<close>

abbreviation on_vdev :: "u8 \<Rightarrow> (ol_txrx_vdev_t \<Rightarrow> ol_txrx_vdev_t) \<Rightarrow> ol_txrx_vdev_t list \<Rightarrow> ol_txrx_vdev_t list" where
  "on_vdev v f \<equiv> map (\<lambda>vdev. if vdev_id vdev = v then f vdev else vdev)"

lemma vdevs_okD:
  assumes "vdevs_ok D V"
  shows "vdev \<in> set V \<Longrightarrow> vdev_ok D vdev" and "distinct (map vdev_id V)"
    and "peer_objs D h = Some p \<Longrightarrow> peer_vdev p \<in> vdev_id ` set V"
    and "vdev_part D h = Some (v, d) \<Longrightarrow> v \<in> vdev_id ` set V"
  using assms by (auto simp: vdevs_ok_def vdev_part_def)

lemma vdevs_ok_wait: "vdevs_ok D V \<Longrightarrow> vdevs_ok D (on_vdev v (\<lambda>vdev. vdev\<lparr>wait_on_peer_id := l\<rparr>) V)"
  by (rule vdevs_ok_map) (auto dest: vdevs_okD)

lemma vdevs_ok_remove:
  assumes "vdevs_ok D V" and "vdev_part D h = Some (v, True)" and "vdev_part D' = (vdev_part D)(h := None)"
  shows "vdevs_ok D' (on_vdev v (\<lambda>vdev. vdev\<lparr>peer_list := remove1 h (peer_list vdev)\<rparr>) V)"
proof (rule vdevs_ok_map)
  show "vdev_ok D' (if vdev_id vdev = v then vdev\<lparr>peer_list := remove1 h (peer_list vdev)\<rparr> else vdev)" if "vdev \<in> set V" for vdev
    using vdevs_okD(1) [OF assms(1) that] assms(2,3) unfolding vdev_ok_part by auto
qed (use vdevs_okD(2,4) [OF assms(1)] assms(3) in \<open>auto split: if_splits\<close>)

lemma vdevs_ok_add:
  assumes "vdevs_ok D V" and "vdev_part D h = None" and "v \<in> vdev_id ` set V" and "vdev_part D' = (vdev_part D)(h \<mapsto> (v, False))"
  shows "vdevs_ok D' (on_vdev v (\<lambda>vdev. vdev\<lparr>peer_list := peer_list vdev @ [h]\<rparr>) V)"
proof (rule vdevs_ok_map)
  show "vdev_ok D' (if vdev_id vdev = v then vdev\<lparr>peer_list := peer_list vdev @ [h]\<rparr> else vdev)" if "vdev \<in> set V" for vdev
    using vdevs_okD(1) [OF assms(1) that] assms(2,4) unfolding vdev_ok_part by auto
qed (use vdevs_okD(2,4) [OF assms(1)] assms(3,4) in \<open>auto split: if_splits\<close>)

lemma vdevs_ok_last:
  assumes "vdevs_ok D V" and "vdev_part D h = Some (v, False)"
  shows "vdevs_ok D (on_vdev v (\<lambda>vdev. vdev\<lparr>last_real_peer := Some h\<rparr>) V)"
proof (rule vdevs_ok_map)
  show "vdev_ok D (if vdev_id vdev = v then vdev\<lparr>last_real_peer := Some h\<rparr> else vdev)" if "vdev \<in> set V" for vdev
    using vdevs_okD(1) [OF assms(1) that] assms(2) unfolding vdev_ok_part by auto
qed (use vdevs_okD(2,4) [OF assms(1)] in auto)

lemma vdevs_ok_forget:
  assumes "vdevs_ok D V" and "vdev_part D h = Some (v, d)" and "vdev_part D' = (vdev_part D)(h \<mapsto> (v, True))"
  shows "vdevs_ok D' (on_vdev v (\<lambda>vdev. if last_real_peer vdev = Some h then vdev\<lparr>last_real_peer := None\<rparr> else vdev) V)"
proof (rule vdevs_ok_map)
  show "vdev_ok D' (if vdev_id vdev = v then (if last_real_peer vdev = Some h then vdev\<lparr>last_real_peer := None\<rparr> else vdev) else vdev)"
    if "vdev \<in> set V" for vdev
    using vdevs_okD(1) [OF assms(1) that] assms(2,3) unfolding vdev_ok_part by auto
qed (use vdevs_okD(2,4) [OF assms(1)] assms(2,3) in \<open>auto split: if_splits\<close>)

section \<open>Consistency\<close>

definition quiet :: "ol_txrx_pdev_t \<Rightarrow> bool" where
  "quiet P \<longleftrightarrow> (\<forall>h. \<forall>t<OL_TX_NUM_TIDS. peer_objs (peer_tab P) h = None \<longrightarrow> q_head (tx_queues P (PeerTxq h t)) = [])"

text \<open>\<open>X\<close> is a peer that is being attached, and has no local identifier yet.\<close>

definition life_in :: "nat set \<Rightarrow> (nat \<Rightarrow> int) \<Rightarrow> ol_txrx_pdev_t \<Rightarrow> bool" where
  "life_in X e P \<longleftrightarrow> path_ok [] P \<and> frame_format P \<noteq> wlan_frm_fmt_unknown \<and> refs_ok e (peer_tab P) \<and>
     vdevs_ok (peer_tab P) (vdev_list P) \<and> lids_ok X (peer_tab P) \<and> quiet P"

abbreviation life_ok :: "(nat \<Rightarrow> int) \<Rightarrow> ol_txrx_pdev_t \<Rightarrow> bool" where
  "life_ok \<equiv> life_in {}"

lemma life_okD:
  assumes "life_in X e P"
  shows "path_ok [] P" "frame_format P \<noteq> wlan_frm_fmt_unknown" "refs_ok e (peer_tab P)" "peers_ok (peer_tab P)"
    "vdevs_ok (peer_tab P) (vdev_list P)" "lids_ok X (peer_tab P)" "quiet P" "peers_ready P"
  using assms refs_okD(1) by (auto simp: life_in_def peers_ready_def)

lemma path_ok_vdevs [simp]: "path_ok T (P\<lparr>vdev_list := V\<rparr>) \<longleftrightarrow> path_ok T P"
proof -
  have "tx_ready (P\<lparr>vdev_list := V\<rparr>) = tx_ready P" by (rule tx_ready_cong) simp_all
  moreover have "descs_ok T (P\<lparr>vdev_list := V\<rparr>) \<Longrightarrow> descs_ok T P"
    using descs_ok_same [of "P\<lparr>vdev_list := V\<rparr>" P T] by (simp add: same_descs_def)
  moreover have "descs_ok T P \<Longrightarrow> descs_ok T (P\<lparr>vdev_list := V\<rparr>)" using descs_ok_same [of P "P\<lparr>vdev_list := V\<rparr>" T] by simp
  ultimately show ?thesis by (auto simp: path_ok_def)
qed

lemma part_none:
  assumes "vdev_part D' = vdev_part D"
  shows "peer_objs D' h = None \<longleftrightarrow> peer_objs D h = None"
proof -
  have "vdev_part D' h = vdev_part D h" by (simp add: assms)
  then show ?thesis by (cases "peer_objs D' h"; cases "peer_objs D h") (simp_all add: vdev_part_def)
qed

lemma life_ok_tab:
  assumes "life_in X e P" and "refs_ok e' D'" and "vdev_part D' = vdev_part (peer_tab P)" and "lids_ok X D'"
  shows "life_in X e' (P\<lparr>peer_tab := D'\<rparr>)"
  using assms vdevs_ok_cong [OF assms(3)] part_none [OF assms(3)] by (simp add: life_in_def quiet_def)

text \<open>Operations of the queues.\<close>

lemma life_ok_queues:
  assumes "life_in X e P" and "path_ok [] P'" and "peers_of P' = peers_of P" and "only_live (peer_objs (peer_tab P)) P P'"
  shows "life_in X e P'"
proof -
  have e: "peer_tab P' = peer_tab P" "frame_format P' = frame_format P" "vdevs_of P' = vdevs_of P"
    using assms(3) by (simp_all add: peers_of_def)
  have "vdevs_ok (peer_tab P') (vdev_list P')"
    using life_okD(5) [OF assms(1)] vdevs_of_ok [of "peer_tab P" P] vdevs_of_ok [of "peer_tab P" P'] e by simp
  then show ?thesis using assms e by (simp add: life_in_def quiet_def only_live_def)
qed

text \<open>A change of a peer that keeps what the others know of it.\<close>

lemma life_ok_obj:
  assumes ok: "life_in X e P" and p: "peer_objs (peer_tab P) h = Some p"
    and same: "peer_mac p' = peer_mac p" "peer_vdev p' = peer_vdev p" "delete_in_progress p' = delete_in_progress p"
      "peer_local_id p' = peer_local_id p" "peer_valid p' = peer_valid p"
    and r: "peer_ok p'" "ref_cnt p' = refs_of (peer_tab P) h p' + e' h" "\<And>h'. h' \<noteq> h \<Longrightarrow> e' h' = e h'"
  shows "life_in X e' (P\<lparr>peer_tab := (peer_tab P)\<lparr>peer_objs := (peer_objs (peer_tab P))(h \<mapsto> p')\<rparr>\<rparr>)"
proof (rule life_ok_tab [OF ok])
  let ?D = "(peer_tab P)\<lparr>peer_objs := (peer_objs (peer_tab P))(h \<mapsto> p')\<rparr>"
  show "refs_ok e' ?D"
    by (rule refs_ok_obj [OF life_okD(3) [OF ok] p]) (use same r refs_okD(6) [OF life_okD(3) [OF ok] p] in simp_all)
  show "vdev_part ?D = vdev_part (peer_tab P)" using p same by (auto simp: vdev_part_def)
  show "lids_ok X ?D" by (rule lids_ok_cong [OF life_okD(6) [OF ok]]) (use p same in \<open>auto split: if_splits\<close>)
qed

lemma life_ok_dec:
  assumes ok: "life_in X e P" and p: "peer_objs (peer_tab P) h = Some p" and "1 < ref_cnt p" and e': "e' = e(h := e h - 1)"
  shows "on_peers (dec_ref h) P = Some (P\<lparr>peer_tab := (peer_tab P)\<lparr>peer_objs := (peer_objs (peer_tab P))(h \<mapsto> p\<lparr>ref_cnt := ref_cnt p - 1\<rparr>)\<rparr>\<rparr>)"
    and "life_in X e' (P\<lparr>peer_tab := (peer_tab P)\<lparr>peer_objs := (peer_objs (peer_tab P))(h \<mapsto> p\<lparr>ref_cnt := ref_cnt p - 1\<rparr>)\<rparr>\<rparr>)"
proof -
  show "on_peers (dec_ref h) P = Some (P\<lparr>peer_tab := (peer_tab P)\<lparr>peer_objs := (peer_objs (peer_tab P))(h \<mapsto> p\<lparr>ref_cnt := ref_cnt p - 1\<rparr>)\<rparr>\<rparr>)"
    using p by (simp add: on_peers_def dec_ref_def upd_peer_def)
  show "life_in X e' (P\<lparr>peer_tab := (peer_tab P)\<lparr>peer_objs := (peer_objs (peer_tab P))(h \<mapsto> p\<lparr>ref_cnt := ref_cnt p - 1\<rparr>)\<rparr>\<rparr>)"
    by (rule life_ok_obj [OF ok p])
      (use refs_okD(5,7) [OF life_okD(3) [OF ok] p] assms(3) in \<open>simp_all add: peer_ok_def refs_of_def e'\<close>)
qed

section \<open>The frames of a deleted peer\<close>

definition unpaused :: "nat \<Rightarrow> ol_txrx_pdev_t \<Rightarrow> bool" where
  "unpaused h P \<longleftrightarrow> (\<forall>t<OL_TX_NUM_TIDS. q_flag (tx_queues P (PeerTxq h t)) \<noteq> ol_tx_queue_paused)"

lemma free_peer_queues:
  assumes "path_ok [] P" and "unpaused h P"
  shows "\<exists>P'. for_each [0..<OL_TX_NUM_TIDS] (\<lambda>i. ol_tx_queue_free (PeerTxq h i) i) P = Some P' \<and> path_ok [] P' \<and>
    peers_of P' = peers_of P \<and> vdev_list P' = vdev_list P \<and> drains P P' \<and>
    (\<forall>t<OL_TX_NUM_TIDS. q_head (tx_queues P' (PeerTxq h t)) = [])"
proof -
  let ?I = "\<lambda>is Q. path_ok [] Q \<and> peers_of Q = peers_of P \<and> vdev_list Q = vdev_list P \<and> drains P Q \<and> unpaused h Q \<and>
    set is \<subseteq> {..<OL_TX_NUM_TIDS} \<and> (\<forall>t<OL_TX_NUM_TIDS. t \<notin> set is \<longrightarrow> q_head (tx_queues Q (PeerTxq h t)) = [])"
  have "\<exists>P'. for_each [0..<OL_TX_NUM_TIDS] (\<lambda>i. ol_tx_queue_free (PeerTxq h i) i) P = Some P' \<and> ?I [] P'"
  proof (rule for_each_rest [where I = ?I])
    fix i js Q
    assume I: "?I (i # js) Q"
    then have v: "txq_valid (PeerTxq h i)" and rdy: "tx_ready Q" and np: "q_flag (tx_queues Q (PeerTxq h i)) \<noteq> ol_tx_queue_paused"
      by (auto simp: path_ok_def unpaused_def)
    obtain Q' where Q': "ol_tx_queue_free (PeerTxq h i) i Q = Some Q'" "tx_ready Q'" "some_emptied Q Q'" "q_frms (tx_queues Q' (PeerTxq h i)) = 0"
      using free_some_emptied [OF rdy v np] by auto
    have z: "q_head (tx_queues Q' (PeerTxq h i)) = []"
      using queue_ok_frms(1) [OF tx_inv_queue [OF _ v]] Q'(2,4) by (auto simp: tx_ready_def)
    have d: "drains Q Q'" using queue_free_drains [OF Q'(1)] .
    have "path_ok [] Q'" "vdev_list Q' = vdev_list Q" using I Q'(2,3) by (auto simp: path_ok_def some_emptied_def keeps_descs_def)
    moreover have "unpaused h Q'" using I Q'(3) unfolding unpaused_def some_emptied_def by (metis ol_tx_queue_status.distinct(3))
    moreover have "q_head (tx_queues Q' (PeerTxq h t)) = []" if "t < OL_TX_NUM_TIDS" "t \<notin> set js" for t
      using I d z that by (cases "t = i") (auto simp: drains_def)
    ultimately show "\<exists>s'. ol_tx_queue_free (PeerTxq h i) i Q = Some s' \<and> ?I js s'"
      using I Q'(1) queue_free_peers [OF Q'(1)] drains_trans [OF _ d] by auto
  qed (use assms in auto)
  then show ?thesis by auto
qed

section \<open>Giving back a reference\<close>

text \<open>What stays of the table: the map of identifiers, and which virtual devices there are.\<close>

definition frame_of :: "ol_txrx_pdev_t \<Rightarrow> nat option list \<times> u16 \<times> u8 list" where
  "frame_of P = (peer_id_to_obj_map (peer_tab P), max_peer_id (peer_tab P), map vdev_id (vdev_list P))"

lemma last_reference:
  assumes "refs_ok e D" and "peer_objs D h = Some p" and "ref_cnt p = 1" and "0 < e h"
  shows "delete_in_progress p" and "peer_ids p ! 0 \<noteq> HTT_INVALID_PEER" and "Some h \<notin> set (peer_id_to_obj_map D)" and "e h = 1"
  using refs_okD(5) [OF assms(1,2)] assms(3,4) count_list_0_iff [of "peer_id_to_obj_map D" "Some h"]
  by (auto simp: refs_of_def split: if_splits)

lemma vdev_ids_on_vdev [simp]:
  "(\<And>vdev. vdev_id (f vdev) = vdev_id vdev) \<Longrightarrow> map vdev_id (on_vdev v f V) = map vdev_id V"
  by simp

lemma tab_vdevs_swap: "P\<lparr>peer_tab := D, vdev_list := V\<rparr> = P\<lparr>vdev_list := V, peer_tab := D\<rparr>"
  by (cases P) simp

lemma delete_peer_ok:
  assumes ok: "life_ok e P" and p: "peer_objs (peer_tab P) h = Some p" and one: "ref_cnt p = 1" "0 < e h"
    and np: "unpaused h P" and Q: "Q = P\<lparr>peer_tab := (peer_tab P)\<lparr>peer_objs := (peer_objs (peer_tab P))(h \<mapsto> p\<lparr>ref_cnt := 0\<rparr>)\<rparr>\<rparr>"
  shows "\<exists>P'. delete_peer h Q = Some P' \<and> life_ok (e(h := 0)) P' \<and> frame_of P' = frame_of P \<and>
    peer_objs (peer_tab P') = (peer_objs (peer_tab P))(h := None)"
proof -
  let ?D = "peer_tab P" and ?v = "peer_vdev p"
  note last = last_reference [OF life_okD(3) [OF ok] p one]
  have qD: "peer_tab Q = ?D\<lparr>peer_objs := (peer_objs ?D)(h \<mapsto> p\<lparr>ref_cnt := 0\<rparr>)\<rparr>" "vdev_list Q = vdev_list P" by (simp_all add: Q)
  have "?v \<in> vdev_id ` set (vdev_list P)" using vdevs_okD(3) [OF life_okD(5) [OF ok] p] .
  then obtain vdev where vd: "find_vdev ?v P = Some vdev" "vdev \<in> set (vdev_list P)" "vdev_id vdev = ?v"
    by (rule find_vdev_some [OF life_okD(5) [OF ok]])
  have hin: "h \<in> set (peer_list vdev)" using vdevs_okD(1) [OF life_okD(5) [OF ok] vd(2)] p vd(3) by (auto simp: vdev_ok_def)
  let ?b = "bin_of ?D (peer_mac p)"
  define bins where "bins = (hash_bins ?D)[?b := remove1 h (hash_bins ?D ! ?b)]"
  define D1 where "D1 = ?D\<lparr>hash_bins := bins, peer_objs := (peer_objs ?D)(h \<mapsto> p\<lparr>ref_cnt := 0, delete_in_progress := False\<rparr>)\<rparr>"
  define V1 where "V1 = on_vdev ?v (\<lambda>v. v\<lparr>peer_list := remove1 h (peer_list v)\<rparr>) (vdev_list P)"
  define V2 where "V2 = (if peer_local_id p = wait_on_peer_id vdev
     then on_vdev ?v (\<lambda>v. v\<lparr>wait_on_peer_id := OL_TXRX_INVALID_LOCAL_PEER_ID\<rparr>) V1 else V1)"
  have rm: "ol_txrx_peer_find_hash_remove h (peer_tab Q) = Some ((peer_tab Q)\<lparr>hash_bins := bins\<rparr>)"
    unfolding bins_def
    by (rule hash_remove_eq [OF life_okD(4) [OF ok] _ _ _ p, where p' = "p\<lparr>ref_cnt := 0\<rparr>"]) (simp_all add: qD)
  define Q2 where "Q2 = P\<lparr>vdev_list := V2, peer_tab := D1\<rparr>"
  have "path_ok [] Q2" "unpaused h Q2" using life_okD(1) [OF ok] np by (simp_all add: Q2_def unpaused_def)
  then obtain P3 where P3: "for_each [0..<OL_TX_NUM_TIDS] (\<lambda>i. ol_tx_queue_free (PeerTxq h i) i) Q2 = Some P3" "path_ok [] P3"
    "peers_of P3 = peers_of Q2" "vdev_list P3 = vdev_list Q2" "drains Q2 P3" "\<forall>t<OL_TX_NUM_TIDS. q_head (tx_queues P3 (PeerTxq h t)) = []"
    using free_peer_queues by blast
  define D' where "D' = ?D\<lparr>peer_objs := (peer_objs ?D)(h := None), hash_bins := bins\<rparr>"
  have "delete_peer h Q = for_each [0..<OL_TX_NUM_TIDS] (\<lambda>i. ol_tx_queue_free (PeerTxq h i) i) Q2 \<bind>
      (\<lambda>P. on_peers (\<lambda>D. Some (D\<lparr>peer_objs := (peer_objs D)(h := None)\<rparr>)) P)"
    using rm vd(1) hin
    by (simp add: delete_peer_def get_peer_def qD on_peers_def upd_peer_def find_vdev_def upd_vdev_id_def Q Q2_def D1_def V2_def V1_def Let_def tab_vdevs_swap)
  moreover have "peer_tab P3 = D1" "frame_format P3 = frame_format P" using P3(3) by (simp_all add: peers_of_def Q2_def)
  moreover have "D1\<lparr>peer_objs := (peer_objs D1)(h := None)\<rparr> = D'" by (cases ?D) (simp add: D1_def D'_def)
  ultimately have del: "delete_peer h Q = Some (P3\<lparr>peer_tab := D'\<rparr>)"
    by (simp add: P3(1) on_peers_def)
  have part: "vdev_part ?D h = Some (?v, True)" "vdev_part D' = (vdev_part ?D)(h := None)"
    using p last(1) by (auto simp: vdev_part_def D'_def)
  have "refs_ok (e(h := 0)) D'" unfolding D'_def bins_def
    by (rule refs_ok_remove [OF life_okD(3) [OF ok] p last(3)]) simp
  moreover have "vdevs_ok D' V1" unfolding V1_def by (rule vdevs_ok_remove [OF life_okD(5) [OF ok] part])
  then have "vdevs_ok D' V2" unfolding V2_def by (simp add: vdevs_ok_wait)
  moreover have "lids_ok {} D'" by (rule lids_ok_cong [OF life_okD(6) [OF ok]]) (use p last(1) in \<open>auto simp: D'_def split: if_splits\<close>)
  moreover have "quiet (P3\<lparr>peer_tab := D'\<rparr>)" using life_okD(7) [OF ok] P3(5,6)
    by (auto simp: quiet_def drains_def D'_def Q2_def)
  ultimately have "life_ok (e(h := 0)) (P3\<lparr>peer_tab := D'\<rparr>)"
    using P3(2,4) \<open>frame_format P3 = _\<close> life_okD(2) [OF ok] by (simp add: life_in_def Q2_def)
  moreover have "map vdev_id V2 = map vdev_id (vdev_list P)" by (simp add: V2_def V1_def)
  then have "frame_of (P3\<lparr>peer_tab := D'\<rparr>) = frame_of P" using P3(4) by (simp add: frame_of_def D'_def Q2_def)
  ultimately show ?thesis using del by (intro exI [of _ "P3\<lparr>peer_tab := D'\<rparr>"]) (simp add: D'_def)
qed

lemma unref_ok:
  assumes ok: "life_ok e P" and p: "peer_objs (peer_tab P) h = Some p" and e: "0 < e h"
    and np: "ref_cnt p = 1 \<Longrightarrow> unpaused h P"
  shows "\<exists>P'. ol_txrx_peer_unref_delete h P = Some P' \<and> life_ok (e(h := e h - 1)) P' \<and> frame_of P' = frame_of P \<and>
    peer_objs (peer_tab P') = (peer_objs (peer_tab P))(h := if ref_cnt p = 1 then None else Some (p\<lparr>ref_cnt := ref_cnt p - 1\<rparr>))"
proof -
  have pos: "0 < ref_cnt p" using refs_okD(7) [OF life_okD(3) [OF ok] p] by (simp add: peer_ok_def)
  have dec: "on_peers (dec_ref h) P = Some (P\<lparr>peer_tab := (peer_tab P)\<lparr>peer_objs := (peer_objs (peer_tab P))(h \<mapsto> p\<lparr>ref_cnt := ref_cnt p - 1\<rparr>)\<rparr>\<rparr>)"
    using p by (simp add: on_peers_def dec_ref_def upd_peer_def)
  show ?thesis
  proof (cases "ref_cnt p = 1")
    case True
    have "e h = 1" using last_reference(4) [where e = e, OF life_okD(3) [OF ok] p True e] .
    then show ?thesis using delete_peer_ok [OF ok p True e np [OF True] refl] dec p True
      by (simp add: ol_txrx_peer_unref_delete_def get_peer_def)
  next
    case False
    then show ?thesis using life_ok_dec(2) [OF ok p _ refl] dec p pos
      by (intro exI) (auto simp: ol_txrx_peer_unref_delete_def get_peer_def frame_of_def)
  qed
qed

end
