(* ===== verification/Peer_Ops.thy ===== *)
theory Peer_Ops
  imports Peer_Unref
begin

text \<open>
  The operations on peers return and keep the device consistent: the messages of the target, the changes of a peer's
  state and properties, detaching and attaching.
\<close>

section \<open>What the operations keep of the peers\<close>

text \<open>What others know of the peers.\<close>

definition peer_key :: "tx_peer_t \<Rightarrow> u8 \<times> mac \<times> bool \<times> u16" where
  "peer_key p = (peer_vdev p, peer_mac p, delete_in_progress p, peer_local_id p)"

definition known :: "ol_txrx_pdev_t \<Rightarrow> u8 list \<times> u16 \<times> (nat \<Rightarrow> (u8 \<times> mac \<times> bool \<times> u16) option)" where
  "known P = (map vdev_id (vdev_list P), max_peer_id (peer_tab P), \<lambda>h. map_option peer_key (peer_objs (peer_tab P) h))"

lemma known_obj:
  assumes "peer_objs (peer_tab P) h = Some p" and "peer_key p' = peer_key p"
    and "peer_objs D' = (peer_objs (peer_tab P))(h \<mapsto> p')" and "max_peer_id D' = max_peer_id (peer_tab P)"
  shows "known (P\<lparr>peer_tab := D'\<rparr>) = known P"
  using assms by (auto simp: known_def)

lemma vdevs_of_ids: "vdevs_of P' = vdevs_of P \<Longrightarrow> map vdev_id (vdev_list P') = map vdev_id (vdev_list P)"
proof -
  assume "vdevs_of P' = vdevs_of P"
  then have "map vdev_id (vdevs_of P') = map vdev_id (vdevs_of P)" by simp
  then show ?thesis by (simp add: vdevs_of_def comp_def)
qed

lemma path_life_ok:
  assumes "life_in X e P" and "path_may op P"
  shows "\<exists>P'. path_exec E op P = Some P' \<and> life_in X e P' \<and> peer_tab P' = peer_tab P \<and> known P' = known P"
proof -
  obtain P' where P': "path_exec E op P = Some P'" "path_ok [] P'" "peers_of P' = peers_of P" "only_live (peer_objs (peer_tab P)) P P'"
    using path_exec_ok [OF life_okD(1,8) [OF assms(1)] assms(2)] by blast
  then have "peer_tab P' = peer_tab P" "map vdev_id (vdev_list P') = map vdev_id (vdev_list P)"
    using vdevs_of_ids [of P' P] by (simp_all add: peers_of_def)
  then show ?thesis using P' life_ok_queues [OF assms(1) P'(2-4)] by (simp add: known_def)
qed

lemma unpause_life_ok:
  assumes "life_in X e P" and "t < OL_TX_NUM_TIDS"
  shows "\<exists>P'. ol_txrx_peer_tid_unpause H h (int t) P = Some P' \<and> life_in X e P' \<and> peer_tab P' = peer_tab P \<and> known P' = known P"
  using path_life_ok [OF assms(1), of "Queue_op (UnpauseTid h t)" "\<lparr>download_env = H, stack_msdu_info = undefined\<rparr>"] assms(2) by simp

lemma unpauses_life_ok:
  assumes "life_in X e P" and "\<And>t. t \<in> set ts \<Longrightarrow> t < OL_TX_NUM_TIDS"
  shows "\<exists>P'. for_each ts (\<lambda>t. ol_txrx_peer_tid_unpause H h (int t)) P = Some P' \<and> life_in X e P' \<and> peer_tab P' = peer_tab P \<and> known P' = known P"
proof (rule for_each_keeps [where I = "\<lambda>Q. life_in X e Q \<and> peer_tab Q = peer_tab P \<and> known Q = known P"])
  fix t Q
  assume t: "t \<in> set ts" and I: "life_in X e Q \<and> peer_tab Q = peer_tab P \<and> known Q = known P"
  then show "\<exists>Q'. ol_txrx_peer_tid_unpause H h (int t) Q = Some Q' \<and> life_in X e Q' \<and> peer_tab Q' = peer_tab P \<and> known Q' = known P"
    using unpause_life_ok [of X e Q t H h] assms(2) [OF t] by auto
qed (use assms(1) in simp)

section \<open>Searching\<close>

lemma life_ok_held:
  assumes "life_in X e P" and "peer_objs (peer_tab P) h = Some p"
  shows "life_in X (e(h := e h + 1)) (P\<lparr>peer_tab := held h (peer_tab P)\<rparr>)"
proof -
  have "held h (peer_tab P) = (peer_tab P)\<lparr>peer_objs := (peer_objs (peer_tab P))(h \<mapsto> p\<lparr>ref_cnt := ref_cnt p + 1\<rparr>)\<rparr>"
    using assms(2) by (simp add: held_def)
  then show ?thesis
    using life_ok_obj [OF assms, of "p\<lparr>ref_cnt := ref_cnt p + 1\<rparr>" "e(h := e h + 1)"] refs_okD(5,7) [OF life_okD(3) [OF assms(1)] assms(2)]
    by (simp add: peer_ok_def refs_of_def)
qed

lemma life_find:
  assumes "life_in X e P" and "length m = 6"
  obtains "ol_txrx_peer_find_hash_find m cv (peer_tab P) = Some (None, peer_tab P)"
    | h p where "ol_txrx_peer_find_hash_find m cv (peer_tab P) = Some (Some h, held h (peer_tab P))"
      "peer_objs (peer_tab P) h = Some p" "peer_mac p = m" "\<not> cv \<or> peer_valid p"
proof (cases "first_peer (peer_tab P) m (\<lambda>p. \<not> cv \<or> peer_valid p)")
  case None
  then show ?thesis using that(1) hash_search_first [OF life_okD(4) [OF assms(1)] assms(2)] by (simp add: ol_txrx_peer_find_hash_find_def)
next
  case (Some h)
  then show ?thesis using that(2) hash_search_first [OF life_okD(4) [OF assms(1)] assms(2)] first_peer_Some [OF life_okD(4) [OF assms(1)] Some]
    by (auto simp: ol_txrx_peer_find_hash_find_def)
qed

section \<open>State and properties\<close>

lemma state_update_ok:
  assumes ok: "life_in X e P" and m: "length m = 6"
  shows "\<exists>P'. ol_txrx_peer_state_update H host_addba m state P = Some P' \<and> life_in X e P' \<and> known P' = known P"
  using ok m
proof (cases rule: life_find [where cv = True])
  case 1
  then show ?thesis using ok by (simp add: ol_txrx_peer_state_update_def)
next
  case (2 h p)
  let ?P1 = "P\<lparr>peer_tab := held h (peer_tab P)\<rparr>"
  let ?p1 = "p\<lparr>ref_cnt := ref_cnt p + 1\<rparr>"
  have pos: "0 < ref_cnt p" using refs_okD(7) [OF life_okD(3) [OF ok] 2(2)] by (simp add: peer_ok_def)
  have ok1: "life_in X (e(h := e h + 1)) ?P1" using life_ok_held [OF ok 2(2)] .
  obtain P2 where P2: "(if host_addba \<and> state = ol_txrx_peer_state_auth
       then for_each [OL_TX_NUM_QOS_TIDS..<OL_TX_NUM_TIDS] (\<lambda>tid. ol_txrx_peer_tid_unpause H h (int tid)) ?P1 else Some ?P1) = Some P2"
    "life_in X (e(h := e h + 1)) P2" "peer_tab P2 = held h (peer_tab P)" "known P2 = known ?P1"
  proof (cases "host_addba \<and> state = ol_txrx_peer_state_auth")
    case True
    then show ?thesis using that unpauses_life_ok [OF ok1, of "[OL_TX_NUM_QOS_TIDS..<OL_TX_NUM_TIDS]" H h] by auto
  next
    case False
    then show ?thesis using that [of ?P1] ok1 by auto
  qed
  have o2: "peer_objs (peer_tab P2) h = Some ?p1" by (simp add: P2(3) 2(2))
  define P3 where "P3 = (\<lambda>Q :: ol_txrx_pdev_t. Q\<lparr>peer_tab := (peer_tab Q)\<lparr>peer_objs := (peer_objs (peer_tab Q))(h \<mapsto> ?p1\<lparr>ref_cnt := ref_cnt ?p1 - 1\<rparr>)\<rparr>\<rparr>)"
  have d: "on_peers (dec_ref h) Q = Some (P3 Q)" "life_in X e (P3 Q)"
    if "life_in X (e(h := e h + 1)) Q" "peer_objs (peer_tab Q) h = Some ?p1" for Q
    using life_ok_dec [OF that, of e] pos by (simp_all add: P3_def)
  show ?thesis
  proof (cases "peer_state p = state")
    case True
    then have "ol_txrx_peer_state_update H host_addba m state P = Some (P3 ?P1)"
      using 2(1,2) d(1) [OF ok1] by (simp add: ol_txrx_peer_state_update_def get_peer_def)
    moreover have "known (P3 ?P1) = known P" using 2(2) by (auto simp: known_def P3_def held_def peer_key_def)
    ultimately show ?thesis using d(2) [OF ok1] 2(2) by simp
  next
    case False
    define p4 where "p4 = p\<lparr>peer_state := state\<rparr>"
    define P4 where "P4 = (P3 P2)\<lparr>peer_tab := (peer_tab (P3 P2))\<lparr>peer_objs := (peer_objs (peer_tab (P3 P2)))(h \<mapsto> p4)\<rparr>\<rparr>"
    have o3: "peer_objs (peer_tab (P3 P2)) h = Some p" by (simp add: P3_def)
    have "on_peers (upd_peer h (\<lambda>p. p\<lparr>peer_state := state\<rparr>)) (P3 P2) = Some P4"
      using o3 by (simp add: on_peers_def upd_peer_def P4_def p4_def)
    then have "ol_txrx_peer_state_update H host_addba m state P = Some P4"
      using 2(1,2) False P2(1) d(1) [OF P2(2) o2] by (simp add: ol_txrx_peer_state_update_def get_peer_def)
    moreover have "life_in X e P4" unfolding P4_def
      by (rule life_ok_obj [OF d(2) [OF P2(2) o2] o3])
        (use refs_okD(5,7) [OF life_okD(3) [OF d(2) [OF P2(2) o2]] o3] in \<open>simp_all add: p4_def peer_ok_def refs_of_def\<close>)
    moreover have "known P4 = known P" using P2(4) 2(2) by (auto simp: known_def P4_def P3_def p4_def P2(3) held_def peer_key_def)
    ultimately show ?thesis by blast
  qed
qed

lemma peer_update_ok:
  assumes ok: "life_ok e P" and m: "length m = 6"
  shows "\<exists>P'. ol_txrx_peer_update m param P = Some P' \<and> life_ok e P' \<and> known P' = known P"
  using ok m
proof (cases rule: life_find [where cv = True])
  case 1
  then show ?thesis using ok by (simp add: ol_txrx_peer_update_def)
next
  case (2 h p)
  define f where "f = (\<lambda>p :: tx_peer_t. case param of
             qos_capable_param q \<Rightarrow> p\<lparr>qos_capable := q\<rparr>
           | uapsd_mask_param u \<Rightarrow> p\<lparr>uapsd_mask := u\<rparr>
           | sec_type_param s \<Rightarrow> p\<lparr>sec_mcast := peer_sec_type s, sec_ucast := peer_sec_type s\<rparr>)"
  have f: "peer_mac (f q) = peer_mac q" "peer_vdev (f q) = peer_vdev q" "delete_in_progress (f q) = delete_in_progress q"
    "peer_local_id (f q) = peer_local_id q" "peer_valid (f q) = peer_valid q" "ref_cnt (f q) = ref_cnt q" "peer_ids (f q) = peer_ids q" for q
    by (cases param; simp add: f_def)+
  define P' where "P' = P\<lparr>peer_tab := (peer_tab P)\<lparr>peer_objs := (peer_objs (peer_tab P))(h \<mapsto> (f (p\<lparr>ref_cnt := ref_cnt p + 1\<rparr>))\<lparr>ref_cnt := ref_cnt p\<rparr>)\<rparr>\<rparr>"
  have "ol_txrx_peer_update m param P = Some P'"
    using 2(1,2) by (simp add: ol_txrx_peer_update_def on_peers_def upd_peer_def dec_ref_def f_def [symmetric] f held_def P'_def)
  moreover have "life_ok e P'" unfolding P'_def
    by (rule life_ok_obj [OF ok 2(2)]) (use refs_okD(5,7) [OF life_okD(3) [OF ok] 2(2)] in \<open>simp_all add: f peer_ok_def refs_of_def\<close>)
  moreover have "known P' = known P" using 2(2) by (auto simp: known_def P'_def f peer_key_def)
  ultimately show ?thesis by blast
qed

end
