(* ===== verification/Peer_Msgs.thy ===== *)
theory Peer_Msgs
  imports Peer_Ops
begin

text \<open>
  The messages of the target that give identifiers to peers and take them away, and the detachment of a peer.
\<close>

section \<open>Mapping an identifier\<close>

lemma first_free_id_0: "xs \<noteq> [] \<Longrightarrow> xs ! 0 = HTT_INVALID_PEER \<Longrightarrow> first_free_id xs = Some 0"
  by (cases xs) simp_all

lemma first_free_id_pos: "xs \<noteq> [] \<Longrightarrow> xs ! 0 \<noteq> HTT_INVALID_PEER \<Longrightarrow> first_free_id xs \<noteq> Some 0"
  by (cases xs) auto

lemma life_ok_slot:
  assumes ok: "life_ok e P" and i: "i < length (peer_id_to_obj_map (peer_tab P))" and s: "\<And>h. s = Some h \<Longrightarrow> peer_objs (peer_tab P) h \<noteq> None"
    and e': "\<And>h. e' h = e h + (if peer_id_to_obj_map (peer_tab P) ! i = Some h then 1 else 0) - (if s = Some h then 1 else 0)"
  shows "life_ok e' (P\<lparr>peer_tab := (peer_tab P)\<lparr>peer_id_to_obj_map := (peer_id_to_obj_map (peer_tab P))[i := s]\<rparr>\<rparr>)"
proof (rule life_ok_tab [OF ok refs_ok_slot [OF life_okD(3) [OF ok] i s e']])
  show "lids_ok {} ((peer_tab P)\<lparr>peer_id_to_obj_map := (peer_id_to_obj_map (peer_tab P))[i := s]\<rparr>)"
    by (rule lids_ok_cong [OF life_okD(6) [OF ok]]) simp_all
qed (simp_all add: vdev_part_def fun_eq_iff)

text \<open>The first peer that has the address gets the identifier; what it waits for has come.\<close>

lemma add_id_ok:
  assumes ok: "life_ok (\<lambda>_. 0) P" and m: "length m = 6" and pid: "pid \<le> max_peer_id (peer_tab P)"
    and free: "peer_id_to_obj_map (peer_tab P) ! unat pid = None"
  shows "\<exists>P'. ol_txrx_peer_find_add_id m pid P = Some P' \<and> life_ok (\<lambda>_. 0) P' \<and> known P' = known P"
  using ok m
proof (cases rule: life_find [where cv = False])
  case 1
  then show ?thesis using ok by (simp add: ol_txrx_peer_find_add_id_def)
next
  case (2 h p)
  let ?D = "peer_tab P"
  note r = refs_okD [OF life_okD(3) [OF ok]]
  have i: "unat pid < length (peer_id_to_obj_map ?D)" using pid r(3) by (simp add: word_le_nat_alt)
  have idn: "pid \<noteq> HTT_INVALID_PEER" using pid r(2) by (auto simp: word_le_nat_alt HTT_INVALID_PEER_def)
  have p: "0 < ref_cnt p" "length (peer_ids p) = MAX_NUM_PEER_ID_PER_PEER" using r(7) [OF 2(2)] by (auto simp: peer_ok_def)
  have ne: "peer_ids p \<noteq> []" using p(2) by (auto simp: MAX_NUM_PEER_ID_PER_PEER_def)
  define P1 where "P1 = P\<lparr>peer_tab := held h ?D\<rparr>"
  define p1 where "p1 = p\<lparr>ref_cnt := ref_cnt p + 1\<rparr>"
  have ok1: "life_ok ((\<lambda>_. 0)(h := 1)) P1" using life_ok_held [OF ok 2(2)] by (simp add: P1_def)
  have t1: "peer_objs (peer_tab P1) h = Some p1" "peer_id_to_obj_map (peer_tab P1) = peer_id_to_obj_map ?D"
    using 2(2) by (simp_all add: P1_def p1_def) (simp add: held_def)
  define P2 where "P2 = P1\<lparr>peer_tab := (peer_tab P1)\<lparr>peer_id_to_obj_map := (peer_id_to_obj_map (peer_tab P1))[unat pid := Some h]\<rparr>\<rparr>"
  have ok2: "life_ok (\<lambda>_. 0) P2" unfolding P2_def
    by (rule life_ok_slot [OF ok1]) (use i t1 free in auto)
  have t2: "peer_objs (peer_tab P2) h = Some p1" using t1 by (simp add: P2_def)
  have k2: "known P2 = known P" using 2(2) by (auto simp: known_def P2_def P1_def held_def peer_key_def)
  have id0: "rd (peer_ids p1) 0 = Some (peer_ids p ! 0)" using ne by (simp add: p1_def)
  have start: "ol_txrx_peer_find_add_id m pid P = do {
      P \<leftarrow> (if peer_ids p ! 0 = HTT_INVALID_PEER then ol_txrx_peer_unref_delete h P2 else Some P2);
      (_, D) \<leftarrow> ol_txrx_peer_find_add_id_to_obj h pid (peer_tab P); Some (P\<lparr>peer_tab := D\<rparr>) }"
    using 2(1,2) i t1(2) ne by (simp add: ol_txrx_peer_find_add_id_def get_peer_def P2_def P1_def Let_def)
  show ?thesis
  proof (cases "peer_ids p ! 0 = HTT_INVALID_PEER")
    case True
    define p3 where "p3 = p1\<lparr>ref_cnt := ref_cnt p1 - 1\<rparr>"
    define P3 where "P3 = P2\<lparr>peer_tab := (peer_tab P2)\<lparr>peer_objs := (peer_objs (peer_tab P2))(h \<mapsto> p3)\<rparr>\<rparr>"
    have ok3: "life_ok ((\<lambda>_. 0)(h := -1)) P3" and dec: "on_peers (dec_ref h) P2 = Some P3"
      using life_ok_dec [OF ok2 t2, of "(\<lambda>_. 0)(h := -1)"] p(1) by (simp_all add: P3_def p3_def p1_def)
    have un: "ol_txrx_peer_unref_delete h P2 = Some P3"
      using dec t2 p(1) by (simp add: ol_txrx_peer_unref_delete_def get_peer_def p1_def)
    have t3: "peer_objs (peer_tab P3) h = Some p3" by (simp add: P3_def)
    have f: "first_free_id (peer_ids p3) = Some 0" using first_free_id_0 [OF ne True] by (simp add: p3_def p1_def)
    define p4 where "p4 = p3\<lparr>peer_ids := (peer_ids p3)[0 := pid]\<rparr>"
    define P4 where "P4 = P3\<lparr>peer_tab := (peer_tab P3)\<lparr>peer_objs := (peer_objs (peer_tab P3))(h \<mapsto> p4)\<rparr>\<rparr>"
    have "ol_txrx_peer_find_add_id m pid P = Some P4"
      using True un t3 f start by (simp add: ol_txrx_peer_find_add_id_to_obj_def upd_peer_def P4_def p4_def)
    moreover have z: "(peer_ids p)[0 := pid] ! 0 = pid" using ne by (cases "peer_ids p") simp_all
    have "life_ok (\<lambda>_. 0) P4" unfolding P4_def
      by (rule life_ok_obj [OF ok3 t3])
        (use refs_okD(5,7) [OF life_okD(3) [OF ok3] t3] True idn z in \<open>simp_all add: p4_def p3_def p1_def refs_of_def peer_ok_def\<close>)
    moreover have "known P4 = known P2" using t2 by (auto simp: known_def P4_def P3_def p4_def p3_def p1_def peer_key_def)
    ultimately show ?thesis using k2 by auto
  next
    case False
    show ?thesis
    proof (cases "first_free_id (peer_ids p)")
      case None
      then show ?thesis using start False t2 ok2 k2 by (simp add: ol_txrx_peer_find_add_id_to_obj_def p1_def)
    next
      case (Some j)
      then have j: "j \<noteq> 0" using first_free_id_pos [OF ne False] by auto
      define p4 where "p4 = p1\<lparr>peer_ids := (peer_ids p1)[j := pid]\<rparr>"
      define P4 where "P4 = P2\<lparr>peer_tab := (peer_tab P2)\<lparr>peer_objs := (peer_objs (peer_tab P2))(h \<mapsto> p4)\<rparr>\<rparr>"
      have "ol_txrx_peer_find_add_id m pid P = Some P4"
        using False t2 Some start by (simp add: ol_txrx_peer_find_add_id_to_obj_def upd_peer_def P4_def p4_def p1_def)
      moreover have "life_ok (\<lambda>_. 0) P4" unfolding P4_def
        by (rule life_ok_obj [OF ok2 t2])
          (use refs_okD(5,7) [OF life_okD(3) [OF ok2] t2] j in \<open>simp_all add: p4_def refs_of_def peer_ok_def\<close>)
      moreover have "known P4 = known P2" using t2 by (auto simp: known_def P4_def p4_def peer_key_def)
      ultimately show ?thesis using k2 by auto
    qed
  qed
qed

lemma known_max: "known P' = known P \<Longrightarrow> max_peer_id (peer_tab P') = max_peer_id (peer_tab P)"
  by (simp add: known_def)

lemma find_by_id_some:
  assumes "refs_ok e D"
  shows "ol_txrx_peer_find_by_id D pid = Some None \<or>
    (\<exists>h p. ol_txrx_peer_find_by_id D pid = Some (Some h) \<and> peer_objs D h = Some p \<and> peer_valid p \<and> pid \<le> max_peer_id D \<and>
       peer_id_to_obj_map D ! unat pid = Some h)"
proof (cases "pid > max_peer_id D")
  case False
  then have i: "unat pid < length (peer_id_to_obj_map D)" using refs_okD(3) [OF assms] by (simp add: not_less word_le_nat_alt)
  show ?thesis
  proof (cases "peer_id_to_obj_map D ! unat pid")
    case None
    then show ?thesis using False i by (simp add: ol_txrx_peer_find_by_id_def)
  next
    case (Some h)
    then have "Some h \<in> set (peer_id_to_obj_map D)" using i by (metis nth_mem)
    then obtain p where "peer_objs D h = Some p" using refs_okD(4) [OF assms] by blast
    then show ?thesis using False i Some by (simp add: ol_txrx_peer_find_by_id_def not_less)
  qed
qed (simp add: ol_txrx_peer_find_by_id_def)

lemma map_handler_ok:
  assumes "life_ok (\<lambda>_. 0) P" and "length m = 6" and "pid \<le> max_peer_id (peer_tab P)"
    and "peer_id_to_obj_map (peer_tab P) ! unat pid = None"
  shows "\<exists>P'. ol_rx_peer_map_handler H pid m ready P = Some P' \<and> life_ok (\<lambda>_. 0) P' \<and> known P' = known P"
proof -
  obtain P1 where P1: "ol_txrx_peer_find_add_id m pid P = Some P1" "life_ok (\<lambda>_. 0) P1" "known P1 = known P"
    using add_id_ok [OF assms] by blast
  show ?thesis
  proof (cases ready)
    case True
    then show ?thesis using P1 by (simp add: ol_rx_peer_map_handler_def)
  next
    case False
    show ?thesis using find_by_id_some [OF life_okD(3) [OF P1(2)], of pid]
    proof
      assume "ol_txrx_peer_find_by_id (peer_tab P1) pid = Some None"
      then show ?thesis using P1 False by (simp add: ol_rx_peer_map_handler_def)
    next
      assume "\<exists>h p. ol_txrx_peer_find_by_id (peer_tab P1) pid = Some (Some h) \<and> peer_objs (peer_tab P1) h = Some p \<and>
        peer_valid p \<and> pid \<le> max_peer_id (peer_tab P1) \<and> peer_id_to_obj_map (peer_tab P1) ! unat pid = Some h"
      then obtain h where h: "ol_txrx_peer_find_by_id (peer_tab P1) pid = Some (Some h)" by blast
      have "OL_TX_MGMT_TID < OL_TX_NUM_TIDS" by (simp add: OL_TX_MGMT_TID_def OL_TX_NUM_TIDS_def)
      from unpause_life_ok [OF P1(2) this, of H h] show ?thesis using P1 False h by (auto simp: ol_rx_peer_map_handler_def)
    qed
  qed
qed

lemma tx_ready_handler_ok:
  assumes "life_ok (\<lambda>_. 0) P"
  shows "\<exists>P'. ol_txrx_peer_tx_ready_handler H pid P = Some P' \<and> life_ok (\<lambda>_. 0) P' \<and> known P' = known P"
  using find_by_id_some [OF life_okD(3) [OF assms], of pid]
proof
  assume "ol_txrx_peer_find_by_id (peer_tab P) pid = Some None"
  then show ?thesis using assms by (simp add: ol_txrx_peer_tx_ready_handler_def)
next
  assume "\<exists>h p. ol_txrx_peer_find_by_id (peer_tab P) pid = Some (Some h) \<and> peer_objs (peer_tab P) h = Some p \<and>
    peer_valid p \<and> pid \<le> max_peer_id (peer_tab P) \<and> peer_id_to_obj_map (peer_tab P) ! unat pid = Some h"
  then obtain h where h: "ol_txrx_peer_find_by_id (peer_tab P) pid = Some (Some h)" by blast
  have "\<exists>P'. for_each [0..<OL_TX_NUM_TIDS] (\<lambda>i P. if i = OL_TX_MGMT_TID then Some P else ol_txrx_peer_tid_unpause H h (int i) P) P = Some P'
     \<and> life_ok (\<lambda>_. 0) P' \<and> known P' = known P"
  proof (rule for_each_keeps [where I = "\<lambda>Q. life_ok (\<lambda>_. 0) Q \<and> known Q = known P"])
    fix i Q
    assume "i \<in> set [0..<OL_TX_NUM_TIDS]" "life_ok (\<lambda>_. 0) Q \<and> known Q = known P"
    then show "\<exists>Q'. (if i = OL_TX_MGMT_TID then Some Q else ol_txrx_peer_tid_unpause H h (int i) Q) = Some Q' \<and> life_ok (\<lambda>_. 0) Q' \<and> known Q' = known P"
      using unpause_life_ok [of "{}" "\<lambda>_. 0" Q i H h] by auto
  qed (use assms in simp)
  then show ?thesis using h by (simp add: ol_txrx_peer_tx_ready_handler_def)
qed

section \<open>Unmapping an identifier\<close>

text \<open>The references that are left decide whether the peer is deleted.\<close>

definition only_mapped :: "nat \<Rightarrow> ol_txrx_pdev_t \<Rightarrow> bool" where
  "only_mapped h P \<longleftrightarrow> (\<exists>p. get_peer P h = Some p \<and> delete_in_progress p \<and> peer_ids p ! 0 \<noteq> HTT_INVALID_PEER \<and>
     count_list (peer_id_to_obj_map (peer_tab P)) (Some h) = 1)"

lemma last_map:
  assumes "refs_ok (\<lambda>_. 0) (peer_tab P)" and "get_peer P h = Some p" and "Some h \<in> set (peer_id_to_obj_map (peer_tab P))"
  shows "ref_cnt p = 1 \<longleftrightarrow> only_mapped h P"
proof -
  have "count_list (peer_id_to_obj_map (peer_tab P)) (Some h) \<noteq> 0" using assms(3) by (simp add: count_list_0_iff)
  then show ?thesis using refs_okD(5) [OF assms(1), of h p] assms(2) by (auto simp: only_mapped_def get_peer_def refs_of_def)
qed

lemma no_owed [simp]: "(\<lambda>_. 0 :: int)(h := 0) = (\<lambda>_. 0)"
  by auto

lemma unmap_handler_ok:
  assumes ok: "life_ok (\<lambda>_. 0) P" and pid: "pid \<le> max_peer_id (peer_tab P)"
    and np: "\<And>h. peer_id_to_obj_map (peer_tab P) ! unat pid = Some h \<Longrightarrow> only_mapped h P \<Longrightarrow> unpaused h P"
  shows "\<exists>P'. ol_rx_peer_unmap_handler pid P = Some P' \<and> life_ok (\<lambda>_. 0) P' \<and>
    (case peer_id_to_obj_map (peer_tab P) ! unat pid of
       Some h \<Rightarrow> if only_mapped h P then known P' = (fst (known P), fst (snd (known P)), (snd (snd (known P)))(h := None)) else known P' = known P
     | None \<Rightarrow> known P' = known P)"
proof -
  let ?D = "peer_tab P"
  note r = refs_okD [OF life_okD(3) [OF ok]]
  have i: "unat pid < length (peer_id_to_obj_map ?D)" using pid r(3) by (simp add: word_le_nat_alt)
  have idn: "pid \<noteq> HTT_INVALID_PEER" using pid r(2) by (auto simp: word_le_nat_alt HTT_INVALID_PEER_def)
  define P1 where "P1 = P\<lparr>peer_tab := ?D\<lparr>peer_id_to_obj_map := (peer_id_to_obj_map ?D)[unat pid := None]\<rparr>\<rparr>"
  have k1: "known P1 = known P" by (simp add: known_def P1_def)
  have start: "ol_rx_peer_unmap_handler pid P = (case peer_id_to_obj_map ?D ! unat pid of None \<Rightarrow> Some P1 | Some h \<Rightarrow> ol_txrx_peer_unref_delete h P1)"
    using i idn by (simp add: ol_rx_peer_unmap_handler_def P1_def Let_def split: option.split)
  show ?thesis
  proof (cases "peer_id_to_obj_map ?D ! unat pid")
    case None
    have "life_ok (\<lambda>_. 0) P1" unfolding P1_def by (rule life_ok_slot [OF ok i]) (use None in auto)
    then show ?thesis using None start k1 by simp
  next
    case (Some h)
    then have s: "Some h \<in> set (peer_id_to_obj_map ?D)" using i by (metis nth_mem)
    then obtain p where p: "peer_objs ?D h = Some p" using r(4) by blast
    have l: "ref_cnt p = 1 \<longleftrightarrow> only_mapped h P" using last_map [OF life_okD(3) [OF ok] _ s] p by (simp add: get_peer_def)
    have ok1: "life_ok ((\<lambda>_. 0)(h := 1)) P1" unfolding P1_def by (rule life_ok_slot [OF ok i]) (use Some in auto)
    have p1: "peer_objs (peer_tab P1) h = Some p" and np1: "ref_cnt p = 1 \<Longrightarrow> unpaused h P1"
      using p np [OF Some] l by (simp_all add: P1_def unpaused_def)
    obtain P' where P': "ol_txrx_peer_unref_delete h P1 = Some P'" "life_ok (\<lambda>_. 0) P'" "frame_of P' = frame_of P1"
      "peer_objs (peer_tab P') = (peer_objs (peer_tab P1))(h := if ref_cnt p = 1 then None else Some (p\<lparr>ref_cnt := ref_cnt p - 1\<rparr>))"
      using unref_ok [OF ok1 p1 _ np1] by auto
    have "known P' = (if ref_cnt p = 1 then (fst (known P), fst (snd (known P)), (snd (snd (known P)))(h := None)) else known P)"
      using P'(3,4) p1 p by (auto simp: known_def frame_of_def P1_def peer_key_def fun_eq_iff)
    then show ?thesis using P'(1,2) start Some l by simp
  qed
qed

section \<open>Detaching\<close>

definition unmapped :: "nat \<Rightarrow> ol_txrx_pdev_t \<Rightarrow> bool" where
  "unmapped h P \<longleftrightarrow> (\<exists>p. get_peer P h = Some p \<and> peer_ids p ! 0 \<noteq> HTT_INVALID_PEER \<and> Some h \<notin> set (peer_id_to_obj_map (peer_tab P)))"

lemma detach_ok:
  assumes ok: "life_ok (\<lambda>_. 0) P" and p: "get_peer P h = Some p" "\<not> delete_in_progress p" and np: "unmapped h P \<Longrightarrow> unpaused h P"
  shows "\<exists>P'. ol_txrx_peer_detach h P = Some P' \<and> life_ok (\<lambda>_. 0) P' \<and>
    known P' = (fst (known P), fst (snd (known P)),
      (snd (snd (known P)))(h := if unmapped h P then None else Some (peer_vdev p, peer_mac p, True, peer_local_id p)))"
proof -
  let ?D = "peer_tab P"
  note r = refs_okD [OF life_okD(3) [OF ok]]
  have ph: "peer_objs ?D h = Some p" using p(1) by (simp add: get_peer_def)
  have l: "ref_cnt p = 1 \<longleftrightarrow> unmapped h P"
    using r(5) [OF ph] p count_list_0_iff [of "peer_id_to_obj_map ?D" "Some h"] by (auto simp: refs_of_def unmapped_def get_peer_def)
  define D0 where "D0 = ?D\<lparr>peer_objs := (peer_objs ?D)(h \<mapsto> p\<lparr>peer_valid := False\<rparr>)\<rparr>"
  have l0: "lids_ok {} D0"
    by (rule lids_ok_cong [OF life_okD(6) [OF ok]]) (use ph in \<open>auto simp: D0_def split: if_splits\<close>)
  obtain D1 where D1: "OL_TXRX_LOCAL_PEER_ID_FREE h D0 = Some D1" "lids_ok {h} D1" "peer_objs D1 = peer_objs D0"
    "peer_id_to_obj_map D1 = peer_id_to_obj_map D0" "hash_bins D1 = hash_bins D0" "hash_mask D1 = hash_mask D0"
    "hash_idx_bits D1 = hash_idx_bits D0" "max_peer_id D1 = max_peer_id D0"
    using lid_free_ok [OF l0, of h "p\<lparr>peer_valid := False\<rparr>"] p(2) by (auto simp: D0_def)
  define p2 where "p2 = p\<lparr>peer_valid := False, delete_in_progress := True\<rparr>"
  define D2 where "D2 = D1\<lparr>peer_objs := (peer_objs ?D)(h \<mapsto> p2)\<rparr>"
  define V2 where "V2 = on_vdev (peer_vdev p) (\<lambda>v. if last_real_peer v = Some h then v\<lparr>last_real_peer := None\<rparr> else v) (vdev_list P)"
  define P2 where "P2 = P\<lparr>vdev_list := V2, peer_tab := D2\<rparr>"
  have start: "ol_txrx_peer_detach h P = ol_txrx_peer_unref_delete h P2"
    using ph D1(1,3)
    by (simp add: ol_txrx_peer_detach_def on_peers_def upd_peer_def D0_def get_peer_def upd_vdev_id_def P2_def V2_def D2_def p2_def tab_vdevs_swap)
  have "refs_ok ((\<lambda>_. 0)(h := 1)) (?D\<lparr>peer_objs := (peer_objs ?D)(h \<mapsto> p2)\<rparr>)"
    by (rule refs_ok_obj [OF life_okD(3) [OF ok] ph]) (use r(5,7) [OF ph] p(2) in \<open>auto simp: p2_def peer_ok_def refs_of_def\<close>)
  then have r2: "refs_ok ((\<lambda>_. 0)(h := 1)) D2"
    using D1(3-8) by (simp add: refs_ok_def peers_ok_def bin_of_def ol_txrx_peer_find_hash_index_def Let_def refs_of_def D2_def D0_def)
  have v2: "vdevs_ok D2 V2" unfolding V2_def
    by (rule vdevs_ok_forget [OF life_okD(5) [OF ok], of h _ False]) (use ph p(2) in \<open>auto simp: vdev_part_def D2_def p2_def\<close>)
  have l2: "lids_ok {} D2"
    using D1(2,3) unfolding lids_ok_def lid_list_def has_lid_def by (auto simp: D2_def D0_def p2_def split: if_splits)
  have q2: "quiet P2" using life_okD(7) [OF ok] by (auto simp: quiet_def P2_def D2_def split: if_splits)
  have ok2: "life_ok ((\<lambda>_. 0)(h := 1)) P2" using r2 v2 l2 q2 life_okD(1,2) [OF ok] by (simp add: life_in_def P2_def)
  have ph2: "peer_objs (peer_tab P2) h = Some p2" by (simp add: P2_def D2_def)
  have np2: "ref_cnt p2 = 1 \<Longrightarrow> unpaused h P2" using np l by (simp add: p2_def unpaused_def P2_def)
  obtain P' where P': "ol_txrx_peer_unref_delete h P2 = Some P'" "life_ok (\<lambda>_. 0) P'" "frame_of P' = frame_of P2"
    "peer_objs (peer_tab P') = (peer_objs (peer_tab P2))(h := if ref_cnt p2 = 1 then None else Some (p2\<lparr>ref_cnt := ref_cnt p2 - 1\<rparr>))"
    using unref_ok [OF ok2 ph2 _ np2] by auto
  have "map vdev_id V2 = map vdev_id (vdev_list P)" by (simp add: V2_def)
  then have "known P' = (fst (known P), fst (snd (known P)),
      (snd (snd (known P)))(h := if unmapped h P then None else Some (peer_vdev p, peer_mac p, True, peer_local_id p)))"
    using P'(3,4) l D1(8) by (auto simp: known_def frame_of_def P2_def D2_def D0_def p2_def peer_key_def fun_eq_iff)
  then show ?thesis using P'(1,2) start by simp
qed

end
