(* ===== verification/Peer_Attach.thy ===== *)
theory Peer_Attach
  imports Peer_Msgs
begin

text \<open>
  Attaching a peer: the queues of the new object are initialised, the search for an old peer of the address returns,
  and the device with the new peer is consistent.
\<close>

section \<open>The queues of the new peer\<close>

definition set_groups :: "nat option list \<Rightarrow> ol_tx_frms_queue_t \<Rightarrow> ol_tx_frms_queue_t" where
  "set_groups gs q = q\<lparr>group_ptrs := gs\<rparr>"

definition groups_ok :: "nat \<Rightarrow> nat option list \<Rightarrow> bool" where
  "groups_ok n gs \<longleftrightarrow> length gs = OL_TX_MAX_GROUPS_PER_QUEUE \<and> list_all (\<lambda>g. case g of None \<Rightarrow> True | Some i \<Rightarrow> i < n) gs"

lemma set_txq_group_ptr_ok:
  assumes "length (group_ptrs (tx_queues P r)) = OL_TX_MAX_GROUPS_PER_QUEUE"
  shows "set_txq_group_ptr g r P = Some (upd_txq r (set_groups [g]) P)"
proof -
  obtain x where x: "group_ptrs (tx_queues P r) = [x]" using assms by (auto simp: OL_TX_MAX_GROUPS_PER_QUEUE_def length_Suc_conv)
  show ?thesis
    by (auto simp: set_txq_group_ptr_def ol_tx_txq_set_group_ptr_def OL_TX_MAX_GROUPS_PER_QUEUE_def x upd_txq_def set_groups_def wr_def)
qed

lemma group_loop_ok:
  assumes "\<forall>i\<in>set is. i < length (txq_grps P)" and "group_ptrs (tx_queues P r) = [None]"
  shows "\<exists>gs. set_peer_group_loop v tid r is 0 P = Some (upd_txq r (set_groups gs) P) \<and> groups_ok (length (txq_grps P)) gs"
  using assms
proof (induction "is")
  case Nil
  then show ?case
    by (intro exI [of _ "[None]"]) (auto simp: upd_txq_def set_groups_def groups_ok_def OL_TX_MAX_GROUPS_PER_QUEUE_def intro!: ol_txrx_pdev_t.equality)
next
  case (Cons i "is")
  define member where "member = (ol_tx_vdev_has_tx_queue_group (txq_grps P ! i) v
      \<and> (tid < OL_TX_NUM_QOS_TIDS \<longrightarrow> ol_tx_ac_has_tx_queue_group (txq_grps P ! i) (TXRX_TID_TO_WMM_AC tid)))"
  show ?case
  proof (cases member)
    case True
    then have "set_peer_group_loop v tid r (i # is) 0 P = Some (upd_txq r (set_groups [Some i]) P)"
      using Cons.prems by (simp add: member_def OL_TX_MAX_GROUPS_PER_QUEUE_def upd_txq_def set_groups_def wr_def)
    then show ?thesis using Cons.prems(1)
      by (intro exI [of _ "[Some i]"]) (simp add: groups_ok_def OL_TX_MAX_GROUPS_PER_QUEUE_def)
  next
    case False
    then have "set_peer_group_loop v tid r (i # is) 0 P = set_peer_group_loop v tid r is 0 P"
      using Cons.prems by (auto simp: member_def OL_TX_MAX_GROUPS_PER_QUEUE_def)
    then show ?thesis using Cons by simp
  qed
qed

lemma set_peer_group_ptr_ok:
  assumes "length (group_ptrs (tx_queues P (PeerTxq h t))) = OL_TX_MAX_GROUPS_PER_QUEUE" and "length (txq_grps P) = OL_TX_MAX_TXQ_GROUPS"
  shows "\<exists>gs. ol_tx_set_peer_group_ptr h v t P = Some (upd_txq (PeerTxq h t) (set_groups gs) P) \<and> groups_ok (length (txq_grps P)) gs"
proof -
  let ?P = "upd_txq (PeerTxq h t) (set_groups [None]) P"
  have g: "set_txq_group_ptr None (PeerTxq h t) P = Some ?P" by (rule set_txq_group_ptr_ok [OF assms(1)])
  obtain gs where gs: "set_peer_group_loop v t (PeerTxq h t) [0..<OL_TX_MAX_TXQ_GROUPS] 0 ?P = Some (upd_txq (PeerTxq h t) (set_groups gs) ?P)"
    "groups_ok (length (txq_grps P)) gs"
    using group_loop_ok [of "[0..<OL_TX_MAX_TXQ_GROUPS]" ?P "PeerTxq h t" v t] assms(2) by (auto simp: set_groups_def)
  have "upd_txq (PeerTxq h t) (set_groups gs) ?P = upd_txq (PeerTxq h t) (set_groups gs) P" by (simp add: upd_txq_def set_groups_def)
  then show ?thesis using g gs by (intro exI [of _ gs]) (simp add: ol_tx_set_peer_group_ptr_def)
qed

text \<open>A queue without frames that the scheduler does not know may be initialised.\<close>

lemma fresh_queue_path_ok:
  assumes ok: "path_ok [] P" and t: "t < OL_TX_NUM_TIDS" and e: "q_head (tx_queues P (PeerTxq h t)) = []"
  shows "\<exists>P'. ol_tx_set_peer_group_ptr h v t (upd_txq (PeerTxq h t) (\<lambda>_. zero_txq) P) = Some P' \<and> path_ok [] P' \<and>
    peers_of P' = peers_of P \<and> vdev_list P' = vdev_list P \<and> (\<forall>r. q_head (tx_queues P' r) = q_head (tx_queues P r))"
proof -
  let ?r = "PeerTxq h t"
  let ?P0 = "upd_txq ?r (\<lambda>_. zero_txq) P"
  have v: "txq_valid ?r" using t by simp
  have inv: "tx_inv P" and dj: "disjoint_queues P" and st: "tx_sched_status P = ol_tx_scheduler_idle" and d: "descs_ok [] P"
    using ok by (auto simp: path_ok_def tx_ready_def)
  have len: "length (txq_grps P) = OL_TX_MAX_TXQ_GROUPS" using d by (auto simp: descs_ok_def owned_def)
  obtain gs where gs: "ol_tx_set_peer_group_ptr h v t ?P0 = Some (upd_txq ?r (set_groups gs) ?P0)" "groups_ok (length (txq_grps P)) gs"
    using set_peer_group_ptr_ok [of ?P0 h t v] len by (auto simp: zero_txq_def)
  define P' where "P' = upd_txq ?r (set_groups gs) ?P0"
  have q: "tx_queues P' = (tx_queues P)(?r := set_groups gs zero_txq)" by (simp add: P'_def)
  have hd': "q_head (tx_queues P' r) = q_head (tx_queues P r)" for r using e by (simp add: q set_groups_def zero_txq_def)
  have na: "q_flag (tx_queues P ?r) \<noteq> ol_tx_queue_active" using tx_inv_queue [OF inv v] e by (auto simp: queue_ok_def)
  have "tx_inv P'"
    by (rule tx_inv_idle [OF inv v na, of "set_groups gs zero_txq"])
      (use gs(2) in \<open>simp_all add: q P'_def set_groups_def zero_txq_def queue_ok_def groups_ok_def\<close>)
  moreover have "disjoint_queues P'" using dj by (simp add: disjoint_queues_def hd')
  moreover have "same_descs P P'" using hd' by (simp add: same_descs_def P'_def upd_txq_def)
  then have "descs_ok [] P'" using d by (rule descs_ok_same)
  ultimately have "path_ok [] P'" using st by (simp add: path_ok_def tx_ready_def P'_def)
  then show ?thesis using gs(1) hd' by (simp add: P'_def [symmetric]) (simp add: P'_def)
qed

lemma init_peer_ok:
  assumes ok: "path_ok [] P" and e: "\<forall>t<OL_TX_NUM_TIDS. q_head (tx_queues P (PeerTxq h t)) = []"
    and D: "D = (peer_tab P)\<lparr>peer_objs := (peer_objs (peer_tab P))(h \<mapsto> zero_peer\<lparr>peer_vdev := v, peer_mac := m\<rparr>)\<rparr>"
  shows "\<exists>P'. init_peer h v m P = Some P' \<and> path_ok [] P' \<and> peer_tab P' = D \<and> frame_format P' = frame_format P \<and>
    vdev_list P' = vdev_list P \<and> (\<forall>r. q_head (tx_queues P' r) = q_head (tx_queues P r))"
proof -
  let ?P0 = "P\<lparr>peer_tab := D\<rparr>"
  let ?body = "\<lambda>i P. ol_tx_set_peer_group_ptr h v i (upd_txq (PeerTxq h i) (\<lambda>_. zero_txq) P)"
  let ?I = "\<lambda>Q. path_ok [] Q \<and> peers_of Q = peers_of ?P0 \<and> vdev_list Q = vdev_list P \<and> (\<forall>r. q_head (tx_queues Q r) = q_head (tx_queues P r))"
  have "\<exists>P'. for_each [0..<OL_TX_NUM_TIDS] ?body ?P0 = Some P' \<and> ?I P'"
  proof (rule for_each_keeps [where I = ?I])
    fix i Q
    assume i: "i \<in> set [0..<OL_TX_NUM_TIDS]" and I: "?I Q"
    then show "\<exists>Q'. ?body i Q = Some Q' \<and> ?I Q'" using fresh_queue_path_ok [of Q i h v] e by auto
  qed (use ok in simp)
  then obtain P' where P': "for_each [0..<OL_TX_NUM_TIDS] ?body ?P0 = Some P'" "?I P'" by blast
  have "init_peer h v m P = Some P'" using P'(1) by (simp add: init_peer_def on_peers_def D)
  moreover have "peer_tab P' = D" "frame_format P' = frame_format P" using P'(2) by (simp_all add: peers_of_def)
  ultimately show ?thesis using P'(2) by auto
qed

section \<open>The new peer\<close>

lemma find_on_vdev:
  assumes "find_vdev v P = Some vdev" and "\<And>vdev. vdev_id (f vdev) = vdev_id vdev"
  shows "find_vdev v (upd_vdev_id v f P) = Some (f vdev)"
proof -
  have "find (\<lambda>vdev. vdev_id vdev = v) V = Some vdev \<Longrightarrow> find (\<lambda>vdev. vdev_id vdev = v) (on_vdev v f V) = Some (f vdev)" for V
    by (induction V) (auto simp: assms(2))
  then show ?thesis using assms(1) by (simp add: find_vdev_def upd_vdev_id_def)
qed

definition new_peer :: "u8 \<Rightarrow> mac \<Rightarrow> bool \<Rightarrow> tx_peer_t" where
  "new_peer v m bss = zero_peer\<lparr>peer_vdev := v, peer_mac := m, peer_ids := replicate MAX_NUM_PEER_ID_PER_PEER HTT_INVALID_PEER,
     ref_cnt := 2, peer_valid := True, bss_peer := bss, peer_state := ol_txrx_peer_state_invalid\<rparr>"

lemma attach_new_ok:
  assumes ok: "life_ok (\<lambda>_. 0) P" and v: "v \<in> vdev_id ` set (vdev_list P)" and m: "length m = 6" and new: "get_peer P h = None"
  shows "\<exists>P' l. attach_new H host_addba h v m P = Some P' \<and> life_ok (\<lambda>_. 0) P' \<and>
    known P' = (fst (known P), fst (snd (known P)), (snd (snd (known P)))(h \<mapsto> (v, m, False, l)))"
proof -
  let ?D = "peer_tab P"
  have nh: "peer_objs ?D h = None" using new by (simp add: get_peer_def)
  obtain P1 where P1: "init_peer h v m P = Some P1" "path_ok [] P1"
    "peer_tab P1 = ?D\<lparr>peer_objs := (peer_objs ?D)(h \<mapsto> zero_peer\<lparr>peer_vdev := v, peer_mac := m\<rparr>)\<rparr>"
    "frame_format P1 = frame_format P" "vdev_list P1 = vdev_list P" "\<forall>r. q_head (tx_queues P1 r) = q_head (tx_queues P r)"
    using init_peer_ok [OF life_okD(1) [OF ok] _ refl, of h v m] life_okD(7) [OF ok] nh by (auto simp: quiet_def)
  define V2 where "V2 = on_vdev v (\<lambda>vdev. vdev\<lparr>peer_list := peer_list vdev @ [h]\<rparr>) (vdev_list P)"
  obtain vdev0 where vd: "find_vdev v P1 = Some vdev0" using find_vdev_some [OF life_okD(5) [OF ok] v] by (auto simp: find_vdev_def P1(5))
  define vdev where "vdev = vdev0\<lparr>peer_list := peer_list vdev0 @ [h]\<rparr>"
  have fv: "find_vdev v (P1\<lparr>vdev_list := V2\<rparr>) = Some vdev"
    using find_on_vdev [OF vd, of "\<lambda>vdev. vdev\<lparr>peer_list := peer_list vdev @ [h]\<rparr>"] by (simp add: upd_vdev_id_def V2_def vdev_def P1(5))
  define V3 where "V3 = (if ol_txrx_peer_find_mac_addr_cmp (vdev_mac_addr vdev) m
     then on_vdev v (\<lambda>vdev. vdev\<lparr>last_real_peer := Some h\<rparr>) V2 else V2)"
  let ?b = "bin_of ?D m"
  define p4 where "p4 = new_peer v m (m = vdev_mac_addr vdev)"
  define bins where "bins = (hash_bins ?D)[?b := hash_bins ?D ! ?b @ [h]]"
  define D4 where "D4 = ?D\<lparr>peer_objs := (peer_objs ?D)(h \<mapsto> p4), hash_bins := bins\<rparr>"
  define P4 where "P4 = P1\<lparr>vdev_list := V3, peer_tab := D4\<rparr>"
  define p3 where "p3 = zero_peer\<lparr>peer_vdev := v, peer_mac := m, peer_ids := replicate MAX_NUM_PEER_ID_PER_PEER HTT_INVALID_PEER,
     ref_cnt := 2, peer_valid := True\<rparr>"
  have add: "ol_txrx_peer_find_hash_add h (?D\<lparr>peer_objs := (peer_objs ?D)(h \<mapsto> p3)\<rparr>) =
      Some (?D\<lparr>peer_objs := (peer_objs ?D)(h \<mapsto> p3), hash_bins := bins\<rparr>)"
    using hash_add_eq [OF life_okD(4) [OF ok], of "?D\<lparr>peer_objs := (peer_objs ?D)(h \<mapsto> p3)\<rparr>" h p3] by (simp add: bins_def p3_def)
  have start: "attach_new H host_addba h v m P = do {
      P \<leftarrow> ol_txrx_peer_state_update H host_addba m ol_txrx_peer_state_disc P4; on_peers (OL_TXRX_LOCAL_PEER_ID_ALLOC h) P }"
  proof -
    define P3 where "P3 = P1\<lparr>vdev_list := V3\<rparr>"
    have e3: "(if ol_txrx_peer_find_mac_addr_cmp (vdev_mac_addr vdev) m
        then upd_vdev_id v (\<lambda>vdev. vdev\<lparr>last_real_peer := Some h\<rparr>) (P1\<lparr>vdev_list := V2\<rparr>) else P1\<lparr>vdev_list := V2\<rparr>) = P3"
      by (simp add: upd_vdev_id_def P3_def V3_def)
    have u1: "on_peers (upd_peer h (\<lambda>p. p\<lparr>peer_ids := replicate MAX_NUM_PEER_ID_PER_PEER HTT_INVALID_PEER,
          ref_cnt := 2, peer_valid := True\<rparr>)) P3 = Some (P3\<lparr>peer_tab := ?D\<lparr>peer_objs := (peer_objs ?D)(h \<mapsto> p3)\<rparr>\<rparr>)"
      by (simp add: on_peers_def upd_peer_def P3_def P1(3) p3_def)
    have u2: "on_peers (ol_txrx_peer_find_hash_add h) (P3\<lparr>peer_tab := ?D\<lparr>peer_objs := (peer_objs ?D)(h \<mapsto> p3)\<rparr>\<rparr>) =
        Some (P3\<lparr>peer_tab := ?D\<lparr>peer_objs := (peer_objs ?D)(h \<mapsto> p3), hash_bins := bins\<rparr>\<rparr>)"
      using add by (simp add: on_peers_def)
    have "?D\<lparr>peer_objs := (peer_objs ?D)(h \<mapsto> p3), hash_bins := bins, peer_objs := (peer_objs ?D)(h \<mapsto> p4)\<rparr> = D4"
      by (cases ?D) (simp add: D4_def)
    then have u3: "on_peers (upd_peer h (\<lambda>p. p\<lparr>bss_peer := (m = vdev_mac_addr vdev), peer_state := ol_txrx_peer_state_invalid\<rparr>))
        (P3\<lparr>peer_tab := ?D\<lparr>peer_objs := (peer_objs ?D)(h \<mapsto> p3), hash_bins := bins\<rparr>\<rparr>) = Some P4"
      by (simp add: on_peers_def upd_peer_def P3_def P4_def p3_def p4_def new_peer_def)
    have e2: "upd_vdev_id v (\<lambda>vdev. vdev\<lparr>peer_list := peer_list vdev @ [h]\<rparr>) P1 = P1\<lparr>vdev_list := V2\<rparr>"
      by (simp add: upd_vdev_id_def V2_def P1(5))
    show ?thesis unfolding attach_new_def P1(1) bind.bind_lunit Let_def e2 fv e3 u1 u2 u3 ..
  qed
  have pk: "peer_ok p4" using m by (simp add: peer_ok_def p4_def new_peer_def zero_peer_def MAX_NUM_PEER_ID_PER_PEER_def)
  have r4: "refs_ok (\<lambda>_. 0) D4" unfolding D4_def bins_def
    using refs_ok_add [OF life_okD(3) [OF ok] nh pk]
    by (simp add: p4_def new_peer_def zero_peer_def MAX_NUM_PEER_ID_PER_PEER_def)
  have part: "vdev_part ?D h = None" "vdev_part D4 = (vdev_part ?D)(h \<mapsto> (v, False))"
    using nh by (auto simp: vdev_part_def D4_def p4_def new_peer_def zero_peer_def)
  have "vdevs_ok D4 V2" unfolding V2_def by (rule vdevs_ok_add [OF life_okD(5) [OF ok] part(1) v part(2)])
  then have v4: "vdevs_ok D4 V3" using vdevs_ok_last [of D4 V2 h v] part(2) by (simp add: V3_def)
  have "lids_ok {h} ?D" using life_okD(6) [OF ok] nh unfolding lids_ok_def by auto
  then have l4: "lids_ok {h} D4" by (rule lids_ok_cong) (auto simp: D4_def split: if_splits)
  have q4: "quiet P4" using life_okD(7) [OF ok] P1(6) by (auto simp: quiet_def P4_def D4_def split: if_splits)
  have ok4: "life_in {h} (\<lambda>_. 0) P4" using r4 v4 l4 q4 P1(2,4) life_okD(2) [OF ok] by (simp add: life_in_def P4_def)
  obtain P5 where P5: "ol_txrx_peer_state_update H host_addba m ol_txrx_peer_state_disc P4 = Some P5" "life_in {h} (\<lambda>_. 0) P5" "known P5 = known P4"
    using state_update_ok [OF ok4 m] by blast
  have "snd (snd (known P4)) h = Some (v, m, False, 0)" by (simp add: known_def P4_def D4_def p4_def new_peer_def zero_peer_def peer_key_def)
  then obtain p5 where p5: "peer_objs (peer_tab P5) h = Some p5" "peer_key p5 = (v, m, False, 0)" unfolding P5(3) [symmetric]
    by (auto simp: known_def)
  obtain D6 l where D6: "OL_TXRX_LOCAL_PEER_ID_ALLOC h (peer_tab P5) = Some D6" "lids_ok {} D6"
    "peer_objs D6 = (peer_objs (peer_tab P5))(h \<mapsto> p5\<lparr>peer_local_id := l\<rparr>)"
    "peer_id_to_obj_map D6 = peer_id_to_obj_map (peer_tab P5)" "hash_bins D6 = hash_bins (peer_tab P5)" "hash_mask D6 = hash_mask (peer_tab P5)"
    "hash_idx_bits D6 = hash_idx_bits (peer_tab P5)" "max_peer_id D6 = max_peer_id (peer_tab P5)"
    using lid_alloc_ok [OF life_okD(6) [OF P5(2)] p5(1)] p5(2) by (auto simp: peer_key_def)
  have "refs_ok (\<lambda>_. 0) ((peer_tab P5)\<lparr>peer_objs := (peer_objs (peer_tab P5))(h \<mapsto> p5\<lparr>peer_local_id := l\<rparr>)\<rparr>)"
    by (rule refs_ok_obj [OF life_okD(3) [OF P5(2)] p5(1)])
      (use refs_okD(5,6,7) [OF life_okD(3) [OF P5(2)] p5(1)] in \<open>simp_all add: peer_ok_def refs_of_def\<close>)
  then have r6: "refs_ok (\<lambda>_. 0) D6"
    using D6(3-8) by (simp add: refs_ok_def peers_ok_def bin_of_def ol_txrx_peer_find_hash_index_def Let_def refs_of_def)
  have "vdev_part D6 = vdev_part (peer_tab P5)" using p5(1) D6(3) by (auto simp: vdev_part_def)
  from vdevs_ok_cong [OF this life_okD(5) [OF P5(2)]] part_none [OF this]
  have "life_ok (\<lambda>_. 0) (P5\<lparr>peer_tab := D6\<rparr>)"
    using r6 D6(2) life_okD(1,2,7) [OF P5(2)] by (simp add: life_in_def quiet_def)
  moreover have "attach_new H host_addba h v m P = Some (P5\<lparr>peer_tab := D6\<rparr>)" using start P5(1) D6(1) by (simp add: on_peers_def)
  moreover have "map vdev_id V3 = map vdev_id (vdev_list P)" by (simp add: V3_def V2_def)
  then have "known P4 = (fst (known P), fst (snd (known P)), (snd (snd (known P)))(h \<mapsto> (v, m, False, 0)))"
    by (auto simp: known_def P4_def D4_def p4_def new_peer_def zero_peer_def peer_key_def fun_eq_iff)
  moreover have "known (P5\<lparr>peer_tab := D6\<rparr>) = (fst (known P5), fst (snd (known P5)), (snd (snd (known P5)))(h \<mapsto> (v, m, False, l)))"
    using p5(2) D6(3,8) by (auto simp: known_def peer_key_def fun_eq_iff)
  ultimately show ?thesis using P5(3) by (intro exI [of _ "P5\<lparr>peer_tab := D6\<rparr>"] exI [of _ l]) simp
qed

end
