(* ===== verification/Peer_Run.thy ===== *)
theory Peer_Run
  imports Peer_Attach
begin

text \<open>
  Sequences of operations on a device with peers, from the attached device on.
\<close>

section \<open>Attaching, as a whole\<close>

lemma dup_loop_ok:
  "\<forall>h\<in>set hs. objs h \<noteq> None \<Longrightarrow> \<exists>b w'. dup_loop objs m hs w = Some (b, w')"
  by (induction hs arbitrary: w) auto

text \<open>The device when the call begins to wait for the deletion of an old peer with the address.\<close>

definition waits :: "u8 \<Rightarrow> mac \<Rightarrow> ol_txrx_pdev_t \<Rightarrow> ol_txrx_pdev_t option" where
  "waits v m P = (case find_vdev v P of None \<Rightarrow> None | Some vdev \<Rightarrow>
     (case dup_loop (peer_objs (peer_tab P)) m (peer_list vdev) None of Some (True, Some lid) \<Rightarrow> Some (set_wait v lid P) | _ \<Rightarrow> None))"

lemma set_wait_ok: "life_ok e P \<Longrightarrow> life_ok e (set_wait v lid P) \<and> known (set_wait v lid P) = known P"
  using vdevs_ok_wait [of "peer_tab P" "vdev_list P" v lid]
  by (simp add: life_in_def set_wait_def upd_vdev_id_def quiet_def known_def)

lemma known_ids: "known P' = known P \<Longrightarrow> vdev_id ` set (vdev_list P') = vdev_id ` set (vdev_list P)"
  by (metis (no_types, lifting) known_def prod.inject list.set_map)

lemma attach_ok:
  assumes ok: "life_ok (\<lambda>_. 0) P" and v: "v \<in> vdev_id ` set (vdev_list P)" and m: "length m = 6"
    and now: "\<And>h. waits v m P = None \<Longrightarrow> mem = Some h \<Longrightarrow> get_peer P h = None"
    and wait: "\<And>Q rc Q'. waits v m P = Some Q \<Longrightarrow> wait Q = (rc, Q') \<Longrightarrow> life_ok (\<lambda>_. 0) Q' \<and>
      vdev_id ` set (vdev_list Q') = vdev_id ` set (vdev_list P) \<and> (\<forall>h. mem = Some h \<longrightarrow> get_peer Q' h = None)"
  shows "\<exists>r P'. ol_txrx_peer_attach H host_addba mem wait v m P = Some (r, P') \<and> life_ok (\<lambda>_. 0) P'"
proof -
  obtain vdev where vd: "find_vdev v P = Some vdev" "vdev \<in> set (vdev_list P)" by (rule find_vdev_some [OF life_okD(5) [OF ok] v])
  have "\<forall>h\<in>set (peer_list vdev). peer_objs (peer_tab P) h \<noteq> None" using vdevs_okD(1) [OF life_okD(5) [OF ok] vd(2)] by (auto simp: vdev_ok_def)
  then obtain b w where dup: "dup_loop (peer_objs (peer_tab P)) m (peer_list vdev) None = Some (b, w)" using dup_loop_ok by blast
  have new: "\<exists>r P'. (case mem of None \<Rightarrow> Some (None, Q) | Some h \<Rightarrow> do { P \<leftarrow> attach_new H host_addba h v m Q; Some (Some h, P) }) = Some (r, P')
      \<and> life_ok (\<lambda>_. 0) P'"
    if "life_ok (\<lambda>_. 0) Q" "v \<in> vdev_id ` set (vdev_list Q)" "\<And>h. mem = Some h \<Longrightarrow> get_peer Q h = None" for Q
  proof (cases mem)
    case None
    then show ?thesis using that(1) by simp
  next
    case (Some h)
    then show ?thesis using attach_new_ok [OF that(1,2) m that(3), of h H host_addba] by auto
  qed
  show ?thesis
  proof (cases b)
    case False
    then show ?thesis using vd(1) dup ok set_wait_ok [OF ok, of v] by (cases w) (auto simp: ol_txrx_peer_attach_def)
  next
    case True
    show ?thesis
    proof (cases w)
      case None
      then have "waits v m P = None" using vd(1) dup by (simp add: waits_def split: bool.split)
      then show ?thesis using new [OF ok v now] True None vd(1) dup by (simp add: ol_txrx_peer_attach_def)
    next
      case (Some lid)
      define Q where "Q = set_wait v lid P"
      have wq: "waits v m P = Some Q" using vd(1) dup True Some by (simp add: waits_def Q_def)
      obtain rc Q' where q: "wait Q = (rc, Q')" by (cases "wait Q")
      note w' = wait [OF wq q]
      show ?thesis
      proof (cases rc)
        case True
        then show ?thesis using new [of Q'] w' v \<open>b\<close> Some vd(1) dup q by (auto simp: ol_txrx_peer_attach_def Q_def [symmetric])
      next
        case False
        then show ?thesis using w' \<open>b\<close> Some vd(1) dup q set_wait_ok [of "\<lambda>_. 0" Q' v]
          by (simp add: ol_txrx_peer_attach_def Q_def [symmetric])
      qed
    qed
  qed
qed

section \<open>Operations\<close>

datatype peer_op =
    MapMsg u16 mac bool
  | UnmapMsg u16
  | TxReadyMsg u16
  | Detach nat
  | SetState mac ol_txrx_peer_state
  | SetParam mac ol_txrx_peer_update_param
  | OnPath path_op

fun peer_exec :: "tx_hl_env \<Rightarrow> bool \<Rightarrow> peer_op \<Rightarrow> ol_txrx_pdev_t \<Rightarrow> ol_txrx_pdev_t option" where
  "peer_exec E addba (MapMsg pid m ready) P = ol_rx_peer_map_handler (download_env E) pid m ready P"
| "peer_exec E addba (UnmapMsg pid) P = ol_rx_peer_unmap_handler pid P"
| "peer_exec E addba (TxReadyMsg pid) P = ol_txrx_peer_tx_ready_handler (download_env E) pid P"
| "peer_exec E addba (Detach h) P = ol_txrx_peer_detach h P"
| "peer_exec E addba (SetState m state) P = ol_txrx_peer_state_update (download_env E) addba m state P"
| "peer_exec E addba (SetParam m param) P = ol_txrx_peer_update m param P"
| "peer_exec E addba (OnPath op) P = path_exec E op P"

text \<open>
  The conditions: the target gives an identifier in its range that it has not given before; it takes away one in its
  range; a peer is detached once. The queues of a peer that is deleted are not paused, as freeing a paused queue breaks
  the scheduler (\<^verbatim>\<open>Tx_Correct\<close>).
\<close>

fun peer_may :: "peer_op \<Rightarrow> ol_txrx_pdev_t \<Rightarrow> bool" where
  "peer_may (MapMsg pid m ready) P \<longleftrightarrow> length m = 6 \<and> pid \<le> max_peer_id (peer_tab P) \<and> peer_id_to_obj_map (peer_tab P) ! unat pid = None"
| "peer_may (UnmapMsg pid) P \<longleftrightarrow> pid \<le> max_peer_id (peer_tab P) \<and>
     (\<forall>h. peer_id_to_obj_map (peer_tab P) ! unat pid = Some h \<longrightarrow> only_mapped h P \<longrightarrow> unpaused h P)"
| "peer_may (TxReadyMsg pid) P \<longleftrightarrow> True"
| "peer_may (Detach h) P \<longleftrightarrow> (\<exists>p. get_peer P h = Some p \<and> \<not> delete_in_progress p) \<and> (unmapped h P \<longrightarrow> unpaused h P)"
| "peer_may (SetState m state) P \<longleftrightarrow> length m = 6"
| "peer_may (SetParam m param) P \<longleftrightarrow> length m = 6"
| "peer_may (OnPath op) P \<longleftrightarrow> path_may op P"

text \<open>An attachment has the operations that run while it waits, and whether the wait ends before the timeout.\<close>

datatype life_op = Step peer_op | Attach "nat option" u8 mac "peer_op list" bool

definition waiting :: "tx_hl_env \<Rightarrow> bool \<Rightarrow> peer_op list \<Rightarrow> bool \<Rightarrow> ol_txrx_pdev_t \<Rightarrow> bool \<times> ol_txrx_pdev_t" where
  "waiting E addba during rc P = (case for_each during (peer_exec E addba) P of None \<Rightarrow> (False, P) | Some P' \<Rightarrow> (rc, P'))"

fun life_exec :: "tx_hl_env \<Rightarrow> bool \<Rightarrow> life_op \<Rightarrow> ol_txrx_pdev_t \<Rightarrow> ol_txrx_pdev_t option" where
  "life_exec E addba (Step op) P = peer_exec E addba op P"
| "life_exec E addba (Attach mem v m during rc) P =
     map_option snd (ol_txrx_peer_attach (download_env E) addba mem (waiting E addba during rc) v m P)"

fun steps_may :: "tx_hl_env \<Rightarrow> bool \<Rightarrow> peer_op list \<Rightarrow> ol_txrx_pdev_t \<Rightarrow> bool" where
  "steps_may E addba [] P \<longleftrightarrow> True"
| "steps_may E addba (op # ops) P \<longleftrightarrow> peer_may op P \<and>
     (case peer_exec E addba op P of None \<Rightarrow> True | Some P' \<Rightarrow> steps_may E addba ops P')"

text \<open>The memory of a new peer is not that of another peer, when it is allocated.\<close>

fun life_may :: "tx_hl_env \<Rightarrow> bool \<Rightarrow> life_op \<Rightarrow> ol_txrx_pdev_t \<Rightarrow> bool" where
  "life_may E addba (Step op) P \<longleftrightarrow> peer_may op P"
| "life_may E addba (Attach mem v m during rc) P \<longleftrightarrow> v \<in> vdev_id ` set (vdev_list P) \<and> length m = 6 \<and>
     (case waits v m P of
        None \<Rightarrow> (\<forall>h. mem = Some h \<longrightarrow> get_peer P h = None)
      | Some Q \<Rightarrow> steps_may E addba during Q \<and>
          (\<forall>h Q'. mem = Some h \<longrightarrow> for_each during (peer_exec E addba) Q = Some Q' \<longrightarrow> get_peer Q' h = None))"

text \<open>What others know of the peers changes only when a peer is detached or deleted.\<close>

definition forgets :: "nat set \<Rightarrow> ol_txrx_pdev_t \<Rightarrow> ol_txrx_pdev_t \<Rightarrow> bool" where
  "forgets A P P' \<longleftrightarrow> map vdev_id (vdev_list P') = map vdev_id (vdev_list P) \<and> max_peer_id (peer_tab P') = max_peer_id (peer_tab P) \<and>
     (\<forall>h. h \<notin> A \<longrightarrow> map_option peer_key (get_peer P' h) = map_option peer_key (get_peer P h))"

lemma forgets_known: "known P' = known P \<Longrightarrow> forgets A P P'"
  by (auto simp: known_def forgets_def get_peer_def dest: fun_cong)

fun may_forget :: "peer_op \<Rightarrow> ol_txrx_pdev_t \<Rightarrow> nat set" where
  "may_forget (Detach h) P = {h}"
| "may_forget (UnmapMsg pid) P = {h. peer_id_to_obj_map (peer_tab P) ! unat pid = Some h \<and> only_mapped h P}"
| "may_forget _ P = {}"

text \<open>The peers that an operation deletes.\<close>

fun frees :: "peer_op \<Rightarrow> ol_txrx_pdev_t \<Rightarrow> nat set" where
  "frees (Detach h) P = {h'. h' = h \<and> unmapped h P}"
| "frees (UnmapMsg pid) P = {h. peer_id_to_obj_map (peer_tab P) ! unat pid = Some h \<and> only_mapped h P}"
| "frees _ P = {}"

lemma dom_known: "dom (get_peer P) = dom (snd (snd (known P)))"
  by (auto simp: known_def get_peer_def)

lemma forgets_known_dom: "known P' = known P \<Longrightarrow> forgets A P P' \<and> dom (get_peer P') = dom (get_peer P)"
  by (simp add: forgets_known dom_known)

lemma peer_exec_ok:
  assumes ok: "life_ok (\<lambda>_. 0) P" and may: "peer_may op P"
  shows "\<exists>P'. peer_exec E addba op P = Some P' \<and> life_ok (\<lambda>_. 0) P' \<and> forgets (may_forget op P) P P' \<and>
    dom (get_peer P') = dom (get_peer P) - frees op P"
proof (cases op)
  case (MapMsg pid m ready)
  then obtain P' where "ol_rx_peer_map_handler (download_env E) pid m ready P = Some P'" and "life_ok (\<lambda>_. 0) P'" and k: "known P' = known P"
    using map_handler_ok [OF ok, of m pid "download_env E" ready] may by auto
  then show ?thesis using MapMsg forgets_known_dom [OF k] by simp
next
  case (UnmapMsg pid)
  obtain P' where P': "ol_rx_peer_unmap_handler pid P = Some P'" "life_ok (\<lambda>_. 0) P'"
    "case peer_id_to_obj_map (peer_tab P) ! unat pid of
       Some h \<Rightarrow> if only_mapped h P then known P' = (fst (known P), fst (snd (known P)), (snd (snd (known P)))(h := None)) else known P' = known P
     | None \<Rightarrow> known P' = known P"
    using unmap_handler_ok [OF ok, of pid] may UnmapMsg by auto
  have "forgets (may_forget op P) P P'"
    using P'(3) UnmapMsg forgets_known by (auto simp: forgets_def known_def get_peer_def fun_eq_iff split: option.splits if_splits)
  moreover have "dom (get_peer P') = dom (get_peer P) - frees op P"
  proof (cases "peer_id_to_obj_map (peer_tab P) ! unat pid")
    case (Some h)
    then have "frees op P = (if only_mapped h P then {h} else {})" using UnmapMsg by auto
    then show ?thesis using P'(3) Some by (simp add: dom_known split: if_splits)
  qed (use P'(3) UnmapMsg in \<open>simp add: dom_known\<close>)
  ultimately show ?thesis using P' UnmapMsg by auto
next
  case (TxReadyMsg pid)
  obtain P' where "ol_txrx_peer_tx_ready_handler (download_env E) pid P = Some P'" and "life_ok (\<lambda>_. 0) P'" and k: "known P' = known P"
    using tx_ready_handler_ok [OF ok, of "download_env E" pid] by auto
  then show ?thesis using TxReadyMsg forgets_known_dom [OF k] by simp
next
  case (Detach h)
  then obtain p where p: "get_peer P h = Some p" "\<not> delete_in_progress p" using may by auto
  obtain P' where P': "ol_txrx_peer_detach h P = Some P'" "life_ok (\<lambda>_. 0) P'"
    "known P' = (fst (known P), fst (snd (known P)),
      (snd (snd (known P)))(h := if unmapped h P then None else Some (peer_vdev p, peer_mac p, True, peer_local_id p)))"
    using detach_ok [OF ok p] may Detach by auto
  have "forgets {h} P P'" using P'(3) by (auto simp: forgets_def known_def get_peer_def fun_eq_iff)
  moreover have "frees op P = (if unmapped h P then {h} else {})" using Detach by auto
  then have "dom (get_peer P') = dom (get_peer P) - frees op P"
    using P'(3) p(1) by (auto simp: dom_known) (auto simp: known_def get_peer_def peer_key_def)
  ultimately show ?thesis using P' Detach by auto
next
  case (SetState m state)
  then obtain P' where "ol_txrx_peer_state_update (download_env E) addba m state P = Some P'" and "life_ok (\<lambda>_. 0) P'" and k: "known P' = known P"
    using state_update_ok [OF ok, of m "download_env E" addba state] may by auto
  then show ?thesis using SetState forgets_known_dom [OF k] by simp
next
  case (SetParam m param)
  then obtain P' where "ol_txrx_peer_update m param P = Some P'" and "life_ok (\<lambda>_. 0) P'" and k: "known P' = known P"
    using peer_update_ok [OF ok, of m param] may by auto
  then show ?thesis using SetParam forgets_known_dom [OF k] by simp
next
  case (OnPath pop)
  then obtain P' where "path_exec E pop P = Some P'" and "life_ok (\<lambda>_. 0) P'" and k: "known P' = known P"
    using path_life_ok [OF ok, of pop E] may by auto
  then show ?thesis using OnPath forgets_known_dom [OF k] by simp
qed

lemma steps_ok:
  "life_ok (\<lambda>_. 0) P \<Longrightarrow> steps_may E addba ops P \<Longrightarrow>
   \<exists>P'. for_each ops (peer_exec E addba) P = Some P' \<and> life_ok (\<lambda>_. 0) P' \<and> map vdev_id (vdev_list P') = map vdev_id (vdev_list P)"
proof (induction ops arbitrary: P)
  case (Cons op ops)
  obtain P1 where P1: "peer_exec E addba op P = Some P1" "life_ok (\<lambda>_. 0) P1" "forgets (may_forget op P) P P1"
    using peer_exec_ok [OF Cons.prems(1), of op E addba] Cons.prems(2) by auto
  then show ?case using Cons.IH [of P1] Cons.prems(2) by (auto simp: forgets_def)
qed simp

lemma life_exec_ok:
  assumes ok: "life_ok (\<lambda>_. 0) P" and may: "life_may E addba op P"
  shows "\<exists>P'. life_exec E addba op P = Some P' \<and> life_ok (\<lambda>_. 0) P'"
proof (cases op)
  case (Step pop)
  then show ?thesis using peer_exec_ok [OF ok, of pop E addba] may by auto
next
  case (Attach mem v m during rc)
  have v: "v \<in> vdev_id ` set (vdev_list P)" and m: "length m = 6" using may Attach by auto
  have "\<exists>r P'. ol_txrx_peer_attach (download_env E) addba mem (waiting E addba during rc) v m P = Some (r, P') \<and> life_ok (\<lambda>_. 0) P'"
  proof (rule attach_ok [OF ok v m])
    show "get_peer P h = None" if "waits v m P = None" "mem = Some h" for h using may Attach that by auto
    fix Q rc' Q'
    assume q: "waits v m P = Some Q" "waiting E addba during rc Q = (rc', Q')"
    obtain lid where "Q = set_wait v lid P" using q(1) by (auto simp: waits_def split: option.splits prod.splits bool.splits)
    then have okq: "life_ok (\<lambda>_. 0) Q" "known Q = known P" using set_wait_ok [OF ok] by auto
    obtain Q2 where Q2: "for_each during (peer_exec E addba) Q = Some Q2" "life_ok (\<lambda>_. 0) Q2" "map vdev_id (vdev_list Q2) = map vdev_id (vdev_list Q)"
      using steps_ok [OF okq(1), of E addba during] may Attach q(1) by auto
    have "map vdev_id (vdev_list Q2) = map vdev_id (vdev_list P)" using Q2(3) okq(2) by (simp add: known_def)
    then have "vdev_id ` set (vdev_list Q2) = vdev_id ` set (vdev_list P)" by (metis list.set_map)
    then show "life_ok (\<lambda>_. 0) Q' \<and> vdev_id ` set (vdev_list Q') = vdev_id ` set (vdev_list P) \<and> (\<forall>h. mem = Some h \<longrightarrow> get_peer Q' h = None)"
      using q(2) Q2 may Attach q(1) by (auto simp: waiting_def)
  qed
  then show ?thesis using Attach by auto
qed

inductive life_run :: "tx_hl_env \<Rightarrow> bool \<Rightarrow> ol_txrx_pdev_t \<Rightarrow> life_op list \<Rightarrow> ol_txrx_pdev_t \<Rightarrow> bool" for E addba where
  life_none: "life_run E addba P [] P"
| life_step: "life_may E addba op P \<Longrightarrow> life_exec E addba op P = Some P1 \<Longrightarrow> life_run E addba P1 ops P' \<Longrightarrow>
    life_run E addba P (op # ops) P'"

lemma life_run_ok: "life_run E addba P ops P' \<Longrightarrow> life_ok (\<lambda>_. 0) P \<Longrightarrow> life_ok (\<lambda>_. 0) P'"
proof (induction rule: life_run.induct)
  case (life_step op P P1 ops P')
  then show ?case using life_exec_ok [of P E addba op] by auto
qed

end
