(* ===== verification/Peer_Init.thy ===== *)
theory Peer_Init
  imports Peer_Run Tx_Life
begin

text \<open>
  The table of peers of an attached device: the size of the hash table, and that everything is consistent before the
  first peer.
\<close>

section \<open>The size of the hash table\<close>

lemma log2_loop_floor:
  "tmp \<noteq> 0 \<Longrightarrow> \<exists>k. log2_loop tmp l = l + 1 + int k \<and> 2 ^ k \<le> unat tmp \<and> unat tmp < 2 ^ Suc k"
proof (induction tmp l rule: log2_loop.induct)
  case (1 tmp l)
  have h: "unat (drop_bit 1 tmp) = unat tmp div 2" by (simp add: drop_bit_eq_div unat_div)
  show ?case
  proof (cases "drop_bit 1 tmp = 0")
    case True
    then have "unat tmp div 2 = 0" using h by (metis unat_0)
    moreover have "unat tmp \<noteq> 0" using "1.prems" by (simp add: unat_eq_0)
    ultimately have "unat tmp = 1" by linarith
    moreover have "log2_loop tmp l = l + 1" using True "1.prems" by (simp add: log2_loop.simps [of tmp] log2_loop.simps [of 0])
    ultimately show ?thesis by (intro exI [of _ 0]) simp
  next
    case False
    then obtain k where k: "log2_loop (drop_bit 1 tmp) (l + 1) = l + 1 + 1 + int k" "2 ^ k \<le> unat tmp div 2" "unat tmp div 2 < 2 ^ Suc k"
      using "1.IH" [OF "1.prems" False] h by auto
    moreover have "log2_loop tmp l = log2_loop (drop_bit 1 tmp) (l + 1)" using "1.prems" by (simp add: log2_loop.simps [of tmp])
    ultimately show ?thesis by (intro exI [of _ "Suc k"]) auto
  qed
qed

lemma power2_word:
  assumes "k < 32"
  shows "unat (push_bit k 1 :: u32) = 2 ^ k"
proof -
  have "(2 :: nat) ^ k < 2 ^ LENGTH(32)" using assms by (intro power_strict_increasing) simp_all
  moreover have "(push_bit k 1 :: u32) = word_of_nat (2 ^ k)" by (simp add: push_bit_eq_mult)
  ultimately show ?thesis by (metis unat_word_of_nat)
qed

text \<open>The least power of two that is not smaller.\<close>

lemma log2_ceil_least:
  fixes v :: u32
  assumes "v \<noteq> 0" and "unat v \<le> 2 ^ 31"
  obtains k where "ol_txrx_log2_ceil v = int k" "k < 32" "unat v \<le> 2 ^ k" "2 ^ k < 2 * unat v"
proof -
  obtain k where k: "log2_loop v (-1) = int k" "2 ^ k \<le> unat v" "unat v < 2 ^ Suc k" using log2_loop_floor [OF assms(1), of "-1"] by auto
  have "(2 :: nat) ^ k \<le> 2 ^ 31" using k(2) assms(2) by linarith
  then have k31: "k \<le> 31" by (rule power_le_imp_le_exp [rotated]) simp
  then have u: "unat (push_bit k 1 :: u32) = 2 ^ k" by (intro power2_word) simp
  show ?thesis
  proof (cases "push_bit k 1 = v")
    case True
    then have "unat v = 2 ^ k" using u by simp
    then show ?thesis using that [of k] k True k31 assms(1) by (simp add: ol_txrx_log2_ceil_def Let_def)
  next
    case False
    then have "unat v \<noteq> 2 ^ k" using u by (metis unat_inject)
    then have lt: "2 ^ k < unat v" using k(2) by simp
    have "k \<noteq> 31" using lt assms(2) by auto
    moreover have "ol_txrx_log2_ceil v = int (Suc k)" using False k(1) assms(1) by (simp add: ol_txrx_log2_ceil_def Let_def)
    ultimately show ?thesis using that [of "Suc k"] k(3) lt k31 by simp
  qed
qed

text \<open>The table has room for each identifier twice, and every address has a bin.\<close>

lemma hash_attach_size:
  obtains k where "fst (ol_txrx_peer_find_hash_attach True D) = 0"
    "length (hash_bins (snd (ol_txrx_peer_find_hash_attach True D))) = 2 ^ k"
    "hash_bins (snd (ol_txrx_peer_find_hash_attach True D)) = replicate (2 ^ k) []"
    "unat (hash_mask (snd (ol_txrx_peer_find_hash_attach True D))) = 2 ^ k - 1"
    "2 * (unat (max_peer_id D) + 1) \<le> 2 ^ k" "2 ^ k < 4 * (unat (max_peer_id D) + 1)"
proof -
  let ?n = "unat (max_peer_id D)"
  define v :: u32 where "v = (ucast (max_peer_id D) + 1) * 2"
  have n: "?n < 65536" by (rule unat_u16)
  have "v = word_of_nat (2 * (?n + 1))" by (simp add: v_def unsigned_of_nat [symmetric] distrib_right)
  then have v: "unat v = 2 * (?n + 1)" using n unat_word_of_nat [of "2 * (?n + 1)", where 'a = 32] by simp
  then have "v \<noteq> 0" "unat v \<le> 2 ^ 31" using n by (auto simp: unat_eq_0 [symmetric])
  then obtain k where k: "ol_txrx_log2_ceil v = int k" "k < 32" "unat v \<le> 2 ^ k" "2 ^ k < 2 * unat v" by (rule log2_ceil_least)
  have p: "unat (push_bit k 1 :: u32) = 2 ^ k" by (rule power2_word [OF k(2)])
  then have nz: "push_bit k 1 \<noteq> (0 :: u32)" by (metis power_not_zero unat_0 zero_neq_numeral)
  have e: "ol_txrx_peer_find_hash_attach True D = (0, D\<lparr>hash_mask := push_bit k 1 - 1, hash_idx_bits := k, hash_bins := replicate (2 ^ k) []\<rparr>)"
    unfolding ol_txrx_peer_find_hash_attach_def Let_def TXRX_PEER_HASH_LOAD_MULT_def TXRX_PEER_HASH_LOAD_SHIFT_def drop_bit_0 v_def [symmetric]
    using k(1) p by simp
  have "unat (push_bit k 1 - 1 :: u32) = 2 ^ k - 1" using unat_dec [OF nz] p by simp
  then show ?thesis using that [of k] e k(3,4) v by simp
qed

section \<open>Before the first peer\<close>

definition no_peers :: "ol_txrx_pdev_t \<Rightarrow> bool" where
  "no_peers P \<longleftrightarrow> (\<exists>D. peer_objs D = Map.empty \<and> unat (max_peer_id D) < 65535 \<and>
       peer_tab P = OL_TXRX_LOCAL_PEER_ID_POOL_INIT (snd (ol_txrx_peer_find_attach True True D))) \<and>
     frame_format P \<noteq> wlan_frm_fmt_unknown \<and> distinct (map vdev_id (vdev_list P)) \<and>
     (\<forall>vdev\<in>set (vdev_list P). peer_list vdev = [] \<and> last_real_peer vdev = None \<and>
        length (vdev_mac_addr vdev) = 6 \<and> length (hl_tdls_ap_mac_addr vdev) = 6)"

lemma tables_ok:
  assumes "peer_objs D = Map.empty" and "unat (max_peer_id D) < 65535"
    and T: "T = OL_TXRX_LOCAL_PEER_ID_POOL_INIT (snd (ol_txrx_peer_find_attach True True D))"
  shows "peer_objs T = Map.empty" and "refs_ok e T" and "lids_ok {} T"
proof -
  define D1 where "D1 = D\<lparr>peer_id_to_obj_map := replicate (unat (max_peer_id D) + 1) None\<rparr>"
  obtain k where k: "fst (ol_txrx_peer_find_hash_attach True D1) = 0"
    "hash_bins (snd (ol_txrx_peer_find_hash_attach True D1)) = replicate (2 ^ k) []"
    "unat (hash_mask (snd (ol_txrx_peer_find_hash_attach True D1))) = 2 ^ k - 1"
    by (rule hash_attach_size [of D1]) blast
  define D2 where "D2 = snd (ol_txrx_peer_find_hash_attach True D1)"
  have D2: "peer_objs D2 = Map.empty" "max_peer_id D2 = max_peer_id D" "peer_id_to_obj_map D2 = replicate (unat (max_peer_id D) + 1) None"
    using assms(1) by (simp_all add: D2_def D1_def ol_txrx_peer_find_hash_attach_def Let_def)
  have m: "ol_txrx_peer_find_map_attach True D = (0, D1)" by (simp add: ol_txrx_peer_find_map_attach_def D1_def)
  have "snd (ol_txrx_peer_find_attach True True D) = D2"
    using k(1) by (cases "ol_txrx_peer_find_hash_attach True D1") (simp add: ol_txrx_peer_find_attach_def m D2_def)
  then have T2: "T = OL_TXRX_LOCAL_PEER_ID_POOL_INIT D2" by (simp add: T)
  have b: "hash_bins T = replicate (2 ^ k) []" "hash_mask T = hash_mask D2" "peer_id_to_obj_map T = peer_id_to_obj_map D2" "max_peer_id T = max_peer_id D"
    using k(2) D2(2) by (simp_all add: T2 OL_TXRX_LOCAL_PEER_ID_POOL_INIT_def D2_def)
  show o: "peer_objs T = Map.empty" using D2(1) by (simp add: T2 OL_TXRX_LOCAL_PEER_ID_POOL_INIT_def)
  have "unat (hash_mask T) < 2 ^ k" using k(3) b(2) by (simp add: D2_def)
  then show "refs_ok e T" using D2(3) b o assms(2) by (simp add: refs_ok_def peers_ok_def)
  show "lids_ok {} T" unfolding T2 by (rule pool_init_ok [OF D2(1)])
qed

lemma attach_life_ok:
  assumes "fresh_pdev P" and "fresh_pool P" and "no_peers P"
  shows "life_ok (\<lambda>_. 0) (tx_desc_init (ol_tx_sched_attach True P))"
proof -
  let ?P = "tx_desc_init (ol_tx_sched_attach True P)"
  obtain D where D: "peer_objs D = Map.empty" "unat (max_peer_id D) < 65535"
    "peer_tab P = OL_TXRX_LOCAL_PEER_ID_POOL_INIT (snd (ol_txrx_peer_find_attach True True D))" using assms(3) by (auto simp: no_peers_def)
  note t = tables_ok [OF D]
  have e: "peer_tab ?P = peer_tab P" "vdev_list ?P = vdev_list P" "frame_format ?P = frame_format P"
    by (simp_all add: tx_desc_init_def ol_tx_sched_attach_def)
  have "vdevs_ok (peer_tab P) (vdev_list P)" using assms(3) t(1) by (auto simp: vdevs_ok_def vdev_ok_def no_peers_def)
  moreover have "quiet ?P" using assms(1) by (simp add: quiet_def tx_desc_init_def ol_tx_sched_attach_def fresh_pdev_def fresh_queue_def)
  ultimately show ?thesis using attach_path_ok [OF assms(1,2)] t e assms(3) by (simp add: life_in_def no_peers_def)
qed

end
