(* ===== verification/Peer_Correct.thy ===== *)
theory Peer_Correct
  imports Peer_Init
begin

text \<open>
  The properties of the life of peers: how the references are counted and when a peer is freed, the local identifiers,
  the search by address, and two cases in which the code does not do what it means to.
\<close>

section \<open>Evaluation\<close>

text \<open>
  A form of the initialisation of a peer that evaluates faster: the queues of the new peer are computed first, and the
  function that has them is not unfolded.
\<close>

fun group_of :: "u8 \<Rightarrow> nat \<Rightarrow> ol_tx_queue_group_t list \<Rightarrow> nat list \<Rightarrow> nat option option" where
  "group_of v t grps [] = Some None"
| "group_of v t grps (i # is) = do {
     grp \<leftarrow> rd grps i;
     if ol_tx_vdev_has_tx_queue_group grp v \<and> (t < OL_TX_NUM_QOS_TIDS \<longrightarrow> ol_tx_ac_has_tx_queue_group grp (TXRX_TID_TO_WMM_AC t))
     then Some (Some i) else group_of v t grps is }"

fun new_queues :: "u8 \<Rightarrow> ol_tx_queue_group_t list \<Rightarrow> nat list \<Rightarrow> (nat \<times> ol_tx_frms_queue_t) list option" where
  "new_queues v grps [] = Some []"
| "new_queues v grps (t # ts) = do {
     g \<leftarrow> group_of v t grps [0..<OL_TX_MAX_TXQ_GROUPS];
     qs \<leftarrow> new_queues v grps ts;
     Some ((t, set_groups [g] zero_txq) # qs) }"

definition with_queues :: "nat \<Rightarrow> (nat \<times> ol_tx_frms_queue_t) list \<Rightarrow> (txq_ref \<Rightarrow> ol_tx_frms_queue_t) \<Rightarrow> txq_ref \<Rightarrow> ol_tx_frms_queue_t" where
  "with_queues h qs f r = (case r of PeerTxq h' t \<Rightarrow> (if h' = h then (case map_of qs t of Some q \<Rightarrow> q | None \<Rightarrow> f r) else f r) | _ \<Rightarrow> f r)"

lemma group_loop_of:
  "group_ptrs (tx_queues P r) = [None] \<Longrightarrow> set_peer_group_loop v t r is 0 P =
     map_option (\<lambda>g. upd_txq r (set_groups [g]) P) (group_of v t (txq_grps P) is)"
proof (induction "is")
  case Nil
  then show ?case by (auto simp: upd_txq_def set_groups_def intro!: ol_txrx_pdev_t.equality)
next
  case (Cons i "is")
  then show ?case
    by (cases "rd (txq_grps P) i") (auto simp: OL_TX_MAX_GROUPS_PER_QUEUE_def wr_def upd_txq_def set_groups_def)
qed

lemma new_queue_of:
  "ol_tx_set_peer_group_ptr h v t (upd_txq (PeerTxq h t) (\<lambda>_. zero_txq) P) =
     map_option (\<lambda>g. upd_txq (PeerTxq h t) (\<lambda>_. set_groups [g] zero_txq) P) (group_of v t (txq_grps P) [0..<OL_TX_MAX_TXQ_GROUPS])"
proof -
  let ?r = "PeerTxq h t"
  let ?P = "upd_txq ?r (set_groups [None]) (upd_txq ?r (\<lambda>_. zero_txq) P)"
  have "set_txq_group_ptr None ?r (upd_txq ?r (\<lambda>_. zero_txq) P) = Some ?P"
    by (rule set_txq_group_ptr_ok) (simp add: zero_txq_def)
  moreover have "set_peer_group_loop v t ?r [0..<OL_TX_MAX_TXQ_GROUPS] 0 ?P =
      map_option (\<lambda>g. upd_txq ?r (set_groups [g]) ?P) (group_of v t (txq_grps ?P) [0..<OL_TX_MAX_TXQ_GROUPS])"
    by (rule group_loop_of) (simp add: set_groups_def)
  moreover have "upd_txq ?r (set_groups [g]) ?P = upd_txq ?r (\<lambda>_. set_groups [g] zero_txq) P" for g
    by (simp add: upd_txq_def set_groups_def)
  ultimately show ?thesis by (simp add: ol_tx_set_peer_group_ptr_def)
qed

lemma with_queues_upd:
  "t \<notin> set (map fst qs) \<Longrightarrow> with_queues h qs (f(PeerTxq h t := q)) = with_queues h ((t, q) # qs) f"
  using map_of_eq_None_iff [of qs t] by (auto simp: with_queues_def fun_eq_iff split: txq_ref.splits option.splits)

lemma new_queues_fst: "new_queues v grps ts = Some qs \<Longrightarrow> map fst qs = ts"
  by (induction ts arbitrary: qs) (auto simp: bind_eq_Some_conv)

lemma new_queues_of:
  "distinct ts \<Longrightarrow> for_each ts (\<lambda>t P. ol_tx_set_peer_group_ptr h v t (upd_txq (PeerTxq h t) (\<lambda>_. zero_txq) P)) P =
     map_option (\<lambda>qs. P\<lparr>tx_queues := with_queues h qs (tx_queues P)\<rparr>) (new_queues v (txq_grps P) ts)"
proof (induction ts arbitrary: P)
  case Nil
  have "with_queues h [] (tx_queues P) = tx_queues P" by (auto simp: with_queues_def fun_eq_iff split: txq_ref.split)
  then show ?case by simp
next
  case (Cons t ts)
  show ?case
  proof (cases "group_of v t (txq_grps P) [0..<OL_TX_MAX_TXQ_GROUPS]")
    case (Some g)
    define body where "body = (\<lambda>t P. ol_tx_set_peer_group_ptr h v t (upd_txq (PeerTxq h t) (\<lambda>_. zero_txq) P))"
    have IH: "for_each ts body Q = map_option (\<lambda>qs. Q\<lparr>tx_queues := with_queues h qs (tx_queues Q)\<rparr>) (new_queues v (txq_grps Q) ts)" for Q
      using Cons by (simp add: body_def)
    have b: "body t P = Some (upd_txq (PeerTxq h t) (\<lambda>_. set_groups [g] zero_txq) P)" using Some by (simp add: body_def new_queue_of)
    have q: "(upd_txq r f P)\<lparr>tx_queues := X\<rparr> = P\<lparr>tx_queues := X\<rparr>" for r f X by (simp add: upd_txq_def)
    have w: "with_queues h qs ((tx_queues P)(PeerTxq h t := q)) = with_queues h ((t, q) # qs) (tx_queues P)"
      if "new_queues v (txq_grps P) ts = Some qs" for qs q
      using Cons.prems new_queues_fst [OF that] by (intro with_queues_upd) simp
    show ?thesis unfolding body_def [symmetric] using Some w b by (cases "new_queues v (txq_grps P) ts") (simp_all add: IH q)
  qed (simp add: new_queue_of)
qed

lemma init_peer_code [code]:
  "init_peer h v m P = do {
     qs \<leftarrow> new_queues v (txq_grps P) [0..<OL_TX_NUM_TIDS];
     Some (P\<lparr>peer_tab := (peer_tab P)\<lparr>peer_objs := (peer_objs (peer_tab P))(h \<mapsto> zero_peer\<lparr>peer_vdev := v, peer_mac := m\<rparr>)\<rparr>,
             tx_queues := with_queues h qs (tx_queues P)\<rparr>) }"
  unfolding init_peer_def new_queues_of [OF distinct_upt]
  by (simp add: on_peers_def map_option_case option.case_eq_if bind_eq_Some_conv split: bind_split)

section \<open>An example\<close>

text \<open>A device without peers, whose target gives the identifiers up to 3.\<close>

definition bare_peers :: peer_db where
  "bare_peers = OL_TXRX_LOCAL_PEER_ID_POOL_INIT (snd (ol_txrx_peer_find_attach True True
     \<lparr>peer_objs = Map.empty, max_peer_id = 3, hash_bins = [], hash_mask = 0, hash_idx_bits = 0,
      peer_id_to_obj_map = [], lid_pool = [], lid_freelist = 0, lid_map = []\<rparr>))"

definition bare_pdev :: ol_txrx_pdev_t where
  "bare_pdev = (sample_pdev 17)\<lparr>vdev_list := [sample_vdev\<lparr>peer_list := []\<rparr>, sample_vdev\<lparr>vdev_id := 1, peer_list := []\<rparr>],
     peer_tab := bare_peers\<rparr>"

definition bare_attached :: ol_txrx_pdev_t where
  "bare_attached = tx_desc_init (ol_tx_sched_attach True bare_pdev)"

text \<open>The same device with its functions named, on which operations evaluate faster.\<close>

definition bare_queues :: "txq_ref \<Rightarrow> ol_tx_frms_queue_t" where
  "bare_queues r = fresh_queue"

definition bare_descs :: "u16 \<Rightarrow> ol_tx_desc_t" where
  "bare_descs i = \<lparr>desc_id = i, netbuf_len = 0, desc_vdev = 0, pkt_type = 0\<rparr>"

definition no_links :: "u16 \<Rightarrow> 'a option" where
  "no_links i = None"

definition zeros :: "u16 \<Rightarrow> 'a :: zero" where
  "zeros i = 0"

definition bare_links :: "u16 \<Rightarrow> u16 option" where
  "bare_links i = (if i < 99 then Some (i + 1) else None)"

lemma bare_attached_code [code]:
  "bare_attached = bare_pdev\<lparr>tx_queues := bare_queues, scheduler := ol_tx_sched_init_wrr_adv True,
     desc_mem := bare_descs, desc_ref := zeros, desc_status := zeros, desc_owner := no_links, desc_next := bare_links,
     freelist := Some 0, num_free := 100\<rparr>"
  by (auto simp: bare_attached_def tx_desc_init_def ol_tx_sched_attach_def bare_pdev_def sample_pdev_def bare_queues_def
    bare_descs_def no_links_def zeros_def bare_links_def fun_eq_iff word_less_def intro!: ol_txrx_pdev_t.equality)

lemma bare_fresh: "fresh_pdev bare_pdev" "fresh_pool bare_pdev"
  using sample_fresh [of 17] sample_pool [of 17] by (simp_all add: bare_pdev_def fresh_pdev_def fresh_pool_def)

lemma bare_no_peers: "no_peers bare_pdev"
proof -
  have "\<exists>D. peer_objs D = Map.empty \<and> unat (max_peer_id D) < 65535 \<and>
      bare_peers = OL_TXRX_LOCAL_PEER_ID_POOL_INIT (snd (ol_txrx_peer_find_attach True True D))"
    unfolding bare_peers_def by (intro exI conjI refl) simp_all
  then show ?thesis by (simp add: no_peers_def bare_pdev_def sample_pdev_def sample_vdev_def)
qed

abbreviation sta_mac :: mac where
  "sta_mac \<equiv> [2, 0, 0, 0, 0, 5]"

abbreviation sta_attach :: life_op where
  "sta_attach \<equiv> Attach (Some 1) 0 sta_mac [] True"

text \<open>What the conditions of the next operation and the examples need of peer 1.\<close>

definition peer_1 :: "ol_txrx_pdev_t \<Rightarrow> ((bool \<times> u16 \<times> u16 \<times> mac) option \<times> nat option list \<times> bool) option" where
  "peer_1 P = Some (map_option (\<lambda>p. (delete_in_progress p, peer_ids p ! 0, peer_local_id p, peer_mac p)) (get_peer P 1),
     peer_id_to_obj_map (peer_tab P), list_all (\<lambda>t. q_flag (tx_queues P (PeerTxq 1 t)) \<noteq> ol_tx_queue_paused) [0..<OL_TX_NUM_TIDS])"

lemma bare_eval:
  "do { P1 \<leftarrow> life_exec sample_hl False sta_attach bare_attached;
        P2 \<leftarrow> life_exec sample_hl False (Step (MapMsg 0 sta_mac True)) P1;
        P3 \<leftarrow> life_exec sample_hl False (Step (Detach 1)) P2;
        a \<leftarrow> peer_1 P1; b \<leftarrow> peer_1 P2; c \<leftarrow> peer_1 P3; Some [a, b, c] } =
   Some [(Some (False, HTT_INVALID_PEER, 0, sta_mac), [None, None, None, None], True),
         (Some (False, 0, 0, sta_mac), [Some 1, None, None, None], True),
         (Some (True, 0, 0, sta_mac), [Some 1, None, None, None], True)]"
  by code_simp

lemma life_run_snoc:
  "life_run E addba P ops P1 \<Longrightarrow> life_may E addba op P1 \<Longrightarrow> life_exec E addba op P1 = Some P2 \<Longrightarrow> life_run E addba P (ops @ [op]) P2"
  by (induction rule: life_run.induct) (auto intro: life_run.intros)

abbreviation attached_run :: "life_op list \<Rightarrow> ol_txrx_pdev_t \<Rightarrow> bool" where
  "attached_run \<equiv> life_run sample_hl False (tx_desc_init (ol_tx_sched_attach True bare_pdev))"

text \<open>The device after each of the operations.\<close>

lemma bare_runs:
  obtains P1 P2 P3 where "attached_run [sta_attach] P1" "attached_run [sta_attach, Step (MapMsg 0 sta_mac True)] P2"
    "attached_run [sta_attach, Step (MapMsg 0 sta_mac True), Step (Detach 1)] P3"
    "peer_1 P1 = Some (Some (False, HTT_INVALID_PEER, 0, sta_mac), [None, None, None, None], True)"
    "peer_1 P2 = Some (Some (False, 0, 0, sta_mac), [Some 1, None, None, None], True)"
    "peer_1 P3 = Some (Some (True, 0, 0, sta_mac), [Some 1, None, None, None], True)"
proof -
  obtain P1 P2 P3 where P: "life_exec sample_hl False sta_attach bare_attached = Some P1"
    "life_exec sample_hl False (Step (MapMsg 0 sta_mac True)) P1 = Some P2" "life_exec sample_hl False (Step (Detach 1)) P2 = Some P3"
    and o: "peer_1 P1 = Some (Some (False, HTT_INVALID_PEER, 0, sta_mac), [None, None, None, None], True)"
    "peer_1 P2 = Some (Some (False, 0, 0, sta_mac), [Some 1, None, None, None], True)"
    "peer_1 P3 = Some (Some (True, 0, 0, sta_mac), [Some 1, None, None, None], True)"
    using bare_eval by (auto simp: bind_eq_Some_conv simp del: life_exec.simps)
  have "waits 0 sta_mac bare_attached = None" "get_peer bare_attached 1 = None" "0 \<in> vdev_id ` set (vdev_list bare_attached)"
    by code_simp+
  then have "life_may sample_hl False sta_attach bare_attached" by simp
  then have r1: "attached_run [sta_attach] P1" using P(1) by (auto simp: bare_attached_def intro: life_run.intros)
  have "life_may sample_hl False (Step (MapMsg 0 sta_mac True)) P1" using o(1) by (simp add: peer_1_def)
  from life_run_snoc [OF r1 this P(2)] have r2: "attached_run [sta_attach, Step (MapMsg 0 sta_mac True)] P2" by simp
  have "life_may sample_hl False (Step (Detach 1)) P2" using o(2) by (auto simp: peer_1_def unmapped_def)
  from life_run_snoc [OF r2 this P(3)] show ?thesis using that [OF r1 r2] o by simp
qed

section \<open>References\<close>

lemma of_nat_unat_ucast: "(of_nat (unat (i :: u8)) :: u16) = ucast i"
  by simp

lemma unat_ucast_small: "unat (x :: u16) < 256 \<Longrightarrow> unat (ucast x :: u8) = unat x"
  by (simp add: unsigned_ucast_eq take_bit_nat_eq_self)

lemma ucast_not_invalid: "ucast (i :: u8) \<noteq> OL_TXRX_INVALID_LOCAL_PEER_ID"
proof
  assume "ucast i = OL_TXRX_INVALID_LOCAL_PEER_ID"
  then have "unat (ucast i :: u16) = 65535" by (simp add: OL_TXRX_INVALID_LOCAL_PEER_ID_def)
  moreover have "unat (ucast i :: u16) < 256" using unat_u8 [of i] by (simp add: unsigned_ucast_eq take_bit_nat_eq_self)
  ultimately show False by simp
qed


lemma attached_life_ok:
  assumes "fresh_pdev P" and "fresh_pool P" and "no_peers P"
    and "life_run E addba (tx_desc_init (ol_tx_sched_attach True P)) ops P'"
  shows "life_ok (\<lambda>_. 0) P'"
  by (rule life_run_ok [OF assms(4) attach_life_ok [OF assms(1-3)]])



text \<open>
  C26: When a peer is freed, on every such run: an operation of the target or of the user frees exactly the peer that is
  detached when it has had its first identifier and has none left, or whose last identifier the target takes away when
  it is detached and has had its first identifier. No other peer is freed, none is freed twice, and none appears.
\<close>

theorem peer_freed_exactly:
  assumes "fresh_pdev P" and "fresh_pool P" and "no_peers P"
    and "life_run E addba (tx_desc_init (ol_tx_sched_attach True P)) ops P'" and "peer_may op P'"
  shows "\<exists>P''. peer_exec E addba op P' = Some P'' \<and>
    (\<forall>h. get_peer P' h = None \<longrightarrow> get_peer P'' h = None) \<and>
    (\<forall>h p. get_peer P' h = Some p \<longrightarrow>
      (get_peer P'' h = None \<longleftrightarrow>
        peer_ids p ! 0 \<noteq> HTT_INVALID_PEER \<and>
        (op = Detach h \<and> Some h \<notin> set (peer_id_to_obj_map (peer_tab P')) \<or>
         delete_in_progress p \<and> count_list (peer_id_to_obj_map (peer_tab P')) (Some h) = 1 \<and>
           (\<exists>pid. op = UnmapMsg pid \<and> peer_id_to_obj_map (peer_tab P') ! unat pid = Some h))))"
proof -
  obtain P'' where P'': "peer_exec E addba op P' = Some P''" "dom (get_peer P'') = dom (get_peer P') - frees op P'"
    using peer_exec_ok [OF attached_life_ok [OF assms(1-4)] assms(5)] by blast
  have "get_peer P'' h = None \<longleftrightarrow> h \<in> frees op P'" if "get_peer P' h = Some p" for h p
    using P''(2) that domIff [of h "get_peer P''"] domI [of "get_peer P'" h] by blast
  moreover have "h \<in> frees op P' \<longleftrightarrow> peer_ids p ! 0 \<noteq> HTT_INVALID_PEER \<and>
      (op = Detach h \<and> Some h \<notin> set (peer_id_to_obj_map (peer_tab P')) \<or>
       delete_in_progress p \<and> count_list (peer_id_to_obj_map (peer_tab P')) (Some h) = 1 \<and>
         (\<exists>pid. op = UnmapMsg pid \<and> peer_id_to_obj_map (peer_tab P') ! unat pid = Some h))" if "get_peer P' h = Some p" for h p
    using that by (cases op) (auto simp: unmapped_def only_mapped_def)
  moreover have "get_peer P'' h = None" if "get_peer P' h = None" for h
    using P''(2) that domIff [of h "get_peer P''"] domIff [of h "get_peer P'"] by blast
  ultimately show ?thesis using P''(1) by auto
qed

theorem peer_freed_exactly_witness:
  "\<exists>P P'. attached_run [sta_attach, Step (MapMsg 0 sta_mac True), Step (Detach 1)] P \<and> get_peer P 1 \<noteq> None \<and>
     peer_exec sample_hl False (UnmapMsg 0) P = Some P' \<and> get_peer P' 1 = None"
proof -
  obtain P where P: "attached_run [sta_attach, Step (MapMsg 0 sta_mac True), Step (Detach 1)] P"
    "peer_1 P = Some (Some (True, 0, 0, sta_mac), [Some 1, None, None, None], True)" by (rule bare_runs) blast
  then obtain p where p: "get_peer P 1 = Some p" "delete_in_progress p" "peer_ids p ! 0 = 0"
    "peer_id_to_obj_map (peer_tab P) = [Some 1, None, None, None]" "unpaused 1 P"
    by (auto simp: peer_1_def unpaused_def list_all_iff)
  then have "peer_may (UnmapMsg 0) P" by simp
  from peer_freed_exactly [OF bare_fresh bare_no_peers P(1) this] p P(1) show ?thesis
    by (auto simp: HTT_INVALID_PEER_def)
qed

section \<open>Local identifiers\<close>

text \<open>
  C27: The local identifiers on every such run: the search by the identifier of an attached peer finds this peer, and what
  a search finds is an attached peer with this identifier. So no two attached peers share an identifier, and a detached
  peer is not found, although it keeps its number. Every search returns.
\<close>

theorem local_id_roundtrip:
  assumes "fresh_pdev P" and "fresh_pool P" and "no_peers P"
    and "life_run E addba (tx_desc_init (ol_tx_sched_attach True P)) ops P'"
  shows "(\<forall>h p. get_peer P' h = Some p \<longrightarrow> \<not> delete_in_progress p \<longrightarrow> peer_local_id p \<noteq> OL_TXRX_INVALID_LOCAL_PEER_ID \<longrightarrow>
       unat (peer_local_id p) < OL_TXRX_NUM_LOCAL_PEER_IDS \<and>
       ol_txrx_peer_find_by_local_id (peer_tab P') (ucast (peer_local_id p)) = Some (Some h)) \<and>
    (\<forall>i. \<exists>r. ol_txrx_peer_find_by_local_id (peer_tab P') i = Some r \<and>
       (\<forall>h. r = Some h \<longrightarrow> (\<exists>p. get_peer P' h = Some p \<and> \<not> delete_in_progress p \<and> peer_local_id p = ucast i)))"
proof (intro conjI allI impI)
  have ok: "lids_ok {} (peer_tab P')" by (rule life_okD(6) [OF attached_life_ok [OF assms]])
  then have len: "length (lid_map (peer_tab P')) = OL_TXRX_NUM_LOCAL_PEER_IDS" by (auto simp: lids_ok_def lid_list_def)
  have inv: "ucast i \<noteq> OL_TXRX_INVALID_LOCAL_PEER_ID" for i :: u8 by (rule ucast_not_invalid)
  {
    fix h p
    assume p: "get_peer P' h = Some p" "\<not> delete_in_progress p" "peer_local_id p \<noteq> OL_TXRX_INVALID_LOCAL_PEER_ID"
    then have l: "unat (peer_local_id p) < OL_TXRX_NUM_LOCAL_PEER_IDS" "lid_map (peer_tab P') ! unat (peer_local_id p) = Some h"
      using ok by (auto simp: lids_ok_def has_lid_def get_peer_def)
    show "unat (peer_local_id p) < OL_TXRX_NUM_LOCAL_PEER_IDS" by (rule l(1))
    have "unat (ucast (peer_local_id p) :: u8) = unat (peer_local_id p)" using l(1) by (intro unat_ucast_small) (simp add: OL_TXRX_NUM_LOCAL_PEER_IDS_def)
    then show "ol_txrx_peer_find_by_local_id (peer_tab P') (ucast (peer_local_id p)) = Some (Some h)"
      using l len inv [of "ucast (peer_local_id p)"] by (simp add: ol_txrx_peer_find_by_local_id_def)
  next
    fix i :: u8
    have "\<exists>p. get_peer P' h = Some p \<and> \<not> delete_in_progress p \<and> peer_local_id p = ucast i"
      if "unat i < OL_TXRX_NUM_LOCAL_PEER_IDS" "lid_map (peer_tab P') ! unat i = Some h" for h
      using ok that unfolding lids_ok_def get_peer_def by (metis of_nat_unat_ucast)
    then show "\<exists>r. ol_txrx_peer_find_by_local_id (peer_tab P') i = Some r \<and>
       (\<forall>h. r = Some h \<longrightarrow> (\<exists>p. get_peer P' h = Some p \<and> \<not> delete_in_progress p \<and> peer_local_id p = ucast i))"
      using inv [of i] len by (auto simp: ol_txrx_peer_find_by_local_id_def)
  }
qed

theorem local_id_roundtrip_witness:
  "\<exists>P p. attached_run [sta_attach] P \<and> get_peer P 1 = Some p \<and> ol_txrx_peer_find_by_local_id (peer_tab P) (ucast (peer_local_id p)) = Some (Some 1)"
proof -
  obtain P where P: "attached_run [sta_attach] P" "peer_1 P = Some (Some (False, HTT_INVALID_PEER, 0, sta_mac), [None, None, None, None], True)"
    by (rule bare_runs) blast
  then obtain p where "get_peer P 1 = Some p" "\<not> delete_in_progress p" "peer_local_id p = 0" by (auto simp: peer_1_def)
  moreover from this have "ol_txrx_peer_find_by_local_id (peer_tab P) (ucast (peer_local_id p)) = Some (Some 1)"
    using local_id_roundtrip [OF bare_fresh bare_no_peers P(1), THEN conjunct1, rule_format, of 1 p]
    by (simp add: OL_TXRX_INVALID_LOCAL_PEER_ID_def)
  ultimately show ?thesis using P(1) by blast
qed

section \<open>The hash table\<close>

text \<open>
  The size of the hash table that is allocated: the number of bins is the least power of two that is at least twice
  the number of identifiers (with an integer argument of 16 bits nothing wraps), and the index of every address is that
  of a bin.
\<close>

theorem peer_hash_size:
  "\<exists>k D'. ol_txrx_peer_find_hash_attach True D = (0, D') \<and> length (hash_bins D') = 2 ^ k \<and>
     2 * (unat (max_peer_id D) + 1) \<le> 2 ^ k \<and> 2 ^ k < 2 * (2 * (unat (max_peer_id D) + 1)) \<and>
     (\<forall>m. unat (ol_txrx_peer_find_hash_index D' m) < 2 ^ k)"
proof -
  obtain k where k: "fst (ol_txrx_peer_find_hash_attach True D) = 0"
    "length (hash_bins (snd (ol_txrx_peer_find_hash_attach True D))) = 2 ^ k"
    "unat (hash_mask (snd (ol_txrx_peer_find_hash_attach True D))) = 2 ^ k - 1"
    "2 * (unat (max_peer_id D) + 1) \<le> 2 ^ k" "2 ^ k < 4 * (unat (max_peer_id D) + 1)"
    by (rule hash_attach_size [of D]) blast
  define D' where "D' = snd (ol_txrx_peer_find_hash_attach True D)"
  have m: "unat (hash_mask D') < 2 ^ k" using k(3) by (simp add: D'_def)
  have "unat (ol_txrx_peer_find_hash_index D' m) < 2 ^ k" for m
    unfolding ol_txrx_peer_find_hash_index_def Let_def by (rule unat_and_mask_less [OF m])
  moreover have "2 ^ k < 2 * (2 * (unat (max_peer_id D) + 1))" using k(5) by simp
  moreover have "ol_txrx_peer_find_hash_attach True D = (0, D')" using k(1) by (simp add: D'_def prod_eq_iff)
  moreover have "length (hash_bins D') = 2 ^ k" using k(2) by (simp only: D'_def)
  ultimately show ?thesis using k(4) by blast
qed

text \<open>
  C28: The search by address on every such run finds a peer if and only if an allocated peer has the address - attached,
  if only valid peers are asked for - and returns it with exactly one reference more; otherwise the table is the same.
\<close>

theorem peer_search_by_address:
  assumes "fresh_pdev P" and "fresh_pool P" and "no_peers P"
    and "life_run E addba (tx_desc_init (ol_tx_sched_attach True P)) ops P'" and "length m = 6"
  shows "\<exists>r D. ol_txrx_peer_find_hash_find m check_valid (peer_tab P') = Some (r, D) \<and>
    (r = None \<longleftrightarrow> (\<forall>h p. get_peer P' h = Some p \<and> peer_mac p = m \<longrightarrow> check_valid \<and> delete_in_progress p)) \<and>
    (case r of
       None \<Rightarrow> D = peer_tab P'
     | Some h \<Rightarrow> \<exists>p. get_peer P' h = Some p \<and> peer_mac p = m \<and> (check_valid \<longrightarrow> \<not> delete_in_progress p) \<and>
         D = (peer_tab P')\<lparr>peer_objs := (peer_objs (peer_tab P'))(h \<mapsto> p\<lparr>ref_cnt := ref_cnt p + 1\<rparr>)\<rparr>)"
proof -
  let ?D = "peer_tab P'"
  have ok: "refs_ok (\<lambda>_. 0) ?D" by (rule life_okD(3) [OF attached_life_ok [OF assms(1-4)]])
  note po = refs_okD(1) [OF ok] and val = refs_okD(6) [OF ok]
  let ?match = "\<lambda>p. \<not> check_valid \<or> peer_valid p"
  have f: "ol_txrx_peer_find_hash_find m check_valid ?D =
      Some (case first_peer ?D m ?match of None \<Rightarrow> (None, ?D) | Some h \<Rightarrow> (Some h, held h ?D))"
    unfolding ol_txrx_peer_find_hash_find_def by (rule hash_search_first [OF po assms(5)])
  have none: "first_peer ?D m ?match = None \<longleftrightarrow> (\<forall>h p. get_peer P' h = Some p \<and> peer_mac p = m \<longrightarrow> check_valid \<and> delete_in_progress p)"
    unfolding first_peer_None [OF po] get_peer_def using val by blast
  show ?thesis
  proof (cases "first_peer ?D m ?match")
    case None
    then have "ol_txrx_peer_find_hash_find m check_valid ?D = Some (None, ?D)" using f by simp
    then show ?thesis using none None by (intro exI [of _ None] exI [of _ ?D]) (simp only: option.case simp_thms)
  next
    case (Some h)
    then obtain p where "peer_objs ?D h = Some p" "peer_mac p = m" "?match p" by (rule first_peer_Some [OF po])
    then show ?thesis using f none Some val [of h p] by (auto simp: get_peer_def held_def)
  qed
qed

theorem peer_search_by_address_witness:
  "\<exists>P h D. attached_run [sta_attach] P \<and> ol_txrx_peer_find_hash_find sta_mac True (peer_tab P) = Some (Some h, D)"
proof -
  obtain P where P: "attached_run [sta_attach] P" "peer_1 P = Some (Some (False, HTT_INVALID_PEER, 0, sta_mac), [None, None, None, None], True)"
    by (rule bare_runs) blast
  then obtain p where "get_peer P 1 = Some p" "\<not> delete_in_progress p" "peer_mac p = sta_mac" by (auto simp: peer_1_def)
  moreover obtain r D where "ol_txrx_peer_find_hash_find sta_mac True (peer_tab P) = Some (r, D)"
    "r = None \<longleftrightarrow> (\<forall>h p. get_peer P h = Some p \<and> peer_mac p = sta_mac \<longrightarrow> True \<and> delete_in_progress p)"
    using peer_search_by_address [OF bare_fresh bare_no_peers P(1), of sta_mac True] by auto
  ultimately show ?thesis using P(1) by (cases r) auto
qed

section \<open>Deviations\<close>

text \<open>
  An address that is a peer of two virtual devices: attaching the second peer looks the address up without the
  virtual device, so that the state of the first peer - which was authenticated - is reset, and the second keeps the
  state \<^verbatim>\<open>ol_txrx_peer_state_invalid\<close>. The message that maps the identifier of the second peer maps it to the first.
\<close>

theorem same_address_on_two_vdevs:
  "map_option (\<lambda>P. (map_option peer_state (get_peer P 1), map_option peer_state (get_peer P 2), peer_id_to_obj_map (peer_tab P)))
     (for_each [Attach (Some 1) 0 sta_mac [] True, Step (MapMsg 0 sta_mac True), Step (SetState sta_mac ol_txrx_peer_state_auth),
        Attach (Some 2) 1 sta_mac [] True, Step (MapMsg 1 sta_mac True)] (life_exec sample_hl False) bare_attached) =
   Some (Some ol_txrx_peer_state_disc, Some ol_txrx_peer_state_invalid, [Some 1, Some 1, None, None])"
  by code_simp

text \<open>
  The wait for the deletion of an old peer is for its local identifier, which the detachment has already returned
  to the pool. Peer 1 is detached, peer 2 gets the identifier and is detached too; then the address of peer 1 is
  attached again. The deletion of peer 2 ends the wait, although peer 1 is still there, so that two peers of the
  virtual device have the address, and the message that maps the identifier of the new peer maps it to the old one.
\<close>

theorem wait_ends_with_another_peer:
  "map_option (\<lambda>P. (map wait_on_peer_id (vdev_list P), map (\<lambda>h. map_option (\<lambda>p. (peer_mac p, delete_in_progress p)) (get_peer P h)) [1, 2, 3],
       peer_id_to_obj_map (peer_tab P)))
     (for_each [Attach (Some 1) 0 sta_mac [] True, Step (MapMsg 0 sta_mac True), Step (Detach 1),
        Attach (Some 2) 0 [2, 0, 0, 0, 0, 7] [] True, Step (MapMsg 1 [2, 0, 0, 0, 0, 7] True), Step (Detach 2),
        Attach (Some 3) 0 sta_mac [UnmapMsg 1] True, Step (MapMsg 2 sta_mac True)] (life_exec sample_hl False) bare_attached) =
   Some ([OL_TXRX_INVALID_LOCAL_PEER_ID, OL_TXRX_INVALID_LOCAL_PEER_ID],
     [Some (sta_mac, True), None, Some (sta_mac, False)], [Some 1, None, Some 1, None])"
  by code_simp

end
