(* ===== verification/Htc_List.thy ===== *)
theory Htc_List
  imports Link_Memory
begin

text \<open>
  The packet queues of HTC: the circular lists of dl_list.h and the queue macros of htc_packet.h on
  top of them, in the memory of links. The theorems say that a queue is a sequence of packets and
  each macro the list operation it is named after; the theories of HTC use sequences.
\<close>

section \<open>Lists: dl_list.h\<close>

text \<open>
  The link fields are \<open>prv\<close> (\<^verbatim>\<open>pPrev\<close>) and \<open>nxt\<close> (\<^verbatim>\<open>pNext\<close>). A function that returns its argument
  returns only the memory here.
\<close>

definition DL_LIST_INIT :: "addr \<Rightarrow> links \<Rightarrow> links" where
  "DL_LIST_INIT pList l = set_nxt pList pList (set_prv pList pList l)"

definition DL_LIST_INIT_AND_ADD :: "addr \<Rightarrow> addr \<Rightarrow> links \<Rightarrow> links" where
  "DL_LIST_INIT_AND_ADD pList pItem l =
     set_prv pItem pList (set_nxt pItem pList (set_nxt pList pItem (set_prv pList pItem l)))"

definition DL_LIST_IS_EMPTY :: "links \<Rightarrow> addr \<Rightarrow> bool" where
  "DL_LIST_IS_EMPTY l pList \<longleftrightarrow> prv l pList = pList \<and> nxt l pList = pList"

definition DL_LIST_GET_ITEM_AT_HEAD :: "links \<Rightarrow> addr \<Rightarrow> addr" where
  "DL_LIST_GET_ITEM_AT_HEAD l pList = nxt l pList"

definition DL_ListIsEntryInList :: "links \<Rightarrow> addr \<Rightarrow> addr \<Rightarrow> bool option" where
  "DL_ListIsEntryInList l pList pEntry =
     (if pList = pEntry then Some True
      else list_search l pList (\<lambda>pTmp. pTmp = pEntry) (nxt l pList))"

definition DL_ListInsertTail :: "addr \<Rightarrow> addr \<Rightarrow> links \<Rightarrow> links" where
  "DL_ListInsertTail pList pAdd l =
    (let l = set_prv pAdd (prv l pList) l;
         l = set_nxt pAdd pList l;
         l = (if prv l pList \<noteq> NULL then set_nxt (prv l pList) pAdd l else l)
     in set_prv pList pAdd l)"

definition DL_ListInsertHead :: "addr \<Rightarrow> addr \<Rightarrow> links \<Rightarrow> links" where
  "DL_ListInsertHead pList pAdd l =
    (let l = set_prv pAdd pList l;
         l = set_nxt pAdd (nxt l pList) l;
         l = set_prv (nxt l pList) pAdd l
     in set_nxt pList pAdd l)"

definition DL_ListRemove :: "addr \<Rightarrow> links \<Rightarrow> links" where
  "DL_ListRemove pDel l =
    (let l = (if nxt l pDel \<noteq> NULL then set_prv (nxt l pDel) (prv l pDel) l else l);
         l = (if prv l pDel \<noteq> NULL then set_nxt (prv l pDel) (nxt l pDel) l else l)
     in set_prv pDel pDel (set_nxt pDel pDel l))"

definition DL_ListRemoveItemFromHead :: "addr \<Rightarrow> links \<Rightarrow> addr \<times> links" where
  "DL_ListRemoveItemFromHead pList l =
    (if nxt l pList \<noteq> pList then (nxt l pList, DL_ListRemove (nxt l pList) l) else (NULL, l))"

definition DL_ListRemoveItemFromTail :: "addr \<Rightarrow> links \<Rightarrow> addr \<times> links" where
  "DL_ListRemoveItemFromTail pList l =
    (if prv l pList \<noteq> pList then (prv l pList, DL_ListRemove (prv l pList) l) else (NULL, l))"

definition DL_ListTransferItemsToTail :: "addr \<Rightarrow> addr \<Rightarrow> links \<Rightarrow> links" where
  "DL_ListTransferItemsToTail pDest pSrc l =
    (if \<not> DL_LIST_IS_EMPTY l pSrc then
       let l = set_nxt (prv l pSrc) pDest l;
           l = set_prv (nxt l pSrc) (prv l pDest) l;
           l = set_nxt (prv l pDest) (nxt l pSrc) l;
           l = set_prv pDest (prv l pSrc) l
       in set_nxt pSrc pSrc (set_prv pSrc pSrc l)
     else l)"

definition DL_ListTransferItemsToHead :: "addr \<Rightarrow> addr \<Rightarrow> links \<Rightarrow> links" where
  "DL_ListTransferItemsToHead pDest pSrc l =
    (if \<not> DL_LIST_IS_EMPTY l pSrc then
       let l = set_prv (nxt l pSrc) pDest l;
           l = set_prv (nxt l pDest) (prv l pSrc) l;
           l = set_nxt (prv l pSrc) (nxt l pDest) l;
           l = set_nxt pDest (nxt l pSrc) l
       in set_nxt pSrc pSrc (set_prv pSrc pSrc l)
     else l)"

text \<open>Each of them on the sequence a list head represents; no node is at the address \<open>NULL\<close>.\<close>

lemma DL_LIST_INIT_dll: "dll (DL_LIST_INIT h l) h []"
  by (simp add: dll_def DL_LIST_INIT_def heap_simps)

lemma DL_LIST_INIT_AND_ADD_dll: "x \<noteq> h \<Longrightarrow> dll (DL_LIST_INIT_AND_ADD h x l) h [x]"
  by (simp add: dll_def DL_LIST_INIT_AND_ADD_def heap_simps)

lemma DL_LIST_IS_EMPTY_dll: "dll l h xs \<Longrightarrow> DL_LIST_IS_EMPTY l h \<longleftrightarrow> xs = []"
  by (cases xs) (auto simp: dll_def DL_LIST_IS_EMPTY_def)

lemma DL_ListIsEntryInList_dll:
  "dll l h xs \<Longrightarrow> DL_ListIsEntryInList l h p = Some (p \<in> set (h # xs))"
  by (auto simp: DL_ListIsEntryInList_def list_search_dll)

lemma DL_ListInsertTail_dll:
  assumes "dll l h xs" and "n \<notin> set (h # xs)" and "NULL \<notin> set (h # xs)"
  shows "dll (DL_ListInsertTail h n l) h (xs @ [n])"
proof -
  have d: "dll l h (xs @ [])" using assms(1) by simp
  define p where "p = last (h # xs)"
  note g = dll_gap [OF d p_def, simplified]
  have "p \<in> set (h # xs)" unfolding p_def by (rule last_in_set) simp
  then have "p \<noteq> n" "h \<noteq> n" "p \<noteq> NULL"
    using assms(2,3) by (metis, metis list.set_intros(1), metis)
  then have "dll (DL_ListInsertTail h n l) h (xs @ n # [])"
    by (intro dll_link [OF d _ p_def refl])
      (use assms(2) in \<open>auto simp: DL_ListInsertTail_def Let_def heap_simps g(1,2)\<close>)
  then show ?thesis by simp
qed

lemma DL_ListInsertHead_dll:
  assumes "dll l h xs" and "n \<notin> set (h # xs)"
  shows "dll (DL_ListInsertHead h n l) h (n # xs)"
proof -
  have d: "dll l h ([] @ xs)" using assms(1) by simp
  define q where "q = hd (xs @ [h])"
  note g = dll_gap [OF d refl q_def, simplified]
  have "q \<noteq> n" "h \<noteq> n" using g(4) assms(2) by auto
  then have "dll (DL_ListInsertHead h n l) h ([] @ n # xs)"
    by (intro dll_link [OF d _ refl q_def])
      (use assms(2) in \<open>auto simp: DL_ListInsertHead_def Let_def heap_simps g(1,2)\<close>)
  then show ?thesis by simp
qed

lemma DL_ListRemove_dll:
  assumes "dll l h (xs @ n # ys)" and "NULL \<notin> set (h # xs @ ys)"
  shows "dll (DL_ListRemove n l) h (xs @ ys)"
proof -
  define p q where "p = last (h # xs)" and "q = hd (ys @ [h])"
  note g = dll_node_gap [OF assms(1) p_def q_def]
  have "p \<in> set (h # xs)" "q \<in> set (ys @ [h])"
    unfolding p_def q_def by (metis last_in_set list.distinct(1), metis hd_in_set snoc_eq_iff_butlast)
  then have "p \<noteq> NULL" "q \<noteq> NULL" using assms(2) by (metis Un_iff list.set_intros set_ConsD set_append rotate1.simps(2) set_rotate1)+
  then show ?thesis
    by (intro dll_unlink [OF assms(1) p_def q_def])
      (use g in \<open>auto simp: DL_ListRemove_def Let_def heap_simps\<close>)
qed

lemma DL_ListRemoveItemFromHead_dll:
  assumes "dll l h (x # xs)"
  shows "DL_ListRemoveItemFromHead h l = (x, DL_ListRemove x l)"
  using assms by (auto simp: DL_ListRemoveItemFromHead_def dll_def)

lemma DL_ListRemoveItemFromTail_dll:
  assumes "dll l h (xs @ [x])"
  shows "DL_ListRemoveItemFromTail h l = (x, DL_ListRemove x l)"
  using dll_prv_head [OF assms] dll_distinct [OF assms]
  by (auto simp: DL_ListRemoveItemFromTail_def)

lemma DL_ListRemoveItem_empty:
  "dll l h [] \<Longrightarrow> DL_ListRemoveItemFromHead h l = (NULL, l) \<and> DL_ListRemoveItemFromTail h l = (NULL, l)"
  by (auto simp: DL_ListRemoveItemFromHead_def DL_ListRemoveItemFromTail_def dll_def)

text \<open>A transfer empties the source and joins its nodes to the destination.\<close>

lemma DL_ListTransferItemsToTail_dll:
  assumes d: "dll l d xs" and s: "dll l s ys" and dis: "set (d # xs) \<inter> set (s # ys) = {}"
  shows "dll (DL_ListTransferItemsToTail d s l) d (xs @ ys) \<and> dll (DL_ListTransferItemsToTail d s l) s []"
proof (cases ys)
  case Nil
  with assms show ?thesis by (simp add: DL_ListTransferItemsToTail_def DL_LIST_IS_EMPTY_dll)
next
  case (Cons y zs)
  define l' where "l' = DL_ListTransferItemsToTail d s l"
  let ?p = "last (d # xs)" and ?z = "last ys"
  have n: "nxt l s = y" "prv l s = ?z" "prv l d = ?p"
    using dll_nxt_head [OF s] dll_prv_head [OF s] dll_prv_head [OF d] Cons by auto
  have m: "?p \<in> set (d # xs)" "?z \<in> set ys" "y \<in> set ys" using Cons by auto
  have ne: "?p \<noteq> ?z" "y \<noteq> d" "?z \<noteq> s" "?p \<noteq> s" "d \<noteq> s" "y \<noteq> s" "?z \<noteq> d"
    using m dis dll_distinct [OF s] by auto
  have "l' = set_nxt s s (set_prv s s (set_prv d ?z (set_nxt ?p y (set_prv y ?p (set_nxt ?z d l)))))"
    using Cons n ne DL_LIST_IS_EMPTY_dll [OF s]
    by (simp add: l'_def DL_ListTransferItemsToTail_def Let_def heap_simps)
  then have nx: "nxt l' a = (if a = s then s else if a = ?p then y else if a = ?z then d else nxt l a)"
    and pv: "prv l' a = (if a = s then s else if a = d then ?z else if a = y then ?p else prv l a)" for a
    using ne by (auto simp: heap_simps)
  have dis': "distinct (d # xs @ ys)" "s \<notin> set (d # xs @ ys)"
    using dll_distinct [OF d] dll_distinct [OF s] dis by auto
  have xz: "?z \<notin> set (d # xs)" "y \<notin> set (d # xs)" "s \<notin> set (d # xs)" using m dis by auto
  have sd: "seg l d xs d" and ss: "seg l s (y # zs) s" using d s Cons by (auto simp: dll_def)
  have "seg l' d xs y"
  proof (rule seg_retarget_end [OF sd])
    fix x assume "x \<in> set (butlast (d # xs))"
    moreover from this have "x \<noteq> ?p"
      using last_notin_butlast [of "d # xs"] dll_distinct [OF d] by auto
    ultimately show "nxt l' x = nxt l x" using xz nx by (metis in_set_butlastD)
  next
    fix x assume "x \<in> set xs"
    then show "prv l' x = prv l x" using xz dis' by (auto simp: pv)
  qed (use nx pv ne in auto)
  moreover have "seg l' y zs d"
  proof -
    have lz: "last (y # zs) = ?z" using Cons by simp
    have "seg l y zs s" using ss by simp
    then show ?thesis
    proof (rule seg_retarget_end)
      fix x assume x: "x \<in> set (butlast (y # zs))"
      then have "x \<noteq> ?z" "x \<in> set ys"
        using last_notin_butlast [of ys] dll_distinct [OF s] Cons in_set_butlastD by fastforce+
      moreover from this have "x \<noteq> ?p" "x \<noteq> s" using m(1) dis dis' by auto
      ultimately show "nxt l' x = nxt l x" by (simp add: nx)
    next
      fix x assume x: "x \<in> set zs"
      then have "x \<noteq> y" "x \<in> set ys" using dll_distinct [OF s] Cons by auto
      then show "prv l' x = prv l x" using dis' by (auto simp: pv)
    qed (use nx pv ne lz in auto)
  qed
  ultimately have "seg l' d (xs @ ys) d" using Cons by (simp add: seg_append)
  moreover have "seg l' s [] s" by (simp add: nx pv)
  ultimately show ?thesis using dis' by (simp add: dll_def l'_def [symmetric])
qed

lemma DL_ListTransferItemsToHead_eq:
  assumes d: "dll l d xs" and s: "dll l s ys" and dis: "set (d # xs) \<inter> set (s # ys) = {}"
  shows "dll (DL_ListTransferItemsToHead d s l) d (ys @ xs) \<and> dll (DL_ListTransferItemsToHead d s l) s []"
proof (cases ys)
  case Nil
  with assms show ?thesis by (simp add: DL_ListTransferItemsToHead_def DL_LIST_IS_EMPTY_dll)
next
  case (Cons y zs)
  define l' where "l' = DL_ListTransferItemsToHead d s l"
  let ?q = "hd (xs @ [d])" and ?z = "last ys"
  have n: "nxt l s = y" "prv l s = ?z" "nxt l d = ?q"
    using dll_nxt_head [OF s] dll_prv_head [OF s] dll_nxt_head [OF d] Cons by auto
  have m: "?q \<in> set (d # xs)" "?z \<in> set ys" "y \<in> set ys" using Cons by (cases xs; auto)+
  have ne: "?q \<noteq> y" "?q \<noteq> ?z" "y \<noteq> d" "?z \<noteq> s" "?q \<noteq> s" "d \<noteq> s" "y \<noteq> s" "?z \<noteq> d"
    using m dis dll_distinct [OF s] by auto
  have "l' = set_nxt s s (set_prv s s (set_nxt d y (set_nxt ?z ?q (set_prv ?q ?z (set_prv y d l)))))"
    using Cons n ne DL_LIST_IS_EMPTY_dll [OF s]
    by (simp add: l'_def DL_ListTransferItemsToHead_def Let_def heap_simps)
  then have nx: "nxt l' a = (if a = s then s else if a = d then y else if a = ?z then ?q else nxt l a)"
    and pv: "prv l' a = (if a = s then s else if a = ?q then ?z else if a = y then d else prv l a)" for a
    using ne by (auto simp: heap_simps)
  have dis': "distinct (d # ys @ xs)" "s \<notin> set (d # ys @ xs)"
    using dll_distinct [OF d] dll_distinct [OF s] dis by auto
  have sd: "seg l d xs d" and ss: "seg l s (y # zs) s" using d s Cons by (auto simp: dll_def)
  have "seg l' y zs ?q"
  proof -
    have lz: "last (y # zs) = ?z" using Cons by simp
    have "seg l y zs s" using ss by simp
    then show ?thesis
    proof (rule seg_retarget_end)
      fix x assume x: "x \<in> set (butlast (y # zs))"
      then have "x \<noteq> ?z" "x \<in> set ys"
        using last_notin_butlast [of ys] dll_distinct [OF s] Cons in_set_butlastD by fastforce+
      moreover from this have "x \<noteq> d" "x \<noteq> s" using dis' by auto
      ultimately show "nxt l' x = nxt l x" by (simp add: nx)
    next
      fix x assume x: "x \<in> set zs"
      then have "x \<noteq> y" "x \<in> set ys" using dll_distinct [OF s] Cons by auto
      then show "prv l' x = prv l x" using dis' m(1) dis by (auto simp: pv)
    qed (use nx pv ne lz in auto)
  qed
  moreover have "seg l' ?z xs d"
    using sd
  proof (rule seg_retarget_start)
    fix x assume x: "x \<in> set xs"
    then have "x \<noteq> d" "x \<noteq> s" "x \<noteq> ?z" using dis' m(2) by auto
    then show "nxt l' x = nxt l x" by (simp add: nx)
  next
    fix x assume x: "x \<in> set (tl (xs @ [d]))"
    then have "x \<noteq> ?q" using dll_distinct [OF d] hd_notin_tl [of "xs @ [d]"] by auto
    moreover have "x \<noteq> s" "x \<noteq> y" using x dis' m(3) ne(3) by (cases xs; auto)+
    ultimately show "prv l' x = prv l x" by (simp add: pv)
  qed (use nx pv ne in auto)
  moreover have "nxt l' d = y" "prv l' y = d" using nx pv ne by auto
  ultimately have "seg l' d (ys @ xs) d" using Cons by (simp add: seg_split)
  moreover have "seg l' s [] s" by (simp add: nx pv)
  ultimately show ?thesis using dis' by (simp add: dll_def l'_def [symmetric])
qed

section \<open>Queues: htc_packet.h\<close>

text \<open>
  \<^verbatim>\<open>HTC_PACKET_QUEUE\<close>: the address of the head and the depth. The link field is the first member of a
  packet, so the address of a packet is that of its node.
\<close>

record HTC_PACKET_QUEUE =
  QueueHead :: addr
  Depth :: int

definition INIT_HTC_PACKET_QUEUE :: "links \<times> HTC_PACKET_QUEUE \<Rightarrow> links \<times> HTC_PACKET_QUEUE" where
  "INIT_HTC_PACKET_QUEUE = (\<lambda>(l, Q). (DL_LIST_INIT (QueueHead Q) l, Q\<lparr>Depth := 0\<rparr>))"

definition HTC_PACKET_ENQUEUE :: "addr \<Rightarrow> links \<times> HTC_PACKET_QUEUE \<Rightarrow> links \<times> HTC_PACKET_QUEUE" where
  "HTC_PACKET_ENQUEUE p = (\<lambda>(l, Q). (DL_ListInsertTail (QueueHead Q) p l, Q\<lparr>Depth := Depth Q + 1\<rparr>))"

definition HTC_PACKET_ENQUEUE_TO_HEAD :: "addr \<Rightarrow> links \<times> HTC_PACKET_QUEUE \<Rightarrow> links \<times> HTC_PACKET_QUEUE" where
  "HTC_PACKET_ENQUEUE_TO_HEAD p = (\<lambda>(l, Q). (DL_ListInsertHead (QueueHead Q) p l, Q\<lparr>Depth := Depth Q + 1\<rparr>))"

definition HTC_QUEUE_EMPTY :: "HTC_PACKET_QUEUE \<Rightarrow> bool" where
  "HTC_QUEUE_EMPTY Q \<longleftrightarrow> Depth Q = 0"

definition HTC_GET_PKT_AT_HEAD :: "links \<times> HTC_PACKET_QUEUE \<Rightarrow> addr" where
  "HTC_GET_PKT_AT_HEAD = (\<lambda>(l, Q).
     if Depth Q = 0 then NULL else DL_LIST_GET_ITEM_AT_HEAD l (QueueHead Q))"

definition HTC_PACKET_REMOVE :: "addr \<Rightarrow> links \<times> HTC_PACKET_QUEUE \<Rightarrow> links \<times> HTC_PACKET_QUEUE" where
  "HTC_PACKET_REMOVE p = (\<lambda>(l, Q). (DL_ListRemove p l, Q\<lparr>Depth := Depth Q - 1\<rparr>))"

definition HTC_PACKET_DEQUEUE :: "links \<times> HTC_PACKET_QUEUE \<Rightarrow> addr \<times> links \<times> HTC_PACKET_QUEUE" where
  "HTC_PACKET_DEQUEUE = (\<lambda>(l, Q).
    let (pItem, l) = DL_ListRemoveItemFromHead (QueueHead Q) l in
    if pItem \<noteq> NULL then (pItem, l, Q\<lparr>Depth := Depth Q - 1\<rparr>) else (NULL, l, Q))"

definition HTC_PACKET_DEQUEUE_TAIL :: "links \<times> HTC_PACKET_QUEUE \<Rightarrow> addr \<times> links \<times> HTC_PACKET_QUEUE" where
  "HTC_PACKET_DEQUEUE_TAIL = (\<lambda>(l, Q).
    let (pItem, l) = DL_ListRemoveItemFromTail (QueueHead Q) l in
    if pItem \<noteq> NULL then (pItem, l, Q\<lparr>Depth := Depth Q - 1\<rparr>) else (NULL, l, Q))"

definition HTC_PACKET_QUEUE_TRANSFER_TO_TAIL ::
  "links \<times> HTC_PACKET_QUEUE \<times> HTC_PACKET_QUEUE \<Rightarrow> links \<times> HTC_PACKET_QUEUE \<times> HTC_PACKET_QUEUE" where
  "HTC_PACKET_QUEUE_TRANSFER_TO_TAIL = (\<lambda>(l, pQDest, pQSrc).
    (DL_ListTransferItemsToTail (QueueHead pQDest) (QueueHead pQSrc) l,
     pQDest\<lparr>Depth := Depth pQDest + Depth pQSrc\<rparr>, pQSrc\<lparr>Depth := 0\<rparr>))"

definition HTC_PACKET_QUEUE_TRANSFER_TO_HEAD ::
  "links \<times> HTC_PACKET_QUEUE \<times> HTC_PACKET_QUEUE \<Rightarrow> links \<times> HTC_PACKET_QUEUE \<times> HTC_PACKET_QUEUE" where
  "HTC_PACKET_QUEUE_TRANSFER_TO_HEAD = (\<lambda>(l, pQDest, pQSrc).
    (DL_ListTransferItemsToHead (QueueHead pQDest) (QueueHead pQSrc) l,
     pQDest\<lparr>Depth := Depth pQDest + Depth pQSrc\<rparr>, pQSrc\<lparr>Depth := 0\<rparr>))"

definition INIT_HTC_PACKET_QUEUE_AND_ADD ::
  "addr \<Rightarrow> links \<times> HTC_PACKET_QUEUE \<Rightarrow> links \<times> HTC_PACKET_QUEUE" where
  "INIT_HTC_PACKET_QUEUE_AND_ADD p = (\<lambda>(l, Q). (DL_LIST_INIT_AND_ADD (QueueHead Q) p l, Q\<lparr>Depth := 1\<rparr>))"

text \<open>The sequence of packets of a queue: its list and its depth agree.\<close>

definition queue_rep :: "links \<times> HTC_PACKET_QUEUE \<Rightarrow> addr list \<Rightarrow> bool" where
  "queue_rep s xs \<longleftrightarrow> dll (fst s) (QueueHead (snd s)) xs \<and> Depth (snd s) = int (length xs) \<and>
     NULL \<notin> set (QueueHead (snd s) # xs)"

definition queue_avail :: "links \<times> HTC_PACKET_QUEUE \<Rightarrow> addr \<Rightarrow> bool" where
  "queue_avail s n \<longleftrightarrow> n \<noteq> NULL \<and> n \<noteq> QueueHead (snd s)"

lemmas queue_defs = queue_rep_def queue_avail_def INIT_HTC_PACKET_QUEUE_def HTC_PACKET_ENQUEUE_def
  HTC_PACKET_ENQUEUE_TO_HEAD_def HTC_QUEUE_EMPTY_def HTC_GET_PKT_AT_HEAD_def HTC_PACKET_REMOVE_def
  HTC_PACKET_DEQUEUE_def HTC_PACKET_DEQUEUE_TAIL_def INIT_HTC_PACKET_QUEUE_AND_ADD_def

lemma queue_enqueue:
  "queue_rep s xs \<Longrightarrow> queue_avail s n \<Longrightarrow> n \<notin> set xs \<Longrightarrow> queue_rep (HTC_PACKET_ENQUEUE n s) (xs @ [n])"
  by (cases s) (auto simp: queue_defs DL_ListInsertTail_dll)

lemma queue_enqueue_to_head:
  "queue_rep s xs \<Longrightarrow> queue_avail s n \<Longrightarrow> n \<notin> set xs \<Longrightarrow> queue_rep (HTC_PACKET_ENQUEUE_TO_HEAD n s) (n # xs)"
  by (cases s) (auto simp: queue_defs DL_ListInsertHead_dll)

lemma queue_dequeue:
  "queue_rep s (x # xs) \<Longrightarrow> \<exists>t. HTC_PACKET_DEQUEUE s = (x, t) \<and> queue_rep t xs \<and> QueueHead (snd t) = QueueHead (snd s)"
  using DL_ListRemove_dll [of "fst s" "QueueHead (snd s)" "[]" x xs]
  by (cases s) (auto simp: queue_defs DL_ListRemoveItemFromHead_dll)

lemma queue_dequeue_tail:
  "queue_rep s (xs @ [x]) \<Longrightarrow> \<exists>t. HTC_PACKET_DEQUEUE_TAIL s = (x, t) \<and> queue_rep t xs \<and> QueueHead (snd t) = QueueHead (snd s)"
  using DL_ListRemove_dll [of "fst s" "QueueHead (snd s)" xs x "[]"]
  by (cases s) (auto simp: queue_defs DL_ListRemoveItemFromTail_dll)

lemma queue_dequeue_empty:
  "queue_rep s [] \<Longrightarrow> HTC_PACKET_DEQUEUE s = (NULL, s) \<and> HTC_PACKET_DEQUEUE_TAIL s = (NULL, s)"
  by (cases s) (simp add: queue_defs DL_ListRemoveItem_empty)

lemma queue_remove:
  assumes "queue_rep s xs" and "n \<in> set xs"
  shows "queue_rep (HTC_PACKET_REMOVE n s) (remove1 n xs)"
proof -
  obtain us vs where xs: "xs = us @ n # vs" and n: "n \<notin> set us" using assms(2) by (meson split_list_first)
  have "dll (DL_ListRemove n (fst s)) (QueueHead (snd s)) (us @ vs)"
    by (rule DL_ListRemove_dll) (use assms(1) xs in \<open>auto simp: queue_rep_def\<close>)
  then show ?thesis using assms(1) n by (cases s) (auto simp: queue_defs xs remove1_append)
qed

interpretation htcq: node_deque queue_rep queue_avail "\<lambda>n s. Some (HTC_PACKET_ENQUEUE_TO_HEAD n s)"
  "\<lambda>n s. Some (HTC_PACKET_ENQUEUE n s)" "\<lambda>s. Some (HTC_PACKET_DEQUEUE s)"
  "\<lambda>s. Some (HTC_PACKET_DEQUEUE_TAIL s)"
proof (unfold_locales, goal_cases)
  case (1 s xs n)
  then show ?case using queue_enqueue_to_head [OF 1] by (cases s) (auto simp: queue_defs)
next
  case (2 s xs n)
  then show ?case using queue_enqueue [OF 2] by (cases s) (auto simp: queue_defs)
next
  case (3 s x xs)
  then show ?case using queue_dequeue [OF 3] by (auto simp: queue_avail_def fun_eq_iff)
next
  case (4 s xs x)
  then show ?case using queue_dequeue_tail [OF 4] by (auto simp: queue_avail_def fun_eq_iff)
next
  case (5 s)
  then show ?case using queue_dequeue_empty by simp
next
  case (6 s)
  then show ?case using queue_dequeue_empty by simp
qed

text \<open>Two queues that share no node are in one memory, and a transfer moves the packets in order.\<close>

definition two_queues :: "links \<Rightarrow> HTC_PACKET_QUEUE \<Rightarrow> addr list \<Rightarrow> HTC_PACKET_QUEUE \<Rightarrow> addr list \<Rightarrow> bool" where
  "two_queues l D xs S ys \<longleftrightarrow> queue_rep (l, D) xs \<and> queue_rep (l, S) ys \<and>
     set (QueueHead D # xs) \<inter> set (QueueHead S # ys) = {}"

lemma transfer_to_tail:
  assumes "two_queues l D xs S ys" and "HTC_PACKET_QUEUE_TRANSFER_TO_TAIL (l, D, S) = (l', D', S')"
  shows "two_queues l' D' (xs @ ys) S' []"
  using assms DL_ListTransferItemsToTail_dll [of l "QueueHead D" xs "QueueHead S" ys]
  by (auto simp: two_queues_def queue_rep_def HTC_PACKET_QUEUE_TRANSFER_TO_TAIL_def dest: dll_distinct)

lemma transfer_to_head:
  assumes "two_queues l D xs S ys" and "HTC_PACKET_QUEUE_TRANSFER_TO_HEAD (l, D, S) = (l', D', S')"
  shows "two_queues l' D' (ys @ xs) S' []"
  using assms DL_ListTransferItemsToHead_eq [of l "QueueHead D" xs "QueueHead S" ys]
  by (auto simp: two_queues_def queue_rep_def HTC_PACKET_QUEUE_TRANSFER_TO_HEAD_def dest: dll_distinct)

text \<open>
  A packet queue is a sequence: packets leave the head of a queue in the order in which they
  were put at its tail, the packet at the head is the one the next dequeue takes, removing a packet
  deletes it from the sequence, and transferring a queue to the tail or the head of another joins the
  two sequences in order and leaves the source empty.
\<close>

theorem htc_queue_is_sequence:
  assumes "two_queues l D xs S ys"
  shows "(\<forall>ns. distinct (xs @ ns) \<and> (\<forall>n \<in> set ns. queue_avail (l, D) n) \<longrightarrow>
      (\<exists>t u. push_all (\<lambda>n s. Some (HTC_PACKET_ENQUEUE n s)) ns (l, D) = Some t \<and>
         pop_all (\<lambda>s. Some (HTC_PACKET_DEQUEUE s)) (length (xs @ ns)) t = Some (xs @ ns, u) \<and> queue_rep u [])) \<and>
    HTC_GET_PKT_AT_HEAD (l, D) = (case xs of [] \<Rightarrow> NULL | x # _ \<Rightarrow> x) \<and>
    fst (HTC_PACKET_DEQUEUE (l, D)) = HTC_GET_PKT_AT_HEAD (l, D) \<and>
    (\<forall>x \<in> set xs. queue_rep (HTC_PACKET_REMOVE x (l, D)) (remove1 x xs)) \<and>
    (\<exists>l' D' S'. HTC_PACKET_QUEUE_TRANSFER_TO_TAIL (l, D, S) = (l', D', S') \<and> two_queues l' D' (xs @ ys) S' []) \<and>
    (\<exists>l' D' S'. HTC_PACKET_QUEUE_TRANSFER_TO_HEAD (l, D, S) = (l', D', S') \<and> two_queues l' D' (ys @ xs) S' [])"
proof (intro conjI)
  have r: "queue_rep (l, D) xs" using assms by (simp add: two_queues_def)
  show "\<forall>ns. distinct (xs @ ns) \<and> (\<forall>n \<in> set ns. queue_avail (l, D) n) \<longrightarrow>
      (\<exists>t u. push_all (\<lambda>n s. Some (HTC_PACKET_ENQUEUE n s)) ns (l, D) = Some t \<and>
         pop_all (\<lambda>s. Some (HTC_PACKET_DEQUEUE s)) (length (xs @ ns)) t = Some (xs @ ns, u) \<and> queue_rep u [])"
    using htcq.fifo [OF r] by blast
  show head: "HTC_GET_PKT_AT_HEAD (l, D) = (case xs of [] \<Rightarrow> NULL | x # _ \<Rightarrow> x)"
    using r by (cases xs) (auto simp: queue_rep_def HTC_GET_PKT_AT_HEAD_def DL_LIST_GET_ITEM_AT_HEAD_def dll_def)
  show "fst (HTC_PACKET_DEQUEUE (l, D)) = HTC_GET_PKT_AT_HEAD (l, D)"
    using r queue_dequeue queue_dequeue_empty unfolding head by (cases xs) fastforce+
  show "\<forall>x \<in> set xs. queue_rep (HTC_PACKET_REMOVE x (l, D)) (remove1 x xs)"
    using queue_remove [OF r] by blast
qed (use transfer_to_tail [OF assms] transfer_to_head [OF assms] in \<open>metis prod_cases3\<close>)+

text \<open>Two queues in one memory: packets 10 and 11 wait in the first, packet 20 in the second.\<close>

definition sample_links :: links where
  "sample_links = \<lparr>nxt = (\<lambda>a. if a = 1 then 10 else if a = 10 then 11 else if a = 11 then 1
       else if a = 2 then 20 else 2),
     prv = (\<lambda>a. if a = 1 then 11 else if a = 11 then 10 else if a = 10 then 1
       else if a = 2 then 20 else 2)\<rparr>"

theorem htc_queue_is_sequence_witness:
  "\<exists>l' D' S'. HTC_PACKET_QUEUE_TRANSFER_TO_HEAD
      (sample_links, \<lparr>QueueHead = 1, Depth = 2\<rparr>, \<lparr>QueueHead = 2, Depth = 1\<rparr>) = (l', D', S') \<and>
    two_queues l' D' [20, 10, 11] S' []"
proof -
  have "two_queues sample_links \<lparr>QueueHead = 1, Depth = 2\<rparr> [10, 11] \<lparr>QueueHead = 2, Depth = 1\<rparr> [20]"
    by (simp add: two_queues_def queue_rep_def dll_def sample_links_def)
  from htc_queue_is_sequence [OF this] show ?thesis by simp
qed

end
