(* ===== verification/Htc_Types.thy ===== *)
theory Htc_Types
  imports Prelude
begin

text \<open>
  HTC, the communication between host and target (CORE/SERVICES/HTC): its status codes, constants,
  message fields, network buffers, packets, endpoints and the target, with the reading of the state
  after each of the updates the operations are made of.

  The model is the SDIO build. A packet queue is the sequence of its packets (Htc_List). A result
  \<open>None\<close> is an access outside an array or a buffer, a division by zero, or the kernel's stop of a
  buffer that has no headroom left.
\<close>

section \<open>Status codes and constants\<close>

datatype A_STATUS =
    A_ERROR
  | A_OK
  | A_DEVICE_NOT_FOUND
  | A_NO_MEMORY
  | A_MEMORY_NOT_AVAIL
  | A_NO_FREE_DESC
  | A_BAD_ADDRESS
  | A_WIN_DRIVER_ERROR
  | A_REGS_NOT_MAPPED
  | A_EPERM
  | A_EACCES
  | A_ENOENT
  | A_EEXIST
  | A_EFAULT
  | A_EBUSY
  | A_EINVAL
  | A_EMSGSIZE
  | A_ECANCELED
  | A_ENOTSUP
  | A_ECOMM
  | A_EPROTO
  | A_ENODEV
  | A_EDEVNOTUP
  | A_NO_RESOURCE
  | A_HARDWARE
  | A_PENDING
  | A_EBADCHANNEL
  | A_DECRYPT_ERROR
  | A_PHY_ERROR
  | A_CONSUMED
  | A_CLONE
  | A_USB_ERROR

definition ENDPOINT_0 :: nat where "ENDPOINT_0 = 0"
definition ENDPOINT_MAX :: nat where "ENDPOINT_MAX = 9"

definition HTC_HDR_LENGTH :: nat where "HTC_HDR_LENGTH = 8"
definition HTC_MAX_CONTROL_MESSAGE_LENGTH :: nat where "HTC_MAX_CONTROL_MESSAGE_LENGTH = 256"
definition HTC_MIN_MSG_PER_BUNDLE :: nat where "HTC_MIN_MSG_PER_BUNDLE = 2"
definition HTC_MAX_MSG_PER_BUNDLE_TX :: nat where "HTC_MAX_MSG_PER_BUNDLE_TX = 32"
definition HTC_MAX_MSG_PER_BUNDLE_RX :: nat where "HTC_MAX_MSG_PER_BUNDLE_RX = 64"
definition HTC_MAX_TX_BUNDLE_SEND_LIMIT :: int where "HTC_MAX_TX_BUNDLE_SEND_LIMIT = 255"
definition HTC_PACKET_CONTAINER_ALLOCATION :: nat where "HTC_PACKET_CONTAINER_ALLOCATION = 32"
definition HTC_CREDIT_HISTORY_MAX :: nat where "HTC_CREDIT_HISTORY_MAX = 1024"
definition HTC_MAX_SERVICE_ALLOC_ENTRIES :: nat where "HTC_MAX_SERVICE_ALLOC_ENTRIES = 8"
definition NUM_CONTROL_TX_BUFFERS :: int where "NUM_CONTROL_TX_BUFFERS = 2"

definition HTC_FLAGS_NEED_CREDIT_UPDATE :: u8 where "HTC_FLAGS_NEED_CREDIT_UPDATE = 1"
definition HTC_FLAGS_SEND_BUNDLE :: u8 where "HTC_FLAGS_SEND_BUNDLE = 2"
definition HTC_FLAGS_RECV_TRAILER :: u8 where "HTC_FLAGS_RECV_TRAILER = 2"
definition HTC_TX_PACKET_FLAG_FIXUP_NETBUF :: u32 where "HTC_TX_PACKET_FLAG_FIXUP_NETBUF = 1"
definition HTC_STATE_STOPPING :: u32 where "HTC_STATE_STOPPING = 1"

definition HTC_TX_PACKET_TAG_INTERNAL :: u16 where "HTC_TX_PACKET_TAG_INTERNAL = 1"
definition HTC_TX_PACKET_TAG_USER_DEFINED :: u16 where
  "HTC_TX_PACKET_TAG_USER_DEFINED = HTC_TX_PACKET_TAG_INTERNAL + 9"
definition HTC_TX_PACKET_TAG_BUNDLED :: u16 where
  "HTC_TX_PACKET_TAG_BUNDLED = HTC_TX_PACKET_TAG_USER_DEFINED + 1"

definition MAKE_SERVICE_ID :: "u16 \<Rightarrow> u16 \<Rightarrow> u16" where
  "MAKE_SERVICE_ID group' index = push_bit 8 group' OR index"

definition HTC_CTRL_RSVD_SVC :: u16 where "HTC_CTRL_RSVD_SVC = MAKE_SERVICE_ID 0 1"
definition WMI_CONTROL_SVC :: u16 where "WMI_CONTROL_SVC = MAKE_SERVICE_ID 1 0"
definition WMI_DATA_BE_SVC :: u16 where "WMI_DATA_BE_SVC = MAKE_SERVICE_ID 1 1"
definition WMI_DATA_BK_SVC :: u16 where "WMI_DATA_BK_SVC = MAKE_SERVICE_ID 1 2"
definition WMI_DATA_VI_SVC :: u16 where "WMI_DATA_VI_SVC = MAKE_SERVICE_ID 1 3"
definition WMI_DATA_VO_SVC :: u16 where "WMI_DATA_VO_SVC = MAKE_SERVICE_ID 1 4"
definition HTT_DATA_MSG_SVC :: u16 where "HTT_DATA_MSG_SVC = MAKE_SERVICE_ID 3 0"
definition HTC_RAW_STREAMS_SVC :: u16 where "HTC_RAW_STREAMS_SVC = MAKE_SERVICE_ID 254 0"

section \<open>Message fields: htc.h\<close>

text \<open>
  A field of a message: \<^verbatim>\<open>_LSB\<close>, \<^verbatim>\<open>_MASK\<close> and \<^verbatim>\<open>_OFFSET\<close>. Messages are little endian words, the host
  being little endian.
\<close>

record htc_field =
  LSB :: nat
  MASK :: u32
  OFFSET :: nat

definition MS :: "u32 \<Rightarrow> htc_field \<Rightarrow> u32" where
  "MS v f = drop_bit (LSB f) (v AND MASK f)"

definition SM :: "u32 \<Rightarrow> htc_field \<Rightarrow> u32" where
  "SM v f = push_bit (LSB f) v AND MASK f"

definition le32 :: "u32 \<Rightarrow> u8 list" where
  "le32 v = [ucast v, ucast (drop_bit 8 v), ucast (drop_bit 16 v), ucast (drop_bit 24 v)]"

definition of_le32 :: "u8 \<Rightarrow> u8 \<Rightarrow> u8 \<Rightarrow> u8 \<Rightarrow> u32" where
  "of_le32 a b c d = ucast a OR push_bit 8 (ucast b) OR push_bit 16 (ucast c) OR push_bit 24 (ucast d)"

definition read32 :: "u8 list \<Rightarrow> nat \<Rightarrow> u32 option" where
  "read32 buf i = (case drop i buf of a # b # c # d # _ \<Rightarrow> Some (of_le32 a b c d) | _ \<Rightarrow> None)"

definition write32 :: "u8 list \<Rightarrow> nat \<Rightarrow> u32 \<Rightarrow> u8 list option" where
  "write32 buf i v = (if i + 4 \<le> length buf then Some (take i buf @ le32 v @ drop (i + 4) buf) else None)"

definition HTC_GET_FIELD :: "u8 list \<Rightarrow> htc_field \<Rightarrow> u32 option" where
  "HTC_GET_FIELD buf f = do { w \<leftarrow> read32 buf (OFFSET f); Some (MS w f) }"

definition HTC_SET_FIELD :: "u8 list \<Rightarrow> htc_field \<Rightarrow> u32 \<Rightarrow> u8 list option" where
  "HTC_SET_FIELD buf f v = do {
     w \<leftarrow> read32 buf (OFFSET f);
     write32 buf (OFFSET f) ((w AND NOT (MASK f)) OR SM v f) }"

definition HTC_FRAME_HDR_ENDPOINTID :: htc_field where
  "HTC_FRAME_HDR_ENDPOINTID = \<lparr>LSB = 0, MASK = 0x000000ff, OFFSET = 0\<rparr>"
definition HTC_FRAME_HDR_FLAGS :: htc_field where
  "HTC_FRAME_HDR_FLAGS = \<lparr>LSB = 8, MASK = 0x0000ff00, OFFSET = 0\<rparr>"
definition HTC_FRAME_HDR_PAYLOADLEN :: htc_field where
  "HTC_FRAME_HDR_PAYLOADLEN = \<lparr>LSB = 16, MASK = 0xffff0000, OFFSET = 0\<rparr>"
definition HTC_FRAME_HDR_CONTROLBYTES0 :: htc_field where
  "HTC_FRAME_HDR_CONTROLBYTES0 = \<lparr>LSB = 0, MASK = 0x000000ff, OFFSET = 4\<rparr>"
definition HTC_FRAME_HDR_CONTROLBYTES1 :: htc_field where
  "HTC_FRAME_HDR_CONTROLBYTES1 = \<lparr>LSB = 8, MASK = 0x0000ff00, OFFSET = 4\<rparr>"
definition HTC_FRAME_HDR_RESERVED :: htc_field where
  "HTC_FRAME_HDR_RESERVED = \<lparr>LSB = 16, MASK = 0xffff0000, OFFSET = 4\<rparr>"

section \<open>Network buffers\<close>

text \<open>
  A network buffer (\<^verbatim>\<open>struct sk_buff\<close> through adf_nbuf_pvt.h): the bytes of its headroom, the
  fragments the driver put in front of it, its data, and how many times it is mapped for DMA.
  Fragment 0 is the first extra fragment, or the data when there is none.
\<close>

record nbuf =
  nb_room :: "u8 list"
  nb_extra :: "u8 list list"
  nb_data :: "u8 list"
  nb_maps :: int

definition adf_nbuf_push_head :: "nat \<Rightarrow> nbuf \<Rightarrow> nbuf option" where
  "adf_nbuf_push_head n b = (let k = length (nb_room b) - n in
     if n \<le> length (nb_room b)
     then Some (b\<lparr>nb_room := take k (nb_room b), nb_data := drop k (nb_room b) @ nb_data b\<rparr>)
     else None)"

definition nbuf_pull_head :: "nat \<Rightarrow> nbuf \<Rightarrow> nbuf" where
  "nbuf_pull_head n b =
     (if n \<le> length (nb_data b)
      then b\<lparr>nb_room := nb_room b @ take n (nb_data b), nb_data := drop n (nb_data b)\<rparr> else b)"

definition adf_nbuf_get_num_frags :: "nbuf \<Rightarrow> nat" where
  "adf_nbuf_get_num_frags b = length (nb_extra b) + 1"

definition adf_nbuf_frags :: "nbuf \<Rightarrow> u8 list list" where
  "adf_nbuf_frags b = nb_extra b @ [nb_data b]"

definition adf_nbuf_map :: "nbuf \<Rightarrow> nbuf" where
  "adf_nbuf_map b = b\<lparr>nb_maps := nb_maps b + 1\<rparr>"

definition adf_nbuf_unmap :: "nbuf \<Rightarrow> nbuf" where
  "adf_nbuf_unmap b = b\<lparr>nb_maps := nb_maps b - 1\<rparr>"

text \<open>The store \<^verbatim>\<open>HTC_WRITE32 ((A_UINT32 *) pHtcHdr + i, v)\<close> into the header in fragment 0.\<close>

definition HTC_WRITE32 :: "nat \<Rightarrow> u32 \<Rightarrow> nbuf \<Rightarrow> nbuf option" where
  "HTC_WRITE32 i v b = (case nb_extra b of
     [] \<Rightarrow> do { d \<leftarrow> write32 (nb_data b) (4 * i) v; Some (b\<lparr>nb_data := d\<rparr>) }
   | f # fs \<Rightarrow> do { f' \<leftarrow> write32 f (4 * i) v; Some (b\<lparr>nb_extra := f' # fs\<rparr>) })"

section \<open>Packets, endpoints, target\<close>

text \<open>
  \<^verbatim>\<open>HTC_PACKET\<close>. The container of a bundle keeps the packets it carries in a queue behind
  \<^verbatim>\<open>pContext\<close>: \<open>pQueueSave\<close>.
\<close>

record HTC_PACKET =
  pPktContext :: addr
  pNetBufContext :: addr
  ActualLength :: u32
  Endpoint :: nat
  Status :: A_STATUS
  Tag :: u16
  CreditsUsed :: int
  SendFlags :: u8
  pkt_SeqNo :: u8
  Flags :: u32
  pQueueSave :: "addr list"

datatype HTC_SEND_FULL_ACTION = HTC_SEND_FULL_KEEP | HTC_SEND_FULL_DROP

text \<open>
  \<^verbatim>\<open>HTC_EP_CALLBACKS\<close>: which of the optional callbacks is set, and what \<^verbatim>\<open>EpSendFull\<close> answers for a
  packet. A callback does not call HTC.
\<close>

record HTC_EP_CALLBACKS =
  EpTxCompleteMultiple :: bool
  EpRecv :: bool
  EpRecvPktMultiple :: bool
  EpSendFull :: "(addr \<Rightarrow> HTC_SEND_FULL_ACTION) option"
  EpResumeTxQueue :: bool

record HTC_ENDPOINT =
  Id :: nat
  ServiceID :: u16
  EpCallBacks :: HTC_EP_CALLBACKS
  TxQueue :: "addr list"
  MaxTxQueueDepth :: int
  MaxMsgLength :: nat
  UL_PipeID :: u8
  DL_PipeID :: u8
  ul_is_polled :: bool
  ul_poll_timer_active :: bool
  ul_outstanding_cnt :: int
  TxLookupQueue :: "addr list"
  RxBufferHoldQueue :: "addr list"
  SeqNo :: u8
  TxProcessCount :: int
  TxCredits :: int
  TxCreditSize :: nat
  TxCreditsPerMaxMsg :: int
  TxCreditFlowEnabled :: bool

datatype htc_credit_exchange_type =
  HTC_REQUEST_CREDIT | HTC_PROCESS_CREDIT_REPORT | HTC_SUSPEND_ACK | HTC_SUSPEND_NACK

text \<open>
  A transfer the HIF accepted: the pipe, the endpoint, the number of bytes, the buffer, and its
  frames, each with the bytes of the gap after it; \<open>x_pkts\<close> names the packets the frames are of, and
  \<open>x_credits\<close> what they were charged. The calls HTC makes to its clients are in a list too.
\<close>

record hif_xfer =
  x_pipe :: u8
  x_ep :: nat
  x_len :: nat
  x_nbuf :: addr
  x_frames :: "(u8 list \<times> nat) list"
  x_pkts :: "addr list"
  x_credits :: int

text \<open>
  What a receive callback is given: the packet, its status and length, the buffer behind
  \<^verbatim>\<open>pPktContext\<close> and its data.
\<close>

record rx_ind =
  rx_pkt :: addr
  rx_status :: A_STATUS
  rx_len :: u32
  rx_nbuf :: addr
  rx_data :: "u8 list"

datatype htc_call =
    CallTxComplete nat addr A_STATUS
  | CallTxCompleteMultiple nat "(addr \<times> A_STATUS) list"
  | CallRecv nat rx_ind
  | CallRecvPktMultiple nat "rx_ind list"
  | CallResumeTxQueue nat
  | CallSendSuspendComplete int
  | CallSuspendWow
  | CallTargetFailure A_STATUS

text \<open>
  \<^verbatim>\<open>HTC_TARGET\<close>, with the memory of packets and network buffers, the buffers freed, the transfers and calls made, and the
  number of calls of \<^verbatim>\<open>HIFSend_head\<close> and of allocations of containers so far.
\<close>

record HTC_TARGET =
  EndPoint :: "nat \<Rightarrow> HTC_ENDPOINT"
  HTCStateFlags :: u32
  pHTCPacketStructPool :: "addr list"
  CtrlResponseBuffer :: "u8 list"
  CtrlResponseLength :: nat
  CtrlResponseValid :: bool
  CtrlResponseProcessing :: bool
  TotalTransmitCredits :: int
  ServiceTxAllocTable :: "(u16 \<times> u8) list"
  TargetCreditSize :: nat
  pBundleFreeTxList :: "addr list"
  CE_send_cnt :: u32
  TX_comp_cnt :: u32
  MaxMsgsPerHTCBundle :: u8
  AltDataCreditSize :: u16
  htc_get_pkt_q_fail_count :: u32
  htc_pkt_q_empty_count :: u32
  htc_send_q_empty_count :: u32
  htc_credit_history_idx :: nat
  htc_credit_history_buffer :: "nat \<Rightarrow> htc_credit_exchange_type \<times> u32 \<times> u32"
  packets :: "addr \<Rightarrow> HTC_PACKET"
  nbufs :: "addr \<Rightarrow> nbuf"
  nb_freed :: "addr list"
  xfers :: "hif_xfer list"
  calls :: "htc_call list"
  send_calls :: nat
  allocs :: nat

definition HTC_ENABLE_BUNDLE :: "HTC_TARGET \<Rightarrow> bool" where
  "HTC_ENABLE_BUNDLE t \<longleftrightarrow> 1 < MaxMsgsPerHTCBundle t"

definition HTC_STOPPING :: "HTC_TARGET \<Rightarrow> bool" where
  "HTC_STOPPING t \<longleftrightarrow> HTCStateFlags t AND HTC_STATE_STOPPING \<noteq> 0"

text \<open>
  What the operations ask of the layers below: the status of the \<open>n\<close>th call of \<^verbatim>\<open>HIFSend_head\<close>, and
  the container and buffer of the \<open>n\<close>th allocation, \<open>None\<close> when the memory is exhausted.
\<close>

record htc_env =
  hif_status :: "nat \<Rightarrow> A_STATUS"
  new_bundle :: "nat \<Rightarrow> (addr \<times> addr) option"

section \<open>Updates\<close>

definition upd_ep :: "nat \<Rightarrow> (HTC_ENDPOINT \<Rightarrow> HTC_ENDPOINT) \<Rightarrow> HTC_TARGET \<Rightarrow> HTC_TARGET" where
  "upd_ep e f t = t\<lparr>EndPoint := (EndPoint t)(e := f (EndPoint t e))\<rparr>"

definition upd_pkt :: "addr \<Rightarrow> (HTC_PACKET \<Rightarrow> HTC_PACKET) \<Rightarrow> HTC_TARGET \<Rightarrow> HTC_TARGET" where
  "upd_pkt p f t = t\<lparr>packets := (packets t)(p := f (packets t p))\<rparr>"

definition set_nb :: "addr \<Rightarrow> nbuf \<Rightarrow> HTC_TARGET \<Rightarrow> HTC_TARGET" where
  "set_nb a b t = t\<lparr>nbufs := (nbufs t)(a := b)\<rparr>"

definition GET_HTC_PACKET_NET_BUF_CONTEXT :: "HTC_TARGET \<Rightarrow> addr \<Rightarrow> addr" where
  "GET_HTC_PACKET_NET_BUF_CONTEXT t p = pNetBufContext (packets t p)"

abbreviation pkt_nbuf :: "HTC_TARGET \<Rightarrow> addr \<Rightarrow> nbuf" where
  "pkt_nbuf t p \<equiv> nbufs t (GET_HTC_PACKET_NET_BUF_CONTEXT t p)"

end
