(* ===== verification/Htc_Send.thy ===== *)
theory Htc_Send
  imports Htc_Types
begin

text \<open>
  Sending in HTC (htc_send.c): taking packets from an endpoint's queue as its credits allow, issuing
  them to the HIF one by one or in bundles, and the three entry points HTCSendPktsMultiple,
  HTCSendPkt and HTCSendDataPkt. \<open>e\<close> is the index of the endpoint \<^verbatim>\<open>pEndpoint\<close>, \<open>E\<close> what the layers
  below answer. \<^verbatim>\<open>hif_pm_runtime_get\<close> and \<^verbatim>\<open>hif_pm_runtime_put\<close> do nothing without
  \<^verbatim>\<open>FEATURE_RUNTIME_PM\<close>, and \<^verbatim>\<open>AR_DEBUG_ASSERT\<close> does nothing without \<^verbatim>\<open>DEBUG\<close>.
\<close>

section \<open>Completion\<close>

definition RestoreTxPacket :: "addr \<Rightarrow> HTC_TARGET \<Rightarrow> HTC_TARGET" where
  "RestoreTxPacket p t =
    (if Flags (packets t p) AND HTC_TX_PACKET_FLAG_FIXUP_NETBUF \<noteq> 0 then
       let t = set_nb (GET_HTC_PACKET_NET_BUF_CONTEXT t p)
                 (nbuf_pull_head HTC_HDR_LENGTH (adf_nbuf_unmap (pkt_nbuf t p))) t
       in upd_pkt p (\<lambda>k. k\<lparr>Flags := Flags k AND NOT HTC_TX_PACKET_FLAG_FIXUP_NETBUF\<rparr>) t
     else t)"

definition DoSendCompletion :: "nat \<Rightarrow> addr list \<Rightarrow> HTC_TARGET \<Rightarrow> HTC_TARGET" where
  "DoSendCompletion e q t =
    (if q = [] then t
     else if EpTxCompleteMultiple (EpCallBacks (EndPoint t e))
     then t\<lparr>calls := calls t @ [CallTxCompleteMultiple e (map (\<lambda>p. (p, Status (packets t p))) q)]\<rparr>
     else t\<lparr>calls := calls t @ map (\<lambda>p. CallTxComplete e p (Status (packets t p))) q\<rparr>)"

definition SendPacketCompletion :: "addr \<Rightarrow> HTC_TARGET \<Rightarrow> HTC_TARGET" where
  "SendPacketCompletion p t = DoSendCompletion (Endpoint (packets t p)) [p] (RestoreTxPacket p t)"

text \<open>The loop that completes the packets left in a queue with a status.\<close>

primrec complete_all :: "A_STATUS \<Rightarrow> addr list \<Rightarrow> HTC_TARGET \<Rightarrow> HTC_TARGET" where
  "complete_all st [] t = t"
| "complete_all st (p # q) t =
     complete_all st q (SendPacketCompletion p (upd_pkt p (\<lambda>k. k\<lparr>Status := st\<rparr>) t))"

section \<open>Containers of bundles\<close>

definition AllocateHTCBundleTxPacket :: "htc_env \<Rightarrow> HTC_TARGET \<Rightarrow> addr option \<times> HTC_TARGET" where
  "AllocateHTCBundleTxPacket E t = (case pBundleFreeTxList t of
     [] \<Rightarrow> (case new_bundle E (allocs t) of
         None \<Rightarrow> (None, t\<lparr>allocs := allocs t + 1\<rparr>)
       | Some (p, nb) \<Rightarrow>
           (Some p, upd_pkt p (\<lambda>k. k\<lparr>pQueueSave := [], pNetBufContext := nb\<rparr>) (t\<lparr>allocs := allocs t + 1\<rparr>)))
   | p # ps \<Rightarrow> (Some p, t\<lparr>pBundleFreeTxList := ps\<rparr>))"

definition FreeHTCBundleTxPacket :: "addr \<Rightarrow> HTC_TARGET \<Rightarrow> HTC_TARGET" where
  "FreeHTCBundleTxPacket p t =
    (let t = upd_pkt p (\<lambda>k. k\<lparr>pQueueSave := []\<rparr>) t in t\<lparr>pBundleFreeTxList := p # pBundleFreeTxList t\<rparr>)"

section \<open>Issuing packets\<close>

definition HIFSend_head :: "htc_env \<Rightarrow> hif_xfer \<Rightarrow> HTC_TARGET \<Rightarrow> A_STATUS \<times> HTC_TARGET" where
  "HIFSend_head E x t = (let st = hif_status E (send_calls t) in
     (st, t\<lparr>send_calls := send_calls t + 1, xfers := (if st = A_OK then xfers t @ [x] else xfers t)\<rparr>))"

text \<open>
  What has been copied to a bundle buffer: the bytes of each frame and the size of the gap that
  follows them. Their sum is the offset of \<^verbatim>\<open>pBundleBuffer\<close>.
\<close>

type_synonym frames = "(u8 list \<times> nat) list"

definition bundle_len :: "frames \<Rightarrow> nat" where
  "bundle_len fr = sum_list (map (\<lambda>(b, g). length b + g) fr)"

text \<open>
  The bytes of the bundle are those of the transfer, not of the buffer of the container; the context
  of the container, the target itself, is left out.
\<close>

definition HTCSendBundledNetbuf :: "htc_env \<Rightarrow> nat \<Rightarrow> frames \<Rightarrow> addr \<Rightarrow> HTC_TARGET \<Rightarrow> HTC_TARGET" where
  "HTCSendBundledNetbuf E e fr pPacketTx t =
    (let ep = EndPoint t e;
         data_len = bundle_len fr;
         pkts = pQueueSave (packets t pPacketTx);
         t = upd_pkt pPacketTx (\<lambda>k. k\<lparr>ActualLength := word_of_nat data_len, Endpoint := Id ep,
               Tag := HTC_TX_PACKET_TAG_BUNDLED, Flags := 0, SendFlags := 0\<rparr>) t;
         t = upd_ep e (\<lambda>ep. ep\<lparr>TxLookupQueue := TxLookupQueue ep @ [pPacketTx]\<rparr>) t
     in snd (HIFSend_head E \<lparr>x_pipe = UL_PipeID ep, x_ep = Id ep, x_len = data_len,
               x_nbuf = GET_HTC_PACKET_NET_BUF_CONTEXT t pPacketTx, x_frames = fr, x_pkts = pkts,
               x_credits = sum_list (map (\<lambda>p. CreditsUsed (packets t p)) pkts)\<rparr> t))"

text \<open>The padding of a frame of \<open>len\<close> bytes for credits of \<open>csz\<close> bytes.\<close>

definition credit_pad :: "nat \<Rightarrow> nat \<Rightarrow> nat option" where
  "credit_pad len csz = (if csz = 0 then None
     else let creditRemainder = len mod csz in
       Some (if creditRemainder \<noteq> 0 then (if len < csz then csz - len else creditRemainder) else 0))"

text \<open>The two words of the frame header.\<close>

definition htc_hdr_word0 :: "HTC_PACKET \<Rightarrow> u8 \<Rightarrow> u32" where
  "htc_hdr_word0 k flags = SM (ActualLength k) HTC_FRAME_HDR_PAYLOADLEN OR
     SM (ucast flags) HTC_FRAME_HDR_FLAGS OR SM (word_of_nat (Endpoint k)) HTC_FRAME_HDR_ENDPOINTID"

definition htc_hdr_word1 :: "u8 \<Rightarrow> nat \<Rightarrow> u32" where
  "htc_hdr_word1 seq pad = SM (ucast seq) HTC_FRAME_HDR_CONTROLBYTES1 OR
     SM (word_of_nat pad) HTC_FRAME_HDR_RESERVED"

definition write_hdr :: "u32 \<Rightarrow> u32 \<Rightarrow> nbuf \<Rightarrow> nbuf option" where
  "write_hdr w0 w1 b = do { b \<leftarrow> HTC_WRITE32 0 w0 b; HTC_WRITE32 1 w1 b }"

text \<open>The loop that copies \<open>nbytes\<close> bytes of the fragments.\<close>

fun copy_frags :: "u8 list list \<Rightarrow> nat \<Rightarrow> u8 list" where
  "copy_frags [] nbytes = []"
| "copy_frags (f # fs) nbytes =
     (if nbytes = 0 then [] else take nbytes f @ copy_frags fs (nbytes - min (length f) nbytes))"

definition frame_len :: "HTC_TARGET \<Rightarrow> addr \<Rightarrow> nat" where
  "frame_len t p = unat (ActualLength (packets t p) + of_nat HTC_HDR_LENGTH)"

text \<open>Placing a packet in the bundle: its header, the copy, the queue of the container.\<close>

definition bundle_place :: "addr \<Rightarrow> nat \<Rightarrow> addr \<Rightarrow> frames \<Rightarrow> HTC_TARGET \<Rightarrow> (frames \<times> HTC_TARGET) option" where
  "bundle_place p creditPad pPacketTx fr t = do {
     let k = packets t p;
     b \<leftarrow> write_hdr (htc_hdr_word0 k (SendFlags k OR HTC_FLAGS_SEND_BUNDLE))
            (htc_hdr_word1 (pkt_SeqNo k) creditPad) (pkt_nbuf t p);
     let t = set_nb (GET_HTC_PACKET_NET_BUF_CONTEXT t p) b t;
     let t = upd_pkt pPacketTx (\<lambda>x. x\<lparr>pQueueSave := pQueueSave x @ [p]\<rparr>) t;
     Some (fr @ [(copy_frags (adf_nbuf_frags b) (frame_len t p), creditPad)], t) }"

text \<open>
  HTCIssuePacketsBundle: the loop has the container \<open>tx\<close>, the space left and what it holds. The
  result has the packets left in the queue. A packet that does not fit starts a new bundle unless
  fewer than two packets are left; then the function returns, and the packet is in no queue.
\<close>

fun bundle_loop :: "htc_env \<Rightarrow> nat \<Rightarrow> addr list \<Rightarrow> addr \<Rightarrow> int \<Rightarrow> frames \<Rightarrow> HTC_TARGET \<Rightarrow>
    (addr list \<times> HTC_TARGET) option" where
  "bundle_loop E e [] tx space fr t =
     Some ([], if bundle_len fr \<noteq> 0 then HTCSendBundledNetbuf E e fr tx t
               else FreeHTCBundleTxPacket tx t)"
| "bundle_loop E e (p # q) tx space fr t = do {
     creditPad \<leftarrow> credit_pad (frame_len t p) (TxCreditSize (EndPoint t e));
     let transferLength = frame_len t p + creditPad;
     if space < int transferLength then do {
       let t = HTCSendBundledNetbuf E e fr tx t;
       if length q < HTC_MIN_MSG_PER_BUNDLE then Some (q, t)
       else (case AllocateHTCBundleTxPacket E t of
           (None, t) \<Rightarrow> Some (q, t)
         | (Some tx, t) \<Rightarrow> do {
             let space = int (HTC_MAX_MSG_PER_BUNDLE_TX * TxCreditSize (EndPoint t e));
             (fr, t) \<leftarrow> bundle_place p creditPad tx [] t;
             bundle_loop E e q tx (space - int transferLength) fr t })
     } else do {
       (fr, t) \<leftarrow> bundle_place p creditPad tx fr t;
       bundle_loop E e q tx (space - int transferLength) fr t } }"

definition HTCIssuePacketsBundle :: "htc_env \<Rightarrow> nat \<Rightarrow> addr list \<Rightarrow> HTC_TARGET \<Rightarrow> (addr list \<times> HTC_TARGET) option" where
  "HTCIssuePacketsBundle E e q t = (case AllocateHTCBundleTxPacket E t of
     (None, t) \<Rightarrow> Some (q, t)
   | (Some tx, t) \<Rightarrow>
       bundle_loop E e q tx (int (HTC_MAX_MSG_PER_BUNDLE_TX * TxCreditSize (EndPoint t e))) [] t)"

lemma bundle_loop_length: "bundle_loop E e q tx space fr t = Some (q', t') \<Longrightarrow> length q' \<le> length q"
proof (induction E e q tx space fr t rule: bundle_loop.induct)
  case (2 E e p q tx space fr t)
  obtain pad where pad: "credit_pad (frame_len t p) (TxCreditSize (EndPoint t e)) = Some pad"
    using 2(3) by (cases "credit_pad (frame_len t p) (TxCreditSize (EndPoint t e))") auto
  show ?case
  proof (cases "space < int (frame_len t p + pad)")
    case True
    obtain a t1 where a: "AllocateHTCBundleTxPacket E (HTCSendBundledNetbuf E e fr tx t) = (a, t1)"
      by fastforce
    show ?thesis
    proof (cases "length q < HTC_MIN_MSG_PER_BUNDLE \<or> a = None")
      case True
      then show ?thesis using 2(3) pad a \<open>space < int (frame_len t p + pad)\<close>
        by (auto simp: Let_def split: if_splits)
    next
      case False
      then obtain tx' where tx: "a = Some tx'" by auto
      from 2(3) pad a True False tx obtain fr2 t2 where
        "bundle_place p pad tx' [] t1 = Some (fr2, t2)" and
        "bundle_loop E e q tx' (int (HTC_MAX_MSG_PER_BUNDLE_TX * TxCreditSize (EndPoint t1 e)) -
           int (frame_len t p + pad)) fr2 t2 = Some (q', t')"
        by (auto simp: Let_def split: Option.bind_splits)
      with 2(1) pad True False a tx show ?thesis by fastforce
    qed
  next
    case False
    from 2(3) pad False obtain fr2 t2 where
      "bundle_place p pad tx fr t = Some (fr2, t2)" and
      "bundle_loop E e q tx (space - int (frame_len t p + pad)) fr2 t2 = Some (q', t')"
      by (auto simp: Let_def split: Option.bind_splits)
    with 2(2) pad False show ?thesis by fastforce
  qed
qed auto

lemma HTCIssuePacketsBundle_length: "HTCIssuePacketsBundle E e q t = Some (q', t') \<Longrightarrow> length q' \<le> length q"
  by (auto simp: HTCIssuePacketsBundle_def split: prod.splits option.splits dest: bundle_loop_length)

text \<open>The test in front of the bundle, in HTCIssuePackets and without the credit flow in HTCSendDataPkt.\<close>

definition try_bundle :: "htc_env \<Rightarrow> bool \<Rightarrow> nat \<Rightarrow> addr list \<Rightarrow> HTC_TARGET \<Rightarrow> (addr list \<times> HTC_TARGET) option" where
  "try_bundle E enabled e q t =
    (if enabled \<and> HTC_ENABLE_BUNDLE t \<and> HTC_MIN_MSG_PER_BUNDLE \<le> length q
     then HTCIssuePacketsBundle E e q t else Some (q, t))"

lemma try_bundle_length: "try_bundle E b e q t = Some (q', t') \<Longrightarrow> length q' \<le> length q"
  by (auto simp: try_bundle_def split: if_splits dest: HTCIssuePacketsBundle_length)

text \<open>A packet goes to the lookup queue before it goes to the HIF.\<close>

definition send_single :: "htc_env \<Rightarrow> nat \<Rightarrow> addr \<Rightarrow> HTC_TARGET \<Rightarrow> A_STATUS \<times> HTC_TARGET" where
  "send_single E e p t =
    (let t = upd_ep e (\<lambda>ep. ep\<lparr>TxLookupQueue := TxLookupQueue ep @ [p],
               ul_outstanding_cnt := ul_outstanding_cnt ep + 1\<rparr>) t;
         ep = EndPoint t e
     in HIFSend_head E \<lparr>x_pipe = UL_PipeID ep, x_ep = Id ep, x_len = frame_len t p,
          x_nbuf = GET_HTC_PACKET_NET_BUF_CONTEXT t p,
          x_frames = [(copy_frags (adf_nbuf_frags (pkt_nbuf t p)) (frame_len t p), 0)],
          x_pkts = [p], x_credits = CreditsUsed (packets t p)\<rparr> t)"

definition setup_hdr :: "nat \<Rightarrow> addr \<Rightarrow> HTC_TARGET \<Rightarrow> HTC_TARGET option" where
  "setup_hdr e p t =
    (if TxCreditFlowEnabled (EndPoint t e) then do {
       let k = packets t p;
       b \<leftarrow> write_hdr (htc_hdr_word0 k (SendFlags k)) (htc_hdr_word1 (pkt_SeqNo k) 0) (pkt_nbuf t p);
       let b = (if Flags k AND HTC_TX_PACKET_FLAG_FIXUP_NETBUF \<noteq> 0 then adf_nbuf_map b else b);
       Some (set_nb (GET_HTC_PACKET_NET_BUF_CONTEXT t p) b t) }
     else Some t)"

text \<open>
  The loop of HTCIssuePackets: the status, the packets left when a send fails, the failed one first.
\<close>

function issue_loop :: "htc_env \<Rightarrow> nat \<Rightarrow> addr list \<Rightarrow> HTC_TARGET \<Rightarrow> (A_STATUS \<times> addr list \<times> HTC_TARGET) option" where
  "issue_loop E e q t =
    (case try_bundle E (TxCreditFlowEnabled (EndPoint t e)) e q t of
       None \<Rightarrow> None
     | Some (q1, t1) \<Rightarrow>
       (case q1 of
          [] \<Rightarrow> Some (A_OK, [], t1)
        | p # q2 \<Rightarrow>
          (case setup_hdr e p t1 of
             None \<Rightarrow> None
           | Some t2 \<Rightarrow>
             (case send_single E e p t2 of (st, t3) \<Rightarrow>
                if st \<noteq> A_OK then
                  Some (st, p # q2, upd_ep e (\<lambda>ep. ep\<lparr>ul_outstanding_cnt := ul_outstanding_cnt ep - 1,
                    TxLookupQueue := remove1 p (TxLookupQueue ep),
                    TxCredits := TxCredits ep + CreditsUsed (packets t3 p)\<rparr>) t3)
                else issue_loop E e q2 (t3\<lparr>CE_send_cnt := CE_send_cnt t3 + 1\<rparr>)))))"
  by pat_completeness auto
termination
  by (relation "measure (\<lambda>(E, e, q, t). length q)") (auto dest: try_bundle_length)

declare issue_loop.simps [simp del]

definition HTCIssuePackets :: "htc_env \<Rightarrow> nat \<Rightarrow> addr list \<Rightarrow> HTC_TARGET \<Rightarrow> (A_STATUS \<times> HTC_TARGET) option" where
  "HTCIssuePackets E e q t = do {
     (st, q, t) \<leftarrow> issue_loop E e q t;
     Some (st, if st \<noteq> A_OK then complete_all st q t else t) }"

section \<open>Taking packets from the queue of an endpoint\<close>

text \<open>The ring of the last 1024 changes of the control credits, without the times.\<close>

definition htc_credit_record :: "htc_credit_exchange_type \<Rightarrow> u32 \<Rightarrow> u32 \<Rightarrow> HTC_TARGET \<Rightarrow> HTC_TARGET" where
  "htc_credit_record ty credit depth t =
    (let i = (if HTC_CREDIT_HISTORY_MAX \<le> htc_credit_history_idx t then 0 else htc_credit_history_idx t)
     in t\<lparr>htc_credit_history_buffer := (htc_credit_history_buffer t)(i := (ty, credit, depth)),
          htc_credit_history_idx := i + 1\<rparr>)"

definition record_credits :: "htc_credit_exchange_type \<Rightarrow> nat \<Rightarrow> HTC_TARGET \<Rightarrow> HTC_TARGET" where
  "record_credits ty e t = htc_credit_record ty (word_of_int (TxCredits (EndPoint t e)))
     (word_of_nat (length (TxQueue (EndPoint t e)))) t"

definition credits_required :: "nat \<Rightarrow> nat \<Rightarrow> int option" where
  "credits_required transferLength csz =
    (if transferLength \<le> csz then Some 1
     else if csz = 0 then None
     else Some (int (transferLength div csz) + (if transferLength mod csz \<noteq> 0 then 1 else 0)))"

text \<open>
  GetHTCSendPacketsCreditBased: the loop over \<open>TxQueue\<close>, with the caller's queue \<open>q\<close>.
\<close>

fun credit_loop :: "nat \<Rightarrow> addr list \<Rightarrow> addr list \<Rightarrow> HTC_TARGET \<Rightarrow> (addr list \<times> HTC_TARGET) option" where
  "credit_loop e [] q t = Some (q, t)"
| "credit_loop e (p # ps) q t = do {
     creditsRequired \<leftarrow> credits_required (frame_len t p) (TxCreditSize (EndPoint t e));
     let ep = EndPoint t e;
     let take_it = (\<lambda>cr sendFlags t. upd_pkt p (\<lambda>k. k\<lparr>CreditsUsed := cr, SendFlags := sendFlags\<rparr>)
                      (upd_ep e (\<lambda>ep. ep\<lparr>TxQueue := ps\<rparr>) t));
     if Id ep = ENDPOINT_0 then credit_loop e ps (q @ [p]) (take_it 0 0 t)
     else if TxCredits ep < creditsRequired then Some (q, t)
     else do {
       let t = upd_ep e (\<lambda>ep. ep\<lparr>TxCredits := TxCredits ep - creditsRequired\<rparr>) t;
       if TxCredits (EndPoint t e) \<le> TxCreditsPerMaxMsg ep
       then credit_loop e ps (q @ [p]) (take_it creditsRequired HTC_FLAGS_NEED_CREDIT_UPDATE
              (if ServiceID ep = WMI_CONTROL_SVC then record_credits HTC_REQUEST_CREDIT e t else t))
       else credit_loop e ps (q @ [p]) (take_it creditsRequired 0 t) } }"

definition GetHTCSendPacketsCreditBased :: "nat \<Rightarrow> addr list \<Rightarrow> HTC_TARGET \<Rightarrow> (addr list \<times> HTC_TARGET) option" where
  "GetHTCSendPacketsCreditBased e q t = credit_loop e (TxQueue (EndPoint t e)) q t"

text \<open>GetHTCSendPackets, for endpoints without credits: as many packets as there are resources.\<close>

fun resource_loop :: "nat \<Rightarrow> addr list \<Rightarrow> int \<Rightarrow> addr list \<Rightarrow> HTC_TARGET \<Rightarrow> addr list \<times> HTC_TARGET" where
  "resource_loop e [] resources q t = (q, t)"
| "resource_loop e (p # ps) resources q t =
    (if 0 < resources then
       let t = upd_ep e (\<lambda>ep. ep\<lparr>TxQueue := ps\<rparr>) t;
           t = upd_pkt p (\<lambda>k. k\<lparr>SendFlags := 0, CreditsUsed := 0\<rparr>) t;
           num_frags = (if Flags (packets t p) AND HTC_TX_PACKET_FLAG_FIXUP_NETBUF \<noteq> 0 then 1
                        else adf_nbuf_get_num_frags (pkt_nbuf t p))
       in resource_loop e ps (resources - int num_frags) (q @ [p]) t
     else (q, t))"

definition GetHTCSendPackets :: "nat \<Rightarrow> addr list \<Rightarrow> int \<Rightarrow> HTC_TARGET \<Rightarrow> addr list \<times> HTC_TARGET" where
  "GetHTCSendPackets e q resources t = resource_loop e (TxQueue (EndPoint t e)) resources q t"

section \<open>Sending\<close>

datatype HTC_SEND_QUEUE_RESULT = HTC_SEND_QUEUE_OK | HTC_SEND_QUEUE_DROP

text \<open>On SDIO there is always one free queue entry.\<close>

definition HIFGetFreeQueueNumber :: "u8 \<Rightarrow> int" where
  "HIFGetFreeQueueNumber pipe = 1"

text \<open>
  The indication of the packets that overflow the queue to the callback \<^verbatim>\<open>EpSendFull\<close>: a packet it
  keeps goes to the send queue, one it drops stays in the caller's queue. The result has the send queue
  and what is left of the caller's.
\<close>

fun send_full_loop :: "(addr \<Rightarrow> HTC_SEND_FULL_ACTION) \<Rightarrow> addr list \<Rightarrow> addr list \<Rightarrow> addr list \<Rightarrow> HTC_TARGET \<Rightarrow>
    (addr list \<times> addr list \<times> HTC_TARGET) option" where
  "send_full_loop full [] sendQueue left t = Some (sendQueue, left, t)"
| "send_full_loop full (p # ps) sendQueue left t = do {
     let t = RestoreTxPacket p t;
     if full p = HTC_SEND_FULL_DROP then send_full_loop full ps sendQueue (left @ [p]) t
     else do {
       b \<leftarrow> adf_nbuf_push_head HTC_HDR_LENGTH (pkt_nbuf t p);
       send_full_loop full ps (sendQueue @ [p]) left (set_nb (GET_HTC_PACKET_NET_BUF_CONTEXT t p) b t) } }"

text \<open>
  The first part of HTCTrySend: what of the caller's queue goes to the send queue. The result of the
  function is \<^verbatim>\<open>HTC_SEND_QUEUE_DROP\<close> when nothing does.
\<close>

definition accept_packets :: "nat \<Rightarrow> addr list option \<Rightarrow> HTC_TARGET \<Rightarrow>
    (HTC_SEND_QUEUE_RESULT \<times> addr list \<times> addr list \<times> HTC_TARGET) option" where
  "accept_packets e callers t = (case callers of
     None \<Rightarrow> Some (HTC_SEND_QUEUE_OK, [], [], t)
   | Some q \<Rightarrow>
       if q = [] then Some (HTC_SEND_QUEUE_DROP, [], [], t\<lparr>htc_pkt_q_empty_count := htc_pkt_q_empty_count t + 1\<rparr>)
       else do {
         let ep = EndPoint t e;
         let depth = int (length (TxQueue ep));
         let overflow = (if MaxTxQueueDepth ep \<le> depth then int (length q)
                         else depth + int (length q) - MaxTxQueueDepth ep);
         (case (if overflow \<le> 0 then None else EpSendFull (EpCallBacks ep)) of
            None \<Rightarrow> Some (HTC_SEND_QUEUE_OK, q, [], t)
          | Some full \<Rightarrow> do {
              let goodPkts = nat (int (length q) - overflow);
              (sendQueue, left, t) \<leftarrow> send_full_loop full (drop goodPkts q) (take goodPkts q) [] t;
              if sendQueue = []
              then Some (HTC_SEND_QUEUE_DROP, [], left, t\<lparr>htc_send_q_empty_count := htc_send_q_empty_count t + 1\<rparr>)
              else Some (HTC_SEND_QUEUE_OK, sendQueue, left, t) }) })"

text \<open>The loop of HTCTrySend that drains the queue of the endpoint.\<close>

partial_function (option) drain :: "htc_env \<Rightarrow> nat \<Rightarrow> int \<Rightarrow> HTC_TARGET \<Rightarrow> HTC_TARGET option" where
  "drain E e tx_resources t =
    (if TxQueue (EndPoint t e) = [] then Some t
     else Option.bind
       (if TxCreditFlowEnabled (EndPoint t e) then GetHTCSendPacketsCreditBased e [] t
        else Some (GetHTCSendPackets e [] tx_resources t))
       (\<lambda>r. if fst r = [] then Some (snd r)
          else Option.bind (HTCIssuePackets E e (fst r) (snd r))
            (\<lambda>i. drain E e (if TxCreditFlowEnabled (EndPoint (snd i) e) then tx_resources
                          else HIFGetFreeQueueNumber (UL_PipeID (EndPoint (snd i) e))) (snd i))))"

declare drain.simps [code]

text \<open>
  HTCTrySend: the result, what is left in the caller's queue, the state. \<open>TxProcessCount\<close> above zero
  means that another thread is draining the endpoint.
\<close>

definition HTCTrySend :: "htc_env \<Rightarrow> nat \<Rightarrow> addr list option \<Rightarrow> HTC_TARGET \<Rightarrow>
    (HTC_SEND_QUEUE_RESULT \<times> addr list \<times> HTC_TARGET) option" where
  "HTCTrySend E e callers t = do {
     (result, sendQueue, left, t) \<leftarrow> accept_packets e callers t;
     if result \<noteq> HTC_SEND_QUEUE_OK then Some (result, left, t)
     else do {
       let tx_resources = (if \<not> TxCreditFlowEnabled (EndPoint t e)
             then HIFGetFreeQueueNumber (UL_PipeID (EndPoint t e)) else 0);
       let t = upd_ep e (\<lambda>ep. ep\<lparr>TxQueue := TxQueue ep @ sendQueue, TxProcessCount := TxProcessCount ep + 1\<rparr>) t;
       if 1 < TxProcessCount (EndPoint t e)
       then Some (HTC_SEND_QUEUE_OK, left, upd_ep e (\<lambda>ep. ep\<lparr>TxProcessCount := TxProcessCount ep - 1\<rparr>) t)
       else do {
         t \<leftarrow> drain E e tx_resources t;
         Some (HTC_SEND_QUEUE_OK, left, upd_ep e (\<lambda>ep. ep\<lparr>TxProcessCount := 0\<rparr>) t) } } }"

text \<open>The preparation of a packet in HTCSendPktsMultiple: room for the header, its first version, the map.\<close>

definition prepare_packet :: "nat \<Rightarrow> addr \<Rightarrow> HTC_TARGET \<Rightarrow> HTC_TARGET option" where
  "prepare_packet e p t = do {
     b \<leftarrow> adf_nbuf_push_head HTC_HDR_LENGTH (pkt_nbuf t p);
     let k = packets t p;
     b \<leftarrow> HTC_WRITE32 0 (SM (ActualLength k) HTC_FRAME_HDR_PAYLOADLEN OR
                      SM (word_of_nat (Endpoint k)) HTC_FRAME_HDR_ENDPOINTID) b;
     let t = upd_pkt p (\<lambda>k. k\<lparr>pkt_SeqNo := SeqNo (EndPoint t e)\<rparr>) t;
     let t = upd_ep e (\<lambda>ep. ep\<lparr>SeqNo := SeqNo ep + 1\<rparr>) t;
     b \<leftarrow> HTC_WRITE32 1 (SM (ucast (pkt_SeqNo (packets t p))) HTC_FRAME_HDR_CONTROLBYTES1) b;
     let t = set_nb (GET_HTC_PACKET_NET_BUF_CONTEXT t p) (adf_nbuf_map b) t;
     Some (upd_pkt p (\<lambda>k. k\<lparr>Flags := Flags k OR HTC_TX_PACKET_FLAG_FIXUP_NETBUF\<rparr>) t) }"

definition HTCSendPktsMultiple :: "htc_env \<Rightarrow> addr list \<Rightarrow> HTC_TARGET \<Rightarrow> (A_STATUS \<times> HTC_TARGET) option" where
  "HTCSendPktsMultiple E q t = (case q of
     [] \<Rightarrow> Some (A_EINVAL, t\<lparr>htc_get_pkt_q_fail_count := htc_get_pkt_q_fail_count t + 1\<rparr>)
   | p # _ \<Rightarrow>
       let e = Endpoint (packets t p) in
       if ENDPOINT_MAX \<le> e then None
       else if ServiceID (EndPoint t e) = 0 then Some (A_EINVAL, t)
       else do {
         t \<leftarrow> for_each q (prepare_packet e) t;
         (_, left, t) \<leftarrow> HTCTrySend E e (Some q) t;
         let st = (if HTC_STOPPING t then A_ECANCELED else A_NO_RESOURCE);
         let t = fold (\<lambda>p t. upd_pkt p (\<lambda>k. k\<lparr>Status := st\<rparr>) (RestoreTxPacket p t)) left t;
         Some (A_OK, DoSendCompletion e left t) })"

definition HTCSendPkt :: "htc_env \<Rightarrow> addr \<Rightarrow> HTC_TARGET \<Rightarrow> (A_STATUS \<times> HTC_TARGET) option" where
  "HTCSendPkt E p t = (if p = NULL then Some (A_ERROR, t) else HTCSendPktsMultiple E [p] t)"

definition HTCSendCompletePollTimerStop :: "nat \<Rightarrow> HTC_TARGET \<Rightarrow> HTC_TARGET" where
  "HTCSendCompletePollTimerStop e = upd_ep e (\<lambda>ep. if ul_poll_timer_active ep
     then ep\<lparr>ul_poll_timer_active := False\<rparr> else ep)"

definition HTCSendCompletePollTimerStart :: "nat \<Rightarrow> HTC_TARGET \<Rightarrow> HTC_TARGET" where
  "HTCSendCompletePollTimerStart e = upd_ep e (\<lambda>ep.
     if ul_outstanding_cnt ep \<noteq> 0 \<and> \<not> ul_poll_timer_active ep
     then ep\<lparr>ul_poll_timer_active := True\<rparr> else ep)"

text \<open>On SDIO the HIF has nothing to check: \<^verbatim>\<open>HIFSendCompleteCheck\<close> is empty.\<close>

definition HTCSendCompleteCheck :: "nat \<Rightarrow> HTC_TARGET \<Rightarrow> HTC_TARGET" where
  "HTCSendCompleteCheck e t = HTCSendCompletePollTimerStart e (HTCSendCompletePollTimerStop e t)"

text \<open>
  The send loop of HTCSendDataPkt. When a send fails, what is left goes back to the front of the
  queue of the endpoint, and the credits are not given back.
\<close>

function data_loop :: "htc_env \<Rightarrow> nat \<Rightarrow> addr list \<Rightarrow> HTC_TARGET \<Rightarrow> (A_STATUS \<times> HTC_TARGET) option" where
  "data_loop E e q t =
    (case try_bundle E True e q t of
       None \<Rightarrow> None
     | Some (q1, t1) \<Rightarrow>
       (case q1 of
          [] \<Rightarrow> Some (A_OK, t1)
        | p # q2 \<Rightarrow>
          (case send_single E e p t1 of (st, t2) \<Rightarrow>
             if st \<noteq> A_OK then
               Some (st, upd_ep e (\<lambda>ep. ep\<lparr>ul_outstanding_cnt := ul_outstanding_cnt ep - 1,
                 TxLookupQueue := remove1 p (TxLookupQueue ep),
                 TxQueue := (p # q2) @ TxQueue ep\<rparr>) t2)
             else data_loop E e q2 t2)))"
  by pat_completeness auto
termination
  by (relation "measure (\<lambda>(E, e, q, t). length q)") (auto dest: try_bundle_length)

declare data_loop.simps [simp del]

text \<open>
  The first part of HTCSendDataPkt, with a packet: its header goes to fragment 0, the packet to the
  queue. A packet longer than a credit is cut to one.
\<close>

definition queue_data :: "nat \<Rightarrow> addr \<Rightarrow> HTC_TARGET \<Rightarrow> HTC_TARGET option" where
  "queue_data e p t = do {
     let limit = word_of_nat (TxCreditSize (EndPoint t e)) - of_nat HTC_HDR_LENGTH;
     let t = (if limit < ActualLength (packets t p)
              then upd_pkt p (\<lambda>k. k\<lparr>ActualLength := limit\<rparr>) t else t);
     let k = packets t p;
     b \<leftarrow> HTC_WRITE32 0 (htc_hdr_word0 k (SendFlags k)) (pkt_nbuf t p);
     let t = (if ul_is_polled (EndPoint t e) then HTCSendCompletePollTimerStop e t else t);
     let t = upd_pkt p (\<lambda>k. k\<lparr>pkt_SeqNo := SeqNo (EndPoint t e)\<rparr>) t;
     let t = upd_ep e (\<lambda>ep. ep\<lparr>SeqNo := SeqNo ep + 1\<rparr>) t;
     b \<leftarrow> HTC_WRITE32 1 (SM (ucast (pkt_SeqNo (packets t p))) HTC_FRAME_HDR_CONTROLBYTES1) b;
     let t = set_nb (GET_HTC_PACKET_NET_BUF_CONTEXT t p) b t;
     Some (upd_ep e (\<lambda>ep. ep\<lparr>TxQueue := TxQueue ep @ [p]\<rparr>) t) }"

definition send_data :: "htc_env \<Rightarrow> nat \<Rightarrow> HTC_TARGET \<Rightarrow> (A_STATUS \<times> HTC_TARGET) option" where
  "send_data E e t = do {
     let t = upd_ep e (\<lambda>ep. ep\<lparr>TxProcessCount := TxProcessCount ep + 1\<rparr>) t;
     if 1 < TxProcessCount (EndPoint t e)
     then Some (A_OK, upd_ep e (\<lambda>ep. ep\<lparr>TxProcessCount := TxProcessCount ep - 1\<rparr>) t)
     else do {
       (q, t) \<leftarrow> (if TxCreditFlowEnabled (EndPoint t e) then GetHTCSendPacketsCreditBased e [] t
                else Some (GetHTCSendPackets e []
                  (if HTC_ENABLE_BUNDLE t then HTC_MAX_TX_BUNDLE_SEND_LIMIT
                   else HIFGetFreeQueueNumber (UL_PipeID (EndPoint t e))) t));
       (status, t) \<leftarrow> data_loop E e q t;
       let t = upd_ep e (\<lambda>ep. ep\<lparr>TxProcessCount := 0\<rparr>) t;
       Some (status, if ul_is_polled (EndPoint t e) then HTCSendCompletePollTimerStart e t else t) } }"

definition HTCSendDataPkt :: "htc_env \<Rightarrow> addr \<Rightarrow> bool \<Rightarrow> HTC_TARGET \<Rightarrow> (A_STATUS \<times> HTC_TARGET) option" where
  "HTCSendDataPkt E p more_data t =
    (if p \<noteq> NULL then
       let e = Endpoint (packets t p) in
       if ENDPOINT_MAX \<le> e then None
       else do {
         t \<leftarrow> queue_data e p t;
         if HTC_ENABLE_BUNDLE t \<and> more_data then Some (A_OK, t) else send_data E e t }
     else send_data E 1 t)"

end
