(* ===== verification/Htc_Complete.thy ===== *)
theory Htc_Complete
  imports Htc_Send
begin

text \<open>
  The rest of the send side of HTC (htc_send.c): matching the buffers the HIF has sent with their
  packets, the reports of credits, resuming and flushing queues.
\<close>

section \<open>Completed transfers\<close>

text \<open>
  The search of HTCLookupTxPacket through the packets it has moved out of the lookup queue: the
  packet found and the others, in order.
\<close>

fun lookup_search :: "HTC_TARGET \<Rightarrow> addr \<Rightarrow> addr list \<Rightarrow> addr option \<times> addr list" where
  "lookup_search t netbuf [] = (None, [])"
| "lookup_search t netbuf (p # ps) =
    (if netbuf = GET_HTC_PACKET_NET_BUF_CONTEXT t p then (Some p, ps)
     else case lookup_search t netbuf ps of (r, ps) \<Rightarrow> (r, p # ps))"

text \<open>
  HTCLookupTxPacket drops the lock while it searches: \<open>lookup_begin\<close> is the part before, \<open>lookup_end\<close>
  the part after, and in between the lookup queue of the endpoint is empty. The first component of
  \<open>lookup_begin\<close> is the packet when it is the first one; the second the queue that is searched.
\<close>

definition lookup_begin :: "nat \<Rightarrow> addr \<Rightarrow> HTC_TARGET \<Rightarrow> addr option \<times> addr list \<times> HTC_TARGET" where
  "lookup_begin e netbuf t =
    (let t = upd_ep e (\<lambda>ep. ep\<lparr>ul_outstanding_cnt := ul_outstanding_cnt ep - 1\<rparr>) t in
     case TxLookupQueue (EndPoint t e) of
       [] \<Rightarrow> (None, [], t)
     | p # ps \<Rightarrow>
         if netbuf = GET_HTC_PACKET_NET_BUF_CONTEXT t p
         then (Some p, [], upd_ep e (\<lambda>ep. ep\<lparr>TxLookupQueue := ps\<rparr>) t)
         else (None, p # ps, upd_ep e (\<lambda>ep. ep\<lparr>TxLookupQueue := []\<rparr>) t))"

definition lookup_end :: "nat \<Rightarrow> addr \<Rightarrow> addr list \<Rightarrow> HTC_TARGET \<Rightarrow> addr option \<times> HTC_TARGET" where
  "lookup_end e netbuf lookupQueue t = (case lookup_search t netbuf lookupQueue of
     (r, rest) \<Rightarrow> (r, upd_ep e (\<lambda>ep. ep\<lparr>TxLookupQueue := rest @ TxLookupQueue ep\<rparr>) t))"

definition HTCLookupTxPacket :: "nat \<Rightarrow> addr \<Rightarrow> HTC_TARGET \<Rightarrow> addr option \<times> HTC_TARGET" where
  "HTCLookupTxPacket e netbuf t = (case lookup_begin e netbuf t of
     (Some p, _, t) \<Rightarrow> (Some p, t)
   | (None, lookupQueue, t) \<Rightarrow> if lookupQueue = [] then (None, t) else lookup_end e netbuf lookupQueue t)"

text \<open>
  HTCTxCompletionHandler. For a bundle the loop sets \<open>Status\<close> of the container, not of the packet it
  completes.
\<close>

definition HTCTxCompletionHandler :: "htc_env \<Rightarrow> addr \<Rightarrow> nat \<Rightarrow> HTC_TARGET \<Rightarrow> HTC_TARGET option" where
  "HTCTxCompletionHandler E netbuf e t =
    (if ENDPOINT_MAX \<le> e then None
     else let t = t\<lparr>TX_comp_cnt := TX_comp_cnt t + 1\<rparr> in
     case HTCLookupTxPacket e netbuf t of
       (Some p, t) \<Rightarrow>
         if Tag (packets t p) = HTC_TX_PACKET_TAG_BUNDLED then
           Some (FreeHTCBundleTxPacket p
             (fold (\<lambda>c t. SendPacketCompletion c (upd_pkt p (\<lambda>k. k\<lparr>Status := A_OK\<rparr>) t))
                (pQueueSave (packets t p)) t))
         else do {
           let t = SendPacketCompletion p (upd_pkt p (\<lambda>k. k\<lparr>Status := A_OK\<rparr>) t);
           if \<not> TxCreditFlowEnabled (EndPoint t e)
           then do { (_, _, t) \<leftarrow> HTCTrySend E e None t; Some t } else Some t }
     | (None, t) \<Rightarrow>
         if \<not> TxCreditFlowEnabled (EndPoint t e)
         then do { (_, _, t) \<leftarrow> HTCTrySend E e None t; Some t } else Some t)"

section \<open>Resuming and flushing\<close>

definition HTCTxResourceAvailHandler :: "htc_env \<Rightarrow> u8 \<Rightarrow> HTC_TARGET \<Rightarrow> HTC_TARGET option" where
  "HTCTxResourceAvailHandler E pipeID t =
    (case find (\<lambda>i. ServiceID (EndPoint t i) \<noteq> 0 \<and> UL_PipeID (EndPoint t i) = pipeID) [0..<ENDPOINT_MAX] of
       None \<Rightarrow> Some t
     | Some i \<Rightarrow> do { (_, _, t) \<leftarrow> HTCTrySend E i None t; Some t })"

definition resume_endpoint :: "htc_env \<Rightarrow> nat \<Rightarrow> HTC_TARGET \<Rightarrow> HTC_TARGET option" where
  "resume_endpoint E i t =
    (if ServiceID (EndPoint t i) = 0 then Some t
     else do {
       let t = (if EpResumeTxQueue (EpCallBacks (EndPoint t i))
                then t\<lparr>calls := calls t @ [CallResumeTxQueue i]\<rparr> else t);
       (_, _, t) \<leftarrow> HTCTrySend E i None t;
       Some t })"

definition HTCTxResumeAllHandler :: "htc_env \<Rightarrow> HTC_TARGET \<Rightarrow> HTC_TARGET option" where
  "HTCTxResumeAllHandler E t = for_each [0..<ENDPOINT_MAX] (resume_endpoint E) t"

definition HTCFlushEndpointTX :: "nat \<Rightarrow> HTC_TARGET \<Rightarrow> HTC_TARGET" where
  "HTCFlushEndpointTX e t =
     fold (\<lambda>p t. SendPacketCompletion p (upd_pkt p (\<lambda>k. k\<lparr>Status := A_ECANCELED\<rparr>)
              (upd_ep e (\<lambda>ep. ep\<lparr>TxQueue := tl (TxQueue ep)\<rparr>) t)))
       (TxQueue (EndPoint t e)) t"

definition HTCFlushEndpoint :: "nat \<Rightarrow> HTC_TARGET \<Rightarrow> HTC_TARGET option" where
  "HTCFlushEndpoint e t =
    (if ENDPOINT_MAX \<le> e then None
     else if ServiceID (EndPoint t e) = 0 then Some t
     else Some (HTCFlushEndpointTX e t))"

section \<open>Credits\<close>

definition HTCGetControlEndpointTxHostCredits :: "HTC_TARGET \<Rightarrow> int" where
  "HTCGetControlEndpointTxHostCredits t =
    (case find (\<lambda>i. ServiceID (EndPoint t i) = WMI_CONTROL_SVC) [0..<ENDPOINT_MAX] of
       None \<Rightarrow> 0 | Some i \<Rightarrow> TxCredits (EndPoint t i))"

text \<open>
  HTCProcessCreditRpt: the loop over the entries of the report, the endpoint and the credits of each.
  An endpoint out of range ends it.
\<close>

definition send_credited :: "htc_env \<Rightarrow> nat \<Rightarrow> HTC_TARGET \<Rightarrow> HTC_TARGET option" where
  "send_credited E e t =
    (if TxCredits (EndPoint t e) \<noteq> 0 \<and> TxQueue (EndPoint t e) \<noteq> [] then
       (if ServiceID (EndPoint t e) = HTT_DATA_MSG_SVC
        then do { (_, t) \<leftarrow> HTCSendDataPkt E NULL False t; Some t }
        else do { (_, _, t) \<leftarrow> HTCTrySend E e None t; Some t })
     else Some t)"

fun HTCProcessCreditRpt :: "htc_env \<Rightarrow> (u8 \<times> u8) list \<Rightarrow> HTC_TARGET \<Rightarrow> HTC_TARGET option" where
  "HTCProcessCreditRpt E [] t = Some t"
| "HTCProcessCreditRpt E ((rpt_ep_id, rpt_credits) # rs) t =
    (let e = unat rpt_ep_id in
     if ENDPOINT_MAX \<le> e then Some t
     else do {
       let t = upd_ep e (\<lambda>ep. ep\<lparr>TxCredits := TxCredits ep + int (unat rpt_credits)\<rparr>) t;
       let t = (if ServiceID (EndPoint t e) = WMI_CONTROL_SVC
                then record_credits HTC_PROCESS_CREDIT_REPORT e t else t);
       t \<leftarrow> send_credited E e t;
       HTCProcessCreditRpt E rs t })"

end
