(* ===== verification/Htc_Recv.thy ===== *)
theory Htc_Recv
  imports Htc_Complete
begin

text \<open>
  Receiving in HTC (htc_recv.c): the trailer with its credit reports, the frames the HIF delivers,
  control messages, and the pool and queue of receive packets. The scatter-gather reassembly
  (\<^verbatim>\<open>RX_SG_SUPPORT\<close>) is not in this build; \<^verbatim>\<open>VOS_BUG\<close> only logs.
\<close>

section \<open>Indication to the clients\<close>

definition rx_ind_of :: "HTC_TARGET \<Rightarrow> addr \<Rightarrow> rx_ind" where
  "rx_ind_of t p = (let k = packets t p in
     \<lparr>rx_pkt = p, rx_status = Status k, rx_len = ActualLength k, rx_nbuf = pPktContext k,
      rx_data = nb_data (nbufs t (pPktContext k))\<rparr>)"

definition DoRecvCompletion :: "nat \<Rightarrow> addr list \<Rightarrow> HTC_TARGET \<Rightarrow> HTC_TARGET" where
  "DoRecvCompletion e q t =
    (if q = [] then t
     else if EpRecvPktMultiple (EpCallBacks (EndPoint t e))
     then t\<lparr>calls := calls t @ [CallRecvPktMultiple e (map (rx_ind_of t) q)]\<rparr>
     else if EpRecv (EpCallBacks (EndPoint t e))
     then t\<lparr>calls := calls t @ map (\<lambda>p. CallRecv e (rx_ind_of t p)) q\<rparr>
     else t)"

definition RecvPacketCompletion :: "nat \<Rightarrow> addr \<Rightarrow> HTC_TARGET \<Rightarrow> HTC_TARGET" where
  "RecvPacketCompletion e p t = DoRecvCompletion e [p] t"

section \<open>The pool of packet containers\<close>

definition AllocateHTCPacketContainer :: "HTC_TARGET \<Rightarrow> addr option \<times> HTC_TARGET" where
  "AllocateHTCPacketContainer t = (case pHTCPacketStructPool t of
     [] \<Rightarrow> (None, t) | p # ps \<Rightarrow> (Some p, t\<lparr>pHTCPacketStructPool := ps\<rparr>))"

definition FreeHTCPacketContainer :: "addr \<Rightarrow> HTC_TARGET \<Rightarrow> HTC_TARGET" where
  "FreeHTCPacketContainer p t = t\<lparr>pHTCPacketStructPool := p # pHTCPacketStructPool t\<rparr>"

section \<open>Trailers\<close>

definition HTC_RECORD_CREDITS :: u8 where "HTC_RECORD_CREDITS = 1"

definition HTC_RECORD_HDR_RECORDID :: htc_field where
  "HTC_RECORD_HDR_RECORDID = \<lparr>LSB = 0, MASK = 0x000000ff, OFFSET = 0\<rparr>"
definition HTC_RECORD_HDR_LENGTH :: htc_field where
  "HTC_RECORD_HDR_LENGTH = \<lparr>LSB = 8, MASK = 0x0000ff00, OFFSET = 0\<rparr>"
definition HTC_CREDIT_REPORT_ENDPOINTID :: htc_field where
  "HTC_CREDIT_REPORT_ENDPOINTID = \<lparr>LSB = 0, MASK = 0x000000ff, OFFSET = 0\<rparr>"
definition HTC_CREDIT_REPORT_CREDITS :: htc_field where
  "HTC_CREDIT_REPORT_CREDITS = \<lparr>LSB = 8, MASK = 0x0000ff00, OFFSET = 0\<rparr>"

definition sizeof_HTC_RECORD_HDR :: nat where "sizeof_HTC_RECORD_HDR = 4"

text \<open>The entries of a credit record: as many as fit, four bytes each.\<close>

fun credit_entries :: "u8 list \<Rightarrow> (u8 \<times> u8) list" where
  "credit_entries (a # b # c # d # bs) =
     (ucast (MS (of_le32 a b c d) HTC_CREDIT_REPORT_ENDPOINTID),
      ucast (MS (of_le32 a b c d) HTC_CREDIT_REPORT_CREDITS)) # credit_entries bs"
| "credit_entries _ = []"

text \<open>Records that are not credits are logged or left to the HIF.\<close>

function HTCProcessTrailer :: "htc_env \<Rightarrow> u8 list \<Rightarrow> HTC_TARGET \<Rightarrow> (A_STATUS \<times> HTC_TARGET) option" where
  "HTCProcessTrailer E buf t =
    (if buf = [] then Some (A_OK, t)
     else if length buf < sizeof_HTC_RECORD_HDR then Some (A_EPROTO, t)
     else do {
       len \<leftarrow> HTC_GET_FIELD buf HTC_RECORD_HDR_LENGTH;
       rid \<leftarrow> HTC_GET_FIELD buf HTC_RECORD_HDR_RECORDID;
       let buf = drop sizeof_HTC_RECORD_HDR buf;
       let n = unat len;
       if length buf < n then Some (A_EPROTO, t)
       else do {
         t \<leftarrow> (if rid = ucast HTC_RECORD_CREDITS then HTCProcessCreditRpt E (credit_entries (take n buf)) t
              else Some t);
         HTCProcessTrailer E (drop n buf) t } })"
  by pat_completeness auto
termination
  by (relation "measure (\<lambda>(E, buf, t). length buf)") (auto simp: sizeof_HTC_RECORD_HDR_def)

declare HTCProcessTrailer.simps [simp del]

section \<open>Received frames\<close>

definition HTC_UNKNOWN_MSG_MESSAGEID :: htc_field where
  "HTC_UNKNOWN_MSG_MESSAGEID = \<lparr>LSB = 0, MASK = 0x0000ffff, OFFSET = 0\<rparr>"

definition HTC_MSG_SEND_SUSPEND_COMPLETE :: u32 where "HTC_MSG_SEND_SUSPEND_COMPLETE = 6"
definition HTC_MSG_NACK_SUSPEND :: u32 where "HTC_MSG_NACK_SUSPEND = 7"

text \<open>The length is only ever made smaller here; the branch that extends the buffer is not reached.\<close>

definition adf_nbuf_set_pktlen :: "nat \<Rightarrow> nbuf \<Rightarrow> nbuf" where
  "adf_nbuf_set_pktlen len b = b\<lparr>nb_data := take len (nb_data b)\<rparr>"

definition adf_nbuf_free :: "addr \<Rightarrow> HTC_TARGET \<Rightarrow> HTC_TARGET" where
  "adf_nbuf_free nb t = t\<lparr>nb_freed := nb_freed t @ [nb]\<rparr>"

text \<open>A message on endpoint 0: the two answers to a suspend request, anything else is a response.\<close>

definition control_message :: "addr \<Rightarrow> HTC_TARGET \<Rightarrow> (A_STATUS \<times> HTC_TARGET) option" where
  "control_message netbuf t = do {
     let t = set_nb netbuf (nbuf_pull_head HTC_HDR_LENGTH (nbufs t netbuf)) t;
     let netdata = nb_data (nbufs t netbuf);
     message_id \<leftarrow> HTC_GET_FIELD netdata HTC_UNKNOWN_MSG_MESSAGEID;
     let (status, t) =
       (if message_id = HTC_MSG_SEND_SUSPEND_COMPLETE then
          let t = record_credits HTC_SUSPEND_ACK ENDPOINT_0 t
          in (A_OK, t\<lparr>calls := calls t @ [CallSendSuspendComplete 0, CallSuspendWow]\<rparr>)
        else if message_id = HTC_MSG_NACK_SUSPEND then
          let t = record_credits HTC_SUSPEND_NACK ENDPOINT_0 t
          in (A_OK, t\<lparr>calls := calls t @ [CallSendSuspendComplete 1]\<rparr>)
        else if CtrlResponseProcessing t then (A_ERROR, t)
        else
          let n = min (length netdata) HTC_MAX_CONTROL_MESSAGE_LENGTH
          in (A_OK, t\<lparr>CtrlResponseLength := n,
                      CtrlResponseBuffer := take n netdata @ drop n (CtrlResponseBuffer t),
                      CtrlResponseProcessing := True, CtrlResponseValid := True\<rparr>));
     Some (status, adf_nbuf_free netbuf t) }"

text \<open>A data frame: a container for it, the payload without header and trailer.\<close>

definition data_message :: "nat \<Rightarrow> addr \<Rightarrow> nat \<Rightarrow> nat \<Rightarrow> HTC_TARGET \<Rightarrow> A_STATUS \<times> HTC_TARGET" where
  "data_message e netbuf netlen trailerlen t = (case AllocateHTCPacketContainer t of
     (None, t) \<Rightarrow> (A_NO_RESOURCE, adf_nbuf_free netbuf t)
   | (Some p, t) \<Rightarrow>
       let len = netlen - HTC_HDR_LENGTH - trailerlen;
           t = upd_pkt p (\<lambda>k. k\<lparr>Status := A_OK, Endpoint := e, pPktContext := netbuf,
                 ActualLength := word_of_nat len\<rparr>) t;
           t = set_nb netbuf (adf_nbuf_set_pktlen len
                 (nbuf_pull_head HTC_HDR_LENGTH (nbufs t netbuf))) t
       in (A_OK, FreeHTCPacketContainer p (RecvPacketCompletion e p t)))"

definition HTCRxCompletionHandler :: "htc_env \<Rightarrow> addr \<Rightarrow> HTC_TARGET \<Rightarrow> (A_STATUS \<times> HTC_TARGET) option" where
  "HTCRxCompletionHandler E netbuf t = do {
     let netdata = nb_data (nbufs t netbuf);
     let netlen = length netdata;
     ep \<leftarrow> HTC_GET_FIELD netdata HTC_FRAME_HDR_ENDPOINTID;
     let e = unat ep;
     if ENDPOINT_MAX \<le> e then Some (A_ERROR, adf_nbuf_free netbuf t)
     else do {
       let t = (if ul_is_polled (EndPoint t e) then HTCSendCompleteCheck e t else t);
       plen \<leftarrow> HTC_GET_FIELD netdata HTC_FRAME_HDR_PAYLOADLEN;
       let payloadLen = unat plen;
       if netlen < payloadLen + HTC_HDR_LENGTH then Some (A_ERROR, adf_nbuf_free netbuf t)
       else do {
         flags \<leftarrow> HTC_GET_FIELD netdata HTC_FRAME_HDR_FLAGS;
         cb0 \<leftarrow> HTC_GET_FIELD netdata HTC_FRAME_HDR_CONTROLBYTES0;
         let temp = unat cb0;
         let trailer = ucast flags AND HTC_FLAGS_RECV_TRAILER \<noteq> 0;
         if trailer \<and> (temp < sizeof_HTC_RECORD_HDR \<or> payloadLen < temp)
         then Some (A_EPROTO, adf_nbuf_free netbuf t)
         else do {
           (status, t) \<leftarrow> (if trailer
             then HTCProcessTrailer E (take temp (drop (HTC_HDR_LENGTH + payloadLen - temp) netdata)) t
             else Some (A_OK, t));
           let trailerlen = (if trailer then temp else 0);
           if status \<noteq> A_OK then Some (status, adf_nbuf_free netbuf t)
           else if payloadLen \<le> trailerlen then Some (A_OK, adf_nbuf_free netbuf t)
           else if e = ENDPOINT_0 then control_message netbuf t
           else Some (data_message e netbuf netlen trailerlen t) } } } }"

section \<open>Packets for reception\<close>

definition HTCGetNumRecvBuffers :: "nat \<Rightarrow> HTC_TARGET \<Rightarrow> nat" where
  "HTCGetNumRecvBuffers e t = length (RxBufferHoldQueue (EndPoint t e))"

definition HTCAddReceivePktMultiple :: "addr list \<Rightarrow> HTC_TARGET \<Rightarrow> (A_STATUS \<times> HTC_TARGET) option" where
  "HTCAddReceivePktMultiple q t = (case q of
     [] \<Rightarrow> Some (A_EINVAL, t)
   | p # _ \<Rightarrow>
       let e = Endpoint (packets t p) in
       if ENDPOINT_MAX \<le> e then None
       else if HTC_STOPPING t then
         Some (A_ERROR, DoRecvCompletion e q (fold (\<lambda>p. upd_pkt p (\<lambda>k. k\<lparr>Status := A_ECANCELED\<rparr>)) q t))
       else Some (A_OK, upd_ep e (\<lambda>ep. ep\<lparr>RxBufferHoldQueue := RxBufferHoldQueue ep @ q\<rparr>) t))"

definition HTCAddReceivePkt :: "addr \<Rightarrow> HTC_TARGET \<Rightarrow> (A_STATUS \<times> HTC_TARGET) option" where
  "HTCAddReceivePkt p t = HTCAddReceivePktMultiple [p] t"

definition HTCFlushRxHoldQueue :: "nat \<Rightarrow> HTC_TARGET \<Rightarrow> HTC_TARGET" where
  "HTCFlushRxHoldQueue e t =
     fold (\<lambda>p t. DoRecvCompletion e [p] (upd_pkt p (\<lambda>k. k\<lparr>Status := A_ECANCELED, ActualLength := 0\<rparr>)
              (upd_ep e (\<lambda>ep. ep\<lparr>RxBufferHoldQueue := tl (RxBufferHoldQueue ep)\<rparr>) t)))
       (RxBufferHoldQueue (EndPoint t e)) t"

end
