(* ===== verification/Htc_Setup.thy ===== *)
theory Htc_Setup
  imports Htc_Recv
begin

text \<open>
  Setting HTC up and taking it down (htc.c, htc_services.c): the credits of the services, the ready
  message of the target, the connection of a service to an endpoint, start and stop.
\<close>

section \<open>Message formats\<close>

definition HTC_MSG_READY_ID :: u32 where "HTC_MSG_READY_ID = 1"
definition HTC_MSG_CONNECT_SERVICE_ID :: u32 where "HTC_MSG_CONNECT_SERVICE_ID = 2"
definition HTC_MSG_CONNECT_SERVICE_RESPONSE_ID :: u32 where "HTC_MSG_CONNECT_SERVICE_RESPONSE_ID = 3"
definition HTC_MSG_SETUP_COMPLETE_EX_ID :: u32 where "HTC_MSG_SETUP_COMPLETE_EX_ID = 5"
definition HTC_SERVICE_META_DATA_MAX_LENGTH :: nat where "HTC_SERVICE_META_DATA_MAX_LENGTH = 128"
definition HTC_SERVICE_SUCCESS :: u8 where "HTC_SERVICE_SUCCESS = 0"
definition HTC_SETUP_COMPLETE_FLAGS_ENABLE_BUNDLE_RECV :: u32 where
  "HTC_SETUP_COMPLETE_FLAGS_ENABLE_BUNDLE_RECV = 1"
definition HTC_CONNECT_FLAGS_DISABLE_CREDIT_FLOW_CTRL :: u16 where
  "HTC_CONNECT_FLAGS_DISABLE_CREDIT_FLOW_CTRL = 8"
definition HTC_SET_RECV_ALLOC_MASK :: u16 where "HTC_SET_RECV_ALLOC_MASK = 0xFF00"
definition HTC_CONNECT_FLAGS_SET_RECV_ALLOCATION :: "u8 \<Rightarrow> u16" where
  "HTC_CONNECT_FLAGS_SET_RECV_ALLOCATION value = push_bit 8 (ucast value)"

definition HTC_READY_MSG_MESSAGEID :: htc_field where
  "HTC_READY_MSG_MESSAGEID = \<lparr>LSB = 0, MASK = 0x0000ffff, OFFSET = 0\<rparr>"
definition HTC_READY_MSG_CREDITCOUNT :: htc_field where
  "HTC_READY_MSG_CREDITCOUNT = \<lparr>LSB = 16, MASK = 0xffff0000, OFFSET = 0\<rparr>"
definition HTC_READY_MSG_CREDITSIZE :: htc_field where
  "HTC_READY_MSG_CREDITSIZE = \<lparr>LSB = 0, MASK = 0x0000ffff, OFFSET = 4\<rparr>"
definition HTC_READY_EX_MSG_MAXMSGSPERHTCBUNDLE :: htc_field where
  "HTC_READY_EX_MSG_MAXMSGSPERHTCBUNDLE = \<lparr>LSB = 8, MASK = 0x0000ff00, OFFSET = 8\<rparr>"
definition HTC_READY_EX_MSG_ALTDATACREDITSIZE :: htc_field where
  "HTC_READY_EX_MSG_ALTDATACREDITSIZE = \<lparr>LSB = 16, MASK = 0x0fff0000, OFFSET = 8\<rparr>"

definition HTC_CONNECT_SERVICE_MSG_MESSAGEID :: htc_field where
  "HTC_CONNECT_SERVICE_MSG_MESSAGEID = \<lparr>LSB = 0, MASK = 0x0000ffff, OFFSET = 0\<rparr>"
definition HTC_CONNECT_SERVICE_MSG_SERVICE_ID :: htc_field where
  "HTC_CONNECT_SERVICE_MSG_SERVICE_ID = \<lparr>LSB = 16, MASK = 0xffff0000, OFFSET = 0\<rparr>"
definition HTC_CONNECT_SERVICE_MSG_CONNECTIONFLAGS :: htc_field where
  "HTC_CONNECT_SERVICE_MSG_CONNECTIONFLAGS = \<lparr>LSB = 0, MASK = 0x0000ffff, OFFSET = 4\<rparr>"
definition HTC_CONNECT_SERVICE_MSG_SERVICEMETALENGTH :: htc_field where
  "HTC_CONNECT_SERVICE_MSG_SERVICEMETALENGTH = \<lparr>LSB = 16, MASK = 0x00ff0000, OFFSET = 4\<rparr>"

definition HTC_CONNECT_SERVICE_RESPONSE_MSG_MESSAGEID :: htc_field where
  "HTC_CONNECT_SERVICE_RESPONSE_MSG_MESSAGEID = \<lparr>LSB = 0, MASK = 0x0000ffff, OFFSET = 0\<rparr>"
definition HTC_CONNECT_SERVICE_RESPONSE_MSG_STATUS :: htc_field where
  "HTC_CONNECT_SERVICE_RESPONSE_MSG_STATUS = \<lparr>LSB = 0, MASK = 0x000000ff, OFFSET = 4\<rparr>"
definition HTC_CONNECT_SERVICE_RESPONSE_MSG_ENDPOINTID :: htc_field where
  "HTC_CONNECT_SERVICE_RESPONSE_MSG_ENDPOINTID = \<lparr>LSB = 8, MASK = 0x0000ff00, OFFSET = 4\<rparr>"
definition HTC_CONNECT_SERVICE_RESPONSE_MSG_MAXMSGSIZE :: htc_field where
  "HTC_CONNECT_SERVICE_RESPONSE_MSG_MAXMSGSIZE = \<lparr>LSB = 16, MASK = 0xffff0000, OFFSET = 4\<rparr>"
definition HTC_CONNECT_SERVICE_RESPONSE_MSG_SERVICEMETALENGTH :: htc_field where
  "HTC_CONNECT_SERVICE_RESPONSE_MSG_SERVICEMETALENGTH = \<lparr>LSB = 0, MASK = 0x000000ff, OFFSET = 8\<rparr>"

definition HTC_SETUP_COMPLETE_EX_MSG_MESSAGEID :: htc_field where
  "HTC_SETUP_COMPLETE_EX_MSG_MESSAGEID = \<lparr>LSB = 0, MASK = 0x0000ffff, OFFSET = 0\<rparr>"

definition sizeof_HTC_READY_EX_MSG :: nat where "sizeof_HTC_READY_EX_MSG = 12"
definition sizeof_HTC_CONNECT_SERVICE_MSG :: nat where "sizeof_HTC_CONNECT_SERVICE_MSG = 8"
definition sizeof_HTC_CONNECT_SERVICE_RESPONSE_MSG :: nat where "sizeof_HTC_CONNECT_SERVICE_RESPONSE_MSG = 12"
definition sizeof_HTC_SETUP_COMPLETE_EX_MSG :: nat where "sizeof_HTC_SETUP_COMPLETE_EX_MSG = 12"

section \<open>What the setup asks of the layers around it\<close>

text \<open>
  \<open>ctrl_alloc\<close>: the packet and buffer of the next control message; \<open>swap_mailbox\<close>: whether the
  mailboxes are swapped; \<open>epping\<close>: the mode of the endpoint ping test.
\<close>

record htc_setup_env =
  ctrl_alloc :: "(addr \<times> addr) option"
  swap_mailbox :: bool
  epping :: bool

text \<open>\<^verbatim>\<open>HIFDevMapServiceToPipe\<close> of hif_sdio_dev.c: the status \<^verbatim>\<open>!EOK\<close> is 1, \<^verbatim>\<open>A_DEVICE_NOT_FOUND\<close>.\<close>

definition HIFMapServiceToPipe :: "bool \<Rightarrow> u16 \<Rightarrow> A_STATUS \<times> (u8 \<times> u8) option" where
  "HIFMapServiceToPipe SwapMapping svc =
    (if svc = HTT_DATA_MSG_SVC then (A_OK, Some (if SwapMapping then (1, 0) else (3, 2)))
     else if svc = HTC_CTRL_RSVD_SVC \<or> svc = HTC_RAW_STREAMS_SVC then (A_OK, Some (1, 0))
     else if svc = WMI_DATA_BE_SVC \<or> svc = WMI_DATA_BK_SVC \<or> svc = WMI_DATA_VI_SVC \<or> svc = WMI_DATA_VO_SVC
     then (A_OK, Some (1, 0))
     else if svc = WMI_CONTROL_SVC then (A_OK, Some (if SwapMapping then (3, 2) else (1, 0)))
     else (A_DEVICE_NOT_FOUND, None))"

section \<open>Credits of the services\<close>

definition HTCSetupTargetBufferAssignments :: "htc_setup_env \<Rightarrow> HTC_TARGET \<Rightarrow> HTC_TARGET option" where
  "HTCSetupTargetBufferAssignments S t =
    (if TargetCreditSize t = 0 then None
     else do {
       let credits = word_of_int (TotalTransmitCredits t);
       tab \<leftarrow> wr (ServiceTxAllocTable t) 1 (WMI_CONTROL_SVC, credits);
       tab \<leftarrow> (if epping S then wr tab 2 (WMI_DATA_BE_SVC, credits) else Some tab);
       Some (t\<lparr>ServiceTxAllocTable := tab\<rparr>) })"

text \<open>The last entry of the table with the service decides.\<close>

definition HTCGetCreditAllocation :: "HTC_TARGET \<Rightarrow> u16 \<Rightarrow> u8" where
  "HTCGetCreditAllocation t svc =
     fold (\<lambda>(s, c) allocation. if s = svc then c else allocation) (ServiceTxAllocTable t) 0"

section \<open>Control messages\<close>

definition HTCAllocControlTxPacket :: "htc_setup_env \<Rightarrow> HTC_TARGET \<Rightarrow> addr option \<times> HTC_TARGET" where
  "HTCAllocControlTxPacket S t = (case ctrl_alloc S of
     None \<Rightarrow> (None, t)
   | Some (p, nb) \<Rightarrow>
       (Some p, set_nb nb \<lparr>nb_room = replicate 20 0, nb_extra = [], nb_data = [], nb_maps = 0\<rparr>
         (upd_pkt p (\<lambda>k. \<lparr>pPktContext = NULL, pNetBufContext = nb, ActualLength = 0, Endpoint = ENDPOINT_0,
            Status = A_OK, Tag = 0, CreditsUsed = 0, SendFlags = 0, pkt_SeqNo = 0, Flags = 0,
            pQueueSave = []\<rparr>) t)))"

text \<open>A control message in its buffer, and the packet made ready for it.\<close>

definition set_control_message :: "addr \<Rightarrow> u8 list \<Rightarrow> HTC_TARGET \<Rightarrow> HTC_TARGET" where
  "set_control_message p msg t =
    (let t = set_nb (GET_HTC_PACKET_NET_BUF_CONTEXT t p)
               ((pkt_nbuf t p)\<lparr>nb_data := nb_data (pkt_nbuf t p) @ msg\<rparr>) t
     in upd_pkt p (\<lambda>k. k\<lparr>pPktContext := NULL, ActualLength := word_of_nat (length msg), Endpoint := ENDPOINT_0,
          Tag := HTC_TX_PACKET_TAG_INTERNAL, Flags := 0, SendFlags := 0\<rparr>) t)"

text \<open>
  HTCWaitRecvCtrlMessage: the completion is armed, and the buffers \<open>arrivals\<close> come in until the
  timeout. The reset of the target after a timeout is not modelled.
\<close>

definition rx_all :: "htc_env \<Rightarrow> addr list \<Rightarrow> HTC_TARGET \<Rightarrow> HTC_TARGET option" where
  "rx_all E arrivals t = for_each arrivals (\<lambda>nb t. do { (_, t) \<leftarrow> HTCRxCompletionHandler E nb t; Some t }) t"

definition HTCWaitRecvCtrlMessage :: "htc_env \<Rightarrow> addr list \<Rightarrow> HTC_TARGET \<Rightarrow> (A_STATUS \<times> HTC_TARGET) option" where
  "HTCWaitRecvCtrlMessage E arrivals t = do {
     t \<leftarrow> rx_all E arrivals (t\<lparr>CtrlResponseValid := False\<rparr>);
     Some (if CtrlResponseValid t then (A_OK, t\<lparr>CtrlResponseValid := False\<rparr>) else (A_ERROR, t)) }"

section \<open>Connecting a service\<close>

record HTC_SERVICE_CONNECT_REQ =
  req_ServiceID :: u16
  ConnectionFlags :: u16
  pMetaData :: "u8 list option"
  MetaDataLength :: u8
  EpCallbacks :: HTC_EP_CALLBACKS
  MaxSendQueueDepth :: int

record HTC_SERVICE_CONNECT_RESP =
  resp_pMetaData :: "u8 list option"
  BufferLength :: u8
  resp_ActualLength :: u8
  resp_Endpoint :: nat
  resp_MaxMsgLength :: nat
  ConnectRespCode :: u8

definition connect_message :: "HTC_SERVICE_CONNECT_REQ \<Rightarrow> u8 \<Rightarrow> u8 list option" where
  "connect_message req txAlloc = do {
     let n = unat (MetaDataLength req);
     let conn_flags = (ConnectionFlags req AND NOT HTC_SET_RECV_ALLOC_MASK)
                      OR HTC_CONNECT_FLAGS_SET_RECV_ALLOCATION txAlloc;
     msg \<leftarrow> HTC_SET_FIELD (replicate (sizeof_HTC_CONNECT_SERVICE_MSG + n) 0)
             HTC_CONNECT_SERVICE_MSG_MESSAGEID HTC_MSG_CONNECT_SERVICE_ID;
     msg \<leftarrow> HTC_SET_FIELD msg HTC_CONNECT_SERVICE_MSG_SERVICE_ID (ucast (req_ServiceID req));
     msg \<leftarrow> HTC_SET_FIELD msg HTC_CONNECT_SERVICE_MSG_CONNECTIONFLAGS (ucast conn_flags);
     (case pMetaData req of
        Some m \<Rightarrow>
          if n \<le> HTC_SERVICE_META_DATA_MAX_LENGTH then
            if length m < n then None
            else HTC_SET_FIELD (take sizeof_HTC_CONNECT_SERVICE_MSG msg @ take n m)
                   HTC_CONNECT_SERVICE_MSG_SERVICEMETALENGTH (ucast (MetaDataLength req))
          else Some msg
      | None \<Rightarrow> Some msg) }"

text \<open>
  The second half of HTCConnectService, once the target has named an endpoint and the size of its
  messages. The endpoint is marked as in use before its service is mapped to a pipe.
\<close>

definition setup_endpoint :: "htc_setup_env \<Rightarrow> HTC_SERVICE_CONNECT_REQ \<Rightarrow> nat \<Rightarrow> nat \<Rightarrow> u8 \<Rightarrow> bool \<Rightarrow>
    HTC_SERVICE_CONNECT_RESP \<Rightarrow> HTC_TARGET \<Rightarrow> (A_STATUS \<times> HTC_SERVICE_CONNECT_RESP \<times> HTC_TARGET) option" where
  "setup_endpoint S req e maxMsgSize txAlloc disableCreditFlowCtrl resp t =
    (if ENDPOINT_MAX \<le> e then Some (A_EPROTO, resp, t)
     else if maxMsgSize = 0 then Some (A_EPROTO, resp, t)
     else let t = upd_ep e (\<lambda>ep. ep\<lparr>Id := e\<rparr>) t in
     if ServiceID (EndPoint t e) \<noteq> 0 then Some (A_EPROTO, resp, t)
     else let resp = resp\<lparr>resp_Endpoint := e, resp_MaxMsgLength := maxMsgSize\<rparr> in
     if TargetCreditSize t = 0 then None
     else let t = upd_ep e (\<lambda>ep. ep\<lparr>ServiceID := req_ServiceID req, MaxTxQueueDepth := MaxSendQueueDepth req,
            MaxMsgLength := maxMsgSize, TxCredits := int (unat txAlloc), TxCreditSize := TargetCreditSize t,
            TxCreditsPerMaxMsg := int (maxMsgSize div TargetCreditSize t) +
              (if maxMsgSize mod TargetCreditSize t \<noteq> 0 then 1 else 0),
            EpCallBacks := EpCallbacks req\<rparr>) t in
     case HIFMapServiceToPipe (swap_mailbox S) (req_ServiceID req) of
       (st, None) \<Rightarrow> Some (st, resp, t)
     | (st, Some (ul, dl)) \<Rightarrow>
         let t = upd_ep e (\<lambda>ep. ep\<lparr>UL_PipeID := ul, DL_PipeID := dl\<rparr>) t;
             t = (if AltDataCreditSize t \<noteq> 0 \<and> swap_mailbox S \<and> ul = 1 \<and> dl = 0
                  then upd_ep e (\<lambda>ep. ep\<lparr>TxCreditSize := unat (AltDataCreditSize t)\<rparr>) t else t);
             t = (if disableCreditFlowCtrl then upd_ep e (\<lambda>ep. ep\<lparr>TxCreditFlowEnabled := False\<rparr>) t else t)
         in Some (st, resp, t))"

text \<open>The message exchange: \<open>early\<close> arrives before the wait starts, \<open>arrivals\<close> during the wait.\<close>

definition response_fields :: "u8 list \<Rightarrow> (u32 \<times> u8 \<times> u8 \<times> u16 \<times> u8) option" where
  "response_fields buf = do {
     mid \<leftarrow> HTC_GET_FIELD buf HTC_CONNECT_SERVICE_RESPONSE_MSG_MESSAGEID;
     st \<leftarrow> HTC_GET_FIELD buf HTC_CONNECT_SERVICE_RESPONSE_MSG_STATUS;
     eid \<leftarrow> HTC_GET_FIELD buf HTC_CONNECT_SERVICE_RESPONSE_MSG_ENDPOINTID;
     sz \<leftarrow> HTC_GET_FIELD buf HTC_CONNECT_SERVICE_RESPONSE_MSG_MAXMSGSIZE;
     ml \<leftarrow> HTC_GET_FIELD buf HTC_CONNECT_SERVICE_RESPONSE_MSG_SERVICEMETALENGTH;
     Some (mid, ucast st, ucast eid, ucast sz, ucast ml) }"

definition connect_response :: "htc_setup_env \<Rightarrow> HTC_SERVICE_CONNECT_REQ \<Rightarrow> u8 \<Rightarrow> bool \<Rightarrow>
    HTC_SERVICE_CONNECT_RESP \<Rightarrow> HTC_TARGET \<Rightarrow> (A_STATUS \<times> HTC_SERVICE_CONNECT_RESP \<times> HTC_TARGET) option" where
  "connect_response S req txAlloc disableCreditFlowCtrl resp t = do {
     (rsp_id, rsp_status, rsp_end_id, rsp_max_msg_size, rsp_meta_len) \<leftarrow> response_fields (CtrlResponseBuffer t);
     if rsp_id \<noteq> HTC_MSG_CONNECT_SERVICE_RESPONSE_ID \<or>
        CtrlResponseLength t < sizeof_HTC_CONNECT_SERVICE_RESPONSE_MSG
     then Some (A_EPROTO, resp, t)
     else do {
       let resp = resp\<lparr>ConnectRespCode := rsp_status\<rparr>;
       if rsp_status \<noteq> HTC_SERVICE_SUCCESS then Some (A_EPROTO, resp, t)
       else do {
         let n = min (unat (BufferLength resp)) (unat rsp_meta_len);
         let resp = (case resp_pMetaData resp of
             Some m \<Rightarrow> if 0 < rsp_meta_len \<and> unat rsp_meta_len \<le> HTC_SERVICE_META_DATA_MAX_LENGTH
               then resp\<lparr>resp_pMetaData := Some (take n (drop sizeof_HTC_CONNECT_SERVICE_RESPONSE_MSG
                        (CtrlResponseBuffer t)) @ drop n m), resp_ActualLength := word_of_nat n\<rparr>
               else resp
           | None \<Rightarrow> resp);
         setup_endpoint S req (unat rsp_end_id) (unat rsp_max_msg_size) txAlloc disableCreditFlowCtrl resp
           (t\<lparr>CtrlResponseProcessing := False\<rparr>) } } }"

text \<open>\<^verbatim>\<open>htc_credit_flow\<close>, which could turn the credit flow off here, is the constant 1 in the SDIO build (hif_sdio.c).\<close>

definition HTCConnectService :: "htc_env \<Rightarrow> htc_setup_env \<Rightarrow> addr list \<Rightarrow> addr list \<Rightarrow>
    HTC_SERVICE_CONNECT_REQ \<Rightarrow> HTC_SERVICE_CONNECT_RESP \<Rightarrow> HTC_TARGET \<Rightarrow>
    (A_STATUS \<times> HTC_SERVICE_CONNECT_RESP \<times> HTC_TARGET) option" where
  "HTCConnectService E S early arrivals req resp t =
    (if req_ServiceID req = HTC_CTRL_RSVD_SVC
     then setup_endpoint S req ENDPOINT_0 HTC_MAX_CONTROL_MESSAGE_LENGTH 0 False resp t
     else
       let txAlloc = HTCGetCreditAllocation t (req_ServiceID req);
           disable = ConnectionFlags req AND HTC_CONNECT_FLAGS_DISABLE_CREDIT_FLOW_CTRL \<noteq> 0
       in case HTCAllocControlTxPacket S t of
         (None, t) \<Rightarrow> Some (A_NO_MEMORY, resp, t)
       | (Some p, t) \<Rightarrow> do {
           msg \<leftarrow> connect_message req txAlloc;
           (st, t) \<leftarrow> HTCSendPkt E p (set_control_message p msg t);
           if st \<noteq> A_OK then Some (st, resp, t)
           else do {
             t \<leftarrow> rx_all E early t;
             (st, t) \<leftarrow> HTCWaitRecvCtrlMessage E arrivals t;
             if st \<noteq> A_OK then Some (st, resp, t)
             else connect_response S req txAlloc disable resp t } })"

section \<open>Start and stop\<close>

definition reset_endpoint :: "nat \<Rightarrow> HTC_ENDPOINT \<Rightarrow> HTC_ENDPOINT" where
  "reset_endpoint i ep = ep\<lparr>ServiceID := 0, MaxMsgLength := 0, MaxTxQueueDepth := 0, Id := i, TxQueue := [],
     TxLookupQueue := [], RxBufferHoldQueue := [], TxCreditFlowEnabled := True, TxProcessCount := 0\<rparr>"

definition ResetEndpointStates :: "HTC_TARGET \<Rightarrow> HTC_TARGET" where
  "ResetEndpointStates t = fold (\<lambda>i. upd_ep i (reset_endpoint i)) [ENDPOINT_0..<ENDPOINT_MAX] t"

definition ready_fields :: "u8 list \<Rightarrow> (u32 \<times> u32 \<times> u32 \<times> u32 \<times> u32) option" where
  "ready_fields buf = do {
     mid \<leftarrow> HTC_GET_FIELD buf HTC_READY_MSG_MESSAGEID;
     cc \<leftarrow> HTC_GET_FIELD buf HTC_READY_MSG_CREDITCOUNT;
     cs \<leftarrow> HTC_GET_FIELD buf HTC_READY_MSG_CREDITSIZE;
     mb \<leftarrow> HTC_GET_FIELD buf HTC_READY_EX_MSG_MAXMSGSPERHTCBUNDLE;
     ac \<leftarrow> HTC_GET_FIELD buf HTC_READY_EX_MSG_ALTDATACREDITSIZE;
     Some (mid, cc, cs, mb, ac) }"

text \<open>HTCWaitTarget; \<open>cb\<close> are the callbacks of the pseudo control service. \<^verbatim>\<open>HIFStart\<close> always succeeds on SDIO.\<close>

definition HTCWaitTarget :: "htc_env \<Rightarrow> htc_setup_env \<Rightarrow> HTC_EP_CALLBACKS \<Rightarrow> addr list \<Rightarrow> HTC_TARGET \<Rightarrow>
    (A_STATUS \<times> HTC_TARGET) option" where
  "HTCWaitTarget E S cb arrivals t = do {
     (st, t) \<leftarrow> HTCWaitRecvCtrlMessage E arrivals t;
     if st \<noteq> A_OK then Some (st, t)
     else if CtrlResponseLength t < sizeof_HTC_READY_EX_MSG then Some (A_ECOMM, t)
     else do {
       (mid, cc, cs, mb, ac) \<leftarrow> ready_fields (CtrlResponseBuffer t);
       if mid \<noteq> HTC_MSG_READY_ID then Some (A_ECOMM, t)
       else do {
         let t = t\<lparr>TotalTransmitCredits := int (unat cc), TargetCreditSize := unat cs,
                   MaxMsgsPerHTCBundle := (if (ucast mb :: u8) < 1 then 1 else ucast mb),
                   AltDataCreditSize := ucast ac\<rparr>;
         if TotalTransmitCredits t = 0 \<or> TargetCreditSize t = 0 then Some (A_ECOMM, t)
         else do {
           t \<leftarrow> HTCSetupTargetBufferAssignments S (t\<lparr>CtrlResponseProcessing := False\<rparr>);
           (st, _, t) \<leftarrow> HTCConnectService E S [] []
             \<lparr>req_ServiceID = HTC_CTRL_RSVD_SVC, ConnectionFlags = 0, pMetaData = None, MetaDataLength = 0,
              EpCallbacks = cb, MaxSendQueueDepth = NUM_CONTROL_TX_BUFFERS\<rparr>
             \<lparr>resp_pMetaData = None, BufferLength = 0, resp_ActualLength = 0, resp_Endpoint = 0,
              resp_MaxMsgLength = 0, ConnectRespCode = 0\<rparr> t;
           Some (st, t) } } } }"

definition setup_complete_message :: "HTC_TARGET \<Rightarrow> u8 list option" where
  "setup_complete_message t = do {
     msg \<leftarrow> HTC_SET_FIELD (replicate sizeof_HTC_SETUP_COMPLETE_EX_MSG 0)
             HTC_SETUP_COMPLETE_EX_MSG_MESSAGEID HTC_MSG_SETUP_COMPLETE_EX_ID;
     msg \<leftarrow> (if HTC_ENABLE_BUNDLE t then write32 msg 4 HTC_SETUP_COMPLETE_FLAGS_ENABLE_BUNDLE_RECV
            else Some msg);
     wr msg 8 (word_of_nat HTC_MAX_MSG_PER_BUNDLE_RX) }"

definition HTCStart :: "htc_env \<Rightarrow> htc_setup_env \<Rightarrow> HTC_TARGET \<Rightarrow> (A_STATUS \<times> HTC_TARGET) option" where
  "HTCStart E S t = (case HTCAllocControlTxPacket S t of
     (None, t) \<Rightarrow> Some (A_NO_MEMORY, t)
   | (Some p, t) \<Rightarrow> do {
       msg \<leftarrow> setup_complete_message t;
       HTCSendPkt E p (set_control_message p msg t) })"

text \<open>HTCStop and HTCFlushSurpriseRemove do the same to the state: \<^verbatim>\<open>HIFStop\<close> completes nothing on SDIO.\<close>

definition flush_endpoints :: "HTC_TARGET \<Rightarrow> HTC_TARGET" where
  "flush_endpoints t = fold (\<lambda>i t. HTCFlushEndpointTX i (HTCFlushRxHoldQueue i t)) [0..<ENDPOINT_MAX] t"

definition HTCStop :: "HTC_TARGET \<Rightarrow> HTC_TARGET" where
  "HTCStop t = ResetEndpointStates (flush_endpoints t)"

definition HTCFlushSurpriseRemove :: "HTC_TARGET \<Rightarrow> HTC_TARGET" where
  "HTCFlushSurpriseRemove t = ResetEndpointStates (flush_endpoints t)"

text \<open>
  HTCCreate, from the memory it allocates: the target cleared (but for the memory of packets and
  buffers), the containers that could be allocated in the pool, the pipes of endpoint 0.
\<close>

definition zero_endpoint :: HTC_ENDPOINT where
  "zero_endpoint = \<lparr>Id = 0, ServiceID = 0,
     EpCallBacks = \<lparr>EpTxCompleteMultiple = False, EpRecv = False, EpRecvPktMultiple = False,
       EpSendFull = None, EpResumeTxQueue = False\<rparr>,
     TxQueue = [], MaxTxQueueDepth = 0, MaxMsgLength = 0, UL_PipeID = 0, DL_PipeID = 0,
     ul_is_polled = False, ul_poll_timer_active = False, ul_outstanding_cnt = 0, TxLookupQueue = [],
     RxBufferHoldQueue = [], SeqNo = 0, TxProcessCount = 0, TxCredits = 0, TxCreditSize = 0,
     TxCreditsPerMaxMsg = 0, TxCreditFlowEnabled = False\<rparr>"

definition zero_target :: "HTC_TARGET \<Rightarrow> HTC_TARGET" where
  "zero_target t = t\<lparr>EndPoint := (\<lambda>_. zero_endpoint), HTCStateFlags := 0, pHTCPacketStructPool := [],
     CtrlResponseBuffer := replicate HTC_MAX_CONTROL_MESSAGE_LENGTH 0, CtrlResponseLength := 0,
     CtrlResponseValid := False, CtrlResponseProcessing := False, TotalTransmitCredits := 0,
     ServiceTxAllocTable := replicate HTC_MAX_SERVICE_ALLOC_ENTRIES (0, 0), TargetCreditSize := 0,
     pBundleFreeTxList := [], CE_send_cnt := 0, TX_comp_cnt := 0, MaxMsgsPerHTCBundle := 0,
     AltDataCreditSize := 0, htc_get_pkt_q_fail_count := 0, htc_pkt_q_empty_count := 0,
     htc_send_q_empty_count := 0\<rparr>"

definition HTCCreate :: "(nat \<Rightarrow> addr option) \<Rightarrow> HTC_TARGET \<Rightarrow> HTC_TARGET" where
  "HTCCreate malloc t =
    (let t = ResetEndpointStates (zero_target t);
         t = fold (\<lambda>i t. case malloc i of None \<Rightarrow> t | Some p \<Rightarrow> FreeHTCPacketContainer p t)
               [0..<HTC_PACKET_CONTAINER_ALLOCATION] t;
         (_, pipes) = HIFMapServiceToPipe False HTC_CTRL_RSVD_SVC
     in case pipes of None \<Rightarrow> t
        | Some (ul, dl) \<Rightarrow> upd_ep ENDPOINT_0 (\<lambda>ep. ep\<lparr>UL_PipeID := ul, DL_PipeID := dl\<rparr>) t)"

end
