(* ===== verification/Htc_Inv.thy ===== *)
theory Htc_Inv
  imports Htc_Setup "HOL-Library.Multiset"
begin

text \<open>
  What is always true of the send side of HTC: where the packets of the clients are, the containers of
  bundles, the buffers and the credits. \<open>wf E H Q t\<close> says it while an operation has the container \<open>H\<close>
  and the packets \<open>Q\<close> in hand; the lemmas of this theory say how the single steps of the operations
  move packets from one place to another.
\<close>

section \<open>Places\<close>

definition is_bundle :: "HTC_TARGET \<Rightarrow> addr \<Rightarrow> bool" where
  "is_bundle t p \<longleftrightarrow> Tag (packets t p) = HTC_TX_PACKET_TAG_BUNDLED"

text \<open>The client packets an entry of a lookup queue stands for, and all an endpoint has issued.\<close>

definition carried :: "HTC_TARGET \<Rightarrow> addr \<Rightarrow> addr list" where
  "carried t p = (if is_bundle t p then pQueueSave (packets t p) else [p])"

definition outstanding :: "HTC_TARGET \<Rightarrow> nat \<Rightarrow> addr list" where
  "outstanding t e = concat (map (carried t) (TxLookupQueue (EndPoint t e)))"

definition ep_places :: "HTC_TARGET \<Rightarrow> nat \<Rightarrow> addr multiset" where
  "ep_places t e = mset (outstanding t e) + mset (TxQueue (EndPoint t e))"

definition places :: "HTC_TARGET \<Rightarrow> addr multiset" where
  "places t = (\<Sum>e<ENDPOINT_MAX. ep_places t e)"

definition in_hand :: "addr option \<Rightarrow> addr list \<Rightarrow> HTC_TARGET \<Rightarrow> addr multiset" where
  "in_hand H Q t = mset Q + (case H of None \<Rightarrow> {#} | Some tx \<Rightarrow> mset (pQueueSave (packets t tx)))"

text \<open>The packets given back to their clients, in order.\<close>

fun done_call :: "htc_call \<Rightarrow> addr list" where
  "done_call (CallTxComplete e p st) = [p]"
| "done_call (CallTxCompleteMultiple e ps) = map fst ps"
| "done_call _ = []"

definition tx_done :: "HTC_TARGET \<Rightarrow> addr list" where
  "tx_done t = concat (map done_call (calls t))"

lemma places_change:
  assumes "e < ENDPOINT_MAX" and "\<And>e'. e' \<noteq> e \<Longrightarrow> ep_places t' e' = ep_places t e'"
  shows "places t' + ep_places t e = places t + ep_places t' e"
proof -
  have s: "places s = ep_places s e + (\<Sum>e' \<in> {..<ENDPOINT_MAX} - {e}. ep_places s e')" for s
    unfolding places_def using assms(1) by (simp add: sum.remove)
  have "(\<Sum>e' \<in> {..<ENDPOINT_MAX} - {e}. ep_places t' e') = (\<Sum>e' \<in> {..<ENDPOINT_MAX} - {e}. ep_places t e')"
    by (rule sum.cong) (use assms(2) in auto)
  then show ?thesis using s [of t] s [of t'] by simp
qed

lemma places_mem: "e < ENDPOINT_MAX \<Longrightarrow> p \<in># ep_places t e \<Longrightarrow> p \<in># places t"
proof -
  assume "e < ENDPOINT_MAX" and p: "p \<in># ep_places t e"
  then have "places t = ep_places t e + (\<Sum>e' \<in> {..<ENDPOINT_MAX} - {e}. ep_places t e')"
    unfolding places_def by (simp add: sum.remove)
  with p show ?thesis by simp
qed

section \<open>The invariant\<close>

text \<open>The containers the memory allocator may ever return, and those it has returned.\<close>

definition containers :: "htc_env \<Rightarrow> addr set" where
  "containers E = {p. \<exists>n nb. new_bundle E n = Some (p, nb)}"

definition allocated :: "htc_env \<Rightarrow> nat \<Rightarrow> addr set" where
  "allocated E n = {p. \<exists>m nb. m < n \<and> new_bundle E m = Some (p, nb)}"

definition env_ok :: "htc_env \<Rightarrow> bool" where
  "env_ok E \<longleftrightarrow> (\<forall>m n p a b. new_bundle E m = Some (p, a) \<longrightarrow> new_bundle E n = Some (p, b) \<longrightarrow> m = n)"

definition room :: "HTC_TARGET \<Rightarrow> addr \<Rightarrow> bool" where
  "room t p \<longleftrightarrow> HTC_HDR_LENGTH \<le> length (hd (adf_nbuf_frags (pkt_nbuf t p))) \<and>
     unat (ActualLength (packets t p)) < 65536"

definition kinds :: "htc_env \<Rightarrow> addr option \<Rightarrow> HTC_TARGET \<Rightarrow> bool" where
  "kinds E H t \<longleftrightarrow>
     (\<forall>e. \<forall>p \<in> set (TxLookupQueue (EndPoint t e)).
        (is_bundle t p \<longrightarrow> p \<in> allocated E (allocs t) \<and> Endpoint (packets t p) = e) \<and>
        (\<not> is_bundle t p \<longrightarrow> p \<notin> containers E)) \<and>
     (\<forall>e. distinct (filter (is_bundle t) (TxLookupQueue (EndPoint t e)))) \<and>
     distinct (pBundleFreeTxList t) \<and>
     (\<forall>p \<in> set (pBundleFreeTxList t). p \<in> allocated E (allocs t) \<and> pQueueSave (packets t p) = [] \<and>
        (\<forall>e. p \<notin> set (TxLookupQueue (EndPoint t e)))) \<and>
     (\<forall>tx. H = Some tx \<longrightarrow> tx \<in> allocated E (allocs t) \<and> tx \<notin> set (pBundleFreeTxList t) \<and>
        (\<forall>e. tx \<notin> set (TxLookupQueue (EndPoint t e))))"

definition clients :: "htc_env \<Rightarrow> addr option \<Rightarrow> addr list \<Rightarrow> HTC_TARGET \<Rightarrow> bool" where
  "clients E H Q t \<longleftrightarrow>
     (\<forall>p. p \<in># places t + in_hand H Q t \<longrightarrow> p \<notin> containers E \<and> \<not> is_bundle t p) \<and>
     (\<forall>p. count (places t + in_hand H Q t) p \<le> 1) \<and>
     inj_on (GET_HTC_PACKET_NET_BUF_CONTEXT t) (set_mset (places t + in_hand H Q t)) \<and>
     (\<forall>e<ENDPOINT_MAX. \<forall>p \<in> set (TxQueue (EndPoint t e)). room t p) \<and> (\<forall>p \<in> set Q. room t p)"

definition eps :: "HTC_TARGET \<Rightarrow> bool" where
  "eps t \<longleftrightarrow> (\<forall>e<ENDPOINT_MAX. Id (EndPoint t e) = e \<and> 0 \<le> TxCredits (EndPoint t e) \<and>
     (TxQueue (EndPoint t e) \<noteq> [] \<longrightarrow> 0 < TxCreditSize (EndPoint t e)))"

definition wf :: "htc_env \<Rightarrow> addr option \<Rightarrow> addr list \<Rightarrow> HTC_TARGET \<Rightarrow> bool" where
  "wf E H Q t \<longleftrightarrow> kinds E H t \<and> clients E H Q t \<and> eps t"

lemma wfD:
  assumes "wf E H Q t"
  shows "kinds E H t" "clients E H Q t" "eps t"
  using assms by (auto simp: wf_def)

text \<open>What an operation that issues packets leaves alone of the client packets.\<close>

definition same_clients :: "htc_env \<Rightarrow> HTC_TARGET \<Rightarrow> HTC_TARGET \<Rightarrow> bool" where
  "same_clients E t t' \<longleftrightarrow> (\<forall>p. p \<notin> containers E \<longrightarrow>
     Tag (packets t' p) = Tag (packets t p) \<and> CreditsUsed (packets t' p) = CreditsUsed (packets t p) \<and>
     ActualLength (packets t' p) = ActualLength (packets t p) \<and> Endpoint (packets t' p) = Endpoint (packets t p) \<and>
     pNetBufContext (packets t' p) = pNetBufContext (packets t p))"

lemma same_clients_refl [simp]: "same_clients E t t"
  by (simp add: same_clients_def)

lemma same_clients_trans: "same_clients E t t' \<Longrightarrow> same_clients E t' t'' \<Longrightarrow> same_clients E t t''"
  by (simp add: same_clients_def)

lemma allocated_mono: "m \<le> n \<Longrightarrow> p \<in> allocated E m \<Longrightarrow> p \<in> allocated E n"
  by (auto simp: allocated_def intro: less_le_trans)

lemma allocated_container: "p \<in> allocated E n \<Longrightarrow> p \<in> containers E"
  by (auto simp: allocated_def containers_def)

lemma fresh_not_allocated: "env_ok E \<Longrightarrow> new_bundle E n = Some (p, nb) \<Longrightarrow> p \<notin> allocated E n"
  by (auto simp: env_ok_def allocated_def)

lemma fresh_allocated: "new_bundle E n = Some (p, nb) \<Longrightarrow> p \<in> allocated E (Suc n)"
  by (auto simp: allocated_def)

text \<open>Two states with the same queues, and the same containers in the lookup queues, have the same places.\<close>

lemma outstanding_cong:
  assumes "TxLookupQueue (EndPoint t' e) = TxLookupQueue (EndPoint t e)"
    and "\<And>p. p \<in> set (TxLookupQueue (EndPoint t e)) \<Longrightarrow>
      Tag (packets t' p) = Tag (packets t p) \<and> pQueueSave (packets t' p) = pQueueSave (packets t p)"
  shows "outstanding t' e = outstanding t e"
  using assms by (auto simp: outstanding_def carried_def is_bundle_def intro!: arg_cong [where f = concat] map_cong)

lemma places_cong:
  assumes "\<And>e. TxLookupQueue (EndPoint t' e) = TxLookupQueue (EndPoint t e) \<and> TxQueue (EndPoint t' e) = TxQueue (EndPoint t e)"
    and "\<And>e p. p \<in> set (TxLookupQueue (EndPoint t e)) \<Longrightarrow>
      Tag (packets t' p) = Tag (packets t p) \<and> pQueueSave (packets t' p) = pQueueSave (packets t p)"
  shows "places t' = places t"
proof -
  have "ep_places t' e = ep_places t e" for e
    using outstanding_cong [of t' e t] assms by (simp add: ep_places_def)
  then show ?thesis by (simp add: places_def)
qed

text \<open>A state that differs only in what the invariant does not mention.\<close>

lemma wf_cong:
  assumes "wf E H Q t"
    and "\<And>e. TxLookupQueue (EndPoint t' e) = TxLookupQueue (EndPoint t e) \<and> TxQueue (EndPoint t' e) = TxQueue (EndPoint t e)
       \<and> Id (EndPoint t' e) = Id (EndPoint t e) \<and> (e < ENDPOINT_MAX \<longrightarrow> 0 \<le> TxCredits (EndPoint t' e))
       \<and> TxCreditSize (EndPoint t' e) = TxCreditSize (EndPoint t e)"
    and "\<And>p. Tag (packets t' p) = Tag (packets t p) \<and> pQueueSave (packets t' p) = pQueueSave (packets t p) \<and>
       ActualLength (packets t' p) = ActualLength (packets t p) \<and> Endpoint (packets t' p) = Endpoint (packets t p) \<and>
       pNetBufContext (packets t' p) = pNetBufContext (packets t p)"
    and "pBundleFreeTxList t' = pBundleFreeTxList t" and "allocs t' = allocs t"
    and "\<And>p. p \<in># places t + in_hand H Q t \<Longrightarrow> room t p \<Longrightarrow> room t' p"
  shows "wf E H Q t'" and "places t' = places t" and "in_hand H Q t' = in_hand H Q t"
proof -
  show pl: "places t' = places t" using assms(2,3) by (intro places_cong) auto
  show ih: "in_hand H Q t' = in_hand H Q t" using assms(3) by (simp add: in_hand_def split: option.split)
  have b: "is_bundle t' = is_bundle t" "GET_HTC_PACKET_NET_BUF_CONTEXT t' = GET_HTC_PACKET_NET_BUF_CONTEXT t"
    using assms(3) by (auto simp: is_bundle_def GET_HTC_PACKET_NET_BUF_CONTEXT_def fun_eq_iff)
  have k: "kinds E H t'"
    using wfD(1) [OF assms(1)] assms(2-5) unfolding kinds_def b by simp
  have q: "p \<in># places t" if "e < ENDPOINT_MAX" "p \<in> set (TxQueue (EndPoint t e))" for e p
    using that by (intro places_mem) (auto simp: ep_places_def)
  have i: "p \<in># in_hand H Q t" if "p \<in> set Q" for p using that by (simp add: in_hand_def)
  have c: "clients E H Q t'"
    using wfD(2) [OF assms(1)] assms(2,6) q i unfolding clients_def b pl ih by auto
  have "eps t'" using wfD(3) [OF assms(1)] assms(2) by (simp add: eps_def)
  with k c show "wf E H Q t'" by (simp add: wf_def)
qed

end
