(* ===== verification/Htc_Steps.thy ===== *)
theory Htc_Steps
  imports Htc_Inv
begin

text \<open>
  The steps of the send operations of HTC and the invariant: header writes, containers, sending one
  packet or a bundle, completing a packet, taking packets from a queue.
\<close>

section \<open>Buffers\<close>

lemma length_le32 [simp]: "length (le32 v) = 4"
  by (simp add: le32_def)

lemma write32_Some: "i + 4 \<le> length buf \<Longrightarrow> write32 buf i v = Some (take i buf @ le32 v @ drop (i + 4) buf)"
  by (simp add: write32_def)

lemma write32_length: "write32 buf i v = Some buf' \<Longrightarrow> length buf' = length buf"
  by (auto simp: write32_def split: if_splits)

lemma HTC_WRITE32_length:
  "HTC_WRITE32 i v b = Some b' \<Longrightarrow> map length (adf_nbuf_frags b') = map length (adf_nbuf_frags b)"
  by (auto simp: HTC_WRITE32_def adf_nbuf_frags_def split: list.splits Option.bind_splits dest: write32_length)

lemma HTC_WRITE32_defined:
  "4 * i + 4 \<le> length (hd (adf_nbuf_frags b)) \<Longrightarrow> \<exists>b'. HTC_WRITE32 i v b = Some b'"
  by (auto simp: HTC_WRITE32_def adf_nbuf_frags_def write32_def split: list.splits)

lemma map_length_hd: "map length xs = map length ys \<Longrightarrow> xs \<noteq> [] \<Longrightarrow> length (hd xs) = length (hd ys)"
  by (cases xs; cases ys) auto

lemma frags_nonempty [simp]: "adf_nbuf_frags b \<noteq> []"
  by (simp add: adf_nbuf_frags_def)

lemma write_hdr_defined:
  assumes "HTC_HDR_LENGTH \<le> length (hd (adf_nbuf_frags b))"
  shows "\<exists>b'. write_hdr w0 w1 b = Some b' \<and> map length (adf_nbuf_frags b') = map length (adf_nbuf_frags b)"
proof -
  obtain b1 where b1: "HTC_WRITE32 0 w0 b = Some b1"
    using HTC_WRITE32_defined [of 0 b w0] assms by (auto simp: HTC_HDR_LENGTH_def)
  note l1 = HTC_WRITE32_length [OF b1]
  have "length (hd (adf_nbuf_frags b1)) = length (hd (adf_nbuf_frags b))" using map_length_hd [OF l1] by simp
  then obtain b2 where b2: "HTC_WRITE32 1 w1 b1 = Some b2"
    using HTC_WRITE32_defined [of 1 b1 w1] assms by (auto simp: HTC_HDR_LENGTH_def)
  show ?thesis using b1 b2 l1 HTC_WRITE32_length [OF b2] by (simp add: write_hdr_def)
qed

lemma room_set_nb:
  "room t p \<Longrightarrow> (a = pNetBufContext (packets t p) \<Longrightarrow> HTC_HDR_LENGTH \<le> length (hd (adf_nbuf_frags b))) \<Longrightarrow>
     room (set_nb a b t) p"
  by (simp add: room_def set_nb_def GET_HTC_PACKET_NET_BUF_CONTEXT_def)

lemma room_cong:
  "room t p \<Longrightarrow> ActualLength (packets t' p) = ActualLength (packets t p) \<Longrightarrow>
     pNetBufContext (packets t' p) = pNetBufContext (packets t p) \<Longrightarrow> nbufs t' = nbufs t \<Longrightarrow> room t' p"
  by (simp add: room_def GET_HTC_PACKET_NET_BUF_CONTEXT_def)

lemma room_eq: "packets t' = packets t \<Longrightarrow> nbufs t' = nbufs t \<Longrightarrow> room t' = room t"
  by (simp add: room_def GET_HTC_PACKET_NET_BUF_CONTEXT_def fun_eq_iff)

lemma room_at: "packets t' p = packets t p \<Longrightarrow> nbufs t' = nbufs t \<Longrightarrow> room t' p = room t p"
  by (simp add: room_def GET_HTC_PACKET_NET_BUF_CONTEXT_def)

lemma frame_len_room: "room t p \<Longrightarrow> frame_len t p = unat (ActualLength (packets t p)) + HTC_HDR_LENGTH"
  by (simp add: room_def frame_len_def HTC_HDR_LENGTH_def unat_word_ariths)

lemma copy_frags_nonempty: "f \<noteq> [] \<Longrightarrow> 0 < n \<Longrightarrow> copy_frags (f # fs) n \<noteq> []"
  by simp

section \<open>Keeping the invariant\<close>

lemma clients_cong:
  assumes "clients E H Q t"
    and sub: "places t' + in_hand H' Q' t' \<subseteq># places t + in_hand H Q t"
    and same: "\<And>p. p \<notin> containers E \<Longrightarrow> Tag (packets t' p) = Tag (packets t p) \<and>
        pNetBufContext (packets t' p) = pNetBufContext (packets t p)"
    and "\<And>e p. e < ENDPOINT_MAX \<Longrightarrow> p \<in> set (TxQueue (EndPoint t' e)) \<Longrightarrow> room t' p"
    and "\<And>p. p \<in> set Q' \<Longrightarrow> room t' p"
  shows "clients E H' Q' t'"
proof -
  have m: "p \<in># places t + in_hand H Q t" if "p \<in># places t' + in_hand H' Q' t'" for p
    using sub that by (rule mset_subset_eqD)
  have 1: "\<forall>p. p \<in># places t' + in_hand H' Q' t' \<longrightarrow> p \<notin> containers E \<and> \<not> is_bundle t' p"
    using assms(1) m same unfolding clients_def is_bundle_def by metis
  have 2: "\<forall>p. count (places t' + in_hand H' Q' t') p \<le> 1"
    using assms(1) mset_subset_eq_count [OF sub] unfolding clients_def by (meson order_trans)
  have i: "inj_on (GET_HTC_PACKET_NET_BUF_CONTEXT t) (set_mset (places t' + in_hand H' Q' t'))"
    using assms(1) set_mset_mono [OF sub] unfolding clients_def by (meson inj_on_subset)
  have "GET_HTC_PACKET_NET_BUF_CONTEXT t' p = GET_HTC_PACKET_NET_BUF_CONTEXT t p"
    if "p \<in># places t' + in_hand H' Q' t'" for p
    using 1 [rule_format, OF that] same [of p] by (simp add: GET_HTC_PACKET_NET_BUF_CONTEXT_def)
  then have "inj_on (GET_HTC_PACKET_NET_BUF_CONTEXT t') (set_mset (places t' + in_hand H' Q' t'))"
    using i by (simp add: inj_on_def)
  with 1 2 assms(4,5) show ?thesis unfolding clients_def by blast
qed

lemma queue_in_places: "e < ENDPOINT_MAX \<Longrightarrow> p \<in> set (TxQueue (EndPoint t e)) \<Longrightarrow> p \<in># places t"
  by (rule places_mem) (auto simp: ep_places_def)

lemma kinds_lookup:
  "kinds E H t \<Longrightarrow> p \<in> set (TxLookupQueue (EndPoint t e)) \<Longrightarrow>
     (is_bundle t p \<longrightarrow> p \<in> allocated E (allocs t) \<and> Endpoint (packets t p) = e) \<and>
     (\<not> is_bundle t p \<longrightarrow> p \<notin> containers E)"
  by (simp add: kinds_def)

lemma wf_client:
  assumes "wf E H Q t" and "p \<in># places t + in_hand H Q t"
  shows "p \<notin> containers E" and "\<not> is_bundle t p"
  using assms by (auto simp: wf_def clients_def)

lemma wf_hand: "wf E H Q t \<Longrightarrow> p \<in> set Q \<Longrightarrow> p \<notin> containers E \<and> \<not> is_bundle t p \<and> room t p"
  by (auto simp: wf_def clients_def in_hand_def)

lemma wf_queue_room: "wf E H Q t \<Longrightarrow> e < ENDPOINT_MAX \<Longrightarrow> p \<in> set (TxQueue (EndPoint t e)) \<Longrightarrow> room t p"
  by (auto simp: wf_def clients_def)

lemma wf_netbuf:
  assumes "wf E H Q t" and "p \<in># places t + in_hand H Q t" and "q \<in># places t + in_hand H Q t"
    and "GET_HTC_PACKET_NET_BUF_CONTEXT t p = GET_HTC_PACKET_NET_BUF_CONTEXT t q"
  shows "p = q"
  using assms by (auto simp: wf_def clients_def dest: inj_onD)

section \<open>Containers\<close>

text \<open>What the steps with a container leave alone.\<close>

definition undisturbed :: "htc_env \<Rightarrow> HTC_TARGET \<Rightarrow> HTC_TARGET \<Rightarrow> bool" where
  "undisturbed E t t' \<longleftrightarrow> EndPoint t' = EndPoint t \<and> xfers t' = xfers t \<and> calls t' = calls t \<and>
     MaxMsgsPerHTCBundle t' = MaxMsgsPerHTCBundle t \<and> HTCStateFlags t' = HTCStateFlags t \<and> same_clients E t t'"

lemma quiet_refl [simp]: "undisturbed E t t"
  by (simp add: undisturbed_def)

lemma quiet_trans: "undisturbed E t t' \<Longrightarrow> undisturbed E t' t'' \<Longrightarrow> undisturbed E t t''"
  using same_clients_trans by (fastforce simp: undisturbed_def)

lemma alloc_bundle:
  assumes w: "wf E None Q t" and E: "env_ok E" and a: "AllocateHTCBundleTxPacket E t = (r, t')"
  shows "wf E r Q t' \<and> undisturbed E t t' \<and> places t' = places t \<and> send_calls t' = send_calls t \<and> (\<forall>tx. r = Some tx \<longrightarrow> pQueueSave (packets t' tx) = [])"
proof -
  note k = wfD(1) [OF w, unfolded kinds_def]
  have eps: "eps t' = eps t" if "EndPoint t' = EndPoint t" using that by (simp add: eps_def)
  consider (free) p ps where "pBundleFreeTxList t = p # ps" "r = Some p" "t' = t\<lparr>pBundleFreeTxList := ps\<rparr>"
    | (none) "r = None" "t' = t\<lparr>allocs := allocs t + 1\<rparr>"
    | (new) p nb where "pBundleFreeTxList t = []" "new_bundle E (allocs t) = Some (p, nb)" "r = Some p"
        "t' = upd_pkt p (\<lambda>k. k\<lparr>pQueueSave := [], pNetBufContext := nb\<rparr>) (t\<lparr>allocs := allocs t + 1\<rparr>)"
    using a by (auto simp: AllocateHTCBundleTxPacket_def split: list.splits option.splits prod.splits)
  then show ?thesis
  proof cases
    case free
    have same: "EndPoint t' = EndPoint t" "packets t' = packets t" "nbufs t' = nbufs t" using free by auto
    have pl: "places t' = places t" using same by (intro places_cong) auto
    have e: "pQueueSave (packets t p) = []" using k free by auto
    have b: "is_bundle t' = is_bundle t" using same by (simp add: is_bundle_def fun_eq_iff)
    have "kinds E (Some p) t'" using k free unfolding kinds_def b by auto
    moreover have "clients E (Some p) Q t'"
      by (rule clients_cong [OF wfD(2) [OF w]])
        (use pl same e wf_queue_room [OF w] wf_hand [OF w] room_eq [OF same(2,3)] in \<open>auto simp: in_hand_def\<close>)
    moreover have "eps t'" using eps same wfD(3) [OF w] by simp
    ultimately show ?thesis using free pl same e by (simp add: wf_def undisturbed_def same_clients_def)
  next
    case none
    have same: "EndPoint t' = EndPoint t" "packets t' = packets t" "nbufs t' = nbufs t" using none by auto
    have pl: "places t' = places t" using same by (intro places_cong) auto
    have b: "is_bundle t' = is_bundle t" using same by (simp add: is_bundle_def fun_eq_iff)
    have "kinds E None t'" using k none unfolding kinds_def b by (auto intro: allocated_mono [of "allocs t"])
    moreover have "clients E None Q t'"
      by (rule clients_cong [OF wfD(2) [OF w]])
        (use pl same wf_queue_room [OF w] wf_hand [OF w] room_eq [OF same(2,3)] in \<open>auto simp: in_hand_def\<close>)
    moreover have "eps t'" using eps same wfD(3) [OF w] by simp
    ultimately show ?thesis using none pl same by (simp add: wf_def undisturbed_def same_clients_def)
  next
    case new
    have fresh: "p \<notin> allocated E (allocs t)" "p \<in> containers E" "p \<in> allocated E (Suc (allocs t))"
      using fresh_not_allocated [OF E new(2)] fresh_allocated [OF new(2)] new(2) by (auto simp: containers_def)
    have nl: "p \<notin> set (TxLookupQueue (EndPoint t e))" for e
      using kinds_lookup [OF wfD(1) [OF w], of p e] fresh(1,2) by (auto split: if_splits)
    have same: "EndPoint t' = EndPoint t" "nbufs t' = nbufs t"
      "\<And>q. q \<noteq> p \<Longrightarrow> packets t' q = packets t q" "pQueueSave (packets t' p) = []"
      using new by (auto simp: upd_pkt_def)
    have pl: "places t' = places t" using same nl by (intro places_cong) metis+
    have b: "is_bundle t' q = is_bundle t q" for q using new by (auto simp: is_bundle_def upd_pkt_def)
    have "kinds E (Some p) t'"
      using k new nl fresh same b unfolding kinds_def b
      by (auto simp: upd_pkt_def intro: allocated_mono [of "allocs t"])
    moreover have "clients E (Some p) Q t'"
    proof (rule clients_cong [OF wfD(2) [OF w]])
      have np: "p \<noteq> q" if "q \<in># places t + in_hand None Q t" for q using wf_client(1) [OF w that] fresh by auto
      show "places t' + in_hand (Some p) Q t' \<subseteq># places t + in_hand None Q t"
        using pl same by (simp add: in_hand_def)
      show "Tag (packets t' q) = Tag (packets t q) \<and> pNetBufContext (packets t' q) = pNetBufContext (packets t q)"
        if "q \<notin> containers E" for q using that fresh same by (metis)
      have r: "room t' q = room t q" if "q \<in># places t + in_hand None Q t" for q
        by (rule room_at) (use np [OF that] same(2,3) in metis)+
      show "room t' q" if "e < ENDPOINT_MAX" "q \<in> set (TxQueue (EndPoint t' e))" for e q
        using that same(1) r queue_in_places [of e q t] wf_queue_room [OF w, of e q] by simp
      show "room t' q" if "q \<in> set Q" for q
        using wf_hand [OF w that] r [of q] that by (simp add: in_hand_def)
    qed
    moreover have "eps t'" using eps same wfD(3) [OF w] by simp
    moreover have "packets t' q = packets t q" if "q \<notin> containers E" for q
      using that fresh(2) same(3) by metis
    then have "same_clients E t t'" by (simp add: same_clients_def)
    ultimately show ?thesis using new pl same by (simp add: wf_def undisturbed_def upd_pkt_def)
  qed
qed

text \<open>A step that writes to a buffer and to containers only.\<close>

lemma same_clientsI:
  "(\<And>p. p \<notin> containers E \<Longrightarrow> packets t' p = packets t p) \<Longrightarrow> same_clients E t t'"
  by (simp add: same_clients_def)

lemma frags_hd_length: "map length (adf_nbuf_frags b') = map length (adf_nbuf_frags b) \<Longrightarrow>
  length (hd (adf_nbuf_frags b')) = length (hd (adf_nbuf_frags b))"
  by (rule map_length_hd) auto

lemma bundle_place_wf:
  assumes w: "wf E (Some tx) (p # Q) t"
  shows "\<exists>b t'. bundle_place p pad tx fr t = Some (fr @ [(b, pad)], t') \<and> b \<noteq> [] \<and>
    wf E (Some tx) Q t' \<and> places t' = places t \<and> undisturbed E t t' \<and>
    pQueueSave (packets t' tx) = pQueueSave (packets t tx) @ [p]"
proof -
  have p: "p \<notin> containers E" "room t p" using wf_hand [OF w, of p] by auto
  have tx: "tx \<in> allocated E (allocs t)" "tx \<notin> set (pBundleFreeTxList t)"
    "\<And>e. tx \<notin> set (TxLookupQueue (EndPoint t e))" using wfD(1) [OF w] by (auto simp: kinds_def)
  have txc: "tx \<in> containers E" using allocated_container tx(1) by blast
  let ?a = "GET_HTC_PACKET_NET_BUF_CONTEXT t p"
  obtain b where b: "write_hdr (htc_hdr_word0 (packets t p) (SendFlags (packets t p) OR HTC_FLAGS_SEND_BUNDLE))
      (htc_hdr_word1 (pkt_SeqNo (packets t p)) pad) (pkt_nbuf t p) = Some b"
    and bl: "map length (adf_nbuf_frags b) = map length (adf_nbuf_frags (pkt_nbuf t p))"
    using write_hdr_defined [of "pkt_nbuf t p"] p(2) by (auto simp: room_def)
  define t' where "t' = upd_pkt tx (\<lambda>x. x\<lparr>pQueueSave := pQueueSave x @ [p]\<rparr>) (set_nb ?a b t)"
  let ?bytes = "copy_frags (adf_nbuf_frags b) (frame_len (set_nb ?a b t) p)"
  have place: "bundle_place p pad tx fr t = Some (fr @ [(?bytes, pad)], t')"
    using b by (simp add: bundle_place_def Let_def t'_def frame_len_def upd_pkt_def set_nb_def)
  have hb: "HTC_HDR_LENGTH \<le> length (hd (adf_nbuf_frags b))"
    using frags_hd_length [OF bl] p(2) by (simp add: room_def)
  have nb: "?bytes \<noteq> []"
  proof -
    have "frame_len (set_nb ?a b t) p = frame_len t p" by (simp add: frame_len_def set_nb_def)
    then have "0 < frame_len (set_nb ?a b t) p" using frame_len_room [OF p(2)] by (simp add: HTC_HDR_LENGTH_def)
    moreover obtain f fs where "adf_nbuf_frags b = f # fs" using frags_nonempty by (meson neq_Nil_conv)
    ultimately show ?thesis using hb by (auto simp: HTC_HDR_LENGTH_def)
  qed
  have same: "EndPoint t' = EndPoint t" "pBundleFreeTxList t' = pBundleFreeTxList t" "allocs t' = allocs t"
    "\<And>q. q \<noteq> tx \<Longrightarrow> packets t' q = packets t q" "\<And>q. Tag (packets t' q) = Tag (packets t q)"
    "\<And>q. Endpoint (packets t' q) = Endpoint (packets t q)"
    "pQueueSave (packets t' tx) = pQueueSave (packets t tx) @ [p]"
    by (auto simp: t'_def upd_pkt_def set_nb_def)
  have cl: "packets t' q = packets t q" if "q \<notin> containers E" for q using that txc same(4) by metis
  have pl: "places t' = places t" using same(1,4) tx(3) by (intro places_cong) metis+
  have ih: "in_hand (Some tx) Q t' = in_hand (Some tx) (p # Q) t" using same(7) by (simp add: in_hand_def)
  have r: "room t' q" if "room t q" "q \<notin> containers E" for q
    using that hb cl [OF that(2)] by (auto simp: room_def t'_def upd_pkt_def set_nb_def GET_HTC_PACKET_NET_BUF_CONTEXT_def)
  have bu: "is_bundle t' = is_bundle t" using same(5) by (simp add: is_bundle_def fun_eq_iff)
  have "kinds E (Some tx) t'"
    using wfD(1) [OF w] tx(2) same unfolding kinds_def bu by (metis (no_types, lifting))
  moreover have "clients E (Some tx) Q t'"
  proof (rule clients_cong [OF wfD(2) [OF w]])
    show "places t' + in_hand (Some tx) Q t' \<subseteq># places t + in_hand (Some tx) (p # Q) t" using pl ih by simp
    show "Tag (packets t' q) = Tag (packets t q) \<and> pNetBufContext (packets t' q) = pNetBufContext (packets t q)"
      if "q \<notin> containers E" for q using cl [OF that] by simp
    show "room t' q" if "e < ENDPOINT_MAX" "q \<in> set (TxQueue (EndPoint t' e))" for e q
      using that same(1) r [of q] wf_queue_room [OF w, of e q] wf_client(1) [OF w, of q] queue_in_places [of e q t] by simp
    show "room t' q" if "q \<in> set Q" for q using that r [of q] wf_hand [OF w, of q] by simp
  qed
  moreover have "eps t'" using wfD(3) [OF w] same(1) by (simp add: eps_def)
  moreover have "undisturbed E t t'"
    using same(1) same_clientsI [of E t' t] cl by (auto simp: undisturbed_def t'_def upd_pkt_def set_nb_def)
  ultimately show ?thesis using place nb pl same(7) by (auto simp: wf_def)
qed

text \<open>A container that holds nothing goes back to the free list.\<close>

lemma free_bundle_wf:
  assumes w: "wf E (Some tx) Q t" and e: "pQueueSave (packets t tx) = []"
  shows "wf E None Q (FreeHTCBundleTxPacket tx t) \<and> places (FreeHTCBundleTxPacket tx t) = places t \<and>
    undisturbed E t (FreeHTCBundleTxPacket tx t)"
proof -
  define t' where "t' = FreeHTCBundleTxPacket tx t"
  have "(packets t tx)\<lparr>pQueueSave := []\<rparr> = packets t tx" using e by (cases "packets t tx") simp
  then have t': "t' = t\<lparr>packets := (packets t)(tx := packets t tx), pBundleFreeTxList := tx # pBundleFreeTxList t\<rparr>"
    by (simp add: t'_def FreeHTCBundleTxPacket_def upd_pkt_def Let_def)
  then have same: "EndPoint t' = EndPoint t" "packets t' = packets t" "nbufs t' = nbufs t" by auto
  have pl: "places t' = places t" using same by (intro places_cong) auto
  have b: "is_bundle t' = is_bundle t" using same by (simp add: is_bundle_def fun_eq_iff)
  have "kinds E None t'" using wfD(1) [OF w] e t' unfolding kinds_def b by auto
  moreover have "clients E None Q t'"
    by (rule clients_cong [OF wfD(2) [OF w]])
      (use pl same e wf_queue_room [OF w] wf_hand [OF w] room_eq [OF same(2,3)] in \<open>auto simp: in_hand_def\<close>)
  moreover have "eps t'" using wfD(3) [OF w] same by (simp add: eps_def)
  ultimately show ?thesis using pl same unfolding t'_def [symmetric]
    by (simp add: wf_def undisturbed_def same_clients_def t')
qed

section \<open>Issuing\<close>

text \<open>The credits of the transfers an endpoint has had accepted, and those of packets.\<close>

definition spent :: "HTC_TARGET \<Rightarrow> nat \<Rightarrow> int" where
  "spent t e = sum_list (map x_credits (filter (\<lambda>x. x_ep x = e) (xfers t)))"

definition charged :: "HTC_TARGET \<Rightarrow> addr list \<Rightarrow> int" where
  "charged t q = sum_list (map (\<lambda>p. CreditsUsed (packets t p)) q)"

text \<open>
  \<open>sends E e t t' S\<close>: between the two states the endpoint \<open>e\<close> has issued the packets \<open>S\<close>, at the end of
  what it has outstanding, and nothing else has happened.
\<close>

definition sends :: "htc_env \<Rightarrow> nat \<Rightarrow> HTC_TARGET \<Rightarrow> HTC_TARGET \<Rightarrow> addr list \<Rightarrow> bool" where
  "sends E e t t' S \<longleftrightarrow>
     outstanding t' e = outstanding t e @ S \<and>
     EndPoint t' e = (EndPoint t e)\<lparr>TxLookupQueue := TxLookupQueue (EndPoint t' e),
       ul_outstanding_cnt := ul_outstanding_cnt (EndPoint t' e)\<rparr> \<and>
     (\<forall>e'. e' \<noteq> e \<longrightarrow> EndPoint t' e' = EndPoint t e' \<and> outstanding t' e' = outstanding t e' \<and> spent t' e' = spent t e') \<and>
     spent t' e \<le> spent t e + charged t S \<and> calls t' = calls t \<and>
     MaxMsgsPerHTCBundle t' = MaxMsgsPerHTCBundle t \<and> HTCStateFlags t' = HTCStateFlags t \<and> same_clients E t t'"

lemma charged_same:
  "same_clients E t t' \<Longrightarrow> set q \<inter> containers E = {} \<Longrightarrow> charged t' q = charged t q"
  unfolding charged_def by (rule arg_cong [where f = sum_list]) (auto simp: same_clients_def)

lemma sends_trans:
  assumes a: "sends E e t t' S" and b: "sends E e t' t'' S'" and "set S' \<inter> containers E = {}"
  shows "sends E e t t'' (S @ S')"
proof -
  have c: "charged t' S' = charged t S'" using a assms(3) charged_same by (auto simp: sends_def)
  have "charged t (S @ S') = charged t S + charged t S'" by (simp add: charged_def)
  moreover have "EndPoint t'' e = (EndPoint t e)\<lparr>TxLookupQueue := TxLookupQueue (EndPoint t'' e),
       ul_outstanding_cnt := ul_outstanding_cnt (EndPoint t'' e)\<rparr>"
  proof -
    have "EndPoint t'' e = (EndPoint t' e)\<lparr>TxLookupQueue := TxLookupQueue (EndPoint t'' e),
       ul_outstanding_cnt := ul_outstanding_cnt (EndPoint t'' e)\<rparr>" using b by (simp add: sends_def)
    also have "\<dots> = (EndPoint t e)\<lparr>TxLookupQueue := TxLookupQueue (EndPoint t'' e),
       ul_outstanding_cnt := ul_outstanding_cnt (EndPoint t'' e)\<rparr>"
      using a by (subst (asm) sends_def) (cases "EndPoint t e"; cases "EndPoint t' e"; simp)
    finally show ?thesis .
  qed
  moreover have "same_clients E t t''" using a b same_clients_trans by (auto simp: sends_def)
  ultimately show ?thesis using a b c unfolding sends_def by auto
qed

lemma quiet_outstanding:
  assumes "undisturbed E t t'" and "\<And>p. p \<in> set (TxLookupQueue (EndPoint t e)) \<Longrightarrow>
      Tag (packets t' p) = Tag (packets t p) \<and> pQueueSave (packets t' p) = pQueueSave (packets t p)"
  shows "outstanding t' e = outstanding t e"
  using assms by (intro outstanding_cong) (auto simp: undisturbed_def)

lemma sends_nothing:
  assumes "undisturbed E t t'" and "\<And>e p. p \<in> set (TxLookupQueue (EndPoint t e)) \<Longrightarrow>
      Tag (packets t' p) = Tag (packets t p) \<and> pQueueSave (packets t' p) = pQueueSave (packets t p)"
  shows "sends E e t t' []"
proof -
  have "outstanding t' e' = outstanding t e'" for e' by (rule quiet_outstanding [OF assms(1)]) (use assms(2) in blast)
  moreover have "spent t' e' = spent t e'" for e' using assms(1) by (simp add: undisturbed_def spent_def)
  ultimately show ?thesis using assms(1) by (simp add: sends_def undisturbed_def charged_def)
qed

text \<open>Sending the container in hand.\<close>

lemma send_bundle_wf:
  assumes w: "wf E (Some tx) Q t" and e: "e < ENDPOINT_MAX"
    and c: "0 \<le> charged t (pQueueSave (packets t tx))"
  shows "wf E None Q (HTCSendBundledNetbuf E e fr tx t) \<and>
    sends E e t (HTCSendBundledNetbuf E e fr tx t) (pQueueSave (packets t tx))"
proof -
  define t' where "t' = HTCSendBundledNetbuf E e fr tx t"
  let ?S = "pQueueSave (packets t tx)"
  have tx: "tx \<in> allocated E (allocs t)" "tx \<notin> set (pBundleFreeTxList t)"
    "\<And>e. tx \<notin> set (TxLookupQueue (EndPoint t e))" using wfD(1) [OF w] by (auto simp: kinds_def)
  have txc: "tx \<in> containers E" using allocated_container tx(1) by blast
  have id: "Id (EndPoint t e) = e" using wfD(3) [OF w] e by (simp add: eps_def)
  note d = t'_def HTCSendBundledNetbuf_def HIFSend_head_def Let_def upd_ep_def upd_pkt_def
  have same: "\<And>e'. e' \<noteq> e \<Longrightarrow> EndPoint t' e' = EndPoint t e'"
    "EndPoint t' e = (EndPoint t e)\<lparr>TxLookupQueue := TxLookupQueue (EndPoint t e) @ [tx]\<rparr>"
    "\<And>q. q \<noteq> tx \<Longrightarrow> packets t' q = packets t q" "pQueueSave (packets t' tx) = ?S" "is_bundle t' tx"
    "Endpoint (packets t' tx) = e" "nbufs t' = nbufs t" "pBundleFreeTxList t' = pBundleFreeTxList t"
    "allocs t' = allocs t" "calls t' = calls t" "MaxMsgsPerHTCBundle t' = MaxMsgsPerHTCBundle t"
    "HTCStateFlags t' = HTCStateFlags t"
    using id by (auto simp: d is_bundle_def)
  have cu: "CreditsUsed (if p = tx then (packets t tx)\<lparr>ActualLength := a, Endpoint := b, Tag := c,
      Flags := f, SendFlags := g\<rparr> else packets t p) = CreditsUsed (packets t p)" for p a b c f g
    by simp
  have sp: "spent t' e \<le> spent t e + charged t ?S" "\<And>e'. e' \<noteq> e \<Longrightarrow> spent t' e' = spent t e'"
    using id c cu by (auto simp: d spent_def charged_def)
  have bu: "is_bundle t' q = is_bundle t q" if "q \<noteq> tx" for q using same(3) [OF that] by (simp add: is_bundle_def)
  have o: "outstanding t' e' = outstanding t e'" if "e' \<noteq> e" for e'
    using same(1) [OF that] same(3) tx(3) by (intro outstanding_cong) metis+
  have oe: "outstanding t' e = outstanding t e @ ?S"
  proof -
    have "map (carried t') (TxLookupQueue (EndPoint t e)) = map (carried t) (TxLookupQueue (EndPoint t e))"
    proof (rule map_cong [OF refl])
      fix p assume "p \<in> set (TxLookupQueue (EndPoint t e))"
      then have "p \<noteq> tx" using tx(3) by metis
      then show "carried t' p = carried t p" using bu same(3) by (simp add: carried_def)
    qed
    moreover have "carried t' tx = ?S" using same(4,5) by (simp add: carried_def)
    ultimately show ?thesis using same(2) by (simp add: outstanding_def del: map_eq_conv)
  qed
  have q: "TxQueue (EndPoint t' e') = TxQueue (EndPoint t e')" for e' using same(1,2) by (cases "e' = e") auto
  have pl: "places t' = places t + mset ?S"
  proof -
    have "places t' + ep_places t e = places t + ep_places t' e"
      by (rule places_change [OF e]) (use o q in \<open>simp add: ep_places_def\<close>)
    moreover have "ep_places t' e = ep_places t e + mset ?S" using oe q by (simp add: ep_places_def)
    ultimately show ?thesis by (simp add: ac_simps)
  qed
  have r: "room t' q = room t q" if "q \<notin> containers E" for q
    by (rule room_at) (use same(3,7) txc that in metis)+
  have "kinds E None t'"
  proof -
    have k: "(is_bundle t' p \<longrightarrow> p \<in> allocated E (allocs t') \<and> Endpoint (packets t' p) = e') \<and>
        (\<not> is_bundle t' p \<longrightarrow> p \<notin> containers E)"
      if "p \<in> set (TxLookupQueue (EndPoint t' e'))" for e' p
    proof (cases "p = tx")
      case True
      then have "e' = e" using that same(1) tx(3) by metis
      with True show ?thesis using same(5,6,9) tx(1) by simp
    next
      case False
      then have "p \<in> set (TxLookupQueue (EndPoint t e'))" using that same(1,2) by (cases "e' = e") auto
      from kinds_lookup [OF wfD(1) [OF w] this] show ?thesis using False bu same(3,9) by simp
    qed
    have f: "filter (is_bundle t') (TxLookupQueue (EndPoint t e')) = filter (is_bundle t) (TxLookupQueue (EndPoint t e'))" for e'
    proof (rule filter_cong [OF refl])
      fix p assume "p \<in> set (TxLookupQueue (EndPoint t e'))"
      then have "p \<noteq> tx" using tx(3) by metis
      then show "is_bundle t' p = is_bundle t p" by (rule bu)
    qed
    have "distinct (filter (is_bundle t') (TxLookupQueue (EndPoint t' e')))" for e'
      using wfD(1) [OF w] same(1,2,5) f tx(3) by (cases "e' = e") (auto simp: kinds_def)
    moreover have "p \<notin> set (TxLookupQueue (EndPoint t' e'))" if "p \<in> set (pBundleFreeTxList t)" for p e'
      using that wfD(1) [OF w] same(1,2) tx(2) by (cases "e' = e") (auto simp: kinds_def)
    moreover have "packets t' p = packets t p" if "p \<in> set (pBundleFreeTxList t)" for p
      using that tx(2) same(3) by metis
    ultimately show ?thesis using k wfD(1) [OF w] same(8,9) by (simp add: kinds_def)
  qed
  moreover have "clients E None Q t'"
  proof (rule clients_cong [OF wfD(2) [OF w]])
    show "places t' + in_hand None Q t' \<subseteq># places t + in_hand (Some tx) Q t"
      using pl by (simp add: in_hand_def ac_simps)
    show "Tag (packets t' q) = Tag (packets t q) \<and> pNetBufContext (packets t' q) = pNetBufContext (packets t q)"
      if "q \<notin> containers E" for q using that txc same(3) by metis
    show "room t' p" if "e' < ENDPOINT_MAX" "p \<in> set (TxQueue (EndPoint t' e'))" for e' p
      using that q r [of p] wf_queue_room [OF w, of e' p] wf_client(1) [OF w, of p] queue_in_places [of e' p t] by simp
    show "room t' p" if "p \<in> set Q" for p using that r [of p] wf_hand [OF w, of p] by simp
  qed
  moreover have "eps t'"
    unfolding eps_def
  proof (intro allI impI)
    fix e' assume "e' < ENDPOINT_MAX"
    then show "Id (EndPoint t' e') = e' \<and> 0 \<le> TxCredits (EndPoint t' e') \<and>
        (TxQueue (EndPoint t' e') \<noteq> [] \<longrightarrow> 0 < TxCreditSize (EndPoint t' e'))"
      using wfD(3) [OF w] same(1,2) by (cases "e' = e") (auto simp: eps_def)
  qed
  moreover have "sends E e t t' ?S"
  proof -
    have "same_clients E t t'" by (rule same_clientsI) (use txc same(3) in metis)
    then show ?thesis using oe o sp same(1,2,10-12) by (simp add: sends_def)
  qed
  ultimately show ?thesis unfolding t'_def [symmetric] by (simp add: wf_def)
qed

text \<open>Setting the header of a single packet up.\<close>

lemma setup_hdr_wf:
  assumes w: "wf E None (p # Q) t"
  shows "\<exists>t'. setup_hdr e p t = Some t' \<and> wf E None (p # Q) t' \<and> sends E e t t' []"
proof -
  have p: "p \<notin> containers E" "room t p" using wf_hand [OF w, of p] by auto
  let ?a = "GET_HTC_PACKET_NET_BUF_CONTEXT t p"
  show ?thesis
  proof (cases "TxCreditFlowEnabled (EndPoint t e)")
    case False
    then show ?thesis using w sends_nothing [of E t t e] by (simp add: setup_hdr_def)
  next
    case True
    obtain b where b: "write_hdr (htc_hdr_word0 (packets t p) (SendFlags (packets t p)))
        (htc_hdr_word1 (pkt_SeqNo (packets t p)) 0) (pkt_nbuf t p) = Some b"
      and bl: "map length (adf_nbuf_frags b) = map length (adf_nbuf_frags (pkt_nbuf t p))"
      using write_hdr_defined [of "pkt_nbuf t p"] p(2) by (auto simp: room_def)
    define b' where "b' = (if Flags (packets t p) AND HTC_TX_PACKET_FLAG_FIXUP_NETBUF \<noteq> 0 then adf_nbuf_map b else b)"
    have "adf_nbuf_frags b' = adf_nbuf_frags b" by (simp add: b'_def adf_nbuf_map_def adf_nbuf_frags_def)
    then have hb: "HTC_HDR_LENGTH \<le> length (hd (adf_nbuf_frags b'))"
      using frags_hd_length [OF bl] p(2) by (simp add: room_def)
    define t' where "t' = set_nb ?a b' t"
    have s: "setup_hdr e p t = Some t'" using b True by (simp add: setup_hdr_def t'_def b'_def Let_def)
    have same: "EndPoint t' = EndPoint t" "packets t' = packets t" by (auto simp: t'_def set_nb_def)
    have r: "room t' q" if "room t q" for q unfolding t'_def by (rule room_set_nb [OF that hb])
    have "0 \<le> TxCredits (EndPoint t e')" if "e' < ENDPOINT_MAX" for e' using wfD(3) [OF w] that by (simp add: eps_def)
    then have "wf E None (p # Q) t'"
      by (intro wf_cong(1) [OF w]) (use same r in \<open>auto simp: t'_def set_nb_def\<close>)
    moreover have "sends E e t t' []"
      by (rule sends_nothing) (auto simp: undisturbed_def t'_def set_nb_def intro: same_clientsI)
    ultimately show ?thesis using s by blast
  qed
qed

end
