(* ===== verification/Htc_Issue.thy ===== *)
theory Htc_Issue
  imports Htc_Steps "HOL-Library.Sublist"
begin

text \<open>
  Issuing packets in HTC keeps the invariant: the single send, its failure, the completion of a packet,
  the bundle and the loops around them, with where each packet of the queue goes.
\<close>

section \<open>Single packets\<close>

lemma hand_not_outstanding:
  assumes w: "wf E H (p # Q) t" and e: "e < ENDPOINT_MAX"
  shows "p \<notin> set (TxLookupQueue (EndPoint t e))"
proof
  assume m: "p \<in> set (TxLookupQueue (EndPoint t e))"
  have "\<not> is_bundle t p" using wf_hand [OF w, of p] by simp
  then have "p \<in># ep_places t e" using m by (auto simp: ep_places_def outstanding_def carried_def)
  then have "1 \<le> count (places t) p" using places_mem [OF e] by (simp add: count_greater_eq_one_iff)
  moreover have "1 \<le> count (in_hand H (p # Q) t) p" by (simp add: in_hand_def)
  moreover have "count (places t + in_hand H (p # Q) t) p \<le> 1" using wfD(2) [OF w] by (simp add: clients_def)
  ultimately show False by (simp only: count_union)
qed

text \<open>A packet in hand goes to the lookup queue.\<close>

lemma to_lookup_wf:
  assumes w: "wf E None (p # Q) t" and e: "e < ENDPOINT_MAX"
    and t': "t' = upd_ep e (\<lambda>ep. ep\<lparr>TxLookupQueue := TxLookupQueue ep @ [p], ul_outstanding_cnt := n\<rparr>) t"
  shows "wf E None Q t'" and "outstanding t' e = outstanding t e @ [p]"
    and "\<And>e'. e' \<noteq> e \<Longrightarrow> outstanding t' e' = outstanding t e'"
proof -
  have p: "p \<notin> containers E" "\<not> is_bundle t p" "room t p" using wf_hand [OF w, of p] by auto
  have same: "\<And>e'. e' \<noteq> e \<Longrightarrow> EndPoint t' e' = EndPoint t e'"
    "TxLookupQueue (EndPoint t' e) = TxLookupQueue (EndPoint t e) @ [p]" "packets t' = packets t"
    "nbufs t' = nbufs t" "pBundleFreeTxList t' = pBundleFreeTxList t" "allocs t' = allocs t"
    "\<And>e'. TxQueue (EndPoint t' e') = TxQueue (EndPoint t e')"
    by (auto simp: t' upd_ep_def)
  have b: "is_bundle t' = is_bundle t" "carried t' = carried t"
    using same(3) by (auto simp: is_bundle_def carried_def fun_eq_iff)
  show oe: "outstanding t' e = outstanding t e @ [p]"
    using same(2) b p(2) by (simp add: outstanding_def carried_def)
  show o: "outstanding t' e' = outstanding t e'" if "e' \<noteq> e" for e'
    using same(1) [OF that] b by (simp add: outstanding_def)
  have pl: "places t' = places t + {#p#}"
  proof -
    have "places t' + ep_places t e = places t + ep_places t' e"
      by (rule places_change [OF e]) (use o same(7) in \<open>simp add: ep_places_def\<close>)
    moreover have "ep_places t' e = ep_places t e + {#p#}" using oe same(7) by (simp add: ep_places_def)
    ultimately show ?thesis by (simp add: ac_simps)
  qed
  have "kinds E None t'"
  proof -
    have np: "p \<notin> set (pBundleFreeTxList t)"
      using wfD(1) [OF w] p(1) allocated_container by (auto simp: kinds_def)
    have l: "set (TxLookupQueue (EndPoint t' e')) \<subseteq> insert p (set (TxLookupQueue (EndPoint t e')))" for e'
      using same(1,2) by (cases "e' = e") auto
    have "distinct (filter (is_bundle t) (TxLookupQueue (EndPoint t' e')))" for e'
      using wfD(1) [OF w] same(1,2) p(2) by (cases "e' = e") (auto simp: kinds_def)
    then show ?thesis using wfD(1) [OF w] l p(1,2) np same(3,5,6) unfolding kinds_def b by (simp; blast)
  qed
  moreover have "clients E None Q t'"
    by (rule clients_cong [OF wfD(2) [OF w]])
      (use pl same(3,7) wf_queue_room [OF w] wf_hand [OF w] room_eq [OF same(3,4)] in \<open>auto simp: in_hand_def\<close>)
  moreover have "eps t'"
    using wfD(3) [OF w] by (auto simp: eps_def t' upd_ep_def)
  ultimately show "wf E None Q t'" by (simp add: wf_def)
qed

lemma HIFSend_head_same:
  "HIFSend_head E x t = (st, t') \<Longrightarrow> t' = t\<lparr>send_calls := send_calls t', xfers := xfers t'\<rparr> \<and>
     xfers t' = (if st = A_OK then xfers t @ [x] else xfers t)"
  by (auto simp: HIFSend_head_def Let_def)

lemma wf_xfers: "wf E H Q t \<Longrightarrow> wf E H Q (t\<lparr>send_calls := n, xfers := x\<rparr>)"
  by (rule wf_cong(1)) (auto simp: room_def GET_HTC_PACKET_NET_BUF_CONTEXT_def dest!: wfD(3) simp: eps_def)

text \<open>Sending one packet: accepted, it is outstanding; refused, it is back in hand.\<close>

lemma send_single_ok:
  assumes w: "wf E None (p # Q) t" and e: "e < ENDPOINT_MAX" and s: "send_single E e p t = (A_OK, t')"
  shows "wf E None Q t'" and "sends E e t t' [p]"
proof -
  define t1 where "t1 = upd_ep e (\<lambda>ep. ep\<lparr>TxLookupQueue := TxLookupQueue ep @ [p],
    ul_outstanding_cnt := ul_outstanding_cnt (EndPoint t e) + 1\<rparr>) t"
  have t1: "t1 = upd_ep e (\<lambda>ep. ep\<lparr>TxLookupQueue := TxLookupQueue ep @ [p],
    ul_outstanding_cnt := ul_outstanding_cnt ep + 1\<rparr>) t" by (simp add: t1_def upd_ep_def)
  note l = to_lookup_wf [OF w e t1_def]
  obtain x where h: "HIFSend_head E x t1 = (A_OK, t')" and x: "x_ep x = e" "x_credits x = CreditsUsed (packets t p)"
    using s wfD(3) [OF w] e unfolding send_single_def Let_def t1 [symmetric]
    by (auto simp: eps_def t1 upd_ep_def)
  note t' = HIFSend_head_same [OF h]
  then have same: "EndPoint t' = EndPoint t1" "packets t' = packets t1"
    using s by (auto simp: send_single_def HIFSend_head_def Let_def t1)
  have o: "outstanding t' e' = outstanding t1 e'" for e' using same by (intro outstanding_cong) auto
  show "wf E None Q t'" using wf_xfers [OF l(1)] t' by metis
  have "spent t' e = spent t e + CreditsUsed (packets t p)" "\<And>e'. e' \<noteq> e \<Longrightarrow> spent t' e' = spent t e'"
    using t' x by (auto simp: spent_def t1 upd_ep_def)
  moreover have "calls t' = calls t" "MaxMsgsPerHTCBundle t' = MaxMsgsPerHTCBundle t" "HTCStateFlags t' = HTCStateFlags t"
    using s by (auto simp: send_single_def HIFSend_head_def Let_def upd_ep_def)
  ultimately show "sends E e t t' [p]"
    using l(2,3) o same by (auto simp: sends_def charged_def t1 upd_ep_def intro!: same_clientsI)
qed

lemma send_single_failed:
  assumes w: "wf E None (p # Q) t" and e: "e < ENDPOINT_MAX" and c: "0 \<le> CreditsUsed (packets t p)"
    and s: "send_single E e p t = (st, t1)" and "st \<noteq> A_OK"
    and t': "t' = upd_ep e (\<lambda>ep. ep\<lparr>ul_outstanding_cnt := ul_outstanding_cnt ep - 1,
                    TxLookupQueue := remove1 p (TxLookupQueue ep), TxCredits := TxCredits ep + n\<rparr>) t1"
    and "0 \<le> n"
  shows "wf E None (p # Q) t'"
    and "EndPoint t' = (EndPoint t)(e := (EndPoint t e)\<lparr>TxCredits := TxCredits (EndPoint t e) + n\<rparr>)"
    and "packets t' = packets t" and "xfers t' = xfers t" and "calls t' = calls t" and "nbufs t' = nbufs t"
    and "MaxMsgsPerHTCBundle t' = MaxMsgsPerHTCBundle t" and "HTCStateFlags t' = HTCStateFlags t"
proof -
  have np: "p \<notin> set (TxLookupQueue (EndPoint t e))" by (rule hand_not_outstanding [OF w e])
  show ep: "EndPoint t' = (EndPoint t)(e := (EndPoint t e)\<lparr>TxCredits := TxCredits (EndPoint t e) + n\<rparr>)"
    and pk: "packets t' = packets t" and "xfers t' = xfers t" and "calls t' = calls t" and nb: "nbufs t' = nbufs t"
    and "MaxMsgsPerHTCBundle t' = MaxMsgsPerHTCBundle t" and "HTCStateFlags t' = HTCStateFlags t"
    using s \<open>st \<noteq> A_OK\<close> np by (auto simp: t' send_single_def HIFSend_head_def Let_def upd_ep_def remove1_append)
  have "pBundleFreeTxList t' = pBundleFreeTxList t" "allocs t' = allocs t"
    using s by (auto simp: t' send_single_def HIFSend_head_def Let_def upd_ep_def)
  then show "wf E None (p # Q) t'"
    by (intro wf_cong(1) [OF w])
      (use ep pk nb \<open>0 \<le> n\<close> wfD(3) [OF w] room_eq [OF pk nb] in \<open>auto simp: eps_def\<close>)
qed

section \<open>Bundles\<close>

lemma alloc_packets: "AllocateHTCBundleTxPacket E t = (r, t') \<Longrightarrow> r \<noteq> Some q \<Longrightarrow> packets t' q = packets t q"
  by (auto simp: AllocateHTCBundleTxPacket_def upd_pkt_def split: list.splits option.splits prod.splits if_splits)

lemma place_packets: "bundle_place p pad tx fr t = Some (fr', t') \<Longrightarrow> q \<noteq> tx \<Longrightarrow> packets t' q = packets t q"
  by (auto simp: bundle_place_def Let_def upd_pkt_def set_nb_def split: Option.bind_splits)

lemma free_packets: "q \<noteq> tx \<Longrightarrow> packets (FreeHTCBundleTxPacket tx t) q = packets t q"
  by (simp add: FreeHTCBundleTxPacket_def upd_pkt_def Let_def)

text \<open>Steps that write to the container in hand issue nothing.\<close>

lemma sends_container:
  assumes "undisturbed E t t'" and "\<And>q. q \<noteq> tx \<Longrightarrow> packets t' q = packets t q"
    and "\<And>e. tx \<notin> set (TxLookupQueue (EndPoint t e))"
  shows "sends E e t t' []"
  by (rule sends_nothing [OF assms(1)]) (use assms(2,3) in metis)

lemma container_in_hand:
  assumes "wf E (Some tx) Q t"
  shows "tx \<in> containers E" and "tx \<notin> set (TxLookupQueue (EndPoint t e))"
  using wfD(1) [OF assms] allocated_container by (auto simp: kinds_def)

lemma charged_nonneg: "\<forall>p \<in> set q. 0 \<le> CreditsUsed (packets t p) \<Longrightarrow> 0 \<le> charged t q"
  by (induction q) (auto simp: charged_def)

lemma charged_append [simp]: "charged t (q @ r) = charged t q + charged t r"
  by (simp add: charged_def)

lemma sends_credits:
  assumes "sends E e t t' S" and "p \<notin> containers E"
  shows "CreditsUsed (packets t' p) = CreditsUsed (packets t p)" and "frame_len t' p = frame_len t p"
  using assms by (auto simp: sends_def same_clients_def frame_len_def)

lemma sends_endpoint:
  assumes "sends E e t t' S"
  shows "TxCreditSize (EndPoint t' e) = TxCreditSize (EndPoint t e)"
    and "TxCredits (EndPoint t' e) = TxCredits (EndPoint t e)" and "TxQueue (EndPoint t' e) = TxQueue (EndPoint t e)"
    and "TxCreditFlowEnabled (EndPoint t' e) = TxCreditFlowEnabled (EndPoint t e)"
proof -
  have "EndPoint t' e = (EndPoint t e)\<lparr>TxLookupQueue := TxLookupQueue (EndPoint t' e),
       ul_outstanding_cnt := ul_outstanding_cnt (EndPoint t' e)\<rparr>" using assms by (simp add: sends_def)
  then show "TxCreditSize (EndPoint t' e) = TxCreditSize (EndPoint t e)"
    "TxCredits (EndPoint t' e) = TxCredits (EndPoint t e)" "TxQueue (EndPoint t' e) = TxQueue (EndPoint t e)"
    "TxCreditFlowEnabled (EndPoint t' e) = TxCreditFlowEnabled (EndPoint t e)"
    by (cases "EndPoint t e"; cases "EndPoint t' e"; simp)+
qed

lemma wf_drop:
  assumes w: "wf E H (p # Q) t"
  shows "wf E H Q t"
proof -
  have "clients E H Q t"
    by (rule clients_cong [OF wfD(2) [OF w]])
      (use wf_queue_room [OF w] wf_hand [OF w] in \<open>auto simp: in_hand_def\<close>)
  then show ?thesis using w by (simp add: wf_def)
qed

lemma alloc_sends:
  assumes w: "wf E None Q t" and E: "env_ok E" and a: "AllocateHTCBundleTxPacket E t = (r, t')"
  shows "sends E e t t' []"
proof -
  have q: "wf E r Q t'" "undisturbed E t t'" using alloc_bundle [OF w E a] by auto
  have "packets t' p = packets t p" if "p \<in> set (TxLookupQueue (EndPoint t e))" for e p
  proof (rule alloc_packets [OF a])
    show "r \<noteq> Some p" using container_in_hand(2) [of E p Q t' e] q that by (auto simp: undisturbed_def)
  qed
  then show ?thesis by (intro sends_nothing [OF q(2)]) simp
qed

lemma bundle_len_append: "bundle_len (fr @ [(b, g)]) = bundle_len fr + length b + g"
  by (simp add: bundle_len_def)

text \<open>
  The packets of the queue that a bundle loop has issued, \<open>S\<close>, lost, and left.
\<close>

lemma place_then:
  assumes w: "wf E (Some tx) (p # q) t" and cu: "\<forall>p \<in> set (p # q). 0 \<le> CreditsUsed (packets t p)"
    and c: "0 \<le> charged t (pQueueSave (packets t tx))"
  obtains b t' where "bundle_place p pad tx fr t = Some (fr @ [(b, pad)], t')" and "wf E (Some tx) q t'"
    and "sends E e t t' []" and "pQueueSave (packets t' tx) = pQueueSave (packets t tx) @ [p]"
    and "bundle_len (fr @ [(b, pad)]) \<noteq> 0" and "\<forall>p \<in> set q. 0 \<le> CreditsUsed (packets t' p)"
    and "0 \<le> charged t' (pQueueSave (packets t' tx))"
proof -
  obtain b t' where b: "bundle_place p pad tx fr t = Some (fr @ [(b, pad)], t')" "b \<noteq> []" "wf E (Some tx) q t'"
    "undisturbed E t t'" "pQueueSave (packets t' tx) = pQueueSave (packets t tx) @ [p]"
    using bundle_place_wf [OF w, of pad fr] by blast
  have s: "sends E e t t' []"
    by (rule sends_container [OF b(4) place_packets [OF b(1)]]) (use container_in_hand [OF w] in auto)
  have sc: "set (pQueueSave (packets t tx) @ [p]) \<inter> containers E = {}"
    using wf_client(1) [OF w] by (auto simp: in_hand_def)
  have "charged t' (pQueueSave (packets t' tx)) = charged t (pQueueSave (packets t tx) @ [p])"
    using charged_same [OF _ sc, of t t'] s b(5) by (simp add: sends_def)
  moreover have "0 \<le> charged t [p]" using cu by (simp add: charged_def)
  moreover have "\<forall>p \<in> set q. 0 \<le> CreditsUsed (packets t' p)"
    using cu sends_credits(1) [OF s] wf_hand [OF w] by (metis list.set_intros(2))
  ultimately show ?thesis using that [OF b(1,3) s b(5)] b(2) c by (simp add: bundle_len_append)
qed

lemma bundle_loop_wf:
  assumes E: "env_ok E" and e: "e < ENDPOINT_MAX"
  shows "wf E (Some tx) q t \<Longrightarrow> \<forall>p \<in> set q. 0 \<le> CreditsUsed (packets t p) \<Longrightarrow>
    0 \<le> charged t (pQueueSave (packets t tx)) \<Longrightarrow> 0 < TxCreditSize (EndPoint t e) \<Longrightarrow>
    bundle_len fr = 0 \<longleftrightarrow> pQueueSave (packets t tx) = [] \<Longrightarrow>
    \<exists>q' t' S lost. bundle_loop E e q tx space fr t = Some (q', t') \<and> wf E None q' t' \<and>
      sends E e t t' (pQueueSave (packets t tx) @ S) \<and> q = S @ lost @ q' \<and> length lost \<le> 1"
proof (induction q arbitrary: tx space fr t)
  case Nil
  note w = Nil(1)
  show ?case
  proof (cases "pQueueSave (packets t tx) = []")
    case True
    have f: "wf E None [] (FreeHTCBundleTxPacket tx t)" "undisturbed E t (FreeHTCBundleTxPacket tx t)"
      using free_bundle_wf [OF w True] by auto
    moreover have "sends E e t (FreeHTCBundleTxPacket tx t) []"
      by (rule sends_container [OF f(2) free_packets]) (use container_in_hand [OF w] in auto)
    ultimately show ?thesis using True Nil(5) by simp
  next
    case False
    then show ?thesis using send_bundle_wf [OF w e Nil(3)] Nil(5) by simp
  qed
next
  case (Cons p q)
  note w = Cons.prems(1)
  let ?z = "TxCreditSize (EndPoint t e)" and ?S = "pQueueSave (packets t tx)"
  obtain pad where pad: "credit_pad (frame_len t p) ?z = Some pad"
    using Cons.prems(4) by (auto simp: credit_pad_def Let_def)
  have pq: "set (p # q) \<inter> containers E = {}" using wf_hand [OF w] by auto
  show ?case
  proof (cases "space < int (frame_len t p + pad)")
    case False
    obtain b t1 where b: "bundle_place p pad tx fr t = Some (fr @ [(b, pad)], t1)" "wf E (Some tx) q t1"
      "sends E e t t1 []" "pQueueSave (packets t1 tx) = ?S @ [p]" "bundle_len (fr @ [(b, pad)]) \<noteq> 0"
      "\<forall>p \<in> set q. 0 \<le> CreditsUsed (packets t1 p)" "0 \<le> charged t1 (pQueueSave (packets t1 tx))"
      using place_then [OF w Cons.prems(2,3)] by blast
    have "0 < TxCreditSize (EndPoint t1 e)" using sends_endpoint(1) [OF b(3)] Cons.prems(4) by simp
    then obtain q' t' S lost where i: "bundle_loop E e q tx (space - int (frame_len t p + pad)) (fr @ [(b, pad)]) t1 = Some (q', t')"
      "wf E None q' t'" "sends E e t1 t' (pQueueSave (packets t1 tx) @ S)" "q = S @ lost @ q'" "length lost \<le> 1"
      using Cons.IH [OF b(2,6,7), of "fr @ [(b, pad)]" "space - int (frame_len t p + pad)"] b(4,5) by auto
    have "sends E e t t' ([] @ (?S @ [p]) @ S)"
      by (rule sends_trans [OF b(3)]) (use i b(4) pq wf_client(1) [OF w] in \<open>auto simp: in_hand_def\<close>)
    moreover have "bundle_loop E e (p # q) tx space fr t = Some (q', t')" using pad False b(1) i(1) by simp
    ultimately show ?thesis using i(2,4,5) by (intro exI [of _ q'] exI [of _ t'] exI [of _ "p # S"] exI [of _ lost]) auto
  next
    case True
    let ?t1 = "HTCSendBundledNetbuf E e fr tx t"
    have s1: "wf E None (p # q) ?t1" "sends E e t ?t1 ?S" using send_bundle_wf [OF w e Cons.prems(3)] by auto
    show ?thesis
    proof (cases "length q < HTC_MIN_MSG_PER_BUNDLE")
      case True
      then have "bundle_loop E e (p # q) tx space fr t = Some (q, ?t1)"
        using pad \<open>space < int (frame_len t p + pad)\<close> by (simp add: Let_def)
      then show ?thesis using wf_drop [OF s1(1)] s1(2)
        by (intro exI [of _ q] exI [of _ ?t1] exI [of _ "[]"] exI [of _ "[p]"]) auto
    next
      case False
      obtain r t2 where a: "AllocateHTCBundleTxPacket E ?t1 = (r, t2)" by fastforce
      have w2: "wf E r (p # q) t2" "\<forall>tx. r = Some tx \<longrightarrow> pQueueSave (packets t2 tx) = []"
        using alloc_bundle [OF s1(1) E a] by auto
      have s2: "sends E e ?t1 t2 []" by (rule alloc_sends [OF s1(1) E a])
      have s12: "sends E e t t2 ?S" using sends_trans [OF s1(2) s2] by simp
      show ?thesis
      proof (cases r)
        case None
        then have "bundle_loop E e (p # q) tx space fr t = Some (q, t2)"
          using pad \<open>space < int (frame_len t p + pad)\<close> False a by (simp add: Let_def)
        then show ?thesis using wf_drop [OF w2(1)] None s12
          by (intro exI [of _ q] exI [of _ t2] exI [of _ "[]"] exI [of _ "[p]"]) auto
      next
        case (Some tx')
        have cu2: "\<forall>p \<in> set (p # q). 0 \<le> CreditsUsed (packets t2 p)"
          using Cons.prems(2) sends_credits(1) [OF s12] pq by (metis disjoint_iff)
        obtain b t3 where b: "bundle_place p pad tx' [] t2 = Some ([] @ [(b, pad)], t3)" "wf E (Some tx') q t3"
          "sends E e t2 t3 []" "pQueueSave (packets t3 tx') = pQueueSave (packets t2 tx') @ [p]"
          "bundle_len ([] @ [(b, pad)]) \<noteq> 0" "\<forall>p \<in> set q. 0 \<le> CreditsUsed (packets t3 p)"
          "0 \<le> charged t3 (pQueueSave (packets t3 tx'))"
          using place_then [of E tx' p q t2] w2 cu2 Some by (metis charged_nonneg empty_iff list.set(1))
        have s13: "sends E e t t3 ?S" using sends_trans [OF s12 b(3)] by simp
        let ?space = "int (HTC_MAX_MSG_PER_BUNDLE_TX * TxCreditSize (EndPoint t2 e)) - int (frame_len t p + pad)"
        have "0 < TxCreditSize (EndPoint t3 e)" using sends_endpoint(1) [OF s13] Cons.prems(4) by simp
        then obtain q' t' S lost where i: "bundle_loop E e q tx' ?space ([] @ [(b, pad)]) t3 = Some (q', t')"
          "wf E None q' t'" "sends E e t3 t' (pQueueSave (packets t3 tx') @ S)" "q = S @ lost @ q'" "length lost \<le> 1"
          using Cons.IH [OF b(2,6,7), of "[] @ [(b, pad)]" ?space] b(4,5) by auto
        have "sends E e t t' (?S @ [p] @ S)"
          using sends_trans [OF s13 i(3)] i(4) b(4) w2(2) Some pq by auto
        moreover have "bundle_loop E e (p # q) tx space fr t = Some (q', t')"
          using pad \<open>space < int (frame_len t p + pad)\<close> False a Some b(1) i(1) by (simp add: Let_def)
        ultimately show ?thesis using i(2,4,5)
          by (intro exI [of _ q'] exI [of _ t'] exI [of _ "p # S"] exI [of _ lost]) auto
      qed
    qed
  qed
qed

lemma bundle_wf:
  assumes w: "wf E None q t" and E: "env_ok E" and e: "e < ENDPOINT_MAX"
    and cu: "\<forall>p \<in> set q. 0 \<le> CreditsUsed (packets t p)" and z: "0 < TxCreditSize (EndPoint t e)"
  shows "\<exists>q' t' S lost. HTCIssuePacketsBundle E e q t = Some (q', t') \<and> wf E None q' t' \<and>
    sends E e t t' S \<and> q = S @ lost @ q' \<and> length lost \<le> 1"
proof -
  obtain r t1 where a: "AllocateHTCBundleTxPacket E t = (r, t1)" by fastforce
  have w1: "wf E r q t1" "\<forall>tx. r = Some tx \<longrightarrow> pQueueSave (packets t1 tx) = []" using alloc_bundle [OF w E a] by auto
  have s1: "sends E e t t1 []" by (rule alloc_sends [OF w E a])
  show ?thesis
  proof (cases r)
    case None
    then show ?thesis using w1 s1 a
      by (intro exI [of _ q] exI [of _ t1] exI [of _ "[]"]) (simp add: HTCIssuePacketsBundle_def)
  next
    case (Some tx)
    have pq: "set q \<inter> containers E = {}" using wf_hand [OF w] by auto
    then have cu1: "\<forall>p \<in> set q. 0 \<le> CreditsUsed (packets t1 p)"
      using cu sends_credits(1) [OF s1] by (metis disjoint_iff)
    have z1: "0 < TxCreditSize (EndPoint t1 e)" using sends_endpoint(1) [OF s1] z by simp
    have ch: "0 \<le> charged t1 (pQueueSave (packets t1 tx))" using w1(2) Some by (simp add: charged_def)
    obtain q' t' S lost where b:
      "bundle_loop E e q tx (int (HTC_MAX_MSG_PER_BUNDLE_TX * TxCreditSize (EndPoint t1 e))) [] t1 = Some (q', t')"
      "wf E None q' t'" "sends E e t1 t' (pQueueSave (packets t1 tx) @ S)" "q = S @ lost @ q'" "length lost \<le> 1"
      using bundle_loop_wf [OF E e w1(1) [unfolded Some] cu1 ch z1,
          of "[]" "int (HTC_MAX_MSG_PER_BUNDLE_TX * TxCreditSize (EndPoint t1 e))"] w1(2) Some
      unfolding bundle_len_def by auto
    have "sends E e t t' S" using sends_trans [OF s1 b(3)] b(4) w1(2) Some pq by auto
    then show ?thesis using a Some b
      by (intro exI [of _ q'] exI [of _ t'] exI [of _ S] exI [of _ lost]) (simp add: HTCIssuePacketsBundle_def)
  qed
qed

section \<open>The issue loops\<close>

text \<open>
  What a queue has become: the packets \<open>S\<close> are issued, in the order of the queue; only when bundles are
  made may a packet be missing.
\<close>

definition issued :: "HTC_TARGET \<Rightarrow> addr list \<Rightarrow> addr list \<Rightarrow> bool" where
  "issued t pre S \<longleftrightarrow> subseq S pre \<and> (\<not> HTC_ENABLE_BUNDLE t \<longrightarrow> S = pre)"

lemma issued_Nil [simp]: "issued t [] S \<longleftrightarrow> S = []"
  by (auto simp: issued_def)

lemma issued_append: "issued t a A \<Longrightarrow> issued t b B \<Longrightarrow> issued t (a @ b) (A @ B)"
  by (auto simp: issued_def intro: list_emb_append_mono)

lemma issued_sends: "sends E e t t' S' \<Longrightarrow> issued t' pre S \<Longrightarrow> issued t pre S"
  by (simp add: issued_def HTC_ENABLE_BUNDLE_def sends_def)

lemma issued_set: "issued t pre S \<Longrightarrow> set S \<subseteq> set pre"
  by (auto simp: issued_def dest: list_emb_set)

lemma try_bundle_wf:
  assumes w: "wf E None q t" and E: "env_ok E" and e: "e < ENDPOINT_MAX"
    and cu: "\<forall>p \<in> set q. 0 \<le> CreditsUsed (packets t p)" and z: "0 < TxCreditSize (EndPoint t e)"
  shows "\<exists>q' t' pre S. try_bundle E b e q t = Some (q', t') \<and> wf E None q' t' \<and>
    sends E e t t' S \<and> q = pre @ q' \<and> issued t pre S"
proof (cases "b \<and> HTC_ENABLE_BUNDLE t \<and> HTC_MIN_MSG_PER_BUNDLE \<le> length q")
  case True
  obtain q' t' S lost where b: "HTCIssuePacketsBundle E e q t = Some (q', t')" "wf E None q' t'" "sends E e t t' S"
    "q = S @ lost @ q'" using bundle_wf [OF assms] by blast
  moreover have "try_bundle E b e q t = HTCIssuePacketsBundle E e q t" using True by (simp add: try_bundle_def)
  moreover have "issued t (S @ lost) S" using True by (simp add: issued_def list_emb_prefix)
  ultimately show ?thesis
    by (intro exI [of _ q'] exI [of _ t'] exI [of _ "S @ lost"] exI [of _ S]) simp
next
  case False
  then show ?thesis using w sends_nothing [of E t t e]
    by (intro exI [of _ q] exI [of _ t] exI [of _ "[]"]) (auto simp: try_bundle_def)
qed

text \<open>A send that fails leaves the queue in hand and gives back credits.\<close>

definition gives_back :: "nat \<Rightarrow> int \<Rightarrow> HTC_TARGET \<Rightarrow> HTC_TARGET \<Rightarrow> bool" where
  "gives_back e n t t' \<longleftrightarrow>
     EndPoint t' = (EndPoint t)(e := (EndPoint t e)\<lparr>TxCredits := TxCredits (EndPoint t e) + n\<rparr>) \<and>
     packets t' = packets t \<and> xfers t' = xfers t \<and> calls t' = calls t \<and> nbufs t' = nbufs t \<and>
     MaxMsgsPerHTCBundle t' = MaxMsgsPerHTCBundle t \<and> HTCStateFlags t' = HTCStateFlags t"

lemma gives_back_refl [simp]: "gives_back e 0 t t"
  by (simp add: gives_back_def)

lemma outstanding_gives_back: "gives_back e n t t' \<Longrightarrow> outstanding t' e' = outstanding t e'"
  by (rule outstanding_cong) (auto simp: gives_back_def)

lemma count_sent_wf:
  assumes "wf E None q t" shows "wf E None q (t\<lparr>CE_send_cnt := n\<rparr>)"
    and "sends E e t (t\<lparr>CE_send_cnt := n\<rparr>) []"
proof -
  show "wf E None q (t\<lparr>CE_send_cnt := n\<rparr>)"
    using wfD(3) [OF assms] by (intro wf_cong(1) [OF assms])
      (auto simp: eps_def room_def GET_HTC_PACKET_NET_BUF_CONTEXT_def)
  show "sends E e t (t\<lparr>CE_send_cnt := n\<rparr>) []" by (rule sends_nothing) (auto simp: undisturbed_def same_clients_def)
qed

lemma issue_loop_wf:
  assumes E: "env_ok E" and e: "e < ENDPOINT_MAX"
  shows "wf E None q t \<Longrightarrow> \<forall>p \<in> set q. 0 \<le> CreditsUsed (packets t p) \<Longrightarrow> 0 < TxCreditSize (EndPoint t e) \<Longrightarrow>
    \<exists>st q' t' tm pre S. issue_loop E e q t = Some (st, q', t') \<and> wf E None q' t' \<and> sends E e t tm S \<and>
      q = pre @ q' \<and> issued t pre S \<and> (st = A_OK \<longrightarrow> q' = [] \<and> t' = tm) \<and>
      (st \<noteq> A_OK \<longrightarrow> q' \<noteq> [] \<and> gives_back e (CreditsUsed (packets tm (hd q'))) tm t')"
proof (induction "length q" arbitrary: q t rule: less_induct)
  case less
  obtain q1 t1 pre S where b: "try_bundle E (TxCreditFlowEnabled (EndPoint t e)) e q t = Some (q1, t1)"
    "wf E None q1 t1" "sends E e t t1 S" "q = pre @ q1" "issued t pre S"
    using try_bundle_wf [OF less(2) E e less(3,4)] by blast
  note u = issue_loop.simps [of E e q t]
  show ?case
  proof (cases q1)
    case Nil
    then show ?thesis using b u
      by (intro exI [of _ A_OK] exI [of _ "[]"] exI [of _ t1] exI [of _ t1] exI [of _ pre] exI [of _ S]) simp
  next
    case (Cons p q2)
    have pq: "set q \<inter> containers E = {}" using wf_hand [OF less(2)] by auto
    obtain t2 where h: "setup_hdr e p t1 = Some t2" "wf E None (p # q2) t2" "sends E e t1 t2 []"
      using setup_hdr_wf [of E p q2 t1 e] b(2) Cons by auto
    have s2: "sends E e t t2 S" using sends_trans [OF b(3) h(3)] by simp
    have cp: "0 \<le> CreditsUsed (packets t2 p)"
      using less(3) sends_credits(1) [OF s2, of p] pq b(4) Cons by simp
    obtain st t3 where s: "send_single E e p t2 = (st, t3)" by fastforce
    show ?thesis
    proof (cases "st = A_OK")
      case False
      define t' where "t' = upd_ep e (\<lambda>ep. ep\<lparr>ul_outstanding_cnt := ul_outstanding_cnt ep - 1,
        TxLookupQueue := remove1 p (TxLookupQueue ep), TxCredits := TxCredits ep + CreditsUsed (packets t3 p)\<rparr>) t3"
      have pk: "packets t3 = packets t2" using s by (auto simp: send_single_def HIFSend_head_def Let_def upd_ep_def)
      have n: "0 \<le> CreditsUsed (packets t3 p)" using cp pk by simp
      note f = send_single_failed [OF h(2) e cp s False t'_def n]
      have "gives_back e (CreditsUsed (packets t2 p)) t2 t'" using f pk by (simp add: gives_back_def)
      moreover have "issue_loop E e q t = Some (st, p # q2, t')" using u b(1) Cons h(1) s False by (simp add: t'_def)
      ultimately show ?thesis using f(1) s2 b(4,5) Cons False
        by (intro exI [of _ st] exI [of _ "p # q2"] exI [of _ t'] exI [of _ t2] exI [of _ pre] exI [of _ S]) simp
    next
      case True
      let ?t4 = "t3\<lparr>CE_send_cnt := CE_send_cnt t3 + 1\<rparr>"
      note ok = send_single_ok [OF h(2) e s [unfolded True]]
      note c = count_sent_wf [OF ok(1), where n = "CE_send_cnt t3 + 1"]
      have "sends E e t2 ?t4 [p]" using sends_trans [OF ok(2) c(2)] by simp
      then have s4: "sends E e t ?t4 (S @ [p])" using sends_trans [OF s2 ] pq b(4) Cons by auto
      have "\<forall>p \<in> set q2. 0 \<le> CreditsUsed (packets ?t4 p)"
        using less(3) sends_credits(1) [OF s4] pq b(4) Cons by (metis Un_iff disjoint_iff list.set_intros(2) set_append)
      moreover have "0 < TxCreditSize (EndPoint ?t4 e)" using sends_endpoint(1) [OF s4] less(4) by simp
      ultimately obtain st' q' t' tm pre' S' where i: "issue_loop E e q2 ?t4 = Some (st', q', t')" "wf E None q' t'"
        "sends E e ?t4 tm S'" "q2 = pre' @ q'" "issued ?t4 pre' S'" "st' = A_OK \<longrightarrow> q' = [] \<and> t' = tm"
        "st' \<noteq> A_OK \<longrightarrow> q' \<noteq> [] \<and> gives_back e (CreditsUsed (packets tm (hd q'))) tm t'"
        using less(1) [of q2 ?t4] c(1) b(4) Cons by force
      have "set S' \<inter> containers E = {}" using issued_set [OF i(5)] pq b(4) i(4) Cons by auto
      then have sf: "sends E e t tm (S @ p # S')" using sends_trans [OF s4 i(3)] by simp
      have "issued t [p] [p]" by (simp add: issued_def)
      from issued_append [OF this issued_sends [OF s4 i(5)]] have "issued t (pre @ p # pre') (S @ p # S')"
        using issued_append [OF b(5)] by simp
      moreover have "issue_loop E e q t = Some (st', q', t')" using u b(1) Cons h(1) s True i(1) by simp
      ultimately show ?thesis using i sf b(4) Cons
        by (intro exI [of _ st'] exI [of _ q'] exI [of _ t'] exI [of _ tm] exI [of _ "pre @ p # pre'"]
            exI [of _ "S @ p # S'"]) simp
    qed
  qed
qed

end
