(* ===== verification/Htc_Drain.thy ===== *)
theory Htc_Drain
  imports Htc_Issue
begin

text \<open>
  Completing packets, taking them from the queue of an endpoint, and the loop of HTCTrySend that does
  both until the queue is empty or the credits do not reach.
\<close>

section \<open>Completion\<close>

lemma RestoreTxPacket_same:
  "EndPoint (RestoreTxPacket p t) = EndPoint t \<and> xfers (RestoreTxPacket p t) = xfers t \<and>
   calls (RestoreTxPacket p t) = calls t \<and> pBundleFreeTxList (RestoreTxPacket p t) = pBundleFreeTxList t \<and>
   allocs (RestoreTxPacket p t) = allocs t \<and> MaxMsgsPerHTCBundle (RestoreTxPacket p t) = MaxMsgsPerHTCBundle t \<and>
   HTCStateFlags (RestoreTxPacket p t) = HTCStateFlags t \<and>
   packets (RestoreTxPacket p t) = (packets t)(p := (packets t p)\<lparr>Flags := Flags (packets (RestoreTxPacket p t) p)\<rparr>) \<and>
   (\<forall>a. a \<noteq> pNetBufContext (packets t p) \<longrightarrow> nbufs (RestoreTxPacket p t) a = nbufs t a)"
  by (auto simp: RestoreTxPacket_def Let_def upd_pkt_def set_nb_def GET_HTC_PACKET_NET_BUF_CONTEXT_def fun_eq_iff)

lemma DoSendCompletion_same:
  "\<exists>c. DoSendCompletion e q t = t\<lparr>calls := c\<rparr> \<and> concat (map done_call c) = tx_done t @ q"
proof -
  have 1: "concat (map done_call (map (\<lambda>p. CallTxComplete e p (Status (packets t p))) q)) = q"
    by (induction q) auto
  have 2: "map (fst \<circ> (\<lambda>p. (p, Status (packets t p)))) q = q" by (simp add: comp_def)
  have 3: "t = t\<lparr>calls := calls t\<rparr>" by simp
  show ?thesis
  proof (cases "q = []")
    case True
    then show ?thesis by (intro exI [of _ "calls t"]) (simp add: DoSendCompletion_def tx_done_def)
  next
    case False
    then show ?thesis unfolding DoSendCompletion_def tx_done_def
      by (cases "EpTxCompleteMultiple (EpCallBacks (EndPoint t e))")
        (use 1 2 in \<open>simp_all add: exI [of _ "calls t @ [CallTxCompleteMultiple e (map (\<lambda>p. (p, Status (packets t p))) q)]"]
          exI [of _ "calls t @ map (\<lambda>p. CallTxComplete e p (Status (packets t p))) q"]\<close>)
  qed
qed

text \<open>What the completion of packets leaves alone.\<close>

definition completes :: "htc_env \<Rightarrow> HTC_TARGET \<Rightarrow> HTC_TARGET \<Rightarrow> addr list \<Rightarrow> bool" where
  "completes E t t' D \<longleftrightarrow> EndPoint t' = EndPoint t \<and> xfers t' = xfers t \<and>
     MaxMsgsPerHTCBundle t' = MaxMsgsPerHTCBundle t \<and> HTCStateFlags t' = HTCStateFlags t \<and>
     (\<forall>e. outstanding t' e = outstanding t e) \<and> tx_done t' = tx_done t @ D"

lemma completes_refl [simp]: "completes E t t []"
  by (simp add: completes_def)

lemma completes_trans: "completes E t t' D \<Longrightarrow> completes E t' t'' D' \<Longrightarrow> completes E t t'' (D @ D')"
  by (simp add: completes_def)

text \<open>Restoring a packet that leaves the hand, or changing its status.\<close>

lemma release_wf:
  assumes w: "wf E None (p # q) t"
    and same: "EndPoint t' = EndPoint t" "pBundleFreeTxList t' = pBundleFreeTxList t" "allocs t' = allocs t"
    and pk: "\<And>x. Tag (packets t' x) = Tag (packets t x) \<and> pQueueSave (packets t' x) = pQueueSave (packets t x) \<and>
      Endpoint (packets t' x) = Endpoint (packets t x) \<and> pNetBufContext (packets t' x) = pNetBufContext (packets t x) \<and>
      ActualLength (packets t' x) = ActualLength (packets t x)"
    and nb: "\<And>a. a \<noteq> pNetBufContext (packets t p) \<Longrightarrow> nbufs t' a = nbufs t a"
  shows "wf E None q t'" and "outstanding t' e = outstanding t e"
proof -
  show "outstanding t' e = outstanding t e" by (rule outstanding_cong) (use same(1) pk in auto)
  have pl: "places t' = places t" by (rule places_cong) (use same(1) pk in auto)
  have b: "is_bundle t' = is_bundle t" using pk by (simp add: is_bundle_def fun_eq_iff)
  have k: "kinds E None t'" using wfD(1) [OF w] same(1-3) pk unfolding kinds_def b by simp
  have r: "room t' x" if "x \<in># places t + in_hand None q t" "room t x" for x
  proof -
    have c: "count (places t + in_hand None (p # q) t) p \<le> 1" using wfD(2) [OF w] unfolding clients_def by blast
    have "x \<noteq> p"
    proof
      assume "x = p"
      then have "1 \<le> count (places t + in_hand None q t) p" using that(1) by (simp only: count_greater_eq_one_iff)
      with c show False by (simp add: in_hand_def)
    qed
    then have "pNetBufContext (packets t x) \<noteq> pNetBufContext (packets t p)"
      using wf_netbuf [OF w, of x p] that(1) by (auto simp: in_hand_def GET_HTC_PACKET_NET_BUF_CONTEXT_def)
    then show ?thesis using that(2) nb pk [of x] by (simp add: room_def GET_HTC_PACKET_NET_BUF_CONTEXT_def)
  qed
  have "clients E None q t'"
  proof (rule clients_cong [OF wfD(2) [OF w]])
    show "places t' + in_hand None q t' \<subseteq># places t + in_hand None (p # q) t" using pl by (simp add: in_hand_def)
    show "Tag (packets t' x) = Tag (packets t x) \<and> pNetBufContext (packets t' x) = pNetBufContext (packets t x)" for x
      using pk by simp
    show "room t' x" if "e < ENDPOINT_MAX" "x \<in> set (TxQueue (EndPoint t' e))" for e x
      using that same(1) r [of x] wf_queue_room [OF w] queue_in_places [of e x t] by simp
    show "room t' x" if "x \<in> set q" for x
      using that r [of x] wf_hand [OF w, of x] by (simp add: in_hand_def)
  qed
  moreover have "eps t'" using wfD(3) [OF w] same(1) by (simp add: eps_def)
  ultimately show "wf E None q t'" using k by (simp add: wf_def)
qed

lemma wf_calls: "wf E H Q t \<Longrightarrow> wf E H Q (t\<lparr>calls := c\<rparr>)"
  by (rule wf_cong(1)) (auto simp: room_def GET_HTC_PACKET_NET_BUF_CONTEXT_def dest!: wfD(3) simp: eps_def)

lemma complete_one_wf:
  assumes w: "wf E None (p # q) t"
    and t': "t' = SendPacketCompletion p (upd_pkt p (\<lambda>k. k\<lparr>Status := st\<rparr>) t)"
  shows "wf E None q t'" and "completes E t t' [p]"
proof -
  let ?t1 = "upd_pkt p (\<lambda>k. k\<lparr>Status := st\<rparr>) t" and ?t2 = "RestoreTxPacket p (upd_pkt p (\<lambda>k. k\<lparr>Status := st\<rparr>) t)"
  note r = RestoreTxPacket_same [of p ?t1]
  have same: "EndPoint ?t2 = EndPoint t" "pBundleFreeTxList ?t2 = pBundleFreeTxList t" "allocs ?t2 = allocs t"
    "tx_done ?t2 = tx_done t" using r by (auto simp: upd_pkt_def tx_done_def)
  have pk: "packets ?t2 = (packets t)(p := (packets t p)\<lparr>Status := st, Flags := Flags (packets ?t2 p)\<rparr>)"
    using r by (simp add: upd_pkt_def)
  have nb: "nbufs ?t2 a = nbufs t a" if "a \<noteq> pNetBufContext (packets t p)" for a
    using r that by (simp add: upd_pkt_def)
  note k = release_wf [OF w same(1-3) _ nb]
  have pk': "Tag (packets ?t2 x) = Tag (packets t x) \<and> pQueueSave (packets ?t2 x) = pQueueSave (packets t x) \<and>
      Endpoint (packets ?t2 x) = Endpoint (packets t x) \<and> pNetBufContext (packets ?t2 x) = pNetBufContext (packets t x) \<and>
      ActualLength (packets ?t2 x) = ActualLength (packets t x)" for x
    by (subst pk, subst pk, subst pk, subst pk, subst pk) simp
  obtain c where c: "t' = ?t2\<lparr>calls := c\<rparr>" "concat (map done_call c) = tx_done ?t2 @ [p]"
    unfolding t' SendPacketCompletion_def using DoSendCompletion_same by blast
  show "wf E None q t'" unfolding c(1) by (rule wf_calls [OF k(1)]) (rule pk')
  have "outstanding t' e = outstanding ?t2 e" for e by (rule outstanding_cong) (auto simp: c(1))
  then show "completes E t t' [p]" using k(2) [OF pk'] r c(2) same(1,4) by (simp add: completes_def c(1) upd_pkt_def tx_done_def)
qed

lemma complete_all_wf:
  "wf E None q t \<Longrightarrow> wf E None [] (complete_all st q t) \<and> completes E t (complete_all st q t) q"
proof (induction q arbitrary: t)
  case (Cons p q)
  let ?t = "SendPacketCompletion p (upd_pkt p (\<lambda>k. k\<lparr>Status := st\<rparr>) t)"
  note o = complete_one_wf [OF Cons.prems refl, of st]
  from Cons.IH [OF o(1)] completes_trans [OF o(2)] show ?case by fastforce
qed simp

section \<open>Progress\<close>

text \<open>
  \<open>progress E e t t' q S D\<close>: of the packets \<open>q\<close> the endpoint \<open>e\<close> has issued \<open>S\<close> and completed \<open>D\<close> and,
  when it makes no bundles, lost none; \<open>c\<close> more credits went into the transfers or came back than it had.
\<close>

definition progress :: "nat \<Rightarrow> int \<Rightarrow> HTC_TARGET \<Rightarrow> HTC_TARGET \<Rightarrow> addr list \<Rightarrow> addr list \<Rightarrow> addr list \<Rightarrow> bool" where
  "progress e c t t' q S D \<longleftrightarrow>
     outstanding t' e = outstanding t e @ S \<and> tx_done t' = tx_done t @ D \<and>
     (\<forall>e'. e' \<noteq> e \<longrightarrow> EndPoint t' e' = EndPoint t e' \<and> outstanding t' e' = outstanding t e' \<and> spent t' e' = spent t e') \<and>
     (\<exists>tq lq n cr. EndPoint t' e = (EndPoint t e)\<lparr>TxQueue := tq, TxLookupQueue := lq, ul_outstanding_cnt := n, TxCredits := cr\<rparr>) \<and>
     spent t' e + TxCredits (EndPoint t' e) \<le> spent t e + TxCredits (EndPoint t e) + c \<and>
     subseq S q \<and> mset S + mset D \<subseteq># mset q \<and> (\<not> HTC_ENABLE_BUNDLE t \<longrightarrow> mset S + mset D = mset q) \<and>
     MaxMsgsPerHTCBundle t' = MaxMsgsPerHTCBundle t \<and> HTCStateFlags t' = HTCStateFlags t"

lemma charged_subseq:
  "subseq S q \<Longrightarrow> \<forall>p \<in> set q. 0 \<le> CreditsUsed (packets t p) \<Longrightarrow> charged t S \<le> charged t q"
proof (induction S q rule: list_emb.induct)
  case (list_emb_Nil ys)
  then show ?case using charged_nonneg [of ys t] by (simp add: charged_def)
qed (auto simp: charged_def)

lemma subseq_mset: "subseq S q \<Longrightarrow> mset S \<subseteq># mset q"
proof (induction S q rule: list_emb.induct)
  case (list_emb_Cons xs ys y)
  then show ?case using subset_mset.order_trans by fastforce
qed auto

lemma issue_wf:
  assumes w: "wf E None q t" and E: "env_ok E" and e: "e < ENDPOINT_MAX"
    and cu: "\<forall>p \<in> set q. 0 \<le> CreditsUsed (packets t p)" and z: "0 < TxCreditSize (EndPoint t e)"
  shows "\<exists>st t' S D. HTCIssuePackets E e q t = Some (st, t') \<and> wf E None [] t' \<and>
    progress e (charged t q) t t' q S D \<and> TxQueue (EndPoint t' e) = TxQueue (EndPoint t e) \<and> (st = A_OK \<longrightarrow> D = [])"
proof -
  obtain st q' t1 tm pre S where i: "issue_loop E e q t = Some (st, q', t1)" "wf E None q' t1" "sends E e t tm S"
    "q = pre @ q'" "issued t pre S" "st = A_OK \<longrightarrow> q' = [] \<and> t1 = tm"
    "st \<noteq> A_OK \<longrightarrow> q' \<noteq> [] \<and> gives_back e (CreditsUsed (packets tm (hd q'))) tm t1"
    using issue_loop_wf [OF E e w cu z] by blast
  define t' where "t' = (if st \<noteq> A_OK then complete_all st q' t1 else t1)"
  have f: "HTCIssuePackets E e q t = Some (st, t')" using i(1) by (simp add: HTCIssuePackets_def t'_def)
  have c: "wf E None [] t'" "completes E t1 t' q'"
    using complete_all_wf [OF i(2)] i(2,6) by (auto simp: t'_def)
  have s: "spent tm e \<le> spent t e + charged t S" "same_clients E t tm" using i(3) by (auto simp: sends_def)
  have pq: "set q \<inter> containers E = {}" using wf_hand [OF w] by auto
  obtain n where n: "gives_back e n tm t1" "charged t S + n \<le> charged t q"
  proof (cases "st = A_OK")
    case True
    then show ?thesis using that [of 0] i(4-6) charged_subseq [of S q t] cu by (auto simp: issued_def)
  next
    case False
    then obtain p r where p: "q' = p # r" using i(7) by (cases q') auto
    have "CreditsUsed (packets tm p) = CreditsUsed (packets t p)"
      using sends_credits(1) [OF i(3), of p] pq i(4) p by auto
    moreover have "charged t S \<le> charged t pre" using charged_subseq [of S pre t] i(4,5) cu by (auto simp: issued_def)
    moreover have "0 \<le> charged t r" using charged_nonneg [of r t] cu i(4) p by simp
    moreover have "charged t q = charged t pre + CreditsUsed (packets t p) + charged t r" using i(4) p by (simp add: charged_def)
    ultimately show ?thesis using that [of "CreditsUsed (packets tm p)"] i(7) False p by simp
  qed
  have sp: "spent t' e' = spent tm e'" for e' using c(2) n(1) by (simp add: completes_def gives_back_def spent_def)
  have ep: "EndPoint t' = (EndPoint tm)(e := (EndPoint tm e)\<lparr>TxCredits := TxCredits (EndPoint tm e) + n\<rparr>)"
    using c(2) n(1) by (simp add: completes_def gives_back_def)
  have o: "outstanding t' e' = outstanding tm e'" for e'
    using c(2) outstanding_gives_back [OF n(1)] by (simp add: completes_def)
  have d: "tx_done t' = tx_done t @ q'"
    using c(2) n(1) i(3) by (simp add: completes_def gives_back_def sends_def tx_done_def)
  have m: "mset S + mset q' \<subseteq># mset q" "\<not> HTC_ENABLE_BUNDLE t \<longrightarrow> mset S + mset q' = mset q" "subseq S q"
    using i(4,5) by (auto simp: issued_def list_emb_prefix dest: subseq_mset)
  have "EndPoint tm e = (EndPoint t e)\<lparr>TxLookupQueue := TxLookupQueue (EndPoint tm e),
     ul_outstanding_cnt := ul_outstanding_cnt (EndPoint tm e)\<rparr>" using i(3) by (simp add: sends_def)
  then have ee: "EndPoint t' e = (EndPoint t e)\<lparr>TxQueue := TxQueue (EndPoint t e), TxLookupQueue := TxLookupQueue (EndPoint tm e),
     ul_outstanding_cnt := ul_outstanding_cnt (EndPoint tm e), TxCredits := TxCredits (EndPoint tm e) + n\<rparr>"
    unfolding ep by (cases "EndPoint t e"; cases "EndPoint tm e") simp
  have oth: "EndPoint t' e' = EndPoint t e' \<and> outstanding t' e' = outstanding t e' \<and> spent t' e' = spent t e'"
    if "e' \<noteq> e" for e'
    using ep o sp i(3) that by (simp add: sends_def)
  have oe: "outstanding t' e = outstanding t e @ S" using o i(3) by (simp add: sends_def)
  have fl: "MaxMsgsPerHTCBundle t' = MaxMsgsPerHTCBundle t" "HTCStateFlags t' = HTCStateFlags t"
    using i(3) c(2) n(1) by (auto simp: sends_def completes_def gives_back_def)
  have "progress e (charged t q) t t' q S q'"
    unfolding progress_def
  proof (intro conjI)
    show "\<exists>tq lq n cr. EndPoint t' e = (EndPoint t e)\<lparr>TxQueue := tq, TxLookupQueue := lq, ul_outstanding_cnt := n, TxCredits := cr\<rparr>"
      using ee by blast
    show "spent t' e + TxCredits (EndPoint t' e) \<le> spent t e + TxCredits (EndPoint t e) + charged t q"
      using sp s(1) n(2) ep sends_endpoint(2) [OF i(3)] by simp
  qed (use oe oth d m fl in blast)+
  moreover have "TxQueue (EndPoint t' e) = TxQueue (EndPoint t e)" using ee by simp
  ultimately show ?thesis using f c(1) i(6) by blast
qed

section \<open>Taking packets\<close>

lemma take_wf:
  assumes w: "wf E None q t" and e: "e < ENDPOINT_MAX" and tq: "TxQueue (EndPoint t e) = p # ps"
    and ep: "EndPoint t' = (EndPoint t)(e := (EndPoint t e)\<lparr>TxQueue := ps, TxCredits := cr\<rparr>)" and cr: "0 \<le> cr"
    and same: "pBundleFreeTxList t' = pBundleFreeTxList t" "allocs t' = allocs t" "nbufs t' = nbufs t"
    and pk: "\<And>x. Tag (packets t' x) = Tag (packets t x) \<and> pQueueSave (packets t' x) = pQueueSave (packets t x) \<and>
      Endpoint (packets t' x) = Endpoint (packets t x) \<and> pNetBufContext (packets t' x) = pNetBufContext (packets t x) \<and>
      ActualLength (packets t' x) = ActualLength (packets t x)"
  shows "wf E None (q @ [p]) t'" and "\<And>e'. outstanding t' e' = outstanding t e'"
proof -
  have lq: "TxLookupQueue (EndPoint t' e') = TxLookupQueue (EndPoint t e')" for e' by (simp add: ep)
  show o: "outstanding t' e' = outstanding t e'" for e' by (rule outstanding_cong [OF lq]) (use pk in auto)
  have pl: "places t = places t' + {#p#}"
  proof -
    have "places t' + ep_places t e = places t + ep_places t' e"
      by (rule places_change [OF e]) (use o in \<open>simp add: ep_places_def ep\<close>)
    moreover have "ep_places t e = ep_places t' e + {#p#}" using o tq by (simp add: ep_places_def ep)
    ultimately show ?thesis by (simp add: ac_simps)
  qed
  have r: "room t' x = room t x" for x using same(3) pk [of x] by (simp add: room_def GET_HTC_PACKET_NET_BUF_CONTEXT_def)
  have b: "is_bundle t' = is_bundle t" using pk by (simp add: is_bundle_def fun_eq_iff)
  have "kinds E None t'" using wfD(1) [OF w] same pk lq unfolding kinds_def b by simp
  moreover have "clients E None (q @ [p]) t'"
  proof (rule clients_cong [OF wfD(2) [OF w]])
    show "places t' + in_hand None (q @ [p]) t' \<subseteq># places t + in_hand None q t" by (simp add: pl in_hand_def)
    show "Tag (packets t' x) = Tag (packets t x) \<and> pNetBufContext (packets t' x) = pNetBufContext (packets t x)" for x
      using pk by simp
    show "room t' x" if "e' < ENDPOINT_MAX" "x \<in> set (TxQueue (EndPoint t' e'))" for e' x
      using that r wf_queue_room [OF w that(1), of x] tq by (cases "e' = e") (auto simp: ep)
    show "room t' x" if "x \<in> set (q @ [p])" for x
      using that r wf_hand [OF w] wf_queue_room [OF w e, of x] tq by auto
  qed
  moreover have "eps t'" using wfD(3) [OF w] cr tq e by (auto simp: eps_def ep)
  ultimately show "wf E None (q @ [p]) t'" by (simp add: wf_def)
qed

text \<open>\<open>takes e t t' S c\<close>: the packets \<open>S\<close> have left the queue of \<open>e\<close>, charged with \<open>c\<close> credits.\<close>

definition takes :: "nat \<Rightarrow> HTC_TARGET \<Rightarrow> HTC_TARGET \<Rightarrow> addr list \<Rightarrow> bool" where
  "takes e t t' S \<longleftrightarrow>
     TxQueue (EndPoint t e) = S @ TxQueue (EndPoint t' e) \<and>
     EndPoint t' = (EndPoint t)(e := (EndPoint t e)\<lparr>TxQueue := TxQueue (EndPoint t' e), TxCredits := TxCredits (EndPoint t' e)\<rparr>) \<and>
     TxCredits (EndPoint t' e) + charged t' S = TxCredits (EndPoint t e) \<and>
     (\<forall>e'. outstanding t' e' = outstanding t e') \<and> (\<forall>p. p \<notin> set S \<longrightarrow> packets t' p = packets t p) \<and>
     (\<forall>p \<in> set S. 0 \<le> CreditsUsed (packets t' p)) \<and> (\<forall>p. frame_len t' p = frame_len t p) \<and>
     xfers t' = xfers t \<and> calls t' = calls t \<and>
     MaxMsgsPerHTCBundle t' = MaxMsgsPerHTCBundle t \<and> HTCStateFlags t' = HTCStateFlags t"

lemma takes_refl [simp]: "takes e t t []"
  by (simp add: takes_def charged_def)

lemma takes_trans:
  assumes a: "takes e t t' [p]" and b: "takes e t' t'' S" and "p \<notin> set S"
  shows "takes e t t'' (p # S)"
proof -
  have "packets t'' p = packets t' p" using b \<open>p \<notin> set S\<close> by (simp add: takes_def)
  then have c: "charged t'' (p # S) = charged t' [p] + charged t'' S" by (simp add: charged_def)
  have "EndPoint t'' = (EndPoint t)(e := (EndPoint t e)\<lparr>TxQueue := TxQueue (EndPoint t'' e), TxCredits := TxCredits (EndPoint t'' e)\<rparr>)"
  proof -
    have 1: "EndPoint t' = (EndPoint t)(e := (EndPoint t e)\<lparr>TxQueue := TxQueue (EndPoint t' e), TxCredits := TxCredits (EndPoint t' e)\<rparr>)"
      using a by (simp add: takes_def)
    have "EndPoint t'' = (EndPoint t')(e := (EndPoint t' e)\<lparr>TxQueue := TxQueue (EndPoint t'' e), TxCredits := TxCredits (EndPoint t'' e)\<rparr>)"
      using b by (simp add: takes_def)
    then show ?thesis by (subst (asm) 1, subst (asm) 1) simp
  qed
  with a b c \<open>packets t'' p = packets t' p\<close> show ?thesis
    unfolding takes_def by auto
qed

lemma credits_required_Some:
  "0 < csz \<Longrightarrow> \<exists>c \<ge> 1. credits_required n csz = Some c"
  by (auto simp: credits_required_def)

text \<open>The credit loop stops with an empty queue or with a packet that needs more credits than there are.\<close>

definition starved :: "nat \<Rightarrow> HTC_TARGET \<Rightarrow> bool" where
  "starved e t \<longleftrightarrow> (case TxQueue (EndPoint t e) of [] \<Rightarrow> True
     | p # _ \<Rightarrow> \<exists>c. Id (EndPoint t e) \<noteq> ENDPOINT_0 \<and>
         credits_required (frame_len t p) (TxCreditSize (EndPoint t e)) = Some c \<and> TxCredits (EndPoint t e) < c)"

lemma record_credits_same:
  "EndPoint (record_credits ty e t) = EndPoint t \<and> packets (record_credits ty e t) = packets t \<and>
   pBundleFreeTxList (record_credits ty e t) = pBundleFreeTxList t \<and> allocs (record_credits ty e t) = allocs t \<and>
   nbufs (record_credits ty e t) = nbufs t \<and> xfers (record_credits ty e t) = xfers t \<and>
   calls (record_credits ty e t) = calls t \<and> MaxMsgsPerHTCBundle (record_credits ty e t) = MaxMsgsPerHTCBundle t \<and>
   HTCStateFlags (record_credits ty e t) = HTCStateFlags t"
  by (simp add: record_credits_def htc_credit_record_def Let_def)

lemma take_step:
  assumes w: "wf E None q t" and e: "e < ENDPOINT_MAX" and tq: "TxQueue (EndPoint t e) = p # ps"
    and s: "EndPoint s = (EndPoint t)(e := (EndPoint t e)\<lparr>TxCredits := TxCredits (EndPoint t e) - c\<rparr>)"
      "packets s = packets t" "pBundleFreeTxList s = pBundleFreeTxList t" "allocs s = allocs t" "nbufs s = nbufs t"
      "xfers s = xfers t" "calls s = calls t" "MaxMsgsPerHTCBundle s = MaxMsgsPerHTCBundle t" "HTCStateFlags s = HTCStateFlags t"
    and c: "0 \<le> c" "c \<le> TxCredits (EndPoint t e)"
    and t': "t' = upd_pkt p f (upd_ep e (\<lambda>ep. ep\<lparr>TxQueue := ps\<rparr>) s)"
    and f: "\<And>k. CreditsUsed (f k) = c \<and> Tag (f k) = Tag k \<and> pQueueSave (f k) = pQueueSave k \<and>
      Endpoint (f k) = Endpoint k \<and> pNetBufContext (f k) = pNetBufContext k \<and> ActualLength (f k) = ActualLength k"
  shows "wf E None (q @ [p]) t'" and "takes e t t' [p]"
proof -
  have ep: "EndPoint t' = (EndPoint t)(e := (EndPoint t e)\<lparr>TxQueue := ps, TxCredits := TxCredits (EndPoint t e) - c\<rparr>)"
    by (cases "EndPoint t e") (simp add: t' upd_pkt_def upd_ep_def s)
  have pk: "packets t' = (packets t)(p := f (packets t p))" by (simp add: t' upd_pkt_def upd_ep_def s)
  note k = take_wf [OF w e tq ep]
  have fl: "frame_len t' x = frame_len t x" for x using pk f by (simp add: frame_len_def)
  show "wf E None (q @ [p]) t'" using k(1) c pk f s by (simp add: t' upd_pkt_def upd_ep_def)
  have "outstanding t' e' = outstanding t e'" for e' using k(2) c pk f s by (simp add: t' upd_pkt_def upd_ep_def)
  then show "takes e t t' [p]" using tq c pk f s ep fl
    by (simp add: takes_def charged_def) (simp add: t' upd_pkt_def upd_ep_def)
qed

lemma hand_not_queued:
  assumes "wf E None (q @ [p]) t" and "e < ENDPOINT_MAX"
  shows "p \<notin> set (TxQueue (EndPoint t e))"
proof
  assume "p \<in> set (TxQueue (EndPoint t e))"
  then have "1 \<le> count (places t) p" using queue_in_places [OF assms(2)] by (simp add: count_greater_eq_one_iff)
  moreover have "1 \<le> count (in_hand None (q @ [p]) t) p" by (simp add: in_hand_def)
  moreover have "count (places t + in_hand None (q @ [p]) t) p \<le> 1" using wfD(2) [OF assms(1)] by (simp add: clients_def)
  ultimately show False by (simp only: count_union)
qed

lemma credit_loop_wf:
  assumes e: "e < ENDPOINT_MAX"
  shows "wf E None q t \<Longrightarrow> TxQueue (EndPoint t e) = ps \<Longrightarrow>
    \<exists>S t'. credit_loop e ps q t = Some (q @ S, t') \<and> wf E None (q @ S) t' \<and> takes e t t' S \<and> starved e t'"
proof (induction ps arbitrary: q t)
  case Nil
  then show ?case by (intro exI [of _ "[]"] exI [of _ t]) (simp add: starved_def)
next
  case (Cons p ps)
  note w = Cons.prems(1) and tq = Cons.prems(2)
  let ?ep = "EndPoint t e"
  have id: "Id ?ep = e" "0 \<le> TxCredits ?ep" "0 < TxCreditSize ?ep" using wfD(3) [OF w] e tq by (auto simp: eps_def)
  obtain c where c: "1 \<le> c" "credits_required (frame_len t p) (TxCreditSize ?ep) = Some c"
    using credits_required_Some [OF id(3)] by blast
  have step: "\<exists>S t'. credit_loop e ps (q @ [p]) t1 = Some (q @ S, t') \<and> wf E None (q @ S) t' \<and> takes e t t' S \<and> starved e t'"
    if t1: "wf E None (q @ [p]) t1" "takes e t t1 [p]" for t1
  proof -
    have "TxQueue (EndPoint t1 e) = ps" using t1(2) tq by (simp add: takes_def)
    with Cons.IH [OF t1(1)] obtain S t' where i: "credit_loop e ps (q @ [p]) t1 = Some ((q @ [p]) @ S, t')"
      "wf E None ((q @ [p]) @ S) t'" "takes e t1 t' S" "starved e t'" by blast
    have "p \<notin> set S" using hand_not_queued [OF t1(1) e] i(3) by (auto simp: takes_def)
    with takes_trans [OF t1(2) i(3)] i show ?thesis by (intro exI [of _ "p # S"] exI [of _ t']) simp
  qed
  consider (zero) "Id ?ep = ENDPOINT_0" | (poor) "Id ?ep \<noteq> ENDPOINT_0" "TxCredits ?ep < c"
    | (rich) "Id ?ep \<noteq> ENDPOINT_0" "c \<le> TxCredits ?ep" by linarith
  then show ?case
  proof cases
    case zero
    define t1 where "t1 = upd_pkt p (\<lambda>k. k\<lparr>CreditsUsed := 0, SendFlags := 0\<rparr>) (upd_ep e (\<lambda>ep. ep\<lparr>TxQueue := ps\<rparr>) t)"
    have "credit_loop e (p # ps) q t = credit_loop e ps (q @ [p]) t1" using zero c by (simp add: t1_def)
    moreover have "EndPoint t = (EndPoint t)(e := ?ep\<lparr>TxCredits := TxCredits ?ep - 0\<rparr>)" by simp
    note take_step [OF w e tq this, where t' = t1 and f = "\<lambda>k. k\<lparr>CreditsUsed := 0, SendFlags := 0\<rparr>"]
    then have "wf E None (q @ [p]) t1" "takes e t t1 [p]" using id(2) by (simp_all add: t1_def)
    ultimately show ?thesis using step by simp
  next
    case poor
    then have "credit_loop e (p # ps) q t = Some (q, t)" using c by simp
    moreover have "starved e t" using poor c tq by (simp add: starved_def)
    ultimately show ?thesis using w by (intro exI [of _ "[]"] exI [of _ t]) simp
  next
    case rich
    define f where "f = (if TxCredits ?ep - c \<le> TxCreditsPerMaxMsg ?ep then HTC_FLAGS_NEED_CREDIT_UPDATE else 0)"
    define s0 where "s0 = upd_ep e (\<lambda>ep. ep\<lparr>TxCredits := TxCredits ep - c\<rparr>) t"
    define s where "s = (if TxCredits ?ep - c \<le> TxCreditsPerMaxMsg ?ep \<and> ServiceID ?ep = WMI_CONTROL_SVC
      then record_credits HTC_REQUEST_CREDIT e s0 else s0)"
    define t1 where "t1 = upd_pkt p (\<lambda>k. k\<lparr>CreditsUsed := c, SendFlags := f\<rparr>) (upd_ep e (\<lambda>ep. ep\<lparr>TxQueue := ps\<rparr>) s)"
    have "TxCredits (EndPoint s0 e) = TxCredits ?ep - c" by (simp add: s0_def upd_ep_def)
    then have "credit_loop e (p # ps) q t = credit_loop e ps (q @ [p]) t1" using rich c
      by (auto simp: t1_def s_def f_def s0_def Let_def)
    moreover have "EndPoint s = (EndPoint t)(e := ?ep\<lparr>TxCredits := TxCredits ?ep - c\<rparr>)"
      by (simp add: s_def s0_def record_credits_same upd_ep_def)
    note take_step [OF w e tq this, where t' = t1 and f = "\<lambda>k. k\<lparr>CreditsUsed := c, SendFlags := f\<rparr>"]
    then have "wf E None (q @ [p]) t1" "takes e t t1 [p]" using c rich
      by (simp_all add: t1_def s_def s0_def record_credits_same upd_ep_def)
    ultimately show ?thesis using step by simp
  qed
qed

lemma resource_loop_wf:
  assumes e: "e < ENDPOINT_MAX"
  shows "wf E None q t \<Longrightarrow> TxQueue (EndPoint t e) = ps \<Longrightarrow>
    \<exists>S t'. resource_loop e ps n q t = (q @ S, t') \<and> wf E None (q @ S) t' \<and> takes e t t' S \<and>
      (0 < n \<and> ps \<noteq> [] \<longrightarrow> S \<noteq> [])"
proof (induction ps arbitrary: q t n)
  case Nil
  then show ?case by (intro exI [of _ "[]"] exI [of _ t]) simp
next
  case (Cons p ps)
  note w = Cons.prems(1) and tq = Cons.prems(2)
  show ?case
  proof (cases "0 < n")
    case False
    then show ?thesis using w by (intro exI [of _ "[]"] exI [of _ t]) simp
  next
    case True
    define t1 where "t1 = upd_pkt p (\<lambda>k. k\<lparr>SendFlags := 0, CreditsUsed := 0\<rparr>) (upd_ep e (\<lambda>ep. ep\<lparr>TxQueue := ps\<rparr>) t)"
    have c0: "0 \<le> TxCredits (EndPoint t e)" using wfD(3) [OF w] e by (simp add: eps_def)
    have "EndPoint t = (EndPoint t)(e := (EndPoint t e)\<lparr>TxCredits := TxCredits (EndPoint t e) - 0\<rparr>)" by simp
    note take_step [OF w e tq this, where t' = t1 and f = "\<lambda>k. k\<lparr>SendFlags := 0, CreditsUsed := 0\<rparr>"]
    then have t1: "wf E None (q @ [p]) t1" "takes e t t1 [p]" using c0 by (simp_all add: t1_def)
    have "TxQueue (EndPoint t1 e) = ps" using t1(2) tq by (simp add: takes_def)
    define m where "m = n - int (if Flags (packets t1 p) AND HTC_TX_PACKET_FLAG_FIXUP_NETBUF \<noteq> 0 then 1
      else adf_nbuf_get_num_frags (pkt_nbuf t1 p))"
    have u: "resource_loop e (p # ps) n q t = resource_loop e ps m (q @ [p]) t1"
      using True by (simp add: t1_def m_def Let_def)
    from \<open>TxQueue (EndPoint t1 e) = ps\<close> Cons.IH [OF t1(1)]
    obtain S t' where i: "resource_loop e ps m (q @ [p]) t1 = ((q @ [p]) @ S, t')"
      "wf E None ((q @ [p]) @ S) t'" "takes e t1 t' S" by blast
    have "p \<notin> set S" using hand_not_queued [OF t1(1) e] i(3) by (auto simp: takes_def)
    with takes_trans [OF t1(2) i(3)] i u show ?thesis
      by (intro exI [of _ "p # S"] exI [of _ t']) simp
  qed
qed

section \<open>Draining\<close>

lemma takes_progress:
  assumes a: "takes e t t1 q" and b: "progress e (charged t1 q) t1 t2 pre S D"
  shows "progress e 0 t t2 pre S D"
proof -
  have o: "outstanding t1 e' = outstanding t e'" "spent t1 e' = spent t e'" "tx_done t1 = tx_done t" for e'
    using a by (auto simp: takes_def spent_def tx_done_def)
  have ep: "EndPoint t1 = (EndPoint t)(e := (EndPoint t e)\<lparr>TxQueue := TxQueue (EndPoint t1 e), TxCredits := TxCredits (EndPoint t1 e)\<rparr>)"
    and fl: "HTC_ENABLE_BUNDLE t1 = HTC_ENABLE_BUNDLE t" "MaxMsgsPerHTCBundle t1 = MaxMsgsPerHTCBundle t" "HTCStateFlags t1 = HTCStateFlags t"
    and cr: "TxCredits (EndPoint t1 e) + charged t1 q = TxCredits (EndPoint t e)"
    using a by (auto simp: takes_def HTC_ENABLE_BUNDLE_def)
  obtain tq lq n c where e2: "EndPoint t2 e = (EndPoint t1 e)\<lparr>TxQueue := tq, TxLookupQueue := lq, ul_outstanding_cnt := n, TxCredits := c\<rparr>"
    using b by (auto simp: progress_def)
  have "EndPoint t1 e = (EndPoint t e)\<lparr>TxQueue := TxQueue (EndPoint t1 e), TxCredits := TxCredits (EndPoint t1 e)\<rparr>"
    by (subst ep) simp
  then have "EndPoint t2 e = (EndPoint t e)\<lparr>TxQueue := tq, TxLookupQueue := lq, ul_outstanding_cnt := n, TxCredits := c\<rparr>"
    unfolding e2 by (cases "EndPoint t e"; cases "EndPoint t1 e") simp
  then have "\<exists>tq lq n cr. EndPoint t2 e = (EndPoint t e)\<lparr>TxQueue := tq, TxLookupQueue := lq, ul_outstanding_cnt := n, TxCredits := cr\<rparr>"
    by blast
  moreover have "EndPoint t1 e' = EndPoint t e'" if "e' \<noteq> e" for e' using that by (subst ep) simp
  ultimately show ?thesis using b o fl cr unfolding progress_def
    by (intro conjI) simp_all
qed

lemma progress_trans:
  assumes a: "progress e c t t1 q S D" and b: "progress e d t1 t2 r S' D'"
  shows "progress e (c + d) t t2 (q @ r) (S @ S') (D @ D')"
proof -
  obtain tq lq n cr where 1: "EndPoint t1 e = (EndPoint t e)\<lparr>TxQueue := tq, TxLookupQueue := lq, ul_outstanding_cnt := n, TxCredits := cr\<rparr>"
    using a by (auto simp: progress_def)
  obtain tq' lq' n' cr' where 2: "EndPoint t2 e = (EndPoint t1 e)\<lparr>TxQueue := tq', TxLookupQueue := lq', ul_outstanding_cnt := n', TxCredits := cr'\<rparr>"
    using b by (auto simp: progress_def)
  have "EndPoint t2 e = (EndPoint t e)\<lparr>TxQueue := tq', TxLookupQueue := lq', ul_outstanding_cnt := n', TxCredits := cr'\<rparr>"
    using 1 2 by (cases "EndPoint t e"; cases "EndPoint t1 e") simp
  then have "\<exists>tq lq n cr. EndPoint t2 e = (EndPoint t e)\<lparr>TxQueue := tq, TxLookupQueue := lq, ul_outstanding_cnt := n, TxCredits := cr\<rparr>"
    by blast
  moreover have "HTC_ENABLE_BUNDLE t1 = HTC_ENABLE_BUNDLE t" using a by (simp add: progress_def HTC_ENABLE_BUNDLE_def)
  moreover have "mset (S @ S') + mset (D @ D') = (mset S + mset D) + (mset S' + mset D')" by (simp add: ac_simps)
  moreover have "mset S + mset D + (mset S' + mset D') \<subseteq># mset q + mset r"
    using a b by (intro subset_mset.add_mono) (auto simp: progress_def)
  moreover have "subseq (S @ S') (q @ r)" using a b by (auto simp: progress_def intro: list_emb_append_mono)
  ultimately show ?thesis using a b unfolding progress_def
    by (intro conjI) (simp_all add: ac_simps)
qed

lemma progress_refl [simp]: "progress e 0 t t [] [] []"
proof -
  have "EndPoint t e = (EndPoint t e)\<lparr>TxQueue := TxQueue (EndPoint t e), TxLookupQueue := TxLookupQueue (EndPoint t e),
    ul_outstanding_cnt := ul_outstanding_cnt (EndPoint t e), TxCredits := TxCredits (EndPoint t e)\<rparr>" by simp
  then show ?thesis unfolding progress_def by (simp; metis)
qed

lemma progress_static:
  assumes "progress e c t t' q S D"
  shows "TxCreditSize (EndPoint t' e) = TxCreditSize (EndPoint t e)"
    and "TxCreditFlowEnabled (EndPoint t' e) = TxCreditFlowEnabled (EndPoint t e)"
    and "TxProcessCount (EndPoint t' e) = TxProcessCount (EndPoint t e)"
proof -
  obtain tq lq n cr where "EndPoint t' e = (EndPoint t e)\<lparr>TxQueue := tq, TxLookupQueue := lq, ul_outstanding_cnt := n, TxCredits := cr\<rparr>"
    using assms by (auto simp: progress_def)
  then show "TxCreditSize (EndPoint t' e) = TxCreditSize (EndPoint t e)"
    "TxCreditFlowEnabled (EndPoint t' e) = TxCreditFlowEnabled (EndPoint t e)"
    "TxProcessCount (EndPoint t' e) = TxProcessCount (EndPoint t e)" by simp_all
qed

text \<open>Packets are taken by the one or the other loop.\<close>

lemma get_packets:
  assumes w: "wf E None [] t" and e: "e < ENDPOINT_MAX" and n: "TxCreditFlowEnabled (EndPoint t e) \<or> 0 < n"
  shows "\<exists>q t'. (if TxCreditFlowEnabled (EndPoint t e) then GetHTCSendPacketsCreditBased e [] t
      else Some (GetHTCSendPackets e [] n t)) = Some (q, t') \<and> wf E None q t' \<and> takes e t t' q \<and>
    (TxCreditFlowEnabled (EndPoint t e) \<longrightarrow> starved e t') \<and>
    (\<not> TxCreditFlowEnabled (EndPoint t e) \<longrightarrow> TxQueue (EndPoint t e) \<noteq> [] \<longrightarrow> q \<noteq> [])"
proof (cases "TxCreditFlowEnabled (EndPoint t e)")
  case True
  then show ?thesis using credit_loop_wf [OF e w refl] by (auto simp: GetHTCSendPacketsCreditBased_def)
next
  case False
  then show ?thesis using resource_loop_wf [OF e w refl, of n] n by (auto simp: GetHTCSendPackets_def)
qed

lemma takes_size:
  assumes "takes e t t' S"
  shows "TxCreditSize (EndPoint t' e) = TxCreditSize (EndPoint t e)"
    and "TxCreditFlowEnabled (EndPoint t' e) = TxCreditFlowEnabled (EndPoint t e)"
proof -
  have "EndPoint t' = (EndPoint t)(e := (EndPoint t e)\<lparr>TxQueue := TxQueue (EndPoint t' e), TxCredits := TxCredits (EndPoint t' e)\<rparr>)"
    using assms by (simp add: takes_def)
  from fun_cong [OF this, of e] show "TxCreditSize (EndPoint t' e) = TxCreditSize (EndPoint t e)"
    "TxCreditFlowEnabled (EndPoint t' e) = TxCreditFlowEnabled (EndPoint t e)"
    by (cases "EndPoint t e"; cases "EndPoint t' e"; simp)+
qed

lemma drain_wf:
  assumes E: "env_ok E" and e: "e < ENDPOINT_MAX"
  shows "wf E None [] t \<Longrightarrow> TxCreditFlowEnabled (EndPoint t e) \<or> 0 < n \<Longrightarrow>
    \<exists>t' pre S D. drain E e n t = Some t' \<and> wf E None [] t' \<and> TxQueue (EndPoint t e) = pre @ TxQueue (EndPoint t' e) \<and>
      progress e 0 t t' pre S D \<and> (if TxCreditFlowEnabled (EndPoint t e) then starved e t' else TxQueue (EndPoint t' e) = [])"
proof (induction "length (TxQueue (EndPoint t e))" arbitrary: t n rule: less_induct)
  case less
  note w = less(2)
  show ?case
  proof (cases "TxQueue (EndPoint t e) = []")
    case True
    then show ?thesis using w
      by (intro exI [of _ t] exI [of _ "[]"]) (simp add: drain.simps starved_def)
  next
    case False
    obtain q t1 where g: "(if TxCreditFlowEnabled (EndPoint t e) then GetHTCSendPacketsCreditBased e [] t
        else Some (GetHTCSendPackets e [] n t)) = Some (q, t1)" "wf E None q t1" "takes e t t1 q"
      "TxCreditFlowEnabled (EndPoint t e) \<longrightarrow> starved e t1" "\<not> TxCreditFlowEnabled (EndPoint t e) \<longrightarrow> q \<noteq> []"
      using get_packets [OF w e less(3)] False by blast
    have z: "0 < TxCreditSize (EndPoint t1 e)" using w e False takes_size [OF g(3)] by (auto simp: wf_def eps_def)
    show ?thesis
    proof (cases "q = []")
      case True
      have "drain E e n t = Some t1" using False g(1) True by (subst drain.simps) simp
      moreover have "progress e 0 t t1 [] [] []"
        using takes_progress [OF g(3) [unfolded True], of t1 "[]" "[]"] by (simp add: charged_def)
      ultimately show ?thesis using g True
        by (intro exI [of _ t1] exI [of _ "[]"]) (simp add: takes_def)
    next
      case ne: False
      have cu: "\<forall>p \<in> set q. 0 \<le> CreditsUsed (packets t1 p)" using g(3) by (simp add: takes_def)
      obtain st t2 S D where i: "HTCIssuePackets E e q t1 = Some (st, t2)" "wf E None [] t2"
        "progress e (charged t1 q) t1 t2 q S D" "TxQueue (EndPoint t2 e) = TxQueue (EndPoint t1 e)"
        using issue_wf [OF g(2) E e cu z] by blast
      note p = takes_progress [OF g(3) i(3)]
      note fl = progress_static(2) [OF p]
      have tq: "TxQueue (EndPoint t e) = q @ TxQueue (EndPoint t2 e)" using g(3) i(4) by (simp add: takes_def)
      let ?n = "if TxCreditFlowEnabled (EndPoint t2 e) then n else HIFGetFreeQueueNumber (UL_PipeID (EndPoint t2 e))"
      have "length (TxQueue (EndPoint t2 e)) < length (TxQueue (EndPoint t e))" using tq ne by simp
      moreover have "TxCreditFlowEnabled (EndPoint t2 e) \<or> 0 < ?n" by (simp add: HIFGetFreeQueueNumber_def)
      ultimately obtain t' pre S' D' where d: "drain E e ?n t2 = Some t'" "wf E None [] t'"
        "TxQueue (EndPoint t2 e) = pre @ TxQueue (EndPoint t' e)" "progress e 0 t2 t' pre S' D'"
        "if TxCreditFlowEnabled (EndPoint t2 e) then starved e t' else TxQueue (EndPoint t' e) = []"
        using less(1) [of t2 ?n] i(2) by blast
      have "drain E e n t = Some t'" using False g(1) ne i(1) d(1)
        by (subst drain.simps) (simp split del: if_split cong: if_cong)
      then show ?thesis using d tq progress_trans [OF p d(4)] fl
        by (intro exI [of _ t'] exI [of _ "q @ pre"] exI [of _ "S @ S'"] exI [of _ "D @ D'"]) simp
    qed
  qed
qed

end
