(* ===== verification/Htc_Try.thy ===== *)
theory Htc_Try
  imports Htc_Drain
begin

text \<open>
  HTCTrySend, HTCSendPktsMultiple and HTCSendDataPkt as a whole: they return, keep the invariant, and
  account for every packet and every credit.
\<close>

section \<open>Queueing\<close>

lemma enqueue_wf:
  assumes w: "wf E None q t" and e: "e < ENDPOINT_MAX" and z: "q \<noteq> [] \<longrightarrow> 0 < TxCreditSize (EndPoint t e)"
    and tq: "mset tq = mset (TxQueue (EndPoint t e)) + mset q"
    and t': "t' = upd_ep e (\<lambda>ep. ep\<lparr>TxQueue := tq, TxProcessCount := n\<rparr>) t"
  shows "wf E None [] t'" and "\<And>e'. outstanding t' e' = outstanding t e'" and "places t' = places t + mset q"
proof -
  have lq: "TxLookupQueue (EndPoint t' e') = TxLookupQueue (EndPoint t e')" for e' by (simp add: t' upd_ep_def)
  have pk: "packets t' = packets t" "nbufs t' = nbufs t" "pBundleFreeTxList t' = pBundleFreeTxList t" "allocs t' = allocs t"
    by (simp_all add: t' upd_ep_def)
  show o: "outstanding t' e' = outstanding t e'" for e' by (rule outstanding_cong [OF lq]) (use pk in auto)
  show pl: "places t' = places t + mset q"
  proof -
    have "places t' + ep_places t e = places t + ep_places t' e"
      by (rule places_change [OF e]) (use o in \<open>simp add: ep_places_def t' upd_ep_def\<close>)
    moreover have "ep_places t' e = ep_places t e + mset q" using o tq by (simp add: ep_places_def t' upd_ep_def)
    ultimately show ?thesis by (simp add: ac_simps)
  qed
  have b: "is_bundle t' = is_bundle t" using pk by (simp add: is_bundle_def fun_eq_iff)
  have "kinds E None t'" using wfD(1) [OF w] pk lq unfolding kinds_def b by simp
  moreover have "clients E None [] t'"
  proof (rule clients_cong [OF wfD(2) [OF w]])
    show "places t' + in_hand None [] t' \<subseteq># places t + in_hand None q t" using pl by (simp add: in_hand_def)
    have s: "set tq = set (TxQueue (EndPoint t e)) \<union> set q" using arg_cong [OF tq, of set_mset] by simp
    show "room t' x" if "e' < ENDPOINT_MAX" "x \<in> set (TxQueue (EndPoint t' e'))" for e' x
      using that wf_queue_room [OF w that(1), of x] wf_hand [OF w, of x] room_eq [OF pk(1,2)] s
      by (cases "e' = e") (auto simp: t' upd_ep_def)
  qed (use pk in auto)
  moreover have "eps t'" using wfD(3) [OF w] tq z e by (auto simp: eps_def t' upd_ep_def)
  ultimately show "wf E None [] t'" by (simp add: wf_def)
qed

section \<open>HTCTrySend\<close>

text \<open>
  The accounting of an operation on the endpoint \<open>e\<close>: its queue loses a prefix \<open>pre\<close> of what it held
  with the new packets \<open>q\<close>, of which \<open>S\<close> are issued in order and \<open>D\<close> completed.
\<close>

definition accounts :: "nat \<Rightarrow> int \<Rightarrow> HTC_TARGET \<Rightarrow> HTC_TARGET \<Rightarrow> addr list \<Rightarrow> addr list \<Rightarrow> addr list \<Rightarrow> addr list \<Rightarrow> bool" where
  "accounts e c t t' q pre S D \<longleftrightarrow>
     TxQueue (EndPoint t e) @ q = pre @ TxQueue (EndPoint t' e) \<and> progress e c t t' pre S D"

definition drained :: "nat \<Rightarrow> HTC_TARGET \<Rightarrow> bool" where
  "drained e t \<longleftrightarrow> (if TxCreditFlowEnabled (EndPoint t e) then starved e t else TxQueue (EndPoint t e) = [])"

lemma progress_counts:
  assumes p: "progress e c t1 t2 q S D"
    and s: "EndPoint t1 = (EndPoint t)(e := (EndPoint t e)\<lparr>TxQueue := tq, TxProcessCount := n\<rparr>)" "xfers t1 = xfers t"
      "calls t1 = calls t" "MaxMsgsPerHTCBundle t1 = MaxMsgsPerHTCBundle t" "HTCStateFlags t1 = HTCStateFlags t"
      "\<And>e'. outstanding t1 e' = outstanding t e'"
    and t': "t' = upd_ep e (\<lambda>ep. ep\<lparr>TxProcessCount := TxProcessCount (EndPoint t e)\<rparr>) t2"
  shows "progress e c t t' q S D" and "TxQueue (EndPoint t' e) = TxQueue (EndPoint t2 e)"
proof -
  obtain tq' lq m cr where e2: "EndPoint t2 e = (EndPoint t1 e)\<lparr>TxQueue := tq', TxLookupQueue := lq, ul_outstanding_cnt := m, TxCredits := cr\<rparr>"
    using p by (auto simp: progress_def)
  have "EndPoint t' e = (EndPoint t e)\<lparr>TxQueue := tq', TxLookupQueue := lq, ul_outstanding_cnt := m, TxCredits := cr\<rparr>"
    using s(1) e2 unfolding t' by (cases "EndPoint t e") (simp add: upd_ep_def)
  then have "\<exists>tq lq n cr. EndPoint t' e = (EndPoint t e)\<lparr>TxQueue := tq, TxLookupQueue := lq, ul_outstanding_cnt := n, TxCredits := cr\<rparr>"
    by blast
  moreover have "outstanding t' e' = outstanding t2 e'" for e' by (rule outstanding_cong) (auto simp: t' upd_ep_def)
  moreover have "spent t' e' = spent t2 e'" "spent t1 e' = spent t e'" for e' using s by (auto simp: spent_def t' upd_ep_def)
  moreover have "EndPoint t' e' = EndPoint t2 e'" "EndPoint t1 e' = EndPoint t e'" if "e' \<noteq> e" for e'
    using that s by (auto simp: t' upd_ep_def)
  moreover have "tx_done t' = tx_done t2" "tx_done t1 = tx_done t" using s by (auto simp: tx_done_def t' upd_ep_def)
  moreover have "HTC_ENABLE_BUNDLE t1 = HTC_ENABLE_BUNDLE t" using s by (simp add: HTC_ENABLE_BUNDLE_def)
  moreover have "MaxMsgsPerHTCBundle t' = MaxMsgsPerHTCBundle t2" "HTCStateFlags t' = HTCStateFlags t2"
    "TxCredits (EndPoint t' e) = TxCredits (EndPoint t2 e)" "TxCredits (EndPoint t1 e) = TxCredits (EndPoint t e)"
    using s by (auto simp: t' upd_ep_def)
  ultimately show "progress e c t t' q S D" using p s unfolding progress_def by (intro conjI) simp_all
  show "TxQueue (EndPoint t' e) = TxQueue (EndPoint t2 e)" by (simp add: t' upd_ep_def)
qed

lemma wf_count:
  assumes "wf E None [] t"
  shows "wf E None [] (upd_ep e (\<lambda>ep. ep\<lparr>TxProcessCount := n\<rparr>) t)"
  by (rule wf_cong(1) [OF assms])
    (use wfD(3) [OF assms] in \<open>auto simp: eps_def upd_ep_def room_def GET_HTC_PACKET_NET_BUF_CONTEXT_def\<close>)

lemma drained_count: "drained e (upd_ep e (\<lambda>ep. ep\<lparr>TxProcessCount := n\<rparr>) t) = drained e t"
  by (cases "TxQueue (EndPoint t e)") (simp_all add: drained_def starved_def frame_len_def upd_ep_def)

text \<open>The callers' packets all fit, or there is no callback to ask.\<close>

definition fits :: "nat \<Rightarrow> addr list \<Rightarrow> HTC_TARGET \<Rightarrow> bool" where
  "fits e q t \<longleftrightarrow> EpSendFull (EpCallBacks (EndPoint t e)) = None \<or>
     int (length (TxQueue (EndPoint t e))) + int (length q) \<le> MaxTxQueueDepth (EndPoint t e)"

lemma accept_fits:
  assumes f: "fits e q t" and q: "q \<noteq> []"
  shows "accept_packets e (Some q) t = Some (HTC_SEND_QUEUE_OK, q, [], t)"
proof -
  let ?ep = "EndPoint t e"
  define d where "d = int (length (TxQueue ?ep))"
  have "(if (if MaxTxQueueDepth ?ep \<le> d then int (length q) else d + int (length q) - MaxTxQueueDepth ?ep) \<le> 0
     then None else EpSendFull (EpCallBacks ?ep)) = None"
    using f q by (cases q) (auto simp: fits_def d_def)
  then show ?thesis using q unfolding accept_packets_def d_def Let_def by simp
qed

lemma try_send_wf:
  assumes w: "wf E None q t" and E: "env_ok E" and e: "e < ENDPOINT_MAX" and n: "TxProcessCount (EndPoint t e) = 0"
    and q: "q \<noteq> [] \<longrightarrow> fits e q t \<and> 0 < TxCreditSize (EndPoint t e)" and c: "c = (if q = [] then None else Some q)"
  shows "\<exists>t' pre S D. HTCTrySend E e c t = Some (HTC_SEND_QUEUE_OK, [], t') \<and> wf E None [] t' \<and>
    accounts e 0 t t' q pre S D \<and> drained e t'"
proof -
  have a: "accept_packets e c t = Some (HTC_SEND_QUEUE_OK, q, [], t)"
    using c q accept_fits [of e q t] by (auto simp: accept_packets_def)
  define t1 where "t1 = upd_ep e (\<lambda>ep. ep\<lparr>TxQueue := TxQueue ep @ q, TxProcessCount := TxProcessCount ep + 1\<rparr>) t"
  have t1: "t1 = upd_ep e (\<lambda>ep. ep\<lparr>TxQueue := TxQueue (EndPoint t e) @ q, TxProcessCount := 1\<rparr>) t"
    using n by (simp add: t1_def upd_ep_def)
  note w1 = enqueue_wf [OF w e _ _ t1]
  define m where "m = (if \<not> TxCreditFlowEnabled (EndPoint t e) then HIFGetFreeQueueNumber (UL_PipeID (EndPoint t e)) else 0)"
  have "wf E None [] t1" using w1(1) q by simp
  moreover have "TxCreditFlowEnabled (EndPoint t1 e) \<or> 0 < m"
    by (auto simp: t1 upd_ep_def m_def HIFGetFreeQueueNumber_def)
  ultimately obtain t2 pre S D where d: "drain E e m t1 = Some t2" "wf E None [] t2"
    "TxQueue (EndPoint t1 e) = pre @ TxQueue (EndPoint t2 e)" "progress e 0 t1 t2 pre S D"
    "if TxCreditFlowEnabled (EndPoint t1 e) then starved e t2 else TxQueue (EndPoint t2 e) = []"
    using drain_wf [OF E e] by blast
  define t' where "t' = upd_ep e (\<lambda>ep. ep\<lparr>TxProcessCount := 0\<rparr>) t2"
  have "HTCTrySend E e c t = Some (HTC_SEND_QUEUE_OK, [], t')"
    unfolding HTCTrySend_def a using d(1) n by (simp add: t1_def m_def t'_def Let_def upd_ep_def cong: if_cong)
  moreover have "progress e 0 t t' pre S D \<and> TxQueue (EndPoint t' e) = TxQueue (EndPoint t2 e)"
  proof -
    have o: "outstanding t1 e' = outstanding t e'" for e' using w1(2) q by simp
    have "t' = upd_ep e (\<lambda>ep. ep\<lparr>TxProcessCount := TxProcessCount (EndPoint t e)\<rparr>) t2" using n by (simp add: t'_def)
    from progress_counts [OF d(4) _ _ _ _ _ o this] show ?thesis by (simp add: t1 upd_ep_def)
  qed
  moreover have "wf E None [] t'" unfolding t'_def by (rule wf_count [OF d(2)])
  moreover have "drained e t'"
    unfolding t'_def drained_count using d(5) progress_static(2) [OF d(4)] by (simp add: drained_def)
  moreover have "TxQueue (EndPoint t e) @ q = pre @ TxQueue (EndPoint t2 e)" using d(3) by (simp add: t1 upd_ep_def)
  ultimately show ?thesis by (auto simp: accounts_def)
qed

section \<open>HTCSendPktsMultiple\<close>

text \<open>
  What a client has to bring: packets that are in no queue, with buffers of their own that have room
  for the header, for an endpoint that is connected and that no other thread is draining.
\<close>

definition fresh :: "htc_env \<Rightarrow> HTC_TARGET \<Rightarrow> addr \<Rightarrow> bool" where
  "fresh E t p \<longleftrightarrow> p \<notin> containers E \<and> \<not> is_bundle t p \<and> unat (ActualLength (packets t p)) < 65536 \<and>
     HTC_HDR_LENGTH \<le> length (nb_room (pkt_nbuf t p)) \<and> nb_extra (pkt_nbuf t p) = []"

definition sendable :: "htc_env \<Rightarrow> addr list \<Rightarrow> HTC_TARGET \<Rightarrow> bool" where
  "sendable E q t \<longleftrightarrow> distinct q \<and> (\<forall>p \<in> set q. fresh E t p \<and> p \<notin># places t) \<and>
     inj_on (GET_HTC_PACKET_NET_BUF_CONTEXT t) (set_mset (places t + mset q))"

definition idle :: "nat \<Rightarrow> HTC_TARGET \<Rightarrow> bool" where
  "idle e t \<longleftrightarrow> e < ENDPOINT_MAX \<and> ServiceID (EndPoint t e) \<noteq> 0 \<and> 0 < TxCreditSize (EndPoint t e) \<and>
     TxProcessCount (EndPoint t e) = 0"

lemma push_defined:
  assumes "n \<le> length (nb_room b)" and "nb_extra b = []"
  shows "\<exists>b'. adf_nbuf_push_head n b = Some b' \<and> nb_extra b' = [] \<and> length (nb_data b') = n + length (nb_data b)"
  using assms by (simp add: adf_nbuf_push_head_def Let_def)

lemma write_defined:
  assumes "4 * i + 4 \<le> length (nb_data b)" and "nb_extra b = []"
  shows "\<exists>b'. HTC_WRITE32 i v b = Some b' \<and> nb_extra b' = [] \<and> length (nb_data b') = length (nb_data b)"
  using assms by (auto simp: HTC_WRITE32_def write32_def)

lemma prepare_defined:
  assumes f: "fresh E t p"
  shows "\<exists>t' b s. prepare_packet e p t = Some t' \<and> nbufs t' = (nbufs t)(pNetBufContext (packets t p) := b) \<and>
    HTC_HDR_LENGTH \<le> length (hd (adf_nbuf_frags b)) \<and>
    EndPoint t' = (EndPoint t)(e := (EndPoint t e)\<lparr>SeqNo := SeqNo (EndPoint t e) + 1\<rparr>) \<and>
    packets t' = (packets t)(p := (packets t p)\<lparr>pkt_SeqNo := s,
      Flags := Flags (packets t p) OR HTC_TX_PACKET_FLAG_FIXUP_NETBUF\<rparr>) \<and>
    xfers t' = xfers t \<and> calls t' = calls t \<and> MaxMsgsPerHTCBundle t' = MaxMsgsPerHTCBundle t \<and>
    HTCStateFlags t' = HTCStateFlags t \<and> pBundleFreeTxList t' = pBundleFreeTxList t \<and> allocs t' = allocs t"
proof -
  let ?k = "packets t p" and ?s = "SeqNo (EndPoint t e)"
  let ?w0 = "SM (ActualLength ?k) HTC_FRAME_HDR_PAYLOADLEN OR SM (word_of_nat (Endpoint ?k)) HTC_FRAME_HDR_ENDPOINTID"
  let ?w1 = "SM (ucast ?s) HTC_FRAME_HDR_CONTROLBYTES1"
  obtain b0 where b0: "adf_nbuf_push_head HTC_HDR_LENGTH (pkt_nbuf t p) = Some b0" "nb_extra b0 = []"
    "HTC_HDR_LENGTH \<le> length (nb_data b0)"
    using push_defined [of HTC_HDR_LENGTH "pkt_nbuf t p"] f by (auto simp: fresh_def)
  obtain b1 where b1: "HTC_WRITE32 0 ?w0 b0 = Some b1" "nb_extra b1 = []" "HTC_HDR_LENGTH \<le> length (nb_data b1)"
    using write_defined [of 0 b0 ?w0] b0 by (auto simp: HTC_HDR_LENGTH_def)
  obtain b2 where b2: "HTC_WRITE32 1 ?w1 b1 = Some b2" "nb_extra b2 = []" "HTC_HDR_LENGTH \<le> length (nb_data b2)"
    using write_defined [of 1 b1 ?w1] b1 by (auto simp: HTC_HDR_LENGTH_def)
  define t' where "t' = upd_pkt p (\<lambda>k. k\<lparr>Flags := Flags k OR HTC_TX_PACKET_FLAG_FIXUP_NETBUF\<rparr>)
    (set_nb (pNetBufContext ?k) (adf_nbuf_map b2) (upd_ep e (\<lambda>ep. ep\<lparr>SeqNo := SeqNo ep + 1\<rparr>)
      (upd_pkt p (\<lambda>k. k\<lparr>pkt_SeqNo := ?s\<rparr>) t)))"
  have "prepare_packet e p t = Some t'"
    using b0(1) b1(1) b2(1) by (simp add: prepare_packet_def Let_def t'_def upd_pkt_def upd_ep_def set_nb_def
      GET_HTC_PACKET_NET_BUF_CONTEXT_def)
  moreover have "HTC_HDR_LENGTH \<le> length (hd (adf_nbuf_frags (adf_nbuf_map b2)))"
    using b2 by (simp add: adf_nbuf_frags_def adf_nbuf_map_def)
  ultimately show ?thesis
    by (intro exI [of _ t'] exI [of _ "adf_nbuf_map b2"] exI [of _ ?s])
      (simp add: t'_def upd_pkt_def upd_ep_def set_nb_def)
qed

text \<open>Preparing packets puts them in hand and changes nothing the accounts see.\<close>

definition prepared :: "nat \<Rightarrow> HTC_TARGET \<Rightarrow> HTC_TARGET \<Rightarrow> bool" where
  "prepared e t t' \<longleftrightarrow> (\<exists>s. EndPoint t' = (EndPoint t)(e := (EndPoint t e)\<lparr>SeqNo := s\<rparr>)) \<and>
     xfers t' = xfers t \<and> calls t' = calls t \<and> MaxMsgsPerHTCBundle t' = MaxMsgsPerHTCBundle t \<and>
     HTCStateFlags t' = HTCStateFlags t \<and> places t' = places t \<and> (\<forall>e. outstanding t' e = outstanding t e) \<and>
     (\<forall>p. CreditsUsed (packets t' p) = CreditsUsed (packets t p) \<and> ActualLength (packets t' p) = ActualLength (packets t p))"

lemma prepared_refl [simp]: "prepared e t t"
  by (auto simp: prepared_def intro: exI [of _ "SeqNo (EndPoint t e)"])

lemma prepared_trans: "prepared e t t1 \<Longrightarrow> prepared e t1 t2 \<Longrightarrow> prepared e t t2"
  by (auto simp: prepared_def)

text \<open>A packet of a client comes into hand, its header written.\<close>

lemma grab_wf:
  assumes w: "wf E None q t" and p: "p \<notin> containers E" "\<not> is_bundle t p" "p \<notin># places t + mset q" "room t' p"
    and i: "inj_on (GET_HTC_PACKET_NET_BUF_CONTEXT t) (set_mset (places t + mset (p # q)))"
    and ep: "\<And>x. TxQueue (EndPoint t' x) = TxQueue (EndPoint t x) \<and> TxLookupQueue (EndPoint t' x) = TxLookupQueue (EndPoint t x) \<and>
      Id (EndPoint t' x) = Id (EndPoint t x) \<and> TxCredits (EndPoint t' x) = TxCredits (EndPoint t x) \<and>
      TxCreditSize (EndPoint t' x) = TxCreditSize (EndPoint t x)"
    and pk: "\<And>x. Tag (packets t' x) = Tag (packets t x) \<and> pQueueSave (packets t' x) = pQueueSave (packets t x) \<and>
      Endpoint (packets t' x) = Endpoint (packets t x) \<and> pNetBufContext (packets t' x) = pNetBufContext (packets t x)"
    and al: "\<And>x. x \<noteq> p \<Longrightarrow> ActualLength (packets t' x) = ActualLength (packets t x)"
    and nb: "\<And>a. a \<noteq> pNetBufContext (packets t p) \<Longrightarrow> nbufs t' a = nbufs t a"
    and same: "pBundleFreeTxList t' = pBundleFreeTxList t" "allocs t' = allocs t"
  shows "wf E None (q @ [p]) t'" and "places t' = places t" and "\<And>x. outstanding t' x = outstanding t x"
    and "GET_HTC_PACKET_NET_BUF_CONTEXT t' = GET_HTC_PACKET_NET_BUF_CONTEXT t" and "is_bundle t' = is_bundle t"
proof -
  show "outstanding t' x = outstanding t x" for x by (rule outstanding_cong) (use ep pk in auto)
  show pl: "places t' = places t" by (rule places_cong) (use ep pk in auto)
  show b: "GET_HTC_PACKET_NET_BUF_CONTEXT t' = GET_HTC_PACKET_NET_BUF_CONTEXT t" "is_bundle t' = is_bundle t"
    using pk by (auto simp: is_bundle_def GET_HTC_PACKET_NET_BUF_CONTEXT_def fun_eq_iff)
  have old: "x \<notin> containers E \<and> \<not> is_bundle t x" if "x \<in># places t + mset q" for x
    using that wf_client [OF w] by (simp add: in_hand_def)
  have r: "room t' x" if "x \<in># places t + mset q" "room t x" for x
  proof -
    have "x \<noteq> p" using that(1) p(3) by blast
    then have "pNetBufContext (packets t x) \<noteq> pNetBufContext (packets t p)"
      using inj_onD [OF i, of x p] that(1) by (auto simp: GET_HTC_PACKET_NET_BUF_CONTEXT_def)
    then show ?thesis using that(2) nb al [OF \<open>x \<noteq> p\<close>] pk by (simp add: room_def GET_HTC_PACKET_NET_BUF_CONTEXT_def)
  qed
  have "kinds E None t'" using wfD(1) [OF w] same ep pk unfolding kinds_def b by simp
  moreover have "clients E None (q @ [p]) t'"
    unfolding clients_def b pl
  proof (intro conjI allI impI ballI)
    have ih: "places t + in_hand None (q @ [p]) t' = places t + mset (p # q)" by (simp add: in_hand_def)
    show "x \<notin> containers E" "\<not> is_bundle t x" if "x \<in># places t + in_hand None (q @ [p]) t'" for x
      using that old [of x] p(1,2) unfolding ih by auto
    have "count (places t + mset q) x \<le> 1" for x using wfD(2) [OF w] by (simp add: clients_def in_hand_def)
    moreover have "count (places t + mset q) p = 0" using p(3) by (simp only: not_in_iff)
    ultimately show "count (places t + in_hand None (q @ [p]) t') x \<le> 1" for x
      unfolding ih by (cases "x = p") auto
    show "inj_on (GET_HTC_PACKET_NET_BUF_CONTEXT t) (set_mset (places t + in_hand None (q @ [p]) t'))"
      unfolding ih by (rule i)
    show "room t' x" if "e < ENDPOINT_MAX" "x \<in> set (TxQueue (EndPoint t' e))" for e x
      using that ep r [of x] wf_queue_room [OF w] queue_in_places [of e x t] by simp
    show "room t' x" if "x \<in> set (q @ [p])" for x using that r [of x] p(4) wf_hand [OF w, of x] by auto
  qed
  moreover have "eps t'" using wfD(3) [OF w] ep by (simp add: eps_def)
  ultimately show "wf E None (q @ [p]) t'" by (simp add: wf_def)
qed

lemma prepare_wf:
  assumes w: "wf E None q t" and f: "fresh E t p" "p \<notin># places t + mset q"
    and i: "inj_on (GET_HTC_PACKET_NET_BUF_CONTEXT t) (set_mset (places t + mset (p # q)))"
  shows "\<exists>t'. prepare_packet e p t = Some t' \<and> wf E None (q @ [p]) t' \<and> prepared e t t' \<and>
    (\<forall>x. fresh E t x \<longrightarrow> pNetBufContext (packets t x) \<noteq> pNetBufContext (packets t p) \<longrightarrow> fresh E t' x) \<and>
    GET_HTC_PACKET_NET_BUF_CONTEXT t' = GET_HTC_PACKET_NET_BUF_CONTEXT t"
proof -
  obtain t' b s where p: "prepare_packet e p t = Some t'" "nbufs t' = (nbufs t)(pNetBufContext (packets t p) := b)"
    "HTC_HDR_LENGTH \<le> length (hd (adf_nbuf_frags b))"
    "EndPoint t' = (EndPoint t)(e := (EndPoint t e)\<lparr>SeqNo := SeqNo (EndPoint t e) + 1\<rparr>)"
    "packets t' = (packets t)(p := (packets t p)\<lparr>pkt_SeqNo := s,
      Flags := Flags (packets t p) OR HTC_TX_PACKET_FLAG_FIXUP_NETBUF\<rparr>)"
    "xfers t' = xfers t" "calls t' = calls t" "MaxMsgsPerHTCBundle t' = MaxMsgsPerHTCBundle t"
    "HTCStateFlags t' = HTCStateFlags t" "pBundleFreeTxList t' = pBundleFreeTxList t" "allocs t' = allocs t"
    using prepare_defined [OF f(1), of e] by blast
  have pk: "Tag (packets t' x) = Tag (packets t x) \<and> pQueueSave (packets t' x) = pQueueSave (packets t x) \<and>
      Endpoint (packets t' x) = Endpoint (packets t x) \<and> pNetBufContext (packets t' x) = pNetBufContext (packets t x)"
    and al: "ActualLength (packets t' x) = ActualLength (packets t x)" for x
    by (simp_all add: p(5))
  have "room t' p" using f(1) p(2,3) pk al by (simp add: fresh_def room_def GET_HTC_PACKET_NET_BUF_CONTEXT_def)
  note k = grab_wf [OF w _ _ f(2) this i _ pk al]
  have k: "wf E None (q @ [p]) t'" "places t' = places t" "\<And>x. outstanding t' x = outstanding t x"
    "GET_HTC_PACKET_NET_BUF_CONTEXT t' = GET_HTC_PACKET_NET_BUF_CONTEXT t" "is_bundle t' = is_bundle t"
    by (rule k; use f(1) p in \<open>simp add: fresh_def\<close>)+
  have "prepared e t t'" using p k by (auto simp: prepared_def)
  moreover have "fresh E t' x" if "fresh E t x" "pNetBufContext (packets t x) \<noteq> pNetBufContext (packets t p)" for x
    using that pk al p(2) k by (simp add: fresh_def GET_HTC_PACKET_NET_BUF_CONTEXT_def)
  ultimately show ?thesis using p(1) k by blast
qed

lemma prepare_all_wf:
  "wf E None q t \<Longrightarrow> distinct r \<Longrightarrow> \<forall>p \<in> set r. fresh E t p \<and> p \<notin># places t + mset q \<Longrightarrow>
   inj_on (GET_HTC_PACKET_NET_BUF_CONTEXT t) (set_mset (places t + mset (q @ r))) \<Longrightarrow>
   \<exists>t'. for_each r (prepare_packet e) t = Some t' \<and> wf E None (q @ r) t' \<and> prepared e t t'"
proof (induction r arbitrary: q t)
  case (Cons p r)
  have "inj_on (GET_HTC_PACKET_NET_BUF_CONTEXT t) (set_mset (places t + mset (p # q)))"
    by (rule inj_on_subset [OF Cons.prems(4)]) auto
  moreover have "fresh E t p" "p \<notin># places t + mset q" using Cons.prems(3) by auto
  ultimately obtain t1 where t1: "prepare_packet e p t = Some t1" "wf E None (q @ [p]) t1" "prepared e t t1"
    "\<forall>x. fresh E t x \<longrightarrow> pNetBufContext (packets t x) \<noteq> pNetBufContext (packets t p) \<longrightarrow> fresh E t1 x"
    "GET_HTC_PACKET_NET_BUF_CONTEXT t1 = GET_HTC_PACKET_NET_BUF_CONTEXT t"
    using prepare_wf [OF Cons.prems(1)] by blast
  have pl: "places t1 = places t" using t1(3) by (simp add: prepared_def)
  have "fresh E t1 x \<and> x \<notin># places t1 + mset (q @ [p])" if "x \<in> set r" for x
  proof -
    have "x \<noteq> p" using that Cons.prems(2) by auto
    then have "GET_HTC_PACKET_NET_BUF_CONTEXT t x \<noteq> GET_HTC_PACKET_NET_BUF_CONTEXT t p"
      using inj_onD [OF Cons.prems(4), of x p] that by auto
    then show ?thesis using Cons.prems(3) that t1(4) pl \<open>x \<noteq> p\<close> by (simp add: GET_HTC_PACKET_NET_BUF_CONTEXT_def)
  qed
  moreover have "inj_on (GET_HTC_PACKET_NET_BUF_CONTEXT t1) (set_mset (places t1 + mset ((q @ [p]) @ r)))"
    using Cons.prems(4) t1(5) pl by simp
  ultimately obtain t' where "for_each r (prepare_packet e) t1 = Some t'" "wf E None ((q @ [p]) @ r) t'" "prepared e t1 t'"
    using Cons.IH [OF t1(2)] Cons.prems(2) by fastforce
  then show ?case using t1(1,3) prepared_trans by fastforce
qed simp

section \<open>Accounts\<close>

text \<open>
  The account of an operation: \<open>g e\<close> credits granted to the endpoint \<open>e\<close>, and the packets \<open>new\<close>
  handed over. No operation spends a credit it has not been granted; the packets handed over are
  completed or in a queue, and none is twice; when no bundles are made, none is missing.
\<close>

definition configured :: "HTC_TARGET \<Rightarrow> HTC_TARGET \<Rightarrow> bool" where
  "configured t t' \<longleftrightarrow> (\<forall>e. ServiceID (EndPoint t' e) = ServiceID (EndPoint t e) \<and>
     TxCreditSize (EndPoint t' e) = TxCreditSize (EndPoint t e) \<and>
     TxProcessCount (EndPoint t' e) = TxProcessCount (EndPoint t e) \<and>
     TxCreditFlowEnabled (EndPoint t' e) = TxCreditFlowEnabled (EndPoint t e))"

definition balanced :: "(nat \<Rightarrow> int) \<Rightarrow> addr multiset \<Rightarrow> HTC_TARGET \<Rightarrow> HTC_TARGET \<Rightarrow> bool" where
  "balanced g new t t' \<longleftrightarrow>
     (\<forall>e. spent t' e + TxCredits (EndPoint t' e) \<le> spent t e + TxCredits (EndPoint t e) + g e) \<and>
     mset (tx_done t') + places t' \<subseteq># mset (tx_done t) + places t + new \<and>
     (\<not> HTC_ENABLE_BUNDLE t \<longrightarrow> mset (tx_done t') + places t' = mset (tx_done t) + places t + new) \<and>
     MaxMsgsPerHTCBundle t' = MaxMsgsPerHTCBundle t \<and> configured t t'"

lemma balanced_trans:
  assumes a: "balanced g n t t1" and b: "balanced h m t1 t2"
  shows "balanced (\<lambda>e. g e + h e) (n + m) t t2"
proof -
  have "spent t2 e + TxCredits (EndPoint t2 e) \<le> spent t e + TxCredits (EndPoint t e) + (g e + h e)" for e
  proof -
    have "spent t1 e + TxCredits (EndPoint t1 e) \<le> spent t e + TxCredits (EndPoint t e) + g e"
      "spent t2 e + TxCredits (EndPoint t2 e) \<le> spent t1 e + TxCredits (EndPoint t1 e) + h e"
      using a b by (auto simp: balanced_def)
    then show ?thesis by linarith
  qed
  moreover have "mset (tx_done t2) + places t2 \<subseteq># mset (tx_done t) + places t + (n + m)"
  proof -
    have "mset (tx_done t2) + places t2 \<subseteq># mset (tx_done t1) + places t1 + m" using b by (simp add: balanced_def)
    also have "\<dots> \<subseteq># mset (tx_done t) + places t + n + m" using a by (auto simp: balanced_def intro: subset_mset.add_mono)
    finally show ?thesis by (simp add: ac_simps)
  qed
  moreover have "HTC_ENABLE_BUNDLE t1 = HTC_ENABLE_BUNDLE t" using a by (simp add: balanced_def HTC_ENABLE_BUNDLE_def)
  moreover have "configured t t2" using a b by (simp add: balanced_def configured_def)
  ultimately show ?thesis using a b by (simp add: balanced_def ac_simps)
qed

lemma balanced_refl [simp]: "balanced (\<lambda>e. 0) {#} t t"
  by (simp add: balanced_def configured_def)

lemma balanced_same:
  assumes "balanced g n t t'" and "xfers t'' = xfers t'" "places t'' = places t'" "mset (tx_done t'') = mset (tx_done t')"
    "MaxMsgsPerHTCBundle t'' = MaxMsgsPerHTCBundle t'"
    and "\<And>e. TxCredits (EndPoint t'' e) = TxCredits (EndPoint t' e)" and "configured t' t''"
  shows "balanced g n t t''"
  using assms by (simp add: balanced_def spent_def configured_def)

lemma prepared_balanced: "prepared e t t' \<Longrightarrow> balanced (\<lambda>e. 0) {#} t t'"
  by (auto simp: prepared_def balanced_def spent_def tx_done_def configured_def split: if_splits)

lemma accounts_balanced:
  assumes e: "e < ENDPOINT_MAX" and a: "accounts e c t t' q pre S D"
  shows "balanced (\<lambda>x. if x = e then c else 0) (mset q) t t'"
proof -
  have p: "progress e c t t' pre S D" and tq: "TxQueue (EndPoint t e) @ q = pre @ TxQueue (EndPoint t' e)"
    using a by (auto simp: accounts_def)
  let ?o = "mset (outstanding t e)" and ?q = "mset (TxQueue (EndPoint t e))" and ?q' = "mset (TxQueue (EndPoint t' e))"
  have "places t' + ep_places t e = places t + ep_places t' e"
    by (rule places_change [OF e]) (use p in \<open>simp add: ep_places_def progress_def\<close>)
  then have 1: "places t' + (?o + ?q) = places t + (?o + mset S + ?q')"
    using p by (simp add: ep_places_def progress_def)
  have 2: "?q + mset q = mset pre + ?q'" using arg_cong [OF tq, of mset] by simp
  have "(places t' + mset pre) + (?o + ?q + ?q') = (places t' + (?o + ?q)) + (mset pre + ?q')" by (simp add: ac_simps)
  also have "\<dots> = (places t + mset q + mset S) + (?o + ?q + ?q')" unfolding 1 2 [symmetric] by (simp add: ac_simps)
  finally have pl: "places t' + mset pre = places t + mset q + mset S" by (simp only: add_right_cancel)
  have d: "mset (tx_done t') = mset (tx_done t) + mset D" using p by (simp add: progress_def)
  obtain L where L: "mset pre = mset S + mset D + L" "\<not> HTC_ENABLE_BUNDLE t \<longrightarrow> L = {#}"
    using p by (metis (no_types, lifting) add.right_neutral add_left_cancel progress_def subset_mset.le_iff_add)
  have all: "mset (tx_done t') + places t' + L = mset (tx_done t) + places t + mset q"
    using pl d L(1) by (simp add: ac_simps)
  have co: "configured t t'"
    unfolding configured_def
  proof
    fix x
    obtain tq lq n cr where "EndPoint t' e = (EndPoint t e)\<lparr>TxQueue := tq, TxLookupQueue := lq, ul_outstanding_cnt := n, TxCredits := cr\<rparr>"
      using p by (auto simp: progress_def)
    then show "ServiceID (EndPoint t' x) = ServiceID (EndPoint t x) \<and> TxCreditSize (EndPoint t' x) = TxCreditSize (EndPoint t x) \<and>
      TxProcessCount (EndPoint t' x) = TxProcessCount (EndPoint t x) \<and> TxCreditFlowEnabled (EndPoint t' x) = TxCreditFlowEnabled (EndPoint t x)"
      using p by (cases "x = e") (simp_all add: progress_def)
  qed
  have "mset (tx_done t') + places t' \<subseteq># mset (tx_done t) + places t + mset q"
    unfolding all [symmetric] by simp
  moreover have "mset (tx_done t') + places t' = mset (tx_done t) + places t + mset q" if "\<not> HTC_ENABLE_BUNDLE t"
    using all L(2) that by simp
  moreover have "spent t' x + TxCredits (EndPoint t' x) \<le> spent t x + TxCredits (EndPoint t x) + (if x = e then c else 0)" for x
    using p by (cases "x = e") (auto simp: progress_def)
  ultimately show ?thesis using p co by (simp add: balanced_def progress_def)
qed

lemma send_wf:
  assumes w: "wf E None [] t" and E: "env_ok E" and q: "q \<noteq> []" and i: "idle (Endpoint (packets t (hd q))) t"
    and f: "fits (Endpoint (packets t (hd q))) q t" and s: "sendable E q t"
  shows "\<exists>t'. HTCSendPktsMultiple E q t = Some (A_OK, t') \<and> wf E None [] t' \<and>
    balanced (\<lambda>e. 0) (mset q) t t' \<and> drained (Endpoint (packets t (hd q))) t'"
proof -
  obtain p r where p: "q = p # r" using q by (cases q) auto
  define e where "e = Endpoint (packets t (hd q))"
  have e: "e < ENDPOINT_MAX" "ServiceID (EndPoint t e) \<noteq> 0" "0 < TxCreditSize (EndPoint t e)" "TxProcessCount (EndPoint t e) = 0"
    using i by (auto simp: idle_def e_def)
  obtain t1 where t1: "for_each q (prepare_packet e) t = Some t1" "wf E None q t1" "prepared e t t1"
    using prepare_all_wf [OF w, of q e] s by (auto simp: sendable_def)
  have ep: "\<exists>s. EndPoint t1 e = (EndPoint t e)\<lparr>SeqNo := s\<rparr>" using t1(3) by (auto simp: prepared_def)
  then have f1: "TxProcessCount (EndPoint t1 e) = 0" "fits e q t1" "0 < TxCreditSize (EndPoint t1 e)"
    using e f by (auto simp: fits_def e_def)
  obtain t' pre S D where u: "HTCTrySend E e (Some q) t1 = Some (HTC_SEND_QUEUE_OK, [], t')" "wf E None [] t'"
    "accounts e 0 t1 t' q pre S D" "drained e t'"
    using try_send_wf [OF t1(2) E e(1) f1(1), of "Some q"] f1 q by auto
  have "HTCSendPktsMultiple E q t = Some (A_OK, t')"
    using e t1(1) u(1) p by (simp add: HTCSendPktsMultiple_def e_def DoSendCompletion_def Let_def)
  moreover have "balanced (\<lambda>x. 0 + (if x = e then 0 else 0)) ({#} + mset q) t t'"
    by (rule balanced_trans [OF prepared_balanced [OF t1(3)] accounts_balanced [OF e(1) u(3)]])
  ultimately show ?thesis using u(2,4) by (simp add: e_def)
qed

section \<open>HTCSendDataPkt\<close>

text \<open>A send that fails in the data loop puts the packets back in front of the queue.\<close>

lemma requeue_wf:
  assumes w: "wf E None (p # q) t" and e: "e < ENDPOINT_MAX" and c: "0 \<le> CreditsUsed (packets t p)"
    and z: "0 < TxCreditSize (EndPoint t e)" and s: "send_single E e p t = (st, t1)" "st \<noteq> A_OK"
    and t': "t' = upd_ep e (\<lambda>ep. ep\<lparr>ul_outstanding_cnt := ul_outstanding_cnt ep - 1,
                    TxLookupQueue := remove1 p (TxLookupQueue ep), TxQueue := (p # q) @ TxQueue ep\<rparr>) t1"
  shows "wf E None [] t'" and "EndPoint t' = (EndPoint t)(e := (EndPoint t e)\<lparr>TxQueue := (p # q) @ TxQueue (EndPoint t e)\<rparr>)"
    and "xfers t' = xfers t" and "calls t' = calls t" and "\<And>e. outstanding t' e = outstanding t e"
    and "MaxMsgsPerHTCBundle t' = MaxMsgsPerHTCBundle t" and "HTCStateFlags t' = HTCStateFlags t"
proof -
  define t2 where "t2 = upd_ep e (\<lambda>ep. ep\<lparr>ul_outstanding_cnt := ul_outstanding_cnt ep - 1,
    TxLookupQueue := remove1 p (TxLookupQueue ep), TxCredits := TxCredits ep + 0\<rparr>) t1"
  note f = send_single_failed [OF w e c s t2_def order_refl]
  define n where "n = TxProcessCount (EndPoint t2 e)"
  have tq: "TxQueue (EndPoint t2 e) = TxQueue (EndPoint t1 e)" by (simp add: t2_def upd_ep_def)
  have "t' = upd_ep e (\<lambda>ep. ep\<lparr>TxQueue := (p # q) @ TxQueue (EndPoint t2 e), TxProcessCount := n\<rparr>) t2"
    unfolding t' t2_def n_def by (cases "EndPoint t1 e") (simp add: upd_ep_def)
  note t = this
  have "mset ((p # q) @ TxQueue (EndPoint t2 e)) = mset (TxQueue (EndPoint t2 e)) + mset (p # q)"
    by (metis mset_append union_commute)
  from enqueue_wf [OF f(1) e _ this t] z f(2) show "wf E None [] t'" by simp
  have "outstanding t' x = outstanding t2 x" for x by (rule outstanding_cong) (auto simp: t upd_ep_def)
  moreover have "outstanding t2 x = outstanding t x" for x by (rule outstanding_cong) (use f in auto)
  ultimately show "outstanding t' x = outstanding t x" for x by simp
  have "EndPoint t2 = EndPoint t" unfolding f(2) by (cases "EndPoint t e") (simp add: fun_eq_iff)
  then show "EndPoint t' = (EndPoint t)(e := (EndPoint t e)\<lparr>TxQueue := (p # q) @ TxQueue (EndPoint t e)\<rparr>)"
    by (cases "EndPoint t e") (simp add: t n_def upd_ep_def)
  show "xfers t' = xfers t" "calls t' = calls t" "MaxMsgsPerHTCBundle t' = MaxMsgsPerHTCBundle t" "HTCStateFlags t' = HTCStateFlags t"
    using f by (simp_all add: t upd_ep_def)
qed

lemma sends_progress:
  assumes s: "sends E e t t' S" and q: "subseq S pre" "\<not> HTC_ENABLE_BUNDLE t \<longrightarrow> S = pre" and c: "charged t S \<le> c"
  shows "progress e c t t' pre S []"
proof -
  have ep: "EndPoint t' e = (EndPoint t e)\<lparr>TxLookupQueue := TxLookupQueue (EndPoint t' e),
     ul_outstanding_cnt := ul_outstanding_cnt (EndPoint t' e)\<rparr>" using s by (simp add: sends_def)
  then have "EndPoint t' e = (EndPoint t e)\<lparr>TxQueue := TxQueue (EndPoint t e), TxLookupQueue := TxLookupQueue (EndPoint t' e),
     ul_outstanding_cnt := ul_outstanding_cnt (EndPoint t' e), TxCredits := TxCredits (EndPoint t e)\<rparr>"
    by (cases "EndPoint t e"; cases "EndPoint t' e") simp
  then have ex: "\<exists>tq lq n cr. EndPoint t' e = (EndPoint t e)\<lparr>TxQueue := tq, TxLookupQueue := lq, ul_outstanding_cnt := n, TxCredits := cr\<rparr>"
    by blast
  have "spent t' e + TxCredits (EndPoint t' e) \<le> spent t e + TxCredits (EndPoint t e) + c"
    using s c sends_endpoint(2) [OF s] by (simp add: sends_def)
  moreover have "tx_done t' = tx_done t @ []" using s by (simp add: sends_def tx_done_def)
  moreover have "mset S + mset [] \<subseteq># mset pre" using subseq_mset [OF q(1)] by simp
  ultimately show ?thesis using s ex q unfolding progress_def sends_def by (intro conjI) simp_all
qed

lemma data_loop_wf:
  assumes E: "env_ok E" and e: "e < ENDPOINT_MAX"
  shows "wf E None q t \<Longrightarrow> \<forall>p \<in> set q. 0 \<le> CreditsUsed (packets t p) \<Longrightarrow> 0 < TxCreditSize (EndPoint t e) \<Longrightarrow>
    \<exists>st t' q' pre S. data_loop E e q t = Some (st, t') \<and> wf E None [] t' \<and> q = pre @ q' \<and>
      TxQueue (EndPoint t' e) = q' @ TxQueue (EndPoint t e) \<and> progress e (charged t pre) t t' pre S []"
proof (induction "length q" arbitrary: q t rule: less_induct)
  case less
  have pq: "set q \<inter> containers E = {}" using wf_hand [OF less(2)] by auto
  obtain q1 t1 pre S where b: "try_bundle E True e q t = Some (q1, t1)"
    "wf E None q1 t1" "sends E e t t1 S" "q = pre @ q1" "issued t pre S"
    using try_bundle_wf [OF less(2) E e less(3,4)] by blast
  have p1: "progress e (charged t pre) t t1 pre S []"
    using sends_progress [OF b(3)] b(4,5) less(3) charged_subseq [of S pre t] by (simp add: issued_def)
  have tq1: "TxQueue (EndPoint t1 e) = TxQueue (EndPoint t e)" by (rule sends_endpoint(3) [OF b(3)])
  note u = data_loop.simps [of E e q t]
  show ?case
  proof (cases q1)
    case Nil
    then show ?thesis using b p1 tq1 u
      by (intro exI [of _ A_OK] exI [of _ t1] exI [of _ "[]"] exI [of _ pre] exI [of _ S]) simp
  next
    case (Cons p q2)
    have cp: "0 \<le> CreditsUsed (packets t1 p)" using less(3) sends_credits(1) [OF b(3), of p] pq b(4) Cons by simp
    have z: "0 < TxCreditSize (EndPoint t1 e)" using sends_endpoint(1) [OF b(3)] less(4) by simp
    obtain st t2 where s: "send_single E e p t1 = (st, t2)" by fastforce
    have w1: "wf E None (p # q2) t1" using b(2) Cons by simp
    show ?thesis
    proof (cases "st = A_OK")
      case False
      define t' where "t' = upd_ep e (\<lambda>ep. ep\<lparr>ul_outstanding_cnt := ul_outstanding_cnt ep - 1,
        TxLookupQueue := remove1 p (TxLookupQueue ep), TxQueue := (p # q2) @ TxQueue ep\<rparr>) t2"
      note f = requeue_wf [OF w1 e cp z s False t'_def]
      have "EndPoint t' e = (EndPoint t1 e)\<lparr>TxQueue := TxQueue (EndPoint t' e), TxLookupQueue := TxLookupQueue (EndPoint t' e),
        ul_outstanding_cnt := ul_outstanding_cnt (EndPoint t' e), TxCredits := TxCredits (EndPoint t' e)\<rparr>"
        unfolding f(2) by (cases "EndPoint t1 e") simp
      then have ex: "\<exists>tq lq n cr. EndPoint t' e = (EndPoint t1 e)\<lparr>TxQueue := tq, TxLookupQueue := lq, ul_outstanding_cnt := n, TxCredits := cr\<rparr>"
        by blast
      have "progress e 0 t1 t' [] [] []"
        unfolding progress_def by (intro conjI ex) (use f in \<open>auto simp: spent_def tx_done_def\<close>)
      from progress_trans [OF p1 this] have "progress e (charged t pre) t t' pre S []" by simp
      moreover have "data_loop E e q t = Some (st, t')" using u b(1) Cons s False by (simp add: t'_def)
      moreover have "TxQueue (EndPoint t' e) = (p # q2) @ TxQueue (EndPoint t e)" using f(2) tq1 by simp
      ultimately show ?thesis using f(1) b(4) Cons
        by (intro exI [of _ st] exI [of _ t'] exI [of _ "p # q2"] exI [of _ pre] exI [of _ S]) simp
    next
      case True
      note ok = send_single_ok [OF w1 e s [unfolded True]]
      have s2: "sends E e t t2 (S @ [p])" using sends_trans [OF b(3) ok(2)] pq b(4) Cons by auto
      have cu2: "\<forall>p \<in> set q2. 0 \<le> CreditsUsed (packets t2 p)"
        using less(3) sends_credits(1) [OF s2] pq b(4) Cons by (metis Un_iff disjoint_iff list.set_intros(2) set_append)
      have z2: "0 < TxCreditSize (EndPoint t2 e)" using sends_endpoint(1) [OF s2] less(4) by simp
      obtain st' t' q' pre' S' where i: "data_loop E e q2 t2 = Some (st', t')" "wf E None [] t'" "q2 = pre' @ q'"
        "TxQueue (EndPoint t' e) = q' @ TxQueue (EndPoint t2 e)" "progress e (charged t2 pre') t2 t' pre' S' []"
        using less(1) [of q2 t2] ok(1) cu2 z2 b(4) Cons by force
      have "progress e (charged t (pre @ [p])) t t2 (pre @ [p]) (S @ [p]) []"
        using b(5) less(3) b(4) Cons charged_subseq [of S pre t]
        by (intro sends_progress [OF s2]) (auto simp: issued_def intro: list_emb_append_mono)
      from progress_trans [OF this i(5)]
      have "progress e (charged t (pre @ [p]) + charged t2 pre') t t' ((pre @ [p]) @ pre') ((S @ [p]) @ S') []" by simp
      moreover have "charged t2 pre' = charged t pre'"
        by (rule charged_same) (use s2 pq b(4) i(3) Cons in \<open>auto simp: sends_def\<close>)
      moreover have "data_loop E e q t = Some (st', t')" using u b(1) Cons s True i(1) by simp
      moreover have "charged t (pre @ p # pre') = charged t (pre @ [p]) + charged t pre'" by (simp add: charged_def)
      ultimately show ?thesis using i b(4) Cons sends_endpoint(3) [OF s2]
        by (intro exI [of _ st'] exI [of _ t'] exI [of _ q'] exI [of _ "pre @ p # pre'"] exI [of _ "S @ p # S'"])
          (simp add: add.assoc)
    qed
  qed
qed

text \<open>A change of an endpoint that the invariant does not see.\<close>

lemma quiet_ep_wf:
  assumes w: "wf E H Q t"
    and f: "\<And>x. TxLookupQueue (f x) = TxLookupQueue x \<and> TxQueue (f x) = TxQueue x \<and> Id (f x) = Id x \<and>
      TxCredits (f x) = TxCredits x \<and> TxCreditSize (f x) = TxCreditSize x"
  shows "wf E H Q (upd_ep e f t)" and "places (upd_ep e f t) = places t" and "outstanding (upd_ep e f t) e' = outstanding t e'"
proof -
  have e: "0 \<le> TxCredits (EndPoint t x)" if "x < ENDPOINT_MAX" for x using wfD(3) [OF w] that by (simp add: eps_def)
  have r: "room t x \<Longrightarrow> room (upd_ep e f t) x" for x by (rule room_cong) (auto simp: upd_ep_def)
  have c: "TxLookupQueue (EndPoint (upd_ep e f t) x) = TxLookupQueue (EndPoint t x) \<and>
     TxQueue (EndPoint (upd_ep e f t) x) = TxQueue (EndPoint t x) \<and> Id (EndPoint (upd_ep e f t) x) = Id (EndPoint t x) \<and>
     (x < ENDPOINT_MAX \<longrightarrow> 0 \<le> TxCredits (EndPoint (upd_ep e f t) x)) \<and>
     TxCreditSize (EndPoint (upd_ep e f t) x) = TxCreditSize (EndPoint t x)" for x
    using f e by (simp add: upd_ep_def)
  note k = wf_cong [OF w c]
  show "wf E H Q (upd_ep e f t)" by (rule k(1)) (use r in \<open>auto simp: upd_ep_def\<close>)
  show "places (upd_ep e f t) = places t" by (rule k(2)) (use r in \<open>auto simp: upd_ep_def\<close>)
  show "outstanding (upd_ep e f t) e' = outstanding t e'" by (rule outstanding_cong) (use c in \<open>auto simp: upd_ep_def\<close>)
qed

lemma poll_start_wf:
  assumes "wf E None [] t"
  shows "wf E None [] (HTCSendCompletePollTimerStart e t)" and "balanced g n t0 t \<Longrightarrow> balanced g n t0 (HTCSendCompletePollTimerStart e t)"
proof -
  note k = quiet_ep_wf [OF assms, of "\<lambda>ep. if ul_outstanding_cnt ep \<noteq> 0 \<and> \<not> ul_poll_timer_active ep
     then ep\<lparr>ul_poll_timer_active := True\<rparr> else ep"]
  show "wf E None [] (HTCSendCompletePollTimerStart e t)" unfolding HTCSendCompletePollTimerStart_def by (rule k(1)) simp
  show "balanced g n t0 (HTCSendCompletePollTimerStart e t)" if "balanced g n t0 t"
    by (rule balanced_same [OF that])
      (use k(2) in \<open>auto simp: HTCSendCompletePollTimerStart_def upd_ep_def tx_done_def configured_def\<close>)
qed

lemma takes_accounts:
  "takes e t t1 (pre @ q') \<Longrightarrow> progress e (charged t1 pre) t1 t2 pre S [] \<Longrightarrow>
     TxQueue (EndPoint t2 e) = q' @ TxQueue (EndPoint t1 e) \<Longrightarrow> accounts e 0 t t2 [] pre S []"
proof -
  assume a: "takes e t t1 (pre @ q')" and b: "progress e (charged t1 pre) t1 t2 pre S []"
    and c: "TxQueue (EndPoint t2 e) = q' @ TxQueue (EndPoint t1 e)"
  have "charged t1 pre \<le> charged t1 (pre @ q')" using a charged_nonneg [of q' t1] by (simp add: takes_def)
  then have "progress e (charged t1 (pre @ q')) t1 t2 pre S []" using b by (auto simp: progress_def)
  from takes_progress [OF a this] show ?thesis using a c by (simp add: accounts_def takes_def)
qed

lemma send_data_wf:
  assumes w: "wf E None [] t" and E: "env_ok E" and e: "e < ENDPOINT_MAX" and n: "TxProcessCount (EndPoint t e) = 0"
  shows "\<exists>st t'. send_data E e t = Some (st, t') \<and> wf E None [] t' \<and> balanced (\<lambda>e. 0) {#} t t'"
proof -
  define t1 where "t1 = upd_ep e (\<lambda>ep. ep\<lparr>TxQueue := TxQueue (EndPoint t e), TxProcessCount := 1\<rparr>) t"
  have t1: "upd_ep e (\<lambda>ep. ep\<lparr>TxProcessCount := TxProcessCount ep + 1\<rparr>) t = t1"
    using n unfolding t1_def by (cases "EndPoint t e") (simp add: upd_ep_def)
  note w1 = enqueue_wf [OF w e, of "TxQueue (EndPoint t e)", simplified, OF t1_def]
  define m where "m = (if HTC_ENABLE_BUNDLE t1 then HTC_MAX_TX_BUNDLE_SEND_LIMIT else HIFGetFreeQueueNumber (UL_PipeID (EndPoint t1 e)))"
  have "TxCreditFlowEnabled (EndPoint t1 e) \<or> 0 < m" by (simp add: m_def HIFGetFreeQueueNumber_def HTC_MAX_TX_BUNDLE_SEND_LIMIT_def)
  then obtain q t2 where g: "(if TxCreditFlowEnabled (EndPoint t1 e) then GetHTCSendPacketsCreditBased e [] t1
      else Some (GetHTCSendPackets e [] m t1)) = Some (q, t2)" "wf E None q t2" "takes e t1 t2 q"
    using get_packets [OF w1(1) e, of m] by blast
  have cu: "\<forall>p \<in> set q. 0 \<le> CreditsUsed (packets t2 p)" using g(3) by (simp add: takes_def)
  have "\<exists>st t3 pre S. data_loop E e q t2 = Some (st, t3) \<and> wf E None [] t3 \<and> accounts e 0 t1 t3 [] pre S []"
  proof (cases "q = []")
    case True
    have "data_loop E e q t2 = Some (A_OK, t2)" using True
      by (subst data_loop.simps) (simp add: try_bundle_def HTC_MIN_MSG_PER_BUNDLE_def)
    moreover have "accounts e 0 t1 t2 [] [] [] []" using takes_accounts [of e t1 t2 "[]" "[]"] g(3) True by (simp add: charged_def)
    ultimately show ?thesis using g(2) True by blast
  next
    case False
    then have "TxQueue (EndPoint t1 e) \<noteq> []" using g(3) by (auto simp: takes_def)
    then have "0 < TxCreditSize (EndPoint t2 e)" using w1(1) e takes_size(1) [OF g(3)] by (auto simp: wf_def eps_def)
    then obtain st t3 q' pre S where d: "data_loop E e q t2 = Some (st, t3)" "wf E None [] t3" "q = pre @ q'"
      "TxQueue (EndPoint t3 e) = q' @ TxQueue (EndPoint t2 e)" "progress e (charged t2 pre) t2 t3 pre S []"
      using data_loop_wf [OF E e g(2) cu] by blast
    then have "accounts e 0 t1 t3 [] pre S []" using takes_accounts g(3) by simp
    then show ?thesis using d by blast
  qed
  then obtain st t3 pre S where d: "data_loop E e q t2 = Some (st, t3)" "wf E None [] t3" "accounts e 0 t1 t3 [] pre S []" by blast
  define t4 where "t4 = upd_ep e (\<lambda>ep. ep\<lparr>TxProcessCount := 0\<rparr>) t3"
  have t4: "t4 = upd_ep e (\<lambda>ep. ep\<lparr>TxProcessCount := TxProcessCount (EndPoint t e)\<rparr>) t3" using n by (simp add: t4_def)
  have p: "progress e 0 t1 t3 pre S []" using d(3) by (simp add: accounts_def)
  have "progress e 0 t t4 pre S [] \<and> TxQueue (EndPoint t4 e) = TxQueue (EndPoint t3 e)"
  proof -
    have "EndPoint t1 = (EndPoint t)(e := (EndPoint t e)\<lparr>TxQueue := TxQueue (EndPoint t e), TxProcessCount := 1\<rparr>)"
      by (simp add: t1_def upd_ep_def)
    from progress_counts [OF p this _ _ _ _ w1(2) t4] show ?thesis by (simp add: t1_def upd_ep_def)
  qed
  then have "accounts e 0 t t4 [] pre S []" using d(3) by (simp add: accounts_def t1_def upd_ep_def)
  from accounts_balanced [OF e this] have b: "balanced (\<lambda>e. 0) {#} t t4" by (simp cong: if_cong)
  have w4: "wf E None [] t4" unfolding t4_def by (rule wf_count [OF d(2)])
  have "send_data E e t = Some (st, if ul_is_polled (EndPoint t4 e) then HTCSendCompletePollTimerStart e t4 else t4)"
  proof -
    have "TxProcessCount (EndPoint t1 e) = 1" by (simp add: t1_def upd_ep_def)
    then show ?thesis using g(1) d(1) unfolding send_data_def t1 m_def Let_def by (simp add: t4_def cong: if_cong)
  qed
  then show ?thesis using w4 b poll_start_wf [OF w4] by auto
qed

text \<open>What a client of HTCSendDataPkt has to bring: the buffer already has room for the header.\<close>

definition data_ready :: "htc_env \<Rightarrow> addr \<Rightarrow> HTC_TARGET \<Rightarrow> bool" where
  "data_ready E p t \<longleftrightarrow> p \<notin> containers E \<and> \<not> is_bundle t p \<and> p \<notin># places t \<and> room t p \<and>
     inj_on (GET_HTC_PACKET_NET_BUF_CONTEXT t) (insert p (set_mset (places t)))"

lemma queue_data_defined:
  assumes r: "room t p"
  shows "\<exists>t1 b s l m. queue_data e p t = Some (upd_ep e (\<lambda>ep. ep\<lparr>TxQueue := TxQueue ep @ [p]\<rparr>) t1) \<and>
    nbufs t1 = (nbufs t)(pNetBufContext (packets t p) := b) \<and> HTC_HDR_LENGTH \<le> length (hd (adf_nbuf_frags b)) \<and>
    EndPoint t1 = (EndPoint t)(e := (EndPoint t e)\<lparr>SeqNo := m, ul_poll_timer_active := l\<rparr>) \<and>
    (\<exists>a. packets t1 = (packets t)(p := (packets t p)\<lparr>ActualLength := a, pkt_SeqNo := s\<rparr>) \<and> a \<le> ActualLength (packets t p)) \<and>
    xfers t1 = xfers t \<and> calls t1 = calls t \<and> MaxMsgsPerHTCBundle t1 = MaxMsgsPerHTCBundle t \<and>
    pBundleFreeTxList t1 = pBundleFreeTxList t \<and> allocs t1 = allocs t"
proof -
  let ?lim = "word_of_nat (TxCreditSize (EndPoint t e)) - of_nat HTC_HDR_LENGTH :: u32"
  let ?a = "pNetBufContext (packets t p)"
  define al where "al = (if ?lim < ActualLength (packets t p) then ?lim else ActualLength (packets t p))"
  define k where "k = (packets t p)\<lparr>ActualLength := al\<rparr>"
  define s where "s = SeqNo (EndPoint t e)"
  define l where "l = (if ul_is_polled (EndPoint t e) then False else ul_poll_timer_active (EndPoint t e))"
  have hb: "HTC_HDR_LENGTH \<le> length (hd (adf_nbuf_frags (pkt_nbuf t p)))" using r by (simp add: room_def)
  obtain b0 where b0: "HTC_WRITE32 0 (htc_hdr_word0 k (SendFlags k)) (pkt_nbuf t p) = Some b0"
    using HTC_WRITE32_defined [of 0 "pkt_nbuf t p"] hb by (auto simp: HTC_HDR_LENGTH_def)
  have h0: "length (hd (adf_nbuf_frags b0)) = length (hd (adf_nbuf_frags (pkt_nbuf t p)))"
    by (rule frags_hd_length [OF HTC_WRITE32_length [OF b0]])
  obtain b1 where b1: "HTC_WRITE32 1 (SM (ucast s) HTC_FRAME_HDR_CONTROLBYTES1) b0 = Some b1"
    using HTC_WRITE32_defined [of 1 b0] hb h0 by (auto simp: HTC_HDR_LENGTH_def)
  have h1: "HTC_HDR_LENGTH \<le> length (hd (adf_nbuf_frags b1))"
    using frags_hd_length [OF HTC_WRITE32_length [OF b1]] h0 hb by simp
  define t0 where "t0 = (if ?lim < ActualLength (packets t p) then upd_pkt p (\<lambda>k. k\<lparr>ActualLength := ?lim\<rparr>) t else t)"
  have t0: "packets t0 p = k" "EndPoint t0 = EndPoint t" "nbufs t0 = nbufs t"
    by (auto simp: t0_def k_def al_def upd_pkt_def)
  define t2 where "t2 = (if ul_is_polled (EndPoint t0 e) then HTCSendCompletePollTimerStop e t0 else t0)"
  have t2: "packets t2 = packets t0" "nbufs t2 = nbufs t" "SeqNo (EndPoint t2 e) = s"
    by (auto simp: t2_def HTCSendCompletePollTimerStop_def upd_ep_def t0 s_def)
  have nb: "pNetBufContext k = ?a" by (simp add: k_def)
  define t3 where "t3 = upd_ep e (\<lambda>ep. ep\<lparr>SeqNo := SeqNo ep + 1\<rparr>) (upd_pkt p (\<lambda>k. k\<lparr>pkt_SeqNo := SeqNo (EndPoint t2 e)\<rparr>) t2)"
  define t1 where "t1 = set_nb ?a b1 t3"
  have "queue_data e p t = Some (upd_ep e (\<lambda>ep. ep\<lparr>TxQueue := TxQueue ep @ [p]\<rparr>) t1)"
  proof -
    have c: "GET_HTC_PACKET_NET_BUF_CONTEXT t0 p = ?a" "GET_HTC_PACKET_NET_BUF_CONTEXT t3 p = ?a"
      "pkt_SeqNo (packets t3 p) = s"
      using t0(1) t2 nb by (simp_all add: GET_HTC_PACKET_NET_BUF_CONTEXT_def t3_def upd_ep_def upd_pkt_def)
    have 0: "HTC_WRITE32 0 (htc_hdr_word0 k (SendFlags k)) (nbufs t0 ?a) = Some b0"
      using b0 t0(3) by (simp add: GET_HTC_PACKET_NET_BUF_CONTEXT_def)
    show ?thesis
      unfolding queue_data_def Let_def t0_def [symmetric] t0(1) c(1) 0 bind.bind_lunit t2_def [symmetric] t3_def [symmetric] c(2,3) b1
      by (simp add: t1_def)
  qed
  moreover have "nbufs t1 = (nbufs t)(?a := b1)" using t2(2) by (simp add: t1_def t3_def set_nb_def upd_ep_def upd_pkt_def)
  moreover have "EndPoint t1 = (EndPoint t)(e := (EndPoint t e)\<lparr>SeqNo := s + 1, ul_poll_timer_active := l\<rparr>)"
    by (cases "EndPoint t e")
      (simp add: t1_def t3_def t2_def set_nb_def upd_ep_def upd_pkt_def HTCSendCompletePollTimerStop_def t0 l_def s_def)
  moreover have "packets t1 = (packets t)(p := (packets t p)\<lparr>ActualLength := al, pkt_SeqNo := s\<rparr>)"
  proof -
    have "packets t0 = (packets t)(p := k)" by (auto simp: t0_def k_def al_def upd_pkt_def)
    then show ?thesis using t2 by (simp add: t1_def t3_def set_nb_def upd_ep_def upd_pkt_def k_def)
  qed
  moreover have "al \<le> ActualLength (packets t p)" by (simp add: al_def less_imp_le)
  moreover have "xfers t1 = xfers t \<and> calls t1 = calls t \<and> MaxMsgsPerHTCBundle t1 = MaxMsgsPerHTCBundle t \<and>
    pBundleFreeTxList t1 = pBundleFreeTxList t \<and> allocs t1 = allocs t"
    by (simp add: t1_def t3_def t2_def t0_def set_nb_def upd_ep_def upd_pkt_def HTCSendCompletePollTimerStop_def)
  ultimately show ?thesis using h1 by blast
qed

lemma queue_data_wf:
  assumes w: "wf E None [] t" and d: "data_ready E p t" and e: "e < ENDPOINT_MAX" and z: "0 < TxCreditSize (EndPoint t e)"
  shows "\<exists>t'. queue_data e p t = Some t' \<and> wf E None [] t' \<and> balanced (\<lambda>e. 0) {#p#} t t' \<and>
    TxQueue (EndPoint t' e) = TxQueue (EndPoint t e) @ [p]"
proof -
  obtain t1 b s l m al where q: "queue_data e p t = Some (upd_ep e (\<lambda>ep. ep\<lparr>TxQueue := TxQueue ep @ [p]\<rparr>) t1)"
    "nbufs t1 = (nbufs t)(pNetBufContext (packets t p) := b)" "HTC_HDR_LENGTH \<le> length (hd (adf_nbuf_frags b))"
    "EndPoint t1 = (EndPoint t)(e := (EndPoint t e)\<lparr>SeqNo := m, ul_poll_timer_active := l\<rparr>)"
    "packets t1 = (packets t)(p := (packets t p)\<lparr>ActualLength := al, pkt_SeqNo := s\<rparr>)" "al \<le> ActualLength (packets t p)"
    "xfers t1 = xfers t" "calls t1 = calls t" "MaxMsgsPerHTCBundle t1 = MaxMsgsPerHTCBundle t"
    "pBundleFreeTxList t1 = pBundleFreeTxList t" "allocs t1 = allocs t"
    using queue_data_defined [of t p e] d by (auto simp: data_ready_def)
  have "unat al \<le> unat (ActualLength (packets t p))" using q(6) by (simp add: word_le_nat_alt)
  then have rp: "room t1 p" using d q(2,3,5)
    by (auto simp: room_def data_ready_def GET_HTC_PACKET_NET_BUF_CONTEXT_def)
  have pk: "Tag (packets t1 x) = Tag (packets t x) \<and> pQueueSave (packets t1 x) = pQueueSave (packets t x) \<and>
      Endpoint (packets t1 x) = Endpoint (packets t x) \<and> pNetBufContext (packets t1 x) = pNetBufContext (packets t x)"
    and al: "x \<noteq> p \<Longrightarrow> ActualLength (packets t1 x) = ActualLength (packets t x)" for x
    by (simp_all add: q(5))
  have i: "inj_on (GET_HTC_PACKET_NET_BUF_CONTEXT t) (set_mset (places t + mset [p]))"
  proof -
    have "set_mset (places t + mset [p]) = insert p (set_mset (places t))" by simp
    then show ?thesis using d by (simp only: data_ready_def)
  qed
  have m: "p \<notin># places t + mset []" using d by (simp add: data_ready_def)
  note k = grab_wf [OF w _ _ m rp i _ pk al]
  have k: "wf E None ([] @ [p]) t1" "places t1 = places t"
    by (rule k; use d q in \<open>simp add: data_ready_def\<close>)+
  define t' where "t' = upd_ep e (\<lambda>ep. ep\<lparr>TxQueue := TxQueue ep @ [p]\<rparr>) t1"
  have t': "t' = upd_ep e (\<lambda>ep. ep\<lparr>TxQueue := TxQueue (EndPoint t1 e) @ [p], TxProcessCount := TxProcessCount (EndPoint t1 e)\<rparr>) t1"
    by (cases "EndPoint t1 e") (simp add: t'_def upd_ep_def)
  have w1: "wf E None [p] t1" using k(1) by simp
  note en = enqueue_wf [OF w1 e _ _ t']
  have "wf E None [] t'" "places t' = places t + {#p#}" using en z q(4) k(2) by auto
  moreover have "balanced (\<lambda>e. 0) {#p#} t t'"
    using \<open>places t' = places t + {#p#}\<close> q by (auto simp: balanced_def t'_def upd_ep_def spent_def tx_done_def configured_def)
  moreover have "TxQueue (EndPoint t' e) = TxQueue (EndPoint t e) @ [p]" using q(4) by (simp add: t'_def upd_ep_def)
  ultimately show ?thesis using q(1) by (auto simp: t'_def)
qed

lemma data_pkt_wf:
  assumes w: "wf E None [] t" and E: "env_ok E" and d: "data_ready E p t" and p: "p \<noteq> NULL" and i: "idle (Endpoint (packets t p)) t"
  shows "\<exists>st t'. HTCSendDataPkt E p more_data t = Some (st, t') \<and> wf E None [] t' \<and> balanced (\<lambda>e. 0) {#p#} t t'"
proof -
  define e where "e = Endpoint (packets t p)"
  have e: "e < ENDPOINT_MAX" "0 < TxCreditSize (EndPoint t e)" "TxProcessCount (EndPoint t e) = 0"
    using i by (auto simp: idle_def e_def)
  obtain t1 where t1: "queue_data e p t = Some t1" "wf E None [] t1" "balanced (\<lambda>e. 0) {#p#} t t1"
    using queue_data_wf [OF w d e(1,2)] by blast
  have f: "HTCSendDataPkt E p more_data t = (if HTC_ENABLE_BUNDLE t1 \<and> more_data then Some (A_OK, t1) else send_data E e t1)"
    using e p t1(1) by (simp add: HTCSendDataPkt_def e_def Let_def)
  show ?thesis
  proof (cases "HTC_ENABLE_BUNDLE t1 \<and> more_data")
    case True
    then show ?thesis using f t1 by auto
  next
    case False
    have "TxProcessCount (EndPoint t1 e) = 0" using t1(3) e(3) by (simp add: balanced_def configured_def)
    then obtain st t' where s: "send_data E e t1 = Some (st, t')" "wf E None [] t'" "balanced (\<lambda>e. 0) {#} t1 t'"
      using send_data_wf [OF t1(2) E e(1)] by blast
    then show ?thesis using f False balanced_trans [OF t1(3) s(3)] by auto
  qed
qed

end
