(* ===== verification/Htc_Done.thy ===== *)
theory Htc_Done
  imports Htc_Try
begin

text \<open>
  Completed transfers, flushes and reports of credits: each keeps the invariant and the accounts.
\<close>

section \<open>The lookup queue\<close>

lemma lookup_search_Some:
  "lookup_search t nb q = (Some p, rest) \<Longrightarrow> \<exists>a b. q = a @ p # b \<and> rest = a @ b \<and> GET_HTC_PACKET_NET_BUF_CONTEXT t p = nb \<and>
     (\<forall>x \<in> set a. GET_HTC_PACKET_NET_BUF_CONTEXT t x \<noteq> nb)"
proof (induction q arbitrary: rest)
  case (Cons x q)
  show ?case
  proof (cases "nb = GET_HTC_PACKET_NET_BUF_CONTEXT t x")
    case True
    then show ?thesis using Cons.prems by (intro exI [of _ "[]"] exI [of _ q]) simp
  next
    case False
    then obtain r where r: "lookup_search t nb q = (Some p, r)" "rest = x # r"
      using Cons.prems by (cases "lookup_search t nb q") auto
    from Cons.IH [OF r(1)] obtain a b where "q = a @ p # b" "r = a @ b" "GET_HTC_PACKET_NET_BUF_CONTEXT t p = nb"
      "\<forall>x \<in> set a. GET_HTC_PACKET_NET_BUF_CONTEXT t x \<noteq> nb" by blast
    then show ?thesis using False r(2) by (intro exI [of _ "x # a"] exI [of _ b]) auto
  qed
qed simp

lemma lookup_search_None: "lookup_search t nb q = (None, rest) \<Longrightarrow> rest = q"
  by (induction q arbitrary: rest) (auto split: if_splits prod.splits)

text \<open>What HTCLookupTxPacket does to the endpoint, alone.\<close>

lemma lookup_wf:
  assumes "HTCLookupTxPacket e nb t = (r, t')"
  shows "\<exists>a b n. t' = upd_ep e (\<lambda>ep. ep\<lparr>TxLookupQueue := a @ b, ul_outstanding_cnt := n\<rparr>) t \<and>
    (case r of None \<Rightarrow> TxLookupQueue (EndPoint t e) = a @ b
     | Some p \<Rightarrow> TxLookupQueue (EndPoint t e) = a @ p # b \<and> GET_HTC_PACKET_NET_BUF_CONTEXT t p = nb)"
proof -
  let ?n = "ul_outstanding_cnt (EndPoint t e) - 1" and ?l = "TxLookupQueue (EndPoint t e)"
  have upd: "upd_ep e f t = upd_ep e g t" if "f (EndPoint t e) = g (EndPoint t e)" for f g
    using that by (simp add: upd_ep_def)
  have ctx: "GET_HTC_PACKET_NET_BUF_CONTEXT (upd_ep e f t) = GET_HTC_PACKET_NET_BUF_CONTEXT t" for f
    by (simp add: fun_eq_iff GET_HTC_PACKET_NET_BUF_CONTEXT_def upd_ep_def)
  have srch: "lookup_search (upd_ep e f t) nb q = lookup_search t nb q" for f q
    by (induction q) (simp_all add: ctx)
  consider (empty) "?l = []" | (first) p ps where "?l = p # ps" "nb = GET_HTC_PACKET_NET_BUF_CONTEXT t p"
    | (search) p ps where "?l = p # ps" "nb \<noteq> GET_HTC_PACKET_NET_BUF_CONTEXT t p" by (cases ?l) auto
  then show ?thesis
  proof cases
    case empty
    then have "r = None" "t' = upd_ep e (\<lambda>ep. ep\<lparr>ul_outstanding_cnt := ?n\<rparr>) t"
      using assms by (auto simp: HTCLookupTxPacket_def lookup_begin_def upd_ep_def)
    moreover have "(EndPoint t e)\<lparr>ul_outstanding_cnt := ?n\<rparr> = (EndPoint t e)\<lparr>TxLookupQueue := [] @ [], ul_outstanding_cnt := ?n\<rparr>"
      using empty by (cases "EndPoint t e") simp
    ultimately show ?thesis using empty
      by (intro exI [of _ "[]"] exI [of _ ?n]) (auto simp: upd_ep_def)
  next
    case first
    then have "r = Some p" "t' = upd_ep e (\<lambda>ep. ep\<lparr>TxLookupQueue := ps\<rparr>) (upd_ep e (\<lambda>ep. ep\<lparr>ul_outstanding_cnt := ?n\<rparr>) t)"
      using assms by (auto simp: HTCLookupTxPacket_def lookup_begin_def upd_ep_def GET_HTC_PACKET_NET_BUF_CONTEXT_def)
    moreover have "(EndPoint t e)\<lparr>ul_outstanding_cnt := ?n, TxLookupQueue := ps\<rparr> = (EndPoint t e)\<lparr>TxLookupQueue := ps, ul_outstanding_cnt := ?n\<rparr>"
      by (cases "EndPoint t e") simp
    ultimately show ?thesis using first
      by (intro exI [of _ "[]"] exI [of _ ps] exI [of _ ?n]) (simp add: upd_ep_def)
  next
    case search
    obtain r' rest where s: "lookup_search t nb ?l = (r', rest)" by fastforce
    have "lookup_begin e nb t = (None, ?l, upd_ep e (\<lambda>ep. ep\<lparr>ul_outstanding_cnt := ?n, TxLookupQueue := []\<rparr>) t)"
      using search by (simp add: lookup_begin_def upd_ep_def GET_HTC_PACKET_NET_BUF_CONTEXT_def)
    moreover have "?l \<noteq> []" using search by simp
    moreover have "lookup_end e nb ?l (upd_ep e (\<lambda>ep. ep\<lparr>ul_outstanding_cnt := ?n, TxLookupQueue := []\<rparr>) t) =
        (r', upd_ep e (\<lambda>ep. ep\<lparr>ul_outstanding_cnt := ?n, TxLookupQueue := rest\<rparr>) t)"
      unfolding lookup_end_def srch s by (simp add: upd_ep_def)
    ultimately have "r = r'" "t' = upd_ep e (\<lambda>ep. ep\<lparr>ul_outstanding_cnt := ?n, TxLookupQueue := rest\<rparr>) t"
      using assms by (simp_all add: HTCLookupTxPacket_def)
    moreover have "(EndPoint t e)\<lparr>ul_outstanding_cnt := ?n, TxLookupQueue := rest\<rparr> = (EndPoint t e)\<lparr>TxLookupQueue := rest, ul_outstanding_cnt := ?n\<rparr>"
      by (cases "EndPoint t e") simp
    ultimately have t': "t' = upd_ep e (\<lambda>ep. ep\<lparr>TxLookupQueue := rest, ul_outstanding_cnt := ?n\<rparr>) t" by (simp add: upd_ep_def)
    show ?thesis
    proof (cases r)
      case None
      then show ?thesis using t' lookup_search_None s \<open>r = r'\<close>
        by (intro exI [of _ "[]"] exI [of _ rest] exI [of _ ?n]) fastforce
    next
      case (Some p)
      then obtain a b where "?l = a @ p # b" "rest = a @ b" "GET_HTC_PACKET_NET_BUF_CONTEXT t p = nb"
        using lookup_search_Some s \<open>r = r'\<close> by metis
      then show ?thesis using t' Some by (intro exI [of _ a] exI [of _ b] exI [of _ ?n]) simp
    qed
  qed
qed

text \<open>An entry leaves the lookup queue.\<close>

definition loose :: "HTC_TARGET \<Rightarrow> addr list \<Rightarrow> bool" where
  "loose t S \<longleftrightarrow> (\<forall>x \<in> set S. \<forall>y \<in># places t. GET_HTC_PACKET_NET_BUF_CONTEXT t x \<noteq> GET_HTC_PACKET_NET_BUF_CONTEXT t y)"

lemma unlook_wf:
  assumes w: "wf E None [] t" and e: "e < ENDPOINT_MAX" and l: "TxLookupQueue (EndPoint t e) = a @ x @ b" "length x \<le> 1"
    and t': "t' = upd_ep e (\<lambda>ep. ep\<lparr>TxLookupQueue := a @ b, ul_outstanding_cnt := n\<rparr>) t"
  shows "wf E None [] t'" and "places t = places t' + mset (concat (map (carried t) x))"
    and "loose t' (concat (map (carried t) x))"
    and "p \<in> set x \<Longrightarrow> is_bundle t p \<Longrightarrow>
      p \<in> allocated E (allocs t') \<and> p \<notin> set (pBundleFreeTxList t') \<and> (\<forall>e. p \<notin> set (TxLookupQueue (EndPoint t' e)))"
proof -
  let ?S = "concat (map (carried t) x)"
  have same: "packets t' = packets t" "nbufs t' = nbufs t" "pBundleFreeTxList t' = pBundleFreeTxList t" "allocs t' = allocs t"
    "\<And>e'. TxQueue (EndPoint t' e') = TxQueue (EndPoint t e')" "\<And>e'. e' \<noteq> e \<Longrightarrow> EndPoint t' e' = EndPoint t e'"
    "TxLookupQueue (EndPoint t' e) = a @ b"
    by (auto simp: t' upd_ep_def)
  have b: "is_bundle t' = is_bundle t" "carried t' = carried t"
    using same(1) by (auto simp: is_bundle_def carried_def fun_eq_iff)
  have o: "outstanding t' e' = outstanding t e'" if "e' \<noteq> e" for e' using same(6) [OF that] b by (simp add: outstanding_def)
  have oe: "mset (outstanding t e) = mset (outstanding t' e) + mset ?S" using l(1) same(7) b by (simp add: outstanding_def)
  show pl: "places t = places t' + mset ?S"
  proof -
    have "places t' + ep_places t e = places t + ep_places t' e"
      by (rule places_change [OF e]) (use o same(5) in \<open>simp add: ep_places_def\<close>)
    moreover have "ep_places t e = ep_places t' e + mset ?S" using oe same(5) by (simp add: ep_places_def)
    ultimately show ?thesis by (simp add: ac_simps)
  qed
  have sub: "set (TxLookupQueue (EndPoint t' e')) \<subseteq> set (TxLookupQueue (EndPoint t e'))" for e'
    using same(6,7) l(1) by (cases "e' = e") auto
  have "kinds E None t'"
  proof -
    have "distinct (filter (is_bundle t) (TxLookupQueue (EndPoint t e')))" for e'
      using wfD(1) [OF w] by (simp add: kinds_def)
    note d = this
    have "distinct (filter (is_bundle t) (TxLookupQueue (EndPoint t' e')))" for e'
    proof (cases "e' = e")
      case True
      have "distinct (filter (is_bundle t) (a @ x @ b))" using d [of e] l(1) by simp
      then show ?thesis using True same(7) by auto
    next
      case False
      then show ?thesis using d [of e'] same(6) by simp
    qed
    then show ?thesis using wfD(1) [OF w] same sub unfolding kinds_def b by (simp; blast)
  qed
  moreover have "clients E None [] t'"
    by (rule clients_cong [OF wfD(2) [OF w]])
      (use pl same(1,5) wf_queue_room [OF w] room_eq [OF same(1,2)] in \<open>auto simp: in_hand_def\<close>)
  moreover have "eps t'" using wfD(3) [OF w] by (auto simp: eps_def t' upd_ep_def)
  ultimately show "wf E None [] t'" by (simp add: wf_def)
  show "loose t' ?S"
    unfolding loose_def
  proof (intro ballI notI)
    fix u v assume u: "u \<in> set ?S" and v: "v \<in># places t'"
      and eq: "GET_HTC_PACKET_NET_BUF_CONTEXT t' u = GET_HTC_PACKET_NET_BUF_CONTEXT t' v"
    have m: "u \<in># places t" "v \<in># places t" using u v pl by auto
    have "u = v" using wf_netbuf [OF w, of u v] m eq same(1)
      by (simp add: in_hand_def GET_HTC_PACKET_NET_BUF_CONTEXT_def)
    moreover have "count (places t) u \<le> 1" using wfD(2) [OF w] by (simp add: clients_def in_hand_def)
    moreover have "1 \<le> count (places t') v" "1 \<le> count (mset ?S) u"
      using u v by (auto simp del: mset_concat simp: Suc_le_eq count_greater_zero_iff)
    ultimately show False by (simp only: pl count_union)
  qed
  show "p \<in> allocated E (allocs t') \<and> p \<notin> set (pBundleFreeTxList t') \<and> (\<forall>e. p \<notin> set (TxLookupQueue (EndPoint t' e)))"
    if p: "p \<in> set x" "is_bundle t p"
  proof -
    have x: "x = [p]" using p(1) l(2) by (cases x) auto
    have al: "p \<in> allocated E (allocs t)" "Endpoint (packets t p) = e"
      using kinds_lookup [OF wfD(1) [OF w], of p e] l(1) x p(2) by auto
    have "p \<notin> set (pBundleFreeTxList t)" using wfD(1) [OF w] l(1) x unfolding kinds_def by (metis in_set_conv_decomp append_Cons append_Nil)
    moreover have "p \<notin> set (TxLookupQueue (EndPoint t' e'))" for e'
    proof (cases "e' = e")
      case True
      have "distinct (filter (is_bundle t) (a @ p # b))" using wfD(1) [OF w] l(1) x by (metis kinds_def append_Cons append_Nil)
      then show ?thesis using True same(7) p(2) by auto
    next
      case False
      then show ?thesis using kinds_lookup [OF wfD(1) [OF w], of p e'] al(2) p(2) same(6) by auto
    qed
    ultimately show ?thesis using al same by simp
  qed
qed

section \<open>Loose packets\<close>

text \<open>Completing packets that are in no queue.\<close>

definition finishes :: "HTC_TARGET \<Rightarrow> HTC_TARGET \<Rightarrow> addr list \<Rightarrow> bool" where
  "finishes t t' D \<longleftrightarrow> EndPoint t' = EndPoint t \<and> xfers t' = xfers t \<and> MaxMsgsPerHTCBundle t' = MaxMsgsPerHTCBundle t \<and>
     pBundleFreeTxList t' = pBundleFreeTxList t \<and> allocs t' = allocs t \<and> places t' = places t \<and>
     tx_done t' = tx_done t @ D \<and>
     (\<forall>x. Tag (packets t' x) = Tag (packets t x) \<and> pQueueSave (packets t' x) = pQueueSave (packets t x) \<and>
      Endpoint (packets t' x) = Endpoint (packets t x) \<and> pNetBufContext (packets t' x) = pNetBufContext (packets t x) \<and>
      ActualLength (packets t' x) = ActualLength (packets t x))"

lemma finishes_refl [simp]: "finishes t t []"
  by (simp add: finishes_def)

lemma finishes_trans: "finishes t t1 D \<Longrightarrow> finishes t1 t2 D' \<Longrightarrow> finishes t t2 (D @ D')"
  by (simp add: finishes_def)

lemma finishes_netbuf: "finishes t t' D \<Longrightarrow> GET_HTC_PACKET_NET_BUF_CONTEXT t' = GET_HTC_PACKET_NET_BUF_CONTEXT t"
  by (simp add: finishes_def GET_HTC_PACKET_NET_BUF_CONTEXT_def fun_eq_iff)

lemma loose_one_wf:
  assumes w: "wf E None [] t" and l: "loose t [c]"
    and t': "t' = SendPacketCompletion c (upd_pkt p (\<lambda>k. k\<lparr>Status := st\<rparr>) t)"
  shows "wf E None [] t'" and "finishes t t' [c]"
proof -
  let ?t1 = "upd_pkt p (\<lambda>k. k\<lparr>Status := st\<rparr>) t" and ?t2 = "RestoreTxPacket c (upd_pkt p (\<lambda>k. k\<lparr>Status := st\<rparr>) t)"
  note r = RestoreTxPacket_same [of c ?t1]
  obtain d where d: "t' = ?t2\<lparr>calls := d\<rparr>" "concat (map done_call d) = tx_done ?t2 @ [c]"
    unfolding t' SendPacketCompletion_def using DoSendCompletion_same by blast
  have same: "EndPoint t' = EndPoint t" "xfers t' = xfers t" "MaxMsgsPerHTCBundle t' = MaxMsgsPerHTCBundle t"
    "pBundleFreeTxList t' = pBundleFreeTxList t" "allocs t' = allocs t" "tx_done ?t2 = tx_done t"
    using r d(1) by (auto simp: upd_pkt_def tx_done_def)
  have "packets ?t2 = (packets ?t1)(c := (packets ?t1 c)\<lparr>Flags := Flags (packets ?t2 c)\<rparr>)" using r by simp
  moreover have "packets t' = packets ?t2" using d(1) by simp
  ultimately have "packets t' x = (if x = c then (packets ?t1 x)\<lparr>Flags := Flags (packets ?t2 c)\<rparr> else packets ?t1 x)" for x
    by (metis fun_upd_apply)
  then have pk: "Tag (packets t' x) = Tag (packets t x) \<and> pQueueSave (packets t' x) = pQueueSave (packets t x) \<and>
      Endpoint (packets t' x) = Endpoint (packets t x) \<and> pNetBufContext (packets t' x) = pNetBufContext (packets t x) \<and>
      ActualLength (packets t' x) = ActualLength (packets t x)" for x
    by (simp add: upd_pkt_def)
  have nb: "nbufs t' a = nbufs t a" if "a \<noteq> pNetBufContext (packets t c)" for a
  proof -
    have "pNetBufContext (packets ?t1 c) = pNetBufContext (packets t c)" by (simp add: upd_pkt_def)
    then have "nbufs ?t2 a = nbufs ?t1 a" using r that by simp
    then show ?thesis using d(1) by (simp add: upd_pkt_def)
  qed
  have rm: "room t' x" if "x \<in># places t" "room t x" for x
  proof -
    have "pNetBufContext (packets t x) \<noteq> pNetBufContext (packets t c)"
      using l that(1) by (auto simp: loose_def GET_HTC_PACKET_NET_BUF_CONTEXT_def)
    then show ?thesis using that(2) nb pk [of x] by (simp add: room_def GET_HTC_PACKET_NET_BUF_CONTEXT_def)
  qed
  have e: "0 \<le> TxCredits (EndPoint t x)" if "x < ENDPOINT_MAX" for x using wfD(3) [OF w] that by (simp add: eps_def)
  note k = wf_cong [OF w, of t']
  show "wf E None [] t'" by (rule k(1)) (use same pk rm e in \<open>auto simp: in_hand_def\<close>)
  have "places t' = places t" by (rule places_cong) (use same pk in auto)
  moreover have "tx_done t' = tx_done t @ [c]" using d same(6) by (simp add: tx_done_def)
  ultimately show "finishes t t' [c]" using same pk by (simp add: finishes_def)
qed

lemma loose_all_wf:
  "wf E None [] t \<Longrightarrow> loose t S \<Longrightarrow>
   wf E None [] (fold (\<lambda>c t. SendPacketCompletion c (upd_pkt (p c) (\<lambda>k. k\<lparr>Status := st\<rparr>) t)) S t) \<and>
   finishes t (fold (\<lambda>c t. SendPacketCompletion c (upd_pkt (p c) (\<lambda>k. k\<lparr>Status := st\<rparr>) t)) S t) S"
proof (induction S arbitrary: t)
  case (Cons c S)
  let ?t = "SendPacketCompletion c (upd_pkt (p c) (\<lambda>k. k\<lparr>Status := st\<rparr>) t)"
  have l: "loose t [c]" "loose t S" using Cons.prems(2) by (auto simp: loose_def)
  note o = loose_one_wf [OF Cons.prems(1) l(1) refl, of "p c" st]
  have "loose ?t S" using l(2) finishes_netbuf [OF o(2)] o(2) by (simp add: loose_def finishes_def)
  from Cons.IH [OF o(1) this] finishes_trans [OF o(2)] show ?case by fastforce
qed simp

section \<open>HTCTxCompletionHandler\<close>

definition at_rest :: "HTC_TARGET \<Rightarrow> bool" where
  "at_rest t \<longleftrightarrow> (\<forall>e<ENDPOINT_MAX. TxProcessCount (EndPoint t e) = 0)"

lemma at_rest_balanced: "at_rest t \<Longrightarrow> balanced g n t t' \<Longrightarrow> at_rest t'"
  by (simp add: at_rest_def balanced_def configured_def)

text \<open>An operation: it returns, keeps the invariant, and its account is in order.\<close>

definition good :: "htc_env \<Rightarrow> (nat \<Rightarrow> int) \<Rightarrow> addr multiset \<Rightarrow> HTC_TARGET \<Rightarrow> HTC_TARGET option \<Rightarrow> bool" where
  "good E g n t r \<longleftrightarrow> (\<exists>t'. r = Some t' \<and> wf E None [] t' \<and> balanced g n t t')"

lemma goodI: "wf E None [] t' \<Longrightarrow> balanced g n t t' \<Longrightarrow> good E g n t (Some t')"
  by (auto simp: good_def)

lemma good_bind:
  assumes "balanced g n t t1" and "good E h m t1 r" and "\<And>e. g e + h e = k e" and "n + m = l"
  shows "good E k l t r"
proof -
  have "(\<lambda>e. g e + h e) = k" using assms(3) by (simp add: fun_eq_iff)
  then show ?thesis using assms(1,2,4) balanced_trans [OF assms(1)] by (force simp: good_def)
qed

lemma try_none:
  assumes w: "wf E None [] t" and E: "env_ok E" and e: "e < ENDPOINT_MAX" and r: "at_rest t"
  shows "\<exists>s l t'. HTCTrySend E e None t = Some (s, l, t') \<and> wf E None [] t' \<and> balanced (\<lambda>e. 0) {#} t t'"
proof -
  have "TxProcessCount (EndPoint t e) = 0" using r e by (simp add: at_rest_def)
  then obtain t' pre S D where u: "HTCTrySend E e None t = Some (HTC_SEND_QUEUE_OK, [], t')" "wf E None [] t'"
    "accounts e 0 t t' [] pre S D"
    using try_send_wf [OF w E e, of None] by auto
  from accounts_balanced [OF e u(3)] show ?thesis using u by (auto cong: if_cong)
qed

lemma good_try:
  assumes "wf E None [] t" and "env_ok E" and "e < ENDPOINT_MAX" and "at_rest t"
  shows "good E (\<lambda>e. 0) {#} t (do { (_, _, t) \<leftarrow> HTCTrySend E e None t; Some t })"
  using try_none [OF assms] by (auto simp: good_def)

lemma counted_wf:
  assumes "wf E None [] t"
  shows "wf E None [] (t\<lparr>TX_comp_cnt := n\<rparr>)" and "balanced (\<lambda>e. 0) {#} t (t\<lparr>TX_comp_cnt := n\<rparr>)"
proof -
  have e: "0 \<le> TxCredits (EndPoint t x)" if "x < ENDPOINT_MAX" for x using wfD(3) [OF assms] that by (simp add: eps_def)
  have pl: "places (t\<lparr>TX_comp_cnt := n\<rparr>) = places t" by (rule places_cong) auto
  show "wf E None [] (t\<lparr>TX_comp_cnt := n\<rparr>)"
    by (rule wf_cong(1) [OF assms]) (use e in \<open>auto simp: room_def GET_HTC_PACKET_NET_BUF_CONTEXT_def\<close>)
  show "balanced (\<lambda>e. 0) {#} t (t\<lparr>TX_comp_cnt := n\<rparr>)"
    by (rule balanced_same [OF balanced_refl]) (auto simp: pl tx_done_def configured_def)
qed

text \<open>Taking an entry out of the lookup queue and completing what it carries.\<close>

lemma unlook_finish_balanced:
  assumes b: "places t = places t1 + mset S" and e: "EndPoint t1 = (EndPoint t)(e := (EndPoint t e)\<lparr>TxLookupQueue := l, ul_outstanding_cnt := n\<rparr>)"
    and s: "xfers t1 = xfers t" "calls t1 = calls t" "MaxMsgsPerHTCBundle t1 = MaxMsgsPerHTCBundle t"
    and f: "finishes t1 t2 S"
  shows "balanced (\<lambda>e. 0) {#} t t2"
proof -
  have "tx_done t2 = tx_done t @ S" using f s by (simp add: finishes_def tx_done_def)
  then have "mset (tx_done t2) + places t2 = mset (tx_done t) + places t" using b f by (simp add: finishes_def ac_simps)
  moreover have "TxCredits (EndPoint t2 x) = TxCredits (EndPoint t x)" "spent t2 x = spent t x" for x
    using e s f by (auto simp: finishes_def spent_def)
  moreover have "configured t t2" using e f by (auto simp: configured_def finishes_def)
  ultimately show ?thesis using s f by (simp add: balanced_def finishes_def)
qed

lemma refree_wf:
  assumes w: "wf E None [] t" and p: "p \<in> allocated E (allocs t)" "p \<notin> set (pBundleFreeTxList t)"
    "\<And>e. p \<notin> set (TxLookupQueue (EndPoint t e))"
  shows "wf E None [] (FreeHTCBundleTxPacket p t)" and "balanced g n t0 t \<Longrightarrow> balanced g n t0 (FreeHTCBundleTxPacket p t)"
proof -
  define t' where "t' = FreeHTCBundleTxPacket p t"
  have same: "EndPoint t' = EndPoint t" "nbufs t' = nbufs t" "xfers t' = xfers t" "calls t' = calls t"
    "MaxMsgsPerHTCBundle t' = MaxMsgsPerHTCBundle t" "allocs t' = allocs t" "pBundleFreeTxList t' = p # pBundleFreeTxList t"
    "packets t' = (packets t)(p := (packets t p)\<lparr>pQueueSave := []\<rparr>)"
    by (simp_all add: t'_def FreeHTCBundleTxPacket_def upd_pkt_def)
  have pl: "places t' = places t" by (rule places_cong) (use same p(3) in \<open>auto\<close>)
  have b: "is_bundle t' = is_bundle t" using same by (simp add: is_bundle_def fun_eq_iff)
  have "kinds E None t'" using wfD(1) [OF w] p same unfolding kinds_def b by auto
  moreover have "clients E None [] t'"
    by (rule clients_cong [OF wfD(2) [OF w]])
      (use pl same wf_queue_room [OF w] in \<open>auto simp: in_hand_def room_def GET_HTC_PACKET_NET_BUF_CONTEXT_def\<close>)
  moreover have "eps t'" using wfD(3) [OF w] same by (simp add: eps_def)
  ultimately show "wf E None [] (FreeHTCBundleTxPacket p t)" by (simp add: wf_def t'_def)
  show "balanced g n t0 (FreeHTCBundleTxPacket p t)" if "balanced g n t0 t"
    unfolding t'_def [symmetric] by (rule balanced_same [OF that]) (use same pl in \<open>auto simp: tx_done_def configured_def\<close>)
qed

lemma completion_good:
  assumes w: "wf E None [] t" and E: "env_ok E" and e: "e < ENDPOINT_MAX" and r: "at_rest t"
  shows "good E (\<lambda>e. 0) {#} t (HTCTxCompletionHandler E netbuf e t)"
proof -
  define t0 where "t0 = t\<lparr>TX_comp_cnt := TX_comp_cnt t + 1\<rparr>"
  have w0: "wf E None [] t0" "balanced (\<lambda>e. 0) {#} t t0" unfolding t0_def by (rule counted_wf [OF w])+
  obtain res t1 where l: "HTCLookupTxPacket e netbuf t0 = (res, t1)" by fastforce
  obtain a b n where lq: "t1 = upd_ep e (\<lambda>ep. ep\<lparr>TxLookupQueue := a @ b, ul_outstanding_cnt := n\<rparr>) t0"
    "case res of None \<Rightarrow> TxLookupQueue (EndPoint t0 e) = a @ b
     | Some p \<Rightarrow> TxLookupQueue (EndPoint t0 e) = a @ p # b \<and> GET_HTC_PACKET_NET_BUF_CONTEXT t0 p = netbuf"
    using lookup_wf [OF l] by blast
  define x where "x = (case res of None \<Rightarrow> [] | Some p \<Rightarrow> [p])"
  have x: "TxLookupQueue (EndPoint t0 e) = a @ x @ b" "length x \<le> 1" using lq(2) by (auto simp: x_def split: option.splits)
  note u = unlook_wf [OF w0(1) e x lq(1)]
  have s1: "EndPoint t1 = (EndPoint t0)(e := (EndPoint t0 e)\<lparr>TxLookupQueue := a @ b, ul_outstanding_cnt := n\<rparr>)"
    "xfers t1 = xfers t0" "calls t1 = calls t0" "MaxMsgsPerHTCBundle t1 = MaxMsgsPerHTCBundle t0" "packets t1 = packets t0"
    by (simp_all add: lq(1) upd_ep_def)
  have fin: "balanced (\<lambda>e. 0) {#} t t2" if "finishes t1 t2 (concat (map (carried t0) x))" for t2
    using balanced_trans [OF w0(2) unlook_finish_balanced [OF u(2) s1(1-4) that]] by simp
  have tail: "good E (\<lambda>e. 0) {#} t (if \<not> TxCreditFlowEnabled (EndPoint t2 e)
      then do { (_, _, t) \<leftarrow> HTCTrySend E e None t2; Some t } else Some t2)"
    if "wf E None [] t2" "balanced (\<lambda>e. 0) {#} t t2" for t2
    using good_bind [OF that(2) good_try [OF that(1) E e at_rest_balanced [OF r that(2)]]] goodI [OF that] by auto
  show ?thesis
  proof (cases res)
    case None
    then have "HTCTxCompletionHandler E netbuf e t = (if \<not> TxCreditFlowEnabled (EndPoint t1 e)
        then do { (_, _, t) \<leftarrow> HTCTrySend E e None t1; Some t } else Some t1)"
      using e l by (simp add: HTCTxCompletionHandler_def t0_def Let_def)
    then show ?thesis using tail [OF u(1) fin] None by (simp add: x_def)
  next
    case (Some p)
    show ?thesis
    proof (cases "is_bundle t0 p")
      case False
      let ?t2 = "SendPacketCompletion p (upd_pkt p (\<lambda>k. k\<lparr>Status := A_OK\<rparr>) t1)"
      have c: "concat (map (carried t0) x) = [p]" using Some False by (simp add: x_def carried_def)
      note o = loose_one_wf [OF u(1) u(3) [unfolded c] refl, of p A_OK]
      have "HTCTxCompletionHandler E netbuf e t = (if \<not> TxCreditFlowEnabled (EndPoint ?t2 e)
          then do { (_, _, t) \<leftarrow> HTCTrySend E e None ?t2; Some t } else Some ?t2)"
        using e l Some False s1(5) by (simp add: HTCTxCompletionHandler_def t0_def [symmetric] Let_def is_bundle_def)
      then show ?thesis using tail [OF o(1) fin] o(2) c by simp
    next
      case True
      let ?S = "pQueueSave (packets t0 p)"
      let ?t2 = "fold (\<lambda>c t. SendPacketCompletion c (upd_pkt p (\<lambda>k. k\<lparr>Status := A_OK\<rparr>) t)) ?S t1"
      have c: "concat (map (carried t0) x) = ?S" using Some True by (simp add: x_def carried_def)
      have o: "wf E None [] ?t2" "finishes t1 ?t2 ?S" using loose_all_wf [OF u(1) u(3) [unfolded c], of "\<lambda>c. p" A_OK] by auto
      have "HTCTxCompletionHandler E netbuf e t = Some (FreeHTCBundleTxPacket p ?t2)"
        using e l Some True s1(5) by (simp add: HTCTxCompletionHandler_def t0_def [symmetric] Let_def is_bundle_def)
      moreover have "p \<in> allocated E (allocs ?t2)" "p \<notin> set (pBundleFreeTxList ?t2)" "p \<notin> set (TxLookupQueue (EndPoint ?t2 y))" for y
        using u(4) [of p] Some True o(2) by (auto simp: x_def finishes_def)
      note f = refree_wf [OF o(1) this]
      moreover have "balanced (\<lambda>e. 0) {#} t ?t2" using fin o(2) c by simp
      ultimately show ?thesis using goodI [OF f(1) f(2)] by simp
    qed
  qed
qed

section \<open>Resuming and flushing\<close>

lemma balanced_zero: "balanced (\<lambda>e. if e = x then 0 else 0) n t t' \<longleftrightarrow> balanced (\<lambda>e. 0) n t t'"
  by (simp cong: if_cong)

lemma resource_good:
  assumes "wf E None [] t" and "env_ok E" and "at_rest t"
  shows "good E (\<lambda>e. 0) {#} t (HTCTxResourceAvailHandler E pipe t)"
proof -
  let ?f = "find (\<lambda>i. ServiceID (EndPoint t i) \<noteq> 0 \<and> UL_PipeID (EndPoint t i) = pipe) [0..<ENDPOINT_MAX]"
  show ?thesis
  proof (cases ?f)
    case None
    then show ?thesis using goodI [OF assms(1) balanced_refl] by (simp add: HTCTxResourceAvailHandler_def)
  next
    case (Some i)
    then have "i < ENDPOINT_MAX" by (auto simp: find_Some_iff)
    then show ?thesis using good_try [OF assms(1,2) _ assms(3)] Some by (simp add: HTCTxResourceAvailHandler_def)
  qed
qed

lemma calls_wf:
  assumes "wf E None [] t" and "done_call c = []"
  shows "wf E None [] (t\<lparr>calls := calls t @ [c]\<rparr>)" and "balanced (\<lambda>e. 0) {#} t (t\<lparr>calls := calls t @ [c]\<rparr>)"
proof -
  show "wf E None [] (t\<lparr>calls := calls t @ [c]\<rparr>)" by (rule wf_calls [OF assms(1)])
  have "places (t\<lparr>calls := calls t @ [c]\<rparr>) = places t" by (rule places_cong) auto
  then show "balanced (\<lambda>e. 0) {#} t (t\<lparr>calls := calls t @ [c]\<rparr>)"
    using assms(2) by (intro balanced_same [OF balanced_refl]) (auto simp: tx_done_def configured_def)
qed

lemma resume_endpoint_good:
  assumes w: "wf E None [] t" and E: "env_ok E" and i: "i < ENDPOINT_MAX" and r: "at_rest t"
  shows "good E (\<lambda>e. 0) {#} t (resume_endpoint E i t)"
proof -
  let ?t1 = "if EpResumeTxQueue (EpCallBacks (EndPoint t i)) then t\<lparr>calls := calls t @ [CallResumeTxQueue i]\<rparr> else t"
  have 1: "wf E None [] ?t1" "balanced (\<lambda>e. 0) {#} t ?t1" using w calls_wf [OF w, of "CallResumeTxQueue i"] by auto
  show ?thesis
  proof (cases "ServiceID (EndPoint t i) = 0")
    case True
    then show ?thesis using goodI [OF w balanced_refl] by (simp add: resume_endpoint_def)
  next
    case False
    then have "resume_endpoint E i t = do { (_, _, t) \<leftarrow> HTCTrySend E i None ?t1; Some t }"
      by (simp add: resume_endpoint_def Let_def cong: if_cong)
    then show ?thesis using good_bind [OF 1(2) good_try [OF 1(1) E i at_rest_balanced [OF r 1(2)]]] by simp
  qed
qed

lemma resume_all_good:
  assumes "wf E None [] t" and E: "env_ok E" and r: "at_rest t"
  shows "good E (\<lambda>e. 0) {#} t (HTCTxResumeAllHandler E t)"
proof -
  have "good E (\<lambda>e. 0) {#} t (for_each js (resume_endpoint E) t)"
    if "wf E None [] t" "at_rest t" "\<forall>i \<in> set js. i < ENDPOINT_MAX" for js t
    using that
  proof (induction js arbitrary: t)
    case Nil
    then show ?case using goodI [OF _ balanced_refl] by simp
  next
    case (Cons i js)
    obtain t1 where t1: "resume_endpoint E i t = Some t1" "wf E None [] t1" "balanced (\<lambda>e. 0) {#} t t1"
      using resume_endpoint_good [OF Cons.prems(1) E _ Cons.prems(2), of i] Cons.prems(3) by (auto simp: good_def)
    show ?case using good_bind [OF t1(3) Cons.IH [OF t1(2) at_rest_balanced [OF Cons.prems(2) t1(3)]]] t1(1) Cons.prems(3) by simp
  qed
  from this [of t "[0..<ENDPOINT_MAX]"] show ?thesis using assms by (simp add: HTCTxResumeAllHandler_def)
qed

lemma htc_flush_step:
  assumes w: "wf E None [] t" and e: "e < ENDPOINT_MAX" and q: "TxQueue (EndPoint t e) = p # ps"
    and t': "t' = SendPacketCompletion p (upd_pkt p (\<lambda>k. k\<lparr>Status := st\<rparr>) (upd_ep e (\<lambda>ep. ep\<lparr>TxQueue := tl (TxQueue ep)\<rparr>) t))"
  shows "wf E None [] t'" and "balanced (\<lambda>e. 0) {#} t t'" and "EndPoint t' = (EndPoint t)(e := (EndPoint t e)\<lparr>TxQueue := ps\<rparr>)"
proof -
  define t1 where "t1 = upd_ep e (\<lambda>ep. ep\<lparr>TxQueue := tl (TxQueue ep)\<rparr>) t"
  have ep: "EndPoint t1 = (EndPoint t)(e := (EndPoint t e)\<lparr>TxQueue := ps, TxCredits := TxCredits (EndPoint t e)\<rparr>)"
    using q by (cases "EndPoint t e") (simp add: t1_def upd_ep_def)
  have c: "0 \<le> TxCredits (EndPoint t e)" using wfD(3) [OF w] e by (simp add: eps_def)
  note k = take_wf [OF w e q ep c]
  have 1: "wf E None [p] t1" using k(1) by (simp add: t1_def upd_ep_def)
  have o1: "outstanding t1 x = outstanding t x" for x using k(2) by (simp add: t1_def upd_ep_def)
  note f = complete_one_wf [OF 1 t' [folded t1_def]]
  show "wf E None [] t'" by (rule f(1))
  show ep': "EndPoint t' = (EndPoint t)(e := (EndPoint t e)\<lparr>TxQueue := ps\<rparr>)"
    using f(2) ep by (cases "EndPoint t e") (simp add: completes_def)
  have o: "outstanding t' x = outstanding t x" for x using f(2) o1 by (simp add: completes_def)
  have "places t' + ep_places t e = places t + ep_places t' e"
    by (rule places_change [OF e]) (use o in \<open>simp add: ep_places_def ep'\<close>)
  moreover have "ep_places t e = ep_places t' e + {#p#}" using o q by (simp add: ep_places_def ep')
  ultimately have "places t = places t' + {#p#}" by (simp add: ac_simps)
  moreover have "tx_done t' = tx_done t @ [p]" "xfers t' = xfers t" "MaxMsgsPerHTCBundle t' = MaxMsgsPerHTCBundle t"
    using f(2) by (auto simp: completes_def t1_def upd_ep_def tx_done_def)
  ultimately show "balanced (\<lambda>e. 0) {#} t t'" using ep' by (simp add: balanced_def configured_def spent_def)
qed

text \<open>After a flush the queue is empty and every packet of it is completed, in order.\<close>

lemma flush_wf:
  assumes e: "e < ENDPOINT_MAX"
  shows "wf E None [] t \<Longrightarrow> wf E None [] (HTCFlushEndpointTX e t) \<and> balanced (\<lambda>e. 0) {#} t (HTCFlushEndpointTX e t) \<and>
    EndPoint (HTCFlushEndpointTX e t) = (EndPoint t)(e := (EndPoint t e)\<lparr>TxQueue := []\<rparr>)"
proof -
  let ?f = "\<lambda>p t. SendPacketCompletion p (upd_pkt p (\<lambda>k. k\<lparr>Status := A_ECANCELED\<rparr>) (upd_ep e (\<lambda>ep. ep\<lparr>TxQueue := tl (TxQueue ep)\<rparr>) t))"
  have "wf E None [] (fold ?f q t) \<and> balanced (\<lambda>e. 0) {#} t (fold ?f q t) \<and>
    EndPoint (fold ?f q t) = (EndPoint t)(e := (EndPoint t e)\<lparr>TxQueue := []\<rparr>)"
    if "wf E None [] t" "TxQueue (EndPoint t e) = q" for q t
    using that
  proof (induction q arbitrary: t)
    case Nil
    have "(EndPoint t e)\<lparr>TxQueue := []\<rparr> = EndPoint t e" using Nil(2) by (cases "EndPoint t e") simp
    then have "(EndPoint t)(e := (EndPoint t e)\<lparr>TxQueue := []\<rparr>) = EndPoint t" by (simp only: fun_upd_triv)
    then show ?case using Nil by simp
  next
    case (Cons p q)
    note s = htc_flush_step [OF Cons.prems(1) e Cons.prems(2) refl, of A_ECANCELED]
    have "TxQueue (EndPoint (?f p t) e) = q" using s(3) by simp
    from Cons.IH [OF s(1) this] balanced_trans [OF s(2)] s(3) show ?case by fastforce
  qed
  then show "wf E None [] t \<Longrightarrow> wf E None [] (HTCFlushEndpointTX e t) \<and> balanced (\<lambda>e. 0) {#} t (HTCFlushEndpointTX e t) \<and>
    EndPoint (HTCFlushEndpointTX e t) = (EndPoint t)(e := (EndPoint t e)\<lparr>TxQueue := []\<rparr>)"
    by (simp add: HTCFlushEndpointTX_def)
qed

section \<open>Reports of credits\<close>

text \<open>What a report grants: the entries up to the first with an endpoint out of range.\<close>

fun granted :: "(u8 \<times> u8) list \<Rightarrow> nat \<Rightarrow> int" where
  "granted [] e = 0"
| "granted ((r, c) # rs) e = (if ENDPOINT_MAX \<le> unat r then 0
     else (if unat r = e then int (unat c) else 0) + granted rs e)"

lemma credit_wf:
  assumes w: "wf E None [] t" and e: "e < ENDPOINT_MAX" and n: "0 \<le> n"
    and t': "EndPoint t' = (EndPoint t)(e := (EndPoint t e)\<lparr>TxCredits := TxCredits (EndPoint t e) + n\<rparr>)" "packets t' = packets t"
      "nbufs t' = nbufs t" "xfers t' = xfers t" "calls t' = calls t" "MaxMsgsPerHTCBundle t' = MaxMsgsPerHTCBundle t"
      "pBundleFreeTxList t' = pBundleFreeTxList t" "allocs t' = allocs t"
  shows "wf E None [] t'" and "balanced (\<lambda>x. if x = e then n else 0) {#} t t'"
proof -
  have pl: "places t' = places t" by (rule places_cong) (use t' in auto)
  have "0 \<le> TxCredits (EndPoint t x)" if "x < ENDPOINT_MAX" for x using wfD(3) [OF w] that by (simp add: eps_def)
  then show "wf E None [] t'"
    by (intro wf_cong(1) [OF w]) (use t' n room_eq [OF t'(2,3)] in auto)
  show "balanced (\<lambda>x. if x = e then n else 0) {#} t t'"
    using t' pl by (auto simp: balanced_def spent_def tx_done_def configured_def)
qed

lemma send_credited_good:
  assumes w: "wf E None [] t" and E: "env_ok E" and e: "e < ENDPOINT_MAX" and r: "at_rest t"
  shows "good E (\<lambda>e. 0) {#} t (send_credited E e t)"
proof -
  have d: "HTCSendDataPkt E NULL False t = send_data E 1 t" by (simp add: HTCSendDataPkt_def)
  have "\<exists>st t'. send_data E 1 t = Some (st, t') \<and> wf E None [] t' \<and> balanced (\<lambda>e. 0) {#} t t'"
    by (rule send_data_wf [OF w E]) (use r in \<open>auto simp: at_rest_def ENDPOINT_MAX_def\<close>)
  then have "good E (\<lambda>e. 0) {#} t (do { (_, t) \<leftarrow> HTCSendDataPkt E NULL False t; Some t })"
    unfolding d by (auto simp: good_def)
  then show ?thesis using good_try [OF w E e r] goodI [OF w balanced_refl] by (auto simp: send_credited_def)
qed

lemma credit_report_good:
  assumes E: "env_ok E"
  shows "wf E None [] t \<Longrightarrow> at_rest t \<Longrightarrow> good E (granted rs) {#} t (HTCProcessCreditRpt E rs t)"
proof (induction rs arbitrary: t)
  case Nil
  have "granted [] = (\<lambda>e. 0)" by (simp add: fun_eq_iff)
  then show ?case using goodI [OF Nil(1) balanced_refl] by simp
next
  case (Cons rc rs)
  obtain r c where rc: "rc = (r, c)" by (cases rc)
  let ?e = "unat r" and ?n = "int (unat c)"
  show ?case
  proof (cases "ENDPOINT_MAX \<le> ?e")
    case True
    then have "granted (rc # rs) = (\<lambda>e. 0)" by (simp add: fun_eq_iff rc)
    then show ?thesis using goodI [OF Cons(2) balanced_refl] True by (simp add: rc)
  next
    case False
    define t0 where "t0 = upd_ep ?e (\<lambda>ep. ep\<lparr>TxCredits := TxCredits ep + ?n\<rparr>) t"
    define t1 where "t1 = (if ServiceID (EndPoint t0 ?e) = WMI_CONTROL_SVC
      then record_credits HTC_PROCESS_CREDIT_REPORT ?e t0 else t0)"
    have e: "?e < ENDPOINT_MAX" "0 \<le> ?n" using False by auto
    note k = credit_wf [OF Cons(2) e, of t1]
    have w1: "wf E None [] t1" "balanced (\<lambda>x. if x = ?e then ?n else 0) {#} t t1"
      using k by (auto simp: t1_def t0_def upd_ep_def record_credits_same)
    obtain t2 where t2: "send_credited E ?e t1 = Some t2" "wf E None [] t2" "balanced (\<lambda>e. 0) {#} t1 t2"
      using send_credited_good [OF w1(1) E e(1) at_rest_balanced [OF Cons(3) w1(2)]] by (auto simp: good_def)
    have b2: "balanced (\<lambda>x. if x = ?e then ?n else 0) {#} t t2" using balanced_trans [OF w1(2) t2(3)] by simp
    have "good E (granted rs) {#} t2 (HTCProcessCreditRpt E rs t2)"
      by (rule Cons.IH [OF t2(2) at_rest_balanced [OF Cons(3) b2]])
    moreover have "HTCProcessCreditRpt E (rc # rs) t = HTCProcessCreditRpt E rs t2"
      using False t2(1) [unfolded t1_def t0_def] by (simp add: rc Let_def cong: if_cong split del: if_split)
    moreover have "(if x = ?e then ?n else 0) + granted rs x = granted (rc # rs) x" for x using False by (auto simp: rc)
    ultimately show ?thesis using good_bind [OF b2] by simp
  qed
qed

end
