(* ===== verification/Htc_Run.thy ===== *)
theory Htc_Run
  imports Htc_Done
begin

text \<open>
  The send side of HTC as a whole: what any sequence of calls of its clients, completed transfers and
  received trailers does to the packets and to the credits.
\<close>

section \<open>Trailers\<close>

lemma read32_Some: "i + 4 \<le> length buf \<Longrightarrow> \<exists>w. read32 buf i = Some w"
proof -
  assume "i + 4 \<le> length buf"
  then have "4 \<le> length xs \<Longrightarrow> \<exists>a b c d r. xs = a # b # c # d # r" for xs :: "u8 list"
    by (cases xs; cases "tl xs"; cases "tl (tl xs)"; cases "tl (tl (tl xs))") auto
  with \<open>i + 4 \<le> length buf\<close> obtain a b c d r where "drop i buf = a # b # c # d # r"
    by (metis add.commute add_le_imp_le_diff length_drop)
  then show ?thesis by (simp add: read32_def)
qed

definition record_length :: "u8 list \<Rightarrow> nat" where
  "record_length buf = unat (the (HTC_GET_FIELD buf HTC_RECORD_HDR_LENGTH))"

definition is_credit_record :: "u8 list \<Rightarrow> bool" where
  "is_credit_record buf \<longleftrightarrow> HTC_GET_FIELD buf HTC_RECORD_HDR_RECORDID = Some (ucast HTC_RECORD_CREDITS)"

text \<open>The credit records of a trailer, up to the first that does not fit, and what they grant.\<close>

function credit_records :: "u8 list \<Rightarrow> (u8 \<times> u8) list list" where
  "credit_records buf =
    (if length buf < sizeof_HTC_RECORD_HDR then []
     else let n = record_length buf; body = drop sizeof_HTC_RECORD_HDR buf in
       if length body < n then []
       else (if is_credit_record buf then [credit_entries (take n body)] else []) @ credit_records (drop n body))"
  by pat_completeness auto
termination
  by (relation "measure length") (auto simp: sizeof_HTC_RECORD_HDR_def)

declare credit_records.simps [simp del]

definition trailer_grants :: "u8 list \<Rightarrow> nat \<Rightarrow> int" where
  "trailer_grants buf e = sum_list (map (\<lambda>rs. granted rs e) (credit_records buf))"

text \<open>The status of a trailer: an error when it ends in the middle of a record.\<close>

function trailer_status :: "u8 list \<Rightarrow> A_STATUS" where
  "trailer_status buf =
    (if buf = [] then A_OK
     else if length buf < sizeof_HTC_RECORD_HDR then A_EPROTO
     else let n = record_length buf; body = drop sizeof_HTC_RECORD_HDR buf in
       if length body < n then A_EPROTO else trailer_status (drop n body))"
  by pat_completeness auto
termination
  by (relation "measure length") (auto simp: sizeof_HTC_RECORD_HDR_def)

declare trailer_status.simps [simp del]

lemma trailer_good:
  assumes E: "env_ok E"
  shows "wf E None [] t \<Longrightarrow> at_rest t \<Longrightarrow>
    \<exists>t'. HTCProcessTrailer E buf t = Some (trailer_status buf, t') \<and> wf E None [] t' \<and> balanced (trailer_grants buf) {#} t t'"
proof (induction "length buf" arbitrary: buf t rule: less_induct)
  case less
  note u = HTCProcessTrailer.simps [of E buf t] credit_records.simps [of buf] trailer_status.simps [of buf]
  show ?case
  proof (cases "length buf < sizeof_HTC_RECORD_HDR")
    case True
    then have "trailer_grants buf = (\<lambda>e. 0)" using u(2) by (simp add: trailer_grants_def fun_eq_iff)
    then show ?thesis using u(1,3) True less.prems by (auto simp: sizeof_HTC_RECORD_HDR_def)
  next
    case False
    then have ne: "buf \<noteq> []" by (auto simp: sizeof_HTC_RECORD_HDR_def)
    obtain w where w: "read32 buf 0 = Some w" using read32_Some [of 0 buf] False by (auto simp: sizeof_HTC_RECORD_HDR_def)
    let ?body = "drop sizeof_HTC_RECORD_HDR buf" and ?n = "record_length buf"
    have f: "HTC_GET_FIELD buf HTC_RECORD_HDR_LENGTH = Some (MS w HTC_RECORD_HDR_LENGTH)"
      "HTC_GET_FIELD buf HTC_RECORD_HDR_RECORDID = Some (MS w HTC_RECORD_HDR_RECORDID)"
      using w by (simp_all add: HTC_GET_FIELD_def HTC_RECORD_HDR_LENGTH_def HTC_RECORD_HDR_RECORDID_def)
    have n: "?n = unat (MS w HTC_RECORD_HDR_LENGTH)" by (simp add: record_length_def f)
    show ?thesis
    proof (cases "length ?body < ?n")
      case True
      then have "trailer_grants buf = (\<lambda>e. 0)" using u(2) False by (simp add: trailer_grants_def fun_eq_iff Let_def)
      moreover have "HTCProcessTrailer E buf t = Some (A_EPROTO, t)" "trailer_status buf = A_EPROTO"
        using u(1,3) False ne f n True by (simp_all add: Let_def)
      ultimately show ?thesis using less.prems by simp
    next
      case fits: False
      let ?g = "\<lambda>e. if is_credit_record buf then granted (credit_entries (take ?n ?body)) e else 0"
      let ?r = "if MS w HTC_RECORD_HDR_RECORDID = ucast HTC_RECORD_CREDITS
        then HTCProcessCreditRpt E (credit_entries (take ?n ?body)) t else Some t"
      have "good E ?g {#} t ?r"
        using credit_report_good [OF E less.prems] goodI [OF less.prems(1) balanced_refl] f(2)
        by (auto simp: is_credit_record_def)
      then obtain t1 where t1: "?r = Some t1" "wf E None [] t1" "balanced ?g {#} t t1" by (auto simp: good_def)
      have "length (drop ?n ?body) < length buf" using False by (auto simp: sizeof_HTC_RECORD_HDR_def)
      then obtain t' where t': "HTCProcessTrailer E (drop ?n ?body) t1 = Some (trailer_status (drop ?n ?body), t')"
        "wf E None [] t'" "balanced (trailer_grants (drop ?n ?body)) {#} t1 t'"
        using less.hyps [of "drop ?n ?body" t1] t1(2) at_rest_balanced [OF less.prems(2) t1(3)] by blast
      have "HTCProcessTrailer E buf t = Some (trailer_status buf, t')"
        using u(1,3) False ne f n fits t1(1) t'(1) by (simp add: Let_def cong: if_cong split del: if_split)
      moreover have "(\<lambda>e. ?g e + trailer_grants (drop ?n ?body) e) = trailer_grants buf"
        using u(2) False fits by (simp add: trailer_grants_def fun_eq_iff Let_def)
      ultimately show ?thesis using t'(2) balanced_trans [OF t1(3) t'(3)] by auto
    qed
  qed
qed

section \<open>Runs\<close>

datatype htc_op =
    OpSend "addr list"
  | OpSendData addr bool
  | OpTxDone addr nat
  | OpResource u8
  | OpResumeAll
  | OpFlush nat
  | OpTrailer "u8 list"

fun htc_step :: "htc_env \<Rightarrow> htc_op \<Rightarrow> HTC_TARGET \<Rightarrow> HTC_TARGET option" where
  "htc_step E (OpSend q) t = map_option snd (HTCSendPktsMultiple E q t)"
| "htc_step E (OpSendData p more_data) t = map_option snd (HTCSendDataPkt E p more_data t)"
| "htc_step E (OpTxDone netbuf e) t = HTCTxCompletionHandler E netbuf e t"
| "htc_step E (OpResource pipe) t = HTCTxResourceAvailHandler E pipe t"
| "htc_step E OpResumeAll t = HTCTxResumeAllHandler E t"
| "htc_step E (OpFlush e) t = HTCFlushEndpoint e t"
| "htc_step E (OpTrailer buf) t = map_option snd (HTCProcessTrailer E buf t)"

text \<open>What the clients and the HIF owe HTC.\<close>

fun allowed :: "htc_env \<Rightarrow> htc_op \<Rightarrow> HTC_TARGET \<Rightarrow> bool" where
  "allowed E (OpSend q) t \<longleftrightarrow> q \<noteq> [] \<and> idle (Endpoint (packets t (hd q))) t \<and>
     fits (Endpoint (packets t (hd q))) q t \<and> sendable E q t"
| "allowed E (OpSendData p more_data) t \<longleftrightarrow> p \<noteq> NULL \<and> idle (Endpoint (packets t p)) t \<and> data_ready E p t"
| "allowed E (OpTxDone netbuf e) t \<longleftrightarrow> e < ENDPOINT_MAX"
| "allowed E (OpFlush e) t \<longleftrightarrow> e < ENDPOINT_MAX"
| "allowed E _ t \<longleftrightarrow> True"

fun handed :: "htc_op \<Rightarrow> addr list" where
  "handed (OpSend q) = q"
| "handed (OpSendData p more_data) = [p]"
| "handed _ = []"

fun grants :: "htc_op \<Rightarrow> nat \<Rightarrow> int" where
  "grants (OpTrailer buf) e = trailer_grants buf e"
| "grants _ e = 0"

inductive htc_run :: "htc_env \<Rightarrow> HTC_TARGET \<Rightarrow> htc_op list \<Rightarrow> HTC_TARGET \<Rightarrow> bool" for E t where
  run_Nil: "htc_run E t [] t"
| run_snoc: "htc_run E t ops s \<Longrightarrow> allowed E op s \<Longrightarrow> htc_step E op s = Some s' \<Longrightarrow> htc_run E t (ops @ [op]) s'"

lemma step_good:
  assumes w: "wf E None [] t" and E: "env_ok E" and r: "at_rest t" and a: "allowed E op t"
  shows "good E (grants op) (mset (handed op)) t (htc_step E op t)"
proof (cases op)
  case (OpSend q)
  have "grants op = (\<lambda>e. 0)" by (simp add: OpSend fun_eq_iff)
  then show ?thesis using send_wf [OF w E, of q] a OpSend by (auto simp: good_def)
next
  case (OpSendData p m)
  have "grants op = (\<lambda>e. 0)" by (simp add: OpSendData fun_eq_iff)
  then show ?thesis using data_pkt_wf [OF w E, of p m] a OpSendData by (fastforce simp: good_def)
next
  case (OpTxDone nb e)
  have "grants op = (\<lambda>e. 0)" by (simp add: OpTxDone fun_eq_iff)
  then show ?thesis using completion_good [OF w E _ r, of e nb] a OpTxDone by simp
next
  case (OpResource pipe)
  have "grants op = (\<lambda>e. 0)" by (simp add: OpResource fun_eq_iff)
  then show ?thesis using resource_good [OF w E r] OpResource by simp
next
  case OpResumeAll
  have "grants op = (\<lambda>e. 0)" by (simp add: OpResumeAll fun_eq_iff)
  then show ?thesis using resume_all_good [OF w E r] OpResumeAll by simp
next
  case (OpFlush e)
  have "grants op = (\<lambda>e. 0)" by (simp add: OpFlush fun_eq_iff)
  moreover have "good E (\<lambda>e. 0) {#} t (HTCFlushEndpoint e t)"
    using a OpFlush goodI [OF w balanced_refl] flush_wf [OF _ w, of e] goodI by (auto simp: HTCFlushEndpoint_def)
  ultimately show ?thesis using OpFlush by simp
next
  case (OpTrailer buf)
  have "grants op = trailer_grants buf" by (simp add: OpTrailer fun_eq_iff)
  then show ?thesis using trailer_good [OF E w r, of buf] OpTrailer by (auto simp: good_def)
qed

lemma run_good:
  assumes "htc_run E t ops t'" and w: "wf E None [] t" and E: "env_ok E" and r: "at_rest t"
  shows "wf E None [] t' \<and> balanced (\<lambda>e. sum_list (map (\<lambda>op. grants op e) ops)) (mset (concat (map handed ops))) t t'"
  using assms(1)
proof induction
  case run_Nil
  then show ?case using w by simp
next
  case (run_snoc ops s op s')
  have b: "balanced (\<lambda>e. sum_list (map (\<lambda>op. grants op e) ops)) (mset (concat (map handed ops))) t s" using run_snoc.IH by simp
  have "good E (grants op) (mset (handed op)) s (htc_step E op s)"
    using step_good [OF _ E at_rest_balanced [OF r b] run_snoc.hyps(2)] run_snoc.IH by blast
  then have "wf E None [] s'" "balanced (grants op) (mset (handed op)) s s'" using run_snoc.hyps(3) by (auto simp: good_def)
  with balanced_trans [OF b] show ?case by simp
qed

section \<open>Started targets\<close>

text \<open>A target that holds no packet of a client, as HTCCreate leaves it.\<close>

definition started :: "HTC_TARGET \<Rightarrow> bool" where
  "started t \<longleftrightarrow> pBundleFreeTxList t = [] \<and> at_rest t \<and>
     (\<forall>e. TxQueue (EndPoint t e) = [] \<and> TxLookupQueue (EndPoint t e) = []) \<and>
     (\<forall>e<ENDPOINT_MAX. Id (EndPoint t e) = e \<and> 0 \<le> TxCredits (EndPoint t e))"

lemma started_places: "started t \<Longrightarrow> places t = {#}"
  by (simp add: started_def places_def ep_places_def outstanding_def)

lemma started_wf: "started t \<Longrightarrow> wf E None [] t \<and> at_rest t"
  using started_places [of t] by (auto simp: wf_def started_def kinds_def clients_def eps_def in_hand_def)

text \<open>C2: HTC neither loses nor duplicates a packet and gets stuck nowhere: after any sequence of calls, completions, flushes and trailers, each allowed call returns without a fault, a packet is in at most one queue at most once, and the packets handed to HTC are those given back to their clients and those in its queues, all of them when HTC makes no bundles and a part of them otherwise.\<close>

theorem htc_conserves_packets:
  assumes "started t" and "env_ok E" and "htc_run E t ops t'"
  shows "(\<forall>op. allowed E op t' \<longrightarrow> htc_step E op t' \<noteq> None) \<and>
    (\<forall>p. count (places t') p \<le> 1) \<and>
    mset (tx_done t') + places t' \<subseteq># mset (tx_done t) + mset (concat (map handed ops)) \<and>
    (\<not> HTC_ENABLE_BUNDLE t \<longrightarrow> mset (tx_done t') + places t' = mset (tx_done t) + mset (concat (map handed ops)))"
proof -
  have s: "wf E None [] t" "at_rest t" using started_wf [OF assms(1)] by auto
  have g: "wf E None [] t'"
    "balanced (\<lambda>e. sum_list (map (\<lambda>op. grants op e) ops)) (mset (concat (map handed ops))) t t'"
    using run_good [OF assms(3) s(1) assms(2) s(2)] by auto
  have "htc_step E op t' \<noteq> None" if "allowed E op t'" for op
    using step_good [OF g(1) assms(2) at_rest_balanced [OF s(2) g(2)] that] by (auto simp: good_def)
  moreover have "count (places t') p \<le> 1" for p using wfD(2) [OF g(1)] by (simp add: clients_def in_hand_def)
  ultimately show ?thesis using g(2) started_places [OF assms(1)] by (simp add: balanced_def)
qed

text \<open>C4: credits are never overspent: after any run the credits of an endpoint are not negative, and what its transfers have used with what it still has is at most what it started with and the trailers have granted.\<close>

theorem htc_credits_never_overspent:
  assumes "started t" and "env_ok E" and "htc_run E t ops t'" and "e < ENDPOINT_MAX"
  shows "0 \<le> TxCredits (EndPoint t' e) \<and>
    spent t' e + TxCredits (EndPoint t' e) \<le>
      spent t e + TxCredits (EndPoint t e) + sum_list (map (\<lambda>op. grants op e) ops)"
proof -
  have s: "wf E None [] t" "at_rest t" using started_wf [OF assms(1)] by auto
  have g: "wf E None [] t'"
    "balanced (\<lambda>e. sum_list (map (\<lambda>op. grants op e) ops)) (mset (concat (map handed ops))) t t'"
    using run_good [OF assms(3) s(1) assms(2) s(2)] by auto
  then show ?thesis using assms(4) by (auto simp: balanced_def wf_def eps_def)
qed

text \<open>C29: HTCTrySend on an endpoint that no other thread is draining, with packets in hand that fit, returns and does not leave work behind: without credit flow the queue is empty, with it the queue is empty or its first packet needs more credits than the endpoint has, and the endpoint is free for the next thread.\<close>

theorem htc_try_send_drains:
  assumes "wf E None q t" and "env_ok E" and "e < ENDPOINT_MAX" and "TxProcessCount (EndPoint t e) = 0"
    and "q \<noteq> []" and "fits e q t" and "0 < TxCreditSize (EndPoint t e)"
  shows "\<exists>t'. HTCTrySend E e (Some q) t = Some (HTC_SEND_QUEUE_OK, [], t') \<and>
    TxProcessCount (EndPoint t' e) = 0 \<and>
    (TxQueue (EndPoint t' e) = [] \<or>
      (\<exists>p ps c. TxCreditFlowEnabled (EndPoint t e) \<and> TxQueue (EndPoint t' e) = p # ps \<and> e \<noteq> ENDPOINT_0 \<and>
        credits_required (frame_len t' p) (TxCreditSize (EndPoint t' e)) = Some c \<and> TxCredits (EndPoint t' e) < c))"
proof -
  obtain t' pre S D where u: "HTCTrySend E e (Some q) t = Some (HTC_SEND_QUEUE_OK, [], t')" "wf E None [] t'"
    "accounts e 0 t t' q pre S D" "drained e t'"
    using try_send_wf [OF assms(1-4), of "Some q"] assms(5-7) by auto
  have p: "progress e 0 t t' pre S D" using u(3) by (simp add: accounts_def)
  have "Id (EndPoint t' e) = e" using u(2) assms(3) by (simp add: wf_def eps_def)
  then show ?thesis using u(1,4) progress_static [OF p] assms(4)
    by (auto simp: drained_def starved_def split: if_splits list.splits)
qed

text \<open>C30: HTCTrySend refines a queue: the endpoint's queue with the new packets at its end loses a prefix; of that prefix a subsequence, in order, is appended to what the endpoint has outstanding at the HIF, and a part disjoint from it is given back to the clients. Without bundles the prefix is exactly what was sent and what was given back; with bundles a packet of it may be neither, which is the loss of \<open>htc_bundle_overflow_loses_packet\<close>. The other endpoints keep theirs.\<close>

theorem htc_sends_in_order:
  assumes "wf E None q t" and "env_ok E" and "e < ENDPOINT_MAX" and "TxProcessCount (EndPoint t e) = 0"
    and "q \<noteq> []" and "fits e q t" and "0 < TxCreditSize (EndPoint t e)"
    and "HTCTrySend E e (Some q) t = Some (r, left, t')"
  shows "\<exists>pre S D. TxQueue (EndPoint t e) @ q = pre @ TxQueue (EndPoint t' e) \<and> subseq S pre \<and>
    outstanding t' e = outstanding t e @ S \<and> tx_done t' = tx_done t @ D \<and>
    mset S + mset D \<subseteq># mset pre \<and> (\<not> HTC_ENABLE_BUNDLE t \<longrightarrow> mset pre = mset S + mset D) \<and>
    (\<forall>e'. e' \<noteq> e \<longrightarrow> outstanding t' e' = outstanding t e' \<and> TxQueue (EndPoint t' e') = TxQueue (EndPoint t e'))"
proof -
  obtain u pre S D where u: "HTCTrySend E e (Some q) t = Some (HTC_SEND_QUEUE_OK, [], u)" "accounts e 0 t u q pre S D"
    using try_send_wf [OF assms(1-4), of "Some q"] assms(5-7) by auto
  then have "u = t'" using assms(8) by simp
  then show ?thesis using u(2) by (intro exI [of _ pre] exI [of _ S] exI [of _ D]) (simp add: accounts_def progress_def)
qed

section \<open>The start of a target\<close>

lemma reset_eps:
  "i < n \<Longrightarrow> EndPoint (fold (\<lambda>i. upd_ep i (reset_endpoint i)) [0..<n] t) i = reset_endpoint i (EndPoint t i)"
  "n \<le> i \<Longrightarrow> EndPoint (fold (\<lambda>i. upd_ep i (reset_endpoint i)) [0..<n] t) i = EndPoint t i"
  "pBundleFreeTxList (fold (\<lambda>i. upd_ep i (reset_endpoint i)) [0..<n] t) = pBundleFreeTxList t"
  by (induction n) (auto simp: upd_ep_def less_Suc_eq)

lemma create_eps:
  obtains a b where "EndPoint (HTCCreate malloc t) i =
      (if i < ENDPOINT_MAX then reset_endpoint i zero_endpoint else zero_endpoint)\<lparr>UL_PipeID := a, DL_PipeID := b\<rparr>"
    and "pBundleFreeTxList (HTCCreate malloc t) = []"
proof -
  define u where "u = ResetEndpointStates (zero_target t)"
  have u: "EndPoint u i = (if i < ENDPOINT_MAX then reset_endpoint i zero_endpoint else zero_endpoint)" "pBundleFreeTxList u = []" for i
    using reset_eps [where n = ENDPOINT_MAX and t = "zero_target t"]
    by (auto simp: u_def ResetEndpointStates_def ENDPOINT_0_def zero_target_def)
  have p: "EndPoint (fold (\<lambda>i t. case malloc i of None \<Rightarrow> t | Some p \<Rightarrow> FreeHTCPacketContainer p t) js t) = EndPoint t"
    "pBundleFreeTxList (fold (\<lambda>i t. case malloc i of None \<Rightarrow> t | Some p \<Rightarrow> FreeHTCPacketContainer p t) js t) = pBundleFreeTxList t" for js t
    by (induction js arbitrary: t) (auto simp: FreeHTCPacketContainer_def split: option.split)
  have ep: "(ep :: HTC_ENDPOINT) = ep\<lparr>UL_PipeID := UL_PipeID ep, DL_PipeID := DL_PipeID ep\<rparr>" for ep by simp
  obtain st pipes where m: "HIFMapServiceToPipe False HTC_CTRL_RSVD_SVC = (st, pipes)" by fastforce
  have "EndPoint (HTCCreate malloc t) i = EndPoint u i \<or>
      (\<exists>a b. EndPoint (HTCCreate malloc t) i = (EndPoint u i)\<lparr>UL_PipeID := a, DL_PipeID := b\<rparr>)"
    unfolding HTCCreate_def Let_def u_def [symmetric] m by (auto simp: p upd_ep_def split: option.split)
  then have "\<exists>a b. EndPoint (HTCCreate malloc t) i = (EndPoint u i)\<lparr>UL_PipeID := a, DL_PipeID := b\<rparr>"
    using ep [of "EndPoint u i"] by metis
  moreover have "pBundleFreeTxList (HTCCreate malloc t) = []"
    unfolding HTCCreate_def Let_def u_def [symmetric] by (simp add: p u upd_ep_def split: prod.split option.split)
  ultimately show ?thesis using that u by auto
qed

lemma started_create: "started (HTCCreate malloc t)"
proof -
  let ?t = "HTCCreate malloc t"
  have "pBundleFreeTxList ?t = []" by (rule create_eps [of malloc t 0])
  moreover have "TxQueue (EndPoint ?t e) = [] \<and> TxLookupQueue (EndPoint ?t e) = [] \<and> TxProcessCount (EndPoint ?t e) = 0 \<and>
      TxCredits (EndPoint ?t e) = 0 \<and> (e < ENDPOINT_MAX \<longrightarrow> Id (EndPoint ?t e) = e)" for e
    by (rule create_eps [of malloc t e]) (simp add: reset_endpoint_def zero_endpoint_def)
  ultimately show ?thesis by (simp add: started_def at_rest_def)
qed

lemma started_ep:
  assumes "started t" and "\<And>x. TxQueue (f x) = TxQueue x \<and> TxLookupQueue (f x) = TxLookupQueue x \<and> TxProcessCount (f x) = TxProcessCount x"
    and "Id (f (EndPoint t e)) = e" and "0 \<le> TxCredits (f (EndPoint t e))"
  shows "started (upd_ep e f t)"
  using assms by (auto simp: started_def at_rest_def upd_ep_def)

section \<open>Witnesses\<close>

text \<open>
  A target with one connected endpoint: 1, for HTT data, with three credits of 64 bytes. Packet \<open>p\<close> has
  the buffer \<open>p + 100\<close>, with eight bytes of headroom and four bytes of data.
\<close>

definition sample_endpoint :: "nat \<Rightarrow> HTC_ENDPOINT" where
  "sample_endpoint e = zero_endpoint\<lparr>Id := e, ServiceID := (if e = 1 then HTT_DATA_MSG_SVC else 0), MaxTxQueueDepth := 16,
     TxCreditSize := 64, TxCredits := 3, TxCreditFlowEnabled := True\<rparr>"

definition sample_packet :: "addr \<Rightarrow> HTC_PACKET" where
  "sample_packet p = \<lparr>pPktContext = NULL, pNetBufContext = p + 100, ActualLength = 4, Endpoint = 1, Status = A_OK, Tag = 0,
     CreditsUsed = 0, SendFlags = 0, pkt_SeqNo = 0, Flags = 0, pQueueSave = []\<rparr>"

definition sample_nbuf :: "addr \<Rightarrow> nbuf" where
  "sample_nbuf a = \<lparr>nb_room = replicate 8 0, nb_extra = [], nb_data = [1, 2, 3, 4], nb_maps = 0\<rparr>"

definition sample_target :: HTC_TARGET where
  "sample_target = \<lparr>EndPoint = sample_endpoint, HTCStateFlags = 0, pHTCPacketStructPool = [],
     CtrlResponseBuffer = replicate HTC_MAX_CONTROL_MESSAGE_LENGTH 0, CtrlResponseLength = 0, CtrlResponseValid = False,
     CtrlResponseProcessing = False, TotalTransmitCredits = 6, ServiceTxAllocTable = replicate HTC_MAX_SERVICE_ALLOC_ENTRIES (0, 0),
     TargetCreditSize = 64, pBundleFreeTxList = [], CE_send_cnt = 0, TX_comp_cnt = 0, MaxMsgsPerHTCBundle = 1,
     AltDataCreditSize = 0, htc_get_pkt_q_fail_count = 0, htc_pkt_q_empty_count = 0, htc_send_q_empty_count = 0,
     htc_credit_history_idx = 0, htc_credit_history_buffer = (\<lambda>_. (HTC_REQUEST_CREDIT, 0, 0)),
     packets = sample_packet, nbufs = sample_nbuf, nb_freed = [], xfers = [], calls = [], send_calls = 0, allocs = 0\<rparr>"

definition sample_htc_env :: htc_env where
  "sample_htc_env = \<lparr>hif_status = (\<lambda>_. A_OK), new_bundle = (\<lambda>_. None)\<rparr>"

lemma sample_ok: "started sample_target" "env_ok sample_htc_env" "containers sample_htc_env = {}"
  by (auto simp: started_def at_rest_def sample_target_def sample_endpoint_def zero_endpoint_def env_ok_def
    sample_htc_env_def containers_def)

lemma sample_allowed: "allowed sample_htc_env (OpSend [1, 2]) sample_target"
proof -
  have p: "places sample_target = {#}" by (rule started_places [OF sample_ok(1)])
  have "idle 1 sample_target"
    by (simp add: idle_def sample_target_def sample_endpoint_def zero_endpoint_def ENDPOINT_MAX_def HTT_DATA_MSG_SVC_def
      MAKE_SERVICE_ID_def)
  moreover have "fits 1 [1, 2] sample_target" by (simp add: fits_def sample_target_def sample_endpoint_def zero_endpoint_def)
  moreover have "fresh sample_htc_env sample_target q" for q
    by (simp add: fresh_def sample_ok is_bundle_def sample_target_def sample_packet_def sample_nbuf_def
      HTC_TX_PACKET_TAG_BUNDLED_def HTC_TX_PACKET_TAG_USER_DEFINED_def HTC_TX_PACKET_TAG_INTERNAL_def HTC_HDR_LENGTH_def
      GET_HTC_PACKET_NET_BUF_CONTEXT_def)
  moreover have "Endpoint (packets sample_target q) = 1" for q by (simp add: sample_target_def sample_packet_def)
  moreover have "GET_HTC_PACKET_NET_BUF_CONTEXT sample_target = (\<lambda>q. q + 100)"
    by (simp add: fun_eq_iff sample_target_def sample_packet_def GET_HTC_PACKET_NET_BUF_CONTEXT_def)
  ultimately show ?thesis by (simp add: sendable_def p inj_on_def)
qed

lemma sample_run: "\<exists>t'. htc_run sample_htc_env sample_target [OpSend [1, 2]] t'"
proof -
  obtain t' where "htc_step sample_htc_env (OpSend [1, 2]) sample_target = Some t'"
    using step_good [OF _ sample_ok(2) _ sample_allowed] started_wf [OF sample_ok(1)] by (auto simp: good_def)
  from run_snoc [OF run_Nil sample_allowed this] show ?thesis by auto
qed

theorem htc_conserves_packets_witness:
  "\<exists>t'. htc_run sample_htc_env sample_target [OpSend [1, 2]] t' \<and> mset (tx_done t') + places t' = {#1, 2#}"
proof -
  obtain t' where r: "htc_run sample_htc_env sample_target [OpSend [1, 2]] t'" using sample_run by blast
  have "tx_done sample_target = []" "\<not> HTC_ENABLE_BUNDLE sample_target"
    by (simp_all add: tx_done_def sample_target_def HTC_ENABLE_BUNDLE_def)
  then show ?thesis using htc_conserves_packets [OF sample_ok(1,2) r] r by auto
qed

theorem htc_credits_never_overspent_witness:
  "\<exists>t'. htc_run sample_htc_env sample_target [OpSend [1, 2]] t' \<and> 0 \<le> TxCredits (EndPoint t' 1) \<and>
    spent t' 1 + TxCredits (EndPoint t' 1) \<le> 3"
proof -
  obtain t' where r: "htc_run sample_htc_env sample_target [OpSend [1, 2]] t'" using sample_run by blast
  have "spent sample_target 1 = 0" "TxCredits (EndPoint sample_target 1) = 3"
    by (simp_all add: spent_def sample_target_def sample_endpoint_def)
  then show ?thesis using htc_credits_never_overspent [OF sample_ok(1,2) r, of 1] r by (auto simp: ENDPOINT_MAX_def)
qed

text \<open>The same target after the two packets have been prepared.\<close>

lemma sample_hand:
  "\<exists>t. wf sample_htc_env None [1, 2] t \<and> prepared 1 sample_target t"
proof -
  have s: "sendable sample_htc_env [1, 2] sample_target" using sample_allowed by simp
  show ?thesis
    using prepare_all_wf [of sample_htc_env "[]" sample_target "[1, 2]" 1] started_wf [OF sample_ok(1)] s by (auto simp: sendable_def)
qed

lemma sample_hand_ok:
  assumes "prepared 1 sample_target t"
  shows "TxProcessCount (EndPoint t 1) = 0" "fits 1 [1, 2] t" "0 < TxCreditSize (EndPoint t 1)"
  using assms by (auto simp: prepared_def fits_def sample_target_def sample_endpoint_def zero_endpoint_def)

theorem htc_try_send_drains_witness:
  "\<exists>t t'. prepared 1 sample_target t \<and>
    HTCTrySend sample_htc_env 1 (Some [1, 2]) t = Some (HTC_SEND_QUEUE_OK, [], t') \<and> TxProcessCount (EndPoint t' 1) = 0"
proof -
  obtain t where t: "wf sample_htc_env None [1, 2] t" "prepared 1 sample_target t" using sample_hand by blast
  show ?thesis
    using htc_try_send_drains [OF t(1) sample_ok(2) _ sample_hand_ok(1) [OF t(2)] _ sample_hand_ok(2,3) [OF t(2)]] t(2)
    by (auto simp: ENDPOINT_MAX_def)
qed

theorem htc_sends_in_order_witness:
  "\<exists>t t' r left pre S. HTCTrySend sample_htc_env 1 (Some [1, 2]) t = Some (r, left, t') \<and>
    [1, 2] = pre @ TxQueue (EndPoint t' 1) \<and> subseq S pre \<and> outstanding t' 1 = S"
proof -
  obtain t where t: "wf sample_htc_env None [1, 2] t" "prepared 1 sample_target t" using sample_hand by blast
  have q: "TxQueue (EndPoint t 1) = []" "outstanding t 1 = []"
    using t(2) sample_ok(1) by (auto simp: prepared_def started_def outstanding_def)
  obtain t' where u: "HTCTrySend sample_htc_env 1 (Some [1, 2]) t = Some (HTC_SEND_QUEUE_OK, [], t')"
    using try_send_wf [OF t(1) sample_ok(2) _ sample_hand_ok(1) [OF t(2)], of "Some [1, 2]"] sample_hand_ok [OF t(2)]
    by (auto simp: ENDPOINT_MAX_def)
  have e: "(1::nat) < ENDPOINT_MAX" "[1, 2 :: addr] \<noteq> []" by (simp_all add: ENDPOINT_MAX_def)
  obtain pre S where "[1, 2] = pre @ TxQueue (EndPoint t' 1)" "subseq S pre" "outstanding t' 1 = S"
    using htc_sends_in_order [OF t(1) sample_ok(2) e(1) sample_hand_ok(1) [OF t(2)] e(2) sample_hand_ok(2,3) [OF t(2)] u] q
    by auto
  with u show ?thesis by blast
qed

end
