(* ===== verification/Htc_Wire.thy ===== *)
theory Htc_Wire
  imports Htc_Run
begin

text \<open>
  The bytes of HTC: what the fields of a message hold after they are written, the records of a
  trailer, and the frames a client is given.
\<close>

section \<open>Fields\<close>

lemmas bits = bit_and_iff bit_or_iff bit_push_bit_iff bit_drop_bit_eq bit_ucast_iff possible_bit_def comp_def

lemma of_le32_le32: "of_le32 (ucast v) (ucast (drop_bit 8 v)) (ucast (drop_bit 16 v)) (ucast (drop_bit 24 v)) = (v :: u32)"
proof (rule bit_word_eqI)
  fix n assume n: "n < LENGTH(32)"
  have "bit (of_le32 (ucast v) (ucast (drop_bit 8 v)) (ucast (drop_bit 16 v)) (ucast (drop_bit 24 v))) n \<longleftrightarrow>
    n < 8 \<and> bit v n \<or> 8 \<le> n \<and> n - 8 < 8 \<and> bit v (8 + (n - 8)) \<or>
    16 \<le> n \<and> n - 16 < 8 \<and> bit v (16 + (n - 16)) \<or> 24 \<le> n \<and> n - 24 < 8 \<and> bit v (24 + (n - 24))"
    using n by (simp only: of_le32_def bits) auto
  also have "\<dots> \<longleftrightarrow> bit v n"
    using n by (cases "n < 8"; cases "n < 16"; cases "n < 24") auto
  finally show "bit (of_le32 (ucast v) (ucast (drop_bit 8 v)) (ucast (drop_bit 16 v)) (ucast (drop_bit 24 v))) n = bit v n" .
qed

lemma le32_eq: "le32 v = [ucast v, ucast (drop_bit 8 v), ucast (drop_bit 16 v), ucast (drop_bit 24 v)]"
  by (simp add: le32_def)

lemma read32_le32: "length a = i \<Longrightarrow> read32 (a @ le32 v @ b) i = Some v"
  by (simp add: read32_def le32_eq of_le32_le32)

lemma masks:
  "bit (0x000000ff :: u32) n \<longleftrightarrow> n < 8" "bit (0x0000ff00 :: u32) n \<longleftrightarrow> 8 \<le> n \<and> n < 16"
  "bit (0xffff0000 :: u32) n \<longleftrightarrow> 16 \<le> n \<and> n < 32" "bit (0x0000ffff :: u32) n \<longleftrightarrow> n < 16"
proof -
  have m: "(0x000000ff :: u32) = mask 8" "(0x0000ff00 :: u32) = push_bit 8 (mask 8)"
    "(0xffff0000 :: u32) = push_bit 16 (mask 16)" "(0x0000ffff :: u32) = mask 16"
    by (simp_all add: mask_eq_exp_minus_1 push_bit_eq_mult)
  show "bit (0x000000ff :: u32) n \<longleftrightarrow> n < 8" "bit (0x0000ff00 :: u32) n \<longleftrightarrow> 8 \<le> n \<and> n < 16"
    "bit (0xffff0000 :: u32) n \<longleftrightarrow> 16 \<le> n \<and> n < 32" "bit (0x0000ffff :: u32) n \<longleftrightarrow> n < 16"
    unfolding m by (auto simp: bit_simps)
qed

lemmas fields = HTC_FRAME_HDR_ENDPOINTID_def HTC_FRAME_HDR_FLAGS_def HTC_FRAME_HDR_PAYLOADLEN_def
  HTC_FRAME_HDR_CONTROLBYTES0_def HTC_FRAME_HDR_CONTROLBYTES1_def HTC_FRAME_HDR_RESERVED_def htc_field.simps

lemma hdr_fields:
  "MS (htc_hdr_word0 k flags) HTC_FRAME_HDR_PAYLOADLEN = ActualLength k AND 0xffff"
  "MS (htc_hdr_word0 k flags) HTC_FRAME_HDR_FLAGS = ucast flags"
  "MS (htc_hdr_word0 k flags) HTC_FRAME_HDR_ENDPOINTID = word_of_nat (Endpoint k) AND 0xff"
  by (rule bit_word_eqI; simp only: htc_hdr_word0_def MS_def SM_def fields bits masks; auto dest: bit_imp_le_length)+

lemma hdr_fields1:
  "MS (htc_hdr_word1 seq pad) HTC_FRAME_HDR_CONTROLBYTES1 = ucast seq"
  "MS (htc_hdr_word1 seq pad) HTC_FRAME_HDR_RESERVED = word_of_nat pad AND 0xffff"
  by (rule bit_word_eqI; simp only: htc_hdr_word1_def MS_def SM_def fields bits masks; auto dest: bit_imp_le_length)+

lemma write_hdr_frags:
  assumes "write_hdr w0 w1 b = Some b'"
  shows "hd (adf_nbuf_frags b') = le32 w0 @ le32 w1 @ drop 8 (hd (adf_nbuf_frags b)) \<and>
    tl (adf_nbuf_frags b') = tl (adf_nbuf_frags b)"
  using assms by (cases "nb_extra b")
    (auto simp: write_hdr_def HTC_WRITE32_def adf_nbuf_frags_def write32_def le32_eq split: Option.bind_splits if_splits)

text \<open>C32: the header HTC puts in front of a packet is read back as it was written: after the two words are stored in the first fragment of a buffer, the field readers give the low 16 bits of the length of the packet, the flags, the low 8 bits of the endpoint, the sequence number and the low 16 bits of the padding; the bytes behind the header and the other fragments are as they were.\<close>

theorem htc_header_roundtrip:
  assumes "write_hdr (htc_hdr_word0 k flags) (htc_hdr_word1 seq pad) b = Some b'"
  shows "HTC_GET_FIELD (hd (adf_nbuf_frags b')) HTC_FRAME_HDR_PAYLOADLEN = Some (ActualLength k AND 0xffff) \<and>
    HTC_GET_FIELD (hd (adf_nbuf_frags b')) HTC_FRAME_HDR_FLAGS = Some (ucast flags) \<and>
    HTC_GET_FIELD (hd (adf_nbuf_frags b')) HTC_FRAME_HDR_ENDPOINTID = Some (word_of_nat (Endpoint k) AND 0xff) \<and>
    HTC_GET_FIELD (hd (adf_nbuf_frags b')) HTC_FRAME_HDR_CONTROLBYTES1 = Some (ucast seq) \<and>
    HTC_GET_FIELD (hd (adf_nbuf_frags b')) HTC_FRAME_HDR_RESERVED = Some (word_of_nat pad AND 0xffff) \<and>
    drop HTC_HDR_LENGTH (hd (adf_nbuf_frags b')) = drop HTC_HDR_LENGTH (hd (adf_nbuf_frags b)) \<and>
    tl (adf_nbuf_frags b') = tl (adf_nbuf_frags b)"
proof -
  let ?w0 = "htc_hdr_word0 k flags" and ?w1 = "htc_hdr_word1 seq pad"
  have h: "hd (adf_nbuf_frags b') = le32 ?w0 @ le32 ?w1 @ drop 8 (hd (adf_nbuf_frags b)) \<and>
      tl (adf_nbuf_frags b') = tl (adf_nbuf_frags b)"
    by (rule write_hdr_frags [OF assms])
  have r: "read32 (hd (adf_nbuf_frags b')) 0 = Some ?w0" "read32 (hd (adf_nbuf_frags b')) 4 = Some ?w1"
    using read32_le32 [of "[]" 0 ?w0] read32_le32 [of "le32 ?w0" 4 ?w1] h by auto
  show ?thesis
    unfolding HTC_GET_FIELD_def fields r using h hdr_fields [of k flags] hdr_fields1 [of seq pad]
    by (simp add: HTC_HDR_LENGTH_def fields)
qed

theorem htc_header_roundtrip_witness:
  "\<exists>b'. write_hdr (htc_hdr_word0 (sample_packet 1) 1) (htc_hdr_word1 7 12) \<lparr>nb_room = [], nb_extra = [], nb_data = replicate 8 0, nb_maps = 0\<rparr> = Some b' \<and>
    HTC_GET_FIELD (hd (adf_nbuf_frags b')) HTC_FRAME_HDR_PAYLOADLEN = Some 4 \<and>
    HTC_GET_FIELD (hd (adf_nbuf_frags b')) HTC_FRAME_HDR_RESERVED = Some 12"
proof -
  let ?b = "\<lparr>nb_room = [], nb_extra = [], nb_data = replicate 8 (0 :: u8), nb_maps = 0\<rparr>"
  have "HTC_HDR_LENGTH \<le> length (hd (adf_nbuf_frags ?b))" by (simp add: HTC_HDR_LENGTH_def adf_nbuf_frags_def)
  from write_hdr_defined [OF this] obtain b' where
    "write_hdr (htc_hdr_word0 (sample_packet 1) 1) (htc_hdr_word1 7 12) ?b = Some b'" by blast
  with htc_header_roundtrip [OF this] show ?thesis by (intro exI [of _ b']) (simp add: sample_packet_def)
qed

section \<open>Trailers\<close>

text \<open>Credit reports when nothing waits for credits: only credits and their history change.\<close>

definition credited :: "(nat \<Rightarrow> int) \<Rightarrow> HTC_TARGET \<Rightarrow> HTC_TARGET \<Rightarrow> bool" where
  "credited g t t' \<longleftrightarrow> (\<exists>i h. t' = t\<lparr>EndPoint := (\<lambda>e. (EndPoint t e)\<lparr>TxCredits := TxCredits (EndPoint t e) + g e\<rparr>),
     htc_credit_history_idx := i, htc_credit_history_buffer := h\<rparr>)"

lemma credited_zero: "credited (\<lambda>e. 0) t t"
  unfolding credited_def
  by (intro exI [of _ "htc_credit_history_idx t"] exI [of _ "htc_credit_history_buffer t"]) simp

lemma credited_trans: "credited g t t1 \<Longrightarrow> credited h t1 t2 \<Longrightarrow> credited (\<lambda>e. g e + h e) t t2"
  unfolding credited_def by (elim exE, intro exI) (simp add: add.assoc)

lemma credited_queue: "credited g t t' \<Longrightarrow> TxQueue (EndPoint t' e) = TxQueue (EndPoint t e)"
  by (auto simp: credited_def)

lemma credit_report_idle:
  "\<forall>e. TxQueue (EndPoint t e) = [] \<Longrightarrow> \<exists>t'. HTCProcessCreditRpt E rs t = Some t' \<and> credited (granted rs) t t'"
proof (induction rs arbitrary: t)
  case Nil
  have "granted [] = (\<lambda>e. 0)" by (simp add: fun_eq_iff)
  then show ?case using credited_zero [of t] by simp
next
  case (Cons rc rs)
  obtain r c where rc: "rc = (r, c)" by (cases rc)
  let ?e = "unat r" and ?n = "int (unat c)"
  show ?case
  proof (cases "ENDPOINT_MAX \<le> ?e")
    case True
    then have "granted (rc # rs) = (\<lambda>e. 0)" by (simp add: fun_eq_iff rc)
    then show ?thesis using True credited_zero [of t] by (simp add: rc)
  next
    case False
    define t0 where "t0 = upd_ep ?e (\<lambda>ep. ep\<lparr>TxCredits := TxCredits ep + ?n\<rparr>) t"
    define t1 where "t1 = (if ServiceID (EndPoint t0 ?e) = WMI_CONTROL_SVC
      then record_credits HTC_PROCESS_CREDIT_REPORT ?e t0 else t0)"
    have "EndPoint t0 = (\<lambda>e. (EndPoint t e)\<lparr>TxCredits := TxCredits (EndPoint t e) + (if e = ?e then ?n else 0)\<rparr>)"
      by (auto simp: t0_def upd_ep_def fun_eq_iff)
    then have c1: "credited (\<lambda>e. if e = ?e then ?n else 0) t t1"
      unfolding credited_def
      by (intro exI [of _ "htc_credit_history_idx t1"] exI [of _ "htc_credit_history_buffer t1"])
        (auto simp: t1_def record_credits_def htc_credit_record_def Let_def t0_def upd_ep_def)
    have q1: "\<forall>e. TxQueue (EndPoint t1 e) = []" using credited_queue [OF c1] Cons.prems by simp
    obtain t' where t': "HTCProcessCreditRpt E rs t1 = Some t'" "credited (granted rs) t1 t'" using Cons.IH [OF q1] by blast
    have "send_credited E ?e t1 = Some t1" using q1 by (simp add: send_credited_def)
    then have "HTCProcessCreditRpt E (rc # rs) t = Some t'"
      using False t'(1) unfolding t1_def t0_def by (simp add: rc Let_def cong: if_cong split del: if_split)
    moreover have "(\<lambda>e. (if e = ?e then ?n else 0) + granted rs e) = granted (rc # rs)" using False by (auto simp: rc fun_eq_iff)
    ultimately show ?thesis using credited_trans [OF c1 t'(2)] by auto
  qed
qed

lemma record_fields:
  assumes "\<not> length buf < sizeof_HTC_RECORD_HDR"
  shows "\<exists>rid. HTC_GET_FIELD buf HTC_RECORD_HDR_LENGTH = Some (word_of_nat (record_length buf)) \<and>
    unat (word_of_nat (record_length buf) :: u32) = record_length buf \<and>
    HTC_GET_FIELD buf HTC_RECORD_HDR_RECORDID = Some rid \<and>
    (is_credit_record buf \<longleftrightarrow> rid = ucast HTC_RECORD_CREDITS) \<and> buf \<noteq> []"
proof -
  obtain w where w: "read32 buf 0 = Some w" using read32_Some [of 0 buf] assms by (auto simp: sizeof_HTC_RECORD_HDR_def)
  have "HTC_GET_FIELD buf HTC_RECORD_HDR_LENGTH = Some (MS w HTC_RECORD_HDR_LENGTH)"
    "HTC_GET_FIELD buf HTC_RECORD_HDR_RECORDID = Some (MS w HTC_RECORD_HDR_RECORDID)"
    using w by (simp_all add: HTC_GET_FIELD_def HTC_RECORD_HDR_LENGTH_def HTC_RECORD_HDR_RECORDID_def)
  moreover have "record_length buf = unat (MS w HTC_RECORD_HDR_LENGTH)" using calculation(1) by (simp add: record_length_def)
  ultimately show ?thesis using assms
    by (intro exI [of _ "MS w HTC_RECORD_HDR_RECORDID"]) (auto simp: is_credit_record_def sizeof_HTC_RECORD_HDR_def)
qed

lemma trailer_idle:
  "\<forall>e. TxQueue (EndPoint t e) = [] \<Longrightarrow>
   \<exists>t'. HTCProcessTrailer E buf t = Some (trailer_status buf, t') \<and> credited (trailer_grants buf) t t'"
proof (induction "length buf" arbitrary: buf t rule: less_induct)
  case less
  note u = HTCProcessTrailer.simps [of E buf t] credit_records.simps [of buf] trailer_status.simps [of buf]
  show ?case
  proof (cases "length buf < sizeof_HTC_RECORD_HDR")
    case True
    then have "trailer_grants buf = (\<lambda>e. 0)" using u(2) by (simp add: trailer_grants_def fun_eq_iff)
    then show ?thesis using u(1,3) True credited_zero [of t] by (auto simp: sizeof_HTC_RECORD_HDR_def)
  next
    case False
    let ?body = "drop sizeof_HTC_RECORD_HDR buf" and ?n = "record_length buf"
    obtain rid where f: "HTC_GET_FIELD buf HTC_RECORD_HDR_LENGTH = Some (word_of_nat ?n)" "unat (word_of_nat ?n :: u32) = ?n"
      "HTC_GET_FIELD buf HTC_RECORD_HDR_RECORDID = Some rid" "is_credit_record buf \<longleftrightarrow> rid = ucast HTC_RECORD_CREDITS" "buf \<noteq> []"
      using record_fields [OF False] by blast
    show ?thesis
    proof (cases "length ?body < ?n")
      case True
      then have "trailer_grants buf = (\<lambda>e. 0)" using u(2) False by (simp add: trailer_grants_def fun_eq_iff Let_def)
      then show ?thesis using u(1,3) False f True credited_zero [of t] by (simp add: Let_def)
    next
      case fits: False
      let ?g = "\<lambda>e. if is_credit_record buf then granted (credit_entries (take ?n ?body)) e else 0"
      let ?r = "if rid = ucast HTC_RECORD_CREDITS then HTCProcessCreditRpt E (credit_entries (take ?n ?body)) t else Some t"
      obtain t1 where t1: "?r = Some t1" "credited ?g t t1"
        using credit_report_idle [OF less.prems] credited_zero [of t] f(4) by (cases "is_credit_record buf") auto
      have "length (drop ?n ?body) < length buf" using False by (auto simp: sizeof_HTC_RECORD_HDR_def)
      then obtain t' where t': "HTCProcessTrailer E (drop ?n ?body) t1 = Some (trailer_status (drop ?n ?body), t')"
        "credited (trailer_grants (drop ?n ?body)) t1 t'"
        using less.hyps [of "drop ?n ?body" t1] less.prems credited_queue [OF t1(2)] by auto
      have "HTCProcessTrailer E buf t = Some (trailer_status buf, t')"
        using u(1,3) False f fits t1(1) t'(1) by (simp add: Let_def cong: if_cong split del: if_split)
      moreover have "(\<lambda>e. ?g e + trailer_grants (drop ?n ?body) e) = trailer_grants buf"
        using u(2) False fits by (simp add: trailer_grants_def fun_eq_iff Let_def)
      ultimately show ?thesis using credited_trans [OF t1(2) t'(2)] by auto
    qed
  qed
qed

text \<open>The trailer a target sends: its records of credits, each with a header of four bytes and an entry of four bytes for each report.\<close>

definition entry_bytes :: "u8 \<times> u8 \<Rightarrow> u8 list" where
  "entry_bytes rc = le32 (SM (ucast (fst rc)) HTC_CREDIT_REPORT_ENDPOINTID OR SM (ucast (snd rc)) HTC_CREDIT_REPORT_CREDITS)"

definition record_bytes :: "(u8 \<times> u8) list \<Rightarrow> u8 list" where
  "record_bytes rs = le32 (SM (ucast HTC_RECORD_CREDITS) HTC_RECORD_HDR_RECORDID OR
       SM (word_of_nat (4 * length rs)) HTC_RECORD_HDR_LENGTH) @ concat (map entry_bytes rs)"

lemmas record_defs = HTC_RECORD_HDR_RECORDID_def HTC_RECORD_HDR_LENGTH_def HTC_CREDIT_REPORT_ENDPOINTID_def
  HTC_CREDIT_REPORT_CREDITS_def htc_field.simps

lemma entry_fields:
  "MS (SM (ucast r) HTC_CREDIT_REPORT_ENDPOINTID OR SM (ucast c) HTC_CREDIT_REPORT_CREDITS) HTC_CREDIT_REPORT_ENDPOINTID = ucast (r :: u8)"
  "MS (SM (ucast r) HTC_CREDIT_REPORT_ENDPOINTID OR SM (ucast c) HTC_CREDIT_REPORT_CREDITS) HTC_CREDIT_REPORT_CREDITS = ucast (c :: u8)"
  by (rule bit_word_eqI; simp only: MS_def SM_def record_defs bits masks; auto dest: bit_imp_le_length)+

lemma record_hdr_fields:
  "MS (SM (ucast r) HTC_RECORD_HDR_RECORDID OR SM (ucast n) HTC_RECORD_HDR_LENGTH) HTC_RECORD_HDR_RECORDID = ucast (r :: u8)"
  "MS (SM (ucast r) HTC_RECORD_HDR_RECORDID OR SM (ucast n) HTC_RECORD_HDR_LENGTH) HTC_RECORD_HDR_LENGTH = ucast (n :: u8)"
  by (rule bit_word_eqI; simp only: MS_def SM_def record_defs bits masks; auto dest: bit_imp_le_length)+

lemma credit_entries_le32: "credit_entries (le32 w @ bs) =
  (ucast (MS w HTC_CREDIT_REPORT_ENDPOINTID), ucast (MS w HTC_CREDIT_REPORT_CREDITS)) # credit_entries bs"
  by (simp add: le32_eq of_le32_le32)

lemma u8_u32: "ucast (ucast (r :: u8) :: u32) = r"
  by (rule bit_word_eqI) (auto simp: bit_ucast_iff)

lemma entries_roundtrip: "credit_entries (concat (map entry_bytes rs)) = rs"
proof (induction rs)
  case (Cons rc rs)
  obtain r c where "rc = (r, c)" by (cases rc)
  then show ?case using Cons by (simp add: entry_bytes_def credit_entries_le32 entry_fields u8_u32)
qed simp

lemma length_entries: "length (concat (map entry_bytes rs)) = 4 * length rs"
  by (induction rs) (auto simp: entry_bytes_def le32_eq)

lemma records_roundtrip:
  "\<forall>rs \<in> set rss. length rs < 64 \<Longrightarrow>
   credit_records (concat (map record_bytes rss)) = rss \<and> trailer_status (concat (map record_bytes rss)) = A_OK"
proof (induction rss)
  case Nil
  then show ?case by (simp add: credit_records.simps trailer_status.simps sizeof_HTC_RECORD_HDR_def)
next
  case (Cons rs rss)
  let ?n = "word_of_nat (4 * length rs) :: u8" and ?rest = "concat (map record_bytes rss)"
  have n: "unat ?n = 4 * length rs" using Cons.prems by (simp only: unat_of_nat) simp
  have "(word_of_nat (4 * length rs) :: u32) = ucast ?n"
    using of_nat_unat [of ?n, where 'a = "32 word"] unfolding n .
  then have b: "record_bytes rs = le32 (SM (ucast HTC_RECORD_CREDITS) HTC_RECORD_HDR_RECORDID OR
       SM (ucast ?n) HTC_RECORD_HDR_LENGTH) @ concat (map entry_bytes rs)" by (simp add: record_bytes_def)
  let ?buf = "concat (map record_bytes (rs # rss))"
  have r: "read32 ?buf 0 = Some (SM (ucast HTC_RECORD_CREDITS) HTC_RECORD_HDR_RECORDID OR SM (ucast ?n) HTC_RECORD_HDR_LENGTH)"
    using read32_le32 [of "[]" 0] b by simp
  have o: "OFFSET HTC_RECORD_HDR_RECORDID = 0" "OFFSET HTC_RECORD_HDR_LENGTH = 0" by (simp_all add: record_defs)
  have l: "record_length ?buf = 4 * length rs" "is_credit_record ?buf"
    by (simp_all only: record_length_def is_credit_record_def HTC_GET_FIELD_def o r bind.bind_lunit record_hdr_fields option.sel n)
      (simp_all only: unat_ucast_u8_u32 n simp_thms)
  have d: "drop sizeof_HTC_RECORD_HDR ?buf = concat (map entry_bytes rs) @ ?rest" "\<not> length ?buf < sizeof_HTC_RECORD_HDR" "?buf \<noteq> []"
    by (simp_all add: b le32_eq sizeof_HTC_RECORD_HDR_def)
  show ?case
    using Cons l d length_entries [of rs] entries_roundtrip [of rs]
    by (simp only: credit_records.simps [of ?buf] trailer_status.simps [of ?buf]) (simp add: Let_def)
qed

text \<open>C33: HTCProcessTrailer decodes what a target encodes: from the bytes of any number of credit records with fewer than 64 reports each it returns without an error, and when no packet waits for credits each endpoint has exactly the credits reported for it more, up to the first report of a record that names no endpoint, and no client is called.\<close>

theorem htc_trailer_roundtrip:
  assumes "\<forall>rs \<in> set rss. length rs < 64" and "\<forall>e. TxQueue (EndPoint t e) = []"
  shows "\<exists>t'. HTCProcessTrailer E (concat (map record_bytes rss)) t = Some (A_OK, t') \<and>
    (\<forall>e. TxCredits (EndPoint t' e) = TxCredits (EndPoint t e) + sum_list (map (\<lambda>rs. granted rs e) rss)) \<and>
    calls t' = calls t \<and> xfers t' = xfers t"
proof -
  note r = records_roundtrip [OF assms(1)]
  obtain t' where t': "HTCProcessTrailer E (concat (map record_bytes rss)) t = Some (A_OK, t')"
    "credited (trailer_grants (concat (map record_bytes rss))) t t'"
    using trailer_idle [OF assms(2), of E "concat (map record_bytes rss)"] r by auto
  then show ?thesis using r by (auto simp: credited_def trailer_grants_def)
qed

theorem htc_trailer_roundtrip_witness:
  "\<exists>t'. HTCProcessTrailer sample_htc_env (concat (map record_bytes [[(1, 2), (0, 1)], [(1, 4)]])) sample_target = Some (A_OK, t') \<and>
    TxCredits (EndPoint t' 1) = 9"
proof -
  have q: "\<forall>e. TxQueue (EndPoint sample_target e) = []" using sample_ok(1) by (simp add: started_def)
  have "TxCredits (EndPoint sample_target 1) = 3" by (simp add: sample_target_def sample_endpoint_def)
  then show ?thesis
    using htc_trailer_roundtrip [of "[[(1, 2), (0, 1)], [(1, 4)]]" sample_target sample_htc_env, OF _ q] by (auto simp: ENDPOINT_MAX_def)
qed

section \<open>Received frames\<close>

text \<open>The header of a frame the target sends.\<close>

definition rx_header :: "nat \<Rightarrow> u8 \<Rightarrow> nat \<Rightarrow> u8 \<Rightarrow> u8 list" where
  "rx_header e flags len cb0 =
     le32 (SM (word_of_nat len) HTC_FRAME_HDR_PAYLOADLEN OR SM (ucast flags) HTC_FRAME_HDR_FLAGS OR
       SM (ucast (word_of_nat e :: u8)) HTC_FRAME_HDR_ENDPOINTID) @
     le32 (SM (ucast cb0) HTC_FRAME_HDR_CONTROLBYTES0)"

lemma rx_fields:
  "MS (SM (len :: u32) HTC_FRAME_HDR_PAYLOADLEN OR SM (ucast fl) HTC_FRAME_HDR_FLAGS OR SM (ucast e) HTC_FRAME_HDR_ENDPOINTID)
     HTC_FRAME_HDR_PAYLOADLEN = len AND 0xffff"
  "MS (SM (len :: u32) HTC_FRAME_HDR_PAYLOADLEN OR SM (ucast fl) HTC_FRAME_HDR_FLAGS OR SM (ucast e) HTC_FRAME_HDR_ENDPOINTID)
     HTC_FRAME_HDR_FLAGS = ucast (fl :: u8)"
  "MS (SM (len :: u32) HTC_FRAME_HDR_PAYLOADLEN OR SM (ucast fl) HTC_FRAME_HDR_FLAGS OR SM (ucast e) HTC_FRAME_HDR_ENDPOINTID)
     HTC_FRAME_HDR_ENDPOINTID = ucast (e :: u8)"
  "MS (SM (ucast c) HTC_FRAME_HDR_CONTROLBYTES0) HTC_FRAME_HDR_CONTROLBYTES0 = ucast (c :: u8)"
  by (rule bit_word_eqI; simp only: MS_def SM_def fields bits masks; auto dest: bit_imp_le_length)+

lemma rx_header_fields:
  assumes "e < 256" and "len < 65536"
  shows "HTC_GET_FIELD (rx_header e fl len cb0 @ x) HTC_FRAME_HDR_PAYLOADLEN = Some (word_of_nat len)"
    and "HTC_GET_FIELD (rx_header e fl len cb0 @ x) HTC_FRAME_HDR_FLAGS = Some (ucast fl)"
    and "HTC_GET_FIELD (rx_header e fl len cb0 @ x) HTC_FRAME_HDR_ENDPOINTID = Some (ucast (word_of_nat e :: u8))"
    and "HTC_GET_FIELD (rx_header e fl len cb0 @ x) HTC_FRAME_HDR_CONTROLBYTES0 = Some (ucast cb0)"
    and "length (rx_header e fl len cb0) = HTC_HDR_LENGTH"
proof -
  let ?w0 = "SM (word_of_nat len) HTC_FRAME_HDR_PAYLOADLEN OR SM (ucast fl) HTC_FRAME_HDR_FLAGS OR
       SM (ucast (word_of_nat e :: u8)) HTC_FRAME_HDR_ENDPOINTID"
  let ?w1 = "SM (ucast cb0) HTC_FRAME_HDR_CONTROLBYTES0"
  have r: "read32 (rx_header e fl len cb0 @ x) 0 = Some ?w0" "read32 (rx_header e fl len cb0 @ x) 4 = Some ?w1"
    using read32_le32 [of "[]" 0 ?w0 "le32 ?w1 @ x"] read32_le32 [of "le32 ?w0" 4 ?w1 x] by (auto simp: rx_header_def)
  have o: "OFFSET HTC_FRAME_HDR_PAYLOADLEN = 0" "OFFSET HTC_FRAME_HDR_FLAGS = 0" "OFFSET HTC_FRAME_HDR_ENDPOINTID = 0"
    "OFFSET HTC_FRAME_HDR_CONTROLBYTES0 = 4" by (simp_all add: fields)
  have m: "(word_of_nat len :: u32) AND 0xffff = word_of_nat len"
  proof (rule word_unat_eq_iff [THEN iffD2])
    have "unat ((word_of_nat len :: u32) AND 0xffff) = unat (word_of_nat len :: u32) mod 2 ^ 16"
      by (rule unat_and_window) simp
    then show "unat ((word_of_nat len :: u32) AND 0xffff) = unat (word_of_nat len :: u32)" using assms(2) by (simp add: unat_of_nat)
  qed
  show "HTC_GET_FIELD (rx_header e fl len cb0 @ x) HTC_FRAME_HDR_PAYLOADLEN = Some (word_of_nat len)"
    "HTC_GET_FIELD (rx_header e fl len cb0 @ x) HTC_FRAME_HDR_FLAGS = Some (ucast fl)"
    "HTC_GET_FIELD (rx_header e fl len cb0 @ x) HTC_FRAME_HDR_ENDPOINTID = Some (ucast (word_of_nat e :: u8))"
    "HTC_GET_FIELD (rx_header e fl len cb0 @ x) HTC_FRAME_HDR_CONTROLBYTES0 = Some (ucast cb0)"
    unfolding HTC_GET_FIELD_def o r by (simp_all only: bind.bind_lunit rx_fields m)
  show "length (rx_header e fl len cb0) = HTC_HDR_LENGTH" by (simp add: rx_header_def HTC_HDR_LENGTH_def)
qed

text \<open>The frame of a payload and a trailer; without a trailer the flag is not set.\<close>

definition rx_frame :: "nat \<Rightarrow> u8 \<Rightarrow> u8 list \<Rightarrow> u8 list \<Rightarrow> u8 list" where
  "rx_frame e fl payload tr = rx_header e fl (length payload + length tr) (word_of_nat (length tr)) @ payload @ tr"

lemma trailer_of_frame:
  assumes q: "\<forall>e. TxQueue (EndPoint t e) = []"
    and fl: "ucast (ucast fl :: u32) AND HTC_FLAGS_RECV_TRAILER \<noteq> 0 \<longleftrightarrow> tr \<noteq> []" and tr: "trailer_status tr = A_OK"
  obtains t1 where "(if ucast (ucast fl :: u32) AND HTC_FLAGS_RECV_TRAILER \<noteq> 0 then HTCProcessTrailer E tr t else Some (A_OK, t)) = Some (A_OK, t1)"
    and "credited (trailer_grants tr) t t1"
proof (cases "tr = []")
  case True
  have "trailer_grants tr = (\<lambda>e. 0)"
    by (simp add: True trailer_grants_def credit_records.simps sizeof_HTC_RECORD_HDR_def fun_eq_iff)
  then show ?thesis using that [of t] fl True credited_zero [of t] by simp
next
  case False
  then show ?thesis using that fl tr trailer_idle [OF q, of E tr] by auto
qed

text \<open>C34: HTCRxCompletionHandler delivers the payload: for a frame to an endpoint other than 0, with a payload and a well-formed trailer or none, and with a free container, the client is called once, with the bytes of the payload and their number, header and trailer being cut off; the container is back in the pool, the buffer is the client's, and the credits of the trailer are in.\<close>

theorem htc_rx_delivers_payload:
  assumes f: "nb_data (nbufs t nb) = rx_frame e fl payload tr" and p: "payload \<noteq> []" and e: "0 < e" "e < ENDPOINT_MAX"
    and l: "length tr < 256" "tr \<noteq> [] \<longrightarrow> 4 \<le> length tr" "length payload + length tr < 65536"
    and fl: "ucast (ucast fl :: u32) AND HTC_FLAGS_RECV_TRAILER \<noteq> 0 \<longleftrightarrow> tr \<noteq> []" and tr: "trailer_status tr = A_OK"
    and q: "\<forall>e. TxQueue (EndPoint t e) = []" and c: "pHTCPacketStructPool t = k # ks"
    and cb: "EpRecv (EpCallBacks (EndPoint t e))" "\<not> EpRecvPktMultiple (EpCallBacks (EndPoint t e))" "\<not> ul_is_polled (EndPoint t e)"
  shows "\<exists>t'. HTCRxCompletionHandler E nb t = Some (A_OK, t') \<and>
    calls t' = calls t @ [CallRecv e \<lparr>rx_pkt = k, rx_status = A_OK, rx_len = word_of_nat (length payload),
      rx_nbuf = nb, rx_data = payload\<rparr>] \<and>
    pHTCPacketStructPool t' = pHTCPacketStructPool t \<and> nb_freed t' = nb_freed t \<and>
    (\<forall>x. TxCredits (EndPoint t' x) = TxCredits (EndPoint t x) + trailer_grants tr x)"
proof -
  let ?n = "length payload + length tr" and ?cb = "word_of_nat (length tr) :: u8"
  let ?d = "rx_frame e fl payload tr"
  have e8: "e < 256" "unat (word_of_nat e :: u8) = e" using e by (simp_all add: ENDPOINT_MAX_def unat_of_nat)
  note h = rx_header_fields(1-4) [OF e8(1) l(3), of fl ?cb "payload @ tr", folded rx_frame_def]
    rx_header_fields(5) [OF e8(1) l(3), of fl ?cb]
  have cbn: "unat ?cb = length tr" "unat (word_of_nat ?n :: u32) = ?n" using l by (simp_all only: unat_of_nat) simp_all
  have len: "length ?d = HTC_HDR_LENGTH + ?n" using h(5) by (simp add: rx_frame_def)
  have dt: "take (length tr) (drop (HTC_HDR_LENGTH + ?n - length tr) ?d) = tr"
    "take (length payload) (drop HTC_HDR_LENGTH ?d) = payload" using h(5) by (simp_all add: rx_frame_def)
  obtain t1 where t1: "(if ucast (ucast fl :: u32) AND HTC_FLAGS_RECV_TRAILER \<noteq> 0 then HTCProcessTrailer E tr t else Some (A_OK, t)) = Some (A_OK, t1)"
    "credited (trailer_grants tr) t t1" by (rule trailer_of_frame [OF q fl tr])
  have tl: "(if ucast (ucast fl :: u32) AND HTC_FLAGS_RECV_TRAILER \<noteq> 0 then length tr else 0) = length tr" using fl by auto
  have ok: "\<not> (ucast (ucast fl :: u32) AND HTC_FLAGS_RECV_TRAILER \<noteq> 0 \<and> (length tr < sizeof_HTC_RECORD_HDR \<or> ?n < length tr))"
    using fl l(2) by (auto simp: sizeof_HTC_RECORD_HDR_def)
  have run: "HTCRxCompletionHandler E nb t = Some (data_message e nb (HTC_HDR_LENGTH + ?n) (length tr) t1)"
    unfolding HTCRxCompletionHandler_def f Let_def h(1-4) bind.bind_lunit unat_ucast_u8_u32 e8(2) cbn len dt(1) tl t1(1)
    using e cb(3) ok p t1(1)
    by (cases "ucast (ucast fl :: u32) AND HTC_FLAGS_RECV_TRAILER = 0") (simp_all add: ENDPOINT_0_def)
  obtain i hb where t1': "t1 = t\<lparr>EndPoint := (\<lambda>x. (EndPoint t x)\<lparr>TxCredits := TxCredits (EndPoint t x) + trailer_grants tr x\<rparr>),
     htc_credit_history_idx := i, htc_credit_history_buffer := hb\<rparr>" using t1(2) by (auto simp: credited_def)
  have pull: "nb_data (adf_nbuf_set_pktlen (length payload) (nbuf_pull_head HTC_HDR_LENGTH (nbufs t nb))) = payload"
    using f dt(2) len by (simp add: adf_nbuf_set_pktlen_def nbuf_pull_head_def)
  show ?thesis
    unfolding run data_message_def AllocateHTCPacketContainer_def using c cb(1,2) pull
    by (simp add: t1' Let_def RecvPacketCompletion_def DoRecvCompletion_def FreeHTCPacketContainer_def rx_ind_of_def
      upd_pkt_def set_nb_def)
qed

theorem htc_rx_delivers_payload_witness:
  "\<exists>t t'. HTCRxCompletionHandler sample_htc_env 200 t = Some (A_OK, t') \<and>
    calls t' = [CallRecv 1 \<lparr>rx_pkt = 7, rx_status = A_OK, rx_len = 3, rx_nbuf = 200, rx_data = [9, 8, 7]\<rparr>] \<and>
    TxCredits (EndPoint t' 1) = 5"
proof -
  let ?tr = "record_bytes [(1, 2)]"
  define t where "t = sample_target\<lparr>pHTCPacketStructPool := [7],
    EndPoint := (\<lambda>e. (sample_endpoint e)\<lparr>EpCallBacks := (EpCallBacks zero_endpoint)\<lparr>EpRecv := True\<rparr>\<rparr>),
    nbufs := sample_nbuf(200 := \<lparr>nb_room = [], nb_extra = [], nb_data = rx_frame 1 2 [9, 8, 7] ?tr, nb_maps = 0\<rparr>)\<rparr>"
  have r: "credit_records ?tr = [[(1, 2)]]" "trailer_status ?tr = A_OK" using records_roundtrip [of "[[(1, 2)]]"] by auto
  have l: "length ?tr = 8" by (simp add: record_bytes_def length_entries entry_bytes_def)
  have c: "nb_data (nbufs t 200) = rx_frame 1 2 [9, 8, 7] ?tr" "pHTCPacketStructPool t = [7]"
    "\<forall>e. TxQueue (EndPoint t e) = []" "EpRecv (EpCallBacks (EndPoint t 1))" "\<not> EpRecvPktMultiple (EpCallBacks (EndPoint t 1))"
    "\<not> ul_is_polled (EndPoint t 1)" "calls t = []" "TxCredits (EndPoint t 1) = 3"
    by (simp_all add: t_def sample_target_def sample_endpoint_def zero_endpoint_def)
  have f: "ucast (ucast (2 :: u8) :: u32) AND HTC_FLAGS_RECV_TRAILER \<noteq> 0 \<longleftrightarrow> ?tr \<noteq> []"
    using l by (auto simp: HTC_FLAGS_RECV_TRAILER_def)
  have "trailer_grants ?tr 1 = 2" by (simp add: trailer_grants_def r ENDPOINT_MAX_def)
  moreover obtain t' where "HTCRxCompletionHandler sample_htc_env 200 t = Some (A_OK, t')"
    "calls t' = calls t @ [CallRecv 1 \<lparr>rx_pkt = 7, rx_status = A_OK, rx_len = word_of_nat (length [9 :: u8, 8, 7]),
       rx_nbuf = 200, rx_data = [9, 8, 7]\<rparr>]"
    "\<forall>x. TxCredits (EndPoint t' x) = TxCredits (EndPoint t x) + trailer_grants ?tr x"
    using htc_rx_delivers_payload [OF c(1) _ _ _ _ _ _ f r(2) c(3) c(2) c(4-6), of sample_htc_env] l
    by (auto simp: ENDPOINT_MAX_def)
  ultimately show ?thesis using c(7,8) by (intro exI [of _ t] exI [of _ t']) simp
qed

end
