(* ===== verification/Htc_Faults.thy ===== *)
theory Htc_Faults
  imports Htc_Wire
begin

text \<open>
  What HTC does on the paths where it goes wrong: bundles that overflow, sends the HIF refuses, packets
  that a full endpoint keeps, lookups that overlap, refused connections, and credits that do not fit.
\<close>

section \<open>Bundles that overflow\<close>

text \<open>C35: a bundle that overflows loses a packet: when the first packet of a queue fills the buffer of a bundle so far that the second does not fit, and at most one more is left, HTCIssuePacketsBundle issues the first, leaves the rest in hand and drops the second: it is in no queue afterwards, and no client is called for it.\<close>

theorem htc_bundle_overflow_loses_packet:
  assumes w: "wf E None (p1 # p2 # r) t" and E: "env_ok E" and e: "e < ENDPOINT_MAX" and z: "0 < TxCreditSize (EndPoint t e)"
    and c: "\<forall>p \<in> set (p1 # p2 # r). 0 \<le> CreditsUsed (packets t p)" and r: "length r < HTC_MIN_MSG_PER_BUNDLE"
    and a: "AllocateHTCBundleTxPacket E t = (Some tx, t1)"
    and pad: "credit_pad (frame_len t p1) (TxCreditSize (EndPoint t e)) = Some d1"
      "credit_pad (frame_len t p2) (TxCreditSize (EndPoint t e)) = Some d2"
    and fit: "frame_len t p1 + d1 \<le> HTC_MAX_MSG_PER_BUNDLE_TX * TxCreditSize (EndPoint t e)"
      "HTC_MAX_MSG_PER_BUNDLE_TX * TxCreditSize (EndPoint t e) < frame_len t p1 + d1 + (frame_len t p2 + d2)"
  shows "\<exists>t'. HTCIssuePacketsBundle E e (p1 # p2 # r) t = Some (r, t') \<and> outstanding t' e = outstanding t e @ [p1] \<and>
    calls t' = calls t \<and> p2 \<notin># places t' \<and> (\<forall>e. TxCredits (EndPoint t' e) = TxCredits (EndPoint t e))"
proof -
  let ?z = "TxCreditSize (EndPoint t e)"
  have w1: "wf E (Some tx) (p1 # p2 # r) t1" "pQueueSave (packets t1 tx) = []" using alloc_bundle [OF w E a] by auto
  have s1: "sends E e t t1 []" by (rule alloc_sends [OF w E a])
  have pc: "set (p1 # p2 # r) \<inter> containers E = {}" using wf_hand [OF w] by auto
  have f: "frame_len u p = frame_len t p" if "sends E e t u S" "p \<in> {p1, p2}" for u S p
    by (rule sends_credits(2) [OF that(1)]) (use that(2) pc in auto)
  have c1: "\<forall>p \<in> set (p1 # p2 # r). 0 \<le> CreditsUsed (packets t1 p)"
    using c sends_credits(1) [OF s1] pc by (metis disjoint_iff)
  have ch: "0 \<le> charged t1 (pQueueSave (packets t1 tx))" using w1(2) by (simp add: charged_def)
  obtain b t2 where b: "bundle_place p1 d1 tx [] t1 = Some ([] @ [(b, d1)], t2)" "wf E (Some tx) (p2 # r) t2" "sends E e t1 t2 []"
    "pQueueSave (packets t2 tx) = pQueueSave (packets t1 tx) @ [p1]" "bundle_len ([] @ [(b, d1)]) \<noteq> 0"
    "\<forall>p \<in> set (p2 # r). 0 \<le> CreditsUsed (packets t2 p)" "0 \<le> charged t2 (pQueueSave (packets t2 tx))"
    using place_then [OF w1(1) c1 ch] by blast
  have s2: "sends E e t t2 []" using sends_trans [OF s1 b(3)] by simp
  define t' where "t' = HTCSendBundledNetbuf E e ([] @ [(b, d1)]) tx t2"
  have w3: "wf E None (p2 # r) t'" "sends E e t2 t' [p1]"
    using send_bundle_wf [OF b(2) e b(7)] b(4) w1(2) by (auto simp: t'_def)
  have s3: "sends E e t t' [p1]" using sends_trans [OF s2 w3(2)] pc by simp
  have z12: "TxCreditSize (EndPoint t1 e) = ?z" "TxCreditSize (EndPoint t2 e) = ?z"
    using sends_endpoint(1) [OF s1] sends_endpoint(1) [OF s2] by auto
  have fl: "frame_len t1 p1 = frame_len t p1" "frame_len t2 p2 = frame_len t p2" using f [OF s1] f [OF s2] by auto
  let ?space = "int (HTC_MAX_MSG_PER_BUNDLE_TX * ?z)"
  have 2: "bundle_loop E e (p2 # r) tx (?space - int (frame_len t p1 + d1)) ([] @ [(b, d1)]) t2 = Some (r, t')"
  proof -
    have "?space - int (frame_len t p1 + d1) < int (frame_len t p2 + d2)" using fit(2) by linarith
    then show ?thesis unfolding bundle_loop.simps fl z12 pad bind.bind_lunit Let_def using r by (simp only: if_True t'_def)
  qed
  have 1: "bundle_loop E e (p1 # p2 # r) tx ?space [] t1 = Some (r, t')"
  proof -
    have "\<not> ?space < int (frame_len t p1 + d1)" using fit(1) by linarith
    then show ?thesis unfolding bundle_loop.simps(2) [of E e p1] fl z12 pad bind.bind_lunit Let_def b(1)
      using 2 by (simp only: if_False bind.bind_lunit prod.case)
  qed
  have "HTCIssuePacketsBundle E e (p1 # p2 # r) t = Some (r, t')"
    unfolding HTCIssuePacketsBundle_def a using 1 by (simp only: prod.case option.case z12)
  moreover have "p2 \<notin># places t'"
  proof
    assume "p2 \<in># places t'"
    then have "1 \<le> count (places t') p2" by (simp only: count_greater_eq_one_iff)
    moreover have "1 \<le> count (in_hand None (p2 # r) t') p2" by (simp add: in_hand_def)
    moreover have "count (places t' + in_hand None (p2 # r) t') p2 \<le> 1" using wfD(2) [OF w3(1)] unfolding clients_def by blast
    ultimately show False by (simp only: count_union)
  qed
  moreover have "TxCredits (EndPoint t' x) = TxCredits (EndPoint t x)" for x
    using s3 sends_endpoint(2) [OF s3] by (cases "x = e") (auto simp: sends_def)
  ultimately show ?thesis using s3 by (auto simp: sends_def)
qed

section \<open>Sends the HIF refuses\<close>

text \<open>C36: a refused send leaks credits: when the HIF refuses the first of the packets HTCIssuePackets is given, all of them are completed, in order, with the status of the HIF, and none is sent, but only the credits of the first are given back to the endpoint: those the others were charged are gone.\<close>

theorem htc_failed_send_leaks_credits:
  assumes w: "wf E None (p # q) t" and e: "e < ENDPOINT_MAX" and b: "\<not> HTC_ENABLE_BUNDLE t"
    and h: "\<forall>n. hif_status E n = st" "st \<noteq> A_OK" and c: "0 \<le> CreditsUsed (packets t p)"
  shows "\<exists>t'. HTCIssuePackets E e (p # q) t = Some (st, t') \<and> tx_done t' = tx_done t @ p # q \<and>
    spent t' e = spent t e \<and> TxCredits (EndPoint t' e) = TxCredits (EndPoint t e) + CreditsUsed (packets t p) \<and>
    TxQueue (EndPoint t' e) = TxQueue (EndPoint t e)"
proof -
  have tb: "try_bundle E x e (p # q) t = Some (p # q, t)" for x using b by (simp add: try_bundle_def)
  obtain t2 where s: "setup_hdr e p t = Some t2" "wf E None (p # q) t2" "sends E e t t2 []" using setup_hdr_wf [OF w] by blast
  have pk: "packets t2 = packets t" "xfers t2 = xfers t" "TxQueue (EndPoint t2 e) = TxQueue (EndPoint t e)"
    using s(1) by (auto simp: setup_hdr_def set_nb_def Let_def split: if_splits Option.bind_splits)
  obtain st' t3 where ss: "send_single E e p t2 = (st', t3)" by fastforce
  then have st': "st' = st" "packets t3 = packets t" using h(1) pk(1)
    by (auto simp: send_single_def HIFSend_head_def Let_def upd_ep_def)
  define t4 where "t4 = upd_ep e (\<lambda>ep. ep\<lparr>ul_outstanding_cnt := ul_outstanding_cnt ep - 1,
    TxLookupQueue := remove1 p (TxLookupQueue ep), TxCredits := TxCredits ep + CreditsUsed (packets t3 p)\<rparr>) t3"
  have n: "0 \<le> CreditsUsed (packets t2 p)" "0 \<le> CreditsUsed (packets t3 p)" using c pk st' by auto
  note f = send_single_failed [OF s(2) e n(1) ss [unfolded st'(1)] h(2) t4_def n(2)]
  have i: "issue_loop E e (p # q) t = Some (st, p # q, t4)"
    by (subst issue_loop.simps) (use tb s(1) ss st' h(2) in \<open>simp add: t4_def\<close>)
  note k = complete_all_wf [OF f(1), of st]
  have "HTCIssuePackets E e (p # q) t = Some (st, complete_all st (p # q) t4)"
    using i h(2) by (simp add: HTCIssuePackets_def del: complete_all.simps)
  moreover have "tx_done (complete_all st (p # q) t4) = tx_done t @ p # q"
    using k f(5) s(3) by (simp add: completes_def tx_done_def sends_def del: complete_all.simps)
  moreover have "EndPoint (complete_all st (p # q) t4) = EndPoint t4" "xfers (complete_all st (p # q) t4) = xfers t"
    using k f(4) pk(2) by (simp_all add: completes_def del: complete_all.simps)
  ultimately show ?thesis
    using f(2) st' pk sends_endpoint(2) [OF s(3)]
    by (intro exI [of _ "complete_all st (p # q) t4"]) (simp add: spent_def del: complete_all.simps)
qed

section \<open>Packets kept by a full endpoint\<close>

lemma pull_push:
  assumes "adf_nbuf_push_head n b = Some b'"
  shows "nbuf_pull_head n b' = b"
  using assms by (auto simp: adf_nbuf_push_head_def nbuf_pull_head_def Let_def split: if_splits)

lemma fixup_set: "(f OR HTC_TX_PACKET_FLAG_FIXUP_NETBUF) AND HTC_TX_PACKET_FLAG_FIXUP_NETBUF \<noteq> 0"
  by (simp add: HTC_TX_PACKET_FLAG_FIXUP_NETBUF_def bit.conj_disj_distrib2)

lemma fixup_clear: "(f AND NOT HTC_TX_PACKET_FLAG_FIXUP_NETBUF) AND HTC_TX_PACKET_FLAG_FIXUP_NETBUF = 0"
  by (rule bit_word_eqI) (auto simp: bit_and_iff bit_not_iff)

lemma fixup_flag: "HTC_TX_PACKET_FLAG_FIXUP_NETBUF \<noteq> 0"
  by (simp add: HTC_TX_PACKET_FLAG_FIXUP_NETBUF_def)

text \<open>C37: a packet kept by a full endpoint comes back with the header of HTC in its data: when EpSendFull answers that an overflowing packet is to be kept, the packet, prepared by HTCSendPktsMultiple, has its flag for the repair of the buffer cleared but the header in front of its data again, so that its completion restores nothing; without the overflow the completion would give the buffer's data back as they were.\<close>

theorem htc_kept_packet_keeps_header:
  assumes "fresh E t p" and "prepare_packet e p t = Some t1"
  shows "\<exists>t2. send_full_loop (\<lambda>_. HTC_SEND_FULL_KEEP) [p] [] [] t1 = Some ([p], [], t2) \<and> RestoreTxPacket p t2 = t2 \<and>
    length (nb_data (pkt_nbuf t2 p)) = HTC_HDR_LENGTH + length (nb_data (pkt_nbuf t p)) \<and>
    nb_data (pkt_nbuf (RestoreTxPacket p t1) p) = nb_data (pkt_nbuf t p)"
proof -
  let ?a = "pNetBufContext (packets t p)" and ?s = "SeqNo (EndPoint t e)"
  let ?w0 = "SM (ActualLength (packets t p)) HTC_FRAME_HDR_PAYLOADLEN OR
     SM (word_of_nat (Endpoint (packets t p))) HTC_FRAME_HDR_ENDPOINTID"
  let ?w1 = "SM (ucast ?s) HTC_FRAME_HDR_CONTROLBYTES1"
  obtain b0 b1 b2 where b: "adf_nbuf_push_head HTC_HDR_LENGTH (nbufs t ?a) = Some b0" "HTC_WRITE32 0 ?w0 b0 = Some b1"
    "HTC_WRITE32 1 ?w1 b1 = Some b2"
    and t1: "t1 = upd_pkt p (\<lambda>k. k\<lparr>Flags := Flags k OR HTC_TX_PACKET_FLAG_FIXUP_NETBUF\<rparr>)
      (set_nb ?a (adf_nbuf_map b2) (upd_ep e (\<lambda>ep. ep\<lparr>SeqNo := SeqNo ep + 1\<rparr>) (upd_pkt p (\<lambda>k. k\<lparr>pkt_SeqNo := ?s\<rparr>) t)))"
    using assms(2) by (auto simp: prepare_packet_def Let_def upd_pkt_def upd_ep_def set_nb_def GET_HTC_PACKET_NET_BUF_CONTEXT_def
      split: Option.bind_splits)
  have x: "nb_extra (nbufs t ?a) = []" using assms(1) by (simp add: fresh_def GET_HTC_PACKET_NET_BUF_CONTEXT_def)
  have p1: "nb_data b0 = drop (length (nb_room (nbufs t ?a)) - HTC_HDR_LENGTH) (nb_room (nbufs t ?a)) @ nb_data (nbufs t ?a)"
    "HTC_HDR_LENGTH \<le> length (nb_room (nbufs t ?a))" "nb_extra b0 = []"
    using b(1) x by (auto simp: adf_nbuf_push_head_def Let_def split: if_splits)
  have d2: "drop HTC_HDR_LENGTH (nb_data b2) = nb_data (nbufs t ?a)" "length (nb_data b2) = HTC_HDR_LENGTH + length (nb_data (nbufs t ?a))"
    using b(2,3) p1 by (auto simp: HTC_WRITE32_def write32_def HTC_HDR_LENGTH_def split: Option.bind_splits if_splits)
  have rd: "length (nb_room b2) + HTC_HDR_LENGTH = length (nb_room (nbufs t ?a))"
    using b p1 by (auto simp: HTC_WRITE32_def adf_nbuf_push_head_def Let_def split: Option.bind_splits if_splits)
  define b3 where "b3 = nbuf_pull_head HTC_HDR_LENGTH (adf_nbuf_unmap (adf_nbuf_map b2))"
  have b3: "nb_data b3 = nb_data (nbufs t ?a)" "HTC_HDR_LENGTH \<le> length (nb_room b3)"
    using d2 by (auto simp: b3_def nbuf_pull_head_def adf_nbuf_unmap_def adf_nbuf_map_def)
  define t2 where "t2 = RestoreTxPacket p t1"
  have r: "t2 = upd_pkt p (\<lambda>k. k\<lparr>Flags := Flags k AND NOT HTC_TX_PACKET_FLAG_FIXUP_NETBUF\<rparr>) (set_nb ?a b3 t1)"
    by (simp add: t2_def RestoreTxPacket_def Let_def t1 upd_pkt_def set_nb_def upd_ep_def GET_HTC_PACKET_NET_BUF_CONTEXT_def
      fixup_set fixup_flag b3_def)
  have ctx: "GET_HTC_PACKET_NET_BUF_CONTEXT t2 p = ?a" "pkt_nbuf t2 p = b3" "pkt_nbuf t p = nbufs t ?a"
    by (simp_all add: r t1 upd_pkt_def set_nb_def upd_ep_def GET_HTC_PACKET_NET_BUF_CONTEXT_def)
  obtain b4 where b4: "adf_nbuf_push_head HTC_HDR_LENGTH b3 = Some b4" "length (nb_data b4) = HTC_HDR_LENGTH + length (nb_data b3)"
    using b3(2) by (auto simp: adf_nbuf_push_head_def Let_def)
  define t3 where "t3 = set_nb ?a b4 t2"
  have "Flags (packets t3 p) AND HTC_TX_PACKET_FLAG_FIXUP_NETBUF = 0"
    by (simp add: t3_def r set_nb_def upd_pkt_def fixup_clear)
  then have "RestoreTxPacket p t3 = t3" by (simp add: RestoreTxPacket_def)
  moreover have "send_full_loop (\<lambda>_. HTC_SEND_FULL_KEEP) [p] [] [] t1 = Some ([p], [], t3)"
    using b4(1) ctx by (simp add: t2_def [symmetric] Let_def t3_def)
  moreover have "pkt_nbuf t3 p = b4" using ctx(1) by (simp add: t3_def set_nb_def GET_HTC_PACKET_NET_BUF_CONTEXT_def)
  ultimately show ?thesis using b4(2) b3(1) ctx by (intro exI [of _ t3]) (simp add: t2_def)
qed

section \<open>Lookups that overlap\<close>

text \<open>C38: a completion that overlaps another is lost: while HTCLookupTxPacket searches for the packet of one buffer, with the lock dropped, the lookup queue of the endpoint is empty, so that the lookup of another buffer finds nothing although its packet is outstanding; when the first lookup ends, that packet is back in the queue, where it stays, since the HIF reports its buffer once.\<close>

theorem htc_overlapping_lookup_fails:
  assumes l: "TxLookupQueue (EndPoint t e) = x # y # xs" and d: "distinct (map (GET_HTC_PACKET_NET_BUF_CONTEXT t) (x # y # xs))"
    and a: "a = GET_HTC_PACKET_NET_BUF_CONTEXT t y" and b: "b \<in> GET_HTC_PACKET_NET_BUF_CONTEXT t ` set (x # xs)"
  shows "\<exists>t1 t2 t3 p. lookup_begin e a t = (None, x # y # xs, t1) \<and> HTCLookupTxPacket e b t1 = (None, t2) \<and>
    lookup_end e a (x # y # xs) t2 = (Some y, t3) \<and> TxLookupQueue (EndPoint t3 e) = x # xs \<and>
    p \<in> set (TxLookupQueue (EndPoint t3 e)) \<and> GET_HTC_PACKET_NET_BUF_CONTEXT t3 p = b \<and>
    fst (HTCLookupTxPacket e b t) = Some p"
proof -
  let ?n = "GET_HTC_PACKET_NET_BUF_CONTEXT t"
  obtain p where p: "p \<in> set (x # xs)" "b = ?n p" using b by blast
  have nb: "GET_HTC_PACKET_NET_BUF_CONTEXT (upd_ep e f u) = GET_HTC_PACKET_NET_BUF_CONTEXT u" for f u
    by (simp add: fun_eq_iff GET_HTC_PACKET_NET_BUF_CONTEXT_def upd_ep_def)
  have srch: "lookup_search (upd_ep e f u) c q = lookup_search u c q" for f u c q by (induction q) (simp_all add: nb)
  have ne: "a \<noteq> ?n x" using a d by auto
  define t1 where "t1 = upd_ep e (\<lambda>ep. ep\<lparr>TxLookupQueue := []\<rparr>) (upd_ep e (\<lambda>ep. ep\<lparr>ul_outstanding_cnt := ul_outstanding_cnt ep - 1\<rparr>) t)"
  define t2 where "t2 = upd_ep e (\<lambda>ep. ep\<lparr>ul_outstanding_cnt := ul_outstanding_cnt ep - 1\<rparr>) t1"
  define t3 where "t3 = upd_ep e (\<lambda>ep. ep\<lparr>TxLookupQueue := (x # xs) @ TxLookupQueue ep\<rparr>) t2"
  have lq: "TxLookupQueue (EndPoint (upd_ep e (\<lambda>ep. ep\<lparr>ul_outstanding_cnt := ul_outstanding_cnt ep - 1\<rparr>) t) e) = x # y # xs"
    using l by (simp add: upd_ep_def)
  have lb: "lookup_begin e c t = (None, x # y # xs, t1)" if "c \<noteq> ?n x" for c
    using that by (simp only: lookup_begin_def Let_def lq nb list.case if_False t1_def)
  note 1 = lb [OF ne]
  have 2: "HTCLookupTxPacket e b t1 = (None, t2)"
    by (simp add: HTCLookupTxPacket_def lookup_begin_def Let_def t2_def t1_def upd_ep_def)
  have "lookup_search t a (x # y # xs) = (Some y, x # xs)" using a ne by simp
  then have 3: "lookup_end e a (x # y # xs) t2 = (Some y, t3)"
    unfolding lookup_end_def t2_def t1_def srch by (simp add: t3_def t2_def t1_def)
  have q: "TxLookupQueue (EndPoint t3 e) = x # xs" by (simp add: t3_def t2_def t1_def upd_ep_def)
  have fs: "fst (lookup_search t b q) = Some p" if "p \<in> set q" "distinct (map ?n q)" for q
    using that p(2) by (induction q) (auto simp: image_iff split: prod.split)
  have s: "fst (lookup_search t b (x # y # xs)) = Some p" by (rule fs [OF _ d]) (use p(1) in auto)
  have "fst (HTCLookupTxPacket e b t) = Some p"
  proof (cases "b = ?n x")
    case True
    then have "p = x" using s by simp
    then show ?thesis using True by (simp add: HTCLookupTxPacket_def lookup_begin_def Let_def lq nb)
  next
    case False
    obtain rest where "lookup_search t b (x # y # xs) = (Some p, rest)"
      using s by (cases "lookup_search t b (x # y # xs)") simp
    then have "fst (lookup_end e b (x # y # xs) t1) = Some p"
      unfolding lookup_end_def t1_def srch by (simp only: prod.case fst_conv)
    then show ?thesis unfolding HTCLookupTxPacket_def lb [OF False] by simp
  qed
  moreover have "GET_HTC_PACKET_NET_BUF_CONTEXT t3 p = b" using p(2) by (simp add: t3_def t2_def t1_def nb)
  ultimately show ?thesis using 1 2 3 q p(1) by (intro exI [of _ t1] exI [of _ t2] exI [of _ t3] exI [of _ p]) simp
qed

section \<open>Credits that do not fit\<close>

text \<open>C39: the credits of the target are cut to 8 bits: HTCSetupTargetBufferAssignments gives all credits of the target to the WMI control service, but HTCGetCreditAllocation then gives it their number modulo 256, with 256 credits none at all.\<close>

theorem htc_credit_allocation_wraps:
  assumes "TargetCreditSize t \<noteq> 0" and "ServiceTxAllocTable t = replicate HTC_MAX_SERVICE_ALLOC_ENTRIES (0, 0)" and "\<not> epping S"
  shows "\<exists>t'. HTCSetupTargetBufferAssignments S t = Some t' \<and>
    int (unat (HTCGetCreditAllocation t' WMI_CONTROL_SVC)) = TotalTransmitCredits t mod 256"
proof -
  let ?c = "word_of_int (TotalTransmitCredits t) :: u8"
  have tab: "replicate HTC_MAX_SERVICE_ALLOC_ENTRIES (0, 0) = [(0, 0), (0, 0), (0, 0), (0, 0), (0, 0), (0, 0), (0, 0), (0 :: u16, 0 :: u8)]"
    by (simp add: HTC_MAX_SERVICE_ALLOC_ENTRIES_def numeral_eq_Suc)
  have "HTCSetupTargetBufferAssignments S t = Some (t\<lparr>ServiceTxAllocTable :=
     [(0, 0), (WMI_CONTROL_SVC, ?c), (0, 0), (0, 0), (0, 0), (0, 0), (0, 0), (0, 0)]\<rparr>)"
    using assms by (simp add: HTCSetupTargetBufferAssignments_def Let_def tab wr_def)
  moreover have "int (unat ?c) = TotalTransmitCredits t mod 256"
    by (simp add: uint_word_of_int)
  ultimately show ?thesis
    by (simp add: HTCGetCreditAllocation_def WMI_CONTROL_SVC_def MAKE_SERVICE_ID_def)
qed

section \<open>Refused connections\<close>

text \<open>C40: after a refused connection no response is accepted any more: HTCConnectService returns an error without giving the response buffer free, and every later message on the control endpoint that is not the answer to a suspend request is rejected with an error, its buffer freed and the response buffer untouched.\<close>

theorem htc_refused_connect_blocks_responses:
  assumes "CtrlResponseProcessing t" and "response_fields (CtrlResponseBuffer t) = Some (i, rsp, eid, sz, ml)"
    and "rsp \<noteq> HTC_SERVICE_SUCCESS" and "connect_response S req alloc disable resp t = Some (st, resp', t')"
    and "HTC_GET_FIELD (nb_data (nbuf_pull_head HTC_HDR_LENGTH (nbufs t' nb))) HTC_UNKNOWN_MSG_MESSAGEID = Some m"
    and "m \<noteq> HTC_MSG_SEND_SUSPEND_COMPLETE" and "m \<noteq> HTC_MSG_NACK_SUSPEND"
  shows "st = A_EPROTO \<and> CtrlResponseProcessing t' \<and>
    (\<exists>t2. control_message nb t' = Some (A_ERROR, t2) \<and> CtrlResponseBuffer t2 = CtrlResponseBuffer t \<and>
      CtrlResponseValid t2 = CtrlResponseValid t \<and> CtrlResponseProcessing t2 \<and> nb_freed t2 = nb_freed t @ [nb])"
proof -
  have t': "st = A_EPROTO" "t' = t" using assms(2-4) by (auto simp: connect_response_def Let_def split: if_splits)
  then show ?thesis using assms(1,5-7) by (simp add: control_message_def Let_def set_nb_def adf_nbuf_free_def)
qed

section \<open>Witnesses\<close>

definition sample_with :: "u32 \<Rightarrow> HTC_TARGET" where
  "sample_with n = sample_target\<lparr>packets := (\<lambda>p. (sample_packet p)\<lparr>ActualLength := n\<rparr>)\<rparr>"

lemma sample_with_ok: "started (sample_with n)"
  using sample_ok(1) by (simp add: started_def at_rest_def sample_with_def)

lemma sample_with_prepared:
  assumes "{1, 2} \<inter> containers E = {}" and "unat n < 65536"
  shows "\<exists>t. wf E None [1, 2] t \<and> prepared 1 (sample_with n) t"
proof -
  have p: "places (sample_with n) = {#}" by (rule started_places [OF sample_with_ok])
  have "fresh E (sample_with n) q" if "q \<in> {1, 2}" for q
    using assms that by (auto simp: fresh_def is_bundle_def sample_with_def sample_target_def sample_packet_def sample_nbuf_def
      HTC_TX_PACKET_TAG_BUNDLED_def HTC_TX_PACKET_TAG_USER_DEFINED_def HTC_TX_PACKET_TAG_INTERNAL_def HTC_HDR_LENGTH_def
      GET_HTC_PACKET_NET_BUF_CONTEXT_def)
  moreover have "GET_HTC_PACKET_NET_BUF_CONTEXT (sample_with n) = (\<lambda>q. q + 100)"
    by (simp add: fun_eq_iff sample_with_def sample_packet_def GET_HTC_PACKET_NET_BUF_CONTEXT_def)
  moreover have "wf E None [] (sample_with n)" using started_wf [OF sample_with_ok] by blast
  ultimately have "\<exists>t. for_each [1, 2] (prepare_packet 1) (sample_with n) = Some t \<and> wf E None ([] @ [1, 2]) t \<and>
      prepared 1 (sample_with n) t"
    by (intro prepare_all_wf) (auto simp: p inj_on_def)
  then show ?thesis by auto
qed

lemma sample_with_values:
  assumes "prepared 1 (sample_with n) t"
  shows "TxCreditSize (EndPoint t 1) = 64" and "CreditsUsed (packets t p) = 0" and "frame_len t p = unat (n + 8)"
    and "outstanding t 1 = []" and "\<not> HTC_ENABLE_BUNDLE t" and "tx_done t = []" and "TxCredits (EndPoint t 1) = 3"
    and "calls t = []" and "spent t 1 = 0"
proof -
  obtain s where ep: "EndPoint t = sample_endpoint(1 := (sample_endpoint 1)\<lparr>SeqNo := s\<rparr>)"
    using assms by (auto simp: prepared_def sample_with_def sample_target_def)
  have same: "xfers t = []" "calls t = []" "MaxMsgsPerHTCBundle t = 1" "outstanding t 1 = outstanding (sample_with n) 1"
    using assms by (auto simp: prepared_def sample_with_def sample_target_def)
  have pk: "CreditsUsed (packets t p) = CreditsUsed (packets (sample_with n) p)" "ActualLength (packets t p) = ActualLength (packets (sample_with n) p)" for p
    using assms unfolding prepared_def by blast+
  show "TxCreditSize (EndPoint t 1) = 64" "TxCredits (EndPoint t 1) = 3" by (simp_all add: ep sample_endpoint_def)
  show "CreditsUsed (packets t p) = 0" "frame_len t p = unat (n + 8)"
    by (simp_all add: pk frame_len_def sample_with_def sample_packet_def HTC_HDR_LENGTH_def)
  show "outstanding t 1 = []" using same(4) sample_with_ok [of n] by (simp add: started_def outstanding_def)
  show "\<not> HTC_ENABLE_BUNDLE t" "tx_done t = []" "calls t = []" "spent t 1 = 0"
    by (simp_all add: same HTC_ENABLE_BUNDLE_def tx_done_def spent_def)
qed

definition bundle_env :: htc_env where
  "bundle_env = \<lparr>hif_status = (\<lambda>_. A_OK), new_bundle = (\<lambda>n. Some (1000 + n, 2000 + n))\<rparr>"

lemma bundle_env_ok: "env_ok bundle_env" "{1, 2} \<inter> containers bundle_env = {}"
  by (auto simp: env_ok_def bundle_env_def containers_def)

theorem htc_bundle_overflow_loses_packet_witness:
  "\<exists>t t'. prepared 1 (sample_with 1200) t \<and> HTCIssuePacketsBundle bundle_env 1 [1, 2] t = Some ([], t') \<and>
    outstanding t' 1 = [1] \<and> calls t' = [] \<and> 2 \<notin># places t'"
proof -
  obtain t where t: "wf bundle_env None [1, 2] t" "prepared 1 (sample_with 1200) t"
    using sample_with_prepared [OF bundle_env_ok(2), of 1200] by auto
  note v = sample_with_values [OF t(2)]
  obtain tx t1 where a: "AllocateHTCBundleTxPacket bundle_env t = (Some tx, t1)"
    by (cases "pBundleFreeTxList t") (auto simp: AllocateHTCBundleTxPacket_def bundle_env_def)
  have p: "credit_pad (frame_len t p) (TxCreditSize (EndPoint t 1)) = Some 56" for p using v by (simp add: credit_pad_def Let_def)
  obtain t' where "HTCIssuePacketsBundle bundle_env 1 [1, 2] t = Some ([], t')" "outstanding t' 1 = outstanding t 1 @ [1]"
    "calls t' = calls t" "2 \<notin># places t'"
    using htc_bundle_overflow_loses_packet [OF t(1) bundle_env_ok(1) _ _ _ _ a p p]
    using v by (auto simp: ENDPOINT_MAX_def HTC_MIN_MSG_PER_BUNDLE_def HTC_MAX_MSG_PER_BUNDLE_TX_def)
  then show ?thesis using t(2) v by auto
qed

definition refusing_env :: htc_env where
  "refusing_env = \<lparr>hif_status = (\<lambda>_. A_ERROR), new_bundle = (\<lambda>_. None)\<rparr>"

theorem htc_failed_send_leaks_credits_witness:
  "\<exists>t t'. prepared 1 (sample_with 4) t \<and> HTCIssuePackets refusing_env 1 [1, 2] t = Some (A_ERROR, t') \<and>
    tx_done t' = [1, 2] \<and> spent t' 1 = 0"
proof -
  have "{1, 2} \<inter> containers refusing_env = {}" by (auto simp: containers_def refusing_env_def)
  then obtain t where t: "wf refusing_env None [1, 2] t" "prepared 1 (sample_with 4) t"
    using sample_with_prepared [of refusing_env 4] by auto
  note v = sample_with_values [OF t(2)]
  have h: "\<forall>n. hif_status refusing_env n = A_ERROR" by (simp add: refusing_env_def)
  have c: "0 \<le> CreditsUsed (packets t 1)" "(1::nat) < ENDPOINT_MAX" using v(2) by (simp_all add: ENDPOINT_MAX_def)
  obtain t' where "HTCIssuePackets refusing_env 1 [1, 2] t = Some (A_ERROR, t')" "tx_done t' = tx_done t @ [1, 2]"
    "spent t' 1 = spent t 1"
    using htc_failed_send_leaks_credits [OF t(1) c(2) v(5) h _ c(1)] by auto
  then show ?thesis using t(2) v by (intro exI [of _ t] exI [of _ t']) simp
qed

theorem htc_kept_packet_keeps_header_witness:
  "\<exists>t1 t2. prepare_packet 1 5 sample_target = Some t1 \<and>
    send_full_loop (\<lambda>_. HTC_SEND_FULL_KEEP) [5] [] [] t1 = Some ([5], [], t2) \<and> RestoreTxPacket 5 t2 = t2 \<and>
    length (nb_data (pkt_nbuf t2 5)) = 12"
proof -
  have f: "fresh sample_htc_env sample_target 5"
    by (simp add: fresh_def sample_ok is_bundle_def sample_target_def sample_packet_def sample_nbuf_def
      HTC_TX_PACKET_TAG_BUNDLED_def HTC_TX_PACKET_TAG_USER_DEFINED_def HTC_TX_PACKET_TAG_INTERNAL_def HTC_HDR_LENGTH_def
      GET_HTC_PACKET_NET_BUF_CONTEXT_def)
  obtain t1 where t1: "prepare_packet 1 5 sample_target = Some t1" using prepare_defined [OF f, of 1] by blast
  have "length (nb_data (pkt_nbuf sample_target 5)) = 4"
    by (simp add: sample_target_def sample_packet_def sample_nbuf_def GET_HTC_PACKET_NET_BUF_CONTEXT_def)
  then show ?thesis using htc_kept_packet_keeps_header [OF f t1] t1 by (auto simp: HTC_HDR_LENGTH_def)
qed

theorem htc_overlapping_lookup_fails_witness:
  "\<exists>t1 t2 t3. lookup_begin 1 102 (upd_ep 1 (\<lambda>ep. ep\<lparr>TxLookupQueue := [1, 2, 3]\<rparr>) sample_target) = (None, [1, 2, 3], t1) \<and>
    HTCLookupTxPacket 1 103 t1 = (None, t2) \<and> lookup_end 1 102 [1, 2, 3] t2 = (Some 2, t3) \<and>
    TxLookupQueue (EndPoint t3 1) = [1, 3]"
proof -
  let ?t = "upd_ep 1 (\<lambda>ep. ep\<lparr>TxLookupQueue := [1, 2, 3]\<rparr>) sample_target"
  have c: "GET_HTC_PACKET_NET_BUF_CONTEXT ?t = (\<lambda>p. p + 100)" "TxLookupQueue (EndPoint ?t 1) = [1, 2, 3]"
    by (auto simp: fun_eq_iff GET_HTC_PACKET_NET_BUF_CONTEXT_def upd_ep_def sample_target_def sample_packet_def)
  show ?thesis using htc_overlapping_lookup_fails [OF c(2), of 102 103] c(1) by auto
qed

theorem htc_credit_allocation_wraps_witness:
  "\<exists>t'. HTCSetupTargetBufferAssignments \<lparr>ctrl_alloc = None, swap_mailbox = False, epping = False\<rparr>
     (sample_target\<lparr>TotalTransmitCredits := 256\<rparr>) = Some t' \<and> HTCGetCreditAllocation t' WMI_CONTROL_SVC = 0"
  using htc_credit_allocation_wraps [of "sample_target\<lparr>TotalTransmitCredits := 256\<rparr>" "\<lparr>ctrl_alloc = None, swap_mailbox = False, epping = False\<rparr>"]
  by (auto simp: sample_target_def unsigned_eq_0_iff)

theorem htc_refused_connect_blocks_responses_witness:
  "\<exists>t resp t2. CtrlResponseProcessing t \<and> connect_response \<lparr>ctrl_alloc = None, swap_mailbox = False, epping = False\<rparr>
     \<lparr>req_ServiceID = WMI_CONTROL_SVC, ConnectionFlags = 0, pMetaData = None, MetaDataLength = 0,
      EpCallbacks = EpCallBacks zero_endpoint, MaxSendQueueDepth = 8\<rparr> 5 False resp t = Some (A_EPROTO, resp\<lparr>ConnectRespCode := 1\<rparr>, t) \<and>
    control_message 200 t = Some (A_ERROR, t2)"
proof -
  define t where "t = sample_target\<lparr>CtrlResponseProcessing := True, CtrlResponseLength := 12,
    CtrlResponseBuffer := [3, 0, 0, 1, 1, 0, 0, 0, 0, 0, 0, 0],
    nbufs := sample_nbuf(200 := \<lparr>nb_room = [], nb_extra = [], nb_data = replicate 8 0 @ [3, 0, 0, 0], nb_maps = 0\<rparr>)\<rparr>"
  let ?S = "\<lparr>ctrl_alloc = None, swap_mailbox = False, epping = False\<rparr>"
  let ?req = "\<lparr>req_ServiceID = WMI_CONTROL_SVC, ConnectionFlags = 0, pMetaData = None, MetaDataLength = 0,
      EpCallbacks = EpCallBacks zero_endpoint, MaxSendQueueDepth = 8\<rparr>"
  let ?resp = "\<lparr>resp_pMetaData = None, BufferLength = 0, resp_ActualLength = 0, resp_Endpoint = 0,
      resp_MaxMsgLength = 0, ConnectRespCode = 0\<rparr>"
  have "response_fields [3, 0, 0, 1, 1, 0, 0, 0, 0, 0, 0, 0] = Some (3, 1, 0, 0, 0)" by code_simp
  then have r: "response_fields (CtrlResponseBuffer t) = Some (3, 1, 0, 0, 0)" by (simp add: t_def)
  have m: "HTC_GET_FIELD (nb_data (nbuf_pull_head HTC_HDR_LENGTH (nbufs t 200))) HTC_UNKNOWN_MSG_MESSAGEID = Some 3"
  proof -
    have "nb_data (nbuf_pull_head HTC_HDR_LENGTH (nbufs t 200)) = [3, 0, 0, 0]"
      by (simp add: t_def nbuf_pull_head_def HTC_HDR_LENGTH_def)
    moreover have "HTC_GET_FIELD [3, 0, 0, 0] HTC_UNKNOWN_MSG_MESSAGEID = Some 3" by code_simp
    ultimately show ?thesis by simp
  qed
  have c: "connect_response ?S ?req 5 False ?resp t = Some (A_EPROTO, ?resp\<lparr>ConnectRespCode := 1\<rparr>, t)"
    using r by (simp add: connect_response_def HTC_SERVICE_SUCCESS_def HTC_MSG_CONNECT_SERVICE_RESPONSE_ID_def Let_def t_def sizeof_HTC_CONNECT_SERVICE_RESPONSE_MSG_def)
  have p: "CtrlResponseProcessing t" by (simp add: t_def)
  have n: "(1 :: u8) \<noteq> HTC_SERVICE_SUCCESS" "(3 :: u32) \<noteq> HTC_MSG_SEND_SUSPEND_COMPLETE" "(3 :: u32) \<noteq> HTC_MSG_NACK_SUSPEND"
    by (simp_all add: HTC_SERVICE_SUCCESS_def HTC_MSG_SEND_SUSPEND_COMPLETE_def HTC_MSG_NACK_SUSPEND_def)
  from htc_refused_connect_blocks_responses [OF p r n(1) c m n(2,3)] p c show ?thesis by blast
qed

end
