(* ===== verification/Htc_Config.thy ===== *)
theory Htc_Config
  imports Htc_Run
begin

text \<open>
  What the operations of HTC leave alone: sending, completing, receiving and flushing never change how an
  endpoint is set up. No condition on the state is needed, so these lemmas hold also for calls that the
  clients should not make.
\<close>

section \<open>The setup of an endpoint\<close>

text \<open>The fields that only the connection of a service writes, and the target's sizes and credits for services.\<close>

definition ep_setup ::
  "HTC_ENDPOINT \<Rightarrow> nat \<times> u16 \<times> HTC_EP_CALLBACKS \<times> int \<times> nat \<times> (u8 \<times> u8) \<times> nat \<times> int \<times> bool" where
  "ep_setup ep = (Id ep, ServiceID ep, EpCallBacks ep, MaxTxQueueDepth ep, MaxMsgLength ep,
     (UL_PipeID ep, DL_PipeID ep), TxCreditSize ep, TxCreditsPerMaxMsg ep, TxCreditFlowEnabled ep)"

definition setup_of :: "HTC_TARGET \<Rightarrow> nat \<times> u16 \<times> (u16 \<times> u8) list \<times>
    (nat \<Rightarrow> nat \<times> u16 \<times> HTC_EP_CALLBACKS \<times> int \<times> nat \<times> (u8 \<times> u8) \<times> nat \<times> int \<times> bool)" where
  "setup_of t = (TargetCreditSize t, AltDataCreditSize t, ServiceTxAllocTable t, \<lambda>e. ep_setup (EndPoint t e))"

lemma upd_ep_setup [simp]: "(\<And>ep. ep_setup (f ep) = ep_setup ep) \<Longrightarrow> setup_of (upd_ep e f t) = setup_of t"
  by (simp add: setup_of_def upd_ep_def fun_eq_iff)

lemma other_updates_setup [simp]:
  "setup_of (upd_pkt p g t) = setup_of t" "setup_of (set_nb a nb t) = setup_of t"
  "setup_of (t\<lparr>calls := x0\<rparr>) = setup_of t" "setup_of (t\<lparr>allocs := x1\<rparr>) = setup_of t"
  "setup_of (t\<lparr>pBundleFreeTxList := x2\<rparr>) = setup_of t" "setup_of (t\<lparr>send_calls := x3\<rparr>) = setup_of t"
  "setup_of (t\<lparr>xfers := x4\<rparr>) = setup_of t" "setup_of (t\<lparr>CE_send_cnt := x5\<rparr>) = setup_of t"
  "setup_of (t\<lparr>TX_comp_cnt := x6\<rparr>) = setup_of t" "setup_of (t\<lparr>htc_get_pkt_q_fail_count := x7\<rparr>) = setup_of t"
  "setup_of (t\<lparr>htc_pkt_q_empty_count := x8\<rparr>) = setup_of t" "setup_of (t\<lparr>htc_send_q_empty_count := x9\<rparr>) = setup_of t"
  "setup_of (t\<lparr>nb_freed := x10\<rparr>) = setup_of t" "setup_of (t\<lparr>pHTCPacketStructPool := x11\<rparr>) = setup_of t"
  "setup_of (t\<lparr>htc_credit_history_buffer := x12\<rparr>) = setup_of t" "setup_of (t\<lparr>htc_credit_history_idx := x13\<rparr>) = setup_of t"
  "setup_of (t\<lparr>CtrlResponseLength := x14\<rparr>) = setup_of t" "setup_of (t\<lparr>CtrlResponseBuffer := x15\<rparr>) = setup_of t"
  "setup_of (t\<lparr>CtrlResponseProcessing := x16\<rparr>) = setup_of t" "setup_of (t\<lparr>CtrlResponseValid := x17\<rparr>) = setup_of t"
  by (simp_all add: setup_of_def upd_pkt_def set_nb_def)

text \<open>Loops, over a list of steps that keep the setup.\<close>

lemma fold_setup: "(\<And>x t. setup_of (f x t) = setup_of t) \<Longrightarrow> setup_of (fold f xs t) = setup_of t"
  by (induction xs arbitrary: t) simp_all

lemma for_each_setup:
  "for_each xs f t = Some t' \<Longrightarrow> (\<And>x t t'. f x t = Some t' \<Longrightarrow> setup_of t' = setup_of t) \<Longrightarrow> setup_of t' = setup_of t"
proof (induction xs arbitrary: t)
  case (Cons x xs)
  then obtain u where "f x t = Some u" "for_each xs f u = Some t'" by (auto simp: bind_eq_Some_conv)
  with Cons.IH [of u] Cons.prems(2) show ?case by metis
qed simp

section \<open>Sending\<close>

lemma completion_setup [simp]:
  "setup_of (RestoreTxPacket p t) = setup_of t" "setup_of (DoSendCompletion e q t) = setup_of t"
  "setup_of (SendPacketCompletion p t) = setup_of t" "setup_of (complete_all st q t) = setup_of t"
proof -
  show r: "setup_of (RestoreTxPacket p t) = setup_of t" and d: "setup_of (DoSendCompletion e q t) = setup_of t" for p e q t
    by (simp_all add: RestoreTxPacket_def DoSendCompletion_def Let_def)
  show s: "setup_of (SendPacketCompletion p t) = setup_of t" for p t by (simp add: SendPacketCompletion_def r d)
  show "setup_of (complete_all st q t) = setup_of t" by (induction q arbitrary: t) (simp_all add: s)
qed

lemma bundle_steps_setup:
  "AllocateHTCBundleTxPacket E t = (a, t') \<Longrightarrow> setup_of t' = setup_of t"
  "setup_of (FreeHTCBundleTxPacket p t) = setup_of t" "setup_of (HTCSendBundledNetbuf E e fr p t) = setup_of t"
  "bundle_place p pad tx fr t = Some (fr', t') \<Longrightarrow> setup_of t' = setup_of t"
  "send_single E e p t = (st, t') \<Longrightarrow> setup_of t' = setup_of t" "setup_hdr e p t = Some t' \<Longrightarrow> setup_of t' = setup_of t"
  by (auto simp: AllocateHTCBundleTxPacket_def FreeHTCBundleTxPacket_def HTCSendBundledNetbuf_def HIFSend_head_def Let_def
      bundle_place_def send_single_def setup_hdr_def ep_setup_def bind_eq_Some_conv split: list.splits option.splits prod.splits if_splits)

lemma bundle_loop_setup: "bundle_loop E e q tx space fr t = Some (q', t') \<Longrightarrow> setup_of t' = setup_of t"
proof (induction E e q tx space fr t rule: bundle_loop.induct)
  case (1 E e tx space fr t)
  then show ?case by (auto simp: bundle_steps_setup)
next
  case (2 E e p q tx space fr t)
  obtain pad where pad: "credit_pad (frame_len t p) (TxCreditSize (EndPoint t e)) = Some pad"
    using 2(3) by (auto simp: bind_eq_Some_conv)
  show ?case
  proof (cases "space < int (frame_len t p + pad)")
    case full: True
    let ?s = "HTCSendBundledNetbuf E e fr tx t"
    obtain a t1 where a: "AllocateHTCBundleTxPacket E ?s = (a, t1)" by fastforce
    have t1: "setup_of t1 = setup_of t" using bundle_steps_setup(1) [OF a] by (simp add: bundle_steps_setup)
    show ?thesis
    proof (cases "length q < HTC_MIN_MSG_PER_BUNDLE")
      case True
      then show ?thesis using 2(3) pad full by (auto simp: Let_def bundle_steps_setup)
    next
      case False
      show ?thesis
      proof (cases a)
        case None
        then show ?thesis using 2(3) pad full False a t1 by (simp add: Let_def)
      next
        case (Some tx')
        then obtain fr2 t2 where b: "bundle_place p pad tx' [] t1 = Some (fr2, t2)"
          and l: "bundle_loop E e q tx' (int (HTC_MAX_MSG_PER_BUNDLE_TX * TxCreditSize (EndPoint t1 e)) - int (frame_len t p + pad)) fr2 t2 = Some (q', t')"
          using 2(3) pad full False a by (auto simp: Let_def bind_eq_Some_conv)
        have "setup_of t' = setup_of t2" using 2(1) [OF pad refl _ refl _ _ _ refl b] full False Some a l by fastforce
        then show ?thesis using bundle_steps_setup(4) [OF b] t1 by simp
      qed
    qed
  next
    case False
    then obtain fr2 t2 where b: "bundle_place p pad tx fr t = Some (fr2, t2)"
      and l: "bundle_loop E e q tx (space - int (frame_len t p + pad)) fr2 t2 = Some (q', t')"
      using 2(3) pad by (auto simp: Let_def bind_eq_Some_conv)
    have "setup_of t' = setup_of t2" using 2(2) [OF pad refl False b] l by fastforce
    then show ?thesis using bundle_steps_setup(4) [OF b] by simp
  qed
qed

lemma try_bundle_setup: "try_bundle E b e q t = Some (q', t') \<Longrightarrow> setup_of t' = setup_of t"
  by (auto simp: try_bundle_def HTCIssuePacketsBundle_def bundle_steps_setup(1) dest: bundle_loop_setup
      split: if_splits prod.splits option.splits)

lemma issue_setup:
  "issue_loop E e q t = Some (st, q', t') \<Longrightarrow> setup_of t' = setup_of t"
  "HTCIssuePackets E e q t = Some (st, t') \<Longrightarrow> setup_of t' = setup_of t"
proof -
  show l: "issue_loop E e q t = Some (st, q', t') \<Longrightarrow> setup_of t' = setup_of t" for st q' t'
  proof (induction E e q t rule: issue_loop.induct)
    case (1 E e q t)
    then obtain q1 t1 where b: "try_bundle E (TxCreditFlowEnabled (EndPoint t e)) e q t = Some (q1, t1)"
      by (subst (asm) (2) issue_loop.simps) (auto split: option.splits)
    note t1 = try_bundle_setup [OF b]
    show ?case
    proof (cases q1)
      case Nil
      then show ?thesis using 1(2) b t1 by (subst (asm) issue_loop.simps) auto
    next
      case (Cons p q2)
      then obtain t2 where h: "setup_hdr e p t1 = Some t2"
        using 1(2) b by (subst (asm) issue_loop.simps) (auto split: option.splits)
      obtain s3 t3 where s: "send_single E e p t2 = (s3, t3)" by fastforce
      have t3: "setup_of t3 = setup_of t" using bundle_steps_setup(5) [OF s] bundle_steps_setup(6) [OF h] t1 by simp
      show ?thesis
      proof (cases "s3 = A_OK")
        case True
        then have "setup_of t' = setup_of (t3\<lparr>CE_send_cnt := CE_send_cnt t3 + 1\<rparr>)"
          using 1(1) [OF b refl Cons h s [symmetric]] 1(2) b Cons h s by (subst (asm) (2) issue_loop.simps) simp
        then show ?thesis using t3 by simp
      next
        case False
        then show ?thesis using 1(2) b Cons h s t3 by (subst (asm) issue_loop.simps) (auto simp: ep_setup_def)
      qed
    qed
  qed
  show "HTCIssuePackets E e q t = Some (st, t') \<Longrightarrow> setup_of t' = setup_of t"
    by (auto simp: HTCIssuePackets_def bind_eq_Some_conv split: if_splits dest: l)
qed

lemma record_credits_setup [simp]: "setup_of (record_credits ty e t) = setup_of t"
  by (simp add: record_credits_def htc_credit_record_def Let_def)

lemma credit_loop_setup: "credit_loop e ps q t = Some (q', t') \<Longrightarrow> setup_of t' = setup_of t"
proof (induction e ps q t rule: credit_loop.induct)
  case (2 e p ps q t)
  obtain c where c: "credits_required (frame_len t p) (TxCreditSize (EndPoint t e)) = Some c"
    using 2(4) by (auto simp: bind_eq_Some_conv)
  let ?take = "\<lambda>cr fl t. upd_pkt p (\<lambda>k. k\<lparr>CreditsUsed := cr, SendFlags := fl\<rparr>) (upd_ep e (\<lambda>ep. ep\<lparr>TxQueue := ps\<rparr>) t)"
  let ?u = "upd_ep e (\<lambda>ep. ep\<lparr>TxCredits := TxCredits ep - c\<rparr>) t"
  let ?v = "if ServiceID (EndPoint t e) = WMI_CONTROL_SVC then record_credits HTC_REQUEST_CREDIT e ?u else ?u"
  have k: "setup_of (?take cr fl ?u) = setup_of t" "setup_of (?take cr fl ?v) = setup_of t" "setup_of (?take cr fl t) = setup_of t" for cr fl
    by (simp_all add: ep_setup_def)
  note d = 2(4) c
  consider (control) "Id (EndPoint t e) = ENDPOINT_0" | (starved) "Id (EndPoint t e) \<noteq> ENDPOINT_0" "TxCredits (EndPoint t e) < c"
    | (low) "Id (EndPoint t e) \<noteq> ENDPOINT_0" "\<not> TxCredits (EndPoint t e) < c" "TxCredits (EndPoint ?u e) \<le> TxCreditsPerMaxMsg (EndPoint t e)"
    | (enough) "Id (EndPoint t e) \<noteq> ENDPOINT_0" "\<not> TxCredits (EndPoint t e) < c" "\<not> TxCredits (EndPoint ?u e) \<le> TxCreditsPerMaxMsg (EndPoint t e)"
    by blast
  then show ?case
  proof cases
    case control
    then have l: "credit_loop e ps (q @ [p]) (?take 0 0 t) = Some (q', t')" using d by (simp add: Let_def)
    show ?thesis using 2(1) [OF c refl refl control l] k(3) by simp
  next
    case starved
    then show ?thesis using d by (simp add: Let_def)
  next
    case low
    then have l: "credit_loop e ps (q @ [p]) (?take c HTC_FLAGS_NEED_CREDIT_UPDATE ?v) = Some (q', t')" using d by (simp add: Let_def)
    show ?thesis using 2(2) [OF c refl refl low(1,2) refl low(3) l] k(2) by simp
  next
    case enough
    then have l: "credit_loop e ps (q @ [p]) (?take c 0 ?u) = Some (q', t')" using d by (simp add: Let_def)
    show ?thesis using 2(3) [OF c refl refl enough(1,2) refl enough(3) l] k(1) by simp
  qed
qed simp

lemma resource_loop_setup: "resource_loop e ps r q t = (q', t') \<Longrightarrow> setup_of t' = setup_of t"
  by (induction e ps r q t rule: resource_loop.induct) (auto simp: Let_def ep_setup_def split: if_splits)

lemma send_full_loop_setup: "send_full_loop full ps sq left t = Some (sq', left', t') \<Longrightarrow> setup_of t' = setup_of t"
proof (induction ps arbitrary: sq left t)
  case (Cons p ps)
  then show ?case by (fastforce simp: Let_def bind_eq_Some_conv split: if_splits)
qed simp

lemma accept_setup: "accept_packets e cs t = Some (r, sq, left, t') \<Longrightarrow> setup_of t' = setup_of t"
  by (auto simp: accept_packets_def Let_def bind_eq_Some_conv dest: send_full_loop_setup split: option.splits if_splits)

lemma drain_setup: "drain E e r t = Some t' \<Longrightarrow> setup_of t' = setup_of t"
proof (erule drain.raw_induct [rotated, where P = "\<lambda>E e r t t'. setup_of t' = setup_of t"], goal_cases)
  case (1 drain E e r t t')
  let ?g = "if TxCreditFlowEnabled (EndPoint t e) then GetHTCSendPacketsCreditBased e [] t else Some (GetHTCSendPackets e [] r t)"
  show ?case
  proof (cases "TxQueue (EndPoint t e) = []")
    case False
    then obtain q u where g: "?g = Some (q, u)" using 1(2) by (cases ?g) auto
    then have u: "setup_of u = setup_of t"
      by (auto simp: GetHTCSendPacketsCreditBased_def GetHTCSendPackets_def dest: credit_loop_setup resource_loop_setup split: if_splits)
    show ?thesis
    proof (cases "q = []")
      case True
      then show ?thesis using 1(2) False g u by simp
    next
      case ne: False
      then obtain st v where i: "HTCIssuePackets E e q u = Some (st, v)" using 1(2) False g by (auto simp: bind_eq_Some_conv)
      then obtain r' where "drain E e r' v = Some t'" using 1(2) False g ne by (auto simp: bind_eq_Some_conv)
      from 1(1) [OF this] show ?thesis using issue_setup(2) [OF i] u by simp
    qed
  qed (use 1(2) in simp)
qed

lemma try_send_setup: "HTCTrySend E e cs t = Some (r, left, t') \<Longrightarrow> setup_of t' = setup_of t"
proof -
  assume a: "HTCTrySend E e cs t = Some (r, left, t')"
  obtain r0 sq l0 u where u: "accept_packets e cs t = Some (r0, sq, l0, u)" using a by (auto simp: HTCTrySend_def bind_eq_Some_conv)
  let ?v = "upd_ep e (\<lambda>ep. ep\<lparr>TxQueue := TxQueue ep @ sq, TxProcessCount := TxProcessCount ep + 1\<rparr>) u"
  have v: "setup_of ?v = setup_of t" using accept_setup [OF u] by (simp add: ep_setup_def)
  consider "t' = u" | "t' = upd_ep e (\<lambda>ep. ep\<lparr>TxProcessCount := TxProcessCount ep - 1\<rparr>) ?v"
    | w rs where "drain E e rs ?v = Some w" "t' = upd_ep e (\<lambda>ep. ep\<lparr>TxProcessCount := 0\<rparr>) w"
    using a u by (auto simp: HTCTrySend_def Let_def bind_eq_Some_conv split: if_splits)
  then show ?thesis
    by cases (use v accept_setup [OF u] in \<open>auto simp: ep_setup_def dest: drain_setup\<close>)
qed

lemma prepare_setup: "prepare_packet e p t = Some t' \<Longrightarrow> setup_of t' = setup_of t"
  by (auto simp: prepare_packet_def Let_def bind_eq_Some_conv ep_setup_def)

lemma send_multiple_setup:
  "HTCSendPktsMultiple E q t = Some (st, t') \<Longrightarrow> setup_of t' = setup_of t"
  "HTCSendPkt E p t = Some (st, t') \<Longrightarrow> setup_of t' = setup_of t"
proof -
  show m: "setup_of t' = setup_of t" if a: "HTCSendPktsMultiple E q t = Some (st, t')" for q st
  proof (cases q)
    case Nil
    then show ?thesis using a by (auto simp: HTCSendPktsMultiple_def)
  next
    case (Cons p q')
    let ?e = "Endpoint (packets t p)"
    show ?thesis
    proof (cases "ServiceID (EndPoint t ?e) = 0 \<or> ENDPOINT_MAX \<le> ?e")
      case True
      then show ?thesis using a Cons by (auto simp: HTCSendPktsMultiple_def Let_def split: if_splits)
    next
      case False
      then obtain u r left v where u: "for_each q (prepare_packet ?e) t = Some u" "HTCTrySend E ?e (Some q) u = Some (r, left, v)"
        and t': "t' = DoSendCompletion ?e left (fold (\<lambda>p t. upd_pkt p (\<lambda>k. k\<lparr>Status := if HTC_STOPPING v then A_ECANCELED else A_NO_RESOURCE\<rparr>)
            (RestoreTxPacket p t)) left v)"
        using a Cons by (auto simp: HTCSendPktsMultiple_def Let_def bind_eq_Some_conv simp del: for_each.simps)
      then show ?thesis using for_each_setup [OF u(1) prepare_setup] try_send_setup [OF u(2)] by (simp add: t' fold_setup)
    qed
  qed
  show "HTCSendPkt E p t = Some (st, t') \<Longrightarrow> setup_of t' = setup_of t"
    by (auto simp: HTCSendPkt_def dest: m split: if_splits)
qed

lemma poll_setup [simp]:
  "setup_of (HTCSendCompletePollTimerStop e t) = setup_of t" "setup_of (HTCSendCompletePollTimerStart e t) = setup_of t"
  "setup_of (HTCSendCompleteCheck e t) = setup_of t"
  by (simp_all add: HTCSendCompletePollTimerStop_def HTCSendCompletePollTimerStart_def HTCSendCompleteCheck_def ep_setup_def)

lemma data_loop_setup: "data_loop E e q t = Some (st, t') \<Longrightarrow> setup_of t' = setup_of t"
proof (induction E e q t rule: data_loop.induct)
  case (1 E e q t)
  then obtain q1 t1 where b: "try_bundle E True e q t = Some (q1, t1)"
    by (subst (asm) (2) data_loop.simps) (auto split: option.splits)
  note t1 = try_bundle_setup [OF b]
  show ?case
  proof (cases q1)
    case Nil
    then show ?thesis using 1(2) b t1 by (subst (asm) data_loop.simps) auto
  next
    case (Cons p q2)
    obtain s2 t2 where s: "send_single E e p t1 = (s2, t2)" by fastforce
    have t2: "setup_of t2 = setup_of t" using bundle_steps_setup(5) [OF s] t1 by simp
    show ?thesis
    proof (cases "s2 = A_OK")
      case True
      then have "setup_of t' = setup_of t2"
        using 1(1) [OF b refl Cons s [symmetric]] 1(2) b Cons s by (subst (asm) (2) data_loop.simps) simp
      then show ?thesis using t2 by simp
    next
      case False
      then show ?thesis using 1(2) b Cons s t2 by (subst (asm) data_loop.simps) (auto simp: ep_setup_def)
    qed
  qed
qed

lemma send_data_setup: "send_data E e t = Some (st, t') \<Longrightarrow> setup_of t' = setup_of t"
proof -
  assume a: "send_data E e t = Some (st, t')"
  let ?u = "upd_ep e (\<lambda>ep. ep\<lparr>TxProcessCount := TxProcessCount ep + 1\<rparr>) t"
  let ?g = "if TxCreditFlowEnabled (EndPoint ?u e) then GetHTCSendPacketsCreditBased e [] ?u
      else Some (GetHTCSendPackets e [] (if HTC_ENABLE_BUNDLE ?u then HTC_MAX_TX_BUNDLE_SEND_LIMIT
                   else HIFGetFreeQueueNumber (UL_PipeID (EndPoint ?u e))) ?u)"
  have u: "setup_of ?u = setup_of t" by (simp add: ep_setup_def)
  have g: "?g = Some (q, v) \<Longrightarrow> setup_of v = setup_of t" for q v
    by (auto simp: GetHTCSendPacketsCreditBased_def GetHTCSendPackets_def u dest!: credit_loop_setup resource_loop_setup split: if_splits)
  show ?thesis
  proof (cases "1 < TxProcessCount (EndPoint ?u e)")
    case True
    then show ?thesis using a u by (auto simp: send_data_def Let_def ep_setup_def)
  next
    case False
    define G where "G = ?g"
    have e: "send_data E e t = do { (q, v) \<leftarrow> G; (s, w) \<leftarrow> data_loop E e q v;
        let t = upd_ep e (\<lambda>ep. ep\<lparr>TxProcessCount := 0\<rparr>) w;
        Some (s, if ul_is_polled (EndPoint t e) then HTCSendCompletePollTimerStart e t else t) }"
      unfolding G_def using False by (simp add: send_data_def Let_def)
    obtain q v s w where q: "G = Some (q, v)" "data_loop E e q v = Some (s, w)"
      and w: "t' = (let t = upd_ep e (\<lambda>ep. ep\<lparr>TxProcessCount := 0\<rparr>) w in if ul_is_polled (EndPoint t e) then HTCSendCompletePollTimerStart e t else t)"
      using a unfolding e by (auto simp: Let_def bind_eq_Some_conv)
    then have "setup_of v = setup_of t" "setup_of w = setup_of v" using g [of q v] data_loop_setup by (simp_all add: G_def)
    then have "setup_of w = setup_of t" by simp
    then show ?thesis using w by (auto simp: Let_def ep_setup_def)
  qed
qed

lemma data_pkt_setup: "HTCSendDataPkt E p m t = Some (st, t') \<Longrightarrow> setup_of t' = setup_of t"
proof -
  have "queue_data e p t = Some u \<Longrightarrow> setup_of u = setup_of t" for e u
    by (auto simp: queue_data_def Let_def bind_eq_Some_conv ep_setup_def)
  then show "HTCSendDataPkt E p m t = Some (st, t') \<Longrightarrow> setup_of t' = setup_of t"
    by (fastforce simp: HTCSendDataPkt_def Let_def bind_eq_Some_conv dest: send_data_setup split: if_splits)
qed

section \<open>Completed transfers, flushing and credits\<close>

lemma lookup_setup: "HTCLookupTxPacket e nb t = (r, t') \<Longrightarrow> setup_of t' = setup_of t"
  by (auto simp: HTCLookupTxPacket_def lookup_begin_def lookup_end_def Let_def ep_setup_def
      split: list.splits option.splits prod.splits if_splits)

lemma completion_handler_setup: "HTCTxCompletionHandler E nb e t = Some t' \<Longrightarrow> setup_of t' = setup_of t"
proof -
  assume a: "HTCTxCompletionHandler E nb e t = Some t'"
  obtain r u where l: "HTCLookupTxPacket e nb (t\<lparr>TX_comp_cnt := TX_comp_cnt t + 1\<rparr>) = (r, u)" by fastforce
  have u: "setup_of u = setup_of t" using lookup_setup [OF l] by simp
  show ?thesis
  proof (cases r)
    case None
    then show ?thesis using a l u by (auto simp: HTCTxCompletionHandler_def bind_eq_Some_conv dest: try_send_setup split: if_splits)
  next
    case (Some p)
    then show ?thesis using a l u
      by (auto simp: HTCTxCompletionHandler_def Let_def bind_eq_Some_conv fold_setup bundle_steps_setup(2) dest!: try_send_setup split: if_splits)
  qed
qed

lemma flush_setup [simp]: "setup_of (HTCFlushEndpointTX e t) = setup_of t"
  by (simp add: HTCFlushEndpointTX_def fold_setup ep_setup_def)

lemma resume_setup: "resume_endpoint E i t = Some t' \<Longrightarrow> setup_of t' = setup_of t"
  by (auto simp: resume_endpoint_def Let_def bind_eq_Some_conv dest!: try_send_setup split: if_splits)

lemma resource_handler_setup: "HTCTxResourceAvailHandler E pipe t = Some t' \<Longrightarrow> setup_of t' = setup_of t"
  by (auto simp: HTCTxResourceAvailHandler_def bind_eq_Some_conv dest!: try_send_setup split: option.splits)

lemma credited_setup: "send_credited E e t = Some t' \<Longrightarrow> setup_of t' = setup_of t"
  by (auto simp: send_credited_def bind_eq_Some_conv dest!: try_send_setup data_pkt_setup split: if_splits)

lemma credit_report_setup: "HTCProcessCreditRpt E rs t = Some t' \<Longrightarrow> setup_of t' = setup_of t"
proof (induction rs arbitrary: t)
  case (Cons r rs)
  obtain i c where r: "r = (i, c)" by fastforce
  let ?e = "unat i"
  let ?u = "upd_ep ?e (\<lambda>ep. ep\<lparr>TxCredits := TxCredits ep + int (unat c)\<rparr>) t"
  let ?v = "if ServiceID (EndPoint ?u ?e) = WMI_CONTROL_SVC then record_credits HTC_PROCESS_CREDIT_REPORT ?e ?u else ?u"
  have v: "setup_of ?v = setup_of t" by (simp add: ep_setup_def)
  show ?case
  proof (cases "ENDPOINT_MAX \<le> ?e")
    case True
    then show ?thesis using Cons.prems r by simp
  next
    case False
    then have "HTCProcessCreditRpt E (r # rs) t = Option.bind (send_credited E ?e ?v) (HTCProcessCreditRpt E rs)"
      by (simp add: r Let_def)
    then have "Option.bind (send_credited E ?e ?v) (HTCProcessCreditRpt E rs) = Some t'" using Cons.prems by (simp only:)
    then obtain w where w: "send_credited E ?e ?v = Some w" "HTCProcessCreditRpt E rs w = Some t'"
      unfolding bind_eq_Some_conv by blast
    show ?thesis using Cons.IH [OF w(2)] credited_setup [OF w(1)] v by simp
  qed
qed simp

lemma trailer_setup: "HTCProcessTrailer E buf t = Some (st, t') \<Longrightarrow> setup_of t' = setup_of t"
proof (induction E buf t rule: HTCProcessTrailer.induct)
  case (1 E buf t)
  show ?case
  proof (cases "length buf < sizeof_HTC_RECORD_HDR")
    case True
    then show ?thesis using 1(2) by (subst (asm) HTCProcessTrailer.simps) (auto split: if_splits)
  next
    case big: False
    then have ne: "buf \<noteq> []" by (auto simp: sizeof_HTC_RECORD_HDR_def)
    obtain len rid where f: "HTC_GET_FIELD buf HTC_RECORD_HDR_LENGTH = Some len" "HTC_GET_FIELD buf HTC_RECORD_HDR_RECORDID = Some rid"
      using 1(2) big ne by (subst (asm) HTCProcessTrailer.simps) (auto simp: bind_eq_Some_conv)
    let ?body = "drop sizeof_HTC_RECORD_HDR buf"
    show ?thesis
    proof (cases "length ?body < unat len")
      case True
      then show ?thesis using 1(2) big ne f by (subst (asm) HTCProcessTrailer.simps) (simp add: Let_def)
    next
      case False
      let ?r = "if rid = ucast HTC_RECORD_CREDITS then HTCProcessCreditRpt E (credit_entries (take (unat len) ?body)) t else Some t"
      obtain u where u: "?r = Some u" "HTCProcessTrailer E (drop (unat len) ?body) u = Some (st, t')"
        using 1(2) big ne f False by (subst (asm) HTCProcessTrailer.simps) (auto simp: Let_def bind_eq_Some_conv)
      have "setup_of u = setup_of t" using u(1) credit_report_setup by (auto split: if_splits)
      moreover have "setup_of t' = setup_of u" using 1(1) [OF ne big f refl refl False u(1) u(2)] .
      ultimately show ?thesis by simp
    qed
  qed
qed

section \<open>Runs of the send side\<close>

lemma htc_step_setup: "htc_step E op t = Some t' \<Longrightarrow> setup_of t' = setup_of t"
proof (cases op)
  case (OpFlush e)
  then show "htc_step E op t = Some t' \<Longrightarrow> ?thesis" by (auto simp: HTCFlushEndpoint_def split: if_splits)
next
  case OpResumeAll
  then show "htc_step E op t = Some t' \<Longrightarrow> ?thesis"
    by (auto simp: HTCTxResumeAllHandler_def dest: for_each_setup [OF _ resume_setup])
qed (auto dest: send_multiple_setup data_pkt_setup completion_handler_setup resource_handler_setup trailer_setup)

section \<open>Receiving\<close>

lemma recv_steps_setup [simp]:
  "setup_of (DoRecvCompletion e q t) = setup_of t" "setup_of (RecvPacketCompletion e p t) = setup_of t"
  "setup_of (FreeHTCPacketContainer p t) = setup_of t" "setup_of (adf_nbuf_free nb t) = setup_of t"
proof -
  show d: "setup_of (DoRecvCompletion e q t) = setup_of t" for q by (simp add: DoRecvCompletion_def)
  show "setup_of (RecvPacketCompletion e p t) = setup_of t" by (simp add: RecvPacketCompletion_def d)
qed (simp_all add: FreeHTCPacketContainer_def adf_nbuf_free_def)

lemma control_message_setup: "control_message nb t = Some (st, t') \<Longrightarrow> setup_of t' = setup_of t"
  by (auto simp: control_message_def Let_def bind_eq_Some_conv split: if_splits)

lemma data_message_setup: "data_message e nb len trl t = (st, t') \<Longrightarrow> setup_of t' = setup_of t"
  by (auto simp: data_message_def AllocateHTCPacketContainer_def Let_def split: list.splits)

lemma rx_setup: "HTCRxCompletionHandler E nb t = Some (st, t') \<Longrightarrow> setup_of t' = setup_of t"
proof -
  assume a: "HTCRxCompletionHandler E nb t = Some (st, t')"
  obtain ep where ep: "HTC_GET_FIELD (nb_data (nbufs t nb)) HTC_FRAME_HDR_ENDPOINTID = Some ep"
    using a by (auto simp: HTCRxCompletionHandler_def Let_def bind_eq_Some_conv)
  define u where "u = (if ul_is_polled (EndPoint t (unat ep)) then HTCSendCompleteCheck (unat ep) t else t)"
  have u: "setup_of u = setup_of t" by (simp add: u_def)
  from a have "Option.bind (Some ep) (\<lambda>ep. HTCRxCompletionHandler E nb t) = Some (st, t')" by simp
  then show ?thesis
    unfolding HTCRxCompletionHandler_def Let_def ep bind.bind_lunit u_def [symmetric]
    by (auto simp: bind_eq_Some_conv u dest!: trailer_setup control_message_setup data_message_setup split: if_splits)
qed

lemma wait_setup:
  "rx_all E nbs t = Some t' \<Longrightarrow> setup_of t' = setup_of t"
  "HTCWaitRecvCtrlMessage E nbs t = Some (st, t') \<Longrightarrow> setup_of t' = setup_of t"
proof -
  show r: "setup_of t' = setup_of t" if "rx_all E nbs t = Some t'" for t t'
    by (rule for_each_setup [OF that [unfolded rx_all_def]]) (auto simp: bind_eq_Some_conv dest: rx_setup)
  show "HTCWaitRecvCtrlMessage E nbs t = Some (st, t') \<Longrightarrow> setup_of t' = setup_of t"
    by (auto simp: HTCWaitRecvCtrlMessage_def bind_eq_Some_conv dest!: r split: if_splits)
qed

end
