(* ===== verification/Htc_Connect.thy ===== *)
theory Htc_Connect
  imports Htc_Config
begin

text \<open>
  Connecting services (htc_services.c): an endpoint gets a service once, as the target's response says, and
  no operation of HTC, connecting another service included, changes its setup afterwards.
\<close>

section \<open>Setting up an endpoint\<close>

text \<open>The states in which \<^const>\<open>setup_endpoint\<close> can end.\<close>

definition setup_in_use :: "HTC_SERVICE_CONNECT_REQ \<Rightarrow> nat \<Rightarrow> nat \<Rightarrow> u8 \<Rightarrow> HTC_TARGET \<Rightarrow> HTC_TARGET" where
  "setup_in_use req e maxMsgSize txAlloc t = upd_ep e (\<lambda>ep. ep\<lparr>ServiceID := req_ServiceID req,
     MaxTxQueueDepth := MaxSendQueueDepth req, MaxMsgLength := maxMsgSize, TxCredits := int (unat txAlloc),
     TxCreditSize := TargetCreditSize t,
     TxCreditsPerMaxMsg := int (maxMsgSize div TargetCreditSize t) + (if maxMsgSize mod TargetCreditSize t \<noteq> 0 then 1 else 0),
     EpCallBacks := EpCallbacks req\<rparr>) (upd_ep e (\<lambda>ep. ep\<lparr>Id := e\<rparr>) t)"

definition setup_connected :: "htc_setup_env \<Rightarrow> nat \<Rightarrow> u8 \<Rightarrow> u8 \<Rightarrow> bool \<Rightarrow> HTC_TARGET \<Rightarrow> HTC_TARGET" where
  "setup_connected S e ul dl disable t =
    (let t = upd_ep e (\<lambda>ep. ep\<lparr>UL_PipeID := ul, DL_PipeID := dl\<rparr>) t;
         t = (if AltDataCreditSize t \<noteq> 0 \<and> swap_mailbox S \<and> ul = 1 \<and> dl = 0
              then upd_ep e (\<lambda>ep. ep\<lparr>TxCreditSize := unat (AltDataCreditSize t)\<rparr>) t else t)
     in if disable then upd_ep e (\<lambda>ep. ep\<lparr>TxCreditFlowEnabled := False\<rparr>) t else t)"

lemma setup_endpoint_cases:
  assumes "setup_endpoint S req e maxMsgSize txAlloc disable resp t = Some (st, resp', t')"
  obtains (refused) "st = A_EPROTO" "t' = t \<or> e < ENDPOINT_MAX \<and> t' = upd_ep e (\<lambda>ep. ep\<lparr>Id := e\<rparr>) t"
  | (unmapped) "st \<noteq> A_OK" "e < ENDPOINT_MAX" "ServiceID (EndPoint t e) = 0" "TargetCreditSize t \<noteq> 0" "maxMsgSize \<noteq> 0"
      "t' = setup_in_use req e maxMsgSize txAlloc t"
  | (connected) ul dl where "st = A_OK" "e < ENDPOINT_MAX" "ServiceID (EndPoint t e) = 0" "TargetCreditSize t \<noteq> 0" "maxMsgSize \<noteq> 0"
      "HIFMapServiceToPipe (swap_mailbox S) (req_ServiceID req) = (A_OK, Some (ul, dl))"
      "resp' = resp\<lparr>resp_Endpoint := e, resp_MaxMsgLength := maxMsgSize\<rparr>"
      "t' = setup_connected S e ul dl disable (setup_in_use req e maxMsgSize txAlloc t)"
proof -
  have s: "ServiceID (EndPoint (upd_ep e (\<lambda>ep. ep\<lparr>Id := e\<rparr>) t) e) = ServiceID (EndPoint t e)"
    "TargetCreditSize (upd_ep e f t) = TargetCreditSize t" for f by (simp_all add: upd_ep_def)
  obtain st0 pipes where p: "HIFMapServiceToPipe (swap_mailbox S) (req_ServiceID req) = (st0, pipes)" by fastforce
  show ?thesis
  proof (cases "e < ENDPOINT_MAX \<and> maxMsgSize \<noteq> 0 \<and> ServiceID (EndPoint t e) = 0")
    case False
    then show ?thesis using assms refused by (auto simp: setup_endpoint_def Let_def s split: if_splits)
  next
    case True
    then have z: "TargetCreditSize t \<noteq> 0" using assms by (auto simp: setup_endpoint_def Let_def s split: if_splits)
    show ?thesis
    proof (cases pipes)
      case None
      have "st0 \<noteq> A_OK" using p None by (auto simp: HIFMapServiceToPipe_def split: if_splits)
      then show ?thesis using unmapped assms True z p None by (auto simp: setup_endpoint_def Let_def s setup_in_use_def)
    next
      case (Some pp)
      obtain ul dl where pp: "pp = (ul, dl)" by (cases pp)
      have ok: "st0 = A_OK" using p Some by (auto simp: HIFMapServiceToPipe_def split: if_splits)
      have "st = A_OK \<and> resp' = resp\<lparr>resp_Endpoint := e, resp_MaxMsgLength := maxMsgSize\<rparr> \<and>
          t' = setup_connected S e ul dl disable (setup_in_use req e maxMsgSize txAlloc t)"
        using assms True z p Some pp ok unfolding setup_endpoint_def setup_connected_def setup_in_use_def Let_def s by simp
      then show ?thesis using connected True z p Some pp ok by blast
    qed
  qed
qed

text \<open>A target without packets stays one.\<close>

lemma setup_endpoint_started:
  assumes "started t" and "setup_endpoint S req e maxMsgSize txAlloc disable resp t = Some (st, resp', t')"
  shows "started t'"
proof -
  have u: "started (setup_in_use req e maxMsgSize txAlloc t)" if "e < ENDPOINT_MAX"
    unfolding setup_in_use_def using assms(1) that by (intro started_ep) (auto simp: started_def upd_ep_def at_rest_def)
  have c: "started (setup_connected S e ul dl d u)" if "started u" "e < ENDPOINT_MAX" for ul dl d u
    unfolding setup_connected_def Let_def using that by (auto simp: started_def upd_ep_def at_rest_def)
  from assms(2) show ?thesis
  proof (cases rule: setup_endpoint_cases)
    case refused
    then show ?thesis using assms(1) started_ep [OF assms(1), of "\<lambda>ep. ep\<lparr>Id := e\<rparr>" e] by (auto simp: started_def)
  qed (use u c in auto)
qed

text \<open>What an endpoint is after its setup, and that the others are as before.\<close>

definition usable :: "HTC_ENDPOINT \<Rightarrow> bool" where
  "usable ep \<longleftrightarrow> 0 < MaxMsgLength ep \<and> 0 < TxCreditSize ep \<and> 0 < TxCreditsPerMaxMsg ep"

definition well_set_up :: "HTC_TARGET \<Rightarrow> bool" where
  "well_set_up t \<longleftrightarrow> (\<forall>e<ENDPOINT_MAX. Id (EndPoint t e) = e \<and> (ServiceID (EndPoint t e) \<noteq> 0 \<longrightarrow> usable (EndPoint t e)))"

lemma well_set_up_cong: "(\<And>e. ep_setup (EndPoint t' e) = ep_setup (EndPoint t e)) \<Longrightarrow> well_set_up t' = well_set_up t"
  by (simp add: well_set_up_def usable_def ep_setup_def)

lemma setup_of_eq:
  assumes "setup_of t' = setup_of t"
  shows "ep_setup (EndPoint t' e) = ep_setup (EndPoint t e)" and "TargetCreditSize t' = TargetCreditSize t"
    and "ServiceTxAllocTable t' = ServiceTxAllocTable t" and "well_set_up t' = well_set_up t"
    and "ServiceID (EndPoint t' e) = ServiceID (EndPoint t e)"
proof -
  show s: "ep_setup (EndPoint t' e) = ep_setup (EndPoint t e)" for e using assms by (auto simp: setup_of_def fun_eq_iff)
  show "well_set_up t' = well_set_up t" by (rule well_set_up_cong) (rule s)
  show "ServiceID (EndPoint t' e) = ServiceID (EndPoint t e)" using s [of e] by (simp add: ep_setup_def)
qed (use assms in \<open>simp_all add: setup_of_def\<close>)

lemma credits_per_message: "0 < m \<Longrightarrow> 0 < c \<Longrightarrow> 0 < int (m div c) + (if m mod c \<noteq> 0 then 1 else 0)" for m c :: nat
  by (cases "m < c") (auto simp: div_greater_zero_iff)

lemma setup_endpoint_keeps:
  assumes "setup_endpoint S req e maxMsgSize txAlloc disable resp t = Some (st, resp', t')" and "well_set_up t"
  shows "well_set_up t' \<and> (\<forall>x. ServiceID (EndPoint t x) \<noteq> 0 \<or> x \<noteq> e \<longrightarrow> ep_setup (EndPoint t' x) = ep_setup (EndPoint t x))"
  using assms(1)
proof (cases rule: setup_endpoint_cases)
  case refused
  then show ?thesis using assms(2) by (auto simp: well_set_up_def usable_def ep_setup_def upd_ep_def split: if_splits)
next
  case unmapped
  then show ?thesis using assms(2) credits_per_message by (auto simp: well_set_up_def usable_def setup_in_use_def upd_ep_def)
next
  case (connected ul dl)
  have o: "EndPoint t' x = EndPoint t x" if "x \<noteq> e" for x
    using that connected(8) by (simp add: setup_in_use_def setup_connected_def Let_def upd_ep_def)
  have "Id (EndPoint t' e) = e" "MaxMsgLength (EndPoint t' e) = maxMsgSize"
    "TxCreditsPerMaxMsg (EndPoint t' e) = int (maxMsgSize div TargetCreditSize t) + (if maxMsgSize mod TargetCreditSize t \<noteq> 0 then 1 else 0)"
    "TxCreditSize (EndPoint t' e) \<in> {TargetCreditSize t, unat (AltDataCreditSize t)}" "0 < TxCreditSize (EndPoint t' e)"
    using connected(4,8) by (simp_all add: setup_in_use_def setup_connected_def Let_def upd_ep_def unat_gt_0)
  then have "Id (EndPoint t' e) = e" "usable (EndPoint t' e)" using connected(4,5) credits_per_message by (simp_all add: usable_def)
  then show ?thesis using assms(2) o connected(3) unfolding well_set_up_def by metis
qed

section \<open>Connecting a service\<close>

lemma control_packet_setup: "HTCAllocControlTxPacket S t = (a, t') \<Longrightarrow> setup_of t' = setup_of t"
  by (auto simp: HTCAllocControlTxPacket_def split: option.splits prod.splits)

lemma set_control_message_setup [simp]: "setup_of (set_control_message p msg t) = setup_of t"
  by (simp add: set_control_message_def Let_def)

text \<open>Either nothing is set up, or the endpoint that the response names is.\<close>

lemma connect_response_cases:
  assumes "connect_response S req txAlloc disable resp t = Some (st, resp', t')"
  obtains (refused) "st \<noteq> A_OK" "t' = t"
  | (accepted) eid sz ml resp1 where
      "response_fields (CtrlResponseBuffer t) = Some (HTC_MSG_CONNECT_SERVICE_RESPONSE_ID, HTC_SERVICE_SUCCESS, eid, sz, ml)"
      "setup_endpoint S req (unat eid) (unat sz) txAlloc disable resp1 (t\<lparr>CtrlResponseProcessing := False\<rparr>) = Some (st, resp', t')"
  using assms by (auto simp: connect_response_def Let_def bind_eq_Some_conv split: if_splits)

text \<open>What the whole connection does, over any state: the exchange of messages keeps every setup.\<close>

definition allotted :: "HTC_SERVICE_CONNECT_REQ \<Rightarrow> HTC_TARGET \<Rightarrow> u8" where
  "allotted req t = (if req_ServiceID req = HTC_CTRL_RSVD_SVC then 0 else HTCGetCreditAllocation t (req_ServiceID req))"

definition answered :: "HTC_SERVICE_CONNECT_REQ \<Rightarrow> nat \<Rightarrow> nat \<Rightarrow> HTC_TARGET \<Rightarrow> bool" where
  "answered req e m t \<longleftrightarrow> (if req_ServiceID req = HTC_CTRL_RSVD_SVC then e = ENDPOINT_0 \<and> m = HTC_MAX_CONTROL_MESSAGE_LENGTH
     else \<exists>eid sz ml. response_fields (CtrlResponseBuffer t) =
            Some (HTC_MSG_CONNECT_SERVICE_RESPONSE_ID, HTC_SERVICE_SUCCESS, eid, sz, ml) \<and> e = unat eid \<and> m = unat sz)"

definition without_credits :: "HTC_SERVICE_CONNECT_REQ \<Rightarrow> bool" where
  "without_credits req \<longleftrightarrow> req_ServiceID req \<noteq> HTC_CTRL_RSVD_SVC \<and>
     ConnectionFlags req AND HTC_CONNECT_FLAGS_DISABLE_CREDIT_FLOW_CTRL \<noteq> 0"

lemma connect_cases:
  assumes "HTCConnectService E S early arrivals req resp t = Some (st, resp', t')"
  obtains (unchanged) "st \<noteq> A_OK" "setup_of t' = setup_of t"
  | (assigned) e m resp1 u where "setup_of u = setup_of t" "answered req e m u"
      "setup_endpoint S req e m (allotted req t) (without_credits req) resp1 u = Some (st, resp', t')"
proof (cases "req_ServiceID req = HTC_CTRL_RSVD_SVC")
  case True
  then show ?thesis using assms assigned [of t ENDPOINT_0 HTC_MAX_CONTROL_MESSAGE_LENGTH]
    by (simp add: HTCConnectService_def allotted_def answered_def without_credits_def)
next
  case other: False
  obtain a t1 where a: "HTCAllocControlTxPacket S t = (a, t1)" by fastforce
  note k1 = control_packet_setup [OF a]
  show ?thesis
  proof (cases a)
    case None
    then show ?thesis using assms other a k1 unchanged by (auto simp: HTCConnectService_def Let_def)
  next
    case (Some p)
    have a: "HTCAllocControlTxPacket S t = (Some p, t1)" using a Some by simp
    define rest where "rest t2 = do { u \<leftarrow> rx_all E early t2; (st, u) \<leftarrow> HTCWaitRecvCtrlMessage E arrivals u;
        if st \<noteq> A_OK then Some (st, resp, u) else connect_response S req (allotted req t) (without_credits req) resp u }" for t2
    have k: "without_credits req = (ConnectionFlags req AND HTC_CONNECT_FLAGS_DISABLE_CREDIT_FLOW_CTRL \<noteq> 0)"
      "allotted req t = HTCGetCreditAllocation t (req_ServiceID req)"
      using other by (simp_all add: without_credits_def allotted_def)
    have e: "HTCConnectService E S early arrivals req resp t = do { msg \<leftarrow> connect_message req (allotted req t);
        (st, t) \<leftarrow> HTCSendPkt E p (set_control_message p msg t1); if st \<noteq> A_OK then Some (st, resp, t) else rest t }"
      unfolding HTCConnectService_def Let_def a rest_def k by (simp only: other if_False option.case prod.case)
    obtain msg st2 t2 where s2: "HTCSendPkt E p (set_control_message p msg t1) = Some (st2, t2)"
      and c: "(if st2 \<noteq> A_OK then Some (st2, resp, t2) else rest t2) = Some (st, resp', t')"
      using assms unfolding e by (auto simp: bind_eq_Some_conv)
    have k2: "setup_of t2 = setup_of t" using send_multiple_setup(2) [OF s2] k1 by simp
    show ?thesis
    proof (cases "st2 = A_OK")
      case False
      then show ?thesis using c k2 unchanged by simp
    next
      case True
      obtain t3 s4 t4 where s3: "rx_all E early t2 = Some t3" "HTCWaitRecvCtrlMessage E arrivals t3 = Some (s4, t4)"
        and d: "(if s4 \<noteq> A_OK then Some (s4, resp, t4) else connect_response S req (allotted req t) (without_credits req) resp t4) = Some (st, resp', t')"
        using c True by (auto simp: rest_def bind_eq_Some_conv)
      have k4: "setup_of t4 = setup_of t" using wait_setup(1) [OF s3(1)] wait_setup(2) [OF s3(2)] k2 by simp
      show ?thesis
      proof (cases "s4 = A_OK")
        case False
        then show ?thesis using d k4 unchanged by simp
      next
        case True
        with d have "connect_response S req (allotted req t) (without_credits req) resp t4 = Some (st, resp', t')" by simp
        then show ?thesis
        proof (cases rule: connect_response_cases)
          case refused
          then show ?thesis using k4 unchanged by simp
        next
          case (accepted eid sz ml resp1)
          show ?thesis
            by (rule assigned [OF _ _ accepted(2)]) (use k4 accepted(1) other in \<open>simp_all add: answered_def\<close>)
        qed
      qed
    qed
  qed
qed

lemma connect_keeps:
  assumes "HTCConnectService E S early arrivals req resp t = Some (st, resp', t')" and "well_set_up t"
  shows "well_set_up t'" and "\<And>e. ServiceID (EndPoint t e) \<noteq> 0 \<Longrightarrow> ep_setup (EndPoint t' e) = ep_setup (EndPoint t e)"
proof -
  from assms(1) have "well_set_up t' \<and> (\<forall>e. ServiceID (EndPoint t e) \<noteq> 0 \<longrightarrow> ep_setup (EndPoint t' e) = ep_setup (EndPoint t e))"
  proof (cases rule: connect_cases)
    case unchanged
    then show ?thesis using setup_of_eq [OF unchanged(2)] assms(2) by simp
  next
    case (assigned e m resp1 u)
    note q = setup_of_eq [OF assigned(1)]
    show ?thesis using setup_endpoint_keeps [OF assigned(3)] q(4) assms(2) by (auto simp: q(1) q(5))
  qed
  then show "well_set_up t'" "\<And>e. ServiceID (EndPoint t e) \<noteq> 0 \<Longrightarrow> ep_setup (EndPoint t' e) = ep_setup (EndPoint t e)" by auto
qed

text \<open>The credits that a message of \<open>m\<close> bytes needs at most.\<close>

lemma credits_round_up:
  fixes m c :: nat
  assumes "0 < c" and "x = int (m div c) + (if m mod c \<noteq> 0 then 1 else 0)"
  shows "int m \<le> x * int c \<and> x * int c < int m + int c"
proof -
  have "int m = int (m div c) * int c + int (m mod c)" by (metis div_mult_mod_eq of_nat_add of_nat_mult)
  moreover have "int (m mod c) < int c" using mod_less_divisor [OF assms(1), of m] by (simp only: of_nat_less_iff)
  ultimately show ?thesis using assms(2) by (auto simp: distrib_right)
qed

text \<open>An endpoint set up for a request, with the credits \<open>alloc\<close>; \<open>flow\<close> says whether it used credits before.\<close>

definition connected_as :: "htc_setup_env \<Rightarrow> HTC_SERVICE_CONNECT_REQ \<Rightarrow> u8 \<Rightarrow> bool \<Rightarrow> HTC_TARGET \<Rightarrow> HTC_ENDPOINT \<Rightarrow> bool" where
  "connected_as S req alloc flow t ep \<longleftrightarrow>
     ServiceID ep = req_ServiceID req \<and> EpCallBacks ep = EpCallbacks req \<and> MaxTxQueueDepth ep = MaxSendQueueDepth req \<and>
     TxCredits ep = int (unat alloc) \<and> TxCreditFlowEnabled ep = (flow \<and> \<not> without_credits req) \<and>
     HIFMapServiceToPipe (swap_mailbox S) (req_ServiceID req) = (A_OK, Some (UL_PipeID ep, DL_PipeID ep)) \<and>
     TxCreditSize ep = (if AltDataCreditSize t \<noteq> 0 \<and> swap_mailbox S \<and> UL_PipeID ep = 1 \<and> DL_PipeID ep = 0
       then unat (AltDataCreditSize t) else TargetCreditSize t) \<and>
     int (MaxMsgLength ep) \<le> TxCreditsPerMaxMsg ep * int (TargetCreditSize t) \<and>
     TxCreditsPerMaxMsg ep * int (TargetCreditSize t) < int (MaxMsgLength ep) + int (TargetCreditSize t)"

text \<open>A connection that succeeds sets up the endpoint that it reports, as the target and the request say.\<close>

lemma connect_success:
  assumes "HTCConnectService E S early arrivals req resp t = Some (A_OK, resp', t')" and "well_set_up t"
  defines "e \<equiv> resp_Endpoint resp'"
  shows "e < ENDPOINT_MAX \<and> ServiceID (EndPoint t e) = 0 \<and> answered req e (MaxMsgLength (EndPoint t' e)) t' \<and>
    resp_MaxMsgLength resp' = MaxMsgLength (EndPoint t' e) \<and>
    connected_as S req (allotted req t) (TxCreditFlowEnabled (EndPoint t e)) t (EndPoint t' e) \<and>
    (\<forall>x. x \<noteq> e \<longrightarrow> ep_setup (EndPoint t' x) = ep_setup (EndPoint t x))"
  using assms(1)
proof (cases rule: connect_cases)
  case (assigned i m resp1 u)
  note q = setup_of_eq [OF assigned(1)]
  have a: "AltDataCreditSize u = AltDataCreditSize t" "TxCreditFlowEnabled (EndPoint u i) = TxCreditFlowEnabled (EndPoint t i)"
    using assigned(1) q(1) [of i] by (simp_all add: setup_of_def ep_setup_def)
  have o: "\<forall>x. x \<noteq> i \<longrightarrow> ep_setup (EndPoint t' x) = ep_setup (EndPoint t x)"
    using setup_endpoint_keeps [OF assigned(3)] q(4) assms(2) by (auto simp: q(1))
  from assigned(3) show ?thesis
  proof (cases rule: setup_endpoint_cases)
    case (connected ul dl)
    have e: "e = i" using connected(7) by (simp add: e_def)
    have "answered req i m t' = answered req i m u"
      using connected(8) by (simp add: answered_def setup_connected_def setup_in_use_def Let_def upd_ep_def)
    moreover have ep: "MaxMsgLength (EndPoint t' i) = m" "ServiceID (EndPoint t' i) = req_ServiceID req" "EpCallBacks (EndPoint t' i) = EpCallbacks req"
      "MaxTxQueueDepth (EndPoint t' i) = MaxSendQueueDepth req" "TxCredits (EndPoint t' i) = int (unat (allotted req t))"
      "UL_PipeID (EndPoint t' i) = ul" "DL_PipeID (EndPoint t' i) = dl"
      "TxCreditFlowEnabled (EndPoint t' i) = (TxCreditFlowEnabled (EndPoint u i) \<and> \<not> without_credits req)"
      "TxCreditSize (EndPoint t' i) = (if AltDataCreditSize u \<noteq> 0 \<and> swap_mailbox S \<and> ul = 1 \<and> dl = 0
         then unat (AltDataCreditSize u) else TargetCreditSize u)"
      and n: "TxCreditsPerMaxMsg (EndPoint t' i) = int (m div TargetCreditSize u) + (if m mod TargetCreditSize u \<noteq> 0 then 1 else 0)"
      using connected(8) by (simp_all add: setup_connected_def setup_in_use_def Let_def upd_ep_def)
    have "0 < TargetCreditSize u" using connected(4) by simp
    from credits_round_up [OF this n] have "connected_as S req (allotted req t) (TxCreditFlowEnabled (EndPoint t i)) t (EndPoint t' i)"
      using ep connected(6) by (simp add: connected_as_def a q(2))
    moreover have "resp_MaxMsgLength resp' = m" using connected(7) by simp
    ultimately show ?thesis using e ep(1) connected(2,3) assigned(2) o q(5) by simp
  qed simp_all
qed simp

section \<open>Runs with connections\<close>

text \<open>
  Everything HTC does between its creation and its stop: the operations of the send side, the frames the HIF
  delivers, the ready message, connections and the start. No condition is put on the order or the arguments.
\<close>

datatype conn_op =
    OpStep htc_op
  | OpReceive addr
  | OpWaitTarget htc_setup_env HTC_EP_CALLBACKS "addr list"
  | OpConnect htc_setup_env "addr list" "addr list" HTC_SERVICE_CONNECT_REQ HTC_SERVICE_CONNECT_RESP
  | OpStart htc_setup_env

fun conn_exec :: "htc_env \<Rightarrow> conn_op \<Rightarrow> HTC_TARGET \<Rightarrow> HTC_TARGET option" where
  "conn_exec E (OpStep op) t = htc_step E op t"
| "conn_exec E (OpReceive nb) t = map_option snd (HTCRxCompletionHandler E nb t)"
| "conn_exec E (OpWaitTarget S cb arrivals) t = map_option snd (HTCWaitTarget E S cb arrivals t)"
| "conn_exec E (OpConnect S early arrivals req resp) t = map_option (snd \<circ> snd) (HTCConnectService E S early arrivals req resp t)"
| "conn_exec E (OpStart S) t = map_option snd (HTCStart E S t)"

inductive conn_run :: "htc_env \<Rightarrow> HTC_TARGET \<Rightarrow> conn_op list \<Rightarrow> HTC_TARGET \<Rightarrow> bool" for E t where
  conn_Nil: "conn_run E t [] t"
| conn_snoc: "conn_run E t ops s \<Longrightarrow> conn_exec E op s = Some s' \<Longrightarrow> conn_run E t (ops @ [op]) s'"

definition keeps_connected :: "HTC_TARGET \<Rightarrow> HTC_TARGET \<Rightarrow> bool" where
  "keeps_connected t t' \<longleftrightarrow> well_set_up t' \<and>
     (\<forall>e. ServiceID (EndPoint t e) \<noteq> 0 \<longrightarrow> ep_setup (EndPoint t' e) = ep_setup (EndPoint t e))"

lemma same_setup_keeps: "setup_of t' = setup_of t \<Longrightarrow> well_set_up t \<Longrightarrow> keeps_connected t t'"
  using setup_of_eq [of t' t] by (simp add: keeps_connected_def)

lemma buffers_eps: "HTCSetupTargetBufferAssignments S t = Some t' \<Longrightarrow> EndPoint t' = EndPoint t"
  by (auto simp: HTCSetupTargetBufferAssignments_def Let_def bind_eq_Some_conv split: if_splits)

lemma wait_target_cases:
  assumes "HTCWaitTarget E S cb arrivals t = Some (st, t')"
  obtains (waited) u where "setup_of u = setup_of t" "EndPoint t' = EndPoint u"
  | (control) u v req resp resp' where "setup_of u = setup_of t" "EndPoint v = EndPoint u"
      "HTCConnectService E S [] [] req resp v = Some (st, resp', t')"
proof -
  obtain s1 u where u: "HTCWaitRecvCtrlMessage E arrivals t = Some (s1, u)"
    using assms by (auto simp: HTCWaitTarget_def bind_eq_Some_conv)
  note k = wait_setup(2) [OF u]
  show ?thesis
  proof (cases "s1 \<noteq> A_OK \<or> CtrlResponseLength u < sizeof_HTC_READY_EX_MSG")
    case True
    then show ?thesis using assms u waited [OF k] by (auto simp: HTCWaitTarget_def split: if_splits)
  next
    case False
    then obtain mid cc cs mb ac where f: "ready_fields (CtrlResponseBuffer u) = Some (mid, cc, cs, mb, ac)"
      using assms u by (auto simp: HTCWaitTarget_def bind_eq_Some_conv)
    let ?v = "u\<lparr>TotalTransmitCredits := int (unat cc), TargetCreditSize := unat cs,
      MaxMsgsPerHTCBundle := (if (ucast mb :: u8) < 1 then 1 else ucast mb), AltDataCreditSize := ucast ac\<rparr>"
    let ?req = "\<lparr>req_ServiceID = HTC_CTRL_RSVD_SVC, ConnectionFlags = 0, pMetaData = None, MetaDataLength = 0,
      EpCallbacks = cb, MaxSendQueueDepth = NUM_CONTROL_TX_BUFFERS\<rparr>"
    let ?resp = "\<lparr>resp_pMetaData = None, BufferLength = 0, resp_ActualLength = 0, resp_Endpoint = 0,
      resp_MaxMsgLength = 0, ConnectRespCode = 0\<rparr>"
    have e: "HTCWaitTarget E S cb arrivals t = (if mid \<noteq> HTC_MSG_READY_ID then Some (A_ECOMM, u)
        else if TotalTransmitCredits ?v = 0 \<or> TargetCreditSize ?v = 0 then Some (A_ECOMM, ?v)
        else do { w \<leftarrow> HTCSetupTargetBufferAssignments S (?v\<lparr>CtrlResponseProcessing := False\<rparr>);
          (st, _, t) \<leftarrow> HTCConnectService E S [] [] ?req ?resp w; Some (st, t) })"
      using False u f by (simp add: HTCWaitTarget_def Let_def cong: if_cong)
    show ?thesis
    proof (cases "mid \<noteq> HTC_MSG_READY_ID \<or> TotalTransmitCredits ?v = 0 \<or> TargetCreditSize ?v = 0")
      case True
      then show ?thesis using assms waited [OF k] unfolding e by (auto split: if_splits)
    next
      case go: False
      then obtain w resp' where w: "HTCSetupTargetBufferAssignments S (?v\<lparr>CtrlResponseProcessing := False\<rparr>) = Some w"
        "HTCConnectService E S [] [] ?req ?resp w = Some (st, resp', t')"
        using assms unfolding e by (auto simp: bind_eq_Some_conv split del: if_split)
      show ?thesis by (rule control [OF k _ w(2)]) (use buffers_eps [OF w(1)] in simp)
    qed
  qed
qed

lemma conn_exec_keeps:
  assumes "conn_exec E op t = Some t'" and "well_set_up t"
  shows "keeps_connected t t'"
proof (cases op)
  case (OpStep op)
  then show ?thesis using assms htc_step_setup same_setup_keeps by auto
next
  case (OpReceive nb)
  then show ?thesis using assms rx_setup same_setup_keeps by auto
next
  case (OpConnect S early arrivals req resp)
  then show ?thesis using assms connect_keeps by (auto simp: keeps_connected_def)
next
  case (OpStart S)
  then obtain a u where u: "HTCAllocControlTxPacket S t = (a, u)" by fastforce
  have "setup_of t' = setup_of t"
    using assms(1) OpStart u control_packet_setup [OF u] send_multiple_setup(2)
    by (auto simp: HTCStart_def bind_eq_Some_conv split: option.splits)
  then show ?thesis using assms(2) by (rule same_setup_keeps)
next
  case (OpWaitTarget S cb arrivals)
  then obtain st where "HTCWaitTarget E S cb arrivals t = Some (st, t')" using assms(1) by auto
  then show ?thesis
  proof (cases rule: wait_target_cases)
    case (waited u)
    then have "keeps_connected t u" using assms(2) by (intro same_setup_keeps)
    then show ?thesis using waited(2) by (simp add: keeps_connected_def well_set_up_def)
  next
    case (control u v req resp resp')
    note q = setup_of_eq [OF control(1)]
    have "well_set_up v" using q(4) assms(2) control(2) by (simp add: well_set_up_def)
    from connect_keeps [OF control(3) this] show ?thesis using q(1,5) control(2) by (simp add: keeps_connected_def)
  qed
qed

lemma created_set_up: "well_set_up (HTCCreate malloc t)"
proof -
  have "Id (EndPoint (HTCCreate malloc t) e) = e \<and> ServiceID (EndPoint (HTCCreate malloc t) e) = 0" if "e < ENDPOINT_MAX" for e
    by (rule create_eps [of malloc t e]) (use that in \<open>simp add: reset_endpoint_def\<close>)
  then show ?thesis by (simp add: well_set_up_def)
qed

lemma conn_run_set_up: "conn_run E t ops t' \<Longrightarrow> well_set_up t \<Longrightarrow> well_set_up t'"
  by (induction rule: conn_run.induct) (auto dest: conn_exec_keeps simp: keeps_connected_def)

text \<open>C31: An endpoint is given to a service once. However the operations follow each other between HTCCreate and HTCStop, with any arguments and with any messages from the target, each endpoint knows its index, and one that has a service has room for messages, a credit size and credits per message that are not zero. None of them - sending, completing, flushing, a received frame, the ready message, the start, the connection of another service - changes the setup of an endpoint that has a service. And a connection that succeeds reports an endpoint that had none: the one that the target's response names (endpoint 0 for the control service), set up with the message size of the response and with the callbacks, queue depth, pipes, credits and credit size that the request and the target give the service, while the setup of every other endpoint is as before.\<close>

theorem htc_endpoints_assigned_once:
  assumes "conn_run E (HTCCreate malloc t0) ops t"
  shows "(\<forall>e<ENDPOINT_MAX. Id (EndPoint t e) = e \<and> (ServiceID (EndPoint t e) \<noteq> 0 \<longrightarrow>
       0 < MaxMsgLength (EndPoint t e) \<and> 0 < TxCreditSize (EndPoint t e) \<and> 0 < TxCreditsPerMaxMsg (EndPoint t e))) \<and>
    (\<forall>op t' e. conn_exec E op t = Some t' \<longrightarrow> ServiceID (EndPoint t e) \<noteq> 0 \<longrightarrow> ep_setup (EndPoint t' e) = ep_setup (EndPoint t e)) \<and>
    (\<forall>S early arrivals req resp resp' t' e.
       HTCConnectService E S early arrivals req resp t = Some (A_OK, resp', t') \<longrightarrow> e = resp_Endpoint resp' \<longrightarrow>
       e < ENDPOINT_MAX \<and> ServiceID (EndPoint t e) = 0 \<and> answered req e (MaxMsgLength (EndPoint t' e)) t' \<and>
       resp_MaxMsgLength resp' = MaxMsgLength (EndPoint t' e) \<and>
       connected_as S req (allotted req t) (TxCreditFlowEnabled (EndPoint t e)) t (EndPoint t' e) \<and>
       (\<forall>x. x \<noteq> e \<longrightarrow> ep_setup (EndPoint t' x) = ep_setup (EndPoint t x)))"
proof -
  have w: "well_set_up t" using conn_run_set_up [OF assms created_set_up] .
  then have "\<forall>e<ENDPOINT_MAX. Id (EndPoint t e) = e \<and> (ServiceID (EndPoint t e) \<noteq> 0 \<longrightarrow> usable (EndPoint t e))"
    by (simp add: well_set_up_def)
  moreover have "ep_setup (EndPoint t' e) = ep_setup (EndPoint t e)"
    if "conn_exec E op t = Some t'" "ServiceID (EndPoint t e) \<noteq> 0" for op t' e
    using conn_exec_keeps [OF that(1) w] that(2) by (simp add: keeps_connected_def)
  ultimately show ?thesis using connect_success [OF _ w] unfolding usable_def by blast
qed

section \<open>Witness\<close>

text \<open>The target's ready message: six credits of 64 bytes, no bundles.\<close>

definition sample_ready :: nbuf where
  "sample_ready = \<lparr>nb_room = [], nb_extra = [], nb_data = [0, 0, 12, 0, 0, 0, 0, 0, 1, 0, 6, 0, 64, 0, 0, 0, 0, 0, 0, 0], nb_maps = 0\<rparr>"

definition sample_setup_env :: htc_setup_env where
  "sample_setup_env = \<lparr>ctrl_alloc = None, swap_mailbox = False, epping = False\<rparr>"

definition sample_wait :: conn_op where
  "sample_wait = OpWaitTarget sample_setup_env (EpCallBacks zero_endpoint) [300]"

lemma sample_ready_received:
  assumes "nbufs t 300 = sample_ready" and "\<not> CtrlResponseProcessing t" and "\<not> ul_is_polled (EndPoint t 0)"
  shows "\<exists>u xs. HTCRxCompletionHandler E 300 t = Some (A_OK, u) \<and> CtrlResponseValid u \<and> CtrlResponseLength u = 12 \<and>
    CtrlResponseBuffer u = [1, 0, 6, 0, 64, 0, 0, 0, 0, 0, 0, 0] @ xs \<and> EndPoint u = EndPoint t"
proof -
  have f: "HTC_GET_FIELD (nb_data sample_ready) HTC_FRAME_HDR_ENDPOINTID = Some 0"
    "HTC_GET_FIELD (nb_data sample_ready) HTC_FRAME_HDR_PAYLOADLEN = Some 12"
    "HTC_GET_FIELD (nb_data sample_ready) HTC_FRAME_HDR_FLAGS = Some 0"
    "HTC_GET_FIELD (nb_data sample_ready) HTC_FRAME_HDR_CONTROLBYTES0 = Some 0"
    "HTC_GET_FIELD [1, 0, 6, 0, 64, 0, 0, 0, 0, 0, 0, 0] HTC_UNKNOWN_MSG_MESSAGEID = Some 1"
    by code_simp+
  have d: "length (nb_data sample_ready) = 20" "nb_data (nbuf_pull_head 8 sample_ready) = [1, 0, 6, 0, 64, 0, 0, 0, 0, 0, 0, 0]"
    by (simp_all add: sample_ready_def nbuf_pull_head_def)
  show ?thesis
    using assms f d by (simp add: HTCRxCompletionHandler_def control_message_def Let_def HTC_HDR_LENGTH_def ENDPOINT_MAX_def ENDPOINT_0_def
      set_nb_def adf_nbuf_free_def HTC_MAX_CONTROL_MESSAGE_LENGTH_def HTC_MSG_SEND_SUSPEND_COMPLETE_def HTC_MSG_NACK_SUSPEND_def)
qed

lemma sample_control:
  assumes "ServiceID (EndPoint t 0) = 0" and "TargetCreditSize t = 64"
  shows "\<exists>resp' t'. HTCConnectService E sample_setup_env [] [] \<lparr>req_ServiceID = HTC_CTRL_RSVD_SVC, ConnectionFlags = 0, pMetaData = None,
      MetaDataLength = 0, EpCallbacks = cb, MaxSendQueueDepth = n\<rparr> resp t = Some (A_OK, resp', t') \<and>
    ServiceID (EndPoint t' 0) = HTC_CTRL_RSVD_SVC \<and> MaxMsgLength (EndPoint t' 0) = 256"
proof -
  have m: "HIFMapServiceToPipe (swap_mailbox sample_setup_env) HTC_CTRL_RSVD_SVC = (A_OK, Some (1, 0))" by code_simp
  have "\<not> swap_mailbox sample_setup_env" by (simp add: sample_setup_env_def)
  then show ?thesis using m assms
    by (simp add: HTCConnectService_def setup_endpoint_def Let_def ENDPOINT_0_def ENDPOINT_MAX_def HTC_MAX_CONTROL_MESSAGE_LENGTH_def upd_ep_def)
qed

lemma sample_waited:
  obtains t where "conn_exec sample_htc_env sample_wait (HTCCreate (\<lambda>_. None) (sample_target\<lparr>nbufs := \<lambda>_. sample_ready\<rparr>)) = Some t"
    and "ServiceID (EndPoint t 0) = HTC_CTRL_RSVD_SVC" and "MaxMsgLength (EndPoint t 0) = 256"
proof -
  let ?t = "HTCCreate (\<lambda>_. None) (sample_target\<lparr>nbufs := \<lambda>_. sample_ready\<rparr>)"
  have r: "nbufs (fold (\<lambda>i. upd_ep i (f i)) is s) = nbufs s"
    "CtrlResponseProcessing (fold (\<lambda>i. upd_ep i (f i)) is s) = CtrlResponseProcessing s" for f "is" s
    by (induction "is" arbitrary: s) (simp_all add: upd_ep_def)
  have k: "fold (\<lambda>i t. t) js s = s" for js s by (induction js) simp_all
  have n: "nbufs ?t 300 = sample_ready" "\<not> CtrlResponseProcessing ?t"
    by (simp_all add: HTCCreate_def Let_def ResetEndpointStates_def r k zero_target_def upd_ep_def split: prod.split option.split)
  obtain a b where ep: "EndPoint ?t 0 = (reset_endpoint 0 zero_endpoint)\<lparr>UL_PipeID := a, DL_PipeID := b\<rparr>"
    by (rule create_eps [of "\<lambda>_. None" "sample_target\<lparr>nbufs := \<lambda>_. sample_ready\<rparr>" 0]) (simp add: ENDPOINT_MAX_def)
  have z: "\<not> ul_is_polled (EndPoint ?t 0)" "ServiceID (EndPoint ?t 0) = 0" by (simp_all add: ep reset_endpoint_def zero_endpoint_def)
  obtain u xs where u: "HTCRxCompletionHandler sample_htc_env 300 (?t\<lparr>CtrlResponseValid := False\<rparr>) = Some (A_OK, u)"
    "CtrlResponseValid u" "CtrlResponseLength u = 12" "CtrlResponseBuffer u = [1, 0, 6, 0, 64, 0, 0, 0, 0, 0, 0, 0] @ xs" "EndPoint u = EndPoint ?t"
    using sample_ready_received [of "?t\<lparr>CtrlResponseValid := False\<rparr>" sample_htc_env] n z by auto
  have f: "ready_fields ([1, 0, 6, 0, 64, 0, 0, 0, 0, 0, 0, 0] @ xs) = Some (1, 6, 64, 0, 0)"
    by (simp add: ready_fields_def HTC_GET_FIELD_def read32_def of_le32_def MS_def HTC_READY_MSG_MESSAGEID_def HTC_READY_MSG_CREDITCOUNT_def
      HTC_READY_MSG_CREDITSIZE_def HTC_READY_EX_MSG_MAXMSGSPERHTCBUNDLE_def HTC_READY_EX_MSG_ALTDATACREDITSIZE_def)
  have w: "HTCWaitRecvCtrlMessage sample_htc_env [300] ?t = Some (A_OK, u\<lparr>CtrlResponseValid := False\<rparr>)"
    using u(1,2) by (simp add: HTCWaitRecvCtrlMessage_def rx_all_def)
  have "ServiceTxAllocTable (u\<lparr>CtrlResponseValid := False\<rparr>) = ServiceTxAllocTable ?t" by (rule setup_of_eq(3) [OF wait_setup(2) [OF w]])
  also have "\<dots> = replicate HTC_MAX_SERVICE_ALLOC_ENTRIES (0, 0)"
  proof -
    have "ServiceTxAllocTable (fold (\<lambda>i. upd_ep i (f i)) is s) = ServiceTxAllocTable s" for f "is" s
      by (induction "is" arbitrary: s) (simp_all add: upd_ep_def)
    then show ?thesis
      by (simp add: HTCCreate_def Let_def ResetEndpointStates_def k zero_target_def upd_ep_def split: prod.split option.split)
  qed
  finally have tab: "length (ServiceTxAllocTable u) = 8" by (simp add: HTC_MAX_SERVICE_ALLOC_ENTRIES_def)
  define v where "v = u\<lparr>CtrlResponseValid := False, TotalTransmitCredits := 6, TargetCreditSize := 64, MaxMsgsPerHTCBundle := 1,
    AltDataCreditSize := 0, CtrlResponseProcessing := False\<rparr>"
  define x where "x = v\<lparr>ServiceTxAllocTable := (ServiceTxAllocTable v)[1 := (WMI_CONTROL_SVC, 6)]\<rparr>"
  have b: "HTCSetupTargetBufferAssignments sample_setup_env v = Some x"
    using tab by (simp add: HTCSetupTargetBufferAssignments_def v_def x_def sample_setup_env_def)
  have "ServiceID (EndPoint x 0) = 0" "TargetCreditSize x = 64" using u(5) z(2) by (simp_all add: x_def v_def)
  note c = sample_control [OF this]
  have "HTCWaitTarget sample_htc_env sample_setup_env (EpCallBacks zero_endpoint) [300] ?t =
      do { (st, _, t) \<leftarrow> HTCConnectService sample_htc_env sample_setup_env [] []
        \<lparr>req_ServiceID = HTC_CTRL_RSVD_SVC, ConnectionFlags = 0, pMetaData = None, MetaDataLength = 0,
         EpCallbacks = EpCallBacks zero_endpoint, MaxSendQueueDepth = NUM_CONTROL_TX_BUFFERS\<rparr>
        \<lparr>resp_pMetaData = None, BufferLength = 0, resp_ActualLength = 0, resp_Endpoint = 0,
         resp_MaxMsgLength = 0, ConnectRespCode = 0\<rparr> x; Some (st, t) }"
    using w u(3,4) f b [unfolded v_def] by (simp add: HTCWaitTarget_def Let_def sizeof_HTC_READY_EX_MSG_def HTC_MSG_READY_ID_def)
  then obtain t where "HTCWaitTarget sample_htc_env sample_setup_env (EpCallBacks zero_endpoint) [300] ?t = Some (A_OK, t)"
      "ServiceID (EndPoint t 0) = HTC_CTRL_RSVD_SVC" "MaxMsgLength (EndPoint t 0) = 256"
    using c [of sample_htc_env "EpCallBacks zero_endpoint" NUM_CONTROL_TX_BUFFERS "\<lparr>resp_pMetaData = None, BufferLength = 0,
      resp_ActualLength = 0, resp_Endpoint = 0, resp_MaxMsgLength = 0, ConnectRespCode = 0\<rparr>"] by auto
  then show thesis by (intro that [of t]) (simp_all only: sample_wait_def conn_exec.simps option.map snd_conv)
qed

theorem htc_endpoints_assigned_once_witness:
  "\<exists>t. conn_run sample_htc_env (HTCCreate (\<lambda>_. None) (sample_target\<lparr>nbufs := \<lambda>_. sample_ready\<rparr>)) [sample_wait] t \<and>
     ServiceID (EndPoint t 0) = HTC_CTRL_RSVD_SVC \<and> MaxMsgLength (EndPoint t 0) = 256 \<and> 0 < TxCreditsPerMaxMsg (EndPoint t 0) \<and>
     (\<forall>op t'. conn_exec sample_htc_env op t = Some t' \<longrightarrow> ep_setup (EndPoint t' 0) = ep_setup (EndPoint t 0))"
proof -
  obtain t where t: "conn_exec sample_htc_env sample_wait (HTCCreate (\<lambda>_. None) (sample_target\<lparr>nbufs := \<lambda>_. sample_ready\<rparr>)) = Some t"
    "ServiceID (EndPoint t 0) = HTC_CTRL_RSVD_SVC" "MaxMsgLength (EndPoint t 0) = 256" by (rule sample_waited)
  have r: "conn_run sample_htc_env (HTCCreate (\<lambda>_. None) (sample_target\<lparr>nbufs := \<lambda>_. sample_ready\<rparr>)) [sample_wait] t"
    using conn_snoc [OF conn_Nil t(1)] by simp
  have n: "ServiceID (EndPoint t 0) \<noteq> 0" "(0::nat) < ENDPOINT_MAX"
    using t(2) by (simp_all add: HTC_CTRL_RSVD_SVC_def MAKE_SERVICE_ID_def ENDPOINT_MAX_def)
  note a = htc_endpoints_assigned_once [OF r]
  have "0 < TxCreditsPerMaxMsg (EndPoint t 0)" by (rule conjunct1 [OF a, rule_format, OF n(2), THEN conjunct2, rule_format, OF n(1), THEN conjunct2, THEN conjunct2])
  moreover have "conn_exec sample_htc_env op t = Some t' \<Longrightarrow> ep_setup (EndPoint t' 0) = ep_setup (EndPoint t 0)" for op t'
    using conjunct1 [OF conjunct2 [OF a]] n(1) by simp
  ultimately show ?thesis using r t(2,3) by (intro exI [of _ t]) simp
qed

end
