(* ===== verification/Spec2Isabelle.thy ===== *)
theory Spec2Isabelle
  imports Prelude Link_Memory Vos_Lock Csr_LinkList Vos_List Id_Pool Lim_Aid Key_Table Dph_Hash Nbuf Rx_Reorder Rx_Window Rx_Pn
    Cfg Cfg_Msg Cfg_Store Cfg_Download Cfg_Request
    Txrx_Types Peer_Table Peer_Inv Tx_Queue Tx_Sched Tx_Desc Tx_Flow Peer_Life Tx_Classify Peer_Class Tx_Path Tx_Own Tx_Moves Tx_Frame Tx_Inv Tx_Select Tx_Run Tx_Ops Tx_Seq Tx_Wait Tx_Correct Tx_Complete Tx_Life Tx_Quiet Local_Ids Peer_Refs Peer_Unref Peer_Ops Peer_Msgs Peer_Attach Peer_Run Peer_Init Peer_Correct
    Htc_List Htc_Types Htc_Send Htc_Complete Htc_Recv Htc_Setup Htc_Inv Htc_Steps Htc_Issue Htc_Drain Htc_Try Htc_Done Htc_Run
    Htc_Wire Htc_Faults Htc_Config Htc_Connect
begin

text \<open>
  Verification of the host driver of the QCA6174 wireless chip (src/AIO/drivers/qcacld-new/CORE; all file names
  below are relative to it).

  \<^bold>\<open>The program.\<close> The driver sits between the kernel and the firmware of the chip. Its layers, from the top: HDD (the
  interface to the kernel), SME (requests, sessions, roaming) and SAP (access point), MAC with the protocol entities
  (LIM, DPH, CFG), WMA and WMI (commands to the firmware), the data path CLD_TXRX (TXRX and HTT), and the transport
  HTC and HIF. VOSS is the library all of them use: locks, lists, timers, messages. The layers call each other through
  functions and queued messages; the data path is entered by the kernel with frames to send and by the transport with
  messages from the target.

  \<^bold>\<open>What is modelled, and where.\<close>

    \<^item> VOSS locks (VOSS/src/vos_lock.c): \<open>Vos_Lock\<close>. A recursive mutex with an 8-bit count; threads are interleaved
      as steps of \<open>lock_step\<close>.

    \<^item> Linked lists (VOSS/src/vos_list.c, SME/src/csr/csrLinkList.c): \<open>Link_Memory\<close> has the memory of link nodes, the
      predicate \<open>dll\<close> that relates a list head to a sequence of nodes, and the locales \<open>link_prims\<close> (the four link
      primitives) and \<open>node_deque\<close>; \<open>Vos_List\<close> and \<open>Csr_LinkList\<close> interpret them on the code's own functions. The list
      functions of the kernel, which are not in the repository, are the parameters of the locale \<open>vos_kernel\<close>.

    \<^item> Association identifiers (MAC/src/pe/lim/limAIDmgmt.c): \<open>Lim_Aid\<close>, an interpretation of the contract \<open>id_pool\<close> of
      \<open>Id_Pool\<close>.

    \<^item> The station table (MAC/src/dph/dphHashTable.c): \<open>Dph_Hash\<close>, an interpretation of the contract \<open>key_table\<close> of
      \<open>Key_Table\<close>.

    \<^item> The configuration store (MAC/src/cfg/cfgApi.c, cfgProcMsg.c, cfgSendMsg.c): \<open>Cfg\<close> and \<open>Cfg_Msg\<close> have the
      accessors, the messages and the download of the defaults; \<open>Cfg_Store\<close> shows what the accessors do under the layout
      invariant, \<open>Cfg_Download\<close> that the download establishes it, \<open>Cfg_Request\<close> the round trips and the decoding of
      requests.

    \<^item> Receive path (CLD_TXRX/TXRX/ol_rx_reorder.c, ol_rx_pn.c, ol_rx.c): \<open>Nbuf\<close> has the linked buffers, \<open>Rx_Reorder\<close> the
      reordering windows with \<open>Rx_Window\<close> for their proofs, \<open>Rx_Pn\<close> the replay check and the keys.

    \<^item> Transmit path, high-latency branch (CLD_TXRX/TXRX/ol_tx_queue.c, ol_tx_sched.c, ol_tx_desc.c, ol_tx.c, ol_tx_send.c):
      \<open>Tx_Queue\<close> has the queues, the device and the credits of queue groups, \<open>Tx_Sched\<close> the weighted round-robin scheduler,
      \<open>Tx_Desc\<close> the pool of descriptors (a second interpretation of \<open>id_pool\<close>), \<open>Tx_Flow\<close> the scheduling run and the
      operations on queues, \<open>Tx_Classify\<close> the classification of frames by their bytes (ol_tx_classify.c), \<open>Tx_Path\<close> the
      send functions and the handlers of completions. \<open>Tx_Inv\<close>, \<open>Tx_Select\<close>,
      \<open>Tx_Run\<close>, \<open>Tx_Ops\<close>, \<open>Tx_Seq\<close> and \<open>Tx_Wait\<close> prove that queues and scheduler stay consistent, \<open>Tx_Own\<close>, \<open>Tx_Moves\<close>
      and \<open>Tx_Complete\<close> that every descriptor is in one place, \<open>Tx_Frame\<close> and \<open>Peer_Class\<close> that a frame that is sent
      gives back its reference on a peer; \<open>Tx_Correct\<close> and \<open>Tx_Life\<close> have the properties. What the layers below do with
      a frame is an argument (\<open>tx_env\<close>).

    \<^item> The table of peers (CLD_TXRX/TXRX/ol_txrx_peer_find.c, ol_txrx.c): \<open>Txrx_Types\<close> has the shared enumerations,
      \<open>Peer_Table\<close> the peer objects, the hash table by address and the identifiers, \<open>Peer_Inv\<close> its invariant and what the
      searches find, \<open>Peer_Life\<close> attaching, detaching, the messages of the target and the release of references.
      \<open>Local_Ids\<close> has the invariant of the pool of local identifiers, \<open>Peer_Refs\<close> that of the counters of references
      and of the lists of the virtual devices, \<open>Tx_Quiet\<close> that only peers that exist have frames. \<open>Peer_Unref\<close>,
      \<open>Peer_Ops\<close>, \<open>Peer_Msgs\<close> and \<open>Peer_Attach\<close> show that each operation keeps them, \<open>Peer_Run\<close> puts the operations
      and the transmit path together in sequences (\<open>life_run\<close>), \<open>Peer_Init\<close> starts them from the attached device, and
      \<open>Peer_Correct\<close> has the properties.

    \<^item> Host-target communication (SERVICES/HTC/htc_send.c, htc_recv.c, htc.c, htc_services.c): \<open>Htc_List\<close> has the lists of
      SERVICES/COMMON/dl_list.h and the packet queues of htc_packet.h on them (a further interpretation of \<open>node_deque\<close>) and
      shows that a queue is a sequence; the other theories use sequences. \<open>Htc_Types\<close> has the message fields, network
      buffers, packets, endpoints and the target, \<open>Htc_Send\<close> and \<open>Htc_Complete\<close> the send side, \<open>Htc_Recv\<close> the receive side,
      \<open>Htc_Setup\<close> the connection of services, start and stop. \<open>Htc_Inv\<close> states the invariant \<open>wf\<close> of packets, containers of
      bundles and credits; \<open>Htc_Steps\<close>, \<open>Htc_Issue\<close>, \<open>Htc_Drain\<close>, \<open>Htc_Try\<close> and \<open>Htc_Done\<close> show that each operation keeps it and
      where it puts each packet and credit; \<open>Htc_Run\<close> puts them together in sequences (\<open>htc_run\<close>). \<open>Htc_Wire\<close> is about the
      bytes, \<open>Htc_Faults\<close> about the paths where HTC goes wrong, \<open>Htc_Config\<close> and \<open>Htc_Connect\<close> about the endpoints: which
      operations leave their setup alone, and that each is given to a service once (\<open>conn_run\<close>). The HIF's answers and the allocated memory are an
      argument (\<open>htc_env\<close>, \<open>htc_setup_env\<close>); the calls HTC makes to its clients are a list in the target.

  \<^bold>\<open>Conventions.\<close> A structure is a record with the names of its fields (a prefix where two structures share a name), an
  enumeration a datatype or a constant per value, an integer a word of its width; \<^verbatim>\<open>int\<close> values that the code never lets
  overflow are \<^typ>\<open>int\<close>. Pointers into an array are indices, other pointers names or addresses, the null pointer is
  \<open>None\<close> or \<open>NULL\<close>. A function that changes state takes it as its last argument and returns the new one. The value \<open>None\<close> of
  a result stands for what C leaves undefined (an access outside an array, a null pointer followed) and for a call
  that does not return (a loop without end, a lock never released); so a theorem that a function returns \<open>Some\<close> says
  that it ends and stays inside its arrays. No fuel is used: loops are structural recursions, functions with a
  termination proof, or \<^verbatim>\<open>partial_function (option)\<close>, whose results are shown to be \<open>Some\<close>. Locks of the data path,
  statistics, traces and log output are left out, and each operation is one step, as the locks make it.

  \<^bold>\<open>What the theorems show.\<close> Lists: the operations are those of a queue or a stack for every memory, removal and
  insertion take effect at the right node, and the error paths of vos_list.c that keep the mutex. Locks: mutual
  exclusion in every interleaving, and the wrap-around of the nesting count. Identifiers and stations: no identifier is
  given twice, the table is a map. Configuration: what was set is read back, requests are decoded as they were encoded,
  and the overrun of a request with a wrong length. Receive: frames leave a window in order and once, the replay check
  accepts only increasing numbers, and which frames a hole in a window loses. Transmit: the scheduler always lists exactly the queues with
  frames to send and counts them right, serves them in order within the credits and starves none, and no descriptor is
  lost. Peers: the counter of every peer is the number of its references, a peer is freed exactly when the last one
  goes, and what the searches by address and by local identifier find. These runs (\<open>tx_run\<close>, \<open>path_run\<close>, \<open>life_run\<close>) are
  of operations that meet the conditions \<open>tx_may\<close>, \<open>path_may\<close> and \<open>peer_may\<close>, which the code does not check: they leave out
  the cases in which the code itself loses count, such as flushing paused queues with frames, and the findings name them. HTC: no packet is lost or duplicated
  (without bundles), credits are never overspent, packets leave in order until the queue is empty or the credits do
  not reach, headers and trailers are read as they were written, an endpoint keeps
  the setup of its service, and six ways in which it loses packets or credits.
  Where the code does not do what it means to, the theorem states what it does, as a property of kind error.

  \<^bold>\<open>Not modelled, and why.\<close> The backports directory is vendored Linux code. HDD, WMA, the services, HIF and
  BMI are calls of the kernel, device registers and translations between message formats, with little
  state of their own; dot11f.c is generated. The handlers of SME, LIM and SAP work on large session records; only the
  data structures under them are modelled. Of HTC the other buses' branches, runtime power management, statistics, the
  reset of the target after a timeout and client callbacks that call HTC again are left out; in the runs of
  \<open>htc_run\<close> the packets handed over fit the queue of their endpoint, and \<open>Htc_Faults\<close> has what happens when they do not. The configuration assumed is the one of the high-latency (SDIO)
  build where the data path differs; the low-latency variants are left out.
\<close>

end
